(* ===== verification/Prelude.thy ===== *)
theory Prelude
  imports Complex_Main "HOL-Library.AList" "HOL-Library.Sublist"
begin

text \<open>
  What the components share: thrown errors, JavaScript's \<open>Map\<close>, number and string helpers of the
  standard library, sequencing of calls that have effects, and three interfaces that several
  components implement or rely on: a machine that keeps an invariant over every run, a key-value
  store, and a machine with an abstract specification.

  Conventions.  JavaScript numbers that the code only counts with, compares and adds (counters,
  versions, sizes, millisecond timestamps) are \<^typ>\<open>int\<close>; numbers that are divided or
  multiplied by a rate are \<^typ>\<open>rat\<close>.  Rounding beyond \<open>2\<^sup>5\<^sup>3\<close>, \<open>NaN\<close> and the infinities
  are outside the model.  A value that may be \<open>undefined\<close> or \<open>null\<close> is an \<^typ>\<open>'a option\<close>.
  \<open>Date.now()\<close> is an argument of the operation that reads it.  An \<open>async\<close> operation is the
  function from the state at its call to the state at its end where nothing can interleave, and
  one step for each stretch between two \<open>await\<close>s where other calls can.
\<close>

named_theorems run_simps \<open>equations that unfold a run of a component by one operation\<close>
named_theorems inv_intros \<open>introduction rules: operations preserve their component's invariant\<close>

section \<open>Thrown errors\<close>

text \<open>A thrown \<open>Error\<close>: its \<open>name\<close> and its \<open>message\<close>.\<close>

datatype js_error = JsError (error_name: string) (error_message: string)

definition plain_error :: "string \<Rightarrow> js_error" where
  "plain_error msg = JsError ''Error'' msg"

text \<open>A call that throws or rejects is \<^term>\<open>Inl e\<close>, one that returns is \<^term>\<open>Inr v\<close>.\<close>

type_synonym ('e, 'a) outcome = "'e + 'a"

definition is_returned :: "('e, 'a) outcome \<Rightarrow> bool" where
  "is_returned r = (case r of Inl e \<Rightarrow> False | Inr v \<Rightarrow> True)"

lemma is_returned_simps [simp]:
  "is_returned (Inl e) = False" "is_returned (Inr v) = True"
  by (simp_all add: is_returned_def)

text \<open>What a promise rejects with: an error the callback threw, or one this code creates.\<close>

datatype 'e thrown = Rethrown 'e | NewError js_error

section \<open>JavaScript's Map\<close>

text \<open>
  A \<open>Map\<close> keeps its entries in insertion order; \<open>set\<close> on a present key changes the value in
  place, on an absent one appends.  This is what the library's association lists do.
\<close>

type_synonym ('k, 'v) jsmap = "('k \<times> 'v) list"

abbreviation jget :: "('k, 'v) jsmap \<Rightarrow> 'k \<Rightarrow> 'v option" where
  "jget m k \<equiv> map_of m k"

abbreviation jset :: "'k \<Rightarrow> 'v \<Rightarrow> ('k, 'v) jsmap \<Rightarrow> ('k, 'v) jsmap" where
  "jset k v m \<equiv> AList.update k v m"

abbreviation jdelete :: "'k \<Rightarrow> ('k, 'v) jsmap \<Rightarrow> ('k, 'v) jsmap" where
  "jdelete k m \<equiv> AList.delete k m"

definition jhas :: "('k, 'v) jsmap \<Rightarrow> 'k \<Rightarrow> bool" where
  "jhas m k = (jget m k \<noteq> None)"

abbreviation jkeys :: "('k, 'v) jsmap \<Rightarrow> 'k list" where
  "jkeys m \<equiv> map fst m"

abbreviation jvalues :: "('k, 'v) jsmap \<Rightarrow> 'v list" where
  "jvalues m \<equiv> map snd m"

abbreviation jsize :: "('k, 'v) jsmap \<Rightarrow> int" where
  "jsize m \<equiv> int (length m)"

abbreviation jwf :: "('k, 'v) jsmap \<Rightarrow> bool" where
  "jwf m \<equiv> distinct (map fst m)"

lemma jget_jset [simp]: "jget (jset k v m) k' = (if k' = k then Some v else jget m k')"
  by (auto simp: update_conv')

lemma jget_jdelete [simp]: "jget (jdelete k m) k' = (if k' = k then None else jget m k')"
  by (auto simp: delete_conv')

lemma jhas_jset [simp]: "jhas (jset k v m) k' = (k' = k \<or> jhas m k')"
  by (simp add: jhas_def)

lemma jhas_jdelete [simp]: "jhas (jdelete k m) k' = (k' \<noteq> k \<and> jhas m k')"
  by (simp add: jhas_def)

lemma jhas_keys: "jhas m k \<longleftrightarrow> k \<in> set (jkeys m)"
  by (auto simp: jhas_def map_of_eq_None_iff)

lemma jwf_jset [inv_intros]: "jwf m \<Longrightarrow> jwf (jset k v m)"
  by (rule distinct_update)

lemma jwf_jdelete [inv_intros]: "jwf m \<Longrightarrow> jwf (jdelete k m)"
  by (rule distinct_delete)

lemma jget_iff_entry: "jwf m \<Longrightarrow> jget m k = Some v \<longleftrightarrow> (k, v) \<in> set m"
  by (simp add: map_of_eq_Some_iff)

lemma jset_absent: "\<not> jhas m k \<Longrightarrow> jset k v m = m @ [(k, v)]"
  by (induction m) (auto simp: jhas_def split: if_splits)

lemma jsize_jset: "jsize (jset k v m) = (if jhas m k then jsize m else jsize m + 1)"
  by (induction m) (auto simp: jhas_def)

lemma jvalues_jset_present:
  "jhas m k \<Longrightarrow> length (jvalues (jset k v m)) = length (jvalues m)"
  by (induction m) (auto simp: jhas_def)

lemma jkeys_jset: "jkeys (jset k v m) = (if jhas m k then jkeys m else jkeys m @ [k])"
  by (induction m) (auto simp: jhas_def)

lemma jkeys_jdelete: "jkeys (jdelete k m) = filter (\<lambda>k'. k' \<noteq> k) (jkeys m)"
  by (induction m) (auto simp: AList.delete_eq)

lemma jvalues_entries: "jwf m \<Longrightarrow> v \<in> set (jvalues m) \<longleftrightarrow> (\<exists>k. jget m k = Some v)"
  by (force simp: jget_iff_entry image_iff)

lemma jset_entries:
  "jwf m \<Longrightarrow> set (jset k v m) = insert (k, v) {e \<in> set m. fst e \<noteq> k}"
  by (induction m) (auto simp: image_iff)

lemma jdelete_entries: "set (jdelete k m) = {e \<in> set m. fst e \<noteq> k}"
  by (auto simp: AList.delete_eq)

section \<open>JavaScript's Set, and maps of sets\<close>

text \<open>A \<open>Set\<close> is its elements in insertion order.\<close>

definition set_add :: "'a \<Rightarrow> 'a list \<Rightarrow> 'a list" where
  "set_add x xs = (if x \<in> set xs then xs else xs @ [x])"

definition set_remove :: "'a \<Rightarrow> 'a list \<Rightarrow> 'a list" where
  "set_remove x xs = filter (\<lambda>y. y \<noteq> x) xs"

lemma set_ops [simp]: "set (set_add x xs) = insert x (set xs)" "set (set_remove x xs) = set xs - {x}"
  by (auto simp: set_add_def set_remove_def)

lemma set_fold_add: "set (fold set_add ts xs) = set ts \<union> set xs"
  by (induction ts arbitrary: xs) auto

lemma distinct_set_add: "distinct xs \<Longrightarrow> distinct (set_add x xs)"
  by (simp add: set_add_def)

lemma distinct_set_remove: "distinct xs \<Longrightarrow> distinct (set_remove x xs)"
  by (simp add: set_remove_def)

text \<open>The elements a map of sets holds under a key, none when the key is absent.\<close>

definition elems :: "('k, 'v list) jsmap \<Rightarrow> 'k \<Rightarrow> 'v list" where
  "elems m k = (case jget m k of Some xs \<Rightarrow> xs | None \<Rightarrow> [])"

lemma elems_jset [simp]: "elems (jset k xs m) k' = (if k' = k then xs else elems m k')"
  by (simp add: elems_def)

lemma elems_jdelete [simp]: "elems (jdelete k m) k' = (if k' = k then [] else elems m k')"
  by (simp add: elems_def)

section \<open>Numbers and strings of the standard library\<close>

text \<open>\<open>String(n)\<close> for an integer: decimal digits, with a sign when negative.\<close>

definition digit_char :: "nat \<Rightarrow> char" where
  "digit_char d = char_of (48 + d)"

fun nat_digits :: "nat \<Rightarrow> string" where
  "nat_digits n = (if n < 10 then [digit_char n] else nat_digits (n div 10) @ [digit_char (n mod 10)])"

declare nat_digits.simps [simp del]

definition show_int :: "int \<Rightarrow> string" where
  "show_int i = (if i < 0 then ''-'' @ nat_digits (nat (- i)) else nat_digits (nat i))"

text \<open>The number a string of decimal digits stands for.\<close>

definition digits_value :: "string \<Rightarrow> nat" where
  "digits_value s = foldl (\<lambda>a c. 10 * a + (of_char c - 48)) 0 s"

lemma digits_value_nat_digits [simp]: "digits_value (nat_digits n) = n"
proof (induction n rule: nat_digits.induct)
  case (1 n)
  have digit: "d < 10 \<Longrightarrow> of_char (digit_char d) - 48 = d" for d :: nat
    by (simp add: digit_char_def)
  show ?case
  proof (cases "n < 10")
    case True
    with digit show ?thesis by (subst nat_digits.simps) (simp add: digits_value_def)
  next
    case False
    with 1 digit [of "n mod 10"] show ?thesis by (subst nat_digits.simps) (simp add: digits_value_def)
  qed
qed

lemma digits_value_show_int [simp]: "0 \<le> i \<Longrightarrow> digits_value (show_int i) = nat i"
  by (simp add: show_int_def)

lemma show_int_eq: "0 \<le> i \<Longrightarrow> 0 \<le> j \<Longrightarrow> show_int i = show_int j \<longleftrightarrow> i = j"
  by (metis digits_value_show_int eq_nat_nat_iff)

text \<open>White space that \<open>String.prototype.trim\<close> removes, among the codes a \<^typ>\<open>char\<close> has.\<close>

definition is_js_space :: "char \<Rightarrow> bool" where
  "is_js_space c = (let n = (of_char c :: nat) in (9 \<le> n \<and> n \<le> 13) \<or> n = 32 \<or> n = 160)"

definition js_trim :: "string \<Rightarrow> string" where
  "js_trim s = rev (dropWhile is_js_space (rev (dropWhile is_js_space s)))"

lemma dropWhile_eq_Nil: "dropWhile P xs = [] \<longleftrightarrow> (\<forall>x \<in> set xs. P x)"
  by (induction xs) auto

lemma dropWhile_idem [simp]: "dropWhile P (dropWhile P xs) = dropWhile P xs"
  by (induction xs) auto

lemma hd_dropWhile_fails: "dropWhile P xs \<noteq> [] \<Longrightarrow> \<not> P (hd (dropWhile P xs))"
  by (induction xs) auto

lemma js_trim_ends:
  assumes "js_trim s \<noteq> []"
  shows "\<not> is_js_space (hd (js_trim s))" and "\<not> is_js_space (last (js_trim s))"
proof -
  define t where "t = dropWhile is_js_space s"
  define u where "u = dropWhile is_js_space (rev t)"
  have u: "u \<noteq> []" using assms by (simp add: js_trim_def t_def u_def)
  obtain p where p: "rev t = p @ u"
    by (metis takeWhile_dropWhile_id u_def)
  then have t: "t = rev u @ rev p" by (metis rev_append rev_rev_ident)
  have "t \<noteq> []" using t u by simp
  then have "\<not> is_js_space (hd t)" unfolding t_def by (rule hd_dropWhile_fails)
  moreover have trim: "js_trim s = rev u" by (simp add: js_trim_def u_def t_def)
  ultimately show "\<not> is_js_space (hd (js_trim s))"
    using t u by (simp add: hd_append)
  from u have "\<not> is_js_space (hd u)" unfolding u_def by (rule hd_dropWhile_fails)
  then show "\<not> is_js_space (last (js_trim s))"
    using u trim by (simp add: last_rev)
qed

lemma dropWhile_hd: "xs = [] \<or> \<not> P (hd xs) \<Longrightarrow> dropWhile P xs = xs"
  by (cases xs) auto

lemma js_trim_idem [simp]: "js_trim (js_trim s) = js_trim s"
proof (cases "js_trim s = []")
  case True
  show ?thesis unfolding True by (simp add: js_trim_def)
next
  case False
  then have "\<not> is_js_space (hd (js_trim s))" "\<not> is_js_space (hd (rev (js_trim s)))"
    by (simp_all add: js_trim_ends hd_rev)
  then show ?thesis
    unfolding js_trim_def [of "js_trim s"] by (simp only: dropWhile_hd rev_rev_ident simp_thms)
qed

lemma js_trim_empty: "js_trim s = [] \<longleftrightarrow> (\<forall>c \<in> set s. is_js_space c)"
proof -
  have "js_trim s = [] \<longleftrightarrow> (\<forall>c \<in> set (dropWhile is_js_space s). is_js_space c)"
    by (simp add: js_trim_def dropWhile_eq_Nil)
  also have "\<dots> \<longleftrightarrow> (\<forall>c \<in> set s. is_js_space c)"
    by (metis dropWhile_eq_Nil dropWhile_idem)
  finally show ?thesis .
qed

text \<open>\<open>Array.prototype.slice(n)\<close> with one argument; a negative one counts from the end.\<close>

definition js_slice :: "int \<Rightarrow> 'a list \<Rightarrow> 'a list" where
  "js_slice n xs = (if n < 0 then drop (nat (int (length xs) + n)) xs else drop (nat n) xs)"

text \<open>\<open>slice(s, e)\<close>; an \<open>undefined\<close> end is the length.\<close>

definition slice_index :: "nat \<Rightarrow> int \<Rightarrow> nat" where
  "slice_index n k = (if k < 0 then nat (int n + k) else min n (nat k))"

definition js_slice_to :: "int \<Rightarrow> int option \<Rightarrow> 'a list \<Rightarrow> 'a list" where
  "js_slice_to s e xs =
     (let n = length xs; a = slice_index n s; b = (case e of None \<Rightarrow> n | Some k \<Rightarrow> slice_index n k)
      in drop a (take b xs))"

lemma js_slice_to_page: "0 \<le> s \<Longrightarrow> 0 \<le> k \<Longrightarrow> js_slice_to s (Some (s + k)) xs = take (nat k) (drop (nat s) xs)"
  by (auto simp: js_slice_to_def slice_index_def Let_def min_def drop_take nat_add_distrib)

lemma js_slice_to_rest: "0 \<le> s \<Longrightarrow> js_slice_to s None xs = drop (nat s) xs"
  by (auto simp: js_slice_to_def slice_index_def Let_def min_def)

lemma set_js_slice_to: "set (js_slice_to s e xs) \<subseteq> set xs"
  by (auto simp: js_slice_to_def Let_def dest: in_set_dropD in_set_takeD)

text \<open>\<open>s.includes(t)\<close> for strings.\<close>

fun js_includes :: "string \<Rightarrow> string \<Rightarrow> bool" where
  "js_includes [] t = (t = [])"
| "js_includes (c # cs) t = (take (length t) (c # cs) = t \<or> js_includes cs t)"

lemma js_includes_iff: "js_includes s t \<longleftrightarrow> (\<exists>a b. s = a @ t @ b)"
proof (induction s)
  case (Cons c cs)
  have "take (length t) (c # cs) = t \<longleftrightarrow> (\<exists>b. c # cs = t @ b)"
    by (metis append_eq_conv_conj)
  moreover have "(\<exists>a b. c # cs = a @ t @ b)
      \<longleftrightarrow> (\<exists>b. c # cs = t @ b) \<or> (\<exists>a b. cs = a @ t @ b)"
    by (metis append_Cons append_Nil list.exhaust list.inject)
  ultimately show ?case using Cons by simp
qed simp

section \<open>Decimal digits are injective\<close>

lemma digit_char_inj: "d < 10 \<Longrightarrow> e < 10 \<Longrightarrow> digit_char d = digit_char e \<longleftrightarrow> d = e"
  by (auto simp: digit_char_def char_of_eq_iff take_bit_eq_mod)

lemma nat_digits_nonempty [simp]: "nat_digits n \<noteq> []"
  by (simp add: nat_digits.simps [of n])

lemma nat_digits_small: "n < 10 \<Longrightarrow> nat_digits n = [digit_char n]"
  by (simp add: nat_digits.simps [of n])

lemma nat_digits_big: "\<not> n < 10 \<Longrightarrow> nat_digits n = nat_digits (n div 10) @ [digit_char (n mod 10)]"
  by (simp add: nat_digits.simps [of n])

lemma nat_digits_inj: "nat_digits m = nat_digits n \<Longrightarrow> m = n"
proof (induction m arbitrary: n rule: nat_digits.induct)
  case (1 m)
  show ?case
  proof (cases "m < 10 \<or> n < 10")
    case True
    then consider "m < 10" "n < 10" | "m < 10" "\<not> n < 10" | "\<not> m < 10" "n < 10" by blast
    then show ?thesis
    proof cases
      case 1
      with "1.prems" show ?thesis by (simp add: nat_digits_small digit_char_inj)
    next
      case 2
      with "1.prems" have False
        by (metis nat_digits_small nat_digits_big append_eq_Cons_conv nat_digits_nonempty append_is_Nil_conv not_Cons_self2)
      then show ?thesis ..
    next
      case 3
      with "1.prems" have False
        by (metis nat_digits_small nat_digits_big append_eq_Cons_conv nat_digits_nonempty append_is_Nil_conv not_Cons_self2)
      then show ?thesis ..
    qed
  next
    case False
    with "1.prems" have "nat_digits (m div 10) = nat_digits (n div 10)"
      and "digit_char (m mod 10) = digit_char (n mod 10)"
      by (simp_all add: nat_digits_big)
    with "1.IH" False have "m div 10 = n div 10" "m mod 10 = n mod 10"
      by (simp_all add: digit_char_inj)
    then show ?thesis by (metis div_mult_mod_eq)
  qed
qed

section \<open>Calls with effects\<close>

text \<open>\<open>s.split(c)\<close> for a one-character separator.\<close>

fun js_split :: "char \<Rightarrow> string \<Rightarrow> string list" where
  "js_split sep [] = [[]]"
| "js_split sep (c # cs) =
     (if c = sep then [] # js_split sep cs
      else case js_split sep cs of [] \<Rightarrow> [[c]] | p # ps \<Rightarrow> (c # p) # ps)"

lemma js_split_nonempty [simp]: "js_split c s \<noteq> []"
  by (induction s) (auto split: list.splits)

lemma js_split_absent: "c \<notin> set s \<Longrightarrow> js_split c s = [s]"
  by (induction s) auto

lemma js_split_at: "c \<notin> set s \<Longrightarrow> js_split c (s @ c # rest) = s # js_split c rest"
  by (induction s) auto

lemma append_sep_eq: "c \<notin> set a \<Longrightarrow> c \<notin> set b \<Longrightarrow> a @ c # u = b @ c # v \<longleftrightarrow> a = b \<and> u = v"
proof (induction a arbitrary: b)
  case Nil
  then show ?case by (cases b) auto
next
  case (Cons x a)
  then show ?case by (cases b) auto
qed

text \<open>
  A callback of the program takes a state of its own and returns its result with the next state;
  \<open>items.map(fn)\<close> calls it on every item in order.
\<close>

fun map_st :: "('a \<Rightarrow> 's \<Rightarrow> 'b \<times> 's) \<Rightarrow> 'a list \<Rightarrow> 's \<Rightarrow> 'b list \<times> 's" where
  "map_st f [] s = ([], s)"
| "map_st f (x # xs) s = (case f x s of (y, s1) \<Rightarrow> case map_st f xs s1 of (ys, s2) \<Rightarrow> (y # ys, s2))"

lemma map_st_pure: "map_st (\<lambda>x s. (g x, h x s)) xs s = (map g xs, fold h xs s)"
  by (induction xs arbitrary: s) auto

section \<open>Interfaces\<close>

subsection \<open>A machine that keeps an invariant\<close>

text \<open>
  A component is its operations as events and the function that performs one.  An invariant every
  event keeps holds after every sequence of events.
\<close>

locale invariant_machine =
  fixes step :: "'s \<Rightarrow> 'e \<Rightarrow> 's"
    and inv :: "'s \<Rightarrow> bool"
  assumes step_keeps: "inv s \<Longrightarrow> inv (step s e)"
begin

lemma run_keeps: "inv s \<Longrightarrow> inv (foldl step s es)"
  by (induction es arbitrary: s) (auto intro: step_keeps)

lemma run_keeps_prefix: "inv s \<Longrightarrow> prefix fs es \<Longrightarrow> inv (foldl step s fs)"
  by (rule run_keeps)

lemma run_measure_mono:
  fixes m :: "'s \<Rightarrow> int"
  assumes "\<And>s e. inv s \<Longrightarrow> m s \<le> m (step s e)" and "inv s"
  shows "m s \<le> m (foldl step s es)"
  using assms(2)
proof (induction es arbitrary: s)
  case (Cons e es)
  then have "m s \<le> m (step s e)" "m (step s e) \<le> m (foldl step (step s e) es)"
    using assms(1) step_keeps by auto
  then show ?case by simp
qed simp

end

subsection \<open>A key-value store\<close>

text \<open>
  What a client of a store relies on, whatever the store is built from: \<open>find\<close> after \<open>save\<close>
  and after \<open>remove\<close>, for well-formed stores.
\<close>

locale keyed_store =
  fixes find :: "'m \<Rightarrow> 'k \<Rightarrow> 'v option"
    and save :: "'v \<Rightarrow> 'm \<Rightarrow> 'm"
    and remove :: "'k \<Rightarrow> 'm \<Rightarrow> 'm"
    and key_of :: "'v \<Rightarrow> 'k"
    and wf :: "'m \<Rightarrow> bool"
  assumes find_save: "wf m \<Longrightarrow> find (save v m) k = (if k = key_of v then Some v else find m k)"
    and find_remove: "wf m \<Longrightarrow> find (remove k' m) k = (if k = k' then None else find m k)"
    and wf_save: "wf m \<Longrightarrow> wf (save v m)"
    and wf_remove: "wf m \<Longrightarrow> wf (remove k' m)"
begin

lemma save_then_find: "wf m \<Longrightarrow> find (save v m) (key_of v) = Some v"
  by (simp add: find_save)

lemma last_save_wins:
  "wf m \<Longrightarrow> key_of v = key_of w \<Longrightarrow> find (save w (save v m)) k = find (save w m) k"
  by (simp add: find_save wf_save)

lemma remove_save: "wf m \<Longrightarrow> find (remove (key_of v) (save v m)) k = find (remove (key_of v) m) k"
  by (simp add: find_save find_remove wf_save)

lemma wf_save_all: "wf m \<Longrightarrow> wf (fold save vs m)"
  by (induction vs arbitrary: m) (auto intro: wf_save)

lemma find_save_all:
  "wf m \<Longrightarrow> find (fold save vs m) k =
     (case List.find (\<lambda>v. key_of v = k) (rev vs) of Some v \<Rightarrow> Some v | None \<Rightarrow> find m k)"
proof (induction vs rule: rev_induct)
  case (snoc v vs)
  then show ?case by (simp add: find_save wf_save_all)
qed simp

end

subsection \<open>A machine and its specification\<close>

text \<open>
  A functional refinement: on states that satisfy the invariant, the detailed step and the
  abstract step commute with the abstraction.  It then commutes with whole runs.
\<close>

locale refines_machine =
  fixes cstep :: "'c \<Rightarrow> 'e \<Rightarrow> 'c"
    and astep :: "'a \<Rightarrow> 'e \<Rightarrow> 'a"
    and abs :: "'c \<Rightarrow> 'a"
    and inv :: "'c \<Rightarrow> bool"
  assumes inv_step: "inv c \<Longrightarrow> inv (cstep c e)"
    and abs_step: "inv c \<Longrightarrow> abs (cstep c e) = astep (abs c) e"
begin

lemma abs_run: "inv c \<Longrightarrow> abs (foldl cstep c es) = foldl astep (abs c) es \<and> inv (foldl cstep c es)"
  by (induction es arbitrary: c) (auto simp: abs_step inv_step)

end

sublocale refines_machine \<subseteq> invariant_machine cstep inv
  by unfold_locales (rule inv_step)

end
