(* ===== verification/Kernel.thy ===== *)
theory Kernel
  imports Prelude
begin

text \<open>
  The domain kernel (\<open>packages/kernel/src\<close>): \<open>Result\<close>, \<open>Option\<close>, \<open>Either\<close>,
  specifications and policies, aggregates and their event recorder, identifiers, durations and
  instants, and the tenant-scoped logger.  A class instance is a value of a datatype or a record;
  a method that mutates \<open>this\<close> returns the updated record; a method that throws returns an
  \<^typ>\<open>('e, 'a) outcome\<close>.
\<close>

section \<open>Result\<close>

datatype ('t, 'e) result = Ok 't | Err 'e

fun result_is_ok :: "('t, 'e) result \<Rightarrow> bool" where
  "result_is_ok (Ok v) = True"
| "result_is_ok (Err e) = False"

definition result_is_err :: "('t, 'e) result \<Rightarrow> bool" where
  "result_is_err r = (\<not> result_is_ok r)"

fun result_unwrap :: "('t, 'e) result \<Rightarrow> (js_error, 't) outcome" where
  "result_unwrap (Ok v) = Inr v"
| "result_unwrap (Err e) = Inl (plain_error ''Called unwrap on an Err value'')"

fun result_unwrap_err :: "('t, 'e) result \<Rightarrow> (js_error, 'e) outcome" where
  "result_unwrap_err (Ok v) = Inl (plain_error ''Called unwrapErr on an Ok value'')"
| "result_unwrap_err (Err e) = Inr e"

fun result_unwrap_or :: "('t, 'e) result \<Rightarrow> 't \<Rightarrow> 't" where
  "result_unwrap_or (Ok v) d = v"
| "result_unwrap_or (Err e) d = d"

fun result_map :: "('t \<Rightarrow> 'u) \<Rightarrow> ('t, 'e) result \<Rightarrow> ('u, 'e) result" where
  "result_map fn (Ok v) = Ok (fn v)"
| "result_map fn (Err e) = Err e"

fun result_map_err :: "('e \<Rightarrow> 'f) \<Rightarrow> ('t, 'e) result \<Rightarrow> ('t, 'f) result" where
  "result_map_err fn (Ok v) = Ok v"
| "result_map_err fn (Err e) = Err (fn e)"

fun result_flat_map :: "('t \<Rightarrow> ('u, 'e) result) \<Rightarrow> ('t, 'e) result \<Rightarrow> ('u, 'e) result" where
  "result_flat_map fn (Ok v) = fn v"
| "result_flat_map fn (Err e) = Err e"

fun result_match :: "('t \<Rightarrow> 'u) \<Rightarrow> ('e \<Rightarrow> 'u) \<Rightarrow> ('t, 'e) result \<Rightarrow> 'u" where
  "result_match ok err (Ok v) = ok v"
| "result_match ok err (Err e) = err e"

text \<open>\<open>tap\<close> and \<open>tapErr\<close>: the side effect is the callback's update of its own state.\<close>

fun result_tap :: "('t \<Rightarrow> 's \<Rightarrow> 's) \<Rightarrow> ('t, 'e) result \<Rightarrow> 's \<Rightarrow> ('t, 'e) result \<times> 's" where
  "result_tap fn (Ok v) s = (Ok v, fn v s)"
| "result_tap fn (Err e) s = (Err e, s)"

fun result_tap_err :: "('e \<Rightarrow> 's \<Rightarrow> 's) \<Rightarrow> ('t, 'e) result \<Rightarrow> 's \<Rightarrow> ('t, 'e) result \<times> 's" where
  "result_tap_err fn (Ok v) s = (Ok v, s)"
| "result_tap_err fn (Err e) s = (Err e, fn e s)"

fun result_filter :: "('t \<Rightarrow> bool) \<Rightarrow> ('t \<Rightarrow> 'e) \<Rightarrow> ('t, 'e) result \<Rightarrow> ('t, 'e) result" where
  "result_filter pred mk (Ok v) = (if pred v then Ok v else Err (mk v))"
| "result_filter pred mk (Err e) = Err e"

text \<open>\<open>matchGuard\<close>: the loop over the guards, then the fallback on the whole result.\<close>

fun guard_loop :: "(('t \<Rightarrow> bool) \<times> ('t \<Rightarrow> 'u)) list \<Rightarrow> 't \<Rightarrow> 'u option" where
  "guard_loop [] v = None"
| "guard_loop ((p, f) # gs) v = (if p v then Some (f v) else guard_loop gs v)"

definition result_match_guard ::
  "(('t \<Rightarrow> bool) \<times> ('t \<Rightarrow> 'u)) list \<Rightarrow> (('t, 'e) result \<Rightarrow> 'u) \<Rightarrow> ('t, 'e) result \<Rightarrow> 'u" where
  "result_match_guard guards fallback r =
     (case r of
        Ok v \<Rightarrow> (case guard_loop guards v of Some u \<Rightarrow> u | None \<Rightarrow> fallback r)
      | Err e \<Rightarrow> fallback r)"

fun result_or_else :: "('e \<Rightarrow> ('t, 'e) result) \<Rightarrow> ('t, 'e) result \<Rightarrow> ('t, 'e) result" where
  "result_or_else fn (Ok v) = Ok v"
| "result_or_else fn (Err e) = fn e"

text \<open>\<open>Result.all\<close>: the loop pushes values and returns at the first error.\<close>

fun all_loop :: "'t list \<Rightarrow> ('t, 'e) result list \<Rightarrow> ('t list, 'e) result" where
  "all_loop values [] = Ok values"
| "all_loop values (Err e # rs) = Err e"
| "all_loop values (Ok v # rs) = all_loop (values @ [v]) rs"

definition result_all :: "('t, 'e) result list \<Rightarrow> ('t list, 'e) result" where
  "result_all rs = all_loop [] rs"

text \<open>\<open>Result.any\<close>: the loop returns the first success and remembers the last result.\<close>

fun any_loop :: "('t, 'e) result \<Rightarrow> ('t, 'e) result list \<Rightarrow> ('t, 'e) result" where
  "any_loop lst [] = lst"
| "any_loop lst (r # rs) = (if result_is_ok r then r else any_loop r rs)"

fun result_any :: "('t, 'e) result list \<Rightarrow> (js_error, ('t, 'e) result) outcome" where
  "result_any [] = Inl (plain_error ''Result.any called with an empty array'')"
| "result_any (r # rs) = Inr (any_loop r (r # rs))"

definition result_traverse ::
  "'a list \<Rightarrow> ('a \<Rightarrow> 's \<Rightarrow> ('u, 'e) result \<times> 's) \<Rightarrow> 's \<Rightarrow> ('u list, 'e) result \<times> 's" where
  "result_traverse items fn s = (case map_st fn items s of (rs, s') \<Rightarrow> (result_all rs, s'))"

fun partition_loop :: "'t list \<Rightarrow> 'e list \<Rightarrow> ('t, 'e) result list \<Rightarrow> 't list \<times> 'e list" where
  "partition_loop oks errs [] = (oks, errs)"
| "partition_loop oks errs (Ok v # rs) = partition_loop (oks @ [v]) errs rs"
| "partition_loop oks errs (Err e # rs) = partition_loop oks (errs @ [e]) rs"

definition result_partition :: "('t, 'e) result list \<Rightarrow> 't list \<times> 'e list" where
  "result_partition rs = partition_loop [] [] rs"

subsection \<open>Lemmas about results\<close>

lemma result_flat_map_assoc:
  "result_flat_map g (result_flat_map f r) = result_flat_map (\<lambda>x. result_flat_map g (f x)) r"
  by (cases r) auto

lemma result_map_flat_map: "result_map f r = result_flat_map (Ok \<circ> f) r"
  by (cases r) auto

lemma result_flat_map_Ok [simp]: "result_flat_map Ok r = r"
  by (cases r) auto

lemma all_loop_oks: "all_loop acc (map Ok vs) = Ok (acc @ vs)"
  by (induction vs arbitrary: acc) auto

lemma all_loop_err: "all_loop acc (map Ok vs @ Err e # rs) = Err e"
  by (induction vs arbitrary: acc) auto

lemma first_err_split: "(\<exists>vs. rs = map Ok vs) \<or> (\<exists>vs e rs'. rs = map Ok vs @ Err e # rs')"
proof (induction rs)
  case Nil
  then show ?case by simp
next
  case (Cons r rs)
  show ?case
  proof (cases r)
    case (Ok v)
    from Cons show ?thesis
    proof
      assume "\<exists>vs. rs = map Ok vs"
      with Ok show ?thesis by (metis list.map(2))
    next
      assume "\<exists>vs e rs'. rs = map Ok vs @ Err e # rs'"
      with Ok show ?thesis by (metis list.map(2) append_Cons)
    qed
  next
    case (Err e)
    then have "r # rs = map Ok [] @ Err e # rs" by simp
    then show ?thesis by blast
  qed
qed

lemma result_all_Ok_iff: "result_all rs = Ok vs \<longleftrightarrow> rs = map Ok vs"
proof
  assume *: "result_all rs = Ok vs"
  from first_err_split [of rs] show "rs = map Ok vs"
    by (rule disjE) (use * in \<open>auto simp: result_all_def all_loop_oks all_loop_err\<close>)
qed (simp add: result_all_def all_loop_oks)

lemma result_all_Err_iff: "result_all rs = Err e \<longleftrightarrow> (\<exists>vs rs'. rs = map Ok vs @ Err e # rs')"
proof
  assume *: "result_all rs = Err e"
  from first_err_split [of rs] show "\<exists>vs rs'. rs = map Ok vs @ Err e # rs'"
  proof (elim disjE exE)
    fix vs e' rs' assume rs: "rs = map Ok vs @ Err e' # rs'"
    with * have "e' = e" by (simp add: result_all_def all_loop_err)
    with rs show ?thesis by blast
  qed (use * in \<open>simp add: result_all_def all_loop_oks\<close>)
qed (auto simp: result_all_def all_loop_err)

lemma any_loop_first_ok:
  "\<forall>r \<in> set xs. \<not> result_is_ok r \<Longrightarrow> any_loop lst (xs @ Ok v # ys) = Ok v"
  by (induction xs arbitrary: lst) auto

lemma any_loop_none_ok:
  "\<forall>r \<in> set xs. \<not> result_is_ok r \<Longrightarrow> any_loop lst xs = (if xs = [] then lst else last xs)"
  by (induction xs arbitrary: lst) auto

lemma partition_loop_eq:
  "partition_loop oks errs rs =
     (oks @ List.map_filter (\<lambda>r. case r of Ok v \<Rightarrow> Some v | Err e \<Rightarrow> None) rs,
      errs @ List.map_filter (\<lambda>r. case r of Ok v \<Rightarrow> None | Err e \<Rightarrow> Some e) rs)"
  by (induction oks errs rs rule: partition_loop.induct) (auto simp: List.map_filter_simps)

section \<open>Option and Either\<close>

datatype 'a nullable = JNull | JUndefined | JValue 'a

fun option_from_nullable :: "'a nullable \<Rightarrow> 'a option" where
  "option_from_nullable (JValue v) = Some v"
| "option_from_nullable JNull = None"
| "option_from_nullable JUndefined = None"

fun option_unwrap :: "'a option \<Rightarrow> (js_error, 'a) outcome" where
  "option_unwrap (Some v) = Inr v"
| "option_unwrap None = Inl (plain_error ''Called unwrap on None'')"

fun option_unwrap_or :: "'a option \<Rightarrow> 'a \<Rightarrow> 'a" where
  "option_unwrap_or (Some v) d = v"
| "option_unwrap_or None d = d"

fun option_map :: "('a \<Rightarrow> 'b) \<Rightarrow> 'a option \<Rightarrow> 'b option" where
  "option_map fn (Some v) = Some (fn v)"
| "option_map fn None = None"

fun option_flat_map :: "('a \<Rightarrow> 'b option) \<Rightarrow> 'a option \<Rightarrow> 'b option" where
  "option_flat_map fn (Some v) = fn v"
| "option_flat_map fn None = None"

fun option_filter :: "('a \<Rightarrow> bool) \<Rightarrow> 'a option \<Rightarrow> 'a option" where
  "option_filter p (Some v) = (if p v then Some v else None)"
| "option_filter p None = None"

fun option_match :: "('a \<Rightarrow> 'u) \<Rightarrow> 'u \<Rightarrow> 'a option \<Rightarrow> 'u" where
  "option_match sm nn (Some v) = sm v"
| "option_match sm nn None = nn"

fun option_to_nullable :: "'a option \<Rightarrow> 'a nullable" where
  "option_to_nullable (Some v) = JValue v"
| "option_to_nullable None = JNull"

lemma option_nullable_roundtrip [simp]: "option_from_nullable (option_to_nullable x) = x"
  by (cases x) auto

datatype ('l, 'r) either = ELeft 'l | ERight 'r

fun either_get_left :: "('l, 'r) either \<Rightarrow> (js_error, 'l) outcome" where
  "either_get_left (ERight r) = Inl (plain_error ''Called getLeft on Right'')"
| "either_get_left (ELeft l) = Inr l"

fun either_get_right :: "('l, 'r) either \<Rightarrow> (js_error, 'r) outcome" where
  "either_get_right (ELeft l) = Inl (plain_error ''Called getRight on Left'')"
| "either_get_right (ERight r) = Inr r"

fun either_map :: "('r \<Rightarrow> 't) \<Rightarrow> ('l, 'r) either \<Rightarrow> ('l, 't) either" where
  "either_map fn (ERight r) = ERight (fn r)"
| "either_map fn (ELeft l) = ELeft l"

fun either_map_left :: "('l \<Rightarrow> 't) \<Rightarrow> ('l, 'r) either \<Rightarrow> ('t, 'r) either" where
  "either_map_left fn (ERight r) = ERight r"
| "either_map_left fn (ELeft l) = ELeft (fn l)"

fun either_flat_map :: "('r \<Rightarrow> ('l, 't) either) \<Rightarrow> ('l, 'r) either \<Rightarrow> ('l, 't) either" where
  "either_flat_map fn (ERight r) = fn r"
| "either_flat_map fn (ELeft l) = ELeft l"

fun either_match :: "('l \<Rightarrow> 'u) \<Rightarrow> ('r \<Rightarrow> 'u) \<Rightarrow> ('l, 'r) either \<Rightarrow> 'u" where
  "either_match lf rf (ERight r) = rf r"
| "either_match lf rf (ELeft l) = lf l"

section \<open>Specifications, policies and the repository base class\<close>

text \<open>The class hierarchy of \<open>Specification.ts\<close>; a leaf is a concrete subclass's predicate.\<close>

datatype 'a domain_spec =
    PrimitiveSpec "'a \<Rightarrow> bool"
  | AndSpecification "'a domain_spec" "'a domain_spec"
  | OrSpecification "'a domain_spec" "'a domain_spec"
  | NotSpecification "'a domain_spec"

fun is_satisfied_by :: "'a domain_spec \<Rightarrow> 'a \<Rightarrow> bool" where
  "is_satisfied_by (PrimitiveSpec p) c = p c"
| "is_satisfied_by (AndSpecification l r) c = (is_satisfied_by l c \<and> is_satisfied_by r c)"
| "is_satisfied_by (OrSpecification l r) c = (is_satisfied_by l c \<or> is_satisfied_by r c)"
| "is_satisfied_by (NotSpecification s) c = (\<not> is_satisfied_by s c)"

definition composed_policy :: "('a \<Rightarrow> 'b) \<Rightarrow> ('b \<Rightarrow> 'c) \<Rightarrow> 'a \<Rightarrow> 'c" where
  "composed_policy first second input = second (first input)"

definition repository_exists :: "('a domain_spec \<Rightarrow> 'a list) \<Rightarrow> 'a domain_spec \<Rightarrow> bool" where
  "repository_exists find_by spec = (let results = find_by spec in 0 < length results)"

section \<open>Aggregates and the event recorder\<close>

record ('id, 'ev) aggregate =
  agg_id :: 'id
  agg_events :: "'ev list"
  agg_version :: int

definition aggregate_new :: "'id \<Rightarrow> ('id, 'ev) aggregate" where
  "aggregate_new i = \<lparr>agg_id = i, agg_events = [], agg_version = 0\<rparr>"

definition get_uncommitted_events :: "('id, 'ev) aggregate \<Rightarrow> 'ev list" where
  "get_uncommitted_events a = agg_events a"

definition clear_events :: "('id, 'ev) aggregate \<Rightarrow> ('id, 'ev) aggregate" where
  "clear_events a = a\<lparr>agg_events := []\<rparr>"

definition record_event :: "'ev \<Rightarrow> ('id, 'ev) aggregate \<Rightarrow> ('id, 'ev) aggregate" where
  "record_event e a = a\<lparr>agg_events := agg_events a @ [e]\<rparr>"

definition mark_events_as_committed :: "('id, 'ev) aggregate \<Rightarrow> ('id, 'ev) aggregate" where
  "mark_events_as_committed a =
     clear_events (a\<lparr>agg_version := agg_version a + int (length (agg_events a))\<rparr>)"

definition aggregate_equals :: "('id, 'ev) aggregate \<Rightarrow> ('id, 'ev) aggregate \<Rightarrow> bool" where
  "aggregate_equals a b = (agg_id a = agg_id b)"

datatype 'ev aggregate_op = RecordOp 'ev | CommitOp | ClearOp

fun aggregate_step :: "('id, 'ev) aggregate \<Rightarrow> 'ev aggregate_op \<Rightarrow> ('id, 'ev) aggregate" where
  "aggregate_step a (RecordOp e) = record_event e a"
| "aggregate_step a CommitOp = mark_events_as_committed a"
| "aggregate_step a ClearOp = clear_events a"

text \<open>The contract: which recorded events a sequence of operations has committed, and which wait.\<close>

fun aggregate_spec :: "'ev list \<times> 'ev list \<Rightarrow> 'ev aggregate_op \<Rightarrow> 'ev list \<times> 'ev list" where
  "aggregate_spec (committed, pending) (RecordOp e) = (committed, pending @ [e])"
| "aggregate_spec (committed, pending) CommitOp = (committed @ pending, [])"
| "aggregate_spec (committed, pending) ClearOp = (committed, [])"

lemma aggregate_follows_spec:
  assumes "agg_version a = int (length (fst cp))" and "agg_events a = snd cp"
  shows "agg_version (foldl aggregate_step a ops) = int (length (fst (foldl aggregate_spec cp ops)))
    \<and> agg_events (foldl aggregate_step a ops) = snd (foldl aggregate_spec cp ops)
    \<and> agg_id (foldl aggregate_step a ops) = agg_id a"
  using assms
proof (induction ops arbitrary: a cp)
  case Nil
  then show ?case by simp
next
  case (Cons op ops)
  have step: "agg_version (aggregate_step a op) = int (length (fst (aggregate_spec cp op)))"
    "agg_events (aggregate_step a op) = snd (aggregate_spec cp op)"
    "agg_id (aggregate_step a op) = agg_id a"
    using Cons.prems
    by (cases cp; cases op;
        simp add: record_event_def mark_events_as_committed_def clear_events_def)+
  show ?case using Cons.IH [OF step(1,2)] step(3) by simp
qed

section \<open>Identifiers\<close>

definition tenant_id_create :: "string \<Rightarrow> (js_error, string) outcome" where
  "tenant_id_create value =
     (if value = [] \<or> length (js_trim value) = 0 then Inl (plain_error ''TenantId cannot be empty'')
      else Inr (js_trim value))"

definition correlation_id_from_string :: "string \<Rightarrow> (js_error, string) outcome" where
  "correlation_id_from_string value =
     (if value = [] \<or> length (js_trim value) = 0
      then Inl (plain_error ''CorrelationId cannot be empty'') else Inr value)"

definition causation_id_from_string :: "string \<Rightarrow> (js_error, string) outcome" where
  "causation_id_from_string value =
     (if value = [] \<or> length (js_trim value) = 0
      then Inl (plain_error ''CausationId cannot be empty'') else Inr value)"

definition request_id_from_string :: "string \<Rightarrow> (js_error, string) outcome" where
  "request_id_from_string value =
     (if value = [] \<or> length (js_trim value) = 0
      then Inl (plain_error ''RequestId cannot be empty'') else Inr value)"

definition ulid_from_string :: "string \<Rightarrow> (js_error, string) outcome" where
  "ulid_from_string value =
     (if value = [] \<or> length (js_trim value) = 0
      then Inl (plain_error ''ULID cannot be empty'') else Inr value)"

text \<open>The UUID regular expression, as the list of its character classes (flag \<open>i\<close>).\<close>

definition uuid_hex :: "char \<Rightarrow> bool" where
  "uuid_hex c = (let n = (of_char c :: nat) in
     (48 \<le> n \<and> n \<le> 57) \<or> (97 \<le> n \<and> n \<le> 102) \<or> (65 \<le> n \<and> n \<le> 70))"

definition uuid_pattern :: "(char \<Rightarrow> bool) list" where
  "uuid_pattern =
     replicate 8 uuid_hex @ [(=) (CHR ''-'')] @ replicate 4 uuid_hex @ [(=) (CHR ''-'')] @
     [\<lambda>c. c \<in> set ''12345''] @ replicate 3 uuid_hex @ [(=) (CHR ''-'')] @
     [\<lambda>c. c \<in> set ''89abAB''] @ replicate 3 uuid_hex @ [(=) (CHR ''-'')] @ replicate 12 uuid_hex"

fun matches_pattern :: "(char \<Rightarrow> bool) list \<Rightarrow> string \<Rightarrow> bool" where
  "matches_pattern [] s = (s = [])"
| "matches_pattern (p # ps) [] = False"
| "matches_pattern (p # ps) (c # s) = (p c \<and> matches_pattern ps s)"

definition uuid_is_valid :: "string \<Rightarrow> bool" where
  "uuid_is_valid value = matches_pattern uuid_pattern value"

definition uuid_from_string :: "string \<Rightarrow> (js_error, string) outcome" where
  "uuid_from_string value =
     (if value = [] \<or> \<not> uuid_is_valid value then Inl (plain_error (''Invalid UUID: '' @ value))
      else Inr value)"

lemma matches_pattern_iff:
  "matches_pattern ps s \<longleftrightarrow> length s = length ps \<and> (\<forall>i < length ps. (ps ! i) (s ! i))"
proof (induction ps s rule: matches_pattern.induct)
  case (3 p ps c s)
  then show ?case by (auto simp: All_less_Suc2)
qed auto

section \<open>Durations and instants\<close>

definition duration_of_ms :: "rat \<Rightarrow> (js_error, rat) outcome" where
  "duration_of_ms ms = (if ms < 0 then Inl (plain_error ''Duration cannot be negative'') else Inr ms)"

definition duration_of_seconds :: "rat \<Rightarrow> (js_error, rat) outcome" where
  "duration_of_seconds n = duration_of_ms (n * 1000)"

definition duration_of_minutes :: "rat \<Rightarrow> (js_error, rat) outcome" where
  "duration_of_minutes n = duration_of_ms (n * 60 * 1000)"

definition duration_of_hours :: "rat \<Rightarrow> (js_error, rat) outcome" where
  "duration_of_hours n = duration_of_ms (n * 60 * 60 * 1000)"

definition duration_of_days :: "rat \<Rightarrow> (js_error, rat) outcome" where
  "duration_of_days n = duration_of_ms (n * 24 * 60 * 60 * 1000)"

definition duration_to_seconds :: "rat \<Rightarrow> rat" where "duration_to_seconds d = d / 1000"
definition duration_to_minutes :: "rat \<Rightarrow> rat" where "duration_to_minutes d = d / (60 * 1000)"
definition duration_to_hours :: "rat \<Rightarrow> rat" where "duration_to_hours d = d / (60 * 60 * 1000)"
definition duration_to_days :: "rat \<Rightarrow> rat" where "duration_to_days d = d / (24 * 60 * 60 * 1000)"

definition duration_plus :: "rat \<Rightarrow> rat \<Rightarrow> (js_error, rat) outcome" where
  "duration_plus d other = duration_of_ms (d + other)"

definition duration_minus :: "rat \<Rightarrow> rat \<Rightarrow> (js_error, rat) outcome" where
  "duration_minus d other = duration_of_ms (d - other)"

definition instant_is_before :: "rat \<Rightarrow> rat \<Rightarrow> bool" where "instant_is_before a b = (a < b)"
definition instant_is_after :: "rat \<Rightarrow> rat \<Rightarrow> bool" where "instant_is_after a b = (a > b)"
definition instant_plus :: "rat \<Rightarrow> rat \<Rightarrow> rat" where "instant_plus a ms = a + ms"
definition instant_minus :: "rat \<Rightarrow> rat \<Rightarrow> rat" where "instant_minus a ms = a - ms"

lemmas duration_defs = duration_of_ms_def duration_of_seconds_def duration_of_minutes_def
  duration_of_hours_def duration_of_days_def duration_to_seconds_def duration_to_minutes_def
  duration_to_hours_def duration_to_days_def duration_plus_def duration_minus_def

section \<open>Tenant-scoped logging\<close>

record 'c tenant_log_entry =
  tle_tenant :: string
  tle_level :: string
  tle_message :: string
  tle_context :: 'c

definition tenant_log ::
  "string \<Rightarrow> string \<Rightarrow> string \<Rightarrow> 'c \<Rightarrow> 'c tenant_log_entry list \<Rightarrow> 'c tenant_log_entry list" where
  "tenant_log tid lvl msg ctx entries =
     entries @ [\<lparr>tle_tenant = tid, tle_level = lvl, tle_message = msg, tle_context = ctx\<rparr>]"

definition logs_for_tenant :: "string \<Rightarrow> 'c tenant_log_entry list \<Rightarrow> 'c tenant_log_entry list" where
  "logs_for_tenant tid entries = filter (\<lambda>e. tle_tenant e = tid) entries"

section \<open>Properties\<close>

text \<open>\<open>Result.all\<close> returns the list of all values exactly when every result is a success, and
  otherwise the error of the first failure, whatever follows it.\<close>

theorem result_all_spec:
  "(result_all rs = Ok vs \<longleftrightarrow> rs = map Ok vs)
   \<and> (result_all rs = Err e \<longleftrightarrow> (\<exists>ws rest. rs = map Ok ws @ Err e # rest))"
  by (simp add: result_all_Ok_iff result_all_Err_iff)

text \<open>\<open>Result.any\<close> returns the first success, and the last failure when there is none; only the
  empty array makes it throw.\<close>

theorem result_any_spec:
  "result_any rs =
     (if rs = [] then Inl (plain_error ''Result.any called with an empty array'')
      else Inr (case List.find result_is_ok rs of Some r \<Rightarrow> r | None \<Rightarrow> last rs))"
proof (cases rs)
  case (Cons r rs')
  have loop: "any_loop lst xs = (case List.find result_is_ok xs of Some x \<Rightarrow> x
      | None \<Rightarrow> if xs = [] then lst else last xs)" for lst :: "('a, 'b) result" and xs
    by (induction xs arbitrary: lst) (auto split: option.splits)
  show ?thesis unfolding Cons by (simp add: loop)
qed simp

text \<open>\<open>Result.traverse\<close> does not short-circuit: the callback runs on every item, in order,
  also after the item whose failure decides the result.\<close>

theorem result_traverse_visits_all:
  "result_traverse items (\<lambda>x seen. (g x, seen @ [x])) [] = (result_all (map g items), items)"
proof -
  have "fold (\<lambda>x seen. seen @ [x]) items acc = acc @ items" for acc
    by (induction items arbitrary: acc) auto
  then show ?thesis by (simp add: result_traverse_def map_st_pure [of g "\<lambda>x seen. seen @ [x]"])
qed

text \<open>After any sequence of records, commits and clears the aggregate's version is the number
  of events committed so far and its uncommitted events are those recorded since, in order; its
  identity never changes.\<close>

theorem aggregate_versioning:
  "agg_version (foldl aggregate_step (aggregate_new i) ops)
     = int (length (fst (foldl aggregate_spec ([], []) ops)))
   \<and> get_uncommitted_events (foldl aggregate_step (aggregate_new i) ops)
     = snd (foldl aggregate_spec ([], []) ops)
   \<and> agg_id (foldl aggregate_step (aggregate_new i) ops) = i"
  using aggregate_follows_spec [of "aggregate_new i" "([], [])" ops]
  by (simp add: aggregate_new_def get_uncommitted_events_def)

text \<open>A tenant id accepted by the factory is not empty, has no white space at its ends and is
  accepted unchanged when it is parsed again; it is refused exactly when it is all white space.\<close>

theorem tenant_id_canonical:
  "(tenant_id_create v = Inr t \<longrightarrow>
      t \<noteq> [] \<and> \<not> is_js_space (hd t) \<and> \<not> is_js_space (last t) \<and> tenant_id_create t = Inr t)
   \<and> (is_returned (tenant_id_create v) \<longleftrightarrow> (\<exists>c \<in> set v. \<not> is_js_space c))"
proof (intro conjI impI)
  assume "tenant_id_create v = Inr t"
  then have t: "t = js_trim v" "js_trim v \<noteq> []" by (auto simp: tenant_id_create_def split: if_splits)
  then show "t \<noteq> []" "\<not> is_js_space (hd t)" "\<not> is_js_space (last t)" "tenant_id_create t = Inr t"
    by (simp_all add: js_trim_ends tenant_id_create_def)
next
  show "is_returned (tenant_id_create v) \<longleftrightarrow> (\<exists>c \<in> set v. \<not> is_js_space c)"
    using js_trim_empty [of v] by (auto simp: tenant_id_create_def)
qed

theorem tenant_id_canonical_witness:
  "tenant_id_create ''acme'' = Inr ''acme''"
proof -
  have "tenant_id_create '' acme '' = Inr ''acme''"
    by (simp add: tenant_id_create_def js_trim_def is_js_space_def)
  with tenant_id_canonical [of "'' acme ''" "''acme''"] show ?thesis by blast
qed



text \<open>Subtracting a duration that was added gives the duration back; subtracting is refused
  exactly when it would be negative, and every duration that is returned is not negative.\<close>

theorem duration_arithmetic:
  assumes "duration_of_ms a = Inr d" and "duration_of_ms b = Inr e"
  shows "\<exists>s. duration_plus d e = Inr s \<and> duration_minus s e = Inr d
    \<and> (is_returned (duration_minus d e) \<longleftrightarrow> e \<le> d)
    \<and> 0 \<le> s"
  using assms by (auto simp: duration_defs split: if_splits)

theorem duration_arithmetic_witness:
  "\<exists>s. duration_plus 5 7 = Inr s \<and> duration_minus s 7 = Inr 5 \<and> \<not> is_returned (duration_minus 5 7)"
proof -
  have "duration_of_ms 5 = Inr 5" "duration_of_ms 7 = Inr 7" by (simp_all add: duration_defs)
  from duration_arithmetic [OF this] show ?thesis by auto
qed

end
