(* ===== verification/Event_Sourcing.thy ===== *)
theory Event_Sourcing
  imports Prelude
begin

text \<open>
  Event sourcing (\<open>packages/eventsourcing/src\<close>): the event-sourced aggregate, the in-memory event
  store with optimistic concurrency and subscriptions, projections, snapshots and the replayer.
  Subscribers, replay handlers and projections are computations on a world of their own.
\<close>

section \<open>Events and aggregates\<close>

record 'p domain_event =
  ev_type :: string
  ev_occurred_at :: int
  ev_payload :: 'p

record ('id, 'st, 'ev) es_aggregate =
  esa_id :: 'id
  esa_version :: int
  esa_uncommitted :: "'ev list"
  esa_state :: 'st

definition es_new :: "'id \<Rightarrow> 'st \<Rightarrow> ('id, 'st, 'ev) es_aggregate" where
  "es_new i st = \<lparr>esa_id = i, esa_version = 0, esa_uncommitted = [], esa_state = st\<rparr>"

definition es_get_uncommitted :: "('id, 'st, 'ev) es_aggregate \<Rightarrow> 'ev list" where
  "es_get_uncommitted a = esa_uncommitted a"

definition es_mark_committed :: "('id, 'st, 'ev) es_aggregate \<Rightarrow> ('id, 'st, 'ev) es_aggregate" where
  "es_mark_committed a = a\<lparr>esa_uncommitted := []\<rparr>"

text \<open>\<open>apply\<close> is the subclass's event handler.\<close>

fun es_load_from_history ::
  "('ev \<Rightarrow> 'st \<Rightarrow> 'st) \<Rightarrow> 'ev list \<Rightarrow> ('id, 'st, 'ev) es_aggregate \<Rightarrow> ('id, 'st, 'ev) es_aggregate" where
  "es_load_from_history apply [] a = a"
| "es_load_from_history apply (e # es) a =
     es_load_from_history apply es
       (a\<lparr>esa_state := apply e (esa_state a), esa_version := esa_version a + 1\<rparr>)"

definition es_raise ::
  "('ev \<Rightarrow> 'st \<Rightarrow> 'st) \<Rightarrow> 'ev \<Rightarrow> ('id, 'st, 'ev) es_aggregate \<Rightarrow> ('id, 'st, 'ev) es_aggregate" where
  "es_raise apply e a =
     a\<lparr>esa_state := apply e (esa_state a), esa_version := esa_version a + 1,
       esa_uncommitted := esa_uncommitted a @ [e]\<rparr>"

lemma es_load_eq:
  "es_load_from_history apply es a =
     a\<lparr>esa_state := fold apply es (esa_state a), esa_version := esa_version a + int (length es)\<rparr>"
  by (induction es arbitrary: a) auto

lemma es_raise_all:
  "fold (es_raise apply) es a =
     a\<lparr>esa_state := fold apply es (esa_state a), esa_version := esa_version a + int (length es),
       esa_uncommitted := esa_uncommitted a @ es\<rparr>"
  by (induction es arbitrary: a) (auto simp: es_raise_def)

section \<open>The in-memory event store\<close>

record 'ev event_store =
  es_streams :: "(string, 'ev list) jsmap"
  es_handlers :: "string list"

definition event_store_new :: "'ev event_store" where
  "event_store_new = \<lparr>es_streams = [], es_handlers = []\<rparr>"

definition stream_of :: "'ev event_store \<Rightarrow> string \<Rightarrow> 'ev list" where
  "stream_of es sid = (case jget (es_streams es) sid of Some evs \<Rightarrow> evs | None \<Rightarrow> [])"

definition concurrency_error :: "string \<Rightarrow> int \<Rightarrow> int \<Rightarrow> js_error" where
  "concurrency_error sid expected actual =
     JsError ''ConcurrencyError''
       (''Concurrency conflict on stream \"'' @ sid @ ''\": expected version '' @ show_int expected @
        '', got '' @ show_int actual)"

text \<open>
  The two nested loops that notify the subscribers.  A subscriber that throws ends \<open>append\<close> with
  its error, after the events have been stored.
\<close>

fun notify_handlers ::
  "(string \<Rightarrow> 'ev \<Rightarrow> 'w \<Rightarrow> (js_error, unit) outcome \<times> 'w) \<Rightarrow> 'ev \<Rightarrow> string list \<Rightarrow> 'w \<Rightarrow>
   (js_error, unit) outcome \<times> 'w" where
  "notify_handlers run e [] w = (Inr (), w)"
| "notify_handlers run e (h # hs) w =
     (case run h e w of (Inl err, w1) \<Rightarrow> (Inl err, w1) | (Inr u, w1) \<Rightarrow> notify_handlers run e hs w1)"

fun notify_all ::
  "(string \<Rightarrow> 'ev \<Rightarrow> 'w \<Rightarrow> (js_error, unit) outcome \<times> 'w) \<Rightarrow> string list \<Rightarrow> 'ev list \<Rightarrow> 'w \<Rightarrow>
   (js_error, unit) outcome \<times> 'w" where
  "notify_all run hs [] w = (Inr (), w)"
| "notify_all run hs (e # es) w =
     (case notify_handlers run e hs w of
        (Inl err, w1) \<Rightarrow> (Inl err, w1)
      | (Inr u, w1) \<Rightarrow> notify_all run hs es w1)"

definition event_store_append ::
  "(string \<Rightarrow> 'ev \<Rightarrow> 'w \<Rightarrow> (js_error, unit) outcome \<times> 'w) \<Rightarrow> string \<Rightarrow> 'ev list \<Rightarrow> int \<Rightarrow>
   'ev event_store \<Rightarrow> 'w \<Rightarrow> (js_error, unit) outcome \<times> 'ev event_store \<times> 'w" where
  "event_store_append run sid events expected es w =
     (let current = stream_of es sid
      in if int (length current) \<noteq> expected
         then (Inl (concurrency_error sid expected (int (length current))), es, w)
         else (let es1 = es\<lparr>es_streams := jset sid (current @ events) (es_streams es)\<rparr>
               in case notify_all run (es_handlers es1) events w of (r, w1) \<Rightarrow> (r, es1, w1)))"

definition event_store_get_events :: "'ev event_store \<Rightarrow> string \<Rightarrow> int \<Rightarrow> 'ev list" where
  "event_store_get_events es sid from_version = js_slice from_version (stream_of es sid)"

text \<open>\<open>subscribe\<close> and the function it returns, which removes the first occurrence.\<close>

definition event_store_subscribe :: "string \<Rightarrow> 'ev event_store \<Rightarrow> 'ev event_store" where
  "event_store_subscribe h es = es\<lparr>es_handlers := es_handlers es @ [h]\<rparr>"

definition event_store_unsubscribe :: "string \<Rightarrow> 'ev event_store \<Rightarrow> 'ev event_store" where
  "event_store_unsubscribe h es = es\<lparr>es_handlers := remove1 h (es_handlers es)\<rparr>"

lemma append_conflict:
  "int (length (stream_of es sid)) \<noteq> expected \<Longrightarrow>
   event_store_append run sid events expected es w =
     (Inl (concurrency_error sid expected (int (length (stream_of es sid)))), es, w)"
  by (simp add: event_store_append_def Let_def)

lemma append_streams:
  "event_store_append run sid events expected es w = (r, es1, w1) \<Longrightarrow>
   stream_of es1 sid' =
     (if sid' = sid \<and> int (length (stream_of es sid)) = expected
      then stream_of es sid @ events else stream_of es sid')"
  by (auto simp: event_store_append_def Let_def stream_of_def split: prod.splits if_splits option.splits)

lemma notify_quiet:
  assumes "\<forall>h e w. is_returned (fst (run h e w))"
  shows "is_returned (fst (notify_all run hs es w))"
proof -
  have h: "is_returned (fst (notify_handlers run e hs w))" for e w
  proof (induction hs arbitrary: w)
    case (Cons h hs)
    obtain r w1 where r: "run h e w = (r, w1)" by fastforce
    then have "is_returned r" using assms by (metis fst_conv)
    with r Cons show ?case by (cases r) auto
  qed simp
  show ?thesis
  proof (induction es arbitrary: w)
    case (Cons e es)
    obtain r w1 where r: "notify_handlers run e hs w = (r, w1)" by fastforce
    then have "is_returned r" using h by (metis fst_conv)
    with r Cons show ?case by (cases r) auto
  qed simp
qed

text \<open>The operations on a store as one machine; the world of the subscribers goes along.\<close>

datatype 'ev store_op = AppendOp string "'ev list" int | SubscribeOp string | UnsubscribeOp string

fun event_store_step ::
  "(string \<Rightarrow> 'ev \<Rightarrow> 'w \<Rightarrow> (js_error, unit) outcome \<times> 'w) \<Rightarrow> 'ev event_store \<times> 'w \<Rightarrow> 'ev store_op \<Rightarrow>
   'ev event_store \<times> 'w" where
  "event_store_step run (es, w) (AppendOp sid events expected) =
     (case event_store_append run sid events expected es w of (r, es1, w1) \<Rightarrow> (es1, w1))"
| "event_store_step run (es, w) (SubscribeOp h) = (event_store_subscribe h es, w)"
| "event_store_step run (es, w) (UnsubscribeOp h) = (event_store_unsubscribe h es, w)"

definition history_kept :: "'ev event_store \<Rightarrow> 'ev event_store \<times> 'w \<Rightarrow> bool" where
  "history_kept es0 s \<longleftrightarrow> (\<forall>sid. prefix (stream_of es0 sid) (stream_of (fst s) sid))"

lemma history_step [inv_intros]: "history_kept es0 s \<Longrightarrow> history_kept es0 (event_store_step run s op)"
proof (cases "(run, s, op)" rule: event_store_step.cases)
  case (1 run' es w sid events expected)
  assume kept: "history_kept es0 s"
  obtain r es1 w1 where a: "event_store_append run sid events expected es w = (r, es1, w1)"
    by (metis surj_pair)
  have "prefix (stream_of es sid') (stream_of es1 sid')" for sid'
    using append_streams [OF a, of sid'] by simp
  with kept 1 a show ?thesis by (auto simp: history_kept_def intro: prefix_order.trans)
qed (auto simp: history_kept_def stream_of_def event_store_subscribe_def event_store_unsubscribe_def)

interpretation event_log: invariant_machine "event_store_step run" "history_kept es0"
  by unfold_locales (rule history_step)

text \<open>
  The specification of the store: every stream is a log, and appending succeeds exactly at its end.
\<close>

fun log_step :: "(string \<Rightarrow> 'ev list) \<Rightarrow> 'ev store_op \<Rightarrow> (string \<Rightarrow> 'ev list)" where
  "log_step evs_of (AppendOp sid events expected) =
     (if int (length (evs_of sid)) = expected then evs_of(sid := evs_of sid @ events) else evs_of)"
| "log_step evs_of (SubscribeOp h) = evs_of"
| "log_step evs_of (UnsubscribeOp h) = evs_of"

definition log_of :: "'ev event_store \<times> 'w \<Rightarrow> string \<Rightarrow> 'ev list" where
  "log_of s = stream_of (fst s)"

lemma log_step_of: "log_of (event_store_step run s op) = log_step (log_of s) op"
proof (cases "(run, s, op)" rule: event_store_step.cases)
  case (1 run' es w sid events expected)
  obtain r es1 w1 where a: "event_store_append run sid events expected es w = (r, es1, w1)"
    by (metis surj_pair)
  with 1 show ?thesis by (auto simp: log_of_def fun_eq_iff append_streams [OF a])
qed (auto simp: log_of_def stream_of_def event_store_subscribe_def event_store_unsubscribe_def)

interpretation store_log: refines_machine "event_store_step run" log_step log_of "\<lambda>_. True"
  by unfold_locales (simp_all add: log_step_of)

section \<open>Projections and snapshots\<close>

fun projection_run :: "('ev \<Rightarrow> 'st \<Rightarrow> 'st) \<Rightarrow> 'ev list \<Rightarrow> 'st \<Rightarrow> 'st" where
  "projection_run apply [] st = st"
| "projection_run apply (e # es) st = projection_run apply es (apply e st)"

lemma projection_run_fold: "projection_run apply es st = fold apply es st"
  by (induction es arbitrary: st) auto

record 'st snapshot =
  snap_aggregate_id :: string
  snap_version :: int
  snap_state :: 'st
  snap_timestamp :: int

type_synonym 'st snapshot_store = "(string, 'st snapshot) jsmap"

definition snapshot_save :: "'st snapshot \<Rightarrow> 'st snapshot_store \<Rightarrow> 'st snapshot_store" where
  "snapshot_save s m = jset (snap_aggregate_id s) s m"

definition snapshot_get :: "'st snapshot_store \<Rightarrow> string \<Rightarrow> 'st snapshot option" where
  "snapshot_get m i = jget m i"

section \<open>The replayer\<close>

record replay_options =
  rpo_from :: "int option"
  rpo_to :: "int option"
  rpo_before :: "int option"
  rpo_types :: "string list option"

definition no_options :: replay_options where
  "no_options = \<lparr>rpo_from = None, rpo_to = None, rpo_before = None, rpo_types = None\<rparr>"

record replay_stats =
  rst_stream :: string
  rst_total :: int
  rst_processed :: int
  rst_skipped :: int
  rst_duration :: int

definition passes_filters :: "'p domain_event \<Rightarrow> replay_options \<Rightarrow> bool" where
  "passes_filters e opts =
     (if (case rpo_before opts of Some t \<Rightarrow> ev_occurred_at e > t | None \<Rightarrow> False) then False
      else if (case rpo_types opts of Some ts \<Rightarrow> ev_type e \<notin> set ts | None \<Rightarrow> False) then False
      else True)"

text \<open>
  The loop: \<open>version\<close> counts up from \<open>fromVersion\<close>, the handler changes the world, and the
  progress callback's arguments (processed, skipped, version) are collected in order.
\<close>

fun replay_loop ::
  "replay_options \<Rightarrow> ('p domain_event \<Rightarrow> int \<Rightarrow> 'w \<Rightarrow> 'w) \<Rightarrow> int \<Rightarrow> 'p domain_event list \<Rightarrow> int \<Rightarrow> int \<Rightarrow>
   (int \<times> int \<times> int) list \<Rightarrow> 'w \<Rightarrow> int \<times> int \<times> (int \<times> int \<times> int) list \<times> 'w" where
  "replay_loop opts handler version [] processed skipped progress w = (processed, skipped, progress, w)"
| "replay_loop opts handler version (e # es) processed skipped progress w =
     (if (case rpo_to opts of Some t \<Rightarrow> version \<ge> t | None \<Rightarrow> False)
      then (processed, skipped, progress, w)
      else if \<not> passes_filters e opts
      then replay_loop opts handler (version + 1) es processed (skipped + 1)
             (progress @ [(processed, skipped + 1, version)]) w
      else replay_loop opts handler (version + 1) es (processed + 1) skipped
             (progress @ [(processed + 1, skipped, version)]) (handler e version w))"

text \<open>\<open>replay\<close> over a store port: \<open>get_events\<close> is the store's method, \<open>t0\<close> and \<open>t1\<close> the clock.\<close>

definition replay ::
  "(string \<Rightarrow> int \<Rightarrow> 'p domain_event list) \<Rightarrow> int \<Rightarrow> int \<Rightarrow> string \<Rightarrow>
   ('p domain_event \<Rightarrow> int \<Rightarrow> 'w \<Rightarrow> 'w) \<Rightarrow> replay_options \<Rightarrow> 'w \<Rightarrow>
   replay_stats \<times> (int \<times> int \<times> int) list \<times> 'w" where
  "replay get_events t0 t1 sid handler opts w =
     (let from_version = (case rpo_from opts of Some n \<Rightarrow> n | None \<Rightarrow> 0);
          events = get_events sid from_version
      in case replay_loop opts handler from_version events 0 0 [] w of
           (processed, skipped, progress, w1) \<Rightarrow>
             (\<lparr>rst_stream = sid, rst_total = int (length events), rst_processed = processed,
               rst_skipped = skipped, rst_duration = t1 - t0\<rparr>, progress, w1))"

definition replay_point_in_time where
  "replay_point_in_time get_events t0 t1 sid timestamp handler w =
     replay get_events t0 t1 sid handler (no_options\<lparr>rpo_before := Some timestamp\<rparr>) w"

definition replay_selective where
  "replay_selective get_events t0 t1 sid types handler w =
     replay get_events t0 t1 sid handler (no_options\<lparr>rpo_types := Some types\<rparr>) w"

definition fast_forward where
  "fast_forward get_events t0 t1 sid from_version handler w =
     replay get_events t0 t1 sid handler (no_options\<lparr>rpo_from := Some from_version\<rparr>) w"

text \<open>The events in range, and the handler run over those that pass the filters.\<close>

definition in_range :: "replay_options \<Rightarrow> int \<Rightarrow> 'p domain_event list \<Rightarrow> 'p domain_event list" where
  "in_range opts from_version events =
     (case rpo_to opts of Some t \<Rightarrow> take (nat (t - from_version)) events | None \<Rightarrow> events)"

definition handle_all ::
  "replay_options \<Rightarrow> ('p domain_event \<Rightarrow> int \<Rightarrow> 'w \<Rightarrow> 'w) \<Rightarrow> int \<Rightarrow> 'p domain_event list \<Rightarrow> 'w \<Rightarrow> 'w" where
  "handle_all opts handler version events w =
     fold (\<lambda>(i, e) w. if passes_filters e opts then handler e (version + int i) w else w)
       (zip [0..<length events] events) w"

lemma zip_upt_Suc:
  "zip [0..<Suc (length es)] (e # es) = (0, e) # map (\<lambda>(i, x). (Suc i, x)) (zip [0..<length es] es)"
proof -
  have "[0..<Suc (length es)] = 0 # map Suc [0..<length es]"
    by (simp only: upt_conv_Cons zero_less_Suc map_Suc_upt)
  then show ?thesis by (simp add: zip_map1)
qed

lemma handle_all_Cons:
  "handle_all opts handler version (e # es) w =
     handle_all opts handler (version + 1) es (if passes_filters e opts then handler e version w else w)"
proof -
  have "fold (\<lambda>(i, e) w. if passes_filters e opts then handler e (version + int i) w else w)
      (map (\<lambda>(i, x). (Suc i, x)) zs) v =
    fold (\<lambda>(i, e) w. if passes_filters e opts then handler e (version + 1 + int i) w else w) zs v" for zs v
    by (induction zs arbitrary: v) (auto simp: algebra_simps)
  then show ?thesis
    by (simp only: handle_all_def length_Cons zip_upt_Suc) simp
qed

lemma handle_all_Nil [simp]: "handle_all opts handler version [] w = w"
  by (simp add: handle_all_def)

lemma handle_all_append:
  "handle_all opts handler version (xs @ ys) w =
     handle_all opts handler (version + int (length xs)) ys (handle_all opts handler version xs w)"
  by (induction xs arbitrary: version w) (auto simp: handle_all_Cons algebra_simps)

lemma handle_all_filters:
  "rpo_before opts = rpo_before opts' \<Longrightarrow> rpo_types opts = rpo_types opts' \<Longrightarrow>
   handle_all opts handler version es w = handle_all opts' handler version es w"
proof -
  assume "rpo_before opts = rpo_before opts'" "rpo_types opts = rpo_types opts'"
  then have same: "passes_filters e opts = passes_filters e opts'" for e
    by (simp add: passes_filters_def cong: option.case_cong)
  show ?thesis
    by (induction es arbitrary: version w) (simp_all add: handle_all_Cons same [symmetric])
qed

lemma in_range_step:
  "in_range opts v (e # es) =
     (if (case rpo_to opts of Some t \<Rightarrow> v \<ge> t | None \<Rightarrow> False) then [] else e # in_range opts (v + 1) es)"
proof (cases "rpo_to opts")
  case (Some t)
  have "v < t \<Longrightarrow> nat (t - v) = Suc (nat (t - (v + 1)))" by simp
  with Some show ?thesis by (auto simp: in_range_def)
qed (simp add: in_range_def)

lemma replay_loop_eq:
  "replay_loop opts handler v es p s pr w = (p', s', pr', w') \<Longrightarrow>
   w' = handle_all opts handler v (in_range opts v es) w
   \<and> p' = p + int (length (filter (\<lambda>e. passes_filters e opts) (in_range opts v es)))
   \<and> s' = s + int (length (filter (\<lambda>e. \<not> passes_filters e opts) (in_range opts v es)))
   \<and> length pr' = length pr + length (in_range opts v es)"
proof (induction opts handler v es p s pr w rule: replay_loop.induct)
  case (1 opts handler v p s pr w)
  then show ?case by (auto simp: in_range_def split: option.splits)
next
  case (2 opts handler v e es p s pr w)
  consider "case rpo_to opts of Some t \<Rightarrow> v \<ge> t | None \<Rightarrow> False"
    | "\<not> (case rpo_to opts of Some t \<Rightarrow> v \<ge> t | None \<Rightarrow> False)" "\<not> passes_filters e opts"
    | "\<not> (case rpo_to opts of Some t \<Rightarrow> v \<ge> t | None \<Rightarrow> False)" "passes_filters e opts"
    by blast
  then show ?case
  proof cases
    case 1
    with "2.prems" show ?thesis by (simp add: in_range_step)
  next
    case 2
    with "2.IH"(1) "2.prems" show ?thesis by (simp add: in_range_step handle_all_Cons)
  next
    case 3
    with "2.IH"(2) "2.prems" show ?thesis by (simp add: in_range_step handle_all_Cons)
  qed
qed

subsection \<open>What the replayer needs of a store\<close>

locale event_source =
  fixes get_events :: "'s \<Rightarrow> string \<Rightarrow> int \<Rightarrow> 'p domain_event list"
    and stream :: "'s \<Rightarrow> string \<Rightarrow> 'p domain_event list"
  assumes get_events_drop: "0 \<le> n \<Longrightarrow> get_events s sid n = drop (nat n) (stream s sid)"
begin

lemma replay_from:
  assumes "0 \<le> from_version" "rpo_from opts = Some from_version \<or> (rpo_from opts = None \<and> from_version = 0)"
    and "replay (get_events s) t0 t1 sid handler opts w = (stats, progress, w')"
  shows "w' = handle_all opts handler from_version (in_range opts from_version (drop (nat from_version) (stream s sid))) w
    \<and> rst_processed stats + rst_skipped stats
        = int (length (in_range opts from_version (drop (nat from_version) (stream s sid))))
    \<and> rst_processed stats = int (length (filter (\<lambda>e. passes_filters e opts)
        (in_range opts from_version (drop (nat from_version) (stream s sid)))))
    \<and> length progress = length (in_range opts from_version (drop (nat from_version) (stream s sid)))"
proof -
  let ?evs = "drop (nat from_version) (stream s sid)"
  have start: "(case rpo_from opts of Some n \<Rightarrow> n | None \<Rightarrow> 0) = from_version"
    using assms(2) by auto
  obtain p sk pr w1 where loop: "replay_loop opts handler from_version ?evs 0 0 [] w = (p, sk, pr, w1)"
    by (metis surj_pair)
  then have "rst_processed stats = p" "rst_skipped stats = sk" "progress = pr" "w' = w1"
    using assms(3) by (auto simp: replay_def Let_def start get_events_drop [OF assms(1)])
  then show ?thesis
    using replay_loop_eq [OF loop]
      sum_length_filter_compl [of "\<lambda>e. passes_filters e opts" "in_range opts from_version ?evs"]
    by simp
qed

text \<open>Replaying up to a version and fast-forwarding from it is replaying everything.\<close>

lemma replay_resumes:
  assumes "0 \<le> n" "nat n \<le> length (stream s sid)"
    and "replay (get_events s) a0 a1 sid handler (no_options\<lparr>rpo_to := Some n\<rparr>) w = (st1, pr1, w1)"
    and "fast_forward (get_events s) b0 b1 sid n handler w1 = (st2, pr2, w2)"
    and "replay (get_events s) c0 c1 sid handler no_options w = (st3, pr3, w3)"
  shows "w2 = w3"
proof -
  let ?es = "stream s sid"
  have "w1 = handle_all (no_options\<lparr>rpo_to := Some n\<rparr>) handler 0 (take (nat n) ?es) w"
    using replay_from [of 0, OF _ _ assms(3)] by (simp add: in_range_def no_options_def)
  then have w1: "w1 = handle_all no_options handler 0 (take (nat n) ?es) w"
    by (rule trans) (rule handle_all_filters; simp)
  have "w2 = handle_all (no_options\<lparr>rpo_from := Some n\<rparr>) handler n (drop (nat n) ?es) w1"
    using replay_from [of n, OF assms(1) _ assms(4) [unfolded fast_forward_def]]
    by (simp add: in_range_def no_options_def)
  then have w2: "w2 = handle_all no_options handler n (drop (nat n) ?es) w1"
    by (rule trans) (rule handle_all_filters; simp)
  have w3: "w3 = handle_all no_options handler 0 ?es w"
    using replay_from [of 0, OF _ _ assms(5)] by (simp add: no_options_def in_range_def)
  have "handle_all no_options handler 0 (take (nat n) ?es @ drop (nat n) ?es) w = w2"
    using assms(1,2) by (subst handle_all_append) (simp add: w1 w2)
  then show ?thesis using w3 by simp
qed

end

interpretation memory_event_source: event_source event_store_get_events stream_of
  by unfold_locales (simp add: event_store_get_events_def js_slice_def)

section \<open>The replay monitor\<close>

text \<open>\<open>callback\<close> remembers the latest progress and informs the listeners, a set of names.\<close>

record replay_monitor =
  rmon_listeners :: "string list"
  rmon_latest :: "(int \<times> int \<times> int) option"

definition replay_monitor_callback ::
  "(string \<Rightarrow> int \<times> int \<times> int \<Rightarrow> 'w \<Rightarrow> 'w) \<Rightarrow> int \<times> int \<times> int \<Rightarrow> replay_monitor \<Rightarrow> 'w \<Rightarrow> replay_monitor \<times> 'w" where
  "replay_monitor_callback run progress rm w =
     (rm\<lparr>rmon_latest := Some progress\<rparr>, fold (\<lambda>h w. run h progress w) (rmon_listeners rm) w)"

definition replay_monitor_on_progress :: "string \<Rightarrow> replay_monitor \<Rightarrow> replay_monitor" where
  "replay_monitor_on_progress h rm =
     (if h \<in> set (rmon_listeners rm) then rm else rm\<lparr>rmon_listeners := rmon_listeners rm @ [h]\<rparr>)"

definition replay_monitor_off_progress :: "string \<Rightarrow> replay_monitor \<Rightarrow> replay_monitor" where
  "replay_monitor_off_progress h rm = rm\<lparr>rmon_listeners := filter (\<lambda>x. x \<noteq> h) (rmon_listeners rm)\<rparr>"

definition replay_monitor_processed :: "replay_monitor \<Rightarrow> int" where
  "replay_monitor_processed rm = (case rmon_latest rm of Some (p, s, v) \<Rightarrow> p | None \<Rightarrow> 0)"

definition replay_monitor_current_version :: "replay_monitor \<Rightarrow> int" where
  "replay_monitor_current_version rm = (case rmon_latest rm of Some (p, s, v) \<Rightarrow> v | None \<Rightarrow> -1)"

definition replay_monitor_reset :: "replay_monitor \<Rightarrow> replay_monitor" where
  "replay_monitor_reset rm = rm\<lparr>rmon_latest := None\<rparr>"

section \<open>Properties\<close>

text \<open>C3: After any sequence of appends, subscriptions and cancellations the store holds exactly the
  streams an abstract log has on which an append succeeds only at the expected length, whatever the
  subscribers do; and every stream is an extension of what it was before.\<close>

theorem event_store_is_log:
  "log_of (foldl (event_store_step run) (es, w) ops) = foldl log_step (log_of (es, w)) ops
   \<and> (\<forall>sid. prefix (stream_of es sid) (log_of (foldl (event_store_step run) (es, w) ops) sid))"
proof -
  have "history_kept es (es, w)" by (simp add: history_kept_def)
  from event_log.run_keeps [OF this, of run ops] store_log.abs_run [of run "(es, w)" ops]
  show ?thesis by (simp add: history_kept_def log_of_def)
qed

text \<open>Of two writers that read a stream at the same version, the second one to append is refused
  with a ConcurrencyError that names both versions, and its append changes nothing.\<close>

theorem event_store_no_lost_update:
  assumes "event_store_append run sid events1 n es w = (r1, es1, w1)"
    and "int (length (stream_of es sid)) = n" and "events1 \<noteq> []"
  shows "event_store_append run sid events2 n es1 w1 =
      (Inl (concurrency_error sid n (n + int (length events1))), es1, w1)
    \<and> stream_of es1 sid = stream_of es sid @ events1"
  using append_streams [OF assms(1), of sid] assms(2,3) by (simp add: append_conflict)

theorem event_store_no_lost_update_witness:
  "event_store_append (\<lambda>h e w. (Inr (), w + e)) ''s'' [7] 1
      \<lparr>es_streams = [(''s'', [5, 6])], es_handlers = [''h'']\<rparr> (10::int) =
    (Inl (concurrency_error ''s'' 1 2), \<lparr>es_streams = [(''s'', [5, 6])], es_handlers = [''h'']\<rparr>, 10)"
  using event_store_no_lost_update [of "\<lambda>h e w. (Inr (), w + e)" "''s''" "[6::int]" 1
      "\<lparr>es_streams = [(''s'', [5])], es_handlers = [''h'']\<rparr>" 4 "Inr ()"
      "\<lparr>es_streams = [(''s'', [5, 6])], es_handlers = [''h'']\<rparr>" 10 "[7]"]
  by (simp add: event_store_append_def stream_of_def)

text \<open>C11: An aggregate saved by appending its uncommitted events at the version it was loaded at, and
  then rebuilt from the stream, has the state and version of the aggregate in memory; the append
  succeeds when nobody wrote in between and no subscriber throws.\<close>

theorem aggregate_round_trip:
  assumes "a0 = es_load_from_history apply (stream_of es sid) (es_new i st)"
    and "a = fold (es_raise apply) events a0"
    and "\<forall>h e w. is_returned (fst (run h e w))"
    and "event_store_append run sid (es_get_uncommitted a) (esa_version a0) es w = (r, es1, w1)"
  shows "is_returned r
    \<and> es_load_from_history apply (event_store_get_events es1 sid 0) (es_new i st) = es_mark_committed a"
proof -
  have a0: "esa_version a0 = int (length (stream_of es sid))" "esa_uncommitted a0 = []"
    by (simp_all add: assms(1) es_load_eq es_new_def)
  then have "stream_of es1 sid = stream_of es sid @ events"
    using append_streams [OF assms(4), of sid] by (simp add: es_get_uncommitted_def assms(2) es_raise_all)
  moreover have "is_returned r"
    using assms(4) a0 notify_quiet [OF assms(3)]
    by (auto simp: event_store_append_def Let_def split: prod.splits) (metis fst_conv)
  ultimately show ?thesis
    by (simp add: event_store_get_events_def js_slice_def es_load_eq es_raise_all es_mark_committed_def
        assms(1,2) es_new_def)
qed

theorem aggregate_round_trip_witness:
  "\<exists>es1 w1. event_store_append (\<lambda>h e w. (Inr (), w + e)) ''s'' [6, 7] 1
      \<lparr>es_streams = [(''s'', [5])], es_handlers = []\<rparr> (0::int) = (Inr (), es1, w1)
    \<and> es_load_from_history (\<lambda>e s. s + e) (event_store_get_events es1 ''s'' 0) (es_new (1::nat) 0)
        = \<lparr>esa_id = 1, esa_version = 3, esa_uncommitted = [], esa_state = 18\<rparr>"
proof -
  let ?es = "\<lparr>es_streams = [(''s'', [5 :: int])], es_handlers = []\<rparr>"
  let ?es1 = "\<lparr>es_streams = [(''s'', [5 :: int, 6, 7])], es_handlers = []\<rparr>"
  let ?a0 = "es_load_from_history (\<lambda>e s. s + e) (stream_of ?es ''s'') (es_new (1::nat) 0)"
  have "event_store_append (\<lambda>h e w. (Inr (), w + e)) ''s'' (es_get_uncommitted (fold (es_raise (\<lambda>e s. s + e)) [6, 7] ?a0))
      (esa_version ?a0) ?es (0::int) = (Inr (), ?es1, 0)"
    by (simp add: event_store_append_def stream_of_def es_new_def es_raise_def es_get_uncommitted_def)
  from aggregate_round_trip [OF refl refl _ this]
  have "es_load_from_history (\<lambda>e s. s + e) (event_store_get_events ?es1 ''s'' 0) (es_new (1::nat) 0)
      = es_mark_committed (fold (es_raise (\<lambda>e s. s + e)) [6, 7] ?a0)"
    by simp
  then show ?thesis
    by (simp add: event_store_append_def stream_of_def es_new_def es_raise_def es_mark_committed_def)
qed

text \<open>C22: A replay over the in-memory store handles, in order and with their versions, exactly the
  events from the starting version up to the version limit that pass the filters; processed and
  skipped add up to the events in range, and progress is reported once for each.\<close>

theorem replay_exact:
  assumes "rpo_from opts = None \<and> n = 0 \<or> rpo_from opts = Some n \<and> 0 \<le> n"
    and "replay (event_store_get_events es) t0 t1 sid handler opts w = (stats, progress, w')"
  shows "let range = in_range opts n (drop (nat n) (stream_of es sid)) in
    w' = handle_all opts handler n range w
    \<and> rst_processed stats + rst_skipped stats = int (length range)
    \<and> rst_processed stats = int (length (filter (\<lambda>e. passes_filters e opts) range))
    \<and> length progress = length range"
  using memory_event_source.replay_from [OF _ _ assms(2), of n] assms(1) by (auto simp: Let_def)

theorem replay_exact_witness:
  "handle_all (no_options\<lparr>rpo_to := Some 2\<rparr>) (\<lambda>e v w. (ev_payload e, v) # w) 1
     [\<lparr>ev_type = ''b'', ev_occurred_at = 2, ev_payload = 20\<rparr>] [] = [(20::int, 1)]"
proof -
  let ?es = "\<lparr>es_streams = [(''s'', [\<lparr>ev_type = ''a'', ev_occurred_at = 1, ev_payload = 10\<rparr>,
                 \<lparr>ev_type = ''b'', ev_occurred_at = 2, ev_payload = 20\<rparr>,
                 \<lparr>ev_type = ''c'', ev_occurred_at = 3, ev_payload = 30\<rparr>])], es_handlers = []\<rparr>"
  let ?opts = "no_options\<lparr>rpo_from := Some 1, rpo_to := Some 2\<rparr>"
  have run: "replay (event_store_get_events ?es) 0 5 ''s'' (\<lambda>e v w. (ev_payload e, v) # w) ?opts [] =
    (\<lparr>rst_stream = ''s'', rst_total = 2, rst_processed = 1, rst_skipped = 0, rst_duration = 5\<rparr>,
     [(1, 0, 1)], [(20::int, 1)])"
    by (simp add: replay_def event_store_get_events_def js_slice_def stream_of_def no_options_def
        passes_filters_def)
  show ?thesis
    using replay_exact [OF _ run, of 1]
    by (simp add: stream_of_def no_options_def in_range_def handle_all_def passes_filters_def)
qed

text \<open>A replay up to version \<open>n\<close> followed by \<open>fastForward\<close> from \<open>n\<close> leaves the world exactly as one
  replay of the whole stream does.\<close>

theorem fast_forward_resumes:
  assumes "0 \<le> n" "nat n \<le> length (stream_of es sid)"
    and "replay (event_store_get_events es) a0 a1 sid handler (no_options\<lparr>rpo_to := Some n\<rparr>) w = (st1, pr1, w1)"
    and "fast_forward (event_store_get_events es) b0 b1 sid n handler w1 = (st2, pr2, w2)"
    and "replay (event_store_get_events es) c0 c1 sid handler no_options w = (st3, pr3, w3)"
  shows "w2 = w3"
  using assms by (rule memory_event_source.replay_resumes)

theorem fast_forward_resumes_witness:
  "let es = \<lparr>es_streams = [(''s'', [\<lparr>ev_type = ''a'', ev_occurred_at = 1, ev_payload = 10::int\<rparr>,
                 \<lparr>ev_type = ''b'', ev_occurred_at = 2, ev_payload = 20\<rparr>])], es_handlers = []\<rparr>;
       handler = (\<lambda>e v w. (ev_payload e, v) # w)
   in snd (snd (fast_forward (event_store_get_events es) 0 0 ''s'' 1 handler
        (snd (snd (replay (event_store_get_events es) 0 0 ''s'' handler (no_options\<lparr>rpo_to := Some 1\<rparr>) [])))))
      = [(20, 1), (10, 0)]"
proof -
  let ?es = "\<lparr>es_streams = [(''s'', [\<lparr>ev_type = ''a'', ev_occurred_at = 1, ev_payload = 10::int\<rparr>,
                 \<lparr>ev_type = ''b'', ev_occurred_at = 2, ev_payload = 20\<rparr>])], es_handlers = []\<rparr>"
  let ?h = "\<lambda>e v w. (ev_payload e, v) # w"
  obtain st1 pr1 w1 where 1: "replay (event_store_get_events ?es) 0 0 ''s'' ?h (no_options\<lparr>rpo_to := Some 1\<rparr>) [] = (st1, pr1, w1)"
    by (metis surj_pair)
  obtain st2 pr2 w2 where 2: "fast_forward (event_store_get_events ?es) 0 0 ''s'' 1 ?h w1 = (st2, pr2, w2)"
    by (metis surj_pair)
  have 3: "replay (event_store_get_events ?es) 0 0 ''s'' ?h no_options [] =
    (\<lparr>rst_stream = ''s'', rst_total = 2, rst_processed = 2, rst_skipped = 0, rst_duration = 0\<rparr>,
     [(1, 0, 0), (2, 0, 1)], [(20, 1), (10, 0)])"
    by (simp add: replay_def event_store_get_events_def js_slice_def stream_of_def no_options_def passes_filters_def)
  have "w2 = [(20, 1), (10, 0)]"
    using fast_forward_resumes [OF _ _ 1 2 3] by (simp add: stream_of_def)
  with 1 2 show ?thesis by (simp add: Let_def)
qed

end
