(* ===== verification/Idempotency.thy ===== *)
theory Idempotency
  imports Prelude
begin

text \<open>
  Idempotent use cases (\<open>packages/application/src/idempotency\<close>): the in-memory store, the metrics and
  \<open>IdempotentUseCase.execute\<close>, split at its awaits so that requests interleave in every possible
  way.  The contract of the store port is the locale \<open>idempotency_port\<close>; the use case is verified
  against it and it holds of the in-memory store.
\<close>

section \<open>The store port\<close>

record ('s, 'r) idempotency_ops =
  io_try_acquire :: "int \<Rightarrow> string \<Rightarrow> int \<Rightarrow> 's \<Rightarrow> bool \<times> 's"
  io_get_result :: "int \<Rightarrow> string \<Rightarrow> 's \<Rightarrow> 'r option"
  io_store_result :: "int \<Rightarrow> string \<Rightarrow> 'r \<Rightarrow> int \<Rightarrow> 's \<Rightarrow> 's"
  io_release :: "string \<Rightarrow> 's \<Rightarrow> 's"

text \<open>
  What a store shows of a key at a time: nothing, a lock without a result, or a result.
\<close>

locale idempotency_port =
  fixes ops :: "('s, 'r) idempotency_ops"
    and held :: "int \<Rightarrow> 's \<Rightarrow> string \<Rightarrow> 'r option option"
  assumes acquire_free: "fst (io_try_acquire ops now k ttl s) = (held now s k = None)"
    and acquire_held: "held now s k = None \<Longrightarrow> held t (snd (io_try_acquire ops now k ttl s)) k' =
      (if k' = k then (if t \<le> now + ttl then Some None else None) else held t s k')"
    and acquire_refused: "held now s k \<noteq> None \<Longrightarrow> snd (io_try_acquire ops now k ttl s) = s"
    and result_held: "io_get_result ops now k s = (case held now s k of Some r \<Rightarrow> r | None \<Rightarrow> None)"
    and store_held: "held t (io_store_result ops now k r ttl s) k' =
      (if k' = k then (if t \<le> now + ttl then Some (Some r) else None) else held t s k')"
    and release_held: "held t (io_release ops k s) k' = (if k' = k then None else held t s k')"

section \<open>The in-memory store\<close>

record 'r store_entry =
  se_result :: "'r option"
  se_expires_at :: int

type_synonym 'r idempotency_store = "(string, 'r store_entry) jsmap"

definition mem_try_acquire :: "int \<Rightarrow> string \<Rightarrow> int \<Rightarrow> 'r idempotency_store \<Rightarrow> bool \<times> 'r idempotency_store" where
  "mem_try_acquire now k ttl m =
     (if (case jget m k of Some e \<Rightarrow> now \<le> se_expires_at e | None \<Rightarrow> False) then (False, m)
      else (True, jset k \<lparr>se_result = None, se_expires_at = now + ttl\<rparr> m))"

definition mem_get_result :: "int \<Rightarrow> string \<Rightarrow> 'r idempotency_store \<Rightarrow> 'r option" where
  "mem_get_result now k m =
     (case jget m k of
        None \<Rightarrow> None
      | Some e \<Rightarrow> (if now > se_expires_at e then None else se_result e))"

definition mem_store_result ::
  "int \<Rightarrow> string \<Rightarrow> 'r \<Rightarrow> int \<Rightarrow> 'r idempotency_store \<Rightarrow> 'r idempotency_store" where
  "mem_store_result now k r ttl m =
     (case jget m k of
        Some e \<Rightarrow> jset k (e\<lparr>se_result := Some r, se_expires_at := now + ttl\<rparr>) m
      | None \<Rightarrow> jset k \<lparr>se_result = Some r, se_expires_at = now + ttl\<rparr> m)"

definition mem_release :: "string \<Rightarrow> 'r idempotency_store \<Rightarrow> 'r idempotency_store" where
  "mem_release k m = jdelete k m"

fun cleanup_loop ::
  "int \<Rightarrow> (string \<times> 'r store_entry) list \<Rightarrow> 'r idempotency_store \<Rightarrow> int \<Rightarrow> int \<times> 'r idempotency_store" where
  "cleanup_loop now [] m removed = (removed, m)"
| "cleanup_loop now ((k, e) # es) m removed =
     (if now > se_expires_at e then cleanup_loop now es (jdelete k m) (removed + 1)
      else cleanup_loop now es m removed)"

definition mem_cleanup :: "int \<Rightarrow> 'r idempotency_store \<Rightarrow> int \<times> 'r idempotency_store" where
  "mem_cleanup now m = cleanup_loop now m m 0"

definition mem_size :: "'r idempotency_store \<Rightarrow> int" where
  "mem_size m = jsize m"

definition mem_idempotency_ops :: "('r idempotency_store, 'r) idempotency_ops" where
  "mem_idempotency_ops =
     \<lparr>io_try_acquire = mem_try_acquire, io_get_result = mem_get_result,
      io_store_result = mem_store_result, io_release = mem_release\<rparr>"

lemma mem_ops_simps [simp]:
  "io_try_acquire mem_idempotency_ops = mem_try_acquire"
  "io_get_result mem_idempotency_ops = mem_get_result"
  "io_store_result mem_idempotency_ops = mem_store_result"
  "io_release mem_idempotency_ops = mem_release"
  by (simp_all add: mem_idempotency_ops_def)

definition mem_held :: "int \<Rightarrow> 'r idempotency_store \<Rightarrow> string \<Rightarrow> 'r option option" where
  "mem_held t m k =
     (case jget m k of Some e \<Rightarrow> (if t \<le> se_expires_at e then Some (se_result e) else None) | None \<Rightarrow> None)"

interpretation memory_idempotency: idempotency_port mem_idempotency_ops mem_held
  by unfold_locales
    (auto simp: mem_try_acquire_def mem_get_result_def mem_store_result_def mem_release_def mem_held_def
      split: option.splits)

text \<open>\<open>cleanup\<close> removes only what the store no longer shows.\<close>

lemma cleanup_loop_lookup:
  "jget (snd (cleanup_loop now es m n)) k =
     (if \<exists>e. (k, e) \<in> set es \<and> now > se_expires_at e then None else jget m k)"
  by (induction now es m n rule: cleanup_loop.induct) auto

lemma cleanup_held:
  assumes "jwf m" "now \<le> t"
  shows "mem_held t (snd (mem_cleanup now m)) k = mem_held t m k"
proof (cases "\<exists>e. (k, e) \<in> set m \<and> now > se_expires_at e")
  case True
  then obtain e where "(k, e) \<in> set m" "now > se_expires_at e" by blast
  with assms have "jget m k = Some e" by simp
  with True assms \<open>now > se_expires_at e\<close> show ?thesis
    by (auto simp: mem_held_def mem_cleanup_def cleanup_loop_lookup)
next
  case False
  then have "jget (snd (mem_cleanup now m)) k = jget m k"
    unfolding mem_cleanup_def cleanup_loop_lookup by (rule if_not_P)
  then show ?thesis by (simp add: mem_held_def)
qed

section \<open>Metrics\<close>

record idempotency_metrics =
  im_hits :: int
  im_misses :: int
  im_conflicts :: int
  im_errors :: int

definition record_hit :: "idempotency_metrics \<Rightarrow> idempotency_metrics" where
  "record_hit m = m\<lparr>im_hits := im_hits m + 1\<rparr>"
definition record_miss :: "idempotency_metrics \<Rightarrow> idempotency_metrics" where
  "record_miss m = m\<lparr>im_misses := im_misses m + 1\<rparr>"
definition record_conflict :: "idempotency_metrics \<Rightarrow> idempotency_metrics" where
  "record_conflict m = m\<lparr>im_conflicts := im_conflicts m + 1\<rparr>"
definition record_error :: "idempotency_metrics \<Rightarrow> idempotency_metrics" where
  "record_error m = m\<lparr>im_errors := im_errors m + 1\<rparr>"
definition idempotency_metrics_reset :: "idempotency_metrics \<Rightarrow> idempotency_metrics" where
  "idempotency_metrics_reset m = \<lparr>im_hits = 0, im_misses = 0, im_conflicts = 0, im_errors = 0\<rparr>"

section \<open>Requests\<close>

definition idempotency_conflict :: "string \<Rightarrow> js_error" where
  "idempotency_conflict k =
     JsError ''IdempotencyConflictError''
       (''Idempotency conflict: operation for key \"'' @ k @ ''\" is already in progress'')"

text \<open>Where a request is between the awaits of \<open>execute\<close>; an executing one started at a time.\<close>

datatype 'r request_phase =
    Cached1 string
  | Acquiring string
  | Cached2 string
  | Executing string int
  | Returned string 'r
  | Threw string js_error

record ('s, 'r) idempotent_state =
  is_store :: 's
  is_clock :: int
  is_phase :: "(nat, 'r request_phase) jsmap"
  is_metrics :: "idempotency_metrics option"
  is_log :: "(string \<times> int \<times> int \<times> 'r) list"

datatype 'r request_event =
    NewRequest nat string
  | PassTime nat
  | CachedRead1 nat
  | TryAcquire nat
  | CachedRead2 nat
  | InnerReturns nat 'r
  | InnerThrows nat js_error

definition set_phase :: "nat \<Rightarrow> 'r request_phase \<Rightarrow> ('s, 'r) idempotent_state \<Rightarrow> ('s, 'r) idempotent_state" where
  "set_phase c p st = st\<lparr>is_phase := jset c p (is_phase st)\<rparr>"

definition count_metric ::
  "(idempotency_metrics \<Rightarrow> idempotency_metrics) \<Rightarrow> ('s, 'r) idempotent_state \<Rightarrow> ('s, 'r) idempotent_state" where
  "count_metric f st = st\<lparr>is_metrics := map_option f (is_metrics st)\<rparr>"

text \<open>
  One step of one request; an event that does not fit the request's phase changes nothing.  The log
  of successful executions (key, start, end, result) is ours.
\<close>

fun idempotent_step ::
  "('s, 'r) idempotency_ops \<Rightarrow> int \<Rightarrow> ('s, 'r) idempotent_state \<Rightarrow> 'r request_event \<Rightarrow> ('s, 'r) idempotent_state" where
  "idempotent_step ops ttl st (NewRequest c k) =
     (if jhas (is_phase st) c then st else set_phase c (Cached1 k) st)"
| "idempotent_step ops ttl st (PassTime d) = st\<lparr>is_clock := is_clock st + int d\<rparr>"
| "idempotent_step ops ttl st (CachedRead1 c) =
     (case jget (is_phase st) c of
        Some (Cached1 k) \<Rightarrow>
          (case io_get_result ops (is_clock st) k (is_store st) of
             Some r \<Rightarrow> count_metric record_hit (set_phase c (Returned k r) st)
           | None \<Rightarrow> set_phase c (Acquiring k) st)
      | _ \<Rightarrow> st)"
| "idempotent_step ops ttl st (TryAcquire c) =
     (case jget (is_phase st) c of
        Some (Acquiring k) \<Rightarrow>
          (case io_try_acquire ops (is_clock st) k ttl (is_store st) of
             (False, s) \<Rightarrow> set_phase c (Cached2 k) (st\<lparr>is_store := s\<rparr>)
           | (True, s) \<Rightarrow>
               count_metric record_miss (set_phase c (Executing k (is_clock st)) (st\<lparr>is_store := s\<rparr>)))
      | _ \<Rightarrow> st)"
| "idempotent_step ops ttl st (CachedRead2 c) =
     (case jget (is_phase st) c of
        Some (Cached2 k) \<Rightarrow>
          (case io_get_result ops (is_clock st) k (is_store st) of
             Some r \<Rightarrow> count_metric record_hit (set_phase c (Returned k r) st)
           | None \<Rightarrow> count_metric record_conflict (set_phase c (Threw k (idempotency_conflict k)) st))
      | _ \<Rightarrow> st)"
| "idempotent_step ops ttl st (InnerReturns c r) =
     (case jget (is_phase st) c of
        Some (Executing k a) \<Rightarrow>
          set_phase c (Returned k r)
            (st\<lparr>is_store := io_store_result ops (is_clock st) k r ttl (is_store st),
                is_log := is_log st @ [(k, a, is_clock st, r)]\<rparr>)
      | _ \<Rightarrow> st)"
| "idempotent_step ops ttl st (InnerThrows c e) =
     (case jget (is_phase st) c of
        Some (Executing k a) \<Rightarrow>
          count_metric record_error
            (set_phase c (Threw k e) (st\<lparr>is_store := io_release ops k (is_store st)\<rparr>))
      | _ \<Rightarrow> st)"

text \<open>
  A run is timely when no execution outlives its lock: in every state reached, an executing request
  started at most \<open>ttl\<close> ago.
\<close>

definition timely :: "int \<Rightarrow> ('s, 'r) idempotent_state \<Rightarrow> bool" where
  "timely ttl st \<longleftrightarrow> (\<forall>c k a. jget (is_phase st) c = Some (Executing k a) \<longrightarrow> is_clock st \<le> a + ttl)"

inductive timely_reach ::
  "('s, 'r) idempotency_ops \<Rightarrow> int \<Rightarrow> ('s, 'r) idempotent_state \<Rightarrow> ('s, 'r) idempotent_state \<Rightarrow> bool"
  for ops ttl st0 where
  reach_start: "timely_reach ops ttl st0 st0"
| reach_step: "timely_reach ops ttl st0 st \<Longrightarrow> timely ttl (idempotent_step ops ttl st ev) \<Longrightarrow>
    timely_reach ops ttl st0 (idempotent_step ops ttl st ev)"

inductive_cases timely_reachE: "timely_reach ops ttl st0 st"

section \<open>Invariants of interleaved requests\<close>

definition executing :: "('s, 'r) idempotent_state \<Rightarrow> nat \<Rightarrow> string \<Rightarrow> int \<Rightarrow> bool" where
  "executing st c k a \<longleftrightarrow> jget (is_phase st) c = Some (Executing k a)"

definition separated :: "int \<Rightarrow> string \<times> int \<times> int \<times> 'r \<Rightarrow> string \<times> int \<times> int \<times> 'r \<Rightarrow> bool" where
  "separated ttl p q \<longleftrightarrow> (fst p = fst q \<longrightarrow> fst (snd (snd p)) + ttl < fst (snd q))"

lemma state_simps [simp]:
  "is_store (set_phase c p st) = is_store st" "is_clock (set_phase c p st) = is_clock st"
  "is_log (set_phase c p st) = is_log st" "is_phase (set_phase c p st) = jset c p (is_phase st)"
  "is_store (count_metric f st) = is_store st" "is_clock (count_metric f st) = is_clock st"
  "is_log (count_metric f st) = is_log st" "is_phase (count_metric f st) = is_phase st"
  by (simp_all add: set_phase_def count_metric_def)

context idempotency_port
begin

definition requests_ok :: "int \<Rightarrow> ('s, 'r) idempotent_state \<Rightarrow> bool" where
  "requests_ok ttl st \<longleftrightarrow>
     (\<forall>c k a. executing st c k a \<longrightarrow> a \<le> is_clock st
        \<and> (\<forall>t. held t (is_store st) k = (if t \<le> a + ttl then Some None else None)))
     \<and> (\<forall>c d k a b. executing st c k a \<and> executing st d k b \<longrightarrow> c = d)
     \<and> (\<forall>k s f r. (k, s, f, r) \<in> set (is_log st) \<longrightarrow> f \<le> is_clock st
        \<and> (\<forall>t. is_clock st \<le> t \<and> t \<le> f + ttl \<longrightarrow> (\<exists>r. held t (is_store st) k = Some (Some r))))
     \<and> (\<forall>c k a s f r. executing st c k a \<and> (k, s, f, r) \<in> set (is_log st) \<longrightarrow> f + ttl < a)
     \<and> sorted_wrt (separated ttl) (is_log st)"

definition results_ok :: "('s, 'r) idempotent_state \<Rightarrow> bool" where
  "results_ok st \<longleftrightarrow>
     (\<forall>t k r. held t (is_store st) k = Some (Some r) \<longrightarrow> (\<exists>s f. (k, s, f, r) \<in> set (is_log st)))
     \<and> (\<forall>c k r. jget (is_phase st) c = Some (Returned k r) \<longrightarrow> (\<exists>s f. (k, s, f, r) \<in> set (is_log st)))"

lemma requests_okD:
  assumes "requests_ok ttl st"
  shows "executing st c k a \<Longrightarrow> a \<le> is_clock st"
    and "executing st c k a \<Longrightarrow> held t (is_store st) k = (if t \<le> a + ttl then Some None else None)"
    and "executing st c k a \<Longrightarrow> executing st d k b \<Longrightarrow> c = d"
    and "(k, s, f, r) \<in> set (is_log st) \<Longrightarrow> f \<le> is_clock st"
    and "(k, s, f, r) \<in> set (is_log st) \<Longrightarrow> is_clock st \<le> t \<Longrightarrow> t \<le> f + ttl \<Longrightarrow>
      \<exists>r. held t (is_store st) k = Some (Some r)"
    and "executing st c k a \<Longrightarrow> (k, s, f, r) \<in> set (is_log st) \<Longrightarrow> f + ttl < a"
    and "sorted_wrt (separated ttl) (is_log st)"
  using assms unfolding requests_ok_def by blast+

text \<open>A step that leaves store, clock, log and executing requests alone keeps the invariant.\<close>

lemma requests_ok_same:
  assumes "requests_ok ttl st" "is_store st' = is_store st" "is_clock st' = is_clock st" "is_log st' = is_log st"
    and "\<And>c k a. executing st' c k a \<Longrightarrow> executing st c k a"
  shows "requests_ok ttl st'"
  unfolding requests_ok_def assms(2-4)
proof (intro conjI allI impI, goal_cases)
  case (1 c k a)
  then show ?case using requests_okD(1) [OF assms(1)] assms(5) by blast
next
  case (2 c k a t)
  then show ?case using requests_okD(2) [OF assms(1)] assms(5) by blast
next
  case (3 c d k a b)
  then show ?case using requests_okD(3) [OF assms(1)] assms(5) by blast
next
  case (6 c k a s f r)
  then show ?case using requests_okD(6) [OF assms(1)] assms(5) by blast
qed (use requests_okD(4,5,7) [OF assms(1)] in blast)+

lemma requests_ok_acquire:
  assumes ok: "requests_ok ttl st" and tm: "timely ttl st" and c: "jget (is_phase st) c = Some (Acquiring k)"
    and acq: "io_try_acquire ops (is_clock st) k ttl (is_store st) = (True, s')"
  shows "requests_ok ttl (set_phase c (Executing k (is_clock st)) (st\<lparr>is_store := s'\<rparr>))"
proof -
  have free: "held (is_clock st) (is_store st) k = None" using acq acquire_free by (metis fst_conv)
  have held': "held t s' k' = (if k' = k then (if t \<le> is_clock st + ttl then Some None else None) else held t (is_store st) k')" for t k'
    using acquire_held [OF free, where t = t and k' = k' and ttl = ttl] acq by simp
  have other: "k' \<noteq> k" if "executing st d k' a" for d k' a
    using requests_okD(2) [OF ok that, of "is_clock st"] tm that free
    unfolding timely_def executing_def by auto
  have gone: "f + ttl < is_clock st" if "(k, s, f, r) \<in> set (is_log st)" for s f r
    using requests_okD(5) [OF ok that, of "is_clock st"] free by force
  let ?st = "set_phase c (Executing k (is_clock st)) (st\<lparr>is_store := s'\<rparr>)"
  have ex: "executing ?st d k' a \<longleftrightarrow> (d = c \<and> k' = k \<and> a = is_clock st) \<or> (d \<noteq> c \<and> executing st d k' a)" for d k' a
    by (auto simp: executing_def)
  show ?thesis
    unfolding requests_ok_def
  proof (intro conjI allI impI, goal_cases)
    case (1 d k' a)
    then show ?case using requests_okD(1) [OF ok] by (auto simp: ex)
  next
    case (2 d k' a t)
    then show ?case using requests_okD(2) [OF ok, of d k' a t] other by (auto simp: ex held')
  next
    case (3 d e k' a b)
    then show ?case using requests_okD(3) [OF ok] other by (auto simp: ex) (use other in blast)+
  next
    case (4 k' s f r)
    then show ?case using requests_okD(4) [OF ok] by simp
  next
    case (5 k' s f r t)
    then have mem: "(k', s, f, r) \<in> set (is_log st)" and t: "is_clock st \<le> t" "t \<le> f + ttl" by simp_all
    have "k' \<noteq> k" using gone [of s f r] mem t by auto
    then show ?case using requests_okD(5) [OF ok mem t] by (simp add: held')
  next
    case (6 d k' a s f r)
    then show ?case using requests_okD(6) [OF ok] gone by (auto simp: ex)
  next
    case 7
    then show ?case using requests_okD(7) [OF ok] by simp
  qed
qed

lemma requests_ok_finish:
  assumes ok: "requests_ok ttl st" and c: "executing st c k a"
    and p: "\<And>k' b. p \<noteq> Executing k' b"
    and store: "\<And>t k'. k' \<noteq> k \<Longrightarrow> held t s' k' = held t (is_store st) k'"
    and log: "log' = is_log st \<or> log' = is_log st @ [(k, a, is_clock st, r)]
        \<and> (\<forall>t. held t s' k = (if t \<le> is_clock st + ttl then Some (Some r) else None))"
  shows "requests_ok ttl (set_phase c p (st\<lparr>is_store := s', is_log := log'\<rparr>))"
proof -
  let ?st = "set_phase c p (st\<lparr>is_store := s', is_log := log'\<rparr>)"
  have ex: "executing ?st d k' b \<Longrightarrow> executing st d k' b \<and> k' \<noteq> k" for d k' b
    using requests_okD(3) [OF ok c] p by (auto simp: executing_def split: if_splits)
  have mem: "(k', s, f, r') \<in> set log' \<Longrightarrow>
      (k', s, f, r') \<in> set (is_log st) \<or> (k' = k \<and> s = a \<and> f = is_clock st \<and> r' = r \<and>
        (\<forall>t. held t s' k = (if t \<le> is_clock st + ttl then Some (Some r) else None)))" for k' s f r'
    using log by auto
  show ?thesis
    unfolding requests_ok_def
  proof (intro conjI allI impI, goal_cases)
    case (1 d k' b)
    then show ?case using ex [OF 1] requests_okD(1) [OF ok] by auto
  next
    case (2 d k' b t)
    then show ?case using ex [OF 2] requests_okD(2) [OF ok, of d k' b t] store by simp
  next
    case (3 d e k' b b')
    then show ?case using ex requests_okD(3) [OF ok] by blast
  next
    case (4 k' s f r')
    then show ?case using mem [of k' s f r'] requests_okD(4) [OF ok] by auto
  next
    case (5 k' s f r' t)
    then have t: "is_clock st \<le> t" "t \<le> f + ttl" and m: "(k', s, f, r') \<in> set log'" by simp_all
    from mem [OF m] show ?case
    proof
      assume old: "(k', s, f, r') \<in> set (is_log st)"
      have "k' \<noteq> k"
      proof
        assume "k' = k"
        with requests_okD(6) [OF ok c, of s f r'] requests_okD(1) [OF ok c] old t show False by auto
      qed
      with requests_okD(5) [OF ok old t] store show ?thesis by simp
    next
      assume "k' = k \<and> s = a \<and> f = is_clock st \<and> r' = r \<and>
        (\<forall>t. held t s' k = (if t \<le> is_clock st + ttl then Some (Some r) else None))"
      with t show ?thesis by simp
    qed
  next
    case (6 d k' b s f r')
    then have "executing st d k' b" "k' \<noteq> k" "(k', s, f, r') \<in> set log'" using ex [of d k' b] by simp_all
    then show ?case using mem [of k' s f r'] requests_okD(6) [OF ok] by blast
  next
    case 7
    have "separated ttl q (k, a, is_clock st, r)" if "q \<in> set (is_log st)" for q
      using requests_okD(6) [OF ok c] that by (cases q) (auto simp: separated_def)
    with log requests_okD(7) [OF ok] show ?case by (auto simp: sorted_wrt_append)
  qed
qed

lemma requests_ok_step:
  assumes ok: "requests_ok ttl st" and tm: "timely ttl st"
  shows "requests_ok ttl (idempotent_step ops ttl st ev)"
proof (cases ev)
  case (NewRequest c k)
  with ok show ?thesis by (auto intro!: requests_ok_same [OF ok] simp: executing_def jhas_def split: if_splits)
next
  case (PassTime d)
  have "executing (st\<lparr>is_clock := is_clock st + int d\<rparr>) c k a = executing st c k a" for c k a
    by (simp add: executing_def)
  then have ex: "executing (idempotent_step ops ttl st ev) c k a = executing st c k a" for c k a
    by (simp add: PassTime)
  have s: "is_store (idempotent_step ops ttl st ev) = is_store st" "is_log (idempotent_step ops ttl st ev) = is_log st"
    "is_clock st \<le> is_clock (idempotent_step ops ttl st ev)" by (simp_all add: PassTime)
  show ?thesis
    unfolding requests_ok_def ex s(1,2)
  proof (intro conjI allI impI, goal_cases)
    case (1 c k a)
    then show ?case using requests_okD(1) [OF ok 1] s(3) by simp
  next
    case (4 k s f r)
    then show ?case using requests_okD(4) [OF ok 4] \<open>is_clock st \<le> _\<close> by simp
  next
    case (5 k s f r t)
    then show ?case using requests_okD(5) [OF ok, of k s f r t] \<open>is_clock st \<le> _\<close> by auto
  next
    case (2 c k a t)
    then show ?case by (rule requests_okD(2) [OF ok])
  next
    case (3 c d k a b)
    then show ?case using requests_okD(3) [OF ok, of c k a d b] by simp
  next
    case (6 c k a s f r)
    then show ?case using requests_okD(6) [OF ok, of c k a s f r] by simp
  next
    case 7
    show ?case by (rule requests_okD(7) [OF ok])
  qed
next
  case (CachedRead1 c)
  then show ?thesis
    by (auto intro!: requests_ok_same [OF ok] simp: executing_def
        split: option.split request_phase.split if_splits)
next
  case (CachedRead2 c)
  then show ?thesis
    by (auto intro!: requests_ok_same [OF ok] simp: executing_def
        split: option.split request_phase.split if_splits)
next
  case (TryAcquire c)
  show ?thesis
  proof (cases "\<exists>k. jget (is_phase st) c = Some (Acquiring k)")
    case True
    then obtain k where k: "jget (is_phase st) c = Some (Acquiring k)" by blast
    obtain b s' where acq: "io_try_acquire ops (is_clock st) k ttl (is_store st) = (b, s')" by fastforce
    show ?thesis
    proof (cases b)
      case True
      from requests_ok_acquire [OF ok tm k] acq True
      have "requests_ok ttl (set_phase c (Executing k (is_clock st)) (st\<lparr>is_store := s'\<rparr>))" by simp
      then have "requests_ok ttl (count_metric record_miss (set_phase c (Executing k (is_clock st)) (st\<lparr>is_store := s'\<rparr>)))"
        by (rule requests_ok_same) (simp_all add: executing_def)
      with k acq True TryAcquire show ?thesis by simp
    next
      case False
      then have "held (is_clock st) (is_store st) k \<noteq> None" using acq acquire_free by (metis fst_conv)
      then have "s' = is_store st" using acquire_refused acq by (metis snd_conv)
      with k acq False TryAcquire show ?thesis
        by (auto intro!: requests_ok_same [OF ok] simp: executing_def split: if_splits)
    qed
  next
    case False
    with TryAcquire ok show ?thesis by (auto split: option.split request_phase.split)
  qed
next
  case (InnerReturns c r)
  show ?thesis
  proof (cases "\<exists>k a. executing st c k a")
    case True
    then obtain k a where c: "executing st c k a" by blast
    have "requests_ok ttl (set_phase c (Returned k r) (st\<lparr>is_store := io_store_result ops (is_clock st) k r ttl (is_store st),
        is_log := is_log st @ [(k, a, is_clock st, r)]\<rparr>))"
      by (rule requests_ok_finish [OF ok c, where r = r]) (simp_all add: store_held)
    with c InnerReturns show ?thesis by (simp add: executing_def)
  next
    case False
    with InnerReturns ok show ?thesis by (auto simp: executing_def split: option.split request_phase.split)
  qed
next
  case (InnerThrows c e)
  show ?thesis
  proof (cases "\<exists>k a. executing st c k a")
    case True
    then obtain k a where c: "executing st c k a" by blast
    have "requests_ok ttl (set_phase c (Threw k e) (st\<lparr>is_store := io_release ops k (is_store st), is_log := is_log st\<rparr>))"
      by (rule requests_ok_finish [OF ok c]) (simp_all add: release_held)
    then have "requests_ok ttl (count_metric record_error (set_phase c (Threw k e) (st\<lparr>is_store := io_release ops k (is_store st)\<rparr>)))"
      by (rule requests_ok_same) (simp_all add: executing_def)
    with c InnerThrows show ?thesis by (simp add: executing_def)
  next
    case False
    with InnerThrows ok show ?thesis by (auto simp: executing_def split: option.split request_phase.split)
  qed
qed

lemma requests_ok_reach:
  "timely_reach ops ttl st0 st \<Longrightarrow> requests_ok ttl st0 \<Longrightarrow> timely ttl st0 \<Longrightarrow> requests_ok ttl st \<and> timely ttl st"
  by (induction rule: timely_reach.induct) (auto intro: requests_ok_step)

lemma results_ok_step: "results_ok st \<Longrightarrow> results_ok (idempotent_step ops ttl st ev)"
proof -
  assume ok: "results_ok st"
  then have held: "held t (is_store st) k = Some (Some r) \<Longrightarrow> \<exists>s f. (k, s, f, r) \<in> set (is_log st)"
    and ret: "jget (is_phase st) c = Some (Returned k r) \<Longrightarrow> \<exists>s f. (k, s, f, r) \<in> set (is_log st)" for t k r c
    unfolding results_ok_def by blast+
  have read: "io_get_result ops t k (is_store st) = Some r \<Longrightarrow> \<exists>s f. (k, s, f, r) \<in> set (is_log st)" for t k r
    using held [of t k r] by (auto simp: result_held split: option.splits)
  have acq: "held t s' k' = Some (Some r) \<Longrightarrow> \<exists>s f. (k', s, f, r) \<in> set (is_log st)"
    if "io_try_acquire ops now k ttl (is_store st) = (b, s')" for now k b s' t k' r
  proof (cases "held now (is_store st) k = None")
    case True
    with that acquire_held [OF True, where t = t and k' = k' and ttl = ttl] held [of t k' r]
    show "held t s' k' = Some (Some r) \<Longrightarrow> ?thesis" by (auto split: if_splits)
  next
    case False
    with that acquire_refused [OF False, of ttl] held [of t k' r]
    show "held t s' k' = Some (Some r) \<Longrightarrow> ?thesis" by simp
  qed
  show "results_ok (idempotent_step ops ttl st ev)"
  proof (cases ev)
    case (TryAcquire c)
    show ?thesis
    proof (cases "\<exists>k. jget (is_phase st) c = Some (Acquiring k)")
      case True
      then obtain k where k: "jget (is_phase st) c = Some (Acquiring k)" by blast
      obtain b s' where a: "io_try_acquire ops (is_clock st) k ttl (is_store st) = (b, s')" by fastforce
      from k a acq [OF a] ret show ?thesis
        unfolding TryAcquire results_ok_def by (cases b) (auto split: if_splits)
    next
      case False
      with TryAcquire ok show ?thesis by (auto split: option.split request_phase.split)
    qed
  next
    case (InnerReturns c r)
    with held ret show ?thesis
      unfolding results_ok_def
      by (auto simp: store_held split: option.split request_phase.split if_splits) blast+
  next
    case (InnerThrows c e)
    with held ret show ?thesis
      unfolding results_ok_def
      by (auto simp: release_held split: option.split request_phase.split if_splits)
  next
    case (CachedRead1 c)
    with held ret read show ?thesis
      unfolding results_ok_def
      by (auto split: option.split request_phase.split if_splits)
  next
    case (CachedRead2 c)
    with held ret read show ?thesis
      unfolding results_ok_def
      by (auto split: option.split request_phase.split if_splits)
  qed (use held ret in \<open>auto simp: results_ok_def split: if_splits\<close>)
qed

lemma results_ok_run: "results_ok st \<Longrightarrow> results_ok (foldl (idempotent_step ops ttl) st evs)"
  by (induction evs arbitrary: st) (auto intro: results_ok_step)

end

section \<open>Properties\<close>

definition idempotent_start :: "idempotency_metrics option \<Rightarrow> ('r idempotency_store, 'r) idempotent_state" where
  "idempotent_start m = \<lparr>is_store = [], is_clock = 0, is_phase = [], is_metrics = m, is_log = []\<rparr>"

lemma idempotent_start_ok:
  "memory_idempotency.requests_ok ttl (idempotent_start m)" "timely ttl (idempotent_start m)"
  "memory_idempotency.results_ok (idempotent_start m)"
  by (simp_all add: memory_idempotency.requests_ok_def memory_idempotency.results_ok_def timely_def
      idempotent_start_def executing_def mem_held_def)

text \<open>C5: Over the in-memory store, in every interleaving of requests in which no execution outlives its
  lock, at most one request at a time executes the inner use case for a key, and of two executions
  for a key that returned a result, the second started more than the time to live after the first
  had finished.\<close>

theorem executed_once_per_ttl:
  assumes "timely_reach mem_idempotency_ops ttl (idempotent_start m) st"
  shows "(executing st c k a \<and> executing st d k b \<longrightarrow> c = d)
    \<and> (i < j \<and> j < length (is_log st) \<and> fst (is_log st ! i) = fst (is_log st ! j) \<longrightarrow>
        fst (snd (snd (is_log st ! i))) + ttl < fst (snd (is_log st ! j)))"
proof -
  have ok: "memory_idempotency.requests_ok ttl st"
    using memory_idempotency.requests_ok_reach [OF assms] idempotent_start_ok by blast
  have "sorted_wrt (separated ttl) (is_log st)"
    by (rule memory_idempotency.requests_okD(7) [OF ok])
  then have "i < j \<and> j < length (is_log st) \<longrightarrow> separated ttl (is_log st ! i) (is_log st ! j)"
    by (simp add: sorted_wrt_iff_nth_less)
  then show ?thesis
    using memory_idempotency.requests_okD(3) [OF ok, of c k a d b] by (auto simp: separated_def)
qed

theorem executed_once_per_ttl_witness:
  "\<exists>st. timely_reach mem_idempotency_ops 10 (idempotent_start None) st \<and> executing st 1 ''k'' 0
    \<and> (\<forall>d b. executing (st :: (_, nat) idempotent_state) d ''k'' b \<longrightarrow> d = 1)"
proof -
  let ?step = "idempotent_step mem_idempotency_ops 10 :: (_, nat) idempotent_state \<Rightarrow> _"
  let ?s1 = "?step (idempotent_start None) (NewRequest 1 ''k'')"
  let ?s2 = "?step ?s1 (CachedRead1 1)"
  let ?s3 = "?step ?s2 (TryAcquire 1)"
  have s3: "?s3 = \<lparr>is_store = [(''k'', \<lparr>se_result = None, se_expires_at = 10\<rparr>)], is_clock = 0,
      is_phase = [(1, Executing ''k'' 0)], is_metrics = None, is_log = []\<rparr>"
    by (simp add: idempotent_start_def set_phase_def count_metric_def jhas_def mem_get_result_def mem_try_acquire_def)
  have "timely 10 ?s1" "timely 10 ?s2"
    by (simp_all add: timely_def idempotent_start_def set_phase_def jhas_def mem_get_result_def)
  moreover have "timely 10 ?s3" unfolding s3 by (simp add: timely_def)
  ultimately have reach: "timely_reach mem_idempotency_ops 10 (idempotent_start None) ?s3"
    by (intro reach_step reach_start)
  moreover have "executing ?s3 1 ''k'' 0" unfolding s3 by (simp add: executing_def)
  ultimately show ?thesis using executed_once_per_ttl [OF reach] by blast
qed

text \<open>In every interleaving, timely or not, a result that a request returns for a key is the result
  of a finished execution of the inner use case for that key.\<close>

theorem replayed_results_are_executed:
  "jget (is_phase (foldl (idempotent_step mem_idempotency_ops ttl) (idempotent_start m) evs)) c = Some (Returned k r)
   \<longrightarrow> (\<exists>s f. (k, s, f, r) \<in> set (is_log (foldl (idempotent_step mem_idempotency_ops ttl) (idempotent_start m) evs)))"
  using memory_idempotency.results_ok_run [OF idempotent_start_ok(3), of ttl m evs]
  unfolding memory_idempotency.results_ok_def by blast

theorem replayed_results_are_executed_witness:
  "\<exists>s f. (''k'', s, f, 7::nat) \<in> set (is_log (foldl (idempotent_step mem_idempotency_ops 10) (idempotent_start None)
     [NewRequest 1 ''k'', CachedRead1 1, TryAcquire 1, InnerReturns 1 7]))"
proof (rule replayed_results_are_executed [where c = 1, THEN mp])
  show "jget (is_phase (foldl (idempotent_step mem_idempotency_ops 10) (idempotent_start None)
     [NewRequest 1 ''k'', CachedRead1 1, TryAcquire 1, InnerReturns 1 (7::nat)])) 1
     = Some (Returned ''k'' 7)"
    by (simp add: idempotent_start_def set_phase_def count_metric_def jhas_def mem_get_result_def
        mem_try_acquire_def mem_store_result_def)
qed



end
