(* ===== verification/Mediator.thy ===== *)
theory Mediator
  imports Prelude "HOL-Library.Multiset"
begin

text \<open>
  The application layer's dispatching (\<open>packages/application/src/cqrs\<close>, \<open>mediator\<close>): the command
  and query buses, the mediator with its pipeline of behaviors, and the read-model side (read-model
  and snapshot stores, projection rebuilds, the consistency monitor).  Handlers and the rest of the
  pipeline are computations on a world; a behavior's own log or cache is a component beside it.
\<close>

section \<open>Buses\<close>

type_synonym ('q, 'r, 'w) handler = "'q \<Rightarrow> 'w \<Rightarrow> (js_error, 'r) outcome \<times> 'w"

definition command_bus_register ::
  "string \<Rightarrow> ('q, 'r, 'w) handler \<Rightarrow> (string, ('q, 'r, 'w) handler) jsmap \<Rightarrow> (string, ('q, 'r, 'w) handler) jsmap" where
  "command_bus_register name h m = jset name h m"

definition command_bus_dispatch ::
  "(string, ('q, 'r, 'w) handler) jsmap \<Rightarrow> string \<Rightarrow> ('q, 'r, 'w) handler" where
  "command_bus_dispatch m name q w =
     (case jget m name of
        None \<Rightarrow> (Inl (plain_error (''No handler registered for command: '' @ name)), w)
      | Some h \<Rightarrow> h q w)"

definition query_bus_register ::
  "string \<Rightarrow> ('q, 'r, 'w) handler \<Rightarrow> (string, ('q, 'r, 'w) handler) jsmap \<Rightarrow> (string, ('q, 'r, 'w) handler) jsmap" where
  "query_bus_register name h m = jset name h m"

definition query_bus_dispatch ::
  "(string, ('q, 'r, 'w) handler) jsmap \<Rightarrow> string \<Rightarrow> ('q, 'r, 'w) handler" where
  "query_bus_dispatch m name q w =
     (case jget m name of
        None \<Rightarrow> (Inl (plain_error (''No handler registered for query: '' @ name)), w)
      | Some h \<Rightarrow> h q w)"

section \<open>The mediator\<close>

record ('q, 'r, 'w) behavior =
  bhv_order :: "int option"
  bhv_handle :: "'q \<Rightarrow> ('w \<Rightarrow> (js_error, 'r) outcome \<times> 'w) \<Rightarrow> 'w \<Rightarrow> (js_error, 'r) outcome \<times> 'w"

record ('q, 'r, 'w) mediator =
  md_handlers :: "(string, ('q, 'r, 'w) handler) jsmap"
  md_behaviors :: "('q, 'r, 'w) behavior list"

definition mediator_new :: "('q, 'r, 'w) mediator" where
  "mediator_new = \<lparr>md_handlers = [], md_behaviors = []\<rparr>"

definition mediator_register :: "string \<Rightarrow> ('q, 'r, 'w) handler \<Rightarrow> ('q, 'r, 'w) mediator \<Rightarrow> ('q, 'r, 'w) mediator" where
  "mediator_register name h md = md\<lparr>md_handlers := jset name h (md_handlers md)\<rparr>"

definition behavior_order :: "('q, 'r, 'w) behavior \<Rightarrow> int" where
  "behavior_order b = (case bhv_order b of Some n \<Rightarrow> n | None \<Rightarrow> 0)"

text \<open>\<open>Array.prototype.sort\<close> is stable, as \<^const>\<open>sort_key\<close> is.\<close>

definition mediator_add_behavior :: "('q, 'r, 'w) behavior \<Rightarrow> ('q, 'r, 'w) mediator \<Rightarrow> ('q, 'r, 'w) mediator" where
  "mediator_add_behavior b md = md\<lparr>md_behaviors := sort_key behavior_order (md_behaviors md @ [b])\<rparr>"

function run_pipeline ::
  "('q, 'r, 'w) behavior list \<Rightarrow> 'q \<Rightarrow> ('q, 'r, 'w) handler \<Rightarrow> nat \<Rightarrow> 'w \<Rightarrow> (js_error, 'r) outcome \<times> 'w" where
  "run_pipeline bs q h i =
     (if i \<ge> length bs then h q
      else bhv_handle (bs ! i) q (run_pipeline bs q h (i + 1)))"
  by auto
termination by (relation "measure (\<lambda>(bs, q, h, i). length bs - i)") auto

declare run_pipeline.simps [simp del]

definition mediator_send :: "('q, 'r, 'w) mediator \<Rightarrow> string \<Rightarrow> ('q, 'r, 'w) handler" where
  "mediator_send md name q w =
     (case jget (md_handlers md) name of
        None \<Rightarrow> (Inl (plain_error (''No handler registered for request: '' @ name)), w)
      | Some h \<Rightarrow> run_pipeline (md_behaviors md) q h 0 w)"

definition mediator_handler_count :: "('q, 'r, 'w) mediator \<Rightarrow> int" where
  "mediator_handler_count md = jsize (md_handlers md)"

definition mediator_behavior_count :: "('q, 'r, 'w) mediator \<Rightarrow> int" where
  "mediator_behavior_count md = int (length (md_behaviors md))"

lemma run_pipeline_nested:
  "run_pipeline bs q h i = foldr (\<lambda>b next. bhv_handle b q next) (drop i bs) (h q)"
proof (induction bs q h i rule: run_pipeline.induct)
  case (1 bs q h i)
  show ?case
  proof (cases "i \<ge> length bs")
    case False
    then have "drop i bs = bs ! i # drop (i + 1) bs" by (simp add: Cons_nth_drop_Suc)
    with 1 [OF False] False show ?thesis by (simp add: run_pipeline.simps [of bs q h i])
  qed (simp add: run_pipeline.simps [of bs q h i])
qed

lemma sort_key_snoc: "sort_key f (sort_key f xs @ [x]) = sort_key f (xs @ [x])"
proof (rule properties_for_sort_key [symmetric, THEN sym])
  show "mset (sort_key f (xs @ [x])) = mset (sort_key f xs @ [x])" by simp
  have "filter (\<lambda>x. k = f x) (sort_key f ys) = filter (\<lambda>x. k = f x) ys" for k and ys :: "'a list"
    using sort_key_stable [of f k ys] by (simp add: eq_commute)
  then show "filter (\<lambda>x. f k = f x) (sort_key f (xs @ [x])) = filter (\<lambda>x. f k = f x) (sort_key f xs @ [x])" for k
    by simp
qed simp

lemma add_behaviors_sorted:
  "md_behaviors (fold mediator_add_behavior bs md) = sort_key behavior_order (md_behaviors md @ bs)
   \<or> bs = []"
proof (induction bs rule: rev_induct)
  case (snoc b bs)
  then show ?case
  proof (cases "bs = []")
    case False
    with snoc have "md_behaviors (fold mediator_add_behavior bs md) = sort_key behavior_order (md_behaviors md @ bs)"
      by simp
    then show ?thesis using sort_key_snoc [of behavior_order "md_behaviors md @ bs" b]
      by (simp add: mediator_add_behavior_def [of b])
  qed (simp add: mediator_add_behavior_def)
qed simp

section \<open>Behaviors\<close>

record mediator_log_entry =
  mle_request_type :: string
  mle_duration :: int
  mle_success :: bool
  mle_error :: "string option"

text \<open>\<open>start\<close> and \<open>stop\<close> are the clock readings before and after the rest of the pipeline.\<close>

definition logging_handle ::
  "string \<Rightarrow> int \<Rightarrow> int \<Rightarrow> ('w \<Rightarrow> (js_error, 'r) outcome \<times> 'w) \<Rightarrow> mediator_log_entry list \<times> 'w \<Rightarrow>
   (js_error, 'r) outcome \<times> mediator_log_entry list \<times> 'w" where
  "logging_handle request_type start stop next s =
     (case next (snd s) of
        (Inr r, w) \<Rightarrow>
          (Inr r, fst s @ [\<lparr>mle_request_type = request_type, mle_duration = stop - start,
             mle_success = True, mle_error = None\<rparr>], w)
      | (Inl e, w) \<Rightarrow>
          (Inl e, fst s @ [\<lparr>mle_request_type = request_type, mle_duration = stop - start,
             mle_success = False, mle_error = Some (error_message e)\<rparr>], w))"

fun join_with :: "string \<Rightarrow> string list \<Rightarrow> string" where
  "join_with sep [] = []"
| "join_with sep [s] = s"
| "join_with sep (s # ss) = s @ sep @ join_with sep ss"

definition mediator_validation_error :: "string list \<Rightarrow> js_error" where
  "mediator_validation_error errors =
     JsError ''MediatorValidationError'' (''Validation failed: '' @ join_with '', '' errors)"

definition validation_handle ::
  "('q \<Rightarrow> string list) \<Rightarrow> 'q \<Rightarrow> ('w \<Rightarrow> (js_error, 'r) outcome \<times> 'w) \<Rightarrow> 'w \<Rightarrow> (js_error, 'r) outcome \<times> 'w" where
  "validation_handle validate q next w =
     (let errors = validate q
      in if length errors > 0 then (Inl (mediator_validation_error errors), w) else next w)"

record 'r response_entry =
  re_value :: 'r
  re_cached_at :: int
  re_ttl :: "int option"

definition entry_is_stale :: "int option \<Rightarrow> int \<Rightarrow> 'r response_entry \<Rightarrow> bool" where
  "entry_is_stale ttl now e =
     (case (case re_ttl e of Some d \<Rightarrow> Some d | None \<Rightarrow> ttl) of
        None \<Rightarrow> False
      | Some d \<Rightarrow> now - re_cached_at e > d)"

definition caching_handle ::
  "('q \<Rightarrow> string) \<Rightarrow> int option \<Rightarrow> int \<Rightarrow> int \<Rightarrow> 'q \<Rightarrow> ('w \<Rightarrow> (js_error, 'r) outcome \<times> 'w) \<Rightarrow>
   (string, 'r response_entry) jsmap \<times> 'w \<Rightarrow> (js_error, 'r) outcome \<times> (string, 'r response_entry) jsmap \<times> 'w" where
  "caching_handle key_fn ttl now later q next s =
     (let call = (case next (snd s) of
            (Inl e, w) \<Rightarrow> (Inl e, fst s, w)
          | (Inr v, w) \<Rightarrow>
              (Inr v, jset (key_fn q) \<lparr>re_value = v, re_cached_at = later, re_ttl = ttl\<rparr> (fst s), w))
      in case jget (fst s) (key_fn q) of
           Some e \<Rightarrow> (if entry_is_stale ttl now e then call else (Inr (re_value e), s))
         | None \<Rightarrow> call)"

definition caching_invalidate :: "string \<Rightarrow> (string, 'r response_entry) jsmap \<Rightarrow> (string, 'r response_entry) jsmap" where
  "caching_invalidate k m = jdelete k m"

definition caching_has :: "int option \<Rightarrow> int \<Rightarrow> (string, 'r response_entry) jsmap \<Rightarrow> string \<Rightarrow> bool" where
  "caching_has ttl now m k =
     (case jget m k of Some e \<Rightarrow> \<not> entry_is_stale ttl now e | None \<Rightarrow> False)"

text \<open>Within the time to live a request is answered from the cache; errors are not cached.\<close>

lemma caching_hit:
  assumes "caching_handle key_fn ttl now later q next (m, w) = (Inr v, m1, w1)"
    and "jget m (key_fn q) = None" and "key_fn q' = key_fn q"
    and "case ttl of None \<Rightarrow> True | Some d \<Rightarrow> now' - later \<le> d"
  shows "caching_handle key_fn ttl now' later' q' next' (m1, w2) = (Inr v, m1, w2)"
  using assms by (auto simp: caching_handle_def entry_is_stale_def split: prod.splits sum.splits option.splits)

lemma caching_error_not_cached:
  "caching_handle key_fn ttl now later q next (m, w) = (Inl e, m1, w1) \<Longrightarrow> m1 = m"
  by (auto simp: caching_handle_def Let_def split: prod.splits sum.splits option.splits if_splits)

section \<open>Read models\<close>

record 'a read_model =
  rdm_id :: string
  rdm_version :: int
  rdm_updated_at :: int
  rdm_data :: 'a

type_synonym 'a read_model_store = "(string, 'a read_model) jsmap"

definition read_model_save :: "'a read_model \<Rightarrow> 'a read_model_store \<Rightarrow> 'a read_model_store" where
  "read_model_save m s = jset (rdm_id m) m s"

definition read_model_find_by_id :: "'a read_model_store \<Rightarrow> string \<Rightarrow> 'a read_model option" where
  "read_model_find_by_id s i = jget s i"

definition read_model_find_all :: "'a read_model_store \<Rightarrow> 'a read_model list" where
  "read_model_find_all s = jvalues s"

definition read_model_delete :: "string \<Rightarrow> 'a read_model_store \<Rightarrow> 'a read_model_store" where
  "read_model_delete i s = jdelete i s"

definition read_model_size :: "'a read_model_store \<Rightarrow> int" where
  "read_model_size s = jsize s"

interpretation read_models: keyed_store read_model_find_by_id read_model_save read_model_delete rdm_id "\<lambda>_. True"
  by unfold_locales
    (simp_all add: read_model_find_by_id_def read_model_save_def read_model_delete_def)

text \<open>\<open>reset\<close> of a projection over such a store.\<close>

fun delete_models :: "'a read_model list \<Rightarrow> 'a read_model_store \<Rightarrow> 'a read_model_store" where
  "delete_models [] s = s"
| "delete_models (m # ms) s = delete_models ms (read_model_delete (rdm_id m) s)"

definition base_projection_reset :: "'a read_model_store \<Rightarrow> 'a read_model_store" where
  "base_projection_reset s = delete_models (read_model_find_all s) s"

definition models_keyed :: "'a read_model_store \<Rightarrow> bool" where
  "models_keyed s \<longleftrightarrow> (\<forall>(k, m) \<in> set s. rdm_id m = k)"

lemma models_keyed_save: "models_keyed s \<Longrightarrow> models_keyed (read_model_save m s)"
  unfolding models_keyed_def read_model_save_def
  by (induction s) (auto split: if_splits)

lemma delete_models_eq: "delete_models ms s = filter (\<lambda>p. fst p \<notin> rdm_id ` set ms) s"
  by (induction ms arbitrary: s)
     (auto simp: read_model_delete_def AList.delete_eq intro!: filter_cong)

lemma base_projection_reset_empty: "models_keyed s \<Longrightarrow> base_projection_reset s = []"
proof -
  assume k: "models_keyed s"
  have "fst p \<in> rdm_id ` set (read_model_find_all s)" if "p \<in> set s" for p
    using k that by (force simp: models_keyed_def read_model_find_all_def image_iff)
  then show ?thesis by (simp add: base_projection_reset_def delete_models_eq filter_empty_conv)
qed

record ('e, 's) projection =
  prj_name :: string
  prj_project :: "'e \<Rightarrow> 's \<Rightarrow> (js_error, unit) outcome \<times> 's"
  prj_reset :: "'s \<Rightarrow> 's"

record rebuild_result =
  rbr_projection_name :: string
  rbr_events_processed :: int
  rbr_errors :: int
  rbr_duration :: int

fun rebuild_loop ::
  "('e \<Rightarrow> 's \<Rightarrow> (js_error, unit) outcome \<times> 's) \<Rightarrow> 'e list \<Rightarrow> int \<Rightarrow> 's \<Rightarrow> int \<times> 's" where
  "rebuild_loop project [] errors s = (errors, s)"
| "rebuild_loop project (e # es) errors s =
     (case project e s of
        (Inr u, s1) \<Rightarrow> rebuild_loop project es errors s1
      | (Inl err, s1) \<Rightarrow> rebuild_loop project es (errors + 1) s1)"

definition rebuild ::
  "(string, ('e, 's) projection) jsmap \<Rightarrow> int \<Rightarrow> int \<Rightarrow> string \<Rightarrow> 'e list \<Rightarrow> 's \<Rightarrow>
   (js_error, rebuild_result) outcome \<times> 's" where
  "rebuild ps start stop name events s =
     (case jget ps name of
        None \<Rightarrow> (Inl (plain_error (''Projection not registered: '' @ name)), s)
      | Some p \<Rightarrow>
          (case rebuild_loop (prj_project p) events 0 (prj_reset p s) of
             (errors, s1) \<Rightarrow>
               (Inr \<lparr>rbr_projection_name = name, rbr_events_processed = int (length events),
                     rbr_errors = errors, rbr_duration = stop - start\<rparr>, s1)))"

fun rebuild_names ::
  "(string, ('e, 's) projection) jsmap \<Rightarrow> int \<Rightarrow> int \<Rightarrow> string list \<Rightarrow> 'e list \<Rightarrow> (string, rebuild_result) jsmap \<Rightarrow>
   's \<Rightarrow> (js_error, (string, rebuild_result) jsmap) outcome \<times> 's" where
  "rebuild_names ps start stop [] events results s = (Inr results, s)"
| "rebuild_names ps start stop (n # ns) events results s =
     (case rebuild ps start stop n events s of
        (Inl e, s1) \<Rightarrow> (Inl e, s1)
      | (Inr r, s1) \<Rightarrow> rebuild_names ps start stop ns events (jset n r results) s1)"

definition rebuild_all where
  "rebuild_all ps start stop events s = rebuild_names ps start stop (jkeys ps) events [] s"

lemma rebuild_loop_counts:
  "rebuild_loop project es n s =
     (n + int (length (filter (\<lambda>r. \<not> is_returned r) (fst (map_st project es s)))), snd (map_st project es s))"
  by (induction es arbitrary: n s) (auto split: prod.splits sum.splits)

section \<open>Snapshots\<close>

record 'st app_snapshot =
  aps_aggregate_id :: string
  aps_version :: int
  aps_state :: 'st
  aps_taken_at :: int

type_synonym 'st app_snapshot_store = "(string, 'st app_snapshot list) jsmap"

definition app_snapshot_save :: "'st app_snapshot \<Rightarrow> 'st app_snapshot_store \<Rightarrow> 'st app_snapshot_store" where
  "app_snapshot_save sn m =
     (let m1 = (if \<not> jhas m (aps_aggregate_id sn) then jset (aps_aggregate_id sn) [] m else m)
      in case jget m1 (aps_aggregate_id sn) of
           Some snaps \<Rightarrow> jset (aps_aggregate_id sn) (snaps @ [sn]) m1
         | None \<Rightarrow> m1)"

definition app_snapshot_find_latest :: "'st app_snapshot_store \<Rightarrow> string \<Rightarrow> 'st app_snapshot option" where
  "app_snapshot_find_latest m i =
     (case jget m i of
        Some (sn # sns) \<Rightarrow> Some (foldl (\<lambda>a b. if aps_version a > aps_version b then a else b) sn sns)
      | _ \<Rightarrow> None)"

definition app_snapshot_find_by_version :: "'st app_snapshot_store \<Rightarrow> string \<Rightarrow> int \<Rightarrow> 'st app_snapshot option" where
  "app_snapshot_find_by_version m i v =
     (case jget m i of Some sns \<Rightarrow> List.find (\<lambda>sn. aps_version sn = v) sns | None \<Rightarrow> None)"

definition app_snapshot_delete :: "string \<Rightarrow> 'st app_snapshot_store \<Rightarrow> 'st app_snapshot_store" where
  "app_snapshot_delete i m = jdelete i m"

definition app_snapshot_size :: "'st app_snapshot_store \<Rightarrow> int" where
  "app_snapshot_size m = foldl (\<lambda>n sns. n + int (length sns)) 0 (jvalues m)"

text \<open>The remainder of JavaScript has the sign of the dividend, which is positive where it is taken.\<close>

definition should_take_snapshot :: "int \<Rightarrow> int \<Rightarrow> bool" where
  "should_take_snapshot current_version interval = (current_version > 0 \<and> current_version mod interval = 0)"

lemma latest_fold:
  "let r = foldl (\<lambda>a b. if aps_version a > aps_version b then a else b) sn sns
   in r \<in> set (sn # sns) \<and> (\<forall>x \<in> set (sn # sns). aps_version x \<le> aps_version r)"
proof (induction sns arbitrary: sn)
  case (Cons x sns)
  from Cons [of "if aps_version sn > aps_version x then sn else x"] show ?case
    by (auto simp: Let_def split: if_splits)
qed simp

section \<open>The consistency monitor\<close>

type_synonym lag_monitor = "(string, int list) jsmap"

definition record_lag :: "string \<Rightarrow> int \<Rightarrow> lag_monitor \<Rightarrow> lag_monitor" where
  "record_lag name lag m =
     (let m1 = (if \<not> jhas m name then jset name [] m else m)
      in case jget m1 name of Some xs \<Rightarrow> jset name (xs @ [lag]) m1 | None \<Rightarrow> m1)"

definition get_average_lag :: "lag_monitor \<Rightarrow> string \<Rightarrow> rat" where
  "get_average_lag m name =
     (case jget m name of
        Some (x # xs) \<Rightarrow> of_int (foldl (\<lambda>a b. a + b) x xs) / of_nat (length (x # xs))
      | _ \<Rightarrow> 0)"

definition get_max_lag :: "lag_monitor \<Rightarrow> string \<Rightarrow> int" where
  "get_max_lag m name = (case jget m name of Some (x # xs) \<Rightarrow> foldl max x xs | _ \<Rightarrow> 0)"

definition get_sample_count :: "lag_monitor \<Rightarrow> string \<Rightarrow> int" where
  "get_sample_count m name = (case jget m name of Some xs \<Rightarrow> int (length xs) | None \<Rightarrow> 0)"

definition projection_is_healthy :: "lag_monitor \<Rightarrow> string \<Rightarrow> int \<Rightarrow> bool" where
  "projection_is_healthy m name threshold = (get_max_lag m name \<le> threshold)"

record consistency_stats =
  cst_average_lag :: rat
  cst_max_lag :: int
  cst_sample_count :: int
  cst_is_healthy :: bool

fun report_loop ::
  "lag_monitor \<Rightarrow> int \<Rightarrow> string list \<Rightarrow> (string, consistency_stats) jsmap \<Rightarrow> bool \<Rightarrow>
   (string, consistency_stats) jsmap \<times> bool" where
  "report_loop m threshold [] projections healthy = (projections, healthy)"
| "report_loop m threshold (n # ns) projections healthy =
     (let h = projection_is_healthy m n threshold
      in report_loop m threshold ns
           (jset n \<lparr>cst_average_lag = get_average_lag m n, cst_max_lag = get_max_lag m n,
                    cst_sample_count = get_sample_count m n, cst_is_healthy = h\<rparr> projections)
           (if \<not> h then False else healthy))"

definition consistency_report :: "lag_monitor \<Rightarrow> int \<Rightarrow> (string, consistency_stats) jsmap \<times> bool" where
  "consistency_report m threshold = report_loop m threshold (jkeys m) [] True"

lemma report_loop_healthy:
  "snd (report_loop m t ns ps h) = (h \<and> (\<forall>n \<in> set ns. projection_is_healthy m n t))"
  by (induction ns arbitrary: ps h) (auto simp: Let_def)

lemma foldl_max_le: "foldl max (x::int) xs \<le> t \<longleftrightarrow> x \<le> t \<and> (\<forall>y \<in> set xs. y \<le> t)"
  by (induction xs arbitrary: x) auto

text \<open>The report is healthy exactly when no lag that was recorded is above the threshold.\<close>

lemma consistency_report_healthy:
  assumes "jwf m" "0 \<le> t"
  shows "snd (consistency_report m t) \<longleftrightarrow> (\<forall>xs \<in> set (jvalues m). \<forall>x \<in> set xs. x \<le> t)"
proof -
  have "projection_is_healthy m k t \<longleftrightarrow> (\<forall>x \<in> set xs. x \<le> t)" if "(k, xs) \<in> set m" for k xs
  proof -
    have "jget m k = Some xs" using that assms(1) by simp
    then show ?thesis
      using assms(2) by (cases xs) (simp_all add: projection_is_healthy_def get_max_lag_def foldl_max_le
          del: map_of_eq_Some_iff Some_eq_map_of_iff)
  qed
  then have "(\<forall>p \<in> set m. projection_is_healthy m (fst p) t) \<longleftrightarrow> (\<forall>p \<in> set m. \<forall>x \<in> set (snd p). x \<le> t)"
    by (intro ball_cong) auto
  then show ?thesis unfolding consistency_report_def report_loop_healthy by simp
qed

section \<open>Properties\<close>

text \<open>Whatever the order in which the behaviors were added, a request runs through them nested in
  ascending order, behaviors of equal order in the order they were added, with the handler inside;
  without a handler it is an error and nothing runs.\<close>

theorem mediator_pipeline_order:
  fixes bs :: "('q, 'r, 'w) behavior list"
  shows "mediator_send (mediator_register name h (fold mediator_add_behavior bs mediator_new)) name q w =
     foldr (\<lambda>b next. bhv_handle b q next) (sort_key behavior_order bs) (h q) w
   \<and> (name' \<noteq> name \<longrightarrow>
      mediator_send (mediator_register name h (fold mediator_add_behavior bs mediator_new)) name' q w =
        (Inl (plain_error (''No handler registered for request: '' @ name')), w))"
proof -
  have bs: "md_behaviors (fold mediator_add_behavior bs mediator_new) = sort_key behavior_order bs"
    using add_behaviors_sorted [of bs mediator_new] by (auto simp: mediator_new_def)
  have "md_handlers (fold mediator_add_behavior bs md) = md_handlers md" for md
    by (induction bs arbitrary: md) (simp_all add: mediator_add_behavior_def)
  with bs show ?thesis
    by (simp add: mediator_send_def mediator_register_def run_pipeline_nested) (simp add: mediator_new_def)
qed

theorem mediator_pipeline_order_witness:
  "mediator_send (mediator_register ''A'' (\<lambda>q w. (Inr q, w)) (fold mediator_add_behavior [] mediator_new)) ''B'' (1::nat) (0::nat)
     = (Inl (plain_error (''No handler registered for request: '' @ ''B'')), 0)"
  using mediator_pipeline_order [of "''A''" "\<lambda>q w. (Inr q, w)" "[]" "1::nat" "0::nat" "''B''"] by simp

text \<open>Rebuilding a projection over the read-model store does not depend on what the store held: the
  models are those the events produce from an empty store, every event is tried in order whether
  others fail or not, and the result counts the failed ones.\<close>

theorem rebuild_from_scratch:
  assumes "models_keyed s" and "jget ps name = Some \<lparr>prj_name = name, prj_project = project, prj_reset = base_projection_reset\<rparr>"
  shows "rebuild ps start stop name events s =
    (Inr \<lparr>rbr_projection_name = name, rbr_events_processed = int (length events),
       rbr_errors = int (length (filter (\<lambda>r. \<not> is_returned r) (fst (map_st project events [])))),
       rbr_duration = stop - start\<rparr>,
     snd (map_st project events []))"
  using assms by (simp add: rebuild_def base_projection_reset_empty rebuild_loop_counts)

theorem rebuild_from_scratch_witness:
  "snd (rebuild [(''p'', \<lparr>prj_name = ''p'',
        prj_project = (\<lambda>e s. if e = 0 then (Inl (plain_error ''x''), s)
                             else (Inr (), read_model_save \<lparr>rdm_id = ''m'', rdm_version = e, rdm_updated_at = 0, rdm_data = e\<rparr> s)),
        prj_reset = base_projection_reset\<rparr>)] 0 1 ''p'' [0, 4]
      [(''old'', \<lparr>rdm_id = ''old'', rdm_version = 9, rdm_updated_at = 0, rdm_data = (9::int)\<rparr>)]) =
    [(''m'', \<lparr>rdm_id = ''m'', rdm_version = 4, rdm_updated_at = 0, rdm_data = 4\<rparr>)]"
proof -
  let ?p = "\<lambda>e s. if e = 0 then (Inl (plain_error ''x''), s)
     else (Inr (), read_model_save \<lparr>rdm_id = ''m'', rdm_version = e, rdm_updated_at = 0, rdm_data = (e::int)\<rparr> s)"
  let ?s = "[(''old'', \<lparr>rdm_id = ''old'', rdm_version = 9, rdm_updated_at = 0, rdm_data = (9::int)\<rparr>)]"
  have "models_keyed ?s" by (simp add: models_keyed_def)
  from rebuild_from_scratch [OF this, of "[(''p'', \<lparr>prj_name = ''p'', prj_project = ?p, prj_reset = base_projection_reset\<rparr>)]"
      "''p''" ?p 0 1 "[0, 4]"]
  show ?thesis by (simp add: read_model_save_def)
qed

end
