(* ===== verification/Saga.thy ===== *)
theory Saga
  imports Prelude
begin

text \<open>
  Sagas (\<open>packages/saga/src\<close>): the transaction with its compensations, event choreography, the
  saga store and the monitor.  An action or a compensation is a computation on the world \<open>'w\<close> it
  changes; \<open>step\<close> is split at its \<open>await\<close> so that a rollback can run in between.
\<close>

section \<open>Saga transactions\<close>

datatype saga_status = Pending | Running | Committed | Compensating | Compensated | Failed

fun saga_status_string :: "saga_status \<Rightarrow> string" where
  "saga_status_string Pending = ''pending''"
| "saga_status_string Running = ''running''"
| "saga_status_string Committed = ''committed''"
| "saga_status_string Compensating = ''compensating''"
| "saga_status_string Compensated = ''compensated''"
| "saga_status_string Failed = ''failed''"

definition saga_timeout_error :: "int \<Rightarrow> js_error" where
  "saga_timeout_error ms = JsError ''SagaTimeoutError'' (''Saga timed out after '' @ show_int ms @ ''ms'')"

definition saga_step_error :: "saga_status \<Rightarrow> js_error" where
  "saga_step_error st =
     JsError ''SagaStepError'' (''Cannot add step to saga in status: '' @ saga_status_string st)"

type_synonym ('w, 'e) effect = "'w \<Rightarrow> ('e, unit) outcome \<times> 'w"

record ('w, 'e) saga_step_record =
  ssr_name :: string
  ssr_compensation :: "('w, 'e) effect"

record ('w, 'e) saga_transaction =
  sx_started_at :: int
  sx_timeout :: "int option"
  sx_completed :: "('w, 'e) saga_step_record list"
  sx_status :: saga_status

definition saga_begin :: "int \<Rightarrow> int option \<Rightarrow> ('w, 'e) saga_transaction" where
  "saga_begin now timeout =
     \<lparr>sx_started_at = now, sx_timeout = timeout, sx_completed = [], sx_status = Running\<rparr>"

text \<open>\<open>step\<close> before its \<open>await\<close>: the two guards.\<close>

definition saga_step_guard :: "int \<Rightarrow> ('w, 'e) saga_transaction \<Rightarrow> js_error option" where
  "saga_step_guard now tx =
     (if sx_status tx \<noteq> Running then Some (saga_step_error (sx_status tx))
      else case sx_timeout tx of
          Some ms \<Rightarrow> (if now - sx_started_at tx > ms then Some (saga_timeout_error ms) else None)
        | None \<Rightarrow> None)"

text \<open>\<open>step\<close> after its \<open>await\<close>: the finished action's compensation is pushed.\<close>

definition saga_step_done ::
  "string \<Rightarrow> ('w, 'e) effect \<Rightarrow> ('w, 'e) saga_transaction \<Rightarrow> ('w, 'e) saga_transaction" where
  "saga_step_done name undo tx =
     tx\<lparr>sx_completed := sx_completed tx @ [\<lparr>ssr_name = name, ssr_compensation = undo\<rparr>]\<rparr>"

definition saga_step ::
  "int \<Rightarrow> string \<Rightarrow> ('w \<Rightarrow> ('e, 't) outcome \<times> 'w) \<Rightarrow> ('t \<Rightarrow> ('w, 'e) effect) \<Rightarrow>
   ('w, 'e) saga_transaction \<Rightarrow> 'w \<Rightarrow> ('e thrown, 't) outcome \<times> ('w, 'e) saga_transaction \<times> 'w" where
  "saga_step now name action undo tx w =
     (case saga_step_guard now tx of
        Some err \<Rightarrow> (Inl (NewError err), tx, w)
      | None \<Rightarrow> (case action w of
            (Inl e, w1) \<Rightarrow> (Inl (Rethrown e), tx, w1)
          | (Inr r, w1) \<Rightarrow> (Inr r, saga_step_done name (undo r) tx, w1)))"

definition saga_commit :: "('w, 'e) saga_transaction \<Rightarrow> ('w, 'e) saga_transaction" where
  "saga_commit tx = tx\<lparr>sx_status := Committed\<rparr>"

text \<open>A compensation that throws is swallowed; the loop goes on with the remaining ones.\<close>

definition run_one_compensation :: "('w, 'e) saga_step_record \<Rightarrow> 'w \<Rightarrow> 'w" where
  "run_one_compensation st w = (case ssr_compensation st w of (Inr u, w1) \<Rightarrow> w1 | (Inl e, w1) \<Rightarrow> w1)"

fun compensation_loop :: "('w, 'e) saga_step_record list \<Rightarrow> 'w \<Rightarrow> 'w" where
  "compensation_loop [] w = w"
| "compensation_loop (st # sts) w = compensation_loop sts (run_one_compensation st w)"

definition run_compensations :: "('w, 'e) saga_transaction \<Rightarrow> 'w \<Rightarrow> 'w" where
  "run_compensations tx w = compensation_loop (rev (sx_completed tx)) w"

definition saga_rollback ::
  "('w, 'e) saga_transaction \<Rightarrow> 'w \<Rightarrow> ('w, 'e) saga_transaction \<times> 'w" where
  "saga_rollback tx w =
     (let tx1 = tx\<lparr>sx_status := Compensating\<rparr>; w1 = run_compensations tx1 w
      in (tx1\<lparr>sx_status := Compensated\<rparr>, w1))"

lemmas saga_defs = saga_step_def saga_step_guard_def saga_step_done_def saga_commit_def
  saga_rollback_def run_compensations_def Let_def

lemma compensation_loop_append:
  "compensation_loop (xs @ ys) w = compensation_loop ys (compensation_loop xs w)"
  by (induction xs arbitrary: w) auto

lemma run_one_compensation_snd: "run_one_compensation st w = snd (ssr_compensation st w)"
  by (simp add: run_one_compensation_def split: prod.splits sum.splits)

text \<open>A sequence of steps given by their clock, name, action and compensation, run until one throws.\<close>

type_synonym ('w, 'e, 't) planned_step =
  "int \<times> string \<times> ('w \<Rightarrow> ('e, 't) outcome \<times> 'w) \<times> ('t \<Rightarrow> ('w, 'e) effect)"

fun saga_steps ::
  "('w, 'e, 't) planned_step list \<Rightarrow> ('w, 'e) saga_transaction \<Rightarrow> 'w \<Rightarrow>
   bool \<times> ('w, 'e) saga_transaction \<times> 'w" where
  "saga_steps [] tx w = (True, tx, w)"
| "saga_steps ((now, name, action, undo) # ps) tx w =
     (case saga_step now name action undo tx w of
        (Inr r, tx1, w1) \<Rightarrow> saga_steps ps tx1 w1
      | (Inl e, tx1, w1) \<Rightarrow> (False, tx1, w1))"

text \<open>A step whose action changes nothing when it throws and whose compensation undoes it.\<close>

definition undoable :: "('w, 'e, 't) planned_step \<Rightarrow> bool" where
  "undoable p \<longleftrightarrow> (case p of (now, name, action, undo) \<Rightarrow>
     \<forall>w. case action w of
           (Inr r, w1) \<Rightarrow> snd (undo r w1) = w
         | (Inl e, w1) \<Rightarrow> w1 = w)"

lemma saga_step_undo:
  assumes "undoable (now, name, action, undo)"
    and "saga_step now name action undo tx w = (r, tx1, w1)"
  shows "run_compensations tx1 w1 = run_compensations tx w"
  using assms
  by (auto simp: saga_defs undoable_def run_one_compensation_snd compensation_loop_append
      split: option.splits prod.splits sum.splits)
     (metis (no_types, lifting) sum.case prod.case case_prodD)+

lemma saga_steps_undo:
  assumes "\<forall>p \<in> set ps. undoable p" and "saga_steps ps tx w = (ok, tx', w')"
  shows "run_compensations tx' w' = run_compensations tx w"
  using assms
proof (induction ps tx w rule: saga_steps.induct)
  case (2 now name action undo ps tx w)
  obtain r tx1 w1 where st: "saga_step now name action undo tx w = (r, tx1, w1)"
    by (metis surj_pair)
  then have undo: "run_compensations tx1 w1 = run_compensations tx w"
    using "2.prems"(1) by (intro saga_step_undo) auto
  show ?case
  proof (cases r)
    case (Inl e)
    with "2.prems"(2) st undo show ?thesis by simp
  next
    case (Inr v)
    with "2.prems" st have "run_compensations tx' w' = run_compensations tx1 w1"
      by (intro "2.IH" [OF st [symmetric] Inr refl]) auto
    with undo show ?thesis by simp
  qed
qed simp

section \<open>Choreography\<close>

text \<open>
  Handlers are compared by identity, so a handler is a name; what it does is a parameter.
  \<open>emit\<close> awaits the handlers of the event's type one after the other and stops when one throws.
\<close>

type_synonym choreography = "(string, string list) jsmap"

definition handlers_of :: "choreography \<Rightarrow> string \<Rightarrow> string list" where
  "handlers_of c ty = (case jget c ty of Some hs \<Rightarrow> hs | None \<Rightarrow> [])"

definition choreography_on :: "string \<Rightarrow> string \<Rightarrow> choreography \<Rightarrow> choreography" where
  "choreography_on ty h c = (let existing = handlers_of c ty in jset ty (existing @ [h]) c)"

definition choreography_off :: "string \<Rightarrow> string \<Rightarrow> choreography \<Rightarrow> choreography" where
  "choreography_off ty h c = (let existing = handlers_of c ty in jset ty (filter (\<lambda>x. x \<noteq> h) existing) c)"

fun emit_loop :: "(string \<Rightarrow> ('w, 'e) effect) \<Rightarrow> string list \<Rightarrow> ('w, 'e) effect" where
  "emit_loop run [] w = (Inr (), w)"
| "emit_loop run (h # hs) w =
     (case run h w of (Inr u, w1) \<Rightarrow> emit_loop run hs w1 | (Inl e, w1) \<Rightarrow> (Inl e, w1))"

definition choreography_emit :: "(string \<Rightarrow> ('w, 'e) effect) \<Rightarrow> string \<Rightarrow> choreography \<Rightarrow> ('w, 'e) effect" where
  "choreography_emit run ty c w = emit_loop run (handlers_of c ty) w"

definition choreography_handler_count :: "choreography \<Rightarrow> string \<Rightarrow> int" where
  "choreography_handler_count c ty = (case jget c ty of Some hs \<Rightarrow> int (length hs) | None \<Rightarrow> 0)"

definition choreography_clear :: "string option \<Rightarrow> choreography \<Rightarrow> choreography" where
  "choreography_clear ty c = (case ty of Some t \<Rightarrow> jdelete t c | None \<Rightarrow> [])"

lemma handlers_of_on: "handlers_of (choreography_on ty h c) ty' =
    (if ty' = ty then handlers_of c ty @ [h] else handlers_of c ty')"
  by (simp add: choreography_on_def handlers_of_def Let_def)

lemma handlers_of_off: "handlers_of (choreography_off ty h c) ty' =
    (if ty' = ty then filter (\<lambda>x. x \<noteq> h) (handlers_of c ty) else handlers_of c ty')"
  by (simp add: choreography_off_def handlers_of_def Let_def)

lemma emit_loop_all:
  "\<forall>h \<in> set hs. \<forall>w. is_returned (fst (run h w)) \<Longrightarrow>
   emit_loop run hs w = (Inr (), fold (\<lambda>h w. snd (run h w)) hs w)"
proof (induction hs arbitrary: w)
  case (Cons h hs)
  obtain r w1 where "run h w = (r, w1)" by fastforce
  moreover from this Cons.prems have "is_returned r" by (metis fst_conv list.set_intros(1))
  ultimately show ?case using Cons by (cases r) auto
qed simp

section \<open>The saga store\<close>

record saga_state =
  sg_id :: string
  sg_name :: string
  sg_status :: saga_status
  sg_started_at :: int
  sg_updated_at :: int
  sg_completed_steps :: int
  sg_error :: "string option"

type_synonym saga_store = "(string, saga_state) jsmap"

definition saga_store_save :: "saga_state \<Rightarrow> saga_store \<Rightarrow> saga_store" where
  "saga_store_save st m = jset (sg_id st) st m"

definition saga_store_find :: "saga_store \<Rightarrow> string \<Rightarrow> saga_state option" where
  "saga_store_find m i = jget m i"

definition saga_store_find_by_status :: "saga_store \<Rightarrow> saga_status \<Rightarrow> saga_state list" where
  "saga_store_find_by_status m st = filter (\<lambda>s. sg_status s = st) (jvalues m)"

definition saga_store_delete :: "string \<Rightarrow> saga_store \<Rightarrow> saga_store" where
  "saga_store_delete i m = jdelete i m"

definition saga_store_size :: "saga_store \<Rightarrow> int" where
  "saga_store_size m = jsize m"

definition saga_store_wf :: "saga_store \<Rightarrow> bool" where
  "saga_store_wf m \<longleftrightarrow> jwf m \<and> (\<forall>(k, s) \<in> set m. sg_id s = k)"

lemmas saga_store_defs = saga_store_save_def saga_store_find_def saga_store_delete_def
  saga_store_wf_def

interpretation saga_store: keyed_store saga_store_find saga_store_save saga_store_delete sg_id saga_store_wf
  by unfold_locales
    (auto simp: saga_store_defs jset_entries jdelete_entries intro: jwf_jset jwf_jdelete)

lemma saga_store_by_status:
  assumes "saga_store_wf m"
  shows "s \<in> set (saga_store_find_by_status m st) \<longleftrightarrow>
     saga_store_find m (sg_id s) = Some s \<and> sg_status s = st"
proof -
  have "(sg_id s, s) \<in> set m \<longleftrightarrow> s \<in> set (jvalues m)"
    using assms by (force simp: saga_store_wf_def)
  then show ?thesis
    using assms by (auto simp: saga_store_find_by_status_def saga_store_defs jget_iff_entry)
qed

section \<open>The saga monitor\<close>

datatype saga_event_kind = SStarted | SCommitted | SCompensated | SFailed string

record saga_monitor =
  sm_started :: int
  sm_committed :: int
  sm_compensated :: int
  sm_failed :: int
  sm_events :: "(string \<times> saga_event_kind \<times> int) list"

definition saga_monitor_new :: saga_monitor where
  "saga_monitor_new = \<lparr>sm_started = 0, sm_committed = 0, sm_compensated = 0, sm_failed = 0, sm_events = []\<rparr>"

fun saga_monitor_on :: "int \<Rightarrow> string \<Rightarrow> saga_event_kind \<Rightarrow> saga_monitor \<Rightarrow> saga_monitor" where
  "saga_monitor_on now i SStarted m =
     m\<lparr>sm_started := sm_started m + 1, sm_events := sm_events m @ [(i, SStarted, now)]\<rparr>"
| "saga_monitor_on now i SCommitted m =
     m\<lparr>sm_committed := sm_committed m + 1, sm_events := sm_events m @ [(i, SCommitted, now)]\<rparr>"
| "saga_monitor_on now i SCompensated m =
     m\<lparr>sm_compensated := sm_compensated m + 1, sm_events := sm_events m @ [(i, SCompensated, now)]\<rparr>"
| "saga_monitor_on now i (SFailed e) m =
     m\<lparr>sm_failed := sm_failed m + 1, sm_events := sm_events m @ [(i, SFailed e, now)]\<rparr>"

datatype saga_monitor_op = MonitorEvent int string saga_event_kind | MonitorReset

fun saga_monitor_step :: "saga_monitor \<Rightarrow> saga_monitor_op \<Rightarrow> saga_monitor" where
  "saga_monitor_step m (MonitorEvent now i k) = saga_monitor_on now i k m"
| "saga_monitor_step m MonitorReset = saga_monitor_new"

definition count_events :: "(saga_event_kind \<Rightarrow> bool) \<Rightarrow> saga_monitor \<Rightarrow> int" where
  "count_events P m = int (length (filter (\<lambda>(i, k, t). P k) (sm_events m)))"

definition saga_monitor_ok :: "saga_monitor \<Rightarrow> bool" where
  "saga_monitor_ok m \<longleftrightarrow>
     sm_started m = count_events (\<lambda>k. k = SStarted) m \<and>
     sm_committed m = count_events (\<lambda>k. k = SCommitted) m \<and>
     sm_compensated m = count_events (\<lambda>k. k = SCompensated) m \<and>
     sm_failed m = count_events (\<lambda>k. \<exists>e. k = SFailed e) m"

lemma saga_monitor_ok_new [inv_intros]: "saga_monitor_ok saga_monitor_new"
  by (simp add: saga_monitor_ok_def saga_monitor_new_def count_events_def)

lemma saga_monitor_ok_on: "saga_monitor_ok m \<Longrightarrow> saga_monitor_ok (saga_monitor_on now i k m)"
  by (cases k) (simp_all add: saga_monitor_ok_def count_events_def)

interpretation saga_monitor: invariant_machine saga_monitor_step saga_monitor_ok
proof
  fix m e assume "saga_monitor_ok m"
  then show "saga_monitor_ok (saga_monitor_step m e)"
    by (cases e) (auto intro: saga_monitor_ok_on saga_monitor_ok_new)
qed

section \<open>Properties\<close>

lemma compensation_loop_fold:
  "compensation_loop sts w = fold (\<lambda>st w. snd (ssr_compensation st w)) sts w"
  by (induction sts arbitrary: w) (auto simp: run_one_compensation_snd)

text \<open>A rollback runs the compensation of every completed step exactly once, the last completed
  step first, also when compensations on the way throw, and ends as compensated.\<close>

theorem saga_rollback_reverse_order:
  "saga_rollback tx w =
     (tx\<lparr>sx_status := Compensated\<rparr>,
      fold (\<lambda>st w. snd (ssr_compensation st w)) (rev (sx_completed tx)) w)"
  by (simp add: saga_rollback_def run_compensations_def Let_def compensation_loop_fold)

text \<open>C2: Atomicity: if every step's compensation undoes its action and a throwing action changes
  nothing, then running any sequence of steps until one throws (or is refused by a timeout) and
  rolling back restores the world the saga started from.\<close>

theorem saga_atomicity:
  assumes "\<forall>p \<in> set ps. undoable p" and "saga_steps ps (saga_begin t0 timeout) w = (ok, tx, w1)"
  shows "snd (saga_rollback tx w1) = w \<and> sx_status (fst (saga_rollback tx w1)) = Compensated"
proof -
  from saga_steps_undo [OF assms] show ?thesis by (simp add: saga_rollback_def Let_def run_compensations_def saga_begin_def)
qed

theorem saga_atomicity_witness:
  "\<exists>tx w1. saga_steps
      [(0, ''debit'', \<lambda>w. (Inr (5::int), w - 5), \<lambda>r w. (Inr (), w + r)),
       (1, ''ship'', \<lambda>w. (Inl ''out of stock'', w), \<lambda>r w. (Inr (), w))]
      (saga_begin 0 None) (100::int) = (False, tx, w1)
    \<and> w1 = 95 \<and> snd (saga_rollback tx w1) = 100"
proof -
  let ?ps = "[(0, ''debit'', \<lambda>w. (Inr (5::int), w - 5), \<lambda>r w. (Inr (), w + r)),
       (1, ''ship'', \<lambda>w. (Inl ''out of stock'', w), \<lambda>r w. (Inr (), w))]
       :: (int, string, int) planned_step list"
  have "\<forall>p \<in> set ?ps. undoable p" by (simp add: undoable_def)
  moreover obtain tx where "saga_steps ?ps (saga_begin 0 None) 100 = (False, tx, 95)"
    by (simp add: saga_defs saga_begin_def)
  ultimately show ?thesis using saga_atomicity [of ?ps 0 None 100 False tx 95] by blast
qed

text \<open>A saga that is not running any more, or whose deadline has passed, refuses a step with an
  error, does not run the action and does not change; a step whose action throws is not recorded
  for compensation.\<close>

theorem saga_step_refused:
  "(sx_status tx \<noteq> Running \<longrightarrow>
      saga_step now name action undo tx w = (Inl (NewError (saga_step_error (sx_status tx))), tx, w))
   \<and> (sx_status tx = Running \<and> sx_timeout tx = Some ms \<and> sx_started_at tx + ms < now \<longrightarrow>
      saga_step now name action undo tx w = (Inl (NewError (saga_timeout_error ms)), tx, w))
   \<and> (saga_step now name action undo tx w = (Inl e, tx1, w1) \<longrightarrow> tx1 = tx)"
  by (auto simp: saga_defs split: option.splits prod.splits sum.splits)

theorem saga_step_refused_witness:
  "saga_step 11 ''s'' (\<lambda>w. (Inr (), Suc w)) (\<lambda>r w. (Inr (), w)) (saga_begin 0 (Some 10)) 7
   = (Inl (NewError (saga_timeout_error 10) :: string thrown), saga_begin 0 (Some 10), 7)"
proof -
  have "sx_status (saga_begin 0 (Some 10)) = Running \<and> sx_timeout (saga_begin 0 (Some 10)) = Some 10
    \<and> sx_started_at (saga_begin 0 (Some 10)) + 10 < 11"
    by (simp add: saga_begin_def)
  then show ?thesis
    using saga_step_refused [of "saga_begin 0 (Some 10)" 11 "''s''" "\<lambda>w. (Inr (), Suc w)"] by blast
qed

text \<open>The transaction does not guard \<open>rollback\<close>: rolling back a committed saga compensates all
  of it, and rolling back twice runs every compensation twice.\<close>

theorem saga_rollback_unguarded:
  "snd (saga_rollback (saga_commit tx) w) = snd (saga_rollback tx w)
   \<and> (case saga_rollback tx w of (tx1, w1) \<Rightarrow>
        sx_completed tx1 = sx_completed tx \<and>
        snd (saga_rollback tx1 w1) = run_compensations tx (run_compensations tx w))"
  by (simp add: saga_defs)

text \<open>The saga monitor's counters always agree with its event log: each counts the recorded
  events of its kind since the last reset.\<close>

theorem saga_monitor_counts:
  "let m = foldl saga_monitor_step saga_monitor_new ops in
     sm_started m = count_events (\<lambda>k. k = SStarted) m \<and>
     sm_committed m = count_events (\<lambda>k. k = SCommitted) m \<and>
     sm_compensated m = count_events (\<lambda>k. k = SCompensated) m \<and>
     sm_failed m = count_events (\<lambda>k. \<exists>e. k = SFailed e) m"
  using saga_monitor.run_keeps [OF saga_monitor_ok_new, of ops]
  by (simp only: Let_def saga_monitor_ok_def)

end
