(* ===== verification/Process_Manager.thy ===== *)
theory Process_Manager
  imports Prelude
begin

text \<open>
  Process managers (\<open>packages/process-manager/src\<close>): the state machine and its transition rules,
  the lifecycle helpers of \<open>ProcessManager\<close>, the in-memory store with its correlation index, the
  correlator, the timeout scheduler and the monitor.
\<close>

section \<open>State machine\<close>

record 'st transition_rule =
  tr_from :: 'st
  tr_to :: 'st

type_synonym 'st state_machine = "'st transition_rule list"

definition can_transition :: "'st state_machine \<Rightarrow> 'st \<Rightarrow> 'st \<Rightarrow> bool" where
  "can_transition rules src dst = list_ex (\<lambda>r. tr_from r = src \<and> tr_to r = dst) rules"

text \<open>The error's message prints the states; \<open>show_st\<close> is their \<open>String\<close> conversion.\<close>

definition invalid_transition_error :: "('st \<Rightarrow> string) \<Rightarrow> 'st \<Rightarrow> 'st \<Rightarrow> js_error" where
  "invalid_transition_error show_st src dst =
     JsError ''InvalidTransitionError''
       (''Invalid transition from '' @ [CHR 0x27] @ show_st src @ [CHR 0x27] @ '' to '' @
        [CHR 0x27] @ show_st dst @ [CHR 0x27])"

definition validate_transition ::
  "('st \<Rightarrow> string) \<Rightarrow> 'st state_machine \<Rightarrow> 'st \<Rightarrow> 'st \<Rightarrow> (js_error, unit) outcome" where
  "validate_transition show_st rules src dst =
     (if \<not> can_transition rules src dst then Inl (invalid_transition_error show_st src dst) else Inr ())"

definition get_allowed_transitions :: "'st state_machine \<Rightarrow> 'st \<Rightarrow> 'st list" where
  "get_allowed_transitions rules src = map tr_to (filter (\<lambda>r. tr_from r = src) rules)"

definition get_rule_count :: "'st state_machine \<Rightarrow> int" where
  "get_rule_count rules = int (length rules)"

lemma can_transition_allowed: "can_transition rules src dst \<longleftrightarrow> dst \<in> set (get_allowed_transitions rules src)"
  by (auto simp: can_transition_def get_allowed_transitions_def list_ex_iff)

section \<open>Process lifecycle\<close>

datatype process_status = PIdle | PRunning | PCompleted | PFailed | PTimedOut

record ('st, 'err) process_state =
  ps_id :: string
  ps_name :: string
  ps_status :: process_status
  ps_current :: 'st
  ps_started_at :: int
  ps_updated_at :: int
  ps_correlation :: "string option"
  ps_timeout_at :: "int option"
  ps_error :: "'err option"

text \<open>\<open>begin\<close>: \<open>fresh\<close> is what \<open>crypto.randomUUID()\<close> would return.\<close>

definition pm_begin ::
  "string \<Rightarrow> 'st \<Rightarrow> int \<Rightarrow> string \<Rightarrow> string option \<Rightarrow> string option \<Rightarrow> ('st, 'err) process_state" where
  "pm_begin name initial now fresh pid correlation_id =
     \<lparr>ps_id = (case pid of Some i \<Rightarrow> i | None \<Rightarrow> fresh), ps_name = name, ps_status = PRunning,
      ps_current = initial, ps_started_at = now, ps_updated_at = now,
      ps_correlation = correlation_id, ps_timeout_at = None, ps_error = None\<rparr>"

definition pm_transition ::
  "('st \<Rightarrow> string) \<Rightarrow> 'st state_machine \<Rightarrow> int \<Rightarrow> 'st \<Rightarrow> ('st, 'err) process_state \<Rightarrow>
   (js_error, ('st, 'err) process_state) outcome" where
  "pm_transition show_st rules now dst s =
     (case validate_transition show_st rules (ps_current s) dst of
        Inl e \<Rightarrow> Inl e
      | Inr u \<Rightarrow> Inr (s\<lparr>ps_current := dst, ps_updated_at := now\<rparr>))"

definition pm_complete :: "int \<Rightarrow> ('st, 'err) process_state \<Rightarrow> ('st, 'err) process_state" where
  "pm_complete now s = s\<lparr>ps_status := PCompleted, ps_updated_at := now\<rparr>"

definition pm_fail :: "int \<Rightarrow> 'err \<Rightarrow> ('st, 'err) process_state \<Rightarrow> ('st, 'err) process_state" where
  "pm_fail now err s = s\<lparr>ps_status := PFailed, ps_error := Some err, ps_updated_at := now\<rparr>"

definition pm_time_out :: "int \<Rightarrow> ('st, 'err) process_state \<Rightarrow> ('st, 'err) process_state" where
  "pm_time_out now s = s\<lparr>ps_status := PTimedOut, ps_updated_at := now\<rparr>"

definition pm_set_timeout_at :: "int \<Rightarrow> int \<Rightarrow> ('st, 'err) process_state \<Rightarrow> ('st, 'err) process_state" where
  "pm_set_timeout_at now deadline s = s\<lparr>ps_timeout_at := Some deadline, ps_updated_at := now\<rparr>"

datatype ('st, 'err) pm_op =
    PmTransition 'st | PmComplete | PmFail 'err | PmTimeOut | PmSetTimeout int

text \<open>
  One operation on a process at a time \<open>now\<close>; the caller of a refused transition gets the error and
  the state is as before.
\<close>

fun pm_step ::
  "('st \<Rightarrow> string) \<Rightarrow> 'st state_machine \<Rightarrow> ('st, 'err) process_state \<Rightarrow> int \<times> ('st, 'err) pm_op \<Rightarrow>
   ('st, 'err) process_state" where
  "pm_step show_st rules s (now, PmTransition dst) =
     (case pm_transition show_st rules now dst s of Inr s1 \<Rightarrow> s1 | Inl e \<Rightarrow> s)"
| "pm_step show_st rules s (now, PmComplete) = pm_complete now s"
| "pm_step show_st rules s (now, PmFail err) = pm_fail now err s"
| "pm_step show_st rules s (now, PmTimeOut) = pm_time_out now s"
| "pm_step show_st rules s (now, PmSetTimeout deadline) = pm_set_timeout_at now deadline s"

text \<open>States the rules lead to.\<close>

inductive rule_path :: "'st state_machine \<Rightarrow> 'st \<Rightarrow> 'st \<Rightarrow> bool" for rules where
  here: "rule_path rules x x"
| along: "rule_path rules x y \<Longrightarrow> r \<in> set rules \<Longrightarrow> tr_from r = y \<Longrightarrow> rule_path rules x (tr_to r)"

definition pm_inv :: "'st state_machine \<Rightarrow> ('st, 'err) process_state \<Rightarrow> ('st, 'err) process_state \<Rightarrow> bool" where
  "pm_inv rules s0 s \<longleftrightarrow>
     rule_path rules (ps_current s0) (ps_current s) \<and> ps_id s = ps_id s0 \<and> ps_name s = ps_name s0 \<and>
     ps_started_at s = ps_started_at s0 \<and> ps_correlation s = ps_correlation s0"

lemmas pm_defs = pm_transition_def pm_complete_def pm_fail_def pm_time_out_def pm_set_timeout_at_def
  validate_transition_def

lemma can_transition_path:
  "rule_path rules x y \<Longrightarrow> can_transition rules y z \<Longrightarrow> rule_path rules x z"
  by (auto simp: can_transition_def list_ex_iff intro: rule_path.along)

lemma pm_step_inv [inv_intros]: "pm_inv rules s0 s \<Longrightarrow> pm_inv rules s0 (pm_step show_st rules s op)"
  by (cases "(show_st, rules, s, op)" rule: pm_step.cases)
     (auto simp: pm_inv_def pm_defs intro: can_transition_path)

interpretation process: invariant_machine "pm_step show_st rules" "pm_inv rules s0"
  by unfold_locales (rule pm_step_inv)

section \<open>The in-memory store\<close>

record ('st, 'err) process_store =
  pst_by_id :: "(string, ('st, 'err) process_state) jsmap"
  pst_by_correlation :: "(string, string) jsmap"

definition process_store_new :: "('st, 'err) process_store" where
  "process_store_new = \<lparr>pst_by_id = [], pst_by_correlation = []\<rparr>"

definition process_store_save ::
  "('st, 'err) process_state \<Rightarrow> ('st, 'err) process_store \<Rightarrow> ('st, 'err) process_store" where
  "process_store_save s m =
     (let m1 = (case ps_correlation s of
                  Some c \<Rightarrow> m\<lparr>pst_by_correlation := jset c (ps_id s) (pst_by_correlation m)\<rparr>
                | None \<Rightarrow> m)
      in m1\<lparr>pst_by_id := jset (ps_id s) s (pst_by_id m1)\<rparr>)"

definition process_store_find_by_id ::
  "('st, 'err) process_store \<Rightarrow> string \<Rightarrow> ('st, 'err) process_state option" where
  "process_store_find_by_id m i = jget (pst_by_id m) i"

definition process_store_find_by_correlation ::
  "('st, 'err) process_store \<Rightarrow> string \<Rightarrow> ('st, 'err) process_state option" where
  "process_store_find_by_correlation m c =
     (case jget (pst_by_correlation m) c of None \<Rightarrow> None | Some i \<Rightarrow> process_store_find_by_id m i)"

fun status_loop ::
  "process_status \<Rightarrow> ('st, 'err) process_state list \<Rightarrow> ('st, 'err) process_state list \<Rightarrow>
   ('st, 'err) process_state list" where
  "status_loop st [] results = results"
| "status_loop st (s # ss) results =
     status_loop st ss (if ps_status s = st then results @ [s] else results)"

definition process_store_find_by_status ::
  "('st, 'err) process_store \<Rightarrow> process_status \<Rightarrow> ('st, 'err) process_state list" where
  "process_store_find_by_status m st = status_loop st (jvalues (pst_by_id m)) []"

definition process_store_delete ::
  "string \<Rightarrow> ('st, 'err) process_store \<Rightarrow> ('st, 'err) process_store" where
  "process_store_delete i m =
     (let m1 = (case jget (pst_by_id m) i of
                  Some s \<Rightarrow> (case ps_correlation s of
                      Some c \<Rightarrow> m\<lparr>pst_by_correlation := jdelete c (pst_by_correlation m)\<rparr>
                    | None \<Rightarrow> m)
                | None \<Rightarrow> m)
      in m1\<lparr>pst_by_id := jdelete i (pst_by_id m1)\<rparr>)"

definition process_store_size :: "('st, 'err) process_store \<Rightarrow> int" where
  "process_store_size m = jsize (pst_by_id m)"

lemmas process_store_defs = process_store_save_def process_store_delete_def
  process_store_find_by_id_def process_store_find_by_correlation_def Let_def

lemma status_loop_filter: "status_loop st ss rs = rs @ filter (\<lambda>s. ps_status s = st) ss"
  by (induction ss arbitrary: rs) auto

interpretation process_store: keyed_store process_store_find_by_id process_store_save
    process_store_delete ps_id "\<lambda>m. jwf (pst_by_id m)"
  by unfold_locales (auto simp: process_store_defs jwf_jset jwf_jdelete split: option.splits)

text \<open>
  The index is exact: a correlation id points to a process exactly when that process is stored and
  carries the id.  \<open>save\<close> keeps it when the id is not another process's and the process does not
  change its id; \<open>delete\<close> always keeps it.
\<close>

definition index_exact :: "('st, 'err) process_store \<Rightarrow> bool" where
  "index_exact m \<longleftrightarrow>
     (\<forall>c i. jget (pst_by_correlation m) c = Some i \<longleftrightarrow>
        (\<exists>s. jget (pst_by_id m) i = Some s \<and> ps_correlation s = Some c)) \<and>
     (\<forall>i s. jget (pst_by_id m) i = Some s \<longrightarrow> ps_id s = i)"

definition save_respects_index :: "('st, 'err) process_state \<Rightarrow> ('st, 'err) process_store \<Rightarrow> bool" where
  "save_respects_index s m \<longleftrightarrow>
     (\<forall>old. jget (pst_by_id m) (ps_id s) = Some old \<longrightarrow> ps_correlation old = ps_correlation s) \<and>
     (\<forall>c i. ps_correlation s = Some c \<and> jget (pst_by_correlation m) c = Some i \<longrightarrow> i = ps_id s)"

lemma index_exact_new [inv_intros]: "index_exact process_store_new"
  by (simp add: index_exact_def process_store_new_def)

lemma process_store_lookups:
  "jget (pst_by_id (process_store_save s m)) i = (if i = ps_id s then Some s else jget (pst_by_id m) i)"
  "jget (pst_by_correlation (process_store_save s m)) c =
     (if ps_correlation s = Some c then Some (ps_id s) else jget (pst_by_correlation m) c)"
  "jget (pst_by_id (process_store_delete k m)) i = (if i = k then None else jget (pst_by_id m) i)"
  "jget (pst_by_correlation (process_store_delete k m)) c =
     (if (\<exists>s. jget (pst_by_id m) k = Some s \<and> ps_correlation s = Some c) then None
      else jget (pst_by_correlation m) c)"
  by (auto simp: process_store_save_def process_store_delete_def Let_def split: option.splits)

lemma index_exactD:
  "index_exact m \<Longrightarrow> jget (pst_by_correlation m) c = Some i \<longleftrightarrow>
     (\<exists>s. jget (pst_by_id m) i = Some s \<and> ps_correlation s = Some c)"
  "index_exact m \<Longrightarrow> jget (pst_by_id m) i = Some s \<Longrightarrow> ps_id s = i"
  by (auto simp: index_exact_def)

lemma index_exact_save [inv_intros]:
  assumes ix: "index_exact m" and sr: "save_respects_index s m"
  shows "index_exact (process_store_save s m)"
  unfolding index_exact_def
proof (intro conjI allI impI)
  fix c i
  show "jget (pst_by_correlation (process_store_save s m)) c = Some i \<longleftrightarrow>
    (\<exists>t. jget (pst_by_id (process_store_save s m)) i = Some t \<and> ps_correlation t = Some c)"
  proof (cases "ps_correlation s = Some c")
    case True
    have "i = ps_id s" if "jget (pst_by_id m) i = Some t" "ps_correlation t = Some c" for t
      using that True sr index_exactD(1) [OF ix, of c i] by (auto simp: save_respects_index_def)
    with True show ?thesis by (auto simp: process_store_lookups)
  next
    case False
    have "ps_correlation t \<noteq> Some c" if "jget (pst_by_id m) (ps_id s) = Some t" for t
      using that False sr by (auto simp: save_respects_index_def)
    with False show ?thesis by (auto simp: process_store_lookups index_exactD(1) [OF ix])
  qed
next
  fix i t assume "jget (pst_by_id (process_store_save s m)) i = Some t"
  then show "ps_id t = i" by (auto simp: process_store_lookups index_exactD(2) [OF ix] split: if_splits)
qed

lemma index_exact_delete [inv_intros]:
  assumes ix: "index_exact m"
  shows "index_exact (process_store_delete k m)"
  unfolding index_exact_def
proof (intro conjI allI impI)
  fix c i
  show "jget (pst_by_correlation (process_store_delete k m)) c = Some i \<longleftrightarrow>
    (\<exists>t. jget (pst_by_id (process_store_delete k m)) i = Some t \<and> ps_correlation t = Some c)"
  proof (cases "jget (pst_by_correlation m) c = Some k")
    case True
    then have "jget (pst_by_correlation (process_store_delete k m)) c = None"
      by (simp add: process_store_lookups index_exactD(1) [OF ix])
    moreover have "i = k" if "jget (pst_by_id m) i = Some t" "ps_correlation t = Some c" for t
    proof -
      have "jget (pst_by_correlation m) c = Some i" using that index_exactD(1) [OF ix] by blast
      with True show ?thesis by simp
    qed
    ultimately show ?thesis by (auto simp: process_store_lookups)
  next
    case False
    then have "\<not> (\<exists>s. jget (pst_by_id m) k = Some s \<and> ps_correlation s = Some c)"
      by (simp add: index_exactD(1) [OF ix])
    then show ?thesis by (auto simp: process_store_lookups index_exactD(1) [OF ix])
  qed
next
  fix i t assume "jget (pst_by_id (process_store_delete k m)) i = Some t"
  then show "ps_id t = i" by (auto simp: process_store_lookups index_exactD(2) [OF ix] split: if_splits)
qed

lemma find_by_correlation_exact:
  assumes ix: "index_exact m"
  shows "process_store_find_by_correlation m c = Some s \<longleftrightarrow>
      process_store_find_by_id m (ps_id s) = Some s \<and> ps_correlation s = Some c"
proof
  assume "process_store_find_by_correlation m c = Some s"
  then obtain i where "jget (pst_by_correlation m) c = Some i" "jget (pst_by_id m) i = Some s"
    by (auto simp: process_store_find_by_correlation_def process_store_find_by_id_def split: option.splits)
  then show "process_store_find_by_id m (ps_id s) = Some s \<and> ps_correlation s = Some c"
    using index_exactD [OF ix] by (auto simp: process_store_find_by_id_def)
next
  assume "process_store_find_by_id m (ps_id s) = Some s \<and> ps_correlation s = Some c"
  then have "jget (pst_by_correlation m) c = Some (ps_id s)"
    using index_exactD(1) [OF ix] by (auto simp: process_store_find_by_id_def)
  with \<open>_ \<and> _\<close> show "process_store_find_by_correlation m c = Some s"
    by (simp add: process_store_find_by_correlation_def)
qed

section \<open>The correlator\<close>

type_synonym correlator = "(string, string) jsmap"

definition correlator_register :: "string \<Rightarrow> string \<Rightarrow> correlator \<Rightarrow> correlator" where
  "correlator_register cid pid m = jset cid pid m"

definition correlator_resolve :: "correlator \<Rightarrow> string \<Rightarrow> string option" where
  "correlator_resolve m cid = jget m cid"

definition correlator_deregister :: "string \<Rightarrow> correlator \<Rightarrow> correlator" where
  "correlator_deregister cid m = jdelete cid m"

definition correlator_has :: "correlator \<Rightarrow> string \<Rightarrow> bool" where
  "correlator_has m cid = jhas m cid"

interpretation correlator: keyed_store
    "\<lambda>m c. map_option (Pair c) (correlator_resolve m c)"
    "\<lambda>(c, p). correlator_register c p" correlator_deregister fst "\<lambda>m. True"
  by unfold_locales
     (auto simp: correlator_register_def correlator_resolve_def correlator_deregister_def)

section \<open>The timeout scheduler\<close>

text \<open>
  A callback is a computation on a world of its own that may throw; it does not reach into the
  scheduler.  \<open>tick\<close> iterates over the pending entries, removes an expired one before it calls its
  callback, and stops at the first callback that throws.
\<close>

record ('w, 'e) timeout_entry =
  te_process :: string
  te_fire_at :: int
  te_callback :: "'w \<Rightarrow> ('e, unit) outcome \<times> 'w"

type_synonym ('w, 'e) timeouts = "(string, ('w, 'e) timeout_entry) jsmap"

definition timeout_schedule ::
  "int \<Rightarrow> string \<Rightarrow> int \<Rightarrow> ('w \<Rightarrow> ('e, unit) outcome \<times> 'w) \<Rightarrow> ('w, 'e) timeouts \<Rightarrow> ('w, 'e) timeouts" where
  "timeout_schedule now pid delay_ms cb m =
     (let fire_at = now + delay_ms
      in jset pid \<lparr>te_process = pid, te_fire_at = fire_at, te_callback = cb\<rparr> m)"

definition timeout_cancel :: "string \<Rightarrow> ('w, 'e) timeouts \<Rightarrow> ('w, 'e) timeouts" where
  "timeout_cancel pid m = jdelete pid m"

fun tick_loop ::
  "int \<Rightarrow> (string \<times> ('w, 'e) timeout_entry) list \<Rightarrow> ('w, 'e) timeouts \<Rightarrow> 'w \<Rightarrow>
   ('e, unit) outcome \<times> ('w, 'e) timeouts \<times> 'w" where
  "tick_loop now [] m w = (Inr (), m, w)"
| "tick_loop now ((i, entry) # es) m w =
     (if te_fire_at entry \<le> now
      then (let m1 = jdelete i m
            in case te_callback entry w of
                 (Inl e, w1) \<Rightarrow> (Inl e, m1, w1)
               | (Inr u, w1) \<Rightarrow> tick_loop now es m1 w1)
      else tick_loop now es m w)"

definition timeout_tick ::
  "int \<Rightarrow> ('w, 'e) timeouts \<Rightarrow> 'w \<Rightarrow> ('e, unit) outcome \<times> ('w, 'e) timeouts \<times> 'w" where
  "timeout_tick now m w = tick_loop now m m w"

definition timeout_pending_ids :: "('w, 'e) timeouts \<Rightarrow> string list" where
  "timeout_pending_ids m = jkeys m"

definition timeout_has_pending :: "('w, 'e) timeouts \<Rightarrow> string \<Rightarrow> bool" where
  "timeout_has_pending m pid = jhas m pid"

definition expired :: "int \<Rightarrow> string \<times> ('w, 'e) timeout_entry \<Rightarrow> bool" where
  "expired now p = (te_fire_at (snd p) \<le> now)"

lemma jdelete_middle:
  "i \<notin> set (map fst pre) \<Longrightarrow> i \<notin> set (map fst post) \<Longrightarrow> jdelete i (pre @ (i, e) # post) = pre @ post"
proof (induction pre)
  case (Cons p pre)
  then show ?case by (cases p) auto
qed simp

lemma tick_loop_eq:
  assumes "distinct (map fst (pre @ es))" and "\<forall>(i, e) \<in> set es. \<forall>w. is_returned (fst (te_callback e w))"
  shows "tick_loop now es (pre @ es) w =
    (Inr (), pre @ filter (\<lambda>p. \<not> expired now p) es,
     fold (\<lambda>(i, e) w. snd (te_callback e w)) (filter (expired now) es) w)"
  using assms
proof (induction es arbitrary: pre w)
  case (Cons p es)
  obtain i e where p: "p = (i, e)" by (cases p)
  obtain r w1 where cb: "te_callback e w = (r, w1)" by fastforce
  have "is_returned r" using Cons.prems(2) cb unfolding p by (metis case_prodD fst_conv list.set_intros(1))
  then obtain u where r: "r = Inr u" by (cases r) auto
  show ?case
  proof (cases "te_fire_at e \<le> now")
    case True
    have "jdelete i (pre @ p # es) = pre @ es"
      using Cons.prems(1) unfolding p by (intro jdelete_middle) auto
    with True cb r Cons.IH [of pre w1] Cons.prems show ?thesis
      by (simp add: p expired_def Let_def)
  next
    case False
    with Cons.IH [of "pre @ [p]" w] Cons.prems show ?thesis by (simp add: p expired_def)
  qed
qed simp

section \<open>The process monitor\<close>

datatype process_event_kind = EvStarted | EvCompleted | EvFailed "string option" | EvTimedOut

record process_monitor =
  pmon_started :: int
  pmon_completed :: int
  pmon_failed :: int
  pmon_timed_out :: int
  pmon_events :: "(string \<times> process_event_kind \<times> int) list"

definition process_monitor_new :: process_monitor where
  "process_monitor_new =
     \<lparr>pmon_started = 0, pmon_completed = 0, pmon_failed = 0, pmon_timed_out = 0, pmon_events = []\<rparr>"

fun process_monitor_on :: "int \<Rightarrow> string \<Rightarrow> process_event_kind \<Rightarrow> process_monitor \<Rightarrow> process_monitor" where
  "process_monitor_on now i EvStarted m =
     m\<lparr>pmon_started := pmon_started m + 1, pmon_events := pmon_events m @ [(i, EvStarted, now)]\<rparr>"
| "process_monitor_on now i EvCompleted m =
     m\<lparr>pmon_completed := pmon_completed m + 1, pmon_events := pmon_events m @ [(i, EvCompleted, now)]\<rparr>"
| "process_monitor_on now i (EvFailed msg) m =
     m\<lparr>pmon_failed := pmon_failed m + 1, pmon_events := pmon_events m @ [(i, EvFailed msg, now)]\<rparr>"
| "process_monitor_on now i EvTimedOut m =
     m\<lparr>pmon_timed_out := pmon_timed_out m + 1, pmon_events := pmon_events m @ [(i, EvTimedOut, now)]\<rparr>"

definition process_monitor_ok :: "process_monitor \<Rightarrow> bool" where
  "process_monitor_ok m \<longleftrightarrow>
     pmon_started m + pmon_completed m + pmon_failed m + pmon_timed_out m = int (length (pmon_events m))"

interpretation process_monitor: invariant_machine
    "\<lambda>m (now, i, k). process_monitor_on now i k m" process_monitor_ok
proof
  fix m and e :: "int \<times> string \<times> process_event_kind"
  assume "process_monitor_ok m"
  then show "process_monitor_ok (case e of (now, i, k) \<Rightarrow> process_monitor_on now i k m)"
    by (cases e; cases "snd (snd e)") (auto simp: process_monitor_ok_def)
qed

section \<open>Properties\<close>

text \<open>Whatever lifecycle operations are applied to a process, in any order, its state is one the
  transition rules lead to from its initial state, and its identity, name, start time and
  correlation never change.\<close>

theorem process_follows_rules:
  "let s = foldl (pm_step show_st rules) (pm_begin name initial now fresh pid cid) ops in
     rule_path rules initial (ps_current s) \<and> ps_name s = name \<and> ps_started_at s = now \<and>
     ps_correlation s = cid \<and> ps_id s = (case pid of Some i \<Rightarrow> i | None \<Rightarrow> fresh)"
proof -
  let ?s0 = "pm_begin name initial now fresh pid cid"
  have "pm_inv rules ?s0 ?s0" by (simp add: pm_inv_def rule_path.here)
  from process.run_keeps [OF this, of show_st ops] show ?thesis
    by (simp add: pm_inv_def pm_begin_def Let_def)
qed

text \<open>A transition is performed exactly when a rule allows it; a refused one throws
  InvalidTransitionError and leaves the process as it was.\<close>

theorem process_transition_checked:
  "pm_transition show_st rules now dst s =
     (if dst \<in> set (get_allowed_transitions rules (ps_current s))
      then Inr (s\<lparr>ps_current := dst, ps_updated_at := now\<rparr>)
      else Inl (invalid_transition_error show_st (ps_current s) dst))"
  by (simp add: pm_defs can_transition_allowed)

text \<open>C9: While the correlation index is exact, looking a process up by its correlation id finds
  exactly the stored process that carries the id; a save that does not reuse another process's id
  or change the process's own, and every delete, keep the index exact.\<close>

theorem correlation_lookup_exact:
  assumes "index_exact m"
  shows "(process_store_find_by_correlation m c = Some s \<longleftrightarrow>
            process_store_find_by_id m (ps_id s) = Some s \<and> ps_correlation s = Some c)
    \<and> (save_respects_index t m \<longrightarrow> index_exact (process_store_save t m))
    \<and> index_exact (process_store_delete i m)"
  using assms index_exact_save index_exact_delete find_by_correlation_exact by blast

theorem correlation_lookup_exact_witness:
  "process_store_find_by_correlation
     (process_store_save (pm_begin ''p'' ''new'' 1 '''' (Some ''1'') (Some ''order-7''))
        (process_store_new :: (string, string) process_store)) ''order-7''
   = Some (pm_begin ''p'' ''new'' 1 '''' (Some ''1'') (Some ''order-7''))"
proof -
  let ?s = "pm_begin ''p'' ''new'' 1 '''' (Some ''1'') (Some ''order-7'') :: (string, string) process_state"
  have "save_respects_index ?s process_store_new"
    by (simp add: save_respects_index_def process_store_new_def)
  then have "index_exact (process_store_save ?s process_store_new)"
    by (intro index_exact_save index_exact_new)
  from correlation_lookup_exact [OF this, of "''order-7''" ?s] show ?thesis
    by (simp add: process_store_find_by_id_def process_store_save_def Let_def pm_begin_def)
qed

text \<open>When two processes were saved with the same correlation id, deleting the first removes the
  index entry that points to the second, which is still stored but no longer found.\<close>

theorem delete_breaks_shared_correlation:
  assumes "ps_correlation s = Some c" and "ps_correlation t = Some c" and "ps_id s \<noteq> ps_id t"
  shows "let m = process_store_save t (process_store_save s process_store_new);
             m' = process_store_delete (ps_id s) m
         in process_store_find_by_correlation m c = Some t
            \<and> process_store_find_by_id m' (ps_id t) = Some t
            \<and> process_store_find_by_correlation m' c = None"
  using assms by (simp add: process_store_defs process_store_new_def)

theorem delete_breaks_shared_correlation_witness:
  "process_store_find_by_correlation
     (process_store_delete ''1''
       (process_store_save (pm_begin ''p'' () 2 '''' (Some ''2'') (Some ''c''))
         (process_store_save (pm_begin ''p'' () 1 '''' (Some ''1'') (Some ''c''))
           (process_store_new :: (unit, unit) process_store)))) ''c'' = None"
proof -
  let ?s = "pm_begin ''p'' () 1 '''' (Some ''1'') (Some ''c'') :: (unit, unit) process_state"
  let ?t = "pm_begin ''p'' () 2 '''' (Some ''2'') (Some ''c'') :: (unit, unit) process_state"
  have "ps_correlation ?s = Some ''c''" "ps_correlation ?t = Some ''c''" "ps_id ?s \<noteq> ps_id ?t"
    by (simp_all add: pm_begin_def)
  from delete_breaks_shared_correlation [OF this] show ?thesis
    by (simp add: Let_def) (simp add: pm_begin_def)
qed

text \<open>A tick fires exactly the timeouts that are due, once each, in the order they were first
  scheduled, and keeps exactly the others; a later tick does not fire a fired one again.\<close>

theorem tick_fires_due_once:
  assumes "jwf m" and "\<forall>(i, e) \<in> set m. \<forall>w. is_returned (fst (te_callback e w))"
  shows "timeout_tick now m w =
      (Inr (), filter (\<lambda>p. \<not> expired now p) m,
       fold (\<lambda>(i, e) w. snd (te_callback e w)) (filter (expired now) m) w)
    \<and> (\<forall>i. timeout_has_pending (fst (snd (timeout_tick now m w))) i \<longleftrightarrow>
          (\<exists>e. jget m i = Some e \<and> now < te_fire_at e))"
proof -
  have t: "timeout_tick now m w =
      (Inr (), filter (\<lambda>p. \<not> expired now p) m,
       fold (\<lambda>(i, e) w. snd (te_callback e w)) (filter (expired now) m) w)"
    using tick_loop_eq [of "[]" m now w] assms by (simp add: timeout_tick_def)
  moreover have "i \<in> fst ` set (filter (\<lambda>p. \<not> expired now p) m) \<longleftrightarrow>
      (\<exists>e. jget m i = Some e \<and> now < te_fire_at e)" for i
    using assms(1) by (force simp: expired_def jget_iff_entry)
  ultimately show ?thesis by (simp add: timeout_has_pending_def jhas_keys)
qed

theorem tick_fires_due_once_witness:
  "timeout_tick 10
     [(''a'', \<lparr>te_process = ''a'', te_fire_at = 5, te_callback = \<lambda>w. (Inr (), w @ [''a''])\<rparr>)] []
   = (Inr () :: (unit, unit) outcome, [], [''a''])"
proof -
  let ?m = "[(''a'', \<lparr>te_process = ''a'', te_fire_at = 5, te_callback = \<lambda>w. (Inr (), w @ [''a''])\<rparr>)]
    :: (string list, unit) timeouts"
  have "jwf ?m" "\<forall>(i, e) \<in> set ?m. \<forall>w. is_returned (fst (te_callback e w))" by simp_all
  from tick_fires_due_once [OF this, of 10 "[]"] show ?thesis by (simp add: expired_def)
qed

end
