(* ===== verification/Outbox.thy ===== *)
theory Outbox
  imports Prelude
begin

text \<open>
  The transactional outbox and inbox (\<open>packages/outbox/src\<close>): the in-memory stores, the relay that
  polls the outbox and publishes its messages with back-off and a dead-letter threshold, and its
  metrics.  The relay is written against the store port and the publisher port, which are its
  arguments as they are in the code; \<open>outbox_contract\<close> states what it needs of a store.
\<close>

section \<open>The outbox store\<close>

record 'v outbox_message =
  om_id :: string
  om_envelope :: 'v
  om_created_at :: int
  om_published_at :: "int option"
  om_attempts :: int
  om_last_attempt :: "int option"
  om_error :: "string option"

type_synonym 'v outbox_store = "(string, 'v outbox_message) jsmap"

definition outbox_save :: "'v outbox_message \<Rightarrow> 'v outbox_store \<Rightarrow> 'v outbox_store" where
  "outbox_save msg m = jset (om_id msg) msg m"

text \<open>The loop of \<open>getUnpublished\<close>: push, then leave when the limit is reached.\<close>

fun unpublished_loop ::
  "int \<Rightarrow> 'v outbox_message list \<Rightarrow> 'v outbox_message list \<Rightarrow> 'v outbox_message list" where
  "unpublished_loop limit acc [] = acc"
| "unpublished_loop limit acc (msg # msgs) =
     (if om_published_at msg = None
      then (let acc1 = acc @ [msg]
            in if int (length acc1) \<ge> limit then acc1 else unpublished_loop limit acc1 msgs)
      else unpublished_loop limit acc msgs)"

definition outbox_get_unpublished :: "int \<Rightarrow> 'v outbox_store \<Rightarrow> 'v outbox_message list" where
  "outbox_get_unpublished limit m = unpublished_loop limit [] (jvalues m)"

definition publish_update :: "int \<Rightarrow> 'v outbox_message \<Rightarrow> 'v outbox_message" where
  "publish_update now msg =
     msg\<lparr>om_error := None, om_published_at := Some now, om_attempts := om_attempts msg + 1,
         om_last_attempt := Some now\<rparr>"

definition outbox_mark_as_published :: "int \<Rightarrow> string \<Rightarrow> 'v outbox_store \<Rightarrow> 'v outbox_store" where
  "outbox_mark_as_published now i m =
     (case jget m i of Some msg \<Rightarrow> jset i (publish_update now msg) m | None \<Rightarrow> m)"

definition fail_update :: "int \<Rightarrow> string \<Rightarrow> 'v outbox_message \<Rightarrow> 'v outbox_message" where
  "fail_update now err msg =
     msg\<lparr>om_attempts := om_attempts msg + 1, om_last_attempt := Some now, om_error := Some err\<rparr>"

definition outbox_mark_as_failed :: "int \<Rightarrow> string \<Rightarrow> string \<Rightarrow> 'v outbox_store \<Rightarrow> 'v outbox_store" where
  "outbox_mark_as_failed now i err m =
     (case jget m i of Some msg \<Rightarrow> jset i (fail_update now err msg) m | None \<Rightarrow> m)"

definition outbox_get_all :: "'v outbox_store \<Rightarrow> 'v outbox_message list" where
  "outbox_get_all m = jvalues m"

definition outbox_size :: "'v outbox_store \<Rightarrow> int" where
  "outbox_size m = jsize m"

definition outbox_ok :: "'v outbox_store \<Rightarrow> bool" where
  "outbox_ok m \<longleftrightarrow> jwf m \<and> (\<forall>(k, msg) \<in> set m. om_id msg = k)"

definition is_pending :: "'v outbox_message \<Rightarrow> bool" where
  "is_pending msg = (om_published_at msg = None)"

lemmas outbox_defs = outbox_save_def outbox_mark_as_published_def outbox_mark_as_failed_def outbox_ok_def
lemmas outbox_updates = publish_update_def fail_update_def

lemma unpublished_loop_eq:
  "int (length acc) < limit \<Longrightarrow>
   unpublished_loop limit acc msgs = acc @ take (nat limit - length acc) (filter is_pending msgs)"
proof (induction msgs arbitrary: acc)
  case (Cons msg msgs)
  show ?case
  proof (cases "is_pending msg")
    case True
    show ?thesis
    proof (cases "int (length acc) + 1 < limit")
      case lt: True
      then have n: "nat limit - length acc = Suc (nat limit - length (acc @ [msg]))" by simp
      from lt True Cons.IH [of "acc @ [msg]"] show ?thesis
        by (simp add: n is_pending_def Let_def)
    next
      case False
      with Cons.prems have "limit = int (length acc) + 1" by simp
      then have "nat limit - length acc = 1" by simp
      with False True Cons.prems show ?thesis by (simp add: is_pending_def Let_def)
    qed
  next
    case False
    with Cons show ?thesis by (auto simp: is_pending_def)
  qed
qed simp

lemma outbox_get_unpublished_eq:
  "1 \<le> limit \<Longrightarrow> outbox_get_unpublished limit m = take (nat limit) (filter is_pending (jvalues m))"
  by (simp add: outbox_get_unpublished_def unpublished_loop_eq)

lemma unpublished_loop_subset:
  "set (unpublished_loop limit acc msgs) \<subseteq> set acc \<union> {m \<in> set msgs. is_pending m}"
  by (induction limit acc msgs rule: unpublished_loop.induct) (auto simp: is_pending_def Let_def)

lemma unpublished_loop_distinct:
  "distinct (map om_id (acc @ msgs)) \<Longrightarrow> distinct (map om_id (unpublished_loop limit acc msgs))"
  by (induction limit acc msgs rule: unpublished_loop.induct) (auto simp: Let_def)

lemma outbox_ok_ids: "outbox_ok m \<Longrightarrow> map om_id (jvalues m) = jkeys m"
  by (auto simp: outbox_ok_def)

lemma outbox_ok_save [inv_intros]: "outbox_ok m \<Longrightarrow> outbox_ok (outbox_save msg m)"
  by (auto simp: outbox_defs jset_entries jwf_jset)

lemma outbox_ok_marks [inv_intros]:
  assumes "outbox_ok m"
  shows "outbox_ok (outbox_mark_as_published now i m)"
    and "outbox_ok (outbox_mark_as_failed now i err m)"
  using assms by (auto simp: outbox_defs outbox_updates jset_entries jwf_jset jget_iff_entry split: option.splits)

section \<open>Metrics\<close>

record relay_metrics =
  rm_published :: int
  rm_failed :: int
  rm_skipped :: int

definition record_published :: "relay_metrics \<Rightarrow> relay_metrics" where
  "record_published r = r\<lparr>rm_published := rm_published r + 1\<rparr>"
definition record_failed :: "relay_metrics \<Rightarrow> relay_metrics" where
  "record_failed r = r\<lparr>rm_failed := rm_failed r + 1\<rparr>"
definition record_skipped :: "relay_metrics \<Rightarrow> relay_metrics" where
  "record_skipped r = r\<lparr>rm_skipped := rm_skipped r + 1\<rparr>"
definition relay_metrics_reset :: "relay_metrics \<Rightarrow> relay_metrics" where
  "relay_metrics_reset r = \<lparr>rm_published = 0, rm_failed = 0, rm_skipped = 0\<rparr>"

lemmas metrics_defs = record_published_def record_failed_def record_skipped_def

section \<open>The relay\<close>

record relay_options =
  ro_poll_interval :: int
  ro_batch_size :: int
  ro_max_attempts :: int
  ro_backoff_base :: int

definition default_relay_options :: relay_options where
  "default_relay_options =
     \<lparr>ro_poll_interval = 1000, ro_batch_size = 100, ro_max_attempts = 5, ro_backoff_base = 1000\<rparr>"

text \<open>
  The two ports the relay is constructed with.  Publishing changes the world \<open>'w\<close> and may throw;
  the thrown \<open>Error\<close>'s message is what is stored.
\<close>

record ('s, 'v, 'w) relay_ports =
  port_get_unpublished :: "int \<Rightarrow> 's \<Rightarrow> 'v outbox_message list"
  port_mark_published :: "int \<Rightarrow> string \<Rightarrow> 's \<Rightarrow> 's"
  port_mark_failed :: "int \<Rightarrow> string \<Rightarrow> string \<Rightarrow> 's \<Rightarrow> 's"
  port_publish :: "'v \<Rightarrow> 'w \<Rightarrow> (js_error, unit) outcome \<times> 'w"

record ('s, 'w) relay_state =
  rs_store :: 's
  rs_world :: 'w
  rs_metrics :: "relay_metrics option"
  rs_had_failures :: bool

text \<open>What the loop body does with a message, in the order of its tests.\<close>

datatype relay_decision = DeadLetter | BackOff | Attempt

definition relay_decide :: "relay_options \<Rightarrow> int \<Rightarrow> 'v outbox_message \<Rightarrow> relay_decision" where
  "relay_decide opts now msg =
     (if om_attempts msg \<ge> ro_max_attempts opts then DeadLetter
      else case om_last_attempt msg of
          Some t \<Rightarrow>
            (if om_attempts msg > 0 \<and>
                now < t + ro_backoff_base opts * 2 ^ nat (om_attempts msg - 1)
             then BackOff else Attempt)
        | None \<Rightarrow> Attempt)"

definition relay_message ::
  "('s, 'v, 'w) relay_ports \<Rightarrow> relay_options \<Rightarrow> int \<Rightarrow> 'v outbox_message \<Rightarrow> ('s, 'w) relay_state \<Rightarrow>
   ('s, 'w) relay_state" where
  "relay_message ports opts now msg st =
     (case relay_decide opts now msg of
        DeadLetter \<Rightarrow>
          st\<lparr>rs_store := port_mark_failed ports now (om_id msg) ''max attempts exceeded'' (rs_store st),
             rs_metrics := map_option record_skipped (rs_metrics st)\<rparr>
      | BackOff \<Rightarrow> st
      | Attempt \<Rightarrow>
          (case port_publish ports (om_envelope msg) (rs_world st) of
             (Inr u, w) \<Rightarrow>
               st\<lparr>rs_world := w, rs_store := port_mark_published ports now (om_id msg) (rs_store st),
                  rs_metrics := map_option record_published (rs_metrics st)\<rparr>
           | (Inl e, w) \<Rightarrow>
               st\<lparr>rs_world := w,
                  rs_store := port_mark_failed ports now (om_id msg) (error_message e) (rs_store st),
                  rs_metrics := map_option record_failed (rs_metrics st), rs_had_failures := True\<rparr>))"

text \<open>\<open>clock k\<close> is the time while the \<open>k\<close>-th message of the batch is processed.\<close>

fun relay_loop ::
  "('s, 'v, 'w) relay_ports \<Rightarrow> relay_options \<Rightarrow> (nat \<Rightarrow> int) \<Rightarrow> nat \<Rightarrow> 'v outbox_message list \<Rightarrow>
   ('s, 'w) relay_state \<Rightarrow> ('s, 'w) relay_state" where
  "relay_loop ports opts clock k [] st = st"
| "relay_loop ports opts clock k (msg # msgs) st =
     relay_loop ports opts clock (Suc k) msgs (relay_message ports opts (clock k) msg st)"

definition relay_run_once ::
  "('s, 'v, 'w) relay_ports \<Rightarrow> relay_options \<Rightarrow> (nat \<Rightarrow> int) \<Rightarrow> ('s, 'w) relay_state \<Rightarrow> ('s, 'w) relay_state" where
  "relay_run_once ports opts clock st =
     relay_loop ports opts clock 0 (port_get_unpublished ports (ro_batch_size opts) (rs_store st))
       (st\<lparr>rs_had_failures := False\<rparr>)"

definition relay_is_healthy :: "('s, 'w) relay_state \<Rightarrow> bool" where
  "relay_is_healthy st = (\<not> rs_had_failures st)"

text \<open>The timer handle of \<open>start\<close>, \<open>stop\<close> and \<open>isRunning\<close>.\<close>

definition relay_start :: "'h \<Rightarrow> 'h option \<Rightarrow> 'h option" where
  "relay_start fresh h = (if h \<noteq> None then h else Some fresh)"

definition relay_stop :: "'h option \<Rightarrow> 'h option" where
  "relay_stop h = (if h = None then h else None)"

definition relay_is_running :: "'h option \<Rightarrow> bool" where
  "relay_is_running h = (h \<noteq> None)"

text \<open>What a processed message looks like in the store afterwards.\<close>

definition processed :: "relay_options \<Rightarrow> int \<Rightarrow> 'v outbox_message \<Rightarrow> 'v outbox_message \<Rightarrow> bool" where
  "processed opts now msg msg' \<longleftrightarrow>
     (case relay_decide opts now msg of
        DeadLetter \<Rightarrow> msg' = fail_update now ''max attempts exceeded'' msg
      | BackOff \<Rightarrow> msg' = msg
      | Attempt \<Rightarrow> msg' = publish_update now msg \<or> (\<exists>err. msg' = fail_update now err msg))"

text \<open>When a message is due for publishing, and the messages of a batch that are.\<close>

definition eligible :: "relay_options \<Rightarrow> int \<Rightarrow> 'v outbox_message \<Rightarrow> bool" where
  "eligible opts now msg \<longleftrightarrow> om_attempts msg < ro_max_attempts opts \<and>
     (om_attempts msg \<le> 0 \<or> (case om_last_attempt msg of None \<Rightarrow> True
        | Some t \<Rightarrow> t + ro_backoff_base opts * 2 ^ nat (om_attempts msg - 1) \<le> now))"

fun tried ::
  "relay_options \<Rightarrow> (nat \<Rightarrow> int) \<Rightarrow> nat \<Rightarrow> 'v outbox_message list \<Rightarrow> (int \<times> 'v outbox_message) list" where
  "tried opts clock k [] = []"
| "tried opts clock k (msg # msgs) =
     (if eligible opts (clock k) msg then [(clock k, msg)] else []) @ tried opts clock (Suc k) msgs"

definition settle :: "int \<Rightarrow> (js_error, unit) outcome \<Rightarrow> 'v outbox_message \<Rightarrow> 'v outbox_message" where
  "settle now r msg =
     (case r of Inr u \<Rightarrow> publish_update now msg | Inl e \<Rightarrow> fail_update now (error_message e) msg)"

lemma decide_cases:
  "relay_decide opts now msg =
     (if ro_max_attempts opts \<le> om_attempts msg then DeadLetter
      else if eligible opts now msg then Attempt else BackOff)"
  by (auto simp: relay_decide_def eligible_def split: option.splits)

lemma tried_subset: "(now, m) \<in> set (tried opts clock k msgs) \<Longrightarrow> m \<in> set msgs"
  by (induction msgs arbitrary: k) (auto split: if_splits)

subsection \<open>What the relay needs of a store\<close>

locale outbox_contract =
  fixes lookup :: "'s \<Rightarrow> string \<Rightarrow> 'v outbox_message option"
    and ports :: "('s, 'v, 'w) relay_ports"
    and ok :: "'s \<Rightarrow> bool"
  assumes batch_pending: "ok s \<Longrightarrow> msg \<in> set (port_get_unpublished ports n s) \<Longrightarrow>
      lookup s (om_id msg) = Some msg \<and> is_pending msg"
    and batch_distinct: "ok s \<Longrightarrow> distinct (map om_id (port_get_unpublished ports n s))"
    and lookup_published: "ok s \<Longrightarrow> lookup (port_mark_published ports now i s) j =
      (if j = i then map_option (publish_update now) (lookup s j) else lookup s j)"
    and lookup_failed: "ok s \<Longrightarrow> lookup (port_mark_failed ports now i err s) j =
      (if j = i then map_option (fail_update now err) (lookup s j) else lookup s j)"
    and ok_published: "ok s \<Longrightarrow> ok (port_mark_published ports now i s)"
    and ok_failed: "ok s \<Longrightarrow> ok (port_mark_failed ports now i err s)"
begin

lemma message_ok: "ok (rs_store st) \<Longrightarrow> ok (rs_store (relay_message ports opts now msg st))"
  by (auto simp: relay_message_def ok_published ok_failed
      split: relay_decision.splits prod.splits sum.splits)

lemma message_lookup_other:
  "ok (rs_store st) \<Longrightarrow> j \<noteq> om_id msg \<Longrightarrow>
   lookup (rs_store (relay_message ports opts now msg st)) j = lookup (rs_store st) j"
  by (auto simp: relay_message_def lookup_published lookup_failed
      split: relay_decision.splits prod.splits sum.splits)

lemma message_lookup_same:
  assumes "ok (rs_store st)" and "lookup (rs_store st) (om_id msg) = Some msg"
  shows "\<exists>msg'. lookup (rs_store (relay_message ports opts now msg st)) (om_id msg) = Some msg'
    \<and> processed opts now msg msg'"
  using assms
  by (auto simp: relay_message_def processed_def lookup_published lookup_failed
      split: relay_decision.splits prod.splits sum.splits)

lemma loop_ok: "ok (rs_store st) \<Longrightarrow> ok (rs_store (relay_loop ports opts clock k msgs st))"
  by (induction msgs arbitrary: k st) (auto intro: message_ok)

lemma loop_lookup_other:
  "ok (rs_store st) \<Longrightarrow> j \<notin> om_id ` set msgs \<Longrightarrow>
   lookup (rs_store (relay_loop ports opts clock k msgs st)) j = lookup (rs_store st) j"
  by (induction msgs arbitrary: k st) (auto simp: message_lookup_other message_ok)

lemma loop_lookup_batch:
  assumes "ok (rs_store st)" and "distinct (map om_id msgs)"
    and "\<forall>msg \<in> set msgs. lookup (rs_store st) (om_id msg) = Some msg" and "n < length msgs"
  shows "\<exists>msg'. lookup (rs_store (relay_loop ports opts clock k msgs st)) (om_id (msgs ! n)) = Some msg'
    \<and> processed opts (clock (k + n)) (msgs ! n) msg'"
  using assms
proof (induction msgs arbitrary: k n st)
  case (Cons m ms)
  let ?st = "relay_message ports opts (clock k) m st"
  have ok: "ok (rs_store ?st)" using Cons.prems(1) by (rule message_ok)
  show ?case
  proof (cases n)
    case 0
    have "om_id m \<notin> om_id ` set ms" using Cons.prems(2) by simp
    with 0 ok message_lookup_same [OF Cons.prems(1), of m opts "clock k"] Cons.prems(3)
    show ?thesis by (simp add: loop_lookup_other)
  next
    case (Suc n')
    have "\<forall>msg \<in> set ms. lookup (rs_store ?st) (om_id msg) = Some msg"
      using Cons.prems(1-3) by (auto simp: message_lookup_other image_iff)
    from Cons.IH [OF ok _ this, of n' "Suc k"] Suc Cons.prems(2,4) show ?thesis by simp
  qed
qed simp

lemma message_step:
  assumes "ok (rs_store st)" and "lookup (rs_store st) (om_id m) = Some m"
  shows "eligible opts now m \<Longrightarrow> port_publish ports (om_envelope m) (rs_world st) = (r, w) \<Longrightarrow>
      rs_world (relay_message ports opts now m st) = w
      \<and> rs_had_failures (relay_message ports opts now m st) = (rs_had_failures st \<or> \<not> is_returned r)
      \<and> lookup (rs_store (relay_message ports opts now m st)) (om_id m) = Some (settle now r m)"
    and "\<not> eligible opts now m \<Longrightarrow> rs_world (relay_message ports opts now m st) = rs_world st
      \<and> rs_had_failures (relay_message ports opts now m st) = rs_had_failures st"
proof -
  assume e: "eligible opts now m" and p: "port_publish ports (om_envelope m) (rs_world st) = (r, w)"
  then have "relay_decide opts now m = Attempt" by (simp add: decide_cases) (simp add: eligible_def)
  with p assms show "rs_world (relay_message ports opts now m st) = w
      \<and> rs_had_failures (relay_message ports opts now m st) = (rs_had_failures st \<or> \<not> is_returned r)
      \<and> lookup (rs_store (relay_message ports opts now m st)) (om_id m) = Some (settle now r m)"
    by (cases r) (simp_all add: relay_message_def settle_def lookup_published lookup_failed)
qed (simp add: relay_message_def decide_cases)

lemma loop_publishes:
  assumes "ok (rs_store st)" and "distinct (map om_id msgs)"
    and "\<forall>msg \<in> set msgs. lookup (rs_store st) (om_id msg) = Some msg"
    and "map_st (\<lambda>p. port_publish ports (om_envelope (snd p))) (tried opts clock k msgs) (rs_world st) = (rs, w)"
  shows "rs_world (relay_loop ports opts clock k msgs st) = w
    \<and> rs_had_failures (relay_loop ports opts clock k msgs st) =
        (rs_had_failures st \<or> (\<exists>r \<in> set rs. \<not> is_returned r))
    \<and> (\<forall>((now, m), r) \<in> set (zip (tried opts clock k msgs) rs).
        lookup (rs_store (relay_loop ports opts clock k msgs st)) (om_id m) = Some (settle now r m))"
  using assms
proof (induction msgs arbitrary: k st rs)
  case (Cons m ms)
  let ?st = "relay_message ports opts (clock k) m st"
  have look: "lookup (rs_store st) (om_id m) = Some m" and fresh: "om_id m \<notin> om_id ` set ms"
    using Cons.prems(2,3) by simp_all
  have ok: "ok (rs_store ?st)" using Cons.prems(1) by (rule message_ok)
  have "\<forall>msg \<in> set ms. lookup (rs_store ?st) (om_id msg) = Some msg"
    using Cons.prems(1-3) by (auto simp: message_lookup_other image_iff)
  note IH = Cons.IH [OF ok _ this, of "Suc k"]
  show ?case
  proof (cases "eligible opts (clock k) m")
    case True
    obtain r w1 where r: "port_publish ports (om_envelope m) (rs_world st) = (r, w1)" by fastforce
    note step = message_step(1) [OF Cons.prems(1) look True r]
    obtain rs' where rs: "rs = r # rs'"
      and rest: "map_st (\<lambda>p. port_publish ports (om_envelope (snd p))) (tried opts clock (Suc k) ms) w1 = (rs', w)"
      using Cons.prems(4) True r by (auto split: prod.splits)
    have "lookup (rs_store (relay_loop ports opts clock (Suc k) ms ?st)) (om_id m) = Some (settle (clock k) r m)"
      using step by (simp add: loop_lookup_other [OF ok fresh])
    with IH [of rs'] step rest Cons.prems(2) True rs show ?thesis by auto
  next
    case False
    with IH [of rs] message_step(2) [OF Cons.prems(1) look False] Cons.prems(2,4) show ?thesis by simp
  qed
qed simp

theorem run_once_effect:
  fixes st opts clock
  defines "batch \<equiv> port_get_unpublished ports (ro_batch_size opts) (rs_store st)"
    and "st' \<equiv> relay_run_once ports opts clock st"
  assumes "ok (rs_store st)"
  shows "ok (rs_store st')
    \<and> (\<forall>j. j \<notin> om_id ` set batch \<longrightarrow> lookup (rs_store st') j = lookup (rs_store st) j)
    \<and> (\<forall>n < length batch. \<exists>msg'. lookup (rs_store st') (om_id (batch ! n)) = Some msg'
          \<and> processed opts (clock n) (batch ! n) msg')
    \<and> (case map_st (\<lambda>p. port_publish ports (om_envelope (snd p))) (tried opts clock 0 batch) (rs_world st) of
        (rs, w) \<Rightarrow> rs_world st' = w \<and> rs_had_failures st' = (\<exists>r \<in> set rs. \<not> is_returned r)
          \<and> (\<forall>((now, m), r) \<in> set (zip (tried opts clock 0 batch) rs).
                lookup (rs_store st') (om_id m) = Some (settle now r m)))"
proof -
  let ?st = "st\<lparr>rs_had_failures := False\<rparr>"
  have st': "st' = relay_loop ports opts clock 0 batch ?st"
    by (simp add: st'_def relay_run_once_def batch_def)
  have ok: "ok (rs_store ?st)" using assms(3) by simp
  have "\<forall>msg \<in> set batch. lookup (rs_store ?st) (om_id msg) = Some msg"
    using batch_pending [OF assms(3)] by (simp add: batch_def)
  moreover have "distinct (map om_id batch)"
    using batch_distinct [OF assms(3)] by (simp add: batch_def)
  moreover obtain rs w where
      "map_st (\<lambda>p. port_publish ports (om_envelope (snd p))) (tried opts clock 0 batch) (rs_world st) = (rs, w)"
    by fastforce
  ultimately show ?thesis
    using loop_lookup_batch [OF ok, of batch _ opts clock 0] loop_ok [OF ok] loop_lookup_other [OF ok]
      loop_publishes [OF ok, of batch opts clock 0 rs w]
    unfolding st' by simp
qed

text \<open>A published message stays published, whatever the relay does.\<close>

lemma published_stays:
  assumes "ok (rs_store st)" and "lookup (rs_store st) j = Some msg" and "\<not> is_pending msg"
  shows "lookup (rs_store (relay_run_once ports opts clock st)) j = Some msg"
proof -
  have "j \<notin> om_id ` set (port_get_unpublished ports (ro_batch_size opts) (rs_store st))"
    using batch_pending [OF assms(1)] assms(2,3) by fastforce
  then show ?thesis using run_once_effect [OF assms(1), of opts clock] assms(2) by auto
qed

end

definition memory_ports ::
  "('v \<Rightarrow> 'w \<Rightarrow> (js_error, unit) outcome \<times> 'w) \<Rightarrow> ('v outbox_store, 'v, 'w) relay_ports" where
  "memory_ports publish =
     \<lparr>port_get_unpublished = outbox_get_unpublished, port_mark_published = outbox_mark_as_published,
      port_mark_failed = outbox_mark_as_failed, port_publish = publish\<rparr>"

lemma memory_ports_simps [simp]:
  "port_get_unpublished (memory_ports p) = outbox_get_unpublished"
  "port_mark_published (memory_ports p) = outbox_mark_as_published"
  "port_mark_failed (memory_ports p) = outbox_mark_as_failed"
  "port_publish (memory_ports p) = p"
  by (simp_all add: memory_ports_def)

interpretation memory_outbox: outbox_contract jget "memory_ports publish" outbox_ok
proof
  fix s :: "'a outbox_store" and msg n
  assume ok: "outbox_ok s" and "msg \<in> set (port_get_unpublished (memory_ports publish) n s)"
  then have "msg \<in> set (jvalues s)" "is_pending msg"
    using unpublished_loop_subset [of n "[]" "jvalues s"] by (auto simp: outbox_get_unpublished_def)
  with ok show "jget s (om_id msg) = Some msg \<and> is_pending msg"
    by (auto simp: outbox_ok_def jget_iff_entry)
next
  fix s :: "'a outbox_store" and n
  assume ok: "outbox_ok s"
  have "distinct (map om_id (jvalues s))"
    unfolding outbox_ok_ids [OF ok] using ok by (simp add: outbox_ok_def)
  then show "distinct (map om_id (port_get_unpublished (memory_ports publish) n s))"
    using unpublished_loop_distinct [of "[]" "jvalues s" n]
    by (simp add: outbox_get_unpublished_def)
next
  fix s :: "'a outbox_store" and now i j err
  assume "outbox_ok s"
  show "jget (port_mark_published (memory_ports publish) now i s) j =
      (if j = i then map_option (publish_update now) (jget s j) else jget s j)"
    by (simp add: outbox_mark_as_published_def split: option.splits)
  show "jget (port_mark_failed (memory_ports publish) now i err s) j =
      (if j = i then map_option (fail_update now err) (jget s j) else jget s j)"
    by (simp add: outbox_mark_as_failed_def split: option.splits)
qed (simp_all add: outbox_ok_marks)

section \<open>Dead messages at the head of the outbox\<close>

lemma jset_in_place:
  "jhas m k \<Longrightarrow> jwf m \<Longrightarrow> jset k v m = map (\<lambda>e. if fst e = k then (k, v) else e) m"
proof (induction m)
  case (Cons e m)
  show ?case
  proof (cases "fst e = k")
    case True
    with Cons.prems have "k \<notin> fst ` set m" by auto
    then have "map (\<lambda>e. if fst e = k then (k, v) else e) m = m"
      by (intro map_idI) force
    with True show ?thesis by (cases e) simp
  next
    case False
    with Cons show ?thesis by (cases e) (auto simp: jhas_keys)
  qed
qed (simp add: jhas_def)

text \<open>The messages the next batch would hold are all past the attempt limit.\<close>

definition relay_blocked :: "relay_options \<Rightarrow> 'v outbox_store \<Rightarrow> bool" where
  "relay_blocked opts m \<longleftrightarrow> outbox_ok m \<and> 1 \<le> ro_batch_size opts \<and>
     nat (ro_batch_size opts) \<le> length (filter is_pending (jvalues m)) \<and>
     (\<forall>msg \<in> set (take (nat (ro_batch_size opts)) (filter is_pending (jvalues m))).
        om_attempts msg \<ge> ro_max_attempts opts)"

definition blocking_prefix :: "relay_options \<Rightarrow> 'v outbox_store \<Rightarrow> nat \<Rightarrow> bool" where
  "blocking_prefix opts m n \<longleftrightarrow> n \<le> length (filter is_pending (jvalues m)) \<and>
     (\<forall>msg \<in> set (take n (filter is_pending (jvalues m))). om_attempts msg \<ge> ro_max_attempts opts)"

lemma mark_failed_values:
  assumes "outbox_ok m"
  shows "jvalues (outbox_mark_as_failed now i err m) =
    map (\<lambda>msg. if om_id msg = i then fail_update now err msg else msg) (jvalues m)"
proof (cases "jget m i")
  case None
  then have "\<forall>msg \<in> set (jvalues m). om_id msg \<noteq> i"
    using assms by (force simp: outbox_ok_def map_of_eq_None_iff)
  with None show ?thesis by (auto simp: outbox_mark_as_failed_def intro!: map_idI [symmetric])
next
  case (Some msg)
  have "jset i (fail_update now err msg) m = map (\<lambda>e. if fst e = i then (i, fail_update now err msg) else e) m"
    using assms Some by (intro jset_in_place) (auto simp: jhas_def outbox_ok_def)
  then show ?thesis
    using assms Some by (auto simp: outbox_mark_as_failed_def outbox_ok_def jget_iff_entry) (metis Pair_inject eq_key_imp_eq_value)
qed

lemma filter_pending_fail:
  "filter is_pending (map (\<lambda>msg. if om_id msg = i then fail_update now err msg else msg) ms) =
   map (\<lambda>msg. if om_id msg = i then fail_update now err msg else msg) (filter is_pending ms)"
  by (induction ms) (auto simp: is_pending_def fail_update_def)

lemma blocking_prefix_fail:
  "outbox_ok m \<Longrightarrow> blocking_prefix opts m n \<Longrightarrow> blocking_prefix opts (outbox_mark_as_failed now i err m) n"
proof -
  let ?f = "\<lambda>msg. if om_id msg = i then fail_update now err msg else msg"
  assume ok: "outbox_ok m" and bl: "blocking_prefix opts m n"
  have pend: "filter is_pending (jvalues (outbox_mark_as_failed now i err m))
      = map ?f (filter is_pending (jvalues m))"
    by (simp only: mark_failed_values [OF ok] filter_pending_fail)
  have "ro_max_attempts opts \<le> om_attempts (?f msg)"
    if "msg \<in> set (take n (filter is_pending (jvalues m)))" for msg
    using bl that by (force simp: blocking_prefix_def fail_update_def)
  then show ?thesis
    using bl unfolding blocking_prefix_def pend by (auto simp: take_map) metis
qed

lemma dead_loop:
  assumes "\<forall>msg \<in> set msgs. om_attempts msg \<ge> ro_max_attempts opts"
    and "outbox_ok (rs_store st)" and "blocking_prefix opts (rs_store st) n"
  shows "let st' = relay_loop (memory_ports publish) opts clock k msgs st in
    rs_world st' = rs_world st \<and> outbox_ok (rs_store st') \<and> blocking_prefix opts (rs_store st') n
    \<and> rs_had_failures st' = rs_had_failures st"
  using assms
proof (induction msgs arbitrary: k st)
  case (Cons msg msgs)
  let ?st = "relay_message (memory_ports publish) opts (clock k) msg st"
  have dead: "relay_decide opts (clock k) msg = DeadLetter"
    using Cons.prems(1) by (simp add: relay_decide_def)
  then have "rs_world ?st = rs_world st" "rs_had_failures ?st = rs_had_failures st"
    by (simp_all add: relay_message_def)
  moreover have "outbox_ok (rs_store ?st)" "blocking_prefix opts (rs_store ?st) n"
    using dead Cons.prems(2,3) by (simp_all add: relay_message_def outbox_ok_marks blocking_prefix_fail)
  ultimately show ?case using Cons.IH [of ?st "Suc k"] Cons.prems(1) by (simp add: Let_def)
qed (simp add: Let_def)

lemma relay_blocked_iff: "relay_blocked opts m \<longleftrightarrow>
    outbox_ok m \<and> 1 \<le> ro_batch_size opts \<and> blocking_prefix opts m (nat (ro_batch_size opts))"
  by (auto simp: relay_blocked_def blocking_prefix_def)

lemma blocked_run:
  assumes "relay_blocked opts (rs_store st)"
  shows "let st' = relay_run_once (memory_ports publish) opts clock st in
    rs_world st' = rs_world st \<and> relay_blocked opts (rs_store st') \<and> relay_is_healthy st'"
proof -
  have "\<forall>msg \<in> set (outbox_get_unpublished (ro_batch_size opts) (rs_store st)).
      om_attempts msg \<ge> ro_max_attempts opts"
    using assms by (simp add: relay_blocked_def outbox_get_unpublished_eq)
  from dead_loop [OF this, of "st\<lparr>rs_had_failures := False\<rparr>" "nat (ro_batch_size opts)" publish clock 0] assms
  show ?thesis by (simp add: relay_blocked_iff relay_run_once_def Let_def relay_is_healthy_def)
qed

section \<open>The inbox store\<close>

record 'v inbox_message =
  im_id :: string
  im_event_id :: string
  im_envelope :: 'v
  im_received_at :: int
  im_processed_at :: "int option"

record 'v inbox_store =
  ib_messages :: "(string, 'v inbox_message) jsmap"
  ib_seen :: "string list"

definition inbox_new :: "'v inbox_store" where
  "inbox_new = \<lparr>ib_messages = [], ib_seen = []\<rparr>"

definition inbox_is_duplicate :: "'v inbox_store \<Rightarrow> string \<Rightarrow> bool" where
  "inbox_is_duplicate ib ev = (ev \<in> set (ib_seen ib))"

definition inbox_save :: "'v inbox_message \<Rightarrow> 'v inbox_store \<Rightarrow> 'v inbox_store" where
  "inbox_save msg ib =
     ib\<lparr>ib_seen := (if im_event_id msg \<in> set (ib_seen ib) then ib_seen ib else ib_seen ib @ [im_event_id msg]),
        ib_messages := jset (im_id msg) msg (ib_messages ib)\<rparr>"

definition inbox_mark_as_processed :: "int \<Rightarrow> string \<Rightarrow> 'v inbox_store \<Rightarrow> 'v inbox_store" where
  "inbox_mark_as_processed now i ib =
     (case jget (ib_messages ib) i of
        Some msg \<Rightarrow> ib\<lparr>ib_messages := jset i (msg\<lparr>im_processed_at := Some now\<rparr>) (ib_messages ib)\<rparr>
      | None \<Rightarrow> ib)"

datatype 'v inbox_op = InboxSave "'v inbox_message" | InboxProcessed int string

fun inbox_step :: "'v inbox_store \<Rightarrow> 'v inbox_op \<Rightarrow> 'v inbox_store" where
  "inbox_step ib (InboxSave msg) = inbox_save msg ib"
| "inbox_step ib (InboxProcessed now i) = inbox_mark_as_processed now i ib"

fun saved_events :: "'v inbox_op list \<Rightarrow> string set" where
  "saved_events [] = {}"
| "saved_events (InboxSave msg # ops) = insert (im_event_id msg) (saved_events ops)"
| "saved_events (InboxProcessed now i # ops) = saved_events ops"

lemma inbox_seen_step:
  "set (ib_seen (inbox_step ib op)) = set (ib_seen ib) \<union> saved_events [op]"
  by (cases op) (auto simp: inbox_save_def inbox_mark_as_processed_def split: option.splits)

lemma saved_events_Cons: "saved_events (op # ops) = saved_events [op] \<union> saved_events ops"
  by (cases op) auto

lemma inbox_seen_run: "set (ib_seen (foldl inbox_step ib ops)) = set (ib_seen ib) \<union> saved_events ops"
proof (induction ops arbitrary: ib)
  case (Cons op ops)
  then show ?case using inbox_seen_step [of ib op] saved_events_Cons [of op ops] by auto
qed simp

section \<open>Properties\<close>

text \<open>C7: A relay run over the in-memory store publishes exactly the messages of its batch that are
  below the attempt limit and past their back-off, each once and in order; it marks a message
  published when publishing it succeeded and failed with the error's message when it threw, counts
  one more attempt on a dead letter, leaves a message in back-off, the messages outside the batch
  and the published ones as they are, and is healthy exactly when nothing threw.\<close>

theorem relay_run_effect:
  assumes "outbox_ok (rs_store st)"
  shows "let batch = outbox_get_unpublished (ro_batch_size opts) (rs_store st);
             due = tried opts clock 0 batch;
             (results, w) = map_st (\<lambda>p. publish (om_envelope (snd p))) due (rs_world st);
             st' = relay_run_once (memory_ports publish) opts clock st
    in rs_world st' = w
     \<and> relay_is_healthy st' = (\<forall>r \<in> set results. is_returned r)
     \<and> (\<forall>((now, m), r) \<in> set (zip due results). jget (rs_store st') (om_id m) = Some (settle now r m))
     \<and> (\<forall>n < length batch. \<not> eligible opts (clock n) (batch ! n) \<longrightarrow>
          jget (rs_store st') (om_id (batch ! n)) = Some
            (if ro_max_attempts opts \<le> om_attempts (batch ! n)
             then fail_update (clock n) ''max attempts exceeded'' (batch ! n) else batch ! n))
     \<and> (\<forall>j. j \<notin> om_id ` set batch \<longrightarrow> jget (rs_store st') j = jget (rs_store st) j)
     \<and> (\<forall>j msg. jget (rs_store st) j = Some msg \<and> om_published_at msg \<noteq> None \<longrightarrow>
          jget (rs_store st') j = Some msg)"
  using memory_outbox.run_once_effect [OF assms, of publish opts clock]
    memory_outbox.published_stays [OF assms, of _ _ publish opts clock]
  unfolding processed_def memory_ports_simps Let_def is_pending_def relay_is_healthy_def
  by (fastforce simp: decide_cases split: if_splits)

theorem relay_run_effect_witness:
  "rs_world (relay_run_once (memory_ports (\<lambda>v w. (Inr (), w @ [v]))) default_relay_options (\<lambda>k. 7)
      \<lparr>rs_store = [(''m'', \<lparr>om_id = ''m'', om_envelope = 1, om_created_at = 0, om_published_at = None,
          om_attempts = 0, om_last_attempt = None, om_error = None\<rparr>)],
       rs_world = [], rs_metrics = None, rs_had_failures = False\<rparr>) = [1 :: nat]"
proof -
  let ?msg = "\<lparr>om_id = ''m'', om_envelope = 1, om_created_at = 0, om_published_at = None,
          om_attempts = 0, om_last_attempt = None, om_error = None\<rparr> :: nat outbox_message"
  let ?st = "\<lparr>rs_store = [(''m'', ?msg)], rs_world = [] :: nat list, rs_metrics = None, rs_had_failures = False\<rparr>"
  have ok: "outbox_ok (rs_store ?st)" by (simp add: outbox_ok_def)
  have batch: "outbox_get_unpublished (ro_batch_size default_relay_options) (rs_store ?st) = [?msg]"
    by (simp add: outbox_get_unpublished_def default_relay_options_def Let_def)
  have due: "tried default_relay_options (\<lambda>k. 7) 0 [?msg] = [(7, ?msg)]"
    by (simp add: eligible_def default_relay_options_def)
  from relay_run_effect [OF ok, where opts = default_relay_options and publish = "\<lambda>v w. (Inr (), w @ [v])"
      and clock = "\<lambda>k. 7"]
  show ?thesis unfolding batch due Let_def by simp
qed

text \<open>When the first batch of unpublished messages consists of messages past the attempt limit,
  no run publishes anything ever again, however many runs follow and whatever else waits in the
  outbox, and the relay reports that it is healthy.\<close>

theorem dead_letters_block_relay:
  assumes "relay_blocked opts (rs_store st)"
  shows "rs_world (foldl (\<lambda>st clock. relay_run_once (memory_ports publish) opts clock st) st clocks) = rs_world st
    \<and> relay_is_healthy (relay_run_once (memory_ports publish) opts clock
        (foldl (\<lambda>st clock. relay_run_once (memory_ports publish) opts clock st) st clocks))"
  using assms
proof (induction clocks arbitrary: st)
  case Nil
  then show ?case using blocked_run [OF Nil, of publish clock] by (simp add: Let_def)
next
  case (Cons c cs)
  have "relay_blocked opts (rs_store (relay_run_once (memory_ports publish) opts c st))"
    and "rs_world (relay_run_once (memory_ports publish) opts c st) = rs_world st"
    using blocked_run [OF Cons.prems, of publish c] by (simp_all add: Let_def)
  then show ?case using Cons.IH by simp
qed

theorem dead_letters_block_relay_witness:
  "rs_world (relay_run_once (memory_ports (\<lambda>v w. (Inr (), w @ [v])))
      \<lparr>ro_poll_interval = 1, ro_batch_size = 1, ro_max_attempts = 5, ro_backoff_base = 1\<rparr> (\<lambda>k. 7)
      \<lparr>rs_store = [(''dead'', \<lparr>om_id = ''dead'', om_envelope = 1, om_created_at = 0, om_published_at = None,
          om_attempts = 5, om_last_attempt = None, om_error = None\<rparr>),
         (''fresh'', \<lparr>om_id = ''fresh'', om_envelope = 2, om_created_at = 0, om_published_at = None,
          om_attempts = 0, om_last_attempt = None, om_error = None\<rparr>)],
       rs_world = [], rs_metrics = None, rs_had_failures = False\<rparr>) = ([] :: nat list)"
proof -
  let ?opts = "\<lparr>ro_poll_interval = 1, ro_batch_size = 1, ro_max_attempts = 5, ro_backoff_base = 1\<rparr>"
  let ?st = "\<lparr>rs_store = [(''dead'', \<lparr>om_id = ''dead'', om_envelope = 1, om_created_at = 0, om_published_at = None,
          om_attempts = 5, om_last_attempt = None, om_error = None\<rparr>),
         (''fresh'', \<lparr>om_id = ''fresh'', om_envelope = 2, om_created_at = 0, om_published_at = None,
          om_attempts = 0, om_last_attempt = None, om_error = None\<rparr>)],
       rs_world = [], rs_metrics = None, rs_had_failures = False\<rparr> :: (nat outbox_store, nat list) relay_state"
  have "relay_blocked ?opts (rs_store ?st)"
    by (simp add: relay_blocked_def outbox_ok_def is_pending_def)
  from dead_letters_block_relay [OF this, of "\<lambda>v w. (Inr (), w @ [v])" "[\<lambda>k. 7]"] show ?thesis by simp
qed

text \<open>The inbox recognises an event as a duplicate exactly when a message with that event id has
  been saved before, whatever was saved or marked as processed in between.\<close>

theorem inbox_deduplicates:
  "inbox_is_duplicate (foldl inbox_step inbox_new ops) ev \<longleftrightarrow> ev \<in> saved_events ops"
  by (simp add: inbox_is_duplicate_def inbox_seen_run) (simp add: inbox_new_def)

end
