(* ===== verification/Resilience.thy ===== *)
theory Resilience
  imports Prelude
begin

text \<open>
  The resilience patterns (\<open>packages/resilience/src\<close>): circuit breaker, bulkhead, rate limiter,
  retry, fallback, hedged requests and health aggregation.  An \<open>async\<close> method that other
  calls can interleave with is split at its \<open>await\<close>: for the breaker, the bulkhead and the hedge
  a run is a list of events, in any order the event loop may produce.
\<close>

section \<open>Circuit breaker\<close>

datatype breaker_state = CLOSED | OPEN | HALF_OPEN

record circuit_breaker =
  cb_state :: breaker_state
  cb_failures :: int
  cb_last_failure :: "int option"
  cb_failure_threshold :: int
  cb_reset_timeout :: int

definition circuit_breaker_new :: "int \<Rightarrow> int \<Rightarrow> circuit_breaker" where
  "circuit_breaker_new threshold reset_ms =
     \<lparr>cb_state = CLOSED, cb_failures = 0, cb_last_failure = None,
      cb_failure_threshold = threshold, cb_reset_timeout = reset_ms\<rparr>"

definition circuit_open_error :: js_error where
  "circuit_open_error = JsError ''CircuitBreakerOpenError'' ''Circuit breaker is open''"

text \<open>\<open>execute\<close> up to its \<open>await\<close>: the call is refused or \<open>fn\<close> is started.\<close>

definition cb_admit :: "int \<Rightarrow> circuit_breaker \<Rightarrow> (js_error, circuit_breaker) outcome" where
  "cb_admit now cb =
     (if cb_state cb = OPEN
      then (if now - (case cb_last_failure cb of Some t \<Rightarrow> t | None \<Rightarrow> 0) > cb_reset_timeout cb
            then Inr (cb\<lparr>cb_state := HALF_OPEN\<rparr>)
            else Inl circuit_open_error)
      else Inr cb)"

definition cb_on_success :: "circuit_breaker \<Rightarrow> circuit_breaker" where
  "cb_on_success cb = cb\<lparr>cb_failures := 0, cb_state := CLOSED\<rparr>"

definition cb_on_failure :: "int \<Rightarrow> circuit_breaker \<Rightarrow> circuit_breaker" where
  "cb_on_failure now cb =
     (let cb1 = cb\<lparr>cb_failures := cb_failures cb + 1, cb_last_failure := Some now\<rparr>
      in if cb_failures cb1 \<ge> cb_failure_threshold cb1 then cb1\<lparr>cb_state := OPEN\<rparr> else cb1)"

text \<open>
  \<open>execute\<close> with no other call between its start (\<open>now\<close>) and the settling of \<open>fn\<close> (at \<open>now'\<close>).
\<close>

definition cb_execute ::
  "int \<Rightarrow> int \<Rightarrow> (js_error, 'a) outcome \<Rightarrow> circuit_breaker \<Rightarrow> (js_error, 'a) outcome \<times> circuit_breaker" where
  "cb_execute now now' res cb =
     (case cb_admit now cb of
        Inl e \<Rightarrow> (Inl e, cb)
      | Inr cb1 \<Rightarrow> (case res of
            Inr v \<Rightarrow> (Inr v, cb_on_success cb1)
          | Inl e \<Rightarrow> (Inl e, cb_on_failure now' cb1)))"

text \<open>Interleaved calls: a call arrives, an admitted call succeeds, an admitted call fails.\<close>

datatype breaker_event = CallArrives int | CallSucceeds | CallFails int

fun cb_step :: "circuit_breaker \<Rightarrow> breaker_event \<Rightarrow> circuit_breaker" where
  "cb_step cb (CallArrives now) = (case cb_admit now cb of Inl e \<Rightarrow> cb | Inr cb1 \<Rightarrow> cb1)"
| "cb_step cb CallSucceeds = cb_on_success cb"
| "cb_step cb (CallFails now) = cb_on_failure now cb"

lemmas cb_defs = cb_admit_def cb_on_success_def cb_on_failure_def circuit_breaker_new_def Let_def

text \<open>The specification: how many failures have been reported since the last success.\<close>

fun failure_streak :: "int \<Rightarrow> breaker_event list \<Rightarrow> int" where
  "failure_streak n [] = n"
| "failure_streak n (CallArrives t # es) = failure_streak n es"
| "failure_streak n (CallSucceeds # es) = failure_streak 0 es"
| "failure_streak n (CallFails t # es) = failure_streak (n + 1) es"

definition cb_ok :: "circuit_breaker \<Rightarrow> bool" where
  "cb_ok cb \<longleftrightarrow> 0 \<le> cb_failures cb \<and> 0 < cb_failure_threshold cb \<and>
     (cb_state cb = CLOSED \<longleftrightarrow> cb_failures cb < cb_failure_threshold cb) \<and>
     (cb_state cb \<noteq> CLOSED \<longrightarrow> cb_last_failure cb \<noteq> None)"

lemma cb_ok_new [inv_intros]: "0 < th \<Longrightarrow> cb_ok (circuit_breaker_new th rs)"
  by (simp add: cb_ok_def cb_defs)

lemma cb_ok_step [inv_intros]: "cb_ok cb \<Longrightarrow> cb_ok (cb_step cb e)"
  by (cases e) (auto simp: cb_ok_def cb_defs split: option.splits)

interpretation breaker: invariant_machine cb_step cb_ok
  by unfold_locales (rule cb_ok_step)

lemma cb_step_config [simp]:
  "cb_failure_threshold (cb_step cb e) = cb_failure_threshold cb"
  "cb_reset_timeout (cb_step cb e) = cb_reset_timeout cb"
  by (cases e; simp add: cb_defs split: sum.splits)+

lemma cb_step_failures: "cb_failures (cb_step cb e) = failure_streak (cb_failures cb) [e]"
  by (cases e) (auto simp: cb_defs split: option.splits)

lemma failure_streak_append: "failure_streak n (es @ fs) = failure_streak (failure_streak n es) fs"
  by (induction n es rule: failure_streak.induct) auto

lemma cb_run_config [simp]:
  "cb_failure_threshold (foldl cb_step cb es) = cb_failure_threshold cb"
  "cb_reset_timeout (foldl cb_step cb es) = cb_reset_timeout cb"
  by (induction es arbitrary: cb) auto

lemma cb_run_failures: "cb_failures (foldl cb_step cb es) = failure_streak (cb_failures cb) es"
proof (induction es arbitrary: cb)
  case (Cons e es)
  then show ?case
    using failure_streak_append [of "cb_failures cb" "[e]" es] by (simp add: cb_step_failures)
qed simp

text \<open>A breaker that is open for calls at the times \<open>ts\<close> refuses all of them and does not change.\<close>

lemma cb_admit_open:
  "cb_state cb = OPEN \<Longrightarrow> cb_last_failure cb = Some t \<Longrightarrow> now \<le> t + cb_reset_timeout cb \<Longrightarrow>
   cb_admit now cb = Inl circuit_open_error"
  by (simp add: cb_admit_def)

section \<open>Bulkhead\<close>

text \<open>
  Tasks are named; \<open>bh_queue\<close> holds the waiters in the order they were queued.  \<open>bh_running\<close>,
  \<open>bh_started\<close> and \<open>bh_accepted\<close> are the event loop's view: which \<open>fn\<close>s are running, in which
  order they were started and which calls were not refused.
\<close>

record bulkhead =
  bh_active :: int
  bh_queue :: "string list"
  bh_max_concurrent :: int
  bh_max_queue :: int

definition bulkhead_new :: "int \<Rightarrow> int \<Rightarrow> bulkhead" where
  "bulkhead_new mc mq = \<lparr>bh_active = 0, bh_queue = [], bh_max_concurrent = mc, bh_max_queue = mq\<rparr>"

datatype slot = SlotGranted | SlotQueued | SlotRejected

definition bh_acquire_slot :: "string \<Rightarrow> bulkhead \<Rightarrow> slot \<times> bulkhead" where
  "bh_acquire_slot task b =
     (if bh_active b < bh_max_concurrent b then (SlotGranted, b\<lparr>bh_active := bh_active b + 1\<rparr>)
      else if int (length (bh_queue b)) \<ge> bh_max_queue b then (SlotRejected, b)
      else (SlotQueued, b\<lparr>bh_queue := bh_queue b @ [task]\<rparr>))"

definition bh_release_slot :: "bulkhead \<Rightarrow> string option \<times> bulkhead" where
  "bh_release_slot b =
     (case bh_queue b of
        next # rest \<Rightarrow> (Some next, b\<lparr>bh_queue := rest\<rparr>)
      | [] \<Rightarrow> (None, b\<lparr>bh_active := bh_active b - 1\<rparr>))"

record bulkhead_system =
  bs_bulkhead :: bulkhead
  bs_running :: "string list"
  bs_started :: "string list"
  bs_accepted :: "string list"

definition bulkhead_system_new :: "int \<Rightarrow> int \<Rightarrow> bulkhead_system" where
  "bulkhead_system_new mc mq =
     \<lparr>bs_bulkhead = bulkhead_new mc mq, bs_running = [], bs_started = [], bs_accepted = []\<rparr>"

text \<open>
  \<open>execute\<close>: a task asks for a slot; a running task settles (fulfilled or rejected, the
  \<open>finally\<close> block runs either way) and hands its slot to the first waiter.
\<close>

datatype bulkhead_event = TaskArrives string | TaskSettles string

fun bulkhead_step :: "bulkhead_system \<Rightarrow> bulkhead_event \<Rightarrow> bulkhead_system" where
  "bulkhead_step s (TaskArrives t) =
     (case bh_acquire_slot t (bs_bulkhead s) of
        (SlotGranted, b) \<Rightarrow> s\<lparr>bs_bulkhead := b, bs_running := bs_running s @ [t],
             bs_started := bs_started s @ [t], bs_accepted := bs_accepted s @ [t]\<rparr>
      | (SlotQueued, b) \<Rightarrow> s\<lparr>bs_bulkhead := b, bs_accepted := bs_accepted s @ [t]\<rparr>
      | (SlotRejected, b) \<Rightarrow> s\<lparr>bs_bulkhead := b\<rparr>)"
| "bulkhead_step s (TaskSettles t) =
     (if t \<in> set (bs_running s)
      then (case bh_release_slot (bs_bulkhead s) of
          (Some u, b) \<Rightarrow> s\<lparr>bs_bulkhead := b, bs_running := remove1 t (bs_running s) @ [u],
               bs_started := bs_started s @ [u]\<rparr>
        | (None, b) \<Rightarrow> s\<lparr>bs_bulkhead := b, bs_running := remove1 t (bs_running s)\<rparr>)
      else s)"

definition bulkhead_inv :: "bulkhead_system \<Rightarrow> bool" where
  "bulkhead_inv s \<longleftrightarrow> (let b = bs_bulkhead s in
     0 < bh_max_concurrent b \<and> 0 \<le> bh_max_queue b \<and>
     bh_active b = int (length (bs_running s)) \<and>
     bh_active b \<le> bh_max_concurrent b \<and>
     int (length (bh_queue b)) \<le> bh_max_queue b \<and>
     (bh_queue b \<noteq> [] \<longrightarrow> bh_active b = bh_max_concurrent b) \<and>
     bs_accepted s = bs_started s @ bh_queue b)"

lemmas bh_defs = bh_acquire_slot_def bh_release_slot_def bulkhead_inv_def Let_def

lemma bulkhead_inv_new [inv_intros]:
  "0 < mc \<Longrightarrow> 0 \<le> mq \<Longrightarrow> bulkhead_inv (bulkhead_system_new mc mq)"
  by (simp add: bulkhead_inv_def bulkhead_system_new_def bulkhead_new_def)

lemma length_remove1_in: "t \<in> set xs \<Longrightarrow> int (length (remove1 t xs)) = int (length xs) - 1"
  by (induction xs) auto

lemma bulkhead_step_inv [inv_intros]:
  assumes "bulkhead_inv s"
  shows "bulkhead_inv (bulkhead_step s e)"
proof (cases e)
  case (TaskArrives t)
  with assms show ?thesis by (auto simp: bh_defs)
next
  case (TaskSettles t)
  show ?thesis
  proof (cases "bh_queue (bs_bulkhead s)")
    case Nil
    with assms TaskSettles show ?thesis by (auto simp: bh_defs length_remove1_in)
  next
    case (Cons u us)
    with assms TaskSettles show ?thesis by (auto simp: bh_defs length_remove1_in)
  qed
qed

interpretation bulkhead_m: invariant_machine bulkhead_step bulkhead_inv
  by unfold_locales (rule bulkhead_step_inv)

lemma bulkhead_settle_drains:
  assumes "t \<in> set (bs_running s)"
  shows "length (bh_queue (bs_bulkhead (bulkhead_step s (TaskSettles t))))
    = length (bh_queue (bs_bulkhead s)) - 1"
  using assms by (auto simp: bh_defs split: list.splits)

lemma bulkhead_settle_config [simp]:
  "bs_accepted (bulkhead_step s (TaskSettles t)) = bs_accepted s"
  by (auto simp: bh_defs split: list.splits)

lemma bulkhead_run_config:
  "bh_max_concurrent (bs_bulkhead (foldl bulkhead_step s es)) = bh_max_concurrent (bs_bulkhead s)
   \<and> bh_max_queue (bs_bulkhead (foldl bulkhead_step s es)) = bh_max_queue (bs_bulkhead s)"
proof (induction es arbitrary: s)
  case (Cons e es)
  have "bh_max_concurrent (bs_bulkhead (bulkhead_step s e)) = bh_max_concurrent (bs_bulkhead s)
   \<and> bh_max_queue (bs_bulkhead (bulkhead_step s e)) = bh_max_queue (bs_bulkhead s)"
    by (cases e) (auto simp: bh_defs split: list.splits)
  with Cons show ?case by simp
qed simp

lemma bulkhead_busy: "bulkhead_inv s \<Longrightarrow> bh_queue (bs_bulkhead s) \<noteq> [] \<Longrightarrow> bs_running s \<noteq> []"
  by (auto simp: bulkhead_inv_def Let_def)

section \<open>Rate limiter\<close>

record rate_limiter =
  rl_tokens :: rat
  rl_last_refill :: rat
  rl_max_tokens :: rat
  rl_rate :: rat

definition rate_limiter_new :: "rat \<Rightarrow> rat \<Rightarrow> rat \<Rightarrow> rate_limiter" where
  "rate_limiter_new now mx rate =
     \<lparr>rl_tokens = mx, rl_last_refill = now, rl_max_tokens = mx, rl_rate = rate\<rparr>"

definition rl_refill :: "rat \<Rightarrow> rate_limiter \<Rightarrow> rate_limiter" where
  "rl_refill now rl =
     (let elapsed_seconds = (now - rl_last_refill rl) / 1000;
          tokens_to_add = elapsed_seconds * rl_rate rl
      in rl\<lparr>rl_tokens := min (rl_max_tokens rl) (rl_tokens rl + tokens_to_add),
            rl_last_refill := now\<rparr>)"

definition rl_acquire :: "rat \<Rightarrow> rat \<Rightarrow> rate_limiter \<Rightarrow> bool \<times> rate_limiter" where
  "rl_acquire now needed rl0 =
     (let rl = rl_refill now rl0
      in if rl_tokens rl \<ge> needed then (True, rl\<lparr>rl_tokens := rl_tokens rl - needed\<rparr>)
         else (False, rl))"

text \<open>A run of requests \<open>(time, tokens)\<close>: the tokens granted, and the limiter after it.\<close>

fun rl_run :: "rate_limiter \<Rightarrow> (rat \<times> rat) list \<Rightarrow> rat \<times> rate_limiter" where
  "rl_run rl [] = (0, rl)"
| "rl_run rl ((now, needed) # rs) =
     (case rl_acquire now needed rl of
        (granted, rl1) \<Rightarrow> (case rl_run rl1 rs of
            (amount, rl2) \<Rightarrow> ((if granted then needed else 0) + amount, rl2)))"

text \<open>The clock does not go back and no request asks for a negative number of tokens.\<close>

fun requests_ok :: "rat \<Rightarrow> (rat \<times> rat) list \<Rightarrow> bool" where
  "requests_ok t [] = True"
| "requests_ok t ((now, needed) # rs) = (t \<le> now \<and> 0 \<le> needed \<and> requests_ok now rs)"

lemmas rl_defs = rl_refill_def rl_acquire_def Let_def

definition rl_ok :: "rate_limiter \<Rightarrow> bool" where
  "rl_ok rl \<longleftrightarrow> 0 \<le> rl_tokens rl \<and> rl_tokens rl \<le> rl_max_tokens rl \<and> 0 \<le> rl_rate rl"

lemma rl_acquire_config:
  assumes "rl_acquire now needed rl = (g, rl1)"
  shows "rl_max_tokens rl1 = rl_max_tokens rl" "rl_rate rl1 = rl_rate rl" "rl_last_refill rl1 = now"
  using assms by (auto simp: rl_defs split: if_splits)

lemma rl_acquire_ok:
  assumes "rl_ok rl" "rl_last_refill rl \<le> now" "0 \<le> needed" "rl_acquire now needed rl = (g, rl1)"
  shows "rl_ok rl1"
proof -
  have "0 \<le> (now - rl_last_refill rl) / 1000 * rl_rate rl"
    using assms(1,2) by (simp add: rl_ok_def)
  then show ?thesis
    using assms by (auto simp: rl_ok_def rl_defs min_def split: if_splits)
qed

text \<open>The potential: tokens in hand plus tokens granted never exceed what time has paid for.\<close>

lemma rl_acquire_potential:
  assumes "rl_acquire now needed rl = (g, rl1)"
  shows "(if g then needed else 0) + rl_tokens rl1
    \<le> rl_tokens rl + (now - rl_last_refill rl) / 1000 * rl_rate rl"
  using assms by (auto simp: rl_defs min_def split: if_splits)

lemma rl_run_facts:
  assumes "rl_ok rl" "requests_ok (rl_last_refill rl) rs" "rl_run rl rs = (amount, rl')"
  shows "rl_ok rl' \<and> rl_max_tokens rl' = rl_max_tokens rl \<and>
    rl_last_refill rl \<le> rl_last_refill rl' \<and>
    amount + rl_tokens rl' \<le> rl_tokens rl + (rl_last_refill rl' - rl_last_refill rl) / 1000 * rl_rate rl"
  using assms
proof (induction rs arbitrary: rl amount)
  case Nil
  then show ?case by simp
next
  case (Cons r rs)
  obtain now needed where r: "r = (now, needed)" by (cases r)
  obtain g rl1 where a: "rl_acquire now needed rl = (g, rl1)" by (cases "rl_acquire now needed rl")
  obtain rest where b: "rl_run rl1 rs = (rest, rl')"
    and amount: "amount = (if g then needed else 0) + rest"
    using Cons.prems(3) by (auto simp: r a split: prod.splits)
  have le: "rl_last_refill rl \<le> now" "0 \<le> needed" "requests_ok now rs"
    using Cons.prems(2) by (simp_all add: r)
  have ok1: "rl_ok rl1" using rl_acquire_ok [OF Cons.prems(1) le(1,2) a] .
  note cfg = rl_acquire_config [OF a]
  have ih: "rl_ok rl' \<and> rl_max_tokens rl' = rl_max_tokens rl \<and> now \<le> rl_last_refill rl' \<and>
    rest + rl_tokens rl' \<le> rl_tokens rl1 + (rl_last_refill rl' - now) / 1000 * rl_rate rl"
    using Cons.IH [OF ok1 _ b] le(3) by (simp add: cfg)
  have "(now - rl_last_refill rl) / 1000 * rl_rate rl + (rl_last_refill rl' - now) / 1000 * rl_rate rl
    = (rl_last_refill rl' - rl_last_refill rl) / 1000 * rl_rate rl"
    by (simp add: algebra_simps diff_divide_distrib)
  with ih le(1) rl_acquire_potential [OF a] show ?case
    unfolding amount by linarith
qed

section \<open>Retry and fallback\<close>

record retry_policy =
  rp_max_attempts :: int
  rp_delay :: rat
  rp_multiplier :: "rat option"
  rp_max_delay :: "rat option"

definition next_delay :: "retry_policy \<Rightarrow> rat \<Rightarrow> rat" where
  "next_delay p delay =
     (case rp_multiplier p of
        Some m \<Rightarrow> (if m > 0
            then (case rp_max_delay p of Some mx \<Rightarrow> min (delay * m) mx | None \<Rightarrow> delay * m)
            else delay)
      | None \<Rightarrow> delay)"

text \<open>
  The loop of \<open>Retry.execute\<close>.  \<open>fn\<close> threads its own state; the list collects the delays that
  were waited for.
\<close>

function retry_loop ::
  "retry_policy \<Rightarrow> ('s \<Rightarrow> ('e, 'a) outcome \<times> 's) \<Rightarrow> int \<Rightarrow> rat \<Rightarrow> 'e option \<Rightarrow> 's \<Rightarrow>
   ('e thrown, 'a) outcome \<times> rat list \<times> 's" where
  "retry_loop p fn attempt delay last_error s =
     (if attempt \<le> rp_max_attempts p
      then (case fn s of
          (Inr v, s1) \<Rightarrow> (Inr v, [], s1)
        | (Inl e, s1) \<Rightarrow>
            (if 0 < attempt \<and> attempt < rp_max_attempts p
             then (case retry_loop p fn (attempt + 1) (next_delay p delay) (Some e) s1 of
                 (r, waits, s2) \<Rightarrow> (r, delay # waits, s2))
             else retry_loop p fn (attempt + 1) delay (Some e) s1))
      else (case last_error of
          Some e \<Rightarrow> (Inl (Rethrown e), [], s)
        | None \<Rightarrow> (Inl (NewError (plain_error ''Retry failed'')), [], s)))"
  by pat_completeness auto
termination
  by (relation "measure (\<lambda>(p, fn, attempt, delay, le, s). nat (rp_max_attempts p + 1 - attempt))") auto

declare retry_loop.simps [simp del]

definition retry_execute ::
  "('s \<Rightarrow> ('e, 'a) outcome \<times> 's) \<Rightarrow> retry_policy \<Rightarrow> 's \<Rightarrow> ('e thrown, 'a) outcome \<times> rat list \<times> 's" where
  "retry_execute fn p s = retry_loop p fn 1 (rp_delay p) None s"

text \<open>The specification: the first \<open>n\<close> delays, and \<open>n\<close> failing calls in a row.\<close>

fun delays :: "retry_policy \<Rightarrow> rat \<Rightarrow> nat \<Rightarrow> rat list" where
  "delays p d 0 = []"
| "delays p d (Suc n) = d # delays p (next_delay p d) n"

fun fails_with :: "('s \<Rightarrow> ('e, 'a) outcome \<times> 's) \<Rightarrow> 's \<Rightarrow> 'e list \<Rightarrow> 's \<Rightarrow> bool" where
  "fails_with fn s [] s' = (s' = s)"
| "fails_with fn s (e # es) s' = (fst (fn s) = Inl e \<and> fails_with fn (snd (fn s)) es s')"

lemma retry_loop_ok:
  assumes "fails_with fn s es s1" "fn s1 = (Inr v, s2)" "0 < a"
    "a + int (length es) \<le> rp_max_attempts p"
  shows "retry_loop p fn a d le s = (Inr v, delays p d (length es), s2)"
  using assms
proof (induction es arbitrary: a d le s)
  case Nil
  then show ?case by (simp add: retry_loop.simps [of p fn a d le s])
next
  case (Cons e es)
  obtain t where t: "fn s = (Inl e, t)" using Cons.prems(1) by (cases "fn s") auto
  have "retry_loop p fn (a + 1) (next_delay p d) (Some e) t
    = (Inr v, delays p (next_delay p d) (length es), s2)"
    using Cons.prems by (intro Cons.IH) (auto simp: t)
  with Cons.prems(3,4) t show ?case by (simp add: retry_loop.simps [of p fn a d le s])
qed

lemma retry_loop_fail:
  assumes "fails_with fn s es s1" "0 < a" "es \<noteq> []"
    "a + int (length es) = rp_max_attempts p + 1"
  shows "retry_loop p fn a d le s = (Inl (Rethrown (last es)), delays p d (length es - 1), s1)"
  using assms
proof (induction es arbitrary: a d le s)
  case (Cons e es)
  obtain t where t: "fn s = (Inl e, t)" using Cons.prems(1) by (cases "fn s") auto
  show ?case
  proof (cases es)
    case Nil
    with Cons.prems t show ?thesis
      by (subst retry_loop.simps) (simp add: retry_loop.simps [of p fn "rp_max_attempts p + 1"])
  next
    case (Cons e' es')
    have "retry_loop p fn (a + 1) (next_delay p d) (Some e) t
      = (Inl (Rethrown (last es)), delays p (next_delay p d) (length es - 1), s1)"
      using Cons.prems \<open>es = e' # es'\<close> by (intro Cons.IH) (auto simp: t)
    with Cons.prems(2,4) t Cons show ?thesis by (simp add: retry_loop.simps [of p fn a d le s])
  qed
qed simp

lemma delays_capped:
  assumes "rp_multiplier p = Some m" "0 < m" "rp_max_delay p = Some mx" "d \<le> mx"
  shows "\<forall>x \<in> set (delays p d n). x \<le> mx"
  using assms(4)
proof (induction n arbitrary: d)
  case (Suc n)
  have "next_delay p d \<le> mx" using assms by (simp add: next_delay_def)
  from Suc.IH [OF this] Suc.prems show ?case by simp
qed simp

lemma length_delays [simp]: "length (delays p d n) = n"
  by (induction n arbitrary: d) auto

definition with_fallback ::
  "('s \<Rightarrow> ('e, 'a) outcome \<times> 's) \<Rightarrow> ('s \<Rightarrow> ('e, 'a) outcome \<times> 's) \<Rightarrow> 's \<Rightarrow> ('e, 'a) outcome \<times> 's" where
  "with_fallback primary fallback s =
     (case primary s of (Inr v, s1) \<Rightarrow> (Inr v, s1) | (Inl e, s1) \<Rightarrow> fallback s1)"

definition with_default :: "('s \<Rightarrow> ('e, 'a) outcome \<times> 's) \<Rightarrow> 'a \<Rightarrow> 's \<Rightarrow> ('e, 'a) outcome \<times> 's" where
  "with_default primary default_value s =
     (case primary s of (Inr v, s1) \<Rightarrow> (Inr v, s1) | (Inl e, s1) \<Rightarrow> (Inr default_value, s1))"

section \<open>Hedged requests\<close>

text \<open>
  The promise of \<open>Hedge.execute\<close>: the four closure variables and how the promise was settled.
  \<open>hd_in_flight\<close> counts the copies launched and not settled yet, which the code does not store:
  its \<open>pending\<close> is not decremented by a fulfilled copy.
\<close>

record ('e, 'a) hedge =
  hd_settled :: bool
  hd_pending :: int
  hd_timers_pending :: int
  hd_last_error :: "'e option"
  hd_outcome :: "('e option, 'a) outcome option"
  hd_in_flight :: int
  hd_launched :: int

definition hedge_try_reject :: "('e, 'a) hedge \<Rightarrow> ('e, 'a) hedge" where
  "hedge_try_reject h =
     (if hd_pending h = 0 \<and> hd_timers_pending h = 0 \<and> \<not> hd_settled h
      then h\<lparr>hd_settled := True, hd_outcome := Some (Inl (hd_last_error h))\<rparr> else h)"

definition hedge_launch :: "('e, 'a) hedge \<Rightarrow> ('e, 'a) hedge" where
  "hedge_launch h =
     h\<lparr>hd_pending := hd_pending h + 1, hd_in_flight := hd_in_flight h + 1,
       hd_launched := hd_launched h + 1\<rparr>"

definition hedge_fulfilled :: "'a \<Rightarrow> ('e, 'a) hedge \<Rightarrow> ('e, 'a) hedge" where
  "hedge_fulfilled v h =
     (let h1 = h\<lparr>hd_in_flight := hd_in_flight h - 1\<rparr>
      in if \<not> hd_settled h1 then h1\<lparr>hd_settled := True, hd_outcome := Some (Inr v)\<rparr> else h1)"

definition hedge_rejected :: "'e \<Rightarrow> ('e, 'a) hedge \<Rightarrow> ('e, 'a) hedge" where
  "hedge_rejected e h =
     hedge_try_reject (h\<lparr>hd_in_flight := hd_in_flight h - 1, hd_last_error := Some e,
                         hd_pending := hd_pending h - 1\<rparr>)"

definition hedge_timer :: "('e, 'a) hedge \<Rightarrow> ('e, 'a) hedge" where
  "hedge_timer h =
     (let h1 = h\<lparr>hd_timers_pending := hd_timers_pending h - 1\<rparr>
      in if \<not> hd_settled h1 then hedge_launch h1 else hedge_try_reject h1)"

definition hedge_start :: "int \<Rightarrow> ('e, 'a) hedge" where
  "hedge_start copies =
     hedge_launch \<lparr>hd_settled = False, hd_pending = 0, hd_timers_pending = copies - 1,
       hd_last_error = None, hd_outcome = None, hd_in_flight = 0, hd_launched = 0\<rparr>"

text \<open>
  What the event loop may do next: one of the copies in flight settles, or one of the timers set
  by the \<open>for\<close> loop (there are \<open>copies - 1\<close>, none when that is not positive) fires.
\<close>

datatype ('e, 'a) hedge_event = CopyFulfils 'a | CopyRejects 'e | TimerFires

fun hedge_step :: "('e, 'a) hedge \<Rightarrow> ('e, 'a) hedge_event \<Rightarrow> ('e, 'a) hedge" where
  "hedge_step h (CopyFulfils v) = (if 0 < hd_in_flight h then hedge_fulfilled v h else h)"
| "hedge_step h (CopyRejects e) = (if 0 < hd_in_flight h then hedge_rejected e h else h)"
| "hedge_step h TimerFires = (if 0 < hd_timers_pending h then hedge_timer h else h)"

lemmas hedge_defs = hedge_try_reject_def hedge_launch_def hedge_fulfilled_def hedge_rejected_def
  hedge_timer_def hedge_start_def Let_def

definition hedge_inv :: "int \<Rightarrow> ('e, 'a) hedge \<Rightarrow> bool" where
  "hedge_inv copies h \<longleftrightarrow>
     0 \<le> hd_in_flight h \<and> 0 \<le> hd_timers_pending h \<and> hd_in_flight h \<le> hd_pending h \<and>
     (hd_settled h \<longleftrightarrow> hd_outcome h \<noteq> None) \<and>
     (\<not> hd_settled h \<longrightarrow> hd_pending h = hd_in_flight h \<and>
        hd_launched h + hd_timers_pending h = copies \<and>
        (hd_in_flight h = 0 \<longrightarrow> 0 < hd_timers_pending h)) \<and>
     (\<forall>e. hd_outcome h = Some (Inl e) \<longrightarrow>
        e \<noteq> None \<and> hd_launched h = copies \<and> hd_in_flight h = 0 \<and> hd_timers_pending h = 0)"

lemma hedge_inv_start [inv_intros]: "1 \<le> copies \<Longrightarrow> hedge_inv copies (hedge_start copies)"
  by (simp add: hedge_inv_def hedge_defs)

lemma hedge_step_inv [inv_intros]: "hedge_inv copies h \<Longrightarrow> hedge_inv copies (hedge_step h e)"
  by (cases e) (auto simp: hedge_inv_def hedge_defs)

interpretation hedge_m: invariant_machine hedge_step "hedge_inv copies"
  by unfold_locales (rule hedge_step_inv)

lemma hedge_settled_stays: "hd_outcome h = Some r \<Longrightarrow> hd_settled h \<Longrightarrow>
  hd_outcome (hedge_step h e) = Some r \<and> hd_settled (hedge_step h e)"
  by (cases e) (auto simp: hedge_defs)

lemma hedge_run_settled_stays: "hd_outcome h = Some r \<Longrightarrow> hd_settled h \<Longrightarrow>
  hd_outcome (foldl hedge_step h es) = Some r \<and> hd_settled (foldl hedge_step h es)"
  by (induction es arbitrary: h) (auto dest: hedge_settled_stays)

section \<open>Health aggregation\<close>

datatype health_status = Healthy | Degraded | Unhealthy

text \<open>
  The indicators, in the order their checks settle; a check that throws is \<open>Inl\<close>.  The
  \<open>checks\<close> object keeps one entry per name.
\<close>

fun health_status_of :: "('e, health_status) outcome \<Rightarrow> health_status" where
  "health_status_of (Inr st) = st"
| "health_status_of (Inl e) = Unhealthy"

fun health_checks ::
  "(string, health_status) jsmap \<Rightarrow> (string \<times> ('e, health_status) outcome) list \<Rightarrow> (string, health_status) jsmap" where
  "health_checks checks [] = checks"
| "health_checks checks ((name, r) # rs) = health_checks (jset name (health_status_of r) checks) rs"

definition overall_health :: "health_status list \<Rightarrow> health_status" where
  "overall_health statuses =
     (if list_ex (\<lambda>s. s = Unhealthy) statuses then Unhealthy
      else if list_ex (\<lambda>s. s = Degraded) statuses then Degraded else Healthy)"

definition health_check ::
  "(string \<times> ('e, health_status) outcome) list \<Rightarrow> health_status \<times> (string, health_status) jsmap" where
  "health_check settled =
     (let checks = health_checks [] settled in (overall_health (jvalues checks), checks))"

fun health_rank :: "health_status \<Rightarrow> nat" where
  "health_rank Healthy = 0" | "health_rank Degraded = 1" | "health_rank Unhealthy = 2"

instantiation health_status :: linorder
begin

definition less_eq_health_status :: "health_status \<Rightarrow> health_status \<Rightarrow> bool" where
  "less_eq_health_status a b = (health_rank a \<le> health_rank b)"

definition less_health_status :: "health_status \<Rightarrow> health_status \<Rightarrow> bool" where
  "less_health_status a b = (health_rank a < health_rank b)"

instance
proof
  fix a b :: health_status
  assume "a \<le> b" "b \<le> a"
  then show "a = b" by (cases a; cases b) (auto simp: less_eq_health_status_def)
qed (auto simp: less_eq_health_status_def less_health_status_def)

end

lemma overall_health_Max: "xs \<noteq> [] \<Longrightarrow> overall_health xs = Max (set xs)"
proof -
  assume "xs \<noteq> []"
  have "overall_health xs \<in> set xs \<and> (\<forall>y \<in> set xs. y \<le> overall_health xs)"
  proof -
    have c: "x = Healthy" if "x \<noteq> Unhealthy" "x \<noteq> Degraded" for x
      using that by (cases x) auto
    show ?thesis
    proof (cases "Unhealthy \<in> set xs")
      case True
      have "y \<le> Unhealthy" for y by (cases y) (auto simp: less_eq_health_status_def)
      with True show ?thesis by (auto simp: overall_health_def list_ex_iff)
    next
      case False
      note nu = this
      show ?thesis
      proof (cases "Degraded \<in> set xs")
        case True
        have "y \<le> Degraded" if "y \<noteq> Unhealthy" for y
          using that by (cases y) (auto simp: less_eq_health_status_def)
        then have "\<forall>y \<in> set xs. y \<le> Degraded" using nu by metis
        with nu True show ?thesis by (auto simp: overall_health_def list_ex_iff)
      next
        case False
        with nu c have all: "\<forall>x \<in> set xs. x = Healthy" by metis
        then have "overall_health xs = Healthy" by (auto simp: overall_health_def list_ex_iff)
        with all \<open>xs \<noteq> []\<close> show ?thesis by (cases xs) auto
      qed
    qed
  qed
  then show ?thesis by (auto intro!: Max_eqI [symmetric])
qed

lemma health_checks_absent:
  "distinct (map fst rs) \<Longrightarrow> \<forall>n \<in> set (map fst rs). \<not> jhas checks n \<Longrightarrow>
   health_checks checks rs = checks @ map (\<lambda>(n, r). (n, health_status_of r)) rs"
proof (induction checks rs rule: health_checks.induct)
  case (2 checks name r rs)
  then show ?case by (auto simp: jset_absent [of checks name] jhas_keys)
qed simp

section \<open>Properties\<close>

text \<open>C1: For every interleaving of arriving calls, successes and failures, the circuit breaker's
  counter is the number of failures reported since the last success, and the breaker lets calls
  through without question (CLOSED) exactly while that number is below the threshold.\<close>

theorem breaker_follows_failure_streak:
  assumes "0 < threshold"
  shows "cb_failures (foldl cb_step (circuit_breaker_new threshold reset_ms) es) = failure_streak 0 es
    \<and> (cb_state (foldl cb_step (circuit_breaker_new threshold reset_ms) es) = CLOSED
        \<longleftrightarrow> failure_streak 0 es < threshold)"
proof -
  let ?cb = "foldl cb_step (circuit_breaker_new threshold reset_ms) es"
  have "cb_failures ?cb = failure_streak 0 es"
    by (simp add: cb_run_failures circuit_breaker_new_def)
  moreover have "cb_ok ?cb" by (intro breaker.run_keeps cb_ok_new assms)
  moreover have "cb_failure_threshold ?cb = threshold" by (simp add: circuit_breaker_new_def)
  ultimately show ?thesis by (simp add: cb_ok_def)
qed

theorem breaker_follows_failure_streak_witness:
  "cb_state (foldl cb_step (circuit_breaker_new 2 100) [CallFails 1, CallArrives 2, CallFails 3]) \<noteq> CLOSED"
proof -
  have "(0::int) < 2" by simp
  from breaker_follows_failure_streak [OF this, of 100 "[CallFails 1, CallArrives 2, CallFails 3]"]
  show ?thesis by simp
qed

text \<open>An open breaker refuses every call until the reset time after the last failure has
  passed, without running the callback or changing state; the first call after that is a trial in
  HALF_OPEN, whose failure opens the breaker again from that moment and whose success closes it
  with the counter at zero.\<close>

theorem breaker_open_window:
  assumes "cb_ok cb" and "cb_state cb = OPEN" and "cb_last_failure cb = Some t"
  shows "(now \<le> t + cb_reset_timeout cb \<longrightarrow> cb_execute now now' res cb = (Inl circuit_open_error, cb))
    \<and> (t + cb_reset_timeout cb < now \<longrightarrow>
         cb_step cb (CallArrives now) = cb\<lparr>cb_state := HALF_OPEN\<rparr>
         \<and> (\<forall>e. res = Inl e \<longrightarrow> cb_state (snd (cb_execute now now' res cb)) = OPEN
                \<and> cb_last_failure (snd (cb_execute now now' res cb)) = Some now')
         \<and> (\<forall>v. res = Inr v \<longrightarrow> cb_state (snd (cb_execute now now' res cb)) = CLOSED
                \<and> cb_failures (snd (cb_execute now now' res cb)) = 0))"
  using assms by (auto simp: cb_ok_def cb_execute_def cb_defs)

theorem breaker_open_window_witness:
  "cb_execute 150 160 (Inl (plain_error ''x''))
     (cb_step (circuit_breaker_new 1 100) (CallFails 50)) =
   (Inl circuit_open_error, cb_step (circuit_breaker_new 1 100) (CallFails 50) :: circuit_breaker)"
proof -
  let ?cb = "cb_step (circuit_breaker_new 1 100) (CallFails 50)"
  have "cb_ok ?cb" by (intro inv_intros) simp
  moreover have "cb_state ?cb = OPEN" "cb_last_failure ?cb = Some 50" by (simp_all add: cb_defs)
  moreover have "(150::int) \<le> 50 + cb_reset_timeout ?cb" by (simp add: cb_defs)
  ultimately show ?thesis
    using breaker_open_window [of ?cb 50 150 160 "Inl (plain_error ''x'')"] by blast
qed

text \<open>C6: Whatever calls arrive and whatever running tasks settle, in any order, the bulkhead never
  runs more than its limit, never queues more than its capacity, keeps waiters only while every
  slot is taken, and starts the accepted calls in the order they were accepted.\<close>

theorem bulkhead_limits_and_fifo:
  assumes "0 < mc" and "0 \<le> mq"
  shows "let s = foldl bulkhead_step (bulkhead_system_new mc mq) es in
    int (length (bs_running s)) = bh_active (bs_bulkhead s)
    \<and> bh_active (bs_bulkhead s) \<le> mc
    \<and> int (length (bh_queue (bs_bulkhead s))) \<le> mq
    \<and> (bh_queue (bs_bulkhead s) = [] \<or> bh_active (bs_bulkhead s) = mc)
    \<and> bs_accepted s = bs_started s @ bh_queue (bs_bulkhead s)"
proof -
  let ?s = "foldl bulkhead_step (bulkhead_system_new mc mq) es"
  have "bulkhead_inv ?s" by (intro bulkhead_m.run_keeps bulkhead_inv_new assms)
  moreover have "bh_max_concurrent (bs_bulkhead ?s) = mc \<and> bh_max_queue (bs_bulkhead ?s) = mq"
    by (simp add: bulkhead_run_config bulkhead_system_new_def bulkhead_new_def)
  ultimately show ?thesis by (auto simp: bulkhead_inv_def Let_def)
qed

theorem bulkhead_limits_and_fifo_witness:
  "bh_active (bs_bulkhead (foldl bulkhead_step (bulkhead_system_new 1 1)
     [TaskArrives ''a'', TaskArrives ''b'', TaskArrives ''c''])) \<le> 1"
proof -
  have "(0::int) < 1" "(0::int) \<le> 1" by simp_all
  from bulkhead_limits_and_fifo [OF this, of "[TaskArrives ''a'', TaskArrives ''b'', TaskArrives ''c'']"]
  show ?thesis by (simp add: Let_def)
qed

text \<open>No accepted call is lost: from every state the bulkhead can reach, as many settlements as
  there are waiters, each of some task that is running at that moment, start every accepted
  call.\<close>

theorem bulkhead_drains:
  assumes "bulkhead_inv s"
  shows "\<exists>ts. length ts = length (bh_queue (bs_bulkhead s))
    \<and> bs_started (foldl bulkhead_step s (map TaskSettles ts)) = bs_accepted s
    \<and> bh_queue (bs_bulkhead (foldl bulkhead_step s (map TaskSettles ts))) = []"
  using assms
proof (induction "length (bh_queue (bs_bulkhead s))" arbitrary: s)
  case 0
  then show ?case by (auto simp: bulkhead_inv_def Let_def)
next
  case (Suc n)
  then have "bs_running s \<noteq> []" by (intro bulkhead_busy) auto
  then have t: "hd (bs_running s) \<in> set (bs_running s)" by simp
  let ?s1 = "bulkhead_step s (TaskSettles (hd (bs_running s)))"
  have "n = length (bh_queue (bs_bulkhead ?s1))"
    using bulkhead_settle_drains [OF t] Suc.hyps(2) by simp
  from Suc.hyps(1) [OF this bulkhead_step_inv [OF Suc.prems]] obtain ts where
    "length ts = length (bh_queue (bs_bulkhead ?s1))"
    "bs_started (foldl bulkhead_step ?s1 (map TaskSettles ts)) = bs_accepted s"
    "bh_queue (bs_bulkhead (foldl bulkhead_step ?s1 (map TaskSettles ts))) = []"
    unfolding bulkhead_settle_config by blast
  with \<open>n = _\<close> Suc.hyps(2) show ?case
    by (intro exI [of _ "hd (bs_running s) # ts"]) (simp del: bulkhead_step.simps)
qed

theorem bulkhead_drains_witness:
  "\<exists>ts. length ts = 1 \<and> bs_started (foldl bulkhead_step
     (foldl bulkhead_step (bulkhead_system_new 1 1) [TaskArrives ''a'', TaskArrives ''b''])
     (map TaskSettles ts)) = [''a'', ''b'']"
proof -
  let ?s = "foldl bulkhead_step (bulkhead_system_new 1 1) [TaskArrives ''a'', TaskArrives ''b'']"
  have "bulkhead_inv ?s" by (intro bulkhead_m.run_keeps bulkhead_inv_new) simp_all
  from bulkhead_drains [OF this] show ?thesis
    by (simp add: bulkhead_system_new_def bulkhead_new_def bh_acquire_slot_def) blast
qed

text \<open>Token bucket bound: over any run of requests made with a clock that does not go back, the
  tokens granted never exceed the bucket's capacity plus what the elapsed time refills, and the
  bucket stays between zero and its capacity.\<close>

theorem rate_limiter_bound:
  assumes "rl_ok rl" and "requests_ok (rl_last_refill rl) rs" and "rl_run rl rs = (granted, rl')"
  shows "granted \<le> rl_max_tokens rl + (rl_last_refill rl' - rl_last_refill rl) / 1000 * rl_rate rl
    \<and> 0 \<le> rl_tokens rl' \<and> rl_tokens rl' \<le> rl_max_tokens rl"
  using rl_run_facts [OF assms] assms(1) by (auto simp: rl_ok_def)

theorem rate_limiter_bound_witness:
  "\<exists>granted rl'. rl_run (rate_limiter_new 0 2 1) [(0, 2), (500, 1), (1000, 1)] = (granted, rl')
     \<and> granted \<le> 2 + (rl_last_refill rl' - 0) / 1000 * 1"
proof -
  let ?rl = "rate_limiter_new 0 2 1"
  let ?rs = "[(0, 2), (500, 1), (1000, 1)] :: (rat \<times> rat) list"
  have "rl_ok ?rl" "requests_ok (rl_last_refill ?rl) ?rs"
    by (simp_all add: rl_ok_def rate_limiter_new_def)
  moreover obtain g r where "rl_run ?rl ?rs = (g, r)" by fastforce
  ultimately show ?thesis
    using rate_limiter_bound [of ?rl ?rs g r] by (auto simp: rate_limiter_new_def)
qed

text \<open>Retry: when the first calls fail and the next one, within the allowed attempts, returns,
  the result is that value, after exactly one call per failure and one wait between consecutive
  attempts; when every allowed attempt fails the promise rejects with the last error, with no wait
  after it.\<close>

theorem retry_contract:
  assumes "fails_with fn s es s1"
  shows "(fst (fn s1) = Inr v \<and> int (length es) < rp_max_attempts p \<longrightarrow>
           retry_execute fn p s = (Inr v, delays p (rp_delay p) (length es), snd (fn s1)))
    \<and> (es \<noteq> [] \<and> int (length es) = rp_max_attempts p \<longrightarrow>
           retry_execute fn p s = (Inl (Rethrown (last es)), delays p (rp_delay p) (length es - 1), s1))"
proof (intro conjI impI)
  assume "fst (fn s1) = Inr v \<and> int (length es) < rp_max_attempts p"
  then show "retry_execute fn p s = (Inr v, delays p (rp_delay p) (length es), snd (fn s1))"
    unfolding retry_execute_def by (intro retry_loop_ok [OF assms]) (auto simp: prod_eq_iff)
next
  assume "es \<noteq> [] \<and> int (length es) = rp_max_attempts p"
  then show "retry_execute fn p s = (Inl (Rethrown (last es)), delays p (rp_delay p) (length es - 1), s1)"
    unfolding retry_execute_def by (intro retry_loop_fail [OF assms]) auto
qed

theorem retry_contract_witness:
  "retry_execute (\<lambda>n::nat. (if n < 2 then Inl n else Inr n, Suc n))
     \<lparr>rp_max_attempts = 3, rp_delay = 10, rp_multiplier = Some 2, rp_max_delay = None\<rparr> 0
   = (Inr 2, [10, 20], 3)"
proof -
  let ?fn = "\<lambda>n::nat. (if n < 2 then Inl n else Inr n :: (nat, nat) outcome, Suc n)"
  have "fails_with ?fn 0 [0, 1] 2" by simp
  from retry_contract [OF this, of 2 "\<lparr>rp_max_attempts = 3, rp_delay = 10, rp_multiplier = Some 2, rp_max_delay = None\<rparr>"]
  show ?thesis by (simp add: next_delay_def numeral_2_eq_2)
qed

text \<open>Hedged request with at least one copy: in every state the event loop can reach, the
  promise is rejected only when all copies were launched and none is in flight, it keeps the first
  outcome it got, and as soon as no copy is in flight and no timer is left it is settled.\<close>

theorem hedge_settles_correctly:
  assumes "1 \<le> copies"
  shows "let h = foldl hedge_step (hedge_start copies) es in
    (hd_in_flight h = 0 \<and> hd_timers_pending h = 0 \<longrightarrow> hd_outcome h \<noteq> None)
    \<and> (\<forall>e. hd_outcome h = Some (Inl e) \<longrightarrow> e \<noteq> None \<and> hd_launched h = copies \<and> hd_in_flight h = 0)
    \<and> (\<forall>r fs. hd_outcome h = Some r \<longrightarrow> hd_outcome (foldl hedge_step h fs) = Some r)"
proof -
  have inv: "hedge_inv copies (foldl hedge_step (hedge_start copies) es)"
    by (intro hedge_m.run_keeps hedge_inv_start assms)
  then show ?thesis
    by (auto simp: hedge_inv_def Let_def dest: hedge_run_settled_stays)
qed

theorem hedge_settles_correctly_witness:
  "hd_outcome (foldl hedge_step (hedge_start 2 :: (string, string) hedge)
     [CopyRejects ''a'', TimerFires, CopyRejects ''b'']) \<noteq> None"
proof -
  have "(1::int) \<le> 2" by simp
  from hedge_settles_correctly [OF this, of "[CopyRejects ''a'', TimerFires, CopyRejects ''b'']"]
  show ?thesis by (simp add: Let_def hedge_defs)
qed

text \<open>With zero copies configured the first copy is still launched, but when it rejects the
  promise is never settled, whatever happens afterwards.\<close>

theorem hedge_zero_copies_hangs:
  "hd_outcome (foldl hedge_step (hedge_start 0) (CopyRejects e # es)) = None"
proof -
  let ?h = "hedge_step (hedge_start 0) (CopyRejects e)"
  have "hd_in_flight ?h = 0 \<and> hd_timers_pending ?h = -1 \<and> hd_outcome ?h = None"
    by (simp add: hedge_defs)
  moreover have "hd_outcome (foldl hedge_step h es) = None"
    if "hd_in_flight h = 0 \<and> hd_timers_pending h = -1 \<and> hd_outcome h = None" for h
    using that
  proof (induction es arbitrary: h)
    case (Cons x xs)
    then have "hedge_step h x = h" by (cases x) auto
    with Cons show ?case by simp
  qed simp
  ultimately show ?thesis by (simp del: hedge_step.simps)
qed

text \<open>When the indicators have distinct names the overall health is the worst status among all
  of them (a check that throws counts as unhealthy), in whatever order the checks settle.\<close>

theorem health_is_worst_status:
  assumes "distinct (map fst settled)" and "settled \<noteq> []"
  shows "fst (health_check settled) = Max ((\<lambda>(n, r). health_status_of r) ` set settled)"
proof -
  have "health_checks [] settled = map (\<lambda>(n, r). (n, health_status_of r)) settled"
    using health_checks_absent [OF assms(1), of "[]"] by (simp add: jhas_def)
  then have "jvalues (health_checks [] settled) = map (\<lambda>(n, r). health_status_of r) settled"
    by auto
  then show ?thesis using assms(2) by (simp add: health_check_def Let_def overall_health_Max)
qed

theorem health_is_worst_status_witness:
  "fst (health_check [(''db'', Inl ()), (''cache'', Inr Degraded)]) = Unhealthy"
proof -
  have "distinct (map fst [(''db'', Inl ()), (''cache'', Inr Degraded)])"
    and "[(''db'', Inl ()), (''cache'', Inr Degraded)] \<noteq> []" by simp_all
  from health_is_worst_status [OF this] show ?thesis
    by (simp add: max_def less_eq_health_status_def)
qed

section \<open>Timeouts\<close>

text \<open>
  \<open>Timeout.execute\<close> races the promise of the callback with a timer.  The promise settles at a time
  after the call, with its outcome, or never; when both are due at once, the order of the event loop
  decides, which is an argument.
\<close>

datatype 'a settles = Settles_At int "(js_error, 'a) outcome" | Never_Settles

definition timeout_error :: "int \<Rightarrow> js_error" where
  "timeout_error ms = JsError ''TimeoutError'' (''Operation timed out after '' @ show_int ms @ ''ms'')"

definition timeout_execute :: "bool \<Rightarrow> int \<Rightarrow> 'a settles \<Rightarrow> (js_error, 'a) outcome \<times> int" where
  "timeout_execute callback_first ms s =
     (case s of
        Never_Settles \<Rightarrow> (Inl (timeout_error ms), ms)
      | Settles_At t r \<Rightarrow>
          if t < ms \<or> t = ms \<and> callback_first then (r, t) else (Inl (timeout_error ms), ms))"

text \<open>
  The call always settles, no later than the timeout; with the callback's outcome when it comes
  before it, and with a \<open>TimeoutError\<close>, whatever the callback does later, when it does not.
\<close>

theorem timeout_bounds:
  "snd (timeout_execute first ms s) \<le> ms
   \<and> (t < ms \<longrightarrow> timeout_execute first ms (Settles_At t r) = (r, t))
   \<and> (ms < t \<longrightarrow> timeout_execute first ms (Settles_At t r) = timeout_execute first ms Never_Settles)
   \<and> fst (timeout_execute first ms Never_Settles) = Inl (timeout_error ms)"
  by (auto simp: timeout_execute_def split: settles.split)

theorem timeout_bounds_witness:
  "timeout_execute True 100 (Settles_At 250 (Inr (1 :: int))) = timeout_execute True 100 Never_Settles"
  using timeout_bounds [where first = True and ms = 100 and t = 250 and r = "Inr (1 :: int)"
      and s = "Never_Settles :: int settles"] by (simp add: timeout_execute_def)

end
