(* ===== verification/Cron.thy ===== *)
theory Cron
  imports Prelude
begin

text \<open>
  Cron expressions (\<open>packages/scheduler/src/CronParser.ts\<close>).  A field is the list of its values in
  the order the code's set has them.  \<open>expandRange\<close> is a loop that would not end for a step that is
  not positive, so it is a partial function, \<open>None\<close> meaning that it does not return.
\<close>

section \<open>Library functions the parser calls\<close>

definition is_digit :: "char \<Rightarrow> bool" where
  "is_digit c = (let n = (of_char c :: nat) in 48 \<le> n \<and> n \<le> 57)"

text \<open>\<open>parseInt(s, 10)\<close>: leading white space, a sign, the longest run of digits; otherwise \<open>NaN\<close>.\<close>

definition unsigned_prefix :: "string \<Rightarrow> int option" where
  "unsigned_prefix s =
     (let ds = takeWhile is_digit s in if ds = [] then None else Some (int (digits_value ds)))"

definition js_parse_int :: "string \<Rightarrow> int option" where
  "js_parse_int s =
     (case dropWhile is_js_space s of
        [] \<Rightarrow> None
      | c # cs \<Rightarrow>
          if c = CHR ''-'' then map_option uminus (unsigned_prefix cs)
          else if c = CHR ''+'' then unsigned_prefix cs
          else unsigned_prefix (c # cs))"

text \<open>\<open>s.split(/\s+/)\<close>.\<close>

function split_spaces :: "string \<Rightarrow> string list" where
  "split_spaces s =
     (let word = takeWhile (\<lambda>c. \<not> is_js_space c) s; rest = dropWhile (\<lambda>c. \<not> is_js_space c) s
      in if rest = [] then [word] else word # split_spaces (dropWhile is_js_space rest))"
  by auto
termination
proof (relation "measure length")
  fix s word rest :: string
  assume rest: "rest = dropWhile (\<lambda>c. \<not> is_js_space c) s" "rest \<noteq> []"
  then obtain c cs where c: "rest = c # cs" "is_js_space c"
    by (metis (no_types, lifting) hd_dropWhile_fails list.exhaust list.sel(1))
  have "length rest \<le> length s"
    by (simp add: rest(1) length_dropWhile_le)
  with c show "(dropWhile is_js_space rest, s) \<in> measure length"
    using length_dropWhile_le [of is_js_space cs] by simp
qed simp

declare split_spaces.simps [simp del]

section \<open>Parsing\<close>

record cron_fields =
  cf_minutes :: "int list"
  cf_hours :: "int list"
  cf_month_days :: "int list"
  cf_months :: "int list"
  cf_week_days :: "int list"

definition invalid_cron :: "string \<Rightarrow> string \<Rightarrow> js_error" where
  "invalid_cron expression reason =
     JsError ''InvalidCronExpressionError'' (''Invalid cron expression \"'' @ expression @ ''\": '' @ reason)"

partial_function (option) expand_range :: "int \<Rightarrow> int \<Rightarrow> int \<Rightarrow> int list option" where
  "expand_range i max_value step =
     (if i \<le> max_value
      then Option.bind (expand_range (i + step) max_value step) (\<lambda>xs. Some (i # xs))
      else Some [])"

definition parse_single :: "string \<Rightarrow> int \<Rightarrow> int \<Rightarrow> string \<Rightarrow> (js_error, int) outcome" where
  "parse_single raw lo hi expr =
     (let bad = Inl (invalid_cron expr
            (''value \"'' @ raw @ ''\" out of range ['' @ show_int lo @ ''-'' @ show_int hi @ '']''))
      in case js_parse_int (js_trim raw) of
           None \<Rightarrow> bad
         | Some n \<Rightarrow> if n < lo \<or> n > hi then bad else Inr n)"

text \<open>The loop over the comma-separated parts; adding a value to the set again changes nothing.\<close>

fun parse_parts :: "string list \<Rightarrow> int list \<Rightarrow> int \<Rightarrow> int \<Rightarrow> string \<Rightarrow> (js_error, int list) outcome" where
  "parse_parts [] acc lo hi expr = Inr acc"
| "parse_parts (p # ps) acc lo hi expr =
     (case parse_single p lo hi expr of
        Inl e \<Rightarrow> Inl e
      | Inr n \<Rightarrow> parse_parts ps (if n \<in> set acc then acc else acc @ [n]) lo hi expr)"

definition parse_range :: "string \<Rightarrow> int \<Rightarrow> int \<Rightarrow> string \<Rightarrow> (js_error, int list) outcome option" where
  "parse_range field lo hi expr =
     (case js_split CHR ''-'' field of
        a # b # _ \<Rightarrow>
          (case parse_single a lo hi expr of
             Inl e \<Rightarrow> Some (Inl e)
           | Inr low \<Rightarrow>
               (case parse_single b lo hi expr of
                  Inl e \<Rightarrow> Some (Inl e)
                | Inr high \<Rightarrow>
                    if low > high
                    then Some (Inl (invalid_cron expr
                           (''range start '' @ show_int low @ '' > end '' @ show_int high)))
                    else map_option Inr (expand_range low high 1)))
      | _ \<Rightarrow> Some (Inl (invalid_cron expr (''invalid range \"'' @ field @ ''\"''))))"

definition parse_field :: "string \<Rightarrow> int \<Rightarrow> int \<Rightarrow> string \<Rightarrow> (js_error, int list) outcome option" where
  "parse_field field lo hi expr =
     (if field = ''*'' then map_option Inr (expand_range lo hi 1)
      else if prefix ''*/'' field
      then (case js_parse_int (drop 2 field) of
              None \<Rightarrow> Some (Inl (invalid_cron expr (''invalid step in \"'' @ field @ ''\"'')))
            | Some step \<Rightarrow>
                if step \<le> 0 then Some (Inl (invalid_cron expr (''invalid step in \"'' @ field @ ''\"'')))
                else map_option Inr (expand_range lo hi step))
      else if CHR ''-'' \<in> set field then parse_range field lo hi expr
      else Some (parse_parts (js_split CHR '','' field) [] lo hi expr))"

definition and_then ::
  "(js_error, 'a) outcome option \<Rightarrow> ('a \<Rightarrow> (js_error, 'b) outcome option) \<Rightarrow> (js_error, 'b) outcome option" where
  "and_then m k = (case m of None \<Rightarrow> None | Some (Inl e) \<Rightarrow> Some (Inl e) | Some (Inr x) \<Rightarrow> k x)"

definition parse_cron :: "string \<Rightarrow> (js_error, cron_fields) outcome option" where
  "parse_cron expression =
     (case split_spaces (js_trim expression) of
        [min_f, hr_f, dom_f, mon_f, wd_f] \<Rightarrow>
          and_then (parse_field min_f 0 59 expression) (\<lambda>mins.
          and_then (parse_field hr_f 0 23 expression) (\<lambda>hrs.
          and_then (parse_field dom_f 1 31 expression) (\<lambda>doms.
          and_then (parse_field mon_f 1 12 expression) (\<lambda>mons.
          and_then (parse_field wd_f 0 6 expression) (\<lambda>wds.
            Some (Inr \<lparr>cf_minutes = mins, cf_hours = hrs, cf_month_days = doms, cf_months = mons,
                       cf_week_days = wds\<rparr>))))))
      | parts \<Rightarrow> Some (Inl (invalid_cron expression
          (''expected 5 fields, got '' @ show_int (int (length parts))))))"

text \<open>The calendar fields \<open>matchesCron\<close> reads off a date; \<open>getMonth\<close> counts from 0.\<close>

record js_date =
  jd_minutes :: int
  jd_hours :: int
  jd_date :: int
  jd_month :: int
  jd_day :: int

definition matches_cron :: "cron_fields \<Rightarrow> js_date \<Rightarrow> bool" where
  "matches_cron f d \<longleftrightarrow>
     jd_minutes d \<in> set (cf_minutes f) \<and> jd_hours d \<in> set (cf_hours f) \<and>
     jd_date d \<in> set (cf_month_days f) \<and> jd_month d + 1 \<in> set (cf_months f) \<and>
     jd_day d \<in> set (cf_week_days f)"

section \<open>Ranges\<close>

lemma expand_range_total:
  assumes "0 < step"
  shows "\<exists>xs. expand_range i max_value step = Some xs
    \<and> set xs = {n. \<exists>k. n = i + int k * step \<and> n \<le> max_value} \<and> distinct xs"
proof (induction "nat (max_value + 1 - i)" arbitrary: i rule: less_induct)
  case less
  show ?case
  proof (cases "i \<le> max_value")
    case False
    have le: "i \<le> i + int k * step" for k using assms by simp
    have "\<not> i + int k * step \<le> max_value" for k using le [of k] False by linarith
    then have "{n. \<exists>k. n = i + int k * step \<and> n \<le> max_value} = {}" by blast
    with False show ?thesis by (simp add: expand_range.simps [of i])
  next
    case True
    then have "nat (max_value + 1 - (i + step)) < nat (max_value + 1 - i)" using assms by simp
    from less [OF this] obtain xs where xs: "expand_range (i + step) max_value step = Some xs"
      "set xs = {n. \<exists>k. n = i + step + int k * step \<and> n \<le> max_value}" "distinct xs"
      by auto
    have "{n. \<exists>k. n = i + int k * step \<and> n \<le> max_value} = insert i (set xs)"
    proof (intro set_eqI iffI)
      fix n assume "n \<in> {n. \<exists>k. n = i + int k * step \<and> n \<le> max_value}"
      then obtain k where k: "n = i + int k * step" "n \<le> max_value" by auto
      then show "n \<in> insert i (set xs)"
        by (cases k) (auto simp: xs(2) algebra_simps)
    next
      fix n assume "n \<in> insert i (set xs)"
      then consider "n = i" | k where "n = i + step + int k * step" "n \<le> max_value"
        by (auto simp: xs(2))
      then show "n \<in> {n. \<exists>k. n = i + int k * step \<and> n \<le> max_value}"
      proof cases
        case 1
        with True show ?thesis by (auto intro: exI [of _ 0])
      next
        case (2 k)
        then show ?thesis by (auto intro!: exI [of _ "Suc k"] simp: algebra_simps)
      qed
    qed
    moreover have "i \<notin> set xs" using assms by (auto simp: xs(2)) (metis add.commute add_pos_nonneg less_irrefl mult_nonneg_nonneg of_nat_0_le_iff order_less_imp_le add_cancel_left_right add.assoc)
    ultimately show ?thesis using True xs by (auto simp: expand_range.simps [of i])
  qed
qed

lemma expand_range_one: "\<exists>xs. expand_range lo hi 1 = Some xs \<and> set xs = {lo..hi}"
proof -
  have "{n. \<exists>k. n = lo + int k * 1 \<and> n \<le> hi} = {lo..hi}"
  proof (intro set_eqI iffI)
    fix n assume "n \<in> {lo..hi}"
    then have "n = lo + int (nat (n - lo)) * 1 \<and> n \<le> hi" by simp
    then show "n \<in> {n. \<exists>k. n = lo + int k * 1 \<and> n \<le> hi}" by blast
  qed auto
  with expand_range_total [of 1 lo hi] show ?thesis by auto
qed

text \<open>Every branch of the parser returns.\<close>

lemma parse_single_range: "parse_single raw lo hi expr = Inr n \<Longrightarrow> lo \<le> n \<and> n \<le> hi"
  by (auto simp: parse_single_def Let_def split: option.splits if_splits)

lemma parse_parts_range:
  "parse_parts ps acc lo hi expr = Inr xs \<Longrightarrow> set acc \<subseteq> {lo..hi} \<Longrightarrow>
   set xs \<subseteq> {lo..hi} \<and> set acc \<subseteq> set xs \<and> (ps \<noteq> [] \<longrightarrow> xs \<noteq> [])"
proof (induction ps arbitrary: acc)
  case (Cons p ps)
  then obtain n where n: "parse_single p lo hi expr = Inr n" by (cases "parse_single p lo hi expr") auto
  with Cons.prems have "parse_parts ps (if n \<in> set acc then acc else acc @ [n]) lo hi expr = Inr xs" by simp
  from Cons.IH [OF this] Cons.prems(2) parse_single_range [OF n] show ?case
    by (cases "n \<in> set acc") auto
qed simp

lemma parse_range_total:
  "\<exists>r. parse_range field lo hi expr = Some r \<and> (case r of Inl e \<Rightarrow> True | Inr xs \<Rightarrow> xs \<noteq> [] \<and> set xs \<subseteq> {lo..hi})"
proof (cases "\<exists>a b rest low high. js_split CHR ''-'' field = a # b # rest
    \<and> parse_single a lo hi expr = Inr low \<and> parse_single b lo hi expr = Inr high \<and> low \<le> high")
  case True
  then obtain a b rest low high where h: "js_split CHR ''-'' field = a # b # rest"
    "parse_single a lo hi expr = Inr low" "parse_single b lo hi expr = Inr high" "low \<le> high" by blast
  obtain xs where "expand_range low high 1 = Some xs" "set xs = {low..high}"
    using expand_range_one by blast
  with h parse_single_range [OF h(2)] parse_single_range [OF h(3)] show ?thesis
    by (auto simp: parse_range_def)
next
  case False
  then show ?thesis by (auto simp: parse_range_def split: list.splits sum.splits if_splits)
qed

lemma parse_field_total:
  assumes "lo \<le> hi"
  shows "\<exists>r. parse_field field lo hi expr = Some r
    \<and> (case r of Inl e \<Rightarrow> True | Inr xs \<Rightarrow> xs \<noteq> [] \<and> set xs \<subseteq> {lo..hi})"
proof -
  have range: "\<exists>xs. expand_range lo hi step = Some xs \<and> xs \<noteq> [] \<and> set xs \<subseteq> {lo..hi}" if step: "0 < step" for step
  proof -
    obtain xs where xs: "expand_range lo hi step = Some xs"
      "set xs = {n. \<exists>k. n = lo + int k * step \<and> n \<le> hi}" using expand_range_total [OF step] by blast
    have "lo \<in> set xs" unfolding xs(2) using assms by (auto intro: exI [of _ 0])
    then have "xs \<noteq> []" by auto
    have "lo \<le> lo + int k * step" for k using step by simp
    then have "set xs \<subseteq> {lo..hi}" unfolding xs(2) by auto
    with xs(1) \<open>xs \<noteq> []\<close> show ?thesis by blast
  qed
  consider "field = ''*''" | "field \<noteq> ''*''" "prefix ''*/'' field" | "\<not> prefix ''*/'' field" "field \<noteq> ''*''" "CHR ''-'' \<in> set field"
    | "\<not> prefix ''*/'' field" "field \<noteq> ''*''" "CHR ''-'' \<notin> set field" by blast
  then show ?thesis
  proof cases
    case 1
    with range [of 1] show ?thesis by (auto simp: parse_field_def)
  next
    case 2
    show ?thesis
    proof (cases "\<exists>step. js_parse_int (drop 2 field) = Some step \<and> 0 < step")
      case True
      then obtain step where "js_parse_int (drop 2 field) = Some step" "0 < step" by blast
      with 2 range [of step] show ?thesis by (auto simp: parse_field_def)
    next
      case False
      with 2 show ?thesis by (auto simp: parse_field_def split: option.splits)
    qed
  next
    case 3
    with parse_range_total show ?thesis by (simp add: parse_field_def)
  next
    case 4
    with parse_parts_range [of "js_split CHR '','' field" "[]" lo hi expr] show ?thesis
      by (cases "parse_parts (js_split CHR '','' field) [] lo hi expr") (auto simp: parse_field_def)
  qed
qed

section \<open>Written fields\<close>

text \<open>The forms the documentation lists, how they are written and the values they denote.\<close>

datatype field_form = Every | EveryNth nat | Between nat nat | Values "nat list"

fun join_comma :: "string list \<Rightarrow> string" where
  "join_comma [] = []"
| "join_comma [s] = s"
| "join_comma (s # ss) = s @ '','' @ join_comma ss"

fun write_form :: "field_form \<Rightarrow> string" where
  "write_form Every = ''*''"
| "write_form (EveryNth n) = ''*/'' @ nat_digits n"
| "write_form (Between a b) = nat_digits a @ ''-'' @ nat_digits b"
| "write_form (Values ns) = join_comma (map nat_digits ns)"

fun form_values :: "int \<Rightarrow> int \<Rightarrow> field_form \<Rightarrow> int set" where
  "form_values lo hi Every = {lo..hi}"
| "form_values lo hi (EveryNth n) = {v. \<exists>k. v = lo + int k * int n \<and> v \<le> hi}"
| "form_values lo hi (Between a b) = {int a..int b}"
| "form_values lo hi (Values ns) = int ` set ns"

fun form_ok :: "int \<Rightarrow> int \<Rightarrow> field_form \<Rightarrow> bool" where
  "form_ok lo hi Every \<longleftrightarrow> True"
| "form_ok lo hi (EveryNth n) \<longleftrightarrow> 0 < n"
| "form_ok lo hi (Between a b) \<longleftrightarrow> lo \<le> int a \<and> a \<le> b \<and> int b \<le> hi"
| "form_ok lo hi (Values ns) \<longleftrightarrow> ns \<noteq> [] \<and> (\<forall>n \<in> set ns. lo \<le> int n \<and> int n \<le> hi)"

lemma digit_char_code: "d < 10 \<Longrightarrow> (of_char (digit_char d) :: nat) = 48 + d"
  by (simp add: digit_char_def take_bit_eq_mod)

lemma is_digit_digit_char: "d < 10 \<Longrightarrow> is_digit (digit_char d)"
  by (simp add: is_digit_def digit_char_code Let_def)

lemma nat_digits_are_digits: "c \<in> set (nat_digits n) \<Longrightarrow> is_digit c"
proof (induction n rule: nat_digits.induct)
  case (1 n)
  then show ?case by (cases "n < 10") (auto simp: nat_digits_small nat_digits_big is_digit_digit_char)
qed

lemma digits_value_snoc: "digits_value (ds @ [c]) = 10 * digits_value ds + (of_char c - 48)"
  by (simp add: digits_value_def)

lemma not_digits: "\<not> is_digit CHR ''-''" "\<not> is_digit CHR ''+''" "\<not> is_digit CHR '',''" "\<not> is_digit CHR ''*''"
  by (simp_all add: is_digit_def)

lemma digit_not_space: "is_digit c \<Longrightarrow> \<not> is_js_space c"
  by (simp add: is_digit_def is_js_space_def Let_def)

lemma unsigned_prefix_digits:
  assumes "rest = [] \<or> \<not> is_digit (hd rest)"
  shows "unsigned_prefix (nat_digits n @ rest) = Some (int n)"
proof -
  have "takeWhile is_digit rest = []" using assms by (cases rest) auto
  moreover have "takeWhile is_digit (nat_digits n @ rest) = nat_digits n @ takeWhile is_digit rest"
    by (rule takeWhile_append2) (rule nat_digits_are_digits)
  ultimately show ?thesis by (simp add: unsigned_prefix_def Let_def)
qed

lemma parse_int_digits:
  assumes "rest = [] \<or> \<not> is_digit (hd rest)"
  shows "js_parse_int (nat_digits n @ rest) = Some (int n)"
proof -
  obtain c cs where c: "nat_digits n = c # cs" by (cases "nat_digits n") auto
  then have "is_digit c" using nat_digits_are_digits [of c n] by simp
  then have "\<not> is_js_space c" "c \<noteq> CHR ''-''" "c \<noteq> CHR ''+''"
    using not_digits by (auto dest: digit_not_space)
  with unsigned_prefix_digits [OF assms, of n] c show ?thesis by (simp add: js_parse_int_def)
qed

lemma js_trim_no_space: "\<forall>c \<in> set s. \<not> is_js_space c \<Longrightarrow> js_trim s = s"
proof -
  assume a: "\<forall>c \<in> set s. \<not> is_js_space c"
  then have "dropWhile is_js_space s = s" "dropWhile is_js_space (rev s) = rev s"
    by (cases s; simp) (cases "rev s"; simp add: a; metis list.set_intros(1) set_rev)
  then show ?thesis by (simp add: js_trim_def)
qed

lemma parse_single_digits:
  assumes "lo \<le> int n" "int n \<le> hi" "rest = [] \<or> \<not> is_digit (hd rest)" "\<forall>c \<in> set rest. \<not> is_js_space c"
  shows "parse_single (nat_digits n @ rest) lo hi expr = Inr (int n)"
proof -
  have "js_trim (nat_digits n @ rest) = nat_digits n @ rest"
    using assms(4) by (intro js_trim_no_space) (auto dest: nat_digits_are_digits digit_not_space)
  with assms parse_int_digits [OF assms(3)] show ?thesis by (simp add: parse_single_def Let_def)
qed

lemma nat_digits_plain [simp]: "CHR ''-'' \<notin> set (nat_digits n)" "CHR '','' \<notin> set (nat_digits n)" "CHR ''*'' \<notin> set (nat_digits n)"
  using nat_digits_are_digits not_digits by blast+

lemma js_split_join:
  "ns \<noteq> [] \<Longrightarrow> js_split CHR '','' (join_comma (map nat_digits ns)) = map nat_digits ns"
proof (induction ns)
  case (Cons n ns)
  then show ?case by (cases ns) (simp_all add: js_split_absent js_split_at)
qed simp

lemma set_join_comma: "set (join_comma ss) \<subseteq> \<Union> (set ` set ss) \<union> {CHR '',''}"
  by (induction ss rule: join_comma.induct) auto

lemma join_comma_no_dash: "CHR ''-'' \<notin> set (join_comma (map nat_digits ns))"
  using set_join_comma [of "map nat_digits ns"] by auto

lemma not_star: "hd s \<noteq> CHR ''*'' \<Longrightarrow> s \<noteq> [] \<Longrightarrow> s \<noteq> ''*'' \<and> \<not> prefix ''*/'' s"
  by (cases s) auto

lemma hd_nat_digits [simp]: "hd (nat_digits n) \<noteq> CHR ''*''"
  using nat_digits_plain(3) nat_digits_nonempty by (metis list.set_sel(1))

lemma parse_parts_digits:
  "\<forall>n \<in> set ns. lo \<le> int n \<and> int n \<le> hi \<Longrightarrow>
   \<exists>xs. parse_parts (map nat_digits ns) acc lo hi expr = Inr xs \<and> set xs = set acc \<union> int ` set ns"
proof (induction ns arbitrary: acc)
  case (Cons n ns)
  have "parse_single (nat_digits n) lo hi expr = Inr (int n)"
    using Cons.prems parse_single_digits [of lo n hi "[]"] by simp
  then show ?case
    using Cons.IH [of "if int n \<in> set acc then acc else acc @ [int n]"] Cons.prems by auto
qed simp

lemma parse_between:
  assumes "lo \<le> int a" "a \<le> b" "int b \<le> hi" "rest = [] \<or> \<not> is_digit (hd rest)"
    "\<forall>c \<in> set rest. \<not> is_js_space c" "CHR ''-'' \<notin> set rest"
  shows "parse_field (nat_digits a @ ''-'' @ nat_digits b @ rest) lo hi expr
    = map_option Inr (expand_range (int a) (int b) 1)"
proof -
  let ?f = "nat_digits a @ ''-'' @ nat_digits b @ rest"
  have "?f \<noteq> ''*'' \<and> \<not> prefix ''*/'' ?f" by (rule not_star) simp_all
  moreover have "js_split CHR ''-'' ?f = [nat_digits a, nat_digits b @ rest]"
    using assms(6) js_split_absent [of "CHR ''-''" "nat_digits b @ rest"] by (simp add: js_split_at)
  ultimately show ?thesis
    using assms parse_single_digits [of lo a hi "[]" expr] parse_single_digits [of lo b hi rest expr]
    by (simp add: parse_field_def parse_range_def)
qed

section \<open>Properties\<close>

lemma written_digits: "nat_digits 1 = ''1''" "nat_digits (Suc 0) = ''1''" "nat_digits 5 = ''5''"
  by code_simp+

text \<open>C17: Parsing a cron expression always returns, and a parsed expression has in every field at
  least one value and only values of the field's range.\<close>

theorem parse_cron_total_and_in_range:
  "\<exists>r. parse_cron expression = Some r \<and>
    (case r of Inl e \<Rightarrow> True
     | Inr f \<Rightarrow> cf_minutes f \<noteq> [] \<and> set (cf_minutes f) \<subseteq> {0..59}
         \<and> cf_hours f \<noteq> [] \<and> set (cf_hours f) \<subseteq> {0..23}
         \<and> cf_month_days f \<noteq> [] \<and> set (cf_month_days f) \<subseteq> {1..31}
         \<and> cf_months f \<noteq> [] \<and> set (cf_months f) \<subseteq> {1..12}
         \<and> cf_week_days f \<noteq> [] \<and> set (cf_week_days f) \<subseteq> {0..6})"
proof (cases "\<exists>a b c d e. split_spaces (js_trim expression) = [a, b, c, d, e]")
  case True
  then obtain a b c d e where parts: "split_spaces (js_trim expression) = [a, b, c, d, e]" by blast
  obtain ra rb rc rd re where
    "parse_field a 0 59 expression = Some ra" "case ra of Inl e \<Rightarrow> True | Inr xs \<Rightarrow> xs \<noteq> [] \<and> set xs \<subseteq> {0..59}"
    "parse_field b 0 23 expression = Some rb" "case rb of Inl e \<Rightarrow> True | Inr xs \<Rightarrow> xs \<noteq> [] \<and> set xs \<subseteq> {0..23}"
    "parse_field c 1 31 expression = Some rc" "case rc of Inl e \<Rightarrow> True | Inr xs \<Rightarrow> xs \<noteq> [] \<and> set xs \<subseteq> {1..31}"
    "parse_field d 1 12 expression = Some rd" "case rd of Inl e \<Rightarrow> True | Inr xs \<Rightarrow> xs \<noteq> [] \<and> set xs \<subseteq> {1..12}"
    "parse_field e 0 6 expression = Some re" "case re of Inl e \<Rightarrow> True | Inr xs \<Rightarrow> xs \<noteq> [] \<and> set xs \<subseteq> {0..6}"
    using parse_field_total [of 0 59 a expression] parse_field_total [of 0 23 b expression]
      parse_field_total [of 1 31 c expression] parse_field_total [of 1 12 d expression]
      parse_field_total [of 0 6 e expression] by auto
  then show ?thesis
    by (cases ra; cases rb; cases rc; cases rd; cases re) (simp_all add: parse_cron_def parts and_then_def)
next
  case False
  then show ?thesis by (auto simp: parse_cron_def split: list.splits)
qed

text \<open>C16: A field written in one of the documented forms (star, star with a step, a range, a list of
  values), with its numbers in the field's range, is parsed to exactly the values it denotes.\<close>

theorem parse_field_round_trip:
  assumes "form_ok lo hi form"
  shows "\<exists>xs. parse_field (write_form form) lo hi expr = Some (Inr xs) \<and> set xs = form_values lo hi form"
proof (cases form)
  case Every
  with expand_range_one [of lo hi] show ?thesis by (auto simp: parse_field_def)
next
  case (EveryNth n)
  with assms parse_int_digits [of "[]" n] expand_range_total [of "int n" lo hi] show ?thesis
    by (auto simp: parse_field_def)
next
  case (Between a b)
  with assms parse_between [of lo a b hi "[]" expr] expand_range_one [of "int a" "int b"] show ?thesis by auto
next
  case (Values ns)
  with assms have ns: "ns \<noteq> []" by simp
  then have "hd (join_comma (map nat_digits ns)) \<noteq> CHR ''*'' \<and> join_comma (map nat_digits ns) \<noteq> []"
    by (cases "map nat_digits ns" rule: join_comma.cases) auto
  with not_star have "write_form form \<noteq> ''*'' \<and> \<not> prefix ''*/'' (write_form form)" using Values by simp
  with Values assms ns parse_parts_digits [of ns lo hi "[]" expr] show ?thesis
    by (auto simp: parse_field_def join_comma_no_dash js_split_join)
qed

theorem parse_field_round_trip_witness:
  "\<exists>xs. parse_field ''1-5'' 0 6 ''* * * * 1-5'' = Some (Inr xs) \<and> set xs = {1..5}"
  using parse_field_round_trip [of 0 6 "Between 1 5" "''* * * * 1-5''"]
  by (simp add: written_digits)

text \<open>A list whose first element is a range is cut off: whatever follows the comma (another
  value, or any text without a dash or white space) is silently dropped, and so is a step after a range.\<close>

theorem parse_field_drops_list_after_range:
  assumes "lo \<le> int a" "a \<le> b" "int b \<le> hi"
    and "sep = CHR '','' \<or> sep = CHR ''/''" "\<forall>c \<in> set rest. \<not> is_js_space c \<and> c \<noteq> CHR ''-''"
  shows "parse_field (nat_digits a @ ''-'' @ nat_digits b @ sep # rest) lo hi expr
    = parse_field (nat_digits a @ ''-'' @ nat_digits b) lo hi expr"
proof -
  have "\<not> is_digit sep" "\<not> is_js_space sep" "sep \<noteq> CHR ''-''"
    using assms(4) by (auto simp: is_digit_def is_js_space_def)
  with assms parse_between [of lo a b hi "sep # rest" expr] parse_between [of lo a b hi "[]" expr]
  show ?thesis by auto
qed

theorem parse_field_drops_list_after_range_witness:
  "parse_field ''1-5,30'' 0 59 e = parse_field ''1-5'' 0 59 e"
  using parse_field_drops_list_after_range [of 0 1 5 59 "CHR '',''" "''30''" e]
  by (simp add: written_digits is_js_space_def)

end
