(* ===== verification/Scheduler.thy ===== *)
theory Scheduler
  imports Cron
begin

text \<open>
  The job scheduler (\<open>packages/scheduler/src\<close>): registry, per-job concurrency limiters, executions
  with retries, records, history and statistics, and the interval runner.  \<open>trigger\<close> is split at its
  await: the part before it is \<open>Trigger\<close>, the continuation \<open>run\<close> is kept in \<open>sc_running\<close> until the
  job settles, and \<open>finalize\<close> is \<open>Settle\<close>.  Limiters are objects on a heap, because a running
  execution keeps the limiter it acquired when the job is registered anew.
\<close>

section \<open>Jobs\<close>

datatype job_status = Idle | Running | Succeeded | Failed | Cancelled

datatype job_schedule =
    IntervalSchedule int "bool option"
  | CronSchedule string
  | OnceSchedule int

record 'm job_context =
  jc_job_id :: string
  jc_execution_id :: string
  jc_scheduled_at :: int
  jc_attempt :: int
  jc_metadata :: 'm

record ('m, 'w) job =
  job_name :: string
  job_execute :: "'m job_context \<Rightarrow> 'w \<Rightarrow> (js_error, unit) outcome \<times> 'w"

record job_record =
  jrec_job_id :: string
  jrec_job_name :: string
  jrec_execution_id :: string
  jrec_status :: job_status
  jrec_scheduled_at :: int
  jrec_started_at :: "int option"
  jrec_completed_at :: "int option"
  jrec_failure_reason :: "string option"
  jrec_attempt :: int

record ('m, 'w) job_registration =
  jreg_id :: string
  jreg_job :: "('m, 'w) job"
  jreg_schedule :: job_schedule
  jreg_max_concurrency :: "int option"
  jreg_max_retries :: "int option"
  jreg_backoff :: "int option"

definition job_not_found :: "string \<Rightarrow> js_error" where
  "job_not_found i = JsError ''JobNotFoundError'' (''Job \"'' @ i @ ''\" is not registered'')"

definition job_already_registered :: "string \<Rightarrow> js_error" where
  "job_already_registered i =
     JsError ''JobAlreadyRegisteredError'' (''Job \"'' @ i @ ''\" is already registered'')"

definition job_concurrency_limit :: "string \<Rightarrow> int \<Rightarrow> js_error" where
  "job_concurrency_limit i n =
     JsError ''JobConcurrencyLimitError''
       (''Job \"'' @ i @ ''\" exceeded max concurrency of '' @ show_int n)"

section \<open>The registry\<close>

type_synonym ('m, 'w) job_registry = "(string, ('m, 'w) job_registration) jsmap"

definition registry_register ::
  "('m, 'w) job_registration \<Rightarrow> ('m, 'w) job_registry \<Rightarrow> (js_error, ('m, 'w) job_registry) outcome" where
  "registry_register reg m =
     (if jhas m (jreg_id reg) then Inl (job_already_registered (jreg_id reg))
      else Inr (jset (jreg_id reg) reg m))"

definition registry_unregister ::
  "string \<Rightarrow> ('m, 'w) job_registry \<Rightarrow> (js_error, ('m, 'w) job_registry) outcome" where
  "registry_unregister i m = (if \<not> jhas m i then Inl (job_not_found i) else Inr (jdelete i m))"

definition registry_get :: "('m, 'w) job_registry \<Rightarrow> string \<Rightarrow> ('m, 'w) job_registration option" where
  "registry_get m i = jget m i"

definition registry_get_all :: "('m, 'w) job_registry \<Rightarrow> ('m, 'w) job_registration list" where
  "registry_get_all m = jvalues m"

definition registry_has :: "('m, 'w) job_registry \<Rightarrow> string \<Rightarrow> bool" where
  "registry_has m i = jhas m i"

section \<open>The concurrency limiter\<close>

record concurrency_limiter =
  lim_max :: int
  lim_counts :: "(string, int) jsmap"

definition limiter_new :: "int \<Rightarrow> concurrency_limiter" where
  "limiter_new n = \<lparr>lim_max = n, lim_counts = []\<rparr>"

definition limiter_get_count :: "concurrency_limiter \<Rightarrow> string \<Rightarrow> int" where
  "limiter_get_count l key = (case jget (lim_counts l) key of Some n \<Rightarrow> n | None \<Rightarrow> 0)"

definition limiter_is_allowed :: "concurrency_limiter \<Rightarrow> string \<Rightarrow> bool" where
  "limiter_is_allowed l key = (limiter_get_count l key < lim_max l)"

definition limiter_acquire :: "string \<Rightarrow> concurrency_limiter \<Rightarrow> concurrency_limiter" where
  "limiter_acquire key l = l\<lparr>lim_counts := jset key (limiter_get_count l key + 1) (lim_counts l)\<rparr>"

definition limiter_release :: "string \<Rightarrow> concurrency_limiter \<Rightarrow> concurrency_limiter" where
  "limiter_release key l =
     (let current = limiter_get_count l key
      in if current > 0 then l\<lparr>lim_counts := jset key (current - 1) (lim_counts l)\<rparr> else l)"

definition limiter_reset :: "concurrency_limiter \<Rightarrow> concurrency_limiter" where
  "limiter_reset l = l\<lparr>lim_counts := []\<rparr>"

lemma limiter_counts [simp]:
  "limiter_get_count (limiter_new n) key = 0"
  "limiter_get_count (limiter_acquire key l) key' =
     (if key' = key then limiter_get_count l key + 1 else limiter_get_count l key')"
  "limiter_get_count (limiter_release key l) key' =
     (if key' = key \<and> 0 < limiter_get_count l key then limiter_get_count l key - 1
      else limiter_get_count l key')"
  "lim_max (limiter_new n) = n" "lim_max (limiter_acquire key l) = lim_max l"
  "lim_max (limiter_release key l) = lim_max l"
  by (auto simp: limiter_get_count_def limiter_new_def limiter_acquire_def limiter_release_def Let_def)

section \<open>Retries\<close>

text \<open>
  \<open>runWithRetries\<close>: \<open>lastErr\<close> starts as \<open>undefined\<close>, which is what is thrown when \<open>maxRetries\<close> is
  negative; \<open>delay\<close> is the injected waiting function.
\<close>

function retries_loop ::
  "('m, 'w) job \<Rightarrow> 'm job_context \<Rightarrow> int \<Rightarrow> int \<Rightarrow> (int \<Rightarrow> 'w \<Rightarrow> 'w) \<Rightarrow> int \<Rightarrow> js_error option \<Rightarrow> 'w \<Rightarrow>
   (js_error option, unit) outcome \<times> 'w" where
  "retries_loop job ctx max_retries backoff delay attempt last_err w =
     (if attempt \<le> max_retries
      then (case job_execute job (ctx\<lparr>jc_attempt := attempt + 1\<rparr>) w of
              (Inr u, w1) \<Rightarrow> (Inr (), w1)
            | (Inl e, w1) \<Rightarrow>
                retries_loop job ctx max_retries backoff delay (attempt + 1) (Some e)
                  (if attempt < max_retries then delay (backoff * 2 ^ nat attempt) w1 else w1))
      else (Inl last_err, w))"
  by auto
termination
  by (relation "measure (\<lambda>(job, ctx, max_retries, backoff, delay, attempt, e, w). nat (max_retries + 1 - attempt))") auto

declare retries_loop.simps [simp del]

definition run_with_retries ::
  "('m, 'w) job \<Rightarrow> 'm job_context \<Rightarrow> int \<Rightarrow> int \<Rightarrow> (int \<Rightarrow> 'w \<Rightarrow> 'w) \<Rightarrow> 'w \<Rightarrow>
   (js_error option, unit) outcome \<times> 'w" where
  "run_with_retries job ctx max_retries backoff delay w =
     retries_loop job ctx max_retries backoff delay 0 None w"

section \<open>The scheduler\<close>

record stats_internal =
  si_total :: int
  si_succeeded :: int
  si_failed :: int
  si_active :: int

definition increment_active :: "stats_internal \<Rightarrow> stats_internal" where
  "increment_active s = s\<lparr>si_total := si_total s + 1, si_active := si_active s + 1\<rparr>"

definition decrement_active :: "bool \<Rightarrow> stats_internal \<Rightarrow> stats_internal" where
  "decrement_active succeeded s =
     (if succeeded then s\<lparr>si_succeeded := si_succeeded s + 1, si_active := si_active s - 1\<rparr>
      else s\<lparr>si_failed := si_failed s + 1, si_active := si_active s - 1\<rparr>)"

record ('m, 'w) scheduler =
  sc_jobs :: "('m, 'w) job_registry"
  sc_records :: "(string, job_record) jsmap"
  sc_history :: "(string, string list) jsmap"
  sc_limiters :: "(string, nat) jsmap"
  sc_heap :: "concurrency_limiter list"
  sc_stats :: stats_internal
  sc_id_counter :: int
  sc_running :: "(job_record \<times> nat option) list"

definition zero_stats :: stats_internal where
  "zero_stats = \<lparr>si_total = 0, si_succeeded = 0, si_failed = 0, si_active = 0\<rparr>"

definition scheduler_new :: "('m, 'w) scheduler" where
  "scheduler_new =
     \<lparr>sc_jobs = [], sc_records = [], sc_history = [], sc_limiters = [], sc_heap = [],
      sc_stats = zero_stats, sc_id_counter = 0, sc_running = []\<rparr>"

definition execution_id :: "int \<Rightarrow> int \<Rightarrow> string" where
  "execution_id n now = ''exec-'' @ show_int n @ ''-'' @ show_int now"

definition build_running_record :: "int \<Rightarrow> ('m, 'w) job_registration \<Rightarrow> string \<Rightarrow> job_record" where
  "build_running_record now reg i =
     \<lparr>jrec_job_id = jreg_id reg, jrec_job_name = job_name (jreg_job reg), jrec_execution_id = i,
      jrec_status = Running, jrec_scheduled_at = now, jrec_started_at = Some now,
      jrec_completed_at = None, jrec_failure_reason = None, jrec_attempt = 1\<rparr>"

definition succeeded_record :: "int \<Rightarrow> job_record \<Rightarrow> job_record" where
  "succeeded_record now base = base\<lparr>jrec_status := Succeeded, jrec_completed_at := Some now\<rparr>"

definition failed_record :: "int \<Rightarrow> string \<Rightarrow> job_record \<Rightarrow> job_record" where
  "failed_record now reason base =
     base\<lparr>jrec_status := Failed, jrec_completed_at := Some now, jrec_failure_reason := Some reason\<rparr>"

definition append_history :: "string \<Rightarrow> string \<Rightarrow> (string, string list) jsmap \<Rightarrow> (string, string list) jsmap" where
  "append_history job_id i m =
     jset job_id ((case jget m job_id of Some ids \<Rightarrow> ids | None \<Rightarrow> []) @ [i]) m"

definition scheduler_register ::
  "('m, 'w) job_registration \<Rightarrow> ('m, 'w) scheduler \<Rightarrow> (js_error, unit) outcome \<times> ('m, 'w) scheduler" where
  "scheduler_register reg sc =
     (case registry_register reg (sc_jobs sc) of
        Inl e \<Rightarrow> (Inl e, sc)
      | Inr jobs \<Rightarrow>
          (Inr (), sc\<lparr>sc_jobs := jobs,
             sc_limiters := jset (jreg_id reg) (length (sc_heap sc)) (sc_limiters sc),
             sc_heap := sc_heap sc @
               [limiter_new (case jreg_max_concurrency reg of Some n \<Rightarrow> n | None \<Rightarrow> 1)]\<rparr>))"

definition scheduler_unregister ::
  "string \<Rightarrow> ('m, 'w) scheduler \<Rightarrow> (js_error, unit) outcome \<times> ('m, 'w) scheduler" where
  "scheduler_unregister i sc =
     (case registry_unregister i (sc_jobs sc) of
        Inl e \<Rightarrow> (Inl e, sc)
      | Inr jobs \<Rightarrow> (Inr (), sc\<lparr>sc_jobs := jobs, sc_limiters := jdelete i (sc_limiters sc)\<rparr>))"

definition scheduler_is_registered :: "('m, 'w) scheduler \<Rightarrow> string \<Rightarrow> bool" where
  "scheduler_is_registered sc i = registry_has (sc_jobs sc) i"

text \<open>\<open>trigger\<close> up to its await; \<open>t1\<close> and \<open>t2\<close> are the two clock readings.\<close>

definition scheduler_trigger ::
  "string \<Rightarrow> int \<Rightarrow> int \<Rightarrow> ('m, 'w) scheduler \<Rightarrow> (js_error, job_record) outcome \<times> ('m, 'w) scheduler" where
  "scheduler_trigger job_id t1 t2 sc =
     (case registry_get (sc_jobs sc) job_id of
        None \<Rightarrow> (Inl (job_not_found job_id), sc)
      | Some reg \<Rightarrow>
          (let limiter = jget (sc_limiters sc) job_id
           in if (case limiter of Some r \<Rightarrow> \<not> limiter_is_allowed (sc_heap sc ! r) job_id | None \<Rightarrow> False)
              then (Inl (job_concurrency_limit job_id
                      (case jreg_max_concurrency reg of Some n \<Rightarrow> n | None \<Rightarrow> 1)), sc)
              else (let n = sc_id_counter sc + 1; i = execution_id n t1;
                        base = build_running_record t2 reg i
                    in (Inr base,
                        sc\<lparr>sc_heap := (case limiter of
                               Some r \<Rightarrow> (sc_heap sc)[r := limiter_acquire job_id (sc_heap sc ! r)]
                             | None \<Rightarrow> sc_heap sc),
                           sc_id_counter := n,
                           sc_records := jset i base (sc_records sc),
                           sc_history := append_history job_id i (sc_history sc),
                           sc_stats := increment_active (sc_stats sc),
                           sc_running := sc_running sc @ [(base, limiter)]\<rparr>))))"

definition scheduler_finalize ::
  "int \<Rightarrow> job_record \<Rightarrow> (js_error option, unit) outcome \<Rightarrow> nat option \<Rightarrow> ('m, 'w) scheduler \<Rightarrow>
   job_record \<times> ('m, 'w) scheduler" where
  "scheduler_finalize now base result limiter sc =
     (let done_record = (case result of
            Inr u \<Rightarrow> succeeded_record now base
          | Inl e \<Rightarrow> failed_record now (case e of Some err \<Rightarrow> error_message err | None \<Rightarrow> ''undefined'') base)
      in (done_record,
          sc\<lparr>sc_records := jset (jrec_execution_id base) done_record (sc_records sc),
             sc_stats := decrement_active (is_returned result) (sc_stats sc),
             sc_heap := (case limiter of
                 Some r \<Rightarrow> (sc_heap sc)[r := limiter_release (jrec_job_id base) (sc_heap sc ! r)]
               | None \<Rightarrow> sc_heap sc)\<rparr>))"

text \<open>What \<open>run\<close> awaits between the two.\<close>

definition scheduler_run ::
  "('m, 'w) job_registration \<Rightarrow> job_record \<Rightarrow> 'm \<Rightarrow> (int \<Rightarrow> 'w \<Rightarrow> 'w) \<Rightarrow> 'w \<Rightarrow>
   (js_error option, unit) outcome \<times> 'w" where
  "scheduler_run reg base metadata delay w =
     run_with_retries (jreg_job reg)
       \<lparr>jc_job_id = jrec_job_id base, jc_execution_id = jrec_execution_id base,
        jc_scheduled_at = jrec_scheduled_at base, jc_attempt = 1, jc_metadata = metadata\<rparr>
       (case jreg_max_retries reg of Some n \<Rightarrow> n | None \<Rightarrow> 0)
       (case jreg_backoff reg of Some n \<Rightarrow> n | None \<Rightarrow> 100) delay w"

definition scheduler_get_record :: "('m, 'w) scheduler \<Rightarrow> string \<Rightarrow> job_record option" where
  "scheduler_get_record sc i = jget (sc_records sc) i"

fun records_of :: "(string, job_record) jsmap \<Rightarrow> string list \<Rightarrow> job_record list" where
  "records_of m [] = []"
| "records_of m (i # is) = (case jget m i of None \<Rightarrow> [] | Some r \<Rightarrow> [r]) @ records_of m is"

definition scheduler_get_job_history :: "('m, 'w) scheduler \<Rightarrow> string \<Rightarrow> job_record list" where
  "scheduler_get_job_history sc job_id =
     records_of (sc_records sc) (case jget (sc_history sc) job_id of Some ids \<Rightarrow> ids | None \<Rightarrow> [])"

text \<open>\<open>clear\<close> does not know of the executions that are still running.\<close>

definition scheduler_clear :: "('m, 'w) scheduler \<Rightarrow> ('m, 'w) scheduler" where
  "scheduler_clear sc =
     sc\<lparr>sc_jobs := [], sc_records := [], sc_history := [], sc_limiters := [], sc_stats := zero_stats\<rparr>"

text \<open>The events that can happen to a scheduler, in any interleaving.\<close>

datatype ('m, 'w) scheduler_event =
    Register "('m, 'w) job_registration"
  | Unregister string
  | Trigger string int int
  | Settle string int "(js_error option, unit) outcome"

fun scheduler_step :: "('m, 'w) scheduler \<Rightarrow> ('m, 'w) scheduler_event \<Rightarrow> ('m, 'w) scheduler" where
  "scheduler_step sc (Register reg) = snd (scheduler_register reg sc)"
| "scheduler_step sc (Unregister i) = snd (scheduler_unregister i sc)"
| "scheduler_step sc (Trigger i t1 t2) = snd (scheduler_trigger i t1 t2 sc)"
| "scheduler_step sc (Settle i now result) =
     (case List.find (\<lambda>(base, l). jrec_execution_id base = i) (sc_running sc) of
        None \<Rightarrow> sc
      | Some (base, l) \<Rightarrow>
          snd (scheduler_finalize now base result l
            (sc\<lparr>sc_running := remove1 (base, l) (sc_running sc)\<rparr>)))"

declare map_of_eq_Some_iff [simp del] Some_eq_map_of_iff [simp del]

section \<open>Fresh execution ids\<close>

lemma show_int_no_dash: "0 \<le> n \<Longrightarrow> CHR ''-'' \<notin> set (show_int n)"
  by (simp add: show_int_def)

lemma before_dash: "c \<notin> set xs \<Longrightarrow> takeWhile (\<lambda>x. x \<noteq> c) (xs @ c # ys) = xs"
  by (induction xs) auto

lemma execution_id_inj: "0 \<le> n \<Longrightarrow> 0 \<le> m \<Longrightarrow> execution_id n t = execution_id m u \<Longrightarrow> n = m"
proof -
  assume nm: "0 \<le> n" "0 \<le> m" and "execution_id n t = execution_id m u"
  then have "show_int n @ CHR ''-'' # show_int t = show_int m @ CHR ''-'' # show_int u"
    by (simp add: execution_id_def)
  then have "show_int n = show_int m"
    by (metis before_dash nm show_int_no_dash)
  with nm show "n = m" by (simp add: show_int_def) (metis nat_digits_inj nat_0_le)
qed

section \<open>Counting records\<close>

definition tally :: "('v \<Rightarrow> bool) \<Rightarrow> ('k, 'v) jsmap \<Rightarrow> int" where
  "tally P m = int (length (filter P (jvalues m)))"

lemma tally_new: "\<not> jhas m k \<Longrightarrow> tally P (jset k v m) = tally P m + (if P v then 1 else 0)"
  by (simp add: tally_def jset_absent)

lemma tally_replace:
  "jwf m \<Longrightarrow> jget m k = Some old \<Longrightarrow>
   tally P (jset k v m) = tally P m - (if P old then 1 else 0) + (if P v then 1 else 0)"
  by (induction m) (auto simp: tally_def split: if_splits)

lemma map_jvalues_replace:
  "jget m k = Some old \<Longrightarrow> f v = f old \<Longrightarrow> map f (jvalues (jset k v m)) = map f (jvalues m)"
  by (induction m) (auto split: if_splits)

section \<open>Invariants\<close>

definition executions_ok :: "('m, 'w) scheduler \<Rightarrow> bool" where
  "executions_ok sc \<longleftrightarrow>
     jwf (sc_records sc) \<and> 0 \<le> sc_id_counter sc
     \<and> (\<forall>j reg. jget (sc_jobs sc) j = Some reg \<longrightarrow> jreg_id reg = j)
     \<and> (\<forall>k r. jget (sc_records sc) k = Some r \<longrightarrow> jrec_execution_id r = k
          \<and> (\<exists>n t. k = execution_id n t \<and> 0 \<le> n \<and> n \<le> sc_id_counter sc))
     \<and> distinct (map (\<lambda>p. jrec_execution_id (fst p)) (sc_running sc))
     \<and> (\<forall>p \<in> set (sc_running sc). jget (sc_records sc) (jrec_execution_id (fst p)) = Some (fst p)
          \<and> jrec_status (fst p) = Running)"

definition stats_ok :: "('m, 'w) scheduler \<Rightarrow> bool" where
  "stats_ok sc \<longleftrightarrow>
     si_total (sc_stats sc) = jsize (sc_records sc)
     \<and> si_succeeded (sc_stats sc) = tally (\<lambda>r. jrec_status r = Succeeded) (sc_records sc)
     \<and> si_failed (sc_stats sc) = tally (\<lambda>r. jrec_status r = Failed) (sc_records sc)
     \<and> si_active (sc_stats sc) = tally (\<lambda>r. jrec_status r = Running) (sc_records sc)
     \<and> si_active (sc_stats sc) = int (length (sc_running sc))
     \<and> si_total (sc_stats sc) = si_succeeded (sc_stats sc) + si_failed (sc_stats sc) + si_active (sc_stats sc)"

definition history_ok :: "('m, 'w) scheduler \<Rightarrow> bool" where
  "history_ok sc \<longleftrightarrow>
     (\<forall>j. (case jget (sc_history sc) j of Some ids \<Rightarrow> ids | None \<Rightarrow> []) =
        map snd (filter (\<lambda>p. fst p = j)
          (map (\<lambda>r. (jrec_job_id r, jrec_execution_id r)) (jvalues (sc_records sc)))))"

definition running_with :: "nat \<Rightarrow> string \<Rightarrow> (job_record \<times> nat option) list \<Rightarrow> int" where
  "running_with r j ps = int (length (filter (\<lambda>p. snd p = Some r \<and> jrec_job_id (fst p) = j) ps))"

definition limits_ok :: "('m, 'w) scheduler \<Rightarrow> bool" where
  "limits_ok sc \<longleftrightarrow>
     (\<forall>p \<in> set (sc_running sc). \<forall>r. snd p = Some r \<longrightarrow> r < length (sc_heap sc))
     \<and> (\<forall>r < length (sc_heap sc). \<forall>j.
          limiter_get_count (sc_heap sc ! r) j = running_with r j (sc_running sc)
          \<and> limiter_get_count (sc_heap sc ! r) j \<le> max 0 (lim_max (sc_heap sc ! r)))
     \<and> (\<forall>j. case jget (sc_jobs sc) j of
              None \<Rightarrow> jget (sc_limiters sc) j = None
            | Some reg \<Rightarrow> (\<exists>r < length (sc_heap sc). jget (sc_limiters sc) j = Some r
                \<and> lim_max (sc_heap sc ! r) = (case jreg_max_concurrency reg of Some n \<Rightarrow> n | None \<Rightarrow> 1)))"

lemma running_with_simps [simp]:
  "running_with r j [] = 0"
  "running_with r j (p # ps) =
     running_with r j ps + (if snd p = Some r \<and> jrec_job_id (fst p) = j then 1 else 0)"
  "running_with r j (ps @ qs) = running_with r j ps + running_with r j qs"
  by (auto simp: running_with_def)

lemma running_with_remove1:
  "p \<in> set ps \<Longrightarrow>
   running_with r j (remove1 p ps) =
     running_with r j ps - (if snd p = Some r \<and> jrec_job_id (fst p) = j then 1 else 0)"
  by (induction ps) auto

lemma running_with_nonneg [simp]: "0 \<le> running_with r j ps"
  by (simp add: running_with_def)

lemma running_with_member:
  "p \<in> set ps \<Longrightarrow> snd p = Some r \<Longrightarrow> 0 < running_with r (jrec_job_id (fst p)) ps"
  by (auto simp: running_with_def length_greater_0_conv filter_empty_conv)

text \<open>The two shapes of a step that changes anything: an admitted trigger and a settled execution.\<close>

lemma trigger_cases:
  obtains e where "scheduler_trigger i t1 t2 sc = (Inl e, sc)"
  | reg n base where "jget (sc_jobs sc) i = Some reg" "n = sc_id_counter sc + 1"
      "base = build_running_record t2 reg (execution_id n t1)"
      "\<forall>r. jget (sc_limiters sc) i = Some r \<longrightarrow> limiter_is_allowed (sc_heap sc ! r) i"
      "scheduler_trigger i t1 t2 sc = (Inr base, sc\<lparr>
         sc_heap := (case jget (sc_limiters sc) i of
             Some r \<Rightarrow> (sc_heap sc)[r := limiter_acquire i (sc_heap sc ! r)] | None \<Rightarrow> sc_heap sc),
         sc_id_counter := n, sc_records := jset (execution_id n t1) base (sc_records sc),
         sc_history := append_history i (execution_id n t1) (sc_history sc),
         sc_stats := increment_active (sc_stats sc),
         sc_running := sc_running sc @ [(base, jget (sc_limiters sc) i)]\<rparr>)"
proof (cases "jget (sc_jobs sc) i")
  case None
  then show ?thesis using that(1) by (simp add: scheduler_trigger_def registry_get_def)
next
  case (Some reg)
  show ?thesis
  proof (cases "\<forall>r. jget (sc_limiters sc) i = Some r \<longrightarrow> limiter_is_allowed (sc_heap sc ! r) i")
    case True
    with Some show ?thesis
      by (intro that(2) [OF Some refl refl])
         (auto simp: scheduler_trigger_def registry_get_def Let_def split: option.splits)
  next
    case False
    with Some show ?thesis
      by (intro that(1)) (auto simp: scheduler_trigger_def registry_get_def)
  qed
qed

lemma settle_cases:
  obtains "scheduler_step sc (Settle i now result) = sc"
    "\<forall>p \<in> set (sc_running sc). jrec_execution_id (fst p) \<noteq> i"
  | base l where "(base, l) \<in> set (sc_running sc)" "jrec_execution_id base = i"
      "scheduler_step sc (Settle i now result) = snd (scheduler_finalize now base result l
            (sc\<lparr>sc_running := remove1 (base, l) (sc_running sc)\<rparr>))"
proof (cases "List.find (\<lambda>(base, l). jrec_execution_id base = i) (sc_running sc)")
  case None
  then have "\<forall>p \<in> set (sc_running sc). jrec_execution_id (fst p) \<noteq> i"
    by (auto simp: find_None_iff)
  with None show ?thesis by (intro that(1)) simp_all
next
  case (Some p)
  obtain base l where p: "p = (base, l)" by fastforce
  from Some p have "(base, l) \<in> set (sc_running sc)" "jrec_execution_id base = i"
    by (auto simp: find_Some_iff in_set_conv_nth)
  with Some p show ?thesis by (intro that(2)) simp_all
qed

lemma fresh_execution_id:
  "executions_ok sc \<Longrightarrow> \<not> jhas (sc_records sc) (execution_id (sc_id_counter sc + 1) t)"
proof
  assume ok: "executions_ok sc" and "jhas (sc_records sc) (execution_id (sc_id_counter sc + 1) t)"
  then obtain n u where "execution_id (sc_id_counter sc + 1) t = execution_id n u" "0 \<le> n" "n \<le> sc_id_counter sc"
    unfolding executions_ok_def jhas_def by blast
  then show False using execution_id_inj [of "sc_id_counter sc + 1" n t u] by simp
qed

lemma finalized_simps [simp]:
  "jrec_job_id (fst (scheduler_finalize now base result l sc)) = jrec_job_id base"
  "jrec_execution_id (fst (scheduler_finalize now base result l sc)) = jrec_execution_id base"
  "jrec_status (fst (scheduler_finalize now base result l sc)) = (if is_returned result then Succeeded else Failed)"
  by (cases result; simp add: scheduler_finalize_def succeeded_record_def failed_record_def Let_def)+

lemma finalize_state:
  "snd (scheduler_finalize now base result l sc) = sc\<lparr>
     sc_records := jset (jrec_execution_id base) (fst (scheduler_finalize now base result l sc)) (sc_records sc),
     sc_stats := decrement_active (is_returned result) (sc_stats sc),
     sc_heap := (case l of Some r \<Rightarrow> (sc_heap sc)[r := limiter_release (jrec_job_id base) (sc_heap sc ! r)]
                 | None \<Rightarrow> sc_heap sc)\<rparr>"
  by (simp add: scheduler_finalize_def Let_def)

lemma build_running_simps [simp]:
  "jrec_job_id (build_running_record t reg i) = jreg_id reg"
  "jrec_execution_id (build_running_record t reg i) = i"
  "jrec_status (build_running_record t reg i) = Running"
  by (simp_all add: build_running_record_def)

lemma executions_okD:
  assumes "executions_ok sc"
  shows "distinct (map (\<lambda>p. jrec_execution_id (fst p)) (sc_running sc))"
    and "p \<in> set (sc_running sc) \<Longrightarrow> jget (sc_records sc) (jrec_execution_id (fst p)) = Some (fst p)"
    and "p \<in> set (sc_running sc) \<Longrightarrow> jrec_status (fst p) = Running"
    and "jwf (sc_records sc)"
    and "jget (sc_jobs sc) j = Some reg \<Longrightarrow> jreg_id reg = j"
  using assms unfolding executions_ok_def by blast+

lemma executions_trigger:
  assumes ok: "executions_ok sc"
  shows "executions_ok (scheduler_step sc (Trigger i t1 t2))"
proof (cases rule: trigger_cases [of i t1 t2 sc])
  case (2 reg n base)
  let ?i = "execution_id n t1"
  have old: "jrec_execution_id (fst p) \<noteq> ?i" if "p \<in> set (sc_running sc)" for p
  proof
    assume "jrec_execution_id (fst p) = ?i"
    with executions_okD(2) [OF ok that] have "jget (sc_records sc) ?i = Some (fst p)" by simp
    with fresh_execution_id [OF ok, of t1] 2(2) show False by (simp add: jhas_def)
  qed
  have notin: "?i \<notin> (\<lambda>p. jrec_execution_id (fst p)) ` set (sc_running sc)"
  proof
    assume "?i \<in> (\<lambda>p. jrec_execution_id (fst p)) ` set (sc_running sc)"
    then obtain p where "p \<in> set (sc_running sc)" "?i = jrec_execution_id (fst p)" by (rule imageE)
    with old [of p] show False by simp
  qed
  have grown: "\<exists>m t. k = execution_id m t \<and> 0 \<le> m \<and> m \<le> n" if "jget (jset ?i base (sc_records sc)) k = Some r" for k r
  proof (cases "k = ?i")
    case True
    have "0 \<le> n" using ok 2(2) by (simp add: executions_ok_def)
    with True show ?thesis by blast
  next
    case False
    with that have "jget (sc_records sc) k = Some r" by simp
    with ok obtain m t where "k = execution_id m t" "0 \<le> m" "m \<le> sc_id_counter sc"
      unfolding executions_ok_def by blast
    then show ?thesis using 2(2) by force
  qed
  let ?s = "scheduler_step sc (Trigger i t1 t2)"
  have "jwf (sc_records ?s)" "0 \<le> sc_id_counter ?s"
    "\<forall>j reg. jget (sc_jobs ?s) j = Some reg \<longrightarrow> jreg_id reg = j"
    using ok 2(2) unfolding executions_ok_def by (simp_all add: 2(5) jwf_jset)
  moreover have "\<forall>k r. jget (sc_records ?s) k = Some r \<longrightarrow> jrec_execution_id r = k
      \<and> (\<exists>m t. k = execution_id m t \<and> 0 \<le> m \<and> m \<le> sc_id_counter ?s)"
  proof (intro allI impI conjI)
    fix k r assume k: "jget (sc_records ?s) k = Some r"
    then have "jget (jset ?i base (sc_records sc)) k = Some r" by (simp add: 2(5))
    then show "\<exists>m t. k = execution_id m t \<and> 0 \<le> m \<and> m \<le> sc_id_counter ?s"
      using grown by (simp add: 2(5))
    show "jrec_execution_id r = k"
      using k ok unfolding executions_ok_def by (auto simp: 2(3,5) split: if_splits)
  qed
  moreover have "distinct (map (\<lambda>p. jrec_execution_id (fst p)) (sc_running ?s))"
    using executions_okD(1) [OF ok] notin by (simp add: 2(3,5))
  moreover have "\<forall>p \<in> set (sc_running ?s). jget (sc_records ?s) (jrec_execution_id (fst p)) = Some (fst p)
      \<and> jrec_status (fst p) = Running"
    using executions_okD(2,3) [OF ok] old by (simp add: 2(3,5) ball_Un)
  ultimately show ?thesis unfolding executions_ok_def by blast
qed (simp add: ok)

lemma executions_settle:
  assumes ok: "executions_ok sc"
  shows "executions_ok (scheduler_step sc (Settle i now result))"
proof (cases rule: settle_cases [where sc = sc and i = i and now = now and result = result])
  case (2 base l)
  let ?s = "scheduler_step sc (Settle i now result)"
  have left: "p \<in> set (sc_running sc) \<and> jrec_execution_id (fst p) \<noteq> i"
    if "p \<in> set (remove1 (base, l) (sc_running sc))" for p
  proof -
    have d: "distinct (sc_running sc)" and inj: "inj_on (\<lambda>p. jrec_execution_id (fst p)) (set (sc_running sc))"
      using executions_okD(1) [OF ok] unfolding distinct_map by blast+
    from that d have "p \<in> set (sc_running sc)" "p \<noteq> (base, l)" by simp_all
    with inj 2(1,2) show ?thesis by (auto simp: inj_on_def)
  qed
  have run: "sc_running ?s = remove1 (base, l) (sc_running sc)"
    "sc_jobs ?s = sc_jobs sc" "sc_id_counter ?s = sc_id_counter sc"
    unfolding 2(3) finalize_state by simp_all
  obtain r where r: "sc_records ?s = jset i r (sc_records sc)" "jrec_execution_id r = i"
    using 2(2) unfolding 2(3) finalize_state by simp
  have "jget (sc_records sc) i = Some base" using executions_okD(2) [OF ok 2(1)] 2(2) by simp
  with ok have idn: "\<exists>n t. i = execution_id n t \<and> 0 \<le> n \<and> n \<le> sc_id_counter sc"
    unfolding executions_ok_def by blast
  have "distinct (map (\<lambda>p. jrec_execution_id (fst p)) (remove1 (base, l) (sc_running sc)))"
    using executions_okD(1) [OF ok] unfolding distinct_map
    by (auto simp: inj_on_def dest: notin_set_remove1)
  with ok left idn show ?thesis
    unfolding executions_ok_def run r(1) by (auto simp: jwf_jset r(2) split: if_splits)
qed (simp add: ok)

lemma executions_step: "executions_ok sc \<Longrightarrow> executions_ok (scheduler_step sc ev)"
proof (cases ev)
  case (Register reg)
  assume "executions_ok sc"
  with Register show ?thesis
    unfolding executions_ok_def
    by (auto simp: scheduler_register_def registry_register_def split: if_splits)
next
  case (Unregister i)
  assume "executions_ok sc"
  with Unregister show ?thesis
    unfolding executions_ok_def
    by (auto simp: scheduler_unregister_def registry_unregister_def split: if_splits)
qed (simp_all only: executions_trigger executions_settle)

lemma stats_step:
  assumes ok: "executions_ok sc" and st: "stats_ok sc"
  shows "stats_ok (scheduler_step sc ev)"
proof (cases ev)
  case (Register reg)
  with st show ?thesis
    by (auto simp: stats_ok_def scheduler_register_def registry_register_def)
next
  case (Unregister i)
  with st show ?thesis
    by (auto simp: stats_ok_def scheduler_unregister_def registry_unregister_def)
next
  case (Trigger i t1 t2)
  show ?thesis
  proof (cases rule: trigger_cases [of i t1 t2 sc])
    case (2 reg n base)
    note fresh = fresh_execution_id [OF ok, of t1, folded 2(2)]
    with st 2(3) show ?thesis
      unfolding stats_ok_def Trigger
      by (simp add: 2(5) tally_new jsize_jset increment_active_def)
  qed (simp add: Trigger st)
next
  case (Settle i now result)
  show ?thesis
  proof (cases rule: settle_cases [where sc = sc and i = i and now = now and result = result])
    case (2 base l)
    have old: "jget (sc_records sc) i = Some base" "jrec_status base = Running"
      using executions_okD(2,3) [OF ok 2(1)] 2(2) by simp_all
    then have "jhas (sc_records sc) i" by (simp add: jhas_def)
    moreover have "int (length (remove1 (base, l) (sc_running sc))) = int (length (sc_running sc)) - 1"
      using 2(1) length_pos_if_in_set [OF 2(1)] by (simp add: length_remove1 of_nat_diff Suc_leI)
    ultimately show ?thesis
      using st 2(2) unfolding stats_ok_def Settle 2(3) finalize_state
      by (simp add: tally_replace [OF executions_okD(4) [OF ok] old(1)] jsize_jset decrement_active_def old(2))
  qed (simp add: Settle st)
qed

lemma job_history_step:
  assumes ok: "executions_ok sc" and h: "history_ok sc"
  shows "history_ok (scheduler_step sc ev)"
proof (cases ev)
  case (Register reg)
  with h show ?thesis by (auto simp: history_ok_def scheduler_register_def registry_register_def)
next
  case (Unregister i)
  with h show ?thesis by (auto simp: history_ok_def scheduler_unregister_def registry_unregister_def)
next
  case (Trigger i t1 t2)
  show ?thesis
  proof (cases rule: trigger_cases [of i t1 t2 sc])
    case (2 reg n base)
    note fresh = fresh_execution_id [OF ok, of t1, folded 2(2)]
    have "jrec_job_id base = i" using executions_okD(5) [OF ok 2(1)] by (simp add: 2(3))
    with h fresh 2(3) show ?thesis
      unfolding history_ok_def Trigger
      by (auto simp: 2(5) append_history_def jset_absent)
  qed (simp add: Trigger h)
next
  case (Settle i now result)
  show ?thesis
  proof (cases rule: settle_cases [where sc = sc and i = i and now = now and result = result])
    case (2 base l)
    have "jget (sc_records sc) (jrec_execution_id base) = Some base"
      using executions_okD(2) [OF ok 2(1)] by simp
    with h show ?thesis
      unfolding history_ok_def Settle 2(3) finalize_state
      by (simp add: map_jvalues_replace del: map_map)
  qed (simp add: Settle h)
qed

lemma limits_okD:
  assumes "limits_ok sc"
  shows "p \<in> set (sc_running sc) \<Longrightarrow> snd p = Some r \<Longrightarrow> r < length (sc_heap sc)"
    and "r < length (sc_heap sc) \<Longrightarrow> limiter_get_count (sc_heap sc ! r) j = running_with r j (sc_running sc)"
    and "r < length (sc_heap sc) \<Longrightarrow> limiter_get_count (sc_heap sc ! r) j \<le> max 0 (lim_max (sc_heap sc ! r))"
    and "jget (sc_jobs sc) j = None \<Longrightarrow> jget (sc_limiters sc) j = None"
    and "jget (sc_jobs sc) j = Some reg \<Longrightarrow> \<exists>r < length (sc_heap sc). jget (sc_limiters sc) j = Some r
        \<and> lim_max (sc_heap sc ! r) = (case jreg_max_concurrency reg of Some n \<Rightarrow> n | None \<Rightarrow> 1)"
proof -
  note ok = assms [unfolded limits_ok_def]
  show "p \<in> set (sc_running sc) \<Longrightarrow> snd p = Some r \<Longrightarrow> r < length (sc_heap sc)"
    and "r < length (sc_heap sc) \<Longrightarrow> limiter_get_count (sc_heap sc ! r) j = running_with r j (sc_running sc)"
    and "r < length (sc_heap sc) \<Longrightarrow> limiter_get_count (sc_heap sc ! r) j \<le> max 0 (lim_max (sc_heap sc ! r))"
    using ok by blast+
  have "case jget (sc_jobs sc) j of None \<Rightarrow> jget (sc_limiters sc) j = None
    | Some reg \<Rightarrow> \<exists>r < length (sc_heap sc). jget (sc_limiters sc) j = Some r
        \<and> lim_max (sc_heap sc ! r) = (case jreg_max_concurrency reg of Some n \<Rightarrow> n | None \<Rightarrow> 1)"
    using ok by blast
  then show "jget (sc_jobs sc) j = None \<Longrightarrow> jget (sc_limiters sc) j = None"
    and "jget (sc_jobs sc) j = Some reg \<Longrightarrow> \<exists>r < length (sc_heap sc). jget (sc_limiters sc) j = Some r
        \<and> lim_max (sc_heap sc ! r) = (case jreg_max_concurrency reg of Some n \<Rightarrow> n | None \<Rightarrow> 1)"
    by simp_all
qed

lemma limits_okI:
  assumes "\<And>p r. p \<in> set (sc_running sc) \<Longrightarrow> snd p = Some r \<Longrightarrow> r < length (sc_heap sc)"
    and "\<And>r j. r < length (sc_heap sc) \<Longrightarrow>
      limiter_get_count (sc_heap sc ! r) j = running_with r j (sc_running sc)
      \<and> limiter_get_count (sc_heap sc ! r) j \<le> max 0 (lim_max (sc_heap sc ! r))"
    and "\<And>j. jget (sc_jobs sc) j = None \<Longrightarrow> jget (sc_limiters sc) j = None"
    and "\<And>j reg. jget (sc_jobs sc) j = Some reg \<Longrightarrow> \<exists>r < length (sc_heap sc). jget (sc_limiters sc) j = Some r
        \<and> lim_max (sc_heap sc ! r) = (case jreg_max_concurrency reg of Some n \<Rightarrow> n | None \<Rightarrow> 1)"
  shows "limits_ok sc"
  unfolding limits_ok_def
proof (intro conjI ballI allI impI)
  show "case jget (sc_jobs sc) j of None \<Rightarrow> jget (sc_limiters sc) j = None
    | Some reg \<Rightarrow> \<exists>r < length (sc_heap sc). jget (sc_limiters sc) j = Some r
        \<and> lim_max (sc_heap sc ! r) = (case jreg_max_concurrency reg of Some n \<Rightarrow> n | None \<Rightarrow> 1)" for j
    using assms(3,4) [of j] by (cases "jget (sc_jobs sc) j") simp_all
qed (use assms(1,2) in blast)+

lemma running_with_unknown:
  "limits_ok sc \<Longrightarrow> running_with (length (sc_heap sc)) j (sc_running sc) = 0"
  using limits_okD(1) by (fastforce simp: running_with_def filter_empty_conv)

lemma limits_register:
  assumes ok: "limits_ok sc"
  shows "limits_ok (scheduler_step sc (Register reg))"
proof (cases "jhas (sc_jobs sc) (jreg_id reg)")
  case True
  with ok show ?thesis by (simp add: scheduler_register_def registry_register_def)
next
  case False
  let ?new = "limiter_new (case jreg_max_concurrency reg of Some n \<Rightarrow> n | None \<Rightarrow> 1)"
  have s: "scheduler_step sc (Register reg) = sc\<lparr>sc_jobs := jset (jreg_id reg) reg (sc_jobs sc),
      sc_limiters := jset (jreg_id reg) (length (sc_heap sc)) (sc_limiters sc), sc_heap := sc_heap sc @ [?new]\<rparr>"
    using False by (simp add: scheduler_register_def registry_register_def)
  show ?thesis
  proof (rule limits_okI, goal_cases)
    case (1 p r)
    then show ?case using limits_okD(1) [OF ok] unfolding s by (simp add: less_SucI)
  next
    case (2 r j)
    then show ?case
      using limits_okD(2,3) [OF ok, of r j] running_with_unknown [OF ok, of j] unfolding s
      by (cases "r = length (sc_heap sc)") (simp_all add: nth_append)
  next
    case (3 j)
    then show ?case using limits_okD(4) [OF ok] unfolding s by (simp split: if_splits)
  next
    case (4 j reg')
    show ?case
    proof (cases "j = jreg_id reg")
      case True
      with 4 show ?thesis unfolding s by (intro exI [of _ "length (sc_heap sc)"]) simp
    next
      case False
      with 4 limits_okD(5) [OF ok, of j reg'] show ?thesis unfolding s
        by (auto simp: nth_append less_SucI)
    qed
  qed
qed

lemma limits_unregister:
  assumes ok: "limits_ok sc"
  shows "limits_ok (scheduler_step sc (Unregister i))"
proof (cases "jhas (sc_jobs sc) i")
  case True
  have s: "scheduler_step sc (Unregister i) =
      sc\<lparr>sc_jobs := jdelete i (sc_jobs sc), sc_limiters := jdelete i (sc_limiters sc)\<rparr>"
    using True by (simp add: scheduler_unregister_def registry_unregister_def)
  show ?thesis
  proof (rule limits_okI, goal_cases)
    case (1 p r)
    then show ?case using limits_okD(1) [OF ok] unfolding s by simp
  next
    case (2 r j)
    then show ?case using limits_okD(2,3) [OF ok, of r j] unfolding s by simp
  next
    case (3 j)
    then show ?case using limits_okD(4) [OF ok] unfolding s by (simp split: if_splits)
  next
    case (4 j reg)
    then show ?case using limits_okD(5) [OF ok, of j reg] unfolding s by (simp split: if_splits)
  qed
next
  case False
  with ok show ?thesis by (simp add: scheduler_unregister_def registry_unregister_def)
qed

lemma limits_trigger:
  assumes ex: "executions_ok sc" and ok: "limits_ok sc"
  shows "limits_ok (scheduler_step sc (Trigger i t1 t2))"
proof (cases rule: trigger_cases [of i t1 t2 sc])
  case (2 reg n base)
  obtain q where q: "q < length (sc_heap sc)" "jget (sc_limiters sc) i = Some q"
    using limits_okD(5) [OF ok 2(1)] by blast
  then have allowed: "limiter_get_count (sc_heap sc ! q) i < lim_max (sc_heap sc ! q)"
    using 2(4) by (simp add: limiter_is_allowed_def)
  have job: "jrec_job_id base = i" using executions_okD(5) [OF ex 2(1)] by (simp add: 2(3))
  let ?s = "scheduler_step sc (Trigger i t1 t2)"
  have s: "sc_heap ?s = (sc_heap sc)[q := limiter_acquire i (sc_heap sc ! q)]"
    "sc_running ?s = sc_running sc @ [(base, Some q)]" "sc_jobs ?s = sc_jobs sc"
    "sc_limiters ?s = sc_limiters sc"
    by (simp_all add: 2(5) q(2))
  show ?thesis
  proof (rule limits_okI, goal_cases)
    case (1 p r)
    then show ?case using limits_okD(1) [OF ok, of p r] q(1) unfolding s by auto
  next
    case (2 r j)
    then show ?case
      using limits_okD(2,3) [OF ok, of r j] allowed q(1) job unfolding s
      by (cases "r = q"; cases "j = i") simp_all
  next
    case (3 j)
    then show ?case using limits_okD(4) [OF ok] unfolding s by simp
  next
    case (4 j reg)
    then show ?case using limits_okD(5) [OF ok, of j reg] q(1) unfolding s
      by (auto simp: nth_list_update)
  qed
qed (simp add: ok)

lemma limits_settle:
  assumes ok: "limits_ok sc"
  shows "limits_ok (scheduler_step sc (Settle i now result))"
proof (cases rule: settle_cases [where sc = sc and i = i and now = now and result = result])
  case (2 base l)
  let ?s = "scheduler_step sc (Settle i now result)"
  let ?h = "case l of Some r \<Rightarrow> (sc_heap sc)[r := limiter_release (jrec_job_id base) (sc_heap sc ! r)] | None \<Rightarrow> sc_heap sc"
  have s: "sc_heap ?s = ?h" "sc_running ?s = remove1 (base, l) (sc_running sc)"
    "sc_jobs ?s = sc_jobs sc" "sc_limiters ?s = sc_limiters sc"
    unfolding 2(3) finalize_state by (simp_all split: option.split)
  have len: "length ?h = length (sc_heap sc)" by (simp split: option.split)
  have count: "limiter_get_count (?h ! r) j = limiter_get_count (sc_heap sc ! r) j
      - (if l = Some r \<and> jrec_job_id base = j then 1 else 0)
    \<and> lim_max (?h ! r) = lim_max (sc_heap sc ! r)" if r: "r < length (sc_heap sc)" for r j
    using running_with_member [OF 2(1), of r] limits_okD(2) [OF ok r, of j] r
    by (cases l; cases "l = Some r") auto
  show ?thesis
  proof (rule limits_okI, goal_cases)
    case (1 p r)
    then show ?case using limits_okD(1) [OF ok, of p r] notin_set_remove1 unfolding s len by metis
  next
    case (2 r j)
    with \<open>(base, l) \<in> set (sc_running sc)\<close> show ?case
      using limits_okD(2,3) [OF ok, of r j] count [of r j] unfolding s len
      by (simp add: running_with_remove1)
  next
    case (3 j)
    then show ?case using limits_okD(4) [OF ok] unfolding s by simp
  next
    case (4 j reg)
    then obtain r where "r < length (sc_heap sc)" "jget (sc_limiters sc) j = Some r"
      "lim_max (sc_heap sc ! r) = (case jreg_max_concurrency reg of Some n \<Rightarrow> n | None \<Rightarrow> 1)"
      using limits_okD(5) [OF ok, of j reg] unfolding s by blast
    then show ?case using count [of r j] unfolding s len by (intro exI [of _ r]) simp
  qed
qed (simp add: ok)

definition scheduler_ok :: "('m, 'w) scheduler \<Rightarrow> bool" where
  "scheduler_ok sc \<longleftrightarrow> executions_ok sc \<and> stats_ok sc \<and> history_ok sc \<and> limits_ok sc"

lemma scheduler_ok_step: "scheduler_ok sc \<Longrightarrow> scheduler_ok (scheduler_step sc ev)"
  unfolding scheduler_ok_def
  by (cases ev; simp only: executions_step stats_step job_history_step limits_register limits_unregister
      limits_trigger limits_settle simp_thms)

lemma scheduler_ok_new: "scheduler_ok scheduler_new"
  by (simp add: scheduler_ok_def scheduler_new_def executions_ok_def stats_ok_def history_ok_def
      limits_ok_def zero_stats_def tally_def)

interpretation scheduler_machine: invariant_machine scheduler_step scheduler_ok
  by unfold_locales (rule scheduler_ok_step)

section \<open>Properties\<close>

lemma records_of_found:
  "\<forall>r \<in> set rs. jget m (jrec_execution_id r) = Some r \<Longrightarrow> records_of m (map jrec_execution_id rs) = rs"
  by (induction rs) auto

lemma job_history_eq:
  assumes "executions_ok sc" "history_ok sc"
  shows "scheduler_get_job_history sc j = filter (\<lambda>r. jrec_job_id r = j) (jvalues (sc_records sc))"
proof -
  let ?rs = "filter (\<lambda>r. jrec_job_id r = j) (jvalues (sc_records sc))"
  have "(case jget (sc_history sc) j of Some ids \<Rightarrow> ids | None \<Rightarrow> []) = map jrec_execution_id ?rs"
    using assms(2) unfolding history_ok_def by (simp add: filter_map o_def)
  moreover have "jget (sc_records sc) (jrec_execution_id r) = Some r" if r: "r \<in> set ?rs" for r
  proof -
    obtain k where "(k, r) \<in> set (sc_records sc)" using r by auto
    then have "jget (sc_records sc) k = Some r"
      using executions_okD(4) [OF assms(1)] by (simp add: jget_iff_entry)
    with assms(1) show ?thesis unfolding executions_ok_def by metis
  qed
  ultimately show ?thesis by (simp add: scheduler_get_job_history_def records_of_found)
qed

text \<open>C4: After any sequence of registrations, triggers and settled executions in any interleaving, the
  statistics agree with the execution records (total, succeeded, failed and active executions, which
  add up), the active ones are those that have not settled, and a job's history is the list of all
  its executions in the order they were triggered.\<close>

theorem scheduler_accounting:
  "let sc = foldl scheduler_step scheduler_new evs; s = sc_stats sc; rs = jvalues (sc_records sc) in
     si_total s = si_succeeded s + si_failed s + si_active s
     \<and> si_total s = int (length rs)
     \<and> si_succeeded s = int (length (filter (\<lambda>r. jrec_status r = Succeeded) rs))
     \<and> si_failed s = int (length (filter (\<lambda>r. jrec_status r = Failed) rs))
     \<and> si_active s = int (length (sc_running sc))
     \<and> scheduler_get_job_history sc j = filter (\<lambda>r. jrec_job_id r = j) rs"
proof -
  have "scheduler_ok (foldl scheduler_step scheduler_new evs)"
    by (rule scheduler_machine.run_keeps [OF scheduler_ok_new])
  then show ?thesis
    unfolding scheduler_ok_def Let_def by (simp add: job_history_eq) (simp add: stats_ok_def tally_def)
qed

text \<open>After any such sequence, the executions of a registered job that run under its limiter never
  exceed the job's \<open>maxConcurrency\<close> (1 by default); a trigger is refused with a
  JobConcurrencyLimitError, without any effect, exactly when that many are running, and an
  unregistered job is refused with a JobNotFoundError.\<close>

theorem scheduler_respects_concurrency:
  defines "limit reg \<equiv> (case jreg_max_concurrency reg of Some n \<Rightarrow> n | None \<Rightarrow> 1)"
  shows "let sc = foldl scheduler_step scheduler_new evs in
    (case jget (sc_jobs sc) j of
       None \<Rightarrow> scheduler_trigger j t1 t2 sc = (Inl (job_not_found j), sc)
     | Some reg \<Rightarrow>
         (\<exists>r. jget (sc_limiters sc) j = Some r
            \<and> running_with r j (sc_running sc) \<le> max 0 (limit reg)
            \<and> (if running_with r j (sc_running sc) < limit reg
               then is_returned (fst (scheduler_trigger j t1 t2 sc))
               else scheduler_trigger j t1 t2 sc = (Inl (job_concurrency_limit j (limit reg)), sc))))"
proof -
  let ?sc = "foldl scheduler_step scheduler_new evs"
  have "scheduler_ok ?sc" by (rule scheduler_machine.run_keeps [OF scheduler_ok_new])
  then have ok: "limits_ok ?sc" by (simp add: scheduler_ok_def)
  show ?thesis
  proof (cases "jget (sc_jobs ?sc) j")
    case None
    then show ?thesis by (simp add: Let_def scheduler_trigger_def registry_get_def)
  next
    case (Some reg)
    from limits_okD(5) [OF ok Some] obtain r where r: "r < length (sc_heap ?sc)"
      "jget (sc_limiters ?sc) j = Some r" "lim_max (sc_heap ?sc ! r) = limit reg"
      unfolding limit_def by blast
    then have allowed: "limiter_is_allowed (sc_heap ?sc ! r) j \<longleftrightarrow> running_with r j (sc_running ?sc) < limit reg"
      using limits_okD(2) [OF ok r(1)] by (simp add: limiter_is_allowed_def)
    have "running_with r j (sc_running ?sc) \<le> max 0 (limit reg)"
      using limits_okD(2,3) [OF ok r(1), of j] r(3) by simp
    with Some r(2) allowed show ?thesis
      by (simp add: Let_def scheduler_trigger_def registry_get_def limit_def [symmetric])
  qed
qed

text \<open>The limit does not survive a registration: when a registered job is unregistered and
  registered again, the next trigger starts a further execution however many executions of that job
  are still running.\<close>

theorem reregistration_lifts_limit:
  assumes "jget (sc_jobs sc) j = Some reg" "jreg_id reg = j" "jreg_max_concurrency reg = None"
  shows "let sc' = foldl scheduler_step sc [Unregister j, Register reg, Trigger j t1 t2] in
    length (filter (\<lambda>p. jrec_job_id (fst p) = j) (sc_running sc'))
      = length (filter (\<lambda>p. jrec_job_id (fst p) = j) (sc_running sc)) + 1"
proof -
  have "jhas (sc_jobs sc) j" using assms(1) by (simp add: jhas_def)
  with assms show ?thesis
    by (simp add: Let_def scheduler_unregister_def registry_unregister_def scheduler_register_def
        registry_register_def scheduler_trigger_def registry_get_def limiter_is_allowed_def)
qed

theorem reregistration_lifts_limit_witness:
  "let reg = \<lparr>jreg_id = ''j'', jreg_job = \<lparr>job_name = ''n'', job_execute = (\<lambda>c w. (Inr (), w))\<rparr>,
      jreg_schedule = OnceSchedule 0, jreg_max_concurrency = None, jreg_max_retries = None,
      jreg_backoff = None\<rparr> :: (unit, unit) job_registration
   in length (filter (\<lambda>p. jrec_job_id (fst p) = ''j'') (sc_running (foldl scheduler_step scheduler_new
        [Register reg, Trigger ''j'' 1 1, Unregister ''j'', Register reg, Trigger ''j'' 2 2]))) = 2"
proof -
  let ?reg = "\<lparr>jreg_id = ''j'', jreg_job = \<lparr>job_name = ''n'', job_execute = (\<lambda>c w. (Inr (), w))\<rparr>,
      jreg_schedule = OnceSchedule 0, jreg_max_concurrency = None, jreg_max_retries = None,
      jreg_backoff = None\<rparr> :: (unit, unit) job_registration"
  let ?sc = "foldl scheduler_step scheduler_new [Register ?reg, Trigger ''j'' 1 1]"
  have "jget (sc_jobs ?sc) ''j'' = Some ?reg"
    by (simp add: scheduler_new_def scheduler_register_def registry_register_def
        scheduler_trigger_def registry_get_def limiter_is_allowed_def jhas_def Let_def)
  from reregistration_lifts_limit [OF this, of 2 2]
  have "length (filter (\<lambda>p. jrec_job_id (fst p) = ''j'') (sc_running (foldl scheduler_step ?sc
        [Unregister ''j'', Register ?reg, Trigger ''j'' 2 2])))
      = length (filter (\<lambda>p. jrec_job_id (fst p) = ''j'') (sc_running ?sc)) + 1"
    by (simp add: Let_def del: foldl_Cons scheduler_step.simps)
  moreover have "length (filter (\<lambda>p. jrec_job_id (fst p) = ''j'') (sc_running ?sc)) = 1"
    by (simp add: scheduler_new_def scheduler_register_def registry_register_def
        scheduler_trigger_def registry_get_def limiter_is_allowed_def jhas_def Let_def)
  ultimately show ?thesis by (simp only: Let_def foldl_Cons foldl_Nil)
qed

section \<open>The interval runner\<close>

text \<open>\<open>setInterval\<close> gives a fresh handle; \<open>clearInterval\<close> is recorded in the list of cleared handles.\<close>

record 'h interval_runner =
  ir_handles :: "(string, 'h) jsmap"
  ir_cleared :: "'h list"

definition interval_start :: "string \<Rightarrow> 'h \<Rightarrow> 'h interval_runner \<Rightarrow> 'h interval_runner" where
  "interval_start job_id handle ir =
     (if jhas (ir_handles ir) job_id then ir
      else ir\<lparr>ir_handles := jset job_id handle (ir_handles ir)\<rparr>)"

definition interval_stop :: "string \<Rightarrow> 'h interval_runner \<Rightarrow> 'h interval_runner" where
  "interval_stop job_id ir =
     (case jget (ir_handles ir) job_id of
        Some h \<Rightarrow> ir\<lparr>ir_cleared := ir_cleared ir @ [h], ir_handles := jdelete job_id (ir_handles ir)\<rparr>
      | None \<Rightarrow> ir)"

fun interval_stop_keys :: "string list \<Rightarrow> 'h interval_runner \<Rightarrow> 'h interval_runner" where
  "interval_stop_keys [] ir = ir"
| "interval_stop_keys (k # ks) ir = interval_stop_keys ks (interval_stop k ir)"

definition interval_stop_all :: "'h interval_runner \<Rightarrow> 'h interval_runner" where
  "interval_stop_all ir = interval_stop_keys (jkeys (ir_handles ir)) ir"

definition interval_is_running :: "'h interval_runner \<Rightarrow> string \<Rightarrow> bool" where
  "interval_is_running ir job_id = jhas (ir_handles ir) job_id"

definition interval_active_count :: "'h interval_runner \<Rightarrow> int" where
  "interval_active_count ir = jsize (ir_handles ir)"

lemma interval_stop_all_clears:
  "jwf (ir_handles ir) \<Longrightarrow>
   ir_handles (interval_stop_all ir) = [] \<and> ir_cleared (interval_stop_all ir) = ir_cleared ir @ jvalues (ir_handles ir)"
proof -
  have "jwf m \<Longrightarrow> ir_handles (interval_stop_keys (jkeys m) \<lparr>ir_handles = m, ir_cleared = c\<rparr>) = []
      \<and> ir_cleared (interval_stop_keys (jkeys m) \<lparr>ir_handles = m, ir_cleared = c\<rparr>) = c @ jvalues m" for m :: "(string, 'h) jsmap" and c
  proof (induction m arbitrary: c)
    case (Cons p m)
    obtain k h where p: "p = (k, h)" by fastforce
    with Cons.prems have "k \<notin> dom (jget m)" by (simp add: dom_map_of_conv_image_fst)
    with p have "jdelete k (p # m) = m" by (simp add: delete_idem dom_map_of_conv_image_fst)
    with Cons p show ?case by (simp add: interval_stop_def)
  qed simp
  moreover assume "jwf (ir_handles ir)"
  ultimately show ?thesis unfolding interval_stop_all_def by (cases ir) simp
qed

end
