(* ===== verification/Cache.thy ===== *)
theory Cache
  imports Prelude
begin

text \<open>
  Caching (\<open>packages/cache-redis/src/strategies\<close>): the in-memory cache with expiry and FIFO eviction,
  the two-level cache over any two cache ports with its stampede lock, the tag registry and the
  warmer.  \<open>now\<close> is the clock reading of the call.  The contract of a cache port is the locale
  \<open>cache_port\<close>; the two-level cache is verified against it and it holds of the in-memory cache.
\<close>

section \<open>The cache port\<close>

record ('s, 'v) cache_ops =
  co_get :: "int \<Rightarrow> string \<Rightarrow> 's \<Rightarrow> 'v option \<times> 's"
  co_set :: "int \<Rightarrow> string \<Rightarrow> 'v \<Rightarrow> int option \<Rightarrow> 's \<Rightarrow> 's"
  co_delete :: "string \<Rightarrow> 's \<Rightarrow> 's"
  co_has :: "int \<Rightarrow> string \<Rightarrow> 's \<Rightarrow> bool \<times> 's"

text \<open>
  What a client may rely on: a read returns what the cache shows at that time, a write is shown
  (unless its time to live is negative), and no operation makes anything else visible, although
  entries may disappear by expiry or eviction at any moment.
\<close>

locale cache_port =
  fixes ops :: "('s, 'v) cache_ops"
    and view :: "int \<Rightarrow> 's \<Rightarrow> string \<Rightarrow> 'v option"
  assumes get_view: "fst (co_get ops now k s) = view now s k"
    and get_shrinks: "view t (snd (co_get ops now k s)) k' = Some v \<Longrightarrow> view t s k' = Some v"
    and get_keeps: "view now (snd (co_get ops now k s)) k = view now s k"
    and set_shows: "ttl = None \<or> ttl = Some d \<and> 0 \<le> d \<Longrightarrow> view now (co_set ops now k v ttl s) k = Some v"
    and set_shrinks: "view t (co_set ops now k v ttl s) k' = Some u \<Longrightarrow>
      (k' = k \<and> u = v) \<or> (k' \<noteq> k \<and> view t s k' = Some u)"
    and delete_shrinks: "view t (co_delete ops k s) k' = Some u \<Longrightarrow> k' \<noteq> k \<and> view t s k' = Some u"
    and has_view: "fst (co_has ops now k s) = (view now s k \<noteq> None)"
    and has_shrinks: "view t (snd (co_has ops now k s)) k' = Some v \<Longrightarrow> view t s k' = Some v"
begin

text \<open>A cache agrees with a reference map when everything it can ever show is in the map.\<close>

definition agrees :: "(string \<Rightarrow> 'v option) \<Rightarrow> 's \<Rightarrow> bool" where
  "agrees m s \<longleftrightarrow> (\<forall>t k v. view t s k = Some v \<longrightarrow> m k = Some v)"

lemma agrees_get: "agrees m s \<Longrightarrow> agrees m (snd (co_get ops now k s))"
  unfolding agrees_def using get_shrinks by blast

lemma agrees_has: "agrees m s \<Longrightarrow> agrees m (snd (co_has ops now k s))"
  unfolding agrees_def using has_shrinks by blast

lemma agrees_set:
  assumes "agrees m s"
  shows "agrees (m(k \<mapsto> v)) (co_set ops now k v ttl s)"
  unfolding agrees_def
proof (intro allI impI)
  fix t k' u
  assume "view t (co_set ops now k v ttl s) k' = Some u"
  from set_shrinks [OF this] assms show "(m(k \<mapsto> v)) k' = Some u" unfolding agrees_def by auto
qed

lemma agrees_same: "agrees m s \<Longrightarrow> m k = Some v \<Longrightarrow> agrees m (co_set ops now k v ttl s)"
  using agrees_set [of m s k v] by (simp add: map_upd_triv)

lemma agrees_delete:
  assumes "agrees m s"
  shows "agrees (m(k := None)) (co_delete ops k s)"
  unfolding agrees_def
proof (intro allI impI)
  fix t k' u
  assume "view t (co_delete ops k s) k' = Some u"
  from delete_shrinks [OF this] assms show "(m(k := None)) k' = Some u" unfolding agrees_def by auto
qed

lemma agrees_drop: "agrees m s \<Longrightarrow> agrees m (co_delete ops k s)"
  unfolding agrees_def using delete_shrinks by blast

lemma agrees_hit: "agrees m s \<Longrightarrow> fst (co_get ops now k s) = Some v \<Longrightarrow> m k = Some v"
  unfolding agrees_def get_view by blast

end

section \<open>The in-memory cache\<close>

record 'v cache_entry =
  ce_value :: 'v
  ce_expires_at :: "int option"

record 'v in_memory_cache =
  imc_store :: "(string, 'v cache_entry) jsmap"
  imc_max_entries :: int

definition imc_new :: "int option \<Rightarrow> 'v in_memory_cache" where
  "imc_new max_size = \<lparr>imc_store = [], imc_max_entries = (case max_size of Some n \<Rightarrow> n | None \<Rightarrow> 1000)\<rparr>"

definition imc_evict_oldest :: "'v in_memory_cache \<Rightarrow> 'v in_memory_cache" where
  "imc_evict_oldest c =
     (case jkeys (imc_store c) of [] \<Rightarrow> c | k # _ \<Rightarrow> c\<lparr>imc_store := jdelete k (imc_store c)\<rparr>)"

definition imc_get_sync :: "int \<Rightarrow> string \<Rightarrow> 'v in_memory_cache \<Rightarrow> 'v option \<times> 'v in_memory_cache" where
  "imc_get_sync now k c =
     (case jget (imc_store c) k of
        None \<Rightarrow> (None, c)
      | Some e \<Rightarrow>
          (if (case ce_expires_at e of Some t \<Rightarrow> now > t | None \<Rightarrow> False)
           then (None, c\<lparr>imc_store := jdelete k (imc_store c)\<rparr>)
           else (Some (ce_value e), c)))"

definition imc_set ::
  "int \<Rightarrow> string \<Rightarrow> 'v \<Rightarrow> int option \<Rightarrow> 'v in_memory_cache \<Rightarrow> 'v in_memory_cache" where
  "imc_set now k v ttl c =
     (let c1 = (if jsize (imc_store c) \<ge> imc_max_entries c \<and> \<not> jhas (imc_store c) k
                then imc_evict_oldest c else c)
      in c1\<lparr>imc_store := jset k \<lparr>ce_value = v, ce_expires_at = map_option (\<lambda>d. now + d) ttl\<rparr> (imc_store c1)\<rparr>)"

definition imc_delete :: "string \<Rightarrow> 'v in_memory_cache \<Rightarrow> 'v in_memory_cache" where
  "imc_delete k c = c\<lparr>imc_store := jdelete k (imc_store c)\<rparr>"

definition imc_has :: "int \<Rightarrow> string \<Rightarrow> 'v in_memory_cache \<Rightarrow> bool \<times> 'v in_memory_cache" where
  "imc_has now k c = (case imc_get_sync now k c of (r, c1) \<Rightarrow> (r \<noteq> None, c1))"

definition imc_size :: "'v in_memory_cache \<Rightarrow> int" where
  "imc_size c = jsize (imc_store c)"

definition imc_clear :: "'v in_memory_cache \<Rightarrow> 'v in_memory_cache" where
  "imc_clear c = c\<lparr>imc_store := []\<rparr>"

definition imc_ops :: "('v in_memory_cache, 'v) cache_ops" where
  "imc_ops = \<lparr>co_get = imc_get_sync, co_set = imc_set, co_delete = imc_delete, co_has = imc_has\<rparr>"

lemma imc_ops_simps [simp]:
  "co_get imc_ops = imc_get_sync" "co_set imc_ops = imc_set" "co_delete imc_ops = imc_delete"
  "co_has imc_ops = imc_has"
  by (simp_all add: imc_ops_def)

text \<open>What the cache shows at a time: the entries that have not expired.\<close>

definition imc_view :: "int \<Rightarrow> 'v in_memory_cache \<Rightarrow> string \<Rightarrow> 'v option" where
  "imc_view t c k =
     (case jget (imc_store c) k of
        Some e \<Rightarrow> (if (case ce_expires_at e of Some x \<Rightarrow> t > x | None \<Rightarrow> False) then None else Some (ce_value e))
      | None \<Rightarrow> None)"

lemma imc_view_evict: "imc_view t (imc_evict_oldest c) k = Some v \<Longrightarrow> imc_view t c k = Some v"
  by (auto simp: imc_evict_oldest_def imc_view_def split: list.splits if_splits option.splits)

interpretation memory_cache: cache_port imc_ops imc_view
proof
  fix now t d :: int and k k' :: string and s :: "'a in_memory_cache" and v u :: 'a and ttl
  show "fst (co_get imc_ops now k s) = imc_view now s k"
    by (auto simp: imc_get_sync_def imc_view_def split: option.splits)
  show "imc_view t (snd (co_get imc_ops now k s)) k' = Some v \<Longrightarrow> imc_view t s k' = Some v"
    by (auto simp: imc_get_sync_def imc_view_def split: option.splits if_splits)
  show "imc_view now (snd (co_get imc_ops now k s)) k = imc_view now s k"
    by (auto simp: imc_get_sync_def imc_view_def split: option.splits)
  show "ttl = None \<or> ttl = Some d \<and> 0 \<le> d \<Longrightarrow> imc_view now (co_set imc_ops now k v ttl s) k = Some v"
    by (auto simp: imc_set_def imc_view_def Let_def)
  show "imc_view t (co_set imc_ops now k v ttl s) k' = Some u \<Longrightarrow>
      (k' = k \<and> u = v) \<or> (k' \<noteq> k \<and> imc_view t s k' = Some u)"
    using imc_view_evict [of t s k' u]
    by (auto simp: imc_set_def imc_view_def Let_def split: if_splits option.splits)
  show "imc_view t (co_delete imc_ops k s) k' = Some u \<Longrightarrow> k' \<noteq> k \<and> imc_view t s k' = Some u"
    by (auto simp: imc_delete_def imc_view_def split: if_splits)
  show "fst (co_has imc_ops now k s) = (imc_view now s k \<noteq> None)"
    by (auto simp: imc_has_def imc_get_sync_def imc_view_def split: option.splits)
  show "imc_view t (snd (co_has imc_ops now k s)) k' = Some v \<Longrightarrow> imc_view t s k' = Some v"
    by (auto simp: imc_has_def imc_get_sync_def imc_view_def split: option.splits if_splits)
qed

text \<open>The operations on a cache in sequence.\<close>

datatype 'v cache_op = CacheGet int string | CacheSet int string 'v "int option" | CacheDelete string

fun imc_step :: "'v in_memory_cache \<Rightarrow> 'v cache_op \<Rightarrow> 'v in_memory_cache" where
  "imc_step c (CacheGet now k) = snd (imc_get_sync now k c)"
| "imc_step c (CacheSet now k v ttl) = imc_set now k v ttl c"
| "imc_step c (CacheDelete k) = imc_delete k c"

definition imc_ok :: "'v in_memory_cache \<Rightarrow> bool" where
  "imc_ok c \<longleftrightarrow> jwf (imc_store c) \<and> imc_size c \<le> max 1 (imc_max_entries c)"

lemma jsize_jdelete: "jwf m \<Longrightarrow> jsize (jdelete k m) = (if jhas m k then jsize m - 1 else jsize m)"
proof -
  assume wf: "jwf m"
  have "jkeys (jdelete k m) = remove1 k (jkeys m)"
    unfolding jkeys_jdelete distinct_remove1_removeAll [OF wf] removeAll_filter_not_eq
    by (rule filter_cong) auto
  then have "length (jkeys (jdelete k m)) = length (remove1 k (jkeys m))" by simp
  then show ?thesis
    using length_pos_if_in_set [of k "jkeys m"]
    by (auto simp: jhas_keys length_remove1 of_nat_diff Suc_leI)
qed

lemma imc_ok_step [inv_intros]: "imc_ok c \<Longrightarrow> imc_ok (imc_step c op)"
proof (cases op)
  case (CacheGet now k)
  assume "imc_ok c"
  with CacheGet show ?thesis
    by (auto simp: imc_ok_def imc_size_def imc_get_sync_def jwf_jdelete jsize_jdelete split: option.splits)
next
  case (CacheDelete k)
  assume "imc_ok c"
  with CacheDelete show ?thesis
    by (auto simp: imc_ok_def imc_size_def imc_delete_def jwf_jdelete jsize_jdelete)
next
  case (CacheSet now k v ttl)
  assume ok: "imc_ok c"
  let ?c1 = "if jsize (imc_store c) \<ge> imc_max_entries c \<and> \<not> jhas (imc_store c) k then imc_evict_oldest c else c"
  have wf: "jwf (imc_store ?c1)" and mx: "imc_max_entries ?c1 = imc_max_entries c"
    using ok by (auto simp: imc_ok_def imc_evict_oldest_def jwf_jdelete split: list.split)
  have len: "\<not> jhas (imc_store ?c1) k \<Longrightarrow> jsize (imc_store ?c1) + 1 \<le> max 1 (imc_max_entries c)"
    and len': "jsize (imc_store ?c1) \<le> max 1 (imc_max_entries c)"
    using ok by (cases "imc_store c";
        auto simp: imc_ok_def imc_size_def imc_evict_oldest_def jsize_jdelete jhas_def split: list.split if_splits)+
  from wf mx len len' show ?thesis
    unfolding CacheSet imc_step.simps imc_set_def Let_def imc_ok_def imc_size_def
    by (simp add: jwf_jset jsize_jset split: if_splits)
qed

interpretation memory_cache_size: invariant_machine imc_step imc_ok
  by unfold_locales (rule imc_ok_step)

section \<open>The two-level cache\<close>

definition ml_fetch_from_l2 ::
  "('a, 'v) cache_ops \<Rightarrow> ('b, 'v) cache_ops \<Rightarrow> int \<Rightarrow> string \<Rightarrow> 'a \<times> 'b \<Rightarrow> 'v option \<times> 'a \<times> 'b" where
  "ml_fetch_from_l2 l1 l2 now k s =
     (case co_get l2 now k (snd s) of
        (Some v, s2) \<Rightarrow> (Some v, co_set l1 now k v None (fst s), s2)
      | (None, s2) \<Rightarrow> (None, fst s, s2))"

definition ml_get ::
  "('a, 'v) cache_ops \<Rightarrow> ('b, 'v) cache_ops \<Rightarrow> int \<Rightarrow> string \<Rightarrow> 'a \<times> 'b \<Rightarrow> 'v option \<times> 'a \<times> 'b" where
  "ml_get l1 l2 now k s =
     (case co_get l1 now k (fst s) of
        (Some v, s1) \<Rightarrow> (Some v, s1, snd s)
      | (None, s1) \<Rightarrow> ml_fetch_from_l2 l1 l2 now k (s1, snd s))"

definition ml_set ::
  "('a, 'v) cache_ops \<Rightarrow> ('b, 'v) cache_ops \<Rightarrow> int \<Rightarrow> string \<Rightarrow> 'v \<Rightarrow> int option \<Rightarrow> 'a \<times> 'b \<Rightarrow> 'a \<times> 'b" where
  "ml_set l1 l2 now k v ttl s = (co_set l1 now k v ttl (fst s), co_set l2 now k v ttl (snd s))"

definition ml_delete ::
  "('a, 'v) cache_ops \<Rightarrow> ('b, 'v) cache_ops \<Rightarrow> string \<Rightarrow> 'a \<times> 'b \<Rightarrow> 'a \<times> 'b" where
  "ml_delete l1 l2 k s = (co_delete l1 k (fst s), co_delete l2 k (snd s))"

definition ml_has ::
  "('a, 'v) cache_ops \<Rightarrow> ('b, 'v) cache_ops \<Rightarrow> int \<Rightarrow> string \<Rightarrow> 'a \<times> 'b \<Rightarrow> bool \<times> 'a \<times> 'b" where
  "ml_has l1 l2 now k s =
     (case co_has l1 now k (fst s) of
        (True, s1) \<Rightarrow> (True, s1, snd s)
      | (False, s1) \<Rightarrow> (case co_has l2 now k (snd s) of (b, s2) \<Rightarrow> (b, s1, s2)))"

definition ml_invalidate_l1 :: "('a, 'v) cache_ops \<Rightarrow> string \<Rightarrow> 'a \<times> 'b \<Rightarrow> 'a \<times> 'b" where
  "ml_invalidate_l1 l1 k s = (co_delete l1 k (fst s), snd s)"

text \<open>
  \<open>getOrCompute\<close> of a caller that finds nobody else computing the key; \<open>fn\<close> runs on a world of its
  own and may throw.  The interleaving of several callers is the state machine further below.
\<close>

definition ml_run_computation ::
  "('a, 'v) cache_ops \<Rightarrow> ('b, 'v) cache_ops \<Rightarrow> int \<Rightarrow> string \<Rightarrow> ('w \<Rightarrow> (js_error, 'v) outcome \<times> 'w) \<Rightarrow>
   int option \<Rightarrow> ('a \<times> 'b) \<times> 'w \<Rightarrow> (js_error, 'v) outcome \<times> ('a \<times> 'b) \<times> 'w" where
  "ml_run_computation l1 l2 now k fn ttl s =
     (case fn (snd s) of
        (Inl e, w) \<Rightarrow> (Inl e, fst s, w)
      | (Inr v, w) \<Rightarrow> (Inr v, ml_set l1 l2 now k v ttl (fst s), w))"

definition ml_get_or_compute ::
  "('a, 'v) cache_ops \<Rightarrow> ('b, 'v) cache_ops \<Rightarrow> int \<Rightarrow> string \<Rightarrow> ('w \<Rightarrow> (js_error, 'v) outcome \<times> 'w) \<Rightarrow>
   int option \<Rightarrow> ('a \<times> 'b) \<times> 'w \<Rightarrow> (js_error, 'v) outcome \<times> ('a \<times> 'b) \<times> 'w" where
  "ml_get_or_compute l1 l2 now k fn ttl s =
     (case ml_get l1 l2 now k (fst s) of
        (Some v, c) \<Rightarrow> (Inr v, c, snd s)
      | (None, c) \<Rightarrow> ml_run_computation l1 l2 now k fn ttl (c, snd s))"

lemmas ml_defs = ml_get_def ml_fetch_from_l2_def ml_set_def ml_delete_def ml_has_def ml_invalidate_l1_def

datatype 'v ml_op =
    MlGet int string | MlSet int string 'v "int option" | MlDelete string | MlHas int string | MlInvalidate string

fun ml_step :: "('a, 'v) cache_ops \<Rightarrow> ('b, 'v) cache_ops \<Rightarrow> 'a \<times> 'b \<Rightarrow> 'v ml_op \<Rightarrow> 'a \<times> 'b" where
  "ml_step l1 l2 s (MlGet now k) = snd (ml_get l1 l2 now k s)"
| "ml_step l1 l2 s (MlSet now k v ttl) = ml_set l1 l2 now k v ttl s"
| "ml_step l1 l2 s (MlDelete k) = ml_delete l1 l2 k s"
| "ml_step l1 l2 s (MlHas now k) = snd (ml_has l1 l2 now k s)"
| "ml_step l1 l2 s (MlInvalidate k) = ml_invalidate_l1 l1 k s"

text \<open>The reference: the last value written for each key and not deleted since.\<close>

fun last_written :: "'v ml_op \<Rightarrow> (string \<Rightarrow> 'v option) \<Rightarrow> string \<Rightarrow> 'v option" where
  "last_written (MlSet now k v ttl) m = m(k \<mapsto> v)"
| "last_written (MlDelete k) m = m(k := None)"
| "last_written op m = m"

locale two_levels =
  l1: cache_port ops1 view1 + l2: cache_port ops2 view2
  for ops1 :: "('a, 'v) cache_ops" and view1 and ops2 :: "('b, 'v) cache_ops" and view2
begin

definition fresh :: "(string \<Rightarrow> 'v option) \<Rightarrow> 'a \<times> 'b \<Rightarrow> bool" where
  "fresh m s \<longleftrightarrow> l1.agrees m (fst s) \<and> l2.agrees m (snd s)"

lemma get_result:
  "fst (ml_get ops1 ops2 now k s) =
     (case view1 now (fst s) k of Some v \<Rightarrow> Some v | None \<Rightarrow> view2 now (snd s) k)"
  using l1.get_view [of now k "fst s"] l2.get_view [of now k "snd s"]
  by (auto simp: ml_defs split: prod.splits option.splits)

lemma fresh_get: "fresh m s \<Longrightarrow> fresh m (snd (ml_get ops1 ops2 now k s))"
proof -
  assume f: "fresh m s"
  obtain r1 s1 where g1: "co_get ops1 now k (fst s) = (r1, s1)" by fastforce
  obtain r2 s2 where g2: "co_get ops2 now k (snd s) = (r2, s2)" by fastforce
  have a1: "l1.agrees m s1" using f l1.agrees_get [of m "fst s" now k] g1 by (simp add: fresh_def)
  have a2: "l2.agrees m s2" using f l2.agrees_get [of m "snd s" now k] g2 by (simp add: fresh_def)
  have "r2 = Some v \<Longrightarrow> l1.agrees m (co_set ops1 now k v None s1)" for v
    using l2.agrees_hit [of m "snd s" now k v] f g2 a1 by (simp add: fresh_def l1.agrees_same)
  with a1 a2 f g1 g2 show ?thesis
    by (cases r1; cases r2) (simp_all add: fresh_def ml_defs)
qed

lemma fresh_step: "fresh m s \<Longrightarrow> fresh (last_written op m) (ml_step ops1 ops2 s op)"
proof (cases op)
  case (MlHas now k)
  assume "fresh m s"
  then show ?thesis
    using l1.agrees_has [of m "fst s" now k] l2.agrees_has [of m "snd s" now k]
    by (auto simp: MlHas fresh_def ml_has_def split: prod.split bool.split)
next
  case (MlGet now k)
  assume "fresh m s"
  with MlGet show ?thesis by (simp add: fresh_get)
qed (simp_all add: fresh_def ml_defs l1.agrees_set l2.agrees_set l1.agrees_delete l2.agrees_delete l1.agrees_drop)

lemma fresh_run: "fresh m s \<Longrightarrow> fresh (fold last_written ops m) (foldl (ml_step ops1 ops2) s ops)"
  by (induction ops arbitrary: m s) (simp_all add: fresh_step)

text \<open>A hit is always the value written last, whatever was evicted, expired or promoted.\<close>

lemma hit_is_last_written:
  assumes "fresh m s" "fst (ml_get ops1 ops2 now k (foldl (ml_step ops1 ops2) s ops)) = Some v"
  shows "fold last_written ops m k = Some v"
  using fresh_run [OF assms(1), of ops] assms(2)
  by (auto simp: get_result fresh_def l1.agrees_def l2.agrees_def split: option.splits)

lemma write_then_read:
  "ttl = None \<or> ttl = Some d \<and> 0 \<le> d \<Longrightarrow> fst (ml_get ops1 ops2 now k (ml_set ops1 ops2 now k v ttl s)) = Some v"
  by (simp add: get_result ml_set_def l1.set_shows)

lemma delete_then_read: "fst (ml_get ops1 ops2 now k (ml_delete ops1 ops2 k s)) = None"
proof -
  have "view1 now (co_delete ops1 k (fst s)) k = None" "view2 now (co_delete ops2 k (snd s)) k = None"
    using l1.delete_shrinks [of now k "fst s" k] l2.delete_shrinks [of now k "snd s" k] by (metis not_Some_eq)+
  then show ?thesis by (simp add: get_result ml_delete_def)
qed

text \<open>Compute on a miss only, and then find the computed value.\<close>

lemma get_or_compute_result:
  "ml_get_or_compute ops1 ops2 now k fn ttl (s, w) =
     (case fst (ml_get ops1 ops2 now k s) of
        Some v \<Rightarrow> (Inr v, snd (ml_get ops1 ops2 now k s), w)
      | None \<Rightarrow> (case fn w of
            (Inl e, w1) \<Rightarrow> (Inl e, snd (ml_get ops1 ops2 now k s), w1)
          | (Inr v, w1) \<Rightarrow> (Inr v, ml_set ops1 ops2 now k v ttl (snd (ml_get ops1 ops2 now k s)), w1)))"
  by (auto simp: ml_get_or_compute_def ml_run_computation_def split: prod.splits option.splits sum.splits)

end

interpretation memory_levels: two_levels imc_ops imc_view imc_ops imc_view
  by unfold_locales

section \<open>Concurrent computations\<close>

text \<open>
  The callers of \<open>getOrCompute\<close>, split at the awaits.  A caller is first in its cache read; on a miss
  it finds the key in flight and waits for that lock, or it registers its own lock and computes.
  When the computation it waits for has finished, it reads again; on a second miss it computes
  without looking at the locks.  A lock is named by the caller that created it.
\<close>

datatype flight_phase =
    Reading string
  | Waiting string nat
  | Rereading string
  | Computing string
  | Finished

record flights =
  fl_inflight :: "(string, nat) jsmap"
  fl_phase :: "(nat, flight_phase) jsmap"

datatype flight_event =
    Arrive nat string
  | ReadDone nat bool
  | Wake nat
  | RereadDone nat bool
  | ComputeDone nat

definition fl_run_computation :: "nat \<Rightarrow> string \<Rightarrow> flights \<Rightarrow> flights" where
  "fl_run_computation c k f =
     f\<lparr>fl_inflight := jset k c (fl_inflight f), fl_phase := jset c (Computing k) (fl_phase f)\<rparr>"

definition fl_compute_with_lock :: "nat \<Rightarrow> string \<Rightarrow> flights \<Rightarrow> flights" where
  "fl_compute_with_lock c k f =
     (case jget (fl_inflight f) k of
        Some l \<Rightarrow> f\<lparr>fl_phase := jset c (Waiting k l) (fl_phase f)\<rparr>
      | None \<Rightarrow> fl_run_computation c k f)"

fun flight_step :: "flights \<Rightarrow> flight_event \<Rightarrow> flights" where
  "flight_step f (Arrive c k) =
     (if jhas (fl_phase f) c then f else f\<lparr>fl_phase := jset c (Reading k) (fl_phase f)\<rparr>)"
| "flight_step f (ReadDone c hit) =
     (case jget (fl_phase f) c of
        Some (Reading k) \<Rightarrow>
          (if hit then f\<lparr>fl_phase := jset c Finished (fl_phase f)\<rparr> else fl_compute_with_lock c k f)
      | _ \<Rightarrow> f)"
| "flight_step f (Wake c) =
     (case jget (fl_phase f) c of
        Some (Waiting k l) \<Rightarrow>
          (if jget (fl_phase f) l = Some Finished
           then f\<lparr>fl_phase := jset c (Rereading k) (fl_phase f)\<rparr> else f)
      | _ \<Rightarrow> f)"
| "flight_step f (RereadDone c hit) =
     (case jget (fl_phase f) c of
        Some (Rereading k) \<Rightarrow>
          (if hit then f\<lparr>fl_phase := jset c Finished (fl_phase f)\<rparr> else fl_run_computation c k f)
      | _ \<Rightarrow> f)"
| "flight_step f (ComputeDone c) =
     (case jget (fl_phase f) c of
        Some (Computing k) \<Rightarrow>
          f\<lparr>fl_inflight := jdelete k (fl_inflight f), fl_phase := jset c Finished (fl_phase f)\<rparr>
      | _ \<Rightarrow> f)"

definition no_flights :: flights where
  "no_flights = \<lparr>fl_inflight = [], fl_phase = []\<rparr>"

definition single_flight :: "flights \<Rightarrow> bool" where
  "single_flight f \<longleftrightarrow> (\<forall>c k. jget (fl_phase f) c = Some (Computing k) \<longleftrightarrow> jget (fl_inflight f) k = Some c)"

lemma single_flight_step:
  assumes "single_flight f" "\<forall>c. ev \<noteq> RereadDone c False"
  shows "single_flight (flight_step f ev)"
proof (cases ev)
  case (Arrive c k)
  show ?thesis
  proof (cases "jhas (fl_phase f) c")
    case False
    then have nc: "jget (fl_inflight f) k' \<noteq> Some c" for k'
      using assms(1) unfolding single_flight_def jhas_def by (metis option.distinct(1))
    with False assms(1) Arrive show ?thesis by (auto simp: single_flight_def jhas_def)
  qed (use assms(1) Arrive in simp)
next
  case (ReadDone c hit)
  show ?thesis
  proof (cases "\<exists>k. jget (fl_phase f) c = Some (Reading k)")
    case True
    then obtain k where k: "jget (fl_phase f) c = Some (Reading k)" by blast
    then have nc: "jget (fl_inflight f) k' \<noteq> Some c" for k'
      using assms(1) unfolding single_flight_def by (metis flight_phase.distinct(5) option.inject)
    with k assms(1) ReadDone show ?thesis
      by (auto simp: single_flight_def fl_compute_with_lock_def fl_run_computation_def split: option.splits)
  next
    case False
    with assms(1) ReadDone show ?thesis by (auto split: option.split flight_phase.split)
  qed
next
  case (Wake c)
  show ?thesis
  proof (cases "\<exists>k l. jget (fl_phase f) c = Some (Waiting k l)")
    case True
    then obtain k l where k: "jget (fl_phase f) c = Some (Waiting k l)" by blast
    then have nc: "jget (fl_inflight f) k' \<noteq> Some c" for k'
      using assms(1) unfolding single_flight_def by (metis flight_phase.distinct(11) option.inject)
    with k assms(1) Wake show ?thesis by (auto simp: single_flight_def)
  next
    case False
    with assms(1) Wake show ?thesis by (auto split: option.split flight_phase.split)
  qed
next
  case (RereadDone c hit)
  with assms(2) have hit: hit by auto
  show ?thesis
  proof (cases "\<exists>k. jget (fl_phase f) c = Some (Rereading k)")
    case True
    then obtain k where k: "jget (fl_phase f) c = Some (Rereading k)" by blast
    then have nc: "jget (fl_inflight f) k' \<noteq> Some c" for k'
      using assms(1) unfolding single_flight_def by (metis flight_phase.distinct(15) option.inject)
    with k hit assms(1) RereadDone show ?thesis by (auto simp: single_flight_def)
  next
    case False
    with assms(1) RereadDone show ?thesis by (auto split: option.split flight_phase.split)
  qed
next
  case (ComputeDone c)
  show ?thesis
  proof (cases "\<exists>k. jget (fl_phase f) c = Some (Computing k)")
    case True
    then obtain k where k: "jget (fl_phase f) c = Some (Computing k)" by blast
    have "jget (fl_phase f) d \<noteq> Some (Computing k)" if "d \<noteq> c" for d
      using assms(1) k that unfolding single_flight_def by (metis option.inject)
    moreover have "jget (fl_inflight f) k' \<noteq> Some c" if "k' \<noteq> k" for k'
      using assms(1) k that unfolding single_flight_def by (metis flight_phase.inject(4) option.inject)
    moreover have "flight_step f ev =
        f\<lparr>fl_inflight := jdelete k (fl_inflight f), fl_phase := jset c Finished (fl_phase f)\<rparr>"
      using k ComputeDone by simp
    ultimately show ?thesis using assms(1) by (auto simp: single_flight_def)
  next
    case False
    with assms(1) ComputeDone show ?thesis by (auto split: option.split flight_phase.split)
  qed
qed

section \<open>The tag registry\<close>

record tag_registry =
  tr_tag_to_keys :: "(string, string list) jsmap"
  tr_key_to_tags :: "(string, string list) jsmap"

definition tag_registry_new :: tag_registry where
  "tag_registry_new = \<lparr>tr_tag_to_keys = [], tr_key_to_tags = []\<rparr>"

definition add_to_tag_index :: "string \<Rightarrow> string \<Rightarrow> tag_registry \<Rightarrow> tag_registry" where
  "add_to_tag_index k t r =
     r\<lparr>tr_tag_to_keys :=
       jset t (set_add k (case jget (tr_tag_to_keys r) t of Some ks \<Rightarrow> ks | None \<Rightarrow> [])) (tr_tag_to_keys r)\<rparr>"

definition add_to_key_index :: "string \<Rightarrow> string list \<Rightarrow> tag_registry \<Rightarrow> tag_registry" where
  "add_to_key_index k ts r =
     r\<lparr>tr_key_to_tags :=
       jset k (fold set_add ts (case jget (tr_key_to_tags r) k of Some xs \<Rightarrow> xs | None \<Rightarrow> [])) (tr_key_to_tags r)\<rparr>"

definition registry_tag :: "string \<Rightarrow> string list \<Rightarrow> tag_registry \<Rightarrow> tag_registry" where
  "registry_tag k ts r = add_to_key_index k ts (fold (add_to_tag_index k) ts r)"

definition get_keys_by_tag :: "tag_registry \<Rightarrow> string \<Rightarrow> string list" where
  "get_keys_by_tag r t = (case jget (tr_tag_to_keys r) t of Some ks \<Rightarrow> ks | None \<Rightarrow> [])"

definition get_tags_by_key :: "tag_registry \<Rightarrow> string \<Rightarrow> string list" where
  "get_tags_by_key r k = (case jget (tr_key_to_tags r) k of Some ts \<Rightarrow> ts | None \<Rightarrow> [])"

text \<open>\<open>map.get(k)?.delete(x)\<close>\<close>

definition delete_in :: "'k \<Rightarrow> 'a \<Rightarrow> ('k, 'a list) jsmap \<Rightarrow> ('k, 'a list) jsmap" where
  "delete_in k x m = (case jget m k of Some xs \<Rightarrow> jset k (set_remove x xs) m | None \<Rightarrow> m)"

definition registry_remove_key :: "string \<Rightarrow> tag_registry \<Rightarrow> tag_registry" where
  "registry_remove_key k r =
     (let r1 = (case jget (tr_key_to_tags r) k of
            Some ts \<Rightarrow> r\<lparr>tr_tag_to_keys := fold (\<lambda>t. delete_in t k) ts (tr_tag_to_keys r)\<rparr>
          | None \<Rightarrow> r)
      in r1\<lparr>tr_key_to_tags := jdelete k (tr_key_to_tags r1)\<rparr>)"

definition registry_remove_tag :: "string \<Rightarrow> tag_registry \<Rightarrow> string list \<times> tag_registry" where
  "registry_remove_tag t r =
     (case jget (tr_tag_to_keys r) t of
        None \<Rightarrow> ([], r)
      | Some ks \<Rightarrow>
          (ks, r\<lparr>tr_key_to_tags := fold (\<lambda>k. delete_in k t) ks (tr_key_to_tags r),
                 tr_tag_to_keys := jdelete t (tr_tag_to_keys r)\<rparr>))"

definition registry_clear :: "tag_registry \<Rightarrow> tag_registry" where
  "registry_clear r = \<lparr>tr_tag_to_keys = [], tr_key_to_tags = []\<rparr>"

definition registry_tag_count :: "tag_registry \<Rightarrow> int" where
  "registry_tag_count r = jsize (tr_tag_to_keys r)"

definition registry_key_count :: "tag_registry \<Rightarrow> int" where
  "registry_key_count r = jsize (tr_key_to_tags r)"

datatype tag_op = TagOp string "string list" | RemoveKeyOp string | RemoveTagOp string

fun tag_step :: "tag_registry \<Rightarrow> tag_op \<Rightarrow> tag_registry" where
  "tag_step r (TagOp k ts) = registry_tag k ts r"
| "tag_step r (RemoveKeyOp k) = registry_remove_key k r"
| "tag_step r (RemoveTagOp t) = snd (registry_remove_tag t r)"

text \<open>The specification: a relation between keys and tags.\<close>

fun relation_step :: "(string \<times> string) set \<Rightarrow> tag_op \<Rightarrow> (string \<times> string) set" where
  "relation_step R (TagOp k ts) = R \<union> {k} \<times> set ts"
| "relation_step R (RemoveKeyOp k) = {p \<in> R. fst p \<noteq> k}"
| "relation_step R (RemoveTagOp t) = {p \<in> R. snd p \<noteq> t}"

definition tagging :: "tag_registry \<Rightarrow> (string \<times> string) set" where
  "tagging r = {(k, t). t \<in> set (get_tags_by_key r k)}"

definition tags_ok :: "tag_registry \<Rightarrow> bool" where
  "tags_ok r \<longleftrightarrow> (\<forall>k t. k \<in> set (get_keys_by_tag r t) \<longleftrightarrow> t \<in> set (get_tags_by_key r k))"

lemma keys_add_tags:
  "set (get_keys_by_tag (fold (add_to_tag_index k) ts r) t) =
     (if t \<in> set ts then insert k (set (get_keys_by_tag r t)) else set (get_keys_by_tag r t))
   \<and> tr_key_to_tags (fold (add_to_tag_index k) ts r) = tr_key_to_tags r"
proof (induction ts arbitrary: r)
  case (Cons x ts)
  have "set (get_keys_by_tag (add_to_tag_index k x r) t) =
      (if t = x then insert k (set (get_keys_by_tag r t)) else set (get_keys_by_tag r t))"
    by (auto simp: get_keys_by_tag_def add_to_tag_index_def split: option.splits)
  with Cons [of "add_to_tag_index k x r"] show ?case by (auto simp: add_to_tag_index_def)
qed simp

lemma registry_tag_sets:
  "set (get_keys_by_tag (registry_tag k ts r) t) =
     (if t \<in> set ts then insert k (set (get_keys_by_tag r t)) else set (get_keys_by_tag r t))"
  "set (get_tags_by_key (registry_tag k ts r) k') =
     (if k' = k then set ts \<union> set (get_tags_by_key r k) else set (get_tags_by_key r k'))"
  using keys_add_tags [of k ts r t]
  by (auto simp: registry_tag_def add_to_key_index_def get_keys_by_tag_def get_tags_by_key_def
      set_fold_add keys_add_tags split: option.splits)

lemma fold_delete_in:
  "(case jget (fold (\<lambda>t. delete_in t x) ts m) t of Some ks \<Rightarrow> set ks | None \<Rightarrow> {}) =
     (case jget m t of Some ks \<Rightarrow> set ks | None \<Rightarrow> {}) - (if t \<in> set ts then {x} else {})"
  by (induction ts arbitrary: m) (auto simp: delete_in_def split: option.splits)

lemma keys_of_tag: "set (get_keys_by_tag r t) = (case jget (tr_tag_to_keys r) t of Some ks \<Rightarrow> set ks | None \<Rightarrow> {})"
  and tags_of_key: "set (get_tags_by_key r k) = (case jget (tr_key_to_tags r) k of Some ts \<Rightarrow> set ts | None \<Rightarrow> {})"
  by (simp_all add: get_keys_by_tag_def get_tags_by_key_def split: option.split)

lemma remove_key_sets:
  assumes "tags_ok r"
  shows "set (get_keys_by_tag (registry_remove_key k r) t) = set (get_keys_by_tag r t) - {k}"
    and "set (get_tags_by_key (registry_remove_key k r) k') = (if k' = k then {} else set (get_tags_by_key r k'))"
proof -
  show "set (get_tags_by_key (registry_remove_key k r) k') = (if k' = k then {} else set (get_tags_by_key r k'))"
    by (auto simp: registry_remove_key_def Let_def tags_of_key split: option.splits)
  show "set (get_keys_by_tag (registry_remove_key k r) t) = set (get_keys_by_tag r t) - {k}"
  proof (cases "jget (tr_key_to_tags r) k")
    case None
    then have "k \<notin> set (get_keys_by_tag r t)" using assms by (simp add: tags_ok_def tags_of_key)
    with None show ?thesis by (simp add: registry_remove_key_def keys_of_tag)
  next
    case (Some ts)
    then have "k \<in> set (get_keys_by_tag r t) \<longleftrightarrow> t \<in> set ts" using assms by (simp add: tags_ok_def tags_of_key)
    with Some show ?thesis
      by (auto simp: registry_remove_key_def keys_of_tag fold_delete_in)
  qed
qed

lemma remove_tag_sets:
  assumes "tags_ok r"
  shows "set (get_keys_by_tag (snd (registry_remove_tag t r)) t') = (if t' = t then {} else set (get_keys_by_tag r t'))"
    and "set (get_tags_by_key (snd (registry_remove_tag t r)) k) = set (get_tags_by_key r k) - {t}"
proof -
  show "set (get_keys_by_tag (snd (registry_remove_tag t r)) t') = (if t' = t then {} else set (get_keys_by_tag r t'))"
    by (auto simp: registry_remove_tag_def keys_of_tag split: option.splits)
  show "set (get_tags_by_key (snd (registry_remove_tag t r)) k) = set (get_tags_by_key r k) - {t}"
  proof (cases "jget (tr_tag_to_keys r) t")
    case None
    then have "set (get_keys_by_tag r t) = {}" by (simp add: keys_of_tag)
    then have "t \<notin> set (get_tags_by_key r k)" using assms unfolding tags_ok_def by (metis empty_iff)
    with None show ?thesis by (simp add: registry_remove_tag_def)
  next
    case (Some ks)
    then have "set (get_keys_by_tag r t) = set ks" by (simp add: keys_of_tag)
    then have "t \<in> set (get_tags_by_key r k) \<longleftrightarrow> k \<in> set ks" using assms unfolding tags_ok_def by metis
    with Some show ?thesis
      by (auto simp: registry_remove_tag_def tags_of_key fold_delete_in)
  qed
qed

lemma tags_ok_step [inv_intros]: "tags_ok r \<Longrightarrow> tags_ok (tag_step r op)"
  by (cases op) (auto simp: tags_ok_def registry_tag_sets
      remove_key_sets [unfolded tags_ok_def] remove_tag_sets [unfolded tags_ok_def])

lemma tagging_step: "tags_ok r \<Longrightarrow> tagging (tag_step r op) = relation_step (tagging r) op"
  by (cases op) (auto simp: tagging_def registry_tag_sets remove_key_sets remove_tag_sets split: if_splits)

interpretation tag_index: refines_machine tag_step relation_step tagging tags_ok
  by unfold_locales (simp_all add: tags_ok_step tagging_step)

section \<open>The warmer\<close>

text \<open>A warmer's function produces its items on a world of its own and may throw.\<close>

type_synonym ('v, 'w) warm_fn = "'w \<Rightarrow> (js_error, (string \<times> 'v \<times> int option) list) outcome \<times> 'w"

fun write_items :: "('s, 'v) cache_ops \<Rightarrow> int \<Rightarrow> (string \<times> 'v \<times> int option) list \<Rightarrow> 's \<Rightarrow> 's" where
  "write_items ops now [] s = s"
| "write_items ops now ((k, v, ttl) # items) s = write_items ops now items (co_set ops now k v ttl s)"

definition warm ::
  "('s, 'v) cache_ops \<Rightarrow> int \<Rightarrow> (string, ('v, 'w) warm_fn) jsmap \<Rightarrow> string \<Rightarrow> 's \<times> 'w \<Rightarrow>
   (js_error, string \<times> int) outcome \<times> 's \<times> 'w" where
  "warm ops now warmers name sw =
     (case jget warmers name of
        None \<Rightarrow> (Inl (plain_error (''No warmer registered with name \"'' @ name @ ''\"'')), sw)
      | Some fn \<Rightarrow>
          (case fn (snd sw) of
             (Inl e, w) \<Rightarrow> (Inl e, fst sw, w)
           | (Inr items, w) \<Rightarrow> (Inr (name, int (length items)), write_items ops now items (fst sw), w)))"

fun warm_names ::
  "('s, 'v) cache_ops \<Rightarrow> int \<Rightarrow> (string, ('v, 'w) warm_fn) jsmap \<Rightarrow> string list \<Rightarrow> (string \<times> int) list \<Rightarrow>
   's \<times> 'w \<Rightarrow> (js_error, (string \<times> int) list) outcome \<times> 's \<times> 'w" where
  "warm_names ops now warmers [] results sw = (Inr results, sw)"
| "warm_names ops now warmers (n # ns) results sw =
     (case warm ops now warmers n sw of
        (Inl e, sw1) \<Rightarrow> (Inl e, sw1)
      | (Inr r, sw1) \<Rightarrow> warm_names ops now warmers ns (results @ [r]) sw1)"

definition warm_all where
  "warm_all ops now warmers sw = warm_names ops now warmers (jkeys warmers) [] sw"

section \<open>Properties\<close>

text \<open>The in-memory cache never holds more than \<open>max 1 maxSize\<close> entries, whatever is done to it.\<close>

theorem memory_cache_bounded:
  "imc_size (foldl imc_step (imc_new max_size) ops)
     \<le> max 1 (case max_size of Some n \<Rightarrow> n | None \<Rightarrow> 1000)"
proof -
  have "imc_ok (imc_new max_size)" by (simp add: imc_ok_def imc_new_def imc_size_def)
  from memory_cache_size.run_keeps [OF this]
  have "imc_ok (foldl imc_step (imc_new max_size) ops)" .
  moreover have "imc_max_entries (foldl imc_step c ops) = imc_max_entries c" for c :: "'a in_memory_cache"
  proof (induction ops arbitrary: c)
    case (Cons op ops)
    have "imc_max_entries (imc_step c op) = imc_max_entries c"
      by (cases op) (auto simp: imc_get_sync_def imc_set_def imc_delete_def imc_evict_oldest_def Let_def
          split: option.split list.split)
    with Cons show ?case by simp
  qed simp
  ultimately show ?thesis by (simp add: imc_ok_def) (simp add: imc_new_def)
qed



text \<open>A value promoted from the second level loses its time to live: after a write with a time to
  live, an eviction from the first level and a read before the expiry, the value is served at every
  later time although it has expired in the second level.\<close>

theorem promotion_drops_expiry:
  assumes "0 \<le> d" "t0 \<le> t1" "t1 \<le> t0 + d" "t0 + d < t2"
  shows "let s = foldl (ml_step imc_ops imc_ops) s0 [MlSet t0 k v (Some d), MlInvalidate k, MlGet t1 k]
    in imc_view t2 (snd s) k = None \<and> fst (ml_get imc_ops imc_ops t2 k s) = Some v"
  using assms
  by (simp add: Let_def ml_defs imc_set_def imc_get_sync_def imc_delete_def imc_view_def)

theorem promotion_drops_expiry_witness:
  "fst (ml_get imc_ops imc_ops 1000 ''k''
     (foldl (ml_step imc_ops imc_ops) (imc_new None, imc_new None)
       [MlSet 0 ''k'' (7::int) (Some 10), MlInvalidate ''k'', MlGet 5 ''k''])) = Some 7"
  using promotion_drops_expiry [of 10 0 5 1000 "(imc_new None, imc_new None)" "''k''" "7::int"]
  by (simp add: Let_def)

text \<open>C24: However the callers interleave, at most one of them computes a key at a time, as long as every
  caller that waited for a computation finds its value.\<close>

theorem get_or_compute_single_flight:
  assumes "\<forall>c. RereadDone c False \<notin> set evs"
    and "f = foldl flight_step no_flights evs"
    and "jget (fl_phase f) c = Some (Computing k)" "jget (fl_phase f) d = Some (Computing k)"
  shows "c = d"
proof -
  have "single_flight g \<Longrightarrow> single_flight (foldl flight_step g evs)" for g
    using assms(1) by (induction evs arbitrary: g) (simp, simp, metis single_flight_step)
  then have "single_flight f" unfolding assms(2) by (simp add: single_flight_def no_flights_def)
  with assms(3,4) show ?thesis unfolding single_flight_def by simp
qed

theorem get_or_compute_single_flight_witness:
  "jget (fl_phase (foldl flight_step no_flights [Arrive 1 ''k'', Arrive 2 ''k'', ReadDone 1 False, ReadDone 2 False])) 2
     \<noteq> Some (Computing ''k'')"
proof -
  let ?evs = "[Arrive 1 ''k'', Arrive 2 ''k'', ReadDone 1 False, ReadDone 2 False]"
  have "jget (fl_phase (foldl flight_step no_flights ?evs)) 1 = Some (Computing ''k'')"
    by (simp add: no_flights_def fl_compute_with_lock_def fl_run_computation_def jhas_def)
  note first = this
  show ?thesis
  proof
    assume "jget (fl_phase (foldl flight_step no_flights ?evs)) 2 = Some (Computing ''k'')"
    from get_or_compute_single_flight [OF _ refl first this] show False by simp
  qed
qed

text \<open>After a failed computation every caller that waited for it computes the key again, at the same
  time.\<close>

theorem failed_computation_stampede:
  "let f = foldl flight_step no_flights
     [Arrive 1 k, Arrive 2 k, Arrive 3 k, ReadDone 1 False, ReadDone 2 False, ReadDone 3 False,
      ComputeDone 1, Wake 2, Wake 3, RereadDone 2 False, RereadDone 3 False]
   in jget (fl_phase f) 2 = Some (Computing k) \<and> jget (fl_phase f) 3 = Some (Computing k)"
  by (simp add: no_flights_def fl_compute_with_lock_def fl_run_computation_def jhas_def Let_def)

text \<open>The registry's two indexes are inverse to each other after any operations, and together they are
  the relation between keys and tags that the operations describe; removing a tag returns exactly
  the keys that carry it.\<close>

theorem tag_registry_is_relation:
  fixes ops
  defines "r \<equiv> foldl tag_step tag_registry_new ops"
  shows "(k \<in> set (get_keys_by_tag r t) \<longleftrightarrow> (k, t) \<in> foldl relation_step {} ops)
    \<and> (t \<in> set (get_tags_by_key r k) \<longleftrightarrow> (k, t) \<in> foldl relation_step {} ops)
    \<and> (k \<in> set (fst (registry_remove_tag t r)) \<longleftrightarrow> (k, t) \<in> foldl relation_step {} ops)"
proof -
  have "tags_ok tag_registry_new" "tagging tag_registry_new = {}"
    by (simp_all add: tags_ok_def tagging_def tag_registry_new_def get_keys_by_tag_def get_tags_by_key_def)
  with tag_index.abs_run [of tag_registry_new ops]
  have "tagging r = foldl relation_step {} ops" "tags_ok r" by (simp_all add: r_def)
  moreover have "fst (registry_remove_tag t r) = get_keys_by_tag r t"
    by (simp add: registry_remove_tag_def get_keys_by_tag_def split: option.split)
  ultimately show ?thesis by (auto simp: tagging_def tags_ok_def)
qed

end
