(* ===== verification/Bloom.thy ===== *)
theory Bloom
  imports Prelude "HOL-Library.Word"
begin

unbundle bit_operations_syntax

text \<open>
  The Bloom filter of the cache (\<open>packages/cache-redis/src/strategies/BloomFilter.ts\<close>).  Its bytes are
  8-bit words and its hash works on 32-bit words, converted from and to numbers as \<open>Math.imul\<close> and
  the bit operators convert them; an item is its UTF-16 code units.  Numbers are exact: the code's
  start value \<open>(seed + 1) * 2654435761\<close> is below \<open>2 ^ 53\<close> for the hash counts one can use (below
  three million).
\<close>

type_synonym code_units = "16 word list"

record bloom_filter =
  bf_bits :: "8 word list"
  bf_size :: int
  bf_hashes :: int
  bf_items :: int

definition bloom_new :: "int \<Rightarrow> int \<Rightarrow> bloom_filter" where
  "bloom_new bit_size hash_count =
     \<lparr>bf_bits = replicate (nat ((bit_size + 7) div 8)) 0, bf_size = bit_size, bf_hashes = hash_count,
      bf_items = 0\<rparr>"

section \<open>Hashing\<close>

definition hash_step :: "int \<Rightarrow> 16 word \<Rightarrow> int" where
  "hash_step h c =
     (let x = (word_of_int h :: 32 word) XOR ucast c; y = x * 2246822519
      in sint (y XOR drop_bit 13 y))"

fun hash_loop :: "int \<Rightarrow> code_units \<Rightarrow> int" where
  "hash_loop h [] = h"
| "hash_loop h (c # cs) = hash_loop (hash_step h c) cs"

definition bloom_hash :: "code_units \<Rightarrow> int \<Rightarrow> int" where
  "bloom_hash item seed = \<bar>hash_loop ((seed + 1) * 2654435761) item\<bar>"

section \<open>Bits\<close>

text \<open>Writing outside a \<open>Uint8Array\<close> does nothing, reading outside gives \<open>undefined\<close>.\<close>

definition byte_at :: "8 word list \<Rightarrow> nat \<Rightarrow> 8 word" where
  "byte_at bits i = (if i < length bits then bits ! i else 0)"

definition bloom_set_bit :: "int \<Rightarrow> 8 word list \<Rightarrow> 8 word list" where
  "bloom_set_bit position bits =
     (let byte_index = nat (position div 8); bit_mask = push_bit (nat (position mod 8)) 1
      in bits[byte_index := byte_at bits byte_index OR bit_mask])"

definition bloom_get_bit :: "int \<Rightarrow> 8 word list \<Rightarrow> bool" where
  "bloom_get_bit position bits =
     (let byte_index = nat (position div 8); bit_mask = push_bit (nat (position mod 8)) 1
      in byte_at bits byte_index AND bit_mask \<noteq> 0)"

function add_loop :: "int \<Rightarrow> int \<Rightarrow> int \<Rightarrow> code_units \<Rightarrow> 8 word list \<Rightarrow> 8 word list" where
  "add_loop i num_hashes nbits item bits =
     (if i < num_hashes
      then add_loop (i + 1) num_hashes nbits item (bloom_set_bit (bloom_hash item i mod nbits) bits)
      else bits)"
  by auto
termination by (relation "measure (\<lambda>(i, n, s, x, b). nat (n - i))") auto

declare add_loop.simps [simp del]

definition bloom_add :: "code_units \<Rightarrow> bloom_filter \<Rightarrow> bloom_filter" where
  "bloom_add item b =
     b\<lparr>bf_bits := add_loop 0 (bf_hashes b) (bf_size b) item (bf_bits b), bf_items := bf_items b + 1\<rparr>"

function contains_loop :: "int \<Rightarrow> int \<Rightarrow> int \<Rightarrow> code_units \<Rightarrow> 8 word list \<Rightarrow> bool" where
  "contains_loop i num_hashes nbits item bits =
     (if i < num_hashes
      then if \<not> bloom_get_bit (bloom_hash item i mod nbits) bits then False
           else contains_loop (i + 1) num_hashes nbits item bits
      else True)"
  by auto
termination by (relation "measure (\<lambda>(i, n, s, x, b). nat (n - i))") auto

declare contains_loop.simps [simp del]

definition bloom_might_contain :: "bloom_filter \<Rightarrow> code_units \<Rightarrow> bool" where
  "bloom_might_contain b item = contains_loop 0 (bf_hashes b) (bf_size b) item (bf_bits b)"

definition bloom_clear :: "bloom_filter \<Rightarrow> bloom_filter" where
  "bloom_clear b = b\<lparr>bf_bits := map (\<lambda>_. 0) (bf_bits b), bf_items := 0\<rparr>"

function popcount_loop :: "nat \<Rightarrow> nat \<Rightarrow> nat" where
  "popcount_loop b count = (if b > 0 then popcount_loop (drop_bit 1 b) (count + (b AND 1)) else count)"
  by auto
termination by (relation "measure fst") (auto simp: drop_bit_Suc)

declare popcount_loop.simps [simp del]

definition count_bits_set :: "bloom_filter \<Rightarrow> nat" where
  "count_bits_set b = foldl (\<lambda>count byte. count + popcount_loop (unat byte) 0) 0 (bf_bits b)"

definition estimated_false_positive_rate :: "bloom_filter \<Rightarrow> rat" where
  "estimated_false_positive_rate b =
     (of_nat (count_bits_set b) / of_int (bf_size b)) ^ nat (bf_hashes b)"

section \<open>What the bits show\<close>

lemma length_set_bit [simp]: "length (bloom_set_bit p bits) = length bits"
  by (simp add: bloom_set_bit_def Let_def)

lemma get_bit_iff:
  "0 \<le> p \<Longrightarrow> nat (p div 8) < length bits \<Longrightarrow> bloom_get_bit p bits \<longleftrightarrow> bit (bits ! nat (p div 8)) (nat (p mod 8))"
  by (simp add: bloom_get_bit_def Let_def byte_at_def bit_iff_and_push_bit_not_eq_0)

lemma get_set_bit:
  assumes "0 \<le> p" "nat (p div 8) < length bits" "0 \<le> q" "nat (q div 8) < length bits"
  shows "bloom_get_bit q (bloom_set_bit p bits) \<longleftrightarrow> q = p \<or> bloom_get_bit q bits"
proof -
  have small: "nat (q mod 8) < 8" "nat (p mod 8) < 8" by simp_all
  have eq: "q = p \<longleftrightarrow> nat (q div 8) = nat (p div 8) \<and> nat (q mod 8) = nat (p mod 8)"
  proof
    assume "nat (q div 8) = nat (p div 8) \<and> nat (q mod 8) = nat (p mod 8)"
    moreover have "0 \<le> q div 8" "0 \<le> p div 8" using assms(1,3) by simp_all
    ultimately have "q div 8 = p div 8" "q mod 8 = p mod 8"
      using assms(1,3) by (auto simp: nat_eq_iff)
    then show "q = p" by (metis div_mult_mod_eq)
  qed simp
  show ?thesis
  proof (cases "nat (q div 8) = nat (p div 8)")
    case True
    have "bit (bloom_set_bit p bits ! nat (q div 8)) (nat (q mod 8))
      \<longleftrightarrow> bit (bits ! nat (p div 8)) (nat (q mod 8)) \<or> nat (q mod 8) = nat (p mod 8)"
      using assms(2) True small
      by (auto simp: bloom_set_bit_def Let_def byte_at_def bit_or_iff bit_exp_iff possible_bit_word)
    then show ?thesis using assms True eq by (auto simp: get_bit_iff)
  next
    case False
    then have "bloom_set_bit p bits ! nat (q div 8) = bits ! nat (q div 8)"
      by (simp add: bloom_set_bit_def Let_def)
    with False assms eq show ?thesis by (auto simp: get_bit_iff)
  qed
qed

definition bloom_ok :: "bloom_filter \<Rightarrow> bool" where
  "bloom_ok b \<longleftrightarrow> 0 < bf_size b \<and> bf_size b \<le> 8 * int (length (bf_bits b))"

lemma in_bounds:
  assumes "0 < nbits" "nbits \<le> 8 * int (length bits)"
  shows "0 \<le> bloom_hash item i mod nbits \<and> nat ((bloom_hash item i mod nbits) div 8) < length bits"
proof -
  have "bloom_hash item i mod nbits < nbits" "0 \<le> bloom_hash item i mod nbits" using assms(1) by simp_all
  with assms(2) show ?thesis by auto
qed

lemma add_loop_bits:
  assumes "0 < nbits" "nbits \<le> 8 * int (length bits)" "0 \<le> q" "nat (q div 8) < length bits"
  shows "length (add_loop i n nbits item bits) = length bits
    \<and> (bloom_get_bit q (add_loop i n nbits item bits) \<longleftrightarrow>
        bloom_get_bit q bits \<or> (\<exists>j. i \<le> j \<and> j < n \<and> q = bloom_hash item j mod nbits))"
  using assms
proof (induction i n nbits item bits rule: add_loop.induct)
  case (1 i n nbits item bits)
  show ?case
  proof (cases "i < n")
    case True
    note b = in_bounds [OF "1.prems"(1,2), of item i]
    have "(\<exists>j. i \<le> j \<and> j < n \<and> q = bloom_hash item j mod nbits)
        \<longleftrightarrow> q = bloom_hash item i mod nbits \<or> (\<exists>j. i + 1 \<le> j \<and> j < n \<and> q = bloom_hash item j mod nbits)"
      using True by (metis add1_zle_eq order_le_less order_refl)
    with "1.IH" [OF True] "1.prems" b True show ?thesis
      by (subst (1 2) add_loop.simps) (auto simp: get_set_bit)
  next
    case False
    then show ?thesis by (subst (1 2) add_loop.simps) auto
  qed
qed

lemma contains_loop_iff:
  "contains_loop i n nbits item bits \<longleftrightarrow> (\<forall>j. i \<le> j \<and> j < n \<longrightarrow> bloom_get_bit (bloom_hash item j mod nbits) bits)"
proof (induction i n nbits item bits rule: contains_loop.induct)
  case (1 i n nbits item bits)
  show ?case
  proof (cases "i < n")
    case True
    have "(\<forall>j. i \<le> j \<and> j < n \<longrightarrow> bloom_get_bit (bloom_hash item j mod nbits) bits)
        \<longleftrightarrow> bloom_get_bit (bloom_hash item i mod nbits) bits
          \<and> (\<forall>j. i + 1 \<le> j \<and> j < n \<longrightarrow> bloom_get_bit (bloom_hash item j mod nbits) bits)"
      using True by (metis add1_zle_eq order_le_less order_refl)
    with "1.IH" [OF True] True show ?thesis by (subst contains_loop.simps) auto
  next
    case False
    then show ?thesis by (subst contains_loop.simps) auto
  qed
qed

lemma bloom_add_bits:
  assumes "bloom_ok b"
  shows "bloom_ok (bloom_add item b)" "bf_size (bloom_add item b) = bf_size b"
    "bf_hashes (bloom_add item b) = bf_hashes b"
    "bloom_might_contain (bloom_add item b) item"
    "bloom_might_contain b other \<Longrightarrow> bloom_might_contain (bloom_add item b) other"
proof -
  have sz: "0 < bf_size b" "bf_size b \<le> 8 * int (length (bf_bits b))" using assms by (simp_all add: bloom_ok_def)
  have len: "length (add_loop 0 (bf_hashes b) (bf_size b) item (bf_bits b)) = length (bf_bits b)"
    using add_loop_bits [OF sz, of "bloom_hash item 0 mod bf_size b"] in_bounds [OF sz] by blast
  show "bloom_ok (bloom_add item b)" "bf_size (bloom_add item b) = bf_size b"
    "bf_hashes (bloom_add item b) = bf_hashes b"
    using sz len by (simp_all add: bloom_ok_def bloom_add_def)
  have bit: "bloom_get_bit (bloom_hash x j mod bf_size b) (bf_bits (bloom_add item b)) \<longleftrightarrow>
      bloom_get_bit (bloom_hash x j mod bf_size b) (bf_bits b)
      \<or> (\<exists>k. 0 \<le> k \<and> k < bf_hashes b \<and> bloom_hash x j mod bf_size b = bloom_hash item k mod bf_size b)" for x j
    using add_loop_bits [OF sz, of "bloom_hash x j mod bf_size b"] in_bounds [OF sz]
    by (simp add: bloom_add_def)
  show "bloom_might_contain (bloom_add item b) item"
    and "bloom_might_contain b other \<Longrightarrow> bloom_might_contain (bloom_add item b) other"
    unfolding bloom_might_contain_def contains_loop_iff
    using bit by (auto simp: bloom_add_def)
qed

section \<open>Properties\<close>

text \<open>C23: The filter has no false negatives: for a positive number of bits, every item added since the
  filter was created is reported as possibly contained, whatever else was added before or after.\<close>

theorem bloom_no_false_negatives:
  assumes "0 < bit_size"
  shows "item \<in> set items \<Longrightarrow> bloom_might_contain (fold bloom_add items (bloom_new bit_size hash_count)) item"
proof -
  have "bit_size \<le> 8 * int (nat ((bit_size + 7) div 8))"
  proof -
    have "bit_size \<le> 8 * ((bit_size + 7) div 8)" by presburger
    moreover have "0 \<le> (bit_size + 7) div 8" using assms by simp
    ultimately show ?thesis by simp
  qed
  then have new: "bloom_ok (bloom_new bit_size hash_count)" using assms by (simp add: bloom_ok_def bloom_new_def)
  have keep: "bloom_ok b \<Longrightarrow> bloom_might_contain b x \<Longrightarrow> bloom_might_contain (fold bloom_add ys b) x" for b x ys
    by (induction ys arbitrary: b) (simp_all add: bloom_add_bits)
  have "bloom_ok b \<Longrightarrow> item \<in> set items \<Longrightarrow> bloom_might_contain (fold bloom_add items b) item" for b
    by (induction items arbitrary: b) (auto simp: bloom_add_bits keep)
  with new show "item \<in> set items \<Longrightarrow> ?thesis" by simp
qed

theorem bloom_no_false_negatives_witness:
  "bloom_might_contain (fold bloom_add [[97, 98], [99]] (bloom_new 16 2)) [97, 98]"
  using bloom_no_false_negatives [of 16 "[97, 98]" "[[97, 98], [99]]" 2] by simp

end
