(* ===== verification/Persistence_Query.thy ===== *)
theory Persistence_Query
  imports Prelude
begin

text \<open>
  Query support of the persistence package (\<open>packages/persistence/src/query\<close>): the batching data
  loader as a state machine over promises, the query result cache, the detector of repeated
  queries and the connection pool monitor.
\<close>

section \<open>Data loader\<close>

text \<open>A promise of a loaded value; a value that was not found is \<^term>\<open>None\<close> (\<open>null\<close>).\<close>

datatype ('v, 'e) load_promise = LoadPending | Loaded "'v option" | LoadFailed 'e

text \<open>
  The cache maps keys to promises, which are numbered in the order of their creation; \<open>dl_batches\<close>
  are the calls of the batch function that have not answered, each with its queue items.
\<close>

record ('k, 'v, 'e) data_loader =
  dl_cache :: "('k, nat) jsmap"
  dl_queue :: "('k \<times> nat) list"
  dl_scheduled :: bool
  dl_batches :: "('k \<times> nat) list list"
  dl_promises :: "('k \<times> ('v, 'e) load_promise) list"

definition data_loader_new :: "('k, 'v, 'e) data_loader" where
  "data_loader_new = \<lparr>dl_cache = [], dl_queue = [], dl_scheduled = False, dl_batches = [], dl_promises = []\<rparr>"

definition dl_enqueue :: "'k \<Rightarrow> ('k, 'v, 'e) data_loader \<Rightarrow> nat \<times> ('k, 'v, 'e) data_loader" where
  "dl_enqueue k d =
     (let p = length (dl_promises d)
      in (p, d\<lparr>dl_promises := dl_promises d @ [(k, LoadPending)], dl_queue := dl_queue d @ [(k, p)]\<rparr>))"

definition dl_schedule_batch :: "('k, 'v, 'e) data_loader \<Rightarrow> ('k, 'v, 'e) data_loader" where
  "dl_schedule_batch d = (if dl_scheduled d then d else d\<lparr>dl_scheduled := True\<rparr>)"

definition dl_load :: "'k \<Rightarrow> ('k, 'v, 'e) data_loader \<Rightarrow> nat \<times> ('k, 'v, 'e) data_loader" where
  "dl_load k d =
     (case jget (dl_cache d) k of
        Some p \<Rightarrow> (p, d)
      | None \<Rightarrow>
          (case dl_enqueue k d of
             (p, d1) \<Rightarrow> (p, dl_schedule_batch (d1\<lparr>dl_cache := jset k p (dl_cache d1)\<rparr>))))"

definition dl_clear :: "'k \<Rightarrow> ('k, 'v, 'e) data_loader \<Rightarrow> ('k, 'v, 'e) data_loader" where
  "dl_clear k d = d\<lparr>dl_cache := jdelete k (dl_cache d)\<rparr>"

definition dl_clear_all :: "('k, 'v, 'e) data_loader \<Rightarrow> ('k, 'v, 'e) data_loader" where
  "dl_clear_all d = d\<lparr>dl_cache := []\<rparr>"

definition dl_prime :: "'k \<Rightarrow> 'v \<Rightarrow> ('k, 'v, 'e) data_loader \<Rightarrow> ('k, 'v, 'e) data_loader" where
  "dl_prime k v d =
     d\<lparr>dl_promises := dl_promises d @ [(k, Loaded (Some v))],
       dl_cache := jset k (length (dl_promises d)) (dl_cache d)\<rparr>"

definition dl_cache_size :: "('k, 'v, 'e) data_loader \<Rightarrow> int" where
  "dl_cache_size d = jsize (dl_cache d)"

text \<open>The microtask that \<open>scheduleBatch\<close> queued: it hands the keys of the queue to the batch function.\<close>

definition dl_flush :: "('k, 'v, 'e) data_loader \<Rightarrow> ('k, 'v, 'e) data_loader" where
  "dl_flush d =
     (if \<not> dl_scheduled d then d
      else let items = dl_queue d; d1 = d\<lparr>dl_queue := [], dl_scheduled := False\<rparr>
           in if length items = 0 then d1 else d1\<lparr>dl_batches := dl_batches d1 @ [items]\<rparr>)"

definition dl_settle :: "('v, 'e) load_promise \<Rightarrow> nat \<Rightarrow> ('k, 'v, 'e) data_loader \<Rightarrow> ('k, 'v, 'e) data_loader" where
  "dl_settle s p d =
     (if p < length (dl_promises d) \<and> snd (dl_promises d ! p) = LoadPending
      then d\<lparr>dl_promises := (dl_promises d)[p := (fst (dl_promises d ! p), s)]\<rparr> else d)"

text \<open>The \<open>n\<close>th outstanding batch answers: its promise was rejected or gave a map.\<close>

definition dl_batch_answers ::
  "nat \<Rightarrow> ('e, ('k, 'v) jsmap) outcome \<Rightarrow> ('k, 'v, 'e) data_loader \<Rightarrow> ('k, 'v, 'e) data_loader" where
  "dl_batch_answers n answer d =
     (if n < length (dl_batches d)
      then let items = dl_batches d ! n; d1 = d\<lparr>dl_batches := take n (dl_batches d) @ drop (n + 1) (dl_batches d)\<rparr>
           in case answer of
                Inr results \<Rightarrow> fold (\<lambda>item. dl_settle (Loaded (jget results (fst item))) (snd item)) items d1
              | Inl e \<Rightarrow> fold (\<lambda>item. dl_settle (LoadFailed e) (snd item)) items d1
      else d)"

datatype ('k, 'v, 'e) loader_op =
  Load 'k | Clear 'k | ClearLoader | Prime 'k 'v | Flush | BatchAnswers nat "('e, ('k, 'v) jsmap) outcome"

fun loader_step :: "('k, 'v, 'e) data_loader \<Rightarrow> ('k, 'v, 'e) loader_op \<Rightarrow> ('k, 'v, 'e) data_loader" where
  "loader_step d (Load k) = snd (dl_load k d)"
| "loader_step d (Clear k) = dl_clear k d"
| "loader_step d ClearLoader = dl_clear_all d"
| "loader_step d (Prime k v) = dl_prime k v d"
| "loader_step d Flush = dl_flush d"
| "loader_step d (BatchAnswers n answer) = dl_batch_answers n answer d"

subsection \<open>The loader's invariant\<close>

definition dl_items :: "('k, 'v, 'e) data_loader \<Rightarrow> ('k \<times> nat) list" where
  "dl_items d = concat (dl_batches d) @ dl_queue d"

text \<open>
  The items queued or in a batch are exactly the pending promises, each once and under its key; a
  non-empty queue has its flush scheduled; the cache holds promises of its own keys.
\<close>

definition loader_ok :: "('k, 'v, 'e) data_loader \<Rightarrow> bool" where
  "loader_ok d \<longleftrightarrow>
     (\<forall>k p. (k, p) \<in> set (dl_items d) \<longleftrightarrow> p < length (dl_promises d) \<and> dl_promises d ! p = (k, LoadPending))
     \<and> distinct (map snd (dl_items d))
     \<and> (dl_queue d \<noteq> [] \<longrightarrow> dl_scheduled d)
     \<and> (\<forall>k p. jget (dl_cache d) k = Some p \<longrightarrow> p < length (dl_promises d) \<and> fst (dl_promises d ! p) = k)"

lemma loader_ok_new: "loader_ok data_loader_new"
  by (simp add: loader_ok_def data_loader_new_def dl_items_def)

lemma loader_okD:
  assumes "loader_ok d"
  shows "(k, p) \<in> set (dl_items d) \<longleftrightarrow> p < length (dl_promises d) \<and> dl_promises d ! p = (k, LoadPending)"
    and "distinct (map snd (dl_items d))" and "dl_queue d \<noteq> [] \<Longrightarrow> dl_scheduled d"
    and "jget (dl_cache d) k = Some p \<Longrightarrow> p < length (dl_promises d) \<and> fst (dl_promises d ! p) = k"
  using assms by (simp_all add: loader_ok_def del: map_of_eq_Some_iff)

text \<open>An item of the loader is one of its promises, so a fresh promise is in none.\<close>

lemma item_number: "loader_ok d \<Longrightarrow> p \<in> snd ` set (dl_items d) \<Longrightarrow> p < length (dl_promises d)"
  using loader_okD(1) by fastforce

lemma loader_ok_load:
  assumes "loader_ok d"
  shows "loader_ok (snd (dl_load k d))"
proof (cases "jget (dl_cache d) k")
  case None
  let ?n = "length (dl_promises d)" and ?d = "snd (dl_load k d)"
  have d: "dl_items ?d = dl_items d @ [(k, ?n)]" "dl_promises ?d = dl_promises d @ [(k, LoadPending)]"
    "dl_scheduled ?d" "dl_cache ?d = jset k ?n (dl_cache d)"
    using None by (auto simp: dl_load_def dl_enqueue_def dl_schedule_batch_def dl_items_def Let_def)
  have fresh: "?n \<notin> snd ` set (dl_items d)" using item_number [OF assms] by blast
  show ?thesis
    unfolding loader_ok_def d
    using loader_okD [OF assms] fresh d(3)
    by (auto simp: nth_append less_Suc_eq simp del: map_of_eq_Some_iff split: if_splits)
qed (simp add: dl_load_def assms del: map_of_eq_Some_iff)

lemma loader_ok_prime:
  assumes "loader_ok d"
  shows "loader_ok (dl_prime k v d)"
  using loader_okD [OF assms]
  by (auto simp: loader_ok_def dl_prime_def dl_items_def nth_append less_Suc_eq simp del: map_of_eq_Some_iff
      split: if_splits)

lemma loader_ok_flush:
  assumes "loader_ok d"
  shows "loader_ok (dl_flush d)"
proof (cases "dl_scheduled d")
  case True
  have "dl_items (dl_flush d) = dl_items d" "dl_promises (dl_flush d) = dl_promises d"
    "dl_queue (dl_flush d) = []" "dl_cache (dl_flush d) = dl_cache d"
    using True by (auto simp: dl_flush_def dl_items_def Let_def)
  with assms show ?thesis by (simp add: loader_ok_def)
qed (simp add: dl_flush_def assms)

subsection \<open>Settling a batch\<close>

lemma dl_settle_fields [simp]:
  "dl_cache (dl_settle s p d) = dl_cache d" "dl_queue (dl_settle s p d) = dl_queue d"
  "dl_scheduled (dl_settle s p d) = dl_scheduled d" "dl_batches (dl_settle s p d) = dl_batches d"
  "length (dl_promises (dl_settle s p d)) = length (dl_promises d)"
  by (simp_all add: dl_settle_def)

lemma dl_settle_nth:
  "q < length (dl_promises d) \<Longrightarrow> dl_promises (dl_settle s p d) ! q =
     (if q = p \<and> snd (dl_promises d ! p) = LoadPending then (fst (dl_promises d ! p), s) else dl_promises d ! q)"
  by (auto simp: dl_settle_def)

lemma settle_all_fields [simp]:
  "dl_cache (fold (\<lambda>i. dl_settle (f i) (snd i)) items d) = dl_cache d"
  "dl_queue (fold (\<lambda>i. dl_settle (f i) (snd i)) items d) = dl_queue d"
  "dl_scheduled (fold (\<lambda>i. dl_settle (f i) (snd i)) items d) = dl_scheduled d"
  "dl_batches (fold (\<lambda>i. dl_settle (f i) (snd i)) items d) = dl_batches d"
  "length (dl_promises (fold (\<lambda>i. dl_settle (f i) (snd i)) items d)) = length (dl_promises d)"
  by (induction items arbitrary: d) auto

lemma numbered_None: "map_of (map (\<lambda>i. (snd i, f i)) items) q = None \<longleftrightarrow> q \<notin> snd ` set items"
  by (induction items) auto

lemma settle_all_nth:
  assumes "q < length (dl_promises d)" "distinct (map snd items)"
  shows "dl_promises (fold (\<lambda>i. dl_settle (f i) (snd i)) items d) ! q =
    (case map_of (map (\<lambda>i. (snd i, f i)) items) q of
       Some s \<Rightarrow> if snd (dl_promises d ! q) = LoadPending then (fst (dl_promises d ! q), s) else dl_promises d ! q
     | None \<Rightarrow> dl_promises d ! q)"
  using assms
proof (induction items arbitrary: d)
  case (Cons i items)
  have "q < length (dl_promises (dl_settle (f i) (snd i) d))" using Cons.prems by simp
  note ih = Cons.IH [OF this]
  have "snd i \<notin> snd ` set items" using Cons.prems(2) by simp
  then have "snd i = q \<Longrightarrow> map_of (map (\<lambda>i. (snd i, f i)) items) q = None"
    by (simp add: numbered_None)
  with ih Cons.prems show ?case by (auto simp: dl_settle_nth simp del: map_of_eq_Some_iff split: option.split)
qed simp

text \<open>The items of a batch, when it answers.\<close>

definition batch_settles :: "('e, ('k, 'v) jsmap) outcome \<Rightarrow> 'k \<times> nat \<Rightarrow> ('v, 'e) load_promise" where
  "batch_settles answer i = (case answer of Inr results \<Rightarrow> Loaded (jget results (fst i)) | Inl e \<Rightarrow> LoadFailed e)"

lemma batch_answers_eq:
  "n < length (dl_batches d) \<Longrightarrow> dl_batch_answers n answer d =
     fold (\<lambda>i. dl_settle (batch_settles answer i) (snd i)) (dl_batches d ! n)
       (d\<lparr>dl_batches := take n (dl_batches d) @ drop (n + 1) (dl_batches d)\<rparr>)"
  by (simp add: dl_batch_answers_def batch_settles_def Let_def split: sum.split)

lemma distinct_regroup:
  assumes "distinct (map f (as @ bs @ cs @ ds))"
  shows "distinct (map f bs) \<and> distinct (map f ((as @ cs) @ ds)) \<and> f ` set bs \<inter> f ` set ((as @ cs) @ ds) = {}"
  using assms by (simp add: image_Un Int_Un_distrib Int_Un_distrib2 Int_commute)

lemma batch_split:
  assumes "n < length (dl_batches d)"
  shows "set (dl_items d) = set (dl_batches d ! n) \<union> set (concat (take n (dl_batches d) @ drop (n + 1) (dl_batches d)) @ dl_queue d)"
    and "distinct (map snd (dl_items d)) \<Longrightarrow>
      distinct (map snd (dl_batches d ! n)) \<and>
      distinct (map snd (concat (take n (dl_batches d) @ drop (n + 1) (dl_batches d)) @ dl_queue d)) \<and>
      snd ` set (dl_batches d ! n) \<inter> snd ` set (concat (take n (dl_batches d) @ drop (n + 1) (dl_batches d)) @ dl_queue d) = {}"
proof -
  have b: "dl_batches d = take n (dl_batches d) @ dl_batches d ! n # drop (n + 1) (dl_batches d)"
    using assms by (simp add: id_take_nth_drop)
  have items: "dl_items d = concat (take n (dl_batches d)) @ dl_batches d ! n @ concat (drop (n + 1) (dl_batches d)) @ dl_queue d"
    unfolding dl_items_def by (subst b) simp
  show "set (dl_items d) = set (dl_batches d ! n) \<union> set (concat (take n (dl_batches d) @ drop (n + 1) (dl_batches d)) @ dl_queue d)"
    unfolding items by auto
  assume "distinct (map snd (dl_items d))"
  then show "distinct (map snd (dl_batches d ! n)) \<and>
      distinct (map snd (concat (take n (dl_batches d) @ drop (n + 1) (dl_batches d)) @ dl_queue d)) \<and>
      snd ` set (dl_batches d ! n) \<inter> snd ` set (concat (take n (dl_batches d) @ drop (n + 1) (dl_batches d)) @ dl_queue d) = {}"
    unfolding items concat_append by (rule distinct_regroup)
qed

lemma batch_answers_promise:
  assumes "loader_ok d" "n < length (dl_batches d)" "q < length (dl_promises d)"
  shows "dl_promises (dl_batch_answers n answer d) ! q =
    (if q \<in> snd ` set (dl_batches d ! n)
     then (fst (dl_promises d ! q), batch_settles answer (fst (dl_promises d ! q), q))
     else dl_promises d ! q)"
proof -
  let ?items = "dl_batches d ! n"
  have dist: "distinct (map snd ?items)" using batch_split(2) [OF assms(2) loader_okD(2) [OF assms(1)]] by blast
  have item: "(k, p) \<in> set ?items \<Longrightarrow> dl_promises d ! p = (k, LoadPending)" for k p
    using loader_okD(1) [OF assms(1)] batch_split(1) [OF assms(2)] by blast
  show ?thesis
  proof (cases "q \<in> snd ` set ?items")
    case True
    then obtain k where k: "(k, q) \<in> set ?items" by auto
    have "map_of (map (\<lambda>i. (snd i, batch_settles answer i)) ?items) q = Some (batch_settles answer (k, q))"
      by (rule map_of_is_SomeI) (use k dist in \<open>auto simp: comp_def intro: image_eqI [OF _ k]\<close>)
    with True item [OF k] settle_all_nth [of q "d\<lparr>dl_batches := take n (dl_batches d) @ drop (n + 1) (dl_batches d)\<rparr>", OF _ dist] assms(3)
    show ?thesis by (simp add: batch_answers_eq [OF assms(2)])
  next
    case False
    then have "map_of (map (\<lambda>i. (snd i, batch_settles answer i)) ?items) q = None"
      by (simp add: numbered_None)
    with False settle_all_nth [of q "d\<lparr>dl_batches := take n (dl_batches d) @ drop (n + 1) (dl_batches d)\<rparr>", OF _ dist] assms(3)
    show ?thesis by (simp add: batch_answers_eq [OF assms(2)])
  qed
qed

lemma batch_settles_not_pending: "batch_settles answer i \<noteq> LoadPending"
  by (simp add: batch_settles_def split: sum.split)

lemma loader_ok_answers:
  assumes "loader_ok d"
  shows "loader_ok (dl_batch_answers n answer d)"
proof (cases "n < length (dl_batches d)")
  case True
  let ?d = "dl_batch_answers n answer d"
  obtain R where R: "R = concat (take n (dl_batches d) @ drop (n + 1) (dl_batches d)) @ dl_queue d" by blast
  have items: "dl_items ?d = R" and len: "length (dl_promises ?d) = length (dl_promises d)"
    and other: "dl_queue ?d = dl_queue d" "dl_scheduled ?d = dl_scheduled d" "dl_cache ?d = dl_cache d"
    by (simp_all add: R batch_answers_eq [OF True] dl_items_def)
  note split = batch_split(1) [OF True, folded R] batch_split(2) [OF True loader_okD(2) [OF assms], folded R]
  have disjoint: "(k, p) \<in> set R \<Longrightarrow> p \<notin> snd ` set (dl_batches d ! n)" for k p
    using split(2) imageI [of "(k, p)" "set R" snd] by auto
  note prom = batch_answers_promise [OF assms True]
  have pend: "(k, p) \<in> set R \<longleftrightarrow> p < length (dl_promises ?d) \<and> dl_promises ?d ! p = (k, LoadPending)" for k p
  proof (cases "p < length (dl_promises d)")
    case p: True
    show ?thesis
    proof (cases "p \<in> snd ` set (dl_batches d ! n)")
      case True
      then have "(k, p) \<notin> set R" using disjoint by blast
      with True p show ?thesis unfolding len prom [OF p] by (simp add: batch_settles_not_pending)
    next
      case False
      then have "(k, p) \<in> set R \<longleftrightarrow> (k, p) \<in> set (dl_items d)" unfolding split(1) using imageI [of "(k, p)" "set (dl_batches d ! n)" snd] by auto
      with False p show ?thesis unfolding len prom [OF p] loader_okD(1) [OF assms] by simp
    qed
  next
    case False
    then have "(k, p) \<notin> set (dl_items d)" using loader_okD(1) [OF assms] by blast
    with False show ?thesis unfolding len split(1) by blast
  qed
  have cached: "p < length (dl_promises ?d) \<and> fst (dl_promises ?d ! p) = k" if "jget (dl_cache ?d) k = Some p" for k p
  proof -
    have "p < length (dl_promises d) \<and> fst (dl_promises d ! p) = k"
      using that loader_okD(4) [OF assms] unfolding other by blast
    then show ?thesis unfolding len using prom [of p answer] by simp
  qed
  show ?thesis
    unfolding loader_ok_def items
    using pend cached split(2) loader_okD(3) [OF assms] unfolding other by (intro conjI allI) blast+
qed (simp add: dl_batch_answers_def assms)

interpretation loader: invariant_machine loader_step loader_ok
proof
  fix d :: "('k, 'v, 'e) data_loader" and e
  assume "loader_ok d"
  then show "loader_ok (loader_step d e)"
  proof (cases e)
    case (Clear k)
    with \<open>loader_ok d\<close> show ?thesis
      by (auto simp: loader_ok_def dl_clear_def dl_items_def simp del: map_of_eq_Some_iff)
  next
    case ClearLoader
    with \<open>loader_ok d\<close> show ?thesis by (auto simp: loader_ok_def dl_clear_all_def dl_items_def)
  qed (simp_all add: loader_ok_load loader_ok_prime loader_ok_flush loader_ok_answers)
qed

subsection \<open>What a load returns\<close>

definition load_result :: "nat \<Rightarrow> ('k, 'v, 'e) data_loader \<Rightarrow> ('v, 'e) load_promise" where
  "load_result p d = snd (dl_promises d ! p)"

lemma step_keeps_promise:
  assumes "loader_ok d" "p < length (dl_promises d)"
  shows "p < length (dl_promises (loader_step d e))
    \<and> fst (dl_promises (loader_step d e) ! p) = fst (dl_promises d ! p)
    \<and> (load_result p d \<noteq> LoadPending \<longrightarrow> load_result p (loader_step d e) = load_result p d)"
proof (cases e)
  case (Load k)
  with assms(2) show ?thesis
    by (cases "jget (dl_cache d) k")
      (simp_all add: dl_load_def dl_enqueue_def dl_schedule_batch_def load_result_def nth_append Let_def)
next
  case (BatchAnswers n answer)
  show ?thesis
  proof (cases "n < length (dl_batches d)")
    case True
    have len: "length (dl_promises (dl_batch_answers n answer d)) = length (dl_promises d)"
      by (simp add: batch_answers_eq [OF True])
    note prom = batch_answers_promise [OF assms(1) True assms(2), of answer]
    show ?thesis
    proof (cases "p \<in> snd ` set (dl_batches d ! n)")
      case p: True
      then obtain k where "(k, p) \<in> set (dl_batches d ! n)" by auto
      then have "load_result p d = LoadPending"
        using loader_okD(1) [OF assms(1), of k p] batch_split(1) [OF True] by (simp add: load_result_def)
      with p prom len assms(2) BatchAnswers show ?thesis by (simp add: load_result_def)
    next
      case False
      with prom len assms(2) BatchAnswers show ?thesis by (simp add: load_result_def)
    qed
  next
    case False
    with BatchAnswers assms(2) show ?thesis by (simp add: dl_batch_answers_def)
  qed
next
  case Flush
  have "dl_promises (dl_flush d) = dl_promises d" by (simp add: dl_flush_def Let_def)
  with Flush assms(2) show ?thesis by (simp add: load_result_def)
qed (use assms(2) in \<open>simp_all add: dl_clear_def dl_clear_all_def dl_prime_def load_result_def nth_append\<close>)

lemma run_keeps_promise:
  assumes "loader_ok d" "p < length (dl_promises d)"
  shows "p < length (dl_promises (foldl loader_step d es))
    \<and> fst (dl_promises (foldl loader_step d es) ! p) = fst (dl_promises d ! p)
    \<and> (load_result p d \<noteq> LoadPending \<longrightarrow> load_result p (foldl loader_step d es) = load_result p d)"
  using assms
proof (induction es arbitrary: d)
  case (Cons e es)
  from step_keeps_promise [OF Cons.prems, of e] Cons.IH [OF loader.step_keeps [OF Cons.prems(1)], of e] show ?case by simp
qed simp

text \<open>Keys a run may ask for again: those it clears.\<close>

fun clears :: "'k \<Rightarrow> ('k, 'v, 'e) loader_op \<Rightarrow> bool" where
  "clears k (Clear k') = (k' = k)"
| "clears k ClearLoader = True"
| "clears k (Prime k' v) = (k' = k)"
| "clears k e = False"

lemma cached_stays:
  assumes "jget (dl_cache d) k = Some p" "\<not> clears k e"
  shows "jget (dl_cache (loader_step d e)) k = Some p"
  using assms
  by (cases e) (auto simp: dl_load_def dl_enqueue_def dl_schedule_batch_def dl_clear_def dl_prime_def dl_flush_def
      dl_batch_answers_def Let_def simp del: map_of_eq_Some_iff split: option.splits sum.splits)

lemma cached_stays_run:
  "jget (dl_cache d) k = Some p \<Longrightarrow> list_all (\<lambda>e. \<not> clears k e) es \<Longrightarrow> jget (dl_cache (foldl loader_step d es)) k = Some p"
proof (induction es arbitrary: d)
  case (Cons e es)
  from Cons.IH [OF cached_stays [OF Cons.prems(1), of e]] Cons.prems(2) show ?case by simp
qed simp

section \<open>Query result cache\<close>

record 'v query_cache_entry =
  qe_value :: 'v
  qe_expires_at :: "int option"

type_synonym 'v query_cache = "(string, 'v query_cache_entry) jsmap"

definition qc_lookup :: "int \<Rightarrow> string \<Rightarrow> 'v query_cache \<Rightarrow> 'v option \<times> 'v query_cache" where
  "qc_lookup now key c =
     (case jget c key of
        None \<Rightarrow> (None, c)
      | Some e \<Rightarrow>
          if (case qe_expires_at e of Some t \<Rightarrow> now > t | None \<Rightarrow> False) then (None, jdelete key c)
          else (Some (qe_value e), c))"

text \<open>
  \<open>execute\<close>: the clock at the call, that after the factory has answered, and the factory, which
  acts on the world and may throw.  Values are not \<open>undefined\<close>.
\<close>

definition qc_execute ::
  "int \<Rightarrow> int \<Rightarrow> string \<Rightarrow> ('w \<Rightarrow> (js_error, 'v) outcome \<times> 'w) \<Rightarrow> int option \<Rightarrow> 'v query_cache \<times> 'w \<Rightarrow>
   (js_error, 'v) outcome \<times> 'v query_cache \<times> 'w" where
  "qc_execute now now1 key fn ttl cw =
     (case qc_lookup now key (fst cw) of
        (Some v, c) \<Rightarrow> (Inr v, c, snd cw)
      | (None, c) \<Rightarrow>
          (case fn (snd cw) of
             (Inl e, w) \<Rightarrow> (Inl e, c, w)
           | (Inr v, w) \<Rightarrow>
               (Inr v, jset key \<lparr>qe_value = v, qe_expires_at = map_option (\<lambda>t. now1 + t) ttl\<rparr> c, w)))"

definition qc_invalidate :: "string \<Rightarrow> 'v query_cache \<Rightarrow> 'v query_cache" where
  "qc_invalidate key c = jdelete key c"

definition qc_invalidate_by_prefix :: "string \<Rightarrow> 'v query_cache \<Rightarrow> 'v query_cache" where
  "qc_invalidate_by_prefix pre c = filter (\<lambda>(k, e). \<not> prefix pre k) c"

definition qc_has :: "int \<Rightarrow> string \<Rightarrow> 'v query_cache \<Rightarrow> bool \<times> 'v query_cache" where
  "qc_has now key c = (case qc_lookup now key c of (v, c1) \<Rightarrow> (v \<noteq> None, c1))"

definition qc_clear :: "'v query_cache \<Rightarrow> 'v query_cache" where
  "qc_clear c = []"

definition qc_size :: "'v query_cache \<Rightarrow> int" where
  "qc_size c = jsize c"

section \<open>Repeated queries\<close>

text \<open>\<open>toLowerCase\<close> on the codes a \<^typ>\<open>char\<close> has, and \<open>replace(/\s+/g, ' ')\<close>.\<close>

definition js_lower_char :: "char \<Rightarrow> char" where
  "js_lower_char c =
     (let n = (of_char c :: nat)
      in if (65 \<le> n \<and> n \<le> 90) \<or> (192 \<le> n \<and> n \<le> 222 \<and> n \<noteq> 215) then char_of (n + 32) else c)"

fun squeeze_spaces :: "bool \<Rightarrow> string \<Rightarrow> string" where
  "squeeze_spaces after_space [] = []"
| "squeeze_spaces after_space (c # cs) =
     (if is_js_space c then (if after_space then [] else '' '') @ squeeze_spaces True cs
      else c # squeeze_spaces False cs)"

definition normalize_query :: "string \<Rightarrow> string" where
  "normalize_query q = squeeze_spaces False (map js_lower_char (js_trim q))"

record n1_pattern =
  np_query :: string
  np_count :: int
  np_window_ms :: int

type_synonym n1_detector = "(string, int list) jsmap"

definition n1_record :: "int \<Rightarrow> string \<Rightarrow> n1_detector \<Rightarrow> n1_detector" where
  "n1_record now query d = (let key = normalize_query query in jset key (elems d key @ [now]) d)"

definition n1_detect :: "int \<Rightarrow> int \<Rightarrow> int \<Rightarrow> n1_detector \<Rightarrow> n1_pattern list" where
  "n1_detect now window threshold d =
     concat (map (\<lambda>(query, records).
       let recent = filter (\<lambda>t. now - t \<le> window) records
       in if int (length recent) \<ge> threshold
          then [\<lparr>np_query = query, np_count = int (length recent), np_window_ms = window\<rparr>] else []) d)"

fun n1_prune_loop :: "int \<Rightarrow> n1_detector \<Rightarrow> n1_detector" where
  "n1_prune_loop cutoff [] = []"
| "n1_prune_loop cutoff ((query, records) # d) =
     (let fresh = filter (\<lambda>t. t \<ge> cutoff) records
      in if length fresh = 0 then n1_prune_loop cutoff d else (query, fresh) # n1_prune_loop cutoff d)"

definition n1_prune :: "int \<Rightarrow> int \<Rightarrow> n1_detector \<Rightarrow> n1_detector" where
  "n1_prune now window d = n1_prune_loop (now - window) d"

definition n1_clear :: "n1_detector \<Rightarrow> n1_detector" where
  "n1_clear d = []"

lemma n1_prune_detect:
  assumes "w \<le> window" "now \<le> now1" "1 \<le> threshold"
  shows "n1_detect now1 w threshold (n1_prune_loop (now - window) d) = n1_detect now1 w threshold d"
proof (induction d)
  case (Cons e d)
  obtain q ts where e: "e = (q, ts)" by fastforce
  have sub: "filter (\<lambda>t. now1 - t \<le> w) (filter (\<lambda>t. t \<ge> now - window) ts) = filter (\<lambda>t. now1 - t \<le> w) ts"
    using assms by (induction ts) auto
  show ?case
  proof (cases "filter (\<lambda>t. t \<ge> now - window) ts = []")
    case True
    with sub have "filter (\<lambda>t. now1 - t \<le> w) ts = []" by simp
    with True Cons assms(3) show ?thesis by (simp add: e n1_detect_def Let_def)
  next
    case False
    with Cons sub show ?thesis by (simp add: e n1_detect_def Let_def)
  qed
qed simp

section \<open>Connection pool monitor\<close>

record pool_snapshot =
  ps_total :: int
  ps_active :: int
  ps_idle :: int
  ps_waiting :: int
  ps_timestamp :: int

datatype pool_recommendation_type = IncreasePoolSize | DecreasePoolSize | PoolOk

definition pool_record :: "pool_snapshot \<Rightarrow> pool_snapshot list \<Rightarrow> pool_snapshot list" where
  "pool_record s snapshots = snapshots @ [s]"

definition pool_clear :: "pool_snapshot list \<Rightarrow> pool_snapshot list" where
  "pool_clear snapshots = []"

text \<open>\<open>x.toFixed(0)\<close> for a non-negative number.\<close>

definition to_fixed0 :: "rat \<Rightarrow> string" where
  "to_fixed0 x = show_int \<lfloor>x + 1 / 2\<rfloor>"

definition analyze_latest :: "pool_snapshot \<Rightarrow> int \<Rightarrow> rat \<Rightarrow> pool_recommendation_type \<times> string" where
  "analyze_latest latest max_wait max_idle_ratio =
     (if ps_waiting latest > max_wait
      then (IncreasePoolSize,
            show_int (ps_waiting latest) @ '' connections waiting (threshold '' @ show_int max_wait @ '')'')
      else let idle_ratio = (if ps_total latest > 0 then of_int (ps_idle latest) / of_int (ps_total latest) else 0)
           in if idle_ratio > max_idle_ratio \<and> ps_total latest > 1
              then (DecreasePoolSize,
                    ''Idle ratio '' @ to_fixed0 (idle_ratio * 100) @ ''% exceeds threshold '' @
                    to_fixed0 (max_idle_ratio * 100) @ ''%'')
              else (PoolOk, ''Pool utilization looks healthy''))"

definition pool_recommend :: "pool_snapshot list \<Rightarrow> int \<Rightarrow> rat \<Rightarrow> pool_recommendation_type \<times> string" where
  "pool_recommend snapshots max_wait max_idle_ratio =
     (if length snapshots = 0 then (PoolOk, ''No data collected yet'')
      else analyze_latest (last snapshots) max_wait max_idle_ratio)"

definition average_active :: "pool_snapshot list \<Rightarrow> rat" where
  "average_active snapshots =
     (if length snapshots = 0 then 0
      else of_int (foldl (\<lambda>acc s. acc + ps_active s) 0 snapshots) / of_nat (length snapshots))"

definition peak_waiting :: "pool_snapshot list \<Rightarrow> int" where
  "peak_waiting snapshots =
     (if length snapshots = 0 then 0
      else foldl (\<lambda>mx s. if ps_waiting s > mx then ps_waiting s else mx) 0 snapshots)"

section \<open>Properties\<close>

text \<open>C30: 
  Data loader.  In every reachable state a promise that is pending is queued, with the flush
  scheduled, or in a batch that has not answered: no load is forgotten.  Flushing hands a queue
  over whole, and when a batch answers each of its promises gets its own key's value, or the error
  of the batch, for good; promises outside the batch are untouched.
\<close>

theorem loader_settles_every_load:
  assumes "d = foldl loader_step data_loader_new es" "p < length (dl_promises d)"
  shows "(load_result p d = LoadPending \<longrightarrow>
        (\<exists>items \<in> set (dl_batches d). p \<in> snd ` set items) \<or> (p \<in> snd ` set (dl_queue d) \<and> dl_scheduled d))
    \<and> (\<forall>n answer es1. n < length (dl_batches d) \<longrightarrow> p \<in> snd ` set (dl_batches d ! n) \<longrightarrow>
        load_result p (foldl loader_step (loader_step d (BatchAnswers n answer)) es1) =
          (case answer of Inr results \<Rightarrow> Loaded (jget results (fst (dl_promises d ! p))) | Inl e \<Rightarrow> LoadFailed e))"
proof -
  have ok: "loader_ok d" unfolding assms(1) by (rule loader.run_keeps [OF loader_ok_new])
  have "(\<exists>items \<in> set (dl_batches d). p \<in> snd ` set items) \<or> (p \<in> snd ` set (dl_queue d) \<and> dl_scheduled d)"
    if pending: "load_result p d = LoadPending"
  proof -
    have "(fst (dl_promises d ! p), p) \<in> set (dl_items d)"
      using loader_okD(1) [OF ok, of "fst (dl_promises d ! p)" p] assms(2) pending
      by (simp add: load_result_def prod_eq_iff)
    then have "p \<in> snd ` set (dl_items d)" by force
    then have "(\<exists>items \<in> set (dl_batches d). p \<in> snd ` set items) \<or> p \<in> snd ` set (dl_queue d)"
      unfolding dl_items_def by auto
    with loader_okD(3) [OF ok] show ?thesis by (cases "dl_queue d = []") simp_all
  qed
  moreover have "load_result p (foldl loader_step (loader_step d (BatchAnswers n answer)) es1) =
      batch_settles answer (fst (dl_promises d ! p), p)"
    if "n < length (dl_batches d)" "p \<in> snd ` set (dl_batches d ! n)" for n answer es1
  proof -
    let ?d = "loader_step d (BatchAnswers n answer)"
    have "load_result p ?d = batch_settles answer (fst (dl_promises d ! p), p)"
      using batch_answers_promise [OF ok that(1) assms(2), of answer] that(2) by (simp add: load_result_def)
    moreover have "p < length (dl_promises ?d)" using step_keeps_promise [OF ok assms(2)] by blast
    ultimately show ?thesis
      using run_keeps_promise [OF loader.step_keeps [OF ok, of "BatchAnswers n answer"], of p es1]
      by (simp add: batch_settles_not_pending)
  qed
  ultimately show ?thesis unfolding batch_settles_def fst_conv by simp
qed

lemma loader_example:
  "foldl loader_step (data_loader_new :: (string, int, string) data_loader) [Load ''a'', Load ''b'', Load ''a'', Flush] =
   \<lparr>dl_cache = [(''a'', 0), (''b'', 1)], dl_queue = [], dl_scheduled = False,
    dl_batches = [[(''a'', 0), (''b'', 1)]], dl_promises = [(''a'', LoadPending), (''b'', LoadPending)]\<rparr>"
  by (simp add: dl_load_def dl_enqueue_def dl_schedule_batch_def dl_flush_def data_loader_new_def Let_def)

theorem loader_settles_every_load_witness:
  fixes d :: "(string, int, string) data_loader"
  defines "d \<equiv> \<lparr>dl_cache = [(''a'', 0), (''b'', 1)], dl_queue = [], dl_scheduled = False,
    dl_batches = [[(''a'', 0), (''b'', 1)]], dl_promises = [(''a'', LoadPending), (''b'', LoadPending)]\<rparr>"
  shows "\<forall>es1. load_result 1 (foldl loader_step (loader_step d (BatchAnswers 0 (Inr [(''b'', 5)]))) es1) = Loaded (Some 5)"
proof -
  have d: "d = foldl loader_step data_loader_new [Load ''a'', Load ''b'', Load ''a'', Flush]"
    unfolding d_def by (rule loader_example [symmetric])
  have "1 < length (dl_promises d)" "1 \<in> snd ` set (dl_batches d ! 0)" "fst (dl_promises d ! 1) = ''b''"
    "0 < length (dl_batches d)" by (simp_all add: d_def)
  with loader_settles_every_load [OF d, THEN conjunct2, rule_format, of 1 0 "Inr [(''b'', 5)]"] show ?thesis by simp
qed

text \<open>
  Batching.  As long as a key is not cleared or primed, every further load of it returns the
  promise of the first, so the batch function is asked for it once.
\<close>

theorem loads_share_a_promise:
  assumes "dl_load k d = (p, d1)" "list_all (\<lambda>e. \<not> clears k e) es"
  shows "dl_load k (foldl loader_step d1 es) = (p, foldl loader_step d1 es)"
proof -
  have "jget (dl_cache d1) k = Some p"
    using assms(1) by (auto simp: dl_load_def dl_enqueue_def dl_schedule_batch_def Let_def simp del: map_of_eq_Some_iff
        split: option.splits)
  from cached_stays_run [OF this assms(2)] show ?thesis by (simp add: dl_load_def del: map_of_eq_Some_iff)
qed

theorem loads_share_a_promise_witness:
  fixes d :: "(string, int, string) data_loader"
  defines "d \<equiv> snd (dl_load ''a'' data_loader_new)"
  shows "dl_load ''a'' (foldl loader_step d [Load ''b'', Flush]) = (0, foldl loader_step d [Load ''b'', Flush])"
  by (rule loads_share_a_promise [of _ data_loader_new])
    (simp_all add: d_def dl_load_def dl_enqueue_def dl_schedule_batch_def data_loader_new_def Let_def)

text \<open>
  A failed batch is remembered.  After a batch was rejected, each of its keys goes on returning the
  rejected promise until it is cleared or primed: later loads are never asked of the batch function.
\<close>

theorem failed_load_is_cached:
  assumes "d = foldl loader_step data_loader_new es" "jget (dl_cache d) k = Some p"
    and "n < length (dl_batches d)" "p \<in> snd ` set (dl_batches d ! n)" "list_all (\<lambda>e. \<not> clears k e) es1"
    and "d1 = foldl loader_step (loader_step d (BatchAnswers n (Inl e))) es1"
  shows "dl_load k d1 = (p, d1) \<and> load_result p d1 = LoadFailed e"
proof -
  have ok: "loader_ok d" unfolding assms(1) by (rule loader.run_keeps [OF loader_ok_new])
  have p: "p < length (dl_promises d)" using loader_okD(4) [OF ok assms(2)] by blast
  let ?d = "loader_step d (BatchAnswers n (Inl e))"
  have "load_result p ?d = LoadFailed e"
    using batch_answers_promise [OF ok assms(3) p, of "Inl e"] assms(4) by (simp add: load_result_def batch_settles_def)
  moreover have "p < length (dl_promises ?d)" using step_keeps_promise [OF ok p] by blast
  ultimately have "load_result p d1 = LoadFailed e"
    using run_keeps_promise [OF loader.step_keeps [OF ok, of "BatchAnswers n (Inl e)"], of p es1] assms(6) by simp
  moreover have "jget (dl_cache d1) k = Some p"
    unfolding assms(6) by (rule cached_stays_run [OF cached_stays [OF assms(2)] assms(5)]) simp
  ultimately show ?thesis by (simp add: dl_load_def del: map_of_eq_Some_iff)
qed

theorem failed_load_is_cached_witness:
  fixes d :: "(string, int, string) data_loader"
  defines "d \<equiv> \<lparr>dl_cache = [(''a'', 0), (''b'', 1)], dl_queue = [], dl_scheduled = False,
    dl_batches = [[(''a'', 0), (''b'', 1)]], dl_promises = [(''a'', LoadPending), (''b'', LoadPending)]\<rparr>"
  shows "load_result 0 (foldl loader_step (loader_step d (BatchAnswers 0 (Inl ''down''))) [Load ''a'', Flush]) = LoadFailed ''down''"
proof -
  have d: "d = foldl loader_step data_loader_new [Load ''a'', Load ''b'', Load ''a'', Flush]"
    unfolding d_def by (rule loader_example [symmetric])
  show ?thesis
    by (rule failed_load_is_cached [OF d _ _ _ _ refl, of "''a''", THEN conjunct2]) (simp_all add: d_def)
qed

text \<open>
  Pruning the detector of repeated queries never changes what it detects, now or later, within
  windows no longer than the one pruned with.
\<close>

theorem prune_preserves_detection:
  assumes "w \<le> window" "now \<le> now1" "1 \<le> threshold"
  shows "n1_detect now1 w threshold (n1_prune now window d) = n1_detect now1 w threshold d"
  using n1_prune_detect [OF assms] by (simp add: n1_prune_def)

theorem prune_preserves_detection_witness:
  "n1_detect 100 10 1 (n1_prune 95 20 [(''q'', [1, 92]), (''r'', [2])]) = [\<lparr>np_query = ''q'', np_count = 1, np_window_ms = 10\<rparr>]"
  using prune_preserves_detection [of 10 20 95 100 1 "[(''q'', [1, 92]), (''r'', [2])]"]
  by (simp add: n1_detect_def Let_def)

end
