(* ===== verification/Schema_Registry.thy ===== *)
theory Schema_Registry
  imports Prelude
begin

text \<open>
  The schema registry (\<open>packages/schema-registry/src\<close>): subjects with their versions, and the
  compatibility check a new version has to pass.
\<close>

section \<open>Schemas and the compatibility check\<close>

datatype compatibility_mode = NoCheck | Backward | Forward | FullCheck

datatype schema_type = JsonSchema | AvroSchema | ProtobufSchema

record schema_field =
  sf_name :: string
  sf_type :: string
  sf_optional :: "bool option"

record schema =
  sc_type :: schema_type
  sc_fields :: "schema_field list"
  sc_namespace :: "string option"

record schema_version =
  sv_id :: int
  sv_version :: int
  sv_schema :: schema
  sv_subject :: string
  sv_created_at :: int

text \<open>\<open>new Map(fs.map(f => [f.name, f]))\<close>\<close>

definition field_map :: "schema_field list \<Rightarrow> (string, schema_field) jsmap" where
  "field_map fs = fold (\<lambda>f. jset (sf_name f) f) fs []"

definition backward_check :: "(string, schema_field) jsmap \<Rightarrow> (string, schema_field) jsmap \<Rightarrow> bool" where
  "backward_check existing nxt = list_all (\<lambda>(name, f). \<not> (sf_optional f \<noteq> Some True \<and> \<not> jhas nxt name)) existing"

definition forward_check :: "(string, schema_field) jsmap \<Rightarrow> (string, schema_field) jsmap \<Rightarrow> bool" where
  "forward_check existing nxt = list_all (\<lambda>(name, f). \<not> (sf_optional f = Some True \<and> \<not> jhas nxt name)) existing"

definition check_compatibility :: "schema \<Rightarrow> schema \<Rightarrow> compatibility_mode \<Rightarrow> bool" where
  "check_compatibility existing nxt mode =
     (if mode = NoCheck then True
      else let existing_fields = field_map (sc_fields existing); next_fields = field_map (sc_fields nxt)
           in if (mode = Backward \<or> mode = FullCheck) \<and> \<not> backward_check existing_fields next_fields then False
              else if (mode = Forward \<or> mode = FullCheck) \<and> \<not> forward_check existing_fields next_fields then False
              else True)"

section \<open>The registry\<close>

record schema_registry =
  sg_subjects :: "(string, schema_version list) jsmap"
  sg_global :: compatibility_mode
  sg_modes :: "(string, compatibility_mode) jsmap"
  sg_next_id :: int

definition schema_registry_new :: "compatibility_mode \<Rightarrow> schema_registry" where
  "schema_registry_new mode = \<lparr>sg_subjects = [], sg_global = mode, sg_modes = [], sg_next_id = 1\<rparr>"

definition get_compatibility :: "string \<Rightarrow> schema_registry \<Rightarrow> compatibility_mode" where
  "get_compatibility subject r = (case jget (sg_modes r) subject of Some m \<Rightarrow> m | None \<Rightarrow> sg_global r)"

definition set_compatibility :: "string \<Rightarrow> compatibility_mode \<Rightarrow> schema_registry \<Rightarrow> schema_registry" where
  "set_compatibility subject mode r = r\<lparr>sg_modes := jset subject mode (sg_modes r)\<rparr>"

definition incompatible_schema :: "string \<Rightarrow> js_error" where
  "incompatible_schema subject =
     JsError ''IncompatibleSchemaError'' (''Schema for subject \"'' @ subject @ ''\" is incompatible'')"

definition subject_not_found :: "string \<Rightarrow> js_error" where
  "subject_not_found subject = JsError ''SubjectNotFoundError'' (''Subject not found: '' @ subject)"

definition schema_version_not_found :: "string \<Rightarrow> int \<Rightarrow> js_error" where
  "schema_version_not_found subject v =
     JsError ''SchemaVersionNotFoundError''
       (''Schema version '' @ show_int v @ '' not found for subject \"'' @ subject @ ''\"'')"

definition versions_of :: "string \<Rightarrow> schema_registry \<Rightarrow> schema_version list" where
  "versions_of subject r = elems (sg_subjects r) subject"

definition schema_register ::
  "int \<Rightarrow> string \<Rightarrow> schema \<Rightarrow> schema_registry \<Rightarrow> (js_error, int) outcome \<times> schema_registry" where
  "schema_register now subject s r =
     (let existing = versions_of subject r
      in if length existing > 0
            \<and> \<not> check_compatibility (sv_schema (last existing)) s (get_compatibility subject r)
         then (Inl (incompatible_schema subject), r)
         else let i = sg_next_id r;
                  v = \<lparr>sv_id = i, sv_version = int (length existing) + 1, sv_schema = s,
                       sv_subject = subject, sv_created_at = now\<rparr>
              in (Inr i, r\<lparr>sg_next_id := i + 1, sg_subjects := jset subject (existing @ [v]) (sg_subjects r)\<rparr>))"

definition get_latest :: "string \<Rightarrow> schema_registry \<Rightarrow> (js_error, schema) outcome" where
  "get_latest subject r =
     (case versions_of subject r of
        [] \<Rightarrow> Inl (subject_not_found subject)
      | v # vs \<Rightarrow> Inr (sv_schema (last (v # vs))))"

definition get_version :: "string \<Rightarrow> int \<Rightarrow> schema_registry \<Rightarrow> (js_error, schema_version) outcome" where
  "get_version subject n r =
     (case List.find (\<lambda>v. sv_version v = n) (versions_of subject r) of
        None \<Rightarrow> Inl (schema_version_not_found subject n)
      | Some v \<Rightarrow> Inr v)"

definition list_subjects :: "schema_registry \<Rightarrow> string list" where
  "list_subjects r = jkeys (sg_subjects r)"

definition list_versions :: "string \<Rightarrow> schema_registry \<Rightarrow> int list" where
  "list_versions subject r = map sv_version (versions_of subject r)"

definition delete_subject :: "string \<Rightarrow> schema_registry \<Rightarrow> bool \<times> schema_registry" where
  "delete_subject subject r =
     (jhas (sg_subjects r) subject, r\<lparr>sg_subjects := jdelete subject (sg_subjects r)\<rparr>)"

definition subject_count :: "schema_registry \<Rightarrow> int" where
  "subject_count r = jsize (sg_subjects r)"

datatype schema_op = RegisterSchema int string schema | DeleteSubject string | SetCompatibility string compatibility_mode

fun schema_step :: "schema_registry \<Rightarrow> schema_op \<Rightarrow> schema_registry" where
  "schema_step r (RegisterSchema now subject s) = snd (schema_register now subject s r)"
| "schema_step r (DeleteSubject subject) = snd (delete_subject subject r)"
| "schema_step r (SetCompatibility subject mode) = set_compatibility subject mode r"

section \<open>Lemmas\<close>

lemma find_snoc: "List.find p (xs @ [x]) = (case List.find p xs of Some y \<Rightarrow> Some y | None \<Rightarrow> if p x then Some x else None)"
  by (induction xs) auto

lemma jget_field_map_append:
  "jget (fold (\<lambda>f. jset (sf_name f) f) fs m) name =
     (case List.find (\<lambda>f. sf_name f = name) (rev fs) of Some f \<Rightarrow> Some f | None \<Rightarrow> jget m name)"
proof (induction fs arbitrary: m)
  case (Cons f fs)
  then show ?case by (simp add: find_snoc split: option.split)
qed simp

lemma has_field: "jhas (field_map fs) name \<longleftrightarrow> name \<in> sf_name ` set fs"
proof -
  have "List.find (\<lambda>f. sf_name f = name) (rev fs) = None \<longleftrightarrow> name \<notin> sf_name ` set fs"
    by (auto simp: find_None_iff)
  then show ?thesis
    unfolding jhas_def field_map_def jget_field_map_append by (auto split: option.split)
qed

lemma field_map_keys: "set (jkeys (field_map fs)) = sf_name ` set fs"
  using has_field by (auto simp: jhas_keys)

text \<open>The fields a schema requires: those whose last declaration is not optional.\<close>

definition required_fields :: "schema \<Rightarrow> string set" where
  "required_fields s = {name. \<exists>f. (name, f) \<in> set (field_map (sc_fields s)) \<and> sf_optional f \<noteq> Some True}"

definition field_names :: "schema \<Rightarrow> string set" where
  "field_names s = sf_name ` set (sc_fields s)"

lemma backward_iff:
  "backward_check (field_map (sc_fields a)) (field_map (sc_fields b)) \<longleftrightarrow> required_fields a \<subseteq> field_names b"
  by (auto simp: backward_check_def list_all_iff has_field required_fields_def field_names_def)

lemma forward_iff:
  "forward_check (field_map (sc_fields a)) (field_map (sc_fields b)) \<longleftrightarrow>
   {name. \<exists>f. (name, f) \<in> set (field_map (sc_fields a)) \<and> sf_optional f = Some True} \<subseteq> field_names b"
  by (auto simp: forward_check_def list_all_iff has_field field_names_def)

lemma full_iff: "check_compatibility a b FullCheck \<longleftrightarrow> field_names a \<subseteq> field_names b"
proof -
  have "field_names a = required_fields a \<union>
      {name. \<exists>f. (name, f) \<in> set (field_map (sc_fields a)) \<and> sf_optional f = Some True}"
    using field_map_keys [of "sc_fields a"] by (force simp: field_names_def required_fields_def)
  then show ?thesis by (auto simp: check_compatibility_def Let_def backward_iff forward_iff)
qed

text \<open>
  Every subject's versions are numbered from 1, filed under their subject, and have ids given out
  before; ids grow within a subject.
\<close>

definition versions_ok :: "int \<Rightarrow> string \<Rightarrow> schema_version list \<Rightarrow> bool" where
  "versions_ok next_id subject vs \<longleftrightarrow>
     map sv_version vs = map int [1..<length vs + 1]
     \<and> (\<forall>v \<in> set vs. sv_subject v = subject \<and> sv_id v < next_id)
     \<and> sorted_wrt (<) (map sv_id vs)"

definition schemas_ok :: "schema_registry \<Rightarrow> bool" where
  "schemas_ok r \<longleftrightarrow> (\<forall>subject. versions_ok (sg_next_id r) subject (versions_of subject r))"

lemma versions_ok_Nil: "versions_ok n subject []"
  by (simp add: versions_ok_def)

lemma versions_ok_mono: "versions_ok n subject vs \<Longrightarrow> n \<le> m \<Longrightarrow> versions_ok m subject vs"
  unfolding versions_ok_def by fastforce

lemma versions_ok_snoc:
  assumes "versions_ok n subject vs" "sv_id v = n" "sv_version v = int (length vs) + 1" "sv_subject v = subject"
  shows "versions_ok (n + 1) subject (vs @ [v])"
proof -
  have "\<forall>u \<in> set vs. sv_subject u = subject \<and> sv_id u < n + 1"
    using assms(1) unfolding versions_ok_def by fastforce
  moreover have "sorted_wrt (<) (map sv_id (vs @ [v]))"
    using assms unfolding versions_ok_def by (simp add: sorted_wrt_append)
  moreover have "map sv_version (vs @ [v]) = map int [1..<length (vs @ [v]) + 1]"
    using assms unfolding versions_ok_def by simp
  ultimately show ?thesis using assms(2,4) unfolding versions_ok_def by simp
qed

lemma schemas_ok_new: "schemas_ok (schema_registry_new mode)"
  by (simp add: schemas_ok_def versions_of_def schema_registry_new_def elems_def versions_ok_Nil)

lemma versions_register:
  assumes "fst (schema_register now subject s r) = Inr i"
  shows "i = sg_next_id r"
    and "versions_of t (snd (schema_register now subject s r)) =
      (if t = subject then versions_of subject r @
        [\<lparr>sv_id = i, sv_version = int (length (versions_of subject r)) + 1, sv_schema = s, sv_subject = subject, sv_created_at = now\<rparr>]
       else versions_of t r)"
    and "sg_next_id (snd (schema_register now subject s r)) = sg_next_id r + 1"
    and "versions_of subject r \<noteq> [] \<Longrightarrow>
      check_compatibility (sv_schema (last (versions_of subject r))) s (get_compatibility subject r)"
    and "sg_modes (snd (schema_register now subject s r)) = sg_modes r"
    and "sg_global (snd (schema_register now subject s r)) = sg_global r"
  using assms by (auto simp: schema_register_def versions_of_def Let_def split: if_splits)

lemma register_fails:
  "fst (schema_register now subject s r) = Inl e \<Longrightarrow> snd (schema_register now subject s r) = r"
  by (auto simp: schema_register_def Let_def split: if_splits)

lemma schemas_ok_step: "schemas_ok r \<Longrightarrow> schemas_ok (schema_step r op)"
proof (cases op)
  case (RegisterSchema now subject s)
  assume ok: "schemas_ok r"
  show ?thesis
  proof (cases "fst (schema_register now subject s r)")
    case (Inl e)
    with ok RegisterSchema show ?thesis by (simp add: register_fails)
  next
    case (Inr i)
    note v = versions_register [OF Inr]
    show ?thesis
      using ok unfolding RegisterSchema schema_step.simps schemas_ok_def v(2,3) v(1)
      by (auto intro: versions_ok_snoc versions_ok_mono)
  qed
next
  case (DeleteSubject subject)
  assume "schemas_ok r"
  with DeleteSubject show ?thesis
    by (simp add: schemas_ok_def versions_of_def delete_subject_def versions_ok_Nil)
next
  case (SetCompatibility subject mode)
  assume "schemas_ok r"
  with SetCompatibility show ?thesis by (simp add: schemas_ok_def versions_of_def set_compatibility_def)
qed

interpretation schemas: invariant_machine schema_step schemas_ok
  by unfold_locales (rule schemas_ok_step)

lemma find_version:
  assumes "versions_ok n subject vs" "k < length vs"
  shows "List.find (\<lambda>v. sv_version v = int k + 1) vs = Some (vs ! k)"
proof -
  have ver: "sv_version (vs ! j) = int j + 1" if "j < length vs" for j
  proof -
    have "map sv_version vs ! j = map int [1..<length vs + 1] ! j" using assms(1) by (simp add: versions_ok_def)
    with that show ?thesis by (simp del: upt_Suc)
  qed
  show ?thesis unfolding find_Some_iff using assms(2) ver by (intro exI [of _ k]) auto
qed

lemma find_no_version:
  assumes "versions_ok n subject vs" "m < 1 \<or> int (length vs) < m"
  shows "List.find (\<lambda>v. sv_version v = m) vs = None"
proof -
  have "map sv_version vs = map int [1..<length vs + 1]" using assms(1) by (simp add: versions_ok_def)
  then have "set (map sv_version vs) = set (map int [1..<length vs + 1])" by (rule arg_cong)
  then have "sv_version ` set vs = int ` {1..<length vs + 1}" by (simp del: upt_Suc)
  moreover have "m \<notin> int ` {1..<length vs + 1}" using assms(2) by auto
  ultimately have "m \<notin> sv_version ` set vs" by simp
  then show ?thesis by (auto simp: find_None_iff)
qed

section \<open>The history of a subject under one mode\<close>

text \<open>Each version of every subject is compatible with the one before.\<close>

definition history_compatible :: "compatibility_mode \<Rightarrow> schema_registry \<Rightarrow> bool" where
  "history_compatible mode r \<longleftrightarrow> sg_modes r = [] \<and> sg_global r = mode \<and>
     (\<forall>subject. successively (\<lambda>v w. check_compatibility (sv_schema v) (sv_schema w) mode) (versions_of subject r))"

fun keeps_mode :: "schema_op \<Rightarrow> bool" where
  "keeps_mode (SetCompatibility subject mode) = False"
| "keeps_mode op = True"

lemma schema_history_step:
  assumes "history_compatible mode r" "keeps_mode op"
  shows "history_compatible mode (schema_step r op)"
proof (cases op)
  case (RegisterSchema now subject s)
  show ?thesis
  proof (cases "fst (schema_register now subject s r)")
    case (Inl e)
    with assms RegisterSchema show ?thesis by (simp add: register_fails)
  next
    case (Inr i)
    note v = versions_register [OF Inr]
    have "get_compatibility subject r = mode" using assms(1) by (simp add: history_compatible_def get_compatibility_def)
    with v(4) show ?thesis
      using assms(1) unfolding RegisterSchema schema_step.simps history_compatible_def v(2,5,6)
      by (auto simp: successively_append_iff)
  qed
next
  case (DeleteSubject subject)
  with assms(1) show ?thesis by (simp add: history_compatible_def versions_of_def delete_subject_def)
next
  case (SetCompatibility subject m)
  with assms(2) show ?thesis by simp
qed

lemma schema_history_run:
  "history_compatible mode r \<Longrightarrow> list_all keeps_mode ops \<Longrightarrow> history_compatible mode (foldl schema_step r ops)"
  by (induction ops arbitrary: r) (auto intro: schema_history_step)

section \<open>Properties\<close>

text \<open>
  Versions.  In every reachable state the versions of a subject are exactly 1, 2, ..., with growing
  ids: each is found under its number and no other number is, and after a registration that
  succeeded the new schema is the latest and has the next number.
\<close>

theorem schema_versions_are_numbered:
  fixes ops mode
  defines "r \<equiv> foldl schema_step (schema_registry_new mode) ops"
  shows "list_versions subject r = map int [1..<length (versions_of subject r) + 1]
    \<and> sorted_wrt (<) (map sv_id (versions_of subject r))
    \<and> get_version subject m r =
       (if 1 \<le> m \<and> m \<le> int (length (versions_of subject r)) then Inr (versions_of subject r ! nat (m - 1))
        else Inl (schema_version_not_found subject m))
    \<and> (case schema_register now subject s r of
        (Inl e, r1) \<Rightarrow> r1 = r
      | (Inr i, r1) \<Rightarrow> get_latest subject r1 = Inr s
          \<and> map_sum id sv_id (get_version subject (int (length (versions_of subject r)) + 1) r1) = Inr i)"
proof -
  have ok: "schemas_ok r" unfolding r_def by (rule schemas.run_keeps [OF schemas_ok_new])
  then have vok: "versions_ok (sg_next_id r) subject (versions_of subject r)" by (simp add: schemas_ok_def)
  have get: "get_version subject m r =
       (if 1 \<le> m \<and> m \<le> int (length (versions_of subject r)) then Inr (versions_of subject r ! nat (m - 1))
        else Inl (schema_version_not_found subject m))"
  proof (cases "1 \<le> m \<and> m \<le> int (length (versions_of subject r))")
    case True
    then have "nat (m - 1) < length (versions_of subject r)" "int (nat (m - 1)) + 1 = m" by linarith+
    with find_version [OF vok, of "nat (m - 1)"] show ?thesis unfolding if_P [OF True] by (simp add: get_version_def)
  next
    case False
    with find_no_version [OF vok, of m] show ?thesis by (auto simp: get_version_def)
  qed
  have reg: "case schema_register now subject s r of
        (Inl e, r1) \<Rightarrow> r1 = r
      | (Inr i, r1) \<Rightarrow> get_latest subject r1 = Inr s
          \<and> map_sum id sv_id (get_version subject (int (length (versions_of subject r)) + 1) r1) = Inr i"
  proof (cases "fst (schema_register now subject s r)")
    case (Inl e)
    then have "schema_register now subject s r = (Inl e, r)" by (simp add: prod_eq_iff register_fails)
    then show ?thesis by simp
  next
    case (Inr i)
    obtain r1 where eq: "schema_register now subject s r = (Inr i, r1)" using Inr by (metis prod.collapse)
    have v: "versions_of subject r1 = versions_of subject r @
        [\<lparr>sv_id = i, sv_version = int (length (versions_of subject r)) + 1, sv_schema = s, sv_subject = subject, sv_created_at = now\<rparr>]"
      using versions_register(2) [OF Inr, of subject] by (simp add: eq)
    have "schemas_ok r1" using schemas_ok_step [OF ok, of "RegisterSchema now subject s"] by (simp add: eq)
    then have "versions_ok (sg_next_id r1) subject (versions_of subject r1)" by (simp add: schemas_ok_def)
    from find_version [OF this, of "length (versions_of subject r)"]
    have "map_sum id sv_id (get_version subject (int (length (versions_of subject r)) + 1) r1) = Inr i"
      by (simp add: get_version_def v)
    moreover have "get_latest subject r1 = Inr s" by (simp add: get_latest_def v split: list.split) (metis last_snoc schema_version.select_convs(3) last_ConsR list.distinct(1))
    ultimately show ?thesis by (simp add: eq)
  qed
  have "list_versions subject r = map int [1..<length (versions_of subject r) + 1]"
    "sorted_wrt (<) (map sv_id (versions_of subject r))"
    using vok unfolding versions_ok_def list_versions_def by blast+
  then show ?thesis using get reg by (intro conjI)
qed

text \<open>
  Full compatibility.  A registry whose mode is \<open>FULL\<close> never loses a field: every version of a
  subject has all the fields of every earlier version.
\<close>

theorem full_mode_never_loses_fields:
  assumes "list_all keeps_mode ops" "r = foldl schema_step (schema_registry_new FullCheck) ops"
    and "i \<le> j" "j < length (versions_of subject r)"
  shows "field_names (sv_schema (versions_of subject r ! i)) \<subseteq> field_names (sv_schema (versions_of subject r ! j))"
proof -
  have "history_compatible FullCheck (schema_registry_new FullCheck)"
    by (simp add: history_compatible_def schema_registry_new_def versions_of_def elems_def)
  from schema_history_run [OF this assms(1)] have "successively (\<lambda>v w. field_names (sv_schema v) \<subseteq> field_names (sv_schema w)) (versions_of subject r)"
    by (simp add: history_compatible_def assms(2) full_iff)
  then have "sorted_wrt (\<lambda>v w. field_names (sv_schema v) \<subseteq> field_names (sv_schema w)) (versions_of subject r)"
    by (subst (asm) successively_conv_sorted_wrt) (auto intro: transpI)
  with assms(3,4) show ?thesis by (cases "i = j") (auto simp: sorted_wrt_iff_nth_less)
qed

definition example_schema :: "(string \<times> bool) list \<Rightarrow> schema" where
  "example_schema fs =
     \<lparr>sc_type = JsonSchema, sc_fields = map (\<lambda>(n, b). \<lparr>sf_name = n, sf_type = ''string'', sf_optional = Some b\<rparr>) fs,
      sc_namespace = None\<rparr>"

theorem full_mode_never_loses_fields_witness:
  "field_names (sv_schema (versions_of ''s'' (foldl schema_step (schema_registry_new FullCheck)
      [RegisterSchema 0 ''s'' (example_schema [(''a'', False)]),
       RegisterSchema 0 ''s'' (example_schema [(''a'', True), (''b'', False)])]) ! 0)) \<subseteq> {''a'', ''b''}"
proof -
  let ?ops = "[RegisterSchema 0 ''s'' (example_schema [(''a'', False)]),
       RegisterSchema 0 ''s'' (example_schema [(''a'', True), (''b'', False)])]"
  have vs: "map sv_schema (versions_of ''s'' (foldl schema_step (schema_registry_new FullCheck) ?ops)) =
      [example_schema [(''a'', False)], example_schema [(''a'', True), (''b'', False)]]"
    by (simp add: schema_register_def versions_of_def schema_registry_new_def elems_def Let_def get_compatibility_def full_iff)
      (simp add: field_names_def example_schema_def)
  then have len: "1 < length (versions_of ''s'' (foldl schema_step (schema_registry_new FullCheck) ?ops))"
    by (metis (no_types, lifting) length_map length_Cons list.size(3) lessI One_nat_def)
  have "sv_schema (versions_of ''s'' (foldl schema_step (schema_registry_new FullCheck) ?ops) ! 1) =
      example_schema [(''a'', True), (''b'', False)]"
    using arg_cong [OF vs, of "\<lambda>xs. xs ! 1"] len by simp
  with full_mode_never_loses_fields [OF _ refl _ len, of 0] show ?thesis
    by (simp add: field_names_def example_schema_def)
qed

text \<open>
  Backward compatibility.  The documentation has a backward-compatible schema read the data of the
  old one, but only removals are checked: a schema that newly requires a field is accepted, and
  data without that field was valid under the old schema.
\<close>

theorem backward_accepts_new_required_field:
  assumes "name \<notin> field_names a"
    and "b = a\<lparr>sc_fields := sc_fields a @ [\<lparr>sf_name = name, sf_type = ty, sf_optional = None\<rparr>]\<rparr>"
  shows "check_compatibility a b Backward \<and> name \<in> required_fields b \<and> name \<notin> required_fields a"
proof -
  have "jget (field_map (sc_fields b)) name = Some \<lparr>sf_name = name, sf_type = ty, sf_optional = None\<rparr>"
    by (simp add: assms(2) field_map_def jget_field_map_append)
  then have "(name, \<lparr>sf_name = name, sf_type = ty, sf_optional = None\<rparr>) \<in> set (field_map (sc_fields b))"
    by (rule map_of_SomeD)
  then have "name \<in> required_fields b" by (force simp: required_fields_def)
  moreover have sub: "required_fields a \<subseteq> field_names a"
    using field_map_keys [of "sc_fields a"] by (force simp: required_fields_def field_names_def)
  moreover have "required_fields a \<subseteq> field_names b" using sub by (auto simp: assms(2) field_names_def)
  ultimately show ?thesis
    using assms(1) by (auto simp: check_compatibility_def Let_def backward_iff)
qed

theorem backward_accepts_new_required_field_witness:
  "check_compatibility (example_schema [(''a'', False)])
     ((example_schema [(''a'', False)])\<lparr>sc_fields := sc_fields (example_schema [(''a'', False)]) @
        [\<lparr>sf_name = ''b'', sf_type = ''string'', sf_optional = None\<rparr>]\<rparr>) Backward"
  using backward_accepts_new_required_field [OF _ refl, of "''b''" "example_schema [(''a'', False)]" "''string''"]
  by (simp add: field_names_def example_schema_def)

end
