(* ===== verification/Messaging.thy ===== *)
theory Messaging
  imports Prelude
begin

text \<open>
  Publish and subscribe (\<open>packages/messaging/src/pubsub\<close>): the topic router with its AMQP-style
  patterns, the fan-out broker, the message filter and the router behind it, and the
  request-reply broker as a state machine over requests, replies, cancellations and timers.
  While a message is being delivered the subscriptions are not changed, except by handlers of the
  topic router, which delivers to the subscriptions it found at the start.
\<close>

section \<open>Envelopes and handlers\<close>

record ('p, 'm) envelope =
  ev_event_id :: string
  ev_event_type :: string
  ev_event_version :: string
  ev_timestamp :: string
  ev_correlation_id :: "string option"
  ev_causation_id :: "string option"
  ev_tenant_id :: "string option"
  ev_payload :: 'p
  ev_metadata :: "'m option"

text \<open>A handler acts on the state of the program and returns or throws.\<close>

type_synonym ('p, 'm, 'w) on_message = "('p, 'm) envelope \<Rightarrow> 'w \<Rightarrow> (js_error, unit) outcome \<times> 'w"

fun run_handlers ::
  "('p, 'm, 'w) on_message list \<Rightarrow> ('p, 'm) envelope \<Rightarrow> 'w \<Rightarrow> (js_error, unit) outcome \<times> 'w" where
  "run_handlers [] env w = (Inr (), w)"
| "run_handlers (h # hs) env w =
     (case h env w of
        (Inl e, w1) \<Rightarrow> (Inl e, w1)
      | (Inr u, w1) \<Rightarrow> run_handlers hs env w1)"

section \<open>Topic router\<close>

record ('p, 'm, 'w) topic_subscription =
  ts_pattern :: string
  ts_handler :: "('p, 'm, 'w) on_message"

record ('p, 'm, 'w) topic_router =
  tor_subscriptions :: "(string, ('p, 'm, 'w) topic_subscription) jsmap"
  tor_next_id :: int

definition topic_router_new :: "('p, 'm, 'w) topic_router" where
  "topic_router_new = \<lparr>tor_subscriptions = [], tor_next_id = 1\<rparr>"

definition topic_subscribe ::
  "string \<Rightarrow> ('p, 'm, 'w) on_message \<Rightarrow> ('p, 'm, 'w) topic_router \<Rightarrow> string \<times> ('p, 'm, 'w) topic_router" where
  "topic_subscribe pattern handler r =
     (let i = show_int (tor_next_id r)
      in (i, r\<lparr>tor_subscriptions := jset i \<lparr>ts_pattern = pattern, ts_handler = handler\<rparr> (tor_subscriptions r),
              tor_next_id := tor_next_id r + 1\<rparr>))"

definition topic_unsubscribe :: "string \<Rightarrow> ('p, 'm, 'w) topic_router \<Rightarrow> ('p, 'm, 'w) topic_router" where
  "topic_unsubscribe i r = r\<lparr>tor_subscriptions := jdelete i (tor_subscriptions r)\<rparr>"

function match_parts :: "string list \<Rightarrow> string list \<Rightarrow> nat \<Rightarrow> nat \<Rightarrow> bool" where
  "match_parts pattern topic pix tix =
     (if pix \<ge> length pattern \<and> tix = length topic then True
      else if pix \<ge> length pattern then False
      else if pattern ! pix = ''#''
      then list_ex (\<lambda>j. match_parts pattern topic (pix + 1) j) [tix..<length topic + 1]
      else if tix \<ge> length topic then False
      else if pattern ! pix = ''*'' then match_parts pattern topic (pix + 1) (tix + 1)
      else if pattern ! pix \<noteq> topic ! tix then False
      else match_parts pattern topic (pix + 1) (tix + 1))"
  by auto
termination by (relation "measure (\<lambda>(p, t, pix, tix). length p - pix)") auto

declare match_parts.simps [simp del]

definition topic_matches :: "string \<Rightarrow> string \<Rightarrow> bool" where
  "topic_matches pattern topic = match_parts (js_split CHR ''.'' pattern) (js_split CHR ''.'' topic) 0 0"

definition topic_route ::
  "('p, 'm) envelope \<Rightarrow> ('p, 'm, 'w) topic_router \<Rightarrow> 'w \<Rightarrow> (js_error, unit) outcome \<times> 'w" where
  "topic_route env r w =
     (let matched = filter (\<lambda>sub. topic_matches (ts_pattern sub) (ev_event_type env))
                      (jvalues (tor_subscriptions r))
      in run_handlers (map ts_handler matched) env w)"

definition topic_clear :: "('p, 'm, 'w) topic_router \<Rightarrow> ('p, 'm, 'w) topic_router" where
  "topic_clear r = r\<lparr>tor_subscriptions := []\<rparr>"

definition topic_subscriber_count :: "('p, 'm, 'w) topic_router \<Rightarrow> int" where
  "topic_subscriber_count r = jsize (tor_subscriptions r)"

text \<open>Unsubscribing is given the number of the subscription, counting from 1.\<close>

datatype ('p, 'm, 'w) topic_event = Subscribe string "('p, 'm, 'w) on_message" | Unsubscribe nat | ClearTopics

fun topic_step :: "('p, 'm, 'w) topic_router \<Rightarrow> ('p, 'm, 'w) topic_event \<Rightarrow> ('p, 'm, 'w) topic_router" where
  "topic_step r (Subscribe p h) = snd (topic_subscribe p h r)"
| "topic_step r (Unsubscribe n) = topic_unsubscribe (show_int (int n)) r"
| "topic_step r ClearTopics = topic_clear r"

subsection \<open>What a pattern denotes\<close>

text \<open>
  A pattern denotes the topics that split into one piece for each of its segments: any number of
  segments for \<open>#\<close>, one for \<open>*\<close>, the segment itself otherwise.
\<close>

definition segment_denotes :: "string \<Rightarrow> string list \<Rightarrow> bool" where
  "segment_denotes seg piece =
     (if seg = ''#'' then True else if seg = ''*'' then length piece = 1 else piece = [seg])"

definition parts_denote :: "string list \<Rightarrow> string list \<Rightarrow> bool" where
  "parts_denote pattern topic = (\<exists>pieces. list_all2 segment_denotes pattern pieces \<and> concat pieces = topic)"

definition pattern_denotes :: "string \<Rightarrow> string \<Rightarrow> bool" where
  "pattern_denotes pattern topic = parts_denote (js_split CHR ''.'' pattern) (js_split CHR ''.'' topic)"

lemma parts_denote_Nil [simp]: "parts_denote [] topic \<longleftrightarrow> topic = []"
  by (auto simp: parts_denote_def)

lemma parts_denote_Cons:
  "parts_denote (seg # pattern) topic \<longleftrightarrow>
   (\<exists>k \<le> length topic. segment_denotes seg (take k topic) \<and> parts_denote pattern (drop k topic))"
proof
  assume "parts_denote (seg # pattern) topic"
  then obtain piece pieces where p: "segment_denotes seg piece" "list_all2 segment_denotes pattern pieces"
    "piece @ concat pieces = topic"
    by (auto simp: parts_denote_def list_all2_Cons1)
  then have "parts_denote pattern (drop (length piece) topic)" "take (length piece) topic = piece"
    "length piece \<le> length topic"
    by (auto simp: parts_denote_def)
  with p(1) show "\<exists>k \<le> length topic. segment_denotes seg (take k topic) \<and> parts_denote pattern (drop k topic)"
    by auto
next
  assume "\<exists>k \<le> length topic. segment_denotes seg (take k topic) \<and> parts_denote pattern (drop k topic)"
  then obtain k pieces where "segment_denotes seg (take k topic)" "list_all2 segment_denotes pattern pieces"
    "concat pieces = drop k topic" by (auto simp: parts_denote_def)
  then show "parts_denote (seg # pattern) topic"
    unfolding parts_denote_def by (intro exI [of _ "take k topic # pieces"]) auto
qed

lemma match_parts_denotes:
  "tix \<le> length topic \<Longrightarrow> match_parts pattern topic pix tix \<longleftrightarrow> parts_denote (drop pix pattern) (drop tix topic)"
proof (induction pattern topic pix tix rule: match_parts.induct)
  case (1 pattern topic pix tix)
  show ?case
  proof (cases "pix < length pattern")
    case False
    with 1(4) show ?thesis by (subst match_parts.simps) auto
  next
    case pix: True
    then have drop: "drop pix pattern = pattern ! pix # drop (pix + 1) pattern" by (simp add: Cons_nth_drop_Suc)
    consider "pattern ! pix = ''#''" | "pattern ! pix \<noteq> ''#''" "tix = length topic"
      | "pattern ! pix \<noteq> ''#''" "tix < length topic" using 1(4) by linarith
    then show ?thesis
    proof cases
      case h: 1
      have "match_parts pattern topic pix tix \<longleftrightarrow>
          (\<exists>j \<in> {tix..length topic}. match_parts pattern topic (pix + 1) j)"
        using pix h by (subst match_parts.simps) (auto simp: list_ex_iff less_Suc_eq_le)
      also have "\<dots> \<longleftrightarrow> (\<exists>j \<in> {tix..length topic}. parts_denote (drop (pix + 1) pattern) (drop j topic))"
      proof (intro bex_cong refl)
        fix j
        assume j: "j \<in> {tix..length topic}"
        then have "j \<in> set [tix..<length topic + 1]" by auto
        with 1(1) [OF _ _ h this] pix j show "match_parts pattern topic (pix + 1) j =
            parts_denote (drop (pix + 1) pattern) (drop j topic)" by simp
      qed
      also have "\<dots> \<longleftrightarrow> (\<exists>k \<le> length topic - tix. parts_denote (drop (pix + 1) pattern) (drop (tix + k) topic))"
      proof
        assume "\<exists>j \<in> {tix..length topic}. parts_denote (drop (pix + 1) pattern) (drop j topic)"
        then obtain j where "tix \<le> j" "j \<le> length topic" "parts_denote (drop (pix + 1) pattern) (drop j topic)" by auto
        then show "\<exists>k \<le> length topic - tix. parts_denote (drop (pix + 1) pattern) (drop (tix + k) topic)"
          by (intro exI [of _ "j - tix"]) auto
      qed (use 1(4) in force)
      finally show ?thesis
        unfolding drop parts_denote_Cons by (simp add: h segment_denotes_def add.commute)
    next
      case 2
      with pix show ?thesis
        unfolding drop parts_denote_Cons by (subst match_parts.simps) (auto simp: segment_denotes_def)
    next
      case 3
      have seg: "segment_denotes (pattern ! pix) (take k (drop tix topic)) \<longleftrightarrow>
          k = 1 \<and> (pattern ! pix = ''*'' \<or> pattern ! pix = topic ! tix)" if "k \<le> length topic - tix" for k
        using 3 that by (cases k) (auto simp: segment_denotes_def Cons_nth_drop_Suc [symmetric] take_Suc_conv_app_nth)
      have one: "1 \<le> length topic - tix" using 3 by simp
      have "parts_denote (pattern ! pix # drop (pix + 1) pattern) (drop tix topic) \<longleftrightarrow>
          (pattern ! pix = ''*'' \<or> pattern ! pix = topic ! tix) \<and>
          parts_denote (drop (pix + 1) pattern) (drop (tix + 1) topic)"
      proof
        assume "parts_denote (pattern ! pix # drop (pix + 1) pattern) (drop tix topic)"
        then show "(pattern ! pix = ''*'' \<or> pattern ! pix = topic ! tix) \<and>
          parts_denote (drop (pix + 1) pattern) (drop (tix + 1) topic)"
          unfolding parts_denote_Cons using seg by (auto simp: add.commute)
      next
        assume "(pattern ! pix = ''*'' \<or> pattern ! pix = topic ! tix) \<and>
          parts_denote (drop (pix + 1) pattern) (drop (tix + 1) topic)"
        then show "parts_denote (pattern ! pix # drop (pix + 1) pattern) (drop tix topic)"
          unfolding parts_denote_Cons using seg [OF one] one by (intro exI [of _ 1]) auto
      qed
      then show ?thesis
        unfolding drop using 1(2,3) pix 3 by (subst match_parts.simps) auto
    qed
  qed
qed

lemma topic_matches_denotes: "topic_matches pattern topic \<longleftrightarrow> pattern_denotes pattern topic"
  by (simp add: topic_matches_def pattern_denotes_def match_parts_denotes)

subsection \<open>The router refines a list of numbered subscriptions\<close>

fun topic_spec_step ::
  "int \<times> (int \<times> ('p, 'm, 'w) topic_subscription) list \<Rightarrow> ('p, 'm, 'w) topic_event \<Rightarrow>
   int \<times> (int \<times> ('p, 'm, 'w) topic_subscription) list" where
  "topic_spec_step (n, subs) (Subscribe p h) = (n + 1, subs @ [(n, \<lparr>ts_pattern = p, ts_handler = h\<rparr>)])"
| "topic_spec_step (n, subs) (Unsubscribe k) = (n, filter (\<lambda>(i, s). i \<noteq> int k) subs)"
| "topic_spec_step (n, subs) ClearTopics = (n, [])"

definition topic_abs :: "('p, 'm, 'w) topic_router \<Rightarrow> int \<times> (int \<times> ('p, 'm, 'w) topic_subscription) list" where
  "topic_abs r = (tor_next_id r, map (\<lambda>(k, s). (int (digits_value k), s)) (tor_subscriptions r))"

definition topic_ok :: "('p, 'm, 'w) topic_router \<Rightarrow> bool" where
  "topic_ok r = (1 \<le> tor_next_id r \<and>
     (\<forall>k \<in> set (jkeys (tor_subscriptions r)). \<exists>n. k = show_int (int n) \<and> int n < tor_next_id r))"

lemma topic_fresh: "topic_ok r \<Longrightarrow> \<not> jhas (tor_subscriptions r) (show_int (tor_next_id r))"
proof
  assume "topic_ok r" "jhas (tor_subscriptions r) (show_int (tor_next_id r))"
  then obtain n where "show_int (tor_next_id r) = show_int (int n)" "int n < tor_next_id r"
    by (auto simp: topic_ok_def jhas_keys)
  with \<open>topic_ok r\<close> show False by (simp add: show_int_eq topic_ok_def)
qed

lemma map_jdelete_numbered:
  "\<forall>k \<in> set (jkeys m). \<exists>n. k = show_int (int n) \<and> int n < b \<Longrightarrow>
   map (\<lambda>(k, s). (int (digits_value k), s)) (jdelete (show_int (int n)) m) =
   filter (\<lambda>(i, s). i \<noteq> int n) (map (\<lambda>(k, s). (int (digits_value k), s)) m)"
proof (induction m)
  case (Cons e m)
  then obtain k j s where e: "e = (show_int (int j), s)" by (cases e) auto
  have "show_int (int j) = show_int (int n) \<longleftrightarrow> j = n"
    by (simp add: show_int_eq)
  with Cons e show ?case by (auto simp: AList.delete_eq)
qed simp

interpretation topics: refines_machine topic_step topic_spec_step topic_abs topic_ok
proof
  fix r :: "('p, 'm, 'w) topic_router" and e :: "('p, 'm, 'w) topic_event"
  assume ok: "topic_ok r"
  show "topic_ok (topic_step r e)"
  proof (cases e)
    case (Subscribe p h)
    have "\<exists>n. show_int (tor_next_id r) = show_int (int n) \<and> int n < tor_next_id r + 1"
      using ok by (intro exI [of _ "nat (tor_next_id r)"]) (auto simp: topic_ok_def)
    with ok Subscribe topic_fresh [OF ok] show ?thesis
      by (auto simp: topic_ok_def topic_subscribe_def Let_def jset_absent intro: less_imp_le)
  qed (use ok in \<open>auto simp: topic_ok_def topic_unsubscribe_def topic_clear_def jkeys_jdelete\<close>)
  show "topic_abs (topic_step r e) = topic_spec_step (topic_abs r) e"
  proof (cases e)
    case (Subscribe p h)
    with ok topic_fresh [OF ok] show ?thesis
      by (auto simp: topic_abs_def topic_subscribe_def Let_def jset_absent topic_ok_def)
  next
    case (Unsubscribe n)
    with ok show ?thesis
      by (simp add: topic_abs_def topic_unsubscribe_def topic_ok_def map_jdelete_numbered [of _ "tor_next_id r"])
  qed (simp add: topic_abs_def topic_clear_def)
qed

lemma numbered_handlers:
  "map ts_handler (filter p (jvalues m)) =
   map (ts_handler \<circ> snd) (filter (\<lambda>(i, s). p s) (map (\<lambda>(k, s). (int (digits_value k), s)) m))"
  by (induction m) auto

section \<open>Fan-out broker\<close>

record ('p, 'm, 'w) fan_out_subscriber =
  fos_id :: string
  fos_handler :: "('p, 'm, 'w) on_message"

type_synonym ('p, 'm, 'w) fan_out = "(string, ('p, 'm, 'w) fan_out_subscriber) jsmap"

definition add_subscriber ::
  "string \<Rightarrow> ('p, 'm, 'w) on_message \<Rightarrow> ('p, 'm, 'w) fan_out \<Rightarrow> ('p, 'm, 'w) fan_out" where
  "add_subscriber i handler b = jset i \<lparr>fos_id = i, fos_handler = handler\<rparr> b"

definition remove_subscriber :: "string \<Rightarrow> ('p, 'm, 'w) fan_out \<Rightarrow> ('p, 'm, 'w) fan_out" where
  "remove_subscriber i b = jdelete i b"

definition fan_out_publish ::
  "('p, 'm) envelope \<Rightarrow> ('p, 'm, 'w) fan_out \<Rightarrow> 'w \<Rightarrow> (js_error, unit) outcome \<times> 'w" where
  "fan_out_publish env b w = run_handlers (map fos_handler (jvalues b)) env w"

definition fan_out_publish_to ::
  "('p, 'm) envelope \<Rightarrow> string list \<Rightarrow> ('p, 'm, 'w) fan_out \<Rightarrow> 'w \<Rightarrow> (js_error, unit) outcome \<times> 'w" where
  "fan_out_publish_to env ids b w =
     (let targets = List.map_filter (\<lambda>i. jget b i) ids in run_handlers (map fos_handler targets) env w)"

definition fan_out_count :: "('p, 'm, 'w) fan_out \<Rightarrow> int" where
  "fan_out_count b = jsize b"

definition fan_out_ids :: "('p, 'm, 'w) fan_out \<Rightarrow> string list" where
  "fan_out_ids b = jkeys b"

section \<open>Message filter and filtered router\<close>

record ('p, 'm) filter_options =
  fo_allowed_types :: "string list option"
  fo_denied_types :: "string list option"
  fo_custom_filter :: "(('p, 'm) envelope \<Rightarrow> bool) option"
  fo_correlation_id :: "string option"

definition passes_type_checks :: "('p, 'm) filter_options \<Rightarrow> ('p, 'm) envelope \<Rightarrow> bool" where
  "passes_type_checks opts env =
     ((case fo_allowed_types opts of
         None \<Rightarrow> True
       | Some ts \<Rightarrow> if length ts > 0 then ev_event_type env \<in> set ts else True)
      \<and> (case fo_denied_types opts of
           None \<Rightarrow> True
         | Some ts \<Rightarrow> if length ts > 0 then ev_event_type env \<notin> set ts else True))"

definition passes_correlation_check :: "('p, 'm) filter_options \<Rightarrow> ('p, 'm) envelope \<Rightarrow> bool" where
  "passes_correlation_check opts env =
     (case fo_correlation_id opts of None \<Rightarrow> True | Some c \<Rightarrow> ev_correlation_id env = Some c)"

definition passes_custom_filter :: "('p, 'm) filter_options \<Rightarrow> ('p, 'm) envelope \<Rightarrow> bool" where
  "passes_custom_filter opts env = (case fo_custom_filter opts of None \<Rightarrow> True | Some f \<Rightarrow> f env)"

definition filter_passes :: "('p, 'm) filter_options \<Rightarrow> ('p, 'm) envelope \<Rightarrow> bool" where
  "filter_passes opts env =
     (passes_type_checks opts env \<and> passes_correlation_check opts env \<and> passes_custom_filter opts env)"

definition filter_envelopes :: "('p, 'm) filter_options \<Rightarrow> ('p, 'm) envelope list \<Rightarrow> ('p, 'm) envelope list" where
  "filter_envelopes opts envs = filter (filter_passes opts) envs"

record ('p, 'm, 'w) filtered_router =
  fr_filter :: "('p, 'm) filter_options"
  fr_subscribers :: "(string, ('p, 'm, 'w) on_message) jsmap"
  fr_next_id :: int

definition filtered_subscribe ::
  "('p, 'm, 'w) on_message \<Rightarrow> ('p, 'm, 'w) filtered_router \<Rightarrow> string \<times> ('p, 'm, 'w) filtered_router" where
  "filtered_subscribe handler r =
     (let i = show_int (fr_next_id r)
      in (i, r\<lparr>fr_subscribers := jset i handler (fr_subscribers r), fr_next_id := fr_next_id r + 1\<rparr>))"

definition filtered_unsubscribe :: "string \<Rightarrow> ('p, 'm, 'w) filtered_router \<Rightarrow> ('p, 'm, 'w) filtered_router" where
  "filtered_unsubscribe i r = r\<lparr>fr_subscribers := jdelete i (fr_subscribers r)\<rparr>"

definition filtered_route ::
  "('p, 'm) envelope \<Rightarrow> ('p, 'm, 'w) filtered_router \<Rightarrow> 'w \<Rightarrow> (js_error, unit) outcome \<times> 'w" where
  "filtered_route env r w =
     (if \<not> filter_passes (fr_filter r) env then (Inr (), w)
      else run_handlers (jvalues (fr_subscribers r)) env w)"

section \<open>Request-reply broker\<close>

text \<open>
  The promise of a request, and the broker: which request each correlation id is pending for, the
  timers that are set, with their delay, and every call of \<open>awaitReply\<close> so far with its
  correlation id and its promise.  A request is the number of its call.
\<close>

datatype ('p, 'm) reply_promise = Waiting | Answered "('p, 'm) envelope" | TimedOut js_error

record ('p, 'm) reply_broker =
  rrb_pending :: "(string, nat) jsmap"
  rrb_timers :: "(nat, int) jsmap"
  rrb_requests :: "(string \<times> ('p, 'm) reply_promise) list"

definition reply_broker_new :: "('p, 'm) reply_broker" where
  "reply_broker_new = \<lparr>rrb_pending = [], rrb_timers = [], rrb_requests = []\<rparr>"

text \<open>A promise settles once.\<close>

definition settle_request :: "nat \<Rightarrow> ('p, 'm) reply_promise \<Rightarrow> ('p, 'm) reply_broker \<Rightarrow> ('p, 'm) reply_broker" where
  "settle_request n s b =
     (if n < length (rrb_requests b) \<and> snd (rrb_requests b ! n) = Waiting
      then b\<lparr>rrb_requests := (rrb_requests b)[n := (fst (rrb_requests b ! n), s)]\<rparr> else b)"

definition await_reply :: "string \<Rightarrow> int option \<Rightarrow> ('p, 'm) reply_broker \<Rightarrow> nat \<times> ('p, 'm) reply_broker" where
  "await_reply cid options b =
     (let timeout_ms = (case options of Some t \<Rightarrow> t | None \<Rightarrow> 5000); n = length (rrb_requests b)
      in (n, b\<lparr>rrb_requests := rrb_requests b @ [(cid, Waiting)],
              rrb_timers := jset n timeout_ms (rrb_timers b),
              rrb_pending := jset cid n (rrb_pending b)\<rparr>))"

definition reply_timeout_error :: "string \<Rightarrow> int \<Rightarrow> js_error" where
  "reply_timeout_error cid ms =
     plain_error (''Reply for correlationId \"'' @ cid @ ''\" timed out after '' @ show_int ms @ ''ms'')"

text \<open>The timer of a request goes off: it is no longer set, and its callback runs.\<close>

definition reply_timer_fires :: "nat \<Rightarrow> ('p, 'm) reply_broker \<Rightarrow> ('p, 'm) reply_broker" where
  "reply_timer_fires n b =
     (case jget (rrb_timers b) n of
        None \<Rightarrow> b
      | Some ms \<Rightarrow>
          let cid = fst (rrb_requests b ! n)
          in settle_request n (TimedOut (reply_timeout_error cid ms))
               (b\<lparr>rrb_timers := jdelete n (rrb_timers b), rrb_pending := jdelete cid (rrb_pending b)\<rparr>))"

definition deliver :: "('p, 'm) envelope \<Rightarrow> ('p, 'm) reply_broker \<Rightarrow> bool \<times> ('p, 'm) reply_broker" where
  "deliver reply b =
     (case ev_correlation_id reply of
        None \<Rightarrow> (False, b)
      | Some cid \<Rightarrow>
          case jget (rrb_pending b) cid of
            None \<Rightarrow> (False, b)
          | Some n \<Rightarrow>
              (True, settle_request n (Answered reply)
                 (b\<lparr>rrb_timers := jdelete n (rrb_timers b), rrb_pending := jdelete cid (rrb_pending b)\<rparr>)))"

definition cancel_reply :: "string \<Rightarrow> ('p, 'm) reply_broker \<Rightarrow> ('p, 'm) reply_broker" where
  "cancel_reply cid b =
     (case jget (rrb_pending b) cid of
        None \<Rightarrow> b
      | Some n \<Rightarrow> b\<lparr>rrb_timers := jdelete n (rrb_timers b), rrb_pending := jdelete cid (rrb_pending b)\<rparr>)"

definition pending_count :: "('p, 'm) reply_broker \<Rightarrow> int" where
  "pending_count b = jsize (rrb_pending b)"

definition clear_all_replies :: "('p, 'm) reply_broker \<Rightarrow> ('p, 'm) reply_broker" where
  "clear_all_replies b = fold cancel_reply (jkeys (rrb_pending b)) b"

text \<open>
  A request of a channel: \<open>send\<close> publishes it, and may itself deliver replies to the broker.
\<close>

definition channel_request ::
  "(('q, 'n) envelope \<Rightarrow> ('p, 'm) reply_broker \<times> 'w \<Rightarrow> (js_error, unit) outcome \<times> ('p, 'm) reply_broker \<times> 'w) \<Rightarrow>
   ('q, 'n) envelope \<Rightarrow> int option \<Rightarrow> ('p, 'm) reply_broker \<times> 'w \<Rightarrow>
   (js_error, nat) outcome \<times> ('p, 'm) reply_broker \<times> 'w" where
  "channel_request send env options s =
     (case ev_correlation_id env of
        None \<Rightarrow> (Inl (plain_error ''request envelope must have a correlationId''), s)
      | Some cid \<Rightarrow>
          case await_reply cid options (fst s) of (n, b1) \<Rightarrow>
          case send env (b1, snd s) of
            (Inl e, s2) \<Rightarrow> (Inl e, s2)
          | (Inr u, s2) \<Rightarrow> (Inr n, s2))"

datatype ('p, 'm) reply_event =
  AwaitReply string "int option" | TimerFires nat | Deliver "('p, 'm) envelope" | Cancel string | ClearAll

fun reply_step :: "('p, 'm) reply_broker \<Rightarrow> ('p, 'm) reply_event \<Rightarrow> ('p, 'm) reply_broker" where
  "reply_step b (AwaitReply cid options) = snd (await_reply cid options b)"
| "reply_step b (TimerFires n) = reply_timer_fires n b"
| "reply_step b (Deliver reply) = snd (deliver reply b)"
| "reply_step b (Cancel cid) = cancel_reply cid b"
| "reply_step b ClearAll = clear_all_replies b"

subsection \<open>The broker's invariant\<close>

definition request_waits :: "('p, 'm) reply_broker \<Rightarrow> nat \<Rightarrow> bool" where
  "request_waits b n = (n < length (rrb_requests b) \<and> snd (rrb_requests b ! n) = Waiting)"

text \<open>
  What is pending waits with its timer set and under its own correlation id; a set timer is that of
  a waiting request; an answer carries the correlation id of its request.
\<close>

definition replies_ok :: "('p, 'm) reply_broker \<Rightarrow> bool" where
  "replies_ok b \<longleftrightarrow>
     (\<forall>cid n. jget (rrb_pending b) cid = Some n \<longrightarrow>
        fst (rrb_requests b ! n) = cid \<and> jget (rrb_timers b) n \<noteq> None)
     \<and> (\<forall>n. jget (rrb_timers b) n \<noteq> None \<longrightarrow> request_waits b n)
     \<and> (\<forall>n reply. n < length (rrb_requests b) \<longrightarrow> snd (rrb_requests b ! n) = Answered reply \<longrightarrow>
          ev_correlation_id reply = Some (fst (rrb_requests b ! n)))"

lemma replies_ok_new: "replies_ok reply_broker_new"
  by (simp add: replies_ok_def reply_broker_new_def)

lemma replies_okD:
  assumes "replies_ok b"
  shows "jget (rrb_pending b) cid = Some n \<Longrightarrow> fst (rrb_requests b ! n) = cid"
    and "jget (rrb_pending b) cid = Some n \<Longrightarrow> jget (rrb_timers b) n \<noteq> None"
    and "jget (rrb_timers b) n \<noteq> None \<Longrightarrow> request_waits b n"
    and "n < length (rrb_requests b) \<Longrightarrow> snd (rrb_requests b ! n) = Answered reply \<Longrightarrow>
      ev_correlation_id reply = Some (fst (rrb_requests b ! n))"
  using assms unfolding replies_ok_def by blast+

lemma await_reply_ok: "replies_ok b \<Longrightarrow> replies_ok (snd (await_reply cid options b))"
  unfolding replies_ok_def await_reply_def Let_def request_waits_def
  by (auto simp: nth_append less_Suc_eq split: if_splits)

lemma drop_request_ok:
  assumes "replies_ok b" "fst (rrb_requests b ! n) = cid"
  shows "replies_ok (b\<lparr>rrb_timers := jdelete n (rrb_timers b), rrb_pending := jdelete cid (rrb_pending b)\<rparr>)"
  using assms unfolding replies_ok_def request_waits_def by auto

lemma settle_request_ok:
  assumes "replies_ok b" "jget (rrb_timers b) n = None"
    and "\<And>reply. s = Answered reply \<Longrightarrow> ev_correlation_id reply = Some (fst (rrb_requests b ! n))"
  shows "replies_ok (settle_request n s b)"
  using assms unfolding replies_ok_def request_waits_def settle_request_def
  by (auto simp: nth_list_update)

lemma cancel_reply_ok: "replies_ok b \<Longrightarrow> replies_ok (cancel_reply cid b)"
  using drop_request_ok [of b _ cid] replies_okD(1) [of b cid]
  by (auto simp: cancel_reply_def split: option.split)

lemma clear_all_ok: "replies_ok b \<Longrightarrow> replies_ok (fold cancel_reply cids b)"
  by (induction cids arbitrary: b) (auto intro: cancel_reply_ok)

lemma timer_fires_ok: "replies_ok b \<Longrightarrow> replies_ok (reply_timer_fires n b)"
  unfolding reply_timer_fires_def Let_def
  by (auto split: option.split intro!: settle_request_ok drop_request_ok)

lemma deliver_ok:
  assumes "replies_ok b"
  shows "replies_ok (snd (deliver reply b))"
proof (cases "ev_correlation_id reply")
  case (Some cid)
  show ?thesis
  proof (cases "jget (rrb_pending b) cid")
    case (Some n)
    have n: "fst (rrb_requests b ! n) = cid" using replies_okD(1) [OF assms Some] .
    have "replies_ok (settle_request n (Answered reply)
        (b\<lparr>rrb_timers := jdelete n (rrb_timers b), rrb_pending := jdelete cid (rrb_pending b)\<rparr>))"
      by (rule settle_request_ok [OF drop_request_ok [OF assms n]]) (use n \<open>ev_correlation_id reply = Some cid\<close> in auto)
    with Some \<open>ev_correlation_id reply = Some cid\<close> show ?thesis by (simp add: deliver_def)
  qed (simp add: deliver_def Some assms)
qed (simp add: deliver_def assms)

interpretation replies: invariant_machine reply_step replies_ok
proof
  fix b :: "('p, 'm) reply_broker" and e
  assume "replies_ok b"
  then show "replies_ok (reply_step b e)"
    by (cases e) (simp_all add: await_reply_ok timer_fires_ok deliver_ok cancel_reply_ok clear_all_ok clear_all_replies_def)
qed

subsection \<open>What becomes of a request\<close>

text \<open>No operation forgets a request or changes a settled promise.\<close>

definition requests_grow :: "('p, 'm) reply_broker \<Rightarrow> ('p, 'm) reply_broker \<Rightarrow> bool" where
  "requests_grow b b1 \<longleftrightarrow> length (rrb_requests b) \<le> length (rrb_requests b1) \<and>
     (\<forall>n < length (rrb_requests b). fst (rrb_requests b1 ! n) = fst (rrb_requests b ! n) \<and>
        (snd (rrb_requests b ! n) \<noteq> Waiting \<longrightarrow> rrb_requests b1 ! n = rrb_requests b ! n))"

lemma requests_grow_refl: "rrb_requests b1 = rrb_requests b \<Longrightarrow> requests_grow b b1"
  by (simp add: requests_grow_def)

lemma requests_grow_trans: "requests_grow b b1 \<Longrightarrow> requests_grow b1 b2 \<Longrightarrow> requests_grow b b2"
proof -
  assume g: "requests_grow b b1" "requests_grow b1 b2"
  have "fst (rrb_requests b2 ! n) = fst (rrb_requests b ! n) \<and>
      (snd (rrb_requests b ! n) \<noteq> Waiting \<longrightarrow> rrb_requests b2 ! n = rrb_requests b ! n)"
    if "n < length (rrb_requests b)" for n
    using g that unfolding requests_grow_def by simp
  with g show ?thesis unfolding requests_grow_def by simp
qed

lemma settle_request_grows: "rrb_requests b1 = rrb_requests b \<Longrightarrow> requests_grow b (settle_request n s b1)"
  by (auto simp: requests_grow_def settle_request_def nth_list_update)

lemma cancel_reply_requests [simp]: "rrb_requests (cancel_reply cid b) = rrb_requests b"
  by (simp add: cancel_reply_def split: option.split)

lemma cancel_all_requests [simp]: "rrb_requests (fold cancel_reply cids b) = rrb_requests b"
  by (induction cids arbitrary: b) auto

lemma reply_step_grows: "requests_grow b (reply_step b e)"
proof (cases e)
  case (AwaitReply cid options)
  then show ?thesis by (auto simp: requests_grow_def await_reply_def Let_def nth_append)
qed (auto simp: reply_timer_fires_def deliver_def Let_def clear_all_replies_def
      intro: settle_request_grows requests_grow_refl split: option.split)

lemma reply_run_grows: "requests_grow b (foldl reply_step b es)"
proof (induction es arbitrary: b)
  case (Cons e es)
  from requests_grow_trans [OF reply_step_grows Cons] show ?case by simp
qed (simp add: requests_grow_refl)

subsection \<open>Requests under distinct correlation ids\<close>

text \<open>A run in which no request reuses the correlation id of one that is still waiting.\<close>

fun fresh_awaits :: "('p, 'm) reply_broker \<Rightarrow> ('p, 'm) reply_event list \<Rightarrow> bool" where
  "fresh_awaits b [] = True"
| "fresh_awaits b (e # es) =
     ((case e of AwaitReply cid options \<Rightarrow> \<not> jhas (rrb_pending b) cid | _ \<Rightarrow> True)
      \<and> fresh_awaits (reply_step b e) es)"

fun not_cancelling :: "('p, 'm) reply_event \<Rightarrow> bool" where
  "not_cancelling (Cancel cid) = False"
| "not_cancelling ClearAll = False"
| "not_cancelling e = True"

definition waiting_is_pending :: "('p, 'm) reply_broker \<Rightarrow> bool" where
  "waiting_is_pending b \<longleftrightarrow> (\<forall>n. request_waits b n \<longrightarrow> jget (rrb_pending b) (fst (rrb_requests b ! n)) = Some n)"

lemma settled_pending:
  assumes "replies_ok b" "waiting_is_pending b" "jget (rrb_timers b) n \<noteq> None" "s \<noteq> Waiting"
    "fst (rrb_requests b ! n) = cid"
  shows "waiting_is_pending (settle_request n s
    (b\<lparr>rrb_timers := jdelete n (rrb_timers b), rrb_pending := jdelete cid (rrb_pending b)\<rparr>))"
proof -
  have n: "request_waits b n" using replies_okD(3) [OF assms(1,3)] .
  with assms(2) have pend: "jget (rrb_pending b) cid = Some n"
    unfolding assms(5) [symmetric] by (simp add: waiting_is_pending_def)
  have "k \<noteq> n \<Longrightarrow> fst (rrb_requests b ! k) \<noteq> cid" if "request_waits b k" for k
    using that assms(2) pend by (auto simp: waiting_is_pending_def)
  with n assms(2,4) show ?thesis
    unfolding waiting_is_pending_def request_waits_def settle_request_def
    by (auto simp: nth_list_update)
qed

lemma waiting_is_pending_step:
  assumes "replies_ok b" "waiting_is_pending b" "not_cancelling e"
    and "case e of AwaitReply cid options \<Rightarrow> \<not> jhas (rrb_pending b) cid | _ \<Rightarrow> True"
  shows "waiting_is_pending (reply_step b e)"
proof (cases e)
  case (AwaitReply cid options)
  have "fst (rrb_requests b ! n) \<noteq> cid" if "request_waits b n" for n
    using that assms(2,4) AwaitReply by (auto simp: waiting_is_pending_def jhas_def)
  with assms(2) AwaitReply show ?thesis
    unfolding waiting_is_pending_def request_waits_def
    by (auto simp: await_reply_def Let_def nth_append less_Suc_eq)
next
  case (TimerFires n)
  with settled_pending [OF assms(1,2)] assms(2) show ?thesis
    by (auto simp: reply_timer_fires_def Let_def split: option.split)
next
  case (Deliver reply)
  show ?thesis
  proof (cases "\<exists>cid n. ev_correlation_id reply = Some cid \<and> jget (rrb_pending b) cid = Some n")
    case True
    then obtain cid n where c: "ev_correlation_id reply = Some cid" "jget (rrb_pending b) cid = Some n" by blast
    from settled_pending [OF assms(1,2) replies_okD(2) [OF assms(1) c(2)] _ replies_okD(1) [OF assms(1) c(2)]]
    show ?thesis using Deliver c by (simp add: deliver_def)
  next
    case False
    with assms(2) Deliver show ?thesis by (auto simp: deliver_def split: option.split)
  qed
qed (use assms in auto)

lemma waiting_is_pending_run:
  "replies_ok b \<Longrightarrow> waiting_is_pending b \<Longrightarrow> fresh_awaits b es \<Longrightarrow> list_all not_cancelling es \<Longrightarrow>
   waiting_is_pending (foldl reply_step b es)"
proof (induction es arbitrary: b)
  case (Cons e es)
  then show ?case using replies.step_keeps [of b e] waiting_is_pending_step [of b e] by simp
qed simp

lemma forgotten_step:
  assumes "replies_ok b" "request_waits b n" "jget (rrb_timers b) n = None"
  shows "request_waits (reply_step b e) n \<and> jget (rrb_timers (reply_step b e)) n = None"
proof -
  have pend: "jget (rrb_pending b) cid \<noteq> Some n" for cid using replies_okD(2) [OF assms(1)] assms(3) by blast
  have clear: "jget (rrb_timers (fold cancel_reply cids b1)) n = None" if "jget (rrb_timers b1) n = None" for cids b1
    using that by (induction cids arbitrary: b1) (auto simp: cancel_reply_def split: option.split)
  show ?thesis
  proof (cases e)
    case (AwaitReply cid options)
    with assms show ?thesis by (auto simp: request_waits_def await_reply_def Let_def nth_append)
  next
    case (TimerFires k)
    with assms show ?thesis
      by (cases "k = n") (auto simp: reply_timer_fires_def request_waits_def settle_request_def Let_def split: option.split)
  next
    case (Deliver reply)
    with assms pend show ?thesis
      by (auto simp: deliver_def request_waits_def settle_request_def nth_list_update split: option.split)
  next
    case (Cancel cid)
    with assms pend show ?thesis by (auto simp: cancel_reply_def request_waits_def split: option.split)
  next
    case ClearAll
    with assms clear show ?thesis by (auto simp: clear_all_replies_def request_waits_def)
  qed
qed

section \<open>Properties\<close>

text \<open>C25: 
  Topic router.  After any sequence of subscriptions and unsubscriptions, an envelope is handed, in
  order of subscription, to exactly the handlers still subscribed whose pattern denotes its event
  type, up to the first that throws; the patterns denote what AMQP topic patterns do.
\<close>

theorem topic_router_delivers:
  "topic_route env (foldl topic_step topic_router_new es) w =
   run_handlers (map (ts_handler \<circ> snd)
     (filter (\<lambda>(i, s). pattern_denotes (ts_pattern s) (ev_event_type env)) (snd (foldl topic_spec_step (1, []) es))))
     env w"
proof -
  let ?r = "foldl topic_step topic_router_new es"
  have abs: "topic_abs ?r = foldl topic_spec_step (1, []) es"
    using topics.abs_run [of topic_router_new es] by (simp add: topic_ok_def topic_abs_def topic_router_new_def)
  then show ?thesis
    unfolding topic_route_def Let_def abs [symmetric] topic_abs_def topic_matches_denotes by (simp add: numbered_handlers)
qed

text \<open>C26: 
  Replies.  In every reachable state a reply either finds no pending request and changes nothing,
  or answers exactly the waiting request pending under its correlation id; nothing that happens
  later changes that answer.
\<close>

theorem reply_answers_its_request:
  assumes "b = foldl reply_step reply_broker_new es" and "deliver reply b = (hit, b1)"
  shows "case Option.bind (ev_correlation_id reply) (jget (rrb_pending b)) of
      None \<Rightarrow> \<not> hit \<and> b1 = b
    | Some n \<Rightarrow> hit \<and> request_waits b n \<and> ev_correlation_id reply = Some (fst (rrb_requests b ! n))
        \<and> rrb_requests b1 = (rrb_requests b)[n := (fst (rrb_requests b ! n), Answered reply)]
        \<and> (\<forall>es1. rrb_requests (foldl reply_step b1 es1) ! n = (fst (rrb_requests b ! n), Answered reply))"
proof -
  have ok: "replies_ok b" unfolding assms(1) by (rule replies.run_keeps [OF replies_ok_new])
  show ?thesis
  proof (cases "Option.bind (ev_correlation_id reply) (jget (rrb_pending b))")
    case None
    with assms(2) show ?thesis by (auto simp: deliver_def bind_eq_None_conv split: option.splits)
  next
    case (Some n)
    then obtain cid where c: "ev_correlation_id reply = Some cid" "jget (rrb_pending b) cid = Some n"
      by (auto simp: bind_eq_Some_conv)
    note n = replies_okD(1) [OF ok c(2)] replies_okD(3) [OF ok replies_okD(2) [OF ok c(2)]]
    have b1: "hit" "rrb_requests b1 = (rrb_requests b)[n := (cid, Answered reply)]"
      using assms(2) c n by (auto simp: deliver_def settle_request_def request_waits_def)
    moreover have "rrb_requests (foldl reply_step b1 es1) ! n = (cid, Answered reply)" for es1
      using reply_run_grows [of b1 es1] n b1(2) by (simp add: requests_grow_def request_waits_def)
    ultimately show ?thesis using Some c n by simp
  qed
qed

theorem reply_answers_its_request_witness:
  fixes reply :: "(int, unit) envelope"
  defines "reply \<equiv> \<lparr>ev_event_id = ''r'', ev_event_type = ''Reply'', ev_event_version = ''1'', ev_timestamp = ''now'',
    ev_correlation_id = Some ''c'', ev_causation_id = None, ev_tenant_id = None, ev_payload = 42, ev_metadata = None\<rparr>"
  shows "\<forall>es1. rrb_requests (foldl reply_step (snd (deliver reply (foldl reply_step reply_broker_new [AwaitReply ''c'' None])))
      es1) ! 0 = (''c'', Answered reply)"
  using reply_answers_its_request [of _ "[AwaitReply ''c'' None]" reply, OF refl prod.collapse [symmetric]]
  by (simp add: await_reply_def reply_broker_new_def reply_def)

text \<open>
  No request hangs.  When no request reuses the correlation id of a waiting one and none is
  cancelled, every request that is still waiting can be answered by any reply with its correlation
  id, and is rejected with the time-out error when its timer goes off.
\<close>

theorem waiting_requests_settle:
  assumes "b = foldl reply_step reply_broker_new es" "fresh_awaits reply_broker_new es" "list_all not_cancelling es"
    and "request_waits b n"
  shows "jget (rrb_timers b) n \<noteq> None
    \<and> (\<exists>ms. rrb_requests (reply_timer_fires n b) ! n =
        (fst (rrb_requests b ! n), TimedOut (reply_timeout_error (fst (rrb_requests b ! n)) ms)))
    \<and> (\<forall>reply. ev_correlation_id reply = Some (fst (rrb_requests b ! n)) \<longrightarrow>
        rrb_requests (snd (deliver reply b)) ! n = (fst (rrb_requests b ! n), Answered reply))"
proof -
  have ok: "replies_ok b" unfolding assms(1) by (rule replies.run_keeps [OF replies_ok_new])
  have "waiting_is_pending reply_broker_new"
    by (simp add: waiting_is_pending_def request_waits_def reply_broker_new_def)
  with waiting_is_pending_run [OF replies_ok_new] assms have pend: "jget (rrb_pending b) (fst (rrb_requests b ! n)) = Some n"
    by (auto simp: waiting_is_pending_def)
  from replies_okD(2) [OF ok this] obtain ms where "jget (rrb_timers b) n = Some ms" by blast
  with pend assms(4) show ?thesis
    by (auto simp: reply_timer_fires_def deliver_def settle_request_def request_waits_def Let_def)
qed

theorem waiting_requests_settle_witness:
  "\<exists>ms. rrb_requests (reply_timer_fires 1 (foldl reply_step (reply_broker_new :: (int, unit) reply_broker)
      [AwaitReply ''a'' None, AwaitReply ''b'' (Some 10)])) ! 1 = (''b'', TimedOut (reply_timeout_error ''b'' ms))"
  using waiting_requests_settle [of _ "[AwaitReply ''a'' None, AwaitReply ''b'' (Some 10)]" 1, OF refl]
  by (simp add: await_reply_def reply_broker_new_def request_waits_def jhas_def) blast

text \<open>
  A reused correlation id.  When a second request is registered under the correlation id of a
  waiting one, the timer of the first takes the second with it: its reply is no longer recognised,
  although it waits.
\<close>

theorem reused_correlation_id_loses_reply:
  fixes reply :: "('p, 'm) envelope"
  assumes "ev_correlation_id reply = Some c"
    and "b = foldl reply_step reply_broker_new [AwaitReply c t1, AwaitReply c t2, TimerFires 0]"
  shows "request_waits b 1 \<and> deliver reply b = (False, b)"
  using assms by (simp add: await_reply_def reply_broker_new_def reply_timer_fires_def settle_request_def
      deliver_def request_waits_def Let_def)

theorem reused_correlation_id_loses_reply_witness:
  fixes reply :: "(int, unit) envelope"
  defines "reply \<equiv> \<lparr>ev_event_id = ''r'', ev_event_type = ''Reply'', ev_event_version = ''1'', ev_timestamp = ''now'',
    ev_correlation_id = Some ''c'', ev_causation_id = None, ev_tenant_id = None, ev_payload = 42, ev_metadata = None\<rparr>"
  shows "fst (deliver reply (foldl reply_step reply_broker_new [AwaitReply ''c'' (Some 5), AwaitReply ''c'' None, TimerFires 0])) = False"
  using reused_correlation_id_loses_reply [of reply "''c''", OF _ refl, of "Some 5" None] by (simp add: reply_def)

text \<open>
  A cancelled request never settles: nothing that happens afterwards answers or rejects it.
\<close>

theorem cancelled_request_hangs:
  assumes "b = foldl reply_step reply_broker_new es" "jget (rrb_pending b) cid = Some n"
  shows "request_waits (foldl reply_step (cancel_reply cid b) es1) n"
proof -
  have ok: "replies_ok b" unfolding assms(1) by (rule replies.run_keeps [OF replies_ok_new])
  have start: "request_waits (cancel_reply cid b) n \<and> jget (rrb_timers (cancel_reply cid b)) n = None"
    using replies_okD(3) [OF ok replies_okD(2) [OF ok assms(2)]] assms(2)
    by (simp add: cancel_reply_def request_waits_def)
  have "replies_ok b1 \<Longrightarrow> request_waits b1 n \<and> jget (rrb_timers b1) n = None \<Longrightarrow>
      request_waits (foldl reply_step b1 es1) n" for b1
    by (induction es1 arbitrary: b1) (auto simp: forgotten_step replies.step_keeps)
  with start cancel_reply_ok [OF ok] show ?thesis by blast
qed

theorem cancelled_request_hangs_witness:
  "request_waits (foldl reply_step (cancel_reply ''c'' (foldl reply_step (reply_broker_new :: (int, unit) reply_broker)
      [AwaitReply ''c'' None])) [TimerFires 0]) 0"
  by (rule cancelled_request_hangs [OF refl]) (simp add: await_reply_def reply_broker_new_def)

end
