(* ===== verification/Streams.thy ===== *)
theory Streams
  imports Prelude
begin

text \<open>
  Event streams (\<open>packages/streams/src\<close>): the push stream with its subscribers, the operators and
  window strategies, the merger and the back-pressure queue.  A call on a stream is a signal; an
  operator is its observer, which turns the signals of its source into calls on its output stream.
  A subscriber does not call back into the stream that notifies it, except that \<open>take\<close> unsubscribes.
\<close>

section \<open>The stream\<close>

datatype ('v, 'e) signal = Next 'v | Failed 'e | Done

text \<open>A subscriber is its id and whether it has an error and a completion callback.\<close>

record 'e stream_state =
  ss_subscribers :: "(nat, bool \<times> bool) jsmap"
  ss_next_id :: nat
  ss_completed :: bool
  ss_error :: "'e option"

definition stream_new :: "'e stream_state" where
  "stream_new = \<lparr>ss_subscribers = [], ss_next_id = 0, ss_completed = False, ss_error = None\<rparr>"

text \<open>\<open>subscribe\<close>: what the observer is told at once, its id when it was entered, and the stream.\<close>

definition stream_subscribe ::
  "bool \<Rightarrow> bool \<Rightarrow> 'e stream_state \<Rightarrow> ('v, 'e) signal list \<times> nat option \<times> 'e stream_state" where
  "stream_subscribe has_error has_complete st =
     (if ss_completed st then (if has_complete then [Done] else [], None, st)
      else case ss_error st of
          Some e \<Rightarrow> (if has_error then [Failed e] else [], None, st)
        | None \<Rightarrow>
            ([], Some (ss_next_id st),
             st\<lparr>ss_subscribers := jset (ss_next_id st) (has_error, has_complete) (ss_subscribers st),
                ss_next_id := ss_next_id st + 1\<rparr>))"

definition stream_unsubscribe :: "nat \<Rightarrow> 'e stream_state \<Rightarrow> 'e stream_state" where
  "stream_unsubscribe i st = st\<lparr>ss_subscribers := jdelete i (ss_subscribers st)\<rparr>"

definition stream_closed :: "'e stream_state \<Rightarrow> bool" where
  "stream_closed st = (ss_completed st \<or> ss_error st \<noteq> None)"

text \<open>\<open>emit\<close>, \<open>error\<close> and \<open>complete\<close>: the deliveries made, in order, and the stream.\<close>

fun stream_call ::
  "('v, 'e) signal \<Rightarrow> 'e stream_state \<Rightarrow> (nat \<times> ('v, 'e) signal) list \<times> 'e stream_state" where
  "stream_call (Next v) st =
     (if stream_closed st then ([], st)
      else (map (\<lambda>(i, c). (i, Next v)) (ss_subscribers st), st))"
| "stream_call (Failed e) st =
     (if stream_closed st then ([], st)
      else (map (\<lambda>(i, c). (i, Failed e)) (filter (\<lambda>(i, c). fst c) (ss_subscribers st)),
            st\<lparr>ss_error := Some e\<rparr>))"
| "stream_call Done st =
     (if stream_closed st then ([], st)
      else (map (\<lambda>(i, c). (i, Done)) (filter (\<lambda>(i, c). snd c) (ss_subscribers st)),
            st\<lparr>ss_completed := True\<rparr>))"

definition stream_subscriber_count :: "'e stream_state \<Rightarrow> int" where
  "stream_subscriber_count st = jsize (ss_subscribers st)"

text \<open>What clients do with a stream; \<open>stream_run\<close> collects the deliveries to entered subscribers.\<close>

datatype ('v, 'e) stream_event = Call "('v, 'e) signal" | Join bool bool | Leave nat

fun stream_step ::
  "('v, 'e) stream_event \<Rightarrow> 'e stream_state \<Rightarrow> (nat \<times> ('v, 'e) signal) list \<times> 'e stream_state" where
  "stream_step (Call c) st = stream_call c st"
| "stream_step (Join has_error has_complete) st =
     (case stream_subscribe has_error has_complete st :: ('v, 'e) signal list \<times> nat option \<times> 'e stream_state of
        (now, i, st1) \<Rightarrow> ([], st1))"
| "stream_step (Leave i) st = ([], stream_unsubscribe i st)"

fun stream_run ::
  "('v, 'e) stream_event list \<Rightarrow> 'e stream_state \<Rightarrow> (nat \<times> ('v, 'e) signal) list \<times> 'e stream_state" where
  "stream_run [] st = ([], st)"
| "stream_run (c # cs) st =
     (case stream_step c st of (ds, st1) \<Rightarrow> case stream_run cs st1 of (ds2, st2) \<Rightarrow> (ds @ ds2, st2))"

text \<open>The contract of a stream: the calls up to and including the first that ends it.\<close>

fun gate :: "('v, 'e) signal list \<Rightarrow> ('v, 'e) signal list" where
  "gate [] = []"
| "gate (Next v # cs) = Next v # gate cs"
| "gate (Failed e # cs) = [Failed e]"
| "gate (Done # cs) = [Done]"

text \<open>The calls a subscriber could see: those made before it unsubscribes.\<close>

fun calls_before_leave :: "nat \<Rightarrow> ('v, 'e) stream_event list \<Rightarrow> ('v, 'e) signal list" where
  "calls_before_leave i [] = []"
| "calls_before_leave i (Call c # es) = c # calls_before_leave i es"
| "calls_before_leave i (Join a b # es) = calls_before_leave i es"
| "calls_before_leave i (Leave j # es) = (if j = i then [] else calls_before_leave i es)"

text \<open>The call that ended a stream, if one did.\<close>

fun ended_by :: "('v, 'e) stream_event list \<Rightarrow> ('v, 'e) signal option" where
  "ended_by [] = None"
| "ended_by (Call (Next v) # es) = ended_by es"
| "ended_by (Call (Failed e) # es) = Some (Failed e)"
| "ended_by (Call Done # es) = Some Done"
| "ended_by (Join a b # es) = ended_by es"
| "ended_by (Leave j # es) = ended_by es"

definition received :: "nat \<Rightarrow> (nat \<times> ('v, 'e) signal) list \<Rightarrow> ('v, 'e) signal list" where
  "received i ds = map snd (filter (\<lambda>d. fst d = i) ds)"

lemma received_append [simp]: "received i (xs @ ys) = received i xs @ received i ys"
  by (simp add: received_def)

lemma received_absent: "\<not> jhas m i \<Longrightarrow> received i (map (\<lambda>(i, c). (i, s)) (filter p m)) = []"
  by (induction m) (auto simp: received_def jhas_def split: if_splits)

lemma received_absent_all: "\<not> jhas m i \<Longrightarrow> received i (map (\<lambda>(i, c). (i, s)) m) = []"
  using received_absent [of m i s "\<lambda>_. True"] by simp

lemma received_Nil [simp]: "received i [] = []"
  by (simp add: received_def)

lemma received_some:
  "jwf m \<Longrightarrow> jget m i = Some c \<Longrightarrow> p (i, c) \<Longrightarrow>
   received i (map (\<lambda>(i, c). (i, s)) (filter p m)) = [s]"
proof (induction m)
  case (Cons e m)
  obtain k d where e: "e = (k, d)" by fastforce
  show ?case
  proof (cases "k = i")
    case True
    with Cons.prems(1) e have "\<not> jhas m i" by (simp add: jhas_keys)
    then have "received i (map (\<lambda>(i, c). (i, s)) (filter p m)) = []" by (rule received_absent)
    with True Cons.prems e show ?thesis by (simp add: received_def)
  next
    case False
    with Cons e show ?thesis by (simp add: received_def)
  qed
qed simp

lemma received_all:
  "jwf m \<Longrightarrow> jget m i = Some c \<Longrightarrow> received i (map (\<lambda>(i, c). (i, s)) m) = [s]"
  using received_some [of m i c "\<lambda>_. True" s] by simp

definition stream_wf :: "'e stream_state \<Rightarrow> bool" where
  "stream_wf st =
     (jwf (ss_subscribers st) \<and> (\<forall>i. jhas (ss_subscribers st) i \<longrightarrow> i < ss_next_id st)
      \<and> \<not> (ss_completed st \<and> ss_error st \<noteq> None))"

lemma stream_new_wf: "stream_wf stream_new"
  by (simp add: stream_wf_def stream_new_def jhas_def)

lemma stream_step_wf: "stream_wf st \<Longrightarrow> stream_wf (snd (stream_step e st))"
proof (cases e)
  case (Call c)
  assume "stream_wf st"
  with Call show ?thesis by (cases c) (auto simp: stream_wf_def stream_closed_def)
qed (auto simp: stream_wf_def stream_subscribe_def stream_unsubscribe_def less_SucI
      intro!: inv_intros split: option.splits)

interpretation stream_m: invariant_machine "\<lambda>st e. snd (stream_step e st)" stream_wf
  by unfold_locales (rule stream_step_wf)

lemma stream_run_state: "snd (stream_run es st) = foldl (\<lambda>st e. snd (stream_step e st)) st es"
  by (induction es arbitrary: st) (simp_all add: split_beta)

definition ending :: "'e stream_state \<Rightarrow> ('v, 'e) signal option" where
  "ending st = (if ss_completed st then Some Done else map_option Failed (ss_error st))"

lemma ending_None: "ending st = None \<longleftrightarrow> \<not> stream_closed st"
  by (simp add: ending_def stream_closed_def)

lemma closed_step:
  "stream_closed st \<Longrightarrow> stream_step e st = (ds, st1) \<Longrightarrow> ds = [] \<and> stream_closed st1 \<and> ending st1 = ending st"
proof (cases e)
  case (Call c)
  assume "stream_closed st" "stream_step e st = (ds, st1)"
  with Call show ?thesis by (cases c) auto
qed (auto simp: stream_subscribe_def stream_unsubscribe_def stream_closed_def ending_def
      split: option.splits if_splits)

lemma closed_run:
  "stream_closed st \<Longrightarrow> fst (stream_run es st) = [] \<and> ending (snd (stream_run es st)) = ending st"
proof (induction es arbitrary: st)
  case (Cons e es)
  obtain ds st1 where s: "stream_step e st = (ds, st1)" by fastforce
  from closed_step [OF Cons.prems s] Cons.IH [of st1] s show ?case by (auto split: prod.split)
qed simp

lemma open_step:
  "\<not> stream_closed st \<Longrightarrow> stream_step e st = (ds, st1) \<Longrightarrow> ending st1 = ended_by [e]"
proof (cases e)
  case (Call c)
  assume "\<not> stream_closed st" "stream_step e st = (ds, st1)"
  with Call show ?thesis by (cases c) (auto simp: ending_def stream_closed_def)
qed (auto simp: stream_subscribe_def stream_unsubscribe_def stream_closed_def ending_def split: option.splits)

lemma ended_by_Cons: "ended_by (e # es) = (case ended_by [e] of None \<Rightarrow> ended_by es | Some s \<Rightarrow> Some s)"
  by (cases "e # es" rule: ended_by.cases) auto

lemma run_ending: "\<not> stream_closed st \<Longrightarrow> ending (snd (stream_run es st)) = ended_by es"
proof (induction es arbitrary: st)
  case Nil
  then show ?case by (simp add: ending_None)
next
  case (Cons e es)
  obtain ds st1 where s: "stream_step e st = (ds, st1)" by fastforce
  note e1 = open_step [OF Cons.prems s]
  show ?case
  proof (cases "stream_closed st1")
    case True
    then have "ended_by [e] \<noteq> None" unfolding e1 [symmetric] by (simp add: ending_None)
    then obtain t where "ended_by [e] = Some t" by blast
    with s e1 show ?thesis by (simp add: ended_by_Cons [of e es] split_beta closed_run [OF True])
  next
    case False
    then have "ended_by [e] = None" unfolding e1 [symmetric] by (simp add: ending_None)
    with Cons.IH [OF False] s show ?thesis by (auto simp: ended_by_Cons [of e es] split: prod.split)
  qed
qed

lemma left_receives_nothing:
  "\<not> jhas (ss_subscribers st) i \<Longrightarrow> i < ss_next_id st \<Longrightarrow> received i (fst (stream_run es st)) = []"
proof (induction es arbitrary: st)
  case (Cons e es)
  obtain ds st1 where s: "stream_step e st = (ds, st1)" by fastforce
  have "received i ds = [] \<and> \<not> jhas (ss_subscribers st1) i \<and> i < ss_next_id st1"
  proof (cases e)
    case (Call c)
    with s Cons.prems show ?thesis
      by (cases c) (auto simp: received_absent received_absent_all split: if_splits)
  qed (use s Cons.prems in \<open>auto simp: stream_subscribe_def stream_unsubscribe_def received_def split: option.splits if_splits\<close>)
  with Cons.IH [of st1] s show ?case by (auto split: prod.split)
qed (simp add: received_def)

lemma stream_run_gate:
  assumes "stream_wf st" "jget (ss_subscribers st) i = Some (True, True)" "\<not> stream_closed st"
  shows "received i (fst (stream_run es st)) = gate (calls_before_leave i es)"
  using assms
proof (induction es arbitrary: st)
  case (Cons e es)
  obtain ds st1 where s: "stream_step e st = (ds, st1)" by fastforce
  have wf: "stream_wf st1" using stream_step_wf [OF Cons.prems(1), of e] s by simp
  have "jhas (ss_subscribers st) i" using Cons.prems(2) by (simp add: jhas_def)
  then have jwf: "jwf (ss_subscribers st)" and fresh: "i < ss_next_id st"
    using Cons.prems(1) by (auto simp: stream_wf_def)
  note sub = received_all [OF jwf Cons.prems(2)] received_some [OF jwf Cons.prems(2)]
  show ?case
  proof (cases e)
    case (Call c)
    show ?thesis
    proof (cases c)
      case (Next v)
      with Call s Cons.prems(3) have "st1 = st" "ds = map (\<lambda>(i, c). (i, c')) (ss_subscribers st)" if "c' = c" for c'
        using that by auto
      with Cons.IH [OF Cons.prems] sub(1) [of c] Next Call s show ?thesis by (auto split: prod.split)
    next
      case (Failed x)
      with Call s Cons.prems(3) have st1: "stream_closed st1"
        and ds: "ds = map (\<lambda>(i, d). (i, c)) (filter (\<lambda>(i, d). fst d) (ss_subscribers st))"
        by (auto simp: stream_closed_def)
      have "received i ds = [c]" unfolding ds by (rule sub(2)) simp
      with closed_run [OF st1, of es] s Call Failed show ?thesis by (auto simp: received_def split: prod.split)
    next
      case Done
      with Call s Cons.prems(3) have st1: "stream_closed st1"
        and ds: "ds = map (\<lambda>(i, d). (i, c)) (filter (\<lambda>(i, d). snd d) (ss_subscribers st))"
        by (auto simp: stream_closed_def)
      have "received i ds = [c]" unfolding ds by (rule sub(2)) simp
      with closed_run [OF st1, of es] s Call Done show ?thesis by (auto simp: received_def split: prod.split)
    qed
  next
    case (Join a b)
    with s Cons.prems fresh have "ds = []" "jget (ss_subscribers st1) i = Some (True, True)" "\<not> stream_closed st1"
      by (auto simp: stream_subscribe_def stream_closed_def split: option.splits)
    with Cons.IH [OF wf] s Join show ?thesis by (auto split: prod.split)
  next
    case (Leave j)
    show ?thesis
    proof (cases "j = i")
      case True
      with Leave s fresh have "ds = []" "\<not> jhas (ss_subscribers st1) i" "i < ss_next_id st1"
        by (auto simp: stream_unsubscribe_def)
      with left_receives_nothing [of st1 i es] s Leave True show ?thesis by (auto split: prod.split)
    next
      case False
      with Leave s Cons.prems have "ds = []" "jget (ss_subscribers st1) i = Some (True, True)" "\<not> stream_closed st1"
        by (auto simp: stream_unsubscribe_def stream_closed_def)
      with Cons.IH [OF wf] s Leave False show ?thesis by (auto split: prod.split)
    qed
  qed
qed (simp add: received_def)

section \<open>Operators\<close>

text \<open>
  An operator has a state, a \<open>next\<close> handler and a completion handler, which make calls on the output
  stream; errors are passed on.  What its output delivers is \<open>operator_output\<close>.
\<close>

fun run_observer ::
  "('s \<Rightarrow> 'a \<Rightarrow> 's \<times> ('b, 'e) signal list) \<Rightarrow> ('s \<Rightarrow> ('b, 'e) signal list) \<Rightarrow> 's \<Rightarrow> ('a, 'e) signal list \<Rightarrow>
   ('b, 'e) signal list" where
  "run_observer on_next on_done s [] = []"
| "run_observer on_next on_done s (Next v # cs) =
     (case on_next s v of (s1, out) \<Rightarrow> out @ run_observer on_next on_done s1 cs)"
| "run_observer on_next on_done s (Failed e # cs) = Failed e # run_observer on_next on_done s cs"
| "run_observer on_next on_done s (Done # cs) = on_done s @ run_observer on_next on_done s cs"

definition operator_output where
  "operator_output on_next on_done s cs = gate (run_observer on_next on_done s (gate cs))"

definition map_next :: "('a \<Rightarrow> 'b) \<Rightarrow> unit \<Rightarrow> 'a \<Rightarrow> unit \<times> ('b, 'e) signal list" where
  "map_next f s v = (s, [Next (f v)])"

definition filter_next :: "('a \<Rightarrow> bool) \<Rightarrow> unit \<Rightarrow> 'a \<Rightarrow> unit \<times> ('a, 'e) signal list" where
  "filter_next p s v = (s, if p v then [Next v] else [])"

definition take_next :: "int \<Rightarrow> int \<Rightarrow> 'a \<Rightarrow> int \<times> ('a, 'e) signal list" where
  "take_next count seen v =
     (if seen < count then (seen + 1, [Next v] @ (if seen + 1 \<ge> count then [Done] else [])) else (seen, []))"

definition skip_next :: "int \<Rightarrow> int \<Rightarrow> 'a \<Rightarrow> int \<times> ('a, 'e) signal list" where
  "skip_next count skipped v = (if skipped < count then (skipped + 1, []) else (skipped, [Next v]))"

definition pass_complete :: "'s \<Rightarrow> ('b, 'e) signal list" where
  "pass_complete s = [Done]"

text \<open>A stream delivers values and then may end; every list of calls amounts to that.\<close>

datatype 'e stream_end = Running | Broken 'e | Finished

fun end_signals :: "'e stream_end \<Rightarrow> ('v, 'e) signal list" where
  "end_signals Running = []"
| "end_signals (Broken e) = [Failed e]"
| "end_signals Finished = [Done]"

definition delivered :: "'v list \<Rightarrow> 'e stream_end \<Rightarrow> ('v, 'e) signal list" where
  "delivered xs t = map Next xs @ end_signals t"

fun values_of :: "('v, 'e) signal list \<Rightarrow> 'v list" where
  "values_of (Next v # cs) = v # values_of cs"
| "values_of cs = []"

fun end_of :: "('v, 'e) signal list \<Rightarrow> 'e stream_end" where
  "end_of [] = Running"
| "end_of (Next v # cs) = end_of cs"
| "end_of (Failed e # cs) = Broken e"
| "end_of (Done # cs) = Finished"

lemma gate_delivered: "gate cs = delivered (values_of cs) (end_of cs)"
  by (induction cs rule: gate.induct) (auto simp: delivered_def)

lemma gate_values [simp]: "gate (map Next xs @ cs) = map Next xs @ gate cs"
  by (induction xs) auto

lemma gate_end_signals [simp]: "gate (end_signals t) = end_signals t"
  by (cases t) auto

lemma run_end: "run_observer on_next pass_complete s (end_signals t) = end_signals t"
  by (cases t) (auto simp: pass_complete_def)

lemma run_map:
  "run_observer (map_next f) pass_complete s (map Next xs @ end_signals t) = map Next (map f xs) @ end_signals t"
  by (induction xs) (auto simp: map_next_def run_end)

lemma run_filter:
  "run_observer (filter_next p) pass_complete s (map Next xs @ end_signals t) = map Next (filter p xs) @ end_signals t"
  by (induction xs) (auto simp: filter_next_def run_end)

lemma run_skip:
  "run_observer (skip_next n) pass_complete k (map Next xs @ end_signals t) =
   map Next (drop (nat (n - k)) xs) @ end_signals t"
proof (induction xs arbitrary: k)
  case (Cons x xs)
  show ?case
  proof (cases "k < n")
    case True
    then have "nat (n - k) = Suc (nat (n - (k + 1)))" by simp
    with True Cons [of "k + 1"] show ?thesis by (simp add: skip_next_def)
  next
    case False
    with Cons [of k] show ?thesis by (simp add: skip_next_def)
  qed
qed (simp add: run_end)

lemma run_take:
  "gate (run_observer (take_next n) pass_complete k (map Next xs @ end_signals t)) =
   (if k < n \<and> n - k \<le> int (length xs) then map Next (take (nat (n - k)) xs) @ [Done]
    else map Next (if k < n then xs else []) @ end_signals t)"
proof (induction xs arbitrary: k)
  case (Cons x xs)
  show ?case
  proof (cases "k < n")
    case less: True
    show ?thesis
    proof (cases "k + 1 < n")
      case True
      then have "nat (n - k) = Suc (nat (n - (k + 1)))" by simp
      with True Cons.IH [of "k + 1"] show ?thesis by (auto simp: take_next_def)
    next
      case False
      with less have "nat (n - k) = 1" by simp
      with False less show ?thesis by (simp add: take_next_def)
    qed
  next
    case False
    with Cons.IH [of k] show ?thesis by (simp add: take_next_def)
  qed
qed (auto simp: run_end)

section \<open>Windows\<close>

record 'v stream_window =
  sw_values :: "'v list"
  sw_opened_at :: int
  sw_closed_at :: int

text \<open>A value comes with the clock reading of its arrival.\<close>

definition tumbling_next ::
  "int \<Rightarrow> 'v list \<times> int \<Rightarrow> 'v \<times> int \<Rightarrow> ('v list \<times> int) \<times> ('v stream_window, 'e) signal list" where
  "tumbling_next window_size s p =
     (let buffer = fst s @ [fst p]
      in if int (length buffer) \<ge> window_size
         then (([], snd p), [Next \<lparr>sw_values = buffer, sw_opened_at = snd s, sw_closed_at = snd p\<rparr>])
         else ((buffer, snd s), []))"

definition tumbling_complete :: "int \<Rightarrow> 'v list \<times> int \<Rightarrow> ('v stream_window, 'e) signal list" where
  "tumbling_complete now s =
     (if length (fst s) > 0
      then [Next \<lparr>sw_values = fst s, sw_opened_at = snd s, sw_closed_at = now\<rparr>] else []) @ [Done]"

definition sliding_next ::
  "int \<Rightarrow> int \<Rightarrow> 'v list \<times> int list \<times> int \<Rightarrow> 'v \<times> int \<Rightarrow>
   ('v list \<times> int list \<times> int) \<times> ('v stream_window, 'e) signal list" where
  "sliding_next window_size step s p =
     (case s of (ring0, opened0, count0) \<Rightarrow>
        let ring1 = ring0 @ [fst p]; opened1 = opened0 @ [snd p];
            ring = (if int (length ring1) > window_size then tl ring1 else ring1);
            opened = (if int (length ring1) > window_size then tl opened1 else opened1);
            count = count0 + 1
        in ((ring, opened, count),
            if count mod step = 0 \<and> int (length ring) = window_size
            then [Next \<lparr>sw_values = ring,
                        sw_opened_at = (case opened of t # _ \<Rightarrow> t | [] \<Rightarrow> snd p), sw_closed_at = snd p\<rparr>]
            else []))"

record 'v session_state =
  sn_buffer :: "'v list"
  sn_last_emit :: int
  sn_opened_at :: int
  sn_has_items :: bool

definition session_next :: "'v session_state \<Rightarrow> 'v \<times> int \<Rightarrow> 'v session_state" where
  "session_next s p =
     (let s1 = (if \<not> sn_has_items s then s\<lparr>sn_opened_at := snd p, sn_has_items := True\<rparr> else s)
      in s1\<lparr>sn_buffer := sn_buffer s1 @ [fst p], sn_last_emit := snd p\<rparr>)"

definition session_complete :: "int \<Rightarrow> 'v session_state \<Rightarrow> 'v session_state \<times> ('v stream_window, 'e) signal list" where
  "session_complete now s =
     (if length (sn_buffer s) > 0
      then (s\<lparr>sn_buffer := [], sn_has_items := False\<rparr>,
            [Next \<lparr>sw_values = sn_buffer s, sw_opened_at = sn_opened_at s, sw_closed_at = now\<rparr>, Done])
      else (s, [Done]))"

definition session_tick :: "int \<Rightarrow> int \<Rightarrow> 'v session_state \<Rightarrow> 'v session_state \<times> ('v stream_window, 'e) signal list" where
  "session_tick gap now s =
     (if sn_has_items s \<and> now - sn_last_emit s \<ge> gap
      then (s\<lparr>sn_buffer := [], sn_has_items := False, sn_last_emit := now\<rparr>,
            [Next \<lparr>sw_values = sn_buffer s, sw_opened_at = sn_opened_at s, sw_closed_at = now\<rparr>])
      else (s, []))"

text \<open>What happens to a session window: a signal of the source with the clock reading, or a tick.\<close>

datatype ('v, 'e) session_event = Source "('v, 'e) signal" int | Tick int

fun session_step ::
  "int \<Rightarrow> 'v session_state \<Rightarrow> ('v, 'e) session_event \<Rightarrow> 'v session_state \<times> ('v stream_window, 'e) signal list" where
  "session_step gap s (Source (Next v) t) = (session_next s (v, t), [])"
| "session_step gap s (Source (Failed e) t) = (s, [Failed e])"
| "session_step gap s (Source Done t) = session_complete t s"
| "session_step gap s (Tick t) = session_tick gap t s"

fun session_run ::
  "int \<Rightarrow> 'v session_state \<Rightarrow> ('v, 'e) session_event list \<Rightarrow> 'v session_state \<times> ('v stream_window, 'e) signal list" where
  "session_run gap s [] = (s, [])"
| "session_run gap s (ev # evs) =
     (case session_step gap s ev of (s1, out) \<Rightarrow> case session_run gap s1 evs of (s2, out2) \<Rightarrow> (s2, out @ out2))"

definition session_new :: "'v session_state" where
  "session_new = \<lparr>sn_buffer = [], sn_last_emit = 0, sn_opened_at = 0, sn_has_items = False\<rparr>"

text \<open>Consecutive chunks of a list.\<close>

function chunks :: "nat \<Rightarrow> 'a list \<Rightarrow> 'a list list" where
  "chunks n xs = (if xs = [] \<or> n = 0 then [] else take n xs # chunks n (drop n xs))"
  by auto
termination by (relation "measure (\<lambda>(n, xs). length xs)") auto

declare chunks.simps [simp del]

lemma chunks_Nil [simp]: "chunks n [] = []"
  by (subst chunks.simps) simp

lemma chunks_short: "xs \<noteq> [] \<Longrightarrow> length xs \<le> n \<Longrightarrow> chunks n xs = [xs]"
  by (cases "n = 0", simp) (subst chunks.simps, simp)

lemma chunks_append: "1 \<le> n \<Longrightarrow> length xs = n \<Longrightarrow> chunks n (xs @ ys) = xs # chunks n ys"
  by (subst chunks.simps) auto

lemma concat_chunks: "1 \<le> n \<Longrightarrow> concat (chunks n xs) = xs"
proof (induction n xs rule: chunks.induct)
  case (1 n xs)
  then show ?case by (subst chunks.simps) auto
qed

lemma chunks_bounds: "c \<in> set (chunks n xs) \<Longrightarrow> c \<noteq> [] \<and> length c \<le> n"
proof (induction n xs rule: chunks.induct)
  case (1 n xs)
  show ?case
  proof (cases "xs = [] \<or> n = 0")
    case True
    with 1 show ?thesis by (simp add: chunks.simps)
  next
    case False
    with 1(2) have "c = take n xs \<or> c \<in> set (chunks n (drop n xs))" by (subst (asm) chunks.simps) auto
    with False 1(1) [OF False] show ?thesis by auto
  qed
qed

lemma chunks_full: "c \<in> set (butlast (chunks n xs)) \<Longrightarrow> length c = n"
proof (induction n xs rule: chunks.induct)
  case (1 n xs)
  show ?case
  proof (cases "xs = [] \<or> n = 0")
    case True
    with 1 show ?thesis by (simp add: chunks.simps)
  next
    case False
    then have "chunks n xs = take n xs # chunks n (drop n xs)" by (subst chunks.simps) simp
    with 1(2) have "chunks n (drop n xs) \<noteq> []" "c = take n xs \<or> c \<in> set (butlast (chunks n (drop n xs)))"
      by (auto split: if_splits)
    with False 1(1) [OF False] show ?thesis by (cases "drop n xs = []") auto
  qed
qed

definition tumbling_output where
  "tumbling_output n opened now cs =
     gate (run_observer (tumbling_next n) (tumbling_complete now) ([], opened) (gate cs))"

lemma tumbling_step:
  "tumbling_next n (b, t) p =
   (if int (length (b @ [fst p])) \<ge> n
    then (([], snd p), [Next \<lparr>sw_values = b @ [fst p], sw_opened_at = t, sw_closed_at = snd p\<rparr>])
    else ((b @ [fst p], t), []))"
  by (simp add: tumbling_next_def Let_def)

lemma run_tumbling:
  assumes "1 \<le> n" "int (length buffer) < n"
  shows "\<exists>ws. run_observer (tumbling_next n) (tumbling_complete tc) (buffer, t) (map Next ps @ end_signals d)
        = map Next ws @ end_signals d
    \<and> map sw_values ws = filter (\<lambda>c. d = Finished \<or> int (length c) = n) (chunks (nat n) (buffer @ map fst ps))"
  using assms(2)
proof (induction ps arbitrary: buffer t)
  case Nil
  have "chunks (nat n) buffer = (if buffer = [] then [] else [buffer])"
    using Nil by (simp add: chunks_short)
  with Nil show ?case
    by (cases d; cases "buffer = []") (auto simp: tumbling_complete_def intro: exI [of _ "[_]"])
next
  case (Cons p ps)
  let ?b = "buffer @ [fst p]"
  show ?case
  proof (cases "int (length ?b) \<ge> n")
    case True
    with Cons.prems have len: "length ?b = nat n" by simp
    obtain ws where "run_observer (tumbling_next n) (tumbling_complete tc) ([], snd p) (map Next ps @ end_signals d)
        = map Next ws @ end_signals d"
      "map sw_values ws = filter (\<lambda>c. d = Finished \<or> int (length c) = n) (chunks (nat n) (map fst ps))"
      using Cons.IH [of "[]" "snd p"] assms(1) by auto
    with True len assms(1) chunks_append [OF _ len, of "map fst ps"] show ?thesis
      by (intro exI [of _ "\<lparr>sw_values = ?b, sw_opened_at = t, sw_closed_at = snd p\<rparr> # ws"])
        (auto simp: tumbling_step)
  next
    case False
    with Cons.IH [of ?b t] show ?thesis by (simp add: tumbling_step)
  qed
qed

text \<open>The window a sliding strategy of a given size emits at its \<open>k\<close>-th value.\<close>

definition window_ending_at :: "nat \<Rightarrow> ('v \<times> int) list \<Rightarrow> nat \<Rightarrow> 'v stream_window" where
  "window_ending_at n ps k =
     \<lparr>sw_values = map fst (take n (drop (k - n) ps)),
      sw_opened_at = snd (ps ! (k - n)), sw_closed_at = snd (ps ! (k - 1))\<rparr>"

lemma gate_delivered_id [simp]: "gate (delivered xs t) = delivered xs t"
  by (simp add: delivered_def)

lemma window_ending_at_append:
  "1 \<le> k \<Longrightarrow> n \<le> k \<Longrightarrow> 1 \<le> n \<Longrightarrow> k \<le> length ps \<Longrightarrow> window_ending_at n (ps @ qs) k = window_ending_at n ps k"
proof -
  assume *: "1 \<le> k" "n \<le> k" "1 \<le> n" "k \<le> length ps"
  then have "k - n < length ps" "k - 1 < length ps" "n - (length ps - (k - n)) = 0" by linarith+
  then show ?thesis by (simp add: window_ending_at_def nth_append)
qed

definition sliding_output where
  "sliding_output n step cs =
     gate (run_observer (sliding_next n step) pass_complete ([], [], 0) (gate cs))"

definition sliding_state :: "nat \<Rightarrow> ('v \<times> int) list \<Rightarrow> 'v list \<times> int list \<times> int" where
  "sliding_state n qs = (let r = drop (length qs - n) qs in (map fst r, map snd r, int (length qs)))"

lemma sliding_step:
  assumes "1 \<le> n"
  shows "sliding_next (int n) step (sliding_state n qs) p =
    (sliding_state n (qs @ [p]),
     if n \<le> Suc (length qs) \<and> int (Suc (length qs)) mod step = 0
     then [Next (window_ending_at n (qs @ [p]) (Suc (length qs)))] else [])"
proof -
  let ?r = "drop (length qs - n) qs @ [p]" and ?qs = "qs @ [p]"
  have ring: "(if length ?r > n then tl ?r else ?r) = drop (length ?qs - n) ?qs"
    using assms by (cases "length qs < n") (auto simp: Suc_diff_le drop_Suc tl_drop)
  obtain r where r: "r = drop (length ?qs - n) ?qs" by blast
  have ne: "r \<noteq> []" and len: "length r = min n (Suc (length qs))" using assms r by auto
  have first: "n \<le> Suc (length qs) \<Longrightarrow> r ! 0 = ?qs ! (Suc (length qs) - n)"
    using assms unfolding r by (subst nth_drop) auto
  have full: "int (length (map fst r)) = int n \<longleftrightarrow> n \<le> Suc (length qs)" using len by auto
  have opened: "(case map snd r of t # _ \<Rightarrow> t | [] \<Rightarrow> snd p) = snd (r ! 0)"
    using ne by (cases r) auto
  have c: "int n < int (length (map fst (drop (length qs - n) qs) @ [fst p])) \<longleftrightarrow> n < length ?r"
    by (cases "length qs < n") auto
  have move: "(if n < length ?r then tl (map f (drop (length qs - n) qs) @ [f p])
      else map f (drop (length qs - n) qs) @ [f p]) = map f r" for f :: "_ \<Rightarrow> 'x"
    unfolding r ring [symmetric] by (simp add: map_tl)
  have "sliding_next (int n) step (sliding_state n qs) p =
    ((map fst r, map snd r, int (length qs) + 1),
     if (int (length qs) + 1) mod step = 0 \<and> n \<le> Suc (length qs)
     then [Next \<lparr>sw_values = map fst r, sw_opened_at = snd (r ! 0), sw_closed_at = snd p\<rparr>] else [])"
    unfolding sliding_state_def sliding_next_def Let_def prod.case c move full opened by simp
  moreover have "take n r = r" using len by simp
  ultimately show ?thesis
    using first by (auto simp: sliding_state_def window_ending_at_def r Let_def add.commute)
qed

lemma run_sliding:
  assumes "1 \<le> n"
  shows "run_observer (sliding_next (int n) step) pass_complete (sliding_state n qs) (map Next ps @ end_signals d)
    = map (\<lambda>k. Next (window_ending_at n (qs @ ps) k))
        (filter (\<lambda>k. n \<le> k \<and> int k mod step = 0) [Suc (length qs)..<Suc (length qs + length ps)])
      @ end_signals d"
proof (induction ps arbitrary: qs)
  case (Cons p ps)
  have up: "[Suc (length qs)..<Suc (length qs + length (p # ps))] =
      Suc (length qs) # [Suc (length (qs @ [p]))..<Suc (length (qs @ [p]) + length ps)]"
    by (simp add: upt_conv_Cons del: upt_Suc)
  have "window_ending_at n ((qs @ [p]) @ ps) (Suc (length qs)) = window_ending_at n (qs @ [p]) (Suc (length qs))"
    if "n \<le> Suc (length qs)"
    using assms that by (intro window_ending_at_append) auto
  with Cons.IH [of "qs @ [p]"] show ?case
    unfolding up by (simp add: sliding_step [OF assms] del: upt_Suc)
qed (simp add: run_end)

text \<open>The values that arrived, and events of a source that has not ended.\<close>

fun arrivals :: "('v, 'e) session_event list \<Rightarrow> 'v list" where
  "arrivals [] = []"
| "arrivals (Source (Next v) t # evs) = v # arrivals evs"
| "arrivals (Source (Failed e) t # evs) = arrivals evs"
| "arrivals (Source Done t # evs) = arrivals evs"
| "arrivals (Tick t # evs) = arrivals evs"

fun is_open_event :: "('v, 'e) session_event \<Rightarrow> bool" where
  "is_open_event (Source (Next v) t) = True"
| "is_open_event (Source c t) = False"
| "is_open_event (Tick t) = True"

lemma session_run_conserves:
  fixes evs :: "('v, 'e) session_event list"
  assumes "sn_has_items s \<longleftrightarrow> sn_buffer s \<noteq> []" "list_all is_open_event evs"
  shows "\<exists>s1 ws. session_run gap s evs = (s1, map Next ws) \<and> (sn_has_items s1 \<longleftrightarrow> sn_buffer s1 \<noteq> [])
    \<and> concat (map sw_values ws) @ sn_buffer s1 = sn_buffer s @ arrivals evs \<and> (\<forall>w \<in> set ws. sw_values w \<noteq> [])"
  using assms
proof (induction evs arbitrary: s rule: arrivals.induct)
  case (2 v t evs)
  let ?s = "session_next s (v, t)"
  have "sn_has_items ?s \<longleftrightarrow> sn_buffer ?s \<noteq> []" "sn_buffer ?s = sn_buffer s @ [v]"
    by (auto simp: session_next_def Let_def)
  with 2(1) [of ?s] 2(3) show ?case by auto
next
  case (5 t evs)
  obtain s1 ws1 where tick: "session_tick gap t s = (s1, map Next ws1 :: ('v stream_window, 'e) signal list)" "sn_has_items s1 \<longleftrightarrow> sn_buffer s1 \<noteq> []"
    "concat (map sw_values ws1) @ sn_buffer s1 = sn_buffer s" "\<forall>w \<in> set ws1. sw_values w \<noteq> []"
  proof (cases "sn_has_items s \<and> t - sn_last_emit s \<ge> gap")
    case True
    show ?thesis
      by (rule that [of "s\<lparr>sn_buffer := [], sn_has_items := False, sn_last_emit := t\<rparr>"
            "[\<lparr>sw_values = sn_buffer s, sw_opened_at = sn_opened_at s, sw_closed_at = t\<rparr>]"])
        (use True 5(2) in \<open>auto simp: session_tick_def\<close>)
  next
    case False
    show ?thesis by (rule that [of s "[]"]) (use False 5(2) in \<open>auto simp: session_tick_def\<close>)
  qed
  obtain s2 ws2 where "session_run gap s1 evs = (s2, map Next ws2)" "sn_has_items s2 \<longleftrightarrow> sn_buffer s2 \<noteq> []"
    "concat (map sw_values ws2) @ sn_buffer s2 = sn_buffer s1 @ arrivals evs" "\<forall>w \<in> set ws2. sw_values w \<noteq> []"
    using 5(1) [OF tick(2)] 5(3) by auto
  with tick show ?case by (intro exI [of _ s2] exI [of _ "ws1 @ ws2"]) auto
qed auto

section \<open>Merging\<close>

text \<open>Signals of several sources: which source and what.\<close>

definition merge_next :: "nat \<Rightarrow> nat \<Rightarrow> ('v, 'e) signal \<Rightarrow> nat \<times> ('v, 'e) signal list" where
  "merge_next n completed c =
     (case c of
        Next v \<Rightarrow> (completed, [Next v])
      | Failed e \<Rightarrow> (completed, [Failed e])
      | Done \<Rightarrow> (completed + 1, if completed + 1 = n then [Done] else []))"

fun merge_loop :: "nat \<Rightarrow> nat \<Rightarrow> ('v, 'e) signal list \<Rightarrow> ('v, 'e) signal list" where
  "merge_loop n completed [] = []"
| "merge_loop n completed (c # cs) =
     (case merge_next n completed c of (k, out) \<Rightarrow> out @ merge_loop n k cs)"

definition merge_streams :: "nat \<Rightarrow> ('v, 'e) signal list \<Rightarrow> ('v, 'e) signal list" where
  "merge_streams n cs = (if n = 0 then [Done] else gate (merge_loop n 0 cs))"

text \<open>A signal of the first or of the second source; \<open>combineLatest\<close> and \<open>zip\<close> do not handle completion.\<close>

datatype ('a, 'b, 'e) side = SideA "('a, 'e) signal" | SideB "('b, 'e) signal"

fun combine_next ::
  "'a option \<times> 'b option \<Rightarrow> ('a, 'b, 'e) side \<Rightarrow> ('a option \<times> 'b option) \<times> ('a \<times> 'b, 'e) signal list" where
  "combine_next (a, b) (SideA (Next v)) = ((Some v, b), case b of Some w \<Rightarrow> [Next (v, w)] | None \<Rightarrow> [])"
| "combine_next (a, b) (SideB (Next w)) = ((a, Some w), case a of Some v \<Rightarrow> [Next (v, w)] | None \<Rightarrow> [])"
| "combine_next s (SideA (Failed e)) = (s, [Failed e])"
| "combine_next s (SideB (Failed e)) = (s, [Failed e])"
| "combine_next s (SideA Done) = (s, [])"
| "combine_next s (SideB Done) = (s, [])"

fun combine_loop :: "'a option \<times> 'b option \<Rightarrow> ('a, 'b, 'e) side list \<Rightarrow> ('a \<times> 'b, 'e) signal list" where
  "combine_loop s [] = []"
| "combine_loop s (x # xs) = (case combine_next s x of (s1, out) \<Rightarrow> out @ combine_loop s1 xs)"

definition split_next ::
  "('v \<Rightarrow> bool) \<Rightarrow> ('v, 'e) signal \<Rightarrow> ('v, 'e) signal list \<times> ('v, 'e) signal list" where
  "split_next p c =
     (case c of
        Next v \<Rightarrow> (if p v then ([Next v], []) else ([], [Next v]))
      | Failed e \<Rightarrow> ([Failed e], [Failed e])
      | Done \<Rightarrow> ([Done], [Done]))"

fun try_emit_zip :: "'a list \<Rightarrow> 'b list \<Rightarrow> ('a \<times> 'b, 'e) signal list \<times> 'a list \<times> 'b list" where
  "try_emit_zip (a # as) (b # bs) =
     (case try_emit_zip as bs of (out, rest) \<Rightarrow> (Next (a, b) # out, rest))"
| "try_emit_zip as bs = ([], as, bs)"

fun zip_next :: "'a list \<times> 'b list \<Rightarrow> ('a, 'b, 'e) side \<Rightarrow> ('a list \<times> 'b list) \<times> ('a \<times> 'b, 'e) signal list" where
  "zip_next (as, bs) (SideA (Next v)) = (case try_emit_zip (as @ [v]) bs of (out, rest) \<Rightarrow> (rest, out))"
| "zip_next (as, bs) (SideB (Next w)) = (case try_emit_zip as (bs @ [w]) of (out, rest) \<Rightarrow> (rest, out))"
| "zip_next s (SideA (Failed e)) = (s, [Failed e])"
| "zip_next s (SideB (Failed e)) = (s, [Failed e])"
| "zip_next s (SideA Done) = (s, [])"
| "zip_next s (SideB Done) = (s, [])"

fun zip_loop :: "'a list \<times> 'b list \<Rightarrow> ('a, 'b, 'e) side list \<Rightarrow> ('a \<times> 'b, 'e) signal list" where
  "zip_loop s [] = []"
| "zip_loop s (x # xs) = (case zip_next s x of (s1, out) \<Rightarrow> out @ zip_loop s1 xs)"

definition zip_streams :: "('a, 'b, 'e) side list \<Rightarrow> ('a \<times> 'b, 'e) signal list" where
  "zip_streams xs = gate (zip_loop ([], []) xs)"

definition combine_latest :: "('a, 'b, 'e) side list \<Rightarrow> ('a \<times> 'b, 'e) signal list" where
  "combine_latest xs = gate (combine_loop (None, None) xs)"

text \<open>The values of each source up to the first error of either, and that error.\<close>

fun side_as :: "('a, 'b, 'e) side list \<Rightarrow> 'a list" where
  "side_as [] = []"
| "side_as (SideA (Next v) # xs) = v # side_as xs"
| "side_as (SideB (Next w) # xs) = side_as xs"
| "side_as (SideA (Failed e) # xs) = []"
| "side_as (SideB (Failed e) # xs) = []"
| "side_as (SideA Done # xs) = side_as xs"
| "side_as (SideB Done # xs) = side_as xs"

fun side_bs :: "('a, 'b, 'e) side list \<Rightarrow> 'b list" where
  "side_bs [] = []"
| "side_bs (SideA (Next v) # xs) = side_bs xs"
| "side_bs (SideB (Next w) # xs) = w # side_bs xs"
| "side_bs (SideA (Failed e) # xs) = []"
| "side_bs (SideB (Failed e) # xs) = []"
| "side_bs (SideA Done # xs) = side_bs xs"
| "side_bs (SideB Done # xs) = side_bs xs"

fun side_end :: "('a, 'b, 'e) side list \<Rightarrow> 'e stream_end" where
  "side_end [] = Running"
| "side_end (SideA (Next v) # xs) = side_end xs"
| "side_end (SideB (Next w) # xs) = side_end xs"
| "side_end (SideA (Failed e) # xs) = Broken e"
| "side_end (SideB (Failed e) # xs) = Broken e"
| "side_end (SideA Done # xs) = side_end xs"
| "side_end (SideB Done # xs) = side_end xs"

lemma try_emit_zip_eq:
  "try_emit_zip as bs = (map Next (zip as bs), drop (length bs) as, drop (length as) bs)"
  by (induction as bs rule: try_emit_zip.induct) auto

lemma zip_split:
  "zip (us @ us') (vs @ vs') = zip us vs @ zip (drop (length vs) us @ us') (drop (length us) vs @ vs')"
  by (induction us vs rule: list_induct2') auto

lemma zip_loop_gate:
  assumes "as = [] \<or> bs = []"
  shows "gate (zip_loop (as, bs) xs) = delivered (zip (as @ side_as xs) (bs @ side_bs xs)) (side_end xs)"
  using assms
proof (induction xs arbitrary: as bs rule: side_end.induct)
  case (2 v xs)
  let ?us = "as @ [v]"
  have "drop (length bs) ?us = [] \<or> drop (length ?us) bs = []" using 2(2) by auto
  from 2(1) [OF this] zip_split [of ?us "side_as xs" bs "side_bs xs"] show ?case
    by (simp add: try_emit_zip_eq delivered_def)
next
  case (3 w xs)
  let ?vs = "bs @ [w]"
  have "drop (length ?vs) as = [] \<or> drop (length as) ?vs = []" using 3(2) by auto
  from 3(1) [OF this] zip_split [of as "side_as xs" ?vs "side_bs xs"] show ?case
    by (simp add: try_emit_zip_eq delivered_def)
qed (auto simp: delivered_def)

text \<open>Merged sources: each signal with its source.\<close>

definition of_source :: "nat \<Rightarrow> (nat \<times> ('v, 'e) signal) list \<Rightarrow> ('v, 'e) signal list" where
  "of_source i cs = map snd (filter (\<lambda>c. fst c = i) cs)"

definition merged_values :: "(nat \<times> ('v, 'e) signal) list \<Rightarrow> 'v list" where
  "merged_values cs = concat (map (\<lambda>c. case snd c of Next v \<Rightarrow> [v] | _ \<Rightarrow> []) cs)"

lemma merge_loop_gate:
  assumes "D \<subset> {..<n}" "card D = k"
    and "\<And>i. i \<in> D \<Longrightarrow> of_source i cs = []"
    and "\<And>i. gate (of_source i cs) = of_source i cs"
    and "\<And>c. c \<in> set cs \<Longrightarrow> fst c < n \<and> (\<forall>e. snd c \<noteq> Failed e)"
  shows "gate (merge_loop n k (map snd cs)) =
    delivered (merged_values cs)
      (if \<forall>i<n. i \<in> D \<or> Done \<in> set (of_source i cs) then Finished else Running)"
  using assms
proof (induction cs arbitrary: D k)
  case Nil
  then obtain i where "i < n" "i \<notin> D" by auto
  then show ?case by (auto simp: delivered_def merged_values_def of_source_def)
next
  case (Cons c cs)
  obtain i sg where c: "c = (i, sg)" by fastforce
  have i: "i < n" "i \<notin> D" using Cons.prems(3) [of i] Cons.prems(5) [of c] by (auto simp: c of_source_def)
  have later: "\<And>j. j \<noteq> i \<Longrightarrow> of_source j (c # cs) = of_source j cs"
    "of_source i (c # cs) = sg # of_source i cs" by (auto simp: c of_source_def)
  have gated: "gate (of_source j cs) = of_source j cs" for j
  proof (cases "j = i")
    case True
    from Cons.prems(4) [of i] Cons.prems(5) [of c] show ?thesis
      unfolding later(2) True by (cases sg) (auto simp: c)
  next
    case False
    with Cons.prems(4) [of j] later(1) show ?thesis by simp
  qed
  have rest: "fst c < n \<and> (\<forall>e. snd c \<noteq> Failed e)" if "c \<in> set cs" for c
    using Cons.prems(5) [of c] that by simp
  show ?case
  proof (cases sg)
    case (Next v)
    have empty: "of_source j cs = []" if "j \<in> D" for j
      using Cons.prems(3) [OF that] later i that by (cases "j = i") auto
    have "(\<forall>j<n. j \<in> D \<or> Done \<in> set (of_source j (c # cs))) = (\<forall>j<n. j \<in> D \<or> Done \<in> set (of_source j cs))"
      using later Next by (metis set_ConsD list.set_intros(2) signal.distinct(3))
    with Cons.IH [OF Cons.prems(1,2) empty gated rest] Next c show ?thesis
      by (auto simp: merge_next_def delivered_def merged_values_def)
  next
    case (Failed e)
    with Cons.prems(5) [of c] c show ?thesis by simp
  next
    case Done
    have none: "of_source i cs = []" using Cons.prems(4) [of i] later(2) Done by simp
    have empty: "of_source j cs = []" if "j \<in> insert i D" for j
      using Cons.prems(3) [of j] later(1) that none by (cases "j = i") auto
    have fin: "finite D" using Cons.prems(1) finite_subset by blast
    have card: "card (insert i D) = k + 1" using i fin Cons.prems(2) by simp
    have all: "(\<forall>j<n. j \<in> D \<or> Done \<in> set (of_source j (c # cs))) =
        (\<forall>j<n. j \<in> insert i D \<or> Done \<in> set (of_source j cs))"
      using later Done by (metis insert_iff list.set_intros(1))
    show ?thesis
    proof (cases "insert i D = {..<n}")
      case True
      then have "k + 1 = n" using card by simp
      moreover have "cs = []"
      proof (rule ccontr)
        assume "cs \<noteq> []"
        then obtain d ds where "cs = d # ds" by (cases cs) auto
        with rest [of d] empty [of "fst d"] True show False by (auto simp: of_source_def)
      qed
      ultimately show ?thesis using True all Done c by (auto simp: merge_next_def delivered_def merged_values_def)
    next
      case False
      then have sub: "insert i D \<subset> {..<n}" using Cons.prems(1) i by auto
      then have "k + 1 \<noteq> n" using card psubset_card_mono [OF _ sub] by simp
      with Cons.IH [OF sub card empty gated rest] all Done c show ?thesis
        by (auto simp: merge_next_def delivered_def merged_values_def)
    qed
  qed
qed

section \<open>Back-pressure\<close>

datatype backpressure_strategy = DropNewest | DropOldest | Buffer

record 'v backpressure_queue =
  bq_items :: "'v list"
  bq_max_size :: int
  bq_strategy :: backpressure_strategy
  bq_dropped :: int

definition queue_new :: "int \<Rightarrow> backpressure_strategy \<Rightarrow> 'v backpressure_queue" where
  "queue_new n s = \<lparr>bq_items = [], bq_max_size = n, bq_strategy = s, bq_dropped = 0\<rparr>"

definition apply_pressure :: "'v \<Rightarrow> 'v backpressure_queue \<Rightarrow> 'v backpressure_queue" where
  "apply_pressure x q =
     (if bq_strategy q = DropNewest then q\<lparr>bq_dropped := bq_dropped q + 1\<rparr>
      else q\<lparr>bq_items := tl (bq_items q) @ [x], bq_dropped := bq_dropped q + 1\<rparr>)"

definition enqueue :: "'v \<Rightarrow> 'v backpressure_queue \<Rightarrow> 'v backpressure_queue" where
  "enqueue x q =
     (if bq_strategy q = Buffer then q\<lparr>bq_items := bq_items q @ [x]\<rparr>
      else if int (length (bq_items q)) < bq_max_size q then q\<lparr>bq_items := bq_items q @ [x]\<rparr>
      else apply_pressure x q)"

definition dequeue :: "'v backpressure_queue \<Rightarrow> 'v option \<times> 'v backpressure_queue" where
  "dequeue q =
     (case bq_items q of [] \<Rightarrow> (None, q) | x # xs \<Rightarrow> (Some x, q\<lparr>bq_items := xs\<rparr>))"

definition queue_peek :: "'v backpressure_queue \<Rightarrow> 'v option" where
  "queue_peek q = (case bq_items q of [] \<Rightarrow> None | x # _ \<Rightarrow> Some x)"

definition queue_is_full :: "'v backpressure_queue \<Rightarrow> bool" where
  "queue_is_full q = (bq_strategy q \<noteq> Buffer \<and> int (length (bq_items q)) \<ge> bq_max_size q)"

definition queue_drain :: "'v backpressure_queue \<Rightarrow> 'v list \<times> 'v backpressure_queue" where
  "queue_drain q = (bq_items q, q\<lparr>bq_items := []\<rparr>)"

datatype 'v queue_op = Enqueue 'v | Dequeue | Drain

text \<open>A queue together with the values it has handed out.\<close>

fun queue_step :: "'v backpressure_queue \<times> 'v list \<Rightarrow> 'v queue_op \<Rightarrow> 'v backpressure_queue \<times> 'v list" where
  "queue_step (q, out) (Enqueue x) = (enqueue x q, out)"
| "queue_step (q, out) Dequeue =
     (case dequeue q of (None, q1) \<Rightarrow> (q1, out) | (Some x, q1) \<Rightarrow> (q1, out @ [x]))"
| "queue_step (q, out) Drain = (case queue_drain q of (xs, q1) \<Rightarrow> (q1, out @ xs))"

fun enqueued :: "'v queue_op list \<Rightarrow> 'v list" where
  "enqueued [] = []"
| "enqueued (Enqueue x # ops) = x # enqueued ops"
| "enqueued (Dequeue # ops) = enqueued ops"
| "enqueued (Drain # ops) = enqueued ops"

lemma queue_config: "bq_max_size (fst (queue_step s op)) = bq_max_size (fst s)"
  "bq_strategy (fst (queue_step s op)) = bq_strategy (fst s)"
  by (cases s; cases op; auto simp: enqueue_def apply_pressure_def dequeue_def queue_drain_def split: list.split)+

lemma queue_run:
  assumes "1 \<le> bq_max_size q" "bq_strategy q = Buffer \<or> int (length (bq_items q)) \<le> bq_max_size q"
    and "foldl queue_step (q, out) ops = (q', out')"
  shows "(bq_strategy q = Buffer \<or> int (length (bq_items q')) \<le> bq_max_size q)
    \<and> int (length (out' @ bq_items q')) + bq_dropped q' =
        int (length (out @ bq_items q)) + bq_dropped q + int (length (enqueued ops))
    \<and> (bq_strategy q = Buffer \<longrightarrow> out' @ bq_items q' = out @ bq_items q @ enqueued ops \<and> bq_dropped q' = bq_dropped q)
    \<and> subseq (out' @ bq_items q') (out @ bq_items q @ enqueued ops)"
  using assms
proof (induction ops arbitrary: q out)
  case (Cons op ops)
  obtain q1 out1 where s: "queue_step (q, out) op = (q1, out1)" by fastforce
  have cfg: "bq_max_size q1 = bq_max_size q" "bq_strategy q1 = bq_strategy q"
    using queue_config [of "(q, out)" op] s by simp_all
  have step: "(bq_strategy q = Buffer \<or> int (length (bq_items q1)) \<le> bq_max_size q)
    \<and> int (length (out1 @ bq_items q1)) + bq_dropped q1 =
        int (length (out @ bq_items q)) + bq_dropped q + int (length (enqueued [op]))
    \<and> (bq_strategy q = Buffer \<longrightarrow> out1 @ bq_items q1 = out @ bq_items q @ enqueued [op] \<and> bq_dropped q1 = bq_dropped q)
    \<and> subseq (out1 @ bq_items q1) (out @ bq_items q @ enqueued [op])"
  proof (cases op)
    case (Enqueue x)
    have "subseq (out @ tl (bq_items q) @ [x]) (out @ bq_items q @ [x])"
      by (intro list_emb_append_mono subseq_order.refl) (cases "bq_items q"; auto)
    with Enqueue s Cons.prems(1,2) show ?thesis
      by (cases "bq_items q") (auto simp: enqueue_def apply_pressure_def split: if_splits)
  next
    case Dequeue
    with s Cons.prems(2) show ?thesis
      by (cases "bq_items q") (auto simp: dequeue_def)
  next
    case Drain
    with s Cons.prems(1) show ?thesis by (auto simp: queue_drain_def)
  qed
  have enq: "enqueued (op # ops) = enqueued [op] @ enqueued ops" by (cases op) simp_all
  have rest: "foldl queue_step (q1, out1) ops = (q', out')" using Cons.prems(3) s by simp
  have pre: "1 \<le> bq_max_size q1" "bq_strategy q1 = Buffer \<or> int (length (bq_items q1)) \<le> bq_max_size q1"
    using step cfg Cons.prems(1) by auto
  note ih = Cons.IH [OF pre rest]
  have "subseq ((out1 @ bq_items q1) @ enqueued ops) ((out @ bq_items q @ enqueued [op]) @ enqueued ops)"
    by (rule list_emb_append_mono [OF _ subseq_order.refl]) (use step in blast)
  with ih have sub: "subseq (out' @ bq_items q') (out @ bq_items q @ enqueued [op] @ enqueued ops)"
    by (auto intro: subseq_order.trans)
  have buf: "bq_strategy q = Buffer \<longrightarrow>
      out' @ bq_items q' = out @ bq_items q @ enqueued [op] @ enqueued ops \<and> bq_dropped q' = bq_dropped q"
    using ih step cfg by (metis append.assoc)
  show ?case unfolding enq using ih step cfg sub buf by (intro conjI) auto
qed simp

lemma enqueue_all:
  assumes "0 \<le> bq_max_size q"
  shows "bq_strategy q = DropNewest \<Longrightarrow> int (length (bq_items q)) \<le> bq_max_size q \<Longrightarrow>
      bq_items (foldl (\<lambda>q x. enqueue x q) q xs) = take (nat (bq_max_size q)) (bq_items q @ xs)"
    and "bq_strategy q = DropOldest \<Longrightarrow> int (length (bq_items q)) \<le> bq_max_size q \<Longrightarrow> 1 \<le> bq_max_size q \<Longrightarrow>
      bq_items (foldl (\<lambda>q x. enqueue x q) q xs) =
        drop (length (bq_items q @ xs) - nat (bq_max_size q)) (bq_items q @ xs)"
  using assms
proof (induction xs arbitrary: q)
  case (Cons x xs)
  {
    case 1
    show ?case
    proof (cases "int (length (bq_items q)) < bq_max_size q")
      case True
      with 1 Cons.IH(1) [of "enqueue x q"] show ?thesis by (simp add: enqueue_def)
    next
      case False
      with 1 have len: "length (bq_items q) = nat (bq_max_size q)" by simp
      from False 1 Cons.IH(1) [of "enqueue x q"] show ?thesis
        by (simp add: enqueue_def apply_pressure_def len [symmetric])
    qed
  next
    case 2
    show ?case
    proof (cases "int (length (bq_items q)) < bq_max_size q")
      case True
      with 2 Cons.IH(2) [of "enqueue x q"] show ?thesis by (simp add: enqueue_def)
    next
      case False
      with 2 obtain y ys where q: "bq_items q = y # ys" by (cases "bq_items q") auto
      with False 2 have len: "Suc (length ys) = nat (bq_max_size q)" by simp
      from False 2 Cons.IH(2) [of "enqueue x q"] show ?thesis
        by (simp add: enqueue_def apply_pressure_def q len [symmetric])
    qed
  }
qed simp_all

section \<open>Properties\<close>

text \<open>C27: 
  Stream contract.  Whatever happened to a stream, an observer that subscribes when the stream has
  ended is told how it ended, at once and only that; otherwise it is told exactly the later calls,
  up to and including the first that ends the stream, or up to its own unsubscription.  Other
  subscriptions and unsubscriptions make no difference.
\<close>

theorem stream_contract:
  assumes "snd (stream_run es0 stream_new) = st"
    and "stream_subscribe True True st = (now, i, st1)"
  shows "case ended_by es0 of
      Some s \<Rightarrow> now = [s] \<and> i = None \<and> st1 = st
    | None \<Rightarrow> \<exists>k. now = [] \<and> i = Some k \<and> received k (fst (stream_run es st1)) = gate (calls_before_leave k es)"
proof -
  have wf: "stream_wf st" using assms(1) stream_m.run_keeps [OF stream_new_wf] by (auto simp: stream_run_state)
  have "\<not> stream_closed stream_new" by (simp add: stream_new_def stream_closed_def)
  from run_ending [OF this, of es0] have e: "ended_by es0 = ending st" using assms(1) by simp
  show ?thesis
  proof (cases "stream_closed st")
    case True
    with assms(2) e show ?thesis
      by (auto simp: stream_subscribe_def ending_def stream_closed_def split: if_splits)
  next
    case False
    with assms(2) have st1: "now = []" "i = Some (ss_next_id st)" "stream_wf st1"
      "jget (ss_subscribers st1) (ss_next_id st) = Some (True, True)" "\<not> stream_closed st1"
      using wf by (auto simp: stream_subscribe_def stream_closed_def stream_wf_def less_SucI intro!: inv_intros)
    have "ended_by es0 = None" unfolding e by (simp add: ending_None False)
    with st1 stream_run_gate [OF st1(3-5), of es] show ?thesis by simp
  qed
qed

theorem stream_contract_witness:
  "received 1 (fst (stream_run [Call (Next 7), Join False False, Call Done, Call (Next (8::int))]
     (snd (snd (stream_subscribe True True (snd (stream_run [Join True False, Call (Next (5::int))] stream_new))
        :: (int, string) signal list \<times> nat option \<times> string stream_state))))) = [Next 7, Done]"
  using stream_contract [of "[Join True False, Call (Next (5::int))]", OF refl,
      of "[]" "Some 1" _ "[Call (Next 7), Join False False, Call Done, Call (Next (8::int))]"]
  by (simp add: stream_new_def stream_subscribe_def stream_closed_def)

text \<open>
  Operators.  On a source that delivers values and perhaps ends, \<open>map\<close>, \<open>filter\<close> and \<open>skip\<close> deliver
  the mapped, filtered and remaining values and end as the source does; \<open>take\<close> delivers the first
  values and is done with the last of them, unless the source ends before.  A \<open>take\<close> of no values
  is not done until its source ends.
\<close>

theorem stream_operators:
  "operator_output (map_next f) pass_complete () cs = delivered (map f (values_of cs)) (end_of cs)
   \<and> operator_output (filter_next p) pass_complete () cs = delivered (filter p (values_of cs)) (end_of cs)
   \<and> operator_output (skip_next n) pass_complete 0 cs = delivered (drop (nat n) (values_of cs)) (end_of cs)
   \<and> operator_output (take_next n) pass_complete 0 cs =
      (if 0 < n \<and> n \<le> int (length (values_of cs)) then delivered (take (nat n) (values_of cs)) Finished
       else delivered (if 0 < n then values_of cs else []) (end_of cs))"
  unfolding operator_output_def gate_delivered [of cs] delivered_def run_map run_filter run_skip run_take
  by (simp_all del: map_map)

text \<open>
  Tumbling windows.  The windows partition the values in order: each holds exactly the configured
  number of values, except that a completed source flushes a shorter, non-empty last one.
\<close>

theorem tumbling_windows:
  assumes "1 \<le> n"
  shows "\<exists>ws. tumbling_output n opened now cs = delivered ws (end_of cs)
    \<and> map sw_values ws = filter (\<lambda>c. end_of cs = Finished \<or> int (length c) = n) (chunks (nat n) (map fst (values_of cs)))
    \<and> (end_of cs = Finished \<longrightarrow> concat (map sw_values ws) = map fst (values_of cs))
    \<and> (\<forall>w \<in> set ws. sw_values w \<noteq> [] \<and> int (length (sw_values w)) \<le> n)
    \<and> (\<forall>w \<in> set (butlast ws). int (length (sw_values w)) = n)"
proof -
  let ?cs = "chunks (nat n) (map fst (values_of cs))"
  obtain ws where run: "run_observer (tumbling_next n) (tumbling_complete now) ([], opened) (gate cs) =
      map Next ws @ end_signals (end_of cs)"
    and ws: "map sw_values ws = filter (\<lambda>c. end_of cs = Finished \<or> int (length c) = n) ?cs"
    using run_tumbling [OF assms, of "[]" now opened "values_of cs" "end_of cs"] assms
    unfolding gate_delivered delivered_def by auto
  have vals: "sw_values w \<in> set ?cs \<and> (end_of cs = Finished \<or> int (length (sw_values w)) = n)" if "w \<in> set ws" for w
    using that arg_cong [OF ws, of set] by force
  have last: "int (length (sw_values w)) = n" if w: "w \<in> set (butlast ws)" for w
  proof (cases "end_of cs = Finished")
    case True
    with ws w have "sw_values w \<in> set (butlast ?cs)" by (metis (mono_tags, lifting) filter_True image_eqI list.set_map map_butlast)
    from chunks_full [OF this] assms show ?thesis by simp
  next
    case False
    with vals [OF in_set_butlastD [OF w]] show ?thesis by simp
  qed
  have "end_of cs = Finished \<longrightarrow> concat (map sw_values ws) = map fst (values_of cs)"
    using assms by (simp add: ws concat_chunks)
  moreover have "sw_values w \<noteq> [] \<and> int (length (sw_values w)) \<le> n" if "w \<in> set ws" for w
    using vals [OF that] chunks_bounds [of "sw_values w" "nat n"] assms by force
  ultimately show ?thesis using run ws last
    unfolding tumbling_output_def delivered_def by (intro exI [of _ ws]) simp
qed

theorem tumbling_windows_witness:
  "tumbling_output 2 0 9 [Next (''a'', 1), Next (''b'', 3), Next (''c'', 4), Done :: (string \<times> int, string) signal] =
   [Next \<lparr>sw_values = [''a'', ''b''], sw_opened_at = 0, sw_closed_at = 3\<rparr>,
    Next \<lparr>sw_values = [''c''], sw_opened_at = 3, sw_closed_at = 9\<rparr>, Done]
   \<and> (\<exists>ws. tumbling_output 2 0 9 [Next (''a'', 1), Next (''b'', 3), Next (''c'', 4), Done :: (string \<times> int, string) signal]
        = delivered ws Finished)"
  using tumbling_windows [of 2 0 9 "[Next (''a'', 1), Next (''b'', 3), Next (''c'', 4), Done :: (string \<times> int, string) signal]"]
  by (auto simp: tumbling_output_def tumbling_next_def tumbling_complete_def)

text \<open>
  Sliding windows.  A window is emitted at exactly the values whose count is a multiple of the step
  and at least the window size; it holds the last \<open>n\<close> values, was opened when the first of them
  arrived and closed when the last did.
\<close>

theorem sliding_windows:
  assumes "1 \<le> n"
  shows "sliding_output (int n) step cs =
    delivered (map (window_ending_at n (values_of cs))
        (filter (\<lambda>k. n \<le> k \<and> int k mod step = 0) [1..<Suc (length (values_of cs))])) (end_of cs)"
proof -
  from run_sliding [OF assms, of step "[]" "values_of cs" "end_of cs"]
  have "run_observer (sliding_next (int n) step) pass_complete ([], [], 0) (gate cs) =
      delivered (map (window_ending_at n (values_of cs))
        (filter (\<lambda>k. n \<le> k \<and> int k mod step = 0) [1..<Suc (length (values_of cs))])) (end_of cs)"
    by (simp add: gate_delivered [of cs] delivered_def comp_def sliding_state_def del: upt_Suc)
  then show ?thesis by (simp add: sliding_output_def del: upt_Suc)
qed

theorem sliding_windows_witness:
  "sliding_output 2 1 [Next (''a'', 1), Next (''b'', 3), Next (''c'', 4) :: (string \<times> int, string) signal] =
   [Next \<lparr>sw_values = [''a'', ''b''], sw_opened_at = 1, sw_closed_at = 3\<rparr>,
    Next \<lparr>sw_values = [''b'', ''c''], sw_opened_at = 3, sw_closed_at = 4\<rparr>]"
  using sliding_windows [of 2 1 "[Next (''a'', 1), Next (''b'', 3), Next (''c'', 4) :: (string \<times> int, string) signal]"]
  by (simp add: window_ending_at_def delivered_def upt_rec)

text \<open>
  Session windows.  Whatever the gaps and the ticks, once the source is done the windows are
  non-empty and partition its values in order.
\<close>

theorem session_windows:
  assumes "list_all is_open_event evs"
  shows "\<exists>ws. snd (session_run gap session_new (evs @ [Source Done t])) = map Next ws @ [Done]
    \<and> concat (map sw_values ws) = arrivals evs \<and> (\<forall>w \<in> set ws. sw_values w \<noteq> [])"
proof -
  have snoc: "session_run gap s (evs @ [ev]) =
      (let r = session_run gap s evs; q = session_step gap (fst r) ev in (fst q, snd r @ snd q))" for s and ev :: "('a, 'b) session_event"
    by (induction evs arbitrary: s) (simp_all add: split_beta Let_def)
  obtain s1 ws where "session_run gap session_new evs = (s1, map Next ws)"
    "concat (map sw_values ws) @ sn_buffer s1 = arrivals evs" "\<forall>w \<in> set ws. sw_values w \<noteq> []"
    using session_run_conserves [of session_new evs gap] assms by (auto simp: session_new_def)
  then show ?thesis
    by (intro exI [of _ "ws @ (if sn_buffer s1 = [] then []
          else [\<lparr>sw_values = sn_buffer s1, sw_opened_at = sn_opened_at s1, sw_closed_at = t\<rparr>])"])
      (auto simp: snoc Let_def session_complete_def)
qed

theorem session_windows_witness:
  "\<exists>ws. snd (session_run 10 session_new ([Source (Next 1) 0, Tick 5, Tick 10, Source (Next (2::int)) 11] @ [Source (Done :: (int, string) signal) 12]))
      = map Next ws @ [Done] \<and> concat (map sw_values ws) = [1, 2]"
  using session_windows [of "[Source (Next 1) 0, Tick 5, Tick 10, Source (Next (2::int)) 11]" 10 12] by auto

text \<open>C28: 
  Zip.  However the signals of the two sources interleave, \<open>zip\<close> delivers the pairs of the lists of
  their values, and ends only with the first error of either: it never completes.
\<close>

theorem zip_is_zip_for_every_interleaving:
  "zip_streams xs = delivered (zip (side_as xs) (side_bs xs)) (side_end xs)"
  using zip_loop_gate [of "[]" "[]" xs] by (simp add: zip_streams_def)

text \<open>Zip: two sources that have both completed leave the zipped stream running.\<close>

theorem zip_never_completes: "Done \<notin> set (zip_streams xs)"
proof -
  have "side_end xs \<noteq> Finished" by (induction xs rule: side_end.induct) auto
  then show ?thesis using zip_loop_gate [of "[]" "[]" xs]
    by (cases "side_end xs") (auto simp: zip_streams_def delivered_def)
qed

text \<open>
  Merge.  However the signals of \<open>n\<close> well-behaved sources interleave, the merged stream delivers all
  their values in order of arrival and is done exactly when every source is.
\<close>

theorem merge_completes_with_last:
  assumes "\<And>i. gate (of_source i cs) = of_source i cs"
    and "\<And>c. c \<in> set cs \<Longrightarrow> fst c < n \<and> (\<forall>e. snd c \<noteq> Failed e)"
  shows "merge_streams n (map snd cs) =
    delivered (merged_values cs) (if \<forall>i<n. Done \<in> set (of_source i cs) then Finished else Running)"
proof (cases "n = 0")
  case True
  with assms(2) have "cs = []" by (cases cs) auto
  with True show ?thesis by (simp add: merge_streams_def delivered_def merged_values_def)
next
  case False
  then have "{} \<subset> {..<n}" by auto
  from merge_loop_gate [OF this _ _ assms] False show ?thesis by (simp add: merge_streams_def)
qed

theorem merge_completes_with_last_witness:
  "merge_streams 2 [Next (1::int), Done, Next 2, Done :: (int, string) signal] = [Next 1, Next 2, Done]"
proof -
  let ?cs = "[(0::nat, Next (1::int)), (1, Done), (0, Next 2), (0, Done :: (int, string) signal)]"
  have gated: "gate (of_source i ?cs) = of_source i ?cs" for i
    by (cases "i = 0"; cases "i = 1") (simp_all add: of_source_def)
  have ok: "fst c < 2 \<and> (\<forall>e. snd c \<noteq> Failed e)" if "c \<in> set ?cs" for c using that by auto
  show ?thesis using merge_completes_with_last [of ?cs 2, OF gated ok]
    by (auto simp: delivered_def merged_values_def of_source_def less_2_cases_iff)
qed

text \<open>
  Back-pressure queue.  Over any run of a queue with room for one value, what was handed out and
  what is held is a subsequence of what was enqueued, the rest is counted as dropped, and the queue
  stays within its size; a buffering queue loses nothing.
\<close>

theorem backpressure_queue_accounts:
  assumes "1 \<le> n" and "foldl queue_step (queue_new n s, []) ops = (q, out)"
  shows "(s = Buffer \<or> int (length (bq_items q)) \<le> n)
    \<and> subseq (out @ bq_items q) (enqueued ops)
    \<and> int (length (out @ bq_items q)) + bq_dropped q = int (length (enqueued ops))
    \<and> (s = Buffer \<longrightarrow> out @ bq_items q = enqueued ops)"
  using queue_run [OF _ _ assms(2)] assms(1) by (simp add: queue_new_def)

theorem backpressure_queue_accounts_witness:
  "\<exists>q. foldl queue_step (queue_new 2 DropOldest, []) [Enqueue (1::int), Enqueue 2, Enqueue 3, Dequeue] = (q, [2])
     \<and> bq_items q = [3] \<and> bq_dropped q = 1 \<and> int (length (bq_items q)) \<le> 2"
  using backpressure_queue_accounts [of 2 DropOldest "[Enqueue (1::int), Enqueue 2, Enqueue 3, Dequeue]"]
  by (simp add: queue_new_def enqueue_def apply_pressure_def dequeue_def)

text \<open>
  Back-pressure strategies.  A queue that is only filled keeps the oldest values when it drops the
  newest, and the newest values when it drops the oldest.
\<close>

theorem backpressure_strategies:
  assumes "1 \<le> n"
  shows "bq_items (foldl (\<lambda>q x. enqueue x q) (queue_new n DropNewest) xs) = take (nat n) xs
    \<and> bq_items (foldl (\<lambda>q x. enqueue x q) (queue_new n DropOldest) xs) = drop (length xs - nat n) xs"
  using enqueue_all [of "queue_new n DropNewest" xs] enqueue_all [of "queue_new n DropOldest" xs] assms
  by (simp_all add: queue_new_def)

theorem backpressure_strategies_witness:
  "bq_items (foldl (\<lambda>q x. enqueue x q) (queue_new 2 DropNewest) [1::int, 2, 3]) = [1, 2]
   \<and> bq_items (foldl (\<lambda>q x. enqueue x q) (queue_new 2 DropOldest) [1::int, 2, 3]) = [2, 3]"
  using backpressure_strategies [of 2 "[1::int, 2, 3]"] by simp

end
