(* ===== verification/Websocket.thy ===== *)
theory Websocket
  imports Prelude
begin

text \<open>
  WebSocket connections (\<open>packages/websocket/src\<close>): rooms, connections, the server that owns them,
  and the delays of reconnection.  What an operation does to sockets and handlers is the list of
  its effects, in order.  A connection object is the server's: one that was replaced by another
  registration under the same id, or removed, is not followed further.
\<close>

section \<open>Rooms\<close>

record room_manager =
  rm_rooms :: "(string, string list) jsmap"
  rm_membership :: "(string, string list) jsmap"

definition room_manager_new :: room_manager where
  "room_manager_new = \<lparr>rm_rooms = [], rm_membership = []\<rparr>"

definition add_to_set :: "('k, 'v list) jsmap \<Rightarrow> 'k \<Rightarrow> 'v \<Rightarrow> ('k, 'v list) jsmap" where
  "add_to_set m k v =
     (let s = (case jget m k of Some s \<Rightarrow> s | None \<Rightarrow> []) in jset k (set_add v s) m)"

definition remove_from_set :: "('k, 'v list) jsmap \<Rightarrow> 'k \<Rightarrow> 'v \<Rightarrow> ('k, 'v list) jsmap" where
  "remove_from_set m k v =
     (case jget m k of
        None \<Rightarrow> m
      | Some s \<Rightarrow> let s1 = set_remove v s in if length s1 = 0 then jdelete k m else jset k s1 m)"

definition room_join :: "string \<Rightarrow> string \<Rightarrow> room_manager \<Rightarrow> room_manager" where
  "room_join c r rm =
     rm\<lparr>rm_rooms := add_to_set (rm_rooms rm) r c, rm_membership := add_to_set (rm_membership rm) c r\<rparr>"

definition room_leave :: "string \<Rightarrow> string \<Rightarrow> room_manager \<Rightarrow> room_manager" where
  "room_leave c r rm =
     rm\<lparr>rm_rooms := remove_from_set (rm_rooms rm) r c, rm_membership := remove_from_set (rm_membership rm) c r\<rparr>"

definition room_leave_all :: "string \<Rightarrow> room_manager \<Rightarrow> room_manager" where
  "room_leave_all c rm = fold (room_leave c) (elems (rm_membership rm) c) rm"

definition room_members :: "room_manager \<Rightarrow> string \<Rightarrow> string list" where
  "room_members rm r = elems (rm_rooms rm) r"

definition connection_rooms :: "room_manager \<Rightarrow> string \<Rightarrow> string list" where
  "connection_rooms rm c = elems (rm_membership rm) c"

definition room_ids :: "room_manager \<Rightarrow> string list" where
  "room_ids rm = jkeys (rm_rooms rm)"

definition room_count :: "room_manager \<Rightarrow> int" where
  "room_count rm = jsize (rm_rooms rm)"

definition is_member :: "room_manager \<Rightarrow> string \<Rightarrow> string \<Rightarrow> bool" where
  "is_member rm c r = (case jget (rm_rooms rm) r of Some s \<Rightarrow> c \<in> set s | None \<Rightarrow> False)"

datatype room_op = Join string string | Leave string string | LeaveAll string

fun room_step :: "room_manager \<Rightarrow> room_op \<Rightarrow> room_manager" where
  "room_step rm (Join c r) = room_join c r rm"
| "room_step rm (Leave c r) = room_leave c r rm"
| "room_step rm (LeaveAll c) = room_leave_all c rm"

subsection \<open>Rooms are a relation\<close>

text \<open>The specification: who is in which room.\<close>

fun membership_step :: "(string \<times> string) set \<Rightarrow> room_op \<Rightarrow> (string \<times> string) set" where
  "membership_step M (Join c r) = insert (c, r) M"
| "membership_step M (Leave c r) = M - {(c, r)}"
| "membership_step M (LeaveAll c) = {p \<in> M. fst p \<noteq> c}"

definition members :: "room_manager \<Rightarrow> (string \<times> string) set" where
  "members rm = {(c, r). c \<in> set (room_members rm r)}"

text \<open>The two maps are inverse, hold no empty sets, and no element twice.\<close>

definition no_empty :: "('k, 'v list) jsmap \<Rightarrow> bool" where
  "no_empty m \<longleftrightarrow> jwf m \<and> (\<forall>k. jget m k \<noteq> Some []) \<and> (\<forall>k. distinct (elems m k))"

definition rooms_ok :: "room_manager \<Rightarrow> bool" where
  "rooms_ok rm \<longleftrightarrow> no_empty (rm_rooms rm) \<and> no_empty (rm_membership rm)
     \<and> (\<forall>c r. c \<in> set (elems (rm_rooms rm) r) \<longleftrightarrow> r \<in> set (elems (rm_membership rm) c))"

lemma elems_add_to_set [simp]:
  "elems (add_to_set m k v) k' = (if k' = k then set_add v (elems m k) else elems m k')"
  by (simp add: add_to_set_def Let_def elems_def)

lemma elems_remove_from_set [simp]:
  "elems (remove_from_set m k v) k' = (if k' = k then set_remove v (elems m k) else elems m k')"
  by (auto simp: remove_from_set_def Let_def elems_def set_remove_def split: option.split)

lemma no_empty_add: "no_empty m \<Longrightarrow> no_empty (add_to_set m k v)"
  unfolding no_empty_def by (auto simp: distinct_set_add, auto simp: add_to_set_def Let_def set_add_def
      intro: inv_intros split: if_splits)

lemma no_empty_remove: "no_empty m \<Longrightarrow> no_empty (remove_from_set m k v)"
  unfolding no_empty_def by (auto simp: distinct_set_remove, auto simp: remove_from_set_def Let_def
      intro: inv_intros split: if_splits option.splits)

lemma leave_all_sets:
  "set (elems (rm_rooms (fold (room_leave c) rs rm)) r) = set (elems (rm_rooms rm) r) - (if r \<in> set rs then {c} else {})
   \<and> set (elems (rm_membership (fold (room_leave c) rs rm)) c') =
      set (elems (rm_membership rm) c') - (if c' = c then set rs else {})"
  by (induction rs arbitrary: rm) (auto simp: room_leave_def)

lemma rooms_ok_leave: "rooms_ok rm \<Longrightarrow> rooms_ok (room_leave c r rm)"
  by (auto simp: rooms_ok_def room_leave_def no_empty_remove)

lemma rooms_ok_leaves: "rooms_ok rm \<Longrightarrow> rooms_ok (fold (room_leave c) rs rm)"
  by (induction rs arbitrary: rm) (auto simp: rooms_ok_leave)

interpretation rooms: refines_machine room_step membership_step members rooms_ok
proof
  fix rm e
  assume ok: "rooms_ok rm"
  show "rooms_ok (room_step rm e)"
  proof (cases e)
    case (Join c r)
    with ok show ?thesis by (auto simp: rooms_ok_def room_join_def no_empty_add)
  qed (use ok in \<open>auto simp: rooms_ok_leave room_leave_all_def rooms_ok_leaves\<close>)
  show "members (room_step rm e) = membership_step (members rm) e"
  proof (cases e)
    case (LeaveAll c)
    with ok leave_all_sets [of c "elems (rm_membership rm) c" rm] show ?thesis
      by (auto simp: members_def room_members_def room_leave_all_def rooms_ok_def split: if_splits)
  qed (auto simp: members_def room_members_def room_join_def room_leave_def split: if_splits)
qed

lemma rooms_ok_new: "rooms_ok room_manager_new" "members room_manager_new = {}"
  by (auto simp: rooms_ok_def no_empty_def room_manager_new_def members_def room_members_def elems_def)

section \<open>Connections\<close>

record 'p ws_message =
  wm_type :: string
  wm_payload :: 'p
  wm_connection_id :: string
  wm_timestamp :: int

record auth_result =
  au_authenticated :: bool
  au_user_id :: "string option"
  au_roles :: "string list option"
  au_reason :: "string option"

type_synonym authenticator = "string \<Rightarrow> auth_result"

datatype connection_state = Connecting | Connected | Disconnected

text \<open>A connection; its handlers are named by numbers.\<close>

record ws_connection =
  wc_id :: string
  wc_authenticator :: "authenticator option"
  wc_handlers :: "(string, nat list) jsmap"
  wc_state :: connection_state
  wc_auth :: "auth_result option"

datatype 'p ws_effect =
  SocketSend string "'p ws_message" | SocketClose string | Handled nat "'p ws_message" | DisconnectHandled nat string

definition ws_connection_new :: "string \<Rightarrow> authenticator option \<Rightarrow> ws_connection" where
  "ws_connection_new i authenticator =
     \<lparr>wc_id = i, wc_authenticator = authenticator, wc_handlers = [], wc_state = Connected, wc_auth = None\<rparr>"

definition is_authenticated :: "ws_connection \<Rightarrow> bool" where
  "is_authenticated conn = (case wc_auth conn of Some r \<Rightarrow> au_authenticated r | None \<Rightarrow> False)"

definition connection_roles :: "ws_connection \<Rightarrow> string list" where
  "connection_roles conn =
     (case wc_auth conn of
        Some r \<Rightarrow> (case au_roles r of Some rs \<Rightarrow> rs | None \<Rightarrow> [])
      | None \<Rightarrow> [])"

definition conn_send :: "'p ws_message \<Rightarrow> ws_connection \<Rightarrow> 'p ws_effect list" where
  "conn_send msg conn = (if wc_state conn \<noteq> Connected then [] else [SocketSend (wc_id conn) msg])"

text \<open>\<open>parse\<close> is \<open>JSON.parse\<close> with the check that the result is an object with a string \<open>type\<close>.\<close>

definition conn_receive ::
  "(string \<Rightarrow> 'p ws_message option) \<Rightarrow> string \<Rightarrow> ws_connection \<Rightarrow> 'p ws_effect list" where
  "conn_receive parse data conn =
     (case parse data of
        None \<Rightarrow> []
      | Some msg \<Rightarrow>
          (case jget (wc_handlers conn) (wm_type msg) of
             None \<Rightarrow> []
           | Some hs \<Rightarrow> map (\<lambda>h. Handled h msg) hs))"

definition conn_authenticate :: "string \<Rightarrow> ws_connection \<Rightarrow> auth_result \<times> ws_connection" where
  "conn_authenticate token conn =
     (let result = (case wc_authenticator conn of
          None \<Rightarrow> \<lparr>au_authenticated = False, au_user_id = None, au_roles = None,
                    au_reason = Some ''No authenticator configured''\<rparr>
        | Some authenticator \<Rightarrow> authenticator token)
      in (result, conn\<lparr>wc_auth := Some result\<rparr>))"

definition conn_on :: "string \<Rightarrow> nat \<Rightarrow> ws_connection \<Rightarrow> ws_connection" where
  "conn_on ty h conn =
     (let s = (case jget (wc_handlers conn) ty of Some s \<Rightarrow> s | None \<Rightarrow> [])
      in conn\<lparr>wc_handlers := jset ty (set_add h s) (wc_handlers conn)\<rparr>)"

definition conn_off :: "string \<Rightarrow> nat \<Rightarrow> ws_connection \<Rightarrow> ws_connection" where
  "conn_off ty h conn =
     (case jget (wc_handlers conn) ty of
        None \<Rightarrow> conn
      | Some s \<Rightarrow> conn\<lparr>wc_handlers := jset ty (set_remove h s) (wc_handlers conn)\<rparr>)"

definition conn_disconnect :: "ws_connection \<Rightarrow> 'p ws_effect list \<times> ws_connection" where
  "conn_disconnect conn =
     (if wc_state conn = Disconnected then ([], conn)
      else ([SocketClose (wc_id conn)], conn\<lparr>wc_state := Disconnected\<rparr>))"

section \<open>The server\<close>

record ws_server =
  wss_authenticator :: "authenticator option"
  wss_connections :: "(string, ws_connection) jsmap"
  wss_rooms :: room_manager
  wss_disconnect_handlers :: "nat list"

definition ws_server_new :: "authenticator option \<Rightarrow> ws_server" where
  "ws_server_new authenticator =
     \<lparr>wss_authenticator = authenticator, wss_connections = [], wss_rooms = room_manager_new,
      wss_disconnect_handlers = []\<rparr>"

definition server_register :: "string \<Rightarrow> ws_server \<Rightarrow> ws_server" where
  "server_register i s =
     s\<lparr>wss_connections := jset i (ws_connection_new i (wss_authenticator s)) (wss_connections s)\<rparr>"

definition server_disconnect :: "string \<Rightarrow> ws_server \<Rightarrow> 'p ws_effect list \<times> ws_server" where
  "server_disconnect i s =
     (case jget (wss_connections s) i of
        None \<Rightarrow> ([], s)
      | Some conn \<Rightarrow>
          (fst (conn_disconnect conn) @ map (\<lambda>h. DisconnectHandled h i) (wss_disconnect_handlers s),
           s\<lparr>wss_connections := jdelete i (wss_connections s), wss_rooms := room_leave_all i (wss_rooms s)\<rparr>))"

definition send_to :: "string \<Rightarrow> 'p ws_message \<Rightarrow> ws_server \<Rightarrow> 'p ws_effect list" where
  "send_to i msg s = (case jget (wss_connections s) i of Some conn \<Rightarrow> conn_send msg conn | None \<Rightarrow> [])"

definition all_recipients :: "(string, ws_connection) jsmap \<Rightarrow> string option \<Rightarrow> ws_connection list" where
  "all_recipients conns exclude = map snd (filter (\<lambda>(i, conn). Some i \<noteq> exclude) conns)"

fun room_recipients ::
  "string list \<Rightarrow> (string, ws_connection) jsmap \<Rightarrow> string option \<Rightarrow> ws_connection list" where
  "room_recipients [] conns exclude = []"
| "room_recipients (i # ids) conns exclude =
     (if Some i = exclude then room_recipients ids conns exclude
      else case jget conns i of
          Some conn \<Rightarrow> conn # room_recipients ids conns exclude
        | None \<Rightarrow> room_recipients ids conns exclude)"

definition broadcast :: "'p ws_message \<Rightarrow> string option \<Rightarrow> string option \<Rightarrow> ws_server \<Rightarrow> 'p ws_effect list" where
  "broadcast msg room exclude s =
     (let recipients = (case room of
          None \<Rightarrow> all_recipients (wss_connections s) exclude
        | Some r \<Rightarrow> room_recipients (room_members (wss_rooms s) r) (wss_connections s) exclude)
      in concat (map (conn_send msg) recipients))"

definition server_authenticate :: "string \<Rightarrow> string \<Rightarrow> ws_server \<Rightarrow> auth_result \<times> ws_server" where
  "server_authenticate i token s =
     (case jget (wss_connections s) i of
        None \<Rightarrow> (\<lparr>au_authenticated = False, au_user_id = None, au_roles = None,
                    au_reason = Some ''Connection not found''\<rparr>, s)
      | Some conn \<Rightarrow>
          (case conn_authenticate token conn of
             (result, conn1) \<Rightarrow> (result, s\<lparr>wss_connections := jset i conn1 (wss_connections s)\<rparr>)))"

definition join_room :: "string \<Rightarrow> string \<Rightarrow> ws_server \<Rightarrow> ws_server" where
  "join_room i r s = s\<lparr>wss_rooms := room_join i r (wss_rooms s)\<rparr>"

definition leave_room :: "string \<Rightarrow> string \<Rightarrow> ws_server \<Rightarrow> ws_server" where
  "leave_room i r s = s\<lparr>wss_rooms := room_leave i r (wss_rooms s)\<rparr>"

definition on_disconnect :: "nat \<Rightarrow> ws_server \<Rightarrow> ws_server" where
  "on_disconnect h s = s\<lparr>wss_disconnect_handlers := set_add h (wss_disconnect_handlers s)\<rparr>"

text \<open>\<open>ConnDisconnect\<close> is a client that calls \<open>disconnect\<close> on the connection object itself.\<close>

datatype ws_op =
  Register string | Disconnect string | Authenticate string string | JoinRoom string string
| LeaveRoom string string | OnDisconnect nat | ConnDisconnect string

fun server_step :: "ws_server \<Rightarrow> ws_op \<Rightarrow> ws_server" where
  "server_step s (Register i) = server_register i s"
| "server_step s (Disconnect i) = snd (server_disconnect i s :: unit ws_effect list \<times> ws_server)"
| "server_step s (Authenticate i token) = snd (server_authenticate i token s)"
| "server_step s (JoinRoom i r) = join_room i r s"
| "server_step s (LeaveRoom i r) = leave_room i r s"
| "server_step s (OnDisconnect h) = on_disconnect h s"
| "server_step s (ConnDisconnect i) =
     (case jget (wss_connections s) i of
        None \<Rightarrow> s
      | Some conn \<Rightarrow>
          s\<lparr>wss_connections := jset i (snd (conn_disconnect conn :: unit ws_effect list \<times> ws_connection))
              (wss_connections s)\<rparr>)"

text \<open>Connections are filed under their own id, and the rooms are well-formed.\<close>

definition server_ok :: "ws_server \<Rightarrow> bool" where
  "server_ok s \<longleftrightarrow> rooms_ok (wss_rooms s) \<and> jwf (wss_connections s)
     \<and> (\<forall>i conn. jget (wss_connections s) i = Some conn \<longrightarrow> wc_id conn = i)"

lemma server_ok_new: "server_ok (ws_server_new authenticator)"
  by (simp add: server_ok_def ws_server_new_def rooms_ok_new)

interpretation server: invariant_machine server_step server_ok
proof
  fix s e
  assume ok: "server_ok s"
  then have rooms: "rooms_ok (room_step (wss_rooms s) op)" for op using rooms.inv_step by (simp add: server_ok_def)
  have ids: "jget (wss_connections s) i = Some conn \<Longrightarrow> wc_id conn = i" and wf: "jwf (wss_connections s)" for i conn
    using ok by (auto simp: server_ok_def simp del: map_of_eq_Some_iff)
  have set: "server_ok (s\<lparr>wss_connections := jset i conn (wss_connections s)\<rparr>)" if "wc_id conn = i" for i conn
    using ok that ids wf unfolding server_ok_def by (auto simp del: map_of_eq_Some_iff intro: inv_intros)
  show "server_ok (server_step s e)"
  proof (cases e)
    case (Register i)
    then show ?thesis by (simp add: server_register_def set ws_connection_new_def)
  next
    case (Disconnect i)
    have "rooms_ok (room_leave_all i (wss_rooms s))" using rooms [of "LeaveAll i"] by simp
    with ok ids wf Disconnect show ?thesis unfolding server_ok_def
      by (auto simp: server_disconnect_def simp del: map_of_eq_Some_iff intro: inv_intros split: option.splits)
  next
    case (Authenticate i token)
    then show ?thesis using ok
      by (auto simp: server_authenticate_def conn_authenticate_def Let_def ids intro!: set
          simp del: map_of_eq_Some_iff split: option.splits)
  next
    case (ConnDisconnect i)
    then show ?thesis using ok
      by (auto simp: conn_disconnect_def ids intro!: set simp del: map_of_eq_Some_iff split: option.splits)
  next
    case (JoinRoom i r)
    with ok rooms [of "Join i r"] show ?thesis unfolding server_ok_def by (simp add: join_room_def)
  next
    case (LeaveRoom i r)
    with ok rooms [of "Leave i r"] show ?thesis unfolding server_ok_def by (simp add: leave_room_def)
  qed (use ok in \<open>auto simp: server_ok_def on_disconnect_def\<close>)
qed

text \<open>Who a broadcast reaches.\<close>

definition is_connected :: "ws_server \<Rightarrow> string \<Rightarrow> bool" where
  "is_connected s i = (case jget (wss_connections s) i of Some conn \<Rightarrow> wc_state conn = Connected | None \<Rightarrow> False)"

lemma sends_of_recipients:
  assumes "\<And>conn. conn \<in> set recipients \<Longrightarrow> jget conns (wc_id conn) = Some conn"
  shows "concat (map (conn_send msg) recipients) =
    map (\<lambda>i. SocketSend i msg)
      (filter (\<lambda>i. case jget conns i of Some conn \<Rightarrow> wc_state conn = Connected | None \<Rightarrow> False) (map wc_id recipients))"
  using assms by (induction recipients) (auto simp: conn_send_def)

lemma room_recipients_ids:
  assumes "\<And>i conn. jget conns i = Some conn \<Longrightarrow> wc_id conn = i"
  shows "map wc_id (room_recipients ids conns exclude) = filter (\<lambda>i. Some i \<noteq> exclude \<and> jget conns i \<noteq> None) ids"
proof (induction ids)
  case (Cons i ids)
  with assms [of i] show ?case by (cases "jget conns i") auto
qed simp

lemma room_recipients_found:
  assumes "\<And>i conn. jget conns i = Some conn \<Longrightarrow> wc_id conn = i"
  shows "conn \<in> set (room_recipients ids conns exclude) \<Longrightarrow> jget conns (wc_id conn) = Some conn"
proof (induction ids)
  case (Cons i ids)
  with assms [of i] show ?case by (cases "jget conns i") (auto split: if_splits)
qed simp

section \<open>Reconnection\<close>

datatype reconnection_strategy = FixedDelay | ExponentialDelay | LinearDelay

record reconnection_config =
  rc_strategy :: reconnection_strategy
  rc_max_attempts :: int
  rc_base_delay_ms :: rat
  rc_max_delay_ms :: "rat option"

definition rc_should_retry :: "reconnection_config \<Rightarrow> int \<Rightarrow> bool" where
  "rc_should_retry cfg attempt = (if rc_max_attempts cfg = 0 then True else attempt < rc_max_attempts cfg)"

text \<open>\<open>Math.pow(2, n)\<close> for an integer.\<close>

definition pow2 :: "int \<Rightarrow> rat" where
  "pow2 n = (if n \<ge> 0 then 2 ^ nat n else 1 / 2 ^ nat (- n))"

definition next_delay :: "reconnection_config \<Rightarrow> int \<Rightarrow> rat" where
  "next_delay cfg attempt =
     (let max_delay = (case rc_max_delay_ms cfg of Some d \<Rightarrow> d | None \<Rightarrow> 30000)
      in if rc_strategy cfg = FixedDelay then rc_base_delay_ms cfg
         else if rc_strategy cfg = LinearDelay then of_int attempt * rc_base_delay_ms cfg
         else min (rc_base_delay_ms cfg * pow2 (attempt - 1)) max_delay)"

text \<open>The handler is its configuration and its attempt counter.\<close>

definition rc_schedule :: "reconnection_config \<Rightarrow> int \<Rightarrow> rat \<times> int" where
  "rc_schedule cfg attempts = (next_delay cfg (attempts + 1), attempts + 1)"

definition rc_can_retry :: "reconnection_config \<Rightarrow> int \<Rightarrow> bool" where
  "rc_can_retry cfg attempts = rc_should_retry cfg attempts"

definition rc_reset :: "int \<Rightarrow> int" where
  "rc_reset attempts = 0"

text \<open>A client that schedules attempts for as long as it may: the delays, at most as many as the fuel.\<close>

fun reconnect_delays :: "reconnection_config \<Rightarrow> nat \<Rightarrow> int \<Rightarrow> rat list" where
  "reconnect_delays cfg 0 attempts = []"
| "reconnect_delays cfg (Suc n) attempts =
     (if rc_can_retry cfg attempts
      then (case rc_schedule cfg attempts of (d, attempts1) \<Rightarrow> d # reconnect_delays cfg n attempts1)
      else [])"

lemma reconnect_delays_nth:
  "rc_max_attempts cfg > 0 \<Longrightarrow> 0 \<le> k \<Longrightarrow>
   reconnect_delays cfg n k =
     map (\<lambda>j. next_delay cfg (k + 1 + int j)) [0..<min n (nat (rc_max_attempts cfg - k))]"
proof (induction n arbitrary: k)
  case (Suc n)
  show ?case
  proof (cases "k < rc_max_attempts cfg")
    case True
    then have "nat (rc_max_attempts cfg - k) = Suc (nat (rc_max_attempts cfg - (k + 1)))" by simp
    with True Suc.IH [of "k + 1"] Suc.prems show ?thesis
      by (simp add: rc_can_retry_def rc_should_retry_def rc_schedule_def map_upt_Suc algebra_simps del: upt_Suc)
  next
    case False
    with Suc.prems show ?thesis by (simp add: rc_can_retry_def rc_should_retry_def)
  qed
qed simp

lemma pow2_power_int: "pow2 n = power_int 2 n"
  by (simp add: pow2_def power_int_def inverse_eq_divide power_one_over)

lemma pow2_mono: "m \<le> n \<Longrightarrow> pow2 m \<le> pow2 n"
  by (simp add: pow2_power_int power_int_increasing)

lemma next_delay_mono:
  "0 \<le> rc_base_delay_ms cfg \<Longrightarrow> j \<le> k \<Longrightarrow> next_delay cfg j \<le> next_delay cfg k"
proof -
  assume *: "0 \<le> rc_base_delay_ms cfg" "j \<le> k"
  then have "rc_base_delay_ms cfg * pow2 (j - 1) \<le> rc_base_delay_ms cfg * pow2 (k - 1)"
    by (intro mult_left_mono pow2_mono) auto
  then have "min (rc_base_delay_ms cfg * pow2 (j - 1)) d \<le> min (rc_base_delay_ms cfg * pow2 (k - 1)) d" for d
    by (rule min.mono [OF _ order.refl])
  with * show ?thesis by (auto simp: next_delay_def Let_def intro: mult_right_mono)
qed

section \<open>Properties\<close>

text \<open>
  Rooms.  After any sequence of joins and leaves the rooms hold exactly the relation those build,
  each member once; the index by connection is its inverse, and empty rooms are gone.
\<close>

theorem rooms_are_a_relation:
  fixes ops
  defines "rm \<equiv> foldl room_step room_manager_new ops"
  shows "{(c, r). c \<in> set (room_members rm r)} = foldl membership_step {} ops
    \<and> {(c, r). r \<in> set (connection_rooms rm c)} = foldl membership_step {} ops
    \<and> set (room_ids rm) = snd ` foldl membership_step {} ops
    \<and> (\<forall>r. distinct (room_members rm r))"
proof -
  from rooms.abs_run [OF rooms_ok_new(1), of ops] rooms_ok_new(2)
  have m: "members rm = foldl membership_step {} ops" and ok: "rooms_ok rm" by (auto simp: rm_def)
  have "r \<in> set (room_ids rm) \<longleftrightarrow> (\<exists>c. c \<in> set (elems (rm_rooms rm) r))" for r
  proof -
    have "jget (rm_rooms rm) r \<noteq> Some []" using ok by (simp add: rooms_ok_def no_empty_def del: map_of_eq_Some_iff)
    moreover have "r \<in> set (room_ids rm) \<longleftrightarrow> jget (rm_rooms rm) r \<noteq> None"
      by (simp only: room_ids_def jhas_keys [symmetric] jhas_def)
    ultimately show ?thesis
      by (cases "jget (rm_rooms rm) r") (auto simp: elems_def neq_Nil_conv simp del: map_of_eq_Some_iff)
  qed
  then have "set (room_ids rm) = snd ` members rm" by (force simp: members_def room_members_def)
  with m ok show ?thesis
    by (auto simp: members_def room_members_def connection_rooms_def rooms_ok_def no_empty_def)
qed

text \<open>
  Broadcast.  In every reachable state of the server a broadcast is sent, once each, to exactly the
  connections that are registered and open, are in the room when one is named, and are not the
  excluded one; nothing else happens.
\<close>

theorem broadcast_reaches:
  fixes ops authenticator
  defines "s \<equiv> foldl server_step (ws_server_new authenticator) ops"
  shows "\<exists>ids. broadcast msg room exclude s = map (\<lambda>i. SocketSend i msg) ids \<and> distinct ids
    \<and> set ids = {i. is_connected s i \<and> Some i \<noteq> exclude \<and> (case room of None \<Rightarrow> True | Some r \<Rightarrow> is_member (wss_rooms s) i r)}"
proof -
  let ?conns = "wss_connections s"
  let ?open = "\<lambda>i. case jget ?conns i of Some conn \<Rightarrow> wc_state conn = Connected | None \<Rightarrow> False"
  have ok: "server_ok s" unfolding s_def by (rule server.run_keeps [OF server_ok_new])
  then have ids: "\<And>i conn. jget ?conns i = Some conn \<Longrightarrow> wc_id conn = i" and wf: "jwf ?conns"
    by (auto simp: server_ok_def simp del: map_of_eq_Some_iff)
  show ?thesis
  proof (cases room)
    case None
    let ?recipients = "all_recipients ?conns exclude"
    have rec: "jget ?conns (wc_id conn) = Some conn" if "conn \<in> set ?recipients" for conn
    proof -
      from that obtain i where "(i, conn) \<in> set ?conns" by (auto simp: all_recipients_def)
      then have "jget ?conns i = Some conn" using wf by simp
      with ids show ?thesis by blast
    qed
    have "map wc_id (map snd (filter (\<lambda>(i, conn). Some i \<noteq> exclude) m)) = filter (\<lambda>i. Some i \<noteq> exclude) (jkeys m)"
      if "set m \<subseteq> set ?conns" for m
      using that ids wf by (induction m) auto
    then have keys: "map wc_id ?recipients = filter (\<lambda>i. Some i \<noteq> exclude) (jkeys ?conns)"
      by (simp add: all_recipients_def)
    have keyset: "fst ` set ?conns = {i. jget ?conns i \<noteq> None}"
      unfolding dom_map_of_conv_image_fst [symmetric] dom_def by simp
    have "broadcast msg room exclude s = map (\<lambda>i. SocketSend i msg) (filter ?open (map wc_id ?recipients))"
      by (simp only: broadcast_def None Let_def option.case sends_of_recipients [OF rec])
    moreover have "set (filter ?open (map wc_id ?recipients)) = {i. is_connected s i \<and> Some i \<noteq> exclude}"
      unfolding keys by (auto simp: keyset is_connected_def simp del: map_of_eq_Some_iff split: option.splits)
    moreover have "distinct (filter ?open (map wc_id ?recipients))" unfolding keys using wf by simp
    ultimately show ?thesis unfolding None option.case simp_thms by blast
  next
    case (Some r)
    let ?recipients = "room_recipients (room_members (wss_rooms s) r) ?conns exclude"
    have dist: "distinct (room_members (wss_rooms s) r)"
      using ok by (simp add: server_ok_def rooms_ok_def no_empty_def room_members_def)
    have mem: "i \<in> set (room_members (wss_rooms s) r) \<longleftrightarrow> is_member (wss_rooms s) i r" for i
      by (simp add: room_members_def is_member_def elems_def split: option.split)
    have rids: "map wc_id ?recipients =
        filter (\<lambda>i. Some i \<noteq> exclude \<and> jget ?conns i \<noteq> None) (room_members (wss_rooms s) r)"
      by (rule room_recipients_ids [OF ids])
    have "broadcast msg room exclude s = map (\<lambda>i. SocketSend i msg) (filter ?open (map wc_id ?recipients))"
      by (simp only: broadcast_def Some Let_def option.case sends_of_recipients [OF room_recipients_found [OF ids]])
    moreover have "set (filter ?open (map wc_id ?recipients)) =
        {i. is_connected s i \<and> Some i \<noteq> exclude \<and> is_member (wss_rooms s) i r}"
      unfolding rids
      by (auto simp: mem is_connected_def simp del: map_of_eq_Some_iff split: option.splits)
    moreover have "distinct (filter ?open (map wc_id ?recipients))"
      unfolding rids using dist by simp
    ultimately show ?thesis unfolding Some option.case by blast
  qed
qed

text \<open>
  Disconnection.  Disconnecting a registered connection closes its socket if it was open, tells
  every disconnect handler, forgets the connection and takes it out of every room; other
  connections and their memberships are as before.
\<close>

theorem disconnect_purges:
  fixes ops authenticator
  defines "s \<equiv> foldl server_step (ws_server_new authenticator) ops"
  assumes "jget (wss_connections s) i = Some conn" and "server_disconnect i s = (effects, s1)"
  shows "effects = (if wc_state conn = Disconnected then [] else [SocketClose i])
        @ map (\<lambda>h. DisconnectHandled h i) (wss_disconnect_handlers s)
    \<and> jget (wss_connections s1) j = (if j = i then None else jget (wss_connections s) j)
    \<and> members (wss_rooms s1) = {p \<in> members (wss_rooms s). fst p \<noteq> i}"
proof -
  have ok: "server_ok s" unfolding s_def by (rule server.run_keeps [OF server_ok_new])
  then have "wc_id conn = i" using assms(2) by (simp add: server_ok_def del: map_of_eq_Some_iff)
  moreover have "members (room_leave_all i (wss_rooms s)) = {p \<in> members (wss_rooms s). fst p \<noteq> i}"
    using rooms.abs_step [of "wss_rooms s" "LeaveAll i"] ok by (simp add: server_ok_def)
  moreover have "effects = fst (conn_disconnect conn) @ map (\<lambda>h. DisconnectHandled h i) (wss_disconnect_handlers s)"
    and "s1 = s\<lparr>wss_connections := jdelete i (wss_connections s), wss_rooms := room_leave_all i (wss_rooms s)\<rparr>"
    using assms(2,3) by (simp_all add: server_disconnect_def del: map_of_eq_Some_iff)
  ultimately show ?thesis by (simp add: conn_disconnect_def)
qed

theorem disconnect_purges_witness:
  "jget (wss_connections (snd (server_disconnect ''a'' (foldl server_step (ws_server_new None)
      [Register ''a'', Register ''b'', JoinRoom ''a'' ''r'']) :: unit ws_effect list \<times> ws_server))) ''a'' = None"
proof -
  let ?s = "foldl server_step (ws_server_new None) [Register ''a'', Register ''b'', JoinRoom ''a'' ''r'']"
  obtain conn where "jget (wss_connections ?s) ''a'' = Some conn"
    by (simp add: server_register_def join_room_def ws_server_new_def)
  moreover obtain effects s1 where s1: "(server_disconnect ''a'' ?s :: unit ws_effect list \<times> ws_server) = (effects, s1)"
    by fastforce
  ultimately have "jget (wss_connections s1) ''a'' = None" using disconnect_purges [OF _ s1, of conn "''a''"] by simp
  with s1 show ?thesis by simp
qed

text \<open>
  Ghost members.  A connection that is not registered can be put in a room, and disconnecting it
  does not take it out.
\<close>

theorem ghost_member_stays:
  assumes "jget (wss_connections s) i = None"
  shows "is_member (wss_rooms (server_step (server_step s (JoinRoom i r)) (Disconnect i))) i r"
  using assms by (auto simp: join_room_def server_disconnect_def room_join_def is_member_def add_to_set_def Let_def)

theorem ghost_member_stays_witness:
  "is_member (wss_rooms (server_step (server_step (ws_server_new None) (JoinRoom ''a'' ''r'')) (Disconnect ''a''))) ''a'' ''r''"
  by (rule ghost_member_stays) (simp add: ws_server_new_def)

text \<open>
  Reconnection.  A client with a limit makes exactly that many attempts; their delays never
  decrease, and with the exponential strategy never exceed the maximum delay.
\<close>

theorem reconnect_delays_bounded:
  assumes "0 < rc_max_attempts cfg" "0 \<le> rc_base_delay_ms cfg" "rc_max_attempts cfg \<le> int n"
  shows "int (length (reconnect_delays cfg n 0)) = rc_max_attempts cfg
    \<and> sorted (reconnect_delays cfg n 0)
    \<and> (rc_strategy cfg = ExponentialDelay \<longrightarrow>
        (\<forall>d \<in> set (reconnect_delays cfg n 0). d \<le> (case rc_max_delay_ms cfg of Some d \<Rightarrow> d | None \<Rightarrow> 30000)))"
proof -
  let ?k = "nat (rc_max_attempts cfg)"
  have ds: "reconnect_delays cfg n 0 = map (\<lambda>j. next_delay cfg (1 + int j)) [0..<?k]"
    using reconnect_delays_nth [of cfg 0 n] assms by (simp add: min_absorb2)
  have "sorted (map (\<lambda>j. next_delay cfg (1 + int j)) [0..<?k])"
    unfolding sorted_map by (rule sorted_wrt_mono_rel [OF _ sorted_wrt_upt]) (auto intro: next_delay_mono assms(2))
  with ds assms(1) show ?thesis by (auto simp: next_delay_def Let_def)
qed

theorem reconnect_delays_bounded_witness:
  "int (length (reconnect_delays \<lparr>rc_strategy = ExponentialDelay, rc_max_attempts = 5, rc_base_delay_ms = 1000,
      rc_max_delay_ms = Some 5000\<rparr> 5 0)) = 5"
  using reconnect_delays_bounded [of "\<lparr>rc_strategy = ExponentialDelay, rc_max_attempts = 5, rc_base_delay_ms = 1000,
      rc_max_delay_ms = Some 5000\<rparr>" 5] by simp

end
