(* ===== verification/Discovery.thy ===== *)
theory Discovery
  imports Prelude
begin

text \<open>
  Service discovery (\<open>packages/discovery/src\<close>): the in-memory registry with its watchers, the load
  balancers and the health checker.  Watchers and change handlers are named by numbers; an operation
  returns the notifications it makes, in order.  A health check takes effect when its function has
  answered.
\<close>

section \<open>The registry\<close>

datatype health_status = Healthy | Unhealthy | UnknownHealth

record service_instance =
  si_id :: string
  si_name :: string
  si_host :: string
  si_port :: int
  si_tags :: "string list option"
  si_metadata :: "(string, string) jsmap option"
  si_health :: health_status
  si_registered_at :: int
  si_last_checked_at :: "int option"

record discovery_options =
  do_healthy_only :: "bool option"
  do_tags :: "string list option"

record service_registry =
  sr_instances :: "(string, service_instance) jsmap"
  sr_watchers :: "(string, nat list) jsmap"

definition service_registry_new :: service_registry where
  "service_registry_new = \<lparr>sr_instances = [], sr_watchers = []\<rparr>"

definition discover :: "string \<Rightarrow> discovery_options \<Rightarrow> service_registry \<Rightarrow> service_instance list" where
  "discover name opts r =
     (let results = filter (\<lambda>i. si_name i = name) (jvalues (sr_instances r));
          results = (if do_healthy_only opts = Some True
                     then filter (\<lambda>i. si_health i = Healthy) results else results)
      in case do_tags opts of
           Some tags \<Rightarrow>
             (if length tags > 0
              then filter (\<lambda>i. list_all (\<lambda>tag. case si_tags i of Some ts \<Rightarrow> tag \<in> set ts | None \<Rightarrow> False) tags) results
              else results)
         | None \<Rightarrow> results)"

definition discover_all :: "string \<Rightarrow> service_registry \<Rightarrow> service_instance list" where
  "discover_all name r = discover name \<lparr>do_healthy_only = None, do_tags = None\<rparr> r"

definition get_healthy :: "string \<Rightarrow> service_registry \<Rightarrow> service_instance list" where
  "get_healthy name r = discover name \<lparr>do_healthy_only = Some True, do_tags = None\<rparr> r"

type_synonym notification = "nat \<times> string \<times> service_instance list"

definition notify_watchers :: "string \<Rightarrow> service_registry \<Rightarrow> notification list" where
  "notify_watchers name r =
     (case jget (sr_watchers r) name of
        None \<Rightarrow> []
      | Some handlers \<Rightarrow> let current = discover_all name r in map (\<lambda>h. (h, name, current)) handlers)"

definition service_register ::
  "int \<Rightarrow> service_instance \<Rightarrow> service_registry \<Rightarrow> notification list \<times> service_registry" where
  "service_register now i r =
     (let registered = i\<lparr>si_registered_at := now\<rparr>;
          r1 = r\<lparr>sr_instances := jset (si_id i) registered (sr_instances r)\<rparr>
      in (notify_watchers (si_name i) r1, r1))"

definition deregister :: "string \<Rightarrow> service_registry \<Rightarrow> bool \<times> notification list \<times> service_registry" where
  "deregister iid r =
     (case jget (sr_instances r) iid of
        None \<Rightarrow> (False, [], r)
      | Some i \<Rightarrow>
          let r1 = r\<lparr>sr_instances := jdelete iid (sr_instances r)\<rparr>
          in (True, notify_watchers (si_name i) r1, r1))"

definition update_health ::
  "int \<Rightarrow> string \<Rightarrow> health_status \<Rightarrow> service_registry \<Rightarrow> bool \<times> notification list \<times> service_registry" where
  "update_health now iid health r =
     (case jget (sr_instances r) iid of
        None \<Rightarrow> (False, [], r)
      | Some i \<Rightarrow>
          let r1 = r\<lparr>sr_instances := jset iid (i\<lparr>si_health := health, si_last_checked_at := Some now\<rparr>) (sr_instances r)\<rparr>
          in (True, notify_watchers (si_name i) r1, r1))"

definition watch :: "string \<Rightarrow> nat \<Rightarrow> service_registry \<Rightarrow> service_registry" where
  "watch name h r = r\<lparr>sr_watchers := jset name (set_add h (elems (sr_watchers r) name)) (sr_watchers r)\<rparr>"

definition unwatch :: "string \<Rightarrow> nat \<Rightarrow> service_registry \<Rightarrow> service_registry" where
  "unwatch name h r =
     (case jget (sr_watchers r) name of
        None \<Rightarrow> r
      | Some hs \<Rightarrow> r\<lparr>sr_watchers := jset name (set_remove h hs) (sr_watchers r)\<rparr>)"

definition instance_count :: "service_registry \<Rightarrow> int" where
  "instance_count r = jsize (sr_instances r)"

datatype discovery_op =
  RegisterService int service_instance | Deregister string | UpdateHealth int string health_status
| Watch string nat | Unwatch string nat

fun registry_step :: "service_registry \<Rightarrow> discovery_op \<Rightarrow> notification list \<times> service_registry" where
  "registry_step r (RegisterService now i) = service_register now i r"
| "registry_step r (Deregister iid) = snd (deregister iid r)"
| "registry_step r (UpdateHealth now iid h) = snd (update_health now iid h r)"
| "registry_step r (Watch name h) = ([], watch name h r)"
| "registry_step r (Unwatch name h) = ([], unwatch name h r)"

fun registry_run :: "service_registry \<Rightarrow> discovery_op list \<Rightarrow> notification list \<times> service_registry" where
  "registry_run r [] = ([], r)"
| "registry_run r (e # es) =
     (case registry_step r e of (ns, r1) \<Rightarrow> case registry_run r1 es of (ns2, r2) \<Rightarrow> (ns @ ns2, r2))"

subsection \<open>Watchers are kept up to date\<close>

text \<open>What a watcher knows of a service: the last list it was told, at first the one it started with.\<close>

definition last_told :: "nat \<Rightarrow> string \<Rightarrow> service_instance list \<Rightarrow> notification list \<Rightarrow> service_instance list" where
  "last_told h name start ns =
     foldl (\<lambda>known n. if fst n = h \<and> fst (snd n) = name then snd (snd n) else known) start ns"

lemma last_told_append [simp]: "last_told h name start (ns @ ms) = last_told h name (last_told h name start ns) ms"
  by (simp add: last_told_def)

lemma last_told_notify:
  "last_told h name start (map (\<lambda>h'. (h', n, l)) hs) = (if n = name \<and> h \<in> set hs then l else start)"
  unfolding last_told_def by (induction hs arbitrary: start) auto

text \<open>No instance is registered again under another name.\<close>

fun keeps_names :: "service_registry \<Rightarrow> discovery_op list \<Rightarrow> bool" where
  "keeps_names r [] = True"
| "keeps_names r (e # es) =
     ((case e of
         RegisterService now i \<Rightarrow>
           (case jget (sr_instances r) (si_id i) of Some old \<Rightarrow> si_name old = si_name i | None \<Rightarrow> True)
       | _ \<Rightarrow> True)
      \<and> keeps_names (snd (registry_step r e)) es)"

definition watches :: "service_registry \<Rightarrow> nat \<Rightarrow> string \<Rightarrow> bool" where
  "watches r h name \<longleftrightarrow> h \<in> set (elems (sr_watchers r) name)"

lemma notify_watchers_elems:
  "notify_watchers name r = map (\<lambda>h. (h, name, discover_all name r)) (elems (sr_watchers r) name)"
  by (simp add: notify_watchers_def elems_def Let_def split: option.split)

lemma discover_all_eq: "discover_all name r = filter (\<lambda>i. si_name i = name) (jvalues (sr_instances r))"
  by (simp add: discover_all_def discover_def)

lemma filter_jset_other:
  "jwf m \<Longrightarrow> \<not> p v \<Longrightarrow> (\<And>old. jget m k = Some old \<Longrightarrow> \<not> p old) \<Longrightarrow>
   filter p (jvalues (jset k v m)) = filter p (jvalues m)"
proof (induction m)
  case (Cons e m)
  obtain k' v' where e: "e = (k', v')" by fastforce
  show ?case
  proof (cases "k' = k")
    case True
    with Cons.prems(2) Cons.prems(3) [of v'] e show ?thesis by simp
  next
    case False
    with Cons e show ?thesis by (simp del: map_of_eq_Some_iff)
  qed
qed simp

lemma filter_jdelete_other:
  "jwf m \<Longrightarrow> (\<And>old. jget m k = Some old \<Longrightarrow> \<not> p old) \<Longrightarrow>
   filter p (jvalues (jdelete k m)) = filter p (jvalues m)"
proof (induction m)
  case (Cons e m)
  obtain k' v' where e: "e = (k', v')" by fastforce
  show ?case
  proof (cases "k' = k")
    case True
    with Cons.prems(1) e have "\<not> jhas m k" by (simp add: jhas_keys)
    then have "jdelete k m = m" by (force simp: AList.delete_eq jhas_keys filter_id_conv)
    with True Cons.prems(2) [of v'] e show ?thesis by simp
  next
    case False
    with Cons e show ?thesis by (simp del: map_of_eq_Some_iff)
  qed
qed simp

lemma registry_step_wf: "jwf (sr_instances r) \<Longrightarrow> jwf (sr_instances (snd (registry_step r e)))"
  by (cases e) (auto simp: service_register_def deregister_def update_health_def watch_def unwatch_def Let_def
      intro: inv_intros split: option.split)

lemma registry_step_told:
  assumes "jwf (sr_instances r)" "watches r h name" "keeps_names r [e]" "registry_step r e = (ns, r1)"
  shows "last_told h name (discover_all name r) ns = discover_all name r1"
proof (cases e)
  case (RegisterService now i)
  have *: "ns = notify_watchers (si_name i) r1" "sr_watchers r1 = sr_watchers r"
    "sr_instances r1 = jset (si_id i) (i\<lparr>si_registered_at := now\<rparr>) (sr_instances r)"
    using assms(4) RegisterService by (auto simp: service_register_def Let_def)
  show ?thesis
  proof (cases "si_name i = name")
    case True
    with * assms(2) show ?thesis by (simp add: notify_watchers_elems last_told_notify watches_def)
  next
    case False
    then have "discover_all name r1 = discover_all name r"
      using assms(1,3) RegisterService unfolding discover_all_eq *(3)
      by (intro filter_jset_other) (auto simp del: map_of_eq_Some_iff split: option.splits)
    with * False show ?thesis by (simp add: notify_watchers_elems last_told_notify)
  qed
next
  case (Deregister iid)
  show ?thesis
  proof (cases "jget (sr_instances r) iid")
    case None
    with assms(4) Deregister show ?thesis by (simp add: deregister_def last_told_def)
  next
    case (Some i)
    with assms(4) Deregister have *: "ns = notify_watchers (si_name i) r1" "sr_watchers r1 = sr_watchers r"
      "sr_instances r1 = jdelete iid (sr_instances r)" by (auto simp: deregister_def Let_def)
    have "si_name i \<noteq> name \<Longrightarrow> discover_all name r1 = discover_all name r"
      using assms(1) Some unfolding discover_all_eq *(3) by (intro filter_jdelete_other) auto
    with * assms(2) show ?thesis by (auto simp: notify_watchers_elems last_told_notify watches_def)
  qed
next
  case (UpdateHealth now iid health)
  show ?thesis
  proof (cases "jget (sr_instances r) iid")
    case None
    with assms(4) UpdateHealth show ?thesis by (simp add: update_health_def last_told_def)
  next
    case (Some i)
    with assms(4) UpdateHealth have *: "ns = notify_watchers (si_name i) r1" "sr_watchers r1 = sr_watchers r"
      "sr_instances r1 = jset iid (i\<lparr>si_health := health, si_last_checked_at := Some now\<rparr>) (sr_instances r)"
      by (auto simp: update_health_def Let_def)
    have "si_name i \<noteq> name \<Longrightarrow> discover_all name r1 = discover_all name r"
      using assms(1) Some unfolding discover_all_eq *(3) by (intro filter_jset_other) auto
    with * assms(2) show ?thesis by (auto simp: notify_watchers_elems last_told_notify watches_def)
  qed
qed (use assms(4) in \<open>auto simp: watch_def unwatch_def last_told_def discover_all_eq split: option.splits\<close>)

lemma registry_step_watches:
  "watches r h name \<Longrightarrow> e \<noteq> Unwatch name h \<Longrightarrow> watches (snd (registry_step r e)) h name"
  by (cases e) (auto simp: watches_def service_register_def deregister_def update_health_def watch_def unwatch_def
      Let_def elems_def set_add_def set_remove_def split: option.splits)

lemma registry_run_told:
  assumes "jwf (sr_instances r)" "watches r h name" "keeps_names r es" "Unwatch name h \<notin> set es"
  shows "last_told h name (discover_all name r) (fst (registry_run r es)) = discover_all name (snd (registry_run r es))"
  using assms
proof (induction es arbitrary: r)
  case (Cons e es)
  obtain ns r1 where s: "registry_step r e = (ns, r1)" by fastforce
  have "last_told h name (discover_all name r) ns = discover_all name r1"
    using registry_step_told [OF Cons.prems(1,2) _ s] Cons.prems(3) by simp
  moreover have "jwf (sr_instances r1)" "watches r1 h name" "keeps_names r1 es"
    using registry_step_wf [OF Cons.prems(1), of e] registry_step_watches [OF Cons.prems(2), of e] Cons.prems(3,4) s
    by auto
  ultimately show ?case using Cons.IH [of r1] Cons.prems(4) s by (auto split: prod.split)
qed (simp add: last_told_def)

section \<open>Load balancers\<close>

definition round_robin_next :: "'i list \<Rightarrow> nat \<Rightarrow> 'i option \<times> nat" where
  "round_robin_next instances index =
     (if length instances = 0 then (None, index)
      else (Some (instances ! (index mod length instances)), (index + 1) mod length instances))"

text \<open>\<open>r\<close> is what \<open>Math.random()\<close> returns.\<close>

definition random_next :: "rat \<Rightarrow> 'i list \<Rightarrow> 'i option" where
  "random_next r instances =
     (if length instances = 0 then None
      else let idx = \<lfloor>r * of_nat (length instances)\<rfloor>
           in if 0 \<le> idx \<and> idx < int (length instances) then Some (instances ! nat idx) else None)"

definition connections_of :: "(string, int) jsmap \<Rightarrow> string \<Rightarrow> int" where
  "connections_of conns i = (case jget conns i of Some n \<Rightarrow> n | None \<Rightarrow> 0)"

fun least_loop :: "(string, int) jsmap \<Rightarrow> service_instance list \<Rightarrow> service_instance \<Rightarrow> int \<Rightarrow> service_instance" where
  "least_loop conns [] chosen min_conns = chosen"
| "least_loop conns (inst # rest) chosen min_conns =
     (let c = connections_of conns (si_id inst)
      in if c < min_conns then least_loop conns rest inst c else least_loop conns rest chosen min_conns)"

definition least_connections_next ::
  "service_instance list \<Rightarrow> (string, int) jsmap \<Rightarrow> service_instance option \<times> (string, int) jsmap" where
  "least_connections_next instances conns =
     (case instances of
        [] \<Rightarrow> (None, conns)
      | i # rest \<Rightarrow>
          let chosen = least_loop conns rest i (connections_of conns (si_id i))
          in (Some chosen, jset (si_id chosen) (connections_of conns (si_id chosen) + 1) conns))"

definition least_release :: "string \<Rightarrow> (string, int) jsmap \<Rightarrow> (string, int) jsmap" where
  "least_release iid conns =
     (let current = connections_of conns iid in if current > 0 then jset iid (current - 1) conns else conns)"

fun round_robin_picks :: "'i list \<Rightarrow> nat \<Rightarrow> nat \<Rightarrow> 'i option list" where
  "round_robin_picks instances 0 index = []"
| "round_robin_picks instances (Suc k) index =
     (case round_robin_next instances index of (i, index1) \<Rightarrow> i # round_robin_picks instances k index1)"

lemma round_robin_picks_eq:
  "instances \<noteq> [] \<Longrightarrow> round_robin_picks instances k (index mod length instances) =
     map (\<lambda>j. Some (instances ! ((index + j) mod length instances))) [0..<k]"
proof (induction k arbitrary: index)
  case (Suc k)
  from Suc.IH [of "Suc index"] Suc.prems show ?case
    by (simp add: round_robin_next_def mod_Suc_eq map_upt_Suc del: upt_Suc)
qed simp

lemma least_loop_min:
  "least_loop conns rest chosen m \<in> set (chosen # rest)
   \<and> (m = connections_of conns (si_id chosen) \<longrightarrow>
      (\<forall>i \<in> set (chosen # rest). connections_of conns (si_id (least_loop conns rest chosen m)) \<le> connections_of conns (si_id i)))"
proof (induction rest arbitrary: chosen m)
  case (Cons i rest)
  show ?case
  proof (cases "connections_of conns (si_id i) < m")
    case True
    with Cons [of i "connections_of conns (si_id i)"] show ?thesis by (auto simp: Let_def)
  next
    case False
    with Cons [of chosen m] show ?thesis by (auto simp: Let_def)
  qed
qed simp

datatype balancer_op = Pick "service_instance list" | Release string

fun balancer_step :: "(string, int) jsmap \<Rightarrow> balancer_op \<Rightarrow> (string, int) jsmap" where
  "balancer_step conns (Pick instances) = snd (least_connections_next instances conns)"
| "balancer_step conns (Release iid) = least_release iid conns"

lemma balancer_nonneg: "\<forall>i. 0 \<le> connections_of conns i \<Longrightarrow> \<forall>i. 0 \<le> connections_of (balancer_step conns op) i"
  by (cases op) (auto simp: least_connections_next_def least_release_def connections_of_def Let_def split: list.split)

interpretation balancer: invariant_machine balancer_step "\<lambda>conns. \<forall>i. 0 \<le> connections_of conns i"
  by unfold_locales (rule balancer_nonneg)

section \<open>Health checks\<close>

record health_check_entry =
  hc_service_name :: string
  hc_interval_ms :: int
  hc_consecutive_failures :: int
  hc_status :: health_status

text \<open>The checker: its checks, the change handlers, and the instances that are polled.\<close>

record health_checker =
  hk_checks :: "(string, health_check_entry) jsmap"
  hk_handlers :: "nat list"
  hk_timers :: "(string, int) jsmap"

definition health_checker_new :: health_checker where
  "health_checker_new = \<lparr>hk_checks = [], hk_handlers = [], hk_timers = []\<rparr>"

definition check_register :: "string \<Rightarrow> string \<Rightarrow> int option \<Rightarrow> health_checker \<Rightarrow> health_checker" where
  "check_register iid name interval hk =
     hk\<lparr>hk_checks := jset iid
        \<lparr>hc_service_name = name, hc_interval_ms = (case interval of Some ms \<Rightarrow> ms | None \<Rightarrow> 30000),
         hc_consecutive_failures = 0, hc_status = UnknownHealth\<rparr> (hk_checks hk)\<rparr>"

text \<open>The answer of the check function: it may also throw, which counts as unhealthy.\<close>

definition health_check ::
  "string \<Rightarrow> (js_error, bool) outcome \<Rightarrow> health_checker \<Rightarrow>
   health_status \<times> (nat \<times> string \<times> health_status) list \<times> health_checker" where
  "health_check iid answer hk =
     (case jget (hk_checks hk) iid of
        None \<Rightarrow> (UnknownHealth, [], hk)
      | Some entry \<Rightarrow>
          let healthy = (case answer of Inr b \<Rightarrow> b | Inl e \<Rightarrow> False);
              entry1 = (if healthy then entry\<lparr>hc_consecutive_failures := 0, hc_status := Healthy\<rparr>
                        else entry\<lparr>hc_consecutive_failures := hc_consecutive_failures entry + 1,
                                   hc_status := Unhealthy\<rparr>)
          in (hc_status entry1,
              if hc_status entry1 \<noteq> hc_status entry
              then map (\<lambda>h. (h, iid, hc_status entry1)) (hk_handlers hk) else [],
              hk\<lparr>hk_checks := jset iid entry1 (hk_checks hk)\<rparr>))"

fun check_ids ::
  "(string \<Rightarrow> (js_error, bool) outcome) \<Rightarrow> string list \<Rightarrow> (string, health_status) jsmap \<Rightarrow> health_checker \<Rightarrow>
   (string, health_status) jsmap \<times> health_checker" where
  "check_ids answers [] results hk = (results, hk)"
| "check_ids answers (i # ids) results hk =
     (case health_check i (answers i) hk of (s, ns, hk1) \<Rightarrow> check_ids answers ids (jset i s results) hk1)"

definition check_all ::
  "(string \<Rightarrow> (js_error, bool) outcome) \<Rightarrow> health_checker \<Rightarrow> (string, health_status) jsmap \<times> health_checker" where
  "check_all answers hk = check_ids answers (jkeys (hk_checks hk)) [] hk"

definition on_health_change :: "nat \<Rightarrow> health_checker \<Rightarrow> health_checker" where
  "on_health_change h hk = hk\<lparr>hk_handlers := hk_handlers hk @ [h]\<rparr>"

definition off_health_change :: "nat \<Rightarrow> health_checker \<Rightarrow> health_checker" where
  "off_health_change h hk = hk\<lparr>hk_handlers := remove1 h (hk_handlers hk)\<rparr>"

definition start_polling :: "string \<Rightarrow> health_checker \<Rightarrow> health_checker" where
  "start_polling iid hk =
     (if jhas (hk_timers hk) iid then hk
      else case jget (hk_checks hk) iid of
          None \<Rightarrow> hk
        | Some entry \<Rightarrow> hk\<lparr>hk_timers := jset iid (hc_interval_ms entry) (hk_timers hk)\<rparr>)"

definition stop_polling :: "string \<Rightarrow> health_checker \<Rightarrow> health_checker" where
  "stop_polling iid hk =
     (case jget (hk_timers hk) iid of
        None \<Rightarrow> hk
      | Some t \<Rightarrow> hk\<lparr>hk_timers := jdelete iid (hk_timers hk)\<rparr>)"

definition stop_all :: "health_checker \<Rightarrow> health_checker" where
  "stop_all hk = fold stop_polling (jkeys (hk_timers hk)) hk"

definition get_status :: "string \<Rightarrow> health_checker \<Rightarrow> health_status" where
  "get_status iid hk = (case jget (hk_checks hk) iid of Some e \<Rightarrow> hc_status e | None \<Rightarrow> UnknownHealth)"

text \<open>A sequence of answers to the checks of one instance: the changes a handler is told.\<close>

fun health_run :: "string \<Rightarrow> (js_error, bool) outcome list \<Rightarrow> health_checker \<Rightarrow>
   (nat \<times> string \<times> health_status) list \<times> health_checker" where
  "health_run iid [] hk = ([], hk)"
| "health_run iid (a # as) hk =
     (case health_check iid a hk of (s, ns, hk1) \<Rightarrow>
      case health_run iid as hk1 of (ns2, hk2) \<Rightarrow> (ns @ ns2, hk2))"

definition verdict :: "(js_error, bool) outcome \<Rightarrow> health_status" where
  "verdict a = (case a of Inr True \<Rightarrow> Healthy | _ \<Rightarrow> Unhealthy)"

lemma health_check_eq:
  assumes "jget (hk_checks hk) iid = Some entry" "hk_handlers hk = [h]"
  shows "health_check iid a hk =
    (verdict a, if verdict a \<noteq> hc_status entry then [(h, iid, verdict a)] else [],
     hk\<lparr>hk_checks := jset iid
        (entry\<lparr>hc_consecutive_failures := if verdict a = Healthy then 0 else hc_consecutive_failures entry + 1,
               hc_status := verdict a\<rparr>) (hk_checks hk)\<rparr>)"
  using assms by (auto simp: health_check_def verdict_def Let_def split: sum.split bool.split)

lemma health_run_changes:
  assumes "jget (hk_checks hk) iid = Some entry" "hk_handlers hk = [h]"
  shows "fst (health_run iid as hk) = map (\<lambda>s. (h, iid, s)) (tl (remdups_adj (hc_status entry # map verdict as)))
    \<and> get_status iid (snd (health_run iid as hk)) = last (hc_status entry # map verdict as)"
  using assms
proof (induction as arbitrary: hk entry)
  case Nil
  then show ?case by (simp add: get_status_def del: map_of_eq_Some_iff)
next
  case (Cons a as)
  let ?entry = "entry\<lparr>hc_consecutive_failures := if verdict a = Healthy then 0 else hc_consecutive_failures entry + 1,
               hc_status := verdict a\<rparr>"
  let ?hk = "hk\<lparr>hk_checks := jset iid ?entry (hk_checks hk)\<rparr>"
  obtain ns hk2 where r: "health_run iid as ?hk = (ns, hk2)" by fastforce
  have "jget (hk_checks ?hk) iid = Some ?entry" "hk_handlers ?hk = [h]" using Cons.prems by simp_all
  from Cons.IH [OF this] r have ih: "ns = map (\<lambda>s. (h, iid, s)) (tl (remdups_adj (verdict a # map verdict as)))"
    "get_status iid hk2 = last (verdict a # map verdict as)" by simp_all
  have "tl (remdups_adj (hc_status entry # verdict a # ss)) =
      (if verdict a \<noteq> hc_status entry then [verdict a] else []) @ tl (remdups_adj (verdict a # ss))" for ss
    using remdups_adj_Cons_alt [of "verdict a" ss] by simp
  with ih r show ?case by (auto simp: health_check_eq [OF Cons.prems])
qed

lemma takeWhile_absent: "c \<notin> set xs \<Longrightarrow> takeWhile (\<lambda>s. s \<noteq> c) xs = xs"
  by (induction xs) auto

lemma takeWhile_until_snoc:
  "takeWhile (\<lambda>s. s \<noteq> c) (xs @ [x]) =
   (if c \<in> set xs then takeWhile (\<lambda>s. s \<noteq> c) xs else xs @ (if x = c then [] else [x]))"
  by (induction xs) auto

lemma health_run_failures:
  assumes "jget (hk_checks hk) iid = Some entry" "hk_handlers hk = [h]"
  shows "\<exists>entry1. jget (hk_checks (snd (health_run iid as hk))) iid = Some entry1
    \<and> hc_consecutive_failures entry1 =
        (if Healthy \<in> set (map verdict as) then 0 else hc_consecutive_failures entry)
        + int (length (takeWhile (\<lambda>s. s \<noteq> Healthy) (rev (map verdict as))))"
  using assms
proof (induction as arbitrary: hk entry)
  case Nil
  then show ?case by simp
next
  case (Cons a as)
  let ?entry = "entry\<lparr>hc_consecutive_failures := if verdict a = Healthy then 0 else hc_consecutive_failures entry + 1,
               hc_status := verdict a\<rparr>"
  let ?hk = "hk\<lparr>hk_checks := jset iid ?entry (hk_checks hk)\<rparr>"
  obtain ns hk2 where r: "health_run iid as ?hk = (ns, hk2)" by fastforce
  have "jget (hk_checks ?hk) iid = Some ?entry" "hk_handlers ?hk = [h]" using Cons.prems by simp_all
  from Cons.IH [OF this] r obtain entry1 where e1: "jget (hk_checks hk2) iid = Some entry1"
    "hc_consecutive_failures entry1 = (if Healthy \<in> set (map verdict as) then 0 else hc_consecutive_failures ?entry)
        + int (length (takeWhile (\<lambda>s. s \<noteq> Healthy) (rev (map verdict as))))" by auto
  have "takeWhile (\<lambda>s. s \<noteq> Healthy) (rev (map verdict as) @ [verdict a]) =
      (if Healthy \<in> set (map verdict as) then takeWhile (\<lambda>s. s \<noteq> Healthy) (rev (map verdict as))
       else rev (map verdict as) @ (if verdict a = Healthy then [] else [verdict a]))"
    by (simp only: takeWhile_until_snoc set_rev)
  note snoc = this
  show ?case
    using snoc e1 r takeWhile_absent [of Healthy "rev (map verdict as)"]
    by (cases "Healthy \<in> set (map verdict as)") (auto simp: health_check_eq [OF Cons.prems] simp del: set_map)
qed

section \<open>Properties\<close>

text \<open>C31: 
  Watchers.  Whatever happens to a registry, a watcher that starts from the current list of its
  service and stays subscribed knows, after its last notification, exactly the instances that
  \<open>discover\<close> returns, as long as no instance is registered again under another name.
\<close>

theorem watchers_stay_current:
  assumes "r = snd (registry_run service_registry_new es0)"
    and "watches r h name" "keeps_names r es" "Unwatch name h \<notin> set es"
  shows "last_told h name (discover_all name r) (fst (registry_run r es)) = discover_all name (snd (registry_run r es))"
proof -
  have "jwf (sr_instances (snd (registry_run r0 es0)))" if "jwf (sr_instances r0)" for r0
    using that
  proof (induction es0 arbitrary: r0)
    case (Cons e es)
    from Cons.IH [OF registry_step_wf [OF Cons.prems, of e]] show ?case by (simp add: split_beta)
  qed simp
  then have "jwf (sr_instances r)" unfolding assms(1) by (simp add: service_registry_new_def)
  from registry_run_told [OF this assms(2-4)] show ?thesis .
qed

definition example_instance :: "string \<Rightarrow> string \<Rightarrow> service_instance" where
  "example_instance iid name =
     \<lparr>si_id = iid, si_name = name, si_host = ''h'', si_port = 80, si_tags = None, si_metadata = None,
      si_health = Healthy, si_registered_at = 0, si_last_checked_at = None\<rparr>"

theorem watchers_stay_current_witness:
  "last_told 7 ''svc'' [] (fst (registry_run (snd (registry_run service_registry_new [Watch ''svc'' 7]))
      [RegisterService 1 (example_instance ''a'' ''svc''), Deregister ''a''])) = []"
  using watchers_stay_current [OF refl, of "[Watch ''svc'' 7]" 7 "''svc''"
      "[RegisterService 1 (example_instance ''a'' ''svc''), Deregister ''a'']"]
  by (simp add: watches_def watch_def elems_def service_registry_new_def set_add_def discover_all_eq
      service_register_def deregister_def example_instance_def Let_def notify_watchers_def last_told_def)

text \<open>
  A moved instance.  Registering an instance again under another name tells the watchers of the
  new name only: those of the old one still list it.
\<close>

theorem moved_instance_not_told:
  assumes "si_id i = si_id j" "si_name i = name" "si_name j \<noteq> name"
    and "r = snd (registry_run service_registry_new [Watch name h, RegisterService t1 i])"
  shows "(h, name, discover_all name (snd (registry_step r (RegisterService t2 j)))) \<notin> set (fst (registry_step r (RegisterService t2 j)))
    \<and> discover_all name r \<noteq> [] \<and> discover_all name (snd (registry_step r (RegisterService t2 j))) = []"
  using assms by (auto simp: watch_def service_registry_new_def service_register_def Let_def notify_watchers_def
      discover_all_eq elems_def set_add_def)

theorem moved_instance_not_told_witness:
  "discover_all ''b'' (snd (registry_step (snd (registry_run service_registry_new [Watch ''b'' 1,
      RegisterService 1 (example_instance ''x'' ''b'')])) (RegisterService 2 (example_instance ''x'' ''c'')))) = []"
  using moved_instance_not_told [of "example_instance ''x'' ''b''" "example_instance ''x'' ''c''" "''b''", OF _ _ _ refl]
  by (simp add: example_instance_def)

text \<open>
  Round robin.  Over an unchanging list the balancer, once reset, hands out the instances in turn:
  in any number of full rounds each position is picked exactly once per round.
\<close>

theorem round_robin_is_fair:
  assumes "instances \<noteq> []"
  shows "round_robin_picks instances (rounds * length instances) 0 = concat (replicate rounds (map Some instances))"
proof (induction rounds)
  case (Suc rounds)
  have split: "round_robin_picks instances (k + m) 0 = round_robin_picks instances k 0 @
      round_robin_picks instances m (k mod length instances)" for k m
  proof -
    let ?f = "\<lambda>j. Some (instances ! (j mod length instances))"
    have "[0..<k + m] = [0..<k] @ map (\<lambda>i. i + k) [0..<m]"
      by (simp only: upt_add_eq_append [OF le0] map_add_upt add.commute [of m k])
    then have "map ?f [0..<k + m] = map ?f [0..<k] @ map (\<lambda>j. ?f (k + j)) [0..<m]"
      by (simp only: map_append map_map comp_def add.commute [of k])
    moreover have "round_robin_picks instances (k + m) 0 = map ?f [0..<k + m]"
      using round_robin_picks_eq [OF assms, of "k + m" 0] by (simp only: mod_0 add_0)
    moreover have "round_robin_picks instances k 0 = map ?f [0..<k]"
      using round_robin_picks_eq [OF assms, of k 0] by (simp only: mod_0 add_0)
    ultimately show ?thesis using round_robin_picks_eq [OF assms, of m k] by (simp only:)
  qed
  have one: "round_robin_picks instances (length instances) 0 = map Some instances"
  proof -
    have "map (\<lambda>j. Some (instances ! (j mod length instances))) [0..<length instances] =
        map Some (map ((!) instances) [0..<length instances])" by simp
    then show ?thesis
      using round_robin_picks_eq [OF assms, of "length instances" 0] by (simp only: mod_0 add_0 map_nth)
  qed
  have rep: "concat (replicate rounds xs) @ xs = xs @ concat (replicate rounds xs)" for xs :: "'b list"
    by (induction rounds) auto
  have "round_robin_picks instances (Suc rounds * length instances) 0 =
      round_robin_picks instances (rounds * length instances) 0 @ round_robin_picks instances (length instances) 0"
    using split [of "rounds * length instances" "length instances"] by (simp only: mult_Suc add.commute mod_mult_self2_is_0)
  with Suc one rep [of "map Some instances"] show ?case by (simp only: replicate_Suc concat.simps)
qed simp

theorem round_robin_is_fair_witness:
  "round_robin_picks [''a'', ''b''] (2 * length [''a'', ''b'']) 0 = [Some ''a'', Some ''b'', Some ''a'', Some ''b'']"
  using round_robin_is_fair [of "[''a'', ''b'']" 2] by (simp add: numeral_2_eq_2)

text \<open>
  Least connections.  In every reachable state the balancer picks one of the instances, none of
  which has fewer open connections, and counts one more connection for it and for no other.
\<close>

theorem least_connections_picks_minimum:
  assumes "conns = foldl balancer_step [] ops" "instances \<noteq> []"
    and "least_connections_next instances conns = (i, conns1)"
  shows "\<exists>chosen. i = Some chosen \<and> chosen \<in> set instances
    \<and> (\<forall>j \<in> set instances. connections_of conns (si_id chosen) \<le> connections_of conns (si_id j))
    \<and> 0 \<le> connections_of conns (si_id chosen)
    \<and> (\<forall>k. connections_of conns1 k = connections_of conns k + (if k = si_id chosen then 1 else 0))"
proof -
  have nonneg: "\<forall>i. 0 \<le> connections_of conns i"
    unfolding assms(1) by (rule balancer.run_keeps) (simp add: connections_of_def)
  obtain j rest where inst: "instances = j # rest" using assms(2) by (cases instances) auto
  let ?chosen = "least_loop conns rest j (connections_of conns (si_id j))"
  have "i = Some ?chosen" "conns1 = jset (si_id ?chosen) (connections_of conns (si_id ?chosen) + 1) conns"
    using assms(3) by (auto simp: inst least_connections_next_def Let_def)
  moreover have "connections_of (jset k v conns) k' = (if k' = k then v else connections_of conns k')" for k v k'
    by (simp add: connections_of_def)
  ultimately show ?thesis
    using least_loop_min [of conns rest j "connections_of conns (si_id j)"] nonneg by (auto simp: inst)
qed

theorem least_connections_picks_minimum_witness:
  "\<exists>chosen. fst (least_connections_next [example_instance ''a'' ''s'', example_instance ''b'' ''s'']
      (foldl balancer_step [] [Pick [example_instance ''a'' ''s'']])) = Some chosen
    \<and> chosen \<in> {example_instance ''a'' ''s'', example_instance ''b'' ''s''}"
  using least_connections_picks_minimum [OF refl, of "[example_instance ''a'' ''s'', example_instance ''b'' ''s'']"
      "[Pick [example_instance ''a'' ''s'']]"]
  by (metis list.discI list.simps(15) empty_set prod.collapse)

text \<open>
  Health changes.  Over any answers of an instance's check the handler is told exactly the changes
  of its status, in order, and the status is the verdict of the last answer; consecutive failures
  count the unhealthy answers since the last healthy one.
\<close>

theorem health_changes_reported:
  assumes "hk = check_register iid name interval (on_health_change h health_checker_new)"
  shows "fst (health_run iid as hk) = map (\<lambda>s. (h, iid, s)) (tl (remdups_adj (UnknownHealth # map verdict as)))
    \<and> get_status iid (snd (health_run iid as hk)) = last (UnknownHealth # map verdict as)
    \<and> (\<exists>entry. jget (hk_checks (snd (health_run iid as hk))) iid = Some entry
        \<and> hc_consecutive_failures entry = int (length (takeWhile (\<lambda>s. s \<noteq> Healthy) (rev (map verdict as)))))"
proof -
  obtain entry where e: "jget (hk_checks hk) iid = Some entry" "hk_handlers hk = [h]"
    "hc_status entry = UnknownHealth" "hc_consecutive_failures entry = 0"
    using assms by (simp add: check_register_def on_health_change_def health_checker_new_def)
  obtain entry1 where "jget (hk_checks (snd (health_run iid as hk))) iid = Some entry1"
    "hc_consecutive_failures entry1 = int (length (takeWhile (\<lambda>s. s \<noteq> Healthy) (rev (map verdict as))))"
    using health_run_failures [OF e(1,2), of as] e(4) by auto
  with health_run_changes [OF e(1,2), of as] e(3) show ?thesis by simp
qed

theorem health_changes_reported_witness:
  "fst (health_run ''i'' [Inr True, Inr True, Inl (plain_error ''down''), Inr False]
      (check_register ''i'' ''svc'' None (on_health_change 3 health_checker_new)))
    = [(3, ''i'', Healthy), (3, ''i'', Unhealthy)]"
  using health_changes_reported [OF refl, of "''i''" "[Inr True, Inr True, Inl (plain_error ''down''), Inr False]" "''svc''" None 3]
  by (simp add: verdict_def)

end
