(* ===== verification/Notifications.thy ===== *)
theory Notifications
  imports Prelude
begin

text \<open>
  Multi-channel notifications, \<open>packages/notifications/src\<close>: the sliding-window \<open>RateLimiter\<close>, the
  \<open>UserPreferencesStore\<close>, the \<open>TemplateEngine\<close>, the retrying and the managing decorators and the
  in-memory adapter.

  The adapter a decorator wraps is a function on a world of its own that may throw.  What the retry
  decorator waits between its attempts is part of its result.
\<close>

section \<open>Notifications and results\<close>

datatype channel = Email | Sms | Push | Webhook

datatype delivery_status = Pending | Sent | Failed | Skipped

record notification =
  nt_id :: string
  nt_channel :: channel
  nt_user_id :: string
  nt_body :: string
  nt_template_id :: "string option"
  nt_template_data :: "(string, string) jsmap option"

record send_result =
  nr_id :: string
  nr_status :: delivery_status
  nr_reason :: "string option"

record bulk_result =
  nb_sent :: int
  nb_failed :: int
  nb_skipped :: int
  nb_results :: "send_result list"

record delivery_record =
  dr_id :: string
  dr_channel :: channel
  dr_recipient :: string
  dr_status :: delivery_status
  dr_sent_at :: "int option"
  dr_reason :: "string option"

definition channel_name :: "channel \<Rightarrow> string" where
  "channel_name c = (case c of Email \<Rightarrow> ''email'' | Sms \<Rightarrow> ''sms'' | Push \<Rightarrow> ''push'' | Webhook \<Rightarrow> ''webhook'')"

fun count_status :: "send_result list \<Rightarrow> int \<times> int \<times> int \<Rightarrow> int \<times> int \<times> int" where
  "count_status [] c = c"
| "count_status (r # rs) (s, f, k) =
     count_status rs
       (if nr_status r = Sent then (s + 1, f, k)
        else if nr_status r = Failed then (s, f + 1, k)
        else (s, f, k + 1))"

definition aggregate_bulk :: "send_result list \<Rightarrow> bulk_result" where
  "aggregate_bulk rs =
     (case count_status rs (0, 0, 0) of (s, f, k) \<Rightarrow>
        \<lparr>nb_sent = s, nb_failed = f, nb_skipped = k, nb_results = rs\<rparr>)"

section \<open>The in-memory adapter\<close>

record memory_adapter =
  ma_records :: "(string, delivery_record) jsmap"
  ma_fail_channels :: "channel list"

definition build_record :: "notification \<Rightarrow> delivery_status \<Rightarrow> string option \<Rightarrow> int \<Rightarrow> delivery_record" where
  "build_record n status reason now =
     \<lparr>dr_id = nt_id n, dr_channel = nt_channel n, dr_recipient = nt_user_id n, dr_status = status,
      dr_sent_at = (if status = Sent then Some now else None), dr_reason = reason\<rparr>"

definition build_send_result :: "delivery_record \<Rightarrow> send_result" where
  "build_send_result r = \<lparr>nr_id = dr_id r, nr_status = dr_status r, nr_reason = dr_reason r\<rparr>"

definition memory_send :: "int \<Rightarrow> notification \<Rightarrow> memory_adapter \<Rightarrow> send_result \<times> memory_adapter" where
  "memory_send now n m =
     (let should_fail = nt_channel n \<in> set (ma_fail_channels m);
          status = (if should_fail then Failed else Sent);
          reason = (if should_fail then Some ''simulated failure'' else None);
          record = build_record n status reason now
      in (build_send_result record, m\<lparr>ma_records := jset (nt_id n) record (ma_records m)\<rparr>))"

definition memory_send_bulk :: "int \<Rightarrow> notification list \<Rightarrow> memory_adapter \<Rightarrow> bulk_result \<times> memory_adapter" where
  "memory_send_bulk now ns m =
     (case map_st (memory_send now) ns m of (rs, m1) \<Rightarrow> (aggregate_bulk rs, m1))"

definition memory_get_record :: "string \<Rightarrow> memory_adapter \<Rightarrow> delivery_record option" where
  "memory_get_record i m = jget (ma_records m) i"

section \<open>Rate limits\<close>

record notification_limit =
  nl_window_ms :: int
  nl_max_count :: int

type_synonym limiter_windows = "(string, int list) jsmap"

definition window_key :: "channel \<Rightarrow> string \<Rightarrow> string" where
  "window_key c user = channel_name c @ ''::'' @ user"

definition prune_old :: "int list \<Rightarrow> int \<Rightarrow> int \<Rightarrow> int list" where
  "prune_old ts window now = filter (\<lambda>t. now - t < window) ts"

definition limiter_is_allowed :: "notification_limit \<Rightarrow> channel \<Rightarrow> string \<Rightarrow> int \<Rightarrow> limiter_windows \<Rightarrow> bool" where
  "limiter_is_allowed cfg c user now w =
     (int (length (prune_old (elems w (window_key c user)) (nl_window_ms cfg) now)) < nl_max_count cfg)"

definition limiter_record :: "notification_limit \<Rightarrow> channel \<Rightarrow> string \<Rightarrow> int \<Rightarrow> limiter_windows \<Rightarrow> limiter_windows" where
  "limiter_record cfg c user now w =
     (let key = window_key c user
      in jset key (prune_old (elems w key) (nl_window_ms cfg) now @ [now]) w)"

definition limiter_count :: "notification_limit \<Rightarrow> channel \<Rightarrow> string \<Rightarrow> int \<Rightarrow> limiter_windows \<Rightarrow> int" where
  "limiter_count cfg c user now w =
     int (length (prune_old (elems w (window_key c user)) (nl_window_ms cfg) now))"

section \<open>Preferences\<close>

type_synonym preferences = "(string, channel list) jsmap"

definition opt_out :: "string \<Rightarrow> channel \<Rightarrow> preferences \<Rightarrow> preferences" where
  "opt_out user c p =
     (case jget p user of
        None \<Rightarrow> jset user [c] p
      | Some cs \<Rightarrow> jset user (set_add c cs) p)"

definition opt_in :: "string \<Rightarrow> channel \<Rightarrow> preferences \<Rightarrow> preferences" where
  "opt_in user c p =
     (case jget p user of None \<Rightarrow> p | Some cs \<Rightarrow> jset user (set_remove c cs) p)"

definition is_opted_out :: "string \<Rightarrow> channel \<Rightarrow> preferences \<Rightarrow> bool" where
  "is_opted_out user c p = (case jget p user of None \<Rightarrow> False | Some cs \<Rightarrow> c \<in> set cs)"

definition opted_out_channels :: "string \<Rightarrow> preferences \<Rightarrow> channel list" where
  "opted_out_channels user p = (case jget p user of None \<Rightarrow> [] | Some cs \<Rightarrow> cs)"

definition opt_out_all :: "string \<Rightarrow> channel list \<Rightarrow> preferences \<Rightarrow> preferences" where
  "opt_out_all user cs p = foldl (\<lambda>p c. opt_out user c p) p cs"

section \<open>Templates\<close>

type_synonym templates = "(string, string) jsmap"

definition is_word_char :: "char \<Rightarrow> bool" where
  "is_word_char c = (let n = (of_char c :: nat) in
     (48 \<le> n \<and> n \<le> 57) \<or> (65 \<le> n \<and> n \<le> 90) \<or> (97 \<le> n \<and> n \<le> 122) \<or> n = 95)"

text \<open>A placeholder at the front of the text: its key and what follows it.\<close>

definition placeholder_at :: "string \<Rightarrow> (string \<times> string) option" where
  "placeholder_at s =
     (if take 2 s = ''{{'' then
        (let key = takeWhile is_word_char (drop 2 s); rest = dropWhile is_word_char (drop 2 s)
         in if key \<noteq> [] \<and> take 2 rest = ''}}'' then Some (key, drop 2 rest) else None)
      else None)"

lemma placeholder_shorter: "placeholder_at s = Some (k, rest) \<Longrightarrow> length rest < length s"
  by (auto simp: placeholder_at_def Let_def split: if_splits
      intro: order.strict_trans1 [OF length_dropWhile_le])
     (metis (no_types, lifting) diff_le_self drop_eq_Nil length_drop length_dropWhile_le length_greater_0_conv
       less_le_trans list.distinct(1) not_le take_eq_Nil2 le_less_trans order_refl diff_less zero_less_numeral)

definition lookup_text :: "(string, string) jsmap \<Rightarrow> string \<Rightarrow> string" where
  "lookup_text data k = (case jget data k of None \<Rightarrow> [] | Some v \<Rightarrow> v)"

function apply_data :: "string \<Rightarrow> (string, string) jsmap \<Rightarrow> string" where
  "apply_data [] data = []"
| "apply_data (c # cs) data =
     (case placeholder_at (c # cs) of
        Some (k, rest) \<Rightarrow> lookup_text data k @ apply_data rest data
      | None \<Rightarrow> c # apply_data cs data)"
  by pat_completeness auto

termination apply_data
  by (relation "measure (\<lambda>(s, data). length s)") (auto dest: placeholder_shorter)

datatype notification_error =
  TemplateNotFound string
| MaxRetriesExceeded string int "js_error option"
| InnerError js_error

definition register_template :: "string \<Rightarrow> string \<Rightarrow> templates \<Rightarrow> templates" where
  "register_template i txt ts = jset i txt ts"

definition render_template :: "string \<Rightarrow> (string, string) jsmap \<Rightarrow> templates
    \<Rightarrow> (notification_error, string) outcome" where
  "render_template i data ts =
     (case jget ts i of None \<Rightarrow> Inl (TemplateNotFound i) | Some txt \<Rightarrow> Inr (apply_data txt data))"

section \<open>The retrying decorator\<close>

type_synonym 'w send_fn = "notification \<Rightarrow> 'w \<Rightarrow> (js_error, send_result) outcome \<times> 'w"

definition compute_backoff :: "int \<Rightarrow> int \<Rightarrow> int" where
  "compute_backoff attempt base = base * 2 ^ nat attempt"

text \<open>The loop with the attempts that are left; the result, the waits and the world.\<close>

fun retry_loop :: "'w send_fn \<Rightarrow> notification \<Rightarrow> int \<Rightarrow> int \<Rightarrow> nat \<Rightarrow> int \<Rightarrow> js_error option \<Rightarrow> 'w
    \<Rightarrow> (notification_error, send_result) outcome \<times> int list \<times> 'w" where
  "retry_loop send n max_retries base 0 attempt last_error w =
     (Inl (MaxRetriesExceeded (nt_id n) (max_retries + 1) last_error), [], w)"
| "retry_loop send n max_retries base (Suc left) attempt last_error w =
     (case send n w of
        (Inr r, w1) \<Rightarrow> (Inr r, [], w1)
      | (Inl err, w1) \<Rightarrow>
          (case retry_loop send n max_retries base left (attempt + 1) (Some err) w1 of
             (res, waits, w2) \<Rightarrow>
               (res, (if attempt < max_retries then [compute_backoff attempt base] else []) @ waits, w2)))"

definition retry_send :: "'w send_fn \<Rightarrow> int option \<Rightarrow> int option \<Rightarrow> notification \<Rightarrow> 'w
    \<Rightarrow> (notification_error, send_result) outcome \<times> int list \<times> 'w" where
  "retry_send send max_retries base n w =
     (let mr = (case max_retries of None \<Rightarrow> 3 | Some m \<Rightarrow> m);
          b = (case base of None \<Rightarrow> 100 | Some x \<Rightarrow> x)
      in retry_loop send n mr b (nat (mr + 1)) 0 None w)"

section \<open>The managing decorator\<close>

record managed =
  mg_prefs :: "preferences option"
  mg_limiter :: "(notification_limit \<times> limiter_windows) option"
  mg_templates :: "templates option"

definition managed_opted_out :: "managed \<Rightarrow> notification \<Rightarrow> bool" where
  "managed_opted_out m n =
     (case mg_prefs m of None \<Rightarrow> False | Some p \<Rightarrow> is_opted_out (nt_user_id n) (nt_channel n) p)"

definition managed_rate_limited :: "managed \<Rightarrow> notification \<Rightarrow> int \<Rightarrow> bool" where
  "managed_rate_limited m n now =
     (case mg_limiter m of None \<Rightarrow> False
      | Some (cfg, w) \<Rightarrow> \<not> limiter_is_allowed cfg (nt_channel n) (nt_user_id n) now w)"

definition record_delay :: "notification \<Rightarrow> int \<Rightarrow> managed \<Rightarrow> managed" where
  "record_delay n now m =
     (case mg_limiter m of None \<Rightarrow> m
      | Some (cfg, w) \<Rightarrow> m\<lparr>mg_limiter := Some (cfg, limiter_record cfg (nt_channel n) (nt_user_id n) now w)\<rparr>)"

definition resolve_body :: "templates option \<Rightarrow> notification \<Rightarrow> (notification_error, string) outcome" where
  "resolve_body ts n =
     (case ts of
        None \<Rightarrow> Inr (nt_body n)
      | Some tm \<Rightarrow>
          (case nt_template_id n of
             None \<Rightarrow> Inr (nt_body n)
           | Some i \<Rightarrow>
               render_template i (case nt_template_data n of None \<Rightarrow> [] | Some d \<Rightarrow> d) tm))"

definition apply_template :: "templates option \<Rightarrow> notification \<Rightarrow> (notification_error, notification) outcome" where
  "apply_template ts n =
     (case resolve_body ts n of
        Inl err \<Rightarrow> Inl err
      | Inr body \<Rightarrow> if body = nt_body n then Inr n else Inr (n\<lparr>nt_body := body\<rparr>))"

definition skipped_result :: "string \<Rightarrow> string \<Rightarrow> send_result" where
  "skipped_result i reason = \<lparr>nr_id = i, nr_status = Skipped, nr_reason = Some reason\<rparr>"

definition managed_send :: "'w send_fn \<Rightarrow> int \<Rightarrow> notification \<Rightarrow> managed \<times> 'w
    \<Rightarrow> (notification_error, send_result) outcome \<times> (managed \<times> 'w)" where
  "managed_send inner now n mw =
     (let m = fst mw; w = snd mw in
      if managed_opted_out m n then (Inr (skipped_result (nt_id n) ''opted out''), mw)
      else if managed_rate_limited m n now then (Inr (skipped_result (nt_id n) ''rate limited''), mw)
      else
        (let m1 = record_delay n now m in
         case apply_template (mg_templates m1) n of
           Inl err \<Rightarrow> (Inl err, (m1, w))
         | Inr resolved \<Rightarrow>
             (case inner resolved w of
                (Inl err, w1) \<Rightarrow> (Inl (InnerError err), (m1, w1))
              | (Inr r, w1) \<Rightarrow> (Inr r, (m1, w1)))))"

text \<open>The loop of \<open>sendBulk\<close>; a send that throws rejects the whole call.\<close>

fun managed_bulk_loop :: "'w send_fn \<Rightarrow> int \<Rightarrow> notification list \<Rightarrow> send_result list \<Rightarrow> managed \<times> 'w
    \<Rightarrow> (notification_error, send_result list) outcome \<times> (managed \<times> 'w)" where
  "managed_bulk_loop inner now [] results mw = (Inr results, mw)"
| "managed_bulk_loop inner now (n # ns) results mw =
     (case managed_send inner now n mw of
        (Inl err, mw1) \<Rightarrow> (Inl err, mw1)
      | (Inr r, mw1) \<Rightarrow> managed_bulk_loop inner now ns (results @ [r]) mw1)"

definition managed_send_bulk :: "'w send_fn \<Rightarrow> int \<Rightarrow> notification list \<Rightarrow> managed \<times> 'w
    \<Rightarrow> (notification_error, bulk_result) outcome \<times> (managed \<times> 'w)" where
  "managed_send_bulk inner now ns mw =
     (case managed_bulk_loop inner now ns [] mw of
        (Inl err, mw1) \<Rightarrow> (Inl err, mw1)
      | (Inr rs, mw1) \<Rightarrow> (Inr (aggregate_bulk rs), mw1))"

section \<open>Counting results\<close>

lemma count_status_sum:
  "count_status rs (s, f, k) =
     (s + int (length (filter (\<lambda>r. nr_status r = Sent) rs)),
      f + int (length (filter (\<lambda>r. nr_status r = Failed) rs)),
      k + int (length (filter (\<lambda>r. nr_status r \<noteq> Sent \<and> nr_status r \<noteq> Failed) rs)))"
  by (induction rs arbitrary: s f k) auto

lemma bulk_adds_up:
  "nb_sent (aggregate_bulk rs) + nb_failed (aggregate_bulk rs) + nb_skipped (aggregate_bulk rs)
     = int (length rs)"
proof -
  have "length (filter (\<lambda>r. nr_status r = Sent) rs) + length (filter (\<lambda>r. nr_status r = Failed) rs)
      + length (filter (\<lambda>r. nr_status r \<noteq> Sent \<and> nr_status r \<noteq> Failed) rs) = length rs"
    by (induction rs) auto
  then show ?thesis by (simp add: aggregate_bulk_def count_status_sum)
qed

section \<open>The window\<close>

lemma window_key_inj: "window_key c u = window_key c' u' \<longleftrightarrow> c = c' \<and> u = u'"
  by (cases c; cases c') (simp_all add: window_key_def channel_name_def)

lemma limiter_other_window:
  "window_key c u \<noteq> window_key c' u' \<Longrightarrow>
     elems (limiter_record cfg c' u' now w) (window_key c u) = elems w (window_key c u)"
  by (simp add: limiter_record_def Let_def)

text \<open>A sender that asks first, over requests with their times: the times of what is sent.\<close>

fun limited_sends :: "notification_limit \<Rightarrow> (channel \<times> string \<times> int) list \<Rightarrow> limiter_windows
    \<Rightarrow> (channel \<times> string \<times> int) list" where
  "limited_sends cfg [] w = []"
| "limited_sends cfg ((c, u, now) # rs) w =
     (if limiter_is_allowed cfg c u now w
      then (c, u, now) # limited_sends cfg rs (limiter_record cfg c u now w)
      else limited_sends cfg rs w)"

definition sent_within :: "notification_limit \<Rightarrow> channel \<Rightarrow> string \<Rightarrow> int \<Rightarrow> (channel \<times> string \<times> int) list \<Rightarrow> nat" where
  "sent_within cfg c u t sends =
     length (filter (\<lambda>(c', u', t'). c' = c \<and> u' = u \<and> t' \<le> t \<and> t - t' < nl_window_ms cfg) sends)"

definition limiter_log :: "notification_limit \<Rightarrow> (channel \<times> string \<times> int) list \<Rightarrow> limiter_windows \<Rightarrow> int \<Rightarrow> bool" where
  "limiter_log cfg acc w T \<longleftrightarrow>
     (\<forall>(c, u, t) \<in> set acc. t \<le> T)
     \<and> (\<forall>c u now. T \<le> now \<longrightarrow>
          prune_old (elems w (window_key c u)) (nl_window_ms cfg) now =
          map (\<lambda>(c, u, t). t) (filter (\<lambda>(c', u', t'). c' = c \<and> u' = u \<and> now - t' < nl_window_ms cfg) acc))
     \<and> (\<forall>c u t. int (sent_within cfg c u t acc) \<le> max 0 (nl_max_count cfg))"

lemma length_filter_imp:
  "(\<And>x. x \<in> set xs \<Longrightarrow> P x \<Longrightarrow> Q x) \<Longrightarrow> length (filter P xs) \<le> length (filter Q xs)"
  by (induction xs) (auto simp: le_SucI)

lemma prune_prune: "now \<le> later \<Longrightarrow> prune_old (prune_old ts w now) w later = prune_old ts w later"
  by (induction ts) (auto simp: prune_old_def)

lemma limiter_log_send:
  assumes log: "limiter_log cfg acc w T" and "T \<le> now" and ok: "limiter_is_allowed cfg c u now w"
  shows "limiter_log cfg (acc @ [(c, u, now)]) (limiter_record cfg c u now w) now"
proof -
  let ?in = "\<lambda>c u t (c', u', t'). c' = c \<and> u' = u \<and> t - t' < nl_window_ms cfg"
  have old: "\<forall>(c, u, t) \<in> set acc. t \<le> T" and
    win: "\<And>c u now. T \<le> now \<Longrightarrow> prune_old (elems w (window_key c u)) (nl_window_ms cfg) now
      = map (\<lambda>(c, u, t). t) (filter (?in c u now) acc)" and
    bound: "\<And>c u t. int (sent_within cfg c u t acc) \<le> max 0 (nl_max_count cfg)"
    using log by (auto simp: limiter_log_def)
  have few: "int (length (filter (?in c u now) acc)) < nl_max_count cfg"
    using ok win [OF \<open>T \<le> now\<close>, of c u] by (simp add: limiter_is_allowed_def)
  have "int (sent_within cfg c' u' t (acc @ [(c, u, now)])) \<le> max 0 (nl_max_count cfg)" for c' u' t
  proof (cases "c' = c \<and> u' = u \<and> now \<le> t \<and> t - now < nl_window_ms cfg")
    case True
    then have "sent_within cfg c' u' t acc \<le> length (filter (?in c u now) acc)"
      unfolding sent_within_def by (intro length_filter_imp) auto
    with few True show ?thesis by (auto simp: sent_within_def)
  next
    case False
    with bound [of c' u' t] show ?thesis by (auto simp: sent_within_def)
  qed
  moreover have "prune_old (elems (limiter_record cfg c u now w) (window_key c' u')) (nl_window_ms cfg) later
      = map (\<lambda>(c, u, t). t) (filter (?in c' u' later) (acc @ [(c, u, now)]))" if "now \<le> later" for c' u' later
  proof (cases "c' = c \<and> u' = u")
    case True
    have "prune_old (elems w (window_key c u)) (nl_window_ms cfg) later
        = map (\<lambda>(c, u, t). t) (filter (?in c u later) acc)"
      using win [of later c u] that \<open>T \<le> now\<close> by simp
    moreover have "prune_old (prune_old (elems w (window_key c u)) (nl_window_ms cfg) now @ [now])
        (nl_window_ms cfg) later = prune_old (elems w (window_key c u)) (nl_window_ms cfg) later
        @ prune_old [now] (nl_window_ms cfg) later"
      using prune_prune [OF that] by (simp add: prune_old_def)
    ultimately show ?thesis using True
      by (simp add: limiter_record_def Let_def) (simp add: prune_old_def)
  next
    case False
    then have "window_key c' u' \<noteq> window_key c u" by (auto simp: window_key_inj)
    with limiter_other_window win [of later c' u'] that \<open>T \<le> now\<close> False show ?thesis by auto
  qed
  ultimately show ?thesis using old \<open>T \<le> now\<close> by (auto simp: limiter_log_def)
qed

lemma limited_sends_log:
  assumes "limiter_log cfg acc w T" and "sorted (T # map (\<lambda>(c, u, t). t) rs)"
  shows "int (sent_within cfg c u t (acc @ limited_sends cfg rs w)) \<le> max 0 (nl_max_count cfg)"
  using assms
proof (induction rs arbitrary: acc w T)
  case Nil
  then show ?case by (simp add: limiter_log_def)
next
  case (Cons r rs)
  obtain c' u' now where r: "r = (c', u', now)" by (cases r)
  show ?case
  proof (cases "limiter_is_allowed cfg c' u' now w")
    case True
    then have "limiter_log cfg (acc @ [r]) (limiter_record cfg c' u' now w) now"
      using Cons.prems r by (auto intro: limiter_log_send)
    from Cons.IH [OF this] True Cons.prems r show ?thesis by simp
  next
    case False
    with Cons.IH [OF Cons.prems(1)] Cons.prems r show ?thesis by (simp add: sorted_wrt_less_idx)
  qed
qed

text \<open>C15: 
  For requests in the order of their times, in no window of the configured length does a user get
  more than the allowed number of notifications on a channel.
\<close>

theorem notification_rate_bound:
  assumes "sorted (map (\<lambda>(c, u, t). t) rs)"
  shows "int (sent_within cfg c u t (limited_sends cfg rs [])) \<le> max 0 (nl_max_count cfg)"
proof (cases rs)
  case Nil
  then show ?thesis by (simp add: sent_within_def)
next
  case (Cons r rs')
  obtain c' u' now where "r = (c', u', now)" by (cases r)
  with Cons assms have "sorted (now # map (\<lambda>(c, u, t). t) rs)" by simp
  moreover have "limiter_log cfg [] [] now"
    by (auto simp: limiter_log_def prune_old_def elems_def sent_within_def)
  ultimately show ?thesis using limited_sends_log [of cfg "[]"] by simp
qed

theorem notification_rate_bound_witness:
  "int (sent_within \<lparr>nl_window_ms = 10, nl_max_count = 2\<rparr> Sms ''u'' 3
      (limited_sends \<lparr>nl_window_ms = 10, nl_max_count = 2\<rparr> [(Sms, ''u'', 1), (Sms, ''u'', 2), (Sms, ''u'', 3)] [])) \<le> max 0 2"
  using notification_rate_bound [of "[(Sms, ''u'', 1), (Sms, ''u'', 2), (Sms, ''u'', 3)]"
      "\<lparr>nl_window_ms = 10, nl_max_count = 2\<rparr>" Sms "''u''" 3] by simp

section \<open>Preferences are a relation\<close>

lemma opted_out_after:
  "is_opted_out u c (opt_out u' c' p) \<longleftrightarrow> (u = u' \<and> c = c') \<or> is_opted_out u c p"
  by (auto simp: is_opted_out_def opt_out_def split: option.splits)

lemma opted_in_after:
  "is_opted_out u c (opt_in u' c' p) \<longleftrightarrow> is_opted_out u c p \<and> \<not> (u = u' \<and> c = c')"
  by (auto simp: is_opted_out_def opt_in_def split: option.splits)

lemma opted_out_all_after:
  "is_opted_out u c (opt_out_all u' cs p) \<longleftrightarrow> (u = u' \<and> c \<in> set cs) \<or> is_opted_out u c p"
  by (induction cs arbitrary: p) (auto simp: opt_out_all_def opted_out_after)

section \<open>Templates are filled in once\<close>

datatype segment = Text string | Placeholder string

fun show_segment :: "segment \<Rightarrow> string" where
  "show_segment (Text s) = s"
| "show_segment (Placeholder k) = ''{{'' @ k @ ''}}''"

fun fill_segment :: "(string, string) jsmap \<Rightarrow> segment \<Rightarrow> string" where
  "fill_segment data (Text s) = s"
| "fill_segment data (Placeholder k) = lookup_text data k"

fun segment_ok :: "segment \<Rightarrow> bool" where
  "segment_ok (Text s) = (CHR ''{'' \<notin> set s)"
| "segment_ok (Placeholder k) = (k \<noteq> [] \<and> (\<forall>c \<in> set k. is_word_char c))"

lemma brace_not_word: "\<not> is_word_char (CHR ''}'')" "\<not> is_word_char (CHR ''{'')"
  by (simp_all add: is_word_char_def Let_def)

lemma placeholder_at_shown:
  assumes "k \<noteq> []" and "\<forall>c \<in> set k. is_word_char c"
  shows "placeholder_at (''{{'' @ k @ ''}}'' @ rest) = Some (k, rest)"
proof -
  have "takeWhile is_word_char (k @ ''}}'' @ rest) = k" "dropWhile is_word_char (k @ ''}}'' @ rest) = ''}}'' @ rest"
    using assms(2) by (simp_all add: takeWhile_append2 dropWhile_append2 brace_not_word)
  then show ?thesis using assms(1) by (simp add: placeholder_at_def)
qed

lemma apply_data_text: "CHR ''{'' \<notin> set s \<Longrightarrow> apply_data (s @ rest) data = s @ apply_data rest data"
  by (induction s) (auto simp: placeholder_at_def)

lemma apply_data_segments:
  assumes "\<forall>s \<in> set segments. segment_ok s"
  shows "apply_data (concat (map show_segment segments)) data = concat (map (fill_segment data) segments)"
  using assms
proof (induction segments)
  case (Cons s segments)
  show ?case
  proof (cases s)
    case (Text x)
    with Cons show ?thesis by (simp add: apply_data_text)
  next
    case (Placeholder k)
    let ?rest = "concat (map show_segment segments)"
    have "placeholder_at (''{{'' @ k @ ''}}'' @ ?rest) = Some (k, ?rest)"
      using Cons.prems Placeholder by (intro placeholder_at_shown) auto
    then have "apply_data (''{{'' @ k @ ''}}'' @ ?rest) data = lookup_text data k @ apply_data ?rest data"
      by simp
    with Cons Placeholder show ?thesis by simp
  qed
qed simp

text \<open>
  Rendering replaces every placeholder by its value, the empty text when it has none, keeps the
  text between them, and does not look for placeholders in the values.
\<close>

theorem template_fills_placeholders:
  assumes "\<forall>s \<in> set segments. segment_ok s"
  shows "apply_data (concat (map show_segment segments)) data = concat (map (fill_segment data) segments)"
  using assms by (rule apply_data_segments)

theorem template_fills_placeholders_witness:
  "apply_data (concat (map show_segment [Text ''Hi '', Placeholder ''name'', Text ''!''])) [(''name'', ''{{x}}'')]
     = concat (map (fill_segment [(''name'', ''{{x}}'')]) [Text ''Hi '', Placeholder ''name'', Text ''!''])"
  by (rule template_fills_placeholders) (simp add: is_word_char_def)

section \<open>The decorators\<close>

fun fails_first :: "'w send_fn \<Rightarrow> notification \<Rightarrow> nat \<Rightarrow> 'w \<Rightarrow> 'w option" where
  "fails_first send n 0 w = Some w"
| "fails_first send n (Suc k) w =
     (case send n w of (Inr r, w1) \<Rightarrow> None | (Inl err, w1) \<Rightarrow> fails_first send n k w1)"

lemma retry_loop_succeeds:
  assumes "fails_first send n k w = Some w1" and "send n w1 = (Inr r, w2)" and "k < left"
    and "attempt + int left = mr + 1"
  shows "retry_loop send n mr base left attempt err w
    = (Inr r, map (\<lambda>i. compute_backoff (attempt + int i) base) [0..<k], w2)"
  using assms
proof (induction k arbitrary: w left attempt err)
  case 0
  then show ?case by (cases left) simp_all
next
  case (Suc k)
  then obtain left' where left: "left = Suc left'" by (cases left) auto
  from Suc.prems(1) obtain e w' where s: "send n w = (Inl e, w')" and f: "fails_first send n k w' = Some w1"
    by (auto split: prod.splits sum.splits)
  have "retry_loop send n mr base left' (attempt + 1) (Some e) w'
      = (Inr r, map (\<lambda>i. compute_backoff (attempt + 1 + int i) base) [0..<k], w2)"
    using Suc.prems left by (intro Suc.IH [OF f]) auto
  moreover have "attempt < mr" using Suc.prems left by simp
  moreover have "map (\<lambda>i. compute_backoff (attempt + int i) base) [0..<Suc k]
      = compute_backoff attempt base # map (\<lambda>i. compute_backoff (attempt + 1 + int i) base) [0..<k]"
    by (simp add: upt_conv_Cons map_Suc_upt [symmetric] comp_def add.assoc del: upt_Suc)
  ultimately show ?case using s left by simp
qed

lemma retry_loop_exhausts:
  assumes "fails_first send n left w = Some w1" and "attempt + int left = mr + 1" and "0 < left"
  shows "\<exists>e. retry_loop send n mr base left attempt err w
    = (Inl (MaxRetriesExceeded (nt_id n) (mr + 1) (Some e)),
       map (\<lambda>i. compute_backoff (attempt + int i) base) [0..<left - 1], w1)"
  using assms
proof (induction left arbitrary: w attempt err)
  case (Suc left)
  from Suc.prems(1) obtain e w' where s: "send n w = (Inl e, w')" and f: "fails_first send n left w' = Some w1"
    by (auto split: prod.splits sum.splits)
  show ?case
  proof (cases left)
    case 0
    with s f Suc.prems show ?thesis by simp
  next
    case (Suc m)
    with Suc.prems f obtain e' where "retry_loop send n mr base left (attempt + 1) (Some e) w'
        = (Inl (MaxRetriesExceeded (nt_id n) (mr + 1) (Some e')),
           map (\<lambda>i. compute_backoff (attempt + 1 + int i) base) [0..<left - 1], w1)"
      using Suc.IH [OF f, of "attempt + 1" "Some e"] by auto
    moreover have "attempt < mr" using Suc.prems \<open>left = Suc m\<close> by simp
    moreover have "map (\<lambda>i. compute_backoff (attempt + int i) base) [0..<Suc left - 1]
        = compute_backoff attempt base # map (\<lambda>i. compute_backoff (attempt + 1 + int i) base) [0..<left - 1]"
      using \<open>left = Suc m\<close> by (simp add: upt_conv_Cons map_Suc_upt [symmetric] comp_def add.assoc del: upt_Suc)
    ultimately show ?thesis using s by simp
  qed
qed simp

text \<open>
  The retrying sender returns the first result that is not thrown, after waits that double, or
  gives up after one attempt more than the allowed retries with the last error.
\<close>

theorem notification_retries:
  assumes "0 \<le> mr"
  shows "(int k \<le> mr \<longrightarrow> fails_first send n k w = Some w1 \<longrightarrow> send n w1 = (Inr r, w2) \<longrightarrow>
      retry_send send (Some mr) (Some base) n w = (Inr r, map (\<lambda>i. base * 2 ^ i) [0..<k], w2))
    \<and> (fails_first send n (nat mr + 1) w = Some w1 \<longrightarrow>
      (\<exists>e. retry_send send (Some mr) (Some base) n w
         = (Inl (MaxRetriesExceeded (nt_id n) (mr + 1) (Some e)), map (\<lambda>i. base * 2 ^ i) [0..<nat mr], w1)))"
proof (intro conjI impI)
  assume "int k \<le> mr" "fails_first send n k w = Some w1" "send n w1 = (Inr r, w2)"
  then show "retry_send send (Some mr) (Some base) n w = (Inr r, map (\<lambda>i. base * 2 ^ i) [0..<k], w2)"
    using assms retry_loop_succeeds [of send n k w w1 r w2 "nat (mr + 1)" 0 mr base None]
    by (simp add: retry_send_def compute_backoff_def)
next
  assume f: "fails_first send n (nat mr + 1) w = Some w1"
  have n1: "nat (mr + 1) = nat mr + 1" using assms by simp
  from retry_loop_exhausts [OF f, of 0 mr base None] assms obtain e where
    "retry_loop send n mr base (nat mr + 1) 0 None w = (Inl (MaxRetriesExceeded (nt_id n) (mr + 1) (Some e)),
       map (\<lambda>i. compute_backoff (0 + int i) base) [0..<nat mr + 1 - 1], w1)" by auto
  then show "\<exists>e. retry_send send (Some mr) (Some base) n w
      = (Inl (MaxRetriesExceeded (nt_id n) (mr + 1) (Some e)), map (\<lambda>i. base * 2 ^ i) [0..<nat mr], w1)"
    by (auto simp: retry_send_def n1 compute_backoff_def)
qed

text \<open>A sender that throws as often as its world says, and then sends.\<close>

definition flaky_send :: "nat send_fn" where
  "flaky_send n w = (if w > 0 then (Inl (plain_error ''down''), w - 1)
     else (Inr \<lparr>nr_id = nt_id n, nr_status = Sent, nr_reason = None\<rparr>, 0))"

definition example_notification :: notification where
  "example_notification = \<lparr>nt_id = ''n1'', nt_channel = Sms, nt_user_id = ''u'', nt_body = ''hi'',
     nt_template_id = None, nt_template_data = None\<rparr>"

theorem notification_retries_witness:
  "retry_send flaky_send (Some 3) (Some 100) example_notification 2
     = (Inr \<lparr>nr_id = ''n1'', nr_status = Sent, nr_reason = None\<rparr>, map (\<lambda>i. 100 * 2 ^ i) [0..<2], 0)"
  using notification_retries [of 3 2 flaky_send example_notification 2 0
      "\<lparr>nr_id = ''n1'', nr_status = Sent, nr_reason = None\<rparr>" 0 100]
  by (simp add: flaky_send_def example_notification_def numeral_2_eq_2)

text \<open>
  An adapter that reports failure in its result, as the port asks, is not retried: the failed
  result comes back at once.
\<close>

theorem reported_failure_is_not_retried:
  "retry_send (\<lambda>n m. case memory_send now n m of (r, m1) \<Rightarrow> (Inr r, m1)) None None
      example_notification \<lparr>ma_records = [], ma_fail_channels = [Sms]\<rparr>
    = (Inr \<lparr>nr_id = ''n1'', nr_status = Failed, nr_reason = Some ''simulated failure''\<rparr>, [],
       snd (memory_send now example_notification \<lparr>ma_records = [], ma_fail_channels = [Sms]\<rparr>))"
  by (simp add: retry_send_def memory_send_def build_record_def build_send_result_def Let_def
      example_notification_def eval_nat_numeral)

text \<open>
  The managing sender: an opted-out or limited notification is skipped and changes nothing; any
  other takes a slot of the limit, and then is handed to the wrapped adapter with its template
  filled in, or is refused when the template is not registered.
\<close>

theorem managed_send_decides:
  "case managed_send inner now n (m, w) of (r, (m', w')) \<Rightarrow>
     (if managed_opted_out m n \<or> managed_rate_limited m n now
      then (\<exists>why. r = Inr (skipped_result (nt_id n) why)) \<and> m' = m \<and> w' = w
      else m' = record_delay n now m
        \<and> (case apply_template (mg_templates m) n of
             Inl err \<Rightarrow> r = Inl err \<and> w' = w
           | Inr resolved \<Rightarrow> w' = snd (inner resolved w)
               \<and> r = (case fst (inner resolved w) of Inl err \<Rightarrow> Inl (InnerError err) | Inr s \<Rightarrow> Inr s)))"
proof -
  have "mg_templates (record_delay n now m) = mg_templates m"
    by (simp add: record_delay_def split: option.split prod.split)
  then show ?thesis
    by (auto simp: managed_send_def Let_def case_prod_beta split: sum.split)
qed

definition with_template :: "string \<Rightarrow> string \<Rightarrow> notification" where
  "with_template i tid = example_notification\<lparr>nt_id := i, nt_template_id := Some tid\<rparr>"

definition managed_example :: managed where
  "managed_example = \<lparr>mg_prefs = None, mg_limiter = Some (\<lparr>nl_window_ms = 10, nl_max_count = 5\<rparr>, []),
     mg_templates = Some [(''known'', ''hello'')]\<rparr>"

text \<open>
  A missing template takes a slot of the limit although nothing is sent, and makes a bulk send throw:
  the result of the notification already delivered is lost and the ones after it are not tried.
\<close>

theorem missing_template_breaks_bulk:
  "case managed_send_bulk (\<lambda>n m. case memory_send 0 n m of (r, m1) \<Rightarrow> (Inr r, m1)) 0
      [with_template ''1'' ''known'', with_template ''2'' ''gone'', with_template ''3'' ''known'']
      (managed_example, \<lparr>ma_records = [], ma_fail_channels = []\<rparr>) of
    (r, (m', w')) \<Rightarrow>
      r = Inl (TemplateNotFound ''gone'')
      \<and> map_option dr_status (memory_get_record ''1'' w') = Some Sent
      \<and> memory_get_record ''3'' w' = None
      \<and> (case mg_limiter m' of None \<Rightarrow> False | Some (cfg, win) \<Rightarrow> limiter_count cfg Sms ''u'' 0 win = 2)"
  by code_simp

text \<open>
  Nothing reaches a user on a channel after they opted out of it, until they opt in again.
\<close>

theorem opted_out_gets_nothing:
  "managed_send inner now n (m\<lparr>mg_prefs := Some (opt_out (nt_user_id n) (nt_channel n) p)\<rparr>, w)
     = (Inr (skipped_result (nt_id n) ''opted out''), (m\<lparr>mg_prefs := Some (opt_out (nt_user_id n) (nt_channel n) p)\<rparr>, w))
   \<and> (is_opted_out u c (opt_in u' c' p) \<longleftrightarrow> is_opted_out u c p \<and> \<not> (u = u' \<and> c = c'))
   \<and> (is_opted_out u c (opt_out_all u' cs p) \<longleftrightarrow> (u = u' \<and> c \<in> set cs) \<or> is_opted_out u c p)"
  by (simp add: managed_send_def managed_opted_out_def opted_out_after opted_in_after opted_out_all_after)

text \<open>A bulk result counts each of its results once.\<close>

theorem bulk_counts_add_up:
  assumes "managed_send_bulk inner now ns mw = (Inr b, mw')"
  shows "nb_sent b + nb_failed b + nb_skipped b = int (length (nb_results b))
    \<and> length (nb_results b) = length ns"
proof -
  have len: "managed_bulk_loop inner now ns acc mw = (Inr rs, mw') \<Longrightarrow> length rs = length acc + length ns"
    for acc rs mw mw'
    by (induction ns arbitrary: acc mw) (auto split: prod.splits sum.splits)
  from assms obtain rs where "managed_bulk_loop inner now ns [] mw = (Inr rs, mw')" "b = aggregate_bulk rs"
    by (auto simp: managed_send_bulk_def split: prod.splits sum.splits)
  moreover have "nb_results (aggregate_bulk rs) = rs" by (simp add: aggregate_bulk_def case_prod_beta)
  ultimately show ?thesis using len [of "[]"] bulk_adds_up [of rs] by simp
qed

theorem bulk_counts_add_up_witness:
  "nb_sent (aggregate_bulk []) + nb_failed (aggregate_bulk []) + nb_skipped (aggregate_bulk []) = int (length ([] :: send_result list))"
  using bulk_counts_add_up [of "\<lambda>n w. (Inl (plain_error []), w)" 0 "[]" "(managed_example, ())" "aggregate_bulk []"
      "(managed_example, ())"]
  by (simp add: managed_send_bulk_def aggregate_bulk_def)

end
