(* ===== verification/Api_Keys.thy ===== *)
theory Api_Keys
  imports Prelude
begin

text \<open>
  API keys, \<open>packages/security/src/apikeys\<close>: \<open>ApiKeyManager\<close> issues, validates, rotates and
  revokes keys and stores only their hashes; \<open>ApiKeyUsageTracker\<close> records their use and limits
  their rate; and the key cache of \<open>oauth/JwksClient.ts\<close>.

  SHA-256 is the argument \<open>hash\<close> and the random bytes, in hexadecimal, are arguments of the
  operation that draws them.  What the manager relies on is that a drawn key has a hash and an
  identifier not in use, \<^theory_text>\<open>fresh_event\<close>.
\<close>

section \<open>The manager\<close>

record api_key_config =
  akc_prefix :: "string option"
  akc_byte_length :: "int option"

record api_key_record =
  ak_key_id :: string
  ak_hash :: string
  ak_prefix :: string
  ak_scopes :: "string list"
  ak_created_at :: int
  ak_expires_at :: "int option"
  ak_revoked_at :: "int option"
  ak_metadata :: "(string, string) jsmap option"

type_synonym api_keys = "(string, api_key_record) jsmap"

definition raw_key :: "api_key_config \<Rightarrow> string \<Rightarrow> string" where
  "raw_key cfg hex = (case akc_prefix cfg of None \<Rightarrow> ''ak'' | Some p \<Rightarrow> p) @ ''_'' @ hex"

definition key_id :: "string \<Rightarrow> string" where
  "key_id hex = ''kid_'' @ hex"

definition api_generate :: "(string \<Rightarrow> string) \<Rightarrow> api_key_config \<Rightarrow> string list \<Rightarrow> int option
    \<Rightarrow> (string, string) jsmap option \<Rightarrow> string \<Rightarrow> string \<Rightarrow> int \<Rightarrow> api_keys
    \<Rightarrow> (string \<times> api_key_record) \<times> api_keys" where
  "api_generate hash cfg scopes expires metadata key_hex id_hex now keys =
     (let raw = raw_key cfg key_hex;
          kid = key_id id_hex;
          prefix_len = length (case akc_prefix cfg of None \<Rightarrow> ''ak'' | Some p \<Rightarrow> p);
          record = \<lparr>ak_key_id = kid, ak_hash = hash raw, ak_prefix = take (prefix_len + 4) raw,
            ak_scopes = scopes, ak_created_at = now, ak_expires_at = expires, ak_revoked_at = None,
            ak_metadata = metadata\<rparr>
      in ((raw, record), jset kid record keys))"

text \<open>The first record with the hash decides.\<close>

definition api_validate :: "(string \<Rightarrow> string) \<Rightarrow> string \<Rightarrow> int \<Rightarrow> api_keys \<Rightarrow> api_key_record option" where
  "api_validate hash raw now keys =
     (case List.find (\<lambda>r. ak_hash r = hash raw) (jvalues keys) of
        None \<Rightarrow> None
      | Some r \<Rightarrow>
          if ak_revoked_at r \<noteq> None then None
          else (case ak_expires_at r of
                  None \<Rightarrow> Some r
                | Some t \<Rightarrow> if now > t then None else Some r))"

definition api_revoke :: "string \<Rightarrow> int \<Rightarrow> api_keys \<Rightarrow> bool \<times> api_keys" where
  "api_revoke kid now keys =
     (case jget keys kid of
        None \<Rightarrow> (False, keys)
      | Some r \<Rightarrow> (True, jset kid (r\<lparr>ak_revoked_at := Some now\<rparr>) keys))"

definition api_rotate :: "(string \<Rightarrow> string) \<Rightarrow> api_key_config \<Rightarrow> string \<Rightarrow> string \<Rightarrow> string \<Rightarrow> int \<Rightarrow> api_keys
    \<Rightarrow> (string \<times> api_key_record) option \<times> api_keys" where
  "api_rotate hash cfg kid key_hex id_hex now keys =
     (case jget keys kid of
        None \<Rightarrow> (None, keys)
      | Some existing \<Rightarrow>
          (case api_generate hash cfg (ak_scopes existing) (ak_expires_at existing) (ak_metadata existing)
              key_hex id_hex now (snd (api_revoke kid now keys)) of
             (result, keys') \<Rightarrow> (Some result, keys')))"

definition get_record :: "string \<Rightarrow> api_keys \<Rightarrow> api_key_record option" where
  "get_record kid keys = jget keys kid"

definition list_active :: "int \<Rightarrow> api_keys \<Rightarrow> api_key_record list" where
  "list_active now keys =
     filter (\<lambda>r. ak_revoked_at r = None \<and>
       (case ak_expires_at r of None \<Rightarrow> True | Some t \<Rightarrow> t > now)) (jvalues keys)"

datatype api_key_event =
  GenerateKey "string list" "int option" "(string, string) jsmap option" string string int
| RotateKey string string string int
| RevokeKey string int

definition api_step :: "(string \<Rightarrow> string) \<Rightarrow> api_key_config \<Rightarrow> api_keys \<Rightarrow> api_key_event \<Rightarrow> api_keys" where
  "api_step hash cfg keys e =
     (case e of
        GenerateKey scopes expires metadata key_hex id_hex now \<Rightarrow>
          snd (api_generate hash cfg scopes expires metadata key_hex id_hex now keys)
      | RotateKey kid key_hex id_hex now \<Rightarrow> snd (api_rotate hash cfg kid key_hex id_hex now keys)
      | RevokeKey kid now \<Rightarrow> snd (api_revoke kid now keys))"

section \<open>Keys that can be told apart\<close>

definition keys_ok :: "api_keys \<Rightarrow> bool" where
  "keys_ok keys \<longleftrightarrow> jwf keys \<and> distinct (map (\<lambda>(k, r). ak_hash r) keys)
     \<and> (\<forall>(k, r) \<in> set keys. ak_key_id r = k)"

text \<open>A new key: neither its identifier nor its hash is in use.\<close>

definition unused :: "(string \<Rightarrow> string) \<Rightarrow> api_key_config \<Rightarrow> string \<Rightarrow> string \<Rightarrow> api_keys \<Rightarrow> bool" where
  "unused hash cfg key_hex id_hex keys \<longleftrightarrow>
     \<not> jhas keys (key_id id_hex) \<and> hash (raw_key cfg key_hex) \<notin> ak_hash ` set (jvalues keys)"

definition fresh_event :: "(string \<Rightarrow> string) \<Rightarrow> api_key_config \<Rightarrow> api_keys \<Rightarrow> api_key_event \<Rightarrow> bool" where
  "fresh_event hash cfg keys e =
     (case e of
        GenerateKey scopes expires metadata key_hex id_hex now \<Rightarrow> unused hash cfg key_hex id_hex keys
      | RotateKey kid key_hex id_hex now \<Rightarrow> unused hash cfg key_hex id_hex keys
      | RevokeKey kid now \<Rightarrow> True)"

fun fresh_run :: "(string \<Rightarrow> string) \<Rightarrow> api_key_config \<Rightarrow> api_keys \<Rightarrow> api_key_event list \<Rightarrow> bool" where
  "fresh_run hash cfg keys [] = True"
| "fresh_run hash cfg keys (e # es) =
     (fresh_event hash cfg keys e \<and> fresh_run hash cfg (api_step hash cfg keys e) es)"

lemma jset_present_map:
  assumes "jwf m" and "jget m k = Some v" and "f (k, v) = f (k, v')"
  shows "map f (jset k v' m) = map f m"
  using assms by (induction m) (auto split: if_splits)

lemma keys_ok_revoke [inv_intros]:
  assumes "keys_ok keys"
  shows "keys_ok (snd (api_revoke kid now keys))"
proof (cases "jget keys kid")
  case (Some r)
  with assms have "map (\<lambda>(k, r). ak_hash r) (jset kid (r\<lparr>ak_revoked_at := Some now\<rparr>) keys)
      = map (\<lambda>(k, r). ak_hash r) keys"
    by (intro jset_present_map) (auto simp: keys_ok_def)
  moreover have "ak_key_id r = kid" using assms Some by (auto simp: keys_ok_def dest: map_of_SomeD)
  ultimately show ?thesis using assms Some
    by (auto simp: keys_ok_def api_revoke_def jset_entries jwf_jset)
qed (use assms in \<open>simp add: api_revoke_def\<close>)

lemma unused_revoke: "keys_ok keys \<Longrightarrow> unused hash cfg kh ih keys \<Longrightarrow>
    unused hash cfg kh ih (snd (api_revoke kid now keys))"
proof (cases "jget keys kid")
  case (Some r)
  assume "keys_ok keys" and new: "unused hash cfg kh ih keys"
  moreover have "jhas keys kid" using Some by (simp add: jhas_def)
  moreover have "(kid, r) \<in> set keys" using Some by (rule map_of_SomeD)
  ultimately show ?thesis using Some
    by (force simp: unused_def api_revoke_def keys_ok_def jset_entries image_iff)
qed (simp add: api_revoke_def)

lemma keys_ok_generate [inv_intros]:
  assumes "keys_ok keys" and "unused hash cfg kh ih keys"
  shows "keys_ok (snd (api_generate hash cfg scopes ex md kh ih now keys))"
  using assms
  by (auto simp: keys_ok_def unused_def api_generate_def Let_def jset_absent jhas_keys image_iff)

lemma keys_ok_step [inv_intros]:
  assumes "keys_ok keys" and "fresh_event hash cfg keys e"
  shows "keys_ok (api_step hash cfg keys e)"
  using assms
  by (cases e) (auto simp: api_step_def fresh_event_def api_rotate_def
      intro!: keys_ok_generate keys_ok_revoke unused_revoke split: option.split prod.split
      dest: arg_cong [of _ _ snd])

lemma find_by_hash:
  assumes "keys_ok keys" and "jget keys kid = Some r"
  shows "List.find (\<lambda>x. ak_hash x = ak_hash r) (jvalues keys) = Some r"
proof -
  have "distinct (map (\<lambda>(k, r). ak_hash r) keys)" and "(kid, r) \<in> set keys"
    using assms by (auto simp: keys_ok_def dest: map_of_SomeD)
  then show ?thesis
  proof (induction keys)
    case (Cons x keys)
    show ?case
    proof (cases "x = (kid, r)")
      case False
      with Cons.prems have "(kid, r) \<in> set keys" by simp
      moreover from this Cons.prems(1) have "ak_hash (snd x) \<noteq> ak_hash r"
        by (force simp: image_iff split: prod.splits)
      ultimately show ?thesis using Cons by simp
    qed simp
  qed simp
qed

section \<open>When a key works\<close>

definition withdraws :: "string \<Rightarrow> api_key_event \<Rightarrow> bool" where
  "withdraws kid e =
     (case e of
        GenerateKey scopes expires metadata key_hex id_hex now \<Rightarrow> False
      | RotateKey k key_hex id_hex now \<Rightarrow> k = kid
      | RevokeKey k now \<Rightarrow> k = kid)"

text \<open>The same key, perhaps revoked.\<close>

definition same_key :: "bool \<Rightarrow> api_key_record \<Rightarrow> api_key_record \<Rightarrow> bool" where
  "same_key gone r r' \<longleftrightarrow> ak_hash r' = ak_hash r \<and> ak_expires_at r' = ak_expires_at r
     \<and> (ak_revoked_at r' = None \<longleftrightarrow> ak_revoked_at r = None \<and> \<not> gone)"

lemma revoke_tracks:
  "jget keys kid = Some r \<Longrightarrow>
     \<exists>r'. jget (snd (api_revoke k now keys)) kid = Some r' \<and> same_key (k = kid) r r'"
  by (auto simp: api_revoke_def same_key_def split: option.splits)

lemma generate_tracks:
  "jget keys kid = Some r \<Longrightarrow> unused hash cfg kh ih keys \<Longrightarrow>
     jget (snd (api_generate hash cfg scopes ex md kh ih now keys)) kid = Some r"
  by (auto simp: api_generate_def unused_def jhas_def Let_def)

lemma step_tracks:
  assumes "keys_ok keys" and "fresh_event hash cfg keys e" and r: "jget keys kid = Some r"
  shows "\<exists>r'. jget (api_step hash cfg keys e) kid = Some r' \<and> same_key (withdraws kid e) r r'"
proof (cases e)
  case (GenerateKey scopes ex md kh ih now)
  with assms show ?thesis
    by (simp add: api_step_def fresh_event_def generate_tracks withdraws_def same_key_def)
next
  case (RevokeKey k now)
  with revoke_tracks [OF r] show ?thesis by (simp add: api_step_def withdraws_def)
next
  case (RotateKey k kh ih now)
  show ?thesis
  proof (cases "jget keys k")
    case None
    with r RotateKey have "k \<noteq> kid" by auto
    with None r RotateKey show ?thesis
      by (simp add: api_step_def api_rotate_def withdraws_def same_key_def)
  next
    case (Some existing)
    let ?keys1 = "snd (api_revoke k now keys)"
    from revoke_tracks [OF r] obtain r1 where r1: "jget ?keys1 kid = Some r1" "same_key (k = kid) r r1"
      by blast
    have "unused hash cfg kh ih ?keys1"
      using assms(1,2) RotateKey by (simp add: fresh_event_def unused_revoke)
    with generate_tracks [OF r1(1)] Some RotateKey r1(2) show ?thesis
      by (simp add: api_step_def api_rotate_def withdraws_def case_prod_beta)
  qed
qed

lemma same_key_trans: "same_key a r s \<Longrightarrow> same_key b s u \<Longrightarrow> same_key (a \<or> b) r u"
  by (auto simp: same_key_def)

lemma run_tracks:
  assumes "keys_ok keys" and "fresh_run hash cfg keys es" and "jget keys kid = Some r"
  shows "keys_ok (foldl (api_step hash cfg) keys es)
    \<and> (\<exists>r'. jget (foldl (api_step hash cfg) keys es) kid = Some r'
         \<and> same_key (\<exists>e \<in> set es. withdraws kid e) r r')"
  using assms
proof (induction es arbitrary: keys r)
  case Nil
  then show ?case by (simp add: same_key_def)
next
  case (Cons e es)
  let ?keys1 = "api_step hash cfg keys e"
  from Cons.prems have ok: "keys_ok ?keys1" and fresh: "fresh_run hash cfg ?keys1 es"
    by (auto intro: keys_ok_step)
  have "fresh_event hash cfg keys e" using Cons.prems(2) by simp
  from step_tracks [OF Cons.prems(1) this Cons.prems(3)] obtain r1 where
    "jget ?keys1 kid = Some r1" and 1: "same_key (withdraws kid e) r r1" by auto
  from Cons.IH [OF ok fresh this(1)] same_key_trans [OF 1] show ?case by fastforce
qed

lemma validate_found:
  assumes "keys_ok keys" and "jget keys kid = Some r" and "ak_hash r = hash raw"
  shows "api_validate hash raw now keys =
    (if ak_revoked_at r = None \<and> (case ak_expires_at r of None \<Rightarrow> True | Some t \<Rightarrow> now \<le> t)
     then Some r else None)"
  using find_by_hash [OF assms(1,2)] assms(3)
  by (auto simp: api_validate_def split: option.splits)

text \<open>C14: 
  A key that was issued is accepted later exactly until it is revoked or rotated, or its time has
  passed, whatever else happens to other keys in between.
\<close>

theorem api_key_works_until_withdrawn:
  assumes "keys_ok keys" and "unused hash cfg kh ih keys"
    and "api_generate hash cfg scopes expires md kh ih t0 keys = ((raw, record), keys1)"
    and "fresh_run hash cfg keys1 es"
  shows "api_validate hash raw now (foldl (api_step hash cfg) keys1 es) \<noteq> None
    \<longleftrightarrow> (\<forall>e \<in> set es. \<not> withdraws (ak_key_id record) e)
      \<and> (case expires of None \<Rightarrow> True | Some t \<Rightarrow> now \<le> t)"
proof -
  from assms(3) have parts: "raw = raw_key cfg kh" "ak_hash record = hash raw"
    "ak_expires_at record = expires" "ak_revoked_at record = None"
    "keys1 = snd (api_generate hash cfg scopes expires md kh ih t0 keys)"
    "jget keys1 (ak_key_id record) = Some record"
    by (auto simp: api_generate_def Let_def)
  have "keys_ok keys1" unfolding parts(5) by (rule keys_ok_generate [OF assms(1,2)])
  from run_tracks [OF this assms(4) parts(6)] obtain r' where
    ok: "keys_ok (foldl (api_step hash cfg) keys1 es)"
    and r': "jget (foldl (api_step hash cfg) keys1 es) (ak_key_id record) = Some r'"
    and same: "same_key (\<exists>e \<in> set es. withdraws (ak_key_id record) e) record r'" by blast
  from same parts have "ak_hash r' = hash raw" by (simp add: same_key_def)
  from validate_found [of _ _ _ hash raw now, OF ok r' this] same parts show ?thesis
    by (auto simp: same_key_def)
qed

theorem api_key_works_until_withdrawn_witness:
  "api_validate id ''ak_1'' 5 (foldl (api_step id \<lparr>akc_prefix = None, akc_byte_length = None\<rparr>)
       (snd (api_generate id \<lparr>akc_prefix = None, akc_byte_length = None\<rparr> [''read''] (Some 9) None ''1'' ''a'' 0 []))
       [GenerateKey [] None None ''2'' ''b'' 1, RevokeKey ''kid_b'' 2]) \<noteq> None
    \<longleftrightarrow> (\<forall>e \<in> set [GenerateKey [] None None ''2'' ''b'' 1, RevokeKey ''kid_b'' 2]. \<not> withdraws ''kid_a'' e)
      \<and> (case Some 9 of None \<Rightarrow> True | Some t \<Rightarrow> (5::int) \<le> t)"
proof -
  let ?cfg = "\<lparr>akc_prefix = None, akc_byte_length = None\<rparr>"
  let ?r = "\<lparr>ak_key_id = ''kid_a'', ak_hash = ''ak_1'', ak_prefix = ''ak_1'', ak_scopes = [''read''],
    ak_created_at = 0, ak_expires_at = Some 9, ak_revoked_at = None, ak_metadata = None\<rparr>"
  have g: "api_generate id ?cfg [''read''] (Some 9) None ''1'' ''a'' 0 [] = ((''ak_1'', ?r), [(''kid_a'', ?r)])"
    by (simp add: api_generate_def raw_key_def key_id_def Let_def)
  have "fresh_run id ?cfg [(''kid_a'', ?r)] [GenerateKey [] None None ''2'' ''b'' 1, RevokeKey ''kid_b'' 2]"
    by (simp add: fresh_event_def unused_def raw_key_def key_id_def jhas_def)
  from api_key_works_until_withdrawn [OF _ _ g this, of 5] show ?thesis
    by (simp add: g keys_ok_def unused_def jhas_def)
qed

text \<open>
  Rotating a key that was already revoked issues a new key with the same scopes, and the new key
  works.
\<close>

theorem rotation_revives_revoked_key:
  assumes "keys_ok keys" and "jget keys kid = Some r" and "unused hash cfg kh ih keys"
    and "case ak_expires_at r of None \<Rightarrow> True | Some t \<Rightarrow> now \<le> t"
  shows "\<exists>raw r' keys'. api_rotate hash cfg kid kh ih now keys = (Some (raw, r'), keys')
    \<and> ak_scopes r' = ak_scopes r \<and> api_validate hash raw now keys' = Some r'"
proof -
  let ?keys1 = "snd (api_revoke kid now keys)"
  have ok: "keys_ok ?keys1" and new: "unused hash cfg kh ih ?keys1"
    using assms by (auto intro: keys_ok_revoke unused_revoke)
  obtain raw r' keys' where
    g: "api_generate hash cfg (ak_scopes r) (ak_expires_at r) (ak_metadata r) kh ih now ?keys1
      = ((raw, r'), keys')" by (metis prod.exhaust)
  then have r': "ak_scopes r' = ak_scopes r" "ak_hash r' = hash raw" "ak_revoked_at r' = None"
    "ak_expires_at r' = ak_expires_at r" "jget keys' (ak_key_id r') = Some r'"
    by (auto simp: api_generate_def Let_def)
  have "keys_ok keys'" using keys_ok_generate [OF ok new] g by (metis snd_conv)
  from validate_found [of _ _ _ hash raw now, OF this r'(5,2)] r' assms(4) have "api_validate hash raw now keys' = Some r'"
    by simp
  with g r' assms(2) show ?thesis by (auto simp: api_rotate_def)
qed

definition revoked_example :: api_keys where
  "revoked_example = [(''kid_a'', \<lparr>ak_key_id = ''kid_a'', ak_hash = ''ak_1'', ak_prefix = ''ak_1'',
     ak_scopes = [''admin''], ak_created_at = 0, ak_expires_at = None, ak_revoked_at = Some 3,
     ak_metadata = None\<rparr>)]"

theorem rotation_revives_revoked_key_witness:
  "\<exists>raw r' keys'. api_rotate id \<lparr>akc_prefix = None, akc_byte_length = None\<rparr> ''kid_a'' ''2'' ''b'' 4 revoked_example
      = (Some (raw, r'), keys')
    \<and> ak_scopes r' = ak_scopes (snd (hd revoked_example)) \<and> api_validate id raw 4 keys' = Some r'"
  by (rule rotation_revives_revoked_key)
    (simp_all add: revoked_example_def keys_ok_def unused_def jhas_def raw_key_def key_id_def)

text \<open>
  At its last moment a key is accepted but not listed as active; at every other moment the list
  holds exactly the stored keys that are accepted.
\<close>

theorem active_list_matches_validation:
  assumes "keys_ok keys" and "jget keys kid = Some r" and "ak_hash r = hash raw"
  shows "(ak_expires_at r \<noteq> Some now \<longrightarrow>
      (r \<in> set (list_active now keys) \<longleftrightarrow> api_validate hash raw now keys = Some r))
    \<and> (ak_expires_at r = Some now \<and> ak_revoked_at r = None \<longrightarrow>
      r \<notin> set (list_active now keys) \<and> api_validate hash raw now keys = Some r)"
proof -
  have "r \<in> set (jvalues keys)" using assms(2) by (force dest: map_of_SomeD)
  then show ?thesis
    by (auto simp: validate_found [of _ _ _ hash raw now, OF assms] list_active_def split: option.splits)
qed

theorem active_list_matches_validation_witness:
  "(Some 7 \<noteq> Some (6::int) \<longrightarrow> (snd (hd (map (\<lambda>(k, r). (k, r\<lparr>ak_revoked_at := None, ak_expires_at := Some 7\<rparr>)) revoked_example))
      \<in> set (list_active 6 (map (\<lambda>(k, r). (k, r\<lparr>ak_revoked_at := None, ak_expires_at := Some 7\<rparr>)) revoked_example))))"
  using active_list_matches_validation [of "map (\<lambda>(k, r). (k, r\<lparr>ak_revoked_at := None, ak_expires_at := Some 7\<rparr>)) revoked_example"
      "''kid_a''" "snd (hd (map (\<lambda>(k, r). (k, r\<lparr>ak_revoked_at := None, ak_expires_at := Some 7\<rparr>)) revoked_example))"
      id "''ak_1''" 6]
  by (simp add: revoked_example_def keys_ok_def list_active_def)

section \<open>Usage and rate limits\<close>

record usage_record =
  ur_key_id :: string
  ur_timestamp :: int
  ur_endpoint :: "string option"
  ur_status :: "int option"
  ur_duration :: "int option"

record rate_limit_config =
  rl_max_requests :: int
  rl_window_ms :: int

record window_entry =
  we_count :: int
  we_start :: int

record usage_tracker =
  ut_config :: "rate_limit_config option"
  ut_usage :: "(string, usage_record list) jsmap"
  ut_windows :: "(string, window_entry) jsmap"

definition usage_tracker_new :: "rate_limit_config option \<Rightarrow> usage_tracker" where
  "usage_tracker_new cfg = \<lparr>ut_config = cfg, ut_usage = [], ut_windows = []\<rparr>"

definition record_usage :: "usage_record \<Rightarrow> usage_tracker \<Rightarrow> usage_tracker" where
  "record_usage ev t = t\<lparr>ut_usage := jset (ur_key_id ev) (elems (ut_usage t) (ur_key_id ev) @ [ev]) (ut_usage t)\<rparr>"

definition is_rate_limited :: "string \<Rightarrow> int \<Rightarrow> usage_tracker \<Rightarrow> bool" where
  "is_rate_limited kid now t =
     (case ut_config t of
        None \<Rightarrow> False
      | Some cfg \<Rightarrow>
          (case jget (ut_windows t) kid of
             None \<Rightarrow> False
           | Some entry \<Rightarrow>
               if now - we_start entry > rl_window_ms cfg then False
               else we_count entry \<ge> rl_max_requests cfg))"

definition increment_rate_counter :: "string \<Rightarrow> int \<Rightarrow> usage_tracker \<Rightarrow> usage_tracker" where
  "increment_rate_counter kid now t =
     (case ut_config t of
        None \<Rightarrow> t
      | Some cfg \<Rightarrow>
          (case jget (ut_windows t) kid of
             None \<Rightarrow> t\<lparr>ut_windows := jset kid \<lparr>we_count = 1, we_start = now\<rparr> (ut_windows t)\<rparr>
           | Some entry \<Rightarrow>
               if now - we_start entry > rl_window_ms cfg then
                 t\<lparr>ut_windows := jset kid \<lparr>we_count = 1, we_start = now\<rparr> (ut_windows t)\<rparr>
               else
                 t\<lparr>ut_windows := jset kid \<lparr>we_count = we_count entry + 1, we_start = we_start entry\<rparr>
                   (ut_windows t)\<rparr>))"

record api_key_stats =
  st_key_id :: string
  st_request_count :: int
  st_last_used :: "int option"
  st_rate_limited :: bool

definition get_stats :: "string \<Rightarrow> int \<Rightarrow> usage_tracker \<Rightarrow> api_key_stats" where
  "get_stats kid now t =
     (let records = elems (ut_usage t) kid;
          sorted_desc = sort_key (\<lambda>r. - ur_timestamp r) records
      in \<lparr>st_key_id = kid, st_request_count = int (length records),
          st_last_used = (case sorted_desc of [] \<Rightarrow> None | r # rs \<Rightarrow> Some (ur_timestamp r)),
          st_rate_limited = is_rate_limited kid now t\<rparr>)"

definition get_records :: "string \<Rightarrow> int option \<Rightarrow> usage_tracker \<Rightarrow> usage_record list" where
  "get_records kid since t =
     (case since of
        None \<Rightarrow> elems (ut_usage t) kid
      | Some s \<Rightarrow> filter (\<lambda>r. ur_timestamp r \<ge> s) (elems (ut_usage t) kid))"

definition clear_usage :: "string \<Rightarrow> usage_tracker \<Rightarrow> usage_tracker" where
  "clear_usage kid t = t\<lparr>ut_usage := jdelete kid (ut_usage t), ut_windows := jdelete kid (ut_windows t)\<rparr>"

text \<open>A caller that asks before it counts: the requests it lets through.\<close>

fun admitted :: "string \<Rightarrow> int list \<Rightarrow> usage_tracker \<Rightarrow> int list \<times> usage_tracker" where
  "admitted kid [] t = ([], t)"
| "admitted kid (now # ts) t =
     (if is_rate_limited kid now t then admitted kid ts t
      else (case admitted kid ts (increment_rate_counter kid now t) of (xs, t1) \<Rightarrow> (now # xs, t1)))"

lemma admitted_in_window:
  assumes "ut_config t = Some cfg" and "jget (ut_windows t) kid = Some e"
    and "\<forall>now \<in> set ts. now - we_start e \<le> rl_window_ms cfg"
  shows "fst (admitted kid ts t) = take (nat (rl_max_requests cfg - we_count e)) ts"
  using assms
proof (induction ts arbitrary: t e)
  case (Cons now ts)
  show ?case
  proof (cases "we_count e \<ge> rl_max_requests cfg")
    case True
    then have "fst (admitted kid ts t) = []" using Cons by simp
    with True Cons.prems show ?thesis by (simp add: is_rate_limited_def)
  next
    case False
    let ?t1 = "increment_rate_counter kid now t"
    let ?e1 = "\<lparr>we_count = we_count e + 1, we_start = we_start e\<rparr>"
    have "ut_config ?t1 = Some cfg" "jget (ut_windows ?t1) kid = Some ?e1"
      using Cons.prems by (simp_all add: increment_rate_counter_def)
    then have "fst (admitted kid ts ?t1) = take (nat (rl_max_requests cfg - we_count ?e1)) ts"
      using Cons.prems by (intro Cons.IH) auto
    moreover have "nat (rl_max_requests cfg - we_count e)
        = Suc (nat (rl_max_requests cfg - we_count ?e1))"
      using False by simp
    ultimately show ?thesis using False Cons.prems
      by (simp add: is_rate_limited_def case_prod_beta)
  qed
qed simp

text \<open>
  Within one window of a key's first request a caller that asks first lets through the first
  \<open>maxRequests\<close> requests and no other; with a limit of zero still the very first one.
\<close>

theorem window_admits_max_requests:
  assumes "ut_config t = Some cfg" and "jget (ut_windows t) kid = None"
    and "\<forall>now \<in> set ts. now - first \<le> rl_window_ms cfg"
  shows "fst (admitted kid (first # ts) t) = take (max 1 (nat (rl_max_requests cfg))) (first # ts)"
proof -
  let ?t1 = "increment_rate_counter kid first t"
  have "ut_config ?t1 = Some cfg" "jget (ut_windows ?t1) kid = Some \<lparr>we_count = 1, we_start = first\<rparr>"
    using assms by (simp_all add: increment_rate_counter_def)
  then have "fst (admitted kid ts ?t1) = take (nat (rl_max_requests cfg - 1)) ts"
    using admitted_in_window [of ?t1 cfg kid "\<lparr>we_count = 1, we_start = first\<rparr>" ts] assms(3) by simp
  moreover have "max 1 (nat (rl_max_requests cfg)) = Suc (nat (rl_max_requests cfg - 1))" by auto
  ultimately show ?thesis using assms by (simp add: is_rate_limited_def case_prod_beta)
qed

theorem window_admits_max_requests_witness:
  "fst (admitted ''k'' (0 # [1, 2, 3]) (usage_tracker_new (Some \<lparr>rl_max_requests = 2, rl_window_ms = 10\<rparr>)))
    = take (max 1 (nat 2)) (0 # [1, 2, 3])"
  using window_admits_max_requests [of "usage_tracker_new (Some \<lparr>rl_max_requests = 2, rl_window_ms = 10\<rparr>)"
      "\<lparr>rl_max_requests = 2, rl_window_ms = 10\<rparr>" "''k''" "[1, 2, 3]" 0]
  by (simp add: usage_tracker_new_def)

section \<open>The cache of signing keys\<close>

record jwks_key =
  jk_kty :: string
  jk_kid :: "string option"
  jk_use :: "string option"

datatype jwks_response = FetchRejects js_error | NotOk int string | Document "jwks_key list"

record jwks_client =
  jc_cache :: "(string, jwks_key) jsmap"
  jc_last_fetch :: int
  jc_ttl :: int

definition jwks_new :: "int option \<Rightarrow> jwks_client" where
  "jwks_new ttl = \<lparr>jc_cache = [], jc_last_fetch = 0, jc_ttl = (case ttl of None \<Rightarrow> 3600000 | Some n \<Rightarrow> n)\<rparr>"

definition jwks_id :: "jwks_key \<Rightarrow> string" where
  "jwks_id k = (case jk_kid k of None \<Rightarrow> jk_kty k | Some i \<Rightarrow> i)"

definition jwks_refresh :: "jwks_response \<Rightarrow> int \<Rightarrow> jwks_client \<Rightarrow> (js_error, unit) outcome \<times> jwks_client" where
  "jwks_refresh resp now c =
     (case resp of
        FetchRejects err \<Rightarrow> (Inl err, c)
      | NotOk status txt \<Rightarrow>
          (Inl (plain_error (''JWKS fetch failed: '' @ show_int status @ '' '' @ txt)), c)
      | Document ks \<Rightarrow>
          (Inr (), c\<lparr>jc_cache := foldl (\<lambda>m k. jset (jwks_id k) k m) [] ks, jc_last_fetch := now\<rparr>))"

definition cache_stale :: "int \<Rightarrow> jwks_client \<Rightarrow> bool" where
  "cache_stale now c = (now - jc_last_fetch c > jc_ttl c)"

definition jwks_get_keys :: "bool \<Rightarrow> jwks_response \<Rightarrow> int \<Rightarrow> jwks_client
    \<Rightarrow> (js_error, jwks_key list) outcome \<times> jwks_client" where
  "jwks_get_keys force resp now c =
     (if force \<or> cache_stale now c then
        (case jwks_refresh resp now c of
           (Inl err, c1) \<Rightarrow> (Inl err, c1)
         | (Inr u, c1) \<Rightarrow> (Inr (jvalues (jc_cache c1)), c1))
      else (Inr (jvalues (jc_cache c)), c))"

definition jwks_get_key :: "string \<Rightarrow> jwks_response \<Rightarrow> int \<Rightarrow> jwks_client
    \<Rightarrow> (js_error, jwks_key option) outcome \<times> jwks_client" where
  "jwks_get_key kid resp now c =
     (case jget (jc_cache c) kid of
        Some k \<Rightarrow> (Inr (Some k), c)
      | None \<Rightarrow>
          (case jwks_refresh resp now c of
             (Inl err, c1) \<Rightarrow> (Inl err, c1)
           | (Inr u, c1) \<Rightarrow> (Inr (jget (jc_cache c1) kid), c1)))"

definition jwks_keys_by_use :: "string \<Rightarrow> jwks_response \<Rightarrow> int \<Rightarrow> jwks_client
    \<Rightarrow> (js_error, jwks_key list) outcome \<times> jwks_client" where
  "jwks_keys_by_use use resp now c =
     (case jwks_get_keys False resp now c of
        (Inl err, c1) \<Rightarrow> (Inl err, c1)
      | (Inr ks, c1) \<Rightarrow> (Inr (filter (\<lambda>k. jk_use k = Some use) ks), c1))"

definition jwks_clear :: "jwks_client \<Rightarrow> jwks_client" where
  "jwks_clear c = c\<lparr>jc_cache := [], jc_last_fetch := 0\<rparr>"

lemma jget_stored_keys:
  "jget (foldl (\<lambda>m k. jset (jwks_id k) k m) [] ks) kid = List.find (\<lambda>k. jwks_id k = kid) (rev ks)"
  by (induction ks rule: rev_induct) auto

text \<open>
  Looking a key up by its identifier: a cached key is returned whatever its age, without a fetch;
  an unknown one costs a fetch, after which the last key of the document with that identifier is
  the answer; a failed fetch rejects and keeps the cache.
\<close>

theorem jwks_lookup:
  "case jwks_get_key kid resp now c of (r, c') \<Rightarrow>
     (case jget (jc_cache c) kid of
        Some k \<Rightarrow> r = Inr (Some k) \<and> c' = c
      | None \<Rightarrow>
          (case resp of
             Document ks \<Rightarrow> r = Inr (List.find (\<lambda>k. jwks_id k = kid) (rev ks)) \<and> jc_last_fetch c' = now
           | _ \<Rightarrow> (\<exists>err. r = Inl err) \<and> c' = c))"
  by (simp add: jwks_get_key_def jwks_refresh_def jget_stored_keys split: option.split jwks_response.split)

text \<open>
  A key the issuer has withdrawn is still found by its identifier after any time, while listing the
  keys at that time fetches the new document.
\<close>

theorem withdrawn_key_still_found:
  assumes "jc_last_fetch c + jc_ttl c < now" and "jget (jc_cache c) kid = Some k"
    and "\<forall>k' \<in> set ks. jwks_id k' \<noteq> kid"
  shows "fst (jwks_get_key kid (Document ks) now c) = Inr (Some k)
    \<and> jget (jc_cache (snd (jwks_get_keys False (Document ks) now c))) kid = None"
proof -
  have "List.find (\<lambda>k. jwks_id k = kid) (rev ks) = None"
    using assms(3) by (auto simp: find_None_iff)
  then show ?thesis using assms
    by (simp add: jwks_get_key_def jwks_get_keys_def cache_stale_def jwks_refresh_def jget_stored_keys)
qed

theorem withdrawn_key_still_found_witness:
  "fst (jwks_get_key ''old'' (Document []) 4000000
      \<lparr>jc_cache = [(''old'', \<lparr>jk_kty = ''RSA'', jk_kid = Some ''old'', jk_use = None\<rparr>)], jc_last_fetch = 0,
       jc_ttl = 3600000\<rparr>) = Inr (Some \<lparr>jk_kty = ''RSA'', jk_kid = Some ''old'', jk_use = None\<rparr>)"
  using withdrawn_key_still_found [of "\<lparr>jc_cache = [(''old'', \<lparr>jk_kty = ''RSA'', jk_kid = Some ''old'',
      jk_use = None\<rparr>)], jc_last_fetch = 0, jc_ttl = 3600000\<rparr>" 4000000 "''old''"
      "\<lparr>jk_kty = ''RSA'', jk_kid = Some ''old'', jk_use = None\<rparr>" "[]"] by simp

end
