(* ===== verification/Encryption.thy ===== *)
theory Encryption
  imports Prelude "HOL-Library.Word"
begin

text \<open>
  Encryption at rest, \<open>packages/security/src/encryption\<close>: \<open>FieldEncryption\<close> with its layout of
  IV, tag and ciphertext in one base64 text, \<open>EnvelopeEncryption\<close> with a data key under a master
  key, and \<open>KeyRotationManager\<close>; and \<open>crypto/PiiMasker.ts\<close>.

  Buffers are lists of 8-bit words; base64 and hexadecimal are written out.  AES-256-GCM is the
  arguments \<open>seal\<close> (key, IV, plaintext to ciphertext and tag) and \<open>unseal\<close> (key, IV, tag,
  ciphertext to the plaintext, or none when \<open>final\<close> throws); what the code relies on is
  \<^theory_text>\<open>aead_law\<close>: a 16-byte tag, and what was sealed is unsealed.  Plaintexts are their UTF-8
  bytes.  Random bytes are arguments.
\<close>

type_synonym bytes = "8 word list"

section \<open>Base64\<close>

definition b64_char :: "nat \<Rightarrow> char" where
  "b64_char n =
     (if n < 26 then char_of (65 + n)
      else if n < 52 then char_of (71 + n)
      else if n < 62 then char_of (n - 4)
      else if n = 62 then CHR ''+'' else CHR ''/'')"

text \<open>The decoder of \<open>Buffer\<close> also takes the characters of the URL alphabet.\<close>

definition b64_value :: "char \<Rightarrow> nat option" where
  "b64_value c =
     (let n = (of_char c :: nat) in
      if 65 \<le> n \<and> n \<le> 90 then Some (n - 65)
      else if 97 \<le> n \<and> n \<le> 122 then Some (n - 71)
      else if 48 \<le> n \<and> n \<le> 57 then Some (n + 4)
      else if n = 43 \<or> n = 45 then Some 62
      else if n = 47 \<or> n = 95 then Some 63
      else None)"

fun b64_digits :: "nat list \<Rightarrow> nat list" where
  "b64_digits [] = []"
| "b64_digits [x] = [x div 4, (x mod 4) * 16]"
| "b64_digits [x, y] = [x div 4, (x mod 4) * 16 + y div 16, (y mod 16) * 4]"
| "b64_digits (x # y # z # r) =
     [x div 4, (x mod 4) * 16 + y div 16, (y mod 16) * 4 + z div 64, z mod 64] @ b64_digits r"

fun b64_bytes :: "nat list \<Rightarrow> nat list" where
  "b64_bytes (a # b # c # d # r) =
     [a * 4 + b div 16, (b mod 16) * 16 + c div 4, (c mod 4) * 64 + d] @ b64_bytes r"
| "b64_bytes [a, b, c] = [a * 4 + b div 16, (b mod 16) * 16 + c div 4]"
| "b64_bytes [a, b] = [a * 4 + b div 16]"
| "b64_bytes [a] = []"
| "b64_bytes [] = []"

text \<open>\<open>buffer.toString('base64')\<close>, padded to a multiple of four.\<close>

definition to_base64 :: "bytes \<Rightarrow> string" where
  "to_base64 bs =
     map b64_char (b64_digits (map unat bs))
     @ replicate ((3 - length bs mod 3) mod 3) (CHR ''='')"

text \<open>\<open>Buffer.from(s, 'base64')\<close>: up to the padding, skipping other characters.\<close>

definition from_base64 :: "string \<Rightarrow> bytes" where
  "from_base64 s =
     map of_nat (b64_bytes (List.map_filter b64_value (takeWhile (\<lambda>c. c \<noteq> CHR ''='') s)))"

lemma of_char_of_small: "n < 256 \<Longrightarrow> (of_char (char_of n) :: nat) = n"
  by (simp add: take_bit_eq_mod)

lemma b64_value_char:
  assumes "n < 64"
  shows "b64_value (b64_char n) = Some n"
proof -
  have "(of_char (b64_char n) :: nat) = (if n < 26 then 65 + n else if n < 52 then 71 + n
      else if n < 62 then n - 4 else if n = 62 then 43 else 47)"
    using assms by (auto simp: b64_char_def of_char_of_small)
  then show ?thesis using assms by (auto simp: b64_value_def Let_def split: if_splits)
qed

lemma b64_char_no_pad: "n < 64 \<Longrightarrow> b64_char n \<noteq> CHR ''=''"
  using b64_value_char [of n] by (auto simp: b64_value_def)

lemma b64_digits_small: "\<forall>x \<in> set xs. x < 256 \<Longrightarrow> \<forall>d \<in> set (b64_digits xs). d < 64"
  by (induction xs rule: b64_digits.induct) (auto simp: less_mult_imp_div_less)

lemma b64_bytes_digits: "\<forall>x \<in> set xs. x < 256 \<Longrightarrow> b64_bytes (b64_digits xs) = xs"
  by (induction xs rule: b64_digits.induct) auto

lemma b64_map_filter: "\<forall>d \<in> set ds. d < 64 \<Longrightarrow> List.map_filter b64_value (map b64_char ds) = ds"
  by (induction ds) (simp_all add: List.map_filter_def b64_value_char)

lemma byte_bound: "unat (b :: 8 word) < 256"
  using unsigned_less [where w = b and ?'a = nat] by simp

lemma from_to_base64 [simp]: "from_base64 (to_base64 bs) = bs"
proof -
  have small: "\<forall>x \<in> set (map unat bs). x < 256" using byte_bound by auto
  note digits = b64_digits_small [OF this]
  have "takeWhile (\<lambda>c. c \<noteq> CHR ''='') (to_base64 bs) = map b64_char (b64_digits (map unat bs))"
    unfolding to_base64_def using digits
    by (subst takeWhile_append2) (auto simp: b64_char_no_pad takeWhile_eq_Nil_iff)
  then show ?thesis
    by (simp add: from_base64_def b64_map_filter [OF digits] b64_bytes_digits [OF small] comp_def)
qed

section \<open>Hexadecimal\<close>

definition hex_digit :: "nat \<Rightarrow> char" where
  "hex_digit n = (if n < 10 then char_of (48 + n) else char_of (87 + n))"

definition hex_value :: "char \<Rightarrow> nat option" where
  "hex_value c =
     (let n = (of_char c :: nat) in
      if 48 \<le> n \<and> n \<le> 57 then Some (n - 48)
      else if 97 \<le> n \<and> n \<le> 102 then Some (n - 87)
      else if 65 \<le> n \<and> n \<le> 70 then Some (n - 55)
      else None)"

definition to_hex :: "bytes \<Rightarrow> string" where
  "to_hex bs = concat (map (\<lambda>b. [hex_digit (unat b div 16), hex_digit (unat b mod 16)]) bs)"

text \<open>\<open>Buffer.from(s, 'hex')\<close> stops at the first pair that is not hexadecimal.\<close>

fun from_hex :: "string \<Rightarrow> bytes" where
  "from_hex (c # d # r) =
     (case (hex_value c, hex_value d) of
        (Some x, Some y) \<Rightarrow> of_nat (x * 16 + y) # from_hex r
      | _ \<Rightarrow> [])"
| "from_hex s = []"

lemma hex_value_digit:
  assumes "n < 16"
  shows "hex_value (hex_digit n) = Some n"
proof -
  have "(of_char (hex_digit n) :: nat) = (if n < 10 then 48 + n else 87 + n)"
    using assms by (auto simp: hex_digit_def of_char_of_small)
  then show ?thesis using assms by (auto simp: hex_value_def Let_def split: if_splits)
qed

lemma from_to_hex [simp]: "from_hex (to_hex bs) = bs"
proof (induction bs)
  case (Cons b bs)
  have "hex_value (hex_digit (unat b div 16)) = Some (unat b div 16)"
    "hex_value (hex_digit (unat b mod 16)) = Some (unat b mod 16)"
    using byte_bound [of b] by (simp_all add: hex_value_digit less_mult_imp_div_less)
  with Cons show ?case by (simp add: to_hex_def)
qed (simp add: to_hex_def)

text \<open>The bytes of an ASCII text, and back.\<close>

definition text_bytes :: "string \<Rightarrow> bytes" where
  "text_bytes s = map (\<lambda>c. of_nat (of_char c)) s"

definition bytes_text :: "bytes \<Rightarrow> string" where
  "bytes_text bs = map (\<lambda>b. char_of (unat b)) bs"

lemma bytes_text_bytes [simp]: "bytes_text (text_bytes s) = s"
proof -
  have "char_of (unat (of_nat (of_char c) :: 8 word)) = c" for c
    by (simp add: unat_of_nat take_bit_eq_mod [symmetric])
  then show ?thesis by (simp add: bytes_text_def text_bytes_def comp_def)
qed

section \<open>Field encryption\<close>

type_synonym seal_fn = "bytes \<Rightarrow> bytes \<Rightarrow> bytes \<Rightarrow> bytes \<times> bytes"
type_synonym unseal_fn = "bytes \<Rightarrow> bytes \<Rightarrow> bytes \<Rightarrow> bytes \<Rightarrow> bytes option"

definition aead_law :: "seal_fn \<Rightarrow> unseal_fn \<Rightarrow> bool" where
  "aead_law seal unseal \<longleftrightarrow>
     (\<forall>k iv p. length k = 32 \<longrightarrow> length iv = 12 \<longrightarrow>
        length (snd (seal k iv p)) = 16
        \<and> unseal k iv (snd (seal k iv p)) (fst (seal k iv p)) = Some p)"

datatype key_material = KeyBuffer bytes | Passphrase string

record encrypted_value =
  enc_ciphertext :: string
  enc_algorithm :: string

text \<open>The constructor; \<open>derive\<close> is \<open>scryptSync\<close> with its length of 32.\<close>

definition field_key :: "(string \<Rightarrow> string \<Rightarrow> bytes) \<Rightarrow> key_material \<Rightarrow> string option
    \<Rightarrow> (js_error, bytes) outcome" where
  "field_key derive key salt =
     (case key of
        KeyBuffer k \<Rightarrow> if length k \<noteq> 32 then Inl (plain_error ''Key must be 32 bytes'') else Inr k
      | Passphrase p \<Rightarrow>
          Inr (derive p (case salt of None \<Rightarrow> ''default-salt-change-me'' | Some s \<Rightarrow> s)))"

definition field_encrypt :: "seal_fn \<Rightarrow> bytes \<Rightarrow> bytes \<Rightarrow> bytes \<Rightarrow> encrypted_value" where
  "field_encrypt seal key iv plaintext =
     (let (encrypted, tag) = seal key iv plaintext
      in \<lparr>enc_ciphertext = to_base64 (iv @ tag @ encrypted), enc_algorithm = ''aes-256-gcm''\<rparr>)"

definition field_decrypt :: "unseal_fn \<Rightarrow> bytes \<Rightarrow> encrypted_value \<Rightarrow> (js_error, bytes) outcome" where
  "field_decrypt unseal key value =
     (let combined = from_base64 (enc_ciphertext value);
          iv = take 12 combined;
          tag = take 16 (drop 12 combined);
          ciphertext = drop 28 combined
      in case unseal key iv tag ciphertext of
           None \<Rightarrow> Inl (plain_error ''Unsupported state or unable to authenticate data'')
         | Some p \<Rightarrow> Inr p)"

lemma field_decrypt_encrypt:
  assumes "aead_law seal unseal" and "length key = 32" and "length iv = 12"
  shows "field_decrypt unseal key (field_encrypt seal key iv p) = Inr p"
proof -
  obtain c tag where s: "seal key iv p = (c, tag)" by fastforce
  from assms have "length (snd (seal key iv p)) = 16 \<and>
      unseal key iv (snd (seal key iv p)) (fst (seal key iv p)) = Some p"
    unfolding aead_law_def by blast
  with s have "length tag = 16" "unseal key iv tag c = Some p" by simp_all
  with s assms(3) show ?thesis by (simp add: field_decrypt_def field_encrypt_def)
qed

section \<open>Envelope encryption\<close>

record enveloped_data =
  env_data_key :: string
  env_payload :: string
  env_master_key_id :: "string option"

record envelope =
  ee_master :: bytes
  ee_master_key_id :: "string option"

definition envelope_new :: "(string \<Rightarrow> string \<Rightarrow> bytes) \<Rightarrow> key_material \<Rightarrow> string option
    \<Rightarrow> (js_error, envelope) outcome" where
  "envelope_new derive key kid =
     (case field_key derive key None of
        Inl err \<Rightarrow> Inl err
      | Inr k \<Rightarrow> Inr \<lparr>ee_master = k, ee_master_key_id = kid\<rparr>)"

text \<open>The data key, and the IVs of payload and key, are the random bytes drawn.\<close>

definition envelope_encrypt :: "seal_fn \<Rightarrow> (string \<Rightarrow> string \<Rightarrow> bytes) \<Rightarrow> envelope \<Rightarrow> string option \<Rightarrow> bytes
    \<Rightarrow> bytes \<Rightarrow> bytes \<Rightarrow> bytes \<Rightarrow> (js_error, enveloped_data) outcome" where
  "envelope_encrypt seal derive e opt_key_id data_key iv1 iv2 plaintext =
     (case field_key derive (KeyBuffer data_key) None of
        Inl err \<Rightarrow> Inl err
      | Inr dk \<Rightarrow>
          Inr \<lparr>env_data_key = enc_ciphertext (field_encrypt seal (ee_master e) iv2 (text_bytes (to_hex data_key))),
               env_payload = enc_ciphertext (field_encrypt seal dk iv1 plaintext),
               env_master_key_id = (case opt_key_id of None \<Rightarrow> ee_master_key_id e | Some i \<Rightarrow> Some i)\<rparr>)"

definition envelope_decrypt :: "unseal_fn \<Rightarrow> (string \<Rightarrow> string \<Rightarrow> bytes) \<Rightarrow> envelope \<Rightarrow> enveloped_data
    \<Rightarrow> (js_error, bytes) outcome" where
  "envelope_decrypt unseal derive e d =
     (case field_decrypt unseal (ee_master e) \<lparr>enc_ciphertext = env_data_key d, enc_algorithm = ''aes-256-gcm''\<rparr> of
        Inl err \<Rightarrow> Inl err
      | Inr hex_bytes \<Rightarrow>
          (case field_key derive (KeyBuffer (from_hex (bytes_text hex_bytes))) None of
             Inl err \<Rightarrow> Inl err
           | Inr dk \<Rightarrow> field_decrypt unseal dk \<lparr>enc_ciphertext = env_payload d, enc_algorithm = ''aes-256-gcm''\<rparr>))"

lemma field_encrypt_shape:
  "field_encrypt seal k iv p = \<lparr>enc_ciphertext = enc_ciphertext (field_encrypt seal k iv p),
     enc_algorithm = ''aes-256-gcm''\<rparr>"
  by (simp add: field_encrypt_def case_prod_beta)

text \<open>
  What is encrypted under a master key, with a data key of 32 bytes and two IVs of 12, is decrypted
  under that master key; and every buffer of another length is refused as a key.
\<close>

theorem envelope_round_trip:
  assumes law: "aead_law seal unseal" and "length (ee_master e) = 32"
    and "length data_key = 32" and "length iv1 = 12" and "length iv2 = 12"
  shows "\<exists>d. envelope_encrypt seal derive e kid data_key iv1 iv2 plaintext = Inr d
    \<and> envelope_decrypt unseal derive e d = Inr plaintext
    \<and> (\<forall>k. length k \<noteq> 32 \<longrightarrow> \<not> is_returned (envelope_encrypt seal derive e kid k iv1 iv2 plaintext))"
proof -
  have "field_decrypt unseal (ee_master e) \<lparr>enc_ciphertext = enc_ciphertext
      (field_encrypt seal (ee_master e) iv2 (text_bytes (to_hex data_key))), enc_algorithm = ''aes-256-gcm''\<rparr>
    = Inr (text_bytes (to_hex data_key))"
    unfolding field_encrypt_shape [symmetric] by (rule field_decrypt_encrypt) (use assms in auto)
  moreover have "field_decrypt unseal data_key \<lparr>enc_ciphertext = enc_ciphertext
      (field_encrypt seal data_key iv1 plaintext), enc_algorithm = ''aes-256-gcm''\<rparr> = Inr plaintext"
    unfolding field_encrypt_shape [symmetric] by (rule field_decrypt_encrypt) (use assms in auto)
  ultimately show ?thesis using assms(3)
    by (simp add: envelope_encrypt_def envelope_decrypt_def field_key_def)
qed

text \<open>A cipher with the law, for examples: it hides nothing.\<close>

definition open_seal :: seal_fn where
  "open_seal k iv p = (p, replicate 16 0)"

definition open_unseal :: unseal_fn where
  "open_unseal k iv tag c = Some c"

lemma open_aead: "aead_law open_seal open_unseal"
  by (simp add: aead_law_def open_seal_def open_unseal_def)

theorem envelope_round_trip_witness:
  "\<exists>d. envelope_encrypt open_seal (\<lambda>p s. []) \<lparr>ee_master = replicate 32 1, ee_master_key_id = None\<rparr> None
        (replicate 32 2) (replicate 12 3) (replicate 12 4) [7, 8] = Inr d
    \<and> envelope_decrypt open_unseal (\<lambda>p s. []) \<lparr>ee_master = replicate 32 1, ee_master_key_id = None\<rparr> d = Inr [7, 8]"
proof -
  from envelope_round_trip [OF open_aead, of "\<lparr>ee_master = replicate 32 1, ee_master_key_id = None\<rparr>"
      "replicate 32 2" "replicate 12 3" "replicate 12 4" "\<lambda>p s. []" None "[7, 8]"]
  show ?thesis by auto
qed

section \<open>Key rotation\<close>

record key_entry =
  ke_id :: string
  ke_key :: bytes
  ke_created_at :: int

record rotation_record =
  rr_key_id :: string
  rr_rotated_at :: int
  rr_previous :: string

record key_manager =
  km_keys :: "key_entry list"
  km_active :: string
  km_history :: "rotation_record list"

definition key_manager_new :: "bytes option \<Rightarrow> bytes \<Rightarrow> string \<Rightarrow> int \<Rightarrow> key_manager" where
  "key_manager_new initial drawn id_hex now =
     (let key = (case initial of None \<Rightarrow> drawn | Some k \<Rightarrow> k); kid = ''key_'' @ id_hex
      in \<lparr>km_keys = [\<lparr>ke_id = kid, ke_key = key, ke_created_at = now\<rparr>], km_active = kid, km_history = []\<rparr>)"

definition key_for :: "string \<Rightarrow> key_manager \<Rightarrow> bytes option" where
  "key_for kid m = map_option ke_key (List.find (\<lambda>k. ke_id k = kid) (km_keys m))"

definition active_key :: "key_manager \<Rightarrow> (js_error, bytes) outcome" where
  "active_key m = (case key_for (km_active m) m of None \<Rightarrow> Inl (plain_error ''No active key'') | Some k \<Rightarrow> Inr k)"

definition rotate_key :: "bytes \<Rightarrow> string \<Rightarrow> int \<Rightarrow> key_manager \<Rightarrow> rotation_record \<times> key_manager" where
  "rotate_key new_key id_hex now m =
     (let previous = km_active m;
          new_id = ''key_'' @ id_hex;
          record = \<lparr>rr_key_id = new_id, rr_rotated_at = now, rr_previous = previous\<rparr>
      in (record, m\<lparr>km_keys := km_keys m @ [\<lparr>ke_id = new_id, ke_key = new_key, ke_created_at = now\<rparr>],
                    km_active := new_id, km_history := km_history m @ [record]\<rparr>))"

definition rotate_all :: "(bytes \<times> string \<times> int) list \<Rightarrow> key_manager \<Rightarrow> key_manager" where
  "rotate_all rs m = foldl (\<lambda>m (k, i, now). snd (rotate_key k i now m)) m rs"

lemma key_for_rotate:
  "key_for kid (snd (rotate_key k i now m)) =
     (case key_for kid m of Some x \<Rightarrow> Some x | None \<Rightarrow> if ''key_'' @ i = kid then Some k else None)"
proof -
  have "List.find P (xs @ [x]) = (case List.find P xs of Some y \<Rightarrow> Some y | None \<Rightarrow> if P x then Some x else None)"
    for P and xs :: "key_entry list" and x
    by (induction xs) auto
  then show ?thesis by (simp add: key_for_def rotate_key_def Let_def split: option.split)
qed

lemma key_for_rotate_all: "key_for kid m = Some k \<Longrightarrow> key_for kid (rotate_all rs m) = Some k"
  by (induction rs arbitrary: m) (auto simp: rotate_all_def key_for_rotate)

lemma active_rotate: "key_for (km_active (snd (rotate_key k i now m))) (snd (rotate_key k i now m)) \<noteq> None"
  by (simp add: key_for_rotate) (simp add: rotate_key_def Let_def split: option.split)

text \<open>C13: 
  After any rotations there is an active key, the number of keys and the history have grown by one
  each, and what was encrypted under the active key before is decrypted with the key that is kept
  under its identifier.
\<close>

theorem old_data_survives_rotation:
  assumes law: "aead_law seal unseal" and "active_key m = Inr k" and "length k = 32" and "length iv = 12"
  shows "\<exists>k'. key_for (km_active m) (rotate_all rs m) = Some k'
      \<and> field_decrypt unseal k' (field_encrypt seal k iv p) = Inr p
    \<and> is_returned (active_key (rotate_all rs m))
    \<and> length (km_keys (rotate_all rs m)) = length (km_keys m) + length rs
    \<and> length (km_history (rotate_all rs m)) = length (km_history m) + length rs"
proof -
  from assms(2) have k: "key_for (km_active m) m = Some k" by (simp add: active_key_def split: option.splits)
  have "is_returned (active_key (rotate_all rs m))"
  proof (cases rs rule: rev_cases)
    case Nil
    with assms(2) show ?thesis by (simp add: rotate_all_def)
  next
    case (snoc qs r)
    obtain nk i now where "r = (nk, i, now)" by (cases r)
    with snoc active_rotate [of nk i now "rotate_all qs m"] show ?thesis
      by (auto simp: rotate_all_def active_key_def)
  qed
  moreover have "length (km_keys (rotate_all rs m)) = length (km_keys m) + length rs
      \<and> length (km_history (rotate_all rs m)) = length (km_history m) + length rs"
    by (induction rs rule: rev_induct) (auto simp: rotate_all_def rotate_key_def Let_def case_prod_beta)
  ultimately show ?thesis
    using key_for_rotate_all [OF k] field_decrypt_encrypt [OF law assms(3,4)] by blast
qed

theorem old_data_survives_rotation_witness:
  "\<exists>k'. key_for ''key_a'' (rotate_all [(replicate 32 2, ''b'', 1)] (key_manager_new None (replicate 32 1) ''a'' 0)) = Some k'
      \<and> field_decrypt open_unseal k' (field_encrypt open_seal (replicate 32 1) (replicate 12 0) [5]) = Inr [5]"
proof -
  let ?m = "key_manager_new None (replicate 32 1) ''a'' 0"
  have "active_key ?m = Inr (replicate 32 1)" "km_active ?m = ''key_a''"
    by (simp_all add: active_key_def key_for_def key_manager_new_def Let_def)
  with old_data_survives_rotation [OF open_aead this(1), of "replicate 12 0" "[(replicate 32 2, ''b'', 1)]" "[5]"]
  show ?thesis by auto
qed

text \<open>
  Identifiers have four random bytes: a rotation that draws one already in use does not take
  effect, the key in use stays the earlier one of that identifier.
\<close>

theorem colliding_rotation_keeps_old_key:
  assumes "key_for (''key_'' @ i) m = Some old"
  shows "active_key (snd (rotate_key new_key i now m)) = Inr old"
  using assms by (simp add: active_key_def key_for_rotate) (simp add: rotate_key_def Let_def key_for_rotate)

theorem colliding_rotation_keeps_old_key_witness:
  "active_key (snd (rotate_key (replicate 32 2) ''a'' 1 (key_manager_new None (replicate 32 1) ''a'' 0)))
     = Inr (replicate 32 1)"
  by (rule colliding_rotation_keeps_old_key) (simp add: key_for_def key_manager_new_def Let_def)

section \<open>Masking\<close>

record mask_options =
  mo_prefix :: "nat option"
  mo_suffix :: "nat option"
  mo_char :: "string option"

definition mask_value :: "string \<Rightarrow> mask_options option \<Rightarrow> string" where
  "mask_value value opts =
     (let prefix_len = (case Option.bind opts mo_prefix of None \<Rightarrow> 0 | Some n \<Rightarrow> n);
          suffix_len = (case Option.bind opts mo_suffix of None \<Rightarrow> 0 | Some n \<Rightarrow> n);
          mask_char = (case Option.bind opts mo_char of None \<Rightarrow> ''*'' | Some c \<Rightarrow> c);
          len = length value;
          keep = prefix_len + suffix_len
      in if keep \<ge> len then value
         else
           take prefix_len value @ concat (replicate (len - keep) mask_char)
           @ (if suffix_len > 0 then drop (len - suffix_len) value else []))"

text \<open>
  The mask of a value longer than the shown ends depends on these ends and the length only, so
  nothing of the middle can be read from it, and has the same length when the mask character is one
  character; a value no longer than the shown ends comes back as it is.
\<close>

theorem mask_hides_middle:
  assumes "length v = length w" and "take p v = take p w"
    and "drop (length v - s) v = drop (length v - s) w" and "length c = 1"
  shows "(p + s < length v \<longrightarrow>
      mask_value v (Some \<lparr>mo_prefix = Some p, mo_suffix = Some s, mo_char = Some c\<rparr>)
        = mask_value w (Some \<lparr>mo_prefix = Some p, mo_suffix = Some s, mo_char = Some c\<rparr>)
      \<and> length (mask_value v (Some \<lparr>mo_prefix = Some p, mo_suffix = Some s, mo_char = Some c\<rparr>)) = length v)
    \<and> (length v \<le> p + s \<longrightarrow>
      mask_value v (Some \<lparr>mo_prefix = Some p, mo_suffix = Some s, mo_char = Some c\<rparr>) = v)"
proof -
  have "length (concat (replicate n c)) = n" for n using assms(4) by (induction n) simp_all
  then show ?thesis using assms by (auto simp: mask_value_def Let_def)
qed

theorem mask_hides_middle_witness:
  "mask_value ''4111111111111234'' (Some \<lparr>mo_prefix = Some 0, mo_suffix = Some 4, mo_char = Some ''*''\<rparr>)
    = mask_value ''4999999999991234'' (Some \<lparr>mo_prefix = Some 0, mo_suffix = Some 4, mo_char = Some ''*''\<rparr>)"
  using mask_hides_middle [of "''4111111111111234''" "''4999999999991234''" 0 4 "''*''"] by simp

text \<open>
  The examples of the documentation give a text with the \<open>@\<close> shown and one with seven stars; the
  code hides the \<open>@\<close> and prints eight.
\<close>

theorem mask_examples_differ:
  "mask_value ''user@example.com'' (Some \<lparr>mo_prefix = None, mo_suffix = Some 11, mo_char = None\<rparr>)
     = ''*****example.com''
   \<and> mask_value ''+1-800-555-0100'' (Some \<lparr>mo_prefix = Some 3, mo_suffix = Some 4, mo_char = None\<rparr>)
     = ''+1-********0100''"
  by (simp add: mask_value_def Let_def eval_nat_numeral)

section \<open>Signatures and text encryption\<close>

text \<open>\<open>HmacSha256Signer\<close>; \<open>hmac key data\<close> is the 32 bytes of \<open>createHmac('sha256', key).update(data)\<close>.\<close>

definition hmac_sign :: "(string \<Rightarrow> string \<Rightarrow> bytes) \<Rightarrow> string \<Rightarrow> string \<Rightarrow> string" where
  "hmac_sign hmac data key = to_hex (hmac key data)"

definition hmac_verify :: "(string \<Rightarrow> string \<Rightarrow> bytes) \<Rightarrow> string \<Rightarrow> string \<Rightarrow> string \<Rightarrow> bool" where
  "hmac_verify hmac data key signature =
     (let expected = hmac_sign hmac data key; a = from_hex expected; b = from_hex signature
      in if length a \<noteq> length b then False else a = b)"

definition sha256_hash :: "(string \<Rightarrow> bytes) \<Rightarrow> string \<Rightarrow> string" where
  "sha256_hash sha data = to_hex (sha data)"

record cipher_result =
  ci_ciphertext :: string
  ci_iv :: string
  ci_tag :: string

text \<open>\<open>AesGcmCipher\<close> under the digest of the key text; the IV is drawn at each call.\<close>

definition cipher_encrypt :: "seal_fn \<Rightarrow> (string \<Rightarrow> bytes) \<Rightarrow> bytes \<Rightarrow> bytes \<Rightarrow> string \<Rightarrow> cipher_result" where
  "cipher_encrypt seal sha iv plaintext key =
     (let (encrypted, tag) = seal (sha key) iv plaintext
      in \<lparr>ci_ciphertext = to_hex encrypted, ci_iv = to_hex iv, ci_tag = to_hex tag\<rparr>)"

definition cipher_decrypt :: "unseal_fn \<Rightarrow> (string \<Rightarrow> bytes) \<Rightarrow> cipher_result \<Rightarrow> string \<Rightarrow> (js_error, bytes) outcome" where
  "cipher_decrypt unseal sha r key =
     (case unseal (sha key) (from_hex (ci_iv r)) (from_hex (ci_tag r)) (from_hex (ci_ciphertext r)) of
        None \<Rightarrow> Inl (plain_error ''Unsupported state or unable to authenticate data'')
      | Some p \<Rightarrow> Inr p)"

text \<open>\<open>KmsClient\<close> passes its key id to the adapter.\<close>

record kms_config =
  km_provider :: string
  km_key_id :: string

record 'w kms_adapter =
  ka_encrypt :: "string \<Rightarrow> string \<Rightarrow> 'w \<Rightarrow> (js_error, string) outcome \<times> 'w"
  ka_decrypt :: "string \<Rightarrow> string \<Rightarrow> 'w \<Rightarrow> (js_error, string) outcome \<times> 'w"

definition kms_encrypt :: "kms_config \<Rightarrow> 'w kms_adapter \<Rightarrow> string \<Rightarrow> 'w \<Rightarrow> (js_error, string) outcome \<times> 'w" where
  "kms_encrypt cfg adapter plaintext = ka_encrypt adapter plaintext (km_key_id cfg)"

definition kms_decrypt :: "kms_config \<Rightarrow> 'w kms_adapter \<Rightarrow> string \<Rightarrow> 'w \<Rightarrow> (js_error, string) outcome \<times> 'w" where
  "kms_decrypt cfg adapter ciphertext = ka_decrypt adapter ciphertext (km_key_id cfg)"

lemma from_hex_append: "from_hex (to_hex bs @ s) = bs @ from_hex s"
proof (induction bs)
  case (Cons b bs)
  have "hex_value (hex_digit (unat b div 16)) = Some (unat b div 16)"
    "hex_value (hex_digit (unat b mod 16)) = Some (unat b mod 16)"
    using byte_bound [of b] by (simp_all add: hex_value_digit less_mult_imp_div_less)
  with Cons show ?case by (simp add: to_hex_def)
qed (simp add: to_hex_def)

text \<open>
  A signature is accepted exactly when the bytes its text starts with are those of the digest: the
  signature of the signer is, and so is it with a tail that no pair of hexadecimal digits starts;
  one for other data is accepted only when the digests are the same.
\<close>

theorem hmac_verify_iff:
  "(hmac_verify hmac data key signature \<longleftrightarrow> from_hex signature = hmac key data)
   \<and> hmac_verify hmac data key (hmac_sign hmac data key)
   \<and> (hmac_verify hmac data key (hmac_sign hmac other key2) \<longleftrightarrow> hmac key2 other = hmac key data)
   \<and> hmac_verify hmac data key (hmac_sign hmac data key @ CHR ''x'' # extra)"
proof -
  have x: "hex_value CHR ''x'' = None" by (simp add: hex_value_def)
  have tail: "from_hex (CHR ''x'' # extra) = []"
  proof (cases extra)
    case (Cons d r)
    then show ?thesis by (simp only: from_hex.simps x) simp
  qed simp
  have "hmac_verify hmac data key s \<longleftrightarrow> from_hex s = hmac key data" for s
    unfolding hmac_verify_def hmac_sign_def Let_def from_to_hex by auto
  then show ?thesis by (simp add: hmac_sign_def from_hex_append tail)
qed

text \<open>What the cipher encrypts it decrypts with the same key text.\<close>

theorem cipher_round_trip:
  assumes "aead_law seal unseal" and "length (sha key) = 32" and "length iv = 12"
  shows "cipher_decrypt unseal sha (cipher_encrypt seal sha iv p key) key = Inr p"
proof -
  obtain c tag where s: "seal (sha key) iv p = (c, tag)" by fastforce
  from assms have "unseal (sha key) iv (snd (seal (sha key) iv p)) (fst (seal (sha key) iv p)) = Some p"
    unfolding aead_law_def by blast
  with s show ?thesis by (simp add: cipher_decrypt_def cipher_encrypt_def)
qed

theorem cipher_round_trip_witness:
  "cipher_decrypt open_unseal (\<lambda>_. replicate 32 1) (cipher_encrypt open_seal (\<lambda>_. replicate 32 1) (replicate 12 0) [5, 6] ''k'') ''k''
     = Inr [5, 6]"
  by (rule cipher_round_trip [OF open_aead]) simp_all

end
