(* ===== verification/Authentication.thy ===== *)
theory Authentication
  imports Prelude
begin

text \<open>
  Who is calling, \<open>packages/security/src\<close>: certificate validation, revocation lists, certificate
  rotation and client certificates (\<open>mtls\<close>), JWT and API key authentication (\<open>authn\<close>) and the
  role-based policy engine (\<open>authz\<close>).

  Times are milliseconds; a day of \<open>setDate\<close> is 86400000 of them.  The reason of a refusal is a
  value with the data its text prints.  The JWT verifier, the fetch of a revocation list and the
  renewal of a certificate are what they answered.
\<close>

section \<open>Certificates\<close>

record x509_cert =
  xc_subject :: "(string, string) jsmap"
  xc_issuer :: "(string, string) jsmap"
  xc_serial :: string
  xc_not_before :: int
  xc_not_after :: int
  xc_fingerprint :: "string option"

record cert_options =
  co_trusted_cas :: "string list option"
  co_check_crl :: "bool option"
  co_allowed_subjects :: "string list option"
  co_max_chain_depth :: "int option"

datatype cert_reason =
  NotYetValid int | HasExpired int | SubjectNotAllowed string | ChainTooDeep int int

record cert_result =
  cr_valid :: bool
  cr_reason :: "cert_reason option"
  cr_cert :: "x509_cert option"

definition starts_with :: "string \<Rightarrow> string \<Rightarrow> bool" where
  "starts_with s t = (take (length t) s = t)"

definition ends_with :: "string \<Rightarrow> string \<Rightarrow> bool" where
  "ends_with s t = (length t \<le> length s \<and> drop (length s - length t) s = t)"

definition match_subject :: "string \<Rightarrow> string \<Rightarrow> bool" where
  "match_subject cn pattern =
     (if starts_with pattern ''*'' then ends_with cn (drop 1 pattern) else cn = pattern)"

definition cert_validate :: "cert_options \<Rightarrow> int \<Rightarrow> x509_cert \<Rightarrow> cert_result" where
  "cert_validate opts now cert =
     (if now < xc_not_before cert then
        \<lparr>cr_valid = False, cr_reason = Some (NotYetValid (xc_not_before cert)), cr_cert = Some cert\<rparr>
      else if now > xc_not_after cert then
        \<lparr>cr_valid = False, cr_reason = Some (HasExpired (xc_not_after cert)), cr_cert = Some cert\<rparr>
      else
        (let cn = (case jget (xc_subject cert) ''CN'' of None \<Rightarrow> [] | Some c \<Rightarrow> c);
             refused = (case co_allowed_subjects opts of
                 None \<Rightarrow> False
               | Some subjects \<Rightarrow> length subjects > 0 \<and> \<not> list_ex (match_subject cn) subjects)
         in if refused then
              \<lparr>cr_valid = False, cr_reason = Some (SubjectNotAllowed cn), cr_cert = Some cert\<rparr>
            else \<lparr>cr_valid = True, cr_reason = None, cr_cert = Some cert\<rparr>))"

fun check_chain :: "cert_options \<Rightarrow> int \<Rightarrow> x509_cert list \<Rightarrow> cert_result" where
  "check_chain opts now [] = \<lparr>cr_valid = True, cr_reason = None, cr_cert = None\<rparr>"
| "check_chain opts now (c # cs) =
     (let r = cert_validate opts now c in if \<not> cr_valid r then r else check_chain opts now cs)"

definition validate_chain :: "cert_options \<Rightarrow> int \<Rightarrow> x509_cert list \<Rightarrow> cert_result" where
  "validate_chain opts now chain =
     (let max_depth = (case co_max_chain_depth opts of None \<Rightarrow> 5 | Some d \<Rightarrow> d)
      in if int (length chain) > max_depth then
           \<lparr>cr_valid = False, cr_reason = Some (ChainTooDeep (int (length chain)) max_depth), cr_cert = None\<rparr>
         else check_chain opts now chain)"

definition is_expiring_soon :: "x509_cert \<Rightarrow> int \<Rightarrow> int \<Rightarrow> bool" where
  "is_expiring_soon cert within_days now = (xc_not_after cert \<le> now + within_days * 86400000)"

text \<open>\<open>part.indexOf('=')\<close>, or none.\<close>

fun index_of :: "char \<Rightarrow> string \<Rightarrow> nat option" where
  "index_of x [] = None"
| "index_of x (c # cs) = (if c = x then Some 0 else map_option Suc (index_of x cs))"

definition parse_dn_part :: "(string, string) jsmap \<Rightarrow> string \<Rightarrow> (string, string) jsmap" where
  "parse_dn_part m part =
     (case index_of (CHR ''='') part of
        None \<Rightarrow> m
      | Some eq \<Rightarrow>
          if eq > 0 then jset (js_trim (take eq part)) (js_trim (drop (eq + 1) part)) m else m)"

definition parse_dn :: "string \<Rightarrow> (string, string) jsmap" where
  "parse_dn dn = foldl parse_dn_part [] (js_split (CHR '','') dn)"

section \<open>Revocation\<close>

record revocation_entry =
  re_serial :: string
  re_revoked_at :: int
  re_reason :: "string option"

type_synonym revocations = "(string, revocation_entry) jsmap"

datatype crl_response = CrlRejects js_error | CrlNotOk | CrlText string

definition cert_revoke :: "string \<Rightarrow> string option \<Rightarrow> int \<Rightarrow> revocations \<Rightarrow> revocations" where
  "cert_revoke serial reason now rs =
     jset serial \<lparr>re_serial = serial, re_revoked_at = now, re_reason = reason\<rparr> rs"

definition cert_unrevoke :: "string \<Rightarrow> revocations \<Rightarrow> revocations" where
  "cert_unrevoke serial rs = jdelete serial rs"

definition is_revoked :: "string \<Rightarrow> revocations \<Rightarrow> bool" where
  "is_revoked serial rs = jhas rs serial"

definition add_crl_lines :: "int \<Rightarrow> revocations \<Rightarrow> string list \<Rightarrow> revocations" where
  "add_crl_lines now rs ls =
     foldl (\<lambda>m line. let serial = js_trim line in
       if length serial > 0 then cert_revoke serial (Some ''CRL'') now m else m) rs ls"

definition load_crl :: "string \<Rightarrow> crl_response option \<Rightarrow> int \<Rightarrow> revocations
    \<Rightarrow> (js_error, unit) outcome \<times> revocations" where
  "load_crl url response now rs =
     (case response of
        None \<Rightarrow> (Inl (plain_error ''No fetch function provided for CRL loading''), rs)
      | Some (CrlRejects err) \<Rightarrow> (Inl err, rs)
      | Some CrlNotOk \<Rightarrow> (Inl (plain_error (''CRL fetch failed: '' @ url)), rs)
      | Some (CrlText txt) \<Rightarrow>
          (Inr (), add_crl_lines now rs (js_split (CHR 10) txt)))"

fun refresh_all :: "(string \<Rightarrow> crl_response option) \<Rightarrow> string list \<Rightarrow> int \<Rightarrow> revocations
    \<Rightarrow> (js_error, unit) outcome \<times> revocations" where
  "refresh_all fetch [] now rs = (Inr (), rs)"
| "refresh_all fetch (url # urls) now rs =
     (case load_crl url (fetch url) now rs of
        (Inl err, rs1) \<Rightarrow> (Inl err, rs1)
      | (Inr u, rs1) \<Rightarrow> refresh_all fetch urls now rs1)"

definition check_pin :: "string \<Rightarrow> string list \<Rightarrow> bool" where
  "check_pin fingerprint pinned = (fingerprint \<in> set pinned)"

section \<open>Authentication and authorisation\<close>

record principal =
  pr_id :: string
  pr_tenant_id :: "string option"
  pr_roles :: "string list"
  pr_permissions :: "string list"

datatype auth_error = InvalidTokenError | ExpiredTokenError | CertificateRefused "cert_reason option"

type_synonym auth_result = "auth_error + principal"

record mtls_connection =
  mc_peer_cert :: "x509_cert option"
  mc_verified :: bool

definition authenticate_cert :: "cert_options \<Rightarrow> int \<Rightarrow> x509_cert \<Rightarrow> auth_result" where
  "authenticate_cert opts now cert =
     (let r = cert_validate opts now cert in
      if \<not> cr_valid r then Inl (CertificateRefused (cr_reason r))
      else
        (let cn = (case jget (xc_subject cert) ''CN'' of None \<Rightarrow> xc_serial cert | Some c \<Rightarrow> c)
         in Inr \<lparr>pr_id = cn, pr_tenant_id = None, pr_roles = [], pr_permissions = []\<rparr>))"

definition authenticate_connection :: "cert_options \<Rightarrow> int \<Rightarrow> mtls_connection \<Rightarrow> auth_result" where
  "authenticate_connection opts now conn =
     (case mc_peer_cert conn of
        None \<Rightarrow> Inl InvalidTokenError
      | Some cert \<Rightarrow>
          if \<not> mc_verified conn then Inl InvalidTokenError else authenticate_cert opts now cert)"

definition strip_bearer :: "string \<Rightarrow> string" where
  "strip_bearer token = (if starts_with token ''Bearer '' then drop 7 token else token)"

definition api_key_registry :: "(string \<times> principal) list \<Rightarrow> (string, principal) jsmap" where
  "api_key_registry ks = foldl (\<lambda>m (k, p). jset k p m) [] ks"

definition authenticate_api_key :: "(string, principal) jsmap \<Rightarrow> string \<Rightarrow> auth_result" where
  "authenticate_api_key registry token =
     (let raw = strip_bearer token in
      if length raw = 0 then Inl InvalidTokenError
      else (case jget registry raw of None \<Rightarrow> Inl InvalidTokenError | Some p \<Rightarrow> Inr p))"

datatype claim = ClaimString string | ClaimStrings "string list" | ClaimOther

record jwt_claims =
  jw_sub :: string
  jw_other :: "(string, claim) jsmap"

definition claim_strings :: "claim option \<Rightarrow> string list" where
  "claim_strings c = (case c of Some (ClaimStrings xs) \<Rightarrow> xs | _ \<Rightarrow> [])"

definition authenticate_jwt :: "(string \<Rightarrow> string \<Rightarrow> (js_error, jwt_claims) outcome) \<Rightarrow> string \<Rightarrow> string
    \<Rightarrow> auth_result" where
  "authenticate_jwt verify secret token =
     (case verify (strip_bearer token) secret of
        Inr claims \<Rightarrow>
          Inr \<lparr>pr_id = jw_sub claims,
               pr_tenant_id = (case jget (jw_other claims) ''tenantId'' of
                   Some (ClaimString t) \<Rightarrow> Some t | _ \<Rightarrow> None),
               pr_roles = claim_strings (jget (jw_other claims) ''roles''),
               pr_permissions = claim_strings (jget (jw_other claims) ''permissions'')\<rparr>
      | Inl err \<Rightarrow>
          if error_name err = ''TokenExpiredError'' then Inl ExpiredTokenError else Inl InvalidTokenError)"

datatype policy_decision = Allow | Deny

definition rbac_evaluate :: "(string, string list) jsmap \<Rightarrow> principal \<Rightarrow> string \<Rightarrow> policy_decision" where
  "rbac_evaluate role_permissions p required =
     (let has = list_ex (\<lambda>role. case jget role_permissions role of
          None \<Rightarrow> False | Some perms \<Rightarrow> required \<in> set perms) (pr_roles p)
      in if has then Allow else Deny)"

section \<open>Certificate rotation\<close>

record cert_rotation =
  cro_current :: "x509_cert option"
  cro_renew_before_days :: int
  cro_timer :: "int option"
  cro_renewing :: nat

definition rotation_install :: "x509_cert \<Rightarrow> cert_rotation \<Rightarrow> cert_rotation" where
  "rotation_install cert m = m\<lparr>cro_current := Some cert\<rparr>"

definition needs_rotation :: "int \<Rightarrow> cert_rotation \<Rightarrow> bool" where
  "needs_rotation now m =
     (case cro_current m of
        None \<Rightarrow> True
      | Some cert \<Rightarrow> is_expiring_soon cert (cro_renew_before_days m) now)"

text \<open>A rotation begins with the call of \<open>onRenew\<close> and installs what it answers.\<close>

definition rotation_begin :: "cert_rotation \<Rightarrow> cert_rotation" where
  "rotation_begin m = m\<lparr>cro_renewing := cro_renewing m + 1\<rparr>"

definition rotation_finish :: "(js_error, x509_cert) outcome \<Rightarrow> cert_rotation
    \<Rightarrow> (js_error, x509_cert) outcome \<times> cert_rotation" where
  "rotation_finish answer m =
     (let m1 = m\<lparr>cro_renewing := cro_renewing m - 1\<rparr>
      in case answer of
           Inl err \<Rightarrow> (Inl err, m1)
         | Inr cert \<Rightarrow> (Inr cert, m1\<lparr>cro_current := Some cert\<rparr>))"

definition start_auto_rotation :: "int \<Rightarrow> cert_rotation \<Rightarrow> cert_rotation" where
  "start_auto_rotation interval m = m\<lparr>cro_timer := Some interval\<rparr>"

definition stop_auto_rotation :: "cert_rotation \<Rightarrow> cert_rotation" where
  "stop_auto_rotation m = m\<lparr>cro_timer := None\<rparr>"

text \<open>The timer's callback.\<close>

definition rotation_tick :: "int \<Rightarrow> cert_rotation \<Rightarrow> cert_rotation" where
  "rotation_tick now m =
     (case cro_timer m of
        None \<Rightarrow> m
      | Some i \<Rightarrow> if needs_rotation now m then rotation_begin m else m)"

section \<open>What validation decides\<close>

definition subject_allowed :: "cert_options \<Rightarrow> x509_cert \<Rightarrow> bool" where
  "subject_allowed opts cert =
     (case co_allowed_subjects opts of
        None \<Rightarrow> True
      | Some subjects \<Rightarrow> subjects = [] \<or>
          (\<exists>s \<in> set subjects. match_subject (case jget (xc_subject cert) ''CN'' of None \<Rightarrow> [] | Some c \<Rightarrow> c) s))"

lemma cert_valid_iff:
  "cr_valid (cert_validate opts now cert) \<longleftrightarrow>
     xc_not_before cert \<le> now \<and> now \<le> xc_not_after cert \<and> subject_allowed opts cert"
  by (auto simp: cert_validate_def subject_allowed_def Let_def list_ex_iff split: option.splits)

lemma check_chain_iff:
  "cr_valid (check_chain opts now chain) \<longleftrightarrow> (\<forall>c \<in> set chain. cr_valid (cert_validate opts now c))"
  by (induction chain) (auto simp: Let_def)

text \<open>
  A chain is valid exactly when it is short enough and each of its certificates is, by itself, in
  its time and of an allowed subject; and the leaf of a verified connection is authenticated exactly
  under this condition.
\<close>

theorem certificate_decision:
  "(cr_valid (validate_chain opts now chain) \<longleftrightarrow>
      int (length chain) \<le> (case co_max_chain_depth opts of None \<Rightarrow> 5 | Some d \<Rightarrow> d)
      \<and> (\<forall>c \<in> set chain. xc_not_before c \<le> now \<and> now \<le> xc_not_after c \<and> subject_allowed opts c))
   \<and> ((\<exists>p. authenticate_connection opts now conn = Inr p) \<longleftrightarrow>
      (\<exists>c. mc_peer_cert conn = Some c \<and> mc_verified conn
         \<and> xc_not_before c \<le> now \<and> now \<le> xc_not_after c \<and> subject_allowed opts c))"
  by (auto simp: validate_chain_def Let_def check_chain_iff cert_valid_iff authenticate_connection_def
      authenticate_cert_def split: option.split)

theorem certificate_decision_witness:
  "cr_valid (validate_chain \<lparr>co_trusted_cas = None, co_check_crl = None, co_allowed_subjects = Some [''*.shop''],
      co_max_chain_depth = None\<rparr> 5 [\<lparr>xc_subject = [(''CN'', ''a.shop'')], xc_issuer = [], xc_serial = ''1'',
      xc_not_before = 0, xc_not_after = 9, xc_fingerprint = None\<rparr>])"
  using certificate_decision [of "\<lparr>co_trusted_cas = None, co_check_crl = None,
      co_allowed_subjects = Some [''*.shop''], co_max_chain_depth = None\<rparr>" 5
      "[\<lparr>xc_subject = [(''CN'', ''a.shop'')], xc_issuer = [], xc_serial = ''1'', xc_not_before = 0,
         xc_not_after = 9, xc_fingerprint = None\<rparr>]" "\<lparr>mc_peer_cert = None, mc_verified = False\<rparr>"]
  by (simp add: subject_allowed_def match_subject_def starts_with_def ends_with_def)

lemma subject_allowed_update [simp]:
  "subject_allowed (opts\<lparr>co_trusted_cas := cas, co_check_crl := crl\<rparr>) (c\<lparr>xc_issuer := i\<rparr>) = subject_allowed opts c"
  by (simp add: subject_allowed_def split: option.split)

text \<open>
  Nothing links the certificates of a chain, and the trusted authorities and the revocation switch
  of the options are not read: changing issuers and these options never changes the verdict.
\<close>

theorem chain_verdict_ignores_issuers:
  "cr_valid (validate_chain (opts\<lparr>co_trusted_cas := cas, co_check_crl := crl\<rparr>) now
      (map (\<lambda>c. c\<lparr>xc_issuer := f c\<rparr>) chain))
    = cr_valid (validate_chain opts now chain)"
  by (simp add: validate_chain_def check_chain_iff cert_valid_iff Let_def)

section \<open>Distinguished names\<close>

fun join_commas :: "string list \<Rightarrow> string" where
  "join_commas [] = []"
| "join_commas [x] = x"
| "join_commas (x # y # xs) = x @ CHR '','' # join_commas (y # xs)"

definition show_dn :: "(string \<times> string) list \<Rightarrow> string" where
  "show_dn kvs = join_commas (map (\<lambda>(k, v). k @ CHR ''='' # v) kvs)"

lemma split_join: "xs \<noteq> [] \<Longrightarrow> \<forall>x \<in> set xs. CHR '','' \<notin> set x \<Longrightarrow> js_split (CHR '','') (join_commas xs) = xs"
  by (induction xs rule: join_commas.induct) (simp_all add: js_split_absent js_split_at)

lemma index_of_append: "x \<notin> set k \<Longrightarrow> index_of x (k @ x # v) = Some (length k)"
  by (induction k) auto

definition dn_plain :: "string \<times> string \<Rightarrow> bool" where
  "dn_plain kv \<longleftrightarrow> fst kv \<noteq> [] \<and> js_trim (fst kv) = fst kv \<and> js_trim (snd kv) = snd kv
     \<and> CHR '','' \<notin> set (fst kv) \<and> CHR ''='' \<notin> set (fst kv) \<and> CHR '','' \<notin> set (snd kv)"

text \<open>Parsing a printed distinguished name gives its attributes, a repeated one its last value.\<close>

theorem dn_round_trip:
  assumes "\<forall>kv \<in> set kvs. dn_plain kv"
  shows "parse_dn (show_dn kvs) = foldl (\<lambda>m (k, v). jset k v m) [] kvs"
proof (cases "kvs = []")
  case True
  then show ?thesis by (simp add: parse_dn_def show_dn_def parse_dn_part_def)
next
  case False
  have part: "parse_dn_part m (k @ CHR ''='' # v) = jset k v m" if "(k, v) \<in> set kvs" for m k v
    using assms that by (auto simp: parse_dn_part_def dn_plain_def index_of_append)
  have "foldl parse_dn_part m (map (\<lambda>(k, v). k @ CHR ''='' # v) xs) = foldl (\<lambda>m (k, v). jset k v m) m xs"
    if "set xs \<subseteq> set kvs" for m xs
    using that by (induction xs arbitrary: m) (auto simp: part)
  moreover have "js_split (CHR '','') (show_dn kvs) = map (\<lambda>(k, v). k @ CHR ''='' # v) kvs"
    unfolding show_dn_def using False assms by (intro split_join) (auto simp: dn_plain_def)
  ultimately show ?thesis by (simp add: parse_dn_def)
qed

theorem dn_round_trip_witness:
  "parse_dn (show_dn [(''CN'', ''foo''), (''O'', ''Acme'')]) = foldl (\<lambda>m (k, v). jset k v m) [] [(''CN'', ''foo''), (''O'', ''Acme'')]"
  by (rule dn_round_trip) (simp add: dn_plain_def js_trim_def is_js_space_def)

section \<open>Revocation lists\<close>

lemma revoked_after_lines:
  "is_revoked s (add_crl_lines now rs ls)
   \<longleftrightarrow> is_revoked s rs \<or> (s \<noteq> [] \<and> s \<in> js_trim ` set ls)"
  unfolding add_crl_lines_def
  by (induction ls arbitrary: rs) (auto simp: Let_def is_revoked_def cert_revoke_def)

lemma refresh_never_unrevokes:
  "is_revoked s rs \<Longrightarrow> is_revoked s (snd (refresh_all fetch urls now rs))"
proof (induction urls arbitrary: rs)
  case (Cons url urls)
  then show ?case
    by (auto simp: load_crl_def revoked_after_lines split: option.split crl_response.split)
qed simp

text \<open>
  Refreshing the revocation lists never forgets a revoked serial; a list that was loaded adds the
  serials on its lines; and the first list that cannot be loaded ends the refresh with an error, the
  lists after it are not looked at.
\<close>

theorem crl_refresh:
  "(is_revoked s rs \<longrightarrow> is_revoked s (snd (refresh_all fetch urls now rs)))
   \<and> (fetch url = Some (CrlText txt) \<longrightarrow> s \<noteq> [] \<longrightarrow> s \<in> js_trim ` set (js_split (CHR 10) txt) \<longrightarrow>
        is_revoked s (snd (refresh_all fetch (url # urls) now rs)))
   \<and> ((\<nexists>txt. fetch url = Some (CrlText txt)) \<longrightarrow>
        refresh_all fetch (pre @ url # urls) now rs = refresh_all fetch (pre @ [url]) now rs
        \<and> \<not> is_returned (fst (refresh_all fetch (pre @ url # urls) now rs)))"
proof (intro conjI impI)
  show "is_revoked s (snd (refresh_all fetch urls now rs))" if "is_revoked s rs"
    using that by (rule refresh_never_unrevokes)
next
  assume "fetch url = Some (CrlText txt)" "s \<noteq> []" "s \<in> js_trim ` set (js_split (CHR 10) txt)"
  then show "is_revoked s (snd (refresh_all fetch (url # urls) now rs))"
    by (simp add: load_crl_def refresh_never_unrevokes revoked_after_lines)
next
  assume "\<nexists>txt. fetch url = Some (CrlText txt)"
  then have fail: "\<exists>err. load_crl url (fetch url) now rs = (Inl err, rs)" for rs
    by (auto simp: load_crl_def split: option.split crl_response.split)
  have "refresh_all fetch (pre @ url # urls) now rs = refresh_all fetch (pre @ [url]) now rs
      \<and> \<not> is_returned (fst (refresh_all fetch (pre @ url # urls) now rs))" for rs
  proof (induction pre arbitrary: rs)
    case Nil
    from fail [of rs] show ?case by auto
  next
    case (Cons u pre)
    obtain r rs1 where "load_crl u (fetch u) now rs = (r, rs1)" by fastforce
    with Cons [of rs1] show ?case by (cases r) auto
  qed
  then show "refresh_all fetch (pre @ url # urls) now rs = refresh_all fetch (pre @ [url]) now rs"
    and "\<not> is_returned (fst (refresh_all fetch (pre @ url # urls) now rs))" by blast+
qed

theorem crl_refresh_witness:
  "refresh_all (\<lambda>u. if u = ''a'' then Some CrlNotOk else Some (CrlText ''7'')) ([] @ ''a'' # [''b'']) 0 []
    = refresh_all (\<lambda>u. if u = ''a'' then Some CrlNotOk else Some (CrlText ''7'')) ([] @ [''a'']) 0 []"
  using crl_refresh [of "[]" "[]" "\<lambda>u. if u = ''a'' then Some CrlNotOk else Some (CrlText ''7'')"
      "[''b'']" 0 "''a''" "[]" "[]"] by simp

section \<open>Keys, tokens and roles\<close>

text \<open>
  The role engine allows exactly what a role of the caller grants, more roles never take a permission
  away, and the permissions carried by the caller are not read.
\<close>

theorem rbac_allows:
  "(rbac_evaluate rp p required = Allow \<longleftrightarrow>
      (\<exists>role \<in> set (pr_roles p). \<exists>perms. jget rp role = Some perms \<and> required \<in> set perms))
   \<and> (rbac_evaluate rp p required = Allow \<longrightarrow>
        rbac_evaluate rp (p\<lparr>pr_roles := pr_roles p @ extra, pr_permissions := own\<rparr>) required = Allow)"
  by (auto simp: rbac_evaluate_def Let_def list_ex_iff split: option.splits)

theorem rbac_allows_witness:
  "rbac_evaluate [(''admin'', [''write''])] \<lparr>pr_id = ''u'', pr_tenant_id = None, pr_roles = [''admin''] @ [''guest''],
     pr_permissions = []\<rparr> ''write'' = Allow"
  using rbac_allows [of "[(''admin'', [''write''])]" "\<lparr>pr_id = ''u'', pr_tenant_id = None, pr_roles = [''admin''],
     pr_permissions = []\<rparr>" "''write''"] by (simp add: rbac_evaluate_def)

lemma registry_get: "jget (api_key_registry ks) k = map_option snd (List.find (\<lambda>e. fst e = k) (rev ks))"
  by (induction ks rule: rev_induct) (auto simp: api_key_registry_def case_prod_beta)

text \<open>
  A key is accepted bare and after the \<open>Bearer\<close> prefix alike, as the last principal registered for
  it; the empty key never is.  A token is refused exactly when the verifier throws, as expired
  exactly when the error says so.
\<close>

theorem token_authentication:
  "(\<not> starts_with key ''Bearer '' \<longrightarrow>
      authenticate_api_key (api_key_registry ks) (''Bearer '' @ key)
        = authenticate_api_key (api_key_registry ks) key
      \<and> authenticate_api_key (api_key_registry ks) key =
         (case List.find (\<lambda>e. fst e = key) (rev ks) of
            Some e \<Rightarrow> if key = [] then Inl InvalidTokenError else Inr (snd e)
          | None \<Rightarrow> Inl InvalidTokenError))
   \<and> (authenticate_jwt verify secret token = Inl ExpiredTokenError \<longleftrightarrow>
        (\<exists>err. verify (strip_bearer token) secret = Inl err \<and> error_name err = ''TokenExpiredError''))
   \<and> (\<forall>claims. verify (strip_bearer token) secret = Inr claims \<longrightarrow>
        (\<exists>p. authenticate_jwt verify secret token = Inr p \<and> pr_id p = jw_sub claims))"
  by (auto simp: authenticate_api_key_def strip_bearer_def starts_with_def registry_get authenticate_jwt_def
      Let_def split: option.split sum.splits)

theorem token_authentication_witness:
  "authenticate_api_key (api_key_registry [(''k'', p)]) (''Bearer '' @ ''k'')
     = authenticate_api_key (api_key_registry [(''k'', p)]) ''k''"
  using token_authentication [of "''k''" "[(''k'', p)]" "\<lambda>t s. Inl (plain_error [])" "[]" "[]"]
  by (simp add: starts_with_def)

section \<open>Overlapping renewals\<close>

text \<open>
  A renewal that answers with a certificate that is not about to expire ends the need for one.  But
  the timer starts another renewal while one is under way, and the one that answers last wins, even
  when its certificate is the older.
\<close>

theorem renewals_overlap:
  "(xc_not_after cert > now + cro_renew_before_days m * 86400000 \<longrightarrow>
      \<not> needs_rotation now (snd (rotation_finish (Inr cert) m)))
   \<and> (cro_timer m \<noteq> None \<longrightarrow> needs_rotation t1 m \<longrightarrow> needs_rotation t2 m \<longrightarrow>
        cro_renewing (rotation_tick t2 (rotation_tick t1 m)) = cro_renewing m + 2
        \<and> cro_current (snd (rotation_finish (Inr older) (snd (rotation_finish (Inr newer)
            (rotation_tick t2 (rotation_tick t1 m)))))) = Some older)"
  by (auto simp: needs_rotation_def rotation_finish_def is_expiring_soon_def rotation_tick_def
      rotation_begin_def Let_def split: option.splits)

theorem renewals_overlap_witness:
  "cro_renewing (rotation_tick 2 (rotation_tick 1 \<lparr>cro_current = None, cro_renew_before_days = 1,
     cro_timer = Some 10, cro_renewing = 0\<rparr>)) = 0 + 2"
  using renewals_overlap [of 0 "\<lparr>cro_current = None, cro_renew_before_days = 1, cro_timer = Some 10, cro_renewing = 0\<rparr>"
      "\<lparr>xc_subject = [], xc_issuer = [], xc_serial = ''1'', xc_not_before = 0, xc_not_after = 9, xc_fingerprint = None\<rparr>" 1 2]
  by (simp add: needs_rotation_def)

end
