(* ===== verification/Secrets.thy ===== *)
theory Secrets
  imports Prelude
begin

text \<open>
  Secrets, \<open>packages/secrets/src\<close>: the port, the adapter over the environment, the caching and the
  falling-back decorators.  A port acts on a world of its own and may reject.  \<open>get\<close> of the cache
  awaits the wrapped port, so it is two steps: up to the await, and what it does with the answer.

  The locale \<^theory_text>\<open>secrets_store\<close> is what the cache relies on; the environment adapter provides it.
\<close>

section \<open>Ports\<close>

record 'w secrets_port =
  sp_get :: "string \<Rightarrow> 'w \<Rightarrow> (js_error, string option) outcome \<times> 'w"
  sp_set :: "string \<Rightarrow> string \<Rightarrow> 'w \<Rightarrow> (js_error, unit) outcome \<times> 'w"
  sp_delete :: "string \<Rightarrow> 'w \<Rightarrow> (js_error, unit) outcome \<times> 'w"
  sp_rotate :: "string \<Rightarrow> 'w \<Rightarrow> (js_error, unit) outcome \<times> 'w"

definition rotation_not_supported :: "string \<Rightarrow> js_error" where
  "rotation_not_supported name =
     JsError ''SecretsRotationNotSupportedError''
       (''Secret rotation is not supported by '' @ [CHR 34] @ name @ [CHR 34])"

type_synonym environment = "(string, string) jsmap"

definition env_get :: "string \<Rightarrow> environment \<Rightarrow> (js_error, string option) outcome \<times> environment" where
  "env_get k env = (Inr (jget env k), env)"

definition env_set :: "string \<Rightarrow> string \<Rightarrow> environment \<Rightarrow> (js_error, unit) outcome \<times> environment" where
  "env_set k v env = (Inr (), jset k v env)"

definition env_delete :: "string \<Rightarrow> environment \<Rightarrow> (js_error, unit) outcome \<times> environment" where
  "env_delete k env = (Inr (), jdelete k env)"

definition env_rotate :: "string \<Rightarrow> environment \<Rightarrow> (js_error, unit) outcome \<times> environment" where
  "env_rotate k env = (Inl (rotation_not_supported ''EnvSecretsAdapter''), env)"

definition env_port :: "environment secrets_port" where
  "env_port = \<lparr>sp_get = env_get, sp_set = env_set, sp_delete = env_delete, sp_rotate = env_rotate\<rparr>"

section \<open>The cache\<close>

record cache_entry =
  ce_value :: string
  ce_expires_at :: int

type_synonym secrets_cache = "(string, cache_entry) jsmap"

text \<open>Up to the await: a hit, or the entry is gone and the wrapped port is asked.\<close>

definition cached_get_begin :: "string \<Rightarrow> int \<Rightarrow> secrets_cache \<Rightarrow> string option \<times> secrets_cache" where
  "cached_get_begin k now cache =
     (case jget cache k of
        None \<Rightarrow> (None, jdelete k cache)
      | Some e \<Rightarrow> if now < ce_expires_at e then (Some (ce_value e), cache) else (None, jdelete k cache))"

text \<open>What it does with the answer.\<close>

definition cached_get_finish :: "int \<Rightarrow> string \<Rightarrow> (js_error, string option) outcome \<Rightarrow> int \<Rightarrow> secrets_cache
    \<Rightarrow> (js_error, string option) outcome \<times> secrets_cache" where
  "cached_get_finish ttl k answer now cache =
     (case answer of
        Inl err \<Rightarrow> (Inl err, cache)
      | Inr None \<Rightarrow> (Inr None, cache)
      | Inr (Some v) \<Rightarrow> (Inr (Some v), jset k \<lparr>ce_value = v, ce_expires_at = now + ttl\<rparr> cache))"

text \<open>Without anything in between.\<close>

definition cached_get :: "'w secrets_port \<Rightarrow> int \<Rightarrow> string \<Rightarrow> int \<Rightarrow> secrets_cache \<times> 'w
    \<Rightarrow> (js_error, string option) outcome \<times> (secrets_cache \<times> 'w)" where
  "cached_get p ttl k now s =
     (case cached_get_begin k now (fst s) of
        (Some v, cache1) \<Rightarrow> (Inr (Some v), (cache1, snd s))
      | (None, cache1) \<Rightarrow>
          (case sp_get p k (snd s) of (answer, w1) \<Rightarrow>
             (case cached_get_finish ttl k answer now cache1 of (r, cache2) \<Rightarrow> (r, (cache2, w1)))))"

definition cached_set :: "'w secrets_port \<Rightarrow> int \<Rightarrow> string \<Rightarrow> string \<Rightarrow> int \<Rightarrow> secrets_cache \<times> 'w
    \<Rightarrow> (js_error, unit) outcome \<times> (secrets_cache \<times> 'w)" where
  "cached_set p ttl k v now s =
     (case sp_set p k v (snd s) of
        (Inl err, w1) \<Rightarrow> (Inl err, (fst s, w1))
      | (Inr u, w1) \<Rightarrow> (Inr (), (jset k \<lparr>ce_value = v, ce_expires_at = now + ttl\<rparr> (fst s), w1)))"

definition cached_delete :: "'w secrets_port \<Rightarrow> string \<Rightarrow> secrets_cache \<times> 'w
    \<Rightarrow> (js_error, unit) outcome \<times> (secrets_cache \<times> 'w)" where
  "cached_delete p k s =
     (case sp_delete p k (snd s) of
        (Inl err, w1) \<Rightarrow> (Inl err, (fst s, w1))
      | (Inr u, w1) \<Rightarrow> (Inr (), (jdelete k (fst s), w1)))"

definition cached_rotate :: "'w secrets_port \<Rightarrow> string \<Rightarrow> secrets_cache \<times> 'w
    \<Rightarrow> (js_error, unit) outcome \<times> (secrets_cache \<times> 'w)" where
  "cached_rotate p k s =
     (case sp_rotate p k (snd s) of
        (Inl err, w1) \<Rightarrow> (Inl err, (fst s, w1))
      | (Inr u, w1) \<Rightarrow> (Inr (), (jdelete k (fst s), w1)))"

datatype secrets_op = GetSecret string int | SetSecret string string int | DeleteSecret string | RotateSecret string

definition cached_step :: "'w secrets_port \<Rightarrow> int \<Rightarrow> secrets_cache \<times> 'w \<Rightarrow> secrets_op \<Rightarrow> secrets_cache \<times> 'w" where
  "cached_step p ttl s e =
     (case e of
        GetSecret k now \<Rightarrow> snd (cached_get p ttl k now s)
      | SetSecret k v now \<Rightarrow> snd (cached_set p ttl k v now s)
      | DeleteSecret k \<Rightarrow> snd (cached_delete p k s)
      | RotateSecret k \<Rightarrow> snd (cached_rotate p k s))"

text \<open>The same operations on the port itself.\<close>

definition direct_step :: "'w secrets_port \<Rightarrow> 'w \<Rightarrow> secrets_op \<Rightarrow> 'w" where
  "direct_step p w e =
     (case e of
        GetSecret k now \<Rightarrow> snd (sp_get p k w)
      | SetSecret k v now \<Rightarrow> snd (sp_set p k v w)
      | DeleteSecret k \<Rightarrow> snd (sp_delete p k w)
      | RotateSecret k \<Rightarrow> snd (sp_rotate p k w))"

section \<open>What the cache relies on\<close>

text \<open>
  A store whose reads answer what it holds and change nothing, whose writes store exactly their
  value, and whose rotations touch only their key; a call that rejects has changed nothing.
\<close>

locale secrets_store =
  fixes p :: "'w secrets_port"
    and held :: "'w \<Rightarrow> string \<Rightarrow> string option"
  assumes get_held: "sp_get p k w = (Inr (held w k), w)"
    and set_held: "sp_set p k v w = (Inr u, w') \<Longrightarrow> held w' = (held w)(k := Some v)"
    and set_fails: "sp_set p k v w = (Inl err, w') \<Longrightarrow> w' = w"
    and delete_held: "sp_delete p k w = (Inr u, w') \<Longrightarrow> held w' = (held w)(k := None)"
    and delete_fails: "sp_delete p k w = (Inl err, w') \<Longrightarrow> w' = w"
    and rotate_held: "sp_rotate p k w = (Inr u, w') \<Longrightarrow> k' \<noteq> k \<Longrightarrow> held w' k' = held w k'"
    and rotate_fails: "sp_rotate p k w = (Inl err, w') \<Longrightarrow> w' = w"
begin

text \<open>Every entry, expired or not, is the value the store holds.\<close>

definition coherent :: "secrets_cache \<times> 'w \<Rightarrow> bool" where
  "coherent s \<longleftrightarrow> (\<forall>k e. jget (fst s) k = Some e \<longrightarrow> held (snd s) k = Some (ce_value e))"

lemma get_begin_hit:
  "coherent s \<Longrightarrow> cached_get_begin k now (fst s) = (Some v, c) \<Longrightarrow> held (snd s) k = Some v \<and> c = fst s"
  by (auto simp: cached_get_begin_def coherent_def split: option.splits if_splits)

lemma get_begin_miss:
  "cached_get_begin k now c = (None, c') \<Longrightarrow> c' = jdelete k c"
  by (auto simp: cached_get_begin_def split: option.splits if_splits)

lemma cached_get_answers:
  assumes "coherent s"
  shows "fst (cached_get p ttl k now s) = Inr (held (snd s) k)
    \<and> snd (snd (cached_get p ttl k now s)) = snd s \<and> coherent (snd (cached_get p ttl k now s))"
proof -
  obtain hit c where b: "cached_get_begin k now (fst s) = (hit, c)" by fastforce
  show ?thesis
  proof (cases hit)
    case (Some v)
    with get_begin_hit [OF assms, of k now v c] b have "held (snd s) k = Some v" "c = fst s" by simp_all
    with Some b assms show ?thesis by (simp add: cached_get_def)
  next
    case None
    with b have c: "c = jdelete k (fst s)" using get_begin_miss by blast
    with None b assms show ?thesis
      by (cases "held (snd s) k")
        (auto simp: cached_get_def get_held cached_get_finish_def coherent_def)
  qed
qed

lemma coherent_step: "coherent s \<Longrightarrow> coherent (cached_step p ttl s e)"
proof (cases e)
  case (GetSecret k now)
  assume "coherent s"
  with GetSecret cached_get_answers show ?thesis by (simp add: cached_step_def)
next
  case (SetSecret k v now)
  assume "coherent s"
  with SetSecret show ?thesis
    by (auto simp: cached_step_def cached_set_def coherent_def dest: set_held set_fails split: prod.split sum.split)
next
  case (DeleteSecret k)
  assume "coherent s"
  with DeleteSecret show ?thesis
    by (auto simp: cached_step_def cached_delete_def coherent_def dest: delete_held delete_fails
        split: prod.split sum.split)
next
  case (RotateSecret k)
  assume "coherent s"
  with RotateSecret show ?thesis
    by (auto simp: cached_step_def cached_rotate_def coherent_def dest: rotate_held rotate_fails
        split: prod.split sum.split)
qed

lemma step_on_store: "coherent s \<Longrightarrow> snd (cached_step p ttl s e) = direct_step p (snd s) e"
proof (cases e)
  case (GetSecret k now)
  assume "coherent s"
  with GetSecret cached_get_answers show ?thesis by (simp add: cached_step_def direct_step_def get_held)
qed (auto simp: cached_step_def direct_step_def cached_set_def cached_delete_def cached_rotate_def
    split: prod.split sum.split)

end

sublocale secrets_store \<subseteq> cache: refines_machine "cached_step p ttl" "direct_step p" snd coherent
  for ttl
  by unfold_locales (rule coherent_step, assumption, rule step_on_store)

context secrets_store begin

text \<open>After any operations through the cache, a read through it answers what the store holds.\<close>

lemma cache_transparent:
  assumes "coherent s"
  shows "snd (foldl (cached_step p ttl) s es) = foldl (direct_step p) (snd s) es
    \<and> fst (cached_get p ttl k now (foldl (cached_step p ttl) s es))
        = Inr (held (foldl (direct_step p) (snd s) es) k)"
  using cache.abs_run [OF assms, of ttl es] cached_get_answers by simp

lemma coherent_empty: "coherent ([], w)"
  by (simp add: coherent_def)

end

interpretation env_store: secrets_store env_port jget
  by unfold_locales (auto simp: env_port_def env_get_def env_set_def env_delete_def env_rotate_def)


text \<open>
  A read that is waiting for the store while the secret is set stores the old value over the new
  one: until it expires every read answers the old secret.
\<close>

theorem read_racing_set_caches_old:
  assumes "later < mid + ttl" and "cached_get_begin k start cache = (None, cache1)" and "jget env k = Some old"
  shows "let answer = fst (env_get k env);
             after_set = snd (cached_set env_port ttl k new mid (cache1, env));
             cache2 = snd (cached_get_finish ttl k answer mid (fst after_set))
         in fst (cached_get env_port ttl k later (cache2, snd after_set)) = Inr (Some old)
            \<and> jget (snd after_set) k = Some new"
  using assms by (simp add: env_get_def cached_set_def env_port_def env_set_def cached_get_finish_def
      cached_get_def cached_get_begin_def)

theorem read_racing_set_caches_old_witness:
  "let answer = fst (env_get ''k'' [(''k'', ''old'')]);
       after_set = snd (cached_set env_port 10 ''k'' ''new'' 1 ([], [(''k'', ''old'')]));
       cache2 = snd (cached_get_finish 10 ''k'' answer 1 (fst after_set))
   in fst (cached_get env_port 10 ''k'' 5 (cache2, snd after_set)) = Inr (Some ''old'')
      \<and> jget (snd after_set) ''k'' = Some ''new''"
  by (rule read_racing_set_caches_old [where start = 0 and cache = "[]"]) (simp_all add: cached_get_begin_def)

section \<open>Several stores\<close>

definition fallback_new :: "'w secrets_port list \<Rightarrow> (js_error, 'w secrets_port list) outcome" where
  "fallback_new ps =
     (if length ps = 0 then Inl (plain_error ''FallbackSecretsAdapter requires at least one adapter'')
      else Inr ps)"

fun fallback_get :: "'w secrets_port list \<Rightarrow> string \<Rightarrow> 'w \<Rightarrow> (js_error, string option) outcome \<times> 'w" where
  "fallback_get [] k w = (Inr None, w)"
| "fallback_get (p # ps) k w =
     (case sp_get p k w of
        (Inl err, w1) \<Rightarrow> (Inl err, w1)
      | (Inr (Some v), w1) \<Rightarrow> (Inr (Some v), w1)
      | (Inr None, w1) \<Rightarrow> fallback_get ps k w1)"

fun each_port :: "('w secrets_port \<Rightarrow> 'w \<Rightarrow> (js_error, unit) outcome \<times> 'w) \<Rightarrow> 'w secrets_port list \<Rightarrow> 'w
    \<Rightarrow> (js_error, unit) outcome \<times> 'w" where
  "each_port f [] w = (Inr (), w)"
| "each_port f (p # ps) w =
     (case f p w of (Inl err, w1) \<Rightarrow> (Inl err, w1) | (Inr u, w1) \<Rightarrow> each_port f ps w1)"

definition fallback_set :: "'w secrets_port list \<Rightarrow> string \<Rightarrow> string \<Rightarrow> 'w \<Rightarrow> (js_error, unit) outcome \<times> 'w" where
  "fallback_set ps k v w = each_port (\<lambda>p. sp_set p k v) ps w"

definition fallback_delete :: "'w secrets_port list \<Rightarrow> string \<Rightarrow> 'w \<Rightarrow> (js_error, unit) outcome \<times> 'w" where
  "fallback_delete ps k w = each_port (\<lambda>p. sp_delete p k) ps w"

definition fallback_rotate :: "'w secrets_port list \<Rightarrow> string \<Rightarrow> 'w \<Rightarrow> (js_error, unit) outcome \<times> 'w" where
  "fallback_rotate ps k w = each_port (\<lambda>p. sp_rotate p k) ps w"

text \<open>The environment adapter on one of several environments.\<close>

definition at_index :: "nat \<Rightarrow> (environment \<Rightarrow> ('e, 'a) outcome \<times> environment)
    \<Rightarrow> environment list \<Rightarrow> ('e, 'a) outcome \<times> environment list" where
  "at_index i f ws = (case f (ws ! i) of (r, w1) \<Rightarrow> (r, ws[i := w1]))"

definition indexed_port :: "nat \<Rightarrow> environment list secrets_port" where
  "indexed_port i = \<lparr>sp_get = \<lambda>k. at_index i (env_get k), sp_set = \<lambda>k v. at_index i (env_set k v),
     sp_delete = \<lambda>k. at_index i (env_delete k), sp_rotate = \<lambda>k. at_index i (env_rotate k)\<rparr>"

lemma each_port_indexed:
  assumes "\<And>i w. f (indexed_port i) w = (Inr (), w[i := g (w ! i)])" and "a + n \<le> length ws"
  shows "each_port f (map indexed_port [a..<a + n]) ws
    = (Inr (), take a ws @ map g (take n (drop a ws)) @ drop (a + n) ws)"
  using assms(2)
proof (induction n arbitrary: a ws)
  case (Suc n)
  have "[a..<a + Suc n] = a # [Suc a..<Suc a + n]" by (simp add: upt_rec)
  moreover have "each_port f (map indexed_port [Suc a..<Suc a + n]) (ws[a := g (ws ! a)])
      = (Inr (), take (Suc a) (ws[a := g (ws ! a)]) @ map g (take n (drop (Suc a) (ws[a := g (ws ! a)])))
          @ drop (Suc a + n) (ws[a := g (ws ! a)]))"
    using Suc.prems by (intro Suc.IH) simp
  moreover have "take (Suc a) (ws[a := g (ws ! a)]) = take a ws @ [g (ws ! a)]"
    using Suc.prems by (simp add: take_Suc_conv_app_nth)
  moreover have "take (Suc n) (drop a ws) = ws ! a # take n (drop (Suc a) ws)"
    using Suc.prems by (simp add: Cons_nth_drop_Suc [symmetric])
  ultimately show ?case by (simp add: assms(1))
qed simp

lemma fallback_get_indexed:
  "a + n \<le> length ws \<Longrightarrow> fallback_get (map indexed_port [a..<a + n]) k ws =
     (Inr (foldr (\<lambda>w r. case jget w k of Some v \<Rightarrow> Some v | None \<Rightarrow> r) (take n (drop a ws)) None), ws)"
proof (induction n arbitrary: a)
  case (Suc n)
  have "[a..<a + Suc n] = a # [Suc a..<Suc a + n]" by (simp add: upt_rec)
  moreover have "take (Suc n) (drop a ws) = ws ! a # take n (drop (Suc a) ws)"
    using Suc.prems by (simp add: Cons_nth_drop_Suc [symmetric])
  moreover have "fallback_get (map indexed_port [Suc a..<Suc a + n]) k ws =
      (Inr (foldr (\<lambda>w r. case jget w k of Some v \<Rightarrow> Some v | None \<Rightarrow> r) (take n (drop (Suc a) ws)) None), ws)"
    using Suc.prems by (intro Suc.IH) simp
  moreover have "sp_get (indexed_port a) k ws = (Inr (jget (ws ! a) k), ws)"
    by (simp add: indexed_port_def at_index_def env_get_def)
  ultimately show ?case
    by (auto simp del: upt_Suc split: option.split)
qed simp

text \<open>
  Over several stores a read answers the first store's value that has one; a write reaches every
  store and is what the next read answers; after a deletion no store has the secret.
\<close>

theorem fallback_keeps_stores_in_sync:
  fixes ws :: "environment list"
  shows "fst (fallback_get (map indexed_port [0..<length ws]) k ws)
      = Inr (foldr (\<lambda>w r. case jget w k of Some v \<Rightarrow> Some v | None \<Rightarrow> r) ws None)
    \<and> fallback_set (map indexed_port [0..<length ws]) k v ws = (Inr (), map (jset k v) ws)
    \<and> fallback_delete (map indexed_port [0..<length ws]) k ws = (Inr (), map (jdelete k) ws)
    \<and> (ws \<noteq> [] \<longrightarrow> fst (fallback_get (map indexed_port [0..<length ws]) k (map (jset k v) ws)) = Inr (Some v))
    \<and> fst (fallback_get (map indexed_port [0..<length ws]) k (map (jdelete k) ws)) = Inr None"
proof -
  have set: "fallback_set (map indexed_port [0..<length ws]) k v ws = (Inr (), map (jset k v) ws)"
    using each_port_indexed [of "\<lambda>p. sp_set p k v" "jset k v" 0 "length ws" ws]
    by (simp add: fallback_set_def indexed_port_def at_index_def env_set_def)
  have del: "fallback_delete (map indexed_port [0..<length ws]) k ws = (Inr (), map (jdelete k) ws)"
    using each_port_indexed [of "\<lambda>p. sp_delete p k" "jdelete k" 0 "length ws" ws]
    by (simp add: fallback_delete_def indexed_port_def at_index_def env_delete_def)
  have "foldr (\<lambda>w r. case jget w k of Some v \<Rightarrow> Some v | None \<Rightarrow> r) (map (jdelete k) xs) None = None" for xs
    by (induction xs) auto
  moreover have "xs \<noteq> [] \<Longrightarrow>
      foldr (\<lambda>w r. case jget w k of Some v \<Rightarrow> Some v | None \<Rightarrow> r) (map (jset k v) xs) None = Some v" for xs
    by (cases xs) auto
  moreover have get: "fst (fallback_get (map indexed_port [0..<length xs]) k xs)
      = Inr (foldr (\<lambda>w r. case jget w k of Some v \<Rightarrow> Some v | None \<Rightarrow> r) xs None)" for xs
    using fallback_get_indexed [of 0 "length xs" xs k] by simp
  ultimately show ?thesis using set del get [of ws] get [of "map (jset k v) ws"] get [of "map (jdelete k) ws"]
    by auto
qed

theorem fallback_keeps_stores_in_sync_witness:
  "fst (fallback_get (map indexed_port [0..<length [[], []]]) ''k'' (map (jset ''k'' ''v'') [[], []])) = Inr (Some ''v'')"
  using fallback_keeps_stores_in_sync [of "[[], []]" "''k''" "''v''"] by simp

text \<open>
  Behind a store with the environment as its fallback, a rotation takes place in the first store
  and is then reported as failed.
\<close>

theorem fallback_rotation_half_done:
  assumes "sp_rotate p k w = (Inr (), w1)" and "sp_rotate q = (\<lambda>k w. (Inl (rotation_not_supported ''EnvSecretsAdapter''), w))"
  shows "fallback_rotate [p, q] k w = (Inl (rotation_not_supported ''EnvSecretsAdapter''), w1)"
  using assms by (simp add: fallback_rotate_def)

theorem fallback_rotation_half_done_witness:
  "fallback_rotate [\<lparr>sp_get = \<lambda>k w. (Inr (Some w), w), sp_set = \<lambda>k v w. (Inr (), v), sp_delete = \<lambda>k w. (Inr (), []),
      sp_rotate = \<lambda>k w. (Inr (), ''new'')\<rparr>,
     \<lparr>sp_get = \<lambda>k w. (Inr None, w), sp_set = \<lambda>k v w. (Inr (), w), sp_delete = \<lambda>k w. (Inr (), w),
      sp_rotate = \<lambda>k w. (Inl (rotation_not_supported ''EnvSecretsAdapter''), w)\<rparr>] ''k'' ''old''
   = (Inl (rotation_not_supported ''EnvSecretsAdapter''), ''new'')"
  by (rule fallback_rotation_half_done) simp_all

end
