(* ===== verification/Configuration.thy ===== *)
theory Configuration
  imports Prelude
begin

text \<open>
  Configuration, \<open>packages/config/src\<close>: the sources (\<open>DotenvSource\<close>, \<open>EncryptedConfigSource\<close>,
  the in-memory remote source), the \<open>ConfigLoader\<close> that merges and validates them, the hot
  reloading wrapper, the \<open>ProfileManager\<close> and the \<open>ConfigServer\<close>.

  A raw configuration maps keys to texts or \<open>undefined\<close>.  The schema's verdict and what a source
  loads are arguments.  Listeners are numbers; what they are called with is a result.
\<close>

section \<open>Sources\<close>

type_synonym raw_config = "(string, string option) jsmap"

text \<open>\<open>Object.assign(target, source)\<close> and the spread of objects.\<close>

definition assign_all :: "('k, 'v) jsmap \<Rightarrow> ('k, 'v) jsmap \<Rightarrow> ('k, 'v) jsmap" where
  "assign_all target src = foldl (\<lambda>m (k, v). jset k v m) target src"

lemma jwf_assign_all: "jwf t \<Longrightarrow> jwf (assign_all t s)"
  by (induction s arbitrary: t) (auto simp: assign_all_def intro: jwf_jset)

lemma jget_assign_all: "jwf s \<Longrightarrow> jget (assign_all t s) k = (case jget s k of Some v \<Rightarrow> Some v | None \<Rightarrow> jget t k)"
proof (induction s arbitrary: t)
  case (Cons e s)
  obtain k' v where e: "e = (k', v)" by (cases e)
  with Cons.prems have "jget s k' = None" by (auto simp: map_of_eq_None_iff)
  with Cons e show ?case by (auto simp: assign_all_def split: option.split)
qed (simp add: assign_all_def)

fun join_with :: "char \<Rightarrow> string list \<Rightarrow> string" where
  "join_with c [] = []"
| "join_with c [x] = x"
| "join_with c (x # y # xs) = x @ c # join_with c (y # xs)"

lemma join_split: "join_with c (js_split c s) = s"
proof (induction s)
  case (Cons x s)
  obtain p ps where "js_split c s = p # ps" by (metis js_split_nonempty list.exhaust)
  with Cons show ?case by (cases ps) auto
qed simp

definition is_quote :: "char \<Rightarrow> bool" where
  "is_quote c = (c = CHR 34 \<or> c = CHR 39)"

text \<open>Replacing the expression for a quote at the start or the end by nothing.\<close>

definition strip_quotes :: "string \<Rightarrow> string" where
  "strip_quotes v =
     (let v1 = (case v of [] \<Rightarrow> [] | c # cs \<Rightarrow> if is_quote c then cs else v)
      in if v1 \<noteq> [] \<and> is_quote (last v1) then butlast v1 else v1)"

definition parse_dotenv_line :: "(string, string) jsmap \<Rightarrow> string \<Rightarrow> (string, string) jsmap" where
  "parse_dotenv_line m line =
     (let trimmed = js_trim line in
      if trimmed = [] \<or> take 1 trimmed = ''#'' then m
      else (case js_split (CHR ''='') trimmed of
              [] \<Rightarrow> m
            | key # parts \<Rightarrow>
                if key \<noteq> [] \<and> length parts > 0
                then jset (js_trim key) (strip_quotes (js_trim (join_with (CHR ''='') parts))) m
                else m))"

definition parse_dotenv :: "string \<Rightarrow> (string, string) jsmap" where
  "parse_dotenv content = foldl parse_dotenv_line [] (js_split (CHR 10) content)"

text \<open>A file that cannot be read is an empty source.\<close>

definition dotenv_load :: "string option \<Rightarrow> raw_config" where
  "dotenv_load file = (case file of None \<Rightarrow> [] | Some content \<Rightarrow> map (\<lambda>(k, v). (k, Some v)) (parse_dotenv content))"

definition encrypted_load :: "(string \<Rightarrow> string) \<Rightarrow> string list \<Rightarrow> raw_config \<Rightarrow> raw_config" where
  "encrypted_load decrypt encrypted_keys raw =
     foldl (\<lambda>out (k, v).
       case v of
         Some x \<Rightarrow> if k \<in> set encrypted_keys then jset k (Some (decrypt x)) out else jset k v out
       | None \<Rightarrow> jset k v out) [] raw"

definition remote_set :: "string \<Rightarrow> string \<Rightarrow> raw_config \<Rightarrow> raw_config" where
  "remote_set k v store = jset k (Some v) store"

definition remote_delete :: "string \<Rightarrow> raw_config \<Rightarrow> raw_config" where
  "remote_delete k store = jdelete k store"

section \<open>The loader\<close>

datatype config_error = SourceFailed js_error | ValidationFailed "string list"

fun load_sources :: "(js_error, raw_config) outcome list \<Rightarrow> raw_config \<Rightarrow> (js_error, raw_config) outcome" where
  "load_sources [] raw = Inr raw"
| "load_sources (s # ss) raw =
     (case s of Inl err \<Rightarrow> Inl err | Inr cfg \<Rightarrow> load_sources ss (assign_all raw cfg))"

definition config_load :: "(raw_config \<Rightarrow> string list + 'a) \<Rightarrow> (js_error, raw_config) outcome list
    \<Rightarrow> (config_error, 'a) outcome" where
  "config_load validate sources =
     (case load_sources sources [] of
        Inl err \<Rightarrow> Inl (SourceFailed err)
      | Inr raw \<Rightarrow> (case validate raw of Inl errors \<Rightarrow> Inl (ValidationFailed errors) | Inr cfg \<Rightarrow> Inr cfg))"

definition config_error_message :: "string list \<Rightarrow> string" where
  "config_error_message errors =
     ''Configuration validation failed: '' @ concat (case errors of [] \<Rightarrow> [] | e # es \<Rightarrow> e # map (\<lambda>x. '', '' @ x) es)"

section \<open>Hot reload\<close>

record 'a hot_loader =
  hl_current :: "'a option"
  hl_listeners :: "nat list"

definition hot_start :: "(config_error, 'a) outcome \<Rightarrow> 'a hot_loader \<Rightarrow> (config_error, 'a) outcome \<times> 'a hot_loader" where
  "hot_start loaded h =
     (case loaded of Inl err \<Rightarrow> (Inl err, h) | Inr cfg \<Rightarrow> (Inr cfg, h\<lparr>hl_current := Some cfg\<rparr>))"

definition hot_reload :: "(config_error, 'a) outcome \<Rightarrow> 'a hot_loader
    \<Rightarrow> (config_error, 'a) outcome \<times> (nat \<times> 'a) list \<times> 'a hot_loader" where
  "hot_reload loaded h =
     (case loaded of
        Inl err \<Rightarrow> (Inl err, [], h)
      | Inr cfg \<Rightarrow> (Inr cfg, map (\<lambda>l. (l, cfg)) (hl_listeners h), h\<lparr>hl_current := Some cfg\<rparr>))"

definition hot_on_change :: "nat \<Rightarrow> 'a hot_loader \<Rightarrow> 'a hot_loader" where
  "hot_on_change l h = h\<lparr>hl_listeners := set_add l (hl_listeners h)\<rparr>"

definition hot_off_change :: "nat \<Rightarrow> 'a hot_loader \<Rightarrow> 'a hot_loader" where
  "hot_off_change l h = h\<lparr>hl_listeners := set_remove l (hl_listeners h)\<rparr>"

definition hot_get :: "'a hot_loader \<Rightarrow> (js_error, 'a) outcome" where
  "hot_get h =
     (case hl_current h of
        None \<Rightarrow> Inl (plain_error ''HotReloadConfigLoader has not been started - call start() first.'')
      | Some c \<Rightarrow> Inr c)"

section \<open>Profiles\<close>

record 'v profile_manager =
  pm_profiles :: "(string, (string, 'v) jsmap) jsmap"
  pm_active :: string

definition profile_manager_new :: "'v profile_manager" where
  "profile_manager_new = \<lparr>pm_profiles = [], pm_active = ''default''\<rparr>"

definition profile_register :: "string \<Rightarrow> (string, 'v) jsmap \<Rightarrow> 'v profile_manager \<Rightarrow> 'v profile_manager" where
  "profile_register name values m = m\<lparr>pm_profiles := jset name values (pm_profiles m)\<rparr>"

definition profile_activate :: "string \<Rightarrow> 'v profile_manager \<Rightarrow> (js_error, 'v profile_manager) outcome" where
  "profile_activate name m =
     (if \<not> jhas (pm_profiles m) name then Inl (plain_error (''Profile not found: '' @ name))
      else Inr (m\<lparr>pm_active := name\<rparr>))"

definition profile_get :: "'v profile_manager \<Rightarrow> string \<Rightarrow> 'v option" where
  "profile_get m key =
     (case jget (pm_profiles m) (pm_active m) of
        Some active \<Rightarrow>
          if jhas active key then jget active key
          else if pm_active m \<noteq> ''default'' then
            (case jget (pm_profiles m) ''default'' of None \<Rightarrow> None | Some d \<Rightarrow> jget d key)
          else None
      | None \<Rightarrow>
          if pm_active m \<noteq> ''default'' then
            (case jget (pm_profiles m) ''default'' of None \<Rightarrow> None | Some d \<Rightarrow> jget d key)
          else None)"

definition profile_get_all :: "'v profile_manager \<Rightarrow> (string, 'v) jsmap" where
  "profile_get_all m =
     (let defaults = (case jget (pm_profiles m) ''default'' of None \<Rightarrow> [] | Some d \<Rightarrow> d) in
      if pm_active m = ''default'' then defaults
      else (let active = (case jget (pm_profiles m) (pm_active m) of None \<Rightarrow> [] | Some a \<Rightarrow> a)
            in assign_all defaults active))"

section \<open>The configuration server\<close>

datatype 'v config_value = Undefined | Text string | OtherValue 'v

record 'v config_server =
  cs_store :: "(string, 'v config_value) jsmap"
  cs_profiles :: "(string, (string, 'v config_value) jsmap) jsmap"
  cs_encrypt :: "(string \<Rightarrow> string) option"
  cs_decrypt :: "(string \<Rightarrow> string) option"
  cs_listeners :: "nat list"

definition config_server_new :: "'v config_server" where
  "config_server_new = \<lparr>cs_store = [], cs_profiles = [], cs_encrypt = None, cs_decrypt = None, cs_listeners = []\<rparr>"

definition server_set :: "string \<Rightarrow> 'v config_value \<Rightarrow> 'v config_server
    \<Rightarrow> (nat \<times> string \<times> 'v config_value) list \<times> 'v config_server" where
  "server_set key value s =
     (map (\<lambda>l. (l, key, value)) (cs_listeners s), s\<lparr>cs_store := jset key value (cs_store s)\<rparr>)"

definition value_at :: "(string, 'v config_value) jsmap \<Rightarrow> string \<Rightarrow> 'v config_value" where
  "value_at m k = (case jget m k of None \<Rightarrow> Undefined | Some v \<Rightarrow> v)"

definition cipher_prefix :: string where
  "cipher_prefix = ''{cipher}''"

definition decipher :: "(string \<Rightarrow> string) option \<Rightarrow> 'v config_value \<Rightarrow> 'v config_value" where
  "decipher decrypt value =
     (case (value, decrypt) of
        (Text t, Some f) \<Rightarrow> if take 8 t = cipher_prefix then Text (f (drop 8 t)) else value
      | _ \<Rightarrow> value)"

definition server_get :: "string \<Rightarrow> string option \<Rightarrow> 'v config_server \<Rightarrow> 'v config_value" where
  "server_get key profile s =
     (let v1 = (case profile of
          None \<Rightarrow> Undefined
        | Some p \<Rightarrow> (case jget (cs_profiles s) p of None \<Rightarrow> Undefined | Some m \<Rightarrow> value_at m key));
          v2 = (case v1 of Undefined \<Rightarrow> value_at (cs_store s) key | _ \<Rightarrow> v1)
      in decipher (cs_decrypt s) v2)"

definition server_get_all :: "string option \<Rightarrow> 'v config_server \<Rightarrow> (string, 'v config_value) jsmap" where
  "server_get_all profile s =
     (case profile of
        None \<Rightarrow> cs_store s
      | Some p \<Rightarrow> assign_all (cs_store s) (case jget (cs_profiles s) p of None \<Rightarrow> [] | Some m \<Rightarrow> m))"

definition register_profile :: "string \<Rightarrow> (string, 'v config_value) jsmap \<Rightarrow> 'v config_server \<Rightarrow> 'v config_server" where
  "register_profile name values s = s\<lparr>cs_profiles := jset name values (cs_profiles s)\<rparr>"

definition register_encryption :: "(string \<Rightarrow> string) \<Rightarrow> (string \<Rightarrow> string) \<Rightarrow> 'v config_server \<Rightarrow> 'v config_server" where
  "register_encryption e d s = s\<lparr>cs_encrypt := Some e, cs_decrypt := Some d\<rparr>"

definition server_encrypt :: "string \<Rightarrow> 'v config_server \<Rightarrow> (js_error, string) outcome" where
  "server_encrypt value s =
     (case cs_encrypt s of
        None \<Rightarrow> Inl (plain_error ''No encrypt function registered'')
      | Some f \<Rightarrow> Inr (cipher_prefix @ f value))"

definition on_refresh :: "nat \<Rightarrow> 'v config_server \<Rightarrow> 'v config_server" where
  "on_refresh l s = s\<lparr>cs_listeners := cs_listeners s @ [l]\<rparr>"

definition off_refresh :: "nat \<Rightarrow> 'v config_server \<Rightarrow> 'v config_server" where
  "off_refresh l s = s\<lparr>cs_listeners := remove1 l (cs_listeners s)\<rparr>"

record 'v spring_answer =
  sa_application :: string
  sa_profile :: string
  sa_source :: "(string, 'v config_value) jsmap"

definition spring_cloud_endpoint :: "string \<Rightarrow> string \<Rightarrow> 'v config_server \<Rightarrow> 'v spring_answer" where
  "spring_cloud_endpoint application profile s =
     (let base = server_get_all None s;
          profile_values = (case jget (cs_profiles s) profile of None \<Rightarrow> [] | Some m \<Rightarrow> m)
      in \<lparr>sa_application = application, sa_profile = profile, sa_source = assign_all base profile_values\<rparr>)"

section \<open>The environment's name\<close>

datatype env = Development | Staging | Production | Test

definition get_env :: "string option \<Rightarrow> env" where
  "get_env node_env =
     (let e = (case node_env of None \<Rightarrow> ''development'' | Some x \<Rightarrow> x) in
      if e = ''development'' then Development else if e = ''staging'' then Staging
      else if e = ''production'' then Production else if e = ''test'' then Test
      else Development)"

section \<open>Merging\<close>

lemma load_sources_merge:
  assumes "\<forall>s \<in> set ss. \<exists>cfg. s = Inr cfg \<and> jwf cfg" and "jwf raw"
  shows "\<exists>out. load_sources ss raw = Inr out \<and> jwf out
    \<and> (\<forall>k. jget out k = (case List.find (\<lambda>cfg. jhas cfg k) (rev (map projr ss)) of
            Some cfg \<Rightarrow> jget cfg k | None \<Rightarrow> jget raw k))"
  using assms
proof (induction ss arbitrary: raw)
  case (Cons s ss)
  then obtain cfg where s: "s = Inr cfg" "jwf cfg" by auto
  from Cons s obtain out where out: "load_sources ss (assign_all raw cfg) = Inr out" "jwf out"
    and get: "\<And>k. jget out k = (case List.find (\<lambda>cfg. jhas cfg k) (rev (map projr ss)) of
            Some cfg \<Rightarrow> jget cfg k | None \<Rightarrow> jget (assign_all raw cfg) k)"
    using jwf_assign_all by (metis list.set_intros(2))
  have find_snoc: "List.find P (xs @ [x]) = (case List.find P xs of Some y \<Rightarrow> Some y | None \<Rightarrow> if P x then Some x else None)"
    for P :: "raw_config \<Rightarrow> bool" and xs x
    by (induction xs) auto
  have "jget out k = (case List.find (\<lambda>cfg. jhas cfg k) (rev (map projr (s # ss))) of
            Some cfg \<Rightarrow> jget cfg k | None \<Rightarrow> jget raw k)" for k
    using get [of k] s by (auto simp: find_snoc jget_assign_all jhas_def split: option.splits)
  with out s show ?case by auto
qed simp

text \<open>
  The loader validates the merge of its sources: for every key the last source that lists it
  decides, even when it lists it as undefined; and it returns the schema's value or throws its
  errors.
\<close>

theorem last_source_wins:
  assumes "\<forall>cfg \<in> set sources. jwf cfg"
  shows "\<exists>raw. (\<forall>k. jget raw k = (case List.find (\<lambda>cfg. jhas cfg k) (rev sources) of
              Some cfg \<Rightarrow> jget cfg k | None \<Rightarrow> None))
    \<and> config_load validate (map Inr sources)
        = (case validate raw of Inl errors \<Rightarrow> Inl (ValidationFailed errors) | Inr cfg \<Rightarrow> Inr cfg)"
proof -
  have id: "map projr (map Inr sources) = sources" by (simp add: comp_def)
  have ok: "\<forall>s \<in> set (map Inr sources). \<exists>cfg. s = Inr cfg \<and> jwf cfg" using assms by auto
  have "jwf ([] :: raw_config)" by simp
  from load_sources_merge [OF ok this, unfolded id] obtain out where
    load: "load_sources (map Inr sources) [] = Inr out"
    and get: "\<forall>k. jget out k = (case List.find (\<lambda>cfg. jhas cfg k) (rev sources) of
      Some cfg \<Rightarrow> jget cfg k | None \<Rightarrow> jget ([] :: raw_config) k)" by blast
  from get have "\<forall>k. jget out k = (case List.find (\<lambda>cfg. jhas cfg k) (rev sources) of
      Some cfg \<Rightarrow> jget cfg k | None \<Rightarrow> None)" by (auto split: option.split)
  with load show ?thesis by (auto simp: config_load_def)
qed

theorem last_source_wins_witness:
  "\<exists>raw. (\<forall>k. jget raw k = (case List.find (\<lambda>cfg. jhas cfg k) (rev [[(''A'', Some ''1'')], [(''A'', None)]]) of
              Some cfg \<Rightarrow> jget cfg k | None \<Rightarrow> None))
    \<and> config_load (\<lambda>raw. if jget raw ''A'' = Some None then Inl [''A missing''] else Inr ())
          (map Inr [[(''A'', Some ''1'')], [(''A'', None)]])
        = (case (if jget raw ''A'' = Some None then Inl [''A missing''] else Inr ()) of
             Inl errors \<Rightarrow> Inl (ValidationFailed errors) | Inr cfg \<Rightarrow> Inr cfg)"
  by (rule last_source_wins) simp

section \<open>Dotenv files\<close>

definition show_dotenv :: "(string \<times> string) list \<Rightarrow> string" where
  "show_dotenv kvs = concat (map (\<lambda>(k, v). k @ CHR ''='' # v @ [CHR 10]) kvs)"

definition dotenv_plain :: "string \<times> string \<Rightarrow> bool" where
  "dotenv_plain kv \<longleftrightarrow>
     fst kv \<noteq> [] \<and> js_trim (fst kv) = fst kv \<and> hd (fst kv) \<noteq> CHR ''#'' \<and> CHR ''='' \<notin> set (fst kv)
     \<and> CHR 10 \<notin> set (fst kv) \<and> CHR 10 \<notin> set (snd kv) \<and> js_trim (snd kv) = snd kv
     \<and> (snd kv = [] \<or> (\<not> is_quote (hd (snd kv)) \<and> \<not> is_quote (last (snd kv))))"

lemma js_trim_id:
  assumes "s \<noteq> []" and "\<not> is_js_space (hd s)" and "\<not> is_js_space (last s)"
  shows "js_trim s = s"
  using assms by (simp add: js_trim_def dropWhile_hd hd_rev)

lemma trim_line:
  assumes "k \<noteq> []" and "js_trim k = k" and "js_trim v = v"
  shows "js_trim (k @ CHR ''='' # v) = k @ CHR ''='' # v"
proof (rule js_trim_id)
  show "\<not> is_js_space (hd (k @ CHR ''='' # v))" using assms js_trim_ends(1) [of k] by simp
  show "\<not> is_js_space (last (k @ CHR ''='' # v))"
    using assms js_trim_ends(2) [of v] by (cases "v = []") (simp_all add: is_js_space_def Let_def)
qed simp

lemma strip_quotes_plain: "v = [] \<or> (\<not> is_quote (hd v) \<and> \<not> is_quote (last v)) \<Longrightarrow> strip_quotes v = v"
  by (cases v) (auto simp: strip_quotes_def)

lemma parse_plain_line:
  assumes "dotenv_plain (k, v)"
  shows "parse_dotenv_line m (k @ CHR ''='' # v) = jset k v m"
proof -
  have "take 1 (k @ CHR ''='' # v) \<noteq> ''#''" using assms by (cases k) (auto simp: dotenv_plain_def)
  moreover have "js_trim (k @ CHR ''='' # v) = k @ CHR ''='' # v"
    using assms by (intro trim_line) (auto simp: dotenv_plain_def)
  moreover have "js_split (CHR ''='') (k @ CHR ''='' # v) = k # js_split (CHR ''='') v"
    using assms by (intro js_split_at) (auto simp: dotenv_plain_def)
  ultimately show ?thesis using assms
    by (simp add: parse_dotenv_line_def join_split strip_quotes_plain dotenv_plain_def)
qed

lemma split_shown: "\<forall>kv \<in> set kvs. dotenv_plain kv \<Longrightarrow>
    js_split (CHR 10) (show_dotenv kvs) = map (\<lambda>(k, v). k @ CHR ''='' # v) kvs @ [[]]"
proof (induction kvs)
  case (Cons kv kvs)
  obtain k v where kv: "kv = (k, v)" by (cases kv)
  have "CHR 10 \<notin> set (k @ CHR ''='' # v)" using Cons.prems kv by (auto simp: dotenv_plain_def)
  from js_split_at [OF this, of "show_dotenv kvs"] Cons kv show ?case by (simp add: show_dotenv_def)
qed (simp add: show_dotenv_def)



text \<open>
  One quote at an end of a value is removed even when there is no other, and the rest of the line
  after a number sign belongs to the value.
\<close>

theorem dotenv_loses_single_quotes:
  "parse_dotenv (''SIZE=5'' @ [CHR 34]) = [(''SIZE'', ''5'')]
   \<and> parse_dotenv ''PORT=80 # http'' = [(''PORT'', ''80 # http'')]"
  by (simp add: parse_dotenv_def parse_dotenv_line_def js_trim_def is_js_space_def strip_quotes_def is_quote_def)

text \<open>
  The encrypted source keeps every key and decrypts exactly the values of the listed ones.
\<close>

theorem encrypted_source_decrypts:
  assumes "jwf raw"
  shows "jget (encrypted_load decrypt ks raw) k =
    map_option (map_option (if k \<in> set ks then decrypt else id)) (jget raw k)"
proof -
  let ?f = "\<lambda>(k, v). (k, map_option (if k \<in> set ks then decrypt else id) v)"
  have "foldl (\<lambda>out (k, v). case v of
       Some x \<Rightarrow> if k \<in> set ks then jset k (Some (decrypt x)) out else jset k v out
     | None \<Rightarrow> jset k v out) out xs = assign_all out (map ?f xs)" for out xs
    by (induction xs arbitrary: out) (auto simp: assign_all_def split: option.split)
  then have "encrypted_load decrypt ks raw = assign_all [] (map ?f raw)"
    by (simp add: encrypted_load_def)
  moreover have "jwf (map ?f raw)" using assms by (simp add: comp_def case_prod_beta)
  moreover have "jget (map ?f raw) k = map_option (map_option (if k \<in> set ks then decrypt else id)) (jget raw k)"
    by (induction raw) auto
  ultimately show ?thesis by (simp add: jget_assign_all split: option.split)
qed

theorem encrypted_source_decrypts_witness:
  "jget (encrypted_load rev [''P''] [(''P'', Some ''abc''), (''Q'', Some ''x'')]) ''P''
    = map_option (map_option (if ''P'' \<in> set [''P''] then rev else id)) (jget [(''P'', Some ''abc''), (''Q'', Some ''x'')] ''P'')"
  by (rule encrypted_source_decrypts) simp

section \<open>Profiles and the server\<close>

definition profiles_ok :: "'v profile_manager \<Rightarrow> bool" where
  "profiles_ok m \<longleftrightarrow> (\<forall>p \<in> set (jvalues (pm_profiles m)). jwf p)"

text \<open>
  Reading a key of the profile manager is reading it in the merged values, for every active profile;
  a profile that is not registered cannot be activated and leaves the active one.
\<close>

theorem profile_get_is_merged:
  assumes "profiles_ok m"
  shows "profile_get m key = jget (profile_get_all m) key
    \<and> (is_returned (profile_activate name m) \<longleftrightarrow> jhas (pm_profiles m) name)"
proof -
  have wf: "jget (pm_profiles m) n = Some p \<Longrightarrow> jwf p" for n p
    using assms by (force simp: profiles_ok_def dest: map_of_SomeD)
  have "profile_get m key = jget (profile_get_all m) key"
    by (auto simp: profile_get_def profile_get_all_def Let_def jhas_def jget_assign_all wf
        split: option.splits)
  then show ?thesis by (simp add: profile_activate_def)
qed

theorem profile_get_is_merged_witness:
  "profile_get \<lparr>pm_profiles = [(''default'', [(''a'', 1 :: int), (''b'', 2)]), (''prod'', [(''b'', 3)])], pm_active = ''prod''\<rparr> ''b''
    = jget (profile_get_all \<lparr>pm_profiles = [(''default'', [(''a'', 1), (''b'', 2)]), (''prod'', [(''b'', 3)])], pm_active = ''prod''\<rparr>) ''b''"
  using profile_get_is_merged [of "\<lparr>pm_profiles = [(''default'', [(''a'', 1 :: int), (''b'', 2)]), (''prod'', [(''b'', 3)])],
      pm_active = ''prod''\<rparr>" "''b''" "[]"] by (simp add: profiles_ok_def)

text \<open>
  A single read of the server is the value of the whole listing, decrypted; except that an override
  that is undefined lets the default through in the single read and hides it in the listing.
\<close>

theorem server_get_against_listing:
  assumes "\<forall>p m. profile = Some p \<longrightarrow> jget (cs_profiles s) p = Some m \<longrightarrow> jwf m"
    and "\<forall>p m. profile = Some p \<longrightarrow> jget (cs_profiles s) p = Some m \<longrightarrow> jget m key \<noteq> Some Undefined"
  shows "server_get key profile s = decipher (cs_decrypt s) (value_at (server_get_all profile s) key)"
proof (cases profile)
  case None
  then show ?thesis by (simp add: server_get_def server_get_all_def)
next
  case (Some p)
  show ?thesis
  proof (cases "jget (cs_profiles s) p")
    case None
    with Some show ?thesis by (simp add: server_get_def server_get_all_def assign_all_def)
  next
    case (Some m)
    with \<open>profile = Some p\<close> assms have "jwf m" "jget m key \<noteq> Some Undefined" by auto
    with Some \<open>profile = Some p\<close> show ?thesis
      by (cases "jget m key")
        (auto simp: server_get_def server_get_all_def value_at_def jget_assign_all
          split: config_value.splits)
  qed
qed

definition server_example :: "unit config_server" where
  "server_example = config_server_new\<lparr>cs_store := [(''url'', Text ''u''), (''pw'', Text ''{cipher}cba'')],
     cs_profiles := [(''prod'', [(''url'', Undefined)])], cs_decrypt := Some rev\<rparr>"

theorem server_get_against_listing_witness:
  "server_get ''pw'' (Some ''prod'') server_example
    = decipher (cs_decrypt server_example) (value_at (server_get_all (Some ''prod'') server_example) ''pw'')"
  by (rule server_get_against_listing) (auto simp: server_example_def split: if_splits)

text \<open>An undefined override hides the default in the listing and not in a single read, and the
  listing and the Spring endpoint hand out the ciphertexts.\<close>

theorem listing_differs_from_get:
  "server_get ''url'' (Some ''prod'') server_example = Text ''u''
   \<and> value_at (server_get_all (Some ''prod'') server_example) ''url'' = Undefined
   \<and> server_get ''pw'' None server_example = Text ''abc''
   \<and> value_at (sa_source (spring_cloud_endpoint ''app'' ''prod'' server_example)) ''pw'' = Text ''{cipher}cba''"
  by code_simp

text \<open>What was encrypted with the registered pair is read back in clear.\<close>

theorem server_decrypts_what_it_encrypts:
  assumes "d (e v) = v"
  shows "\<exists>c. server_encrypt v (register_encryption e d s) = Inr c
    \<and> server_get k None (snd (server_set k (Text c) (register_encryption e d s))) = Text v"
  using assms
  by (simp add: server_encrypt_def register_encryption_def server_get_def server_set_def value_at_def
      decipher_def cipher_prefix_def)

theorem server_decrypts_what_it_encrypts_witness:
  "\<exists>c. server_encrypt ''pw'' (register_encryption rev rev server_example) = Inr c
    \<and> server_get ''k'' None (snd (server_set ''k'' (Text c) (register_encryption rev rev server_example))) = Text ''pw''"
  by (rule server_decrypts_what_it_encrypts) simp

section \<open>Reloading\<close>

text \<open>Several reloads, the values their listeners are called with.\<close>

fun hot_reloads :: "(config_error, 'a) outcome list \<Rightarrow> 'a hot_loader \<Rightarrow> (nat \<times> 'a) list \<times> 'a hot_loader" where
  "hot_reloads [] h = ([], h)"
| "hot_reloads (l # ls) h =
     (case hot_reload l h of (r, calls, h1) \<Rightarrow> case hot_reloads ls h1 of (calls2, h2) \<Rightarrow> (calls @ calls2, h2))"

definition loaded_values :: "(config_error, 'a) outcome list \<Rightarrow> 'a list" where
  "loaded_values ls = List.map_filter (\<lambda>l. case l of Inl e \<Rightarrow> None | Inr c \<Rightarrow> Some c) ls"

text \<open>
  Every listener is told exactly the configurations that loaded, in order; a failed reload tells
  nobody and keeps the last one that loaded.
\<close>

theorem reload_tells_what_loaded:
  "fst (hot_reloads ls h) = concat (map (\<lambda>c. map (\<lambda>l. (l, c)) (hl_listeners h)) (loaded_values ls))
   \<and> hl_current (snd (hot_reloads ls h))
       = (if loaded_values ls = [] then hl_current h else Some (last (loaded_values ls)))"
proof (induction ls arbitrary: h)
  case (Cons l ls)
  then show ?case
    by (cases l) (auto simp: hot_reload_def loaded_values_def List.map_filter_def case_prod_beta)
qed (simp add: loaded_values_def List.map_filter_def)

end
