(* ===== verification/Features.thy ===== *)
theory Features
  imports Prelude
begin

text \<open>
  Feature flags, \<open>extras/features/src\<close>: the targeting rules and the percentage rollout of
  \<open>TargetingEngine.ts\<close>, the weighted choice of a variant of \<open>ABTestManager.ts\<close>, the in-memory
  provider of \<open>InMemoryFeatureProvider.ts\<close> with its errors, and the helpers of
  \<open>FeatureService.ts\<close>.  Weights are integers; percentages are \<^typ>\<open>rat\<close>.
\<close>

section \<open>Contexts, rules and flags\<close>

datatype variant_value = VString string | VNumber rat | VBool bool

record feature_context =
  fc_user_id :: "string option"
  fc_tenant_id :: "string option"
  fc_email :: "string option"
  fc_attributes :: "(string, string) jsmap option"

definition empty_context :: feature_context where
  "empty_context = \<lparr>fc_user_id = None, fc_tenant_id = None, fc_email = None, fc_attributes = None\<rparr>"

datatype rule_operator = OpEquals | OpNotEquals | OpContains | OpIn | OpNotIn

datatype targeting_attribute = AttrUserId | AttrTenantId | AttrEmail | AttrCustom

datatype rule_value = OneValue string | ManyValues "string list"

record targeting_rule =
  tr_attribute :: targeting_attribute
  tr_operator :: rule_operator
  tr_value :: rule_value
  tr_attribute_key :: "string option"

record rollout_rule =
  ro_percentage :: rat
  ro_seed :: "string option"

record ab_variant =
  va_name :: string
  va_value :: variant_value
  va_weight :: int

record feature_flag =
  fl_key :: string
  fl_enabled :: bool
  fl_variants :: "ab_variant list option"
  fl_targeting :: "targeting_rule list option"
  fl_rollout :: "rollout_rule option"
  fl_default_variant :: "string option"

datatype evaluation_reason =
  Default | FlagDisabled | FlagNotFound | TargetingMatch | TargetingNoMatch
| RolloutIncluded | RolloutExcluded | AbTest

record evaluation =
  ev_flag_key :: string
  ev_enabled :: bool
  ev_variant :: "string option"
  ev_value :: "variant_value option"
  ev_reason :: evaluation_reason

section \<open>Targeting and rollout\<close>

text \<open>\<open>hashString\<close> and \<open>hashForAB\<close> run the same loop.\<close>

definition hash_loop :: "string \<Rightarrow> int" where
  "hash_loop input = foldl (\<lambda>h c. (h * 31 + int (of_char c)) mod 2147483647) 0 input"

definition get_context_value :: "targeting_attribute \<Rightarrow> string option \<Rightarrow> feature_context \<Rightarrow> string option" where
  "get_context_value attr key ctx =
     (if attr = AttrUserId then fc_user_id ctx
      else if attr = AttrTenantId then fc_tenant_id ctx
      else if attr = AttrEmail then fc_email ctx
      else case key of
             None \<Rightarrow> None
           | Some k \<Rightarrow> (case fc_attributes ctx of None \<Rightarrow> None | Some attrs \<Rightarrow> jget attrs k))"

definition evaluate_scalar_rule :: "rule_operator \<Rightarrow> string \<Rightarrow> string \<Rightarrow> bool" where
  "evaluate_scalar_rule op actual value =
     (if op = OpEquals then actual = value
      else if op = OpNotEquals then actual \<noteq> value
      else js_includes actual value)"

definition evaluate_array_rule :: "rule_operator \<Rightarrow> string \<Rightarrow> string list \<Rightarrow> bool" where
  "evaluate_array_rule op actual values =
     (if op = OpIn then actual \<in> set values else actual \<notin> set values)"

definition evaluate_rule :: "targeting_rule \<Rightarrow> feature_context \<Rightarrow> bool" where
  "evaluate_rule rule ctx =
     (case get_context_value (tr_attribute rule) (tr_attribute_key rule) ctx of
        None \<Rightarrow> False
      | Some actual \<Rightarrow>
          (case tr_value rule of
             OneValue value \<Rightarrow>
               if tr_operator rule = OpIn \<or> tr_operator rule = OpNotIn then False
               else evaluate_scalar_rule (tr_operator rule) actual value
           | ManyValues values \<Rightarrow>
               if tr_operator rule = OpIn \<or> tr_operator rule = OpNotIn
               then evaluate_array_rule (tr_operator rule) actual values
               else False))"

definition evaluate_targeting :: "targeting_rule list \<Rightarrow> feature_context \<Rightarrow> bool" where
  "evaluate_targeting rules ctx = list_all (\<lambda>r. evaluate_rule r ctx) rules"

text \<open>\<open>a ?? b\<close>.\<close>

fun coalesce :: "'a option \<Rightarrow> 'a option \<Rightarrow> 'a option" where
  "coalesce (Some x) y = Some x"
| "coalesce None y = y"

definition first_of :: "'a option list \<Rightarrow> 'a \<Rightarrow> 'a" where
  "first_of xs d = (case foldr coalesce xs None of Some x \<Rightarrow> x | None \<Rightarrow> d)"

definition rollout_bucket :: "rollout_rule \<Rightarrow> string \<Rightarrow> feature_context option \<Rightarrow> int" where
  "rollout_bucket ro key ctx =
     (let seed = first_of [ro_seed ro, Option.bind ctx fc_user_id, Option.bind ctx fc_tenant_id] ''default''
      in hash_loop (key @ '':'' @ seed) mod 100)"

definition evaluate_rollout :: "rollout_rule \<Rightarrow> string \<Rightarrow> feature_context option \<Rightarrow> bool" where
  "evaluate_rollout ro key ctx = (of_int (rollout_bucket ro key ctx) < ro_percentage ro)"

section \<open>Variants\<close>

definition hash_for_ab :: "string \<Rightarrow> feature_context option \<Rightarrow> int" where
  "hash_for_ab key ctx =
     hash_loop (key @ '':'' @ first_of [Option.bind ctx fc_user_id, Option.bind ctx fc_tenant_id] ''anonymous'')"

text \<open>\<open>%\<close> takes the sign of its left operand.\<close>

definition js_rem :: "int \<Rightarrow> int \<Rightarrow> int" where
  "js_rem a b = (if a < 0 then - ((- a) mod \<bar>b\<bar>) else a mod \<bar>b\<bar>)"

fun pick_variant :: "int \<Rightarrow> int \<Rightarrow> ab_variant list \<Rightarrow> ab_variant option" where
  "pick_variant bucket cumulative [] = None"
| "pick_variant bucket cumulative (v # vs) =
     (let c = cumulative + va_weight v
      in if bucket < c then Some v else pick_variant bucket c vs)"

definition total_weight :: "ab_variant list \<Rightarrow> int" where
  "total_weight vs = foldl (\<lambda>s v. s + va_weight v) 0 vs"

definition assign_variant :: "string \<Rightarrow> ab_variant list \<Rightarrow> feature_context option
    \<Rightarrow> (string \<times> variant_value) option" where
  "assign_variant key vs ctx =
     (if vs = [] then None
      else if total_weight vs = 0 then None
      else (case pick_variant (js_rem (hash_for_ab key ctx) (total_weight vs)) 0 vs of
              Some v \<Rightarrow> Some (va_name v, va_value v)
            | None \<Rightarrow> Some (va_name (last vs), va_value (last vs))))"

section \<open>The provider\<close>

type_synonym feature_flags = "(string, feature_flag) jsmap"

definition build_variant_result :: "string \<Rightarrow> evaluation_reason \<Rightarrow> feature_flag
    \<Rightarrow> feature_context option \<Rightarrow> evaluation" where
  "build_variant_result key reason flag ctx =
     (let assigned = (case fl_variants flag of None \<Rightarrow> None
                      | Some vs \<Rightarrow> if length vs > 0 then assign_variant key vs ctx else None)
      in case assigned of
           Some (n, v) \<Rightarrow> \<lparr>ev_flag_key = key, ev_enabled = True, ev_variant = Some n, ev_value = Some v,
                           ev_reason = reason\<rparr>
         | None \<Rightarrow>
             (case fl_default_variant flag of
                Some d \<Rightarrow> \<lparr>ev_flag_key = key, ev_enabled = True, ev_variant = Some d, ev_value = None,
                           ev_reason = reason\<rparr>
              | None \<Rightarrow> \<lparr>ev_flag_key = key, ev_enabled = True, ev_variant = None, ev_value = None,
                         ev_reason = reason\<rparr>))"

definition off_result :: "string \<Rightarrow> evaluation_reason \<Rightarrow> evaluation" where
  "off_result key reason = \<lparr>ev_flag_key = key, ev_enabled = False, ev_variant = None, ev_value = None,
     ev_reason = reason\<rparr>"

definition nonempty_list :: "'a list option \<Rightarrow> bool" where
  "nonempty_list xs = (case xs of None \<Rightarrow> False | Some ys \<Rightarrow> length ys > 0)"

definition evaluate_enabled_flag :: "feature_flag \<Rightarrow> feature_context option \<Rightarrow> evaluation" where
  "evaluate_enabled_flag flag ctx =
     (if nonempty_list (fl_targeting flag) then
        (if evaluate_targeting (the (fl_targeting flag)) (case ctx of None \<Rightarrow> empty_context | Some c \<Rightarrow> c)
         then build_variant_result (fl_key flag) TargetingMatch flag ctx
         else off_result (fl_key flag) TargetingNoMatch)
      else
        (case fl_rollout flag of
           Some ro \<Rightarrow>
             if \<not> evaluate_rollout ro (fl_key flag) ctx then off_result (fl_key flag) RolloutExcluded
             else build_variant_result (fl_key flag) RolloutIncluded flag ctx
         | None \<Rightarrow>
             if nonempty_list (fl_variants flag) then build_variant_result (fl_key flag) AbTest flag ctx
             else \<lparr>ev_flag_key = fl_key flag, ev_enabled = True, ev_variant = None, ev_value = None,
                   ev_reason = Default\<rparr>))"

definition set_flag :: "feature_flag \<Rightarrow> feature_flags \<Rightarrow> feature_flags" where
  "set_flag flag flags = jset (fl_key flag) flag flags"

definition remove_flag :: "string \<Rightarrow> feature_flags \<Rightarrow> bool \<times> feature_flags" where
  "remove_flag key flags = (jhas flags key, jdelete key flags)"

definition feature_flag_not_found :: "string \<Rightarrow> js_error" where
  "feature_flag_not_found key =
     JsError ''FeatureFlagNotFoundError'' (''Feature flag not found: '' @ [CHR 39] @ key @ [CHR 39])"

definition enable_flag :: "string \<Rightarrow> feature_flags \<Rightarrow> (js_error, feature_flags) outcome" where
  "enable_flag key flags =
     (case jget flags key of
        None \<Rightarrow> Inl (feature_flag_not_found key)
      | Some flag \<Rightarrow> Inr (jset key (flag\<lparr>fl_enabled := True\<rparr>) flags))"

definition disable_flag :: "string \<Rightarrow> feature_flags \<Rightarrow> (js_error, feature_flags) outcome" where
  "disable_flag key flags =
     (case jget flags key of
        None \<Rightarrow> Inl (feature_flag_not_found key)
      | Some flag \<Rightarrow> Inr (jset key (flag\<lparr>fl_enabled := False\<rparr>) flags))"

definition evaluate_flag :: "feature_flags \<Rightarrow> string \<Rightarrow> feature_context option \<Rightarrow> evaluation" where
  "evaluate_flag flags key ctx =
     (case jget flags key of
        None \<Rightarrow> off_result key FlagNotFound
      | Some flag \<Rightarrow>
          if \<not> fl_enabled flag then off_result key FlagDisabled
          else evaluate_enabled_flag flag ctx)"

definition get_variant :: "feature_flags \<Rightarrow> string \<Rightarrow> feature_context option \<Rightarrow> variant_value option" where
  "get_variant flags key ctx = ev_value (evaluate_flag flags key ctx)"

definition get_all_flags :: "feature_flags \<Rightarrow> feature_flag list" where
  "get_all_flags flags = jvalues flags"

section \<open>The service\<close>

text \<open>The service's provider is what its \<open>evaluate\<close> answers.\<close>

type_synonym feature_provider = "string \<Rightarrow> feature_context option \<Rightarrow> evaluation"

definition is_enabled :: "feature_provider \<Rightarrow> string \<Rightarrow> feature_context option \<Rightarrow> bool" where
  "is_enabled provider key ctx = ev_enabled (provider key ctx)"

definition is_enabled_for_user :: "feature_provider \<Rightarrow> string \<Rightarrow> string \<Rightarrow> bool" where
  "is_enabled_for_user provider key user =
     is_enabled provider key (Some (empty_context\<lparr>fc_user_id := Some user\<rparr>))"

definition is_enabled_for_tenant :: "feature_provider \<Rightarrow> string \<Rightarrow> string \<Rightarrow> bool" where
  "is_enabled_for_tenant provider key tenant =
     is_enabled provider key (Some (empty_context\<lparr>fc_tenant_id := Some tenant\<rparr>))"

section \<open>Rollout is monotone\<close>

lemma hash_loop_snoc: "hash_loop (s @ [c]) = (hash_loop s * 31 + int (of_char c)) mod 2147483647"
  by (simp add: hash_loop_def)

lemma hash_loop_bounds: "0 \<le> hash_loop s \<and> hash_loop s < 2147483647"
  by (cases s rule: rev_cases) (simp_all add: hash_loop_snoc hash_loop_def)

lemma rollout_bucket_bounds: "0 \<le> rollout_bucket ro key ctx \<and> rollout_bucket ro key ctx < 100"
  by (simp add: rollout_bucket_def Let_def)

lemma rollout_bucket_percentage: "rollout_bucket (ro\<lparr>ro_percentage := p\<rparr>) key ctx = rollout_bucket ro key ctx"
  by (simp add: rollout_bucket_def)

text \<open>
  Raising the percentage of a rollout only adds users: who was included stays included.  At zero
  percent nobody is, at a hundred everybody.
\<close>

theorem rollout_grows:
  assumes "p \<le> q"
  shows "(evaluate_rollout (ro\<lparr>ro_percentage := p\<rparr>) key ctx \<longrightarrow>
       evaluate_rollout (ro\<lparr>ro_percentage := q\<rparr>) key ctx)
    \<and> \<not> evaluate_rollout (ro\<lparr>ro_percentage := 0\<rparr>) key ctx
    \<and> evaluate_rollout (ro\<lparr>ro_percentage := 100\<rparr>) key ctx"
proof -
  have "0 \<le> (of_int (rollout_bucket ro key ctx) :: rat)" "(of_int (rollout_bucket ro key ctx) :: rat) < 100"
    using rollout_bucket_bounds [of ro key ctx] by simp_all
  with assms show ?thesis by (simp add: evaluate_rollout_def rollout_bucket_percentage)
qed

theorem rollout_grows_witness:
  "(evaluate_rollout (\<lparr>ro_percentage = 50, ro_seed = None\<rparr>\<lparr>ro_percentage := 20\<rparr>) ''beta'' None \<longrightarrow>
       evaluate_rollout (\<lparr>ro_percentage = 50, ro_seed = None\<rparr>\<lparr>ro_percentage := 60\<rparr>) ''beta'' None)
    \<and> \<not> evaluate_rollout (\<lparr>ro_percentage = 50, ro_seed = None\<rparr>\<lparr>ro_percentage := 0\<rparr>) ''beta'' None
    \<and> evaluate_rollout (\<lparr>ro_percentage = 50, ro_seed = None\<rparr>\<lparr>ro_percentage := 100\<rparr>) ''beta'' None"
  by (rule rollout_grows) simp

section \<open>Variants get their share\<close>

lemma total_weight_sum: "total_weight vs = sum_list (map va_weight vs)"
proof -
  have "foldl (\<lambda>s v. s + va_weight v) a vs = a + sum_list (map va_weight vs)" for a
    by (induction vs arbitrary: a) simp_all
  then show ?thesis by (simp add: total_weight_def)
qed

lemma pick_variant_hits:
  assumes "\<forall>v \<in> set pre. 0 \<le> va_weight v"
    and "c + sum_list (map va_weight pre) \<le> b"
    and "b < c + sum_list (map va_weight pre) + va_weight v"
  shows "pick_variant b c (pre @ v # post) = Some v"
  using assms
proof (induction pre arbitrary: c)
  case (Cons u pre)
  have "0 \<le> sum_list (map va_weight pre)" using Cons.prems(1) by (intro sum_list_nonneg) auto
  with Cons show ?case by (simp add: Let_def algebra_simps)
qed simp

lemma pick_variant_position:
  assumes "pick_variant b c vs = Some v" and "c \<le> b"
  shows "\<exists>pre post. vs = pre @ v # post \<and> c + sum_list (map va_weight pre) \<le> b
    \<and> b < c + sum_list (map va_weight pre) + va_weight v"
  using assms
proof (induction vs arbitrary: c)
  case (Cons u vs)
  show ?case
  proof (cases "b < c + va_weight u")
    case True
    with Cons.prems have "u # vs = [] @ v # vs \<and> c + sum_list (map va_weight []) \<le> b
        \<and> b < c + sum_list (map va_weight []) + va_weight v" by (simp add: Let_def)
    then show ?thesis by blast
  next
    case False
    with Cons.prems Cons.IH [of "c + va_weight u"] obtain pre post where
      "vs = pre @ v # post" "c + va_weight u + sum_list (map va_weight pre) \<le> b"
      "b < c + va_weight u + sum_list (map va_weight pre) + va_weight v" by (auto simp: Let_def)
    then show ?thesis by (intro exI [of _ "u # pre"] exI [of _ post]) (simp add: algebra_simps)
  qed
qed simp

lemma distinct_split_unique:
  assumes "distinct (map f (pre @ v # post))" and "pre @ v # post = pre' @ v' # post'" and "f v = f v'"
  shows "pre = pre'"
  using assms
proof (induction pre arbitrary: pre')
  case Nil
  then show ?case by (cases pre') auto
next
  case (Cons x pre)
  show ?case
  proof (cases pre')
    case (Cons y list)
    have "distinct (map f (pre @ v # post))" using Cons.prems(1) by simp
    moreover have "pre @ v # post = list @ v' # post'" using Cons.prems(2) Cons by simp
    ultimately have "pre = list" using Cons.prems(3) by (rule Cons.IH)
    from this Cons.prems(2) Cons show ?thesis by simp
  qed (use Cons.prems in auto)
qed

text \<open>
  Of the buckets the hash can fall into, as many lead to a variant as its weight says, when no
  weight is negative and the names differ.
\<close>

theorem variants_get_their_weight:
  assumes "\<forall>v \<in> set vs. 0 \<le> va_weight v" and "distinct (map va_name vs)" and "v \<in> set vs"
  shows "card {b. 0 \<le> b \<and> b < total_weight vs
      \<and> map_option va_name (pick_variant b 0 vs) = Some (va_name v)} = nat (va_weight v)"
proof -
  from assms(3) obtain pre post where vs: "vs = pre @ v # post" by (meson split_list)
  let ?lo = "sum_list (map va_weight pre)"
  have nn: "0 \<le> ?lo" "0 \<le> sum_list (map va_weight post)"
    using assms(1) vs by (auto intro!: sum_list_nonneg)
  have weight: "total_weight vs = ?lo + va_weight v + sum_list (map va_weight post)"
    by (simp add: total_weight_sum vs)
  have "0 \<le> b \<and> b < total_weight vs \<and> map_option va_name (pick_variant b 0 vs) = Some (va_name v)
      \<longleftrightarrow> ?lo \<le> b \<and> b < ?lo + va_weight v" (is "?L \<longleftrightarrow> ?R") for b
  proof
    assume ?L
    then obtain u where "pick_variant b 0 vs = Some u" "va_name u = va_name v" "0 \<le> b" by auto
    moreover from pick_variant_position [OF this(1,3)] obtain pre' post' where
      split: "vs = pre' @ u # post'" and range: "sum_list (map va_weight pre') \<le> b"
        "b < sum_list (map va_weight pre') + va_weight u" by auto
    moreover have "pre = pre'"
      by (rule distinct_split_unique [of va_name pre v post pre' u post'])
        (use assms(2) vs split calculation(2) in simp_all)
    moreover from this split vs have "u = v" by simp
    ultimately show ?R using range by simp
  next
    assume ?R
    then have "pick_variant b 0 vs = Some v"
      unfolding vs using assms(1) vs by (intro pick_variant_hits) auto
    moreover have "0 \<le> b \<and> b < total_weight vs" using \<open>?R\<close> nn weight by linarith
    ultimately show ?L by simp
  qed
  then have "{b. 0 \<le> b \<and> b < total_weight vs
      \<and> map_option va_name (pick_variant b 0 vs) = Some (va_name v)} = {b. ?lo \<le> b \<and> b < ?lo + va_weight v}"
    by (rule Collect_cong)
  also have "\<dots> = {?lo ..< ?lo + va_weight v}" by auto
  finally show ?thesis by simp
qed

lemma pick_variant_exists:
  assumes "0 \<le> b" and "b < c + total_weight vs" and "c \<le> b" and "\<forall>v \<in> set vs. 0 \<le> va_weight v"
  shows "\<exists>v \<in> set vs. 0 < va_weight v \<and> pick_variant b c vs = Some v"
  using assms
proof (induction vs arbitrary: c)
  case (Cons u vs)
  then show ?case
  proof (cases "b < c + va_weight u")
    case False
    with Cons have "\<exists>v \<in> set vs. 0 < va_weight v \<and> pick_variant b (c + va_weight u) vs = Some v"
      by (intro Cons.IH) (auto simp: total_weight_sum)
    with False show ?thesis by (auto simp: Let_def)
  qed (use Cons.prems in \<open>auto simp: Let_def\<close>)
qed (simp add: total_weight_def)

text \<open>
  With no negative weight and some positive one, every context is assigned a variant, one of
  positive weight; the fallback to the last variant is not taken.
\<close>

theorem assigned_variant_has_weight:
  assumes "\<forall>v \<in> set vs. 0 \<le> va_weight v" and "\<exists>v \<in> set vs. 0 < va_weight v"
  shows "\<exists>v \<in> set vs. 0 < va_weight v \<and> assign_variant key vs ctx = Some (va_name v, va_value v)"
proof -
  from assms(2) obtain u where u: "u \<in> set vs" "0 < va_weight u" by blast
  then have "va_weight u \<le> sum_list (map va_weight vs)"
    using assms(1) by (intro member_le_sum_list) auto
  with u have pos: "0 < total_weight vs" by (simp add: total_weight_sum)
  have "\<not> hash_for_ab key ctx < 0" using hash_loop_bounds by (simp add: hash_for_ab_def not_less)
  with pos have bucket: "0 \<le> js_rem (hash_for_ab key ctx) (total_weight vs)"
    "js_rem (hash_for_ab key ctx) (total_weight vs) < 0 + total_weight vs"
    by (simp_all add: js_rem_def)
  from pick_variant_exists [OF this(1,2) this(1) assms(1)] obtain v where
    "v \<in> set vs" "0 < va_weight v"
    "pick_variant (js_rem (hash_for_ab key ctx) (total_weight vs)) 0 vs = Some v" by blast
  moreover have "vs \<noteq> []" using u by auto
  ultimately show ?thesis using pos by (auto simp: assign_variant_def)
qed

definition example_variants :: "ab_variant list" where
  "example_variants = [\<lparr>va_name = ''a'', va_value = VBool True, va_weight = 30\<rparr>,
     \<lparr>va_name = ''b'', va_value = VBool False, va_weight = 70\<rparr>]"

theorem variants_get_their_weight_witness:
  "card {b. 0 \<le> b \<and> b < total_weight example_variants
      \<and> map_option va_name (pick_variant b 0 example_variants) = Some (va_name (hd example_variants))}
    = nat (va_weight (hd example_variants))"
  by (rule variants_get_their_weight) (simp_all add: example_variants_def)

theorem assigned_variant_has_weight_witness:
  "\<exists>v \<in> set example_variants. 0 < va_weight v
     \<and> assign_variant ''exp'' example_variants None = Some (va_name v, va_value v)"
  by (rule assigned_variant_has_weight) (simp_all add: example_variants_def)

section \<open>Evaluation\<close>

lemma build_variant_result_on [simp]:
  "ev_enabled (build_variant_result key reason flag ctx)"
  "ev_reason (build_variant_result key reason flag ctx) = reason"
  by (simp_all add: build_variant_result_def Let_def split: option.split)

definition flag_passes :: "feature_flag \<Rightarrow> feature_context option \<Rightarrow> bool" where
  "flag_passes flag ctx =
     (if nonempty_list (fl_targeting flag)
      then \<forall>r \<in> set (the (fl_targeting flag)). evaluate_rule r (case ctx of None \<Rightarrow> empty_context | Some c \<Rightarrow> c)
      else case fl_rollout flag of None \<Rightarrow> True | Some ro \<Rightarrow> evaluate_rollout ro (fl_key flag) ctx)"

text \<open>
  The decision: a flag is on for a context exactly when it exists, is enabled, and its targeting
  rules all match or, when it has none, its rollout includes the context; and each reason
  is given in its case only.
\<close>

theorem evaluation_decides:
  "(ev_enabled (evaluate_flag flags key ctx) \<longleftrightarrow>
      (\<exists>flag. jget flags key = Some flag \<and> fl_enabled flag \<and> flag_passes flag ctx))
   \<and> (ev_reason (evaluate_flag flags key ctx) = FlagNotFound \<longleftrightarrow> jget flags key = None)
   \<and> (ev_reason (evaluate_flag flags key ctx) = FlagDisabled \<longleftrightarrow>
        (\<exists>flag. jget flags key = Some flag \<and> \<not> fl_enabled flag))
   \<and> (\<not> ev_enabled (evaluate_flag flags key ctx) \<longrightarrow>
        ev_value (evaluate_flag flags key ctx) = None \<and> ev_variant (evaluate_flag flags key ctx) = None)"
proof (cases "jget flags key")
  case None
  then show ?thesis by (simp add: evaluate_flag_def off_result_def)
next
  case (Some flag)
  show ?thesis
  proof (cases "fl_enabled flag")
    case False
    with Some show ?thesis by (simp add: evaluate_flag_def off_result_def)
  next
    case True
    have "ev_enabled (evaluate_enabled_flag flag ctx) \<longleftrightarrow> flag_passes flag ctx"
      and "ev_reason (evaluate_enabled_flag flag ctx) \<noteq> FlagNotFound"
      and "ev_reason (evaluate_enabled_flag flag ctx) \<noteq> FlagDisabled"
      and "\<not> ev_enabled (evaluate_enabled_flag flag ctx) \<longrightarrow>
        ev_value (evaluate_enabled_flag flag ctx) = None \<and> ev_variant (evaluate_enabled_flag flag ctx) = None"
      by (auto simp: evaluate_enabled_flag_def flag_passes_def evaluate_targeting_def list_all_iff
          off_result_def split: option.splits)
    with Some True show ?thesis by (simp add: evaluate_flag_def)
  qed
qed

theorem evaluation_decides_witness:
  "ev_enabled (evaluate_flag [] ''k'' None) \<longleftrightarrow>
      (\<exists>flag. jget [] ''k'' = Some flag \<and> fl_enabled flag \<and> flag_passes flag None)"
  using evaluation_decides [of "[]" "''k''" None] by blast

text \<open>
  Enabling and disabling reject exactly for an unknown flag; otherwise they change the switch of
  that flag and nothing else, and the last of several decides.
\<close>

theorem flag_switches:
  "(is_returned (enable_flag key flags) \<longleftrightarrow> jhas flags key)
   \<and> (is_returned (disable_flag key flags) \<longleftrightarrow> jhas flags key)
   \<and> (case enable_flag key flags of
        Inl e \<Rightarrow> error_name e = ''FeatureFlagNotFoundError''
      | Inr flags' \<Rightarrow>
          jget flags' key = map_option (fl_enabled_update (\<lambda>_. True)) (jget flags key)
          \<and> (\<forall>k. k = key \<or> jget flags' k = jget flags k)
          \<and> (\<forall>ctx. case disable_flag key flags' of
               Inl e \<Rightarrow> False
             | Inr flags'' \<Rightarrow> ev_reason (evaluate_flag flags'' key ctx) = FlagDisabled))"
  by (auto simp: enable_flag_def disable_flag_def jhas_def feature_flag_not_found_def
      evaluate_flag_def off_result_def split: option.splits)

text \<open>
  A rule about an attribute the context lacks never matches, not even a negative one; a rule on a
  custom attribute that names none is such a rule, and is not reported.
\<close>

theorem missing_attribute_never_matches:
  "(get_context_value (tr_attribute rule) (tr_attribute_key rule) ctx = None \<longrightarrow> \<not> evaluate_rule rule ctx)
   \<and> \<not> evaluate_rule (rule\<lparr>tr_attribute := AttrCustom, tr_attribute_key := None\<rparr>) ctx"
  by (simp add: evaluate_rule_def get_context_value_def)

theorem missing_attribute_never_matches_witness:
  "\<not> evaluate_rule \<lparr>tr_attribute = AttrEmail, tr_operator = OpNotEquals, tr_value = OneValue ''x'',
      tr_attribute_key = None\<rparr> empty_context"
  using missing_attribute_never_matches [of "\<lparr>tr_attribute = AttrEmail, tr_operator = OpNotEquals,
      tr_value = OneValue ''x'', tr_attribute_key = None\<rparr>" empty_context]
  by (simp add: get_context_value_def empty_context_def)

text \<open>The flags are a store by key.\<close>

interpretation flag_store: keyed_store jget set_flag "\<lambda>k m. snd (remove_flag k m)" fl_key jwf
  by unfold_locales (simp_all add: set_flag_def remove_flag_def jwf_jset jwf_jdelete)

end
