(* ===== verification/Deployment.thy ===== *)
theory Deployment
  imports Prelude
begin

text \<open>
  The release controllers of \<open>extras/k8s/src\<close>: \<open>bluegreen/BlueGreenDeployment.ts\<close> with its two
  slots and the traffic switch between them, and \<open>canary/CanaryRelease.ts\<close>, which shifts traffic
  by steps and watches metrics.

  The HTTP call of the health check and the registered smoke checks act on a state of their own
  and may throw.  The metrics are what the provider answered when the operation resumes, so an
  operation that awaits them is one step at that moment.  Handlers are listed by number; what they
  are called with is the result of an operation.  Rates, latencies and weights are \<^typ>\<open>rat\<close>.
\<close>

section \<open>Blue-green deployment\<close>

datatype deployment_color = Blue | Green

record blue_green_config =
  bg_namespace :: string
  bg_app_name :: string
  bg_replicas :: "int option"
  bg_port :: "int option"
  bg_health_path :: "string option"

record deployment_slot =
  slot_color :: deployment_color
  slot_image :: string
  slot_replicas :: int
  slot_ready :: int
  slot_active :: bool
  slot_created :: int

record smoke_check =
  sc_name :: string
  sc_passed :: bool
  sc_message :: "string option"

type_synonym 'w smoke_fn = "deployment_color \<Rightarrow> 'w \<Rightarrow> (js_error, smoke_check) outcome \<times> 'w"

record http_response =
  http_ok :: bool
  http_status :: int

type_synonym 'w http_fn = "string \<Rightarrow> 'w \<Rightarrow> (js_error, http_response) outcome \<times> 'w"

record 'w blue_green =
  bg_config :: blue_green_config
  bg_slots :: "(deployment_color, deployment_slot) jsmap"
  bg_active :: deployment_color
  bg_checks :: "'w smoke_fn list"

record switch_result =
  sw_from :: deployment_color
  sw_to :: deployment_color
  sw_success :: bool
  sw_message :: string
  sw_at :: int

record rollback_result =
  rb_from :: deployment_color
  rb_to :: deployment_color
  rb_reason :: string
  rb_at :: int

definition blue_green_new :: "blue_green_config \<Rightarrow> 'w blue_green" where
  "blue_green_new cfg = \<lparr>bg_config = cfg, bg_slots = [], bg_active = Blue, bg_checks = []\<rparr>"

definition other_color :: "deployment_color \<Rightarrow> deployment_color" where
  "other_color c = (if c = Blue then Green else Blue)"

definition inactive_color :: "'w blue_green \<Rightarrow> deployment_color" where
  "inactive_color d = other_color (bg_active d)"

definition show_color :: "deployment_color \<Rightarrow> string" where
  "show_color c = (case c of Blue \<Rightarrow> ''blue'' | Green \<Rightarrow> ''green'')"

definition bg_deploy :: "deployment_color \<Rightarrow> string \<Rightarrow> int \<Rightarrow> 'w blue_green
    \<Rightarrow> deployment_slot \<times> 'w blue_green" where
  "bg_deploy color img now d =
     (let replicas = (case bg_replicas (bg_config d) of None \<Rightarrow> 2 | Some n \<Rightarrow> n);
          slot = \<lparr>slot_color = color, slot_image = img, slot_replicas = replicas,
                  slot_ready = replicas, slot_active = (color = bg_active d), slot_created = now\<rparr>
      in (slot, d\<lparr>bg_slots := jset color slot (bg_slots d)\<rparr>))"

definition set_active :: "deployment_color \<Rightarrow> 'w blue_green \<Rightarrow> 'w blue_green" where
  "set_active color d =
     d\<lparr>bg_active := color,
       bg_slots := map (\<lambda>(c, slot). (c, slot\<lparr>slot_active := (c = color)\<rparr>)) (bg_slots d)\<rparr>"

definition switch_traffic :: "deployment_color \<Rightarrow> int \<Rightarrow> 'w blue_green \<Rightarrow> switch_result \<times> 'w blue_green" where
  "switch_traffic target now d =
     (let src = bg_active d in
      case jget (bg_slots d) target of
        None \<Rightarrow>
          (\<lparr>sw_from = src, sw_to = target, sw_success = False,
            sw_message = ''Slot '' @ show_color target @ '' is not deployed'', sw_at = now\<rparr>, d)
      | Some slot \<Rightarrow>
          if slot_ready slot < slot_replicas slot then
            (\<lparr>sw_from = src, sw_to = target, sw_success = False,
              sw_message = ''Slot '' @ show_color target @ '' is not ready ('' @ show_int (slot_ready slot)
                @ ''/'' @ show_int (slot_replicas slot) @ '' replicas ready)'', sw_at = now\<rparr>, d)
          else
            (\<lparr>sw_from = src, sw_to = target, sw_success = True,
              sw_message = ''Traffic switched from '' @ show_color src @ '' to '' @ show_color target,
              sw_at = now\<rparr>, set_active target d))"

definition bg_rollback :: "string \<Rightarrow> int \<Rightarrow> 'w blue_green \<Rightarrow> rollback_result \<times> 'w blue_green" where
  "bg_rollback reason now d =
     (let src = bg_active d; target = inactive_color d
      in (\<lparr>rb_from = src, rb_to = target, rb_reason = reason, rb_at = now\<rparr>, set_active target d))"

definition get_slot :: "deployment_color \<Rightarrow> 'w blue_green \<Rightarrow> deployment_slot option" where
  "get_slot color d = jget (bg_slots d) color"

definition add_smoke_check :: "'w smoke_fn \<Rightarrow> 'w blue_green \<Rightarrow> 'w blue_green" where
  "add_smoke_check f d = d\<lparr>bg_checks := bg_checks d @ [f]\<rparr>"

definition health_url :: "blue_green_config \<Rightarrow> deployment_color \<Rightarrow> string" where
  "health_url cfg color =
     ''http://'' @ bg_app_name cfg @ ''-'' @ show_color color @ ''.'' @ bg_namespace cfg
     @ ''.svc.cluster.local:'' @ show_int (case bg_port cfg of None \<Rightarrow> 80 | Some p \<Rightarrow> p)
     @ (case bg_health_path cfg of None \<Rightarrow> ''/health'' | Some p \<Rightarrow> p)"

definition run_health_check :: "'w http_fn \<Rightarrow> blue_green_config \<Rightarrow> deployment_color \<Rightarrow> 'w
    \<Rightarrow> smoke_check \<times> 'w" where
  "run_health_check http cfg color w =
     (case http (health_url cfg color) w of
        (Inr res, w1) \<Rightarrow>
          (\<lparr>sc_name = ''healthcheck'', sc_passed = http_ok res,
            sc_message = Some (if http_ok res then ''Health check passed''
              else ''Health check failed with status '' @ show_int (http_status res))\<rparr>, w1)
      | (Inl err, w1) \<Rightarrow>
          (\<lparr>sc_name = ''healthcheck'', sc_passed = False,
            sc_message = Some (''Health check error: '' @ error_message err)\<rparr>, w1))"

text \<open>The loop over the registered checks; one that throws rejects the whole run.\<close>

fun run_checks :: "'w smoke_fn list \<Rightarrow> deployment_color \<Rightarrow> smoke_check list \<Rightarrow> 'w
    \<Rightarrow> (js_error, smoke_check list) outcome \<times> 'w" where
  "run_checks [] color done_checks w = (Inr done_checks, w)"
| "run_checks (f # fs) color done_checks w =
     (case f color w of
        (Inl err, w1) \<Rightarrow> (Inl err, w1)
      | (Inr c, w1) \<Rightarrow> run_checks fs color (done_checks @ [c]) w1)"

record smoke_result =
  sr_passed :: bool
  sr_duration :: int
  sr_checks :: "smoke_check list"

definition run_smoke_tests :: "'w http_fn \<Rightarrow> deployment_color \<Rightarrow> int \<Rightarrow> int \<Rightarrow> 'w blue_green \<Rightarrow> 'w
    \<Rightarrow> (js_error, smoke_result) outcome \<times> 'w" where
  "run_smoke_tests http color start_time end_time d w =
     (case run_health_check http (bg_config d) color w of
        (health, w1) \<Rightarrow>
          (case run_checks (bg_checks d) color [health] w1 of
             (Inl err, w2) \<Rightarrow> (Inl err, w2)
           | (Inr checks, w2) \<Rightarrow>
               (Inr \<lparr>sr_passed = list_all sc_passed checks, sr_duration = end_time - start_time,
                     sr_checks = checks\<rparr>, w2)))"

text \<open>
  The slot objects are handed out by \<open>deploy\<close> and \<open>getSlot\<close> and their \<open>readyReplicas\<close> is not
  \<open>readonly\<close>: what watches the cluster writes it.
\<close>

definition report_ready :: "deployment_color \<Rightarrow> int \<Rightarrow> 'w blue_green \<Rightarrow> 'w blue_green" where
  "report_ready color n d =
     (case jget (bg_slots d) color of
        None \<Rightarrow> d
      | Some slot \<Rightarrow> d\<lparr>bg_slots := jset color (slot\<lparr>slot_ready := n\<rparr>) (bg_slots d)\<rparr>)"

datatype blue_green_event =
  Deploy deployment_color string int
| SwitchTraffic deployment_color int
| Rollback string int
| ReportReady deployment_color int

definition blue_green_step :: "'w blue_green \<Rightarrow> blue_green_event \<Rightarrow> 'w blue_green" where
  "blue_green_step d e =
     (case e of
        Deploy c img now \<Rightarrow> snd (bg_deploy c img now d)
      | SwitchTraffic c now \<Rightarrow> snd (switch_traffic c now d)
      | Rollback reason now \<Rightarrow> snd (bg_rollback reason now d)
      | ReportReady c n \<Rightarrow> report_ready c n d)"

text \<open>The flag on a slot says whether it has the traffic, and a slot is stored under its color.\<close>

definition slots_agree :: "'w blue_green \<Rightarrow> bool" where
  "slots_agree d \<longleftrightarrow> jwf (bg_slots d) \<and>
     (\<forall>(c, slot) \<in> set (bg_slots d). slot_color slot = c \<and> (slot_active slot \<longleftrightarrow> c = bg_active d))"

lemma slots_agree_get:
  "slots_agree d \<Longrightarrow> jget (bg_slots d) c = Some slot \<Longrightarrow>
     slot_color slot = c \<and> (slot_active slot \<longleftrightarrow> c = bg_active d)"
  by (auto simp: slots_agree_def dest: map_of_SomeD)

lemma slots_agree_new [inv_intros]: "slots_agree (blue_green_new cfg)"
  by (simp add: slots_agree_def blue_green_new_def)

lemma slots_agree_deploy [inv_intros]: "slots_agree d \<Longrightarrow> slots_agree (snd (bg_deploy c img now d))"
  by (auto simp: slots_agree_def bg_deploy_def jset_entries Let_def intro: jwf_jset)

lemma slots_agree_set_active [inv_intros]: "slots_agree d \<Longrightarrow> slots_agree (set_active c d)"
  by (auto simp: slots_agree_def set_active_def comp_def case_prod_beta)

lemma slots_agree_switch [inv_intros]: "slots_agree d \<Longrightarrow> slots_agree (snd (switch_traffic c now d))"
  by (auto simp: switch_traffic_def Let_def slots_agree_set_active split: option.splits)

lemma slots_agree_rollback [inv_intros]: "slots_agree d \<Longrightarrow> slots_agree (snd (bg_rollback r now d))"
  by (simp add: bg_rollback_def Let_def slots_agree_set_active)

lemma slots_agree_ready [inv_intros]: "slots_agree d \<Longrightarrow> slots_agree (report_ready c n d)"
  by (auto simp: report_ready_def slots_agree_def jset_entries jwf_jset split: option.splits
      dest: map_of_SomeD)

interpretation blue_green: invariant_machine blue_green_step slots_agree
  by unfold_locales (auto simp: blue_green_step_def intro: inv_intros split: blue_green_event.split)

lemma map_of_map_pairs: "map_of (map (\<lambda>(k, v). (k, f k v)) m) k = map_option (f k) (map_of m k)"
  by (induction m) auto

lemma jget_set_active:
  "jget (bg_slots (set_active c d)) k = map_option (\<lambda>s. s\<lparr>slot_active := (k = c)\<rparr>) (jget (bg_slots d) k)"
  by (simp add: set_active_def map_of_map_pairs)

lemma set_active_active [simp]: "bg_active (set_active c d) = c"
  by (simp add: set_active_def)

text \<open>
  After every sequence of operations a slot is flagged active exactly when its color has the
  traffic, so never both are.
\<close>

theorem traffic_flag_agrees:
  "slots_agree (foldl blue_green_step (blue_green_new cfg) es)"
  by (rule blue_green.run_keeps) (rule slots_agree_new)

text \<open>
  A switch succeeds exactly when the slot is deployed with all its replicas ready; it then moves the
  traffic there, and otherwise changes nothing.
\<close>

theorem switch_checks_readiness:
  "case switch_traffic c now d of (r, d') \<Rightarrow>
     (sw_success r \<longleftrightarrow> (\<exists>slot. get_slot c d = Some slot \<and> slot_replicas slot \<le> slot_ready slot))
     \<and> (if sw_success r then bg_active d' = c \<and> map_option slot_active (get_slot c d') = Some True
        else d' = d)
     \<and> sw_from r = bg_active d \<and> sw_to r = c"
  by (auto simp: switch_traffic_def get_slot_def jget_set_active Let_def not_less
      split: option.splits)

fun is_rollback :: "blue_green_event \<Rightarrow> bool" where
  "is_rollback (Rollback r now) = True"
| "is_rollback e = False"

lemma active_deployed_step:
  assumes "jhas (bg_slots d) (bg_active d)" and "\<not> is_rollback e"
  shows "jhas (bg_slots (blue_green_step d e)) (bg_active (blue_green_step d e))"
  using assms
  by (cases e) (auto simp: blue_green_step_def bg_deploy_def switch_traffic_def report_ready_def Let_def
      jhas_def jget_set_active split: option.splits)

text \<open>
  Once the traffic goes to a deployed slot it does for ever, as long as nothing is rolled back.
\<close>

theorem traffic_stays_deployed:
  assumes "get_slot (bg_active d) d \<noteq> None" and "\<forall>e \<in> set es. \<not> is_rollback e"
  shows "get_slot (bg_active (foldl blue_green_step d es)) (foldl blue_green_step d es) \<noteq> None"
  using assms
proof (induction es arbitrary: d)
  case (Cons e es)
  then have "jhas (bg_slots (blue_green_step d e)) (bg_active (blue_green_step d e))"
    by (intro active_deployed_step) (auto simp: jhas_def get_slot_def)
  with Cons show ?case by (simp add: jhas_def get_slot_def)
qed simp

definition example_config :: blue_green_config where
  "example_config = \<lparr>bg_namespace = ''prod'', bg_app_name = ''shop'', bg_replicas = None,
     bg_port = None, bg_health_path = None\<rparr>"

definition live_blue :: "unit blue_green" where
  "live_blue = snd (bg_deploy Blue ''v1'' 0 (blue_green_new example_config))"

theorem traffic_stays_deployed_witness:
  "get_slot (bg_active (foldl blue_green_step live_blue [Deploy Green ''v2'' 1, SwitchTraffic Green 2]))
     (foldl blue_green_step live_blue [Deploy Green ''v2'' 1, SwitchTraffic Green 2]) \<noteq> None"
  by (rule traffic_stays_deployed)
    (simp_all add: live_blue_def bg_deploy_def blue_green_new_def get_slot_def Let_def)

text \<open>
  A rollback moves the traffic without looking at the slot: with only one color deployed it goes to
  nothing, and with the other color not ready it goes to a slot a switch refuses.
\<close>

theorem rollback_ignores_readiness:
  "get_slot (bg_active (snd (bg_rollback ''bad'' 1 live_blue))) (snd (bg_rollback ''bad'' 1 live_blue)) = None
   \<and> (let d = report_ready Green 0 (snd (bg_deploy Green ''v2'' 1 live_blue))
      in \<not> sw_success (fst (switch_traffic Green 2 d)) \<and> bg_active (snd (bg_rollback ''bad'' 2 d)) = Green)"
  by code_simp

text \<open>Rolling back right after a successful switch to the other color restores everything.\<close>

theorem rollback_undoes_switch:
  assumes "slots_agree d" and "sw_success (fst (switch_traffic c now d))" and "c \<noteq> bg_active d"
  shows "snd (bg_rollback reason later (snd (switch_traffic c now d))) = d"
proof -
  from assms(2) have "snd (switch_traffic c now d) = set_active c d"
    by (auto simp: switch_traffic_def Let_def split: option.splits if_splits)
  moreover have "other_color c = bg_active d"
    using assms(3) by (cases c; cases "bg_active d") (simp_all add: other_color_def)
  moreover have "map (\<lambda>x. (fst x, snd x\<lparr>slot_active := (fst x = bg_active d)\<rparr>)) (bg_slots d) = bg_slots d"
    using assms(1) by (intro map_idI) (auto simp: slots_agree_def)
  ultimately show ?thesis
    by (simp add: bg_rollback_def inactive_color_def set_active_def Let_def comp_def case_prod_beta)
qed

theorem rollback_undoes_switch_witness:
  "snd (bg_rollback ''bad'' 3 (snd (switch_traffic Green 2 (snd (bg_deploy Green ''v2'' 1 live_blue)))))
     = snd (bg_deploy Green ''v2'' 1 live_blue)"
proof (rule rollback_undoes_switch)
  show "slots_agree (snd (bg_deploy Green ''v2'' 1 live_blue))"
    by (simp add: live_blue_def slots_agree_deploy slots_agree_new)
  show "sw_success (fst (switch_traffic Green 2 (snd (bg_deploy Green ''v2'' 1 live_blue))))"
    by code_simp
  show "Green \<noteq> bg_active (snd (bg_deploy Green ''v2'' 1 live_blue))"
    by (simp add: live_blue_def bg_deploy_def blue_green_new_def Let_def)
qed

lemma run_checks_all:
  "run_checks fs color cs w = (Inr out, w1) \<Longrightarrow>
     \<exists>new. out = cs @ new \<and> length new = length fs"
proof (induction fs arbitrary: cs w)
  case (Cons f fs)
  then show ?case by (fastforce split: prod.splits sum.splits)
qed simp

text \<open>
  A smoke run that returns has made the health check and every registered check, in order, and
  passes exactly when all of them did; failed checks do not stop it.
\<close>

theorem smoke_run_checks_everything:
  assumes "run_smoke_tests http color t0 t1 d w = (Inr r, w1)"
  shows "hd (sr_checks r) = fst (run_health_check http (bg_config d) color w)
    \<and> length (sr_checks r) = Suc (length (bg_checks d))
    \<and> (sr_passed r \<longleftrightarrow> (\<forall>c \<in> set (sr_checks r). sc_passed c))"
proof -
  obtain health w2 where h: "run_health_check http (bg_config d) color w = (health, w2)" by fastforce
  with assms obtain checks where "run_checks (bg_checks d) color [health] w2 = (Inr checks, w1)"
    and r: "r = \<lparr>sr_passed = list_all sc_passed checks, sr_duration = t1 - t0, sr_checks = checks\<rparr>"
    by (auto simp: run_smoke_tests_def split: prod.splits sum.splits)
  from run_checks_all [OF this(1)] r h show ?thesis by (auto simp: list_all_iff)
qed

theorem smoke_run_checks_everything_witness:
  "hd [\<lparr>sc_name = ''healthcheck'', sc_passed = True, sc_message = Some ''Health check passed''\<rparr>]
     = fst (run_health_check (\<lambda>url w. (Inr \<lparr>http_ok = True, http_status = 200\<rparr>, w)) example_config Blue ())"
proof -
  let ?c = "\<lparr>sc_name = ''healthcheck'', sc_passed = True, sc_message = Some ''Health check passed''\<rparr>"
  have "run_smoke_tests (\<lambda>url w. (Inr \<lparr>http_ok = True, http_status = 200\<rparr>, w)) Blue 0 1
      (blue_green_new example_config) ()
    = (Inr \<lparr>sr_passed = True, sr_duration = 1, sr_checks = [?c]\<rparr>, ())"
    by (simp add: run_smoke_tests_def run_health_check_def blue_green_new_def)
  from smoke_run_checks_everything [OF this] show ?thesis by (simp add: blue_green_new_def)
qed

section \<open>Canary release\<close>

record canary_config =
  cn_initial_weight :: "rat option"
  cn_step_size :: "rat option"
  cn_error_rate_threshold :: "rat option"
  cn_baseline_latency :: "rat option"

record canary_metrics =
  cm_error_rate :: rat
  cm_p99_latency :: rat
  cm_requests_per_second :: rat
  cm_success_rate :: rat

datatype canary_phase = Initializing | Progressing | Paused | Succeeded | Failed | RolledBack

record canary =
  cn_weight :: rat
  cn_phase :: canary_phase
  cn_updated_at :: int
  cn_step :: rat
  cn_threshold :: rat
  cn_baseline :: rat
  cn_alert_handlers :: "nat list"
  cn_phase_handlers :: "nat list"

text \<open>The text of a failure's reason is built from these numbers, formatted.\<close>

datatype canary_reason =
  WithinThresholds
| ErrorRateAbove rat rat
| LatencyAbove rat rat
| ErrorRateTwiceStable rat rat
| GivenReason string

text \<open>A handler is called: an alert with its reason, or a change of phase.\<close>

datatype canary_call = AlertCall nat canary_reason | PhaseCall nat canary_phase

definition or_else :: "'a option \<Rightarrow> 'a \<Rightarrow> 'a" where
  "or_else x y = (case x of None \<Rightarrow> y | Some v \<Rightarrow> v)"

definition canary_new :: "canary_config \<Rightarrow> int \<Rightarrow> canary" where
  "canary_new cfg now =
     \<lparr>cn_weight = or_else (cn_initial_weight cfg) 5, cn_phase = Initializing, cn_updated_at = now,
      cn_step = or_else (cn_step_size cfg) 10,
      cn_threshold = or_else (cn_error_rate_threshold cfg) (1 / 20),
      cn_baseline = or_else (cn_baseline_latency cfg) 200,
      cn_alert_handlers = [], cn_phase_handlers = []\<rparr>"

definition meets_thresholds :: "canary \<Rightarrow> canary_metrics \<Rightarrow> canary_metrics \<Rightarrow> bool" where
  "meets_thresholds c can base =
     (if cm_error_rate can > cn_threshold c then False
      else if cm_p99_latency can > cn_baseline c * (12 / 10) then False
      else if cm_error_rate can > cm_error_rate base * 2 then False
      else True)"

definition failure_reason :: "canary \<Rightarrow> canary_metrics \<Rightarrow> canary_metrics \<Rightarrow> canary_reason" where
  "failure_reason c can base =
     (if cm_error_rate can > cn_threshold c then ErrorRateAbove (cm_error_rate can) (cn_threshold c)
      else if cm_p99_latency can > cn_baseline c * (12 / 10) then
        LatencyAbove (cm_p99_latency can) (cn_baseline c)
      else ErrorRateTwiceStable (cm_error_rate can) (cm_error_rate base))"

definition set_phase :: "canary_phase \<Rightarrow> canary \<Rightarrow> canary_call list \<times> canary" where
  "set_phase p c =
     (if cn_phase c \<noteq> p then (map (\<lambda>h. PhaseCall h p) (cn_phase_handlers c), c\<lparr>cn_phase := p\<rparr>)
      else ([], c))"

record canary_analysis =
  ca_passed :: bool
  ca_reason :: canary_reason
  ca_canary :: canary_metrics
  ca_stable :: canary_metrics

text \<open>The metrics arrive; an operation whose metrics call rejects rejects and changes nothing.\<close>

definition canary_analyse :: "canary_metrics \<Rightarrow> canary_metrics \<Rightarrow> canary
    \<Rightarrow> canary_analysis \<times> canary_call list \<times> canary" where
  "canary_analyse base can c =
     (let passed = meets_thresholds c can base;
          (calls, c1) = (if passed then ([], c) else set_phase Failed c)
      in (\<lparr>ca_passed = passed,
           ca_reason = (if passed then WithinThresholds else failure_reason c1 can base),
           ca_canary = can, ca_stable = base\<rparr>, calls, c1))"

definition canary_promote :: "canary_metrics \<Rightarrow> canary_metrics \<Rightarrow> int \<Rightarrow> canary
    \<Rightarrow> rat \<times> canary_call list \<times> canary" where
  "canary_promote base can now c =
     (case canary_analyse base can c of
        (res, calls, c1) \<Rightarrow>
          if \<not> ca_passed res then
            (case set_phase Failed c1 of
               (calls2, c2) \<Rightarrow>
                 (cn_weight c2,
                  calls @ calls2 @ map (\<lambda>h. AlertCall h (ca_reason res)) (cn_alert_handlers c2), c2))
          else
            (let w = min 100 (cn_weight c1 + cn_step c1);
                 c2 = c1\<lparr>cn_weight := w, cn_updated_at := now\<rparr>
             in case set_phase (if w \<ge> 100 then Succeeded else Progressing) c2 of
                  (calls2, c3) \<Rightarrow> (w, calls @ calls2, c3)))"

definition canary_rollback :: "string option \<Rightarrow> int \<Rightarrow> canary \<Rightarrow> canary_call list \<times> canary" where
  "canary_rollback reason now c =
     (let c1 = c\<lparr>cn_weight := 0, cn_updated_at := now\<rparr>
      in case set_phase RolledBack c1 of
           (calls, c2) \<Rightarrow>
             (calls @ map (\<lambda>h. AlertCall h (GivenReason (or_else reason ''Manual rollback'')))
                (cn_alert_handlers c2), c2))"

definition canary_pause :: "canary \<Rightarrow> canary_call list \<times> canary" where
  "canary_pause c = set_phase Paused c"

definition canary_resume :: "canary \<Rightarrow> canary_call list \<times> canary" where
  "canary_resume c = (if cn_phase c = Paused then set_phase Progressing c else ([], c))"

definition on_alert :: "nat \<Rightarrow> canary \<Rightarrow> canary" where
  "on_alert h c = c\<lparr>cn_alert_handlers := cn_alert_handlers c @ [h]\<rparr>"

definition off_alert :: "nat \<Rightarrow> canary \<Rightarrow> canary" where
  "off_alert h c = c\<lparr>cn_alert_handlers := remove1 h (cn_alert_handlers c)\<rparr>"

definition on_phase_change :: "nat \<Rightarrow> canary \<Rightarrow> canary" where
  "on_phase_change h c = c\<lparr>cn_phase_handlers := cn_phase_handlers c @ [h]\<rparr>"

definition off_phase_change :: "nat \<Rightarrow> canary \<Rightarrow> canary" where
  "off_phase_change h c = c\<lparr>cn_phase_handlers := remove1 h (cn_phase_handlers c)\<rparr>"

datatype canary_event =
  Analyse canary_metrics canary_metrics
| Promote canary_metrics canary_metrics int
| RollBack "string option" int
| Pause
| Resume
| OnAlert nat
| OffAlert nat
| OnPhase nat
| OffPhase nat

definition canary_step :: "canary \<Rightarrow> canary_event \<Rightarrow> canary_call list \<times> canary" where
  "canary_step c e =
     (case e of
        Analyse base can \<Rightarrow> snd (canary_analyse base can c)
      | Promote base can now \<Rightarrow> snd (canary_promote base can now c)
      | RollBack reason now \<Rightarrow> canary_rollback reason now c
      | Pause \<Rightarrow> canary_pause c
      | Resume \<Rightarrow> canary_resume c
      | OnAlert h \<Rightarrow> ([], on_alert h c)
      | OffAlert h \<Rightarrow> ([], off_alert h c)
      | OnPhase h \<Rightarrow> ([], on_phase_change h c)
      | OffPhase h \<Rightarrow> ([], off_phase_change h c))"

fun canary_run :: "canary \<Rightarrow> canary_event list \<Rightarrow> canary_call list \<times> canary" where
  "canary_run c [] = ([], c)"
| "canary_run c (e # es) =
     (case canary_step c e of (calls, c1) \<Rightarrow>
        case canary_run c1 es of (calls2, c2) \<Rightarrow> (calls @ calls2, c2))"

lemma canary_run_foldl: "snd (canary_run c es) = foldl (\<lambda>c e. snd (canary_step c e)) c es"
  by (induction es arbitrary: c) (simp_all add: case_prod_beta)

subsection \<open>Weights\<close>

definition weight_ok :: "canary \<Rightarrow> bool" where
  "weight_ok c \<longleftrightarrow> 0 \<le> cn_weight c \<and> cn_weight c \<le> 100 \<and> 0 \<le> cn_step c"

lemma set_phase_simps [simp]:
  "cn_weight (snd (set_phase p c)) = cn_weight c"
  "cn_step (snd (set_phase p c)) = cn_step c"
  "cn_phase (snd (set_phase p c)) = p"
  "cn_alert_handlers (snd (set_phase p c)) = cn_alert_handlers c"
  "cn_phase_handlers (snd (set_phase p c)) = cn_phase_handlers c"
  by (simp_all add: set_phase_def)

lemmas canary_ops = canary_step_def canary_analyse_def canary_promote_def canary_rollback_def
  canary_pause_def canary_resume_def on_alert_def off_alert_def on_phase_change_def
  off_phase_change_def

lemma weight_ok_step [inv_intros]: "weight_ok c \<Longrightarrow> weight_ok (snd (canary_step c e))"
  by (cases e) (auto simp: weight_ok_def canary_ops Let_def case_prod_beta)

interpretation canary_machine: invariant_machine "\<lambda>c e. snd (canary_step c e)" weight_ok
  by unfold_locales (rule weight_ok_step)

text \<open>The canary's share stays a percentage over every sequence of operations.\<close>

theorem canary_weight_is_percentage:
  assumes "0 \<le> or_else (cn_initial_weight cfg) 5" and "or_else (cn_initial_weight cfg) 5 \<le> 100"
    and "0 \<le> or_else (cn_step_size cfg) 10"
  shows "0 \<le> cn_weight (snd (canary_run (canary_new cfg now) es))
    \<and> cn_weight (snd (canary_run (canary_new cfg now) es)) \<le> 100"
proof -
  have "weight_ok (canary_new cfg now)" using assms by (simp add: weight_ok_def canary_new_def)
  then have "weight_ok (snd (canary_run (canary_new cfg now) es))"
    unfolding canary_run_foldl by (rule canary_machine.run_keeps)
  then show ?thesis by (simp add: weight_ok_def)
qed

definition default_canary :: canary_config where
  "default_canary = \<lparr>cn_initial_weight = None, cn_step_size = None, cn_error_rate_threshold = None,
     cn_baseline_latency = None\<rparr>"

definition quiet_metrics :: canary_metrics where
  "quiet_metrics = \<lparr>cm_error_rate = 1 / 100, cm_p99_latency = 150, cm_requests_per_second = 50,
     cm_success_rate = 99 / 100\<rparr>"

definition failing_metrics :: canary_metrics where
  "failing_metrics = quiet_metrics\<lparr>cm_error_rate := 1 / 2\<rparr>"

theorem canary_weight_is_percentage_witness:
  "0 \<le> cn_weight (snd (canary_run (canary_new default_canary 0) [Promote quiet_metrics quiet_metrics 1]))
    \<and> cn_weight (snd (canary_run (canary_new default_canary 0) [Promote quiet_metrics quiet_metrics 1])) \<le> 100"
  by (rule canary_weight_is_percentage) (simp_all add: default_canary_def or_else_def)

lemma promote_healthy:
  assumes "meets_thresholds c can base"
  shows "snd (snd (canary_promote base can now c)) =
    c\<lparr>cn_weight := min 100 (cn_weight c + cn_step c), cn_updated_at := now,
      cn_phase := (if min 100 (cn_weight c + cn_step c) \<ge> 100 then Succeeded else Progressing)\<rparr>"
  using assms by (cases c) (simp add: canary_promote_def canary_analyse_def Let_def case_prod_beta set_phase_def)

lemma promote_all_healthy:
  assumes "\<And>c'. cn_threshold c' = cn_threshold c \<Longrightarrow> cn_baseline c' = cn_baseline c \<Longrightarrow>
      meets_thresholds c' can base" and "weight_ok c" and "ts \<noteq> []"
  shows "cn_weight (snd (canary_run c (map (Promote base can) ts)))
      = min 100 (cn_weight c + of_nat (length ts) * cn_step c)
    \<and> cn_phase (snd (canary_run c (map (Promote base can) ts)))
      = (if min 100 (cn_weight c + of_nat (length ts) * cn_step c) \<ge> 100 then Succeeded else Progressing)"
  using assms
proof (induction ts arbitrary: c)
  case (Cons now ts)
  let ?c1 = "snd (canary_step c (Promote base can now))"
  have healthy: "meets_thresholds c can base" by (rule Cons.prems(1)) simp_all
  have c1: "?c1 = c\<lparr>cn_weight := min 100 (cn_weight c + cn_step c), cn_updated_at := now,
      cn_phase := (if min 100 (cn_weight c + cn_step c) \<ge> 100 then Succeeded else Progressing)\<rparr>"
    by (simp add: canary_step_def promote_healthy [OF healthy])
  show ?case
  proof (cases "ts = []")
    case True
    then show ?thesis using c1 by (simp add: case_prod_beta)
  next
    case False
    have ok: "weight_ok ?c1" using Cons.prems(2) by (rule weight_ok_step)
    have nn: "0 \<le> cn_step c" using Cons.prems(2) by (simp add: weight_ok_def)
    then have step: "0 \<le> of_nat (length ts) * cn_step c" by simp
    have "cn_weight (snd (canary_run ?c1 (map (Promote base can) ts)))
        = min 100 (cn_weight ?c1 + of_nat (length ts) * cn_step ?c1)
      \<and> cn_phase (snd (canary_run ?c1 (map (Promote base can) ts)))
        = (if min 100 (cn_weight ?c1 + of_nat (length ts) * cn_step ?c1) \<ge> 100 then Succeeded
           else Progressing)"
      by (rule Cons.IH [OF _ ok False]) (rule Cons.prems(1), simp_all add: c1)
    moreover have "min 100 (min 100 (cn_weight c + cn_step c) + of_nat (length ts) * cn_step c)
        = min 100 (cn_weight c + of_nat (length (now # ts)) * cn_step c)"
      using step by (auto simp: min_def algebra_simps)
    ultimately show ?thesis by (simp add: case_prod_beta c1)
  qed
qed simp

text \<open>Healthy metrics at every promotion: enough steps give the canary all the traffic.\<close>

theorem canary_reaches_full_traffic:
  assumes "meets_thresholds c can base" and "weight_ok c"
    and "100 - cn_weight c \<le> of_nat (length ts) * cn_step c" and "ts \<noteq> []"
  shows "cn_weight (snd (canary_run c (map (Promote base can) ts))) = 100
    \<and> cn_phase (snd (canary_run c (map (Promote base can) ts))) = Succeeded"
proof -
  have "meets_thresholds c' can base"
    if "cn_threshold c' = cn_threshold c" "cn_baseline c' = cn_baseline c" for c'
    using assms(1) unfolding meets_thresholds_def that .
  from promote_all_healthy [OF this assms(2,4)] assms(3) show ?thesis by auto
qed

theorem canary_reaches_full_traffic_witness:
  "cn_weight (snd (canary_run (canary_new default_canary 0)
      (map (Promote quiet_metrics quiet_metrics) [1, 2, 3, 4, 5, 6, 7, 8, 9, 10]))) = 100
    \<and> cn_phase (snd (canary_run (canary_new default_canary 0)
      (map (Promote quiet_metrics quiet_metrics) [1, 2, 3, 4, 5, 6, 7, 8, 9, 10]))) = Succeeded"
  by (rule canary_reaches_full_traffic)
    (simp_all add: meets_thresholds_def quiet_metrics_def canary_new_def default_canary_def or_else_def
      weight_ok_def)

text \<open>
  A promotion whose metrics fail keeps the canary's share, whatever it is, ends in the failed phase
  and calls every alert handler once with the reason.
\<close>

theorem failed_promotion_keeps_traffic:
  assumes "\<not> meets_thresholds c can base"
  shows "case canary_promote base can now c of (w, calls, c') \<Rightarrow>
      w = cn_weight c \<and> cn_weight c' = cn_weight c \<and> cn_phase c' = Failed
      \<and> filter (\<lambda>k. case k of AlertCall h r \<Rightarrow> True | PhaseCall h p \<Rightarrow> False) calls
        = map (\<lambda>h. AlertCall h (failure_reason c can base)) (cn_alert_handlers c)"
proof -
  have "filter (\<lambda>k. case k of AlertCall h r \<Rightarrow> True | PhaseCall h p \<Rightarrow> False)
      (map (\<lambda>h. PhaseCall h Failed) hs) = []" for hs
    by (induction hs) auto
  moreover have "filter (\<lambda>k. case k of AlertCall h r \<Rightarrow> True | PhaseCall h p \<Rightarrow> False)
      (map (\<lambda>h. AlertCall h r) hs) = map (\<lambda>h. AlertCall h r) hs" for hs r
    by (induction hs) auto
  ultimately show ?thesis using assms
    by (simp add: canary_promote_def canary_analyse_def Let_def case_prod_beta set_phase_def failure_reason_def)
qed

theorem failed_promotion_keeps_traffic_witness:
  "case canary_promote quiet_metrics failing_metrics 1 (canary_new default_canary 0) of (w, calls, c') \<Rightarrow>
      w = cn_weight (canary_new default_canary 0)
      \<and> cn_weight c' = cn_weight (canary_new default_canary 0) \<and> cn_phase c' = Failed
      \<and> filter (\<lambda>k. case k of AlertCall h r \<Rightarrow> True | PhaseCall h p \<Rightarrow> False) calls
        = map (\<lambda>h. AlertCall h (failure_reason (canary_new default_canary 0) failing_metrics quiet_metrics))
            (cn_alert_handlers (canary_new default_canary 0))"
  by (rule failed_promotion_keeps_traffic)
    (simp add: meets_thresholds_def failing_metrics_def quiet_metrics_def canary_new_def
      default_canary_def or_else_def)

text \<open>
  A promotion looks at the metrics only: a release that was rolled back, paused or has failed
  gets canary traffic again.
\<close>

theorem promotion_ignores_phase:
  "cn_phase (snd (canary_rollback None 1 c)) = RolledBack
   \<and> cn_weight (snd (canary_rollback None 1 c)) = 0
   \<and> (let c' = snd (snd (canary_promote quiet_metrics quiet_metrics 2
          (snd (canary_rollback None 1 (canary_new default_canary 0)))))
      in cn_phase c' = Progressing \<and> cn_weight c' = 10)
   \<and> (let c' = snd (snd (canary_promote quiet_metrics quiet_metrics 2
          (snd (canary_pause (canary_new default_canary 0)))))
      in cn_phase c' = Progressing \<and> cn_weight c' = 15)"
  by (simp add: canary_rollback_def canary_pause_def canary_promote_def canary_analyse_def Let_def
      case_prod_beta set_phase_def meets_thresholds_def quiet_metrics_def canary_new_def
      default_canary_def or_else_def)

subsection \<open>What a phase handler sees\<close>

fun canary_phases :: "canary \<Rightarrow> canary_event list \<Rightarrow> canary_phase list" where
  "canary_phases c [] = []"
| "canary_phases c (e # es) =
     (let c1 = snd (canary_step c e) in cn_phase c1 # canary_phases c1 es)"

definition phases_seen :: "nat \<Rightarrow> canary_call list \<Rightarrow> canary_phase list" where
  "phases_seen h calls =
     List.map_filter (\<lambda>k. case k of PhaseCall h' p \<Rightarrow> if h' = h then Some p else None
       | AlertCall h' r \<Rightarrow> None) calls"

lemma phases_seen_simps [simp]:
  "phases_seen h [] = []"
  "phases_seen h (xs @ ys) = phases_seen h xs @ phases_seen h ys"
  "phases_seen h (map (\<lambda>h. AlertCall h r) hs) = []"
  "phases_seen h (map (\<lambda>h. PhaseCall h p) hs) = replicate (count_list hs h) p"
proof -
  show "phases_seen h (map (\<lambda>h. AlertCall h r) hs) = []"
    by (induction hs) (simp_all add: phases_seen_def List.map_filter_def)
  show "phases_seen h (map (\<lambda>h. PhaseCall h p) hs) = replicate (count_list hs h) p"
    by (induction hs) (simp_all add: phases_seen_def List.map_filter_def)
qed (simp_all add: phases_seen_def List.map_filter_def)

lemma count_list_remove1_other: "h \<noteq> k \<Longrightarrow> count_list (remove1 k hs) h = count_list hs h"
  by (induction hs) auto

lemma step_phase_seen:
  assumes "count_list (cn_phase_handlers c) h = 1" and "e \<noteq> OnPhase h" "e \<noteq> OffPhase h"
  shows "phases_seen h (fst (canary_step c e))
      = (if cn_phase (snd (canary_step c e)) = cn_phase c then [] else [cn_phase (snd (canary_step c e))])
    \<and> count_list (cn_phase_handlers (snd (canary_step c e))) h = 1"
  using assms
  by (cases e) (simp_all add: canary_ops Let_def case_prod_beta set_phase_def count_list_remove1_other)

text \<open>
  A handler that is registered once and stays so is told every change of phase, in order, and
  nothing else.
\<close>

theorem phase_handler_sees_changes:
  assumes "count_list (cn_phase_handlers c) h = 1" and "\<forall>e \<in> set es. e \<noteq> OnPhase h \<and> e \<noteq> OffPhase h"
  shows "phases_seen h (fst (canary_run c es)) = tl (remdups_adj (cn_phase c # canary_phases c es))"
  using assms
proof (induction es arbitrary: c)
  case (Cons e es)
  let ?c1 = "snd (canary_step c e)"
  from Cons.prems step_phase_seen [of c h e] have
    seen: "phases_seen h (fst (canary_step c e)) = (if cn_phase ?c1 = cn_phase c then [] else [cn_phase ?c1])"
    and one: "count_list (cn_phase_handlers ?c1) h = 1" by auto
  from Cons.IH [OF one] Cons.prems have
    "phases_seen h (fst (canary_run ?c1 es)) = tl (remdups_adj (cn_phase ?c1 # canary_phases ?c1 es))"
    by simp
  with seen show ?case
    by (simp add: case_prod_beta Let_def remdups_adj_Cons split: list.splits)
qed simp

theorem phase_handler_sees_changes_witness:
  "phases_seen 7 (fst (canary_run (on_phase_change 7 (canary_new default_canary 0))
      [Promote quiet_metrics quiet_metrics 1, Pause, Pause]))
    = tl (remdups_adj (cn_phase (on_phase_change 7 (canary_new default_canary 0))
        # canary_phases (on_phase_change 7 (canary_new default_canary 0))
            [Promote quiet_metrics quiet_metrics 1, Pause, Pause]))"
  by (rule phase_handler_sees_changes) (simp_all add: on_phase_change_def canary_new_def)

end
