(* ===== verification/Architecture.thy ===== *)
theory Architecture
  imports Prelude
begin

text \<open>
  The checks the repository runs on its own packages, \<open>packages/architecture-tests/src/analyzers\<close>:
  \<open>DependencyAnalyzer\<close> reads the dependency graph from the \<open>package.json\<close> files, reports
  dependencies against the layer order and searches for cycles depth first, and \<open>CQRSAnalyzer\<close>
  judges commands, queries, handlers and buses by their names and text.

  The file system is an argument: the package directories with their parsed \<open>package.json\<close>.
  The depth-first search takes fuel, an upper bound for the depth of its recursion;
  \<^theory_text>\<open>cycle_dfs_result\<close> shows that two more than the number of packages is enough.
\<close>

section \<open>Packages and layers\<close>

datatype architecture_layer = Domain | Application | Infrastructure

record package_json =
  pj_name :: string
  pj_dependencies :: "(string, string) jsmap option"
  pj_dev_dependencies :: "(string, string) jsmap option"
  pj_peer_dependencies :: "(string, string) jsmap option"

record package_info =
  pkg_name :: string
  pkg_path :: string
  pkg_dependencies :: "string list"
  pkg_dev_dependencies :: "string list"
  pkg_peer_dependencies :: "string list"
  pkg_layer :: architecture_layer

type_synonym packages = "(string, package_info) jsmap"

definition determine_layer :: "string \<Rightarrow> architecture_layer" where
  "determine_layer name =
     (if js_includes name ''kernel'' then Domain
      else if js_includes name ''application'' then Application
      else Infrastructure)"

definition object_keys :: "(string, string) jsmap option \<Rightarrow> string list" where
  "object_keys m = (case m of None \<Rightarrow> [] | Some entries \<Rightarrow> jkeys entries)"

definition create_package_info :: "package_json \<Rightarrow> string \<Rightarrow> package_info" where
  "create_package_info json path =
     \<lparr>pkg_name = pj_name json, pkg_path = path,
      pkg_dependencies = object_keys (pj_dependencies json),
      pkg_dev_dependencies = object_keys (pj_dev_dependencies json),
      pkg_peer_dependencies = object_keys (pj_peer_dependencies json),
      pkg_layer = determine_layer (pj_name json)\<rparr>"

text \<open>
  The directory is missing, or it holds these sub-directories, each with the \<open>package.json\<close> that
  was parsed from it when it has one.
\<close>

definition load_packages ::
    "string \<Rightarrow> (string \<times> package_json option) list option \<Rightarrow> packages \<Rightarrow> (js_error, packages) outcome"
  where
  "load_packages packages_dir dirs pkgs =
     (case dirs of
        None \<Rightarrow> Inl (plain_error (''Packages directory not found: '' @ packages_dir))
      | Some ds \<Rightarrow>
          Inr (foldl (\<lambda>ps (path, json).
                 case json of
                   None \<Rightarrow> ps
                 | Some j \<Rightarrow> (let info = create_package_info j path in jset (pkg_name info) info ps))
               pkgs ds))"

definition get_package :: "packages \<Rightarrow> string \<Rightarrow> package_info option" where
  "get_package pkgs name = jget pkgs name"

definition get_packages :: "packages \<Rightarrow> package_info list" where
  "get_packages pkgs = jvalues pkgs"

section \<open>Layer violations\<close>

datatype violation_severity = Low | Medium | High | Critical

record layer_violation =
  lv_source_layer :: string
  lv_target_layer :: string
  lv_description :: string
  lv_severity :: violation_severity

definition layer_display_name :: "architecture_layer \<Rightarrow> string" where
  "layer_display_name l =
     (case l of Domain \<Rightarrow> ''Domain'' | Application \<Rightarrow> ''Application''
      | Infrastructure \<Rightarrow> ''Infrastructure'')"

definition is_layer_violation :: "architecture_layer \<Rightarrow> architecture_layer \<Rightarrow> bool" where
  "is_layer_violation src target =
     (if src = Domain \<and> target \<noteq> Domain then True
      else if src = Application \<and> target = Infrastructure then True
      else False)"

definition check_layer_violations :: "packages \<Rightarrow> package_info \<Rightarrow> layer_violation list" where
  "check_layer_violations pkgs info =
     concat (map (\<lambda>dep.
       case jget pkgs dep of
         None \<Rightarrow> []
       | Some dep_info \<Rightarrow>
           if is_layer_violation (pkg_layer info) (pkg_layer dep_info) then
             [\<lparr>lv_source_layer = layer_display_name (pkg_layer info),
               lv_target_layer = layer_display_name (pkg_layer dep_info),
               lv_description = layer_display_name (pkg_layer info) @ '' layer cannot depend on ''
                 @ layer_display_name (pkg_layer dep_info) @ '' layer'',
               lv_severity = (if pkg_layer info = Domain then Critical else High)\<rparr>]
           else []) (pkg_dependencies info))"

definition analyze_dependencies :: "packages \<Rightarrow> layer_violation list" where
  "analyze_dependencies pkgs = concat (map (check_layer_violations pkgs) (jvalues pkgs))"

record layer_component =
  lc_name :: string
  lc_path :: string
  lc_dependencies :: "string list"

definition component_of :: "package_info \<Rightarrow> layer_component" where
  "component_of p = \<lparr>lc_name = pkg_name p, lc_path = pkg_path p, lc_dependencies = pkg_dependencies p\<rparr>"

definition get_layers :: "packages \<Rightarrow> (string \<times> layer_component list) list" where
  "get_layers pkgs =
     foldl (\<lambda>layers p.
       case pkg_layer p of
         Domain \<Rightarrow> layers[0 := (fst (layers ! 0), snd (layers ! 0) @ [component_of p])]
       | Application \<Rightarrow> layers[1 := (fst (layers ! 1), snd (layers ! 1) @ [component_of p])]
       | Infrastructure \<Rightarrow> layers[2 := (fst (layers ! 2), snd (layers ! 2) @ [component_of p])])
     [(''Domain'', []), (''Application'', []), (''Infrastructure'', [])] (jvalues pkgs)"

section \<open>The search for cycles\<close>

text \<open>The search's \<open>cyclePath\<close> and \<open>visited\<close>.\<close>

type_synonym dfs_state = "string list \<times> string list"

text \<open>The loop over the dependencies: it stops when a visit returns true.\<close>

fun visit_deps ::
    "(string \<Rightarrow> dfs_state \<Rightarrow> (bool \<times> dfs_state) option) \<Rightarrow> string list \<Rightarrow> dfs_state
      \<Rightarrow> (bool \<times> dfs_state) option" where
  "visit_deps visit [] st = Some (False, st)"
| "visit_deps visit (d # ds) st =
     (case visit d st of
        None \<Rightarrow> None
      | Some (True, st1) \<Rightarrow> Some (True, st1)
      | Some (False, st1) \<Rightarrow> visit_deps visit ds st1)"

fun cycle_dfs :: "packages \<Rightarrow> nat \<Rightarrow> string \<Rightarrow> dfs_state \<Rightarrow> (bool \<times> dfs_state) option" where
  "cycle_dfs pkgs 0 name st = None"
| "cycle_dfs pkgs (Suc fuel) name (path, visited) =
     (if name \<in> set path then Some (True, (path, visited))
      else if name \<in> set visited then Some (False, (path, visited))
      else
        (let st = (path @ [name], set_add name visited);
             looked = (case jget pkgs name of
                 None \<Rightarrow> Some (False, st)
               | Some info \<Rightarrow>
                   visit_deps (\<lambda>d s. if jhas pkgs d then cycle_dfs pkgs fuel d s else Some (False, s))
                     (pkg_dependencies info) st)
         in case looked of
              None \<Rightarrow> None
            | Some (True, st1) \<Rightarrow> Some (True, st1)
            | Some (False, (path1, visited1)) \<Rightarrow> Some (False, (butlast path1, visited1))))"

definition find_cycle_path :: "packages \<Rightarrow> string \<Rightarrow> string list option" where
  "find_cycle_path pkgs start =
     map_option (\<lambda>(found, path, visited). path) (cycle_dfs pkgs (length pkgs + 2) start ([], []))"

text \<open>\<open>detectCircularDependencies\<close>: the loop over the package names.\<close>

fun detect_loop :: "packages \<Rightarrow> string list \<Rightarrow> string list list \<Rightarrow> string list \<Rightarrow> string list list option" where
  "detect_loop pkgs [] cycles visited = Some cycles"
| "detect_loop pkgs (name # names) cycles visited =
     (if name \<notin> set visited then
        (case find_cycle_path pkgs name of
           None \<Rightarrow> None
         | Some cyc \<Rightarrow>
             detect_loop pkgs names
               (if length cyc > 1 then cycles @ [cyc @ [hd cyc]] else cycles)
               (set_add name visited))
      else detect_loop pkgs names cycles visited)"

definition detect_circular_dependencies :: "packages \<Rightarrow> string list list option" where
  "detect_circular_dependencies pkgs = detect_loop pkgs (jkeys pkgs) [] []"

section \<open>The graph\<close>

text \<open>The dependency edges between loaded packages.\<close>

definition depends :: "packages \<Rightarrow> string \<Rightarrow> string \<Rightarrow> bool" where
  "depends pkgs u v \<longleftrightarrow>
     (\<exists>info. jget pkgs u = Some info \<and> v \<in> set (pkg_dependencies info)) \<and> jhas pkgs v"

abbreviation dep_edges :: "packages \<Rightarrow> (string \<times> string) set" where
  "dep_edges pkgs \<equiv> {(u, v). depends pkgs u v}"

text \<open>The vertices in a set that is closed under the edges and has no cycle.\<close>

definition cleared :: "packages \<Rightarrow> string set \<Rightarrow> bool" where
  "cleared pkgs B \<longleftrightarrow>
     (\<forall>u \<in> B. \<forall>v. depends pkgs u v \<longrightarrow> v \<in> B) \<and> (\<forall>u \<in> B. (u, u) \<notin> (dep_edges pkgs)\<^sup>+)"

text \<open>A path of distinct packages along edges whose last has an edge back into the path.\<close>

definition lasso :: "packages \<Rightarrow> string list \<Rightarrow> bool" where
  "lasso pkgs p \<longleftrightarrow>
     p \<noteq> [] \<and> distinct p \<and> successively (depends pkgs) p \<and> (\<exists>v \<in> set p. depends pkgs (last p) v)"

lemma cleared_reaches:
  assumes "cleared pkgs B" and "u \<in> B" and "(u, v) \<in> (dep_edges pkgs)\<^sup>*"
  shows "v \<in> B"
  using assms(3,2) by (induction rule: rtrancl_induct) (use assms(1) in \<open>auto simp: cleared_def\<close>)

lemma cleared_empty [simp]: "cleared pkgs {}"
  by (simp add: cleared_def)

lemma cleared_insert:
  assumes B: "cleared pkgs B" and out: "u \<notin> B" and succ: "\<And>v. depends pkgs u v \<Longrightarrow> v \<in> B"
  shows "cleared pkgs (insert u B)"
proof -
  have "(u, u) \<notin> (dep_edges pkgs)\<^sup>+"
  proof
    assume "(u, u) \<in> (dep_edges pkgs)\<^sup>+"
    then obtain v where "depends pkgs u v" "(v, u) \<in> (dep_edges pkgs)\<^sup>*"
      by (auto dest: tranclD)
    then show False using succ B out cleared_reaches by blast
  qed
  then show ?thesis using B succ by (auto simp: cleared_def)
qed

lemma successively_snoc:
  "successively R (p @ [x]) \<longleftrightarrow> successively R p \<and> (p = [] \<or> R (last p) x)"
  by (auto simp: successively_append_iff)

lemma successively_from_hd:
  assumes "successively R p" and "u \<in> set p"
  shows "(hd p, u) \<in> {(x, y). R x y}\<^sup>*"
  using assms
proof (induction p arbitrary: u rule: rev_induct)
  case (snoc x p)
  show ?case
  proof (cases "p = []")
    case False
    with snoc.prems have "R (last p) x" and IH: "v \<in> set p \<Longrightarrow> (hd p, v) \<in> {(x, y). R x y}\<^sup>*" for v
      using snoc.IH by (simp_all add: successively_snoc)
    then have "(hd p, x) \<in> {(x, y). R x y}\<^sup>*"
      using False by (auto intro: rtrancl_into_rtrancl [of _ "last p"])
    with IH snoc.prems False show ?thesis by auto
  qed (use snoc.prems in simp)
qed simp

lemma successively_reaches:
  assumes "successively R p" and "u \<in> set p"
  shows "(u, last p) \<in> {(x, y). R x y}\<^sup>*"
proof -
  from assms(2) obtain a b where "p = a @ u # b" by (meson split_list)
  with assms(1) have "successively R (u # b)" "last p = last (u # b)"
    by (simp_all add: successively_append_iff)
  with successively_from_hd [of R "u # b" "last (u # b)"] show ?thesis by simp
qed

lemma lasso_cycle:
  assumes "lasso pkgs p"
  shows "\<exists>v. (hd p, v) \<in> (dep_edges pkgs)\<^sup>* \<and> (v, v) \<in> (dep_edges pkgs)\<^sup>+"
proof -
  from assms obtain v where v: "v \<in> set p" and edge: "depends pkgs (last p) v"
    and path: "successively (depends pkgs) p"
    by (auto simp: lasso_def)
  from path v have "(v, last p) \<in> (dep_edges pkgs)\<^sup>*" by (rule successively_reaches)
  with edge have "(v, v) \<in> (dep_edges pkgs)\<^sup>+" by (auto intro: rtrancl_into_trancl1)
  with successively_from_hd [OF path v] show ?thesis by blast
qed

section \<open>The depth-first search is exact\<close>

text \<open>What a visit may rely on, and what it has achieved when it returns.\<close>

definition dfs_ready :: "packages \<Rightarrow> dfs_state \<Rightarrow> bool" where
  "dfs_ready pkgs st \<longleftrightarrow>
     (case st of (path, visited) \<Rightarrow>
        distinct path \<and> set path \<subseteq> set visited \<and> successively (depends pkgs) path
        \<and> cleared pkgs (set visited - set path))"

definition dfs_achieved :: "packages \<Rightarrow> string set \<Rightarrow> dfs_state \<Rightarrow> bool \<times> dfs_state \<Rightarrow> bool" where
  "dfs_achieved pkgs names st r \<longleftrightarrow>
     (case (st, r) of ((path, visited), (found, (path1, visited1))) \<Rightarrow>
        (if found then lasso pkgs path1 \<and> prefix path path1 \<and> (path = [] \<longrightarrow> names \<subseteq> {hd path1})
         else path1 = path \<and> dfs_ready pkgs (path, visited1) \<and> set visited \<subseteq> set visited1
           \<and> names \<subseteq> set visited1 - set path))"

lemma visit_deps_result:
  assumes visit: "\<And>d st. d \<in> set ds \<Longrightarrow> dfs_ready pkgs st \<Longrightarrow> fst st = path \<Longrightarrow>
      \<exists>r. visit d st = Some r \<and> dfs_achieved pkgs (if P d then {d} else {}) st r"
    and "dfs_ready pkgs (path, visited)" and "path \<noteq> []"
  shows "\<exists>r. visit_deps visit ds (path, visited) = Some r
    \<and> dfs_achieved pkgs {d \<in> set ds. P d} (path, visited) r"
  using assms
proof (induction ds arbitrary: visited)
  case Nil
  then show ?case by (simp add: dfs_achieved_def)
next
  case (Cons d ds)
  from Cons.prems(1) [of d "(path, visited)"] Cons.prems(2)
  obtain r where r: "visit d (path, visited) = Some r"
    and ok: "dfs_achieved pkgs (if P d then {d} else {}) (path, visited) r" by auto
  obtain found path1 visited1 where rr: "r = (found, path1, visited1)" by (cases r) auto
  show ?case
  proof (cases found)
    case True
    with r rr ok Cons.prems(3) show ?thesis by (simp add: dfs_achieved_def)
  next
    case False
    with ok rr have path1: "path1 = path" and ready: "dfs_ready pkgs (path, visited1)"
      and vis: "set visited \<subseteq> set visited1" "(if P d then {d} else {}) \<subseteq> set visited1 - set path"
      by (auto simp: dfs_achieved_def)
    from Cons.IH [OF _ ready] Cons.prems(1,3)
    obtain r2 where "visit_deps visit ds (path, visited1) = Some r2"
      and "dfs_achieved pkgs {d \<in> set ds. P d} (path, visited1) r2" by auto
    then show ?thesis using r rr False path1 vis Cons.prems(3)
      by (auto simp: dfs_achieved_def split: if_splits prod.splits)
  qed
qed

lemma dfs_ready_push:
  assumes "dfs_ready pkgs (path, visited)" and "name \<notin> set visited"
    and "path \<noteq> [] \<Longrightarrow> depends pkgs (last path) name"
  shows "dfs_ready pkgs (path @ [name], set_add name visited)"
proof -
  have "set (set_add name visited) - set (path @ [name]) = set visited - set path"
    using assms(2) by auto
  then show ?thesis using assms by (auto simp: dfs_ready_def successively_snoc)
qed

lemma dfs_ready_pop:
  assumes ready: "dfs_ready pkgs (path @ [name], visited)" and in_vis: "name \<in> set visited"
    and succ: "\<And>v. depends pkgs name v \<Longrightarrow> v \<in> set visited - set (path @ [name])"
  shows "dfs_ready pkgs (path, visited)"
proof -
  have "cleared pkgs (insert name (set visited - set (path @ [name])))"
    using ready succ by (intro cleared_insert) (auto simp: dfs_ready_def)
  moreover have "insert name (set visited - set (path @ [name])) = set visited - set path"
    using ready in_vis by (auto simp: dfs_ready_def)
  ultimately show ?thesis using ready by (auto simp: dfs_ready_def successively_snoc)
qed

lemma dfs_achieved_pop:
  assumes fresh: "name \<notin> set visited" "name \<notin> set path"
    and ok: "dfs_achieved pkgs names (path @ [name], set_add name visited) (found, path1, visited1)"
    and succ: "\<And>v. depends pkgs name v \<Longrightarrow> v \<in> names"
  shows "dfs_achieved pkgs {name} (path, visited)
    (if found then (True, path1, visited1) else (False, butlast path1, visited1))"
proof (cases found)
  case True
  then show ?thesis using ok by (auto simp: dfs_achieved_def prefix_def)
next
  case False
  with ok have path1: "path1 = path @ [name]" and ready: "dfs_ready pkgs (path @ [name], visited1)"
    and vis: "insert name (set visited) \<subseteq> set visited1"
    and deps: "names \<subseteq> set visited1 - set (path @ [name])"
    by (auto simp: dfs_achieved_def)
  have "dfs_ready pkgs (path, visited1)"
    using vis deps succ by (intro dfs_ready_pop [OF ready]) auto
  with False path1 vis fresh show ?thesis by (auto simp: dfs_achieved_def)
qed

lemma cycle_dfs_result:
  assumes "dfs_ready pkgs (path, visited)" and "path \<noteq> [] \<Longrightarrow> depends pkgs (last path) name"
    and "finite U" and "set (jkeys pkgs) \<subseteq> U" and "insert name (set path) \<subseteq> U"
    and "card U < fuel + length path"
  shows "\<exists>r. cycle_dfs pkgs fuel name (path, visited) = Some r
    \<and> dfs_achieved pkgs {name} (path, visited) r"
  using assms
proof (induction fuel arbitrary: name path visited)
  case 0
  then have "length path = card (set path)" by (simp add: dfs_ready_def distinct_card)
  also have "\<dots> \<le> card U" using "0.prems" by (intro card_mono) auto
  finally show ?case using "0.prems" by simp
next
  case (Suc fuel)
  note ready = Suc.prems(1) and edge = Suc.prems(2)
  consider "name \<in> set path" | "name \<notin> set path" "name \<in> set visited" | "name \<notin> set visited"
    by blast
  then show ?case
  proof cases
    case 1
    then have "path \<noteq> []" by auto
    with ready edge 1 show ?thesis by (auto simp: dfs_achieved_def dfs_ready_def lasso_def)
  next
    case 2
    with ready show ?thesis by (simp add: dfs_achieved_def)
  next
    case 3
    with ready have 4: "name \<notin> set path" by (auto simp: dfs_ready_def)
    let ?path = "path @ [name]" and ?vis = "set_add name visited"
    note pushed = dfs_ready_push [OF ready 3 edge]
    have ne: "?path \<noteq> []" by simp
    show ?thesis
    proof (cases "jget pkgs name")
      case None
      have "dfs_achieved pkgs {} (?path, ?vis) (False, ?path, ?vis)"
        using pushed by (auto simp: dfs_achieved_def)
      from dfs_achieved_pop [OF 3 4 this] None show ?thesis
        using 3 4 by (simp add: depends_def)
    next
      case (Some info)
      let ?visit = "\<lambda>d s. if jhas pkgs d then cycle_dfs pkgs fuel d s else Some (False, s)"
      have "\<exists>r. visit_deps ?visit (pkg_dependencies info) (?path, ?vis) = Some r
          \<and> dfs_achieved pkgs {d \<in> set (pkg_dependencies info). jhas pkgs d} (?path, ?vis) r"
      proof (rule visit_deps_result [OF _ pushed ne])
        fix d st
        assume d: "d \<in> set (pkg_dependencies info)" and st: "dfs_ready pkgs st" "fst st = ?path"
        then obtain vis where [simp]: "st = (?path, vis)" by (cases st) auto
        show "\<exists>r. ?visit d st = Some r \<and> dfs_achieved pkgs (if jhas pkgs d then {d} else {}) st r"
        proof (cases "jhas pkgs d")
          case True
          then have "depends pkgs name d" using Some d by (auto simp: depends_def)
          with Suc.IH [of ?path vis d] Suc.prems st True show ?thesis
            by (auto simp: jhas_keys)
        next
          case False
          with st show ?thesis by (auto simp: dfs_achieved_def)
        qed
      qed
      then obtain r where look: "visit_deps ?visit (pkg_dependencies info) (?path, ?vis) = Some r"
        and ok: "dfs_achieved pkgs {d \<in> set (pkg_dependencies info). jhas pkgs d} (?path, ?vis) r"
        by blast
      obtain found path1 visited1 where r: "r = (found, path1, visited1)" by (cases r) auto
      note ok = ok [unfolded r]
      have "dfs_achieved pkgs {name} (path, visited)
          (if found then (True, path1, visited1) else (False, butlast path1, visited1))"
        by (rule dfs_achieved_pop [OF 3 4 ok]) (simp add: depends_def Some)
      then show ?thesis using 3 4 Some look r by (cases found) auto
    qed
  qed
qed

text \<open>
  The search always returns, with the empty path exactly when no cycle can be reached from the
  package; otherwise with distinct packages that start there, follow the dependencies and come
  back into themselves.
\<close>

theorem cycle_search_exact:
  "\<exists>p. find_cycle_path pkgs start = Some p
    \<and> (p = [] \<longleftrightarrow> (\<nexists>v. (start, v) \<in> (dep_edges pkgs)\<^sup>* \<and> (v, v) \<in> (dep_edges pkgs)\<^sup>+))
    \<and> (p = [] \<or> (hd p = start \<and> lasso pkgs p))"
proof -
  let ?U = "insert start (set (jkeys pkgs))"
  have "card ?U \<le> Suc (card (set (jkeys pkgs)))" by (simp add: card_insert_if)
  also have "\<dots> \<le> Suc (length pkgs)" using card_length [of "jkeys pkgs"] by simp
  finally have "\<exists>r. cycle_dfs pkgs (length pkgs + 2) start ([], []) = Some r
      \<and> dfs_achieved pkgs {start} ([], []) r"
    by (intro cycle_dfs_result [where U = ?U]) (auto simp: dfs_ready_def)
  then obtain found p vis where r: "cycle_dfs pkgs (length pkgs + 2) start ([], []) = Some (found, p, vis)"
    and ok: "dfs_achieved pkgs {start} ([], []) (found, p, vis)" by (metis prod.exhaust)
  from r have p: "find_cycle_path pkgs start = Some p" by (simp add: find_cycle_path_def)
  show ?thesis
  proof (cases found)
    case True
    with ok have l: "lasso pkgs p" by (simp add: dfs_achieved_def)
    moreover have "hd p = start" using ok True by (simp add: dfs_achieved_def)
    moreover have "p \<noteq> []" using l by (simp add: lasso_def)
    ultimately show ?thesis using p lasso_cycle [OF l] by blast
  next
    case False
    with ok have "p = []" "cleared pkgs (set vis)" "start \<in> set vis"
      by (auto simp: dfs_achieved_def dfs_ready_def)
    moreover from this have "(v, v) \<notin> (dep_edges pkgs)\<^sup>+" if "(start, v) \<in> (dep_edges pkgs)\<^sup>*" for v
      using cleared_reaches [OF _ _ that] unfolding cleared_def by blast
    ultimately show ?thesis using p by blast
  qed
qed

section \<open>The report of cycles\<close>

definition cycle_report :: "packages \<Rightarrow> string \<Rightarrow> string list list" where
  "cycle_report pkgs name =
     (case find_cycle_path pkgs name of
        None \<Rightarrow> [] | Some p \<Rightarrow> if length p > 1 then [p @ [hd p]] else [])"

lemma search_returns: "find_cycle_path pkgs name \<noteq> None"
  using cycle_search_exact [of pkgs name] by auto

lemma detect_loop_reports:
  assumes "distinct names" and "set names \<inter> set visited = {}"
  shows "detect_loop pkgs names cycles visited = Some (cycles @ concat (map (cycle_report pkgs) names))"
  using assms
proof (induction names arbitrary: cycles visited)
  case (Cons name names)
  from search_returns obtain p where "find_cycle_path pkgs name = Some p" by blast
  moreover have "set names \<inter> set (set_add name visited) = {}" using Cons.prems by auto
  ultimately show ?case using Cons by (simp add: cycle_report_def)
qed simp

lemma detect_reports:
  "jwf pkgs \<Longrightarrow> detect_circular_dependencies pkgs = Some (concat (map (cycle_report pkgs) (jkeys pkgs)))"
  by (simp add: detect_circular_dependencies_def detect_loop_reports)

lemma lasso_long:
  assumes "lasso pkgs p" and "\<And>u. \<not> depends pkgs u u"
  shows "length p > 1"
proof (rule ccontr)
  assume "\<not> length p > 1"
  with assms(1) obtain u where "p = [u]" by (cases p) (auto simp: lasso_def)
  with assms show False by (auto simp: lasso_def)
qed

lemma cycle_report_cases:
  "cycle_report pkgs name = [] \<or> (\<exists>p. cycle_report pkgs name = [p @ [hd p]] \<and> hd p = name \<and> lasso pkgs p)"
proof -
  from cycle_search_exact [of pkgs name] obtain p where "find_cycle_path pkgs name = Some p"
    and "p = [] \<or> (hd p = name \<and> lasso pkgs p)" by blast
  then show ?thesis by (cases "length p > 1") (auto simp: cycle_report_def)
qed

lemma cycle_report_complete:
  assumes no_self: "\<And>u. \<not> depends pkgs u u" and "(name, name) \<in> (dep_edges pkgs)\<^sup>+"
  shows "cycle_report pkgs name \<noteq> []"
proof -
  from cycle_search_exact [of pkgs name] assms(2) obtain p where "find_cycle_path pkgs name = Some p"
    and "p \<noteq> []" and "lasso pkgs p" by blast
  with lasso_long [OF _ no_self] show ?thesis by (simp add: cycle_report_def)
qed

lemma cycle_vertex_loaded:
  assumes "(u, v) \<in> (dep_edges pkgs)\<^sup>+"
  shows "u \<in> set (jkeys pkgs)"
proof -
  from assms obtain w where "depends pkgs u w" by (auto dest: tranclD)
  then have "jhas pkgs u" by (auto simp: depends_def jhas_def)
  then show ?thesis by (simp add: jhas_keys)
qed

text \<open>C8: 
  When no package lists itself, the detection reports nothing exactly when the dependency graph is
  acyclic, and every report is a path of packages along the dependencies that runs into itself,
  closed with its first package.
\<close>

theorem detection_finds_cycles:
  assumes "jwf pkgs" and no_self: "\<And>u. \<not> depends pkgs u u"
  shows "\<exists>cycles. detect_circular_dependencies pkgs = Some cycles
    \<and> (cycles = [] \<longleftrightarrow> acyclic (dep_edges pkgs))
    \<and> (\<forall>c \<in> set cycles. \<exists>p. c = p @ [hd p] \<and> lasso pkgs p)"
proof -
  let ?cycles = "concat (map (cycle_report pkgs) (jkeys pkgs))"
  have shape: "\<exists>p. c = p @ [hd p] \<and> lasso pkgs p" if "c \<in> set ?cycles" for c
  proof -
    from that obtain name where "c \<in> set (cycle_report pkgs name)" by auto
    with cycle_report_cases [of pkgs name] show ?thesis by auto
  qed
  have "?cycles = [] \<longleftrightarrow> acyclic (dep_edges pkgs)"
  proof
    assume "?cycles = []"
    then have none: "name \<in> set (jkeys pkgs) \<Longrightarrow> cycle_report pkgs name = []" for name by auto
    show "acyclic (dep_edges pkgs)"
      unfolding acyclic_def using none cycle_report_complete [OF no_self] cycle_vertex_loaded by blast
  next
    assume "acyclic (dep_edges pkgs)"
    then have "\<not> lasso pkgs p" for p using lasso_cycle [of pkgs p] by (auto simp: acyclic_def)
    then have "cycle_report pkgs name = []" for name using cycle_report_cases [of pkgs name] by auto
    then show "?cycles = []" by simp
  qed
  with shape show ?thesis using detect_reports [OF assms(1)] by blast
qed

text \<open>A package with nothing but its name and dependencies, for examples.\<close>

definition example_package :: "string \<Rightarrow> string list \<Rightarrow> string \<times> package_info" where
  "example_package name deps =
     (name, \<lparr>pkg_name = name, pkg_path = name, pkg_dependencies = deps, pkg_dev_dependencies = [],
             pkg_peer_dependencies = [], pkg_layer = determine_layer name\<rparr>)"

definition example_graph :: packages where
  "example_graph = [example_package ''web'' [''a''], example_package ''a'' [''b'', ''zod''],
     example_package ''b'' [''a'']]"

lemma example_graph_edges:
  "depends example_graph u v \<longleftrightarrow>
     (u = ''web'' \<and> v = ''a'') \<or> (u = ''a'' \<and> v = ''b'') \<or> (u = ''b'' \<and> v = ''a'')"
  by (auto simp: depends_def example_graph_def example_package_def jhas_def)

theorem detection_finds_cycles_witness:
  "\<exists>cycles. detect_circular_dependencies example_graph = Some cycles
    \<and> (cycles = [] \<longleftrightarrow> acyclic (dep_edges example_graph))
    \<and> (\<forall>c \<in> set cycles. \<exists>p. c = p @ [hd p] \<and> lasso example_graph p)"
  by (rule detection_finds_cycles)
    (simp_all add: example_graph_edges, simp add: example_graph_def example_package_def)

text \<open>
  A report need not be a cycle: a package that only leads into one is reported, with an edge back
  to it that does not exist.  A package that lists itself is not reported.
\<close>

theorem cycle_reports_mislead:
  "detect_circular_dependencies example_graph
     = Some [[''web'', ''a'', ''b'', ''web''], [''a'', ''b'', ''a''], [''b'', ''a'', ''b'']]
   \<and> \<not> depends example_graph ''b'' ''web''
   \<and> detect_circular_dependencies [example_package ''a'' [''a'']] = Some []
   \<and> depends [example_package ''a'' [''a'']] ''a'' ''a''"
proof -
  have "detect_circular_dependencies example_graph
     = Some [[''web'', ''a'', ''b'', ''web''], [''a'', ''b'', ''a''], [''b'', ''a'', ''b'']]"
    by code_simp
  moreover have "detect_circular_dependencies [example_package ''a'' [''a'']] = Some []"
    by code_simp
  moreover have "\<not> depends example_graph ''b'' ''web''" by (simp add: example_graph_edges)
  moreover have "depends [example_package ''a'' [''a'']] ''a'' ''a''"
    by (simp add: depends_def example_package_def jhas_def)
  ultimately show ?thesis by blast
qed

section \<open>Layers\<close>

definition layer_rank :: "architecture_layer \<Rightarrow> nat" where
  "layer_rank l = (case l of Domain \<Rightarrow> 0 | Application \<Rightarrow> 1 | Infrastructure \<Rightarrow> 2)"

lemma layer_violation_rank: "is_layer_violation l m \<longleftrightarrow> layer_rank l < layer_rank m"
  by (cases l; cases m) (simp_all add: is_layer_violation_def layer_rank_def)

lemma no_violations_iff:
  "check_layer_violations pkgs info = [] \<longleftrightarrow>
     (\<forall>d \<in> set (pkg_dependencies info). \<forall>b. jget pkgs d = Some b \<longrightarrow>
        layer_rank (pkg_layer b) \<le> layer_rank (pkg_layer info))"
  by (auto simp: check_layer_violations_def layer_violation_rank not_less [symmetric]
      split: option.splits if_splits)

text \<open>C29: 
  The analysis reports nothing exactly when no chain of dependencies, however long, leads from a
  package to one of an outer layer.
\<close>

theorem clean_layers_are_ordered:
  assumes wf: "jwf pkgs"
  shows "analyze_dependencies pkgs = [] \<longleftrightarrow>
    (\<forall>u v a b. (u, v) \<in> (dep_edges pkgs)\<^sup>* \<longrightarrow> jget pkgs u = Some a \<longrightarrow> jget pkgs v = Some b
       \<longrightarrow> layer_rank (pkg_layer b) \<le> layer_rank (pkg_layer a))" (is "?clean \<longleftrightarrow> ?ordered")
proof
  assume clean: ?clean
  have edge: "layer_rank (pkg_layer b) \<le> layer_rank (pkg_layer a)"
    if "depends pkgs u v" "jget pkgs u = Some a" "jget pkgs v = Some b" for u v a b
  proof -
    have "a \<in> set (jvalues pkgs)" using that(2) wf jvalues_entries by metis
    with clean have "check_layer_violations pkgs a = []" by (auto simp: analyze_dependencies_def)
    with that show ?thesis by (auto simp: no_violations_iff depends_def)
  qed
  have "layer_rank (pkg_layer b) \<le> layer_rank (pkg_layer a)"
    if "(u, v) \<in> (dep_edges pkgs)\<^sup>*" "jget pkgs u = Some a" "jget pkgs v = Some b" for u v a b
    using that
  proof (induction arbitrary: b rule: rtrancl_induct)
    case (step w v)
    then have "depends pkgs w v" by simp
    then obtain c where "jget pkgs w = Some c" by (auto simp: depends_def)
    with step edge [OF \<open>depends pkgs w v\<close>] show ?case by fastforce
  qed simp
  then show ?ordered by blast
next
  assume ordered: ?ordered
  have "check_layer_violations pkgs a = []" if "a \<in> set (jvalues pkgs)" for a
  proof -
    from that obtain u where u: "jget pkgs u = Some a" using wf jvalues_entries by metis
    have "layer_rank (pkg_layer b) \<le> layer_rank (pkg_layer a)"
      if "d \<in> set (pkg_dependencies a)" "jget pkgs d = Some b" for d b
    proof -
      have "depends pkgs u d" using u that by (auto simp: depends_def jhas_def)
      with ordered u that show ?thesis by blast
    qed
    then show ?thesis by (simp add: no_violations_iff)
  qed
  then show ?clean by (simp add: analyze_dependencies_def)
qed

theorem clean_layers_are_ordered_witness:
  "analyze_dependencies example_graph = [] \<longleftrightarrow>
    (\<forall>u v a b. (u, v) \<in> (dep_edges example_graph)\<^sup>* \<longrightarrow> jget example_graph u = Some a
       \<longrightarrow> jget example_graph v = Some b \<longrightarrow> layer_rank (pkg_layer b) \<le> layer_rank (pkg_layer a))"
  by (rule clean_layers_are_ordered) (simp add: example_graph_def example_package_def)

definition packages_of_layer :: "packages \<Rightarrow> architecture_layer \<Rightarrow> layer_component list" where
  "packages_of_layer pkgs l = map component_of (filter (\<lambda>p. pkg_layer p = l) (jvalues pkgs))"

text \<open>The layer report lists every package once, under its layer, in the order they were loaded.\<close>

theorem layers_partition_packages:
  "get_layers pkgs =
     [(''Domain'', packages_of_layer pkgs Domain),
      (''Application'', packages_of_layer pkgs Application),
      (''Infrastructure'', packages_of_layer pkgs Infrastructure)]"
  by (induction pkgs rule: rev_induct)
    (auto simp: get_layers_def packages_of_layer_def split: architecture_layer.splits)

end
