(* ===== verification/Regex.thy ===== *)
theory Regex
  imports Prelude
begin

text \<open>
  JavaScript's regular expressions, as far as the program uses them: characters and classes,
  alternatives, greedy and lazy repetition, capture groups, negative look-ahead and the end of the text.
  A match is found by backtracking: \<open>rx_ends r\<close> lists the states a match of \<open>r\<close> may end in, in
  the order the engine tries them.  A state is the captured groups and the text still to be read.

  \<open>rx_test_iff\<close> says what \<open>test\<close> answers in terms of the words of the expression, for expressions
  without look-ahead and end assertion.
\<close>

section \<open>Letters\<close>

text \<open>\<open>s.toUpperCase()\<close> and the \<open>i\<close> flag, on ASCII letters.\<close>

definition upper_char :: "char \<Rightarrow> char" where
  "upper_char c = (let n = (of_char c :: nat) in if 97 \<le> n \<and> n \<le> 122 then char_of (n - 32) else c)"

definition to_upper :: "string \<Rightarrow> string" where
  "to_upper s = map upper_char s"

definition lower_char :: "char \<Rightarrow> char" where
  "lower_char c = (let n = (of_char c :: nat) in if 65 \<le> n \<and> n \<le> 90 then char_of (n + 32) else c)"

definition to_lower :: "string \<Rightarrow> string" where
  "to_lower s = map lower_char s"

definition is_digit_char :: "char \<Rightarrow> bool" where
  "is_digit_char c = (let n = (of_char c :: nat) in 48 \<le> n \<and> n \<le> 57)"

definition is_alpha_char :: "char \<Rightarrow> bool" where
  "is_alpha_char c = (let n = (of_char (upper_char c) :: nat) in 65 \<le> n \<and> n \<le> 90)"

text \<open>The class \<open>\w\<close>.\<close>

definition is_word :: "char \<Rightarrow> bool" where
  "is_word c = (is_digit_char c \<or> is_alpha_char c \<or> c = CHR ''_'')"

text \<open>\<open>s.startsWith(t)\<close> and \<open>s.endsWith(t)\<close>.\<close>

definition begins_with :: "string \<Rightarrow> string \<Rightarrow> bool" where
  "begins_with s t = (take (length t) s = t)"

definition ends_with :: "string \<Rightarrow> string \<Rightarrow> bool" where
  "ends_with s t = (length t \<le> length s \<and> drop (length s - length t) s = t)"

section \<open>Expressions and matching\<close>

datatype rx =
    Chr "char \<Rightarrow> bool"
  | Emp
  | Seq rx rx
  | Alt rx rx
  | Rep rx
  | Lazy rx
  | Group nat rx
  | Not_Ahead rx
  | At_End

type_synonym rx_state = "(nat, string) jsmap \<times> string"

text \<open>A greedy repetition tries one more round first and never accepts a round that reads nothing.\<close>

function rep_ends :: "(rx_state \<Rightarrow> rx_state list) \<Rightarrow> rx_state \<Rightarrow> rx_state list" where
  "rep_ends f st =
     concat (map (rep_ends f) (filter (\<lambda>t. length (snd t) < length (snd st)) (f st))) @ [st]"
  by auto
termination by (relation "measure (\<lambda>(f, st). length (snd st))") auto

declare rep_ends.simps [simp del]

text \<open>A lazy one stops first.\<close>

function lazy_ends :: "(rx_state \<Rightarrow> rx_state list) \<Rightarrow> rx_state \<Rightarrow> rx_state list" where
  "lazy_ends f st =
     st # concat (map (lazy_ends f) (filter (\<lambda>t. length (snd t) < length (snd st)) (f st)))"
  by auto
termination by (relation "measure (\<lambda>(f, st). length (snd st))") auto

declare lazy_ends.simps [simp del]

primrec rx_ends :: "rx \<Rightarrow> rx_state \<Rightarrow> rx_state list" where
  "rx_ends (Chr P) st =
     (case snd st of [] \<Rightarrow> [] | c # cs \<Rightarrow> if P c then [(fst st, cs)] else [])"
| "rx_ends Emp st = [st]"
| "rx_ends (Seq r q) st = concat (map (rx_ends q) (rx_ends r st))"
| "rx_ends (Alt r q) st = rx_ends r st @ rx_ends q st"
| "rx_ends (Rep r) st = rep_ends (rx_ends r) st"
| "rx_ends (Lazy r) st = lazy_ends (rx_ends r) st"
| "rx_ends (Group n r) st =
     map (\<lambda>t. (jset n (take (length (snd st) - length (snd t)) (snd st)) (fst t), snd t)) (rx_ends r st)"
| "rx_ends (Not_Ahead r) st = (if rx_ends r st = [] then [st] else [])"
| "rx_ends At_End st = (if snd st = [] then [st] else [])"

text \<open>\<open>r.test(s)\<close> without the \<open>g\<close> flag: a match at some place.\<close>

fun rx_test :: "rx \<Rightarrow> string \<Rightarrow> bool" where
  "rx_test r [] = (rx_ends r ([], []) \<noteq> [])"
| "rx_test r (c # cs) = (rx_ends r ([], c # cs) \<noteq> [] \<or> rx_test r cs)"

text \<open>\<open>r.exec(s)\<close>: the first match at the leftmost place, with the text before that place.\<close>

fun rx_exec :: "rx \<Rightarrow> string \<Rightarrow> (string \<times> rx_state) option" where
  "rx_exec r [] = (case rx_ends r ([], []) of [] \<Rightarrow> None | st # _ \<Rightarrow> Some ([], st))"
| "rx_exec r (c # cs) =
     (case rx_ends r ([], c # cs) of
        st # _ \<Rightarrow> Some ([], st)
      | [] \<Rightarrow> (case rx_exec r cs of None \<Rightarrow> None | Some (before, st) \<Rightarrow> Some (c # before, st)))"

text \<open>
  The matches that repeated calls of \<open>exec\<close> with the \<open>g\<close> flag find, or \<open>s.match(r)\<close>; no
  expression of the program that is used so matches the empty text.
\<close>

function rx_all :: "rx \<Rightarrow> string \<Rightarrow> rx_state list" where
  "rx_all r s =
     (case rx_exec r s of
        None \<Rightarrow> []
      | Some (before, st) \<Rightarrow> st # (if length (snd st) < length s then rx_all r (snd st) else []))"
  by auto
termination by (relation "measure (\<lambda>(r, s). length s)") auto

declare rx_all.simps [simp del]

section \<open>Writing expressions\<close>

definition lit_char :: "char \<Rightarrow> rx" where "lit_char c = Chr (\<lambda>x. x = c)"

fun lit :: "string \<Rightarrow> rx" where
  "lit [] = Emp"
| "lit (c # cs) = Seq (lit_char c) (lit cs)"

text \<open>The same with the \<open>i\<close> flag.\<close>

fun lit_i :: "string \<Rightarrow> rx" where
  "lit_i [] = Emp"
| "lit_i (c # cs) = Seq (Chr (\<lambda>x. upper_char x = upper_char c)) (lit_i cs)"

definition one_of :: "string \<Rightarrow> rx" where "one_of cs = Chr (\<lambda>x. x \<in> set cs)"

abbreviation space_rx :: rx where "space_rx \<equiv> Chr is_js_space"
abbreviation word_rx :: rx where "word_rx \<equiv> Chr is_word"

text \<open>\<open>r+\<close>, \<open>r?\<close>, a sequence and the alternatives of a list, and \<open>.\<close>, which stops at line ends.\<close>

definition plus_rx :: "rx \<Rightarrow> rx" where "plus_rx r = Seq r (Rep r)"
definition opt_rx :: "rx \<Rightarrow> rx" where "opt_rx r = Alt r Emp"
definition seq_rx :: "rx list \<Rightarrow> rx" where "seq_rx rs = foldr Seq rs Emp"
definition any_rx :: rx where "any_rx = Chr (\<lambda>x. (of_char x :: nat) \<notin> {10, 13})"

fun alts :: "rx list \<Rightarrow> rx" where
  "alts [] = Chr (\<lambda>_. False)"
| "alts [r] = r"
| "alts (r # rs) = Alt r (alts rs)"

section \<open>The words of an expression\<close>

inductive star_of :: "(string \<Rightarrow> bool) \<Rightarrow> string \<Rightarrow> bool" for L where
  star_nil: "star_of L []"
| star_app: "L p \<Longrightarrow> p \<noteq> [] \<Longrightarrow> star_of L q \<Longrightarrow> star_of L (p @ q)"

primrec rx_lang :: "rx \<Rightarrow> string \<Rightarrow> bool" where
  "rx_lang (Chr P) w = (\<exists>c. w = [c] \<and> P c)"
| "rx_lang Emp w = (w = [])"
| "rx_lang (Seq r q) w = (\<exists>u v. w = u @ v \<and> rx_lang r u \<and> rx_lang q v)"
| "rx_lang (Alt r q) w = (rx_lang r w \<or> rx_lang q w)"
| "rx_lang (Rep r) w = star_of (rx_lang r) w"
| "rx_lang (Lazy r) w = star_of (rx_lang r) w"
| "rx_lang (Group n r) w = rx_lang r w"
| "rx_lang (Not_Ahead r) w = False"
| "rx_lang At_End w = False"

primrec rx_plain :: "rx \<Rightarrow> bool" where
  "rx_plain (Chr P) = True"
| "rx_plain Emp = True"
| "rx_plain (Seq r q) = (rx_plain r \<and> rx_plain q)"
| "rx_plain (Alt r q) = (rx_plain r \<and> rx_plain q)"
| "rx_plain (Rep r) = rx_plain r"
| "rx_plain (Lazy r) = rx_plain r"
| "rx_plain (Group n r) = rx_plain r"
| "rx_plain (Not_Ahead r) = False"
| "rx_plain At_End = False"

text \<open>Where the ends of a repetition's body are those after its words, so are the repetition's.\<close>

lemma star_of_prefix:
  "(\<exists>p. star_of L p \<and> s = p @ rest) \<longleftrightarrow>
     rest = s \<or> (\<exists>p q. L p \<and> p \<noteq> [] \<and> star_of L q \<and> s = p @ q @ rest)" (is "?l \<longleftrightarrow> ?r")
proof
  assume ?l
  then obtain p where p: "star_of L p" "s = p @ rest" by blast
  from p(1) show ?r by cases (use p(2) in auto)
next
  assume ?r
  then show ?l
  proof
    assume "rest = s"
    then show ?l using star_nil [of L] by (metis append_Nil)
  next
    assume "\<exists>p q. L p \<and> p \<noteq> [] \<and> star_of L q \<and> s = p @ q @ rest"
    then show ?l by (metis append.assoc star_app)
  qed
qed

lemma rep_ends_words:
  assumes f: "\<And>cs s rest. (\<exists>c. (c, rest) \<in> set (f (cs, s))) \<longleftrightarrow> (\<exists>p. L p \<and> s = p @ rest)"
  shows "(\<exists>c. (c, rest) \<in> set (rep_ends f (cs, s))) \<longleftrightarrow> (\<exists>p. star_of L p \<and> s = p @ rest)"
proof (induction "length s" arbitrary: cs s rule: less_induct)
  case less
  have "set (rep_ends f (cs, s)) =
      insert (cs, s) (\<Union>t \<in> {t \<in> set (f (cs, s)). length (snd t) < length s}. set (rep_ends f t))"
    by (subst rep_ends.simps) (simp del: split_paired_All split_paired_Ex)
  then have "(\<exists>c. (c, rest) \<in> set (rep_ends f (cs, s))) \<longleftrightarrow> rest = s \<or>
      (\<exists>m c1. (c1, m) \<in> set (f (cs, s)) \<and> length m < length s
          \<and> (\<exists>c. (c, rest) \<in> set (rep_ends f (c1, m))))"
    by auto
  also have "\<dots> \<longleftrightarrow> rest = s \<or> (\<exists>m. (\<exists>c1. (c1, m) \<in> set (f (cs, s))) \<and> length m < length s
      \<and> (\<exists>q. star_of L q \<and> m = q @ rest))"
    by (simp add: less cong: conj_cong)
  also have "\<dots> \<longleftrightarrow> rest = s \<or> (\<exists>p q. L p \<and> p \<noteq> [] \<and> star_of L q \<and> s = p @ q @ rest)"
    unfolding f by auto
  also have "\<dots> \<longleftrightarrow> (\<exists>p. star_of L p \<and> s = p @ rest)"
    by (rule star_of_prefix [symmetric])
  finally show ?case .
qed

lemma lazy_ends_same: "set (lazy_ends f st) = set (rep_ends f st)"
proof (induction f st rule: lazy_ends.induct)
  case (1 f st)
  then show ?case by (subst lazy_ends.simps, subst rep_ends.simps) auto
qed

lemma rx_ends_words:
  "rx_plain r \<Longrightarrow> (\<exists>c. (c, rest) \<in> set (rx_ends r (cs, s))) \<longleftrightarrow> (\<exists>p. rx_lang r p \<and> s = p @ rest)"
proof (induction r arbitrary: cs s rest)
  case (Seq r q)
  have "(\<exists>c. (c, rest) \<in> set (rx_ends (Seq r q) (cs, s))) \<longleftrightarrow>
      (\<exists>m. (\<exists>c1. (c1, m) \<in> set (rx_ends r (cs, s)) \<and> (\<exists>c. (c, rest) \<in> set (rx_ends q (c1, m)))))"
    by fastforce
  also have "\<dots> \<longleftrightarrow> (\<exists>m. (\<exists>u. rx_lang r u \<and> s = u @ m) \<and> (\<exists>v. rx_lang q v \<and> m = v @ rest))"
    using Seq.IH Seq.prems by simp
  also have "\<dots> \<longleftrightarrow> (\<exists>p. rx_lang (Seq r q) p \<and> s = p @ rest)"
    unfolding rx_lang.simps by (metis append.assoc)
  finally show ?case .
next
  case (Alt r q)
  have "(\<exists>c. (c, rest) \<in> set (rx_ends (Alt r q) (cs, s))) \<longleftrightarrow>
      (\<exists>c. (c, rest) \<in> set (rx_ends r (cs, s))) \<or> (\<exists>c. (c, rest) \<in> set (rx_ends q (cs, s)))"
    by auto
  with Alt show ?case by auto
next
  case (Rep r)
  then show ?case using rep_ends_words [where f = "rx_ends r" and L = "rx_lang r"] by simp
next
  case (Lazy r)
  then show ?case
    using rep_ends_words [where f = "rx_ends r" and L = "rx_lang r"] by (simp add: lazy_ends_same)
next
  case (Group n r)
  have "(\<exists>c. (c, rest) \<in> set (rx_ends (Group n r) (cs, s))) \<longleftrightarrow> (\<exists>c. (c, rest) \<in> set (rx_ends r (cs, s)))"
    by (auto simp: image_iff) force+
  with Group show ?case by simp
qed (auto split: list.splits if_splits)

lemma rx_ends_nonempty:
  assumes "rx_plain r"
  shows "rx_ends r (cs, s) \<noteq> [] \<longleftrightarrow> (\<exists>p b. rx_lang r p \<and> s = p @ b)"
proof -
  have "rx_ends r (cs, s) \<noteq> [] \<longleftrightarrow> (\<exists>rest c. (c, rest) \<in> set (rx_ends r (cs, s)))"
    by (cases "rx_ends r (cs, s)") auto
  with rx_ends_words [OF assms] show ?thesis by blast
qed

lemma rx_test_iff: "rx_plain r \<Longrightarrow> rx_test r s \<longleftrightarrow> (\<exists>a p b. s = a @ p @ b \<and> rx_lang r p)"
proof (induction s)
  case (Cons c cs)
  have "(\<exists>a p b. c # cs = a @ p @ b \<and> rx_lang r p) \<longleftrightarrow>
      (\<exists>p b. rx_lang r p \<and> c # cs = p @ b) \<or> (\<exists>a p b. cs = a @ p @ b \<and> rx_lang r p)"
    by (auto simp: Cons_eq_append_conv) (metis append_Nil)+
  with Cons rx_ends_nonempty [of r "[]" "c # cs"] show ?case by simp
qed (simp add: rx_ends_nonempty)

lemma rx_test_append: "rx_plain r \<Longrightarrow> rx_test r s \<Longrightarrow> rx_test r (a @ s @ b)"
  unfolding rx_test_iff by (metis append.assoc)

section \<open>Words of the written forms\<close>

lemma rx_plain_forms [simp]:
  "rx_plain (lit s)" "rx_plain (lit_i s)" "rx_plain (lit_char c)" "rx_plain (one_of s)" "rx_plain any_rx"
  "rx_plain (plus_rx r) = rx_plain r" "rx_plain (opt_rx r) = rx_plain r"
  "rx_plain (seq_rx rs) = list_all rx_plain rs"
  by (induction s, simp_all add: lit_char_def one_of_def any_rx_def plus_rx_def opt_rx_def,
      induction rs, simp_all add: seq_rx_def)

lemma rx_plain_alts [simp]: "rx_plain (alts rs) = list_all rx_plain rs"
  by (induction rs rule: alts.induct) auto

lemma lit_lang [simp]: "rx_lang (lit s) w = (w = s)"
  by (induction s arbitrary: w) (auto simp: lit_char_def)

lemma lit_i_lang [simp]: "rx_lang (lit_i s) w = (to_upper w = to_upper s)"
  proof (induction s arbitrary: w)
  case (Cons c s)
  have "rx_lang (lit_i (c # s)) w \<longleftrightarrow>
      (\<exists>d v. w = d # v \<and> upper_char d = upper_char c \<and> to_upper v = to_upper s)"
    unfolding lit_i.simps rx_lang.simps Cons.IH by (metis append_Cons append_Nil)
  then show ?case by (cases w) (simp_all add: to_upper_def del: lit_i.simps)
qed (simp add: to_upper_def)

lemma star_of_chars: "star_of (\<lambda>w. \<exists>c. w = [c] \<and> P c) w \<longleftrightarrow> list_all P w"
proof
  show "star_of (\<lambda>w. \<exists>c. w = [c] \<and> P c) w \<Longrightarrow> list_all P w"
    by (induction rule: star_of.induct) auto
  show "list_all P w \<Longrightarrow> star_of (\<lambda>w. \<exists>c. w = [c] \<and> P c) w"
  proof (induction w)
    case (Cons c w)
    then show ?case using star_of.star_app [of _ "[c]" w] by auto
  qed (rule star_nil)
qed

lemma chr_lang: "rx_lang (Chr P) = (\<lambda>w. \<exists>c. w = [c] \<and> P c)"
  by (rule ext) simp

lemma star_of_chr [simp]: "star_of (rx_lang (Chr P)) w = list_all P w"
  by (simp only: chr_lang star_of_chars)

lemma rx_lang_forms [simp]:
  "rx_lang (one_of s) w = (\<exists>c. w = [c] \<and> c \<in> set s)"
  "rx_lang (opt_rx r) w = (w = [] \<or> rx_lang r w)"
  "rx_lang (seq_rx []) w = (w = [])"
  "rx_lang (seq_rx (r # rs)) w = (\<exists>u v. w = u @ v \<and> rx_lang r u \<and> rx_lang (seq_rx rs) v)"
  by (auto simp: one_of_def opt_rx_def seq_rx_def)

lemma rx_lang_alts [simp]: "rx_lang (alts rs) w = (\<exists>r \<in> set rs. rx_lang r w)"
  by (induction rs rule: alts.induct) auto

lemma rx_test_lit [simp]: "rx_test (lit t) s = js_includes s t"
  by (simp add: rx_test_iff js_includes_iff)

lemma rx_test_lit_i [simp]: "rx_test (lit_i t) s = js_includes (to_upper s) (to_upper t)"
proof
  assume "rx_test (lit_i t) s"
  then show "js_includes (to_upper s) (to_upper t)"
    by (fastforce simp: rx_test_iff js_includes_iff to_upper_def)
next
  assume "js_includes (to_upper s) (to_upper t)"
  then obtain a b where "map upper_char s = a @ to_upper t @ b"
    by (auto simp: js_includes_iff to_upper_def)
  then obtain x p y where "s = x @ p @ y" "to_upper p = to_upper t"
    by (auto simp: map_eq_append_conv append_eq_map_conv to_upper_def)
  then show "rx_test (lit_i t) s" by (auto simp: rx_test_iff)
qed

text \<open>A match of a sequence holds a match of its first part, and of its second.\<close>

lemma rx_test_seq_fst: "rx_test (Seq r q) s \<Longrightarrow> rx_test r s"
  by (induction s) auto

lemma rx_test_seq_snd: "rx_plain (Seq r q) \<Longrightarrow> rx_test (Seq r q) s \<Longrightarrow> rx_test q s"
  by (auto simp: rx_test_iff) (metis append.assoc)

lemma rx_test_alt [simp]: "rx_test (Alt r q) s = (rx_test r s \<or> rx_test q s)"
  by (induction s) auto

text \<open>An optional part in front of an expression does not change what \<open>test\<close> answers.\<close>

lemma rx_test_opt_front: "rx_plain r \<Longrightarrow> rx_plain q \<Longrightarrow> rx_test (Seq (opt_rx r) q) s = rx_test q s"
proof
  assume "rx_plain r" "rx_plain q" "rx_test q s"
  then show "rx_test (Seq (opt_rx r) q) s"
    unfolding rx_test_iff [OF \<open>rx_plain q\<close>] by (auto simp: rx_test_iff) (metis append_Nil)
qed (rule rx_test_seq_snd; simp)

text \<open>Every end of a match is a suffix of the text.\<close>

lemma rep_ends_suffix:
  assumes f: "\<And>st t. t \<in> set (f st) \<Longrightarrow> suffix (snd t) (snd st)"
    and t: "t \<in> set (rep_ends f st)"
  shows "suffix (snd t) (snd st)"
  using f t
proof (induction f st arbitrary: t rule: rep_ends.induct)
  case (1 f st)
  from "1.prems" consider "t = st"
    | u where "u \<in> set (f st)" "length (snd u) < length (snd st)" "t \<in> set (rep_ends f u)"
    by (subst (asm) rep_ends.simps) auto
  then show ?case
  proof cases
    case 2
    then have "suffix (snd t) (snd u)" using "1.IH" "1.prems" by simp
    with "1.prems"(1) [OF 2(1)] show ?thesis by (metis suffix_order.trans)
  qed simp
qed

lemma rx_ends_suffix: "t \<in> set (rx_ends r st) \<Longrightarrow> suffix (snd t) (snd st)"
proof (induction r arbitrary: st t)
  case (Chr P)
  then show ?case
    by (auto split: list.splits if_splits) (metis suffix_Cons suffix_order.refl)
next
  case (Seq r q)
  then obtain u where "u \<in> set (rx_ends r st)" "t \<in> set (rx_ends q u)" by auto
  with Seq.IH show ?case by (metis suffix_order.trans)
next
  case (Rep r)
  then show ?case using rep_ends_suffix [of "rx_ends r" t st] by simp
next
  case (Lazy r)
  then show ?case using rep_ends_suffix [of "rx_ends r" t st] by (simp add: lazy_ends_same)
qed (auto split: if_splits)

lemma rx_exec_suffix: "rx_exec r s = Some (x, st) \<Longrightarrow> \<exists>m. s = x @ m @ snd st \<and> st \<in> set (rx_ends r ([], m @ snd st))"
proof (induction s arbitrary: x)
  case Nil
  then obtain sts where sts: "rx_ends r ([], []) = st # sts" "x = []"
    by (cases "rx_ends r ([], [])") auto
  with rx_ends_suffix [of st r "([], [])"] have "snd st = []" by simp
  with sts show ?case by simp
next
  case (Cons c s)
  show ?case
  proof (cases "rx_ends r ([], c # s)")
    case Nil
    with Cons show ?thesis by (fastforce split: option.splits)
  next
    case (Cons st' sts)
    with Cons.prems have st: "st = st'" "x = []" by auto
    have "suffix (snd st) (c # s)" using rx_ends_suffix [of st' r "([], c # s)"] Cons st by simp
    then obtain m where "c # s = m @ snd st" by (auto simp: suffix_def)
    with Cons st show ?thesis by (metis append_Nil list.set_intros(1))
  qed
qed

text \<open>Every match found in a text is one at some place of it.\<close>

lemma rx_all_place: "st \<in> set (rx_all r s) \<Longrightarrow> \<exists>x m. s = x @ m @ snd st \<and> st \<in> set (rx_ends r ([], m @ snd st))"
proof (induction r s rule: rx_all.induct)
  case (1 r s)
  from "1.prems" obtain x0 st0 where ex: "rx_exec r s = Some (x0, st0)"
    and st: "st = st0 \<or> length (snd st0) < length s \<and> st \<in> set (rx_all r (snd st0))"
    by (cases "rx_exec r s") (auto simp: rx_all.simps [of r s] split: if_splits)
  from rx_exec_suffix [OF ex] obtain m0 where m0: "s = x0 @ m0 @ snd st0"
    and in0: "st0 \<in> set (rx_ends r ([], m0 @ snd st0))" by blast
  from st show ?case
  proof
    assume "st = st0"
    with m0 in0 show ?thesis by blast
  next
    assume later: "length (snd st0) < length s \<and> st \<in> set (rx_all r (snd st0))"
    with "1.IH" [OF ex refl] obtain x m where "snd st0 = x @ m @ snd st"
      and "st \<in> set (rx_ends r ([], m @ snd st))" by blast
    with m0 show ?thesis by (metis append.assoc)
  qed
qed

text \<open>The words of a sequence end with one of its last part.\<close>

lemma seq_rx_snoc: "rx_lang (seq_rx (rs @ [r])) w \<Longrightarrow> \<exists>u v. w = u @ v \<and> rx_lang r v"
proof (induction rs arbitrary: w)
  case (Cons q rs)
  then obtain u v where "w = u @ v" "rx_lang (seq_rx (rs @ [r])) v" by auto
  with Cons.IH show ?case by (metis append.assoc)
next
  case Nil
  then have "rx_lang r w" by simp
  then show ?case by (metis append_Nil)
qed

text \<open>A match of an expression without assertions reads one of its words.\<close>

lemma rx_all_words:
  assumes "rx_plain r" and "st \<in> set (rx_all r s)"
  shows "\<exists>x p. s = x @ p @ snd st \<and> rx_lang r p"
proof -
  from rx_all_place [OF assms(2)] obtain x m where m: "s = x @ m @ snd st"
    and st: "st \<in> set (rx_ends r ([], m @ snd st))" by blast
  from st have "\<exists>c. (c, snd st) \<in> set (rx_ends r ([], m @ snd st))" by (metis prod.collapse)
  then have "rx_lang r m" using rx_ends_words [OF assms(1), of "snd st" "[]" "m @ snd st"] by auto
  with m show ?thesis by blast
qed

text \<open>\<open>/^r$/.test(s)\<close> asks whether the whole text is a word of the expression.\<close>

definition rx_whole :: "rx \<Rightarrow> string \<Rightarrow> bool" where
  "rx_whole r s = (rx_ends (Seq r At_End) ([], s) \<noteq> [])"

lemma rx_whole_iff:
  assumes r: "rx_plain r"
  shows "rx_whole r s \<longleftrightarrow> rx_lang r s"
proof -
  have "rx_whole r s \<longleftrightarrow> (\<exists>t \<in> set (rx_ends r ([], s)). rx_ends At_End t \<noteq> [])"
    unfolding rx_whole_def rx_ends.simps(3) by (auto split: if_splits)
  also have "\<dots> \<longleftrightarrow> (\<exists>c. (c, []) \<in> set (rx_ends r ([], s)))" by (force split: if_splits)
  finally show ?thesis using rx_ends_words [OF r, of "[]" "[]" s] by simp
qed

end
