(* ===== verification/Cqrs_Analyzer.thy ===== *)
theory Cqrs_Analyzer
  imports Regex
begin

text \<open>
  \<open>packages/architecture-tests/src/analyzers/CQRSAnalyzer.ts\<close>: the scan of the source tree for
  commands, queries, their handlers and buses, and the rules each is checked against.

  The file system is an argument: a tree of directories and files, a file with its text when it can
  be read.  The expressions that find declarations and imports are those of the code, over the
  matcher of \<open>Regex\<close>; the one that looks for state changes is written out as a function.
\<close>

section \<open>Text tests\<close>

text \<open>
  \<open>/(?:export\s+)?(?:abstract\s+)?class\s+(\w+)(?:\s+extends\s+\w+)?(?:\s+implements\s+[\w\s,<>]+)?\s*{/\<close>
  and \<open>/(?:export\s+)?interface\s+(\w+)(?:\s+extends\s+[\w\s,<>]+)?\s*{/\<close>; the class expression of
  the DDD analysis differs in a second group around the base class.
\<close>

definition keyword_opt :: "string \<Rightarrow> rx" where
  "keyword_opt w = opt_rx (seq_rx [lit w, plus_rx space_rx])"

definition type_list_rx :: rx where
  "type_list_rx = plus_rx (Chr (\<lambda>c. is_word c \<or> is_js_space c \<or> c \<in> set '',<>''))"

definition class_rx :: "rx \<Rightarrow> rx" where
  "class_rx base = seq_rx
     [keyword_opt ''export'', keyword_opt ''abstract'', lit ''class'', plus_rx space_rx,
      Group 1 (plus_rx word_rx),
      opt_rx (seq_rx [plus_rx space_rx, lit ''extends'', plus_rx space_rx, base]),
      opt_rx (seq_rx [plus_rx space_rx, lit ''implements'', plus_rx space_rx, type_list_rx]),
      Rep space_rx, lit ''{'']"

definition interface_rx :: rx where
  "interface_rx = seq_rx
     [keyword_opt ''export'', lit ''interface'', plus_rx space_rx, Group 1 (plus_rx word_rx),
      opt_rx (seq_rx [plus_rx space_rx, lit ''extends'', plus_rx space_rx, type_list_rx]),
      Rep space_rx, lit ''{'']"

text \<open>\<open>/import\s+.*?\s+from\s+['"](.+?)['"];?/\<close>.\<close>

definition quote_rx :: rx where
  "quote_rx = one_of [CHR 0x22, CHR 0x27]"

definition import_rx :: rx where
  "import_rx = seq_rx
     [lit ''import'', plus_rx space_rx, Lazy any_rx, plus_rx space_rx, lit ''from'', plus_rx space_rx,
      quote_rx, Group 1 (Seq any_rx (Lazy any_rx)), quote_rx, opt_rx (lit '';'')]"

definition captured :: "nat \<Rightarrow> rx_state \<Rightarrow> string" where
  "captured n st = (case jget (fst st) n of Some s \<Rightarrow> s | None \<Rightarrow> [])"

definition extract_dependencies :: "string \<Rightarrow> string list" where
  "extract_dependencies content =
     filter (\<lambda>s. begins_with s ''@marcusprado02/'') (map (captured 1) (rx_all import_rx content))"

text \<open>\<open>/\.(save|update|delete|create|insert)\s*\(/i.test(s)\<close>, with the words in upper case.\<close>

definition opens_call :: "string \<Rightarrow> bool" where
  "opens_call s = (case dropWhile is_js_space s of [] \<Rightarrow> False | c # cs \<Rightarrow> c = CHR ''('')"

definition matches_word_call :: "string \<Rightarrow> string \<Rightarrow> bool" where
  "matches_word_call s w = (to_upper (take (length w) s) = w \<and> opens_call (drop (length w) s))"

fun modifies_state :: "string \<Rightarrow> bool" where
  "modifies_state [] = False"
| "modifies_state (c # cs) =
     ((c = CHR ''.'' \<and> (\<exists>w \<in> set [''SAVE'', ''UPDATE'', ''DELETE'', ''CREATE'', ''INSERT''].
         matches_word_call cs w)) \<or> modifies_state cs)"

section \<open>Components and violations\<close>

datatype cqrs_type =
  Command | CommandHandler | Query | QueryHandler | CommandBus | QueryBus | Event

datatype cqrs_violation_type =
  CommandReturnsData | QueryModifiesState | CommandQueryMixing | HandlerViolation | BusViolation

datatype cqrs_severity = LowSeverity | MediumSeverity | HighSeverity | CriticalSeverity

record cqrs_violation =
  cv_component :: string
  cv_type :: cqrs_violation_type
  cv_description :: string
  cv_suggestion :: string
  cv_severity :: cqrs_severity

record cqrs_component =
  cc_name :: string
  cc_type :: cqrs_type
  cc_file_path :: string
  cc_dependencies :: "string list"
  cc_violations :: "cqrs_violation list"

type_synonym cqrs_components = "(string, cqrs_component) jsmap"

definition determine_handler_type :: "string \<Rightarrow> cqrs_type option" where
  "determine_handler_type u =
     (if js_includes u ''COMMAND'' \<and> js_includes u ''HANDLER'' then Some CommandHandler
      else if js_includes u ''QUERY'' \<and> js_includes u ''HANDLER'' then Some QueryHandler
      else None)"

definition determine_bus_type :: "string \<Rightarrow> cqrs_type option" where
  "determine_bus_type u =
     (if js_includes u ''COMMANDBUS'' then Some CommandBus
      else if js_includes u ''QUERYBUS'' then Some QueryBus
      else None)"

definition determine_command_or_query :: "string \<Rightarrow> string \<Rightarrow> cqrs_type option" where
  "determine_command_or_query u content =
     (if js_includes u ''COMMAND'' then
        (if js_includes content ''implements Command'' \<or> js_includes content ''extends BaseCommand''
         then Some Command else None)
      else if js_includes u ''QUERY'' then
        (if js_includes content ''implements Query'' \<or> js_includes content ''extends BaseQuery''
         then Some Query else None)
      else None)"

definition determine_cqrs_type :: "string \<Rightarrow> string \<Rightarrow> cqrs_type option" where
  "determine_cqrs_type name content =
     (let u = to_upper name in
      case determine_handler_type u of
        Some t \<Rightarrow> Some t
      | None \<Rightarrow> (case determine_bus_type u of
          Some t \<Rightarrow> Some t
        | None \<Rightarrow> determine_command_or_query u content))"

section \<open>The rules\<close>

definition validate_command :: "string \<Rightarrow> string \<Rightarrow> cqrs_violation list" where
  "validate_command name content =
     (if js_includes content ''Promise<'' \<and> \<not> js_includes content ''Promise<void>''
         \<and> \<not> js_includes content ''Promise<Result<void''
      then [\<lparr>cv_component = name, cv_type = CommandReturnsData,
             cv_description = ''Command appears to return data instead of void/acknowledgment'',
             cv_suggestion = ''Commands should return void or simple acknowledgment, not data'',
             cv_severity = HighSeverity\<rparr>]
      else [])"

definition validate_command_handler :: "string \<Rightarrow> string \<Rightarrow> cqrs_violation list" where
  "validate_command_handler name content =
     (if js_includes content ''implements CommandHandler'' \<or> js_includes content '': CommandHandler''
      then []
      else [\<lparr>cv_component = name, cv_type = HandlerViolation,
             cv_description = ''CommandHandler should implement CommandHandler interface'',
             cv_suggestion = ''Implement CommandHandler<TCommand, TResult, TError> interface'',
             cv_severity = CriticalSeverity\<rparr>])"

definition validate_query :: "string \<Rightarrow> string \<Rightarrow> cqrs_violation list" where
  "validate_query name content =
     (if modifies_state content
      then [\<lparr>cv_component = name, cv_type = QueryModifiesState,
             cv_description = ''Query appears to modify state'',
             cv_suggestion = ''Queries should only read data, not modify state'',
             cv_severity = CriticalSeverity\<rparr>]
      else [])"

definition validate_query_handler :: "string \<Rightarrow> string \<Rightarrow> cqrs_violation list" where
  "validate_query_handler name content =
     (if js_includes content ''implements QueryHandler'' \<or> js_includes content '': QueryHandler''
      then []
      else [\<lparr>cv_component = name, cv_type = HandlerViolation,
             cv_description = ''QueryHandler should implement QueryHandler interface'',
             cv_suggestion = ''Implement QueryHandler<TQuery, TResult, TError> interface'',
             cv_severity = CriticalSeverity\<rparr>])"

definition validate_command_bus :: "string \<Rightarrow> string \<Rightarrow> cqrs_violation list" where
  "validate_command_bus name content =
     (if js_includes content ''QueryHandler'' \<or> js_includes content ''query''
         \<or> js_includes content ''Query''
      then [\<lparr>cv_component = name, cv_type = BusViolation,
             cv_description = ''CommandBus should not handle queries'',
             cv_suggestion = ''Separate command and query handling into different buses'',
             cv_severity = HighSeverity\<rparr>]
      else [])"

definition validate_query_bus :: "string \<Rightarrow> string \<Rightarrow> cqrs_violation list" where
  "validate_query_bus name content =
     (if js_includes content ''CommandHandler'' \<or> js_includes content ''command''
         \<or> js_includes content ''Command''
      then [\<lparr>cv_component = name, cv_type = BusViolation,
             cv_description = ''QueryBus should not handle commands'',
             cv_suggestion = ''Separate command and query handling into different buses'',
             cv_severity = HighSeverity\<rparr>]
      else [])"

definition validate_component :: "string \<Rightarrow> cqrs_type \<Rightarrow> string \<Rightarrow> cqrs_violation list" where
  "validate_component name t content =
     (case t of
        Command \<Rightarrow> validate_command name content
      | CommandHandler \<Rightarrow> validate_command_handler name content
      | Query \<Rightarrow> validate_query name content
      | QueryHandler \<Rightarrow> validate_query_handler name content
      | CommandBus \<Rightarrow> validate_command_bus name content
      | QueryBus \<Rightarrow> validate_query_bus name content
      | Event \<Rightarrow> [])"

section \<open>The scan\<close>

datatype fs_entry = DirEntry string "fs_entry list" | FileEntry string "string option"

definition extract_matching :: "rx \<Rightarrow> string \<Rightarrow> string \<Rightarrow> cqrs_component list" where
  "extract_matching r path content =
     concat (map (\<lambda>st. let name = captured 1 st in
       if name = [] then []
       else case determine_cqrs_type name content of
         None \<Rightarrow> []
       | Some t \<Rightarrow>
           [\<lparr>cc_name = name, cc_type = t, cc_file_path = path,
             cc_dependencies = extract_dependencies content,
             cc_violations = validate_component name t content\<rparr>]) (rx_all r content))"

definition extract_components :: "string \<Rightarrow> string \<Rightarrow> cqrs_component list" where
  "extract_components path content =
     extract_matching (class_rx (plus_rx word_rx)) path content
       @ extract_matching interface_rx path content"

definition analyze_source_file ::
    "string \<Rightarrow> string option \<Rightarrow> cqrs_components \<Rightarrow> cqrs_components" where
  "analyze_source_file path text comps =
     (case text of
        None \<Rightarrow> comps
      | Some content \<Rightarrow>
          foldl (\<lambda>cs c. jset (cc_name c) c cs) comps (extract_components path content))"

fun scan_entries ::
    "string \<Rightarrow> fs_entry list \<Rightarrow> cqrs_components \<Rightarrow> cqrs_components" where
  "scan_entries dir [] comps = comps"
| "scan_entries dir (DirEntry name entries # rest) comps =
     scan_entries dir rest (scan_entries (dir @ ''/'' @ name) entries comps)"
| "scan_entries dir (FileEntry name text # rest) comps =
     scan_entries dir rest
       (if ends_with name ''.ts'' then analyze_source_file (dir @ ''/'' @ name) text comps
        else comps)"

text \<open>Every package directory with the entries of its \<open>src\<close>, when it has one.\<close>

definition load_packages_from :: "(string \<times> fs_entry list option) list
    \<Rightarrow> cqrs_components \<Rightarrow> cqrs_components" where
  "load_packages_from pkgs comps =
     foldl (\<lambda>cs (path, src). case src of None \<Rightarrow> cs
       | Some entries \<Rightarrow> scan_entries (path @ ''/src'') entries cs) comps pkgs"

section \<open>The report\<close>

definition validate_separation :: "cqrs_components \<Rightarrow> cqrs_violation list" where
  "validate_separation comps =
     concat (map (\<lambda>c.
       let is_command = (cc_type c = Command \<or> cc_type c = CommandHandler);
           is_query = (cc_type c = Query \<or> cc_type c = QueryHandler)
       in if is_command \<and> is_query
          then [\<lparr>cv_component = cc_name c, cv_type = CommandQueryMixing,
                 cv_description = ''Component mixes command and query responsibilities'',
                 cv_suggestion = ''Split into separate command and query components'',
                 cv_severity = CriticalSeverity\<rparr>]
          else []) (jvalues comps))"

definition validate_cqrs_rules :: "cqrs_components \<Rightarrow> cqrs_violation list" where
  "validate_cqrs_rules comps = concat (map cc_violations (jvalues comps)) @ validate_separation comps"

text \<open>\<open>analyzeImplementation\<close>; there is no scan when neither candidate directory exists.\<close>

definition analyze_implementation :: "(string \<times> fs_entry list option) list option \<Rightarrow> cqrs_components
    \<Rightarrow> cqrs_violation list \<times> cqrs_components" where
  "analyze_implementation pkgs comps =
     (let cs = (case pkgs of None \<Rightarrow> comps | Some ps \<Rightarrow> load_packages_from ps comps)
      in (validate_cqrs_rules cs, cs))"

definition components_of_type :: "cqrs_type \<Rightarrow> cqrs_components \<Rightarrow> cqrs_component list" where
  "components_of_type t comps = filter (\<lambda>c. cc_type c = t) (jvalues comps)"

section \<open>What the report holds\<close>

text \<open>All the components the scan finds, in the order it finds them.\<close>

fun scanned :: "string \<Rightarrow> fs_entry list \<Rightarrow> cqrs_component list" where
  "scanned dir [] = []"
| "scanned dir (DirEntry name entries # rest) =
     scanned (dir @ ''/'' @ name) entries @ scanned dir rest"
| "scanned dir (FileEntry name text # rest) =
     (case text of
        Some content \<Rightarrow> if ends_with name ''.ts'' then extract_components (dir @ ''/'' @ name) content
                        else []
      | None \<Rightarrow> []) @ scanned dir rest"

definition all_scanned :: "(string \<times> fs_entry list option) list
    \<Rightarrow> cqrs_component list" where
  "all_scanned pkgs =
     concat (map (\<lambda>(path, src). case src of None \<Rightarrow> [] | Some es \<Rightarrow> scanned (path @ ''/src'') es) pkgs)"

definition store_all :: "cqrs_components \<Rightarrow> cqrs_component list \<Rightarrow> cqrs_components" where
  "store_all comps found = foldl (\<lambda>cs c. jset (cc_name c) c cs) comps found"

lemma store_all_append: "store_all comps (xs @ ys) = store_all (store_all comps xs) ys"
  by (simp add: store_all_def)

lemma scan_stores: "scan_entries dir entries comps = store_all comps (scanned dir entries)"
  by (induction dir entries comps rule: scan_entries.induct)
    (auto simp: store_all_append analyze_source_file_def store_all_def split: option.splits)

lemma load_stores: "load_packages_from pkgs comps = store_all comps (all_scanned pkgs)"
  by (induction pkgs arbitrary: comps)
    (auto simp: load_packages_from_def all_scanned_def scan_stores store_all_append
      store_all_def split: option.splits)

lemma separation_never_reported: "validate_separation comps = []"
  by (auto simp: validate_separation_def Let_def)

lemma store_all_distinct:
  "distinct (map cc_name found) \<Longrightarrow> set (map cc_name found) \<inter> set (jkeys comps) = {} \<Longrightarrow>
     store_all comps found = comps @ map (\<lambda>c. (cc_name c, c)) found"
proof (induction found arbitrary: comps)
  case (Cons c found)
  have "\<not> jhas comps (cc_name c)" using Cons.prems by (auto simp: jhas_keys)
  then have "jset (cc_name c) c comps = comps @ [(cc_name c, c)]" by (rule jset_absent)
  moreover have "store_all (comps @ [(cc_name c, c)]) found
      = (comps @ [(cc_name c, c)]) @ map (\<lambda>c. (cc_name c, c)) found"
    using Cons.prems by (intro Cons.IH) auto
  ultimately show ?case by (simp add: store_all_def)
qed (simp add: store_all_def)

text \<open>
  When no two components of the tree share a name, the report is every rule violation of every
  component the scan finds, and each of them has the type its name and text give it.
\<close>

theorem cqrs_report_complete:
  assumes "distinct (map cc_name (all_scanned pkgs))"
  shows "fst (analyze_implementation (Some pkgs) [])
    = concat (map cc_violations (all_scanned pkgs))"
  using store_all_distinct [OF assms, of "[]"]
  by (simp add: analyze_implementation_def load_stores validate_cqrs_rules_def
      separation_never_reported comp_def)

definition example_tree :: "(string \<times> fs_entry list option) list" where
  "example_tree =
     [(''a'', Some [DirEntry ''cqrs''
         [FileEntry ''q.ts'' (Some ''export class GetQuery implements Query { x.Save () }'')]]),
      (''b'', Some [FileEntry ''b.ts'' (Some ''interface CommandBus {}'')])]"

theorem cqrs_report_complete_witness:
  "fst (analyze_implementation (Some example_tree) [])
    = concat (map cc_violations (all_scanned example_tree))"
  by (rule cqrs_report_complete) code_simp

lemma component_rules_do_not_mix:
  "v \<in> set (validate_component name t content) \<Longrightarrow> cv_type v \<noteq> CommandQueryMixing"
  by (cases t) (auto simp: validate_component_def validate_command_def validate_command_handler_def
      validate_query_def validate_query_handler_def validate_command_bus_def validate_query_bus_def
      split: if_splits)

lemma scanned_do_not_mix:
  "c \<in> set (scanned dir entries) \<Longrightarrow> v \<in> set (cc_violations c) \<Longrightarrow> cv_type v \<noteq> CommandQueryMixing"
  by (induction dir entries rule: scanned.induct)
    (auto simp: extract_components_def extract_matching_def Let_def dest: component_rules_do_not_mix
      split: option.splits if_splits)

lemma store_all_values: "set (jvalues (store_all comps found)) \<subseteq> set (jvalues comps) \<union> set found"
proof (induction found arbitrary: comps)
  case (Cons c found)
  have "set (jvalues (jset (cc_name c) c comps)) \<subseteq> insert c (set (jvalues comps))"
    by (induction comps) auto
  with Cons [of "jset (cc_name c) c comps"] show ?case by (auto simp: store_all_def)
qed (simp add: store_all_def)

text \<open>
  The rule that a component may not mix command and query responsibilities is never broken: a
  component has one type, so no analysis reports it, whatever the source.
\<close>

theorem mixing_is_never_reported:
  "\<forall>v \<in> set (fst (analyze_implementation pkgs [])). cv_type v \<noteq> CommandQueryMixing"
proof
  fix v
  assume v: "v \<in> set (fst (analyze_implementation pkgs []))"
  show "cv_type v \<noteq> CommandQueryMixing"
  proof (cases pkgs)
    case (Some ps)
    with v obtain c where "c \<in> set (jvalues (store_all [] (all_scanned ps)))"
      and viol: "v \<in> set (cc_violations c)"
      by (auto simp: analyze_implementation_def load_stores validate_cqrs_rules_def
          separation_never_reported Let_def)
    then have "c \<in> set (all_scanned ps)"
      using store_all_values [of "[]" "all_scanned ps"] by auto
    with viol show ?thesis
      by (auto simp: all_scanned_def dest: scanned_do_not_mix split: option.splits)
  qed (use v in \<open>simp add: analyze_implementation_def validate_cqrs_rules_def
         separation_never_reported\<close>)
qed

theorem mixing_is_never_reported_witness:
  "\<forall>v \<in> set (fst (analyze_implementation (Some example_tree) [])).
     cv_type v \<noteq> CommandQueryMixing"
  by (rule mixing_is_never_reported)

text \<open>
  Components are kept by name alone: the violations of a component disappear from the report when a
  file scanned later declares another of the same name without any.
\<close>

theorem namesake_hides_violations:
  "fst (analyze_implementation
      (Some [(''a'', Some [FileEntry ''h.ts'' (Some ''class PlaceCommandHandler {}'')])]) []) \<noteq> []
   \<and> fst (analyze_implementation
      (Some [(''a'', Some [FileEntry ''h.ts'' (Some ''class PlaceCommandHandler {}'')]),
             (''b'', Some [FileEntry ''h.ts''
                (Some ''class PlaceCommandHandler implements CommandHandler {}'')])]) []) = []"
  by code_simp

end
