(* ===== verification/Ddd_Analyzer.thy ===== *)
theory Ddd_Analyzer
  imports Cqrs_Analyzer
begin

text \<open>
  \<open>packages/architecture-tests/src/analyzers/DDDAnalyzer.ts\<close>: the scan for entities, value
  objects, aggregates, events, services, repositories, factories and specifications, the cut of a
  class body between its braces, and the rules each kind is checked against.

  The file system is the tree of \<open>Cqrs_Analyzer\<close>; every regular expression is the one of the code.
\<close>

section \<open>Components and violations\<close>

datatype ddd_type =
  Entity | ValueObject | AggregateRoot | DomainEvent | DomainService | Repository | Factory
  | Specification

datatype ddd_violation_type =
  EntityWithoutIdentity | ValueObjectMutable | AggregateRootViolation | DomainLogicInInfrastructure
  | AnthropicModelPattern | RepositoryInDomain | InfrastructureDependency

datatype violation_severity = Low | Medium | High | Critical

record ddd_violation =
  dv_component :: string
  dv_type :: ddd_violation_type
  dv_description :: string
  dv_suggestion :: string
  dv_severity :: violation_severity

record ddd_component =
  dc_name :: string
  dc_type :: ddd_type
  dc_file_path :: string
  dc_violations :: "ddd_violation list"

type_synonym ddd_components = "(string, ddd_component) jsmap"

definition violation_if :: "bool \<Rightarrow> string \<Rightarrow> ddd_violation_type \<Rightarrow> string \<Rightarrow> string
    \<Rightarrow> violation_severity \<Rightarrow> ddd_violation list" where
  "violation_if b name t description suggestion severity =
     (if b then [\<lparr>dv_component = name, dv_type = t, dv_description = description,
                  dv_suggestion = suggestion, dv_severity = severity\<rparr>]
      else [])"

lemma set_violation_if [simp]:
  "v \<in> set (violation_if b name t d s sev) \<longleftrightarrow> b \<and> v = \<lparr>dv_component = name, dv_type = t,
     dv_description = d, dv_suggestion = s, dv_severity = sev\<rparr>"
  by (auto simp: violation_if_def)

section \<open>The kind of a class\<close>

definition is_domain_text :: "string \<Rightarrow> bool" where
  "is_domain_text content =
     (js_includes content ''@marcusprado02/kernel''
      \<or> js_includes content (''from '' @ [CHR 0x27] @ ''../kernel'' @ [CHR 0x27])
      \<or> js_includes content (''from '' @ [CHR 0x27] @ ''./kernel'' @ [CHR 0x27]))"

definition inherited_type :: "string option \<Rightarrow> ddd_type option" where
  "inherited_type extends_class =
     (case extends_class of
        None \<Rightarrow> None
      | Some e \<Rightarrow>
          if e = ''Entity'' then Some Entity
          else if e = ''ValueObject'' then Some ValueObject
          else if e = ''AggregateRoot'' then Some AggregateRoot
          else if e = ''DomainEvent'' then Some DomainEvent
          else if e = ''Repository'' then Some Repository
          else None)"

definition determine_ddd_type :: "string \<Rightarrow> string option \<Rightarrow> string \<Rightarrow> ddd_type option" where
  "determine_ddd_type name extends_class content =
     (let u = to_upper name in
      case inherited_type extends_class of
        Some t \<Rightarrow> Some t
      | None \<Rightarrow>
          if js_includes u ''REPOSITORY'' then Some Repository
          else if js_includes u ''FACTORY'' then Some Factory
          else if js_includes u ''SPECIFICATION'' then Some Specification
          else if js_includes u ''SERVICE'' \<and> is_domain_text content then Some DomainService
          else if js_includes content ''implements DomainEvent'' then Some DomainEvent
          else None)"

section \<open>The body of a class\<close>

text \<open>The loop of \<open>extractClassBody\<close> from the text at \<open>i\<close>; what it has read is collected.\<close>

fun body_loop :: "int \<Rightarrow> string \<Rightarrow> string" where
  "body_loop depth [] = []"
| "body_loop depth (c # cs) =
     (if c = CHR ''{'' then c # body_loop (depth + 1) cs
      else if c = CHR ''}'' then (if depth - 1 = 0 then [c] else c # body_loop (depth - 1) cs)
      else c # body_loop depth cs)"

definition extract_class_body :: "string \<Rightarrow> nat \<Rightarrow> string" where
  "extract_class_body content open_brace_pos = body_loop 0 (drop open_brace_pos content)"

section \<open>The rules\<close>

text \<open>
  \<open>/(?:readonly\s+)?id\s*[:=]/i\<close>, \<open>/getId\s*\(\s*\)/i\<close>,
  \<open>/\s+(public|private|protected)?\s*\w+\s*\(/\<close> and \<open>/\s+(get|set)\s+\w+/\<close>.
\<close>

definition id_property_rx :: rx where
  "id_property_rx = seq_rx
     [opt_rx (seq_rx [lit_i ''readonly'', plus_rx space_rx]), lit_i ''id'', Rep space_rx, one_of '':='']"

definition get_id_rx :: rx where
  "get_id_rx = seq_rx [lit_i ''getId'', Rep space_rx, lit ''('', Rep space_rx, lit '')'']"

definition method_rx :: rx where
  "method_rx = seq_rx
     [plus_rx space_rx, opt_rx (Group 1 (alts [lit ''public'', lit ''private'', lit ''protected''])),
      Rep space_rx, plus_rx word_rx, Rep space_rx, lit ''('']"

definition accessor_rx :: rx where
  "accessor_rx = seq_rx
     [plus_rx space_rx, Group 1 (alts [lit ''get'', lit ''set'']), plus_rx space_rx, plus_rx word_rx]"

definition has_identity :: "string \<Rightarrow> bool" where
  "has_identity content = (rx_test id_property_rx content \<or> rx_test get_id_rx content)"

definition is_anemic :: "string \<Rightarrow> bool" where
  "is_anemic content =
     (let methods = length (rx_all method_rx content);
          accessors = length (rx_all accessor_rx content)
      in methods > 0 \<and> 5 * accessors > 4 * methods)"

definition validate_entity :: "string \<Rightarrow> string \<Rightarrow> ddd_violation list" where
  "validate_entity name content =
     violation_if (\<not> has_identity content) name EntityWithoutIdentity
       ''Entity must have identity (id property)''
       ''Add readonly id property with appropriate Identifier type'' High
     @ violation_if (is_anemic content) name AnthropicModelPattern
       ''Entity appears to be anemic (mostly getters/setters)''
       ''Add business logic methods to make entity rich'' Medium"

text \<open>\<open>/\s+set\s+\w+/i\<close> and \<open>/(?:public|private)\s+(?!readonly)\w+\s*[:=]/i\<close>.\<close>

definition setter_rx :: rx where
  "setter_rx = seq_rx [plus_rx space_rx, lit_i ''set'', plus_rx space_rx, plus_rx word_rx]"

definition mutable_rx :: rx where
  "mutable_rx = seq_rx
     [alts [lit_i ''public'', lit_i ''private''], plus_rx space_rx, Not_Ahead (lit_i ''readonly''),
      plus_rx word_rx, Rep space_rx, one_of '':='']"

definition validate_value_object :: "string \<Rightarrow> string \<Rightarrow> ddd_violation list" where
  "validate_value_object name content =
     violation_if (rx_test setter_rx content \<or> rx_test mutable_rx content) name ValueObjectMutable
       ''ValueObject should be immutable'' ''Make all properties readonly and remove setters'' High"

definition validate_aggregate_root :: "string \<Rightarrow> string \<Rightarrow> ddd_violation list" where
  "validate_aggregate_root name content =
     violation_if (\<not> (js_includes content ''DomainEvent'' \<or> js_includes content ''recordEvent''
         \<or> js_includes content ''getUncommittedEvents'')) name AggregateRootViolation
       ''AggregateRoot should handle domain events''
       ''Add domain event recording and retrieval capabilities'' Medium"

text \<open>\<open>/(?:occurredAt|timestamp|when)\s*[:=]/i\<close>.\<close>

definition timestamp_rx :: rx where
  "timestamp_rx = seq_rx
     [alts [lit_i ''occurredAt'', lit_i ''timestamp'', lit_i ''when''], Rep space_rx, one_of '':='']"

definition validate_domain_event :: "string \<Rightarrow> string \<Rightarrow> bool \<Rightarrow> ddd_violation list" where
  "validate_domain_event name content inherits_timestamp =
     violation_if (\<not> (inherits_timestamp \<or> rx_test timestamp_rx content)) name
       DomainLogicInInfrastructure ''DomainEvent should have occurrence timestamp''
       ''Add occurredAt or timestamp property'' Low"

text \<open>\<open>/\.(http|database|file|email)/i\<close>.\<close>

definition concern_rx :: rx where
  "concern_rx = seq_rx [lit ''.'', Group 1 (alts [lit_i ''http'', lit_i ''database'', lit_i ''file'', lit_i ''email''])]"

definition validate_domain_service :: "string \<Rightarrow> string \<Rightarrow> ddd_violation list" where
  "validate_domain_service name content =
     violation_if (rx_test concern_rx content \<or> js_includes content ''fetch(''
         \<or> js_includes content ''axios'') name DomainLogicInInfrastructure
       ''DomainService should not contain infrastructure concerns''
       ''Move infrastructure logic to application or infrastructure layer'' High"

definition in_domain_layer :: "string \<Rightarrow> bool" where
  "in_domain_layer file_path = (js_includes file_path ''kernel'' \<or> js_includes file_path ''domain'')"

definition validate_repository :: "string \<Rightarrow> string \<Rightarrow> string \<Rightarrow> ddd_violation list" where
  "validate_repository name content file_path =
     (let is_interface = (js_includes content ''interface '' \<or> js_includes content ''abstract class'')
      in violation_if (\<not> is_interface \<and> in_domain_layer file_path) name RepositoryInDomain
           ''Repository implementation should not be in domain layer''
           ''Move concrete repository to infrastructure layer'' High
         @ violation_if (is_interface \<and> \<not> in_domain_layer file_path) name RepositoryInDomain
           ''Repository interface should be in domain layer''
           ''Move repository interface to domain layer'' Medium)"

definition validate_factory :: "string \<Rightarrow> string \<Rightarrow> ddd_violation list" where
  "validate_factory name content =
     violation_if (\<not> (js_includes content ''new ''
         \<and> (js_includes content ''return '' \<or> js_includes content ''Result.ok''))) name
       AnthropicModelPattern ''Factory should create and return domain objects''
       ''Add object creation logic with proper validation'' Low"

definition validate_specification :: "string \<Rightarrow> string \<Rightarrow> ddd_violation list" where
  "validate_specification name content =
     violation_if (\<not> (js_includes content ''isSatisfiedBy'' \<or> js_includes content ''and(''
         \<or> js_includes content ''or('' \<or> js_includes content ''not('')) name
       AnthropicModelPattern ''Specification should implement business rule evaluation''
       ''Add isSatisfiedBy method and composition operators'' Medium"

text \<open>\<open>/import.*from\s+['"](?!@marcusprado02\/kernel)/\<close>.\<close>

definition foreign_import_rx :: rx where
  "foreign_import_rx = seq_rx
     [lit ''import'', Rep any_rx, lit ''from'', plus_rx space_rx, quote_rx,
      Not_Ahead (lit ''@marcusprado02/kernel'')]"

definition validate_infrastructure :: "string \<Rightarrow> string \<Rightarrow> string \<Rightarrow> ddd_violation list" where
  "validate_infrastructure name content file_path =
     violation_if (in_domain_layer file_path
         \<and> (js_includes content ''axios'' \<or> js_includes content ''express''
            \<or> js_includes content ''mongoose'' \<or> js_includes content ''typeorm''
            \<or> js_includes content ''prisma'' \<or> rx_test foreign_import_rx content))
       name InfrastructureDependency ''Domain layer component has infrastructure dependencies''
       ''Remove infrastructure dependencies or move to appropriate layer'' Critical"

definition validate_ddd_component ::
    "string \<Rightarrow> ddd_type \<Rightarrow> string \<Rightarrow> string \<Rightarrow> string option \<Rightarrow> ddd_violation list" where
  "validate_ddd_component name t content file_path extends_class =
     (case t of
        Entity \<Rightarrow> validate_entity name content
      | ValueObject \<Rightarrow> validate_value_object name content
      | AggregateRoot \<Rightarrow> validate_aggregate_root name content
      | DomainEvent \<Rightarrow> validate_domain_event name content (extends_class = Some ''DomainEvent'')
      | DomainService \<Rightarrow> validate_domain_service name content
      | Repository \<Rightarrow> validate_repository name content file_path
      | Factory \<Rightarrow> validate_factory name content
      | Specification \<Rightarrow> validate_specification name content)
     @ validate_infrastructure name content file_path"

section \<open>The scan\<close>

definition extract_ddd_components :: "string \<Rightarrow> string \<Rightarrow> ddd_component list" where
  "extract_ddd_components file_path content =
     concat (map (\<lambda>st.
       let class_name = captured 1 st; extends_class = jget (fst st) 2
       in case determine_ddd_type class_name extends_class content of
            None \<Rightarrow> []
          | Some t \<Rightarrow>
              [\<lparr>dc_name = class_name, dc_type = t, dc_file_path = file_path,
                dc_violations = validate_ddd_component class_name t
                  (extract_class_body content (length content - length (snd st) - 1))
                  file_path extends_class\<rparr>])
       (rx_all (class_rx (Group 2 (plus_rx word_rx))) content))"

definition analyze_ddd_file :: "string \<Rightarrow> string option \<Rightarrow> ddd_components \<Rightarrow> ddd_components" where
  "analyze_ddd_file file_path text comps =
     (case text of
        None \<Rightarrow> comps
      | Some content \<Rightarrow>
          foldl (\<lambda>cs c. jset (dc_name c) c cs) comps (extract_ddd_components file_path content))"

fun scan_directory :: "string \<Rightarrow> fs_entry list \<Rightarrow> ddd_components \<Rightarrow> ddd_components" where
  "scan_directory dir [] comps = comps"
| "scan_directory dir (DirEntry name entries # rest) comps =
     scan_directory dir rest (scan_directory (dir @ ''/'' @ name) entries comps)"
| "scan_directory dir (FileEntry name text # rest) comps =
     scan_directory dir rest
       (if ends_with name ''.ts'' then analyze_ddd_file (dir @ ''/'' @ name) text comps else comps)"

definition load_ddd_packages ::
    "(string \<times> fs_entry list option) list \<Rightarrow> ddd_components \<Rightarrow> ddd_components" where
  "load_ddd_packages pkgs comps =
     foldl (\<lambda>cs (path, src). case src of None \<Rightarrow> cs
       | Some entries \<Rightarrow> scan_directory (path @ ''/src'') entries cs) comps pkgs"

definition validate_ddd_rules :: "ddd_components \<Rightarrow> ddd_violation list" where
  "validate_ddd_rules comps = concat (map dc_violations (jvalues comps))"

definition analyze_ddd :: "(string \<times> fs_entry list option) list option \<Rightarrow> ddd_components
    \<Rightarrow> ddd_violation list \<times> ddd_components" where
  "analyze_ddd pkgs comps =
     (let cs = (case pkgs of None \<Rightarrow> comps | Some ps \<Rightarrow> load_ddd_packages ps comps)
      in (validate_ddd_rules cs, cs))"

section \<open>The cut of the body\<close>

inductive balanced :: "string \<Rightarrow> bool" where
  "balanced []"
| "c \<noteq> CHR ''{'' \<Longrightarrow> c \<noteq> CHR ''}'' \<Longrightarrow> balanced s \<Longrightarrow> balanced (c # s)"
| "balanced s \<Longrightarrow> balanced t \<Longrightarrow> balanced (CHR ''{'' # s @ CHR ''}'' # t)"

lemma body_loop_balanced:
  "balanced s \<Longrightarrow> 0 < depth \<Longrightarrow> body_loop depth (s @ rest) = s @ body_loop depth rest"
  by (induction arbitrary: depth rest rule: balanced.induct) auto

text \<open>
  The body of a class is the text between its brace and the one that matches it, both included,
  when the braces between them match; whatever follows the class is not part of it.
\<close>

theorem class_body_is_cut:
  assumes "balanced inner"
  shows "extract_class_body (header @ ''{'' @ inner @ ''}'' @ rest) (length header)
    = ''{'' @ inner @ ''}''"
  using body_loop_balanced [OF assms, of 1 "''}'' @ rest"] by (simp add: extract_class_body_def)

theorem class_body_is_cut_witness:
  "extract_class_body (''class A '' @ ''{'' @ ''x {} '' @ ''}'' @ ''class B {}'') (length ''class A '')
    = ''{'' @ ''x {} '' @ ''}''"
proof (rule class_body_is_cut)
  have "balanced (CHR ''{'' # [] @ CHR ''}'' # '' '')"
    by (intro balanced.intros) auto
  then show "balanced ''x {} ''" by (auto intro!: balanced.intros)
qed

lemma body_loop_prefix: "\<exists>rest. s = body_loop depth s @ rest"
  by (induction depth s rule: body_loop.induct) auto

section \<open>What the report holds\<close>

fun ddd_scanned :: "string \<Rightarrow> fs_entry list \<Rightarrow> ddd_component list" where
  "ddd_scanned dir [] = []"
| "ddd_scanned dir (DirEntry name entries # rest) =
     ddd_scanned (dir @ ''/'' @ name) entries @ ddd_scanned dir rest"
| "ddd_scanned dir (FileEntry name text # rest) =
     (case text of
        Some content \<Rightarrow> if ends_with name ''.ts'' then extract_ddd_components (dir @ ''/'' @ name) content
                        else []
      | None \<Rightarrow> []) @ ddd_scanned dir rest"

definition all_ddd_scanned :: "(string \<times> fs_entry list option) list \<Rightarrow> ddd_component list" where
  "all_ddd_scanned pkgs =
     concat (map (\<lambda>(path, src). case src of None \<Rightarrow> [] | Some es \<Rightarrow> ddd_scanned (path @ ''/src'') es) pkgs)"

definition store_ddd :: "ddd_components \<Rightarrow> ddd_component list \<Rightarrow> ddd_components" where
  "store_ddd comps found = foldl (\<lambda>cs c. jset (dc_name c) c cs) comps found"

lemma store_ddd_append: "store_ddd comps (xs @ ys) = store_ddd (store_ddd comps xs) ys"
  by (simp add: store_ddd_def)

lemma scan_directory_stores: "scan_directory dir entries comps = store_ddd comps (ddd_scanned dir entries)"
  by (induction dir entries comps rule: scan_directory.induct)
    (auto simp: store_ddd_append analyze_ddd_file_def store_ddd_def split: option.splits)

lemma load_ddd_stores: "load_ddd_packages pkgs comps = store_ddd comps (all_ddd_scanned pkgs)"
  by (induction pkgs arbitrary: comps)
    (auto simp: load_ddd_packages_def all_ddd_scanned_def scan_directory_stores store_ddd_append
      store_ddd_def split: option.splits)

text \<open>The last declaration of a name is the one that is kept.\<close>

lemma store_ddd_last:
  "jget (store_ddd comps found) name =
     (case List.find (\<lambda>c. dc_name c = name) (rev found) of Some c \<Rightarrow> Some c | None \<Rightarrow> jget comps name)"
proof (induction found rule: rev_induct)
  case (snoc c found)
  have "jget (store_ddd comps (found @ [c])) name
      = (if name = dc_name c then Some c else jget (store_ddd comps found) name)"
    by (simp add: store_ddd_def)
  with snoc show ?case by simp
qed (simp add: store_ddd_def)

lemma jwf_store_ddd: "jwf comps \<Longrightarrow> jwf (store_ddd comps found)"
  by (induction found arbitrary: comps) (auto simp: store_ddd_def intro: jwf_jset)

text \<open>
  A violation is reported exactly when it is one of the last class of its name that the scan of
  the source tree finds.
\<close>

theorem ddd_report_is_last_declarations:
  "v \<in> set (fst (analyze_ddd (Some pkgs) [])) \<longleftrightarrow>
     (\<exists>c name. List.find (\<lambda>c. dc_name c = name) (rev (all_ddd_scanned pkgs)) = Some c
        \<and> v \<in> set (dc_violations c))"
proof -
  define cs where "cs = store_ddd [] (all_ddd_scanned pkgs)"
  have "jwf cs" unfolding cs_def by (rule jwf_store_ddd) simp
  then have kept: "c \<in> set (jvalues cs) \<longleftrightarrow>
      (\<exists>name. List.find (\<lambda>c. dc_name c = name) (rev (all_ddd_scanned pkgs)) = Some c)" for c
    unfolding jvalues_entries [OF \<open>jwf cs\<close>] unfolding cs_def store_ddd_last
    by (auto split: option.splits)
  have "v \<in> set (fst (analyze_ddd (Some pkgs) [])) \<longleftrightarrow> (\<exists>c \<in> set (jvalues cs). v \<in> set (dc_violations c))"
    by (auto simp: analyze_ddd_def Let_def load_ddd_stores validate_ddd_rules_def cs_def)
  with kept show ?thesis by blast
qed

section \<open>What the rules see\<close>

lemma opens_value_iff:
  "rx_lang (seq_rx [Rep space_rx, one_of cs]) w \<longleftrightarrow>
     (\<exists>ws c. w = ws @ [c] \<and> list_all is_js_space ws \<and> c \<in> set cs)"
  by (auto simp: list_all_iff)

lemma id_property_words:
  "rx_lang (seq_rx [lit_i ''id'', Rep space_rx, one_of '':='']) p \<longleftrightarrow>
     (\<exists>w ws c. p = w @ ws @ [c] \<and> to_upper w = ''ID'' \<and> list_all is_js_space ws
        \<and> (c = CHR '':'' \<or> c = CHR ''=''))"
proof -
  have up: "to_upper ''id'' = ''ID''" by code_simp
  have "rx_lang (seq_rx [lit_i ''id'', Rep space_rx, one_of '':='']) p \<longleftrightarrow>
      (\<exists>u v. p = u @ v \<and> to_upper u = ''ID'' \<and> rx_lang (seq_rx [Rep space_rx, one_of '':='']) v)"
    by (subst rx_lang_forms(4), subst lit_i_lang, subst up) (rule refl)
  also have "\<dots> \<longleftrightarrow> (\<exists>w ws c. p = w @ ws @ [c] \<and> to_upper w = ''ID'' \<and> list_all is_js_space ws
      \<and> (c = CHR '':'' \<or> c = CHR ''=''))"
    unfolding opens_value_iff list.set by blast
  finally show ?thesis .
qed

lemma id_property_iff:
  "rx_test id_property_rx s \<longleftrightarrow>
     (\<exists>a w ws c b. s = a @ w @ ws @ c # b \<and> to_upper w = ''ID'' \<and> list_all is_js_space ws
        \<and> (c = CHR '':'' \<or> c = CHR ''=''))"
proof -
  have plain: "rx_plain (seq_rx [lit_i ''id'', Rep space_rx, one_of '':=''])" by simp
  have "rx_test id_property_rx s = rx_test (seq_rx [lit_i ''id'', Rep space_rx, one_of '':='']) s"
    unfolding id_property_rx_def seq_rx_def foldr.simps o_def id_def
    by (rule rx_test_opt_front) simp_all
  also have "\<dots> \<longleftrightarrow> (\<exists>a p b. s = a @ p @ b \<and> (\<exists>w ws c. p = w @ ws @ [c] \<and> to_upper w = ''ID''
      \<and> list_all is_js_space ws \<and> (c = CHR '':'' \<or> c = CHR ''='')))"
    by (simp only: rx_test_iff [OF plain] id_property_words)
  also have "\<dots> \<longleftrightarrow> (\<exists>a w ws c b. s = a @ w @ ws @ c # b \<and> to_upper w = ''ID''
      \<and> list_all is_js_space ws \<and> (c = CHR '':'' \<or> c = CHR ''=''))"
    by (simp add: ex_simps(1,2) [symmetric] del: ex_simps) blast
  finally show ?thesis .
qed

text \<open>
  An entity has an identity as soon as some name in its body ends in \<open>id\<close>, in any case, before a
  colon or an equals sign, or \<open>getId()\<close> occurs: \<open>paid: boolean\<close> is an identity.
\<close>

theorem identity_is_a_suffix:
  "has_identity s \<longleftrightarrow>
     (\<exists>a w ws c b. s = a @ w @ ws @ c # b \<and> to_upper w = ''ID'' \<and> list_all is_js_space ws
        \<and> (c = CHR '':'' \<or> c = CHR ''=''))
     \<or> rx_test get_id_rx s"
  by (simp add: has_identity_def id_property_iff)

lemma entity_examples:
  "has_identity ''{ paid: boolean }''" "\<not> has_identity ''{ name: string }''"
  by code_simp+

text \<open>
  A value object is never reported when \<open>public\<close>, \<open>private\<close> and \<open>set\<close> do not occur in its body,
  in any case: plain and protected fields count as immutable.
\<close>

theorem value_object_needs_keyword:
  assumes "\<not> js_includes (to_upper content) ''PUBLIC''" and "\<not> js_includes (to_upper content) ''PRIVATE''"
    and "\<not> js_includes (to_upper content) ''SET''"
  shows "validate_value_object name content = []"
proof -
  have up: "to_upper ''set'' = ''SET''" "to_upper ''public'' = ''PUBLIC''" "to_upper ''private'' = ''PRIVATE''"
    by code_simp+
  have "\<not> rx_test setter_rx content"
  proof
    assume "rx_test setter_rx content"
    then have "rx_test (seq_rx [lit_i ''set'', plus_rx space_rx, plus_rx word_rx]) content"
      unfolding setter_rx_def seq_rx_def foldr.simps o_apply by (rule rx_test_seq_snd [rotated]) simp
    then have "rx_test (lit_i ''set'') content"
      unfolding seq_rx_def foldr.simps o_apply by (rule rx_test_seq_fst)
    with assms(3) show False by (simp only: rx_test_lit_i up)
  qed
  moreover have "\<not> rx_test mutable_rx content"
  proof
    assume "rx_test mutable_rx content"
    then have "rx_test (alts [lit_i ''public'', lit_i ''private'']) content"
      unfolding mutable_rx_def seq_rx_def foldr.simps o_apply by (rule rx_test_seq_fst)
    then have "rx_test (lit_i ''public'') content \<or> rx_test (lit_i ''private'') content"
      by (simp only: alts.simps rx_test_alt)
    with assms(1,2) show False by (simp only: rx_test_lit_i up simp_thms)
  qed
  ultimately show ?thesis by (simp add: validate_value_object_def violation_if_def)
qed

theorem value_object_needs_keyword_witness:
  "validate_value_object ''Money'' ''{ protected amount: number }'' = []"
  by (rule value_object_needs_keyword) code_simp+

lemma class_rx_snoc: "\<exists>rs. class_rx base = seq_rx (rs @ [lit ''{''])"
  unfolding class_rx_def
  by (rule exI [of _ "[keyword_opt ''export'', keyword_opt ''abstract'', lit ''class'', plus_rx space_rx,
      Group 1 (plus_rx word_rx),
      opt_rx (seq_rx [plus_rx space_rx, lit ''extends'', plus_rx space_rx, base]),
      opt_rx (seq_rx [plus_rx space_rx, lit ''implements'', plus_rx space_rx, type_list_rx]),
      Rep space_rx]"]) (simp only: append.simps)

lemma class_match_ends_with_brace:
  assumes "st \<in> set (rx_all (class_rx (Group 2 (plus_rx word_rx))) content)"
  shows "\<exists>header. content = header @ ''{'' @ snd st"
proof -
  have "rx_plain (class_rx (Group 2 (plus_rx word_rx)))"
    by (simp add: class_rx_def keyword_opt_def type_list_rx_def)
  from rx_all_words [OF this assms] obtain x p where p: "content = x @ p @ snd st"
    "rx_lang (class_rx (Group 2 (plus_rx word_rx))) p" by blast
  from class_rx_snoc obtain rs where "class_rx (Group 2 (plus_rx word_rx)) = seq_rx (rs @ [lit ''{''])"
    by blast
  with p(2) seq_rx_snoc [of rs "lit ''{''" p] obtain u v where "p = u @ v" "rx_lang (lit ''{'') v"
    by auto
  then have "p = u @ ''{''" unfolding lit_lang by simp
  with p(1) show ?thesis by auto
qed

text \<open>
  An infrastructure dependency is reported only for what the text says after an opening brace: the
  import statements in front of a class are never looked at.
\<close>

theorem infrastructure_rule_reads_body:
  assumes "c \<in> set (extract_ddd_components path content)"
    and "v \<in> set (dc_violations c)" and "dv_type v = InfrastructureDependency"
  shows "in_domain_layer path \<and>
    (\<exists>header body rest. content = header @ body @ rest \<and> take 1 body = ''{''
       \<and> (js_includes body ''axios'' \<or> js_includes body ''express'' \<or> js_includes body ''mongoose''
          \<or> js_includes body ''typeorm'' \<or> js_includes body ''prisma'' \<or> rx_test foreign_import_rx body))"
proof -
  from assms(1) obtain st t where st: "st \<in> set (rx_all (class_rx (Group 2 (plus_rx word_rx))) content)"
    and c: "dc_violations c = validate_ddd_component (captured 1 st) t
        (extract_class_body content (length content - length (snd st) - 1)) path (jget (fst st) 2)"
    by (auto simp: extract_ddd_components_def Let_def split: option.splits)
  from class_match_ends_with_brace [OF st] obtain header where h: "content = header @ ''{'' @ snd st"
    by blast
  define body where "body = extract_class_body content (length content - length (snd st) - 1)"
  have body: "body = body_loop 0 (''{'' @ snd st)" by (simp add: body_def extract_class_body_def h)
  obtain rest where rest: "''{'' @ snd st = body @ rest"
    using body_loop_prefix [of "''{'' @ snd st" 0] body by auto
  from assms(2,3) c have "v \<in> set (validate_infrastructure (captured 1 st) body path)"
    by (cases t) (auto simp: validate_ddd_component_def validate_entity_def validate_value_object_def
        validate_aggregate_root_def validate_domain_event_def validate_domain_service_def
        validate_repository_def validate_factory_def validate_specification_def body_def Let_def)
  moreover have "take 1 body = ''{''" by (simp add: body)
  ultimately show ?thesis using h rest unfolding validate_infrastructure_def set_violation_if by blast
qed

definition importing_entity :: string where
  "importing_entity = ''import axios from '' @ [CHR 0x27] @ ''axios'' @ [CHR 0x27]
     @ ''; class Order extends Entity { id: string }''"

definition naming_entity :: string where
  "naming_entity = ''class Order extends Entity { id: string; axios }''"

theorem infrastructure_rule_reads_body_witness:
  "in_domain_layer ''domain'' \<and>
    (\<exists>header body rest. naming_entity = header @ body @ rest \<and> take 1 body = ''{''
       \<and> (js_includes body ''axios'' \<or> js_includes body ''express'' \<or> js_includes body ''mongoose''
          \<or> js_includes body ''typeorm'' \<or> js_includes body ''prisma'' \<or> rx_test foreign_import_rx body))"
proof (rule infrastructure_rule_reads_body)
  show "hd (extract_ddd_components ''domain'' naming_entity)
      \<in> set (extract_ddd_components ''domain'' naming_entity)"
    by code_simp
  show "hd (dc_violations (hd (extract_ddd_components ''domain'' naming_entity)))
      \<in> set (dc_violations (hd (extract_ddd_components ''domain'' naming_entity)))"
    by code_simp
  show "dv_type (hd (dc_violations (hd (extract_ddd_components ''domain'' naming_entity))))
      = InfrastructureDependency"
    by code_simp
qed

text \<open>
  A domain entity that imports an HTTP client passes, and an abstract repository in the domain
  layer is reported as an implementation, since the words \<open>abstract class\<close> stand before its body.
\<close>

theorem ddd_rules_miss_headers:
  "fst (analyze_ddd (Some [(''domain'', Some [FileEntry ''order.ts'' (Some importing_entity)])]) []) = []
   \<and> map dv_description (fst (analyze_ddd (Some [(''domain'', Some [FileEntry ''r.ts''
        (Some ''abstract class OrderRepository { abstract save(): void }'')])]) []))
     = [''Repository implementation should not be in domain layer'']"
  by code_simp

end
