(* ===== verification/Json.thy ===== *)
theory Json
  imports Prelude
begin

text \<open>
  The JSON texts that \<open>JSON.stringify\<close> writes: strings with their escapes and arrays.  A text can be
  cut into its tokens in one way only, so a string is determined by what it is written as.
\<close>

section \<open>JSON texts\<close>

text \<open>
  \<open>JSON.stringify\<close> of a string: quotes and backslashes get a backslash, control characters their
  short form or \<open>\u00\<close> and two hexadecimal digits.
\<close>

definition hex_digit :: "nat \<Rightarrow> char" where
  "hex_digit d = char_of (if d < 10 then 48 + d else 87 + d)"

definition json_char :: "char \<Rightarrow> string" where
  "json_char c =
     (let n = (of_char c :: nat) in
      if n = 34 then [CHR 0x5C, CHR 0x22]
      else if n = 92 then [CHR 0x5C, CHR 0x5C]
      else if n = 8 then CHR 0x5C # ''b'' else if n = 9 then CHR 0x5C # ''t''
      else if n = 10 then CHR 0x5C # ''n'' else if n = 12 then CHR 0x5C # ''f''
      else if n = 13 then CHR 0x5C # ''r''
      else if n < 32 then CHR 0x5C # ''u00'' @ [hex_digit (n div 16), hex_digit (n mod 16)]
      else [c])"

definition json_chars :: "string \<Rightarrow> string" where
  "json_chars s = concat (map json_char s)"

definition json_string :: "string \<Rightarrow> string" where
  "json_string s = CHR 0x22 # json_chars s @ [CHR 0x22]"

fun json_elements :: "string list \<Rightarrow> string" where
  "json_elements [] = []"
| "json_elements [x] = x"
| "json_elements (x # xs) = x @ '','' @ json_elements xs"

definition json_array :: "string list \<Rightarrow> string" where
  "json_array xs = ''['' @ json_elements xs @ '']''"

lemma of_char_hex_digit: "d < 16 \<Longrightarrow> (of_char (hex_digit d) :: nat) = (if d < 10 then 48 + d else 87 + d)"
  by (simp add: hex_digit_def)

lemma hex_digit_safe:
  assumes "d < 16"
  shows "hex_digit d \<notin> {CHR 0x22, CHR 0x5C, CHR '':''}"
proof
  assume "hex_digit d \<in> {CHR 0x22, CHR 0x5C, CHR '':''}"
  then have "(of_char (hex_digit d) :: nat) \<in> {34, 92, 58}" by auto
  with of_char_hex_digit [OF assms] assms show False by (auto split: if_splits)
qed

text \<open>The number of a hexadecimal digit.\<close>

definition hex_value :: "char \<Rightarrow> nat" where
  "hex_value c = (let n = of_char c in if n < 58 then n - 48 else n - 87)"

text \<open>The character a token stands for.\<close>

fun token_char :: "string \<Rightarrow> char" where
  "token_char [c] = c"
| "token_char [a, d] =
     (if d = CHR ''b'' then CHR 0x08 else if d = CHR ''t'' then CHR 0x09 else if d = CHR ''n'' then CHR 0x0A
      else if d = CHR ''f'' then CHR 0x0C else if d = CHR ''r'' then CHR 0x0D else d)"
| "token_char [a, b, c, d, e, f] = char_of (16 * hex_value e + hex_value f)"
| "token_char s = CHR 0x00"

lemma short_codes:
  "CHR 0x08 = char_of (8::nat)" "CHR 0x09 = char_of (9::nat)" "CHR 0x0A = char_of (10::nat)"
  "CHR 0x0C = char_of (12::nat)" "CHR 0x0D = char_of (13::nat)" "CHR 0x22 = char_of (34::nat)"
  "CHR 0x5C = char_of (92::nat)"
  by code_simp+

lemma char_from_code: "(of_char c :: nat) = n \<Longrightarrow> c = char_of n"
  by (metis char_of_char)

text \<open>A token is a character as it is, a backslash and one character, or a backslash and \<open>u00\<close>.\<close>

lemma json_char_token:
  obtains (as_is) "json_char c = [c]" "c \<noteq> CHR 0x22" "c \<noteq> CHR 0x5C"
  | (short) d where "json_char c = [CHR 0x5C, d]" "d \<noteq> CHR ''u''" "d \<noteq> CHR '':''"
      "token_char [CHR 0x5C, d] = c"
  | (long) e f where "json_char c = [CHR 0x5C, CHR ''u'', CHR ''0'', CHR ''0'', e, f]"
      "e \<notin> {CHR 0x22, CHR 0x5C, CHR '':''}" "f \<notin> {CHR 0x22, CHR 0x5C, CHR '':''}"
      "16 * hex_value e + hex_value f = (of_char c :: nat)"
proof -
  define n where "n = (of_char c :: nat)"
  consider "n \<in> {34, 92, 8, 9, 10, 12, 13}" | "n < 32" "n \<notin> {8, 9, 10, 12, 13}"
    | "32 \<le> n" "n \<noteq> 34" "n \<noteq> 92" by fastforce
  then show thesis
  proof cases
    case 1
    then have "c \<in> {CHR 0x22, CHR 0x5C, CHR 0x08, CHR 0x09, CHR 0x0A, CHR 0x0C, CHR 0x0D}"
      unfolding short_codes n_def by (auto dest: char_from_code)
    then have "json_char c = [CHR 0x5C, last (json_char c)] \<and> last (json_char c) \<noteq> CHR ''u''
        \<and> last (json_char c) \<noteq> CHR '':'' \<and> token_char [CHR 0x5C, last (json_char c)] = c"
      by (elim insertE emptyE) (simp_all add: json_char_def)
    then show thesis by (intro short [of "last (json_char c)"]) blast+
  next
    case 2
    then have "json_char c = CHR 0x5C # ''u00'' @ [hex_digit (n div 16), hex_digit (n mod 16)]"
      by (simp add: json_char_def n_def Let_def)
    moreover have "hex_digit (n div 16) \<notin> {CHR 0x22, CHR 0x5C, CHR '':''}"
      "hex_digit (n mod 16) \<notin> {CHR 0x22, CHR 0x5C, CHR '':''}"
      using 2 hex_digit_safe [of "n div 16"] hex_digit_safe [of "n mod 16"] by simp_all
    moreover have "hex_value (hex_digit (n div 16)) = n div 16" "hex_value (hex_digit (n mod 16)) = n mod 16"
      using 2 by (auto simp: hex_value_def of_char_hex_digit Let_def)
    ultimately show thesis by (intro long [of "hex_digit (n div 16)" "hex_digit (n mod 16)"]) (simp_all add: n_def)
  next
    case 3
    then have "json_char c = [c]" by (simp add: json_char_def n_def Let_def)
    moreover have "c \<noteq> CHR 0x22" "c \<noteq> CHR 0x5C" using 3 by (auto simp: n_def)
    ultimately show thesis by (rule as_is)
  qed
qed

lemma token_char_json: "token_char (json_char c) = c"
proof (cases c rule: json_char_token)
  case (short d)
  then show ?thesis by simp
next
  case (long e f)
  then show ?thesis by simp
qed simp

text \<open>A text is cut into its tokens in one way only.\<close>

lemma token_append:
  assumes "json_char c @ r = json_char d @ s"
  shows "c = d \<and> r = s"
proof -
  have "length (json_char c) = length (json_char d)"
    using assms by (cases c rule: json_char_token; cases d rule: json_char_token) simp_all
  with assms have "json_char c = json_char d" "r = s" by auto
  then show ?thesis by (metis token_char_json)
qed

lemma json_char_not_quote: "json_char c @ r \<noteq> CHR 0x22 # s"
  by (cases c rule: json_char_token) simp_all

lemma json_string_append: "json_string s @ r = json_string t @ q \<Longrightarrow> s = t \<and> r = q"
proof -
  have "json_chars s @ CHR 0x22 # r = json_chars t @ CHR 0x22 # q \<Longrightarrow> s = t \<and> r = q"
  proof (induction s arbitrary: t)
    case Nil
    then show ?case by (cases t) (auto simp: json_chars_def json_char_not_quote [symmetric])
  next
    case (Cons c s)
    show ?case
    proof (cases t)
      case Nil
      with Cons.prems show ?thesis by (simp add: json_chars_def json_char_not_quote)
    next
      case (Cons d t')
      with Cons.prems have "json_char c @ json_chars s @ CHR 0x22 # r = json_char d @ json_chars t' @ CHR 0x22 # q"
        by (simp add: json_chars_def)
      from token_append [OF this] Cons Cons.IH show ?thesis by auto
    qed
  qed
  then show "json_string s @ r = json_string t @ q \<Longrightarrow> s = t \<and> r = q"
    by (simp add: json_string_def)
qed

section \<open>Values\<close>

text \<open>A JSON value; an object is its fields in the order they were first set.\<close>

datatype json =
    JNull
  | JBool bool
  | JNum rat
  | JStr string
  | JArr "json list"
  | JObj "(string \<times> json) list"

definition jfield :: "json \<Rightarrow> string \<Rightarrow> json option" where
  "jfield v k = (case v of JObj fs \<Rightarrow> jget fs k | _ \<Rightarrow> None)"

lemma jfield_obj [simp]: "jfield (JObj fs) k = jget fs k"
  by (simp add: jfield_def)

end
