(* ===== verification/Metrics.thy ===== *)
theory Metrics
  imports Json "HOL-Library.List_Lexorder" "HOL-Library.Char_ord"
begin

text \<open>
  \<open>packages/observability/src/metrics\<close>: the in-memory metrics store (\<open>InMemoryMetrics.ts\<close>), the
  fan-out to several backends (\<open>CompositeMetrics.ts\<close>) and the texts and series sent to Prometheus
  and DataDog (\<open>GrafanaMetricsExporter.ts\<close>, \<open>DataDogMetricsExporter.ts\<close>).

  Values are \<^typ>\<open>rat\<close>.  \<open>localeCompare\<close> is given by a collation key: the argument \<open>rank\<close> of
  \<open>dim_key\<close>.  How a number is printed is the argument \<open>num\<close> of the exporters.  Dimensions are the
  entries of the record in their order.
\<close>

section \<open>Series\<close>

type_synonym dimensions = "(string \<times> string) list"

definition dim_key :: "(string \<Rightarrow> 'o::linorder) \<Rightarrow> dimensions \<Rightarrow> string" where
  "dim_key rank dims =
     json_array (map (\<lambda>(k, v). json_array [json_string k, json_string v]) (sort_key (\<lambda>e. rank (fst e)) dims))"

definition metric_key :: "(string \<Rightarrow> 'o::linorder) \<Rightarrow> string \<Rightarrow> dimensions \<Rightarrow> string" where
  "metric_key rank name dims = name @ ''::'' @ dim_key rank dims"

record value_entry =
  ve_name :: string
  ve_value :: rat
  ve_dimensions :: dimensions

record histogram_entry =
  he_name :: string
  he_values :: "rat list"
  he_dimensions :: dimensions

record metrics =
  counters :: "(string, value_entry) jsmap"
  gauges :: "(string, value_entry) jsmap"
  histograms :: "(string, histogram_entry) jsmap"

definition metrics_new :: metrics where
  "metrics_new = \<lparr>counters = [], gauges = [], histograms = []\<rparr>"

record histogram_snapshot =
  hs_name :: string
  hs_count :: nat
  hs_sum :: rat
  hs_min :: rat
  hs_max :: rat
  hs_avg :: rat
  hs_p50 :: rat
  hs_p95 :: rat
  hs_p99 :: rat
  hs_dimensions :: dimensions

record metrics_snapshot =
  ms_counters :: "value_entry list"
  ms_gauges :: "value_entry list"
  ms_histograms :: "histogram_snapshot list"
  ms_taken_at :: int

definition compute_percentile :: "rat list \<Rightarrow> rat \<Rightarrow> rat" where
  "compute_percentile sorted_values p =
     (if sorted_values = [] then 0
      else let idx = nat (max 0 (\<lceil>of_nat (length sorted_values) * p\<rceil> - 1))
           in if idx < length sorted_values then sorted_values ! idx else 0)"

definition to_histogram_snapshot :: "histogram_entry \<Rightarrow> histogram_snapshot" where
  "to_histogram_snapshot e =
     (let vs = sort (he_values e); n = length vs; s = foldl (+) 0 vs
      in \<lparr>hs_name = he_name e, hs_count = n, hs_sum = s,
          hs_min = (if n = 0 then 0 else vs ! 0), hs_max = (if n = 0 then 0 else vs ! (n - 1)),
          hs_avg = (if n > 0 then s / of_nat n else 0),
          hs_p50 = compute_percentile vs (1/2), hs_p95 = compute_percentile vs (19/20),
          hs_p99 = compute_percentile vs (99/100), hs_dimensions = he_dimensions e\<rparr>)"

definition increment_counter ::
    "(string \<Rightarrow> 'o::linorder) \<Rightarrow> string \<Rightarrow> rat \<Rightarrow> dimensions \<Rightarrow> metrics \<Rightarrow> metrics" where
  "increment_counter rank name v dims m =
     (let key = metric_key rank name dims in
      case jget (counters m) key of
        None \<Rightarrow> m\<lparr>counters := jset key \<lparr>ve_name = name, ve_value = v, ve_dimensions = dims\<rparr> (counters m)\<rparr>
      | Some e \<Rightarrow> m\<lparr>counters := jset key (e\<lparr>ve_value := ve_value e + v\<rparr>) (counters m)\<rparr>)"

definition decrement_counter ::
    "(string \<Rightarrow> 'o::linorder) \<Rightarrow> string \<Rightarrow> rat \<Rightarrow> dimensions \<Rightarrow> metrics \<Rightarrow> metrics" where
  "decrement_counter rank name v dims m = increment_counter rank name (- v) dims m"

definition set_gauge ::
    "(string \<Rightarrow> 'o::linorder) \<Rightarrow> string \<Rightarrow> rat \<Rightarrow> dimensions \<Rightarrow> metrics \<Rightarrow> metrics" where
  "set_gauge rank name v dims m =
     (let key = metric_key rank name dims in
      case jget (gauges m) key of
        None \<Rightarrow> m\<lparr>gauges := jset key \<lparr>ve_name = name, ve_value = v, ve_dimensions = dims\<rparr> (gauges m)\<rparr>
      | Some e \<Rightarrow> m\<lparr>gauges := jset key (e\<lparr>ve_value := v\<rparr>) (gauges m)\<rparr>)"

definition record_histogram ::
    "(string \<Rightarrow> 'o::linorder) \<Rightarrow> string \<Rightarrow> rat \<Rightarrow> dimensions \<Rightarrow> metrics \<Rightarrow> metrics" where
  "record_histogram rank name v dims m =
     (let key = metric_key rank name dims in
      case jget (histograms m) key of
        None \<Rightarrow> m\<lparr>histograms := jset key \<lparr>he_name = name, he_values = [v], he_dimensions = dims\<rparr> (histograms m)\<rparr>
      | Some e \<Rightarrow> m\<lparr>histograms := jset key (e\<lparr>he_values := he_values e @ [v]\<rparr>) (histograms m)\<rparr>)"

definition get_snapshot :: "int \<Rightarrow> metrics \<Rightarrow> metrics_snapshot" where
  "get_snapshot now m =
     \<lparr>ms_counters = jvalues (counters m), ms_gauges = jvalues (gauges m),
      ms_histograms = map to_histogram_snapshot (jvalues (histograms m)), ms_taken_at = now\<rparr>"

definition metrics_reset :: "metrics \<Rightarrow> metrics" where
  "metrics_reset m = \<lparr>counters = [], gauges = [], histograms = []\<rparr>"

text \<open>The calls of the port.\<close>

datatype metric_call =
    Increment string rat dimensions
  | Decrement string rat dimensions
  | Gauge string rat dimensions
  | Histogram string rat dimensions
  | Reset

fun metric_step :: "(string \<Rightarrow> 'o::linorder) \<Rightarrow> metrics \<Rightarrow> metric_call \<Rightarrow> metrics" where
  "metric_step rank m (Increment name v dims) = increment_counter rank name v dims m"
| "metric_step rank m (Decrement name v dims) = decrement_counter rank name v dims m"
| "metric_step rank m (Gauge name v dims) = set_gauge rank name v dims m"
| "metric_step rank m (Histogram name v dims) = record_histogram rank name v dims m"
| "metric_step rank m Reset = metrics_reset m"

section \<open>Fan-out\<close>

text \<open>
  A backend is a port over a world of its own; the fan-out calls every backend in order and answers
  a snapshot with the first.
\<close>

definition composite_step :: "('w \<Rightarrow> metric_call \<Rightarrow> 'w) \<Rightarrow> 'w list \<Rightarrow> metric_call \<Rightarrow> 'w list" where
  "composite_step step backends call = map (\<lambda>w. step w call) backends"

definition composite_snapshot :: "('w \<Rightarrow> metrics_snapshot) \<Rightarrow> int \<Rightarrow> 'w list \<Rightarrow> metrics_snapshot" where
  "composite_snapshot snap now backends =
     (case backends of
        [] \<Rightarrow> \<lparr>ms_counters = [], ms_gauges = [], ms_histograms = [], ms_taken_at = now\<rparr>
      | w # _ \<Rightarrow> snap w)"

section \<open>Exporters\<close>

definition dimensions_to_labels :: "dimensions \<Rightarrow> string" where
  "dimensions_to_labels dims =
     json_elements (map (\<lambda>(k, v). k @ ''='' @ [CHR 0x22] @ v @ [CHR 0x22]) dims)"

definition label_str :: "dimensions \<Rightarrow> string" where
  "label_str dims =
     (let inner = dimensions_to_labels dims in if inner \<noteq> [] then ''{'' @ inner @ ''}'' else [])"

definition newline :: string where "newline = [CHR 0x0A]"

definition build_value_lines :: "(rat \<Rightarrow> string) \<Rightarrow> string \<Rightarrow> value_entry \<Rightarrow> string" where
  "build_value_lines num kind e =
     ''# TYPE '' @ ve_name e @ '' '' @ kind @ newline
       @ ve_name e @ label_str (ve_dimensions e) @ '' '' @ num (ve_value e)"

definition quantile_label_str :: "dimensions \<Rightarrow> string \<Rightarrow> string" where
  "quantile_label_str dims q =
     (let inner = dimensions_to_labels dims;
          quantile = ''quantile='' @ [CHR 0x22] @ q @ [CHR 0x22]
      in if inner \<noteq> [] then ''{'' @ inner @ '','' @ quantile @ ''}'' else ''{'' @ quantile @ ''}'')"

fun join_lines :: "string \<Rightarrow> string list \<Rightarrow> string" where
  "join_lines sep [] = []"
| "join_lines sep [x] = x"
| "join_lines sep (x # xs) = x @ sep @ join_lines sep xs"

definition build_histogram_lines :: "(rat \<Rightarrow> string) \<Rightarrow> histogram_snapshot \<Rightarrow> string" where
  "build_histogram_lines num h =
     (let base = label_str (hs_dimensions h) in
      join_lines newline
        [''# TYPE '' @ hs_name h @ '' summary'',
         hs_name h @ ''_count'' @ base @ '' '' @ num (of_nat (hs_count h)),
         hs_name h @ ''_sum'' @ base @ '' '' @ num (hs_sum h),
         hs_name h @ quantile_label_str (hs_dimensions h) ''0.5'' @ '' '' @ num (hs_p50 h),
         hs_name h @ quantile_label_str (hs_dimensions h) ''0.95'' @ '' '' @ num (hs_p95 h),
         hs_name h @ quantile_label_str (hs_dimensions h) ''0.99'' @ '' '' @ num (hs_p99 h)])"

definition build_prometheus_body :: "(rat \<Rightarrow> string) \<Rightarrow> metrics_snapshot \<Rightarrow> string" where
  "build_prometheus_body num s =
     join_lines (newline @ newline)
       (map (build_value_lines num ''counter'') (ms_counters s)
        @ map (build_value_lines num ''gauge'') (ms_gauges s)
        @ map (build_histogram_lines num) (ms_histograms s))"

text \<open>A push that is answered with an error is wrapped.\<close>

definition export_prometheus :: "(rat \<Rightarrow> string) \<Rightarrow> (string \<Rightarrow> string \<Rightarrow> (js_error, unit) outcome)
    \<Rightarrow> string \<Rightarrow> metrics_snapshot \<Rightarrow> (js_error, unit) outcome" where
  "export_prometheus num push job_name s =
     (case push job_name (build_prometheus_body num s) of
        Inr u \<Rightarrow> Inr ()
      | Inl cause \<Rightarrow> Inl (JsError ''MetricsExportError''
          (''Failed to push metrics to Grafana job '' @ [CHR 0x22] @ job_name @ [CHR 0x22])))"

datatype series_type = CountSeries | GaugeSeries

record datadog_series =
  dd_metric :: string
  dd_type :: series_type
  dd_points :: "(int \<times> rat) list"
  dd_tags :: "string list"

definition dims_to_dog_tags :: "dimensions \<Rightarrow> string list" where
  "dims_to_dog_tags dims = map (\<lambda>(k, v). k @ '':'' @ v) dims"

definition values_to_series :: "series_type \<Rightarrow> value_entry list \<Rightarrow> int \<Rightarrow> datadog_series list" where
  "values_to_series t es ts =
     map (\<lambda>e. \<lparr>dd_metric = ve_name e, dd_type = t, dd_points = [(ts, ve_value e)],
              dd_tags = dims_to_dog_tags (ve_dimensions e)\<rparr>) es"

definition histograms_to_series :: "histogram_snapshot list \<Rightarrow> int \<Rightarrow> datadog_series list" where
  "histograms_to_series hs ts =
     concat (map (\<lambda>h.
       [\<lparr>dd_metric = hs_name h @ ''.count'', dd_type = CountSeries,
         dd_points = [(ts, of_nat (hs_count h))], dd_tags = dims_to_dog_tags (hs_dimensions h)\<rparr>,
        \<lparr>dd_metric = hs_name h @ ''.avg'', dd_type = GaugeSeries,
         dd_points = [(ts, hs_avg h)], dd_tags = dims_to_dog_tags (hs_dimensions h)\<rparr>,
        \<lparr>dd_metric = hs_name h @ ''.p95'', dd_type = GaugeSeries,
         dd_points = [(ts, hs_p95 h)], dd_tags = dims_to_dog_tags (hs_dimensions h)\<rparr>,
        \<lparr>dd_metric = hs_name h @ ''.p99'', dd_type = GaugeSeries,
         dd_points = [(ts, hs_p99 h)], dd_tags = dims_to_dog_tags (hs_dimensions h)\<rparr>]) hs)"

definition build_datadog_series :: "int \<Rightarrow> metrics_snapshot \<Rightarrow> datadog_series list" where
  "build_datadog_series now s =
     (let ts = now div 1000 in
      values_to_series CountSeries (ms_counters s) ts @ values_to_series GaugeSeries (ms_gauges s) ts
        @ histograms_to_series (ms_histograms s) ts)"

section \<open>A key stands for one series\<close>

text \<open>
  Unescaped quotes of a JSON text are counted; a colon of the text stands inside a string, so an
  odd number of quotes follows it.
\<close>

fun quotes :: "string \<Rightarrow> nat" where
  "quotes [] = 0"
| "quotes [c] = (if c = CHR 0x22 then 1 else 0)"
| "quotes (c # d # s) =
     (if c = CHR 0x5C then quotes s else if c = CHR 0x22 then Suc (quotes (d # s)) else quotes (d # s))"

lemma quotes_Cons:
  "c \<noteq> CHR 0x5C \<Longrightarrow> quotes (c # s) = (if c = CHR 0x22 then Suc (quotes s) else quotes s)"
  by (cases s) auto

definition colon_inside :: "string \<Rightarrow> bool" where
  "colon_inside s = (\<forall>u w. s = u @ CHR '':'' # w \<longrightarrow> odd (quotes w))"

lemma colon_inside_Nil [simp]: "colon_inside []"
  by (simp add: colon_inside_def)

lemma colon_inside_Cons: "colon_inside (c # s) \<longleftrightarrow> (c = CHR '':'' \<longrightarrow> odd (quotes s)) \<and> colon_inside s"
proof
  assume l: "colon_inside (c # s)"
  have "c = CHR '':'' \<longrightarrow> odd (quotes s)" using l by (auto simp: colon_inside_def)
  moreover have "colon_inside s" unfolding colon_inside_def
  proof (intro allI impI)
    fix u w
    assume "s = u @ CHR '':'' # w"
    then have "c # s = (c # u) @ CHR '':'' # w" by simp
    with l show "odd (quotes w)" unfolding colon_inside_def by blast
  qed
  ultimately show "(c = CHR '':'' \<longrightarrow> odd (quotes s)) \<and> colon_inside s" by blast
qed (auto simp: colon_inside_def Cons_eq_append_conv)

lemma quotes_token: "quotes (json_char c @ r) = quotes r"
  by (cases c rule: json_char_token) (simp_all add: quotes_Cons)

lemma quotes_chars: "quotes (json_chars s @ r) = quotes r"
  by (induction s) (simp_all add: json_chars_def quotes_token)

lemma quotes_string: "quotes (json_string s @ r) = Suc (Suc (quotes r))"
  by (simp add: json_string_def quotes_Cons quotes_chars)

lemma colon_inside_token: "odd (quotes r) \<Longrightarrow> colon_inside (json_char c @ r) = colon_inside r"
  by (cases c rule: json_char_token) (simp_all add: colon_inside_Cons quotes_Cons)

lemma colon_inside_chars: "odd (quotes r) \<Longrightarrow> colon_inside (json_chars s @ r) = colon_inside r"
  by (induction s) (simp_all add: json_chars_def colon_inside_token quotes_chars [unfolded json_chars_def])

lemma colon_inside_string: "even (quotes r) \<Longrightarrow> colon_inside r \<Longrightarrow> colon_inside (json_string s @ r)"
  by (simp add: json_string_def colon_inside_Cons colon_inside_chars quotes_Cons)

definition json_entry :: "string \<times> string \<Rightarrow> string" where
  "json_entry e = json_array [json_string (fst e), json_string (snd e)]"

lemma dim_key_entries: "dim_key rank dims = json_array (map json_entry (sort_key (\<lambda>e. rank (fst e)) dims))"
  by (simp add: dim_key_def json_entry_def [abs_def] case_prod_unfold)

lemma json_entry_append:
  "json_entry e @ r = ''['' @ json_string (fst e) @ '','' @ json_string (snd e) @ '']'' @ r"
  by (simp add: json_entry_def json_array_def)

lemma entry_append: "json_entry e @ r = json_entry f @ s \<Longrightarrow> e = f \<and> r = s"
  unfolding json_entry_append
  by (auto dest!: json_string_append intro: prod_eqI)

lemma entry_quotes: "quotes (json_entry e @ r) = quotes r + 4"
  by (simp add: json_entry_append quotes_Cons quotes_string)

lemma entry_colon: "even (quotes r) \<Longrightarrow> colon_inside r \<Longrightarrow> colon_inside (json_entry e @ r)"
  by (simp add: json_entry_append colon_inside_Cons colon_inside_string quotes_string quotes_Cons)

lemma elements_append: "json_elements (x # y # xs) @ r = x @ '','' @ json_elements (y # xs) @ r"
  by simp

lemma elements_quotes:
  "even (quotes r) \<Longrightarrow> colon_inside r \<Longrightarrow>
     even (quotes (json_elements (map json_entry es) @ r)) \<and> colon_inside (json_elements (map json_entry es) @ r)"
proof (induction es)
  case (Cons e es)
  then show ?case
    by (cases es) (simp_all add: entry_quotes entry_colon quotes_Cons colon_inside_Cons)
qed simp

lemma elements_inject:
  "json_elements (map json_entry es) @ CHR '']'' # r = json_elements (map json_entry fs) @ CHR '']'' # s
     \<Longrightarrow> es = fs"
proof (induction es arbitrary: fs)
  case Nil
  then show ?case
    by (cases fs rule: list.exhaust [case_product list.exhaust]; cases "tl fs")
      (auto simp: json_entry_append)
next
  case (Cons e es)
  show ?case
  proof (cases fs)
    case Nil
    with Cons.prems show ?thesis by (cases es) (auto simp: json_entry_append)
  next
    case (Cons f fs')
    from Cons.prems have "json_entry e @ (if es = [] then [] else '','' @ json_elements (map json_entry es)) @ CHR '']'' # r
        = json_entry f @ (if fs' = [] then [] else '','' @ json_elements (map json_entry fs')) @ CHR '']'' # s"
      by (cases es; cases fs') (simp_all add: Cons)
    from entry_append [OF this] have "e = f"
      and "(if es = [] then [] else '','' @ json_elements (map json_entry es)) @ CHR '']'' # r
        = (if fs' = [] then [] else '','' @ json_elements (map json_entry fs')) @ CHR '']'' # s" by auto
    with Cons.IH [of fs'] Cons show ?thesis by (auto split: if_splits)
  qed
qed

lemma dim_key_shape:
  "even (quotes (dim_key rank dims))" "colon_inside (dim_key rank dims)" "\<exists>s. dim_key rank dims = CHR ''['' # s"
  using elements_quotes [of "CHR '']'' # []" "sort_key (\<lambda>e. rank (fst e)) dims"]
  by (auto simp: dim_key_entries json_array_def quotes_Cons colon_inside_Cons)

lemma dim_key_inject:
  "dim_key rank d = dim_key rank d' \<Longrightarrow> sort_key (\<lambda>e. rank (fst e)) d = sort_key (\<lambda>e. rank (fst e)) d'"
  unfolding dim_key_entries json_array_def
  using elements_inject [of "sort_key (\<lambda>e. rank (fst e)) d" "[]" "sort_key (\<lambda>e. rank (fst e)) d'" "[]"]
  by simp

lemma name_colons_inject:
  assumes "n @ ''::'' @ dim_key rank d = n' @ ''::'' @ dim_key rank d'" and "length n \<le> length n'"
  shows "n = n' \<and> dim_key rank d = dim_key rank d'"
proof -
  from assms obtain m where m: "n' = n @ m" "''::'' @ dim_key rank d = m @ ''::'' @ dim_key rank d'"
    by (metis append_eq_append_conv_if append_take_drop_id append_eq_conv_conj same_append_eq append.assoc)
  obtain s where s: "dim_key rank d = CHR ''['' # s" using dim_key_shape by blast
  have "m = []"
  proof (rule ccontr)
    assume "m \<noteq> []"
    then obtain c m' where c: "m = c # m'" by (cases m) auto
    show False
    proof (cases m')
      case Nil
      with c m(2) s show False by auto
    next
      case (Cons b m'')
      with c m(2) have eq: "dim_key rank d = m'' @ CHR '':'' # (CHR '':'' # dim_key rank d')" by simp
      then have "odd (quotes (CHR '':'' # dim_key rank d'))"
        using dim_key_shape(2) [of rank d] unfolding colon_inside_def by blast
      with dim_key_shape(1) [of rank d'] show False by (simp add: quotes_Cons)
    qed
  qed
  with m show ?thesis by simp
qed

lemma metric_key_sorted:
  "metric_key rank n d = metric_key rank n' d' \<longleftrightarrow>
     n = n' \<and> sort_key (\<lambda>e. rank (fst e)) d = sort_key (\<lambda>e. rank (fst e)) d'"
proof
  assume "metric_key rank n d = metric_key rank n' d'"
  then have eq: "n @ ''::'' @ dim_key rank d = n' @ ''::'' @ dim_key rank d'" by (simp add: metric_key_def)
  have "n = n' \<and> dim_key rank d = dim_key rank d'"
  proof (cases "length n \<le> length n'")
    case True
    from name_colons_inject [OF eq this] show ?thesis .
  next
    case False
    then show ?thesis using name_colons_inject [OF eq [symmetric]] by auto
  qed
  then show "n = n' \<and> sort_key (\<lambda>e. rank (fst e)) d = sort_key (\<lambda>e. rank (fst e)) d'"
    using dim_key_inject by blast
qed (simp add: metric_key_def dim_key_def)

lemma sort_key_set_eq:
  fixes f :: "'a \<Rightarrow> 'o::linorder"
  assumes "distinct xs" "distinct ys" "set xs = set ys" "inj_on f (set xs)"
  shows "sort_key f xs = sort_key f ys"
  by (rule map_sorted_distinct_set_unique [of f]) (use assms in \<open>auto simp: distinct_map\<close>)

text \<open>
  Two series of the store share an entry exactly when they have the same name and the same
  dimensions, in whatever order the dimensions are given and whatever their names and values are
  made of, provided the collation tells their names apart.
\<close>

theorem series_share_key_iff:
  assumes "inj rank" and "distinct (map fst d)" and "distinct (map fst d')"
  shows "metric_key rank n d = metric_key rank n' d' \<longleftrightarrow> n = n' \<and> set d = set d'"
proof -
  have "sort_key (\<lambda>e. rank (fst e)) d = sort_key (\<lambda>e. rank (fst e)) d' \<longleftrightarrow> set d = set d'"
  proof
    assume "sort_key (\<lambda>e. rank (fst e)) d = sort_key (\<lambda>e. rank (fst e)) d'"
    then show "set d = set d'" by (metis set_sort)
  next
    assume eq: "set d = set d'"
    have "inj_on fst (set d)" using assms(2) by (simp add: distinct_map)
    then have "inj_on (\<lambda>e. rank (fst e)) (set d)"
      using assms(1) by (auto simp: inj_on_def dest: injD)
    with eq assms show "sort_key (\<lambda>e. rank (fst e)) d = sort_key (\<lambda>e. rank (fst e)) d'"
      by (intro sort_key_set_eq) (auto simp: distinct_map)
  qed
  then show ?thesis by (simp add: metric_key_sorted)
qed

theorem series_share_key_iff_witness:
  "metric_key (\<lambda>s. s) ''a'' [(''x'', ''1''), (''y'', ''::[]'')] = metric_key (\<lambda>s. s) ''a'' [(''y'', ''::[]''), (''x'', ''1'')]
   \<longleftrightarrow> ''a'' = ''a'' \<and> set [(''x'', ''1''), (''y'', ''::[]'')] = set [(''y'', ''::[]''), (''x'', ''1'')]"
  by (rule series_share_key_iff) simp_all

section \<open>What the store holds\<close>

definition since_reset :: "metric_call list \<Rightarrow> metric_call list" where
  "since_reset calls = rev (takeWhile (\<lambda>c. c \<noteq> Reset) (rev calls))"

definition counter_deltas :: "(string \<Rightarrow> 'o::linorder) \<Rightarrow> string \<Rightarrow> metric_call list \<Rightarrow> rat list" where
  "counter_deltas rank key calls = concat (map (\<lambda>c. case c of
     Increment n v d \<Rightarrow> if metric_key rank n d = key then [v] else []
   | Decrement n v d \<Rightarrow> if metric_key rank n d = key then [- v] else []
   | _ \<Rightarrow> []) calls)"

definition gauge_values :: "(string \<Rightarrow> 'o::linorder) \<Rightarrow> string \<Rightarrow> metric_call list \<Rightarrow> rat list" where
  "gauge_values rank key calls = concat (map (\<lambda>c. case c of
     Gauge n v d \<Rightarrow> if metric_key rank n d = key then [v] else []
   | _ \<Rightarrow> []) calls)"

definition histogram_values :: "(string \<Rightarrow> 'o::linorder) \<Rightarrow> string \<Rightarrow> metric_call list \<Rightarrow> rat list" where
  "histogram_values rank key calls = concat (map (\<lambda>c. case c of
     Histogram n v d \<Rightarrow> if metric_key rank n d = key then [v] else []
   | _ \<Rightarrow> []) calls)"

lemmas ledger_defs = counter_deltas_def gauge_values_def histogram_values_def

lemma since_reset_snoc:
  "since_reset (calls @ [c]) = (if c = Reset then [] else since_reset calls @ [c])"
  by (simp add: since_reset_def)

lemma ledger_append:
  "counter_deltas rank key (xs @ ys) = counter_deltas rank key xs @ counter_deltas rank key ys"
  "gauge_values rank key (xs @ ys) = gauge_values rank key xs @ gauge_values rank key ys"
  "histogram_values rank key (xs @ ys) = histogram_values rank key xs @ histogram_values rank key ys"
  by (simp_all add: ledger_defs)

lemma ledger_single:
  "counter_deltas rank key [Increment n v d] = (if metric_key rank n d = key then [v] else [])"
  "counter_deltas rank key [Decrement n v d] = (if metric_key rank n d = key then [- v] else [])"
  "counter_deltas rank key [Gauge n v d] = []" "counter_deltas rank key [Histogram n v d] = []"
  "gauge_values rank key [Gauge n v d] = (if metric_key rank n d = key then [v] else [])"
  "gauge_values rank key [Increment n v d] = []" "gauge_values rank key [Decrement n v d] = []"
  "gauge_values rank key [Histogram n v d] = []"
  "histogram_values rank key [Histogram n v d] = (if metric_key rank n d = key then [v] else [])"
  "histogram_values rank key [Increment n v d] = []" "histogram_values rank key [Decrement n v d] = []"
  "histogram_values rank key [Gauge n v d] = []"
  by (simp_all add: ledger_defs)

lemma increment_value:
  "map_option ve_value (jget (counters (increment_counter rank n v d m)) key) =
     (if metric_key rank n d = key
      then Some (case jget (counters m) key of None \<Rightarrow> v | Some e \<Rightarrow> ve_value e + v)
      else map_option ve_value (jget (counters m) key))"
  "gauges (increment_counter rank n v d m) = gauges m"
  "histograms (increment_counter rank n v d m) = histograms m"
  by (auto simp: increment_counter_def Let_def split: option.splits)

lemma gauge_value:
  "map_option ve_value (jget (gauges (set_gauge rank n v d m)) key) =
     (if metric_key rank n d = key then Some v else map_option ve_value (jget (gauges m) key))"
  "counters (set_gauge rank n v d m) = counters m"
  "histograms (set_gauge rank n v d m) = histograms m"
  by (auto simp: set_gauge_def Let_def split: option.splits)

lemma histogram_value:
  "map_option he_values (jget (histograms (record_histogram rank n v d m)) key) =
     (if metric_key rank n d = key
      then Some (case jget (histograms m) key of None \<Rightarrow> [v] | Some e \<Rightarrow> he_values e @ [v])
      else map_option he_values (jget (histograms m) key))"
  "counters (record_histogram rank n v d m) = counters m"
  "gauges (record_histogram rank n v d m) = gauges m"
  by (auto simp: record_histogram_def Let_def split: option.splits)

lemma option_map_case:
  "map_option f x = (if ds = [] then None else Some (g ds)) \<Longrightarrow>
     (case x of None \<Rightarrow> a | Some e \<Rightarrow> h (f e)) = (if ds = [] then a else h (g ds))"
  by (cases x) (auto split: if_splits)

text \<open>
  After any calls, the counter of a series is the sum of what was added to it since the last reset,
  its gauge the last value set and its histogram all values recorded, in order; a series nothing was
  said about has no entry.
\<close>

theorem store_is_ledger:
  fixes rank :: "string \<Rightarrow> 'o::linorder"
  defines "after \<equiv> \<lambda>calls. foldl (metric_step rank) metrics_new calls"
  shows "map_option ve_value (jget (counters (after calls)) key) =
      (let ds = counter_deltas rank key (since_reset calls) in if ds = [] then None else Some (sum_list ds))
    \<and> map_option ve_value (jget (gauges (after calls)) key) =
      (let vs = gauge_values rank key (since_reset calls) in if vs = [] then None else Some (last vs))
    \<and> map_option he_values (jget (histograms (after calls)) key) =
      (let vs = histogram_values rank key (since_reset calls) in if vs = [] then None else Some vs)"
  unfolding after_def
proof (induction calls rule: rev_induct)
  case Nil
  show ?case by (simp add: metrics_new_def since_reset_def ledger_defs)
next
  case (snoc c calls)
  define m where "m = foldl (metric_step rank) metrics_new calls"
  have step: "foldl (metric_step rank) metrics_new (calls @ [c]) = metric_step rank m c"
    by (simp add: m_def)
  note IH = snoc.IH [folded m_def, unfolded Let_def]
  have add: "map_option ve_value (jget (counters (increment_counter rank n v d m)) key) =
      (let ds = counter_deltas rank key (since_reset calls) @ (if metric_key rank n d = key then [v] else [])
       in if ds = [] then None else Some (sum_list ds))" for n v d
    using IH option_map_case [of ve_value "jget (counters m) key"
        "counter_deltas rank key (since_reset calls)" sum_list v "\<lambda>x. x + v"]
    by (auto simp: increment_value Let_def)
  show ?case
  proof (cases c)
    case (Increment n v d)
    with IH add [of n v d] show ?thesis
      unfolding step by (simp add: increment_value since_reset_snoc ledger_append ledger_single)
  next
    case (Decrement n v d)
    with IH add [of n "- v" d] show ?thesis
      unfolding step
      by (simp add: decrement_counter_def increment_value since_reset_snoc ledger_append ledger_single)
  next
    case (Gauge n v d)
    with IH show ?thesis
      unfolding step by (simp add: gauge_value since_reset_snoc ledger_append ledger_single)
  next
    case (Histogram n v d)
    with IH show ?thesis
      unfolding step
      by (auto simp: histogram_value since_reset_snoc ledger_append ledger_single split: option.splits if_splits)
  next
    case Reset
    then show ?thesis
      unfolding step by (simp add: metrics_reset_def since_reset_snoc ledger_defs)
  qed
qed

section \<open>Percentiles\<close>

lemma sort_empty: "sort xs = [] \<longleftrightarrow> xs = []" for xs :: "rat list"
  by (metis length_0_conv length_sort)

lemma percentile_index:
  assumes "sorted vs" "vs \<noteq> []" "0 < p" "p \<le> 1"
  obtains k where "k < length vs" "compute_percentile vs p = vs ! k"
    "of_nat (length vs) * p \<le> of_nat (Suc k)" "of_nat k < of_nat (length vs) * p"
proof -
  define n where "n = length vs"
  define c where "c = \<lceil>(of_nat n :: rat) * p\<rceil>"
  have n: "0 < n" using assms by (simp add: n_def)
  with assms have pos: "0 < (of_nat n :: rat) * p" by simp
  then have c1: "1 \<le> c" by (simp add: c_def)
  have "(of_nat n :: rat) * p \<le> of_nat n" using assms n by (simp add: mult_left_le)
  then have cn: "c \<le> int n" by (simp add: c_def ceiling_le_iff)
  define k where "k = nat (c - 1)"
  have kc: "int k = c - 1" using c1 by (simp add: k_def)
  have "k < n" using kc cn n by linarith
  moreover have "compute_percentile vs p = vs ! k"
    using assms c1 \<open>k < n\<close> by (simp add: compute_percentile_def Let_def n_def [symmetric] c_def [symmetric] k_def)
  moreover have "(of_nat n :: rat) * p \<le> of_nat (Suc k)"
  proof -
    have "(of_nat n :: rat) * p \<le> of_int c" by (simp add: c_def)
    also have "(of_int c :: rat) = of_int (int (Suc k))" using kc by simp
    finally show ?thesis by simp
  qed
  moreover have "of_nat k < (of_nat n :: rat) * p"
  proof -
    have "(of_int (c - 1) :: rat) < of_nat n * p" using ceiling_correct [of "(of_nat n :: rat) * p"] by (simp add: c_def)
    then show ?thesis unfolding kc [symmetric] by simp
  qed
  ultimately show thesis using that by (simp add: n_def)
qed

lemma sorted_count_below:
  "sorted vs \<Longrightarrow> k < length vs \<Longrightarrow> length (filter (\<lambda>v. v < vs ! k) vs) \<le> k"
proof -
  assume s: "sorted vs" "k < length vs"
  have "filter (\<lambda>v. v < vs ! k) (drop k vs) = []"
    using s by (auto simp: filter_empty_conv in_set_conv_nth not_less intro!: sorted_nth_mono)
  then have "length (filter (\<lambda>v. v < vs ! k) vs) = length (filter (\<lambda>v. v < vs ! k) (take k vs))"
    by (metis append_Nil2 append_take_drop_id filter_append)
  also have "\<dots> \<le> k" by (metis length_filter_le le_trans length_take min.cobounded2)
  finally show ?thesis .
qed

lemma sorted_count_upto:
  "sorted vs \<Longrightarrow> k < length vs \<Longrightarrow> Suc k \<le> length (filter (\<lambda>v. v \<le> vs ! k) vs)"
proof -
  assume s: "sorted vs" "k < length vs"
  have "filter (\<lambda>v. v \<le> vs ! k) (take (Suc k) vs) = take (Suc k) vs"
    using s sorted_nth_mono [of vs _ k] by (intro filter_True) (auto simp: in_set_conv_nth)
  then have "length (filter (\<lambda>v. v \<le> vs ! k) (take (Suc k) vs)) = Suc k" using s by simp
  moreover have "length (filter (\<lambda>v. v \<le> vs ! k) (take (Suc k) vs)) \<le> length (filter (\<lambda>v. v \<le> vs ! k) vs)"
    by (metis append_take_drop_id filter_append length_append le_add1)
  ultimately show ?thesis by simp
qed

text \<open>
  The percentile of a histogram is one of its values: at least the share \<open>p\<close> of the values is at
  most it, and fewer than the share \<open>p\<close> are below it (the nearest-rank percentile).
\<close>

theorem percentile_is_nearest_rank:
  fixes values_list :: "rat list"
  assumes "values_list \<noteq> []" and "0 < p" and "p \<le> 1"
  defines "r \<equiv> compute_percentile (sort values_list) p"
  shows "r \<in> set values_list
    \<and> of_nat (length values_list) * p \<le> of_nat (length (filter (\<lambda>v. v \<le> r) values_list))
    \<and> of_nat (length (filter (\<lambda>v. v < r) values_list)) < of_nat (length values_list) * p"
proof -
  define vs where "vs = sort values_list"
  have vs: "sorted vs" "vs \<noteq> []" "length vs = length values_list" "set vs = set values_list"
    using assms(1) by (simp_all add: vs_def sort_empty)
  obtain k where k: "k < length vs" "compute_percentile vs p = vs ! k"
    "of_nat (length vs) * p \<le> of_nat (Suc k)" "of_nat k < of_nat (length vs) * p"
    by (rule percentile_index [OF vs(1,2) assms(2,3)])
  have r: "r = vs ! k" using k by (simp add: r_def vs_def)
  have same: "length (filter P values_list) = length (filter P vs)" for P
    by (metis length_sort filter_sort vs_def)
  have "of_nat (length vs) * p \<le> of_nat (length (filter (\<lambda>v. v \<le> r) vs))"
    using k(3) sorted_count_upto [OF vs(1) k(1)] r by (meson le_trans of_nat_le_iff order_trans)
  moreover have "of_nat (length (filter (\<lambda>v. v < r) vs)) < of_nat (length vs) * p"
    using k(4) sorted_count_below [OF vs(1) k(1)] r by (meson le_less_trans of_nat_le_iff)
  moreover have "r \<in> set values_list" using k(1) r vs(4) by (metis nth_mem)
  ultimately show ?thesis by (simp add: same vs(3))
qed

theorem percentile_is_nearest_rank_witness:
  "compute_percentile (sort [3, 1, 2]) (1/2) \<in> set [3, 1, 2 :: rat]
    \<and> of_nat (length [3, 1, 2 :: rat]) * (1/2 :: rat)
        \<le> of_nat (length (filter (\<lambda>v. v \<le> compute_percentile (sort [3, 1, 2]) (1/2)) [3, 1, 2]))
    \<and> of_nat (length (filter (\<lambda>v. v < compute_percentile (sort [3, 1, 2]) (1/2)) [3, 1, 2]))
        < of_nat (length [3, 1, 2 :: rat]) * (1/2 :: rat)"
  by (rule percentile_is_nearest_rank) simp_all

lemma percentile_mono:
  assumes "sorted vs" "vs \<noteq> []" "0 < p" "p \<le> q" "q \<le> 1"
  shows "vs ! 0 \<le> compute_percentile vs p \<and> compute_percentile vs p \<le> compute_percentile vs q
    \<and> compute_percentile vs q \<le> vs ! (length vs - 1)"
proof -
  from assms have "p \<le> 1" "0 < q" by auto
  obtain k where k: "k < length vs" "compute_percentile vs p = vs ! k" "of_nat k < of_nat (length vs) * p"
    by (rule percentile_index [OF assms(1,2,3) \<open>p \<le> 1\<close>])
  obtain l where l: "l < length vs" "compute_percentile vs q = vs ! l" "of_nat (length vs) * q \<le> of_nat (Suc l)"
    by (rule percentile_index [OF assms(1,2) \<open>0 < q\<close> assms(5)])
  have "(of_nat k :: rat) < of_nat (Suc l)"
    using k(3) l(3) assms(4) by (meson le_less_trans less_le_trans mult_left_mono of_nat_0_le_iff order_trans)
  then have "k \<le> l" by (simp only: of_nat_less_iff less_Suc_eq_le)
  with k l assms(1) show ?thesis by (auto intro!: sorted_nth_mono)
qed

text \<open>The statistics of a histogram are in order.\<close>

theorem histogram_statistics_ordered:
  assumes "he_values e \<noteq> []"
  shows "let h = to_histogram_snapshot e in
    hs_min h \<le> hs_p50 h \<and> hs_p50 h \<le> hs_p95 h \<and> hs_p95 h \<le> hs_p99 h \<and> hs_p99 h \<le> hs_max h
    \<and> (\<forall>v \<in> set (he_values e). hs_min h \<le> v \<and> v \<le> hs_max h)"
proof -
  define vs where "vs = sort (he_values e)"
  have vs: "sorted vs" "vs \<noteq> []" using assms by (simp_all add: vs_def sort_empty)
  have "vs ! 0 \<le> v \<and> v \<le> vs ! (length vs - 1)" if "v \<in> set vs" for v
    using that vs by (auto simp: in_set_conv_nth intro!: sorted_nth_mono)
  moreover have "vs ! 0 \<le> compute_percentile vs (1/2) \<and> compute_percentile vs (1/2) \<le> compute_percentile vs (19/20)"
    using percentile_mono [OF vs, of "1/2" "19/20"] by simp
  moreover have "compute_percentile vs (19/20) \<le> compute_percentile vs (99/100)
      \<and> compute_percentile vs (99/100) \<le> vs ! (length vs - 1)"
    using percentile_mono [OF vs, of "19/20" "99/100"] by simp
  moreover have "length (he_values e) = length vs" "set (he_values e) = set vs" by (simp_all add: vs_def)
  ultimately show ?thesis
    using vs(2) by (simp add: to_histogram_snapshot_def Let_def vs_def [symmetric])
qed

theorem histogram_statistics_ordered_witness:
  "let e = \<lparr>he_name = ''db'', he_values = [5, 1, 9], he_dimensions = []\<rparr>; h = to_histogram_snapshot e in
    hs_min h \<le> hs_p50 h \<and> hs_p50 h \<le> hs_p95 h \<and> hs_p95 h \<le> hs_p99 h \<and> hs_p99 h \<le> hs_max h
    \<and> (\<forall>v \<in> set (he_values e). hs_min h \<le> v \<and> v \<le> hs_max h)"
  unfolding Let_def by (rule histogram_statistics_ordered [unfolded Let_def]) simp

section \<open>Fan-out and export\<close>

text \<open>
  After any calls each backend of the fan-out holds what it would hold alone, and the snapshot is
  the one of the first.
\<close>

theorem composite_equals_each_backend:
  "foldl (composite_step step) backends calls = map (\<lambda>w. foldl step w calls) backends
   \<and> composite_snapshot snap now (foldl (composite_step step) (w # ws) calls) = snap (foldl step w calls)"
proof -
  have all: "foldl (composite_step step) bs calls = map (\<lambda>w. foldl step w calls) bs" for bs
    by (induction calls arbitrary: bs) (simp_all add: composite_step_def)
  then show ?thesis by (simp add: composite_snapshot_def)
qed

text \<open>
  Label values are put between quotes as they are: a value with a quote and a comma prints as two
  labels, so two different series send the same line to Prometheus.
\<close>

theorem label_injection:
  "metric_key (\<lambda>s. s) ''hits'' [(''a'', ''1'' @ [CHR 0x22] @ '',b='' @ [CHR 0x22] @ ''2'')]
     \<noteq> metric_key (\<lambda>s. s) ''hits'' [(''a'', ''1''), (''b'', ''2'')]
   \<and> build_value_lines num kind \<lparr>ve_name = ''hits'', ve_value = v,
         ve_dimensions = [(''a'', ''1'' @ [CHR 0x22] @ '',b='' @ [CHR 0x22] @ ''2'')]\<rparr>
     = build_value_lines num kind \<lparr>ve_name = ''hits'', ve_value = v,
         ve_dimensions = [(''a'', ''1''), (''b'', ''2'')]\<rparr>"
  by (simp add: metric_key_sorted build_value_lines_def label_str_def dimensions_to_labels_def Let_def)

end
