(* ===== verification/Slo_Cost.thy ===== *)
theory Slo_Cost
  imports Prelude
begin

text \<open>
  \<open>packages/observability/src/slo\<close>, \<open>cost\<close> and \<open>green\<close>: service level indicators and objectives
  (\<open>SliProviders.ts\<close>, \<open>SloTracker.ts\<close>), the cost reports of \<open>CostTracker.ts\<close> and the carbon
  reports of \<open>GreenComputingTracker.ts\<close>.

  Measurements are arguments of the operations that await them.  Alert handlers are identifiers and
  an operation returns the calls it makes.  Records keyed by a name (\<open>byService\<close>) are maps.
\<close>

section \<open>Service level indicators\<close>

definition availability_sli :: "rat \<Rightarrow> rat \<Rightarrow> rat" where
  "availability_sli count_all successful = (if count_all = 0 then 100 else successful / count_all * 100)"

definition latency_sli :: "rat \<Rightarrow> rat \<Rightarrow> rat" where
  "latency_sli threshold_ms p99 = (if p99 \<le> threshold_ms then 100 else 0)"

definition error_rate_sli :: "rat \<Rightarrow> rat \<Rightarrow> rat" where
  "error_rate_sli errors count_all = (if count_all = 0 then 100 else (1 - errors / count_all) * 100)"

record sli_result =
  sr_name :: string
  sr_value :: rat
  sr_timestamp :: int

record sli_tracker =
  sk_name :: string
  sk_history :: "sli_result list"
  sk_max_entries :: int

definition sli_collect :: "rat \<Rightarrow> int \<Rightarrow> sli_tracker \<Rightarrow> sli_result \<times> sli_tracker" where
  "sli_collect v now t =
     (let r = \<lparr>sr_name = sk_name t, sr_value = v, sr_timestamp = now\<rparr>;
          h = (if int (length (sk_history t)) \<ge> sk_max_entries t then tl (sk_history t) else sk_history t)
      in (r, t\<lparr>sk_history := h @ [r]\<rparr>))"

definition sli_get_history :: "int option \<Rightarrow> sli_tracker \<Rightarrow> sli_result list" where
  "sli_get_history since t =
     (case since of None \<Rightarrow> sk_history t | Some s \<Rightarrow> filter (\<lambda>r. s \<le> sr_timestamp r) (sk_history t))"

definition sli_latest :: "sli_tracker \<Rightarrow> sli_result option" where
  "sli_latest t = (if sk_history t = [] then None else Some (last (sk_history t)))"

section \<open>Service level objectives\<close>

record slo_config =
  lc_name :: string
  lc_sli_name :: string
  lc_target :: rat
  lc_window_ms :: int

record error_budget =
  eb_slo_name :: string
  eb_target :: rat
  eb_consumed :: rat
  eb_remaining :: rat
  eb_exhausted :: bool

record burn_rate_alert =
  ba_slo_name :: string
  ba_burn_rate :: rat
  ba_threshold :: rat
  ba_firing :: bool
  ba_timestamp :: int

record slo_status =
  ls_slo :: slo_config
  ls_current_sli :: rat
  ls_met :: bool
  ls_error_budget :: error_budget
  ls_burn_rate :: burn_rate_alert

record slo_tracker =
  lt_config :: slo_config
  lt_sli_history :: "(string, rat list) jsmap"
  lt_alert_handlers :: "nat list"
  lt_burn_rate_threshold :: rat

definition slo_new :: "slo_config \<Rightarrow> rat \<Rightarrow> slo_tracker" where
  "slo_new config threshold = \<lparr>lt_config = config, lt_sli_history = [], lt_alert_handlers = [],
     lt_burn_rate_threshold = threshold\<rparr>"

definition slo_history :: "slo_tracker \<Rightarrow> rat list" where
  "slo_history t = elems (lt_sli_history t) (lc_sli_name (lt_config t))"

definition calc_error_budget :: "slo_config \<Rightarrow> rat list \<Rightarrow> error_budget" where
  "calc_error_budget config history =
     (if history = [] then
        \<lparr>eb_slo_name = lc_name config, eb_target = lc_target config, eb_consumed = 0,
         eb_remaining = 1, eb_exhausted = False\<rparr>
      else
        let avg = foldl (+) 0 history / of_nat (length history);
            allowed_error = (100 - lc_target config) / 100;
            actual_error = (100 - avg) / 100;
            consumed = (if allowed_error > 0 then min 1 (actual_error / allowed_error)
                        else if actual_error > 0 then 1 else 0);
            remaining = max 0 (1 - consumed)
        in \<lparr>eb_slo_name = lc_name config, eb_target = lc_target config, eb_consumed = consumed,
            eb_remaining = remaining, eb_exhausted = (1 \<le> consumed)\<rparr>)"

definition calc_burn_rate :: "slo_config \<Rightarrow> rat \<Rightarrow> rat list \<Rightarrow> error_budget \<Rightarrow> int \<Rightarrow> burn_rate_alert" where
  "calc_burn_rate config threshold history budget now =
     (let burn_rate = (if eb_consumed budget > 0 then eb_consumed budget * of_nat (length history) else 0);
          normalised = (if history \<noteq> [] then burn_rate / of_nat (length history) else 0)
      in \<lparr>ba_slo_name = lc_name config, ba_burn_rate = normalised, ba_threshold = threshold,
          ba_firing = (normalised > threshold), ba_timestamp = now\<rparr>)"

text \<open>\<open>evaluate\<close> with the value measured: the status and the handlers called.\<close>

definition slo_evaluate :: "rat \<Rightarrow> int \<Rightarrow> slo_tracker \<Rightarrow> slo_status \<times> (nat \<times> burn_rate_alert) list \<times> slo_tracker" where
  "slo_evaluate v now t =
     (let history = slo_history t @ [v];
          t1 = t\<lparr>lt_sli_history := jset (lc_sli_name (lt_config t)) history (lt_sli_history t)\<rparr>;
          budget = calc_error_budget (lt_config t) history;
          alert = calc_burn_rate (lt_config t) (lt_burn_rate_threshold t) history budget now
      in (\<lparr>ls_slo = lt_config t, ls_current_sli = v, ls_met = (lc_target (lt_config t) \<le> v),
           ls_error_budget = budget, ls_burn_rate = alert\<rparr>,
          (if ba_firing alert then map (\<lambda>h. (h, alert)) (lt_alert_handlers t1) else []), t1))"

definition on_burn_rate_alert :: "nat \<Rightarrow> slo_tracker \<Rightarrow> slo_tracker" where
  "on_burn_rate_alert h t = t\<lparr>lt_alert_handlers := lt_alert_handlers t @ [h]\<rparr>"

definition off_burn_rate_alert :: "nat \<Rightarrow> slo_tracker \<Rightarrow> slo_tracker" where
  "off_burn_rate_alert h t = t\<lparr>lt_alert_handlers := remove1 h (lt_alert_handlers t)\<rparr>"

definition set_burn_rate_threshold :: "rat \<Rightarrow> slo_tracker \<Rightarrow> slo_tracker" where
  "set_burn_rate_threshold v t = t\<lparr>lt_burn_rate_threshold := v\<rparr>"

section \<open>Costs\<close>

record usage_record =
  ur_resource_id :: string
  ur_resource_type :: string
  ur_service :: string
  ur_region :: string
  ur_cost_per_hour :: rat
  ur_cpu :: rat
  ur_memory :: rat
  ur_timestamp :: int

record cost_tag =
  ct_key :: string
  ct_value :: string
  ct_resource_id :: string

record cost_tracker =
  ct_records :: "usage_record list"
  ct_tags :: "(string, cost_tag list) jsmap"

record idle_report =
  ir_resource_id :: string
  ir_resource_type :: string
  ir_service :: string
  ir_idle_since_ms :: int
  ir_monthly_cost :: rat

record recommendation =
  rr_resource_id :: string
  rr_current_size :: string
  rr_recommended_size :: string
  rr_savings :: rat
  rr_reason :: string

record cost_summary =
  cs_total :: rat
  cs_by_service :: "(string, rat) jsmap"
  cs_by_region :: "(string, rat) jsmap"
  cs_idle_cost :: rat
  cs_potential_savings :: rat

definition hours_per_month :: rat where "hours_per_month = 730"
definition idle_duration_ms :: int where "idle_duration_ms = 60 * 60 * 1000"

definition cost_record :: "usage_record \<Rightarrow> cost_tracker \<Rightarrow> cost_tracker" where
  "cost_record r t = t\<lparr>ct_records := ct_records t @ [r]\<rparr>"

fun put_tag :: "cost_tag \<Rightarrow> cost_tag list \<Rightarrow> cost_tag list" where
  "put_tag x [] = [x]"
| "put_tag x (y # ys) = (if ct_key y = ct_key x then x # ys else y # put_tag x ys)"

definition cost_tag_resource :: "string \<Rightarrow> string \<Rightarrow> string \<Rightarrow> cost_tracker \<Rightarrow> cost_tracker" where
  "cost_tag_resource rid key v t =
     t\<lparr>ct_tags := jset rid (put_tag \<lparr>ct_key = key, ct_value = v, ct_resource_id = rid\<rparr> (elems (ct_tags t) rid))
         (ct_tags t)\<rparr>"

definition cost_get_tags :: "string \<Rightarrow> cost_tracker \<Rightarrow> cost_tag list" where
  "cost_get_tags rid t = elems (ct_tags t) rid"

definition keep_latest :: "(string, usage_record) jsmap \<Rightarrow> usage_record \<Rightarrow> (string, usage_record) jsmap" where
  "keep_latest m r =
     (case jget m (ur_resource_id r) of
        None \<Rightarrow> jset (ur_resource_id r) r m
      | Some e \<Rightarrow> if ur_timestamp r > ur_timestamp e then jset (ur_resource_id r) r m else m)"

definition latest_per_resource :: "cost_tracker \<Rightarrow> (string, usage_record) jsmap" where
  "latest_per_resource t = foldl keep_latest [] (ct_records t)"

definition is_idle :: "int \<Rightarrow> usage_record \<Rightarrow> bool" where
  "is_idle now r = (ur_cpu r < 1/20 \<and> ur_memory r < 1/10 \<and> idle_duration_ms \<le> now - ur_timestamp r)"

definition detect_idle_resources :: "int \<Rightarrow> cost_tracker \<Rightarrow> idle_report list" where
  "detect_idle_resources now t =
     map (\<lambda>r. \<lparr>ir_resource_id = ur_resource_id r, ir_resource_type = ur_resource_type r,
               ir_service = ur_service r, ir_idle_since_ms = now - ur_timestamp r,
               ir_monthly_cost = ur_cost_per_hour r * hours_per_month\<rparr>)
       (filter (is_idle now) (jvalues (latest_per_resource t)))"

definition add_utilization :: "(string, rat \<times> rat \<times> nat) jsmap \<Rightarrow> usage_record \<Rightarrow> (string, rat \<times> rat \<times> nat) jsmap" where
  "add_utilization m r =
     (let (cpu, mem, n) = (case jget m (ur_resource_id r) of None \<Rightarrow> (0, 0, 0) | Some x \<Rightarrow> x)
      in jset (ur_resource_id r) (cpu + ur_cpu r, mem + ur_memory r, n + 1) m)"

definition average_utilization :: "cost_tracker \<Rightarrow> (string, rat \<times> rat \<times> nat) jsmap" where
  "average_utilization t =
     map (\<lambda>(i, cpu, mem, n). (i, cpu / of_nat n, mem / of_nat n, n)) (foldl add_utilization [] (ct_records t))"

text \<open>\<open>x.toFixed(0)\<close> for a number that is not negative.\<close>

definition to_fixed0 :: "rat \<Rightarrow> string" where
  "to_fixed0 x = show_int \<lfloor>x + 1/2\<rfloor>"

definition build_recommendation :: "string \<Rightarrow> rat \<Rightarrow> rat \<Rightarrow> recommendation option" where
  "build_recommendation rid cpu mem =
     (if cpu < 3/10 \<and> mem < 3/10 then
        Some \<lparr>rr_resource_id = rid, rr_current_size = ''large'', rr_recommended_size = ''small'',
              rr_savings = 50,
              rr_reason = ''Average CPU '' @ to_fixed0 (cpu * 100) @ ''% and memory '' @ to_fixed0 (mem * 100)
                @ ''% usage is well below capacity''\<rparr>
      else None)"

definition right_sizing_recommendations :: "cost_tracker \<Rightarrow> recommendation list" where
  "right_sizing_recommendations t =
     List.map_filter (\<lambda>(i, cpu, mem, n). build_recommendation i cpu mem) (average_utilization t)"

definition add_cost :: "string \<Rightarrow> rat \<Rightarrow> (string, rat) jsmap \<Rightarrow> (string, rat) jsmap" where
  "add_cost k v m = jset k ((case jget m k of None \<Rightarrow> 0 | Some x \<Rightarrow> x) + v) m"

definition monthly_cost :: "usage_record \<Rightarrow> rat" where
  "monthly_cost r = ur_cost_per_hour r * hours_per_month"

definition cost_get_summary :: "int \<Rightarrow> cost_tracker \<Rightarrow> cost_summary" where
  "cost_get_summary now t =
     (let latest = jvalues (latest_per_resource t);
          total_cost = foldl (\<lambda>s r. s + monthly_cost r) 0 latest;
          idle_cost = foldl (\<lambda>s r. s + ir_monthly_cost r) 0 (detect_idle_resources now t);
          recs = right_sizing_recommendations t
      in \<lparr>cs_total = total_cost,
          cs_by_service = foldl (\<lambda>m r. add_cost (ur_service r) (monthly_cost r) m) [] latest,
          cs_by_region = foldl (\<lambda>m r. add_cost (ur_region r) (monthly_cost r) m) [] latest,
          cs_idle_cost = idle_cost,
          cs_potential_savings = idle_cost
            + foldl (\<lambda>s r. s + rr_savings r / 100 * (total_cost / of_nat (length recs))) 0 recs\<rparr>)"

section \<open>Carbon\<close>

record carbon_record =
  cr_resource_id :: string
  cr_region :: string
  cr_energy_kwh :: rat
  cr_carbon_grams :: rat
  cr_timestamp :: int

record region_intensity =
  ri_region :: string
  ri_grams_per_kwh :: rat
  ri_renewable :: rat

record green_tracker =
  gt_usage :: "carbon_record list"
  gt_regions :: "(string, region_intensity) jsmap"
  gt_jobs :: "(string \<times> int \<times> string) list"

record carbon_summary =
  gs_total_grams :: rat
  gs_total_kwh :: rat
  gs_by_region :: "(string, rat) jsmap"
  gs_most_sustainable :: "string option"

definition register_region :: "region_intensity \<Rightarrow> green_tracker \<Rightarrow> green_tracker" where
  "register_region r t = t\<lparr>gt_regions := jset (ri_region r) r (gt_regions t)\<rparr>"

definition record_carbon :: "carbon_record \<Rightarrow> green_tracker \<Rightarrow> green_tracker" where
  "record_carbon r t = t\<lparr>gt_usage := gt_usage t @ [r]\<rparr>"

definition most_sustainable_region :: "green_tracker \<Rightarrow> string option" where
  "most_sustainable_region t =
     map_option ri_region (foldl (\<lambda>best r. case best of
         None \<Rightarrow> Some r
       | Some b \<Rightarrow> if ri_grams_per_kwh r < ri_grams_per_kwh b then Some r else Some b)
       None (jvalues (gt_regions t)))"

definition carbon_get_summary :: "green_tracker \<Rightarrow> carbon_summary" where
  "carbon_get_summary t =
     \<lparr>gs_total_grams = foldl (\<lambda>s r. s + cr_carbon_grams r) 0 (gt_usage t),
      gs_total_kwh = foldl (\<lambda>s r. s + cr_energy_kwh r) 0 (gt_usage t),
      gs_by_region = foldl (\<lambda>m r. add_cost (cr_region r) (cr_carbon_grams r) m) [] (gt_usage t),
      gs_most_sustainable = most_sustainable_region t\<rparr>"

definition energy_efficiency :: "green_tracker \<Rightarrow> (string \<times> rat) list" where
  "energy_efficiency t =
     map (\<lambda>(i, carbon, n). (i, carbon / of_nat n))
       (foldl (\<lambda>m r. let (c, n) = (case jget m (cr_resource_id r) of None \<Rightarrow> (0, 0 :: nat) | Some x \<Rightarrow> x)
                     in jset (cr_resource_id r) (c + cr_carbon_grams r, n + 1) m) [] (gt_usage t))"

text \<open>The next three o'clock UTC, in milliseconds since the epoch.\<close>

definition day_ms :: int where "day_ms = 86400000"

definition next_off_peak :: "int \<Rightarrow> int" where
  "next_off_peak now =
     (let scheduled = now div day_ms * day_ms + 3 * 3600000
      in if scheduled \<le> now then scheduled + day_ms else scheduled)"

definition schedule_off_peak :: "string \<Rightarrow> string \<Rightarrow> int \<Rightarrow> green_tracker \<Rightarrow> (string \<times> int \<times> string) \<times> green_tracker" where
  "schedule_off_peak rid reason now t =
     (let job = (rid, next_off_peak now, reason) in (job, t\<lparr>gt_jobs := gt_jobs t @ [job]\<rparr>))"

section \<open>Indicators and objectives\<close>

text \<open>Indicators are percentages when the counts are: no more successes or errors than requests.\<close>

theorem indicators_are_percentages:
  assumes "0 \<le> successful" and "successful \<le> count_all"
  shows "0 \<le> availability_sli count_all successful \<and> availability_sli count_all successful \<le> 100
    \<and> error_rate_sli (count_all - successful) count_all = availability_sli count_all successful
    \<and> latency_sli threshold p99 \<in> {0, 100}"
  using assms
  by (auto simp: availability_sli_def error_rate_sli_def latency_sli_def divide_simps)

theorem indicators_are_percentages_witness:
  "0 \<le> availability_sli 4 3 \<and> availability_sli 4 3 \<le> 100
    \<and> error_rate_sli (4 - 3) 4 = availability_sli 4 3 \<and> latency_sli 200 150 \<in> {0, 100}"
  by (rule indicators_are_percentages) simp_all

definition collect_all :: "(rat \<times> int) list \<Rightarrow> sli_tracker \<Rightarrow> sli_tracker" where
  "collect_all ms t = foldl (\<lambda>t (v, now). snd (sli_collect v now t)) t ms"

lemma collect_history:
  assumes "0 < sk_max_entries t" "int (length (sk_history t)) \<le> sk_max_entries t"
  shows "sk_history (collect_all ms t) =
     (let whole = sk_history t @ map (\<lambda>(v, now). \<lparr>sr_name = sk_name t, sr_value = v, sr_timestamp = now\<rparr>) ms
      in drop (length whole - nat (sk_max_entries t)) whole)"
  using assms
proof (induction ms arbitrary: t)
  case Nil
  then show ?case by (simp add: collect_all_def Let_def)
next
  case (Cons m ms)
  obtain v now where m: "m = (v, now)" by (cases m)
  define r where "r = \<lparr>sr_name = sk_name t, sr_value = v, sr_timestamp = now\<rparr>"
  define h where "h = (if int (length (sk_history t)) \<ge> sk_max_entries t then tl (sk_history t) else sk_history t)"
  define t1 where "t1 = t\<lparr>sk_history := h @ [r]\<rparr>"
  have step: "snd (sli_collect v now t) = t1"
    by (simp add: sli_collect_def t1_def h_def r_def Let_def)
  have h: "h = drop (Suc (length (sk_history t)) - nat (sk_max_entries t)) (sk_history t)"
    using Cons.prems by (cases "sk_history t") (auto simp: h_def nat_le_iff nat_add_distrib)
  have len: "int (length (sk_history t1)) \<le> sk_max_entries t1" "0 < sk_max_entries t1"
    using Cons.prems by (auto simp: t1_def h_def)
  have "sk_history (collect_all (m # ms) t) = sk_history (collect_all ms t1)"
    by (simp add: collect_all_def m step)
  also have "\<dots> = (let whole = (h @ [r]) @ map (\<lambda>(v, now). \<lparr>sr_name = sk_name t, sr_value = v, sr_timestamp = now\<rparr>) ms
      in drop (length whole - nat (sk_max_entries t)) whole)"
    using Cons.IH [OF len(2,1)] by (simp add: t1_def)
  finally have run: "sk_history (collect_all (m # ms) t) = \<dots>" .
  have "length (sk_history t) \<le> nat (sk_max_entries t)" using Cons.prems by linarith
  then consider "length (sk_history t) < nat (sk_max_entries t)" | "length (sk_history t) = nat (sk_max_entries t)"
    by linarith
  then show ?case
  proof cases
    case 1
    with run show ?thesis unfolding h by (simp add: Let_def m r_def)
  next
    case 2
    with Cons.prems have "sk_history t \<noteq> []" by auto
    with run 2 show ?thesis unfolding h by (cases "sk_history t") (simp_all add: Let_def m r_def flip: 2)
  qed
qed

text \<open>A tracker keeps the last results, as many as its maximum.\<close>

theorem tracker_keeps_last_results:
  assumes "0 < n"
  shows "map sr_value (sk_history (collect_all ms \<lparr>sk_name = nm, sk_history = [], sk_max_entries = n\<rparr>))
    = map fst (drop (length ms - nat n) ms)"
proof -
  have "sk_history (collect_all ms \<lparr>sk_name = nm, sk_history = [], sk_max_entries = n\<rparr>)
      = drop (length ms - nat n) (map (\<lambda>(v, now). \<lparr>sr_name = nm, sr_value = v, sr_timestamp = now\<rparr>) ms)"
    using assms by (subst collect_history) (simp_all add: Let_def)
  then show ?thesis by (simp add: drop_map case_prod_unfold comp_def)
qed

theorem tracker_keeps_last_results_witness:
  "map sr_value (sk_history (collect_all [(1, 0), (2, 1), (3, 2)] \<lparr>sk_name = ''s'', sk_history = [], sk_max_entries = 2\<rparr>))
    = map fst (drop (length [(1, 0), (2, 1), (3 :: rat, 2 :: int)] - nat 2) [(1, 0), (2, 1), (3 :: rat, 2 :: int)])"
  by (rule tracker_keeps_last_results) simp

definition mean :: "rat list \<Rightarrow> rat" where
  "mean xs = foldl (+) 0 xs / of_nat (length xs)"

lemma budget_consumed:
  assumes "lc_target config \<le> 100" and "\<forall>v \<in> set history. v \<le> 100"
  shows "0 \<le> eb_consumed (calc_error_budget config history)
    \<and> eb_consumed (calc_error_budget config history) \<le> 1
    \<and> eb_remaining (calc_error_budget config history) = 1 - eb_consumed (calc_error_budget config history)"
proof -
  have "foldl (+) (0 :: rat) xs \<le> 100 * of_nat (length xs)" if "\<forall>v \<in> set xs. v \<le> 100" for xs
    using that by (induction xs rule: rev_induct) (auto simp: algebra_simps)
  then have "history \<noteq> [] \<Longrightarrow> foldl (+) 0 history / of_nat (length history) \<le> 100"
    using assms(2) by (simp add: divide_le_eq)
  then show ?thesis
    using assms(1) by (auto simp: calc_error_budget_def Let_def min_def max_def divide_simps)
qed

lemma burn_rate_is_consumed:
  "0 \<le> eb_consumed b \<Longrightarrow> history \<noteq> [] \<Longrightarrow> ba_burn_rate (calc_burn_rate config th history b now) = eb_consumed b"
  by (auto simp: calc_burn_rate_def Let_def)

text \<open>
  The error budget is used up exactly when the mean of all measurements is not above the target.
\<close>

theorem budget_exhausted_iff:
  assumes "lc_target config < 100" and "history \<noteq> []"
  shows "eb_exhausted (calc_error_budget config history) \<longleftrightarrow> mean history \<le> lc_target config"
proof -
  have "eb_exhausted (calc_error_budget config history) \<longleftrightarrow>
      1 \<le> (100 - mean history) / 100 / ((100 - lc_target config) / 100)"
    using assms by (simp add: calc_error_budget_def Let_def mean_def [symmetric])
  also have "\<dots> \<longleftrightarrow> mean history \<le> lc_target config"
    using assms(1) by (simp add: le_divide_eq)
  finally show ?thesis .
qed

theorem budget_exhausted_iff_witness:
  "eb_exhausted (calc_error_budget \<lparr>lc_name = ''a'', lc_sli_name = ''s'', lc_target = 99, lc_window_ms = 1\<rparr> [100, 97])
    \<longleftrightarrow> mean [100, 97] \<le> lc_target \<lparr>lc_name = ''a'', lc_sli_name = ''s'', lc_target = 99, lc_window_ms = 1\<rparr>"
  by (rule budget_exhausted_iff) simp_all

text \<open>The operations of a tracker.\<close>

datatype slo_event = Measure rat int | Subscribe nat | Unsubscribe nat

fun slo_step :: "slo_tracker \<times> (nat \<times> burn_rate_alert) list \<Rightarrow> slo_event \<Rightarrow> slo_tracker \<times> (nat \<times> burn_rate_alert) list" where
  "slo_step (t, told) (Measure v now) = (case slo_evaluate v now t of (_, calls, t1) \<Rightarrow> (t1, told @ calls))"
| "slo_step (t, told) (Subscribe h) = (on_burn_rate_alert h t, told)"
| "slo_step (t, told) (Unsubscribe h) = (off_burn_rate_alert h t, told)"

definition measured :: "slo_event list \<Rightarrow> rat list" where
  "measured es = concat (map (\<lambda>e. case e of Measure v now \<Rightarrow> [v] | _ \<Rightarrow> []) es)"

lemma slo_run_history:
  "slo_history (fst (foldl slo_step (slo_new config th, []) es)) = measured es
   \<and> lt_config (fst (foldl slo_step (slo_new config th, []) es)) = config
   \<and> lt_burn_rate_threshold (fst (foldl slo_step (slo_new config th, []) es)) = th"
proof (induction es rule: rev_induct)
  case Nil
  then show ?case by (simp add: slo_new_def slo_history_def elems_def measured_def)
next
  case (snoc e es)
  obtain t told where run: "foldl slo_step (slo_new config th, []) es = (t, told)" by fastforce
  with snoc show ?case
    by (cases e) (auto simp: slo_evaluate_def Let_def slo_history_def measured_def
        on_burn_rate_alert_def off_burn_rate_alert_def)
qed

text \<open>
  With the default threshold, or any of at least 1, no burn rate alert is ever sent, whatever is
  measured: the rate is the consumed share of the budget, which never exceeds 1.
\<close>

theorem burn_alert_never_fires:
  assumes "lc_target config \<le> 100" and "\<forall>v \<in> set (measured es). v \<le> 100" and "1 \<le> threshold"
  shows "snd (foldl slo_step (slo_new config threshold, []) es) = []"
  using assms(2)
proof (induction es rule: rev_induct)
  case (snoc e es)
  obtain t told where run: "foldl slo_step (slo_new config threshold, []) es = (t, told)" by fastforce
  have vs: "\<forall>v \<in> set (measured es). v \<le> 100" using snoc.prems by (simp add: measured_def)
  with snoc.IH run have "told = []" by simp
  moreover have t: "slo_history t = measured es" "lt_config t = config" "lt_burn_rate_threshold t = threshold"
    using slo_run_history [of config threshold es] by (simp_all add: run)
  moreover have "fst (snd (slo_evaluate v now t)) = []" if e: "e = Measure v now" for v now
  proof -
    define b where "b = calc_error_budget config (measured es @ [v])"
    have all: "\<forall>v \<in> set (measured es @ [v]). v \<le> 100" using snoc.prems e by (simp add: measured_def)
    have b: "0 \<le> eb_consumed b" "eb_consumed b \<le> 1"
      using budget_consumed [OF assms(1) all] by (simp_all add: b_def)
    then have "ba_burn_rate (calc_burn_rate config threshold (measured es @ [v]) b now) \<le> threshold"
      using burn_rate_is_consumed [of b "measured es @ [v]"] assms(3) by simp
    then have "\<not> ba_firing (calc_burn_rate config threshold (measured es @ [v]) b now)"
      by (simp add: calc_burn_rate_def Let_def)
    with t show ?thesis by (simp add: slo_evaluate_def Let_def b_def)
  qed
  ultimately show ?case
    by (cases e) (auto simp: run split: prod.splits)
qed simp

theorem burn_alert_never_fires_witness:
  "snd (foldl slo_step (slo_new \<lparr>lc_name = ''api'', lc_sli_name = ''a'', lc_target = 999/10, lc_window_ms = 1000\<rparr> 2, [])
     [Subscribe 1, Measure 50 0, Measure 0 1]) = []"
  by (rule burn_alert_never_fires) (simp_all add: measured_def)

section \<open>Cost reports\<close>

lemma keep_latest_keys: "jwf m \<Longrightarrow> jwf (keep_latest m r)"
  by (auto simp: keep_latest_def intro: jwf_jset split: option.splits)

text \<open>The record kept of a resource: a latest one, the first of those with the same time.\<close>

lemma latest_is_latest:
  "(jget (foldl keep_latest [] rs) rid = None \<longleftrightarrow> (\<forall>r \<in> set rs. ur_resource_id r \<noteq> rid))
   \<and> (\<forall>e. jget (foldl keep_latest [] rs) rid = Some e \<longrightarrow>
        e \<in> set rs \<and> ur_resource_id e = rid
        \<and> (\<forall>r \<in> set rs. ur_resource_id r = rid \<longrightarrow> ur_timestamp r \<le> ur_timestamp e))"
proof (induction rs rule: rev_induct)
  case (snoc r rs)
  define m where "m = foldl keep_latest [] rs"
  have step: "foldl keep_latest [] (rs @ [r]) = keep_latest m r" by (simp add: m_def)
  note IH = snoc.IH [folded m_def]
  show ?case
  proof (cases "ur_resource_id r = rid")
    case False
    then have "jget (keep_latest m r) rid = jget m rid"
      by (simp add: keep_latest_def split: option.split)
    with IH False show ?thesis unfolding step by auto
  next
    case True
    then have "jget (keep_latest m r) rid = Some (case jget m rid of None \<Rightarrow> r
        | Some e \<Rightarrow> if ur_timestamp e < ur_timestamp r then r else e)"
      by (simp add: keep_latest_def split: option.split)
    with IH True show ?thesis unfolding step by (cases "jget m rid") (auto intro: order_trans)
  qed
qed simp

lemma latest_wf: "jwf (foldl keep_latest [] rs)"
  by (induction rs rule: rev_induct) (simp_all add: keep_latest_keys)

text \<open>
  The idle report names a resource exactly when its latest record is older than an hour and uses
  less than a twentieth of a processor and a tenth of the memory.
\<close>

theorem idle_report_exact:
  "rid \<in> ir_resource_id ` set (detect_idle_resources now t) \<longleftrightarrow>
     (\<exists>e. jget (latest_per_resource t) rid = Some e \<and> e \<in> set (ct_records t) \<and> ur_resource_id e = rid
        \<and> (\<forall>r \<in> set (ct_records t). ur_resource_id r = rid \<longrightarrow> ur_timestamp r \<le> ur_timestamp e)
        \<and> ur_cpu e < 1/20 \<and> ur_memory e < 1/10 \<and> 3600000 \<le> now - ur_timestamp e)"
proof -
  have "rid \<in> ir_resource_id ` set (detect_idle_resources now t) \<longleftrightarrow>
      (\<exists>e \<in> set (jvalues (latest_per_resource t)). ur_resource_id e = rid \<and> is_idle now e)"
    unfolding detect_idle_resources_def set_map image_image by auto
  also have "\<dots> \<longleftrightarrow> (\<exists>e. jget (latest_per_resource t) rid = Some e \<and> is_idle now e)"
    using jvalues_entries [OF latest_wf [of "ct_records t"]] latest_is_latest [of "ct_records t"]
    unfolding latest_per_resource_def by metis
  finally show ?thesis
    using latest_is_latest [of "ct_records t" rid]
    by (auto simp: is_idle_def idle_duration_ms_def latest_per_resource_def)
qed

lemma sum_add_cost: "sum_list (jvalues (add_cost k v m)) = v + sum_list (jvalues m)"
proof -
  have "jget m k = Some x \<Longrightarrow> sum_list (jvalues (jset k (x + v) m)) = v + sum_list (jvalues m)" for x
    by (induction m) (auto split: if_splits)
  moreover have "jget m k = None \<Longrightarrow> sum_list (jvalues (jset k v m)) = v + sum_list (jvalues m)"
    by (induction m) (auto split: if_splits)
  ultimately show ?thesis by (cases "jget m k") (simp_all add: add_cost_def)
qed

lemma sum_add_costs:
  "sum_list (jvalues (foldl (\<lambda>m r. add_cost (f r) (g r) m) m rs)) = foldl (\<lambda>s r. s + g r) (sum_list (jvalues m)) rs"
  by (induction rs arbitrary: m) (simp_all add: sum_add_cost add.commute)

text \<open>The costs by service and by region both add up to the whole cost; likewise for carbon.\<close>

theorem summaries_add_up:
  "sum_list (jvalues (cs_by_service (cost_get_summary now t))) = cs_total (cost_get_summary now t)
   \<and> sum_list (jvalues (cs_by_region (cost_get_summary now t))) = cs_total (cost_get_summary now t)
   \<and> sum_list (jvalues (gs_by_region (carbon_get_summary g))) = gs_total_grams (carbon_get_summary g)"
  by (simp add: cost_get_summary_def carbon_get_summary_def Let_def sum_add_costs)

text \<open>
  An idle resource is counted both as idle and as oversized: the savings reported exceed the whole
  cost.
\<close>

theorem savings_exceed_cost:
  "let s = cost_get_summary 7200000
       (cost_record \<lparr>ur_resource_id = ''r'', ur_resource_type = ''vm'', ur_service = ''s'', ur_region = ''e'',
          ur_cost_per_hour = 1, ur_cpu = 0, ur_memory = 0, ur_timestamp = 0\<rparr> \<lparr>ct_records = [], ct_tags = []\<rparr>)
   in cs_total s = 730 \<and> cs_potential_savings s = 1095"
  by code_simp

text \<open>An off-peak job runs at three o'clock UTC, later than now and within a day.\<close>

theorem off_peak_is_next_three:
  "now < next_off_peak now \<and> next_off_peak now \<le> now + day_ms \<and> next_off_peak now mod day_ms = 10800000"
proof -
  define d where "d = now div day_ms * day_ms"
  have d: "d \<le> now" "now < d + day_ms" "d mod day_ms = 0"
    unfolding d_def day_ms_def by (simp_all add: div_mult_mod_eq minus_mod_eq_div_mult [symmetric])
  have "(d + 10800000) mod day_ms = 10800000" "(d + 10800000 + day_ms) mod day_ms = 10800000"
    unfolding d_def day_ms_def by simp_all
  with d show ?thesis
    by (auto simp: next_off_peak_def Let_def d_def [symmetric] day_ms_def)
qed

end
