(* ===== verification/Profiling.thy ===== *)
theory Profiling
  imports Regex
begin

text \<open>
  \<open>packages/observability/src/performance\<close>, \<open>memory\<close> and \<open>logging\<close>: timings, slow queries and
  budgets (\<open>PerformanceMonitor.ts\<close>, \<open>QueryProfiler.ts\<close>, \<open>RequestTimingCollector.ts\<close>), heap
  snapshots, leak detection, alerts and garbage collection statistics, and the decorators of a
  logger with the redaction of personal data.

  The clock and what a callback returns are arguments.  Labels of a sample and the label of a heap
  snapshot are left out: no operation reads them.
\<close>

section \<open>Keeping the last entries\<close>

definition keep_last :: "nat \<Rightarrow> 'a list \<Rightarrow> 'a list" where
  "keep_last n xs = drop (length xs - n) xs"

lemma keep_last_snoc: "keep_last n (keep_last n xs @ [x]) = keep_last n (xs @ [x])"
  by (simp add: keep_last_def) (cases "n \<le> length xs"; simp add: Suc_diff_le)

lemma length_keep_last: "length (keep_last n xs) = min n (length xs)"
  by (auto simp: keep_last_def)

section \<open>Performance monitor\<close>

record timing_sample =
  ts_operation :: string
  ts_duration :: int
  ts_timestamp :: int

record slow_query =
  sq_query :: string
  sq_duration :: int
  sq_timestamp :: int

record budget_violation =
  bv_operation :: string
  bv_threshold :: int
  bv_actual :: int
  bv_timestamp :: int

record 'm monitor =
  pm_slow_threshold :: int
  pm_max_samples :: int
  pm_samples :: "timing_sample list"
  pm_slow_queries :: "slow_query list"
  pm_memory :: "'m list"
  pm_violations :: "budget_violation list"
  pm_budgets :: "(string, int) jsmap"

definition monitor_new :: "int option \<Rightarrow> int option \<Rightarrow> 'm monitor" where
  "monitor_new slow max_samples = \<lparr>pm_slow_threshold = (case slow of None \<Rightarrow> 1000 | Some v \<Rightarrow> v),
     pm_max_samples = (case max_samples of None \<Rightarrow> 1000 | Some v \<Rightarrow> v),
     pm_samples = [], pm_slow_queries = [], pm_memory = [], pm_violations = [], pm_budgets = []\<rparr>"

definition trim_array :: "int \<Rightarrow> 'a list \<Rightarrow> 'a list" where
  "trim_array n xs = (if int (length xs) > n then drop (nat (int (length xs) - n)) xs else xs)"

definition check_budget :: "string \<Rightarrow> int \<Rightarrow> int \<Rightarrow> 'm monitor \<Rightarrow> 'm monitor" where
  "check_budget operation duration now p =
     (case jget (pm_budgets p) operation of
        None \<Rightarrow> p
      | Some threshold \<Rightarrow>
          if duration \<le> threshold then p
          else p\<lparr>pm_violations := pm_violations p @
                 [\<lparr>bv_operation = operation, bv_threshold = threshold, bv_actual = duration,
                   bv_timestamp = now\<rparr>]\<rparr>)"

definition monitor_record :: "string \<Rightarrow> int \<Rightarrow> int \<Rightarrow> 'm monitor \<Rightarrow> 'm monitor" where
  "monitor_record operation duration now p =
     check_budget operation duration now
       (p\<lparr>pm_samples := trim_array (pm_max_samples p)
            (pm_samples p @ [\<lparr>ts_operation = operation, ts_duration = duration, ts_timestamp = now\<rparr>])\<rparr>)"

text \<open>\<open>time\<close>: the callback ends at \<open>now\<close> with a value or throws, in which case nothing is recorded.\<close>

definition monitor_time :: "string \<Rightarrow> int \<Rightarrow> ('e, 'a) outcome \<Rightarrow> int \<Rightarrow> 'm monitor \<Rightarrow> ('e, 'a) outcome \<times> 'm monitor" where
  "monitor_time operation start result now p =
     (case result of
        Inl e \<Rightarrow> (Inl e, p)
      | Inr v \<Rightarrow> (Inr v, monitor_record operation (now - start) now p))"

definition record_slow_query :: "string \<Rightarrow> int \<Rightarrow> int \<Rightarrow> 'm monitor \<Rightarrow> 'm monitor" where
  "record_slow_query query duration now p =
     (if duration \<le> pm_slow_threshold p then p
      else p\<lparr>pm_slow_queries := pm_slow_queries p @
             [\<lparr>sq_query = query, sq_duration = duration, sq_timestamp = now\<rparr>]\<rparr>)"

definition snapshot_memory :: "'m \<Rightarrow> 'm monitor \<Rightarrow> 'm monitor" where
  "snapshot_memory snap p = p\<lparr>pm_memory := pm_memory p @ [snap]\<rparr>"

definition add_budget :: "string \<Rightarrow> int \<Rightarrow> 'm monitor \<Rightarrow> 'm monitor" where
  "add_budget name threshold p = p\<lparr>pm_budgets := jset name threshold (pm_budgets p)\<rparr>"

definition remove_budget :: "string \<Rightarrow> 'm monitor \<Rightarrow> bool \<times> 'm monitor" where
  "remove_budget name p = (jhas (pm_budgets p) name, p\<lparr>pm_budgets := jdelete name (pm_budgets p)\<rparr>)"

definition monitor_clear :: "'m monitor \<Rightarrow> 'm monitor" where
  "monitor_clear p = p\<lparr>pm_samples := [], pm_slow_queries := [], pm_memory := [], pm_violations := []\<rparr>"

datatype 'm monitor_event =
    Timed string int int
  | SlowQuery string int int
  | Memory 'm
  | AddBudget string int
  | RemoveBudget string

fun monitor_step :: "'m monitor \<Rightarrow> 'm monitor_event \<Rightarrow> 'm monitor" where
  "monitor_step p (Timed op d now) = monitor_record op d now p"
| "monitor_step p (SlowQuery q d now) = record_slow_query q d now p"
| "monitor_step p (Memory s) = snapshot_memory s p"
| "monitor_step p (AddBudget n t) = add_budget n t p"
| "monitor_step p (RemoveBudget n) = snd (remove_budget n p)"

section \<open>Queries and requests\<close>

record query_profile =
  qp_name :: string
  qp_duration :: int
  qp_row_count :: "int option"
  qp_timestamp :: int

definition profile_query :: "string \<Rightarrow> int \<Rightarrow> ('e, 'a) outcome \<Rightarrow> int \<Rightarrow> ('a \<Rightarrow> int) option
    \<Rightarrow> query_profile list \<Rightarrow> ('e, 'a) outcome \<times> query_profile list" where
  "profile_query name start result now get_row_count ps =
     (case result of
        Inl e \<Rightarrow> (Inl e, ps)
      | Inr v \<Rightarrow> (Inr v, ps @ [\<lparr>qp_name = name, qp_duration = now - start,
                                qp_row_count = map_option (\<lambda>f. f v) get_row_count, qp_timestamp = now\<rparr>]))"

definition get_slowest :: "int \<Rightarrow> query_profile list \<Rightarrow> query_profile list" where
  "get_slowest n ps =
     (let sorted_profiles = sort_key (\<lambda>p. - qp_duration p) ps
      in if n < 0 then take (nat (int (length ps) + n)) sorted_profiles else take (nat n) sorted_profiles)"

definition profiles_by_name :: "string \<Rightarrow> query_profile list \<Rightarrow> query_profile list" where
  "profiles_by_name name ps = filter (\<lambda>p. qp_name p = name) ps"

record request_timing =
  rt_method :: string
  rt_path :: string
  rt_status :: "int option"
  rt_duration :: rat
  rt_timestamp :: int

definition requests_slow :: "rat \<Rightarrow> request_timing list \<Rightarrow> request_timing list" where
  "requests_slow threshold rs = filter (\<lambda>r. rt_duration r > threshold) rs"

definition requests_by_method :: "string \<Rightarrow> request_timing list \<Rightarrow> request_timing list" where
  "requests_by_method method rs = filter (\<lambda>r. to_upper (rt_method r) = to_upper method) rs"

definition requests_by_path :: "string \<Rightarrow> request_timing list \<Rightarrow> request_timing list" where
  "requests_by_path path rs = filter (\<lambda>r. rt_path r = path) rs"

definition requests_by_status :: "int \<Rightarrow> request_timing list \<Rightarrow> request_timing list" where
  "requests_by_status status rs = filter (\<lambda>r. rt_status r = Some status) rs"

definition average_duration :: "request_timing list \<Rightarrow> rat option" where
  "average_duration rs =
     (if rs = [] then None
      else Some (foldl (\<lambda>s r. s + rt_duration r) 0 rs / of_nat (length rs)))"

section \<open>Memory\<close>

record heap_snapshot =
  hp_captured_at :: int
  hp_heap_used :: int
  hp_heap_total :: int
  hp_external :: int
  hp_array_buffers :: int

definition max_snapshots :: nat where "max_snapshots = 500"

definition heap_capture :: "heap_snapshot \<Rightarrow> heap_snapshot list \<Rightarrow> heap_snapshot list" where
  "heap_capture s ss = (let all = ss @ [s] in if length all > max_snapshots then tl all else all)"

definition heap_peak :: "heap_snapshot list \<Rightarrow> heap_snapshot option" where
  "heap_peak ss = (case ss of [] \<Rightarrow> None
     | x # xs \<Rightarrow> Some (foldl (\<lambda>m s. if hp_heap_used s > hp_heap_used m then s else m) x xs))"

record heap_diff =
  hd_from :: int
  hd_to :: int
  hd_heap_delta :: int
  hd_external_delta :: int

fun heap_diffs :: "heap_snapshot list \<Rightarrow> heap_diff list" where
  "heap_diffs (p # c # ss) =
     \<lparr>hd_from = hp_captured_at p, hd_to = hp_captured_at c, hd_heap_delta = hp_heap_used c - hp_heap_used p,
      hd_external_delta = hp_external c - hp_external p\<rparr> # heap_diffs (c # ss)"
| "heap_diffs _ = []"

definition total_heap_growth :: "heap_snapshot list \<Rightarrow> int" where
  "total_heap_growth ss =
     (if length ss < 2 then 0 else hp_heap_used (last ss) - hp_heap_used (hd ss))"

definition min_samples :: nat where "min_samples = 3"

fun is_consistent_growth :: "heap_snapshot list \<Rightarrow> bool" where
  "is_consistent_growth (p # c # ss) = (hp_heap_used p < hp_heap_used c \<and> is_consistent_growth (c # ss))"
| "is_consistent_growth _ = True"

record leak_record =
  lk_growth :: int
  lk_snapshot_count :: nat
  lk_message :: string

record leak_detector =
  ld_observations :: "heap_snapshot list"
  ld_leaks :: "leak_record list"
  ld_threshold :: int

definition leak_evaluate :: "leak_detector \<Rightarrow> leak_detector" where
  "leak_evaluate d =
     (let n = length (ld_observations d) in
      if n < min_samples then d
      else
        let window = drop (n - min_samples) (ld_observations d);
            growth = hp_heap_used (last window) - hp_heap_used (hd window)
        in if ld_threshold d \<le> growth \<and> is_consistent_growth window
           then d\<lparr>ld_leaks := ld_leaks d @ [\<lparr>lk_growth = growth, lk_snapshot_count = n,
                  lk_message = ''Consistent heap growth of '' @ show_int growth @ '' bytes over 3 observations''\<rparr>]\<rparr>
           else d)"

definition leak_observe :: "heap_snapshot \<Rightarrow> leak_detector \<Rightarrow> leak_detector" where
  "leak_observe s d = leak_evaluate (d\<lparr>ld_observations := ld_observations d @ [s]\<rparr>)"

datatype memory_metric = HeapUsed | HeapTotal | External | Rss

record alert_rule =
  al_name :: string
  al_threshold :: int
  al_metric :: memory_metric

record memory_alert =
  ma_rule :: string
  ma_fired_at :: int
  ma_threshold :: int
  ma_actual :: int
  ma_overage :: int

record alert_manager =
  am_rules :: "(string, alert_rule) jsmap"
  am_alerts :: "memory_alert list"

text \<open>An alert snapshot is a heap snapshot with the resident size, if known.\<close>

definition extract_metric :: "heap_snapshot \<Rightarrow> int option \<Rightarrow> memory_metric \<Rightarrow> int" where
  "extract_metric s rss metric =
     (case metric of
        HeapUsed \<Rightarrow> hp_heap_used s | HeapTotal \<Rightarrow> hp_heap_total s | External \<Rightarrow> hp_external s
      | Rss \<Rightarrow> (case rss of None \<Rightarrow> 0 | Some v \<Rightarrow> v))"

definition alert_add_rule :: "alert_rule \<Rightarrow> alert_manager \<Rightarrow> alert_manager" where
  "alert_add_rule r a = a\<lparr>am_rules := jset (al_name r) r (am_rules a)\<rparr>"

definition alert_remove_rule :: "string \<Rightarrow> alert_manager \<Rightarrow> bool \<times> alert_manager" where
  "alert_remove_rule name a = (jhas (am_rules a) name, a\<lparr>am_rules := jdelete name (am_rules a)\<rparr>)"

definition rule_alert :: "heap_snapshot \<Rightarrow> int option \<Rightarrow> alert_rule \<Rightarrow> memory_alert list" where
  "rule_alert s rss r =
     (let actual = extract_metric s rss (al_metric r) in
      if actual > al_threshold r
      then [\<lparr>ma_rule = al_name r, ma_fired_at = hp_captured_at s, ma_threshold = al_threshold r,
             ma_actual = actual, ma_overage = actual - al_threshold r\<rparr>]
      else [])"

definition alert_evaluate :: "heap_snapshot \<Rightarrow> int option \<Rightarrow> alert_manager \<Rightarrow> alert_manager" where
  "alert_evaluate s rss a = a\<lparr>am_alerts := am_alerts a @ concat (map (rule_alert s rss) (jvalues (am_rules a)))\<rparr>"

definition alerts_by_rule :: "string \<Rightarrow> alert_manager \<Rightarrow> memory_alert list" where
  "alerts_by_rule name a = filter (\<lambda>x. ma_rule x = name) (am_alerts a)"

datatype gc_type = Minor | Major | Incremental

record gc_event =
  ge_occurred_at :: int
  ge_duration :: rat
  ge_type :: gc_type
  ge_reclaimed :: int

record gc_stats =
  gs_events :: nat
  gs_duration :: rat
  gs_reclaimed :: int
  gs_avg_duration :: rat
  gs_major :: nat
  gs_minor :: nat
  gs_incremental :: nat

definition gc_get_by_type :: "gc_type \<Rightarrow> gc_event list \<Rightarrow> gc_event list" where
  "gc_get_by_type t es = filter (\<lambda>e. ge_type e = t) es"

definition gc_add :: "gc_stats \<Rightarrow> gc_event \<Rightarrow> gc_stats" where
  "gc_add s e = s\<lparr>gs_duration := gs_duration s + ge_duration e, gs_reclaimed := gs_reclaimed s + ge_reclaimed e,
     gs_major := gs_major s + (if ge_type e = Major then 1 else 0),
     gs_minor := gs_minor s + (if ge_type e = Minor then 1 else 0),
     gs_incremental := gs_incremental s + (if ge_type e \<noteq> Major \<and> ge_type e \<noteq> Minor then 1 else 0)\<rparr>"

definition gc_get_stats :: "gc_event list \<Rightarrow> gc_stats" where
  "gc_get_stats es =
     (let zero = \<lparr>gs_events = length es, gs_duration = 0, gs_reclaimed = 0, gs_avg_duration = 0,
                  gs_major = 0, gs_minor = 0, gs_incremental = 0\<rparr>
      in if es = [] then zero
         else let s = foldl gc_add zero es in s\<lparr>gs_avg_duration := gs_duration s / of_nat (length es)\<rparr>)"

definition gc_pressure_ratio :: "gc_event list \<Rightarrow> rat" where
  "gc_pressure_ratio es =
     (if length es < 2 then 0
      else let elapsed = ge_occurred_at (last es) - ge_occurred_at (hd es)
           in if elapsed \<le> 0 then 0 else foldl (\<lambda>s e. s + ge_duration e) 0 es / of_int elapsed)"

definition gc_longest :: "gc_event list \<Rightarrow> gc_event option" where
  "gc_longest es = (case es of [] \<Rightarrow> None
     | x # xs \<Rightarrow> Some (foldl (\<lambda>m e. if ge_duration e > ge_duration m then e else m) x xs))"

section \<open>Loggers\<close>

datatype log_level = Debug | Info | Warn | Error

fun level_number :: "log_level \<Rightarrow> nat" where
  "level_number Debug = 0" | "level_number Info = 1" | "level_number Warn = 2" | "level_number Error = 3"

text \<open>
  A logger is the calls it forwards to the logger inside it; \<open>'c\<close> is the message, error and context
  of a call.
\<close>

definition level_filter :: "log_level \<Rightarrow> log_level \<Rightarrow> 'c \<Rightarrow> (log_level \<times> 'c) list" where
  "level_filter min_level level c =
     (if level = Error \<or> level_number min_level \<le> level_number level then [(level, c)] else [])"

text \<open>\<open>random()\<close> is a draw of the list of numbers still to come; errors draw none.\<close>

definition sampling_log :: "rat \<Rightarrow> log_level \<Rightarrow> 'c \<Rightarrow> rat list \<Rightarrow> (log_level \<times> 'c) list \<times> rat list" where
  "sampling_log rate level c draws =
     (if level = Error then ([(level, c)], draws)
      else case draws of
             [] \<Rightarrow> ([], [])
           | r # rest \<Rightarrow> (if r < rate then [(level, c)] else [], rest))"

fun sampling_run :: "rat \<Rightarrow> (log_level \<times> 'c) list \<Rightarrow> rat list \<Rightarrow> (log_level \<times> 'c) list" where
  "sampling_run rate [] draws = []"
| "sampling_run rate ((level, c) # calls) draws =
     (case sampling_log rate level c draws of (out, rest) \<Rightarrow> out @ sampling_run rate calls rest)"

text \<open>\<open>measure\<close>: the call that is logged, and what it returns or throws.\<close>

definition measure_logged :: "string \<Rightarrow> int \<Rightarrow> ('e, 'a) outcome \<Rightarrow> int \<Rightarrow> (log_level \<times> string \<times> 'e option \<times> int) \<times> ('e, 'a) outcome" where
  "measure_logged operation start result now =
     (case result of
        Inr v \<Rightarrow> ((Info, operation @ '' completed'', None, now - start), Inr v)
      | Inl e \<Rightarrow> ((Error, operation @ '' failed'', Some e, now - start), Inl e))"

text \<open>
  What a log context holds: scalars, objects and arrays.  \<open>Object.entries\<close> of an array gives its
  indices as keys.
\<close>

datatype 'a log_value = Scalar 'a | Text string | Obj "(string \<times> 'a log_value) list" | Arr "'a log_value list"

definition pii_fields :: "string list" where
  "pii_fields = [''password'', ''ssn'', ''creditCard'', ''email'', ''phone'', ''address'']"

definition index_entries :: "'b list \<Rightarrow> (string \<times> 'b) list" where
  "index_entries vs = map (\<lambda>(i, v). (show_int (int i), v)) (enumerate 0 vs)"

lemma index_entries_values: "(k, v) \<in> set (index_entries vs) \<Longrightarrow> v \<in> set vs"
  by (auto simp: index_entries_def in_set_enumerate_eq)

function redact_value :: "'a log_value \<Rightarrow> 'a log_value" where
  "redact_value (Scalar x) = Scalar x"
| "redact_value (Text s) = Text s"
| "redact_value (Obj es) =
     Obj (map (\<lambda>(k, v). (k, if k \<in> set pii_fields then Text ''[REDACTED]'' else redact_value v)) es)"
| "redact_value (Arr vs) =
     Obj (map (\<lambda>(k, v). (k, if k \<in> set pii_fields then Text ''[REDACTED]'' else redact_value v))
       (index_entries vs))"
  by pat_completeness auto
termination
proof (relation "measure size")
  fix es :: "(string \<times> 'a log_value) list" and e k v
  assume "e \<in> set es" "(k, v) = e"
  then show "(v, Obj es) \<in> measure size"
    by (induction es) auto
next
  fix vs :: "'a log_value list" and e k v
  assume "e \<in> set (index_entries vs)" "(k, v) = e"
  then have "v \<in> set vs" by (auto dest: index_entries_values)
  then show "(v, Arr vs) \<in> measure size" by (induction vs) auto
qed auto

definition redact :: "(string \<times> 'a log_value) list \<Rightarrow> (string \<times> 'a log_value) list" where
  "redact es =
     map (\<lambda>(k, v). (k, if k \<in> set pii_fields then Text ''[REDACTED]'' else redact_value v)) es"

section \<open>What a monitor reports\<close>

text \<open>The durations timed and the budget of an operation in force after some events.\<close>

fun timed :: "'m monitor_event list \<Rightarrow> timing_sample list" where
  "timed [] = []"
| "timed (Timed op d now # es) = \<lparr>ts_operation = op, ts_duration = d, ts_timestamp = now\<rparr> # timed es"
| "timed (_ # es) = timed es"

fun budgets_after :: "(string, int) jsmap \<Rightarrow> 'm monitor_event list \<Rightarrow> (string, int) jsmap" where
  "budgets_after b [] = b"
| "budgets_after b (AddBudget n t # es) = budgets_after (jset n t b) es"
| "budgets_after b (RemoveBudget n # es) = budgets_after (jdelete n b) es"
| "budgets_after b (_ # es) = budgets_after b es"

text \<open>The violations: each timing over the budget that its operation has at that moment.\<close>

fun over_budget :: "(string, int) jsmap \<Rightarrow> 'm monitor_event list \<Rightarrow> budget_violation list" where
  "over_budget b [] = []"
| "over_budget b (Timed op d now # es) =
     (case jget b op of
        Some t \<Rightarrow> if t < d then [\<lparr>bv_operation = op, bv_threshold = t, bv_actual = d, bv_timestamp = now\<rparr>] else []
      | None \<Rightarrow> []) @ over_budget b es"
| "over_budget b (AddBudget n t # es) = over_budget (jset n t b) es"
| "over_budget b (RemoveBudget n # es) = over_budget (jdelete n b) es"
| "over_budget b (_ # es) = over_budget b es"

lemma check_budget_fields [simp]:
  "pm_samples (check_budget op d now p) = pm_samples p"
  "pm_budgets (check_budget op d now p) = pm_budgets p"
  "pm_max_samples (check_budget op d now p) = pm_max_samples p"
  "pm_violations (check_budget op d now p) = pm_violations p @
     (case jget (pm_budgets p) op of
        Some t \<Rightarrow> if t < d then [\<lparr>bv_operation = op, bv_threshold = t, bv_actual = d, bv_timestamp = now\<rparr>] else []
      | None \<Rightarrow> [])"
  by (auto simp: check_budget_def split: option.splits)

lemma trim_keep: "0 \<le> n \<Longrightarrow> trim_array n xs = keep_last (nat n) xs"
  by (auto simp: trim_array_def keep_last_def nat_diff_distrib)

lemma monitor_run:
  assumes "0 \<le> pm_max_samples p" "pm_samples p = keep_last (nat (pm_max_samples p)) xs"
  shows "pm_samples (foldl monitor_step p es) = keep_last (nat (pm_max_samples p)) (xs @ timed es)
    \<and> pm_violations (foldl monitor_step p es) = pm_violations p @ over_budget (pm_budgets p) es"
  using assms
proof (induction es arbitrary: p xs)
  case (Cons e es)
  show ?case
  proof (cases e)
    case (Timed op d now)
    define p1 where "p1 = monitor_step p e"
    define s where "s = \<lparr>ts_operation = op, ts_duration = d, ts_timestamp = now\<rparr>"
    have p1: "pm_samples p1 = keep_last (nat (pm_max_samples p1)) (xs @ [s])" "0 \<le> pm_max_samples p1"
      "pm_max_samples p1 = pm_max_samples p" "pm_budgets p1 = pm_budgets p"
      using Cons.prems by (simp_all add: p1_def Timed monitor_record_def s_def trim_keep keep_last_snoc)
    from Cons.IH [OF p1(2,1)] show ?thesis
      by (simp add: p1_def [symmetric] p1(3,4) Timed [symmetric])
        (simp add: p1_def Timed s_def monitor_record_def)
  next
    case (SlowQuery q d now)
    with Cons.prems Cons.IH [of "record_slow_query q d now p" xs] show ?thesis
      by (simp add: record_slow_query_def split: if_splits)
  next
    case (Memory m)
    with Cons.prems Cons.IH [of "snapshot_memory m p" xs] show ?thesis by (simp add: snapshot_memory_def)
  next
    case (AddBudget n t)
    with Cons.prems Cons.IH [of "add_budget n t p" xs] show ?thesis by (simp add: add_budget_def)
  next
    case (RemoveBudget n)
    with Cons.prems Cons.IH [of "snd (remove_budget n p)" xs] show ?thesis by (simp add: remove_budget_def)
  qed
qed simp

text \<open>
  After any events the report holds the last timings, as many as the maximum, and a violation for
  each timing that exceeded the budget its operation had at that moment, in order.
\<close>

theorem monitor_reports_exactly:
  assumes "max_samples \<noteq> None \<longrightarrow> 0 \<le> the max_samples"
  shows "let p = foldl monitor_step (monitor_new slow max_samples) es in
    pm_samples p = keep_last (nat (pm_max_samples (monitor_new slow max_samples :: 'm monitor))) (timed es)
    \<and> pm_violations p = over_budget [] (es :: 'm monitor_event list)"
proof -
  have "0 \<le> pm_max_samples (monitor_new slow max_samples :: 'm monitor)"
    using assms by (auto simp: monitor_new_def split: option.splits)
  from monitor_run [OF this, of "[]" es] show ?thesis
    by (simp add: Let_def monitor_new_def keep_last_def)
qed

theorem monitor_reports_exactly_witness:
  "let p = foldl monitor_step (monitor_new None (Some 1))
       [AddBudget ''q'' 10, Timed ''q'' 12 1, Timed ''q'' 5 2 :: nat monitor_event] in
    pm_samples p = keep_last (nat (pm_max_samples (monitor_new None (Some 1) :: nat monitor)))
      (timed [AddBudget ''q'' 10, Timed ''q'' 12 1, Timed ''q'' 5 2 :: nat monitor_event])
    \<and> pm_violations p = over_budget [] [AddBudget ''q'' 10, Timed ''q'' 12 1, Timed ''q'' 5 2 :: nat monitor_event]"
  by (rule monitor_reports_exactly) simp

section \<open>Memory\<close>

lemma capture_all: "foldl (\<lambda>ss s. heap_capture s ss) [] xs = keep_last max_snapshots xs"
proof (induction xs rule: rev_induct)
  case (snoc x xs)
  have "heap_capture x ss = keep_last max_snapshots (ss @ [x])" if "length ss \<le> max_snapshots" for ss
  proof (cases "length ss = max_snapshots")
    case True
    then show ?thesis by (cases ss) (auto simp: heap_capture_def keep_last_def Let_def max_snapshots_def)
  next
    case False
    with that show ?thesis by (simp add: heap_capture_def keep_last_def Let_def)
  qed
  with snoc show ?case by (simp add: length_keep_last keep_last_snoc)
qed (simp add: keep_last_def)

lemma diffs_telescope:
  "ss \<noteq> [] \<Longrightarrow> sum_list (map hd_heap_delta (heap_diffs ss)) = hp_heap_used (last ss) - hp_heap_used (hd ss)"
  by (induction ss rule: heap_diffs.induct) auto

text \<open>
  The collector keeps the last 500 snapshots, and the growth it reports is the sum of the
  differences between consecutive ones.
\<close>

theorem heap_growth_telescopes:
  "let ss = foldl (\<lambda>ss s. heap_capture s ss) [] xs in
     ss = drop (length xs - 500) xs
     \<and> sum_list (map hd_heap_delta (heap_diffs ss)) = total_heap_growth ss"
proof -
  have "sum_list (map hd_heap_delta (heap_diffs ss)) = total_heap_growth ss" for ss
  proof (cases "length ss < 2")
    case True
    then show ?thesis by (cases ss rule: heap_diffs.cases) (auto simp: total_heap_growth_def)
  next
    case False
    then have "ss \<noteq> []" by auto
    with False show ?thesis by (simp add: diffs_telescope total_heap_growth_def)
  qed
  then show ?thesis
    unfolding capture_all Let_def by (simp add: keep_last_def max_snapshots_def)
qed

text \<open>Three observations in a row that grow, by at least the threshold in all.\<close>

definition grows :: "int \<Rightarrow> int list \<Rightarrow> bool" where
  "grows threshold w = (case w of [a, b, c] \<Rightarrow> a < b \<and> b < c \<and> threshold \<le> c - a | _ \<Rightarrow> False)"

fun growing_windows :: "int \<Rightarrow> int list \<Rightarrow> nat" where
  "growing_windows th (a # b # c # xs) = (if grows th [a, b, c] then 1 else 0) + growing_windows th (b # c # xs)"
| "growing_windows th _ = 0"

lemma growing_windows_snoc:
  "growing_windows th (xs @ [a, b, c]) = growing_windows th (xs @ [a, b]) + (if grows th [a, b, c] then 1 else 0)"
proof (induction xs rule: growing_windows.induct [of "\<lambda>th xs. growing_windows th (xs @ [a, b, c])
      = growing_windows th (xs @ [a, b]) + (if grows th [a, b, c] then 1 else 0)" th])
qed (auto simp: Cons_eq_append_conv split: list.split)

lemma last_three:
  assumes "3 \<le> length xs"
  obtains ys a b c where "xs = ys @ [a, b, c]"
proof -
  define w where "w = drop (length xs - 3) xs"
  have "length w = 3" using assms by (simp add: w_def)
  then obtain a b c where "w = [a, b, c]" by (auto simp: numeral_3_eq_3 length_Suc_conv)
  then have "drop (length xs - 3) xs = [a, b, c]" by (simp add: w_def)
  with that show thesis by (metis append_take_drop_id)
qed

text \<open>
  A leak is recorded exactly at each observation that completes such a window.
\<close>

theorem leaks_are_growing_windows:
  "length (ld_leaks (foldl (\<lambda>d s. leak_observe s d) \<lparr>ld_observations = [], ld_leaks = [], ld_threshold = th\<rparr> xs))
     = growing_windows th (map hp_heap_used xs)"
proof -
  define run where "run = foldl (\<lambda>d s. leak_observe s d) \<lparr>ld_observations = [], ld_leaks = [], ld_threshold = th\<rparr>"
  have "ld_observations (run xs) = xs \<and> ld_threshold (run xs) = th
      \<and> length (ld_leaks (run xs)) = growing_windows th (map hp_heap_used xs)"
  proof (induction xs rule: rev_induct)
    case Nil
    show ?case by (simp add: run_def)
  next
    case (snoc x xs)
    have step: "run (xs @ [x]) = leak_observe x (run xs)" by (simp add: run_def)
    show ?case
    proof (cases "length (xs @ [x]) < 3")
      case True
      then have "growing_windows th (map hp_heap_used (xs @ [x])) = 0"
        by (cases xs rule: heap_diffs.cases) auto
      moreover have "growing_windows th (map hp_heap_used xs) = 0"
        using True by (cases xs rule: heap_diffs.cases) auto
      ultimately show ?thesis
        using snoc True by (simp add: step leak_observe_def leak_evaluate_def min_samples_def)
    next
      case False
      then obtain ys a b c where w: "xs @ [x] = ys @ [a, b, c]" using last_three [of "xs @ [x]"] by auto
      then have xs: "xs = ys @ [a, b]" "x = c" by auto
      have "growing_windows th (map hp_heap_used (xs @ [x])) = growing_windows th (map hp_heap_used xs)
          + (if grows th [hp_heap_used a, hp_heap_used b, hp_heap_used c] then 1 else 0)"
        using growing_windows_snoc [of th "map hp_heap_used ys"] by (simp add: xs)
      moreover have "run (ys @ [a, b, c]) = leak_observe c (run (ys @ [a, b]))"
        using step xs by simp
      ultimately show ?thesis
        using snoc by (simp add: leak_observe_def leak_evaluate_def min_samples_def xs grows_def Let_def)
    qed
  qed
  then show ?thesis by (simp add: run_def)
qed

text \<open>An alert is recorded exactly for each rule in force whose threshold is exceeded.\<close>

theorem alerts_are_breaches:
  "am_alerts (alert_evaluate s rss a) = am_alerts a @ map (\<lambda>r. \<lparr>ma_rule = al_name r,
       ma_fired_at = hp_captured_at s, ma_threshold = al_threshold r,
       ma_actual = extract_metric s rss (al_metric r),
       ma_overage = extract_metric s rss (al_metric r) - al_threshold r\<rparr>)
     (filter (\<lambda>r. al_threshold r < extract_metric s rss (al_metric r)) (jvalues (am_rules a)))
   \<and> am_rules (alert_evaluate s rss a) = am_rules a"
proof -
  have "concat (map (rule_alert s rss) rs) = map (\<lambda>r. \<lparr>ma_rule = al_name r,
       ma_fired_at = hp_captured_at s, ma_threshold = al_threshold r,
       ma_actual = extract_metric s rss (al_metric r),
       ma_overage = extract_metric s rss (al_metric r) - al_threshold r\<rparr>)
     (filter (\<lambda>r. al_threshold r < extract_metric s rss (al_metric r)) rs)" for rs
    by (induction rs) (simp_all add: rule_alert_def Let_def)
  from this [of "jvalues (am_rules a)"] show ?thesis by (simp add: alert_evaluate_def del: map_map)
qed

lemma gc_fold:
  "gs_duration (foldl gc_add s es) = gs_duration s + sum_list (map ge_duration es)
   \<and> gs_reclaimed (foldl gc_add s es) = gs_reclaimed s + sum_list (map ge_reclaimed es)
   \<and> gs_major (foldl gc_add s es) = gs_major s + length (gc_get_by_type Major es)
   \<and> gs_minor (foldl gc_add s es) = gs_minor s + length (gc_get_by_type Minor es)
   \<and> gs_incremental (foldl gc_add s es) = gs_incremental s + length (gc_get_by_type Incremental es)
   \<and> gs_events (foldl gc_add s es) = gs_events s"
proof (induction es rule: rev_induct)
  case (snoc e es)
  then show ?case
    by (cases "ge_type e") (simp_all add: gc_add_def [of "foldl gc_add s es"] gc_get_by_type_def)
qed (simp add: gc_get_by_type_def)

text \<open>The statistics count and add up the events; every event is of one of the three types.\<close>

theorem gc_statistics_add_up:
  "let s = gc_get_stats es in
     gs_events s = length es \<and> gs_major s + gs_minor s + gs_incremental s = length es
     \<and> gs_duration s = sum_list (map ge_duration es) \<and> gs_reclaimed s = sum_list (map ge_reclaimed es)
     \<and> gs_avg_duration s * of_nat (length es) = gs_duration s"
proof -
  have types: "length (gc_get_by_type Major es) + length (gc_get_by_type Minor es)
      + length (gc_get_by_type Incremental es) = length es"
  proof (induction es)
    case (Cons e es)
    then show ?case by (cases "ge_type e") (simp_all add: gc_get_by_type_def)
  qed (simp add: gc_get_by_type_def)
  show ?thesis
    using types gc_fold [where es = es] by (auto simp: gc_get_stats_def Let_def)
qed

section \<open>Loggers\<close>

lemma sampling_errors:
  "filter (\<lambda>(l, c). l = Error) (sampling_run rate calls draws) = filter (\<lambda>(l, c). l = Error) calls"
proof (induction rate calls draws rule: sampling_run.induct)
  case (2 rate level c calls draws)
  obtain out rest where s: "sampling_log rate level c draws = (out, rest)" by fastforce
  have "filter (\<lambda>(l, c). l = Error) out = (if level = Error then [(level, c)] else [])"
    using s by (auto simp: sampling_log_def split: if_splits list.splits)
  with 2 s show ?case by simp
qed simp

text \<open>
  The level filter forwards exactly the calls at or above its level, whatever the sampling rate no
  error is lost, and at rate 1 every call is logged.
\<close>

theorem errors_are_never_lost:
  "level_filter min_level level c = (if level_number min_level \<le> level_number level then [(level, c)] else [])
   \<and> filter (\<lambda>(l, c). l = Error) (sampling_run rate calls draws) = filter (\<lambda>(l, c). l = Error) calls
   \<and> (1 \<le> rate \<and> (\<forall>r \<in> set draws. r < 1) \<and> length calls \<le> length draws \<longrightarrow> sampling_run rate calls draws = calls)"
proof (intro conjI impI)
  show "level_filter min_level level c = (if level_number min_level \<le> level_number level then [(level, c)] else [])"
    by (cases level; cases min_level) (simp_all add: level_filter_def)
  show "filter (\<lambda>(l, c). l = Error) (sampling_run rate calls draws) = filter (\<lambda>(l, c). l = Error) calls"
    by (rule sampling_errors)
  assume "1 \<le> rate \<and> (\<forall>r \<in> set draws. r < 1) \<and> length calls \<le> length draws"
  then show "sampling_run rate calls draws = calls"
  proof (induction rate calls draws rule: sampling_run.induct)
    case (2 rate level c calls draws)
    from "2.prems" obtain r rest where d: "draws = r # rest" by (cases draws) auto
    show ?case
    proof (cases "level = Error")
      case True
      with "2.IH" [of "[(level, c)]" draws] "2.prems" show ?thesis by (simp add: sampling_log_def)
    next
      case False
      with "2.IH" [of "[(level, c)]" rest] "2.prems" d show ?thesis by (simp add: sampling_log_def)
    qed
  qed simp
qed

theorem errors_are_never_lost_witness:
  "level_filter Warn Info (1 :: nat) = (if level_number Warn \<le> level_number Info then [(Info, 1)] else [])
   \<and> filter (\<lambda>(l, c). l = Error) (sampling_run 1 [(Info, 1), (Error, 2 :: nat)] [1/2, 1/3])
       = filter (\<lambda>(l, c). l = Error) [(Info, 1), (Error, 2)]
   \<and> sampling_run 1 [(Info, 1), (Error, 2 :: nat)] [1/2, 1/3] = [(Info, 1), (Error, 2)]"
  using errors_are_never_lost [of Warn Info "1 :: nat" 1 "[(Info, 1), (Error, 2 :: nat)]" "[1/2, 1/3]"]
  by (simp del: sampling_run.simps)

inductive holds_field :: "'a log_value \<Rightarrow> string \<Rightarrow> 'a log_value \<Rightarrow> bool" where
  here: "(k, v) \<in> set es \<Longrightarrow> holds_field (Obj es) k v"
| in_object: "(k, v) \<in> set es \<Longrightarrow> holds_field v k' v' \<Longrightarrow> holds_field (Obj es) k' v'"
| in_array: "v \<in> set vs \<Longrightarrow> holds_field v k' v' \<Longrightarrow> holds_field (Arr vs) k' v'"

inductive_cases holds_field_scalar: "holds_field (Scalar x) k v"
inductive_cases holds_field_text: "holds_field (Text s) k v"
inductive_cases holds_field_obj: "holds_field (Obj es) k v"

lemma redact_value_fields:
  "holds_field (redact_value v) k x \<Longrightarrow> k \<in> set pii_fields \<Longrightarrow> x = Text ''[REDACTED]''"
proof (induction v arbitrary: k x rule: redact_value.induct)
  case (3 es)
  from "3.prems"(1) show ?case
    by (simp only: redact_value.simps, elim holds_field_obj)
      (use "3.prems"(2) "3.IH" in \<open>auto split: if_splits elim: holds_field_text\<close>)
next
  case (4 vs)
  from "4.prems"(1) show ?case
    by (simp only: redact_value.simps, elim holds_field_obj)
      (use "4.prems"(2) "4.IH" in \<open>auto split: if_splits elim: holds_field_text\<close>)
qed (auto elim: holds_field_scalar holds_field_text)

text \<open>No personal field keeps its value, at any depth.\<close>

theorem redaction_hides_personal_data:
  assumes "holds_field (Obj (redact es)) k v" and "k \<in> set pii_fields"
  shows "v = Text ''[REDACTED]''"
  using assms redact_value_fields [of "Obj es" k v] by (simp add: redact_def)

theorem redaction_hides_personal_data_witness:
  "snd (hd (redact [(''email'', Scalar (1 :: nat))])) = Text ''[REDACTED]''"
proof (rule redaction_hides_personal_data)
  show "holds_field (Obj (redact [(''email'', Scalar (1 :: nat))])) ''email'' (snd (hd (redact [(''email'', Scalar 1)])))"
    by (rule here) (simp add: redact_def)
qed (simp add: pii_fields_def)

text \<open>
  An array of the data comes out as an object with its indices as keys, and a field written with a
  capital letter is kept.
\<close>

theorem redaction_turns_arrays_into_objects:
  "redact [(''tags'', Arr [Scalar x, Scalar y]), (''Email'', Scalar z)]
     = [(''tags'', Obj [(''0'', Scalar x), (''1'', Scalar y)]), (''Email'', Scalar z)]"
proof -
  have "show_int 0 = ''0''" "show_int 1 = ''1''" by code_simp+
  then show ?thesis by (simp add: redact_def pii_fields_def index_entries_def)
qed

end
