(* ===== verification/Contracts.thy ===== *)
theory Contracts
  imports Regex Json Cron
begin

text \<open>
  \<open>packages/contracts/src\<close>: semantic versions (\<open>compatibility/SemVer.ts\<close>), API versions
  (\<open>versioning/ApiVersion.ts\<close>) and the builders of OpenAPI documents (\<open>openapi\<close>).

  A builder is the record of what its methods have set; the methods return the builder, so a chain
  of calls is a run.  An object of a document is its fields, whose order no operation reads.
\<close>

section \<open>Semantic versions\<close>

record semver =
  sv_value :: string
  sv_major :: int
  sv_minor :: int
  sv_patch :: int

definition digits_rx :: rx where "digits_rx = plus_rx (Chr is_digit)"

definition semver_rx :: rx where
  "semver_rx = seq_rx [digits_rx, lit_char CHR ''.'', digits_rx, lit_char CHR ''.'', digits_rx]"

definition part_number :: "string list \<Rightarrow> nat \<Rightarrow> int" where
  "part_number parts i = (if i < length parts then int (digits_value (parts ! i)) else 0)"

definition semver_create :: "string \<Rightarrow> (js_error, semver) outcome" where
  "semver_create version =
     (if \<not> rx_whole semver_rx version then Inl (plain_error (''Invalid semver: '' @ version))
      else let parts = js_split CHR ''.'' version
           in Inr \<lparr>sv_value = version, sv_major = part_number parts 0, sv_minor = part_number parts 1,
                  sv_patch = part_number parts 2\<rparr>)"

definition semver_compatible :: "semver \<Rightarrow> semver \<Rightarrow> bool" where
  "semver_compatible v other = (sv_major v = sv_major other \<and> sv_minor v \<ge> sv_minor other)"

section \<open>API versions\<close>

record api_version =
  av_major :: int
  av_minor :: int

definition api_version_of :: "int \<Rightarrow> int \<Rightarrow> (js_error, api_version) outcome" where
  "api_version_of major minor =
     (if major < 1 then Inl (plain_error ''major version must be >= 1'')
      else if minor < 0 then Inl (plain_error ''minor version must be >= 0'')
      else Inr \<lparr>av_major = major, av_minor = minor\<rparr>)"

definition strip_v :: "string \<Rightarrow> string" where
  "strip_v s = (case s of [] \<Rightarrow> [] | c # cs \<Rightarrow> if c = CHR ''v'' \<or> c = CHR ''V'' then cs else s)"

definition api_version_parse :: "string \<Rightarrow> (js_error, api_version) outcome" where
  "api_version_parse v =
     (let parts = js_split CHR ''.'' (strip_v v);
          major = js_parse_int (hd parts);
          minor = js_parse_int (if 1 < length parts then parts ! 1 else ''0'')
      in case (major, minor) of
           (Some a, Some b) \<Rightarrow> api_version_of a b
         | _ \<Rightarrow> Inl (plain_error (''Invalid API version: '' @ [CHR 0x22] @ v @ [CHR 0x22])))"

definition to_segment :: "api_version \<Rightarrow> string" where
  "to_segment v = ''v'' @ show_int (av_major v)"

definition to_path :: "string \<Rightarrow> api_version \<Rightarrow> string" where
  "to_path path v =
     ''/'' @ to_segment v @ (if begins_with path ''/'' then path else ''/'' @ path)"

definition api_version_string :: "api_version \<Rightarrow> string" where
  "api_version_string v = show_int (av_major v) @ ''.'' @ show_int (av_minor v)"

definition api_compatible :: "api_version \<Rightarrow> api_version \<Rightarrow> bool" where
  "api_compatible v other = (av_major v = av_major other)"

definition api_compare :: "api_version \<Rightarrow> api_version \<Rightarrow> int" where
  "api_compare v other =
     (if av_major v \<noteq> av_major other then (if av_major v < av_major other then -1 else 1)
      else if av_minor v \<noteq> av_minor other then (if av_minor v < av_minor other then -1 else 1)
      else 0)"

definition api_equals :: "api_version \<Rightarrow> api_version \<Rightarrow> bool" where
  "api_equals v other = (av_major v = av_major other \<and> av_minor v = av_minor other)"

section \<open>Schemas\<close>

type_synonym fields_of = "(string, json) jsmap"

definition schema_new :: "string option \<Rightarrow> fields_of" where
  "schema_new t = (case t of None \<Rightarrow> [] | Some s \<Rightarrow> [(''type'', JStr s)])"

definition schema_array_of :: "json \<Rightarrow> fields_of" where
  "schema_array_of items = jset ''items'' items (schema_new (Some ''array''))"

definition schema_ref :: "string \<Rightarrow> json" where
  "schema_ref name = JObj [(''$ref'', JStr (''#/components/schemas/'' @ name))]"

text \<open>The calls of a schema builder; most set one field.\<close>

datatype schema_call =
    SetField string json
  | AddProperty string json
  | AddRequired "string list"

definition schema_format :: "string \<Rightarrow> schema_call" where "schema_format f = SetField ''format'' (JStr f)"
definition schema_description :: "string \<Rightarrow> schema_call" where "schema_description d = SetField ''description'' (JStr d)"
definition schema_example :: "json \<Rightarrow> schema_call" where "schema_example v = SetField ''example'' v"
definition schema_nullable :: "bool \<Rightarrow> schema_call" where "schema_nullable b = SetField ''nullable'' (JBool b)"
definition schema_read_only :: "bool \<Rightarrow> schema_call" where "schema_read_only b = SetField ''readOnly'' (JBool b)"
definition schema_write_only :: "bool \<Rightarrow> schema_call" where "schema_write_only b = SetField ''writeOnly'' (JBool b)"
definition schema_enum :: "json list \<Rightarrow> schema_call" where "schema_enum vs = SetField ''enum'' (JArr vs)"
definition schema_minimum :: "rat \<Rightarrow> schema_call" where "schema_minimum v = SetField ''minimum'' (JNum v)"
definition schema_maximum :: "rat \<Rightarrow> schema_call" where "schema_maximum v = SetField ''maximum'' (JNum v)"
definition schema_min_length :: "rat \<Rightarrow> schema_call" where "schema_min_length v = SetField ''minLength'' (JNum v)"
definition schema_max_length :: "rat \<Rightarrow> schema_call" where "schema_max_length v = SetField ''maxLength'' (JNum v)"
definition schema_pattern :: "string \<Rightarrow> schema_call" where "schema_pattern r = SetField ''pattern'' (JStr r)"
definition schema_items :: "json \<Rightarrow> schema_call" where "schema_items s = SetField ''items'' s"
definition schema_min_items :: "rat \<Rightarrow> schema_call" where "schema_min_items v = SetField ''minItems'' (JNum v)"
definition schema_max_items :: "rat \<Rightarrow> schema_call" where "schema_max_items v = SetField ''maxItems'' (JNum v)"
definition schema_all_of :: "json list \<Rightarrow> schema_call" where "schema_all_of ss = SetField ''allOf'' (JArr ss)"
definition schema_one_of :: "json list \<Rightarrow> schema_call" where "schema_one_of ss = SetField ''oneOf'' (JArr ss)"
definition schema_any_of :: "json list \<Rightarrow> schema_call" where "schema_any_of ss = SetField ''anyOf'' (JArr ss)"

definition object_fields :: "json option \<Rightarrow> fields_of" where
  "object_fields v = (case v of Some (JObj fs) \<Rightarrow> fs | _ \<Rightarrow> [])"

definition array_items :: "json option \<Rightarrow> json list" where
  "array_items v = (case v of Some (JArr xs) \<Rightarrow> xs | _ \<Rightarrow> [])"

fun schema_step :: "fields_of \<Rightarrow> schema_call \<Rightarrow> fields_of" where
  "schema_step s (SetField k v) = jset k v s"
| "schema_step s (AddProperty name v) =
     jset ''properties'' (JObj (jset name v (object_fields (jget s ''properties'')))) s"
| "schema_step s (AddRequired names) =
     jset ''required'' (JArr (array_items (jget s ''required'') @ map JStr names)) s"

section \<open>Operations\<close>

record operation_builder =
  ob_operation_id :: "string option"
  ob_summary :: "string option"
  ob_description :: "string option"
  ob_tags :: "string list"
  ob_parameters :: "json list"
  ob_request_body :: "json option"
  ob_responses :: fields_of
  ob_deprecated :: bool

definition operation_new :: operation_builder where
  "operation_new = \<lparr>ob_operation_id = None, ob_summary = None, ob_description = None, ob_tags = [],
     ob_parameters = [], ob_request_body = None, ob_responses = [], ob_deprecated = False\<rparr>"

datatype response_status = Status int | DefaultStatus

definition status_key :: "response_status \<Rightarrow> string" where
  "status_key s = (case s of Status n \<Rightarrow> show_int n | DefaultStatus \<Rightarrow> ''default'')"

definition opt_field :: "string \<Rightarrow> json option \<Rightarrow> fields_of" where
  "opt_field k v = (case v of None \<Rightarrow> [] | Some x \<Rightarrow> [(k, x)])"

definition operation_id :: "string \<Rightarrow> operation_builder \<Rightarrow> operation_builder" where
  "operation_id i b = b\<lparr>ob_operation_id := Some i\<rparr>"

definition operation_summary :: "string \<Rightarrow> operation_builder \<Rightarrow> operation_builder" where
  "operation_summary s b = b\<lparr>ob_summary := Some s\<rparr>"

definition operation_description :: "string \<Rightarrow> operation_builder \<Rightarrow> operation_builder" where
  "operation_description d b = b\<lparr>ob_description := Some d\<rparr>"

definition operation_tag :: "string list \<Rightarrow> operation_builder \<Rightarrow> operation_builder" where
  "operation_tag ts b = b\<lparr>ob_tags := ob_tags b @ ts\<rparr>"

definition operation_parameter :: "json \<Rightarrow> operation_builder \<Rightarrow> operation_builder" where
  "operation_parameter p b = b\<lparr>ob_parameters := ob_parameters b @ [p]\<rparr>"

definition operation_request_body ::
    "string \<Rightarrow> json \<Rightarrow> string option \<Rightarrow> bool option \<Rightarrow> operation_builder \<Rightarrow> operation_builder" where
  "operation_request_body content_type media description required b =
     b\<lparr>ob_request_body := Some (JObj ([(''content'', JObj [(content_type, media)])]
         @ opt_field ''description'' (map_option JStr description)
         @ opt_field ''required'' (map_option JBool required)))\<rparr>"

definition operation_response ::
    "response_status \<Rightarrow> string \<Rightarrow> (string option \<times> json option) \<Rightarrow> operation_builder \<Rightarrow> operation_builder" where
  "operation_response status description content b =
     b\<lparr>ob_responses := jset (status_key status)
         (JObj ([(''description'', JStr description)]
            @ (case content of (Some t, Some media) \<Rightarrow> [(''content'', JObj [(t, media)])] | _ \<Rightarrow> [])))
         (ob_responses b)\<rparr>"

definition operation_response_ref :: "response_status \<Rightarrow> string \<Rightarrow> operation_builder \<Rightarrow> operation_builder" where
  "operation_response_ref status r b =
     b\<lparr>ob_responses := jset (status_key status) (JObj [(''$ref'', JStr r)]) (ob_responses b)\<rparr>"

definition operation_deprecated :: "bool \<Rightarrow> operation_builder \<Rightarrow> operation_builder" where
  "operation_deprecated v b = b\<lparr>ob_deprecated := v\<rparr>"

definition operation_build :: "operation_builder \<Rightarrow> json" where
  "operation_build b = JObj ([(''responses'', JObj (ob_responses b))]
     @ opt_field ''operationId'' (map_option JStr (ob_operation_id b))
     @ opt_field ''summary'' (map_option JStr (ob_summary b))
     @ opt_field ''description'' (map_option JStr (ob_description b))
     @ (if ob_tags b \<noteq> [] then [(''tags'', JArr (map JStr (ob_tags b)))] else [])
     @ (if ob_parameters b \<noteq> [] then [(''parameters'', JArr (ob_parameters b))] else [])
     @ opt_field ''requestBody'' (ob_request_body b)
     @ (if ob_deprecated b then [(''deprecated'', JBool True)] else []))"

section \<open>Documents\<close>

datatype http_method = Get | Post | Put | Patch | Delete | Head | Options | Trace

fun method_name :: "http_method \<Rightarrow> string" where
  "method_name Get = ''get''" | "method_name Post = ''post''" | "method_name Put = ''put''"
| "method_name Patch = ''patch''" | "method_name Delete = ''delete''" | "method_name Head = ''head''"
| "method_name Options = ''options''" | "method_name Trace = ''trace''"

record spec_builder =
  sb_info :: fields_of
  sb_paths :: "(string, fields_of) jsmap"
  sb_servers :: "json list"
  sb_schemas :: fields_of
  sb_responses :: fields_of
  sb_parameters :: fields_of
  sb_request_bodies :: fields_of
  sb_tags :: "json list"

definition spec_new :: "string \<Rightarrow> string \<Rightarrow> spec_builder" where
  "spec_new title version = \<lparr>sb_info = [(''title'', JStr title), (''version'', JStr version)], sb_paths = [],
     sb_servers = [], sb_schemas = [], sb_responses = [], sb_parameters = [], sb_request_bodies = [],
     sb_tags = []\<rparr>"

definition spec_description :: "string \<Rightarrow> spec_builder \<Rightarrow> spec_builder" where
  "spec_description d b = b\<lparr>sb_info := jset ''description'' (JStr d) (sb_info b)\<rparr>"

definition spec_terms_of_service :: "string \<Rightarrow> spec_builder \<Rightarrow> spec_builder" where
  "spec_terms_of_service u b = b\<lparr>sb_info := jset ''termsOfService'' (JStr u) (sb_info b)\<rparr>"

definition spec_contact :: "json \<Rightarrow> spec_builder \<Rightarrow> spec_builder" where
  "spec_contact i b = b\<lparr>sb_info := jset ''contact'' i (sb_info b)\<rparr>"

definition spec_license :: "string \<Rightarrow> string option \<Rightarrow> spec_builder \<Rightarrow> spec_builder" where
  "spec_license name url b =
     b\<lparr>sb_info := jset ''license'' (JObj ([(''name'', JStr name)] @ opt_field ''url'' (map_option JStr url))) (sb_info b)\<rparr>"

definition spec_server :: "string \<Rightarrow> string option \<Rightarrow> spec_builder \<Rightarrow> spec_builder" where
  "spec_server url description b =
     b\<lparr>sb_servers := sb_servers b
        @ [JObj ([(''url'', JStr url)] @ opt_field ''description'' (map_option JStr description))]\<rparr>"

definition spec_tag :: "string \<Rightarrow> string option \<Rightarrow> spec_builder \<Rightarrow> spec_builder" where
  "spec_tag name description b =
     b\<lparr>sb_tags := sb_tags b
        @ [JObj ([(''name'', JStr name)] @ opt_field ''description'' (map_option JStr description))]\<rparr>"

definition spec_add_operation :: "string \<Rightarrow> http_method \<Rightarrow> json \<Rightarrow> spec_builder \<Rightarrow> spec_builder" where
  "spec_add_operation path meth op b =
     b\<lparr>sb_paths := jset path (jset (method_name meth) op (elems (sb_paths b) path)) (sb_paths b)\<rparr>"

definition spec_add_path :: "string \<Rightarrow> (http_method \<times> json) list \<Rightarrow> spec_builder \<Rightarrow> spec_builder" where
  "spec_add_path path item b =
     b\<lparr>sb_paths := jset path
        (foldl (\<lambda>ms (meth, op). jset (method_name meth) op ms) (elems (sb_paths b) path) item) (sb_paths b)\<rparr>"

definition spec_add_schema :: "string \<Rightarrow> json \<Rightarrow> spec_builder \<Rightarrow> spec_builder" where
  "spec_add_schema name v b = b\<lparr>sb_schemas := jset name v (sb_schemas b)\<rparr>"

definition spec_add_response :: "string \<Rightarrow> json \<Rightarrow> spec_builder \<Rightarrow> spec_builder" where
  "spec_add_response name v b = b\<lparr>sb_responses := jset name v (sb_responses b)\<rparr>"

definition spec_add_parameter :: "string \<Rightarrow> json \<Rightarrow> spec_builder \<Rightarrow> spec_builder" where
  "spec_add_parameter name v b = b\<lparr>sb_parameters := jset name v (sb_parameters b)\<rparr>"

definition spec_add_request_body :: "string \<Rightarrow> json \<Rightarrow> spec_builder \<Rightarrow> spec_builder" where
  "spec_add_request_body name v b = b\<lparr>sb_request_bodies := jset name v (sb_request_bodies b)\<rparr>"

definition copy_map_to_record :: "fields_of \<Rightarrow> string \<Rightarrow> fields_of" where
  "copy_map_to_record m key = (if m = [] then [] else [(key, JObj m)])"

definition build_components :: "spec_builder \<Rightarrow> json option" where
  "build_components b =
     (if sb_schemas b = [] \<and> sb_responses b = [] \<and> sb_parameters b = [] \<and> sb_request_bodies b = [] then None
      else Some (JObj (copy_map_to_record (sb_schemas b) ''schemas''
             @ copy_map_to_record (sb_responses b) ''responses''
             @ copy_map_to_record (sb_parameters b) ''parameters''
             @ copy_map_to_record (sb_request_bodies b) ''requestBodies'')))"

definition spec_build :: "spec_builder \<Rightarrow> json" where
  "spec_build b = JObj ([(''openapi'', JStr ''3.0.3''), (''info'', JObj (sb_info b)),
      (''paths'', JObj (map (\<lambda>(p, ms). (p, JObj ms)) (sb_paths b)))]
     @ (if sb_servers b \<noteq> [] then [(''servers'', JArr (sb_servers b))] else [])
     @ (if sb_tags b \<noteq> [] then [(''tags'', JArr (sb_tags b))] else [])
     @ opt_field ''components'' (build_components b))"

datatype spec_call =
    AddOperation string http_method json
  | AddPath string "(http_method \<times> json) list"
  | AddSchema string json
  | AddResponse string json
  | AddParameter string json
  | AddRequestBody string json
  | AddServer string "string option"
  | AddTag string "string option"
  | Describe string
  | TermsOfService string
  | Contact json
  | License string "string option"

fun spec_step :: "spec_builder \<Rightarrow> spec_call \<Rightarrow> spec_builder" where
  "spec_step b (AddOperation p meth op) = spec_add_operation p meth op b"
| "spec_step b (AddPath p item) = spec_add_path p item b"
| "spec_step b (AddSchema n v) = spec_add_schema n v b"
| "spec_step b (AddServer u d) = spec_server u d b"
| "spec_step b (AddTag n d) = spec_tag n d b"
| "spec_step b (AddResponse n v) = spec_add_response n v b"
| "spec_step b (AddParameter n v) = spec_add_parameter n v b"
| "spec_step b (AddRequestBody n v) = spec_add_request_body n v b"
| "spec_step b (Describe d) = spec_description d b"
| "spec_step b (TermsOfService u) = spec_terms_of_service u b"
| "spec_step b (Contact i) = spec_contact i b"
| "spec_step b (License n u) = spec_license n u b"

section \<open>Versions\<close>

lemma digits_rx_lang: "rx_lang digits_rx w \<longleftrightarrow> w \<noteq> [] \<and> list_all is_digit w"
proof -
  have "rx_lang digits_rx w \<longleftrightarrow> (\<exists>u v. w = u @ v \<and> (\<exists>c. u = [c] \<and> is_digit c) \<and> list_all is_digit v)"
    by (simp add: digits_rx_def plus_rx_def)
  also have "\<dots> \<longleftrightarrow> (\<exists>c v. w = c # v \<and> is_digit c \<and> list_all is_digit v)" by (metis append_Cons append_Nil)
  also have "\<dots> \<longleftrightarrow> w \<noteq> [] \<and> list_all is_digit w" by (cases w) auto
  finally show ?thesis .
qed

lemma semver_rx_lang:
  "rx_lang semver_rx s \<longleftrightarrow>
     (\<exists>a b c. s = a @ CHR ''.'' # b @ CHR ''.'' # c \<and> a \<noteq> [] \<and> b \<noteq> [] \<and> c \<noteq> []
        \<and> list_all is_digit a \<and> list_all is_digit b \<and> list_all is_digit c)"
proof -
  have dot: "rx_lang (lit_char d) w \<longleftrightarrow> w = [d]" for d w by (simp add: lit_char_def)
  have "rx_lang semver_rx s \<longleftrightarrow>
      (\<exists>a u. s = a @ u \<and> rx_lang digits_rx a \<and> (\<exists>v. u = CHR ''.'' # v
         \<and> (\<exists>b w. v = b @ w \<and> rx_lang digits_rx b \<and> (\<exists>c. w = CHR ''.'' # c \<and> rx_lang digits_rx c))))"
    unfolding semver_rx_def rx_lang_forms(3,4) dot by force
  then show ?thesis unfolding digits_rx_lang by blast
qed

lemma digits_no_dot: "list_all is_digit a \<Longrightarrow> CHR ''.'' \<notin> set a"
  by (auto simp: list_all_iff is_digit_def)

text \<open>
  A semantic version is accepted exactly when it is three non-empty runs of digits between two
  dots, and its numbers are those of the runs.
\<close>

theorem semver_create_iff:
  "semver_create s = Inr v \<longleftrightarrow>
     (\<exists>a b c. s = a @ CHR ''.'' # b @ CHR ''.'' # c \<and> a \<noteq> [] \<and> b \<noteq> [] \<and> c \<noteq> []
        \<and> list_all is_digit a \<and> list_all is_digit b \<and> list_all is_digit c
        \<and> v = \<lparr>sv_value = s, sv_major = int (digits_value a), sv_minor = int (digits_value b),
               sv_patch = int (digits_value c)\<rparr>)" (is "_ \<longleftrightarrow> ?rhs")
proof -
  have plain: "rx_plain semver_rx" by (simp add: semver_rx_def digits_rx_def)
  have parts: "js_split CHR ''.'' (a @ CHR ''.'' # b @ CHR ''.'' # c) = [a, b, c]"
    if "list_all is_digit a" "list_all is_digit b" "list_all is_digit c" for a b c
    using that by (simp add: js_split_at js_split_absent digits_no_dot)
  have made: "semver_create s = Inr \<lparr>sv_value = s, sv_major = int (digits_value a),
      sv_minor = int (digits_value b), sv_patch = int (digits_value c)\<rparr>"
    if "s = a @ CHR ''.'' # b @ CHR ''.'' # c" "a \<noteq> []" "b \<noteq> []" "c \<noteq> []"
      "list_all is_digit a" "list_all is_digit b" "list_all is_digit c" for a b c
  proof -
    from that have "rx_whole semver_rx s" unfolding rx_whole_iff [OF plain] semver_rx_lang by blast
    with that show ?thesis by (simp add: semver_create_def Let_def parts part_number_def)
  qed
  show ?thesis
  proof
    assume ok: "semver_create s = Inr v"
    then have "rx_whole semver_rx s" by (simp add: semver_create_def split: if_splits)
    then obtain a b c where f: "s = a @ CHR ''.'' # b @ CHR ''.'' # c" "a \<noteq> []" "b \<noteq> []" "c \<noteq> []"
      "list_all is_digit a" "list_all is_digit b" "list_all is_digit c"
      unfolding rx_whole_iff [OF plain] semver_rx_lang by blast
    from made [OF f] ok have "v = \<lparr>sv_value = s, sv_major = int (digits_value a),
      sv_minor = int (digits_value b), sv_patch = int (digits_value c)\<rparr>" by simp
    with f show "?rhs" by blast
  next
    assume "?rhs"
    then show "semver_create s = Inr v" using made by blast
  qed
qed

text \<open>Compatibility of semantic versions is a preorder and ignores the patch number.\<close>

theorem semver_compatible_preorder:
  "semver_compatible u u \<and> (semver_compatible u v \<and> semver_compatible v w \<longrightarrow> semver_compatible u w)
   \<and> semver_compatible (u\<lparr>sv_patch := p\<rparr>) v = semver_compatible u v"
  by (auto simp: semver_compatible_def)

theorem semver_compatible_preorder_witness:
  "semver_compatible \<lparr>sv_value = [], sv_major = 1, sv_minor = 2, sv_patch = 0\<rparr>
     \<lparr>sv_value = [], sv_major = 1, sv_minor = 0, sv_patch = 0\<rparr>"
  using semver_compatible_preorder
    [of "\<lparr>sv_value = [], sv_major = 1, sv_minor = 2, sv_patch = 0\<rparr>"
        "\<lparr>sv_value = [], sv_major = 1, sv_minor = 1, sv_patch = 0\<rparr>"
        "\<lparr>sv_value = [], sv_major = 1, sv_minor = 0, sv_patch = 0\<rparr>" 0]
  by (simp add: semver_compatible_def)

lemma show_int_nat: "0 \<le> n \<Longrightarrow> show_int n = nat_digits (nat n)"
  by (simp add: show_int_def)

lemma parse_int_show: "0 \<le> n \<Longrightarrow> js_parse_int (show_int n) = Some n"
  using parse_int_digits [of "[]" "nat n"] by (simp add: show_int_nat)

lemma show_int_no_dot: "0 \<le> n \<Longrightarrow> CHR ''.'' \<notin> set (show_int n)"
  using nat_digits_are_digits [of "CHR ''.''" "nat n"] by (auto simp: show_int_nat is_digit_def)

lemma strip_v_digits: "strip_v (show_int n @ r) = show_int n @ r" if "0 \<le> n"
proof -
  obtain c cs where c: "nat_digits (nat n) = c # cs" by (cases "nat_digits (nat n)") auto
  then have "is_digit c" using nat_digits_are_digits [of c "nat n"] by simp
  then have "c \<noteq> CHR ''v'' \<and> c \<noteq> CHR ''V''" by (auto simp: is_digit_def)
  with c that show ?thesis by (simp add: show_int_nat strip_v_def)
qed

lemma strip_v_cons: "strip_v (CHR ''v'' # s) = s" by (simp add: strip_v_def)

lemma js_split_first: "hd (js_split c s) = takeWhile (\<lambda>d. d \<noteq> c) s"
  by (induction s) (auto split: list.splits dest: arg_cong [of _ _ hd])

lemma api_version_parse_parts:
  assumes "strip_v s = show_int a @ x @ CHR ''.'' # show_int b @ y" and "1 \<le> a" and "0 \<le> b"
    and "x = [] \<or> \<not> is_digit (hd x)" and "CHR ''.'' \<notin> set x" and "y = [] \<or> \<not> is_digit (hd y)"
  shows "api_version_parse s = Inr \<lparr>av_major = a, av_minor = b\<rparr>"
proof -
  let ?after = "js_split CHR ''.'' (show_int b @ y)"
  have split: "js_split CHR ''.'' (strip_v s) = (show_int a @ x) # ?after"
    using js_split_at [of "CHR ''.''" "show_int a @ x" "show_int b @ y"] assms(1,2,5)
    by (simp add: show_int_no_dot)
  have first: "js_parse_int (show_int a @ x) = Some a"
    using parse_int_digits [of x "nat a"] assms(2,4) by (simp add: show_int_nat)
  have "d \<in> set (show_int b) \<Longrightarrow> d \<noteq> CHR ''.''" for d using show_int_no_dot [OF assms(3)] by auto
  then have "hd ?after = show_int b @ takeWhile (\<lambda>d. d \<noteq> CHR ''.'') y"
    unfolding js_split_first by (subst takeWhile_append2) auto
  moreover have "takeWhile (\<lambda>d. d \<noteq> CHR ''.'') y = [] \<or>
      \<not> is_digit (hd (takeWhile (\<lambda>d. d \<noteq> CHR ''.'') y))"
    using assms(6) by (cases y) auto
  ultimately have second: "js_parse_int (?after ! 0) = Some b"
    using parse_int_digits [of "takeWhile (\<lambda>d. d \<noteq> CHR ''.'') y" "nat b"] assms(3)
    by (simp add: show_int_nat hd_conv_nth [symmetric])
  have "0 < length ?after" by simp
  with split first second assms(2,3) show ?thesis
    by (simp add: api_version_parse_def api_version_of_def Let_def)
qed

lemma api_version_parse_segment:
  assumes "strip_v s = show_int a" and "1 \<le> a"
  shows "api_version_parse s = Inr \<lparr>av_major = a, av_minor = 0\<rparr>"
proof -
  have "show_int 0 = ''0''" by code_simp
  with parse_int_show [of 0] have "js_parse_int ''0'' = Some 0" by simp
  with assms parse_int_show [of a] show_int_no_dot [of a] show ?thesis
    by (simp add: api_version_parse_def api_version_of_def Let_def js_split_absent)
qed

text \<open>
  Printing an API version and parsing it again gives the version back, with or without a leading
  \<open>v\<close>; the path segment gives the version with minor 0.
\<close>

theorem api_version_round_trip:
  assumes "1 \<le> av_major v" and "0 \<le> av_minor v"
  shows "api_version_parse (api_version_string v) = Inr v
    \<and> api_version_parse (CHR ''v'' # api_version_string v) = Inr v
    \<and> api_version_parse (to_segment v) = Inr (v\<lparr>av_minor := 0\<rparr>)"
proof -
  have "strip_v (api_version_string v) = api_version_string v"
    using assms strip_v_digits [of "av_major v"] by (simp add: api_version_string_def)
  moreover have "strip_v (CHR ''v'' # api_version_string v) = api_version_string v"
    by (simp add: strip_v_cons)
  moreover have "strip_v (to_segment v) = show_int (av_major v)"
    by (simp add: to_segment_def strip_v_cons)
  ultimately show ?thesis
    using assms api_version_parse_parts [where x = "[]" and y = "[]" and a = "av_major v" and b = "av_minor v"]
      api_version_parse_segment [of _ "av_major v"]
    by (simp add: api_version_string_def)
qed

theorem api_version_round_trip_witness:
  "api_version_parse (CHR ''v'' # api_version_string \<lparr>av_major = 12, av_minor = 3\<rparr>)
     = Inr \<lparr>av_major = 12, av_minor = 3\<rparr>"
  using api_version_round_trip [of "\<lparr>av_major = 12, av_minor = 3\<rparr>"] by simp

text \<open>
  The parser reads a prefix of each number and two parts only: what follows the digits of a part,
  and every part after the second, is dropped without an error.
\<close>

theorem api_version_parse_lenient:
  assumes "1 \<le> a" and "0 \<le> b" and "x = [] \<or> \<not> is_digit (hd x)" and "CHR ''.'' \<notin> set x"
    and "y = [] \<or> \<not> is_digit (hd y)"
  shows "api_version_parse (show_int a @ x @ CHR ''.'' # show_int b @ y)
    = api_version_parse (api_version_string \<lparr>av_major = a, av_minor = b\<rparr>)"
proof -
  have "strip_v (show_int a @ r) = show_int a @ r" for r using assms(1) strip_v_digits [of a r] by simp
  then show ?thesis
    using assms api_version_parse_parts [where x = x and y = y and a = a and b = b]
      api_version_parse_parts [where x = "[]" and y = "[]" and a = a and b = b]
    by (simp add: api_version_string_def)
qed

theorem api_version_parse_lenient_witness:
  "api_version_parse (show_int 1 @ ''x'' @ CHR ''.'' # show_int 5 @ ''beta.7'')
     = api_version_parse (api_version_string \<lparr>av_major = 1, av_minor = 5\<rparr>)"
  using api_version_parse_lenient [of 1 5 "''x''" "''beta.7''"] by (simp add: is_digit_def)

text \<open>
  \<open>compareTo\<close> is a total order on versions whose equality is \<open>equals\<close>, and versions that are
  compatible form an interval of it.
\<close>

theorem api_compare_order:
  "api_compare u v \<in> {-1, 0, 1} \<and> (api_compare u v = 0 \<longleftrightarrow> api_equals u v)
   \<and> api_compare v u = - api_compare u v
   \<and> (api_compare u v \<le> 0 \<and> api_compare v w \<le> 0 \<longrightarrow>
        api_compare u w \<le> 0 \<and> (api_compatible u w \<longrightarrow> api_compatible u v))"
  by (auto simp: api_compare_def api_equals_def api_compatible_def split: if_splits)

theorem api_compare_order_witness:
  "api_compare \<lparr>av_major = 1, av_minor = 2\<rparr> \<lparr>av_major = 2, av_minor = 0\<rparr> \<le> 0"
  using api_compare_order [of "\<lparr>av_major = 1, av_minor = 2\<rparr>" "\<lparr>av_major = 1, av_minor = 3\<rparr>"
      "\<lparr>av_major = 2, av_minor = 0\<rparr>"] by (simp add: api_compare_def)

section \<open>The builders\<close>

definition required_of :: "schema_call \<Rightarrow> string list" where
  "required_of c = (case c of AddRequired ns \<Rightarrow> ns | _ \<Rightarrow> [])"

text \<open>
  The names given to all \<open>addRequired\<close> calls are listed in the order of the calls, repetitions
  included, as long as no other call writes the field.
\<close>

lemma schema_run_required:
  assumes "\<forall>c \<in> set cs. \<forall>v. c \<noteq> SetField ''required'' v"
    and "jget s ''required'' = Some (JArr (map JStr ns)) \<or> jget s ''required'' = None \<and> ns = []"
  shows "array_items (jget (foldl schema_step s cs) ''required'') = map JStr (ns @ concat (map required_of cs))"
  using assms
proof (induction cs arbitrary: s ns)
  case Nil
  then show ?case by (auto simp: array_items_def)
next
  case (Cons c cs)
  show ?case
  proof (cases c)
    case (AddRequired ms)
    with Cons.prems have "jget (schema_step s c) ''required'' = Some (JArr (map JStr (ns @ ms)))"
      by (auto simp: array_items_def)
    with Cons.IH [of "schema_step s c" "ns @ ms"] Cons.prems AddRequired show ?thesis
      by (simp add: required_of_def)
  next
    case (SetField k v)
    with Cons.prems have "jget (schema_step s c) ''required'' = jget s ''required''" by auto
    with Cons.IH [of "schema_step s c" ns] Cons.prems SetField show ?thesis by (simp add: required_of_def)
  next
    case (AddProperty k v)
    then have "jget (schema_step s c) ''required'' = jget s ''required''" by simp
    with Cons.IH [of "schema_step s c" ns] Cons.prems AddProperty show ?thesis by (simp add: required_of_def)
  qed
qed

text \<open>A property's schema is the one given by the last call that named it.\<close>

definition property_of :: "fields_of \<Rightarrow> string \<Rightarrow> json option" where
  "property_of s name = jget (object_fields (jget s ''properties'')) name"

fun last_property :: "schema_call list \<Rightarrow> string \<Rightarrow> json option \<Rightarrow> json option" where
  "last_property [] name v = v"
| "last_property (AddProperty k u # cs) name v = last_property cs name (if k = name then Some u else v)"
| "last_property (c # cs) name v = last_property cs name v"

lemma property_of_step:
  "property_of (schema_step s (AddProperty k v)) name = (if k = name then Some v else property_of s name)"
  by (auto simp: property_of_def object_fields_def)

lemma schema_run_property:
  assumes "\<forall>c \<in> set cs. \<forall>v. c \<noteq> SetField ''properties'' v"
  shows "property_of (foldl schema_step s cs) name = last_property cs name (property_of s name)"
  using assms
proof (induction cs arbitrary: s)
  case (Cons c cs)
  show ?case
  proof (cases c)
    case (AddProperty k v)
    with Cons show ?thesis by (simp add: property_of_step del: schema_step.simps)
  next
    case (SetField k v)
    with Cons.prems have "property_of (schema_step s c) name = property_of s name"
      by (auto simp: property_of_def)
    with Cons SetField show ?thesis by (simp del: schema_step.simps)
  next
    case (AddRequired ms)
    then have "property_of (schema_step s c) name = property_of s name" by (simp add: property_of_def)
    with Cons AddRequired show ?thesis by (simp del: schema_step.simps)
  qed
qed simp

definition touches :: "string \<Rightarrow> schema_call \<Rightarrow> bool" where
  "touches k c = (case c of SetField j _ \<Rightarrow> j = k | _ \<Rightarrow> False)"

text \<open>
  An object schema built by any sequence of the builder's property and required calls (other calls
  between them) describes each property by its last schema and requires exactly the names given.
\<close>

theorem schema_object:
  assumes "\<forall>c \<in> set cs. \<not> touches ''properties'' c \<and> \<not> touches ''required'' c \<and> \<not> touches ''type'' c"
  shows "property_of (foldl schema_step (schema_new (Some ''object'')) cs) name = last_property cs name None
    \<and> array_items (jget (foldl schema_step (schema_new (Some ''object'')) cs) ''required'')
        = map JStr (concat (map required_of cs))
    \<and> jget (foldl schema_step (schema_new (Some ''object'')) cs) ''type'' = Some (JStr ''object'')"
proof -
  let ?s = "schema_new (Some ''object'')"
  have no: "\<forall>c \<in> set cs. \<forall>v. c \<noteq> SetField k v" if "k \<in> {''properties'', ''required'', ''type''}" for k
    using assms that by (auto simp: touches_def)
  have start: "jget ?s k = None" if "k \<noteq> ''type''" for k using that by (simp add: schema_new_def)
  have kept: "jget (foldl schema_step s cs) ''type'' = jget s ''type''" for s
    using no [of "''type''"]
  proof (induction cs arbitrary: s)
    case (Cons c cs)
    then have "jget (schema_step s c) ''type'' = jget s ''type''" by (cases c) auto
    with Cons show ?case by (simp del: schema_step.simps)
  qed simp
  have "property_of ?s name = None" by (simp add: property_of_def start object_fields_def)
  with schema_run_property [OF no, of ?s name] schema_run_required [OF no, of ?s "[]"] kept [of ?s] start
  show ?thesis by (simp add: schema_new_def)
qed

theorem schema_object_witness:
  "property_of (foldl schema_step (schema_new (Some ''object''))
       [AddProperty ''id'' JNull, AddRequired [''id''], schema_description ''d'',
        AddProperty ''id'' (schema_ref ''Id''), AddRequired [''name'']]) ''id'' = Some (schema_ref ''Id'')"
  using schema_object [of "[AddProperty ''id'' JNull, AddRequired [''id''], schema_description ''d'',
        AddProperty ''id'' (schema_ref ''Id''), AddRequired [''name'']]" "''id''"]
  by (simp add: touches_def schema_description_def del: schema_step.simps)

text \<open>The operation of a path and method in the document.\<close>

definition operation_at :: "spec_builder \<Rightarrow> string \<Rightarrow> http_method \<Rightarrow> json option" where
  "operation_at b path meth = jget (elems (sb_paths b) path) (method_name meth)"

lemma method_name_inject [simp]: "method_name x = method_name y \<longleftrightarrow> x = y"
  by (cases x; cases y) auto

fun item_operation :: "(http_method \<times> json) list \<Rightarrow> http_method \<Rightarrow> json option \<Rightarrow> json option" where
  "item_operation [] meth v = v"
| "item_operation ((k, op) # r) meth v = item_operation r meth (if k = meth then Some op else v)"

fun last_operation :: "spec_call list \<Rightarrow> string \<Rightarrow> http_method \<Rightarrow> json option \<Rightarrow> json option" where
  "last_operation [] path meth v = v"
| "last_operation (AddOperation p k op # cs) path meth v =
     last_operation cs path meth (if p = path \<and> k = meth then Some op else v)"
| "last_operation (AddPath p item # cs) path meth v =
     last_operation cs path meth (if p = path then item_operation item meth v else v)"
| "last_operation (c # cs) path meth v = last_operation cs path meth v"

fun last_schema :: "spec_call list \<Rightarrow> string \<Rightarrow> json option \<Rightarrow> json option" where
  "last_schema [] name v = v"
| "last_schema (AddSchema n s # cs) name v = last_schema cs name (if n = name then Some s else v)"
| "last_schema (c # cs) name v = last_schema cs name v"

lemma add_item_operations:
  "jget (foldl (\<lambda>ms (meth, op). jset (method_name meth) op ms) ms item) (method_name meth)
     = item_operation item meth (jget ms (method_name meth))"
proof (induction item arbitrary: ms)
  case (Cons e r)
  then show ?case by (cases e) auto
qed simp

lemmas spec_step_defs = spec_add_operation_def spec_add_path_def spec_add_schema_def spec_add_response_def
  spec_add_parameter_def spec_add_request_body_def spec_server_def spec_tag_def spec_description_def
  spec_terms_of_service_def spec_contact_def spec_license_def

lemma operation_at_run:
  "operation_at (foldl spec_step b cs) path meth = last_operation cs path meth (operation_at b path meth)"
proof (induction cs arbitrary: b)
  case (Cons c cs)
  show ?case
    by (cases c)
       (simp_all add: Cons.IH del: spec_step.simps, simp_all add: operation_at_def spec_step_defs add_item_operations)
qed simp

lemma schemas_run:
  "jget (sb_schemas (foldl spec_step b cs)) name = last_schema cs name (jget (sb_schemas b) name)"
proof (induction cs arbitrary: b)
  case (Cons c cs)
  show ?case
    by (cases c)
       (simp_all add: Cons.IH del: spec_step.simps, simp_all add: spec_step_defs)
qed simp

text \<open>Following a path of field names into a document.\<close>

fun json_path :: "json \<Rightarrow> string list \<Rightarrow> json option" where
  "json_path v [] = Some v"
| "json_path v (k # ks) = (case jfield v k of None \<Rightarrow> None | Some u \<Rightarrow> json_path u ks)"

lemma jget_append: "jget (xs @ ys) k = (case jget xs k of None \<Rightarrow> jget ys k | Some v \<Rightarrow> Some v)"
  by (induction xs) (auto split: if_splits)

lemma jget_map_obj: "jget (map (\<lambda>(p, ms). (p, JObj ms)) ps) k = map_option JObj (jget ps k)"
  by (induction ps) auto

lemma built_operation:
  "json_path (spec_build b) [''paths'', path, method_name meth] = operation_at b path meth"
  by (simp add: spec_build_def operation_at_def jget_map_obj elems_def split: option.split)

lemma built_schema:
  "json_path (spec_build b) [''components'', ''schemas'', name] = jget (sb_schemas b) name"
  by (simp add: spec_build_def build_components_def opt_field_def copy_map_to_record_def jget_append
      split: option.split)

text \<open>
  In the document that a run of calls builds, every path and method carries the operation of the
  last call that set it, and a reference \<open>#/components/schemas/N\<close> leads to the schema last added
  under N, or to nothing when none was.
\<close>

theorem document_contents:
  "json_path (spec_build (foldl spec_step (spec_new title version) cs)) [''paths'', path, method_name meth]
     = last_operation cs path meth None
   \<and> json_path (spec_build (foldl spec_step (spec_new title version) cs)) [''components'', ''schemas'', name]
     = last_schema cs name None
   \<and> json_path (spec_build (foldl spec_step (spec_new title version) cs)) [''openapi''] = Some (JStr ''3.0.3'')"
proof -
  have "operation_at (spec_new title version) path meth = None" "jget (sb_schemas (spec_new title version)) name = None"
    by (simp_all add: operation_at_def spec_new_def elems_def)
  then show ?thesis
    unfolding built_operation built_schema operation_at_run schemas_run by (simp add: spec_build_def)
qed

text \<open>
  An operation lists its responses by status; a tag list, a parameter list and the deprecation
  flag appear only when there is something to say.
\<close>

theorem operation_fields:
  "jfield (operation_build (operation_response st d ct b)) ''responses''
     = Some (JObj (ob_responses (operation_response st d ct b)))
   \<and> (jfield (operation_build b) ''tags'' = None \<longleftrightarrow> ob_tags b = [])
   \<and> (jfield (operation_build b) ''parameters'' = None \<longleftrightarrow> ob_parameters b = [])
   \<and> (jfield (operation_build b) ''deprecated'' = None \<longleftrightarrow> \<not> ob_deprecated b)
   \<and> jfield (operation_build b) ''requestBody'' = ob_request_body b"
  by (simp add: operation_build_def jget_append opt_field_def split: option.split)

end
