(* ===== verification/Url_Params.thy ===== *)
theory Url_Params
  imports Encryption Configuration
begin

text \<open>
  The texts of the standard library that requests are made of: UTF-8, the encoding of
  \<open>URLSearchParams\<close> and the base64 of URLs.  A character of a text is a code point below 256, so
  UTF-8 takes one or two bytes for it.
\<close>

section \<open>UTF-8\<close>

definition utf8_char :: "char \<Rightarrow> nat list" where
  "utf8_char c =
     (let n = (of_char c :: nat) in if n < 128 then [n] else [192 + n div 64, 128 + n mod 64])"

definition utf8_bytes :: "string \<Rightarrow> nat list" where
  "utf8_bytes s = concat (map utf8_char s)"

fun utf8_text :: "nat list \<Rightarrow> string" where
  "utf8_text [] = []"
| "utf8_text (a # r) =
     (if a < 128 then char_of a # utf8_text r
      else case r of [] \<Rightarrow> [] | b # q \<Rightarrow> char_of ((a - 192) * 64 + (b - 128)) # utf8_text q)"


lemma utf8_text_bytes [simp]: "utf8_text (utf8_bytes s) = s"
proof (induction s)
  case (Cons c s)
  have "(of_char c :: nat) div 64 * 64 + of_char c mod 64 = of_char c" by simp
  with Cons show ?case by (simp add: utf8_bytes_def utf8_char_def Let_def)
qed (simp add: utf8_bytes_def)

lemma utf8_bytes_small: "n \<in> set (utf8_bytes s) \<Longrightarrow> n < 256"
proof -
  have "n < 256" if "n \<in> set (utf8_char c)" for c
  proof -
    have "(of_char c :: nat) div 64 < 4" using nat_of_char_less_256 [of c] by (simp add: less_mult_imp_div_less)
    moreover have "(of_char c :: nat) mod 64 < 64" by simp
    ultimately have "192 + (of_char c :: nat) div 64 < 256" "128 + (of_char c :: nat) mod 64 < 256" by linarith+
    with that show ?thesis by (auto simp: utf8_char_def Let_def simp del: nat_of_char_less_256 split: if_splits)
  qed
  then show "n \<in> set (utf8_bytes s) \<Longrightarrow> n < 256" by (auto simp: utf8_bytes_def)
qed

text \<open>\<open>new TextEncoder().encode(s)\<close> and \<open>Buffer.from(s)\<close>.\<close>

definition text_encode :: "string \<Rightarrow> bytes" where
  "text_encode s = map of_nat (utf8_bytes s)"

definition text_decode :: "bytes \<Rightarrow> string" where
  "text_decode bs = utf8_text (map unat bs)"

lemma text_decode_encode [simp]: "text_decode (text_encode s) = s"
proof -
  have "map (unat \<circ> (of_nat :: nat \<Rightarrow> 8 word)) (utf8_bytes s) = utf8_bytes s"
    by (rule map_idI) (use utf8_bytes_small in \<open>auto simp: unat_of_nat\<close>)
  then show ?thesis by (simp add: text_decode_def text_encode_def)
qed

section \<open>Forms\<close>

definition form_plain :: "nat \<Rightarrow> bool" where
  "form_plain n = (48 \<le> n \<and> n \<le> 57 \<or> 65 \<le> n \<and> n \<le> 90 \<or> 97 \<le> n \<and> n \<le> 122
     \<or> n = 42 \<or> n = 45 \<or> n = 46 \<or> n = 95)"

definition percent_digit :: "nat \<Rightarrow> char" where
  "percent_digit n = (if n < 10 then char_of (48 + n) else char_of (55 + n))"

definition form_byte :: "nat \<Rightarrow> string" where
  "form_byte n =
     (if n = 32 then ''+'' else if form_plain n then [char_of n]
      else [CHR ''%'', percent_digit (n div 16), percent_digit (n mod 16)])"

definition form_encode :: "string \<Rightarrow> string" where
  "form_encode s = concat (map form_byte (utf8_bytes s))"

text \<open>\<open>params.toString()\<close>.\<close>

definition form_string :: "(string \<times> string) list \<Rightarrow> string" where
  "form_string ps = join_with CHR ''&'' (map (\<lambda>(k, v). form_encode k @ CHR ''='' # form_encode v) ps)"

text \<open>The receiver's reading of the text.\<close>

fun form_bytes :: "string \<Rightarrow> nat list" where
  "form_bytes [] = []"
| "form_bytes (c # cs) =
     (if c = CHR ''+'' then 32 # form_bytes cs
      else if c = CHR ''%'' then
        (case cs of
           h # l # r \<Rightarrow>
             (case (hex_value h, hex_value l) of
                (Some a, Some b) \<Rightarrow> (a * 16 + b) # form_bytes r
              | _ \<Rightarrow> 37 # form_bytes cs)
         | _ \<Rightarrow> 37 # form_bytes cs)
      else of_char c # form_bytes cs)"

definition form_decode :: "string \<Rightarrow> string" where
  "form_decode s = utf8_text (form_bytes s)"

definition form_pair :: "string \<Rightarrow> string \<times> string" where
  "form_pair s = (form_decode (takeWhile (\<lambda>c. c \<noteq> CHR ''='') s),
                  form_decode (drop 1 (dropWhile (\<lambda>c. c \<noteq> CHR ''='') s)))"

definition form_parse :: "string \<Rightarrow> (string \<times> string) list" where
  "form_parse s = map form_pair (filter (\<lambda>p. p \<noteq> []) (js_split CHR ''&'' s))"

lemma hex_value_percent:
  assumes "n < 16"
  shows "hex_value (percent_digit n) = Some n"
proof -
  have "(of_char (percent_digit n) :: nat) = (if n < 10 then 48 + n else 55 + n)"
    using assms by (auto simp: percent_digit_def of_char_of_small)
  then show ?thesis using assms by (auto simp: hex_value_def Let_def split: if_splits)
qed

lemma form_plain_code:
  assumes "form_plain n"
  shows "(of_char (char_of n :: char) :: nat) = n" "char_of n \<noteq> CHR ''+''" "char_of n \<noteq> CHR ''%''"
    "char_of n \<noteq> CHR ''&''" "char_of n \<noteq> CHR ''=''"
proof -
  show c: "(of_char (char_of n :: char) :: nat) = n" using assms by (intro of_char_of_small) (auto simp: form_plain_def)
  have "char_of n \<noteq> d" if "(of_char d :: nat) \<in> {37, 38, 43, 61}" for d
    using that c assms by (auto simp: form_plain_def)
  then show "char_of n \<noteq> CHR ''+''" "char_of n \<noteq> CHR ''%''" "char_of n \<noteq> CHR ''&''" "char_of n \<noteq> CHR ''=''"
    by auto
qed

lemma form_bytes_byte: "n < 256 \<Longrightarrow> form_bytes (form_byte n @ r) = n # form_bytes r"
  using form_plain_code [of n] hex_value_percent [of "n div 16"] hex_value_percent [of "n mod 16"]
  by (auto simp: form_byte_def less_mult_imp_div_less)

lemma form_bytes_encoded: "\<forall>n \<in> set ns. n < 256 \<Longrightarrow> form_bytes (concat (map form_byte ns)) = ns"
  by (induction ns) (simp_all add: form_bytes_byte del: form_bytes.simps(2))

lemma form_decode_encode [simp]: "form_decode (form_encode s) = s"
  using form_bytes_encoded [of "utf8_bytes s"] utf8_bytes_small
  by (simp add: form_decode_def form_encode_def)

lemma percent_digit_plain: "n < 16 \<Longrightarrow> percent_digit n \<noteq> CHR ''&'' \<and> percent_digit n \<noteq> CHR ''=''"
  using hex_value_percent [of n] by (auto simp: hex_value_def Let_def)

lemma form_encode_plain: "CHR ''&'' \<notin> set (form_encode s)" "CHR ''='' \<notin> set (form_encode s)"
proof -
  have "CHR ''&'' \<notin> set (form_byte n) \<and> CHR ''='' \<notin> set (form_byte n)" if "n < 256" for n
    using that form_plain_code [of n] percent_digit_plain [of "n div 16"] percent_digit_plain [of "n mod 16"]
    by (auto simp: form_byte_def less_mult_imp_div_less)
  then show "CHR ''&'' \<notin> set (form_encode s)" "CHR ''='' \<notin> set (form_encode s)"
    using utf8_bytes_small by (fastforce simp: form_encode_def)+
qed

lemma split_joined:
  "xs \<noteq> [] \<Longrightarrow> \<forall>x \<in> set xs. c \<notin> set x \<Longrightarrow> js_split c (join_with c xs) = xs"
  by (induction c xs rule: join_with.induct) (auto simp: js_split_absent js_split_at)

lemma takeWhile_until: "c \<notin> set s \<Longrightarrow> takeWhile (\<lambda>d. d \<noteq> c) (s @ c # r) = s"
  by (induction s) auto

lemma dropWhile_until: "c \<notin> set s \<Longrightarrow> dropWhile (\<lambda>d. d \<noteq> c) (s @ c # r) = c # r"
  by (induction s) auto

lemma form_pair_encoded: "form_pair (form_encode k @ CHR ''='' # form_encode v) = (k, v)"
  by (simp add: form_pair_def takeWhile_until dropWhile_until form_encode_plain)

text \<open>What the receiver reads is what was set, whatever the values hold.\<close>

theorem form_round_trip: "form_parse (form_string ps) = ps"
proof (cases "ps = []")
  case False
  let ?xs = "map (\<lambda>(k, v). form_encode k @ CHR ''='' # form_encode v) ps"
  have "js_split CHR ''&'' (form_string ps) = ?xs"
    unfolding form_string_def
    by (rule split_joined) (use False form_encode_plain in \<open>auto simp: case_prod_beta\<close>)
  moreover have "filter (\<lambda>p. p \<noteq> []) ?xs = ?xs" by (auto simp: filter_id_conv case_prod_beta)
  moreover have "map form_pair ?xs = ps"
    by (induction ps) (auto simp: form_pair_encoded case_prod_beta)
  ultimately show ?thesis by (simp add: form_parse_def)
qed (simp add: form_parse_def form_string_def)

section \<open>Base64 of URLs\<close>

definition url_char :: "char \<Rightarrow> char" where
  "url_char c = (if c = CHR ''+'' then CHR ''-'' else if c = CHR ''/'' then CHR ''_'' else c)"

text \<open>\<open>btoa(binary)\<close> with its replacements.\<close>

definition base64_url_encode :: "bytes \<Rightarrow> string" where
  "base64_url_encode bs = filter (\<lambda>c. c \<noteq> CHR ''='') (map url_char (to_base64 bs))"

lemma b64_value_url: "b64_value (url_char c) = b64_value c"
  by (auto simp: url_char_def b64_value_def Let_def)

lemma url_char_pad: "url_char c = CHR ''='' \<longleftrightarrow> c = CHR ''=''"
  by (auto simp: url_char_def)

lemma base64_url_digits:
  "base64_url_encode bs = map (url_char \<circ> b64_char) (b64_digits (map unat bs))"
proof -
  have "\<forall>x \<in> set (map unat bs). x < 256" using byte_bound by auto
  note small = b64_digits_small [OF this]
  have "filter (\<lambda>c. c \<noteq> CHR ''='') (map (url_char \<circ> b64_char) (b64_digits (map unat bs)))
      = map (url_char \<circ> b64_char) (b64_digits (map unat bs))"
    by (rule filter_True) (use small b64_char_no_pad in \<open>auto simp: url_char_pad\<close>)
  then show ?thesis by (simp add: base64_url_encode_def to_base64_def url_char_pad filter_replicate o_def url_char_def [of "CHR ''=''"])
qed

lemma from_base64_url [simp]: "from_base64 (base64_url_encode bs) = bs"
proof -
  have small: "\<forall>x \<in> set (map unat bs). x < 256" using byte_bound by auto
  note digits = b64_digits_small [OF this]
  let ?ds = "b64_digits (map unat bs)"
  have tw: "takeWhile (\<lambda>c. c \<noteq> CHR ''='') (map (url_char \<circ> b64_char) ?ds) = map (url_char \<circ> b64_char) ?ds"
    by (rule takeWhile_eq_all_conv [THEN iffD2]) (use digits b64_char_no_pad in \<open>auto simp: url_char_pad\<close>)
  have mf: "List.map_filter b64_value (map (url_char \<circ> b64_char) ?ds) = ?ds"
    using b64_map_filter [OF digits] by (simp add: List.map_filter_def b64_value_url comp_def filter_map)
  show ?thesis
    unfolding from_base64_def base64_url_digits tw mf b64_bytes_digits [OF small] by (simp add: comp_def)
qed

lemma b64_digits_length: "length (b64_digits xs) = (4 * length xs + 2) div 3"
  by (induction xs rule: b64_digits.induct) auto

lemma base64_url_length: "length (base64_url_encode bs) = (4 * length bs + 2) div 3"
  by (simp add: base64_url_digits b64_digits_length)

end
