(* ===== verification/Oauth.thy ===== *)
theory Oauth
  imports Url_Params Authentication Json
begin

text \<open>
  \<open>packages/security/src/oauth\<close> and \<open>sso\<close>: PKCE, the authorization code and client credentials
  flows, token introspection and revocation, the OIDC and SAML authenticators.

  \<open>fetch\<close> is a callback over a state of its own; a response is its status line and what
  \<open>response.json()\<close> gives.  Random bytes, the clock and the reading of dates are arguments.
\<close>

record oauth_config =
  oc_client_id :: string
  oc_client_secret :: "string option"
  oc_redirect_uri :: "string option"
  oc_scopes :: "string list option"
  oc_token_endpoint :: string
  oc_authorization_endpoint :: "string option"
  oc_introspection_endpoint :: "string option"
  oc_revocation_endpoint :: "string option"
  oc_jwks_uri :: "string option"

record token_response =
  tr_access_token :: string
  tr_token_type :: string
  tr_expires_in :: "rat option"
  tr_refresh_token :: "string option"
  tr_scope :: "string option"
  tr_id_token :: "string option"

record introspection =
  in_active :: bool
  in_sub :: "string option"
  in_client_id :: "string option"
  in_scope :: "string option"
  in_exp :: "rat option"
  in_username :: "string option"
  in_token_type :: "string option"

record http_request =
  rq_url :: string
  rq_method :: string
  rq_headers :: "(string, string) jsmap"
  rq_body :: "string option"

record http_response =
  rs_ok :: bool
  rs_status :: int
  rs_status_text :: string
  rs_json :: "(js_error, json) outcome"

type_synonym 'w fetch_fn = "http_request \<Rightarrow> 'w \<Rightarrow> (js_error, http_response) outcome \<times> 'w"

section \<open>PKCE\<close>

datatype pkce_method = S256 | Plain

record pkce_challenge =
  pk_verifier :: string
  pk_challenge :: string
  pk_method :: pkce_method

text \<open>The bytes are those \<open>crypto.getRandomValues\<close> gives; their number is the argument of the source.\<close>

definition generate_verifier :: "bytes \<Rightarrow> string" where
  "generate_verifier random = base64_url_encode random"

definition sha256_challenge :: "string \<Rightarrow> string" where
  "sha256_challenge verifier = base64_url_encode (text_encode verifier)"

definition challenge_of :: "pkce_method \<Rightarrow> string \<Rightarrow> string" where
  "challenge_of meth verifier = (if meth = S256 then sha256_challenge verifier else verifier)"

definition pkce_generate :: "pkce_method \<Rightarrow> bytes \<Rightarrow> pkce_challenge" where
  "pkce_generate meth random =
     (let verifier = generate_verifier random
      in \<lparr>pk_verifier = verifier, pk_challenge = challenge_of meth verifier, pk_method = meth\<rparr>)"

definition pkce_verify :: "string \<Rightarrow> string \<Rightarrow> pkce_method \<Rightarrow> bool" where
  "pkce_verify verifier challenge meth = (challenge_of meth verifier = challenge)"

definition pkce_method_name :: "pkce_method \<Rightarrow> string" where
  "pkce_method_name meth = (case meth of S256 \<Rightarrow> ''S256'' | Plain \<Rightarrow> ''plain'')"

section \<open>Requests\<close>

text \<open>\<open>if (v != null) params.set(k, v)\<close>.\<close>

definition set_given :: "string \<Rightarrow> string option \<Rightarrow> (string, string) jsmap \<Rightarrow> (string, string) jsmap" where
  "set_given k v ps = (case v of None \<Rightarrow> ps | Some x \<Rightarrow> jset k x ps)"

definition authorization_params :: "oauth_config \<Rightarrow> string \<Rightarrow> pkce_challenge option \<Rightarrow> (string, string) jsmap" where
  "authorization_params cfg state pkce =
     (let p1 = [(''response_type'', ''code''), (''client_id'', oc_client_id cfg), (''state'', state)];
          p2 = set_given ''redirect_uri'' (oc_redirect_uri cfg) p1;
          p3 = set_given ''scope'' (map_option (join_with CHR '' '') (oc_scopes cfg)) p2
      in case pkce of
           None \<Rightarrow> p3
         | Some p \<Rightarrow> jset ''code_challenge_method'' (pkce_method_name (pk_method p))
                       (jset ''code_challenge'' (pk_challenge p) p3))"

definition build_authorization_url :: "oauth_config \<Rightarrow> string \<Rightarrow> pkce_challenge option \<Rightarrow> (js_error, string) outcome" where
  "build_authorization_url cfg state pkce =
     (case oc_authorization_endpoint cfg of
        None \<Rightarrow> Inl (plain_error ''authorizationEndpoint required for Authorization Code flow'')
      | Some e \<Rightarrow> Inr (e @ CHR ''?'' # form_string (authorization_params cfg state pkce)))"

definition exchange_params :: "oauth_config \<Rightarrow> string \<Rightarrow> string option \<Rightarrow> (string, string) jsmap" where
  "exchange_params cfg code verifier =
     set_given ''code_verifier'' verifier
       (set_given ''client_secret'' (oc_client_secret cfg)
         (set_given ''redirect_uri'' (oc_redirect_uri cfg)
           [(''grant_type'', ''authorization_code''), (''code'', code), (''client_id'', oc_client_id cfg)]))"

definition refresh_params :: "oauth_config \<Rightarrow> string \<Rightarrow> (string, string) jsmap" where
  "refresh_params cfg token =
     set_given ''client_secret'' (oc_client_secret cfg)
       [(''grant_type'', ''refresh_token''), (''refresh_token'', token), (''client_id'', oc_client_id cfg)]"

text \<open>\<open>xs ?? []\<close>.\<close>

definition the_list :: "'a list option \<Rightarrow> 'a list" where
  "the_list v = (case v of None \<Rightarrow> [] | Some xs \<Rightarrow> xs)"

definition credentials_params :: "oauth_config \<Rightarrow> string list option \<Rightarrow> (string, string) jsmap" where
  "credentials_params cfg additional =
     (let scopes = the_list (oc_scopes cfg) @ the_list additional;
          p = set_given ''client_secret'' (oc_client_secret cfg)
                [(''grant_type'', ''client_credentials''), (''client_id'', oc_client_id cfg)]
      in if scopes \<noteq> [] then jset ''scope'' (join_with CHR '' '' scopes) p else p)"

definition append_client_auth :: "oauth_config \<Rightarrow> (string, string) jsmap \<Rightarrow> (string, string) jsmap" where
  "append_client_auth cfg ps =
     set_given ''client_secret'' (oc_client_secret cfg) (jset ''client_id'' (oc_client_id cfg) ps)"

definition token_params :: "oauth_config \<Rightarrow> string \<Rightarrow> string option \<Rightarrow> (string, string) jsmap" where
  "token_params cfg token hint =
     append_client_auth cfg (set_given ''token_type_hint'' hint [(''token'', token)])"

definition form_request :: "string \<Rightarrow> (string, string) jsmap \<Rightarrow> http_request" where
  "form_request url ps = \<lparr>rq_url = url, rq_method = ''POST'',
     rq_headers = [(''Content-Type'', ''application/x-www-form-urlencoded'')], rq_body = Some (form_string ps)\<rparr>"

section \<open>Responses\<close>

text \<open>\<open>data[k]\<close>: reading a property of \<open>null\<close> throws.\<close>

definition json_member :: "json \<Rightarrow> string \<Rightarrow> (js_error, json option) outcome" where
  "json_member data k =
     (if data = JNull
      then Inl (JsError ''TypeError'' (''Cannot read properties of null (reading '' @ [CHR 39] @ k @ [CHR 39] @ '')''))
      else Inr (jfield data k))"

definition as_string :: "json option \<Rightarrow> string option" where
  "as_string v = (case v of Some (JStr s) \<Rightarrow> Some s | _ \<Rightarrow> None)"

definition as_number :: "json option \<Rightarrow> rat option" where
  "as_number v = (case v of Some (JNum n) \<Rightarrow> Some n | _ \<Rightarrow> None)"

definition string_or :: "string \<Rightarrow> json option \<Rightarrow> string" where
  "string_or d v = (case as_string v of None \<Rightarrow> d | Some s \<Rightarrow> s)"

definition parse_token_response :: "json \<Rightarrow> (js_error, token_response) outcome" where
  "parse_token_response data =
     (case json_member data ''access_token'' of
        Inl err \<Rightarrow> Inl err
      | Inr tok \<Rightarrow> Inr \<lparr>tr_access_token = string_or [] tok,
            tr_token_type = string_or ''Bearer'' (jfield data ''token_type''),
            tr_expires_in = as_number (jfield data ''expires_in''),
            tr_refresh_token = as_string (jfield data ''refresh_token''),
            tr_scope = as_string (jfield data ''scope''),
            tr_id_token = as_string (jfield data ''id_token'')\<rparr>)"

definition parse_credentials_response :: "json \<Rightarrow> (js_error, token_response) outcome" where
  "parse_credentials_response data =
     (case json_member data ''expires_in'' of
        Inl err \<Rightarrow> Inl err
      | Inr expires \<Rightarrow> Inr \<lparr>tr_access_token = string_or [] (jfield data ''access_token''),
            tr_token_type = string_or ''Bearer'' (jfield data ''token_type''),
            tr_expires_in = as_number expires, tr_refresh_token = None,
            tr_scope = as_string (jfield data ''scope''), tr_id_token = None\<rparr>)"

definition parse_introspection :: "json \<Rightarrow> (js_error, introspection) outcome" where
  "parse_introspection data =
     (case json_member data ''active'' of
        Inl err \<Rightarrow> Inl err
      | Inr act \<Rightarrow> Inr \<lparr>in_active = (act = Some (JBool True)),
            in_sub = as_string (jfield data ''sub''),
            in_client_id = as_string (jfield data ''client_id''),
            in_scope = as_string (jfield data ''scope''),
            in_exp = as_number (jfield data ''exp''),
            in_username = as_string (jfield data ''username''),
            in_token_type = as_string (jfield data ''token_type'')\<rparr>)"

section \<open>Flows\<close>

definition status_line :: "http_response \<Rightarrow> string" where
  "status_line r = show_int (rs_status r) @ '' '' @ rs_status_text r"

text \<open>\<open>await response.json()\<close> and the reading of what it gives.\<close>

definition read_json :: "(json \<Rightarrow> (js_error, 'a) outcome) \<Rightarrow> http_response \<Rightarrow> (js_error, 'a) outcome" where
  "read_json parse r = (case rs_json r of Inl err \<Rightarrow> Inl err | Inr data \<Rightarrow> parse data)"

definition post_form :: "'w fetch_fn \<Rightarrow> http_request \<Rightarrow> (http_response \<Rightarrow> (js_error, 'a) outcome)
    \<Rightarrow> (http_response \<Rightarrow> string) \<Rightarrow> 'w \<Rightarrow> (js_error, 'a) outcome \<times> 'w" where
  "post_form fetch rq use failure w =
     (case fetch rq w of
        (Inl err, w') \<Rightarrow> (Inl err, w')
      | (Inr r, w') \<Rightarrow> (if \<not> rs_ok r then Inl (plain_error (failure r)) else use r, w'))"

definition post_token :: "oauth_config \<Rightarrow> 'w fetch_fn \<Rightarrow> (string, string) jsmap \<Rightarrow> 'w
    \<Rightarrow> (js_error, token_response) outcome \<times> 'w" where
  "post_token cfg fetch ps =
     post_form fetch (form_request (oc_token_endpoint cfg) ps) (read_json parse_token_response)
       (\<lambda>r. ''Token request failed: '' @ status_line r)"

definition exchange_code :: "oauth_config \<Rightarrow> 'w fetch_fn \<Rightarrow> string \<Rightarrow> string option \<Rightarrow> 'w
    \<Rightarrow> (js_error, token_response) outcome \<times> 'w" where
  "exchange_code cfg fetch code verifier = post_token cfg fetch (exchange_params cfg code verifier)"

definition refresh_token :: "oauth_config \<Rightarrow> 'w fetch_fn \<Rightarrow> string \<Rightarrow> 'w
    \<Rightarrow> (js_error, token_response) outcome \<times> 'w" where
  "refresh_token cfg fetch token = post_token cfg fetch (refresh_params cfg token)"

definition get_token :: "oauth_config \<Rightarrow> 'w fetch_fn \<Rightarrow> string list option \<Rightarrow> 'w
    \<Rightarrow> (js_error, token_response) outcome \<times> 'w" where
  "get_token cfg fetch additional =
     post_form fetch (form_request (oc_token_endpoint cfg) (credentials_params cfg additional))
       (read_json parse_credentials_response) (\<lambda>r. ''Client credentials request failed: '' @ status_line r)"

definition introspect :: "oauth_config \<Rightarrow> 'w fetch_fn \<Rightarrow> string \<Rightarrow> string option \<Rightarrow> 'w
    \<Rightarrow> (js_error, introspection) outcome \<times> 'w" where
  "introspect cfg fetch token hint w =
     (case oc_introspection_endpoint cfg of
        None \<Rightarrow> (Inl (plain_error ''introspectionEndpoint required for token introspection''), w)
      | Some e \<Rightarrow> post_form fetch (form_request e (token_params cfg token hint)) (read_json parse_introspection)
                    (\<lambda>r. ''Introspection request failed: '' @ show_int (rs_status r)) w)"

definition revoke :: "oauth_config \<Rightarrow> 'w fetch_fn \<Rightarrow> string \<Rightarrow> string option \<Rightarrow> 'w
    \<Rightarrow> (js_error, unit) outcome \<times> 'w" where
  "revoke cfg fetch token hint w =
     (case oc_revocation_endpoint cfg of
        None \<Rightarrow> (Inl (plain_error ''revocationEndpoint required for token revocation''), w)
      | Some e \<Rightarrow> post_form fetch (form_request e (token_params cfg token hint)) (\<lambda>_. Inr ())
                    (\<lambda>r. ''Revocation request failed: '' @ show_int (rs_status r)) w)"

section \<open>Providers\<close>

datatype userinfo_failure = AuthFailure auth_error | OtherFailure js_error

record oidc_user_info =
  ui_sub :: string
  ui_email :: "string option"
  ui_email_verified :: "bool option"
  ui_name :: "string option"
  ui_roles :: "string list option"

definition authenticate_oidc :: "(string \<Rightarrow> 'w \<Rightarrow> (userinfo_failure, oidc_user_info) outcome \<times> 'w)
    \<Rightarrow> string \<Rightarrow> 'w \<Rightarrow> auth_result \<times> 'w" where
  "authenticate_oidc userinfo token w =
     (case userinfo token w of
        (Inl (AuthFailure err), w') \<Rightarrow> (Inl err, w')
      | (Inl (OtherFailure _), w') \<Rightarrow> (Inl InvalidTokenError, w')
      | (Inr u, w') \<Rightarrow>
          (if ui_sub u = [] then Inl InvalidTokenError
           else Inr \<lparr>pr_id = ui_sub u, pr_tenant_id = None,
                     pr_roles = (case ui_roles u of None \<Rightarrow> [] | Some rs \<Rightarrow> rs), pr_permissions = []\<rparr>, w'))"

datatype sso_provider = Auth0 | Okta | Azure_AD | Google

record sso_config =
  so_issuer :: string
  so_client_id :: string
  so_client_secret :: "string option"
  so_redirect_uri :: "string option"
  so_scopes :: "string list option"

record sso_payload =
  sp_sub :: string
  sp_email :: "string option"
  sp_name :: "string option"
  sp_roles :: "json list"
  sp_provider :: string
  sp_raw :: json

record sso_principal =
  so_id :: string
  so_roles :: "json list"
  so_permissions :: "json list"

definition get_provider :: "sso_provider \<Rightarrow> string" where
  "get_provider p = (case p of Auth0 \<Rightarrow> ''auth0'' | Okta \<Rightarrow> ''okta'' | Azure_AD \<Rightarrow> ''azure_ad'' | Google \<Rightarrow> ''google'')"

definition userinfo_url :: "sso_provider \<Rightarrow> sso_config \<Rightarrow> string" where
  "userinfo_url p cfg = (case p of
      Auth0 \<Rightarrow> so_issuer cfg @ ''/userinfo''
    | Okta \<Rightarrow> so_issuer cfg @ ''/v1/userinfo''
    | Azure_AD \<Rightarrow> ''https://graph.microsoft.com/oidc/userinfo''
    | Google \<Rightarrow> ''https://openidconnect.googleapis.com/v1/userinfo'')"

text \<open>The claim a provider keeps roles in; Google has none.\<close>

definition roles_claim :: "sso_provider \<Rightarrow> string option" where
  "roles_claim p = (case p of
      Auth0 \<Rightarrow> Some ''https://example.com/roles'' | Okta \<Rightarrow> Some ''groups''
    | Azure_AD \<Rightarrow> Some ''roles'' | Google \<Rightarrow> None)"

definition first_claim :: "sso_provider \<Rightarrow> string" where
  "first_claim p = (case p of Auth0 \<Rightarrow> ''sub'' | Okta \<Rightarrow> ''groups'' | Azure_AD \<Rightarrow> ''roles'' | Google \<Rightarrow> ''sub'')"

definition as_array :: "json option \<Rightarrow> json list" where
  "as_array v = (case v of Some (JArr xs) \<Rightarrow> xs | _ \<Rightarrow> [])"

definition map_claims :: "sso_provider \<Rightarrow> json \<Rightarrow> (js_error, sso_payload) outcome" where
  "map_claims p data =
     (case json_member data (first_claim p) of
        Inl err \<Rightarrow> Inl err
      | Inr _ \<Rightarrow> Inr \<lparr>sp_sub = string_or [] (jfield data ''sub''),
            sp_email = as_string (jfield data ''email''), sp_name = as_string (jfield data ''name''),
            sp_roles = (case roles_claim p of None \<Rightarrow> [] | Some c \<Rightarrow> as_array (jfield data c)),
            sp_provider = get_provider p, sp_raw = data\<rparr>)"

text \<open>
  The outer error is a promise that rejects: the claims are mapped outside the \<open>try\<close>.
\<close>

definition authenticate_sso :: "sso_provider \<Rightarrow> sso_config \<Rightarrow> 'w fetch_fn \<Rightarrow> string \<Rightarrow> 'w
    \<Rightarrow> (js_error, (auth_error, sso_principal) outcome) outcome \<times> 'w" where
  "authenticate_sso p cfg fetch token w =
     (case fetch \<lparr>rq_url = userinfo_url p cfg, rq_method = ''GET'',
                  rq_headers = [(''Authorization'', ''Bearer '' @ token)], rq_body = None\<rparr> w of
        (Inl _, w') \<Rightarrow> (Inr (Inl InvalidTokenError), w')
      | (Inr r, w') \<Rightarrow>
          (if \<not> rs_ok r then Inr (Inl InvalidTokenError)
           else case rs_json r of
                  Inl _ \<Rightarrow> Inr (Inl InvalidTokenError)
                | Inr data \<Rightarrow>
                    (case map_claims p data of
                       Inl err \<Rightarrow> Inl err
                     | Inr claims \<Rightarrow>
                         if sp_sub claims = [] then Inr (Inl InvalidTokenError)
                         else Inr (Inr \<lparr>so_id = sp_sub claims, so_roles = sp_roles claims, so_permissions = []\<rparr>)), w'))"

section \<open>SAML\<close>

record saml_config =
  sc_idp_sso_url :: string
  sc_idp_certificate :: string
  sc_sp_entity_id :: string
  sc_sp_acs_url :: string

datatype saml_value = OneValue string | ManyValues "string list"

record saml_conditions =
  sm_not_before :: "string option"
  sm_not_on_or_after :: "string option"

record saml_assertion =
  sa_name_id :: string
  sa_session_index :: "string option"
  sa_attributes :: "(string, saml_value) jsmap"
  sa_conditions :: "saml_conditions option"

definition extract_roles :: "saml_assertion \<Rightarrow> string list" where
  "extract_roles a =
     (let raw = (case jget (sa_attributes a) ''roles'' of
                   None \<Rightarrow> jget (sa_attributes a) ''http://schemas.microsoft.com/ws/2008/06/identity/claims/role''
                 | Some v \<Rightarrow> Some v)
      in case raw of Some (ManyValues rs) \<Rightarrow> rs | Some (OneValue r) \<Rightarrow> [r] | None \<Rightarrow> [])"

definition extract_string :: "(string, saml_value) jsmap \<Rightarrow> string \<Rightarrow> string option" where
  "extract_string attrs key =
     (case jget attrs key of
        Some (OneValue s) \<Rightarrow> Some s
      | Some (ManyValues (s # _)) \<Rightarrow> Some s
      | _ \<Rightarrow> None)"

datatype saml_error = InvalidAssertion | AssertionRefused string

text \<open>
  \<open>date\<close> reads a date; for a text that is none, an invalid date, every comparison is false.  The
  clock is read at each condition.
\<close>

definition after_date :: "(string \<Rightarrow> int option) \<Rightarrow> int \<Rightarrow> string \<Rightarrow> bool" where
  "after_date date now s = (case date s of None \<Rightarrow> False | Some t \<Rightarrow> now > t)"

definition before_date :: "(string \<Rightarrow> int option) \<Rightarrow> int \<Rightarrow> string \<Rightarrow> bool" where
  "before_date date now s = (case date s of None \<Rightarrow> False | Some t \<Rightarrow> now < t)"

definition from_assertion :: "(string \<Rightarrow> int option) \<Rightarrow> int \<Rightarrow> int \<Rightarrow> saml_assertion \<Rightarrow> (saml_error, principal) outcome" where
  "from_assertion date now1 now2 a =
     (let upper = Option.bind (sa_conditions a) sm_not_on_or_after;
          lower = Option.bind (sa_conditions a) sm_not_before
      in if sa_name_id a = [] then Inl InvalidAssertion
         else if (case upper of None \<Rightarrow> False | Some s \<Rightarrow> after_date date now1 s)
         then Inl (AssertionRefused ''SAML assertion has expired'')
         else if (case lower of None \<Rightarrow> False | Some s \<Rightarrow> before_date date now2 s)
         then Inl (AssertionRefused ''SAML assertion not yet valid'')
         else Inr \<lparr>pr_id = sa_name_id a, pr_tenant_id = extract_string (sa_attributes a) ''tenantId'',
                   pr_roles = extract_roles a, pr_permissions = []\<rparr>)"

definition quoted :: "string \<Rightarrow> string" where "quoted s = CHR 0x22 # s @ [CHR 0x22]"

definition saml_xml :: "saml_config \<Rightarrow> string \<Rightarrow> string \<Rightarrow> string" where
  "saml_xml cfg rand stamp =
     ''<samlp:AuthnRequest xmlns:samlp='' @ quoted ''urn:oasis:names:tc:SAML:2.0:protocol''
     @ '' ID='' @ quoted (CHR ''_'' # rand) @ '' Version='' @ quoted ''2.0''
     @ '' IssueInstant='' @ quoted stamp
     @ '' AssertionConsumerServiceURL='' @ quoted (sc_sp_acs_url cfg)
     @ '' Destination='' @ quoted (sc_idp_sso_url cfg)
     @ ''><saml:Issuer xmlns:saml='' @ quoted ''urn:oasis:names:tc:SAML:2.0:assertion'' @ ''>''
     @ sc_sp_entity_id cfg @ ''</saml:Issuer></samlp:AuthnRequest>''"

definition build_saml_request :: "saml_config \<Rightarrow> string \<Rightarrow> string \<Rightarrow> string" where
  "build_saml_request cfg rand stamp = to_base64 (text_encode (saml_xml cfg rand stamp))"

definition auth_request_params :: "saml_config \<Rightarrow> string \<Rightarrow> string \<Rightarrow> string option \<Rightarrow> (string, string) jsmap" where
  "auth_request_params cfg rand stamp relay =
     set_given ''RelayState'' relay
       [(''SAMLRequest'', build_saml_request cfg rand stamp),
        (''SigAlg'', ''http://www.w3.org/2001/04/xmldsig-more#rsa-sha256'')]"

definition build_auth_request_url :: "saml_config \<Rightarrow> string \<Rightarrow> string \<Rightarrow> string option \<Rightarrow> string" where
  "build_auth_request_url cfg rand stamp relay =
     sc_idp_sso_url cfg @ CHR ''?'' # form_string (auth_request_params cfg rand stamp relay)"

section \<open>What PKCE protects\<close>

lemma challenge_inject: "challenge_of meth u = challenge_of meth v \<longleftrightarrow> u = v"
proof -
  have "u = v" if "sha256_challenge u = sha256_challenge v"
    using arg_cong [OF that, of "\<lambda>c. text_decode (from_base64 c)"] by (simp add: sha256_challenge_def)
  then show ?thesis by (auto simp: challenge_of_def)
qed

text \<open>
  A generated pair passes the check, and under either method no other verifier passes it.
\<close>

theorem pkce_binding:
  "pkce_verify v (pk_challenge (pkce_generate meth random)) meth
     \<longleftrightarrow> v = pk_verifier (pkce_generate meth random)"
  by (simp add: pkce_verify_def pkce_generate_def Let_def challenge_inject)

definition url_safe :: "char \<Rightarrow> bool" where
  "url_safe c = (let n = (of_char c :: nat) in
     48 \<le> n \<and> n \<le> 57 \<or> 65 \<le> n \<and> n \<le> 90 \<or> 97 \<le> n \<and> n \<le> 122 \<or> n = 45 \<or> n = 95)"

lemma url_char_b64:
  assumes "n < 64"
  shows "url_safe (url_char (b64_char n))"
proof -
  consider "n = 62" | "n = 63" | "n < 62" using assms by linarith
  then show ?thesis
  proof cases
    case 3
    then have "(of_char (b64_char n) :: nat) = (if n < 26 then 65 + n else if n < 52 then 71 + n else n - 4)"
      by (auto simp: b64_char_def of_char_of_small)
    with 3 show ?thesis by (auto simp: url_char_def url_safe_def Let_def)
  qed (simp_all add: b64_char_def url_char_def url_safe_def)
qed

lemma base64_url_safe: "c \<in> set (base64_url_encode bs) \<Longrightarrow> url_safe c"
proof -
  have "\<forall>x \<in> set (map unat bs). x < 256" using byte_bound by auto
  note small = b64_digits_small [OF this]
  show "c \<in> set (base64_url_encode bs) \<Longrightarrow> url_safe c"
    using small url_char_b64 by (auto simp: base64_url_digits)
qed

text \<open>
  From 32 to 96 random bytes, the verifier has the 43 to 128 characters the standard asks for, all
  of the URL alphabet; distinct bytes give distinct verifiers.
\<close>

theorem verifier_shape:
  assumes "32 \<le> length random" and "length random \<le> 96"
  shows "43 \<le> length (generate_verifier random) \<and> length (generate_verifier random) \<le> 128
    \<and> list_all url_safe (generate_verifier random)
    \<and> (generate_verifier random = generate_verifier other \<longrightarrow> random = other)"
proof -
  have "random = other" if "generate_verifier random = generate_verifier other"
    using arg_cong [OF that, of from_base64] by (simp add: generate_verifier_def)
  moreover have "43 \<le> (4 * length random + 2) div 3" "(4 * length random + 2) div 3 \<le> 128"
    using assms by linarith+
  ultimately show ?thesis
    by (auto simp: generate_verifier_def base64_url_length list_all_iff dest: base64_url_safe)
qed

theorem verifier_shape_witness:
  "length (generate_verifier (replicate 64 0)) \<le> 128"
  using verifier_shape [of "replicate 64 0" "[]"] by simp

lemma jget_set_given:
  "jget (set_given k v ps) j = (if j = k \<and> v \<noteq> None then v else jget ps j)"
  by (auto simp: set_given_def split: option.splits)

definition read_query :: "string \<Rightarrow> (string, string) jsmap" where
  "read_query url = form_parse (drop 1 (dropWhile (\<lambda>c. c \<noteq> CHR ''?'') url))"

definition recover_verifier :: "string \<Rightarrow> string option" where
  "recover_verifier url = map_option (\<lambda>c. text_decode (from_base64 c)) (jget (read_query url) ''code_challenge'')"

lemma read_query_of: "CHR ''?'' \<notin> set e \<Longrightarrow> read_query (e @ CHR ''?'' # form_string ps) = ps"
  by (simp add: read_query_def dropWhile_until form_round_trip)

text \<open>
  The challenge of method S256 is the verifier in base64 and no hash of it: who reads the
  authorization URL, whose parameters are public, computes the verifier.
\<close>

theorem challenge_reveals_verifier:
  assumes "oc_authorization_endpoint cfg = Some e" and "CHR ''?'' \<notin> set e"
  shows "\<exists>url. build_authorization_url cfg state (Some (pkce_generate S256 random)) = Inr url
    \<and> recover_verifier url = Some (pk_verifier (pkce_generate S256 random))"
  using assms
  by (simp add: build_authorization_url_def recover_verifier_def read_query_of authorization_params_def Let_def
      pkce_generate_def challenge_of_def sha256_challenge_def)

definition demo_config :: oauth_config where
  "demo_config = \<lparr>oc_client_id = ''app'', oc_client_secret = None, oc_redirect_uri = None, oc_scopes = None,
     oc_token_endpoint = ''https://idp/token'', oc_authorization_endpoint = Some ''https://idp/auth'',
     oc_introspection_endpoint = Some ''https://idp/check'', oc_revocation_endpoint = None, oc_jwks_uri = None\<rparr>"

theorem challenge_reveals_verifier_witness:
  "\<exists>url. build_authorization_url demo_config ''s'' (Some (pkce_generate S256 (replicate 64 7))) = Inr url
    \<and> recover_verifier url = Some (pk_verifier (pkce_generate S256 (replicate 64 7)))"
  by (rule challenge_reveals_verifier [where e = "''https://idp/auth''"]) (simp_all add: demo_config_def)

section \<open>What a server receives\<close>

text \<open>The parameters a server reads from a request with a form.\<close>

definition received :: "http_request \<Rightarrow> (string, string) jsmap" where
  "received rq = (case rq_body rq of None \<Rightarrow> [] | Some b \<Rightarrow> form_parse b)"

lemma received_form [simp]: "received (form_request url ps) = ps"
  by (simp add: received_def form_request_def form_round_trip)

definition recording :: "(js_error, http_response) outcome \<Rightarrow> http_request list fetch_fn" where
  "recording reply rq sent = (reply, sent @ [rq])"

lemma post_form_sends: "snd (post_form (recording reply) rq use failure sent) = sent @ [rq]"
  by (simp add: post_form_def recording_def split: sum.split)

lemma form_request_to [simp]: "rq_url (form_request url ps) = url" "rq_method (form_request url ps) = ''POST''"
  by (simp_all add: form_request_def)

text \<open>A server that answers every request with one reply and keeps what it was sent.\<close>

theorem exchange_request:
  "\<exists>rq. snd (exchange_code cfg (recording reply) code verifier sent) = sent @ [rq]
     \<and> rq_url rq = oc_token_endpoint cfg
     \<and> jget (received rq) k =
         (if k = ''grant_type'' then Some ''authorization_code'' else if k = ''code'' then Some code
          else if k = ''client_id'' then Some (oc_client_id cfg)
          else if k = ''client_secret'' then oc_client_secret cfg
          else if k = ''redirect_uri'' then oc_redirect_uri cfg
          else if k = ''code_verifier'' then verifier else None)"
  by (simp add: exchange_code_def post_token_def post_form_sends exchange_params_def jget_set_given)

text \<open>
  Whatever the code, the verifier and the configured texts hold, the token endpoint is sent one
  request and reads from it exactly these parameters: the secret, the redirect URI and the verifier
  when there are any, and no other.
\<close>

theorem credentials_request:
  "\<exists>rq. snd (get_token cfg (recording reply) additional sent) = sent @ [rq]
     \<and> rq_url rq = oc_token_endpoint cfg
     \<and> jget (received rq) k =
         (if k = ''grant_type'' then Some ''client_credentials''
          else if k = ''client_id'' then Some (oc_client_id cfg)
          else if k = ''client_secret'' then oc_client_secret cfg
          else if k = ''scope'' then
            (let scopes = the_list (oc_scopes cfg) @ the_list additional
             in if scopes = [] then None else Some (join_with CHR '' '' scopes))
          else None)"
  by (simp add: get_token_def post_form_sends credentials_params_def the_list_def jget_set_given Let_def)

section \<open>What a reply is taken for\<close>

text \<open>
  The client credentials grant asks for the configured scopes and then the additional ones, in one
  text separated by spaces, and for none when there are none.
\<close>

theorem introspection_active:
  assumes "fst (introspect cfg (recording reply) token hint sent) = Inr r" and "in_active r"
  shows "\<exists>resp data. reply = Inr resp \<and> rs_ok resp \<and> rs_json resp = Inr data
    \<and> jfield data ''active'' = Some (JBool True)"
  using assms
  by (auto simp: introspect_def post_form_def recording_def read_json_def parse_introspection_def json_member_def
      split: option.splits sum.splits if_splits)

theorem introspection_active_witness:
  "\<exists>resp data. Inr \<lparr>rs_ok = True, rs_status = 200, rs_status_text = ''OK'', rs_json = Inr (JObj [(''active'', JBool True)])\<rparr>
       = (Inr resp :: (js_error, http_response) outcome) \<and> rs_ok resp \<and> rs_json resp = Inr data
    \<and> jfield data ''active'' = Some (JBool True)"
  by (rule introspection_active [where cfg = demo_config and token = "''t''" and hint = None and sent = "[]"
        and r = "\<lparr>in_active = True, in_sub = None, in_client_id = None, in_scope = None, in_exp = None,
                  in_username = None, in_token_type = None\<rparr>"])
     (simp_all add: introspect_def demo_config_def post_form_def recording_def read_json_def parse_introspection_def
       json_member_def as_string_def as_number_def)

text \<open>
  A token is reported active only when the endpoint answered with success and its \<open>active\<close> is the
  value \<open>true\<close>; no other truthy value counts.
\<close>

theorem token_reply:
  "(\<exists>tok. fst (exchange_code cfg (recording reply) code verifier sent) = Inr tok)
     \<longleftrightarrow> (\<exists>resp data. reply = Inr resp \<and> rs_ok resp \<and> rs_json resp = Inr data \<and> data \<noteq> JNull)"
  by (auto simp: exchange_code_def post_token_def post_form_def recording_def read_json_def parse_token_response_def
      json_member_def split: sum.splits)

text \<open>
  The token endpoint's reply is a token exactly when it is a success whose body is JSON and not
  \<open>null\<close>; a reply that names no access token gives the empty one.
\<close>

theorem empty_access_token:
  "fst (exchange_code cfg (recording (Inr \<lparr>rs_ok = True, rs_status = 200, rs_status_text = msg,
      rs_json = Inr (JObj [(''error'', JStr err)])\<rparr>)) code verifier sent)
    = Inr \<lparr>tr_access_token = [], tr_token_type = ''Bearer'', tr_expires_in = None, tr_refresh_token = None,
           tr_scope = None, tr_id_token = None\<rparr>"
  by (simp add: exchange_code_def post_token_def post_form_def recording_def read_json_def parse_token_response_def
      json_member_def as_string_def as_number_def string_or_def)

text \<open>
  A principal of a provider is the subject its user information names, with the roles of the
  provider's own claim and no permissions; the request carries the token, and an answer that is an
  error, is not JSON or names no subject is an invalid token.  The body \<open>null\<close> alone makes the
  promise reject.
\<close>

theorem sso_principal_of:
  "fst (authenticate_sso p cfg (recording reply) token sent) =
     (case reply of
        Inl _ \<Rightarrow> Inr (Inl InvalidTokenError)
      | Inr resp \<Rightarrow>
          (case (rs_ok resp, rs_json resp) of
             (True, Inr data) \<Rightarrow>
               (if data = JNull
                then Inl (JsError ''TypeError'' (''Cannot read properties of null (reading '' @ [CHR 39] @ first_claim p @ [CHR 39] @ '')''))
                else case jfield data ''sub'' of
                       Some (JStr (c # cs)) \<Rightarrow>
                         Inr (Inr \<lparr>so_id = c # cs,
                                  so_roles = (if p = Google then [] else as_array (jfield data (the (roles_claim p)))),
                                  so_permissions = []\<rparr>)
                     | _ \<Rightarrow> Inr (Inl InvalidTokenError))
           | _ \<Rightarrow> Inr (Inl InvalidTokenError)))"
  by (cases p)
     (auto simp: authenticate_sso_def recording_def map_claims_def json_member_def string_or_def as_string_def
       roles_claim_def split: sum.split option.split json.split list.split bool.split)

section \<open>Assertions\<close>

lemma after_dates: "date s = Some t \<Longrightarrow> after_date date now s = (now > t)" "date s = Some t \<Longrightarrow> before_date date now s = (now < t)"
  by (simp_all add: after_date_def before_date_def)

text \<open>
  With dates that can be read, an assertion with a name is accepted exactly from its first instant
  to the instant of \<open>NotOnOrAfter\<close>, that instant included.
\<close>

theorem assertion_window:
  assumes "sa_name_id a \<noteq> []"
    and "sa_conditions a = Some \<lparr>sm_not_before = Some l, sm_not_on_or_after = Some u\<rparr>"
    and "date l = Some lo" and "date u = Some hi"
  shows "(\<exists>p. from_assertion date now now a = Inr p) \<longleftrightarrow> lo \<le> now \<and> now \<le> hi"
  using assms by (auto simp: from_assertion_def Let_def after_dates)

definition demo_assertion :: saml_assertion where
  "demo_assertion = \<lparr>sa_name_id = ''ann'', sa_session_index = None, sa_attributes = [(''roles'', OneValue ''admin'')],
     sa_conditions = Some \<lparr>sm_not_before = Some ''a'', sm_not_on_or_after = Some ''b''\<rparr>\<rparr>"

theorem assertion_window_witness:
  "\<exists>p. from_assertion (\<lambda>s. if s = ''a'' then Some 5 else Some 9) 9 9 demo_assertion = Inr p"
  using assertion_window [of demo_assertion "''a''" "''b''" "\<lambda>s. if s = ''a'' then Some 5 else Some 9" 5 9 9]
  by (simp add: demo_assertion_def)

text \<open>
  A condition whose date cannot be read is no condition: with both unreadable, an assertion with a
  name is accepted at every time, as the principal of its name, roles and first tenant.
\<close>

theorem unreadable_conditions_pass:
  assumes "sa_name_id a \<noteq> []" and "\<forall>s. date s = None"
  shows "from_assertion date t u a = Inr \<lparr>pr_id = sa_name_id a,
     pr_tenant_id = extract_string (sa_attributes a) ''tenantId'', pr_roles = extract_roles a, pr_permissions = []\<rparr>"
  using assms by (simp add: from_assertion_def Let_def after_date_def before_date_def split: option.split)

theorem unreadable_conditions_pass_witness:
  "from_assertion (\<lambda>_. None) 1000000 1000000 demo_assertion =
     Inr \<lparr>pr_id = ''ann'', pr_tenant_id = None, pr_roles = [''admin''], pr_permissions = []\<rparr>"
  using unreadable_conditions_pass [of demo_assertion "\<lambda>_. None" 1000000 1000000]
  by (simp add: demo_assertion_def extract_roles_def extract_string_def)

text \<open>The identity provider reads back the request, whatever its texts hold, and the relay state.\<close>

theorem saml_request_round_trip:
  assumes "CHR ''?'' \<notin> set (sc_idp_sso_url cfg)"
  shows "map_option (\<lambda>s. text_decode (from_base64 s))
       (jget (read_query (build_auth_request_url cfg rand stamp relay)) ''SAMLRequest'') = Some (saml_xml cfg rand stamp)
    \<and> jget (read_query (build_auth_request_url cfg rand stamp relay)) ''RelayState'' = relay"
  using assms
  by (simp add: build_auth_request_url_def read_query_of auth_request_params_def jget_set_given build_saml_request_def)

theorem saml_request_round_trip_witness:
  "jget (read_query (build_auth_request_url \<lparr>sc_idp_sso_url = ''https://idp'', sc_idp_certificate = [], sc_sp_entity_id = ''sp'',
      sc_sp_acs_url = ''https://sp/acs''\<rparr> ''k3'' ''2024'' (Some ''a&b=c''))) ''RelayState'' = Some ''a&b=c''"
  using saml_request_round_trip [of "\<lparr>sc_idp_sso_url = ''https://idp'', sc_idp_certificate = [], sc_sp_entity_id = ''sp'',
      sc_sp_acs_url = ''https://sp/acs''\<rparr>"] by simp

end
