(* ===== verification/Validation.thy ===== *)
theory Validation
  imports Prelude Json
begin

text \<open>
  \<open>packages/validation/src\<close> and \<open>packages/errors/src\<close>: validators and their combination, validation
  errors, the errors of the kernel and their HTTP problem details.

  A validator is a callback over a state of its own; a schema of the library zod is a parameter that
  gives the value or the issues it found.
\<close>

section \<open>Validation errors\<close>

record validation_issue =
  vi_field :: string
  vi_message :: string
  vi_code :: "string option"
  vi_value :: "json option"

record validation_error =
  ve_issues :: "validation_issue list"
  ve_message :: string

definition validation_error_new :: "validation_issue list \<Rightarrow> string option \<Rightarrow> validation_error" where
  "validation_error_new issues message = \<lparr>ve_issues = issues,
     ve_message = (case message of
       None \<Rightarrow> ''Validation failed with '' @ show_int (int (length issues)) @ '' issue(s)'' | Some m \<Rightarrow> m)\<rparr>"

definition from_issues :: "validation_issue list \<Rightarrow> validation_error" where
  "from_issues issues = validation_error_new issues None"

definition from_message :: "string \<Rightarrow> string \<Rightarrow> string option \<Rightarrow> validation_error" where
  "from_message field message code =
     validation_error_new [\<lparr>vi_field = field, vi_message = message, vi_code = code, vi_value = None\<rparr>] None"

definition has_field :: "string \<Rightarrow> validation_error \<Rightarrow> bool" where
  "has_field field e = list_ex (\<lambda>i. vi_field i = field) (ve_issues e)"

definition get_field_issues :: "string \<Rightarrow> validation_error \<Rightarrow> validation_issue list" where
  "get_field_issues field e = filter (\<lambda>i. vi_field i = field) (ve_issues e)"

definition first_message :: "string \<Rightarrow> validation_error \<Rightarrow> string option" where
  "first_message field e = map_option vi_message (List.find (\<lambda>i. vi_field i = field) (ve_issues e))"

section \<open>Validators\<close>

type_synonym 'a validation = "(validation_error, 'a) outcome"
type_synonym ('i, 'a, 'w) validator = "'i \<Rightarrow> 'w \<Rightarrow> 'a validation \<times> 'w"

text \<open>The loop over the validators, with the issues and the last value so far.\<close>

fun composite_loop :: "('i, 'a, 'w) validator list \<Rightarrow> 'i \<Rightarrow> validation_issue list \<Rightarrow> 'a option \<Rightarrow> 'w
    \<Rightarrow> (validation_issue list \<times> 'a option) \<times> 'w" where
  "composite_loop [] input issues v w = ((issues, v), w)"
| "composite_loop (f # fs) input issues v w =
     (case f input w of
        (Inr x, w1) \<Rightarrow> composite_loop fs input issues (Some x) w1
      | (Inl e, w1) \<Rightarrow> composite_loop fs input (issues @ ve_issues e) v w1)"

definition composite_validate :: "('i, 'a, 'w) validator list \<Rightarrow> 'i \<Rightarrow> 'w \<Rightarrow> 'a option validation \<times> 'w" where
  "composite_validate fs input w =
     (case composite_loop fs input [] None w of
        ((issues, v), w1) \<Rightarrow>
          (if length issues > 0 then Inl (validation_error_new issues None) else Inr v, w1))"

definition function_validate :: "('i \<Rightarrow> 'a option) \<Rightarrow> string \<Rightarrow> string \<Rightarrow> string option \<Rightarrow> 'i \<Rightarrow> 'a validation" where
  "function_validate fn field message code input =
     (case fn input of
        Some x \<Rightarrow> Inr x
      | None \<Rightarrow> Inl (from_message field message code))"

datatype path_part = Key string | Index int

record zod_issue =
  zi_path :: "path_part list"
  zi_message :: string
  zi_code :: string

definition part_text :: "path_part \<Rightarrow> string" where
  "part_text p = (case p of Key s \<Rightarrow> s | Index n \<Rightarrow> show_int n)"

fun join_dots :: "string list \<Rightarrow> string" where
  "join_dots [] = []"
| "join_dots [s] = s"
| "join_dots (s # t # r) = s @ ''.'' @ join_dots (t # r)"

definition zod_field :: "zod_issue \<Rightarrow> string" where
  "zod_field i = (if length (zi_path i) > 0 then join_dots (map part_text (zi_path i)) else ''_root'')"

definition zod_validate :: "('i \<Rightarrow> (zod_issue list, 'a) outcome) \<Rightarrow> 'i \<Rightarrow> 'a validation" where
  "zod_validate safe_parse input =
     (case safe_parse input of
        Inr data \<Rightarrow> Inr data
      | Inl found \<Rightarrow>
          Inl (validation_error_new
            (map (\<lambda>i. \<lparr>vi_field = zod_field i, vi_message = zi_message i, vi_code = Some (zi_code i), vi_value = None\<rparr>)
                 found) None))"

section \<open>Errors and problem details\<close>

text \<open>The classes of errors: those of the domain are subclasses of one, any other is an \<open>Error\<close>.\<close>

datatype app_failure =
    Not_Found (entity_name: string) (entity_id: string)
  | Conflict string "string option"
  | Invariant_Violation string "string option"
  | Other_Domain string "string option"
  | Other_Error string

definition failure_message :: "app_failure \<Rightarrow> string" where
  "failure_message e = (case e of
      Not_Found n i \<Rightarrow> n @ '' with id '' @ i @ '' not found''
    | Conflict m _ \<Rightarrow> m | Invariant_Violation m _ \<Rightarrow> m | Other_Domain m _ \<Rightarrow> m | Other_Error m \<Rightarrow> m)"

definition or_code :: "string \<Rightarrow> string option \<Rightarrow> string" where
  "or_code d c = (case c of None \<Rightarrow> d | Some s \<Rightarrow> s)"

definition failure_code :: "app_failure \<Rightarrow> string option" where
  "failure_code e = (case e of
      Not_Found n i \<Rightarrow> Some ''NOT_FOUND''
    | Conflict _ c \<Rightarrow> Some (or_code ''CONFLICT'' c)
    | Invariant_Violation _ c \<Rightarrow> Some (or_code ''INVARIANT_VIOLATION'' c)
    | Other_Domain _ c \<Rightarrow> c
    | Other_Error _ \<Rightarrow> None)"

definition is_domain_error :: "app_failure \<Rightarrow> bool" where
  "is_domain_error e = (case e of Other_Error _ \<Rightarrow> False | _ \<Rightarrow> True)"

record problem_details =
  pd_type :: string
  pd_title :: string
  pd_status :: int
  pd_detail :: "string option"
  pd_instance :: "string option"
  pd_errors :: "(string, string list) jsmap option"
  pd_trace_id :: "string option"
  pd_correlation_id :: "string option"

text \<open>The builder has the fields of what it builds; \<open>build\<close> copies those that are set.\<close>

definition problem_create :: "string \<Rightarrow> string \<Rightarrow> int \<Rightarrow> problem_details" where
  "problem_create t title status = \<lparr>pd_type = t, pd_title = title, pd_status = status, pd_detail = None,
     pd_instance = None, pd_errors = None, pd_trace_id = None, pd_correlation_id = None\<rparr>"

definition with_detail :: "string \<Rightarrow> problem_details \<Rightarrow> problem_details" where
  "with_detail d p = p\<lparr>pd_detail := Some d\<rparr>"

definition with_instance :: "string \<Rightarrow> problem_details \<Rightarrow> problem_details" where
  "with_instance i p = p\<lparr>pd_instance := Some i\<rparr>"

definition with_errors :: "(string, string list) jsmap \<Rightarrow> problem_details \<Rightarrow> problem_details" where
  "with_errors es p = p\<lparr>pd_errors := Some es\<rparr>"

definition with_trace_id :: "string \<Rightarrow> problem_details \<Rightarrow> problem_details" where
  "with_trace_id i p = p\<lparr>pd_trace_id := Some i\<rparr>"

definition with_correlation_id :: "string \<Rightarrow> problem_details \<Rightarrow> problem_details" where
  "with_correlation_id i p = p\<lparr>pd_correlation_id := Some i\<rparr>"

definition given :: "string \<Rightarrow> ('a \<Rightarrow> json) \<Rightarrow> 'a option \<Rightarrow> (string \<times> json) list" where
  "given k f v = (case v of None \<Rightarrow> [] | Some x \<Rightarrow> [(k, f x)])"

definition problem_build :: "problem_details \<Rightarrow> json" where
  "problem_build p = JObj ([(''type'', JStr (pd_type p)), (''title'', JStr (pd_title p)),
       (''status'', JNum (of_int (pd_status p)))]
     @ given ''detail'' JStr (pd_detail p) @ given ''instance'' JStr (pd_instance p)
     @ given ''errors'' (\<lambda>es. JObj (map (\<lambda>(k, ms). (k, JArr (map JStr ms))) es)) (pd_errors p)
     @ given ''traceId'' JStr (pd_trace_id p) @ given ''correlationId'' JStr (pd_correlation_id p))"

definition problem_type :: "int \<Rightarrow> string" where
  "problem_type status = ''https://httpstatuses.com/'' @ show_int status"

definition problem_of :: "app_failure \<Rightarrow> problem_details" where
  "problem_of e =
     (case e of
        Not_Found _ _ \<Rightarrow> with_detail (failure_message e) (problem_create (problem_type 404) ''Not Found'' 404)
      | Conflict _ _ \<Rightarrow> with_detail (failure_message e) (problem_create (problem_type 409) ''Conflict'' 409)
      | _ \<Rightarrow>
          if is_domain_error e
          then with_detail (failure_message e) (problem_create (problem_type 422) ''Domain Error'' 422)
          else with_detail ''An unexpected error occurred''
                 (problem_create (problem_type 500) ''Internal Server Error'' 500))"

definition to_problem_details :: "app_failure \<Rightarrow> json" where
  "to_problem_details e = problem_build (problem_of e)"

record http_error =
  he_problem :: problem_details
  he_message :: string

definition http_error_new :: "problem_details \<Rightarrow> http_error" where
  "http_error_new p = \<lparr>he_problem = p, he_message = (case pd_detail p of None \<Rightarrow> pd_title p | Some d \<Rightarrow> d)\<rparr>"

definition http_error_status :: "http_error \<Rightarrow> int" where
  "http_error_status e = pd_status (he_problem e)"

record app_error =
  ap_message :: string
  ap_code :: string
  ap_retryable :: bool
  ap_name :: string

definition app_error_new :: "string \<Rightarrow> string \<Rightarrow> bool option \<Rightarrow> app_error" where
  "app_error_new message code retryable = \<lparr>ap_message = message, ap_code = code,
     ap_retryable = (case retryable of None \<Rightarrow> False | Some b \<Rightarrow> b), ap_name = ''AppError''\<rparr>"

definition retryable_error :: "string \<Rightarrow> string \<Rightarrow> app_error" where
  "retryable_error message code = (app_error_new message code (Some True))\<lparr>ap_name := ''RetryableError''\<rparr>"

definition non_retryable_error :: "string \<Rightarrow> string \<Rightarrow> app_error" where
  "non_retryable_error message code = (app_error_new message code (Some False))\<lparr>ap_name := ''NonRetryableError''\<rparr>"

section \<open>What a combination does\<close>

definition issues_found :: "'a validation list \<Rightarrow> validation_issue list" where
  "issues_found rs = concat (map (\<lambda>r. case r of Inl e \<Rightarrow> ve_issues e | Inr _ \<Rightarrow> []) rs)"

fun last_valid :: "'a validation list \<Rightarrow> 'a option \<Rightarrow> 'a option" where
  "last_valid [] v = v"
| "last_valid (Inr x # rs) v = last_valid rs (Some x)"
| "last_valid (Inl e # rs) v = last_valid rs v"

lemma composite_loop_eq:
  "composite_loop fs input issues v w =
     (case map_st (\<lambda>f. f input) fs w of
        (rs, w1) \<Rightarrow> ((issues @ issues_found rs, last_valid rs v), w1))"
proof (induction fs arbitrary: issues v w)
  case (Cons f fs)
  obtain r w1 where f: "f input w = (r, w1)" by (rule prod.exhaust)
  show ?case
    by (cases r) (simp_all add: f Cons issues_found_def split: prod.splits)
qed (simp add: issues_found_def)

text \<open>
  Every validator is called once on the same input, in order, whatever the others found, and the
  error lists all their issues in that order; without an issue the value is the last one given.
\<close>

theorem composite_collects:
  "composite_validate fs input w =
     (case map_st (\<lambda>f. f input) fs w of
        (rs, w1) \<Rightarrow>
          (if issues_found rs = [] then Inr (last_valid rs None)
           else Inl \<lparr>ve_issues = issues_found rs,
                     ve_message = ''Validation failed with '' @ show_int (int (length (issues_found rs))) @ '' issue(s)''\<rparr>, w1))"
  by (simp add: composite_validate_def composite_loop_eq validation_error_new_def split: prod.splits)

lemma issues_found_none:
  "\<forall>r \<in> set rs. \<forall>e. r = Inl e \<longrightarrow> ve_issues e \<noteq> [] \<Longrightarrow> issues_found rs = [] \<longleftrightarrow> (\<exists>xs. rs = map Inr xs)"
proof (induction rs)
  case (Cons r rs)
  show ?case
  proof (cases r)
    case (Inl e)
    with Cons.prems show ?thesis by (auto simp: issues_found_def Cons_eq_map_conv)
  next
    case (Inr x)
    then have "issues_found (r # rs) = issues_found rs" by (simp add: issues_found_def)
    moreover have "(\<exists>xs. r # rs = map Inr xs) \<longleftrightarrow> (\<exists>xs. rs = map Inr xs)"
      unfolding Cons_eq_map_conv using Inr by blast
    ultimately show ?thesis using Cons by simp
  qed
qed (simp add: issues_found_def)

lemma last_valid_all: "last_valid (map Inr xs) v = (if xs = [] then v else Some (last xs))"
  by (induction xs arbitrary: v) simp_all

text \<open>
  When errors name at least one issue each, the combination succeeds exactly when every validator
  does, and its value is that of the last.
\<close>

theorem composite_ok_iff:
  assumes "map_st (\<lambda>f. f input) fs w = (rs, w1)" and "fs \<noteq> []"
    and "\<forall>r \<in> set rs. \<forall>e. r = Inl e \<longrightarrow> ve_issues e \<noteq> []"
  shows "fst (composite_validate fs input w) = Inr v \<longleftrightarrow> (\<exists>xs. rs = map Inr xs \<and> v = Some (last xs))"
proof -
  have ne: "rs \<noteq> []" using assms(1,2) by (cases fs) (auto split: prod.splits)
  have "fst (composite_validate fs input w) = Inr v \<longleftrightarrow> issues_found rs = [] \<and> last_valid rs None = v"
    unfolding composite_collects assms(1) by simp
  also have "\<dots> \<longleftrightarrow> (\<exists>xs. rs = map Inr xs \<and> last_valid (map Inr xs) None = v)"
    unfolding issues_found_none [OF assms(3)] by blast
  also have "\<dots> \<longleftrightarrow> (\<exists>xs. rs = map Inr xs \<and> v = Some (last xs))"
    using ne by (auto simp: last_valid_all)
  finally show ?thesis .
qed

definition at_least :: "int \<Rightarrow> (int, int, nat) validator" where
  "at_least n i w = (function_validate (\<lambda>x. if n \<le> x then Some x else None) ''age'' ''too small'' None i, w + 1)"

theorem composite_ok_iff_witness:
  "fst (composite_validate [at_least 3, at_least 5] 7 0) = Inr (Some 7)"
proof -
  have "map_st (\<lambda>f. f 7) [at_least 3, at_least 5] 0 = ([Inr 7, Inr 7], 2)"
    by (simp add: at_least_def function_validate_def)
  from composite_ok_iff [OF this, of "Some 7"] show ?thesis by (simp add: Cons_eq_map_conv)
qed

text \<open>
  An error without issues is lost: the combination of a validator that fails so succeeds, with no
  value.
\<close>

theorem empty_error_passes:
  "composite_validate [\<lambda>i w. (Inl (validation_error_new [] (Some m)), w)] input w = (Inr None, w)"
  by (simp add: composite_validate_def validation_error_new_def)

text \<open>
  The lookups of an error agree: a field is present when it has an issue, and its first message is
  that of the first of its issues.
\<close>

theorem field_lookups:
  "(has_field field e \<longleftrightarrow> get_field_issues field e \<noteq> [])
   \<and> first_message field e = (case get_field_issues field e of [] \<Rightarrow> None | i # _ \<Rightarrow> Some (vi_message i))
   \<and> (\<forall>i \<in> set (get_field_issues field e). i \<in> set (ve_issues e) \<and> vi_field i = field)"
proof -
  have "map_option vi_message (List.find (\<lambda>i. vi_field i = field) is)
      = (case filter (\<lambda>i. vi_field i = field) is of [] \<Rightarrow> None | i # _ \<Rightarrow> Some (vi_message i))" for "is"
    by (induction "is") auto
  then show ?thesis
    by (simp add: has_field_def get_field_issues_def first_message_def list_ex_iff filter_empty_conv)
qed

theorem field_lookups_witness:
  "first_message ''a'' (from_message ''a'' ''bad'' None) = Some ''bad''"
  using field_lookups [of "''a''" "from_message ''a'' ''bad'' None"]
  by (simp add: get_field_issues_def from_message_def validation_error_new_def)

text \<open>A schema's issues keep their number and order; an issue with an empty path is filed under \<open>_root\<close>.\<close>

theorem schema_issues:
  "zod_validate (\<lambda>_. Inl found) input = Inl e \<Longrightarrow>
     map (\<lambda>i. (vi_field i, vi_message i, vi_code i)) (ve_issues e)
       = map (\<lambda>i. (if zi_path i = [] then ''_root'' else join_dots (map part_text (zi_path i)),
                   zi_message i, Some (zi_code i))) found"
  by (auto simp: zod_validate_def validation_error_new_def zod_field_def)

theorem schema_issues_witness:
  "\<exists>e. zod_validate (\<lambda>_. Inl [\<lparr>zi_path = [Key ''tags'', Index 2], zi_message = ''m'', zi_code = ''c''\<rparr>]) ()
       = (Inl e :: unit validation) \<and> map vi_field (ve_issues e) = [''tags.2'']"
proof -
  obtain e where e: "zod_validate (\<lambda>_. Inl [\<lparr>zi_path = [Key ''tags'', Index 2], zi_message = ''m'', zi_code = ''c''\<rparr>]) ()
      = (Inl e :: unit validation)" by (simp add: zod_validate_def)
  have "show_int 2 = ''2''" by code_simp
  with schema_issues [OF e] e show ?thesis by (auto simp: part_text_def)
qed

section \<open>What a problem says\<close>

definition json_get :: "string \<Rightarrow> json \<Rightarrow> json option" where
  "json_get k v = jfield v k"

lemma jget_given: "jget (given k f v) j = (if j = k then map_option f v else None)"
  by (simp add: given_def split: option.split)

text \<open>
  The status of a problem is 404, 409 or 422 for an error of the domain and 500 for any other; its
  type is the address of the status; its detail is the error's message for the domain alone, so
  the text of an unexpected error never leaves.
\<close>

theorem problem_of_error:
  "\<exists>st. json_get ''status'' (to_problem_details e) = Some (JNum (of_int st))
     \<and> json_get ''type'' (to_problem_details e) = Some (JStr (problem_type st))
     \<and> (st = 500 \<longleftrightarrow> \<not> is_domain_error e) \<and> st \<in> {404, 409, 422, 500}
     \<and> json_get ''detail'' (to_problem_details e)
         = Some (JStr (if is_domain_error e then failure_message e else ''An unexpected error occurred''))"
  by (cases e)
     (simp_all add: json_get_def to_problem_details_def problem_of_def problem_build_def with_detail_def problem_create_def
       is_domain_error_def jget_given map_add_def)

text \<open>
  The messages of errors outside the domain make no difference; a validation error, which is one of
  these, is reported as an internal error.
\<close>

theorem validation_error_is_internal:
  "to_problem_details (Other_Error (ve_message e)) = to_problem_details (Other_Error m)
   \<and> json_get ''status'' (to_problem_details (Other_Error (ve_message e))) = Some (JNum 500)"
  by (simp add: json_get_def to_problem_details_def problem_of_def problem_build_def with_detail_def
      problem_create_def is_domain_error_def jget_given map_add_def)

text \<open>An optional member of a problem is present exactly when it was set, with the value last set.\<close>

theorem problem_members:
  "json_get ''detail'' (problem_build p) = map_option JStr (pd_detail p)
   \<and> json_get ''instance'' (problem_build p) = map_option JStr (pd_instance p)
   \<and> json_get ''traceId'' (problem_build p) = map_option JStr (pd_trace_id p)
   \<and> json_get ''correlationId'' (problem_build p) = map_option JStr (pd_correlation_id p)
   \<and> json_get ''detail'' (problem_build (with_detail d (with_detail c p))) = Some (JStr d)
   \<and> (json_get ''errors'' (problem_build p) = None \<longleftrightarrow> pd_errors p = None)"
  by (simp add: json_get_def problem_build_def with_detail_def map_add_def jget_given split: option.split)

text \<open>The retry flag of an application error is that of its class.\<close>

theorem retry_flags:
  "ap_retryable (retryable_error m c) \<and> \<not> ap_retryable (non_retryable_error m c)
   \<and> \<not> ap_retryable (app_error_new m c None)
   \<and> http_error_status (http_error_new p) = pd_status p"
  by (simp add: retryable_error_def non_retryable_error_def app_error_new_def http_error_status_def http_error_new_def)

end
