(* ===== verification/Radix36.thy ===== *)
theory Radix36
  imports Prelude
begin

text \<open>Numbers in base 36, which \<open>AuditService\<close> and \<open>ULID\<close> build identifiers of.\<close>

text \<open>\<open>n.toString(36)\<close>.\<close>

definition digit36 :: "nat \<Rightarrow> char" where
  "digit36 d = (if d < 10 then char_of (48 + d) else char_of (87 + d))"

fun digits36 :: "nat \<Rightarrow> string" where
  "digits36 n = (if n < 36 then [digit36 n] else digits36 (n div 36) @ [digit36 (n mod 36)])"

declare digits36.simps [simp del]

definition value36 :: "string \<Rightarrow> nat" where
  "value36 s = foldl (\<lambda>n c. 36 * n + (if of_char c < (87 :: nat) then of_char c - 48 else of_char c - 87)) 0 s"

lemma digit36_code: "d < 36 \<Longrightarrow> (of_char (digit36 d) :: nat) = (if d < 10 then 48 + d else 87 + d)"
  by (simp add: digit36_def take_bit_eq_mod)

lemma value36_digits [simp]: "value36 (digits36 n) = n"
proof (induction n rule: digits36.induct)
  case (1 n)
  show ?case
  proof (cases "n < 36")
    case True
    then show ?thesis using digit36_code [of n] by (simp add: digits36.simps [of n] value36_def)
  next
    case False
    with 1 have "value36 (digits36 (n div 36)) = n div 36" by simp
    then show ?thesis using False digit36_code [of "n mod 36"]
      by (subst digits36.simps) (simp add: value36_def)
  qed
qed

lemma digits36_no_dash: "CHR ''-'' \<notin> set (digits36 n)"
proof (induction n rule: digits36.induct)
  case (1 n)
  have d: "digit36 m \<noteq> CHR ''-''" if "m < 36" for m
  proof
    assume "digit36 m = CHR ''-''"
    with digit36_code [OF that] show False by (simp split: if_splits)
  qed
  from 1 d [of n] d [of "n mod 36"] show ?case by (subst digits36.simps) auto
qed

lemma digits36_nonempty [simp]: "digits36 n \<noteq> []"
  by (subst digits36.simps) simp

lemma digits36_length: "36 ^ k \<le> n \<Longrightarrow> n < 36 ^ Suc k \<Longrightarrow> length (digits36 n) = Suc k"
proof (induction k arbitrary: n)
  case 0
  then show ?case by (simp add: digits36.simps [of n])
next
  case (Suc k)
  have "36 * (1 :: nat) \<le> 36 * 36 ^ k" by (rule mult_le_mono2) simp
  then have "\<not> n < 36" using Suc.prems(1) unfolding power_Suc by linarith
  moreover have "36 ^ k \<le> n div 36" using div_le_mono [OF Suc.prems(1), of 36] by simp
  moreover have "n div 36 < 36 ^ Suc k" using Suc.prems(2) by (simp add: less_mult_imp_div_less)
  ultimately show ?case using Suc.IH [of "n div 36"] by (subst digits36.simps) simp
qed

text \<open>Texts of one length sort as their numbers do, under any map of the digits that keeps their order.\<close>

definition char_less :: "(char \<times> char) set" where
  "char_less = {(c, d). (of_char c :: nat) < of_char d}"

lemma digits36_sorted:
  assumes mono: "\<And>d e. d < e \<Longrightarrow> e < 36 \<Longrightarrow> (g (digit36 d), g (digit36 e)) \<in> char_less"
    and "m < n" and "length (digits36 m) = length (digits36 n)"
  shows "(map g (digits36 m), map g (digits36 n)) \<in> lexord char_less"
  using assms(2,3)
proof (induction n arbitrary: m rule: digits36.induct)
  case (1 n)
  show ?case
  proof (cases "n < 36")
    case True
    then have "m < 36" using "1.prems" by simp
    with True mono [OF "1.prems"(1)] show ?thesis by (simp add: digits36.simps [of n] digits36.simps [of m])
  next
    case False
    have n: "digits36 n = digits36 (n div 36) @ [digit36 (n mod 36)]" using False by (subst digits36.simps) simp
    have "\<not> m < 36" using "1.prems"(2) n by (auto simp: digits36.simps [of m])
    then have m: "digits36 m = digits36 (m div 36) @ [digit36 (m mod 36)]" by (subst digits36.simps) simp
    have len: "length (digits36 (m div 36)) = length (digits36 (n div 36))" using "1.prems"(2) m n by simp
    have le: "m div 36 \<le> n div 36" using "1.prems"(1) by (simp add: div_le_mono)
    show ?thesis
    proof (cases "m div 36 = n div 36")
      case True
      have "m mod 36 < n mod 36"
        using "1.prems"(1) True mult_div_mod_eq [of 36 m] mult_div_mod_eq [of 36 n] by linarith
      with mono have "(g (digit36 (m mod 36)), g (digit36 (n mod 36))) \<in> char_less" by simp
      with True m n show ?thesis by (simp add: lexord_append_leftI)
    next
      case False
      then have "m div 36 < n div 36" using le by simp
      from "1.IH" [OF \<open>\<not> n < 36\<close> this len] len show ?thesis
        unfolding m n map_append by (intro lexord_sufI) simp_all
    qed
  qed
qed

end
