(* ===== verification/Audit_Trail.thy ===== *)
theory Audit_Trail
  imports Radix36 Json
begin

text \<open>
  \<open>packages/audit/src\<close>: audit entries, the in-memory storage, the service, the compliance reporter
  and the wrapper that audits a function.

  A storage is a callback over a state of its own.  The counter of the ids is a variable of the
  module, shared by all services; the clock is an argument.
\<close>

section \<open>Entries\<close>

record audit_change =
  ac_old :: json
  ac_new :: json

record audit_log =
  al_id :: string
  al_timestamp :: int
  al_user_id :: string
  al_tenant_id :: "string option"
  al_action :: string
  al_resource :: string
  al_resource_id :: string
  al_changes :: "(string, audit_change) jsmap"
  al_ip :: string
  al_user_agent :: string
  al_metadata :: "(string, string) jsmap option"

record audit_input =
  ai_user_id :: string
  ai_tenant_id :: "string option"
  ai_action :: string
  ai_resource :: string
  ai_resource_id :: string
  ai_changes :: "(string, audit_change) jsmap option"
  ai_ip :: string
  ai_user_agent :: string
  ai_metadata :: "(string, string) jsmap option"

record audit_query =
  aq_user_id :: "string option"
  aq_tenant_id :: "string option"
  aq_action :: "string option"
  aq_resource :: "string option"
  aq_resource_id :: "string option"
  aq_from_date :: "int option"
  aq_to_date :: "int option"
  aq_limit :: "int option"
  aq_offset :: "int option"

section \<open>The in-memory storage\<close>

definition matches_date_range :: "int \<Rightarrow> int option \<Rightarrow> int option \<Rightarrow> bool" where
  "matches_date_range t lower upper =
     (if (case lower of None \<Rightarrow> False | Some a \<Rightarrow> t < a) then False
      else if (case upper of None \<Rightarrow> False | Some b \<Rightarrow> t > b) then False
      else True)"

definition matches_scalar :: "string option \<Rightarrow> string option \<Rightarrow> bool" where
  "matches_scalar v wanted = (case wanted of None \<Rightarrow> True | Some _ \<Rightarrow> v = wanted)"

definition matches_log :: "audit_log \<Rightarrow> audit_query \<Rightarrow> bool" where
  "matches_log e q =
     (if \<not> matches_scalar (Some (al_user_id e)) (aq_user_id q) then False
      else if \<not> matches_scalar (al_tenant_id e) (aq_tenant_id q) then False
      else if \<not> matches_scalar (Some (al_action e)) (aq_action q) then False
      else if \<not> matches_scalar (Some (al_resource e)) (aq_resource q) then False
      else if \<not> matches_scalar (Some (al_resource_id e)) (aq_resource_id q) then False
      else matches_date_range (al_timestamp e) (aq_from_date q) (aq_to_date q))"

definition audit_store :: "audit_log \<Rightarrow> audit_log list \<Rightarrow> (js_error, unit) outcome \<times> audit_log list" where
  "audit_store e logs = (Inr (), logs @ [e])"

definition audit_query_logs :: "audit_query \<Rightarrow> audit_log list \<Rightarrow> (js_error, audit_log list) outcome" where
  "audit_query_logs q logs =
     (let matching = filter (\<lambda>e. matches_log e q) logs;
          offset = (case aq_offset q of None \<Rightarrow> 0 | Some n \<Rightarrow> n);
          stop = map_option (\<lambda>l. offset + l) (aq_limit q)
      in Inr (js_slice_to offset stop matching))"

definition audit_count :: "audit_query \<Rightarrow> audit_log list \<Rightarrow> (js_error, int) outcome" where
  "audit_count q logs = Inr (int (length (filter (\<lambda>e. matches_log e q) logs)))"

definition audit_clear :: "audit_log list \<Rightarrow> audit_log list" where "audit_clear logs = []"

definition audit_size :: "audit_log list \<Rightarrow> int" where "audit_size logs = int (length logs)"

section \<open>The service\<close>

definition generate_id :: "int \<Rightarrow> nat \<Rightarrow> string \<times> nat" where
  "generate_id now counter =
     (let counter = counter + 1
      in (''audit-'' @ digits36 (nat now) @ ''-'' @ digits36 counter, counter))"

definition build_log :: "int \<Rightarrow> int \<Rightarrow> nat \<Rightarrow> audit_input \<Rightarrow> audit_log \<times> nat" where
  "build_log now1 now2 counter i =
     (let (ident, counter') = generate_id now1 counter
      in (\<lparr>al_id = ident, al_timestamp = now2, al_user_id = ai_user_id i, al_tenant_id = ai_tenant_id i,
           al_action = ai_action i, al_resource = ai_resource i, al_resource_id = ai_resource_id i,
           al_changes = (case ai_changes i of None \<Rightarrow> [] | Some c \<Rightarrow> c), al_ip = ai_ip i,
           al_user_agent = ai_user_agent i, al_metadata = ai_metadata i\<rparr>, counter'))"

type_synonym 's store_fn = "audit_log \<Rightarrow> 's \<Rightarrow> (js_error, unit) outcome \<times> 's"

text \<open>The state of a program that logs: the counter and the storage.\<close>

definition audit_log_entry :: "'s store_fn \<Rightarrow> int \<Rightarrow> int \<Rightarrow> audit_input \<Rightarrow> nat \<times> 's
    \<Rightarrow> (js_error, audit_log) outcome \<times> nat \<times> 's" where
  "audit_log_entry store now1 now2 i st =
     (let (entry, counter) = build_log now1 now2 (fst st) i
      in case store entry (snd st) of
           (Inl err, s) \<Rightarrow> (Inl err, counter, s)
         | (Inr _, s) \<Rightarrow> (Inr entry, counter, s))"

section \<open>The reporter\<close>

text \<open>
  A tally is a property of a plain object: where the object has none of its own, one that every
  object inherits is read, and adding 1 to it gives a text.  Setting \<open>__proto__\<close> to such a text
  does nothing.
\<close>

datatype tally = Tally int | Not_A_Number

definition inherited_names :: "string list" where
  "inherited_names = [''constructor'', ''toString'', ''toLocaleString'', ''valueOf'', ''hasOwnProperty'',
     ''isPrototypeOf'', ''propertyIsEnumerable'', ''__proto__'', ''__defineGetter__'', ''__defineSetter__'',
     ''__lookupGetter__'', ''__lookupSetter__'']"

definition increment_tally :: "(string, tally) jsmap \<Rightarrow> string \<Rightarrow> (string, tally) jsmap" where
  "increment_tally counts key =
     (if key = ''__proto__'' then counts
      else jset key
        (case jget counts key of
           Some (Tally n) \<Rightarrow> Tally (n + 1)
         | Some Not_A_Number \<Rightarrow> Not_A_Number
         | None \<Rightarrow> if key \<in> set inherited_names then Not_A_Number else Tally 1) counts)"

record compliance_report =
  cr_generated_at :: int
  cr_period :: "int \<times> int"
  cr_total_events :: int
  cr_by_action :: "(string, tally) jsmap"
  cr_by_user :: "(string, tally) jsmap"
  cr_by_resource :: "(string, tally) jsmap"

definition report_generate :: "int \<Rightarrow> audit_log list \<Rightarrow> int \<times> int \<Rightarrow> compliance_report" where
  "report_generate now logs period =
     (let (a, u, r) = foldl (\<lambda>(a, u, r) e. (increment_tally a (al_action e),
              increment_tally u (al_user_id e), increment_tally r (al_resource e))) ([], [], []) logs
      in \<lparr>cr_generated_at = now, cr_period = period, cr_total_events = int (length logs),
          cr_by_action = a, cr_by_user = u, cr_by_resource = r\<rparr>)"

definition period_query :: "int \<times> int \<Rightarrow> audit_query" where
  "period_query period = \<lparr>aq_user_id = None, aq_tenant_id = None, aq_action = None, aq_resource = None,
     aq_resource_id = None, aq_from_date = Some (fst period), aq_to_date = Some (snd period),
     aq_limit = None, aq_offset = None\<rparr>"

definition generate_from_storage :: "(audit_query \<Rightarrow> 's \<Rightarrow> (js_error, audit_log list) outcome) \<Rightarrow> int \<Rightarrow> 's
    \<Rightarrow> int \<times> int \<Rightarrow> (js_error, compliance_report) outcome" where
  "generate_from_storage query now s period =
     (case query (period_query period) s of
        Inl err \<Rightarrow> Inl err
      | Inr logs \<Rightarrow> Inr (report_generate now logs period))"

section \<open>Audited functions\<close>

record audit_context =
  ax_user_id :: string
  ax_ip :: string
  ax_user_agent :: string
  ax_tenant_id :: "string option"

record ('a, 'r) audited_options =
  ao_action :: string
  ao_resource :: string
  ao_get_resource_id :: "('a \<Rightarrow> (js_error, string) outcome) option"
  ao_get_user_id :: "('a \<Rightarrow> (js_error, string) outcome) option"
  ao_get_changes :: "('a \<Rightarrow> 'r \<Rightarrow> (js_error, (string, audit_change) jsmap) outcome) option"

definition derived :: "'b \<Rightarrow> ('a \<Rightarrow> (js_error, 'b) outcome) option \<Rightarrow> 'a \<Rightarrow> (js_error, 'b) outcome" where
  "derived d f x = (case f of None \<Rightarrow> Inr d | Some g \<Rightarrow> g x)"

definition audited_input :: "('a, 'r) audited_options \<Rightarrow> audit_context \<Rightarrow> 'a \<Rightarrow> 'r \<Rightarrow> (js_error, audit_input) outcome" where
  "audited_input opts ctx args r =
     (case derived (ax_user_id ctx) (ao_get_user_id opts) args of
        Inl err \<Rightarrow> Inl err
      | Inr user \<Rightarrow>
     (case derived ''unknown'' (ao_get_resource_id opts) args of
        Inl err \<Rightarrow> Inl err
      | Inr res \<Rightarrow>
     (case derived [] (map_option (\<lambda>g a. g a r) (ao_get_changes opts)) args of
        Inl err \<Rightarrow> Inl err
      | Inr changes \<Rightarrow>
          Inr \<lparr>ai_user_id = user, ai_tenant_id = ax_tenant_id ctx, ai_action = ao_action opts,
               ai_resource = ao_resource opts, ai_resource_id = res, ai_changes = Some changes,
               ai_ip = ax_ip ctx, ai_user_agent = ax_user_agent ctx, ai_metadata = None\<rparr>)))"

definition audited_call :: "('a \<Rightarrow> 'w \<Rightarrow> (js_error, 'r) outcome \<times> 'w) \<Rightarrow> 's store_fn \<Rightarrow> ('a, 'r) audited_options
    \<Rightarrow> audit_context \<Rightarrow> int \<Rightarrow> int \<Rightarrow> 'a \<Rightarrow> 'w \<times> nat \<times> 's \<Rightarrow> (js_error, 'r) outcome \<times> 'w \<times> nat \<times> 's" where
  "audited_call fn store opts ctx now1 now2 args st =
     (case fn args (fst st) of
        (Inl err, w) \<Rightarrow> (Inl err, w, snd st)
      | (Inr r, w) \<Rightarrow>
          (case audited_input opts ctx args r of
             Inl err \<Rightarrow> (Inl err, w, snd st)
           | Inr i \<Rightarrow>
               (case audit_log_entry store now1 now2 i (snd st) of
                  (Inl err, t) \<Rightarrow> (Inl err, w, t)
                | (Inr _, t) \<Rightarrow> (Inr r, w, t))))"

section \<open>What a storage promises\<close>

text \<open>
  The entries a storage holds are those stored, in order; a query gives the matching ones, paged,
  and a count their number.
\<close>

locale audit_storage =
  fixes store :: "'s store_fn"
    and query :: "audit_query \<Rightarrow> 's \<Rightarrow> (js_error, audit_log list) outcome"
    and count :: "audit_query \<Rightarrow> 's \<Rightarrow> (js_error, int) outcome"
    and entries :: "'s \<Rightarrow> audit_log list"
  assumes stored: "store e s = (Inr (), s') \<Longrightarrow> entries s' = entries s @ [e]"
    and refused: "store e s = (Inl err, s') \<Longrightarrow> entries s' = entries s"
    and queried: "aq_offset q = None \<Longrightarrow> aq_limit q = None \<Longrightarrow> query q s = Inr (filter (\<lambda>e. matches_log e q) (entries s))"
    and counted: "count q s = Inr (int (length (filter (\<lambda>e. matches_log e q) (entries s))))"
begin

lemma log_entry_stored:
  assumes "audit_log_entry store now1 now2 i st = (r, st')"
  shows "entries (snd st') = entries (snd st) @ (case r of Inl _ \<Rightarrow> [] | Inr e \<Rightarrow> [e])"
  using assms stored refused by (auto simp: audit_log_entry_def Let_def split: prod.splits sum.splits)

lemma count_is_query_length:
  assumes "aq_offset q = None" and "aq_limit q = None"
  shows "\<exists>es. query q s = Inr es \<and> count q s = Inr (int (length es))"
  using assms by (simp add: queried counted)

lemma audited_call_logs:
  assumes "audited_call fn store opts ctx now1 now2 args st = (r, w', t)"
  shows "(\<exists>err. r = Inl err \<and> entries (snd t) = entries (snd (snd st)))
    \<or> (\<exists>v e. r = Inr v \<and> fst (fn args (fst st)) = Inr v \<and> entries (snd t) = entries (snd (snd st)) @ [e]
          \<and> al_action e = ao_action opts \<and> al_resource e = ao_resource opts)"
proof (cases "fst (fn args (fst st))")
  case (Inl err)
  with assms show ?thesis by (auto simp: audited_call_def split: prod.splits)
next
  case (Inr v)
  obtain w where f: "fn args (fst st) = (Inr v, w)" using Inr by (metis prod.collapse)
  show ?thesis
  proof (cases "audited_input opts ctx args v")
    case (Inl err)
    with assms f show ?thesis by (auto simp: audited_call_def)
  next
    case (Inr i)
    obtain q t' where l: "audit_log_entry store now1 now2 i (snd st) = (q, t')" by (rule prod.exhaust)
    have i: "ai_action i = ao_action opts" "ai_resource i = ao_resource opts"
      using Inr by (auto simp: audited_input_def split: sum.splits)
    have "al_action e = ai_action i \<and> al_resource e = ai_resource i" if "q = Inr e" for e
      using l that by (auto simp: audit_log_entry_def build_log_def Let_def split: prod.splits sum.splits)
    with log_entry_stored [OF l] assms f Inr l i show ?thesis
      by (auto simp: audited_call_def split: sum.splits)
  qed
qed

end

interpretation memory_audit: audit_storage audit_store audit_query_logs audit_count "\<lambda>logs. logs"
  by unfold_locales
     (auto simp: audit_store_def audit_query_logs_def audit_count_def js_slice_to_rest Let_def)

section \<open>Identifiers\<close>

lemma generated_ids_eq:
  "fst (generate_id t m) = fst (generate_id u n) \<longleftrightarrow> nat t = nat u \<and> m = n"
proof -
  have "digits36 a = digits36 b \<longleftrightarrow> a = b" for a b by (metis value36_digits)
  then show ?thesis by (simp add: generate_id_def Let_def append_sep_eq digits36_no_dash)
qed

section \<open>Runs of a service\<close>

text \<open>A program that logs: each call has the two readings of the clock and the input.\<close>

fun log_all :: "'s store_fn \<Rightarrow> (int \<times> int \<times> audit_input) list \<Rightarrow> nat \<times> 's \<Rightarrow> nat \<times> 's" where
  "log_all store [] st = st"
| "log_all store ((t, u, i) # r) st = log_all store r (snd (audit_log_entry store t u i st))"

fun entries_of :: "(int \<times> int \<times> audit_input) list \<Rightarrow> nat \<Rightarrow> audit_log list" where
  "entries_of [] n = []"
| "entries_of ((t, u, i) # r) n = fst (build_log t u n i) # entries_of r (n + 1)"

lemma build_log_counter: "snd (build_log t u n i) = n + 1"
  by (simp add: build_log_def generate_id_def Let_def)

lemma log_all_memory: "log_all audit_store cs (n, logs) = (n + length cs, logs @ entries_of cs n)"
proof (induction cs arbitrary: n logs)
  case (Cons c cs)
  obtain t u i where c: "c = (t, u, i)" by (cases c) auto
  have "snd (audit_log_entry audit_store t u i (n, logs)) = (n + 1, logs @ [fst (build_log t u n i)])"
    using build_log_counter [of t u n i]
    by (auto simp: audit_log_entry_def audit_store_def Let_def split: prod.splits)
  with Cons c show ?case by simp
qed simp

lemma entry_ids: "e \<in> set (entries_of cs n) \<Longrightarrow> \<exists>t m. n \<le> m \<and> al_id e = fst (generate_id t m)"
proof (induction cs arbitrary: n)
  case (Cons c cs)
  obtain t u i where c: "c = (t, u, i)" by (cases c) auto
  have first: "al_id (fst (build_log t u n i)) = fst (generate_id t n)"
    by (simp add: build_log_def split: prod.split)
  from Cons.prems c consider "e = fst (build_log t u n i)" | "e \<in> set (entries_of cs (n + 1))" by auto
  then show ?case
  proof cases
    case 1
    with first show ?thesis by blast
  next
    case 2
    from Cons.IH [OF this] show ?thesis by (meson add_leE order.trans le_add1)
  qed
qed simp

lemma entry_ids_distinct: "distinct (map al_id (entries_of cs n))"
proof (induction cs arbitrary: n)
  case (Cons c cs)
  obtain t u i where c: "c = (t, u, i)" by (cases c) auto
  have first: "al_id (fst (build_log t u n i)) = fst (generate_id t n)"
    by (simp add: build_log_def split: prod.split)
  have "al_id e \<noteq> fst (generate_id t n)" if "e \<in> set (entries_of cs (n + 1))" for e
    using entry_ids [OF that] by (auto simp: generated_ids_eq)
  then have "fst (generate_id t n) \<notin> al_id ` set (entries_of cs (n + 1))" by (metis image_iff)
  with Cons.IH [of "n + 1"] c first show ?case by simp
qed simp

text \<open>C37: 
  After any calls to \<open>log\<close>, the storage holds one entry per call, in the order of the calls, with
  the fields and the time of the call, and no two entries share an id.
\<close>

theorem audit_trail:
  "log_all audit_store cs (n, []) = (n + length cs, entries_of cs n)
   \<and> distinct (map al_id (entries_of cs n))
   \<and> map (\<lambda>e. (al_timestamp e, al_user_id e, al_action e, al_resource e, al_resource_id e)) (entries_of cs n)
       = map (\<lambda>(t, u, i). (u, ai_user_id i, ai_action i, ai_resource i, ai_resource_id i)) cs"
proof -
  have "map (\<lambda>e. (al_timestamp e, al_user_id e, al_action e, al_resource e, al_resource_id e)) (entries_of cs n)
      = map (\<lambda>(t, u, i). (u, ai_user_id i, ai_action i, ai_resource i, ai_resource_id i)) cs"
  proof (induction cs arbitrary: n)
    case (Cons c cs)
    then show ?case by (cases c) (simp add: build_log_def split: prod.split)
  qed simp
  then show ?thesis by (simp add: log_all_memory entry_ids_distinct)
qed

section \<open>Queries\<close>

lemma matches_log_iff:
  "matches_log e q \<longleftrightarrow>
     (\<forall>v. aq_user_id q = Some v \<longrightarrow> al_user_id e = v) \<and> (\<forall>v. aq_tenant_id q = Some v \<longrightarrow> al_tenant_id e = Some v)
     \<and> (\<forall>v. aq_action q = Some v \<longrightarrow> al_action e = v) \<and> (\<forall>v. aq_resource q = Some v \<longrightarrow> al_resource e = v)
     \<and> (\<forall>v. aq_resource_id q = Some v \<longrightarrow> al_resource_id e = v)
     \<and> (\<forall>a. aq_from_date q = Some a \<longrightarrow> a \<le> al_timestamp e) \<and> (\<forall>b. aq_to_date q = Some b \<longrightarrow> al_timestamp e \<le> b)"
  by (auto simp: matches_log_def matches_scalar_def matches_date_range_def split: option.splits)

definition page :: "audit_query \<Rightarrow> nat \<Rightarrow> nat \<Rightarrow> audit_query" where
  "page q k i = q\<lparr>aq_limit := Some (int k), aq_offset := Some (int (i * k))\<rparr>"

lemma matches_page [simp]: "matches_log e (page q k i) = matches_log e q"
  by (simp add: page_def matches_log_def)

lemma query_page: "audit_query_logs (page q k i) logs = Inr (take k (drop (i * k) (filter (\<lambda>e. matches_log e q) logs)))"
proof -
  have "(\<lambda>e. matches_log e (page q k i)) = (\<lambda>e. matches_log e q)" by (rule ext) simp
  then show ?thesis
    using js_slice_to_page [of "int (i * k)" "int k" "filter (\<lambda>e. matches_log e q) logs"]
    by (simp only: audit_query_logs_def Let_def) (simp add: page_def flip: of_nat_mult of_nat_add)
qed

lemma concat_pages: "concat (map (\<lambda>i. take k (drop (i * k) xs)) [0..<n]) = take (n * k) xs"
proof (induction n)
  case (Suc n)
  then show ?case by (simp add: take_add [symmetric] add.commute)
qed simp

text \<open>
  Asked for page after page, the storage gives every matching entry once, in the order stored, and
  the count it announces is their number.
\<close>

theorem pages_cover:
  assumes "length logs \<le> n * k"
  shows "concat (map (\<lambda>i. case audit_query_logs (page q k i) logs of Inr es \<Rightarrow> es) [0..<n])
      = filter (\<lambda>e. matches_log e q) logs
    \<and> audit_count q logs = Inr (int (length (filter (\<lambda>e. matches_log e q) logs)))"
proof -
  have "length (filter (\<lambda>e. matches_log e q) logs) \<le> n * k" using assms length_filter_le le_trans by blast
  then show ?thesis by (simp add: query_page concat_pages audit_count_def)
qed

theorem pages_cover_witness:
  "concat (map (\<lambda>i. case audit_query_logs (page (period_query (0, 9)) 2 i)
       [fst (build_log 1 5 0 \<lparr>ai_user_id = ''u'', ai_tenant_id = None, ai_action = ''A'', ai_resource = ''R'',
          ai_resource_id = ''1'', ai_changes = None, ai_ip = [], ai_user_agent = [], ai_metadata = None\<rparr>)] of Inr es \<Rightarrow> es) [0..<1])
     = filter (\<lambda>e. matches_log e (period_query (0, 9)))
       [fst (build_log 1 5 0 \<lparr>ai_user_id = ''u'', ai_tenant_id = None, ai_action = ''A'', ai_resource = ''R'',
          ai_resource_id = ''1'', ai_changes = None, ai_ip = [], ai_user_agent = [], ai_metadata = None\<rparr>)]"
  using pages_cover [of "[fst (build_log 1 5 0 \<lparr>ai_user_id = ''u'', ai_tenant_id = None, ai_action = ''A'',
      ai_resource = ''R'', ai_resource_id = ''1'', ai_changes = None, ai_ip = [], ai_user_agent = [],
      ai_metadata = None\<rparr>)]" 1 2] by simp

section \<open>Reports\<close>

definition occurrences :: "('a \<Rightarrow> string) \<Rightarrow> 'a list \<Rightarrow> string \<Rightarrow> int" where
  "occurrences f xs k = int (length (filter (\<lambda>x. f x = k) xs))"

lemma foldl_triple:
  "foldl (\<lambda>(a, u, r) e. (f a e, g u e, h r e)) (a, u, r) xs = (foldl f a xs, foldl g u xs, foldl h r xs)"
  by (induction xs arbitrary: a u r) simp_all

lemma tally_all:
  assumes "k \<notin> set inherited_names"
    and "jget m k = (if c = 0 then None else Some (Tally c))" and "0 \<le> c"
  shows "jget (foldl (\<lambda>m x. increment_tally m (f x)) m xs) k =
    (if c + occurrences f xs k = 0 then None else Some (Tally (c + occurrences f xs k)))"
  using assms(2,3)
proof (induction xs arbitrary: m c)
  case (Cons x xs)
  show ?case
  proof (cases "f x = k")
    case True
    then have "jget (increment_tally m (f x)) k = Some (Tally (c + 1))"
      using Cons.prems assms(1) by (auto simp: increment_tally_def inherited_names_def)
    with Cons.IH [of "increment_tally m (f x)" "c + 1"] Cons.prems True show ?thesis
      by (simp add: occurrences_def algebra_simps)
  next
    case False
    then have "jget (increment_tally m (f x)) k = jget m k" by (simp add: increment_tally_def)
    with Cons.IH [of "increment_tally m (f x)" c] Cons.prems False show ?thesis
      by (simp add: occurrences_def)
  qed
qed (simp add: occurrences_def)

lemma report_tallies:
  "cr_by_action (report_generate now logs period) = foldl (\<lambda>m e. increment_tally m (al_action e)) [] logs"
  "cr_by_user (report_generate now logs period) = foldl (\<lambda>m e. increment_tally m (al_user_id e)) [] logs"
  "cr_by_resource (report_generate now logs period) = foldl (\<lambda>m e. increment_tally m (al_resource e)) [] logs"
  "cr_total_events (report_generate now logs period) = int (length logs)"
  by (simp_all add: report_generate_def foldl_triple)

text \<open>
  A report on a period counts, for every action that is no name all objects inherit, the entries of
  the period with it, and likewise for users and resources; what no entry has is not listed.
\<close>

theorem report_counts:
  assumes "k \<notin> set inherited_names"
  shows "\<exists>r. generate_from_storage audit_query_logs now logs period = Inr r
    \<and> cr_total_events r = int (length (filter (\<lambda>e. fst period \<le> al_timestamp e \<and> al_timestamp e \<le> snd period) logs))
    \<and> (let es = filter (\<lambda>e. fst period \<le> al_timestamp e \<and> al_timestamp e \<le> snd period) logs;
           listed = (\<lambda>f. if occurrences f es k = 0 then None else Some (Tally (occurrences f es k)))
       in jget (cr_by_action r) k = listed al_action \<and> jget (cr_by_user r) k = listed al_user_id
          \<and> jget (cr_by_resource r) k = listed al_resource)"
proof -
  have m: "(\<lambda>e. matches_log e (period_query period))
      = (\<lambda>e. fst period \<le> al_timestamp e \<and> al_timestamp e \<le> snd period)"
    by (rule ext) (simp add: matches_log_iff period_query_def)
  have "audit_query_logs (period_query period) logs = Inr (filter (\<lambda>e. matches_log e (period_query period)) logs)"
    by (rule memory_audit.queried) (simp_all add: period_query_def)
  with m have q: "audit_query_logs (period_query period) logs
      = Inr (filter (\<lambda>e. fst period \<le> al_timestamp e \<and> al_timestamp e \<le> snd period) logs)" by simp
  have "jget (foldl (\<lambda>m x. increment_tally m (f x)) [] xs) k
      = (if occurrences f xs k = 0 then None else Some (Tally (occurrences f xs k)))" for f and xs :: "audit_log list"
    using tally_all [OF assms, of "[]" 0 f xs] by simp
  then show ?thesis
    unfolding generate_from_storage_def q sum.case report_tallies Let_def by (simp add: report_tallies)
qed

theorem report_counts_witness:
  "\<exists>r. generate_from_storage audit_query_logs 9 [] (0, 5) = Inr r \<and> jget (cr_by_action r) ''LOGIN'' = None"
  using report_counts [of "''LOGIN''" 9 "[]" "(0, 5)"] by (auto simp: inherited_names_def occurrences_def Let_def)

text \<open>
  For an action with such a name the report holds a text and no count, or nothing for the name
  \<open>__proto__\<close>, however many entries there are.
\<close>

theorem inherited_names_uncounted:
  assumes "k \<in> set inherited_names"
  shows "jget (cr_by_action (report_generate now logs period)) k =
    (if k = ''__proto__'' \<or> occurrences al_action logs k = 0 then None else Some Not_A_Number)"
proof -
  have "jget (foldl (\<lambda>m e. increment_tally m (al_action e)) m logs) k =
      (if k = ''__proto__'' \<or> occurrences al_action logs k = 0 then jget m k else Some Not_A_Number)"
    if "jget m k = None \<or> jget m k = Some Not_A_Number" "k = ''__proto__'' \<longrightarrow> jget m k = None" for m
    using that
  proof (induction logs arbitrary: m)
    case (Cons e es)
    have s: "jget (increment_tally m (al_action e)) k =
        (if al_action e = k \<and> k \<noteq> ''__proto__'' then Some Not_A_Number else jget m k)"
      using Cons.prems assms by (auto simp: increment_tally_def)
    have o: "occurrences al_action (e # es) k = (if al_action e = k then 1 else 0) + occurrences al_action es k"
      "0 \<le> occurrences al_action es k" by (simp_all add: occurrences_def)
    have p: "jget (increment_tally m (al_action e)) k = None \<or> jget (increment_tally m (al_action e)) k = Some Not_A_Number"
      "k = ''__proto__'' \<longrightarrow> jget (increment_tally m (al_action e)) k = None"
      using s Cons.prems by (auto split: if_splits)
    show ?case unfolding foldl.simps Cons.IH [OF p] o(1) s using o(2) by auto
  qed (simp add: occurrences_def)
  then show ?thesis by (simp add: report_tallies)
qed

theorem inherited_names_uncounted_witness:
  "jget (cr_by_action (report_generate 9 [] (0, 5))) ''constructor'' = None"
  using inherited_names_uncounted [of "''constructor''" 9 "[]"] by (simp add: inherited_names_def occurrences_def)

section \<open>Audited calls\<close>

text \<open>
  With any storage that keeps its promise, here the in-memory one, an audited call that returns has
  recorded exactly one entry, after the function returned the same value, and a call that fails has
  recorded none.
\<close>

theorem audited_call_recorded:
  assumes "audited_call fn audit_store opts ctx now1 now2 args (w, n, logs) = (r, w', n', logs')"
  shows "(\<exists>err. r = Inl err \<and> logs' = logs)
    \<or> (\<exists>v e. r = Inr v \<and> fst (fn args w) = Inr v \<and> logs' = logs @ [e]
          \<and> al_action e = ao_action opts \<and> al_resource e = ao_resource opts)"
  using memory_audit.audited_call_logs [OF assms] by simp

definition demo_options :: "(int, int) audited_options" where
  "demo_options = \<lparr>ao_action = ''PAY'', ao_resource = ''Order'', ao_get_resource_id = None, ao_get_user_id = None,
     ao_get_changes = None\<rparr>"

definition demo_context :: audit_context where
  "demo_context = \<lparr>ax_user_id = ''ann'', ax_ip = ''::1'', ax_user_agent = ''cli'', ax_tenant_id = None\<rparr>"

theorem audited_call_recorded_witness:
  "\<exists>r w' n' logs'. audited_call (\<lambda>x w. (Inr (x + 1), w + 1)) audit_store demo_options demo_context 1 2 6 (0 :: int, 0, [])
      = (r, w', n', logs') \<and> (r = Inr 7 \<longrightarrow> length logs' = 1)"
proof -
  obtain r w' n' logs' where c: "audited_call (\<lambda>x w. (Inr (x + 1), w + 1)) audit_store demo_options demo_context 1 2 6
      (0 :: int, 0, []) = (r, w', n', logs')" by (metis prod.exhaust)
  from audited_call_recorded [OF c] c show ?thesis by auto
qed

text \<open>
  When the storage refuses the entry, the call rejects although the function has run: its effect
  stays and its value is lost.
\<close>

theorem refused_entry_loses_result:
  assumes "fn args w = (Inr v, w')" and "ao_get_user_id opts = None" and "ao_get_resource_id opts = None"
    and "ao_get_changes opts = None"
  shows "\<exists>n'. audited_call fn (\<lambda>e s. (Inl err, s)) opts ctx now1 now2 args (w, n, s) = (Inl err, w', n', s)"
  using assms
  by (auto simp: audited_call_def audited_input_def derived_def audit_log_entry_def Let_def split: prod.splits)

theorem refused_entry_loses_result_witness:
  "\<exists>n'. audited_call (\<lambda>x w. (Inr (x + 1), w + 1)) (\<lambda>e s. (Inl (plain_error ''full''), s)) demo_options demo_context
      1 2 6 (0 :: int, 0, ()) = (Inl (plain_error ''full''), 1, n', ())"
  by (rule refused_entry_loses_result [where v = 7]) (simp_all add: demo_options_def)

end
