(* ===== verification/Identity.thy ===== *)
theory Identity
  imports Kernel Radix36 Regex
begin

text \<open>
  More of \<open>packages/kernel/src\<close>: the creation of identifiers (\<open>identity\<close>), the context and the
  metrics of tenants (\<open>multitenancy\<close>), the recorder of domain events and the base class of
  repositories (\<open>ddd\<close>).

  \<open>crypto.randomUUID()\<close> and the clock are arguments.  The context of a call is what
  \<open>AsyncLocalStorage\<close> holds while it runs: a function that reads it is a function of it.
\<close>

section \<open>Identifiers\<close>

definition correlation_id_create :: "string option \<Rightarrow> string \<Rightarrow> string" where
  "correlation_id_create value uuid = (case value of None \<Rightarrow> uuid | Some v \<Rightarrow> v)"

definition causation_id_create :: "string option \<Rightarrow> string \<Rightarrow> string" where
  "causation_id_create value uuid = (case value of None \<Rightarrow> uuid | Some v \<Rightarrow> v)"

definition request_id_create :: "string option \<Rightarrow> string \<Rightarrow> string" where
  "request_id_create value uuid = (case value of None \<Rightarrow> uuid | Some v \<Rightarrow> v)"

definition uuid_generate :: "string \<Rightarrow> string" where "uuid_generate uuid = uuid"

definition ulid_generate :: "int \<Rightarrow> string \<Rightarrow> string" where
  "ulid_generate timestamp uuid =
     (let randomness = take 16 (filter (\<lambda>c. c \<noteq> CHR ''-'') uuid)
      in map upper_char (digits36 (nat timestamp)) @ map upper_char randomness)"

section \<open>Tenants\<close>

datatype isolation_strategy = Database_Per_Tenant | Schema_Per_Tenant | Row_Per_Tenant

record isolation_descriptor =
  id_strategy :: isolation_strategy
  id_discriminator_field :: "string option"

type_synonym 'a in_context = "string option \<Rightarrow> 'a"

definition tenant_run :: "string \<Rightarrow> 'a in_context \<Rightarrow> 'a in_context" where
  "tenant_run tenant fn ctx = fn (Some tenant)"

definition tenant_current :: "string option in_context" where "tenant_current ctx = ctx"

definition has_tenant :: "bool in_context" where "has_tenant ctx = (ctx \<noteq> None)"

record 't tenant_metric_sample =
  ts_tenant :: string
  ts_metric :: string
  ts_value :: rat
  ts_tags :: 't

definition tenant_metric_record :: "string \<Rightarrow> string \<Rightarrow> rat \<Rightarrow> 't \<Rightarrow> 't tenant_metric_sample list
    \<Rightarrow> 't tenant_metric_sample list" where
  "tenant_metric_record tenant metric v tags samples =
     samples @ [\<lparr>ts_tenant = tenant, ts_metric = metric, ts_value = v, ts_tags = tags\<rparr>]"

definition metrics_for_tenant :: "string \<Rightarrow> 't tenant_metric_sample list \<Rightarrow> 't tenant_metric_sample list" where
  "metrics_for_tenant tenant samples = filter (\<lambda>s. ts_tenant s = tenant) samples"

section \<open>Events and repositories\<close>

datatype 'e recorder_call = Record 'e | Record_Many "'e list" | Clear

fun recorder_step :: "'e list \<Rightarrow> 'e recorder_call \<Rightarrow> 'e list" where
  "recorder_step events (Record e) = events @ [e]"
| "recorder_step events (Record_Many es) = events @ es"
| "recorder_step events Clear = []"

definition recorder_has_events :: "'e list \<Rightarrow> bool" where
  "recorder_has_events events = (length events > 0)"

definition repository_exists :: "('spec \<Rightarrow> 'w \<Rightarrow> (js_error, 'a list) outcome \<times> 'w) \<Rightarrow> 'spec \<Rightarrow> 'w
    \<Rightarrow> (js_error, bool) outcome \<times> 'w" where
  "repository_exists find_by spec w =
     (case find_by spec w of
        (Inl err, w1) \<Rightarrow> (Inl err, w1)
      | (Inr results, w1) \<Rightarrow> (Inr (length results > 0), w1))"

definition tenant_repository_exists :: "(string \<Rightarrow> 'spec \<Rightarrow> 'w \<Rightarrow> (js_error, 'a list) outcome \<times> 'w) \<Rightarrow> string \<Rightarrow> 'spec \<Rightarrow> 'w
    \<Rightarrow> (js_error, bool) outcome \<times> 'w" where
  "tenant_repository_exists find_by tenant spec w =
     (case find_by tenant spec w of
        (Inl err, w1) \<Rightarrow> (Inl err, w1)
      | (Inr results, w1) \<Rightarrow> (Inr (length results > 0), w1))"

section \<open>Order of identifiers\<close>

lemma upper_digit36: "d < 36 \<Longrightarrow> (of_char (upper_char (digit36 d)) :: nat) = (if d < 10 then 48 + d else 55 + d)"
  using digit36_code [of d] by (auto simp: upper_char_def Let_def take_bit_eq_mod)

lemma upper_digits_mono: "d < e \<Longrightarrow> e < 36 \<Longrightarrow> (upper_char (digit36 d), upper_char (digit36 e)) \<in> char_less"
  using upper_digit36 [of d] upper_digit36 [of e] by (simp add: char_less_def)

text \<open>
  From June 1972 to May 2059, identifiers generated at different milliseconds sort as their times.
\<close>

theorem ulid_sortable:
  assumes "36 ^ 7 \<le> t" and "t < u" and "u < 36 ^ 8"
  shows "(ulid_generate t a, ulid_generate u b) \<in> lexord char_less"
proof -
  have t: "36 ^ 7 \<le> nat t" "nat t < nat u" "nat u < 36 ^ 8" using assms by (simp_all add: le_nat_iff nat_less_iff)
  then have "36 ^ 7 \<le> nat u" "nat t < 36 ^ 8" by linarith+
  with t have "length (digits36 (nat t)) = 8" "length (digits36 (nat u)) = 8"
    using digits36_length [of 7 "nat t"] digits36_length [of 7 "nat u"] by simp_all
  then show ?thesis
    unfolding ulid_generate_def Let_def
    by (intro lexord_sufI digits36_sorted upper_digits_mono t(2)) simp_all
qed

theorem ulid_sortable_witness:
  "(ulid_generate 1700000000000 ''a'', ulid_generate 1700000000001 ''b'') \<in> lexord char_less"
  by (rule ulid_sortable) simp_all

text \<open>
  The order is lost when the time takes one digit more: the identifier of the first millisecond
  with nine digits sorts before that of the millisecond before.
\<close>

theorem ulid_order_breaks:
  "(ulid_generate (36 ^ 8) a, ulid_generate (36 ^ 8 - 1) b) \<in> lexord char_less"
proof -
  have nines: "digits36 (36 ^ Suc k - 1) = replicate (Suc k) (digit36 35)" for k
  proof (induction k)
    case 0
    then show ?case by (simp add: digits36.simps)
  next
    case (Suc k)
    have e: "(36 ^ Suc (Suc k) - 1 :: nat) = (36 ^ Suc k - 1) * 36 + 35"
      using one_le_power [of "36 :: nat" "Suc k"] by (simp add: algebra_simps)
    have "digits36 (m * 36 + 35) = digits36 m @ [digit36 35]" if "0 < m" for m
      using that by (subst digits36.simps) simp
    moreover have "0 < (36 ^ Suc k - 1 :: nat)"
      using mult_le_mono2 [of 1 "36 ^ k :: nat" 36] one_le_power [of "36 :: nat" k] unfolding power_Suc by linarith
    ultimately have "digits36 (36 ^ Suc (Suc k) - 1) = digits36 (36 ^ Suc k - 1) @ [digit36 35]"
      unfolding e by blast
    with Suc show ?case by (simp add: replicate_append_same)
  qed
  have one: "digits36 (36 ^ k) = digit36 1 # replicate k (digit36 0)" for k
  proof (induction k)
    case 0
    then show ?case by (simp add: digits36.simps)
  next
    case (Suc k)
    have "digits36 (m * 36) = digits36 m @ [digit36 0]" if "0 < m" for m
      using that by (subst digits36.simps) simp
    from this [of "36 ^ k"] Suc show ?case by (simp add: mult.commute [of _ 36] replicate_append_same)
  qed
  have "nat (36 ^ 8) = 36 ^ Suc 7" "nat (36 ^ 8 - 1) = 36 ^ Suc 7 - 1" by simp_all
  moreover have "replicate 8 c = c # replicate 7 c" for c :: char by (simp add: eval_nat_numeral)
  ultimately show ?thesis
    using one [of 8] nines [of 7] upper_digits_mono [of 1 35]
    by (simp add: ulid_generate_def Let_def)
qed

text \<open>
  The factories differ in what they take: \<open>create\<close> keeps any text, the empty one too, that
  \<open>fromString\<close> refuses; what \<open>fromString\<close> takes \<open>create\<close> gives unchanged.
\<close>

theorem identifier_factories:
  "correlation_id_create (Some []) uuid = [] \<and> (\<exists>err. correlation_id_from_string [] = Inl err)
   \<and> (correlation_id_from_string v = Inr w \<longrightarrow> correlation_id_create (Some v) uuid = w)
   \<and> (causation_id_from_string v = Inr w \<longrightarrow> causation_id_create (Some v) uuid = w)
   \<and> (request_id_from_string v = Inr w \<longrightarrow> request_id_create (Some v) uuid = w)
   \<and> correlation_id_create None uuid = uuid"
  by (simp add: correlation_id_create_def causation_id_create_def request_id_create_def
      correlation_id_from_string_def causation_id_from_string_def request_id_from_string_def)

theorem identifier_factories_witness:
  "correlation_id_create (Some ''abc'') ''u'' = ''abc''"
proof -
  have "correlation_id_from_string ''abc'' = Inr ''abc''"
    by (simp add: correlation_id_from_string_def js_trim_def is_js_space_def)
  with identifier_factories [of "''u''" "''abc''" "''abc''"] show ?thesis by simp
qed

section \<open>Tenants do not mix\<close>

fun record_samples :: "(string \<times> string \<times> rat \<times> 't) list \<Rightarrow> 't tenant_metric_sample list \<Rightarrow> 't tenant_metric_sample list" where
  "record_samples [] s = s"
| "record_samples ((t, m, v, tags) # r) s = record_samples r (tenant_metric_record t m v tags s)"

text \<open>
  The samples of a tenant are exactly those recorded for it, in order; the context that a nested
  call sees is the innermost tenant, and the outer one again after it.
\<close>

theorem tenant_metrics_isolated:
  "map (\<lambda>s. (ts_metric s, ts_value s, ts_tags s)) (metrics_for_tenant t (record_samples calls []))
     = map snd (filter (\<lambda>c. fst c = t) calls)
   \<and> tenant_run a (\<lambda>c. (tenant_run b tenant_current c, tenant_current c)) ctx = (Some b, Some a)"
proof -
  have "metrics_for_tenant t (record_samples calls s)
      = metrics_for_tenant t s @ map (\<lambda>(u, m, v, g). \<lparr>ts_tenant = u, ts_metric = m, ts_value = v, ts_tags = g\<rparr>)
          (filter (\<lambda>c. fst c = t) calls)" for s
    by (induction calls s rule: record_samples.induct)
       (simp_all add: metrics_for_tenant_def tenant_metric_record_def)
  moreover have "map (\<lambda>s. (ts_metric s, ts_value s, ts_tags s))
      (map (\<lambda>(u, m, v, g). \<lparr>ts_tenant = u, ts_metric = m, ts_value = v, ts_tags = g\<rparr>) cs) = map snd cs" for cs :: "(string \<times> string \<times> rat \<times> 'b) list"
    by (induction cs) auto
  ultimately show ?thesis
    by (simp add: metrics_for_tenant_def [of t "[]"] tenant_run_def tenant_current_def)
qed

fun recorded :: "'e recorder_call list \<Rightarrow> 'e list" where
  "recorded [] = []"
| "recorded (Record e # cs) = e # recorded cs"
| "recorded (Record_Many es # cs) = es @ recorded cs"
| "recorded (Clear # cs) = recorded cs"

text \<open>The events of a recorder are those recorded since it was last cleared.\<close>

theorem recorder_ledger:
  assumes "Clear \<notin> set cs"
  shows "foldl recorder_step events (before @ Clear # cs) = recorded cs
    \<and> (recorder_has_events (foldl recorder_step events (before @ Clear # cs)) \<longleftrightarrow> recorded cs \<noteq> [])"
proof -
  have "foldl recorder_step es cs = es @ recorded cs" for es
    using assms by (induction cs arbitrary: es rule: recorded.induct) simp_all
  then show ?thesis by (simp add: recorder_has_events_def)
qed

theorem recorder_ledger_witness:
  "foldl recorder_step [] ([Record (1 :: nat)] @ Clear # [Record 2, Record_Many [3, 4]]) = [2, 3, 4]"
  using recorder_ledger [of "[Record 2, Record_Many [3, 4]]" "[]" "[Record (1 :: nat)]"] by simp

end
