(* ===== verification/Content_Routing.thy ===== *)
theory Content_Routing
  imports Json "HOL-Library.Sublist"
begin

text \<open>
  \<open>packages/messaging/src/pubsub/ContentRouter.ts\<close>: subscriptions with filters over the fields of an
  envelope and its payload.

  An envelope is its fields.  A value is one of JSON, \<open>undefined\<close>, or a member that every object or
  array inherits; two objects or arrays are different values, as they are when they come from
  different places.  A handler is a callback over a state of its own and leaves the router alone.
\<close>

section \<open>Values\<close>

datatype js_value = Undefined | Inherited | Value json

fun strict_eq :: "js_value \<Rightarrow> js_value \<Rightarrow> bool" where
  "strict_eq Undefined Undefined = True"
| "strict_eq (Value JNull) (Value JNull) = True"
| "strict_eq (Value (JBool a)) (Value (JBool b)) = (a = b)"
| "strict_eq (Value (JNum a)) (Value (JNum b)) = (a = b)"
| "strict_eq (Value (JStr a)) (Value (JStr b)) = (a = b)"
| "strict_eq _ _ = False"

definition object_members :: "string list" where
  "object_members = [''constructor'', ''toString'', ''toLocaleString'', ''valueOf'', ''hasOwnProperty'',
     ''isPrototypeOf'', ''propertyIsEnumerable'', ''__proto__'', ''__defineGetter__'', ''__defineSetter__'',
     ''__lookupGetter__'', ''__lookupSetter__'']"

definition array_members :: "string list" where
  "array_members = object_members @ [''at'', ''concat'', ''copyWithin'', ''entries'', ''every'', ''fill'', ''filter'',
     ''find'', ''findIndex'', ''findLast'', ''findLastIndex'', ''flat'', ''flatMap'', ''forEach'', ''includes'',
     ''indexOf'', ''join'', ''keys'', ''lastIndexOf'', ''map'', ''pop'', ''push'', ''reduce'', ''reduceRight'',
     ''reverse'', ''shift'', ''slice'', ''some'', ''sort'', ''splice'', ''toReversed'', ''toSorted'', ''toSpliced'',
     ''unshift'', ''values'', ''with'']"

text \<open>\<open>o[field]\<close> of an object, and of an array when it has the member.\<close>

definition object_member :: "(string \<times> json) list \<Rightarrow> string \<Rightarrow> js_value option" where
  "object_member fs field =
     (case jget fs field of
        Some v \<Rightarrow> Some (Value v)
      | None \<Rightarrow> if field \<in> set object_members then Some Inherited else None)"

definition array_member :: "json list \<Rightarrow> string \<Rightarrow> js_value option" where
  "array_member xs field =
     (if field = ''length'' then Some (Value (JNum (of_int (int (length xs)))))
      else case List.find (\<lambda>i. show_int (int i) = field) [0..<length xs] of
             Some i \<Rightarrow> Some (Value (xs ! i))
           | None \<Rightarrow> if field \<in> set array_members then Some Inherited else None)"

section \<open>Filters\<close>

type_synonym envelope_fields = "(string \<times> json) list"

datatype filter_op = Op_Eq | Op_Neq | Op_Gt | Op_Gte | Op_Lt | Op_Lte | Op_Contains | Op_Starts_With | Op_In

record content_filter =
  cf_field :: string
  cf_op :: filter_op
  cf_value :: js_value
  cf_extract :: "(envelope_fields \<Rightarrow> (js_error, js_value) outcome) option"

text \<open>The field of the payload when it has one, else that of the envelope.\<close>

definition get_field :: "envelope_fields \<Rightarrow> string \<Rightarrow> (js_error, js_value) outcome" where
  "get_field env field =
     (let of_envelope = Inr (case object_member env field of None \<Rightarrow> Undefined | Some v \<Rightarrow> v)
      in case jget env ''payload'' of
           Some JNull \<Rightarrow> Inl (JsError ''TypeError'' (''Cannot use 'in' operator to search for '' @ [CHR 39] @ field @ [CHR 39] @ '' in null''))
         | Some (JObj fs) \<Rightarrow> (case object_member fs field of Some v \<Rightarrow> Inr v | None \<Rightarrow> of_envelope)
         | Some (JArr xs) \<Rightarrow> (case array_member xs field of Some v \<Rightarrow> Inr v | None \<Rightarrow> of_envelope)
         | _ \<Rightarrow> of_envelope)"

definition compare_string :: "js_value \<Rightarrow> filter_op \<Rightarrow> js_value \<Rightarrow> bool" where
  "compare_string v op expected =
     (case (v, expected) of
        (Value (JStr s), Value (JStr t)) \<Rightarrow> if op = Op_Contains then sublist t s else prefix t s
      | _ \<Rightarrow> False)"

definition compare_numeric :: "js_value \<Rightarrow> filter_op \<Rightarrow> js_value \<Rightarrow> bool" where
  "compare_numeric v op expected =
     (case (v, expected) of
        (Value (JNum a), Value (JNum b)) \<Rightarrow>
          if op = Op_Gt then a > b else if op = Op_Gte then a \<ge> b else if op = Op_Lt then a < b else a \<le> b
      | _ \<Rightarrow> False)"

definition compare_values :: "js_value \<Rightarrow> filter_op \<Rightarrow> js_value \<Rightarrow> bool" where
  "compare_values v op expected =
     (if op = Op_Eq then strict_eq v expected
      else if op = Op_Neq then \<not> strict_eq v expected
      else if op = Op_In then (case expected of Value (JArr xs) \<Rightarrow> list_ex (\<lambda>x. strict_eq (Value x) v) xs | _ \<Rightarrow> False)
      else if op = Op_Contains \<or> op = Op_Starts_With then compare_string v op expected
      else compare_numeric v op expected)"

definition evaluate_one :: "envelope_fields \<Rightarrow> content_filter \<Rightarrow> (js_error, bool) outcome" where
  "evaluate_one env f =
     (case (case cf_extract f of Some g \<Rightarrow> g env | None \<Rightarrow> get_field env (cf_field f)) of
        Inl err \<Rightarrow> Inl err
      | Inr v \<Rightarrow> Inr (compare_values v (cf_op f) (cf_value f)))"

fun evaluate :: "envelope_fields \<Rightarrow> content_filter list \<Rightarrow> (js_error, bool) outcome" where
  "evaluate env [] = Inr True"
| "evaluate env (f # fs) =
     (case evaluate_one env f of
        Inl err \<Rightarrow> Inl err
      | Inr b \<Rightarrow> if b then evaluate env fs else Inr False)"

section \<open>The router\<close>

type_synonym 'w handler = "envelope_fields \<Rightarrow> 'w \<Rightarrow> (js_error, unit) outcome \<times> 'w"

record 'w content_subscription =
  cs_filters :: "content_filter list"
  cs_handler :: "'w handler"

record 'w content_router =
  ro_subscriptions :: "(int, 'w content_subscription) jsmap"
  ro_next_id :: int

definition router_new :: "'w content_router" where
  "router_new = \<lparr>ro_subscriptions = [], ro_next_id = 1\<rparr>"

text \<open>The key is the number as a text; the numbers are written here.\<close>

definition router_subscribe :: "content_filter list \<Rightarrow> 'w handler \<Rightarrow> 'w content_router \<Rightarrow> int \<times> 'w content_router" where
  "router_subscribe filters handler r =
     (ro_next_id r, r\<lparr>ro_subscriptions := jset (ro_next_id r) \<lparr>cs_filters = filters, cs_handler = handler\<rparr> (ro_subscriptions r),
                     ro_next_id := ro_next_id r + 1\<rparr>)"

definition router_unsubscribe :: "int \<Rightarrow> 'w content_router \<Rightarrow> 'w content_router" where
  "router_unsubscribe i r = r\<lparr>ro_subscriptions := jdelete i (ro_subscriptions r)\<rparr>"

fun route_all :: "'w content_subscription list \<Rightarrow> envelope_fields \<Rightarrow> 'w \<Rightarrow> (js_error, unit) outcome \<times> 'w" where
  "route_all [] env w = (Inr (), w)"
| "route_all (s # ss) env w =
     (case evaluate env (cs_filters s) of
        Inl err \<Rightarrow> (Inl err, w)
      | Inr matched \<Rightarrow>
          if matched
          then (case cs_handler s env w of
                  (Inl err, w1) \<Rightarrow> (Inl err, w1)
                | (Inr _, w1) \<Rightarrow> route_all ss env w1)
          else route_all ss env w)"

definition router_route :: "'w content_router \<Rightarrow> envelope_fields \<Rightarrow> 'w \<Rightarrow> (js_error, unit) outcome \<times> 'w" where
  "router_route r = route_all (jvalues (ro_subscriptions r))"

definition router_subscriber_count :: "'w content_router \<Rightarrow> int" where
  "router_subscriber_count r = jsize (ro_subscriptions r)"

definition router_clear :: "'w content_router \<Rightarrow> 'w content_router" where
  "router_clear r = r\<lparr>ro_subscriptions := []\<rparr>"

section \<open>Comparisons\<close>

lemma strict_eq_sym: "strict_eq a b = strict_eq b a"
  by (induction a b rule: strict_eq.induct) auto

text \<open>
  For a number the order filters are the order of the numbers; a value that is no number, a missing
  one among them, satisfies none of them, and a missing one satisfies \<open>neq\<close> for every value given.
\<close>

theorem comparisons:
  "compare_values (Value (JNum a)) Op_Gt (Value (JNum b)) = (a > b)
   \<and> compare_values (Value (JNum a)) Op_Gte (Value (JNum b)) = (a \<ge> b)
   \<and> compare_values (Value (JNum a)) Op_Lt (Value (JNum b)) = (a < b)
   \<and> compare_values (Value (JNum a)) Op_Lte (Value (JNum b)) = (a \<le> b)
   \<and> (op \<in> {Op_Gt, Op_Gte, Op_Lt, Op_Lte} \<and> (\<nexists>n. v = Value (JNum n)) \<longrightarrow> \<not> compare_values v op e)
   \<and> compare_values v Op_Neq e = (\<not> compare_values v Op_Eq e)
   \<and> compare_values Undefined Op_Neq (Value x)
   \<and> compare_values v Op_In (Value (JArr xs)) = (\<exists>x \<in> set xs. compare_values v Op_Eq (Value x))"
  by (auto simp: compare_values_def compare_numeric_def list_ex_iff strict_eq_sym split: js_value.split json.split)

theorem comparisons_witness:
  "\<not> compare_values (Value (JStr ''9'')) Op_Gt (Value (JNum 5))"
  using comparisons [of 1 2 Op_Gt "Value (JStr ''9'')" "Value (JNum 5)" JNull "[]"] by simp

section \<open>Delivery\<close>

definition wanted :: "envelope_fields \<Rightarrow> 'w content_subscription \<Rightarrow> bool" where
  "wanted env s = (evaluate env (cs_filters s) = Inr True)"

lemma evaluate_true:
  "evaluate env fs = Inr True \<longleftrightarrow> (\<forall>f \<in> set fs. evaluate_one env f = Inr True)"
  by (induction fs) (auto split: sum.splits)

text \<open>
  When no filter and no handler throws, an envelope is given to the subscriptions all of whose
  filters hold, to each once, in the order of the subscriptions.
\<close>

theorem route_delivers:
  assumes "\<forall>s \<in> set (jvalues (ro_subscriptions r)). \<exists>b. evaluate env (cs_filters s) = Inr b"
    and "\<forall>s \<in> set (jvalues (ro_subscriptions r)). \<forall>w. fst (cs_handler s env w) = Inr ()"
  shows "router_route r env w =
    (Inr (), foldl (\<lambda>w s. snd (cs_handler s env w)) w (filter (wanted env) (jvalues (ro_subscriptions r))))"
proof -
  have "route_all ss env w = (Inr (), foldl (\<lambda>w s. snd (cs_handler s env w)) w (filter (wanted env) ss))"
    if "\<forall>s \<in> set ss. \<exists>b. evaluate env (cs_filters s) = Inr b"
      and "\<forall>s \<in> set ss. \<forall>w. fst (cs_handler s env w) = Inr ()" for ss
    using that
  proof (induction ss arbitrary: w)
    case (Cons s ss)
    then obtain b where b: "evaluate env (cs_filters s) = Inr b" by auto
    have h: "cs_handler s env w = (Inr (), snd (cs_handler s env w))"
      using Cons.prems(2) by (metis list.set_intros(1) prod.collapse)
    from Cons b show ?case
      by (cases b) (simp_all add: wanted_def, subst h, simp)
  qed simp
  with assms show ?thesis by (simp add: router_route_def)
qed

definition noting :: "nat \<Rightarrow> nat list handler" where
  "noting n env w = (Inr (), w @ [n])"

definition amount_over :: "rat \<Rightarrow> content_filter" where
  "amount_over n = \<lparr>cf_field = ''amount'', cf_op = Op_Gt, cf_value = Value (JNum n), cf_extract = None\<rparr>"

definition demo_router :: "nat list content_router" where
  "demo_router = snd (router_subscribe [amount_over 10] (noting 2)
     (snd (router_subscribe [amount_over 1] (noting 1) router_new)))"

lemma demo_subscriptions:
  "jvalues (ro_subscriptions demo_router) = [\<lparr>cs_filters = [amount_over 1], cs_handler = noting 1\<rparr>,
     \<lparr>cs_filters = [amount_over 10], cs_handler = noting 2\<rparr>]"
  by (simp add: demo_router_def router_subscribe_def router_new_def)

theorem route_delivers_witness:
  "router_route demo_router [(''payload'', JObj [(''amount'', JNum 7)])] [] = (Inr (), [1])"
proof -
  have e: "evaluate [(''payload'', JObj [(''amount'', JNum 7)])] [amount_over n] = Inr (7 > n)" for n
    by (simp add: evaluate_one_def get_field_def amount_over_def object_member_def Let_def compare_values_def compare_numeric_def)
  show ?thesis
    by (subst route_delivers) (auto simp: demo_subscriptions e wanted_def noting_def simp del: evaluate.simps)
qed

text \<open>
  The first filter or handler that throws ends the delivery: the subscriptions after it see nothing
  and the promise rejects with its error.
\<close>

theorem route_stops_at_error:
  assumes "jvalues (ro_subscriptions r) = ss @ s # rest"
    and "\<forall>t \<in> set ss. \<exists>b. evaluate env (cs_filters t) = Inr b"
    and "\<forall>t \<in> set ss. \<forall>w. fst (cs_handler t env w) = Inr ()"
    and "wanted env s" and "\<forall>w. fst (cs_handler s env w) = Inl err"
  shows "fst (router_route r env w) = Inl err
    \<and> snd (router_route r env w) =
        foldl (\<lambda>w t. snd (cs_handler t env w)) w (filter (wanted env) ss @ [s])"
proof -
  have "route_all (ss @ s # rest) env w =
      (Inl err, foldl (\<lambda>w t. snd (cs_handler t env w)) w (filter (wanted env) ss @ [s]))"
    using assms(2,3)
  proof (induction ss arbitrary: w)
    case Nil
    have "cs_handler s env w = (Inl err, snd (cs_handler s env w))" using assms(5) by (metis prod.collapse)
    with assms(4) show ?case by (simp add: wanted_def) (metis (mono_tags, lifting) case_prod_conv old.sum.simps(5))
  next
    case (Cons t ts)
    then obtain b where b: "evaluate env (cs_filters t) = Inr b" by auto
    have h: "cs_handler t env w = (Inr (), snd (cs_handler t env w))"
      using Cons.prems(2) by (metis list.set_intros(1) prod.collapse)
    from Cons b show ?case
      by (cases b) (simp_all add: wanted_def, subst h, simp)
  qed
  with assms(1) show ?thesis by (simp add: router_route_def)
qed

text \<open>
  An envelope whose payload is \<open>null\<close> makes every filter on a field throw, so nobody after the first
  such subscription, whatever its field, receives it.
\<close>

theorem null_payload_rejects:
  assumes "jvalues (ro_subscriptions r) = s # rest" and "cs_filters s = f # fs" and "cf_extract f = None"
    and "jget env ''payload'' = Some JNull"
  shows "\<exists>err. router_route r env w = (Inl err, w) \<and> error_name err = ''TypeError''"
  using assms by (simp add: router_route_def evaluate_one_def get_field_def Let_def)

theorem null_payload_rejects_witness:
  "\<exists>err. router_route demo_router [(''payload'', JNull)] [] = (Inl err, []) \<and> error_name err = ''TypeError''"
  by (rule null_payload_rejects [where f = "amount_over 1" and fs = "[]", OF demo_subscriptions])
     (simp_all add: amount_over_def)

section \<open>Subscriptions\<close>

datatype 'w router_call = Subscribe "content_filter list" "'w handler" | Unsubscribe int | Clear_All

fun router_step :: "'w content_router \<Rightarrow> 'w router_call \<Rightarrow> 'w content_router" where
  "router_step r (Subscribe fs h) = snd (router_subscribe fs h r)"
| "router_step r (Unsubscribe i) = router_unsubscribe i r"
| "router_step r Clear_All = router_clear r"

definition router_inv :: "'w content_router \<Rightarrow> bool" where
  "router_inv r \<longleftrightarrow> jwf (ro_subscriptions r) \<and> (\<forall>i \<in> set (jkeys (ro_subscriptions r)). i < ro_next_id r)"

lemma router_inv_step: "router_inv r \<Longrightarrow> router_inv (router_step r c)"
  by (cases c)
     (auto simp: router_inv_def router_subscribe_def router_unsubscribe_def router_clear_def jkeys_jset jkeys_jdelete
       intro: inv_intros less_trans)

interpretation content_router: invariant_machine router_step router_inv
  by unfold_locales (rule router_inv_step)

text \<open>
  After any calls, a subscription gets a number that no other has, is the last to be served, and
  unsubscribing with it takes away exactly it.
\<close>

theorem subscription_is_own:
  fixes cs :: "'w router_call list"
  defines "r \<equiv> foldl router_step router_new cs"
  shows "router_unsubscribe (fst (router_subscribe fs h r)) (snd (router_subscribe fs h r)) = r\<lparr>ro_next_id := ro_next_id r + 1\<rparr>
    \<and> jvalues (ro_subscriptions (snd (router_subscribe fs h r)))
        = jvalues (ro_subscriptions r) @ [\<lparr>cs_filters = fs, cs_handler = h\<rparr>]"
proof -
  have "router_inv (router_new :: 'w content_router)" by (simp add: router_inv_def router_new_def)
  then have "router_inv r" unfolding r_def by (rule content_router.run_keeps)
  then have fresh: "\<not> jhas (ro_subscriptions r) (ro_next_id r)" by (auto simp: router_inv_def jhas_def dest: map_of_SomeD)
  have del: "jdelete k (m @ [(k, v)]) = m" if "\<not> jhas m k" for k v and m :: "(int, 'w content_subscription) jsmap"
    using that by (induction m) (auto simp: jhas_def split: if_splits)
  from fresh show ?thesis
    by (simp add: router_subscribe_def router_unsubscribe_def jset_absent del)
qed

end
