(* ===== verification/Query_Planner.thy ===== *)
theory Query_Planner
  imports Regex "HOL-Library.Sublist"
begin

text \<open>
  \<open>packages/persistence/src/query/QueryPlanner.ts\<close>: slow queries, index recommendations, plans.
\<close>

section \<open>The planner\<close>

record slow_log =
  sl_query :: string
  sl_duration_ms :: rat
  sl_table :: string
  sl_timestamp :: int

record grouped_slow =
  gs_table :: string
  gs_columns :: "string list"
  gs_avg_duration_ms :: rat

record index_recommendation =
  ix_table :: string
  ix_columns :: "string list"
  ix_reason :: string
  ix_estimated_improvement_ms :: int

record plan_step =
  qs_operation :: string
  qs_table :: "string option"
  qs_cost :: rat
  qs_rows :: "rat option"

record query_plan =
  qp_query :: string
  qp_total_cost :: rat
  qp_steps :: "plan_step list"

definition record_slow_query :: "int \<Rightarrow> string \<Rightarrow> rat \<Rightarrow> string \<Rightarrow> slow_log list \<Rightarrow> slow_log list" where
  "record_slow_query now query duration table logs =
     logs @ [\<lparr>sl_query = query, sl_duration_ms = duration, sl_table = table, sl_timestamp = now\<rparr>]"

definition planner_clear :: "slow_log list \<Rightarrow> slow_log list" where "planner_clear logs = []"

definition get_slow_logs :: "slow_log list \<Rightarrow> slow_log list" where "get_slow_logs logs = logs"

text \<open>\<open>/where\s+(\w+)\s*=/gi\<close>.\<close>

definition where_rx :: rx where
  "where_rx = seq_rx [lit_i ''where'', plus_rx space_rx, Group 1 (plus_rx word_rx), Rep space_rx, lit_char CHR ''='']"

definition extract_columns :: "string \<Rightarrow> string list" where
  "extract_columns query = map to_lower (List.map_filter (\<lambda>st. jget (fst st) 1) (rx_all where_rx query))"

definition add_new :: "string list \<Rightarrow> string \<Rightarrow> string list" where
  "add_new cols c = (if c \<in> set cols then cols else cols @ [c])"

definition group_log :: "(string, rat list \<times> string list) jsmap \<Rightarrow> slow_log \<Rightarrow> (string, rat list \<times> string list) jsmap" where
  "group_log m l =
     (let (durations, columns) = (case jget m (sl_table l) of None \<Rightarrow> ([], []) | Some e \<Rightarrow> e)
      in jset (sl_table l) (durations @ [sl_duration_ms l], foldl add_new columns (extract_columns (sl_query l))) m)"

definition group_by_table_and_columns :: "slow_log list \<Rightarrow> grouped_slow list" where
  "group_by_table_and_columns logs =
     map (\<lambda>(table, durations, columns). \<lparr>gs_table = table, gs_columns = columns,
            gs_avg_duration_ms = foldl (+) 0 durations / of_nat (length durations)\<rparr>)
         (foldl group_log [] logs)"

definition js_round :: "rat \<Rightarrow> int" where "js_round x = \<lfloor>x + 1 / 2\<rfloor>"

definition build_recommendation :: "grouped_slow \<Rightarrow> index_recommendation" where
  "build_recommendation g = \<lparr>ix_table = gs_table g,
     ix_columns = (if length (gs_columns g) > 0 then gs_columns g else [''id'']),
     ix_reason = ''Avg query duration '' @ show_int (js_round (gs_avg_duration_ms g)) @ ''ms on '' @ gs_table g,
     ix_estimated_improvement_ms = js_round (gs_avg_duration_ms g * 7 / 10)\<rparr>"

definition recommend_indexes :: "rat \<Rightarrow> slow_log list \<Rightarrow> index_recommendation list" where
  "recommend_indexes threshold logs =
     map build_recommendation (group_by_table_and_columns (filter (\<lambda>l. sl_duration_ms l > threshold) logs))"

definition build_steps :: "string \<Rightarrow> string \<Rightarrow> rat option \<Rightarrow> plan_step list" where
  "build_steps query table estimated =
     (let rows = (case estimated of None \<Rightarrow> 1000 | Some n \<Rightarrow> n);
          scan = \<lparr>qs_operation = ''Seq Scan'', qs_table = Some table, qs_cost = rows, qs_rows = Some rows\<rparr>
      in if \<not> sublist ''where'' (to_lower query) then [scan]
         else [scan, \<lparr>qs_operation = ''Filter'', qs_table = None, qs_cost = of_int (js_round (rows / 10)), qs_rows = None\<rparr>])"

definition build_plan :: "string \<Rightarrow> string \<Rightarrow> rat option \<Rightarrow> query_plan" where
  "build_plan query table estimated =
     (let steps = build_steps query table estimated
      in \<lparr>qp_query = query, qp_total_cost = foldl (\<lambda>s st. s + qs_cost st) 0 steps, qp_steps = steps\<rparr>)"

section \<open>Groups\<close>

definition table_logs :: "slow_log list \<Rightarrow> string \<Rightarrow> slow_log list" where
  "table_logs logs t = filter (\<lambda>l. sl_table l = t) logs"

definition columns_of :: "slow_log list \<Rightarrow> string list" where
  "columns_of logs = foldl add_new [] (concat (map (\<lambda>l. extract_columns (sl_query l)) logs))"

lemma set_add_new: "set (foldl add_new cols cs) = set cols \<union> set cs"
  by (induction cs arbitrary: cols) (auto simp: add_new_def)

lemma distinct_add_new: "distinct cols \<Longrightarrow> distinct (foldl add_new cols cs)"
  by (induction cs arbitrary: cols) (auto simp: add_new_def)

lemma grouped_table:
  "jget (foldl group_log [] logs) t =
     (if table_logs logs t = [] then None
      else Some (map sl_duration_ms (table_logs logs t), columns_of (table_logs logs t)))"
proof (induction logs rule: rev_induct)
  case (snoc l logs)
  have step: "table_logs (logs @ [l]) t = table_logs logs t @ (if sl_table l = t then [l] else [])"
    by (simp add: table_logs_def)
  have cols: "columns_of (ls @ [l]) = foldl add_new (columns_of ls) (extract_columns (sl_query l))" for ls
    by (simp add: columns_of_def)
  show ?case
  proof (cases "sl_table l = t")
    case True
    with snoc step cols [of "table_logs logs t"] show ?thesis
      by (simp add: group_log_def columns_of_def [of "[]"])
  next
    case False
    with snoc step show ?thesis by (simp add: group_log_def split: prod.split)
  qed
qed (simp add: table_logs_def)

lemma grouped_wf: "jwf (foldl group_log [] logs)"
proof -
  have "jwf m \<Longrightarrow> jwf (foldl group_log m logs)" for m
    by (induction logs arbitrary: m) (auto simp: group_log_def Let_def intro: inv_intros split: prod.split)
  then show ?thesis by simp
qed

lemma foldl_plus: "foldl (+) (a :: rat) xs = a + sum_list xs"
  by (induction xs arbitrary: a) (simp_all add: add.assoc)

lemma average_bounds:
  fixes xs :: "rat list"
  assumes "xs \<noteq> []" and "\<And>x. x \<in> set xs \<Longrightarrow> lo \<le> x \<and> x \<le> hi"
  shows "lo \<le> sum_list xs / of_nat (length xs) \<and> sum_list xs / of_nat (length xs) \<le> hi"
proof -
  have "of_nat (length xs) * lo \<le> sum_list xs \<and> sum_list xs \<le> of_nat (length xs) * hi"
    using assms(2) by (induction xs) (auto simp: algebra_simps add_mono)
  moreover have "0 < (of_nat (length xs) :: rat)" using assms(1) by simp
  ultimately show ?thesis by (simp add: field_simps)
qed

lemma js_round_mono: "x \<le> y \<Longrightarrow> js_round x \<le> js_round y"
  by (simp add: js_round_def floor_mono)

definition table_group :: "slow_log list \<Rightarrow> string \<Rightarrow> grouped_slow" where
  "table_group logs t = \<lparr>gs_table = t, gs_columns = columns_of (table_logs logs t),
     gs_avg_duration_ms = sum_list (map sl_duration_ms (table_logs logs t)) / of_nat (length (table_logs logs t))\<rparr>"

lemma groups_exact:
  "group_by_table_and_columns logs = map (table_group logs) (jkeys (foldl group_log [] logs))"
  "set (jkeys (foldl group_log [] logs)) = sl_table ` set logs"
proof -
  have "(\<lambda>(table, durations, columns). \<lparr>gs_table = table, gs_columns = columns,
            gs_avg_duration_ms = foldl (+) 0 durations / of_nat (length durations)\<rparr>) e = table_group logs (fst e)"
    if "e \<in> set (foldl group_log [] logs)" for e
  proof -
    obtain t d c where e: "e = (t, d, c)" by (cases e) auto
    with that have "jget (foldl group_log [] logs) t = Some (d, c)" by (simp add: jget_iff_entry [OF grouped_wf])
    then have "d = map sl_duration_ms (table_logs logs t)" "c = columns_of (table_logs logs t)"
      unfolding grouped_table by (auto split: if_splits)
    with e show ?thesis by (simp add: table_group_def foldl_plus)
  qed
  then show "group_by_table_and_columns logs = map (table_group logs) (jkeys (foldl group_log [] logs))"
    by (simp add: group_by_table_and_columns_def)
  have "t \<in> set (jkeys (foldl group_log [] logs)) \<longleftrightarrow> table_logs logs t \<noteq> []" for t
    using grouped_table [of logs t] map_of_eq_None_iff [of "foldl group_log [] logs" t] by (auto split: if_splits)
  then show "set (jkeys (foldl group_log [] logs)) = sl_table ` set logs"
    by (fastforce simp: table_logs_def filter_empty_conv image_iff)
qed

lemma columns_of_props:
  "distinct (columns_of ls)" "set (columns_of ls) = (\<Union>l \<in> set ls. set (extract_columns (sl_query l)))"
  by (simp_all add: columns_of_def distinct_add_new set_add_new)

text \<open>
  There is one recommendation for each table with a query slower than the threshold and none for
  others; it names the columns of those queries once each, or \<open>id\<close> when none was found, and expects
  to save at most what the slowest of them takes.
\<close>

theorem recommendations_exact:
  fixes logs threshold
  defines "slow \<equiv> filter (\<lambda>l. sl_duration_ms l > threshold) logs"
  shows "distinct (map ix_table (recommend_indexes threshold logs))
    \<and> set (map ix_table (recommend_indexes threshold logs)) = sl_table ` set slow
    \<and> (\<forall>r \<in> set (recommend_indexes threshold logs).
        distinct (ix_columns r) \<and>
        set (ix_columns r) =
          (let cs = (\<Union>l \<in> set (table_logs slow (ix_table r)). set (extract_columns (sl_query l)))
           in if cs = {} then {''id''} else cs) \<and>
        (\<forall>hi. (\<forall>l \<in> set (table_logs slow (ix_table r)). sl_duration_ms l \<le> hi) \<and> 0 \<le> threshold \<longrightarrow>
           ix_estimated_improvement_ms r \<le> js_round hi))"
proof -
  have rs: "recommend_indexes threshold logs
      = map (\<lambda>t. build_recommendation (table_group slow t)) (jkeys (foldl group_log [] slow))"
    by (simp add: recommend_indexes_def slow_def groups_exact(1))
  have tables: "map ix_table (recommend_indexes threshold logs) = jkeys (foldl group_log [] slow)"
    by (simp add: rs build_recommendation_def table_group_def)
  have each: "distinct (ix_columns r) \<and> set (ix_columns r) =
        (let cs = (\<Union>l \<in> set (table_logs slow (ix_table r)). set (extract_columns (sl_query l)))
         in if cs = {} then {''id''} else cs) \<and>
      (\<forall>hi. (\<forall>l \<in> set (table_logs slow (ix_table r)). sl_duration_ms l \<le> hi) \<and> 0 \<le> threshold \<longrightarrow>
         ix_estimated_improvement_ms r \<le> js_round hi)"
    if "r \<in> set (recommend_indexes threshold logs)" for r
  proof -
    from that obtain t where t: "r = build_recommendation (table_group slow t)" "t \<in> set (jkeys (foldl group_log [] slow))"
      unfolding rs by auto
    let ?ls = "table_logs slow t"
    have table: "ix_table r = t" by (simp add: t(1) build_recommendation_def table_group_def)
    have cols: "ix_columns r = (if columns_of ?ls = [] then [''id''] else columns_of ?ls)"
      by (simp add: t(1) build_recommendation_def table_group_def)
    have "ix_estimated_improvement_ms r \<le> js_round hi"
      if hi: "\<forall>l \<in> set ?ls. sl_duration_ms l \<le> hi" and "0 \<le> threshold" for hi
    proof -
      have ne: "map sl_duration_ms ?ls \<noteq> []"
        using t(2) unfolding groups_exact(2) by (auto simp: table_logs_def filter_empty_conv)
      have lo: "\<And>x. x \<in> set (map sl_duration_ms ?ls) \<Longrightarrow> 0 \<le> x \<and> x \<le> hi"
        using hi \<open>0 \<le> threshold\<close> by (auto simp: table_logs_def slow_def)
      from average_bounds [OF ne lo]
      have "0 \<le> gs_avg_duration_ms (table_group slow t) \<and> gs_avg_duration_ms (table_group slow t) \<le> hi"
        by (simp add: table_group_def)
      then have "gs_avg_duration_ms (table_group slow t) * 7 / 10 \<le> hi" by linarith
      from js_round_mono [OF this] show ?thesis by (simp add: t(1) build_recommendation_def)
    qed
    moreover have "distinct (ix_columns r)" using columns_of_props(1) [of ?ls] by (simp add: cols)
    moreover have "set (ix_columns r) = (let cs = (\<Union>l \<in> set ?ls. set (extract_columns (sl_query l)))
         in if cs = {} then {''id''} else cs)"
      unfolding cols Let_def columns_of_props(2) [of ?ls, symmetric] by simp
    ultimately show ?thesis unfolding table by blast
  qed
  show ?thesis
    unfolding tables using each grouped_wf [of slow] groups_exact(2) [of slow] by simp
qed

lemma documented_columns: "extract_columns ''SELECT * FROM orders WHERE customer_id = ?'' = [''customer_id'']"
  by code_simp

theorem recommendations_exact_witness:
  "ix_estimated_improvement_ms (hd (recommend_indexes 500 (record_slow_query 1 ''SELECT * FROM orders WHERE customer_id = ?'' 850 ''orders'' [])))
     \<le> js_round 850"
proof -
  define logs where "logs = record_slow_query 1 ''SELECT * FROM orders WHERE customer_id = ?'' 850 ''orders'' []"
  let ?r = "hd (recommend_indexes 500 logs)"
  have logs: "\<forall>l \<in> set logs. sl_duration_ms l \<le> 850" "filter (\<lambda>l. sl_duration_ms l > 500) logs = logs" "logs \<noteq> []"
    by (simp_all add: logs_def record_slow_query_def)
  note exact = recommendations_exact [of 500 logs, unfolded logs(2)]
  from exact logs(3) have "recommend_indexes 500 logs \<noteq> []" by fastforce
  then have r: "?r \<in> set (recommend_indexes 500 logs)" by simp
  have le: "\<forall>l \<in> set (table_logs logs (ix_table ?r)). sl_duration_ms l \<le> 850"
    using logs(1) by (simp add: table_logs_def)
  have "(\<forall>l \<in> set (table_logs logs (ix_table ?r)). sl_duration_ms l \<le> 850) \<and> 0 \<le> (500 :: rat)
      \<longrightarrow> ix_estimated_improvement_ms ?r \<le> js_round 850"
    using exact r by blast
  with le show ?thesis by (simp add: logs_def)
qed

text \<open>
  Of a conjunction only the column that stands right after \<open>WHERE\<close> is found, and of a query whose
  operator is not \<open>=\<close> none.
\<close>

theorem columns_found:
  "extract_columns ''SELECT * FROM orders WHERE customer_id = ?'' = [''customer_id'']
   \<and> extract_columns ''select * from t where A = 1 and b = 2'' = [''a'']
   \<and> extract_columns ''select * from t where a > 1'' = []"
  using documented_columns by (intro conjI) code_simp+

text \<open>A plan scans the table, filters after it when the text has \<open>where\<close>, and costs what its steps do.\<close>

theorem plan_shape:
  "qp_total_cost (build_plan q t n) = sum_list (map qs_cost (qp_steps (build_plan q t n)))
   \<and> map qs_operation (qp_steps (build_plan q t n))
       = ''Seq Scan'' # (if sublist ''where'' (to_lower q) then [''Filter''] else [])
   \<and> qs_cost (hd (qp_steps (build_plan q t n))) = (case n of None \<Rightarrow> 1000 | Some k \<Rightarrow> k)"
  by (simp add: build_plan_def build_steps_def Let_def)

end
