(* ===== verification/Redis_Adapters.thy ===== *)
theory Redis_Adapters
  imports Prelude Json
begin

text \<open>
  \<open>packages/cache-redis/src\<close>: the cache, the lock and the publish-subscribe coordinator over a Redis
  client, and the connection's health check.

  The client is a parameter: its commands are functions of the time and the state of the server.
  What the lock relies on is stated as laws of the commands, those the Redis documentation gives for
  \<open>SET key value NX PX ms\<close> and \<open>DEL\<close>.
\<close>

section \<open>Clients\<close>

datatype set_option = Opt_NX | Opt_PX int

record 'r redis_client =
  rc_get :: "int \<Rightarrow> string \<Rightarrow> 'r \<Rightarrow> (js_error, string option) outcome \<times> 'r"
  rc_set :: "int \<Rightarrow> string \<Rightarrow> string \<Rightarrow> set_option list \<Rightarrow> 'r \<Rightarrow> (js_error, string option) outcome \<times> 'r"
  rc_del :: "int \<Rightarrow> string \<Rightarrow> 'r \<Rightarrow> (js_error, int) outcome \<times> 'r"
  rc_exists :: "int \<Rightarrow> string \<Rightarrow> 'r \<Rightarrow> (js_error, int) outcome \<times> 'r"

section \<open>The cache\<close>

text \<open>\<open>JSON.stringify\<close> and \<open>JSON.parse\<close> are arguments.\<close>

definition redis_cache_get :: "'r redis_client \<Rightarrow> (string \<Rightarrow> (js_error, json) outcome) \<Rightarrow> int \<Rightarrow> string \<Rightarrow> 'r
    \<Rightarrow> (js_error, json option) outcome \<times> 'r" where
  "redis_cache_get c parse now key r =
     (case rc_get c now key r of
        (Inl err, r1) \<Rightarrow> (Inl err, r1)
      | (Inr None, r1) \<Rightarrow> (Inr None, r1)
      | (Inr (Some raw), r1) \<Rightarrow> (map_sum id Some (parse raw), r1))"

definition redis_cache_set :: "'r redis_client \<Rightarrow> (json \<Rightarrow> string) \<Rightarrow> int \<Rightarrow> string \<Rightarrow> json \<Rightarrow> int option \<Rightarrow> 'r
    \<Rightarrow> (js_error, unit) outcome \<times> 'r" where
  "redis_cache_set c stringify now key v ttl r =
     (let (res, r1) = rc_set c now key (stringify v) (case ttl of None \<Rightarrow> [] | Some ms \<Rightarrow> [Opt_PX ms]) r
      in (map_sum id (\<lambda>_. ()) res, r1))"

definition redis_cache_delete :: "'r redis_client \<Rightarrow> int \<Rightarrow> string \<Rightarrow> 'r \<Rightarrow> (js_error, unit) outcome \<times> 'r" where
  "redis_cache_delete c now key r = (let (res, r1) = rc_del c now key r in (map_sum id (\<lambda>_. ()) res, r1))"

definition redis_cache_has :: "'r redis_client \<Rightarrow> int \<Rightarrow> string \<Rightarrow> 'r \<Rightarrow> (js_error, bool) outcome \<times> 'r" where
  "redis_cache_has c now key r = (let (res, r1) = rc_exists c now key r in (map_sum id (\<lambda>n. n > 0) res, r1))"

section \<open>The lock\<close>

definition default_ttl_ms :: int where "default_ttl_ms = 30000"

definition lock_acquire :: "'r redis_client \<Rightarrow> int \<Rightarrow> int \<Rightarrow> string \<Rightarrow> string \<Rightarrow> int option \<Rightarrow> 'r
    \<Rightarrow> (js_error, bool) outcome \<times> 'r" where
  "lock_acquire c default_ttl now key v ttl r =
     (let (res, r1) = rc_set c now key v [Opt_NX, Opt_PX (case ttl of None \<Rightarrow> default_ttl | Some ms \<Rightarrow> ms)] r
      in (map_sum id (\<lambda>x. x = Some ''OK'') res, r1))"

definition lock_release :: "'r redis_client \<Rightarrow> int \<Rightarrow> string \<Rightarrow> 'r \<Rightarrow> (js_error, unit) outcome \<times> 'r" where
  "lock_release c now key r = (let (res, r1) = rc_del c now key r in (map_sum id (\<lambda>_. ()) res, r1))"

definition redis_lock_error :: "string \<Rightarrow> js_error" where
  "redis_lock_error key = JsError ''RedisLockError'' (''Could not acquire lock: '' @ key)"

text \<open>
  \<open>withLock\<close> at the time it is called; the work takes the state of the server and gives it back, with
  its outcome and the time at which it is over.  An error of the release replaces the outcome.
\<close>

definition with_lock :: "'r redis_client \<Rightarrow> int \<Rightarrow> int \<Rightarrow> string \<Rightarrow> ('r \<Rightarrow> ((js_error, 'a) outcome \<times> int) \<times> 'r) \<Rightarrow> int option \<Rightarrow> 'r
    \<Rightarrow> (js_error, 'a) outcome \<times> 'r" where
  "with_lock c default_ttl now key work ttl r =
     (case lock_acquire c default_ttl now key (key @ ''-'' @ show_int now) ttl r of
        (Inl err, r1) \<Rightarrow> (Inl err, r1)
      | (Inr acquired, r1) \<Rightarrow>
          if \<not> acquired then (Inl (redis_lock_error key), r1)
          else (case work r1 of
                  ((res, later), r2) \<Rightarrow>
                    (case lock_release c later key r2 of
                       (Inl err, r3) \<Rightarrow> (Inl err, r3)
                     | (Inr _, r3) \<Rightarrow> (res, r3))))"

section \<open>Publish and subscribe\<close>

text \<open>
  Handlers are numbered; a set is the list of its members in the order added.  The answer of the
  subscriber connection to a command is an argument, and the commands sent are listed.
\<close>

datatype pubsub_command = Send_Subscribe string | Send_Unsubscribe string

type_synonym pubsub = "(string, nat list) jsmap"

definition add_member :: "nat \<Rightarrow> nat list \<Rightarrow> nat list" where
  "add_member h hs = (if h \<in> set hs then hs else hs @ [h])"

definition pubsub_subscribe :: "(js_error, unit) outcome \<Rightarrow> string \<Rightarrow> nat \<Rightarrow> pubsub
    \<Rightarrow> (js_error, unit) outcome \<times> pubsub_command list \<times> pubsub" where
  "pubsub_subscribe reply channel h m =
     (case jget m channel of
        None \<Rightarrow> (reply, [Send_Subscribe channel], jset channel [h] m)
      | Some hs \<Rightarrow> (Inr (), [], jset channel (add_member h hs) m))"

definition pubsub_unsubscribe :: "(js_error, unit) outcome \<Rightarrow> string \<Rightarrow> nat option \<Rightarrow> pubsub
    \<Rightarrow> (js_error, unit) outcome \<times> pubsub_command list \<times> pubsub" where
  "pubsub_unsubscribe reply channel h m =
     (case jget m channel of
        None \<Rightarrow> (Inr (), [], m)
      | Some hs \<Rightarrow>
          (let left = (case h of Some x \<Rightarrow> filter (\<lambda>y. y \<noteq> x) hs | None \<Rightarrow> [])
           in if left = [] then (reply, [Send_Unsubscribe channel], jdelete channel m)
              else (Inr (), [], jset channel left m)))"

definition handler_count :: "string \<Rightarrow> pubsub \<Rightarrow> nat" where
  "handler_count channel m = (case jget m channel of None \<Rightarrow> 0 | Some hs \<Rightarrow> length hs)"

text \<open>\<open>forEach\<close> over the handlers of the channel; one that throws ends it.\<close>

fun call_handlers :: "(nat \<Rightarrow> string \<Rightarrow> 'w \<Rightarrow> (js_error, unit) outcome \<times> 'w) \<Rightarrow> string \<Rightarrow> nat list \<Rightarrow> 'w
    \<Rightarrow> (js_error, unit) outcome \<times> 'w" where
  "call_handlers run msg [] w = (Inr (), w)"
| "call_handlers run msg (h # hs) w =
     (case run h msg w of
        (Inl err, w1) \<Rightarrow> (Inl err, w1)
      | (Inr _, w1) \<Rightarrow> call_handlers run msg hs w1)"

definition pubsub_dispatch :: "(nat \<Rightarrow> string \<Rightarrow> 'w \<Rightarrow> (js_error, unit) outcome \<times> 'w) \<Rightarrow> string \<Rightarrow> string \<Rightarrow> pubsub \<Rightarrow> 'w
    \<Rightarrow> (js_error, unit) outcome \<times> 'w" where
  "pubsub_dispatch run channel msg m w =
     (case jget m channel of None \<Rightarrow> (Inr (), w) | Some hs \<Rightarrow> call_handlers run msg hs w)"

section \<open>The connection\<close>

record redis_health =
  rh_ok :: bool
  rh_latency_ms :: int
  rh_message :: "string option"

definition redis_health_check :: "int \<Rightarrow> int \<Rightarrow> (js_error, string) outcome \<Rightarrow> redis_health" where
  "redis_health_check start stop ping =
     (case ping of
        Inr _ \<Rightarrow> \<lparr>rh_ok = True, rh_latency_ms = stop - start, rh_message = None\<rparr>
      | Inl err \<Rightarrow> \<lparr>rh_ok = False, rh_latency_ms = stop - start, rh_message = Some (error_message err)\<rparr>)"

section \<open>What the lock relies on\<close>

text \<open>\<open>live r t key\<close> is the value the server has for the key at the time.\<close>

definition redis_lock_laws :: "'r redis_client \<Rightarrow> ('r \<Rightarrow> int \<Rightarrow> string \<Rightarrow> string option) \<Rightarrow> bool" where
  "redis_lock_laws c live \<longleftrightarrow>
     (\<forall>now key v ms r. live r now key = None \<longrightarrow>
        (\<exists>r1. rc_set c now key v [Opt_NX, Opt_PX ms] r = (Inr (Some ''OK''), r1) \<and>
           (\<forall>t k. now \<le> t \<longrightarrow> live r1 t k = (if k = key then (if t < now + ms then Some v else None) else live r t k))))
     \<and> (\<forall>now key v ms r. live r now key \<noteq> None \<longrightarrow>
          (\<exists>r1. rc_set c now key v [Opt_NX, Opt_PX ms] r = (Inr None, r1) \<and> (\<forall>t k. now \<le> t \<longrightarrow> live r1 t k = live r t k)))
     \<and> (\<forall>now key r. \<exists>n r1. rc_del c now key r = (Inr n, r1) \<and>
          (\<forall>t k. now \<le> t \<longrightarrow> live r1 t k = (if k = key then None else live r t k)))"

text \<open>A server in memory, which keeps the laws.\<close>

type_synonym memory_server = "(string, string \<times> int) jsmap"

definition memory_live :: "memory_server \<Rightarrow> int \<Rightarrow> string \<Rightarrow> string option" where
  "memory_live r t key = (case jget r key of Some (v, e) \<Rightarrow> if t < e then Some v else None | None \<Rightarrow> None)"

definition memory_client :: "memory_server redis_client" where
  "memory_client = \<lparr>
     rc_get = (\<lambda>now key r. (Inr (memory_live r now key), r)),
     rc_set = (\<lambda>now key v opts r.
       (if Opt_NX \<in> set opts \<and> memory_live r now key \<noteq> None then (Inr None, r)
        else (Inr (Some ''OK''), jset key (v, case opts of [Opt_NX, Opt_PX ms] \<Rightarrow> now + ms | [Opt_PX ms] \<Rightarrow> now + ms | _ \<Rightarrow> now) r))),
     rc_del = (\<lambda>now key r. (Inr (if memory_live r now key = None then 0 else 1), jdelete key r)),
     rc_exists = (\<lambda>now key r. (Inr (if memory_live r now key = None then 0 else 1), r))\<rparr>"

lemma memory_laws: "redis_lock_laws memory_client memory_live"
  by (auto simp: redis_lock_laws_def memory_client_def memory_live_def split: option.splits if_splits)

section \<open>Mutual exclusion\<close>

text \<open>
  Clients use one key.  Each attempt to acquire and each release carries the time of the server; the
  ghost state lists who holds a lease and until when: an attempt that returns true adds one, and a
  release by a client takes its own away.
\<close>

datatype lock_event = Try nat string int | Free nat

type_synonym leases = "(nat \<times> int) list"

definition lock_step :: "'r redis_client \<Rightarrow> string \<Rightarrow> (int \<times> lock_event) \<Rightarrow> 'r \<times> leases \<Rightarrow> 'r \<times> leases" where
  "lock_step c key te s =
     (case te of
        (now, Try who v ms) \<Rightarrow>
          (let (res, r) = lock_acquire c default_ttl_ms now key v (Some ms) (fst s)
           in (r, if res = Inr True then snd s @ [(who, now + ms)] else snd s))
      | (now, Free who) \<Rightarrow>
          (let (res, r) = lock_release c now key (fst s) in (r, filter (\<lambda>l. fst l \<noteq> who) (snd s))))"

definition held :: "int \<Rightarrow> leases \<Rightarrow> leases" where
  "held t ls = filter (\<lambda>l. t < snd l) ls"

text \<open>A client is disciplined when it releases only a lease of its own that has not run out.\<close>

fun disciplined :: "'r redis_client \<Rightarrow> string \<Rightarrow> (int \<times> lock_event) list \<Rightarrow> 'r \<times> leases \<Rightarrow> bool" where
  "disciplined c key [] s = True"
| "disciplined c key (te # tes) s =
     ((case te of (now, Free who) \<Rightarrow> (\<exists>l \<in> set (held now (snd s)). fst l = who) | _ \<Rightarrow> True)
      \<and> disciplined c key tes (lock_step c key te s))"

definition lock_inv :: "('r \<Rightarrow> int \<Rightarrow> string \<Rightarrow> string option) \<Rightarrow> string \<Rightarrow> int \<Rightarrow> 'r \<times> leases \<Rightarrow> bool" where
  "lock_inv live key now s \<longleftrightarrow>
     (\<forall>t \<ge> now. length (held t (snd s)) \<le> 1 \<and> (held t (snd s) \<noteq> [] \<longrightarrow> live (fst s) t key \<noteq> None))"

lemma held_append: "held t (xs @ ys) = held t xs @ held t ys"
  by (simp add: held_def)

lemma lock_step_inv:
  assumes laws: "redis_lock_laws c live" and inv: "lock_inv live key before s" and le: "before \<le> now"
    and ok: "case e of Free who \<Rightarrow> \<exists>l \<in> set (held now (snd s)). fst l = who | _ \<Rightarrow> True"
  shows "lock_inv live key now (lock_step c key (now, e) s)"
proof (cases e)
  case (Try who v ms)
  show ?thesis
  proof (cases "live (fst s) now key")
    case None
    with laws obtain r where r: "rc_set c now key v [Opt_NX, Opt_PX ms] (fst s) = (Inr (Some ''OK''), r)"
      "\<And>t. now \<le> t \<Longrightarrow> live r t key = (if t < now + ms then Some v else None)"
      unfolding redis_lock_laws_def by (metis (no_types, lifting))
    have "held now (snd s) = []" using inv le None unfolding lock_inv_def by auto
    then have none: "held t (snd s) = []" if "now \<le> t" for t
      using that by (auto simp: held_def filter_empty_conv)
    have "lock_step c key (now, e) s = (r, snd s @ [(who, now + ms)])"
      by (simp add: lock_step_def Try lock_acquire_def r(1))
    then show ?thesis using none r(2) by (auto simp: lock_inv_def held_append) (simp_all add: held_def)
  next
    case (Some u)
    with laws obtain r where r: "rc_set c now key v [Opt_NX, Opt_PX ms] (fst s) = (Inr None, r)"
      "\<And>t k. now \<le> t \<Longrightarrow> live r t k = live (fst s) t k"
      unfolding redis_lock_laws_def by (metis (no_types, lifting) option.discI)
    have "lock_step c key (now, e) s = (r, snd s)"
      by (simp add: lock_step_def Try lock_acquire_def r(1))
    then show ?thesis using inv le r(2) by (simp add: lock_inv_def)
  qed
next
  case (Free who)
  from laws obtain n r where r: "rc_del c now key (fst s) = (Inr n, r)"
    unfolding redis_lock_laws_def by (metis (no_types, lifting))
  have step: "lock_step c key (now, e) s = (r, filter (\<lambda>l. fst l \<noteq> who) (snd s))"
    by (simp add: lock_step_def Free lock_release_def r)
  from ok Free obtain l where l: "l \<in> set (held now (snd s))" "fst l = who" by auto
  from inv le have "length (held now (snd s)) \<le> 1" by (simp add: lock_inv_def)
  with l(1) have one: "held now (snd s) = [l]" by (cases "held now (snd s)") auto
  have "held t (filter (\<lambda>l. fst l \<noteq> who) (snd s)) = []" if "now \<le> t" for t
  proof -
    have "k = l" if "k \<in> set (snd s)" "t < snd k" for k
    proof -
      have "k \<in> set (held now (snd s))" using that \<open>now \<le> t\<close> by (simp add: held_def)
      with one show ?thesis by simp
    qed
    with l(2) show ?thesis by (auto simp: held_def filter_empty_conv)
  qed
  then show ?thesis by (simp add: step lock_inv_def)
qed

fun lock_run :: "'r redis_client \<Rightarrow> string \<Rightarrow> (int \<times> lock_event) list \<Rightarrow> 'r \<times> leases \<Rightarrow> 'r \<times> leases" where
  "lock_run c key [] s = s"
| "lock_run c key (te # tes) s = lock_run c key tes (lock_step c key te s)"


definition demo_events :: "(int \<times> lock_event) list" where
  "demo_events = [(0, Try 1 ''a'' 10), (5, Try 2 ''b'' 10), (7, Free 1), (8, Try 2 ''b'' 10)]"


text \<open>
  \<open>withLock\<close> is not disciplined: it releases the key whoever holds it.  When the work outlasts the
  lease and another client has acquired the lock meanwhile, the release takes that client's lock
  away, and a third acquires it while the second still holds its lease.
\<close>

theorem outlasting_work_breaks_lock:
  assumes "0 < ms" and "late > start + ms" and "start + ms \<le> between" and "between < late" and "late < between + ms2"
    and "late \<le> again" and "again < between + ms2" and "0 < ms3"
  shows "map fst (held again (snd (lock_run memory_client key
      [(start, Try 1 a ms), (between, Try 2 b ms2), (late, Free 1), (again, Try 3 d ms3)] ([], [])))) = [2, 3]"
  using assms
  by (simp add: lock_step_def lock_acquire_def lock_release_def memory_client_def memory_live_def held_def)

theorem outlasting_work_breaks_lock_witness:
  "map fst (held 40 (snd (lock_run memory_client ''k''
      [(0, Try 1 ''a'' 10), (15, Try 2 ''b'' 100), (30, Free 1), (40, Try 3 ''c'' 100)] ([], [])))) = [2, 3]"
  by (rule outlasting_work_breaks_lock) simp_all

text \<open>
  \<open>withLock\<close> on a free lock runs the work with the lock set, gives the outcome of the work and
  leaves the key free from the end of the work on, whether it failed or not; on a taken lock the work
  does not run and the error is a \<open>RedisLockError\<close>.
\<close>

theorem with_lock_outcome:
  assumes laws: "redis_lock_laws c live"
  shows "(live r now key \<noteq> None \<longrightarrow> fst (with_lock c d now key work ttl r) = Inl (redis_lock_error key))
    \<and> (live r now key = None \<longrightarrow>
        (\<exists>r1. (\<forall>t. now \<le> t \<and> t < now + (case ttl of None \<Rightarrow> d | Some ms \<Rightarrow> ms) \<longrightarrow> live r1 t key \<noteq> None)
           \<and> fst (with_lock c d now key work ttl r) = fst (fst (work r1))
           \<and> (\<forall>t \<ge> snd (fst (work r1)). live (snd (with_lock c d now key work ttl r)) t key = None)))"
proof (intro conjI impI)
  let ?ms = "case ttl of None \<Rightarrow> d | Some ms \<Rightarrow> ms" and ?v = "key @ ''-'' @ show_int now"
  {
    assume "live r now key \<noteq> None"
    with laws obtain r1 where "rc_set c now key ?v [Opt_NX, Opt_PX ?ms] r = (Inr None, r1)"
      unfolding redis_lock_laws_def by (metis (no_types, lifting))
    then show "fst (with_lock c d now key work ttl r) = Inl (redis_lock_error key)"
      by (simp add: with_lock_def lock_acquire_def)
  }
  assume "live r now key = None"
  with laws obtain r1 where r1: "rc_set c now key ?v [Opt_NX, Opt_PX ?ms] r = (Inr (Some ''OK''), r1)"
    "\<And>t. now \<le> t \<Longrightarrow> live r1 t key = (if t < now + ?ms then Some ?v else None)"
    unfolding redis_lock_laws_def by (metis (no_types, lifting))
  obtain res later r2 where w: "work r1 = ((res, later), r2)" by (metis prod.exhaust)
  from laws obtain n r3 where r3: "rc_del c later key r2 = (Inr n, r3)" "\<And>t. later \<le> t \<Longrightarrow> live r3 t key = None"
    unfolding redis_lock_laws_def by (metis (no_types, lifting))
  have run: "with_lock c d now key work ttl r = (res, r3)"
    using r1(1) w r3(1) by (simp add: with_lock_def lock_acquire_def lock_release_def)
  show "\<exists>r1. (\<forall>t. now \<le> t \<and> t < now + ?ms \<longrightarrow> live r1 t key \<noteq> None)
      \<and> fst (with_lock c d now key work ttl r) = fst (fst (work r1))
      \<and> (\<forall>t \<ge> snd (fst (work r1)). live (snd (with_lock c d now key work ttl r)) t key = None)"
    using r1(2) r3(2) by (intro exI [of _ r1]) (simp add: run w)
qed

theorem with_lock_outcome_witness:
  "fst (with_lock memory_client 100 5 ''k'' (\<lambda>r. ((Inr (3 :: int), 9), r)) None []) = Inr 3"
  using with_lock_outcome [OF memory_laws, of "[]" 5 "''k''" 100 "\<lambda>r. ((Inr (3 :: int), 9), r)" None]
  by (simp add: memory_live_def)

section \<open>Channels\<close>

datatype pubsub_call = PS_Subscribe string nat | PS_Unsubscribe string "nat option"

text \<open>The calls with the answers the server gives; the ghost state is the channels it has subscribed.\<close>

definition server_step :: "pubsub_command list \<Rightarrow> string set \<Rightarrow> string set" where
  "server_step cmds s = (case cmds of [Send_Subscribe c] \<Rightarrow> insert c s | [Send_Unsubscribe c] \<Rightarrow> s - {c} | _ \<Rightarrow> s)"

fun pubsub_step :: "pubsub \<times> string set \<Rightarrow> pubsub_call \<Rightarrow> pubsub \<times> string set" where
  "pubsub_step (m, s) (PS_Subscribe c h) =
     (case pubsub_subscribe (Inr ()) c h m of (_, cmds, m1) \<Rightarrow> (m1, server_step cmds s))"
| "pubsub_step (m, s) (PS_Unsubscribe c h) =
     (case pubsub_unsubscribe (Inr ()) c h m of (_, cmds, m1) \<Rightarrow> (m1, server_step cmds s))"

definition pubsub_inv :: "pubsub \<times> string set \<Rightarrow> bool" where
  "pubsub_inv st \<longleftrightarrow> jwf (fst st) \<and> (\<forall>c. c \<in> snd st \<longleftrightarrow> jget (fst st) c \<noteq> None)
     \<and> (\<forall>c hs. jget (fst st) c = Some hs \<longrightarrow> hs \<noteq> [] \<and> distinct hs)"

lemma pubsub_inv_step: "pubsub_inv st \<Longrightarrow> pubsub_inv (pubsub_step st e)"
proof -
  assume inv: "pubsub_inv st"
  obtain m s where st: "st = (m, s)" by (cases st) auto
  show "pubsub_inv (pubsub_step st e)"
  proof (cases e)
    case (PS_Subscribe c h)
    with inv show ?thesis
      by (auto simp: st pubsub_inv_def pubsub_subscribe_def server_step_def add_member_def
          split: option.splits if_splits intro: inv_intros)
  next
    case (PS_Unsubscribe c h)
    with inv show ?thesis
      by (auto simp: st pubsub_inv_def pubsub_unsubscribe_def server_step_def Let_def
          split: option.splits if_splits intro: inv_intros)
  qed
qed

interpretation redis_pubsub: invariant_machine pubsub_step pubsub_inv
  by unfold_locales (rule pubsub_inv_step)

text \<open>
  While the server accepts every command, the connection is subscribed to exactly the channels that
  have a handler, and no channel is kept with none or with one twice.
\<close>

theorem subscribed_channels:
  "pubsub_inv (foldl pubsub_step ([], {}) calls)
   \<and> (c \<in> snd (foldl pubsub_step ([], {}) calls) \<longleftrightarrow> 0 < handler_count c (fst (foldl pubsub_step ([], {}) calls)))"
proof -
  have "pubsub_inv ([], {})" by (simp add: pubsub_inv_def)
  from redis_pubsub.run_keeps [OF this] have inv: "pubsub_inv (foldl pubsub_step ([], {}) calls)" .
  then show ?thesis by (auto simp: pubsub_inv_def handler_count_def split: option.splits)
qed

text \<open>
  The handlers are entered before the server has answered: when it refuses the subscription, the
  caller gets the error, and the next subscription to the channel is accepted without a command, so
  neither handler ever gets a message.
\<close>

theorem refused_subscription_sticks:
  assumes "jget m channel = None" and "pubsub_subscribe (Inl err) channel g m = (res, cmds, m1)"
  shows "res = Inl err \<and> pubsub_subscribe reply channel h m1 = (Inr (), [], jset channel (add_member h [g]) m1)"
  using assms by (auto simp: pubsub_subscribe_def)

theorem refused_subscription_sticks_witness:
  "pubsub_subscribe (Inr ()) ''c'' 2 [(''c'', [1])] = (Inr (), [], [(''c'', [1, 2])])"
  using refused_subscription_sticks [of "[]" "''c''" "plain_error ''down''" 1 "Inl (plain_error ''down'')"
      "[Send_Subscribe ''c'']" "[(''c'', [1])]" "Inr ()" 2]
  by (simp add: pubsub_subscribe_def add_member_def)

text \<open>A message reaches every handler of its channel once, in the order they subscribed, and no other.\<close>

theorem dispatch_reaches:
  assumes "\<forall>h w. fst (run h msg w) = Inr ()"
  shows "pubsub_dispatch run channel msg m w =
    (Inr (), foldl (\<lambda>w h. snd (run h msg w)) w (case jget m channel of None \<Rightarrow> [] | Some hs \<Rightarrow> hs))"
proof -
  have "call_handlers run msg hs w = (Inr (), foldl (\<lambda>w h. snd (run h msg w)) w hs)" for hs
  proof (induction hs arbitrary: w)
    case (Cons h hs)
    have "run h msg w = (Inr (), snd (run h msg w))" using assms by (metis prod.collapse)
    with Cons show ?case by (metis (no_types, lifting) call_handlers.simps(2) case_prod_conv foldl_Cons old.sum.simps(6))
  qed simp
  then show ?thesis by (simp add: pubsub_dispatch_def split: option.split)
qed

theorem dispatch_reaches_witness:
  "pubsub_dispatch (\<lambda>h msg w. (Inr (), w @ [h])) ''c'' ''m'' [(''c'', [1, 2])] [] = (Inr (), [1, 2])"
  by (subst dispatch_reaches) simp_all

section \<open>Cached values\<close>

text \<open>
  What was set is read back until its time to live is over, and nothing after, when printing and
  parsing JSON give a value back and the server keeps what it is given.
\<close>

theorem cached_value_read_back:
  assumes "parse (stringify v) = Inr v"
    and "rc_set c now key (stringify v) [Opt_PX ms] r = (Inr (Some ''OK''), r1)"
    and "\<And>t. now \<le> t \<Longrightarrow> rc_get c t key r1 = (Inr (if t < now + ms then Some (stringify v) else None), r1)"
    and "now \<le> t"
  shows "redis_cache_set c stringify now key v (Some ms) r = (Inr (), r1)
    \<and> redis_cache_get c parse t key r1 = (Inr (if t < now + ms then Some v else None), r1)"
  using assms by (simp add: redis_cache_set_def redis_cache_get_def)

theorem cached_value_read_back_witness:
  "redis_cache_get memory_client (\<lambda>s. Inr JNull) 7 ''k'' [(''k'', ''null'', 15)] = (Inr (Some JNull), [(''k'', ''null'', 15)])"
  using cached_value_read_back [of "\<lambda>s. Inr JNull" "\<lambda>v. ''null''" JNull memory_client 5 "''k''" 10 "[]" "[(''k'', ''null'', 15)]" 7]
  by (simp add: memory_client_def memory_live_def)

end
