(* ===== verification/Object_Storage.thy ===== *)
theory Object_Storage
  imports Url_Params "HOL-Library.Sublist" "HOL-Library.Multiset"
begin

text \<open>
  \<open>packages/storage/src\<close>: the storage port, the adapter in memory, the paths and files of the local
  adapter and the multipart calls of the Google adapter.

  A buffer is a list of bytes.  The clock and the random UUIDs are arguments.  The file system is its
  regular files by path; directories are made as needed and are never in the way.
\<close>

section \<open>Types\<close>

record object_metadata =
  om_key :: string
  om_bucket :: string
  om_size :: int
  om_content_type :: string
  om_last_modified :: int
  om_etag :: "string option"
  om_custom_metadata :: "(string, string) jsmap option"

record upload_options =
  uo_content_type :: "string option"
  uo_custom_metadata :: "(string, string) jsmap option"

datatype object_body = Buffer_Body bytes | Text_Body string

record list_options =
  lo_prefix :: "string option"
  lo_max_keys :: "int option"

record list_result =
  lr_objects :: "object_metadata list"
  lr_is_truncated :: bool
  lr_next_token :: "string option"

datatype signed_operation = Sign_Get | Sign_Put

record multipart_part =
  mp_part_number :: int
  mp_etag :: string

record multipart_info =
  mi_upload_id :: string
  mi_key :: string
  mi_bucket :: string

definition storage_not_found :: "string \<Rightarrow> string \<Rightarrow> js_error" where
  "storage_not_found bucket key = JsError ''StorageNotFoundError'' (''Object not found: '' @ bucket @ ''/'' @ key)"

section \<open>The adapter in memory\<close>

record stored_object =
  st_body :: bytes
  st_metadata :: object_metadata

record multipart_entry =
  me_info :: multipart_info
  me_parts :: "(int, bytes) jsmap"
  me_options :: "upload_options option"

record memory_storage =
  ms_objects :: "(string, stored_object) jsmap"
  ms_multiparts :: "(string, multipart_entry) jsmap"

definition memory_storage_new :: memory_storage where
  "memory_storage_new = \<lparr>ms_objects = [], ms_multiparts = []\<rparr>"

definition to_buffer :: "object_body \<Rightarrow> bytes" where
  "to_buffer body = (case body of Buffer_Body b \<Rightarrow> b | Text_Body s \<Rightarrow> text_encode s)"

definition build_metadata :: "int \<Rightarrow> string \<Rightarrow> string \<Rightarrow> string \<Rightarrow> int \<Rightarrow> upload_options option \<Rightarrow> object_metadata" where
  "build_metadata now uuid bucket key n opts = \<lparr>om_key = key, om_bucket = bucket, om_size = n,
     om_content_type = (case Option.bind opts uo_content_type of None \<Rightarrow> ''application/octet-stream'' | Some t \<Rightarrow> t),
     om_last_modified = now, om_etag = Some uuid, om_custom_metadata = Option.bind opts uo_custom_metadata\<rparr>"

definition merge_multipart_parts :: "multipart_part list \<Rightarrow> (int, bytes) jsmap \<Rightarrow> bytes" where
  "merge_multipart_parts parts buffers =
     concat (map (\<lambda>p. case jget buffers (mp_part_number p) of None \<Rightarrow> [] | Some b \<Rightarrow> b) (sort_key mp_part_number parts))"

definition store_key :: "string \<Rightarrow> string \<Rightarrow> string" where
  "store_key bucket key = bucket @ CHR 0x00 # key"

definition storage_upload :: "int \<Rightarrow> string \<Rightarrow> string \<Rightarrow> string \<Rightarrow> object_body \<Rightarrow> upload_options option
    \<Rightarrow> memory_storage \<Rightarrow> object_metadata \<times> memory_storage" where
  "storage_upload now uuid bucket key body opts s =
     (let buf = to_buffer body; meta = build_metadata now uuid bucket key (int (length buf)) opts
      in (meta, s\<lparr>ms_objects := jset (store_key bucket key) \<lparr>st_body = buf, st_metadata = meta\<rparr> (ms_objects s)\<rparr>))"

definition storage_download :: "string \<Rightarrow> string \<Rightarrow> (int \<times> int) option \<Rightarrow> memory_storage \<Rightarrow> (js_error, bytes) outcome" where
  "storage_download bucket key rng s =
     (case jget (ms_objects s) (store_key bucket key) of
        None \<Rightarrow> Inl (storage_not_found bucket key)
      | Some e \<Rightarrow>
          (case rng of
             None \<Rightarrow> Inr (st_body e)
           | Some (start, stop) \<Rightarrow> Inr (js_slice_to start (Some (stop + 1)) (st_body e))))"

definition storage_delete :: "string \<Rightarrow> string \<Rightarrow> memory_storage \<Rightarrow> memory_storage" where
  "storage_delete bucket key s = s\<lparr>ms_objects := jdelete (store_key bucket key) (ms_objects s)\<rparr>"

definition storage_exists :: "string \<Rightarrow> string \<Rightarrow> memory_storage \<Rightarrow> bool" where
  "storage_exists bucket key s = jhas (ms_objects s) (store_key bucket key)"

definition storage_get_metadata :: "string \<Rightarrow> string \<Rightarrow> memory_storage \<Rightarrow> (js_error, object_metadata) outcome" where
  "storage_get_metadata bucket key s =
     (case jget (ms_objects s) (store_key bucket key) of
        None \<Rightarrow> Inl (storage_not_found bucket key) | Some e \<Rightarrow> Inr (st_metadata e))"

definition storage_list :: "string \<Rightarrow> list_options option \<Rightarrow> memory_storage \<Rightarrow> list_result" where
  "storage_list bucket opts s =
     (let pre = (case Option.bind opts lo_prefix of None \<Rightarrow> [] | Some p \<Rightarrow> p);
          max_keys = (case Option.bind opts lo_max_keys of None \<Rightarrow> 1000 | Some n \<Rightarrow> n);
          bucket_prefix = bucket @ [CHR 0x00];
          all = map (\<lambda>(k, v). st_metadata v)
            (filter (\<lambda>(k, v). prefix bucket_prefix k \<and> prefix pre (drop (length bucket_prefix) k)) (ms_objects s))
      in \<lparr>lr_objects = js_slice_to 0 (Some max_keys) all, lr_is_truncated = (int (length all) > max_keys),
          lr_next_token = None\<rparr>)"

definition storage_presigned_url :: "string \<Rightarrow> string \<Rightarrow> signed_operation \<Rightarrow> int \<Rightarrow> string" where
  "storage_presigned_url bucket key op expires =
     ''https://storage.acme.dev/'' @ bucket @ ''/'' @ key @ ''?op='' @ (case op of Sign_Get \<Rightarrow> ''get'' | Sign_Put \<Rightarrow> ''put'')
     @ ''&ttl='' @ show_int expires"

definition initiate_multipart :: "string \<Rightarrow> string \<Rightarrow> string \<Rightarrow> upload_options option \<Rightarrow> memory_storage
    \<Rightarrow> multipart_info \<times> memory_storage" where
  "initiate_multipart uuid bucket key opts s =
     (let info = \<lparr>mi_upload_id = uuid, mi_key = key, mi_bucket = bucket\<rparr>
      in (info, s\<lparr>ms_multiparts := jset uuid \<lparr>me_info = info, me_parts = [], me_options = opts\<rparr> (ms_multiparts s)\<rparr>))"

definition upload_part :: "string \<Rightarrow> string \<Rightarrow> string \<Rightarrow> string \<Rightarrow> int \<Rightarrow> bytes \<Rightarrow> memory_storage
    \<Rightarrow> (js_error, multipart_part) outcome \<times> memory_storage" where
  "upload_part uuid bucket key upload_id n body s =
     (case jget (ms_multiparts s) upload_id of
        None \<Rightarrow> (Inl (storage_not_found bucket key), s)
      | Some e \<Rightarrow> (Inr \<lparr>mp_part_number = n, mp_etag = uuid\<rparr>,
          s\<lparr>ms_multiparts := jset upload_id (e\<lparr>me_parts := jset n body (me_parts e)\<rparr>) (ms_multiparts s)\<rparr>))"

definition complete_multipart :: "int \<Rightarrow> string \<Rightarrow> string \<Rightarrow> string \<Rightarrow> string \<Rightarrow> multipart_part list \<Rightarrow> memory_storage
    \<Rightarrow> (js_error, object_metadata) outcome \<times> memory_storage" where
  "complete_multipart now uuid bucket key upload_id parts s =
     (case jget (ms_multiparts s) upload_id of
        None \<Rightarrow> (Inl (storage_not_found bucket key), s)
      | Some e \<Rightarrow>
          (let merged = merge_multipart_parts parts (me_parts e);
               meta = build_metadata now uuid bucket key (int (length merged)) (me_options e)
           in (Inr meta, \<lparr>ms_objects = jset (store_key bucket key) \<lparr>st_body = merged, st_metadata = meta\<rparr> (ms_objects s),
                 ms_multiparts = jdelete upload_id (ms_multiparts s)\<rparr>)))"

definition abort_multipart :: "string \<Rightarrow> memory_storage \<Rightarrow> memory_storage" where
  "abort_multipart upload_id s = s\<lparr>ms_multiparts := jdelete upload_id (ms_multiparts s)\<rparr>"

definition storage_clear :: "memory_storage \<Rightarrow> memory_storage" where
  "storage_clear s = memory_storage_new"

definition storage_object_count :: "memory_storage \<Rightarrow> int" where
  "storage_object_count s = jsize (ms_objects s)"

section \<open>Local files\<close>

text \<open>\<open>path.join\<close> of POSIX: the parts joined by slashes and normalised.\<close>

definition is_absolute :: "string \<Rightarrow> bool" where
  "is_absolute p = (case p of c # _ \<Rightarrow> c = CHR ''/'' | [] \<Rightarrow> False)"

definition normal_step :: "bool \<Rightarrow> string list \<Rightarrow> string \<Rightarrow> string list" where
  "normal_step absolute out seg =
     (if seg = [] \<or> seg = ''.'' then out
      else if seg = ''..'' then
        (if out = [] then (if absolute then [] else [''..''])
         else if last out = ''..'' then out @ [''..''] else butlast out)
      else out @ [seg])"

definition normal_segments :: "string \<Rightarrow> string list" where
  "normal_segments p = foldl (normal_step (is_absolute p)) [] (js_split CHR ''/'' p)"

definition path_normalize :: "string \<Rightarrow> string" where
  "path_normalize p =
     (let body = join_with CHR ''/'' (normal_segments p);
          body = (if body = [] \<and> \<not> is_absolute p then ''.'' else body);
          body = (if body \<noteq> [] \<and> p \<noteq> [] \<and> last p = CHR ''/'' then body @ ''/'' else body)
      in if is_absolute p then CHR ''/'' # body else body)"

definition path_join :: "string list \<Rightarrow> string" where
  "path_join ps =
     (let given = filter (\<lambda>p. p \<noteq> []) ps
      in if given = [] then ''.'' else path_normalize (join_with CHR ''/'' given))"

definition file_path :: "string \<Rightarrow> string \<Rightarrow> string \<Rightarrow> string" where
  "file_path base bucket key = path_join [base, bucket, key]"

definition ct_path :: "string \<Rightarrow> string" where "ct_path p = p @ ''.ct''"

type_synonym files = "(string, bytes) jsmap"

definition local_upload :: "string \<Rightarrow> int \<Rightarrow> string \<Rightarrow> string \<Rightarrow> object_body \<Rightarrow> upload_options option \<Rightarrow> files
    \<Rightarrow> object_metadata \<times> files" where
  "local_upload base now bucket key body opts fs =
     (let fp = file_path base bucket key; buf = to_buffer body;
          ct = (case Option.bind opts uo_content_type of None \<Rightarrow> ''application/octet-stream'' | Some t \<Rightarrow> t)
      in (\<lparr>om_key = key, om_bucket = bucket, om_size = int (length buf), om_content_type = ct, om_last_modified = now,
           om_etag = None, om_custom_metadata = None\<rparr>,
          jset (ct_path fp) (text_encode ct) (jset fp buf fs)))"

definition local_download :: "string \<Rightarrow> string \<Rightarrow> string \<Rightarrow> (int \<times> int) option \<Rightarrow> files \<Rightarrow> (js_error, bytes) outcome" where
  "local_download base bucket key rng fs =
     (case jget fs (file_path base bucket key) of
        None \<Rightarrow> Inl (storage_not_found bucket key)
      | Some buf \<Rightarrow> Inr (case rng of None \<Rightarrow> buf | Some (a, b) \<Rightarrow> js_slice_to a (Some (b + 1)) buf))"

definition local_delete :: "string \<Rightarrow> string \<Rightarrow> string \<Rightarrow> files \<Rightarrow> files" where
  "local_delete base bucket key fs =
     (let fp = file_path base bucket key in jdelete (ct_path fp) (jdelete fp fs))"

definition local_exists :: "string \<Rightarrow> string \<Rightarrow> string \<Rightarrow> files \<Rightarrow> bool" where
  "local_exists base bucket key fs = jhas fs (file_path base bucket key)"

section \<open>Google multipart calls\<close>

text \<open>The calls leave the bucket's state as it is; the metadata comes from the client.\<close>

definition gcs_initiate_multipart :: "string \<Rightarrow> string \<Rightarrow> string \<Rightarrow> multipart_info" where
  "gcs_initiate_multipart uuid bucket key = \<lparr>mi_upload_id = uuid, mi_key = key, mi_bucket = bucket\<rparr>"

definition gcs_upload_part :: "string \<Rightarrow> string \<Rightarrow> string \<Rightarrow> int \<Rightarrow> bytes \<Rightarrow> 'w \<Rightarrow> multipart_part \<times> 'w" where
  "gcs_upload_part bucket key upload_id n body w =
     (\<lparr>mp_part_number = n, mp_etag = upload_id @ ''-'' @ show_int n\<rparr>, w)"

definition gcs_complete_multipart :: "(string \<Rightarrow> string \<Rightarrow> 'w \<Rightarrow> (js_error, object_metadata) outcome \<times> 'w) \<Rightarrow> string \<Rightarrow> string
    \<Rightarrow> string \<Rightarrow> multipart_part list \<Rightarrow> 'w \<Rightarrow> (js_error, object_metadata) outcome \<times> 'w" where
  "gcs_complete_multipart get_metadata bucket key upload_id parts w =
     (case get_metadata bucket key w of
        (Inl _, w1) \<Rightarrow> (Inl (storage_not_found bucket key), w1)
      | (Inr m, w1) \<Rightarrow> (Inr m, w1))"

section \<open>What a store promises\<close>

text \<open>
  A store of objects by bucket and key, for the buckets whose names are allowed: what was uploaded
  is downloaded, what was deleted is not found, and no other object is touched.
\<close>

locale object_store =
  fixes put :: "string \<times> string \<Rightarrow> bytes \<Rightarrow> 's \<Rightarrow> 's"
    and get :: "string \<times> string \<Rightarrow> 's \<Rightarrow> (js_error, bytes) outcome"
    and remove :: "string \<times> string \<Rightarrow> 's \<Rightarrow> 's"
    and allowed :: "string \<times> string \<Rightarrow> bool"
  assumes get_put: "allowed a \<Longrightarrow> allowed b \<Longrightarrow> get a (put b x s) = (if a = b then Inr x else get a s)"
    and get_remove: "allowed a \<Longrightarrow> allowed b \<Longrightarrow> get a (remove b s) = (if a = b then Inl (storage_not_found (fst a) (snd a)) else get a s)"
begin

definition step :: "'s \<Rightarrow> (string \<times> string) \<times> bytes option \<Rightarrow> 's" where
  "step s c = (case snd c of Some x \<Rightarrow> put (fst c) x s | None \<Rightarrow> remove (fst c) s)"

lemma last_call_wins:
  assumes "\<forall>c \<in> set cs. allowed (fst c)" and "allowed a"
  shows "get a (foldl step s cs) =
    (case filter (\<lambda>c. fst c = a) (rev cs) of
       [] \<Rightarrow> get a s
     | c # _ \<Rightarrow> (case snd c of Some x \<Rightarrow> Inr x | None \<Rightarrow> Inl (storage_not_found (fst a) (snd a))))"
  using assms(1)
proof (induction cs rule: rev_induct)
  case (snoc c cs)
  then show ?case using assms(2)
    by (cases "fst c = a") (auto simp: step_def get_put get_remove split: option.split)
qed simp

end

lemma store_key_eq:
  "CHR 0x00 \<notin> set b \<Longrightarrow> CHR 0x00 \<notin> set c \<Longrightarrow> store_key b k = store_key c l \<longleftrightarrow> b = c \<and> k = l"
  by (simp add: store_key_def append_sep_eq)

interpretation memory_store: object_store
  "\<lambda>a x s. snd (storage_upload now uuid (fst a) (snd a) (Buffer_Body x) opts s)"
  "\<lambda>a s. storage_download (fst a) (snd a) None s" "\<lambda>a s. storage_delete (fst a) (snd a) s"
  "\<lambda>a. CHR 0x00 \<notin> set (fst a)" for now uuid opts
  by unfold_locales
     (auto simp: storage_upload_def storage_download_def storage_delete_def to_buffer_def Let_def store_key_eq prod_eq_iff)

section \<open>Objects in memory\<close>

datatype storage_call = Upload string string bytes | Delete string string

fun storage_step :: "memory_storage \<Rightarrow> storage_call \<Rightarrow> memory_storage" where
  "storage_step s (Upload b k x) = snd (storage_upload 0 [] b k (Buffer_Body x) None s)"
| "storage_step s (Delete b k) = storage_delete b k s"

definition call_of :: "storage_call \<Rightarrow> (string \<times> string) \<times> bytes option" where
  "call_of c = (case c of Upload b k x \<Rightarrow> ((b, k), Some x) | Delete b k \<Rightarrow> ((b, k), None))"

text \<open>
  After any uploads and deletions, a download gives the bytes last uploaded under its bucket and
  key, or a \<open>StorageNotFoundError\<close> when they were deleted since or never uploaded, as long as the
  names of buckets have no NUL character.
\<close>

theorem download_gives_last_upload:
  assumes "\<forall>c \<in> set cs. CHR 0x00 \<notin> set (fst (fst (call_of c)))" and "CHR 0x00 \<notin> set bucket"
  shows "storage_download bucket key None (foldl storage_step memory_storage_new cs) =
    (case filter (\<lambda>c. fst (call_of c) = (bucket, key)) (rev cs) of
       Upload b k x # _ \<Rightarrow> Inr x
     | _ \<Rightarrow> Inl (storage_not_found bucket key))"
proof -
  have step: "storage_step = (\<lambda>s c. memory_store.step 0 [] None s (call_of c))"
  proof (intro ext)
    show "storage_step s c = memory_store.step 0 [] None s (call_of c)" for s c
      by (cases c) (simp_all add: memory_store.step_def call_of_def)
  qed
  have run: "foldl storage_step s cs = foldl (memory_store.step 0 [] None) s (map call_of cs)" for s
    by (simp add: foldl_map step)
  have "filter (\<lambda>c. fst c = a) (rev (map call_of cs)) = map call_of (filter (\<lambda>c. fst (call_of c) = a) (rev cs))" for a
    by (simp add: rev_map filter_map comp_def)
  moreover have "storage_download bucket key None memory_storage_new = Inl (storage_not_found bucket key)"
    by (simp add: storage_download_def memory_storage_new_def)
  ultimately show ?thesis
    using memory_store.last_call_wins [of "map call_of cs" "(bucket, key)" 0 "[]" None memory_storage_new] assms
    by (auto simp: run call_of_def split: list.split storage_call.split)
qed

theorem download_gives_last_upload_witness:
  "storage_download ''b'' ''k'' None (foldl storage_step memory_storage_new
      [Upload ''b'' ''k'' [1], Upload ''b'' ''j'' [2], Upload ''b'' ''k'' [3], Delete ''b'' ''j'']) = Inr [3]"
  using download_gives_last_upload [of "[Upload ''b'' ''k'' [1], Upload ''b'' ''j'' [2], Upload ''b'' ''k'' [3],
      Delete ''b'' ''j'']" "''b''" "''k''"] by (simp add: call_of_def)

text \<open>Two names that are different objects share one entry when a bucket's name ends with NUL.\<close>

theorem nul_collision:
  "storage_download ''a'' (CHR 0x00 # k) None
     (snd (storage_upload now uuid [CHR ''a'', CHR 0x00] k (Buffer_Body x) opts s)) = Inr x"
  by (simp add: storage_download_def storage_upload_def to_buffer_def Let_def store_key_def)

text \<open>A range is its bytes from the first to the last, both included, cut at the end of the object.\<close>

theorem range_download:
  assumes "jget (ms_objects s) (store_key bucket key) = Some e" and "0 \<le> a" and "a \<le> b"
  shows "storage_download bucket key (Some (a, b)) s = Inr (take (nat (b - a) + 1) (drop (nat a) (st_body e)))"
proof -
  have "nat (1 + b - a) = nat (b - a) + 1" using assms(3) by simp
  then show ?thesis
    using assms js_slice_to_page [of a "b - a + 1" "st_body e"]
    by (simp add: storage_download_def algebra_simps)
qed

theorem range_download_witness:
  "storage_download ''b'' ''k'' (Some (1, 2)) (snd (storage_upload 0 [] ''b'' ''k'' (Buffer_Body [7, 8, 9, 10]) None memory_storage_new))
     = Inr [8, 9]"
  using range_download [where s = "snd (storage_upload 0 [] ''b'' ''k'' (Buffer_Body [7, 8, 9, 10]) None memory_storage_new)"
      and bucket = "''b''" and key = "''k''" and a = 1 and b = 2]
  by (simp add: storage_upload_def Let_def to_buffer_def)

text \<open>
  A listing gives the objects of the bucket whose key has the prefix, at most as many as asked for,
  and says whether there are more; it never gives a token to go on with.
\<close>

theorem listing:
  assumes "CHR 0x00 \<notin> set bucket" and "0 \<le> n"
    and "\<forall>e \<in> set (ms_objects s). \<exists>b k. fst e = store_key b k \<and> CHR 0x00 \<notin> set b
          \<and> om_bucket (st_metadata (snd e)) = b \<and> om_key (st_metadata (snd e)) = k"
  shows "let l = storage_list bucket (Some \<lparr>lo_prefix = Some p, lo_max_keys = Some n\<rparr>) s;
             found = filter (\<lambda>m. om_bucket m = bucket \<and> prefix p (om_key m)) (map (\<lambda>e. st_metadata (snd e)) (ms_objects s))
         in lr_objects l = take (nat n) found \<and> (lr_is_truncated l \<longleftrightarrow> lr_objects l \<noteq> found) \<and> lr_next_token l = None"
proof -
  let ?found = "filter (\<lambda>m. om_bucket m = bucket \<and> prefix p (om_key m)) (map (\<lambda>e. st_metadata (snd e)) (ms_objects s))"
  have pre: "prefix (bucket @ [CHR 0x00]) (store_key b k) \<longleftrightarrow> b = bucket" if "CHR 0x00 \<notin> set b" for b k
  proof
    assume "prefix (bucket @ [CHR 0x00]) (store_key b k)"
    then obtain r where "store_key b k = store_key bucket r" by (auto simp: store_key_def prefix_def)
    with that assms(1) show "b = bucket" by (simp add: store_key_eq)
  qed (simp add: store_key_def)
  have "(\<lambda>(k, v). prefix (bucket @ [CHR 0x00]) k \<and> prefix p (drop (length (bucket @ [CHR 0x00])) k)) e
      = (om_bucket (st_metadata (snd e)) = bucket \<and> prefix p (om_key (st_metadata (snd e))))"
    if in_s: "e \<in> set (ms_objects s)" for e
  proof -
    from assms(3) in_s obtain b k where e: "fst e = store_key b k" "CHR 0x00 \<notin> set b"
      "om_bucket (st_metadata (snd e)) = b" "om_key (st_metadata (snd e)) = k" by blast
    with pre [OF e(2), of k] show ?thesis by (cases e) (auto simp: store_key_def)
  qed
  then have all: "map (\<lambda>(k, v). st_metadata v) (filter (\<lambda>(k, v). prefix (bucket @ [CHR 0x00]) k
        \<and> prefix p (drop (length (bucket @ [CHR 0x00])) k)) (ms_objects s)) = ?found"
    unfolding filter_map by (simp add: comp_def case_prod_beta cong: filter_cong)
  show ?thesis
    using js_slice_to_page [of 0 n ?found] assms(2)
    unfolding storage_list_def Let_def option.case bind.simps list_options.select_convs all
    by (auto simp: take_all_iff nat_le_iff)
qed

theorem listing_witness:
  "let l = storage_list ''b'' (Some \<lparr>lo_prefix = Some ''x'', lo_max_keys = Some 1\<rparr>)
         (snd (storage_upload 0 [] ''b'' ''x1'' (Buffer_Body []) None memory_storage_new))
   in lr_next_token l = None"
  using listing [where bucket = "''b''" and n = 1 and p = "''x''"
      and s = "snd (storage_upload 0 [] ''b'' ''x1'' (Buffer_Body []) None memory_storage_new)"]
  by (simp add: storage_upload_def Let_def build_metadata_def memory_storage_new_def)

section \<open>Multipart uploads\<close>

text \<open>
  The object made of parts is their bytes in the order of their numbers, whatever the order in which
  the parts are listed, and a number that was never uploaded adds nothing.
\<close>

theorem multipart_object:
  assumes "mset qs = mset parts" and "jget (ms_multiparts s) i = Some e"
  shows "storage_download bucket key None (snd (complete_multipart now uuid bucket key i qs s))
      = Inr (concat (map (\<lambda>n. case jget (me_parts e) n of None \<Rightarrow> [] | Some b \<Rightarrow> b) (sort (map mp_part_number parts))))
    \<and> jget (ms_multiparts (snd (complete_multipart now uuid bucket key i qs s))) i = None"
proof -
  have "mset (map mp_part_number qs) = mset (map mp_part_number parts)" using assms(1) by simp
  then have "sort (map mp_part_number qs) = sort (map mp_part_number parts)"
    by (metis mset_sort properties_for_sort sorted_sort)
  moreover have "map mp_part_number (sort_key mp_part_number qs) = sort (map mp_part_number qs)"
    by (rule properties_for_sort [symmetric]) simp_all
  ultimately have "map mp_part_number (sort_key mp_part_number qs) = sort (map mp_part_number parts)" by simp
  then have "map (\<lambda>p. f (mp_part_number p)) (sort_key mp_part_number qs) = map f (sort (map mp_part_number parts))"
    for f :: "int \<Rightarrow> bytes"
    by (metis (no_types, lifting) list.map_comp map_eq_conv comp_apply)
  from this [of "\<lambda>n. case jget (me_parts e) n of None \<Rightarrow> [] | Some b \<Rightarrow> b"] show ?thesis
    using assms(2)
    by (simp add: complete_multipart_def storage_download_def merge_multipart_parts_def Let_def)
qed

theorem multipart_object_witness:
  "storage_download ''b'' ''k'' None (snd (complete_multipart 0 [] ''b'' ''k'' ''u'' [\<lparr>mp_part_number = 2, mp_etag = []\<rparr>,
       \<lparr>mp_part_number = 1, mp_etag = []\<rparr>] \<lparr>ms_objects = [], ms_multiparts = [(''u'', \<lparr>me_info = \<lparr>mi_upload_id = ''u'',
         mi_key = ''k'', mi_bucket = ''b''\<rparr>, me_parts = [(2, [5]), (1, [3, 4])], me_options = None\<rparr>)]\<rparr>)) = Inr [3, 4, 5]"
  using multipart_object [where parts = "[\<lparr>mp_part_number = 1, mp_etag = []\<rparr>, \<lparr>mp_part_number = 2, mp_etag = []\<rparr>]"
      and qs = "[\<lparr>mp_part_number = 2, mp_etag = []\<rparr>, \<lparr>mp_part_number = 1, mp_etag = []\<rparr>]" and i = "''u''"
      and s = "\<lparr>ms_objects = [], ms_multiparts = [(''u'', \<lparr>me_info = \<lparr>mi_upload_id = ''u'',
         mi_key = ''k'', mi_bucket = ''b''\<rparr>, me_parts = [(2, [5]), (1, [3, 4])], me_options = None\<rparr>)]\<rparr>"]
  by (simp add: add_mset_commute)

text \<open>
  On the Google adapter an upload in parts loses its data: no call writes a part, and completing the
  upload reports the metadata of whatever object is there.
\<close>

theorem gcs_multipart_loses_data:
  assumes "get_metadata bucket key w = (Inr old, w)"
  shows "snd (gcs_upload_part bucket key i n body w) = w
    \<and> gcs_complete_multipart get_metadata bucket key i parts w = (Inr old, w)"
  using assms by (simp add: gcs_upload_part_def gcs_complete_multipart_def)

theorem gcs_multipart_loses_data_witness:
  "snd (gcs_upload_part ''b'' ''k'' ''u'' 1 [1, 2] (0 :: nat)) = 0"
  using gcs_multipart_loses_data [of "\<lambda>b k w. (Inr (build_metadata 0 [] b k 0 None), w)" "''b''" "''k''" "0 :: nat"] by simp

section \<open>Paths\<close>

definition plain_segment :: "string \<Rightarrow> bool" where
  "plain_segment seg \<longleftrightarrow> seg \<noteq> [] \<and> seg \<noteq> ''.'' \<and> seg \<noteq> ''..''"

lemma split_joined_paths:
  "js_split CHR ''/'' (a @ CHR ''/'' # b) = js_split CHR ''/'' a @ js_split CHR ''/'' b"
proof (induction a)
  case (Cons x xs)
  then show ?case
    by (cases "js_split CHR ''/'' xs") simp_all
qed simp

lemma normal_plain:
  "\<forall>seg \<in> set segs. seg \<noteq> ''..'' \<Longrightarrow>
     foldl (normal_step absolute) out segs = out @ filter plain_segment segs"
  by (induction segs arbitrary: out) (auto simp: normal_step_def plain_segment_def)

text \<open>
  When neither bucket nor key has a segment \<open>..\<close>, the file lies below the base directory: its
  normal segments are those of the base followed by the plain ones of bucket and key.
\<close>

theorem path_below_base:
  assumes "base \<noteq> []" and "bucket \<noteq> []" and "key \<noteq> []"
    and "''..'' \<notin> set (js_split CHR ''/'' bucket)" and "''..'' \<notin> set (js_split CHR ''/'' key)"
  shows "normal_segments (join_with CHR ''/'' [base, bucket, key]) =
      normal_segments base @ filter plain_segment (js_split CHR ''/'' bucket @ js_split CHR ''/'' key)
    \<and> file_path base bucket key = path_normalize (join_with CHR ''/'' [base, bucket, key])"
proof -
  have "is_absolute (base @ r) = is_absolute base" for r using assms(1) by (cases base) (auto simp: is_absolute_def)
  then have "normal_segments (join_with CHR ''/'' [base, bucket, key]) =
      foldl (normal_step (is_absolute base)) (normal_segments base) (js_split CHR ''/'' bucket @ js_split CHR ''/'' key)"
    by (simp add: normal_segments_def split_joined_paths)
  moreover have "\<forall>seg \<in> set (js_split CHR ''/'' bucket @ js_split CHR ''/'' key). seg \<noteq> ''..''"
    using assms(4,5) by auto
  ultimately show ?thesis
    using assms(1-3) by (simp add: normal_plain file_path_def path_join_def del: foldl_append)
qed

theorem path_below_base_witness:
  "normal_segments (join_with CHR ''/'' [''/data'', ''img'', ''a/b.png'']) = [''data'', ''img'', ''a'', ''b.png'']"
  using path_below_base [of "''/data''" "''img''" "''a/b.png''"]
  by (simp add: normal_segments_def is_absolute_def normal_step_def plain_segment_def)

text \<open>A key with segments \<open>..\<close> names a file anywhere: uploads write and downloads read outside the base.\<close>

theorem path_traversal:
  "file_path ''/data'' ''img'' ''../../etc/passwd'' = ''/etc/passwd''
   \<and> local_download ''/data'' ''img'' ''../../etc/passwd'' None [(''/etc/passwd'', secret)] = Inr secret"
proof -
  have "file_path ''/data'' ''img'' ''../../etc/passwd'' = ''/etc/passwd''" by code_simp
  then show ?thesis by (simp add: local_download_def)
qed

text \<open>
  The content type of an object is kept in the file of the object named like it with \<open>.ct\<close>:
  uploading one destroys the other, and deleting one deletes the other.
\<close>

theorem sidecar_clobbers:
  assumes "file_path base bucket (key @ ''.ct'') = ct_path (file_path base bucket key)"
  shows "local_download base bucket (key @ ''.ct'') None (snd (local_upload base now bucket key body None fs))
      = Inr (text_encode ''application/octet-stream'')
    \<and> local_download base bucket (key @ ''.ct'') None (local_delete base bucket key fs)
      = Inl (storage_not_found bucket (key @ ''.ct''))"
  using assms by (simp add: local_download_def local_upload_def local_delete_def Let_def)

theorem sidecar_clobbers_witness:
  "local_download ''/d'' ''b'' ''x.ct'' None (snd (local_upload ''/d'' 0 ''b'' ''x'' (Buffer_Body [1]) None []))
     = Inr (text_encode ''application/octet-stream'')"
proof -
  have "file_path ''/d'' ''b'' (''x'' @ ''.ct'') = ct_path (file_path ''/d'' ''b'' ''x'')" by code_simp
  from sidecar_clobbers [OF this, of 0 "Buffer_Body [1]" "[]"] show ?thesis by simp
qed

text \<open>An upload is read back, and its file is gone after a deletion.\<close>

theorem local_read_back:
  "local_download base bucket key None (snd (local_upload base now bucket key body opts fs)) = Inr (to_buffer body)
   \<and> \<not> local_exists base bucket key (local_delete base bucket key fs)"
  by (simp add: local_download_def local_upload_def local_delete_def local_exists_def Let_def ct_path_def)

end
