(* ===== verification/Search.thy ===== *)
theory Search
  imports Regex Json "HOL-Library.Sublist" "HOL-Library.Multiset" "HOL-Library.Char_ord"
    "HOL-Library.List_Lexorder"
begin

text \<open>
  \<open>packages/search/src/InMemorySearchAdapter.ts\<close>: indices of documents, search with filters, facets,
  sorting and pages, and suggestions.

  A document is its fields; the values of the fields that every object inherits are left out, no
  filter and no query of the types can equal one.  The order of \<open>localeCompare\<close> and the printing of
  numbers are arguments; \<open>sort()\<close> without a comparison is by code units.
\<close>

section \<open>Documents\<close>

type_synonym document = "(string \<times> json) list"

record facet_filter =
  ff_field :: string
  ff_value :: string

record sort_field =
  sf_field :: string
  sf_asc :: bool

record search_query =
  sq_q :: string
  sq_page :: "int option"
  sq_hits_per_page :: "int option"
  sq_filters :: "facet_filter list option"
  sq_facets :: "string list option"
  sq_sort :: "sort_field list option"

record facet_result =
  fr_field :: string
  fr_buckets :: "(string \<times> int) list"

record search_result =
  se_hits :: "document list"
  se_total :: int
  se_page :: int
  se_hits_per_page :: int
  se_facets :: "facet_result list option"

type_synonym search_index = "(string, document) jsmap"
type_synonym indices = "(string, search_index) jsmap"

section \<open>Steps of a search\<close>

definition text_matches :: "string \<Rightarrow> json \<Rightarrow> bool" where
  "text_matches lower v = (case v of JStr s \<Rightarrow> sublist lower (to_lower s) | _ \<Rightarrow> False)"

definition filter_by_query :: "document list \<Rightarrow> string \<Rightarrow> document list" where
  "filter_by_query docs q =
     (if q = [] \<or> q = ''*'' then docs
      else filter (\<lambda>d. list_ex (text_matches (to_lower q)) (map snd d)) docs)"

definition filter_holds :: "document \<Rightarrow> facet_filter \<Rightarrow> bool" where
  "filter_holds d f = (jget d (ff_field f) = Some (JStr (ff_value f)))"

definition apply_filters :: "document list \<Rightarrow> facet_filter list \<Rightarrow> document list" where
  "apply_filters docs fs = (if length fs = 0 then docs else filter (\<lambda>d. list_all (filter_holds d) fs) docs)"

definition count_value :: "string \<Rightarrow> (string, int) jsmap \<Rightarrow> document \<Rightarrow> (string, int) jsmap" where
  "count_value field counts d =
     (case jget d field of
        Some (JStr v) \<Rightarrow> jset v ((case jget counts v of None \<Rightarrow> 0 | Some n \<Rightarrow> n) + 1) counts
      | _ \<Rightarrow> counts)"

definition compute_facets :: "document list \<Rightarrow> string list \<Rightarrow> facet_result list" where
  "compute_facets docs facet_fields =
     map (\<lambda>field. \<lparr>fr_field = field, fr_buckets = foldl (count_value field) [] docs\<rparr>) facet_fields"

definition sort_text :: "(rat \<Rightarrow> string) \<Rightarrow> document \<Rightarrow> string \<Rightarrow> string" where
  "sort_text show_num d field =
     (case jget d field of Some (JStr s) \<Rightarrow> s | Some (JNum n) \<Rightarrow> show_num n | _ \<Rightarrow> [])"

definition compare_by_field :: "(string \<Rightarrow> string \<Rightarrow> int) \<Rightarrow> (rat \<Rightarrow> string) \<Rightarrow> document \<Rightarrow> document \<Rightarrow> sort_field \<Rightarrow> int" where
  "compare_by_field cmp show_num a b f =
     (let sa = sort_text show_num a (sf_field f); sb = sort_text show_num b (sf_field f)
      in if sf_asc f then cmp sa sb else cmp sb sa)"

fun compare_clauses :: "(string \<Rightarrow> string \<Rightarrow> int) \<Rightarrow> (rat \<Rightarrow> string) \<Rightarrow> sort_field list \<Rightarrow> document \<Rightarrow> document \<Rightarrow> int" where
  "compare_clauses cmp show_num [] a b = 0"
| "compare_clauses cmp show_num (f # fs) a b =
     (let c = compare_by_field cmp show_num a b f
      in if c \<noteq> 0 then c else compare_clauses cmp show_num fs a b)"

text \<open>A stable sort by a comparison: each element goes after those that are not greater.\<close>

fun insert_by :: "('a \<Rightarrow> 'a \<Rightarrow> int) \<Rightarrow> 'a \<Rightarrow> 'a list \<Rightarrow> 'a list" where
  "insert_by cmp x [] = [x]"
| "insert_by cmp x (y # ys) = (if cmp x y \<le> 0 then x # y # ys else y # insert_by cmp x ys)"

definition sort_by_cmp :: "('a \<Rightarrow> 'a \<Rightarrow> int) \<Rightarrow> 'a list \<Rightarrow> 'a list" where
  "sort_by_cmp cmp xs = foldr (insert_by cmp) xs []"

definition apply_sort :: "(string \<Rightarrow> string \<Rightarrow> int) \<Rightarrow> (rat \<Rightarrow> string) \<Rightarrow> document list \<Rightarrow> sort_field list \<Rightarrow> document list" where
  "apply_sort cmp show_num docs fs =
     (if length fs = 0 then docs else sort_by_cmp (compare_clauses cmp show_num fs) docs)"

definition paginate :: "document list \<Rightarrow> int \<Rightarrow> int \<Rightarrow> document list" where
  "paginate docs page hits = js_slice_to (page * hits) (Some ((page + 1) * hits)) docs"

section \<open>The adapter\<close>

definition index_not_found :: "string \<Rightarrow> js_error" where
  "index_not_found index = JsError ''SearchIndexNotFoundError'' (''Search index not found: '' @ index)"

definition create_index :: "string \<Rightarrow> indices \<Rightarrow> indices" where
  "create_index index m = (if \<not> jhas m index then jset index [] m else m)"

definition delete_index :: "string \<Rightarrow> indices \<Rightarrow> indices" where
  "delete_index index m = jdelete index m"

definition doc_id :: "document \<Rightarrow> string" where
  "doc_id d = (case jget d ''id'' of Some (JStr s) \<Rightarrow> s | _ \<Rightarrow> [])"

definition index_document :: "string \<Rightarrow> document \<Rightarrow> indices \<Rightarrow> (js_error, unit) outcome \<times> indices" where
  "index_document index d m =
     (case jget m index of
        None \<Rightarrow> (Inl (index_not_found index), m)
      | Some store \<Rightarrow> (Inr (), jset index (jset (doc_id d) d store) m))"

definition bulk_index_documents :: "string \<Rightarrow> document list \<Rightarrow> indices \<Rightarrow> (js_error, unit) outcome \<times> indices" where
  "bulk_index_documents index docs m =
     (case jget m index of
        None \<Rightarrow> (Inl (index_not_found index), m)
      | Some store \<Rightarrow> (Inr (), jset index (foldl (\<lambda>s d. jset (doc_id d) d s) store docs) m))"

definition delete_document :: "string \<Rightarrow> string \<Rightarrow> indices \<Rightarrow> (js_error, unit) outcome \<times> indices" where
  "delete_document index ident m =
     (case jget m index of
        None \<Rightarrow> (Inl (index_not_found index), m)
      | Some store \<Rightarrow> (Inr (), jset index (jdelete ident store) m))"

definition or_empty :: "'a list option \<Rightarrow> 'a list" where
  "or_empty v = (case v of None \<Rightarrow> [] | Some xs \<Rightarrow> xs)"

definition matching_docs :: "search_index \<Rightarrow> search_query \<Rightarrow> document list" where
  "matching_docs store q = apply_filters (filter_by_query (jvalues store) (sq_q q)) (or_empty (sq_filters q))"

definition search_index_for :: "(string \<Rightarrow> string \<Rightarrow> int) \<Rightarrow> (rat \<Rightarrow> string) \<Rightarrow> string \<Rightarrow> search_query \<Rightarrow> indices
    \<Rightarrow> (js_error, search_result) outcome" where
  "search_index_for cmp show_num index q m =
     (case jget m index of
        None \<Rightarrow> Inl (index_not_found index)
      | Some store \<Rightarrow>
          (let page = (case sq_page q of None \<Rightarrow> 0 | Some n \<Rightarrow> n);
               hits = (case sq_hits_per_page q of None \<Rightarrow> 20 | Some n \<Rightarrow> n);
               filtered = matching_docs store q;
               sorted_docs = apply_sort cmp show_num filtered (or_empty (sq_sort q))
           in Inr \<lparr>se_hits = paginate sorted_docs page hits, se_total = int (length sorted_docs), se_page = page,
                   se_hits_per_page = hits, se_facets = map_option (compute_facets filtered) (sq_facets q)\<rparr>))"

definition suggest :: "string \<Rightarrow> string \<Rightarrow> string \<Rightarrow> indices \<Rightarrow> (js_error, string list) outcome" where
  "suggest index pre field m =
     (case jget m index of
        None \<Rightarrow> Inl (index_not_found index)
      | Some store \<Rightarrow>
          Inr (sort
            (foldl (\<lambda>seen d. case jget d field of
                Some (JStr v) \<Rightarrow> if prefix (to_lower pre) (to_lower v) \<and> v \<notin> set seen then seen @ [v] else seen
              | _ \<Rightarrow> seen) [] (jvalues store))))"

definition search_document_count :: "string \<Rightarrow> indices \<Rightarrow> int" where
  "search_document_count index m = (case jget m index of None \<Rightarrow> 0 | Some store \<Rightarrow> jsize store)"

section \<open>Sorting\<close>

lemma mset_insert_by [simp]: "mset (insert_by cmp x ys) = add_mset x (mset ys)"
  by (induction ys) auto

lemma mset_sort_by_cmp [simp]: "mset (sort_by_cmp cmp xs) = mset xs"
  by (induction xs) (simp_all add: sort_by_cmp_def)

lemma length_sort_by_cmp [simp]: "length (sort_by_cmp cmp xs) = length xs"
  by (metis mset_sort_by_cmp size_mset)

lemma set_insert_by: "set (insert_by cmp x ys) = insert x (set ys)"
  by (induction ys) auto

lemma sorted_insert_by:
  assumes "\<And>a b. cmp b a = - cmp a b" and "\<And>a b c. cmp a b \<le> 0 \<Longrightarrow> cmp b c \<le> 0 \<Longrightarrow> cmp a c \<le> 0"
    and "sorted_wrt (\<lambda>a b. cmp a b \<le> 0) ys"
  shows "sorted_wrt (\<lambda>a b. cmp a b \<le> 0) (insert_by cmp x ys)"
  using assms(3)
proof (induction ys)
  case (Cons y ys)
  show ?case
  proof (cases "cmp x y \<le> 0")
    case True
    with Cons.prems assms(2) show ?thesis by auto
  next
    case False
    then have "cmp y x \<le> 0" using assms(1) [of x y] by simp
    with False Cons show ?thesis by (auto simp: set_insert_by)
  qed
qed simp

lemma sorted_sort_by_cmp:
  assumes "\<And>a b. cmp b a = - cmp a b" and "\<And>a b c. cmp a b \<le> 0 \<Longrightarrow> cmp b c \<le> 0 \<Longrightarrow> cmp a c \<le> 0"
  shows "sorted_wrt (\<lambda>a b. cmp a b \<le> 0) (sort_by_cmp cmp xs)"
proof (induction xs)
  case (Cons x xs)
  then show ?case using sorted_insert_by [OF assms] by (simp add: sort_by_cmp_def)
qed (simp add: sort_by_cmp_def)

text \<open>A comparison of texts that gives a total preorder gives one of documents, clause by clause.\<close>

definition preorder_cmp :: "('a \<Rightarrow> 'a \<Rightarrow> int) \<Rightarrow> bool" where
  "preorder_cmp cmp \<longleftrightarrow> (\<forall>a b. cmp b a = - cmp a b) \<and> (\<forall>a b c. cmp a b \<le> 0 \<longrightarrow> cmp b c \<le> 0 \<longrightarrow> cmp a c \<le> 0)"

lemma preorder_neg: "preorder_cmp cmp \<Longrightarrow> cmp b a = - cmp a b"
  unfolding preorder_cmp_def by blast

lemma preorder_trans: "preorder_cmp cmp \<Longrightarrow> cmp a b \<le> 0 \<Longrightarrow> cmp b c \<le> 0 \<Longrightarrow> cmp a c \<le> 0"
  unfolding preorder_cmp_def by blast

lemma preorder_strict:
  assumes "preorder_cmp cmp" and "cmp a b \<le> 0" and "cmp b c \<le> 0" and "cmp a c = 0"
  shows "cmp a b = 0 \<and> cmp b c = 0"
proof -
  have "cmp c a \<le> 0" using preorder_neg [OF assms(1), of c a] assms(4) by simp
  then have "cmp b a \<le> 0" "cmp c b \<le> 0" using preorder_trans [OF assms(1)] assms(2,3) by blast+
  then show ?thesis using preorder_neg [OF assms(1), of a b] preorder_neg [OF assms(1), of b c] assms(2,3) by simp
qed

lemma preorder_field: "preorder_cmp cmp \<Longrightarrow> preorder_cmp (\<lambda>a b. compare_by_field cmp show_num a b f)"
proof (cases "sf_asc f")
  case False
  assume "preorder_cmp cmp"
  then show ?thesis unfolding preorder_cmp_def compare_by_field_def Let_def if_not_P [OF False] by blast
next
  case True
  assume "preorder_cmp cmp"
  then show ?thesis unfolding preorder_cmp_def compare_by_field_def Let_def if_P [OF True] by blast
qed

lemma preorder_clauses:
  assumes "preorder_cmp cmp"
  shows "preorder_cmp (compare_clauses cmp show_num fs)"
proof (induction fs)
  case Nil
  then show ?case by (simp add: preorder_cmp_def)
next
  case (Cons f fs)
  let ?c = "\<lambda>a b. compare_by_field cmp show_num a b f" and ?r = "compare_clauses cmp show_num fs"
  note c = preorder_field [OF assms, of show_num f]
  have neg: "compare_clauses cmp show_num (f # fs) b a = - compare_clauses cmp show_num (f # fs) a b" for a b
    using preorder_neg [OF c, of a b] preorder_neg [OF Cons, of a b] by (simp add: Let_def)
  have le: "compare_clauses cmp show_num (f # fs) a b \<le> 0 \<longleftrightarrow> ?c a b < 0 \<or> ?c a b = 0 \<and> ?r a b \<le> 0" for a b
    by (auto simp: Let_def)
  have "compare_clauses cmp show_num (f # fs) a d \<le> 0"
    if ab: "compare_clauses cmp show_num (f # fs) a b \<le> 0" and bd: "compare_clauses cmp show_num (f # fs) b d \<le> 0" for a b d
  proof -
    have "?c a d \<le> 0" using preorder_trans [OF c, of a b d] ab bd unfolding le by auto
    moreover have "?r a d \<le> 0" if "?c a d = 0"
    proof -
      have "?c a b = 0 \<and> ?c b d = 0" using preorder_strict [OF c, of a b d] ab bd that unfolding le by auto
      then show ?thesis using preorder_trans [OF Cons, of a b d] ab bd unfolding le by auto
    qed
    ultimately show ?thesis unfolding le by fastforce
  qed
  with neg show ?case unfolding preorder_cmp_def by (intro conjI allI impI)
qed

section \<open>What a search gives\<close>

lemma set_matching:
  "d \<in> set (matching_docs store q) \<longleftrightarrow> d \<in> set (jvalues store)
     \<and> (sq_q q \<in> {[], ''*''} \<or> (\<exists>e \<in> set d. \<exists>s. snd e = JStr s \<and> sublist (to_lower (sq_q q)) (to_lower s)))
     \<and> (\<forall>f \<in> set (or_empty (sq_filters q)). jget d (ff_field f) = Some (JStr (ff_value f)))"
proof -
  have "text_matches l v \<longleftrightarrow> (\<exists>s. v = JStr s \<and> sublist l (to_lower s))" for l v
    by (cases v) (simp_all add: text_matches_def)
  then show ?thesis
    by (auto simp: matching_docs_def apply_filters_def filter_by_query_def list_all_iff list_ex_iff filter_holds_def)
qed

lemma concat_windows: "concat (map (\<lambda>i. js_slice_to (int i * int k) (Some ((int i + 1) * int k)) xs) [0..<n]) = take (n * k) xs"
proof (induction n)
  case (Suc n)
  have "js_slice_to (int n * int k) (Some ((int n + 1) * int k)) xs = take k (drop (n * k) xs)"
    using js_slice_to_page [of "int n * int k" "int k" xs]
    by (simp add: algebra_simps flip: of_nat_mult)
  with Suc show ?case by (simp add: take_add [symmetric] add.commute)
qed simp

text \<open>
  A search on an index that exists finds the documents that contain the query in some text field and
  have all the filtered values.  Asked for page after page it gives each of them once, in an order
  sorted by the clauses, and its total is their number; on an index that does not exist it fails.
\<close>

theorem search_pages:
  fixes n k :: nat and cmp show_num index m store q
  assumes "preorder_cmp cmp" and "jget m index = Some store"
    and "length (matching_docs store q) \<le> n * k"
  defines "page \<equiv> \<lambda>i. search_index_for cmp show_num index (q\<lparr>sq_page := Some (int i), sq_hits_per_page := Some (int k)\<rparr>) m"
  shows "\<exists>found. mset found = mset (matching_docs store q)
    \<and> concat (map (\<lambda>i. case page i of Inr r \<Rightarrow> se_hits r) [0..<n]) = found
    \<and> (or_empty (sq_sort q) = [] \<longrightarrow> found = matching_docs store q)
    \<and> sorted_wrt (\<lambda>a b. compare_clauses cmp show_num (or_empty (sq_sort q)) a b \<le> 0) found
    \<and> (\<forall>i. \<exists>r. page i = Inr r \<and> se_total r = int (length found))"
proof -
  let ?fs = "or_empty (sq_sort q)"
  let ?found = "apply_sort cmp show_num (matching_docs store q) ?fs"
  have mset: "mset ?found = mset (matching_docs store q)" by (simp add: apply_sort_def)
  then have len: "length ?found = length (matching_docs store q)" by (metis size_mset)
  have same: "matching_docs store (q\<lparr>sq_page := a, sq_hits_per_page := b\<rparr>) = matching_docs store q" for a b
    by (simp add: matching_docs_def)
  have page: "page i = Inr \<lparr>se_hits = js_slice_to (int i * int k) (Some ((int i + 1) * int k)) ?found,
      se_total = int (length ?found), se_page = int i, se_hits_per_page = int k,
      se_facets = map_option (compute_facets (matching_docs store q)) (sq_facets q)\<rparr>" for i
    unfolding page_def search_index_for_def assms(2) option.case Let_def same
    by (simp add: paginate_def)
  have all: "concat (map (\<lambda>i. case page i of Inr r \<Rightarrow> se_hits r) [0..<n]) = ?found"
    unfolding page using concat_windows [of k ?found n] assms(3) len by simp
  have "sorted_wrt (\<lambda>a b. compare_clauses cmp show_num ?fs a b \<le> 0) ?found"
  proof (cases "?fs = []")
    case True
    then show ?thesis by (simp add: sorted_wrt_iff_nth_less)
  next
    case False
    have "sorted_wrt (\<lambda>a b. compare_clauses cmp show_num ?fs a b \<le> 0)
        (sort_by_cmp (compare_clauses cmp show_num ?fs) (matching_docs store q))"
    proof (rule sorted_sort_by_cmp)
      show "compare_clauses cmp show_num ?fs b a = - compare_clauses cmp show_num ?fs a b" for a b
        by (rule preorder_neg [OF preorder_clauses [OF assms(1)]])
      show "compare_clauses cmp show_num ?fs a c \<le> 0"
        if "compare_clauses cmp show_num ?fs a b \<le> 0" "compare_clauses cmp show_num ?fs b c \<le> 0" for a b c
        by (rule preorder_trans [OF preorder_clauses [OF assms(1)] that])
    qed
    with False show ?thesis by (simp add: apply_sort_def)
  qed
  moreover have "or_empty (sq_sort q) = [] \<longrightarrow> ?found = matching_docs store q" by (simp add: apply_sort_def)
  ultimately show ?thesis using mset all by (intro exI [of _ ?found] conjI) (simp_all add: page)
qed

definition text_cmp :: "string \<Rightarrow> string \<Rightarrow> int" where
  "text_cmp a b = int (length a) - int (length b)"

lemma text_cmp_preorder: "preorder_cmp text_cmp"
  by (auto simp: preorder_cmp_def text_cmp_def)

definition demo_query :: search_query where
  "demo_query = \<lparr>sq_q = ''*'', sq_page = None, sq_hits_per_page = None, sq_filters = None, sq_facets = None, sq_sort = None\<rparr>"

theorem search_pages_witness:
  "\<exists>found. mset found = mset (matching_docs [(''1'', [(''id'', JStr ''1'')])] demo_query)
    \<and> (\<exists>r. search_index_for text_cmp (\<lambda>_. []) ''i'' (demo_query\<lparr>sq_page := Some (int 0), sq_hits_per_page := Some (int 1)\<rparr>)
         [(''i'', [(''1'', [(''id'', JStr ''1'')])])] = Inr r \<and> se_total r = int (length found))"
proof -
  have l: "length (matching_docs [(''1'', [(''id'', JStr ''1'')])] demo_query) \<le> 1 * 1"
    by (simp add: matching_docs_def demo_query_def filter_by_query_def apply_filters_def or_empty_def)
  from search_pages [OF text_cmp_preorder _ l, of "[(''i'', [(''1'', [(''id'', JStr ''1'')])])]" "''i''" "\<lambda>_. []"]
  obtain found where "mset found = mset (matching_docs [(''1'', [(''id'', JStr ''1'')])] demo_query)"
    "\<forall>i. \<exists>r. search_index_for text_cmp (\<lambda>_. []) ''i'' (demo_query\<lparr>sq_page := Some (int i), sq_hits_per_page := Some (int 1)\<rparr>)
         [(''i'', [(''1'', [(''id'', JStr ''1'')])])] = Inr r \<and> se_total r = int (length found)" by auto
  then show ?thesis by blast
qed

definition with_value :: "string \<Rightarrow> string \<Rightarrow> document list \<Rightarrow> nat" where
  "with_value field v docs = length (filter (\<lambda>d. jget d field = Some (JStr v)) docs)"

lemma facet_count:
  "jget (foldl (count_value field) counts docs) v =
     (if with_value field v docs = 0 then jget counts v
      else Some ((case jget counts v of None \<Rightarrow> 0 | Some n \<Rightarrow> n) + int (with_value field v docs)))"
proof (induction docs arbitrary: counts)
  case (Cons d docs)
  have "jget (count_value field counts d) v =
      (if jget d field = Some (JStr v) then Some ((case jget counts v of None \<Rightarrow> 0 | Some n \<Rightarrow> n) + 1) else jget counts v)"
    by (auto simp: count_value_def split: option.split json.split)
  then show ?case unfolding foldl_Cons Cons.IH by (auto simp: with_value_def split: option.split)
qed (simp add: with_value_def)

text \<open>
  The buckets of a facet count, for every value that is a text, the documents found that have it,
  on all pages together.
\<close>

theorem facets_count:
  assumes "search_index_for cmp show_num index q m = Inr r" and "jget m index = Some store"
    and "sq_facets q = Some names"
  shows "\<exists>fs. se_facets r = Some fs \<and> map fr_field fs = names
    \<and> (\<forall>f \<in> set fs. \<forall>v. jget (fr_buckets f) v =
          (let n = with_value (fr_field f) v (matching_docs store q) in if n = 0 then None else Some (int n)))"
  using assms
  by (auto simp: search_index_for_def Let_def compute_facets_def facet_count comp_def)

theorem facets_count_witness:
  "\<exists>fs. se_facets (case search_index_for text_cmp (\<lambda>_. []) ''i'' (demo_query\<lparr>sq_facets := Some [''c'']\<rparr>)
       [(''i'', [(''1'', [(''id'', JStr ''1''), (''c'', JStr ''x'')])])] of Inr r \<Rightarrow> r) = Some fs \<and> map fr_field fs = [''c'']"
proof -
  obtain r where r: "search_index_for text_cmp (\<lambda>_. []) ''i'' (demo_query\<lparr>sq_facets := Some [''c'']\<rparr>)
       [(''i'', [(''1'', [(''id'', JStr ''1''), (''c'', JStr ''x'')])])] = Inr r"
    by (simp add: search_index_for_def Let_def)
  from facets_count [OF r, of "[(''1'', [(''id'', JStr ''1''), (''c'', JStr ''x'')])]" "[''c'']"] r show ?thesis by auto
qed

section \<open>Documents kept\<close>

text \<open>
  Indexing many documents at once is indexing them one by one; a document is the last one indexed
  under its id, the others are left alone, and without the index nothing is indexed.
\<close>

theorem bulk_is_repeated:
  "bulk_index_documents index docs m =
     (case jget m index of
        None \<Rightarrow> (Inl (index_not_found index), m)
      | Some store \<Rightarrow> (Inr (), if docs = [] then jset index store m else foldl (\<lambda>m d. snd (index_document index d m)) m docs))
   \<and> (\<forall>store. jget m index = Some store \<longrightarrow>
        (\<exists>kept. jget (snd (bulk_index_documents index docs m)) index = Some kept \<and>
           (\<forall>i. jget kept i = (case filter (\<lambda>d. doc_id d = i) (rev docs) of [] \<Rightarrow> jget store i | d # _ \<Rightarrow> Some d))))"
proof -
  have jset2: "jset k a (jset k b m) = jset k a m" for k :: string and a b and m :: indices
    by (induction m) auto
  have one: "foldl (\<lambda>m d. snd (index_document index d m)) (jset index store m) docs
      = jset index (foldl (\<lambda>s d. jset (doc_id d) d s) store docs) m" for store m
  proof (induction docs arbitrary: store)
    case (Cons d docs)
    then show ?case by (simp add: index_document_def jset2)
  qed simp
  have same: "jset index store m = m" if "jget m index = Some store" for store m
    using that by (induction m) (auto split: if_splits)
  have kept: "jget (foldl (\<lambda>s d. jset (doc_id d) d s) store docs) i
      = (case filter (\<lambda>d. doc_id d = i) (rev docs) of [] \<Rightarrow> jget store i | d # _ \<Rightarrow> Some d)" for store i
    by (induction docs rule: rev_induct) auto
  have "bulk_index_documents index docs m =
     (case jget m index of
        None \<Rightarrow> (Inl (index_not_found index), m)
      | Some store \<Rightarrow> (Inr (), if docs = [] then jset index store m else foldl (\<lambda>m d. snd (index_document index d m)) m docs))"
  proof (cases "jget m index")
    case (Some store)
    from one [of store m] same [OF Some] Some show ?thesis by (simp add: bulk_index_documents_def)
  qed (simp add: bulk_index_documents_def)
  moreover have "\<exists>k. jget (snd (bulk_index_documents index docs m)) index = Some k \<and>
      (\<forall>i. jget k i = (case filter (\<lambda>d. doc_id d = i) (rev docs) of [] \<Rightarrow> jget store i | d # _ \<Rightarrow> Some d))"
    if "jget m index = Some store" for store
    using that kept [of store] by (simp add: bulk_index_documents_def)
  ultimately show ?thesis by blast
qed

theorem bulk_is_repeated_witness:
  "\<exists>kept. jget (snd (bulk_index_documents ''i'' [[(''id'', JStr ''1''), (''v'', JNull)]] [(''i'', [])])) ''i'' = Some kept
     \<and> jget kept ''1'' = Some [(''id'', JStr ''1''), (''v'', JNull)]"
  using bulk_is_repeated [of "''i''" "[[(''id'', JStr ''1''), (''v'', JNull)]]" "[(''i'', [])]"]
  by (auto simp: doc_id_def)

text \<open>The suggestions are, each once and in order, the values of the field that start with the prefix.\<close>

theorem suggestions:
  assumes "jget m index = Some store"
  shows "\<exists>ss. suggest index pre field m = Inr ss \<and> distinct ss \<and> sorted ss
    \<and> set ss = {v. prefix (to_lower pre) (to_lower v) \<and> (\<exists>d \<in> set (jvalues store). jget d field = Some (JStr v))}"
proof -
  let ?step = "\<lambda>seen d. case jget d field of
      Some (JStr v) \<Rightarrow> if prefix (to_lower pre) (to_lower v) \<and> v \<notin> set seen then seen @ [v] else seen | _ \<Rightarrow> seen"
  have "distinct (foldl ?step seen ds) \<and> set (foldl ?step seen ds) = set seen
      \<union> {v. prefix (to_lower pre) (to_lower v) \<and> (\<exists>d \<in> set ds. jget d field = Some (JStr v))}"
    if "distinct seen" for seen ds
    using that
  proof (induction ds arbitrary: seen)
    case (Cons d ds)
    have "distinct (?step seen d)" using Cons.prems by (auto split: option.split json.split)
    moreover have "set (?step seen d) = set seen \<union> {v. prefix (to_lower pre) (to_lower v) \<and> jget d field = Some (JStr v)}"
      by (auto split: option.split json.split)
    ultimately show ?case using Cons.IH [of "?step seen d"] by auto
  qed simp
  from this [of "[]" "jvalues store"] show ?thesis
    using assms by (auto simp: suggest_def)
qed

theorem suggestions_witness:
  "\<exists>ss. suggest ''i'' ''A'' ''n'' [(''i'', [(''1'', [(''n'', JStr ''ab'')]), (''2'', [(''n'', JStr ''c'')])])] = Inr ss
     \<and> sorted ss \<and> ''ab'' \<in> set ss \<and> ''c'' \<notin> set ss"
proof -
  have lower: "to_lower ''A'' = ''a''" "to_lower ''ab'' = ''ab''" "to_lower ''c'' = ''c''" by code_simp+
  let ?store = "[(''1'', [(''n'', JStr ''ab'')]), (''2'', [(''n'', JStr ''c'')])]"
  have s: "jget [(''i'', ?store)] ''i'' = Some ?store" by simp
  obtain ss where ss: "suggest ''i'' ''A'' ''n'' [(''i'', ?store)] = Inr ss" "sorted ss"
    "set ss = {v. prefix (to_lower ''A'') (to_lower v) \<and> (\<exists>d \<in> set (jvalues ?store). jget d ''n'' = Some (JStr v))}"
    using suggestions [OF s, of "''A''" "''n''"] by blast
  have "''ab'' \<in> set ss" "''c'' \<notin> set ss" unfolding ss(3) mem_Collect_eq lower by simp_all
  with ss(1,2) show ?thesis by blast
qed

end
