(* ===== verification/Json_Text.thy ===== *)
theory Json_Text
  imports Json "HOL-Library.Sublist"
begin

text \<open>
  The texts of \<open>JSON.stringify\<close> and the reader \<open>JSON.parse\<close>, which the brokers' publishers and
  consumers use.

  Printing and reading a number are arguments, as they are decided by the format of doubles.  The
  characters of a text are those with codes below 256; an escape of another one is not read.
\<close>

section \<open>Printing\<close>

function json_text :: "(rat \<Rightarrow> string) \<Rightarrow> json \<Rightarrow> string" where
  "json_text num JNull = ''null''"
| "json_text num (JBool b) = (if b then ''true'' else ''false'')"
| "json_text num (JNum q) = num q"
| "json_text num (JStr s) = json_string s"
| "json_text num (JArr vs) = ''['' @ json_elements (map (json_text num) vs) @ '']''"
| "json_text num (JObj fs) =
     ''{'' @ json_elements (map (\<lambda>e. json_string (fst e) @ '':'' @ json_text num (snd e)) fs) @ ''}''"
  by pat_completeness auto
termination
proof (relation "measure (\<lambda>(num, v). size v)")
  show "((num, snd e), num, JObj fs) \<in> measure (\<lambda>(num, v). size v)" if "e \<in> set fs"
    for num :: "rat \<Rightarrow> string" and fs e
    using that by (induction fs) auto
  show "((num, v), num, JArr vs) \<in> measure (\<lambda>(num, v). size v)" if "v \<in> set vs" for num :: "rat \<Rightarrow> string" and vs v
    using that by (induction vs) auto
qed simp

section \<open>Reading\<close>

definition json_space :: "char \<Rightarrow> bool" where
  "json_space c \<longleftrightarrow> c \<in> set [CHR 0x20, CHR 0x09, CHR 0x0A, CHR 0x0D]"

definition skip_space :: "string \<Rightarrow> string" where
  "skip_space s = dropWhile json_space s"

definition number_char :: "char \<Rightarrow> bool" where
  "number_char c \<longleftrightarrow> c \<in> set ''0123456789+-.eE''"

definition hex_code :: "char \<Rightarrow> nat option" where
  "hex_code c =
     (let n = (of_char c :: nat) in
      if 48 \<le> n \<and> n \<le> 57 then Some (n - 48) else if 97 \<le> n \<and> n \<le> 102 then Some (n - 87)
      else if 65 \<le> n \<and> n \<le> 70 then Some (n - 55) else None)"

definition simple_escape :: "char \<Rightarrow> char option" where
  "simple_escape c =
     jget (zip ([CHR 0x22, CHR 0x5C] @ ''/bfnrt'')
       [CHR 0x22, CHR 0x5C, CHR ''/'', CHR 0x08, CHR 0x0C, CHR 0x0A, CHR 0x0D, CHR 0x09]) c"

definition unicode_escape :: "char list \<Rightarrow> char option" where
  "unicode_escape ds =
     (case those (map hex_code ds) of
        None \<Rightarrow> None
      | Some ns \<Rightarrow> (let n = foldl (\<lambda>a d. 16 * a + d) 0 ns in if n < 256 then Some (char_of n) else None))"

text \<open>The characters up to the closing quote.\<close>

function parse_chars :: "string \<Rightarrow> (string \<times> string) option" where
  "parse_chars s =
     (case s of
        [] \<Rightarrow> None
      | c # r \<Rightarrow>
          if c = CHR 0x22 then Some ([], r)
          else if c = CHR 0x5C then
            (case r of
               [] \<Rightarrow> None
             | e # r1 \<Rightarrow>
                 if e = CHR ''u'' then
                   (if length r1 < 4 then None
                    else case unicode_escape (take 4 r1) of None \<Rightarrow> None
                      | Some x \<Rightarrow> map_option (apfst (Cons x)) (parse_chars (drop 4 r1)))
                 else (case simple_escape e of None \<Rightarrow> None | Some x \<Rightarrow> map_option (apfst (Cons x)) (parse_chars r1)))
          else if (of_char c :: nat) < 32 then None
          else map_option (apfst (Cons c)) (parse_chars r))"
  by pat_completeness auto
termination by (relation "measure length") auto

declare parse_chars.simps [simp del]

text \<open>The fuel bounds the nesting; twice the length of the text is always enough.\<close>

fun parse_value :: "(string \<Rightarrow> rat option) \<Rightarrow> nat \<Rightarrow> string \<Rightarrow> (json \<times> string) option"
  and parse_items :: "(string \<Rightarrow> rat option) \<Rightarrow> nat \<Rightarrow> string \<Rightarrow> (json list \<times> string) option"
  and parse_members :: "(string \<Rightarrow> rat option) \<Rightarrow> nat \<Rightarrow> (string \<times> json) list \<Rightarrow> string \<Rightarrow> (json \<times> string) option" where
  "parse_value rd 0 s = None"
| "parse_value rd (Suc n) s =
     (let t = skip_space s in
      if prefix ''null'' t then Some (JNull, drop 4 t)
      else if prefix ''true'' t then Some (JBool True, drop 4 t)
      else if prefix ''false'' t then Some (JBool False, drop 5 t)
      else if prefix [CHR 0x22] t then map_option (apfst JStr) (parse_chars (tl t))
      else if prefix ''['' t then
        (if prefix '']'' (skip_space (tl t)) then Some (JArr [], tl (skip_space (tl t)))
         else map_option (apfst JArr) (parse_items rd n (tl t)))
      else if prefix ''{'' t then
        (if prefix ''}'' (skip_space (tl t)) then Some (JObj [], tl (skip_space (tl t)))
         else parse_members rd n [] (tl t))
      else map_option (\<lambda>q. (JNum q, dropWhile number_char t)) (rd (takeWhile number_char t)))"
| "parse_items rd 0 s = None"
| "parse_items rd (Suc n) s =
     (case parse_value rd n s of
        None \<Rightarrow> None
      | Some (v, r) \<Rightarrow>
          (let t = skip_space r in
           if prefix '','' t then map_option (apfst (Cons v)) (parse_items rd n (tl t))
           else if prefix '']'' t then Some ([v], tl t) else None))"
| "parse_members rd 0 fs s = None"
| "parse_members rd (Suc n) fs s =
     (if \<not> prefix [CHR 0x22] (skip_space s) then None
      else case parse_chars (tl (skip_space s)) of
        None \<Rightarrow> None
      | Some (k, r) \<Rightarrow>
          if \<not> prefix '':'' (skip_space r) then None
          else case parse_value rd n (tl (skip_space r)) of
            None \<Rightarrow> None
          | Some (v, r1) \<Rightarrow>
              (let t = skip_space r1 in
               if prefix '','' t then parse_members rd n (jset k v fs) (tl t)
               else if prefix ''}'' t then Some (JObj (jset k v fs), tl t) else None))"

definition json_parse :: "(string \<Rightarrow> rat option) \<Rightarrow> string \<Rightarrow> json option" where
  "json_parse rd s =
     (case parse_value rd (2 * length s + 2) s of
        None \<Rightarrow> None
      | Some (v, r) \<Rightarrow> if skip_space r = [] then Some v else None)"

section \<open>Reading what was printed\<close>

lemma parse_chars_quote [simp]: "parse_chars (CHR 0x22 # r) = Some ([], r)"
  by (simp add: parse_chars.simps)

lemma simple_escapes:
  "simple_escape CHR 0x22 = Some CHR 0x22" "simple_escape CHR 0x5C = Some CHR 0x5C"
  "simple_escape CHR ''b'' = Some CHR 0x08" "simple_escape CHR ''t'' = Some CHR 0x09"
  "simple_escape CHR ''n'' = Some CHR 0x0A" "simple_escape CHR ''f'' = Some CHR 0x0C"
  "simple_escape CHR ''r'' = Some CHR 0x0D"
  by (simp_all add: simple_escape_def)

lemma hex_code_digit: "d < 16 \<Longrightarrow> hex_code (hex_digit d) = Some d"
  using of_char_hex_digit [of d] by (simp add: hex_code_def)

lemma parse_short: "e \<noteq> CHR ''u'' \<Longrightarrow> simple_escape e = Some x \<Longrightarrow>
    parse_chars (CHR 0x5C # e # r) = map_option (apfst (Cons x)) (parse_chars r)"
  by (subst parse_chars.simps) simp

lemma parse_json_char: "parse_chars (json_char c @ r) = map_option (apfst (Cons c)) (parse_chars r)"
proof -
  let ?n = "of_char c :: nat"
  have char: "c = char_of k" if "?n = k" for k using that by (rule char_from_code)
  consider (short) "?n \<in> {34, 92, 8, 9, 10, 12, 13}" | (hex) "?n < 32" "?n \<notin> {8, 9, 10, 12, 13}"
    | (as_is) "32 \<le> ?n" "?n \<notin> {34, 92}" by fastforce
  then show ?thesis
  proof cases
    case short
    then show ?thesis
      by (auto simp: json_char_def Let_def short_codes [symmetric] simple_escapes intro!: parse_short dest!: char_from_code)
  next
    case hex
    then have "json_char c = CHR 0x5C # CHR ''u'' # CHR ''0'' # CHR ''0'' # [hex_digit (?n div 16), hex_digit (?n mod 16)]"
      by (simp add: json_char_def Let_def)
    moreover have "hex_code CHR ''0'' = Some 0" by (simp add: hex_code_def)
    moreover have "?n div 16 < 16" using hex(1) by simp
    ultimately show ?thesis
      by (subst parse_chars.simps) (simp add: unicode_escape_def hex_code_digit)
  next
    case as_is
    then have "json_char c = [c]" "c \<noteq> CHR 0x22" "c \<noteq> CHR 0x5C" by (auto simp: json_char_def Let_def)
    with as_is show ?thesis by (subst parse_chars.simps) simp
  qed
qed

lemma parse_json_string: "parse_chars (json_chars s @ CHR 0x22 # r) = Some (s, r)"
  by (induction s) (simp_all add: json_chars_def parse_json_char)

text \<open>A number is read back when its text is made of the characters of numbers and means it.\<close>

definition reads_back :: "(rat \<Rightarrow> string) \<Rightarrow> (string \<Rightarrow> rat option) \<Rightarrow> rat \<Rightarrow> bool" where
  "reads_back num rd q \<longleftrightarrow> num q \<noteq> [] \<and> list_all number_char (num q) \<and> rd (num q) = Some q"

text \<open>Values whose numbers are read back and whose objects have each field once.\<close>

fun printable :: "(rat \<Rightarrow> string) \<Rightarrow> (string \<Rightarrow> rat option) \<Rightarrow> json \<Rightarrow> bool" where
  "printable num rd (JNum q) = reads_back num rd q"
| "printable num rd (JArr vs) = list_all (printable num rd) vs"
| "printable num rd (JObj fs) = (jwf fs \<and> list_all (\<lambda>e. printable num rd (snd e)) fs)"
| "printable num rd v = True"


lemma number_chars_apart:
  "number_char c \<Longrightarrow> \<not> json_space c \<and> c \<notin> set [CHR 0x22, CHR ''n'', CHR ''t'', CHR ''f'', CHR ''['', CHR ''{'', CHR '']'', CHR ''}'', CHR '','', CHR '':'']"
  by (auto simp: number_char_def json_space_def)

lemma skip_visible [simp]: "\<not> json_space c \<Longrightarrow> skip_space (c # s) = c # s"
  by (simp add: skip_space_def)

lemma structural_visible [simp]:
  "\<not> json_space CHR 0x22" "\<not> json_space CHR ''['' " "\<not> json_space CHR '']''" "\<not> json_space CHR ''{''"
  "\<not> json_space CHR ''}''" "\<not> json_space CHR '',''" "\<not> json_space CHR '':''" "\<not> json_space CHR ''n''"
  "\<not> json_space CHR ''t''" "\<not> json_space CHR ''f''"
  by (simp_all add: json_space_def)

lemma json_text_head:
  assumes "printable num rd v"
  obtains c r where "json_text num v = c # r" "\<not> json_space c" "c \<notin> set [CHR '']'', CHR ''}'', CHR '','']"
proof -
  have "\<exists>c r. json_text num v = c # r \<and> \<not> json_space c \<and> c \<notin> set [CHR '']'', CHR ''}'', CHR '','']"
  proof (cases v)
    case (JNum q)
    then obtain c r where "num q = c # r" "number_char c"
      using assms by (cases "num q") (auto simp: reads_back_def)
    with JNum number_chars_apart [of c] show ?thesis by auto
  qed (auto simp: json_string_def)
  then show thesis using that by blast
qed

definition ends_number :: "string \<Rightarrow> bool" where
  "ends_number r \<longleftrightarrow> (case r of [] \<Rightarrow> True | c # _ \<Rightarrow> \<not> number_char c)"

lemma number_span:
  assumes "list_all number_char s" and "ends_number r"
  shows "takeWhile number_char (s @ r) = s" "dropWhile number_char (s @ r) = r"
proof -
  have s: "\<forall>c \<in> set s. number_char c" using assms(1) by (simp add: list_all_iff)
  show "takeWhile number_char (s @ r) = s"
    using assms(2) s by (cases r) (simp_all add: takeWhile_append2 ends_number_def)
  show "dropWhile number_char (s @ r) = r"
    using assms(2) s by (cases r) (simp_all add: dropWhile_append3 ends_number_def)
qed

lemma parse_number:
  assumes "reads_back num rd q" and "ends_number r"
  shows "parse_value rd (Suc n) (num q @ r) = Some (JNum q, r)"
proof -
  obtain c s where cs: "num q = c # s" using assms(1) by (cases "num q") (auto simp: reads_back_def)
  have all: "list_all number_char (num q)" and rd: "rd (num q) = Some q" using assms(1) by (simp_all add: reads_back_def)
  then have c: "\<not> json_space c" "CHR 0x22 \<noteq> c" "CHR ''n'' \<noteq> c" "CHR ''t'' \<noteq> c" "CHR ''f'' \<noteq> c" "CHR ''['' \<noteq> c"
      "CHR ''{'' \<noteq> c"
    using number_chars_apart [of c] by (auto simp: cs)
  have "parse_value rd (Suc n) (c # s @ r) = map_option (\<lambda>q. (JNum q, dropWhile number_char (c # s @ r))) (rd (takeWhile number_char (c # s @ r)))"
    using c by (simp add: Let_def)
  then show ?thesis by (simp only: append_Cons [symmetric] cs [symmetric] number_span [OF all assms(2)] rd option.map)
qed

lemma ends_number_structural [simp]: "ends_number (CHR '','' # r)" "ends_number (CHR '']'' # r)" "ends_number (CHR ''}'' # r)"
  by (simp_all add: ends_number_def number_char_def)

lemma json_elements_Cons: "json_elements (x # xs) = x @ (if xs = [] then [] else CHR '','' # json_elements xs)"
  by (cases xs) simp_all

definition reads_value :: "(rat \<Rightarrow> string) \<Rightarrow> (string \<Rightarrow> rat option) \<Rightarrow> json \<Rightarrow> bool" where
  "reads_value num rd v \<longleftrightarrow> (\<forall>n r. 2 * length (json_text num v) \<le> n \<longrightarrow> ends_number r \<longrightarrow>
     parse_value rd n (json_text num v @ r) = Some (v, r))"

lemma reads_valueD:
  "reads_value num rd v \<Longrightarrow> 2 * length (json_text num v) \<le> n \<Longrightarrow> ends_number r \<Longrightarrow>
     parse_value rd n (json_text num v @ r) = Some (v, r)"
  by (simp add: reads_value_def)

lemma reads_valueI:
  assumes "\<And>k r. ends_number r \<Longrightarrow> parse_value rd (Suc k) (json_text num v @ r) = Some (v, r)"
    and "json_text num v \<noteq> []"
  shows "reads_value num rd v"
  unfolding reads_value_def
proof (intro allI impI)
  fix n r
  assume "2 * length (json_text num v) \<le> n" and r: "ends_number r"
  with assms(2) obtain k where "n = Suc k" by (cases n) auto
  with assms(1) [OF r] show "parse_value rd n (json_text num v @ r) = Some (v, r)" by simp
qed

lemma parse_printed_items:
  assumes "\<forall>v \<in> set vs. reads_value num rd v" and "vs \<noteq> []"
    and "2 * length (json_elements (map (json_text num) vs)) < n"
  shows "parse_items rd n (json_elements (map (json_text num) vs) @ CHR '']'' # r) = Some (vs, r)"
  using assms
proof (induction vs arbitrary: n)
  case (Cons v vs)
  then obtain k where n: "n = Suc k" by (cases n) auto
  show ?case
  proof (cases "vs = []")
    case True
    with Cons.prems n show ?thesis by (auto simp: reads_value_def)
  next
    case False
    have "parse_value rd k (json_text num v @ CHR '','' # json_elements (map (json_text num) vs) @ CHR '']'' # r)
        = Some (v, CHR '','' # json_elements (map (json_text num) vs) @ CHR '']'' # r)"
      using Cons.prems(1,3) n by (auto simp: reads_value_def json_elements_Cons)
    moreover have "parse_items rd k (json_elements (map (json_text num) vs) @ CHR '']'' # r) = Some (vs, r)"
      using Cons.prems n False by (intro Cons.IH) (auto simp: json_elements_Cons)
    ultimately show ?thesis using False by (simp add: n json_elements_Cons)
  qed
qed simp

definition member_text :: "(rat \<Rightarrow> string) \<Rightarrow> string \<times> json \<Rightarrow> string" where
  "member_text num e = json_string (fst e) @ '':'' @ json_text num (snd e)"

lemma parse_printed_members:
  assumes "\<forall>e \<in> set fs. reads_value num rd (snd e)" and "fs \<noteq> []" and "jwf (acc @ fs)"
    and "2 * length (json_elements (map (member_text num) fs)) < n"
  shows "parse_members rd n acc (json_elements (map (member_text num) fs) @ CHR ''}'' # r) = Some (JObj (acc @ fs), r)"
  using assms
proof (induction fs arbitrary: n acc)
  case (Cons e fs)
  obtain key v where e: "e = (key, v)" by (rule prod.exhaust)
  from Cons.prems obtain k where n: "n = Suc k" by (cases n) auto
  have "\<not> jhas acc key" using Cons.prems(3) by (auto simp: jhas_keys e)
  then have set_new: "jset key v acc = acc @ [e]" by (simp add: jset_absent e)
  have member: "member_text num e @ s = CHR 0x22 # json_chars key @ CHR 0x22 # CHR '':'' # json_text num v @ s" for s
    by (simp add: member_text_def json_string_def e)
  have read_v: "parse_value rd k (json_text num v @ s) = Some (v, s)" if "ends_number s" for s
    using Cons.prems(1,4) n that by (auto simp: reads_value_def json_elements_Cons member_text_def e)
  have len: "length (member_text num e) \<ge> 1" by (simp add: member_text_def)
  show ?case
  proof (cases "fs = []")
    case True
    then show ?thesis
      by (simp add: n json_elements_Cons member parse_json_string read_v set_new Let_def)
  next
    case False
    have "parse_members rd k (acc @ [e]) (json_elements (map (member_text num) fs) @ CHR ''}'' # r)
        = Some (JObj ((acc @ [e]) @ fs), r)"
      using Cons.prems n False len by (intro Cons.IH) (auto simp: json_elements_Cons)
    with False show ?thesis
      by (simp add: n json_elements_Cons member parse_json_string read_v set_new Let_def)
  qed
qed simp

lemma json_elements_nonempty: "xs \<noteq> [] \<Longrightarrow> hd xs \<noteq> [] \<Longrightarrow> \<exists>t. json_elements xs = hd xs @ t"
  by (cases xs) (simp_all add: json_elements_Cons)

lemma reads_printed: "printable num rd v \<Longrightarrow> reads_value num rd v"
proof (induction num v rule: json_text.induct)
  case (3 num q)
  then show ?case using parse_number [of num rd q] by (intro reads_valueI) (auto simp: reads_back_def)
next
  case (5 num vs)
  have sub: "\<forall>v \<in> set vs. reads_value num rd v" using 5 by (auto simp: list_all_iff)
  show ?case unfolding reads_value_def
  proof (intro allI impI)
    fix n r
    assume n: "2 * length (json_text num (JArr vs)) \<le> n" and r: "ends_number r"
    then obtain k where k: "n = Suc k" by (cases n) auto
    show "parse_value rd n (json_text num (JArr vs) @ r) = Some (JArr vs, r)"
    proof (cases "vs = []")
      case False
      let ?items = "json_elements (map (json_text num) vs)"
      have "printable num rd (hd vs)" using 5(2) False by (cases vs) auto
      then obtain c t where c: "json_text num (hd vs) = c # t" "\<not> json_space c" "c \<noteq> CHR '']''"
        by (rule json_text_head) auto
      have "\<exists>s. ?items = c # s" using False c(1) by (cases vs) (auto simp: json_elements_Cons)
      then obtain s where "?items = c # s" by blast
      moreover have "parse_items rd k (?items @ CHR '']'' # r) = Some (vs, r)"
        using sub False n k by (intro parse_printed_items) auto
      ultimately show ?thesis using c by (simp add: k Let_def)
    qed (simp add: k Let_def)
  qed
next
  case (6 num fs)
  have sub: "\<forall>e \<in> set fs. reads_value num rd (snd e)" using 6 by (auto simp: list_all_iff)
  have printed: "json_text num (JObj fs) = ''{'' @ json_elements (map (member_text num) fs) @ ''}''"
    by (simp add: member_text_def [abs_def])
  show ?case unfolding reads_value_def
  proof (intro allI impI)
    fix n r
    assume n: "2 * length (json_text num (JObj fs)) \<le> n" and r: "ends_number r"
    then obtain k where k: "n = Suc k" by (cases n) auto
    show "parse_value rd n (json_text num (JObj fs) @ r) = Some (JObj fs, r)"
    proof (cases "fs = []")
      case False
      let ?items = "json_elements (map (member_text num) fs)"
      have "\<exists>s. ?items = CHR 0x22 # s"
        using False by (cases fs) (auto simp: json_elements_Cons member_text_def json_string_def)
      then obtain s where "?items = CHR 0x22 # s" by blast
      moreover have "parse_members rd k [] (?items @ CHR ''}'' # r) = Some (JObj ([] @ fs), r)"
        using sub False n k 6(2) by (intro parse_printed_members) (auto simp: printed simp del: json_text.simps(6))
      ultimately show ?thesis by (simp add: k printed Let_def del: json_text.simps)
    qed (simp add: k Let_def)
  qed
qed (rule reads_valueI; simp add: json_string_def parse_json_string Let_def)+

lemma json_reads_back:
  assumes "printable num rd v"
  shows "json_parse rd (json_text num v) = Some v"
proof -
  have "parse_value rd (2 * length (json_text num v) + 2) (json_text num v @ []) = Some (v, [])"
    by (rule reads_valueD [OF reads_printed [OF assms]]) (simp_all add: ends_number_def)
  then show ?thesis unfolding json_parse_def append_Nil2 by (simp add: skip_space_def)
qed

text \<open>A printed value is read back.\<close>

theorem json_round_trip:
  assumes "printable num rd v"
  shows "json_parse rd (json_text num v) = Some v"
  using assms by (rule json_reads_back)

theorem json_round_trip_witness:
  "json_parse (\<lambda>s. if s = ''3'' then Some 3 else None) (json_text (\<lambda>_. ''3'') (JObj [(''a'', JArr [JNum 3, JNull]), (''b'', JStr ''x'')]))
     = Some (JObj [(''a'', JArr [JNum 3, JNull]), (''b'', JStr ''x'')])"
  using json_round_trip [of "\<lambda>_. ''3''" "\<lambda>s. if s = ''3'' then Some 3 else None" "JObj [(''a'', JArr [JNum 3, JNull]), (''b'', JStr ''x'')]"]
  by (simp add: reads_back_def number_char_def del: json_text.simps)

section \<open>Enough fuel\<close>

text \<open>Every reader leaves less than it was given, so that twice the length of the text bounds the nesting.\<close>

lemma parse_chars_less: "parse_chars s = Some (x, r) \<Longrightarrow> length r < length s"
proof (induction s arbitrary: x r rule: parse_chars.induct)
  case (1 s)
  show ?case
  proof (cases s)
    case (Cons c t)
    note less = 1(1-3) [OF Cons]
    have "parse_chars (c # t) = Some (x, r)" using 1(4) Cons by simp
    then have "length r < length (c # t)"
      using less
      by (subst (asm) parse_chars.simps)
         (auto split: if_splits list.splits option.splits simp: apfst_def map_prod_def split_beta less_Suc_eq, fastforce+)
    with Cons show ?thesis by simp
  qed (use 1(4) in \<open>simp add: parse_chars.simps\<close>)
qed


lemma skip_less: "length (skip_space s) \<le> length s"
  unfolding skip_space_def by (rule length_dropWhile_le)

lemma prefix_one: "prefix [c] s \<longleftrightarrow> (\<exists>r. s = c # r)"
  by (cases s) auto

lemma tl_skip_less: "prefix [c] (skip_space s) \<Longrightarrow> length (tl (skip_space s)) < length s"
  using skip_less [of s] by (auto simp: prefix_one)

lemma prefix_drop_less: "prefix p (skip_space s) \<Longrightarrow> p \<noteq> [] \<Longrightarrow> length (drop (length p) (skip_space s)) < length s"
  using skip_less [of s] by (cases p) (auto simp: prefix_def)

lemma number_less:
  assumes "rd [] = None" and "rd (takeWhile number_char t) = Some q"
  shows "length (dropWhile number_char t) < length t"
proof -
  have "takeWhile number_char t \<noteq> []" using assms by (cases "takeWhile number_char t") auto
  then show ?thesis by (metis length_append less_add_same_cancel2 length_greater_0_conv takeWhile_dropWhile_id)
qed

lemma parse_less:
  assumes "rd [] = None"
  shows "(\<forall>s v r. parse_value rd n s = Some (v, r) \<longrightarrow> length r < length s)
    \<and> (\<forall>s vs r. parse_items rd n s = Some (vs, r) \<longrightarrow> length r < length s)
    \<and> (\<forall>fs s v r. parse_members rd n fs s = Some (v, r) \<longrightarrow> length r < length s)"
proof (induction n)
  case (Suc n)
  then have value_less: "parse_value rd n s = Some (v, r) \<Longrightarrow> length r < length s"
    and items_less: "parse_items rd n s = Some (vs, r) \<Longrightarrow> length r < length s"
    and members_less: "parse_members rd n fs s = Some (v, r) \<Longrightarrow> length r < length s" for s v vs r fs
    by blast+
  have "length r < length s" if p: "parse_value rd (Suc n) s = Some (v, r)" for s v r
  proof -
    let ?t = "skip_space s"
    consider (null) "prefix ''null'' ?t" "r = drop 4 ?t" | (true) "prefix ''true'' ?t" "r = drop 4 ?t"
      | (false) "prefix ''false'' ?t" "r = drop 5 ?t"
      | (quoted) x where "prefix [CHR 0x22] ?t" "parse_chars (tl ?t) = Some (x, r)"
      | (empty) c d where "prefix [c] ?t" "prefix [d] (skip_space (tl ?t))" "r = tl (skip_space (tl ?t))"
      | (items) c vs where "prefix [c] ?t" "parse_items rd n (tl ?t) = Some (vs, r)"
      | (members) c v where "prefix [c] ?t" "parse_members rd n [] (tl ?t) = Some (v, r)"
      | (number) q where "rd (takeWhile number_char ?t) = Some q" "r = dropWhile number_char ?t"
      using p by (auto simp: Let_def split: if_splits)
    then show ?thesis
    proof cases
      case null
      then show ?thesis using prefix_drop_less [of "''null''" s] by simp
    next
      case true
      then show ?thesis using prefix_drop_less [of "''true''" s] by simp
    next
      case false
      then show ?thesis using prefix_drop_less [of "''false''" s] by simp
    next
      case quoted
      then show ?thesis using tl_skip_less parse_chars_less by (meson less_trans)
    next
      case empty
      then show ?thesis using tl_skip_less by (meson less_trans)
    next
      case items
      then show ?thesis using tl_skip_less items_less by (meson less_trans)
    next
      case members
      then show ?thesis using tl_skip_less members_less by (meson less_trans)
    next
      case number
      then show ?thesis using number_less [where rd = rd and t = ?t, OF assms] skip_less [of s] by simp
    qed
  qed
  moreover have "length r < length s" if p: "parse_items rd (Suc n) s = Some (vs, r)" for s vs r
  proof -
    from p obtain v r1 where v: "parse_value rd n s = Some (v, r1)" by (auto split: option.splits)
    then consider c where "prefix [c] (skip_space r1)" "r = tl (skip_space r1)"
      | c us where "prefix [c] (skip_space r1)" "parse_items rd n (tl (skip_space r1)) = Some (us, r)"
      using p by (auto simp: Let_def split: if_splits)
    then show ?thesis using value_less [OF v] tl_skip_less [of _ r1] items_less by cases (meson less_trans)+
  qed
  moreover have "length r < length s" if p: "parse_members rd (Suc n) fs s = Some (v, r)" for fs s v r
  proof -
    from p obtain k r1 where k: "prefix [CHR 0x22] (skip_space s)" "parse_chars (tl (skip_space s)) = Some (k, r1)"
      by (auto split: if_splits option.splits)
    with p obtain u r2 where u: "prefix '':'' (skip_space r1)" "parse_value rd n (tl (skip_space r1)) = Some (u, r2)"
      by (auto split: if_splits option.splits)
    with p k consider c where "prefix [c] (skip_space r2)" "r = tl (skip_space r2)"
      | c gs where "prefix [c] (skip_space r2)" "parse_members rd n gs (tl (skip_space r2)) = Some (v, r)"
      by (auto simp: Let_def split: if_splits)
    moreover have "length r2 < length s"
      using tl_skip_less [OF k(1)] parse_chars_less [OF k(2)] tl_skip_less [OF u(1)] value_less [OF u(2)] by linarith
    ultimately show ?thesis using tl_skip_less [of _ r2] members_less by cases (meson less_trans)+
  qed
  ultimately show ?case by blast
qed simp

text \<open>So any two amounts of fuel above twice the length give the same result.\<close>

lemma parse_fuel:
  assumes "rd [] = None"
  shows "(\<forall>s m. 2 * length s < n \<longrightarrow> 2 * length s < m \<longrightarrow> parse_value rd n s = parse_value rd m s)
    \<and> (\<forall>s m. 2 * length s + 1 < n \<longrightarrow> 2 * length s + 1 < m \<longrightarrow> parse_items rd n s = parse_items rd m s)
    \<and> (\<forall>fs s m. 2 * length s + 1 < n \<longrightarrow> 2 * length s + 1 < m \<longrightarrow> parse_members rd n fs s = parse_members rd m fs s)"
proof (induction n)
  case (Suc n)
  then have value_eq: "2 * length s < n \<Longrightarrow> 2 * length s < m \<Longrightarrow> parse_value rd n s = parse_value rd m s"
    and items_eq: "2 * length s + 1 < n \<Longrightarrow> 2 * length s + 1 < m \<Longrightarrow> parse_items rd n s = parse_items rd m s"
    and members_eq: "2 * length s + 1 < n \<Longrightarrow> 2 * length s + 1 < m \<Longrightarrow> parse_members rd n fs s = parse_members rd m fs s"
    for s m fs by blast+
  have "parse_value rd (Suc n) s = parse_value rd m s" if n: "2 * length s < Suc n" and m: "2 * length s < m" for s m
  proof -
    obtain k where k: "m = Suc k" using m by (cases m) auto
    have "parse_items rd n (tl t) = parse_items rd k (tl t)" "parse_members rd n [] (tl t) = parse_members rd k [] (tl t)"
      if t: "prefix [c] t" "t = skip_space s" for c t
    proof -
      have "length (tl t) < length s" using tl_skip_less t by simp
      then show "parse_items rd n (tl t) = parse_items rd k (tl t)" "parse_members rd n [] (tl t) = parse_members rd k [] (tl t)"
        using n m k by (intro items_eq members_eq; simp)+
    qed
    then show ?thesis by (simp add: k Let_def)
  qed
  moreover have "parse_items rd (Suc n) s = parse_items rd m s"
    if n: "2 * length s + 1 < Suc n" and m: "2 * length s + 1 < m" for s m
  proof -
    obtain k where k: "m = Suc k" using m by (cases m) auto
    have "parse_value rd n s = parse_value rd k s" using n m k by (intro value_eq) auto
    moreover have "parse_items rd n (tl (skip_space r)) = parse_items rd k (tl (skip_space r))"
      if "prefix '','' (skip_space r)" "length r < length s" for r
      using tl_skip_less [OF that(1)] that(2) n m k by (intro items_eq) auto
    moreover have "length r < length s" if "parse_value rd k s = Some (v, r)" for v r
      using parse_less [where rd = rd, OF assms] that by blast
    ultimately show ?thesis
      by (cases "parse_value rd k s") (auto simp: k Let_def)
  qed
  moreover have "parse_members rd (Suc n) fs s = parse_members rd m fs s"
    if n: "2 * length s + 1 < Suc n" and m: "2 * length s + 1 < m" for fs s m
  proof -
    obtain k where k: "m = Suc k" using m by (cases m) auto
    show ?thesis
    proof (cases "prefix [CHR 0x22] (skip_space s) \<and> (\<exists>x r. parse_chars (tl (skip_space s)) = Some (x, r) \<and> prefix '':'' (skip_space r))")
      case True
      then obtain x r where x: "prefix [CHR 0x22] (skip_space s)" "parse_chars (tl (skip_space s)) = Some (x, r)"
        "prefix '':'' (skip_space r)" by blast
      let ?t = "tl (skip_space r)"
      have t: "length ?t < length s"
        using tl_skip_less [OF x(1)] parse_chars_less [OF x(2)] tl_skip_less [OF x(3)] by linarith
      have eq: "parse_value rd n ?t = parse_value rd k ?t" using t n m k by (intro value_eq) auto
      have rest: "parse_members rd n gs (tl (skip_space r2)) = parse_members rd k gs (tl (skip_space r2))"
        if "parse_value rd k ?t = Some (v, r2)" "prefix '','' (skip_space r2)" for v r2 gs
      proof -
        have "length r2 < length ?t" using parse_less [where rd = rd, OF assms] that(1) by blast
        then have "length (tl (skip_space r2)) < length s" using tl_skip_less [OF that(2)] t by linarith
        then show ?thesis using n m k by (intro members_eq) auto
      qed
      show ?thesis unfolding k parse_members.simps x(2) option.case prod.case eq
        using rest by (auto simp: Let_def split: option.split)
    next
      case False
      then show ?thesis by (auto simp: k split: option.split)
    qed
  qed
  ultimately show ?case by blast
qed simp

text \<open>The fuel of \<open>JSON.parse\<close> is never used up: more of it changes nothing.\<close>

theorem json_parse_fuel:
  assumes "rd [] = None" and "2 * length s < n"
  shows "json_parse rd s = (case parse_value rd n s of
      None \<Rightarrow> None | Some (v, r) \<Rightarrow> if skip_space r = [] then Some v else None)"
  unfolding json_parse_def
  using parse_fuel [where rd = rd and n = n, OF assms(1)] assms(2) by (metis (no_types, lifting) add_2_eq_Suc' lessI less_Suc_eq)


theorem json_parse_fuel_witness:
  "json_parse (\<lambda>s. None) ''null'' = (case parse_value (\<lambda>s. None) 100 ''null'' of
      None \<Rightarrow> None | Some (v, r) \<Rightarrow> if skip_space r = [] then Some v else None)"
  using json_parse_fuel [where rd = "\<lambda>s. None" and s = "''null''" and n = 100] by simp

end
