(* ===== verification/Broker_Base.thy ===== *)
theory Broker_Base
  imports Json_Text Messaging
begin

text \<open>
  What the consumers and publishers of the three brokers share
  (\<open>packages/messaging-rabbitmq\<close>, \<open>messaging-kafka\<close>, \<open>messaging-eventbridge\<close>): envelopes as JSON, the
  handlers by type of event, and the set of identifiers already processed.

  A handler acts on the state of the program and returns or throws.  An envelope read from a message
  is the JSON value it holds, whatever its shape.
\<close>

section \<open>Envelopes as JSON\<close>

type_synonym json_envelope = "(json, (string, json) jsmap) envelope"

definition optional_field :: "string \<Rightarrow> ('a \<Rightarrow> json) \<Rightarrow> 'a option \<Rightarrow> (string \<times> json) list" where
  "optional_field name f v = (case v of None \<Rightarrow> [] | Some x \<Rightarrow> [(name, f x)])"

text \<open>An envelope has its fields in the order in which the type lists them.\<close>

definition envelope_json :: "json_envelope \<Rightarrow> json" where
  "envelope_json e = JObj ([(''eventId'', JStr (ev_event_id e)), (''eventType'', JStr (ev_event_type e)),
       (''eventVersion'', JStr (ev_event_version e)), (''timestamp'', JStr (ev_timestamp e))]
     @ optional_field ''correlationId'' JStr (ev_correlation_id e)
     @ optional_field ''causationId'' JStr (ev_causation_id e)
     @ optional_field ''tenantId'' JStr (ev_tenant_id e)
     @ [(''payload'', ev_payload e)]
     @ optional_field ''metadata'' JObj (ev_metadata e))"

text \<open>Reading a field of a value that was parsed; only \<open>null\<close> has none to read.\<close>

definition member_of :: "json \<Rightarrow> string \<Rightarrow> (js_error, json option) outcome" where
  "member_of v k =
     (case v of
        JNull \<Rightarrow> Inl (JsError ''TypeError'' (''Cannot read properties of null (reading '' @ [CHR 0x27] @ k @ [CHR 0x27] @ '')''))
      | JObj fs \<Rightarrow> Inr (jget fs k)
      | _ \<Rightarrow> Inr None)"

type_synonym 'w event_handlers = "(string, json \<Rightarrow> 'w \<Rightarrow> (js_error, unit) outcome \<times> 'w) jsmap"

definition handler_for :: "'w event_handlers \<Rightarrow> json option \<Rightarrow> (json \<Rightarrow> 'w \<Rightarrow> (js_error, unit) outcome \<times> 'w) option" where
  "handler_for hs t = (case t of Some (JStr s) \<Rightarrow> jget hs s | _ \<Rightarrow> None)"

section \<open>Identifiers already processed\<close>

text \<open>Objects and arrays that were parsed are never the same value; the others are compared.\<close>

definition primitive :: "json option \<Rightarrow> bool" where
  "primitive v = (case v of Some (JArr _) \<Rightarrow> False | Some (JObj _) \<Rightarrow> False | _ \<Rightarrow> True)"

definition seen :: "json option list \<Rightarrow> json option \<Rightarrow> bool" where
  "seen xs k \<longleftrightarrow> primitive k \<and> k \<in> set xs"

definition add_seen :: "json option \<Rightarrow> json option list \<Rightarrow> json option list" where
  "add_seen k xs = (if seen xs k then xs else xs @ [k])"

definition max_seen :: nat where "max_seen = 10000"

text \<open>RabbitMQ and Kafka add and then drop the first; EventBridge drops the first and then adds.\<close>

definition remember :: "nat \<Rightarrow> json option \<Rightarrow> json option list \<Rightarrow> json option list" where
  "remember cap k xs = (let ys = add_seen k xs in if cap < length ys then tl ys else ys)"

definition remember_after_eviction :: "nat \<Rightarrow> json option \<Rightarrow> json option list \<Rightarrow> json option list" where
  "remember_after_eviction cap k xs = add_seen k (if cap \<le> length xs then tl xs else xs)"

text \<open>
  A window of identifiers: one that is not in it is added at the end, and the first one goes when
  the window is full.
\<close>

locale id_window =
  fixes add :: "json option \<Rightarrow> json option list \<Rightarrow> json option list"
    and cap :: nat
  assumes cap_pos: "0 < cap"
    and add_new: "\<not> seen xs k \<Longrightarrow> length xs \<le> cap \<Longrightarrow> add k xs = drop (length xs + 1 - cap) (xs @ [k])"
begin

lemma add_all_new:
  "distinct ks \<Longrightarrow> add_all = foldl (\<lambda>xs k. add k xs) \<Longrightarrow> add_all [] ks = drop (length ks - cap) ks"
proof (induction ks arbitrary: add_all rule: rev_induct)
  case (snoc k ks)
  have IH: "foldl (\<lambda>xs k. add k xs) [] ks = drop (length ks - cap) ks" using snoc by auto
  have "k \<notin> set (drop (length ks - cap) ks)" using snoc.prems(1) by (auto dest: in_set_dropD)
  then have "add k (drop (length ks - cap) ks)
      = drop (length (drop (length ks - cap) ks) + 1 - cap) (drop (length ks - cap) ks @ [k])"
    by (intro add_new) (auto simp: seen_def)
  moreover have "\<dots> = drop (Suc (length ks) - cap) (ks @ [k])"
    using cap_pos by (cases "length ks < cap") (auto simp: drop_Suc Suc_diff_le not_less)
  ultimately show ?case using snoc.prems(2) IH by simp
qed simp

text \<open>The window holds the last \<open>cap\<close> of different identifiers added.\<close>

lemma window_holds_last:
  assumes "distinct ks" and "primitive k"
  shows "seen (foldl (\<lambda>xs k. add k xs) [] ks) k \<longleftrightarrow> k \<in> set (drop (length ks - cap) ks)"
  using add_all_new [OF assms(1) refl] assms(2) by (simp add: seen_def)

end

lemma remember_new:
  assumes "\<not> seen xs k" and "length xs \<le> cap" and "0 < cap"
  shows "remember cap k xs = drop (length xs + 1 - cap) (xs @ [k])"
    and "remember_after_eviction cap k xs = drop (length xs + 1 - cap) (xs @ [k])"
proof -
  show "remember cap k xs = drop (length xs + 1 - cap) (xs @ [k])"
    using assms by (cases "length xs = cap") (auto simp: remember_def add_seen_def drop_Suc)
  have "\<not> seen (tl xs) k" using assms(1) by (cases xs) (auto simp: seen_def)
  then show "remember_after_eviction cap k xs = drop (length xs + 1 - cap) (xs @ [k])"
    using assms by (cases "length xs = cap"; cases xs) (auto simp: remember_after_eviction_def add_seen_def)
qed

interpretation add_first: id_window "remember max_seen" max_seen
  by unfold_locales (simp_all add: max_seen_def remember_new)

interpretation evict_first: id_window "remember_after_eviction max_seen" max_seen
  by unfold_locales (simp_all add: max_seen_def remember_new)

lemma remember_bound: "length xs \<le> cap \<Longrightarrow> length (remember cap k xs) \<le> cap"
  by (auto simp: remember_def add_seen_def Let_def)

lemma seen_remember: "0 < cap \<Longrightarrow> length xs \<le> cap \<Longrightarrow> primitive k \<Longrightarrow> \<not> seen xs k \<Longrightarrow> seen (remember cap k xs) k"
  by (auto simp: remember_new seen_def)

end
