(* ===== verification/Rabbitmq.thy ===== *)
theory Rabbitmq
  imports Broker_Base Regex
begin

text \<open>
  \<open>packages/messaging-rabbitmq/src\<close>: the connection with its pool of channels, the publisher, and the
  consumer with its retries and its dead letters.

  What the code asks of a channel is recorded as a list of calls, in order; the replies of the server
  to the calls that are awaited are arguments or successes.  The two settings that no code reads are left out.  A message's buffer is its text.  The
  handling of a message is cut at the one \<open>await\<close>, the handler.
\<close>

section \<open>Configuration\<close>

datatype exchange_type = Topic | Direct | Fanout | Headers

record rabbit_config =
  rf_url :: string
  rf_exchange :: string
  rf_exchange_type :: exchange_type
  rf_pool_size :: int
  rf_heartbeat :: int
  rf_prefetch_count :: int
  rf_enable_dlq :: bool
  rf_dlq_exchange_suffix :: string
  rf_max_retries :: int
  rf_retry_delay :: int

text \<open>The configuration as it is given, and with the defaults.\<close>

record rabbit_settings =
  rs_url :: string
  rs_exchange :: string
  rs_exchange_type :: "exchange_type option"
  rs_pool_size :: "int option"
  rs_heartbeat :: "int option"
  rs_prefetch_count :: "int option"
  rs_enable_dlq :: "bool option"
  rs_dlq_exchange_suffix :: "string option"
  rs_max_retries :: "int option"
  rs_retry_delay :: "int option"

definition or_default :: "'a \<Rightarrow> 'a option \<Rightarrow> 'a" where
  "or_default d v = (case v of None \<Rightarrow> d | Some x \<Rightarrow> x)"

definition rabbit_config_of :: "rabbit_settings \<Rightarrow> rabbit_config" where
  "rabbit_config_of s = \<lparr>rf_url = rs_url s, rf_exchange = rs_exchange s,
     rf_exchange_type = or_default Topic (rs_exchange_type s), rf_pool_size = or_default 5 (rs_pool_size s),
     rf_heartbeat = or_default 60 (rs_heartbeat s), rf_prefetch_count = or_default 10 (rs_prefetch_count s),
     rf_enable_dlq = or_default True (rs_enable_dlq s), rf_dlq_exchange_suffix = or_default ''.dlq'' (rs_dlq_exchange_suffix s),
     rf_max_retries = or_default 3 (rs_max_retries s), rf_retry_delay = or_default 5000 (rs_retry_delay s)\<rparr>"

record rabbit_consumer_options =
  ro_queue :: string
  ro_routing_key :: "string option"
  ro_auto_ack :: "bool option"
  ro_exclusive :: "bool option"
  ro_durable :: "bool option"
  ro_enable_retry :: "bool option"
  ro_max_retries :: "int option"
  ro_retry_delay :: "int option"

definition dlq_exchange :: "rabbit_config \<Rightarrow> string" where
  "dlq_exchange cfg = rf_exchange cfg @ rf_dlq_exchange_suffix cfg"

section \<open>Channels\<close>

text \<open>A channel is its number.  The headers of a message may be missing.\<close>

record rabbit_message =
  rm_tag :: int
  rm_exchange :: string
  rm_routing_key :: string
  rm_content :: string
  rm_headers :: "(string, json) jsmap option"

datatype amqp_call =
    Assert_Exchange nat string exchange_type
  | Assert_Queue nat string bool bool "(string, string) jsmap"
  | Bind_Queue nat string string string
  | Consume nat string bool
  | Cancel nat string
  | Ack nat rabbit_message
  | Nack nat rabbit_message
  | Publish nat string string string "(string, json) jsmap"
  | Later int amqp_call

definition get_channel :: "nat list \<Rightarrow> (js_error, nat) outcome \<times> nat list" where
  "get_channel pool =
     (case pool of
        [] \<Rightarrow> (Inl (plain_error ''No channels available. Connection not established.''), [])
      | c # cs \<Rightarrow> (Inr c, cs @ [c]))"

definition assert_exchange :: "rabbit_config \<Rightarrow> nat list \<Rightarrow> (js_error, amqp_call list) outcome \<times> nat list" where
  "assert_exchange cfg pool =
     (case get_channel pool of
        (Inl e, p) \<Rightarrow> (Inl e, p)
      | (Inr c, p) \<Rightarrow> (Inr (Assert_Exchange c (rf_exchange cfg) (rf_exchange_type cfg)
          # (if rf_enable_dlq cfg then [Assert_Exchange c (dlq_exchange cfg) (rf_exchange_type cfg)] else [])), p))"

definition mask_rx :: rx where
  "mask_rx = seq_rx [lit ''//'', Group 1 (plus_rx (Chr (\<lambda>c. c \<noteq> CHR '':''))), lit '':'',
     Group 2 (plus_rx (Chr (\<lambda>c. c \<noteq> CHR ''@''))), lit ''@'']"

definition mask_url :: "string \<Rightarrow> string" where
  "mask_url url =
     (case rx_exec mask_rx url of
        None \<Rightarrow> url
      | Some (before, gs, rest) \<Rightarrow> before @ ''//'' @ or_default [] (jget gs 1) @ '':****@'' @ rest)"

section \<open>The connection\<close>

text \<open>
  \<open>connect\<close> may be refused, fail after some channels were made, or succeed.  The channels are
  numbered on from the ones made before.
\<close>

datatype connect_result = Refused string | Broken_After nat string | Opened

record rabbit_connection =
  rx_open :: bool
  rx_channels :: "nat list"
  rx_made :: nat
  rx_connected :: bool
  rx_last_error :: "string option"
  rx_timer :: bool

definition connection_new :: rabbit_connection where
  "connection_new = \<lparr>rx_open = False, rx_channels = [], rx_made = 0, rx_connected = False, rx_last_error = None, rx_timer = False\<rparr>"

definition add_channels :: "nat \<Rightarrow> rabbit_connection \<Rightarrow> rabbit_connection" where
  "add_channels n s = s\<lparr>rx_channels := rx_channels s @ [rx_made s..<rx_made s + n], rx_made := rx_made s + n\<rparr>"

definition rabbit_connect :: "rabbit_config \<Rightarrow> connect_result \<Rightarrow> rabbit_connection \<Rightarrow> rabbit_connection" where
  "rabbit_connect cfg res s =
     (case res of
        Refused msg \<Rightarrow> s\<lparr>rx_last_error := Some msg\<rparr>
      | Broken_After n msg \<Rightarrow>
          (add_channels n (s\<lparr>rx_open := True, rx_connected := True, rx_last_error := None\<rparr>))\<lparr>rx_last_error := Some msg\<rparr>
      | Opened \<Rightarrow>
          (let s1 = add_channels (nat (rf_pool_size cfg)) (s\<lparr>rx_open := True, rx_connected := True, rx_last_error := None\<rparr>)
           in case assert_exchange cfg (rx_channels s1) of
                (Inl e, p) \<Rightarrow> s1\<lparr>rx_channels := p, rx_last_error := Some (error_message e)\<rparr>
              | (Inr _, p) \<Rightarrow> s1\<lparr>rx_channels := p\<rparr>))"

definition handle_disconnect :: "rabbit_connection \<Rightarrow> rabbit_connection" where
  "handle_disconnect s = s\<lparr>rx_connected := False, rx_channels := [], rx_timer := True\<rparr>"

text \<open>\<open>close\<close>, before the server's \<open>close\<close> event comes back.\<close>

definition rabbit_close :: "rabbit_connection \<Rightarrow> rabbit_connection" where
  "rabbit_close s = s\<lparr>rx_timer := False, rx_channels := [], rx_open := False, rx_connected := False\<rparr>"

datatype connection_event =
    Connect_Called connect_result
  | Error_Event string
  | Close_Event
  | Timer_Fires connect_result
  | Close_Called

fun connection_step :: "rabbit_config \<Rightarrow> rabbit_connection \<Rightarrow> connection_event \<Rightarrow> rabbit_connection" where
  "connection_step cfg s (Connect_Called res) = rabbit_connect cfg res s"
| "connection_step cfg s (Error_Event msg) = handle_disconnect (s\<lparr>rx_last_error := Some msg\<rparr>)"
| "connection_step cfg s Close_Event = handle_disconnect s"
| "connection_step cfg s (Timer_Fires res) =
     (if rx_timer s then rabbit_connect cfg res (s\<lparr>rx_timer := False\<rparr>) else s)"
| "connection_step cfg s Close_Called = rabbit_close s"

datatype connection_status = Connected | Disconnected | Reconnecting

record rabbit_health =
  rh_is_healthy :: bool
  rh_status :: connection_status
  rh_channel_count :: int
  rh_last_error :: "string option"

definition rabbit_health_check :: "rabbit_connection \<Rightarrow> rabbit_health" where
  "rabbit_health_check s = \<lparr>rh_is_healthy = (rx_connected s \<and> 0 < length (rx_channels s)),
     rh_status = (if rx_connected s \<and> rx_open s then Connected else if rx_timer s then Reconnecting else Disconnected),
     rh_channel_count = int (length (rx_channels s)), rh_last_error = rx_last_error s\<rparr>"

section \<open>The publisher\<close>

definition or_undefined :: "string \<Rightarrow> string option \<Rightarrow> (string \<times> json) list" where
  "or_undefined k v = optional_field k JStr v"

definition rabbit_headers :: "json_envelope \<Rightarrow> (string, json) jsmap" where
  "rabbit_headers e = foldl (\<lambda>m (k, v). jset k v m)
     ([(''x-event-type'', JStr (ev_event_type e)), (''x-event-version'', JStr (ev_event_version e))]
      @ or_undefined ''x-tenant-id'' (ev_tenant_id e) @ or_undefined ''x-causation-id'' (ev_causation_id e))
     (case ev_metadata e of None \<Rightarrow> [] | Some m \<Rightarrow> m)"

definition rabbit_publish :: "(rat \<Rightarrow> string) \<Rightarrow> rabbit_config \<Rightarrow> json_envelope \<Rightarrow> nat list
    \<Rightarrow> (js_error, amqp_call) outcome \<times> nat list" where
  "rabbit_publish num cfg e pool =
     (case get_channel pool of
        (Inl err, p) \<Rightarrow> (Inl err, p)
      | (Inr c, p) \<Rightarrow> (Inr (Publish c (rf_exchange cfg) (ev_event_type e) (json_text num (envelope_json e)) (rabbit_headers e)), p))"

fun publish_each :: "(rat \<Rightarrow> string) \<Rightarrow> rabbit_config \<Rightarrow> json_envelope list \<Rightarrow> nat list
    \<Rightarrow> js_error list \<times> amqp_call list \<times> nat list" where
  "publish_each num cfg [] pool = ([], [], pool)"
| "publish_each num cfg (e # es) pool =
     (let (r, p1) = rabbit_publish num cfg e pool; (errs, calls, p2) = publish_each num cfg es p1
      in case r of Inl err \<Rightarrow> (err # errs, calls, p2) | Inr c \<Rightarrow> (errs, c # calls, p2))"

definition rabbit_publish_batch :: "(rat \<Rightarrow> string) \<Rightarrow> rabbit_config \<Rightarrow> json_envelope list \<Rightarrow> nat list
    \<Rightarrow> (js_error, unit) outcome \<times> amqp_call list \<times> nat list" where
  "rabbit_publish_batch num cfg es pool =
     (let (errs, calls, p) = publish_each num cfg es pool
      in (if 0 < length errs
          then Inl (plain_error (''Failed to publish '' @ show_int (int (length errs)) @ '' out of ''
                 @ show_int (int (length es)) @ '' events''))
          else Inr (), calls, p))"

section \<open>The consumer\<close>

record 'w rabbit_consumer =
  rb_handlers :: "'w event_handlers"
  rb_tags :: "string list"
  rb_running :: bool
  rb_processed :: "json option list"

definition rabbit_consumer_new :: "'w rabbit_consumer" where
  "rabbit_consumer_new = \<lparr>rb_handlers = [], rb_tags = [], rb_running = False, rb_processed = []\<rparr>"

definition rabbit_subscribe :: "string \<Rightarrow> (json \<Rightarrow> 'w \<Rightarrow> (js_error, unit) outcome \<times> 'w) \<Rightarrow> 'w rabbit_consumer
    \<Rightarrow> (js_error, unit) outcome \<times> 'w rabbit_consumer" where
  "rabbit_subscribe t h s =
     (if rb_running s then (Inl (plain_error ''Cannot subscribe after consumer is started''), s)
      else (Inr (), s\<lparr>rb_handlers := jset t h (rb_handlers s)\<rparr>))"

definition build_queue_arguments :: "rabbit_config \<Rightarrow> (string, string) jsmap" where
  "build_queue_arguments cfg = (if \<not> rf_enable_dlq cfg then [] else [(''x-dead-letter-exchange'', dlq_exchange cfg)])"

definition rabbit_start :: "rabbit_config \<Rightarrow> rabbit_consumer_options \<Rightarrow> string \<Rightarrow> nat list \<Rightarrow> 'w rabbit_consumer
    \<Rightarrow> (js_error, amqp_call list) outcome \<times> nat list \<times> 'w rabbit_consumer" where
  "rabbit_start cfg opts tag pool s =
     (if rb_running s then (Inl (plain_error ''Consumer is already running''), pool, s)
      else case get_channel pool of
        (Inl e, p) \<Rightarrow> (Inl e, p, s)
      | (Inr c, p) \<Rightarrow>
          (Inr (Assert_Queue c (ro_queue opts) (or_default True (ro_durable opts)) (or_default False (ro_exclusive opts)) (build_queue_arguments cfg)
             # map (\<lambda>t. Bind_Queue c (ro_queue opts) (rf_exchange cfg) (or_default t (ro_routing_key opts))) (jkeys (rb_handlers s))
             @ [Consume c (ro_queue opts) (or_default False (ro_auto_ack opts))]),
           p, s\<lparr>rb_tags := rb_tags s @ [tag], rb_running := True\<rparr>))"

definition rabbit_stop :: "nat list \<Rightarrow> 'w rabbit_consumer \<Rightarrow> (js_error, amqp_call list) outcome \<times> nat list \<times> 'w rabbit_consumer" where
  "rabbit_stop pool s =
     (if \<not> rb_running s then (Inr [], pool, s)
      else case get_channel pool of
        (Inl e, p) \<Rightarrow> (Inl e, p, s)
      | (Inr c, p) \<Rightarrow> (Inr (map (Cancel c) (rb_tags s)), p, s\<lparr>rb_tags := [], rb_running := False, rb_processed := []\<rparr>))"

text \<open>The count is written by \<open>retryMessage\<close> only, as a natural number.\<close>

definition retry_count :: "rabbit_message \<Rightarrow> nat" where
  "retry_count msg =
     (case rm_headers msg of
        None \<Rightarrow> 0
      | Some hs \<Rightarrow> (case jget hs ''x-retry-count'' of Some (JNum q) \<Rightarrow> nat \<lfloor>q\<rfloor> | _ \<Rightarrow> 0))"

definition should_retry :: "rabbit_config \<Rightarrow> rabbit_consumer_options \<Rightarrow> rabbit_message \<Rightarrow> bool" where
  "should_retry cfg opts msg \<longleftrightarrow>
     or_default True (ro_enable_retry opts) \<and> int (retry_count msg) < or_default (rf_max_retries cfg) (ro_max_retries opts)"

definition headers_of :: "rabbit_message \<Rightarrow> (string, json) jsmap" where
  "headers_of msg = or_default [] (rm_headers msg)"

definition retry_message :: "rabbit_config \<Rightarrow> rabbit_consumer_options \<Rightarrow> nat \<Rightarrow> rabbit_message \<Rightarrow> amqp_call list" where
  "retry_message cfg opts c msg =
     (let count = retry_count msg; delay = or_default (rf_retry_delay cfg) (ro_retry_delay opts) * 2 ^ count
      in [Nack c msg, Later delay (Publish c (rf_exchange cfg) (rm_routing_key msg) (rm_content msg)
            (jset ''x-retry-count'' (JNum (of_nat (count + 1))) (headers_of msg)))])"

definition send_to_dlq :: "rabbit_config \<Rightarrow> int \<Rightarrow> nat \<Rightarrow> rabbit_message \<Rightarrow> js_error \<Rightarrow> amqp_call list" where
  "send_to_dlq cfg now c msg e =
     (if \<not> rf_enable_dlq cfg then [Nack c msg]
      else [Publish c (dlq_exchange cfg) (rm_routing_key msg) (rm_content msg)
              (jset ''x-original-routing-key'' (JStr (rm_routing_key msg)) (jset ''x-original-exchange'' (JStr (rm_exchange msg))
                (jset ''x-death-timestamp'' (JNum (of_int now)) (jset ''x-death-reason'' (JStr (error_message e)) (headers_of msg))))),
            Ack c msg])"

definition message_failed :: "rabbit_config \<Rightarrow> rabbit_consumer_options \<Rightarrow> int \<Rightarrow> nat \<Rightarrow> rabbit_message \<Rightarrow> js_error \<Rightarrow> amqp_call list" where
  "message_failed cfg opts now c msg e =
     (if should_retry cfg opts msg then retry_message cfg opts c msg else send_to_dlq cfg now c msg e)"

text \<open>A message up to the call of its handler: done, failed, or waiting for the handler.\<close>

datatype 'w begun =
    Done_With "amqp_call list"
  | Failed_With js_error
  | Waiting json "json option" "json \<Rightarrow> 'w \<Rightarrow> (js_error, unit) outcome \<times> 'w"

definition begin_message :: "(string \<Rightarrow> rat option) \<Rightarrow> nat \<Rightarrow> rabbit_message \<Rightarrow> 'w rabbit_consumer \<Rightarrow> 'w begun" where
  "begin_message rd c msg s =
     (case json_parse rd (rm_content msg) of
        None \<Rightarrow> Failed_With (JsError ''SyntaxError'' ''Unexpected token'')
      | Some env \<Rightarrow>
          (case member_of env ''eventId'' of
             Inl e \<Rightarrow> Failed_With e
           | Inr i \<Rightarrow>
               if seen (rb_processed s) i then Done_With [Ack c msg]
               else (case member_of env ''eventType'' of
                       Inl e \<Rightarrow> Failed_With e
                     | Inr t \<Rightarrow> (case handler_for (rb_handlers s) t of
                          None \<Rightarrow> Done_With [Ack c msg] | Some h \<Rightarrow> Waiting env i h))))"

definition settle_message :: "rabbit_config \<Rightarrow> rabbit_consumer_options \<Rightarrow> int \<Rightarrow> nat \<Rightarrow> rabbit_message \<Rightarrow> json option
    \<Rightarrow> (js_error, unit) outcome \<Rightarrow> 'w rabbit_consumer \<Rightarrow> amqp_call list \<times> 'w rabbit_consumer" where
  "settle_message cfg opts now c msg i res s =
     (case res of
        Inl e \<Rightarrow> (message_failed cfg opts now c msg e, s)
      | Inr _ \<Rightarrow> ([Ack c msg], s\<lparr>rb_processed := remember max_seen i (rb_processed s)\<rparr>))"

text \<open>The whole of it, when nothing else happens while the handler runs.\<close>

definition handle_message :: "(string \<Rightarrow> rat option) \<Rightarrow> rabbit_config \<Rightarrow> rabbit_consumer_options \<Rightarrow> int \<Rightarrow> rabbit_message
    \<Rightarrow> nat list \<Rightarrow> 'w rabbit_consumer \<Rightarrow> 'w \<Rightarrow> (js_error, amqp_call list) outcome \<times> nat list \<times> 'w rabbit_consumer \<times> 'w" where
  "handle_message rd cfg opts now msg pool s w =
     (case get_channel pool of
        (Inl e, p) \<Rightarrow> (Inl e, p, s, w)
      | (Inr c, p) \<Rightarrow>
          (case begin_message rd c msg s of
             Done_With calls \<Rightarrow> (Inr calls, p, s, w)
           | Failed_With e \<Rightarrow> (Inr (message_failed cfg opts now c msg e), p, s, w)
           | Waiting env i h \<Rightarrow>
               (let (res, w1) = h env w; (calls, s1) = settle_message cfg opts now c msg i res s
                in (Inr calls, p, s1, w1))))"


section \<open>Channels in turn\<close>

lemma get_channel_simps [simp]:
  "get_channel [] = (Inl (plain_error ''No channels available. Connection not established.''), [])"
  "pool \<noteq> [] \<Longrightarrow> get_channel pool = (Inr (hd pool), rotate1 pool)"
  by (cases pool; simp add: get_channel_def)+

fun call_channel :: "amqp_call \<Rightarrow> nat" where
  "call_channel (Assert_Exchange c _ _) = c"
| "call_channel (Assert_Queue c _ _ _ _) = c"
| "call_channel (Bind_Queue c _ _ _) = c"
| "call_channel (Consume c _ _) = c"
| "call_channel (Cancel c _) = c"
| "call_channel (Ack c _) = c"
| "call_channel (Nack c _) = c"
| "call_channel (Publish c _ _ _ _) = c"
| "call_channel (Later _ call) = call_channel call"

lemma failed_channel: "call \<in> set (message_failed cfg opts now c msg e) \<Longrightarrow> call_channel call = c"
  by (auto simp: message_failed_def retry_message_def send_to_dlq_def Let_def split: if_splits)

lemma begin_channel: "begin_message rd c msg s = Done_With calls \<Longrightarrow> calls = [Ack c msg]"
  by (auto simp: begin_message_def split: option.splits sum.splits if_splits)

lemma handle_channel:
  assumes "handle_message rd cfg opts now msg pool s w = (Inr calls, p, s1, w1)"
  shows "pool \<noteq> []" and "p = rotate1 pool" and "\<forall>call \<in> set calls. call_channel call = hd pool"
proof -
  show ne: "pool \<noteq> []" using assms by (cases pool) (auto simp: handle_message_def)
  show "p = rotate1 pool"
    using assms ne by (auto simp: handle_message_def Let_def split: begun.splits prod.splits)
  show "\<forall>call \<in> set calls. call_channel call = hd pool"
  proof (cases "begin_message rd (hd pool) msg s")
    case (Done_With cs)
    with assms ne begin_channel [OF Done_With] show ?thesis by (auto simp: handle_message_def)
  next
    case (Failed_With e)
    with assms ne show ?thesis by (auto simp: handle_message_def dest: failed_channel)
  next
    case (Waiting env i h)
    with assms ne show ?thesis
      by (auto simp: handle_message_def settle_message_def Let_def split: prod.splits sum.splits dest: failed_channel)
  qed
qed

lemma handle_some: "pool \<noteq> [] \<Longrightarrow> \<exists>calls s1 w1. handle_message rd cfg opts now msg pool s w = (Inr calls, rotate1 pool, s1, w1)"
  by (cases "begin_message rd (hd pool) msg s") (simp_all add: handle_message_def Let_def split_beta)

text \<open>Messages one after the other.\<close>

fun handle_all :: "(string \<Rightarrow> rat option) \<Rightarrow> rabbit_config \<Rightarrow> rabbit_consumer_options \<Rightarrow> int \<Rightarrow> rabbit_message list
    \<Rightarrow> nat list \<Rightarrow> 'w rabbit_consumer \<Rightarrow> 'w \<Rightarrow> amqp_call list list" where
  "handle_all rd cfg opts now [] pool s w = []"
| "handle_all rd cfg opts now (m # ms) pool s w =
     (case handle_message rd cfg opts now m pool s w of
        (Inl e, p, s1, w1) \<Rightarrow> [] # handle_all rd cfg opts now ms p s1 w1
      | (Inr calls, p, s1, w1) \<Rightarrow> calls # handle_all rd cfg opts now ms p s1 w1)"

lemma hd_rotate: "pool \<noteq> [] \<Longrightarrow> hd (rotate i pool) = pool ! (i mod length pool)"
  using nth_rotate [of 0 pool i] by (simp add: hd_conv_nth)

lemma handle_all_channels:
  assumes "pool \<noteq> []" and "i < length ms"
  shows "\<forall>call \<in> set (handle_all rd cfg opts now ms pool s w ! i). call_channel call = pool ! (i mod length pool)"
  using assms
proof (induction ms arbitrary: i pool s w)
  case (Cons m ms)
  obtain calls s1 w1 where h: "handle_message rd cfg opts now m pool s w = (Inr calls, rotate1 pool, s1, w1)"
    using handle_some [OF Cons.prems(1), of rd cfg opts now m s w] by blast
  show ?case
  proof (cases i)
    case 0
    with h handle_channel(3) [OF h] Cons.prems(1) show ?thesis by (simp add: hd_conv_nth)
  next
    case (Suc j)
    have "\<forall>call \<in> set (handle_all rd cfg opts now ms (rotate1 pool) s1 w1 ! j).
        call_channel call = rotate1 pool ! (j mod length pool)"
      using Cons.IH [of "rotate1 pool" j s1 w1] Cons.prems Suc by simp
    moreover have "rotate1 pool ! (j mod length pool) = pool ! (i mod length pool)"
      using Cons.prems(1) nth_rotate1 [of "j mod length pool" pool] Suc by (simp add: mod_Suc_eq)
    ultimately show ?thesis by (simp add: h Suc)
  qed
qed simp

text \<open>
  The channels are taken in turn, one for each message, so the \<open>i\<close>-th message after the start is
  acknowledged on the channel it was delivered on only when the size of the pool divides \<open>i\<close>
  (counting from 1); a broker closes a channel that acknowledges what it did not deliver.
\<close>

theorem acknowledged_on_other_channel:
  assumes "distinct pool" and "rabbit_start cfg opts tag pool s = (Inr made, p, s1)"
    and "i < length ms" and "call \<in> set (handle_all rd cfg opts now ms p s1 w ! i)"
  shows "(\<forall>c \<in> set made. call_channel c = hd pool)
    \<and> (call_channel call = hd pool \<longleftrightarrow> length pool dvd i + 1)"
proof -
  have ne: "pool \<noteq> []" using assms(2) by (cases pool) (auto simp: rabbit_start_def split: if_splits)
  have p: "p = rotate1 pool" and made: "\<forall>c \<in> set made. call_channel c = hd pool"
    using assms(2) ne by (auto simp: rabbit_start_def split: if_splits)
  have "call_channel call = rotate1 pool ! (i mod length pool)"
    using handle_all_channels [of p i ms rd cfg opts now s1 w] ne assms(3,4) p by auto
  also have "\<dots> = pool ! ((i + 1) mod length pool)"
    using ne nth_rotate1 [of "i mod length pool" pool] by (simp add: mod_Suc_eq)
  finally have "call_channel call = pool ! ((i + 1) mod length pool)" .
  then have "call_channel call = hd pool \<longleftrightarrow> (i + 1) mod length pool = 0"
    using ne assms(1) by (simp add: hd_conv_nth nth_eq_iff_index_eq)
  with made show ?thesis by (simp add: dvd_eq_mod_eq_0)
qed

definition demo_config :: rabbit_config where
  "demo_config = rabbit_config_of \<lparr>rs_url = ''amqp://localhost'', rs_exchange = ''events'', rs_exchange_type = None, rs_pool_size = None,
     rs_heartbeat = None, rs_prefetch_count = None, rs_enable_dlq = None, rs_dlq_exchange_suffix = None, rs_max_retries = None,
     rs_retry_delay = None\<rparr>"

definition demo_options :: rabbit_consumer_options where
  "demo_options = \<lparr>ro_queue = ''q'', ro_routing_key = None, ro_auto_ack = None, ro_exclusive = None, ro_durable = None,
     ro_enable_retry = None, ro_max_retries = None, ro_retry_delay = None\<rparr>"

definition demo_message :: "string \<Rightarrow> rabbit_message" where
  "demo_message t = \<lparr>rm_tag = 1, rm_exchange = ''events'', rm_routing_key = ''X'', rm_content = t, rm_headers = None\<rparr>"

theorem acknowledged_on_other_channel_witness:
  "call_channel (Ack 1 (demo_message ''{}'')) \<noteq> 0
   \<and> Ack 1 (demo_message ''{}'') \<in> set (handle_all (\<lambda>_. None) demo_config demo_options 0 [demo_message ''{}''] [1, 2, 0]
        (rabbit_consumer_new\<lparr>rb_tags := [''t''], rb_running := True\<rparr>) () ! 0)"
proof -
  have start: "rabbit_start demo_config demo_options ''t'' [0, 1, 2] rabbit_consumer_new
      = (Inr (the (case fst (rabbit_start demo_config demo_options ''t'' [0, 1, 2] (rabbit_consumer_new :: unit rabbit_consumer)) of Inr x \<Rightarrow> Some x)),
         [1, 2, 0], rabbit_consumer_new\<lparr>rb_tags := [''t''], rb_running := True\<rparr>)"
    by (simp add: rabbit_start_def rabbit_consumer_new_def)
  have parse: "json_parse (\<lambda>_. None) ''{}'' = Some (JObj [])" by code_simp
  have ack: "Ack 1 (demo_message ''{}'') \<in> set (handle_all (\<lambda>_. None) demo_config demo_options 0 [demo_message ''{}''] [1, 2, 0]
        (rabbit_consumer_new\<lparr>rb_tags := [''t''], rb_running := True\<rparr>) () ! 0)"
    by (simp add: handle_message_def begin_message_def demo_message_def parse member_of_def seen_def rabbit_consumer_new_def handler_for_def)
  show ?thesis
    using acknowledged_on_other_channel [OF _ start _ ack] ack by simp
qed


section \<open>Retries\<close>

text \<open>What a delayed publication delivers again, and the life of a message through its retries.\<close>

definition redelivered :: "rabbit_message \<Rightarrow> amqp_call list \<Rightarrow> rabbit_message option" where
  "redelivered msg calls =
     (case calls of
        [Nack _ _, Later _ (Publish _ ex key content hs)] \<Rightarrow>
          Some (msg\<lparr>rm_exchange := ex, rm_routing_key := key, rm_content := content, rm_headers := Some hs\<rparr>)
      | _ \<Rightarrow> None)"

fun message_life :: "nat \<Rightarrow> (string \<Rightarrow> rat option) \<Rightarrow> rabbit_config \<Rightarrow> rabbit_consumer_options \<Rightarrow> int \<Rightarrow> rabbit_message
    \<Rightarrow> nat list \<Rightarrow> 'w rabbit_consumer \<Rightarrow> 'w \<Rightarrow> amqp_call list list" where
  "message_life 0 rd cfg opts now msg pool s w = []"
| "message_life (Suc n) rd cfg opts now msg pool s w =
     (case handle_message rd cfg opts now msg pool s w of
        (Inl e, p, s1, w1) \<Rightarrow> []
      | (Inr calls, p, s1, w1) \<Rightarrow>
          calls # (case redelivered msg calls of None \<Rightarrow> [] | Some m \<Rightarrow> message_life n rd cfg opts now m p s1 w1))"

text \<open>A content fails when it cannot be read or its handler always throws.\<close>

definition always_fails :: "(string \<Rightarrow> rat option) \<Rightarrow> 'w rabbit_consumer \<Rightarrow> string \<Rightarrow> js_error \<Rightarrow> bool" where
  "always_fails rd s content e \<longleftrightarrow> (\<forall>c m. rm_content m = content \<longrightarrow>
     begin_message rd c m s = Failed_With e
     \<or> (\<exists>env i h. begin_message rd c m s = Waiting env i h \<and> (\<forall>w. fst (h env w) = Inl e)))"

lemma handle_failing:
  assumes "always_fails rd s (rm_content msg) e" and "pool \<noteq> []"
  shows "\<exists>w1. handle_message rd cfg opts now msg pool s w = (Inr (message_failed cfg opts now (hd pool) msg e), rotate1 pool, s, w1)"
proof -
  consider "begin_message rd (hd pool) msg s = Failed_With e"
    | env i h where "begin_message rd (hd pool) msg s = Waiting env i h" "\<forall>w. fst (h env w) = Inl e"
    using assms(1) unfolding always_fails_def by blast
  then show ?thesis
  proof cases
    case 1
    then show ?thesis using assms(2) by (simp add: handle_message_def)
  next
    case 2
    then have "h env w = (Inl e, snd (h env w))" by (metis prod.collapse)
    with 2 assms(2) show ?thesis by (simp add: handle_message_def settle_message_def Let_def split_beta)
  qed
qed

definition max_tries :: "rabbit_config \<Rightarrow> rabbit_consumer_options \<Rightarrow> nat" where
  "max_tries cfg opts = nat (or_default (rf_max_retries cfg) (ro_max_retries opts))"

definition first_delay :: "rabbit_config \<Rightarrow> rabbit_consumer_options \<Rightarrow> int" where
  "first_delay cfg opts = or_default (rf_retry_delay cfg) (ro_retry_delay opts)"

text \<open>The calls of the attempt after \<open>k\<close> retries.\<close>

definition retries :: "int \<Rightarrow> nat \<Rightarrow> amqp_call list \<Rightarrow> bool" where
  "retries d k calls \<longleftrightarrow> (\<exists>c m ex key content hs. calls = [Nack c m, Later (d * 2 ^ k) (Publish c ex key content hs)]
     \<and> jget hs ''x-retry-count'' = Some (JNum (of_nat (k + 1))))"

definition gives_up :: "rabbit_config \<Rightarrow> js_error \<Rightarrow> amqp_call list \<Rightarrow> bool" where
  "gives_up cfg e calls \<longleftrightarrow> (\<exists>c m hs. calls = [Publish c (dlq_exchange cfg) (rm_routing_key m) (rm_content m) hs, Ack c m]
     \<and> jget hs ''x-death-reason'' = Some (JStr (error_message e)))"

lemma life_of_failing:
  assumes "always_fails rd s (rm_content msg) e" and "pool \<noteq> []"
    and "or_default True (ro_enable_retry opts)" and "rf_enable_dlq cfg"
    and "retry_count msg + k = max_tries cfg opts" and "k < n"
  shows "length (message_life n rd cfg opts now msg pool s w) = k + 1
    \<and> (\<forall>j < k. retries (first_delay cfg opts) (retry_count msg + j) (message_life n rd cfg opts now msg pool s w ! j))
    \<and> gives_up cfg e (message_life n rd cfg opts now msg pool s w ! k)"
  using assms
proof (induction k arbitrary: n msg pool w)
  case 0
  then obtain m where n: "n = Suc m" by (cases n) auto
  obtain w1 where h: "handle_message rd cfg opts now msg pool s w = (Inr (message_failed cfg opts now (hd pool) msg e), rotate1 pool, s, w1)"
    using handle_failing [OF 0(1,2)] by blast
  have "\<not> should_retry cfg opts msg" using 0(5) by (simp add: should_retry_def max_tries_def)
  then have failed: "message_failed cfg opts now (hd pool) msg e = send_to_dlq cfg now (hd pool) msg e"
    by (simp add: message_failed_def)
  have "gives_up cfg e (send_to_dlq cfg now (hd pool) msg e)"
    using 0(4) unfolding gives_up_def send_to_dlq_def by auto
  moreover have "redelivered msg (send_to_dlq cfg now (hd pool) msg e) = None"
    using 0(4) by (simp add: send_to_dlq_def redelivered_def)
  ultimately show ?case by (simp add: n h failed)
next
  case (Suc k)
  then obtain m where n: "n = Suc m" by (cases n) auto
  obtain w1 where h: "handle_message rd cfg opts now msg pool s w = (Inr (message_failed cfg opts now (hd pool) msg e), rotate1 pool, s, w1)"
    using handle_failing [OF Suc.prems(1,2)] by blast
  have "should_retry cfg opts msg" using Suc.prems(3,5) by (simp add: should_retry_def max_tries_def)
  then have failed: "message_failed cfg opts now (hd pool) msg e = retry_message cfg opts (hd pool) msg"
    by (simp add: message_failed_def)
  obtain m2 where red: "redelivered msg (retry_message cfg opts (hd pool) msg) = Some m2"
    and m2: "rm_content m2 = rm_content msg" "retry_count m2 = Suc (retry_count msg)"
    by (simp add: retry_message_def redelivered_def retry_count_def Let_def)
  have IH: "length (message_life m rd cfg opts now m2 (rotate1 pool) s w1) = k + 1
    \<and> (\<forall>j < k. retries (first_delay cfg opts) (retry_count m2 + j) (message_life m rd cfg opts now m2 (rotate1 pool) s w1 ! j))
    \<and> gives_up cfg e (message_life m rd cfg opts now m2 (rotate1 pool) s w1 ! k)"
    using Suc.prems n m2 by (intro Suc.IH) auto
  have "retries (first_delay cfg opts) (retry_count msg) (retry_message cfg opts (hd pool) msg)"
    by (simp add: retries_def retry_message_def first_delay_def Let_def)
  with IH show ?case
    by (simp add: n h failed red m2 All_less_Suc2)
qed



text \<open>
  A retry rejects the message without requeueing it, on a queue whose rejected messages go to the
  exchange of the dead letters: whoever reads the dead letters gets the message at its first failure.
\<close>

theorem retry_dead_letters_too:
  assumes "rf_enable_dlq cfg" and "should_retry cfg opts msg" and "rabbit_start cfg opts tag pool s = (Inr calls, p, s1)"
  shows "Nack c msg \<in> set (message_failed cfg opts now c msg e)
    \<and> Assert_Queue (hd pool) (ro_queue opts) (or_default True (ro_durable opts)) (or_default False (ro_exclusive opts))
        [(''x-dead-letter-exchange'', dlq_exchange cfg)] \<in> set calls"
proof -
  have "pool \<noteq> []" using assms(3) by (cases pool) (auto simp: rabbit_start_def split: if_splits)
  with assms show ?thesis
    by (auto simp: message_failed_def retry_message_def Let_def rabbit_start_def build_queue_arguments_def split: if_splits)
qed

theorem retry_dead_letters_too_witness:
  "Nack 0 (demo_message []) \<in> set (message_failed demo_config demo_options 0 0 (demo_message []) (plain_error ''x''))"
proof -
  have start: "rabbit_start demo_config demo_options ''t'' [0] rabbit_consumer_new
      = (Inr [Assert_Queue 0 ''q'' True False [(''x-dead-letter-exchange'', ''events.dlq'')], Consume 0 ''q'' False], [0],
         (rabbit_consumer_new :: unit rabbit_consumer)\<lparr>rb_tags := [''t''], rb_running := True\<rparr>)"
    by (simp add: rabbit_start_def rabbit_consumer_new_def demo_options_def demo_config_def rabbit_config_of_def or_default_def
        build_queue_arguments_def dlq_exchange_def)
  show ?thesis
    by (rule conjunct1 [OF retry_dead_letters_too [OF _ _ start]])
       (simp_all add: should_retry_def retry_count_def demo_options_def demo_config_def rabbit_config_of_def or_default_def demo_message_def)
qed


section \<open>Messages delivered again\<close>

definition message_id :: "(string \<Rightarrow> rat option) \<Rightarrow> rabbit_message \<Rightarrow> json option" where
  "message_id rd msg = (case json_parse rd (rm_content msg) of Some (JObj fs) \<Rightarrow> jget fs ''eventId'' | _ \<Rightarrow> None)"

definition known_event :: "(string \<Rightarrow> rat option) \<Rightarrow> 'w event_handlers \<Rightarrow> rabbit_message \<Rightarrow> bool" where
  "known_event rd hs msg \<longleftrightarrow> (\<exists>fs h. json_parse rd (rm_content msg) = Some (JObj fs)
     \<and> handler_for hs (jget fs ''eventType'') = Some h \<and> (\<forall>w. fst (h (JObj fs) w) = Inr ()))"

lemma begin_known:
  assumes "known_event rd (rb_handlers s) msg"
  shows "begin_message rd c msg s = (if seen (rb_processed s) (message_id rd msg) then Done_With [Ack c msg]
      else (case json_parse rd (rm_content msg) of Some (JObj fs) \<Rightarrow>
        Waiting (JObj fs) (message_id rd msg) (the (handler_for (rb_handlers s) (jget fs ''eventType'')))))"
  using assms by (auto simp: known_event_def begin_message_def message_id_def member_of_def)

fun consumer_after :: "(string \<Rightarrow> rat option) \<Rightarrow> rabbit_config \<Rightarrow> rabbit_consumer_options \<Rightarrow> int \<Rightarrow> rabbit_message list
    \<Rightarrow> nat list \<Rightarrow> 'w rabbit_consumer \<Rightarrow> 'w \<Rightarrow> 'w rabbit_consumer" where
  "consumer_after rd cfg opts now [] pool s w = s"
| "consumer_after rd cfg opts now (m # ms) pool s w =
     (case handle_message rd cfg opts now m pool s w of (r, p, s1, w1) \<Rightarrow> consumer_after rd cfg opts now ms p s1 w1)"

lemma handle_known:
  assumes "known_event rd (rb_handlers s) msg" and "pool \<noteq> []" and "\<not> seen (rb_processed s) (message_id rd msg)"
  shows "\<exists>w1. handle_message rd cfg opts now msg pool s w = (Inr [Ack (hd pool) msg], rotate1 pool,
      s\<lparr>rb_processed := remember max_seen (message_id rd msg) (rb_processed s)\<rparr>, w1)"
proof -
  obtain fs h where f: "json_parse rd (rm_content msg) = Some (JObj fs)" "handler_for (rb_handlers s) (jget fs ''eventType'') = Some h"
    "\<forall>w. fst (h (JObj fs) w) = Inr ()" using assms(1) by (auto simp: known_event_def)
  have "h (JObj fs) w = (Inr (), snd (h (JObj fs) w))" using f(3) by (metis prod.collapse)
  with begin_known [OF assms(1), of "hd pool"] f assms(2,3) show ?thesis
    by (simp add: handle_message_def settle_message_def Let_def split_beta)
qed

lemma processed_after:
  assumes "\<forall>m \<in> set ms. known_event rd hs m" and "pool \<noteq> []"
    and "distinct (map (message_id rd) ms)"
  shows "\<exists>s1. consumer_after rd cfg opts now ms pool (rabbit_consumer_new\<lparr>rb_handlers := hs\<rparr>) w = s1
    \<and> rb_handlers s1 = hs
    \<and> rb_processed s1 = drop (length ms - max_seen) (map (message_id rd) ms)"
proof -
  have run: "rb_handlers (consumer_after rd cfg opts now ms pool s w) = rb_handlers s
    \<and> rb_processed (consumer_after rd cfg opts now ms pool s w)
      = foldl (\<lambda>xs k. remember max_seen k xs) (rb_processed s) (map (message_id rd) ms)"
    if "\<forall>m \<in> set ms. known_event rd (rb_handlers s) m" "pool \<noteq> []" "distinct (ks @ map (message_id rd) ms)"
      "rb_processed s = drop (length ks - max_seen) ks" for ms s pool w ks
    using that
  proof (induction ms arbitrary: s pool w ks)
    case (Cons m ms)
    have "message_id rd m \<notin> set ks" using Cons.prems(3) by simp
    then have new: "\<not> seen (rb_processed s) (message_id rd m)"
      using Cons.prems(4) by (auto simp: seen_def dest: in_set_dropD)
    obtain w1 where h: "handle_message rd cfg opts now m pool s w = (Inr [Ack (hd pool) m], rotate1 pool,
        s\<lparr>rb_processed := remember max_seen (message_id rd m) (rb_processed s)\<rparr>, w1)"
      using handle_known [OF _ Cons.prems(2) new] Cons.prems(1) by fastforce
    have "foldl (\<lambda>xs k. remember max_seen k xs) [] (ks @ [message_id rd m])
        = drop (length (ks @ [message_id rd m]) - max_seen) (ks @ [message_id rd m])"
      using Cons.prems(3) by (intro add_first.add_all_new [OF _ refl]) auto
    moreover have "foldl (\<lambda>xs k. remember max_seen k xs) [] ks = drop (length ks - max_seen) ks"
      using Cons.prems(3) by (intro add_first.add_all_new [OF _ refl]) auto
    ultimately have "remember max_seen (message_id rd m) (rb_processed s)
        = drop (length (ks @ [message_id rd m]) - max_seen) (ks @ [message_id rd m])"
      using Cons.prems(4) by simp
    with Cons.IH [of "s\<lparr>rb_processed := remember max_seen (message_id rd m) (rb_processed s)\<rparr>" "rotate1 pool"
        "ks @ [message_id rd m]" w1] Cons.prems h
    show ?case by simp
  qed simp
  show ?thesis
    using run [of ms "rabbit_consumer_new\<lparr>rb_handlers := hs\<rparr>" pool "[]" w] assms
      add_first.add_all_new [OF assms(3) refl]
    by (simp add: rabbit_consumer_new_def)
qed

text \<open>Handling known events with different identifiers, the consumer remembers the identifiers in order.\<close>

theorem redelivery:
  assumes "\<forall>m \<in> set ms. known_event rd hs m" and "pool \<noteq> []" and "distinct (map (message_id rd) ms)"
    and "m \<in> set ms" and "primitive (message_id rd m)"
    and "s = consumer_after rd cfg opts now ms pool (rabbit_consumer_new\<lparr>rb_handlers := hs\<rparr>) w"
  shows "begin_message rd c m s = Done_With [Ack c m]
      \<longleftrightarrow> message_id rd m \<in> set (drop (length ms - 10000) (map (message_id rd) ms))"
proof -
  have s: "rb_handlers s = hs" "rb_processed s = drop (length ms - 10000) (map (message_id rd) ms)"
    using processed_after [OF assms(1-3)] assms(6) by (auto simp: max_seen_def)
  then have "known_event rd (rb_handlers s) m" using assms(1,4) by simp
  then show ?thesis
    using begin_known [of rd s m c] assms(5) s(2)
    by (auto simp: seen_def known_event_def split: if_splits)
qed

definition demo_handlers :: "unit event_handlers" where
  "demo_handlers = [(''X'', \<lambda>_ w. (Inr (), w))]"

definition demo_text :: string where
  "demo_text = json_text (\<lambda>_. []) (JObj [(''eventId'', JStr ''1''), (''eventType'', JStr ''X'')])"

lemma demo_parse: "json_parse (\<lambda>_. None) demo_text = Some (JObj [(''eventId'', JStr ''1''), (''eventType'', JStr ''X'')])"
  unfolding demo_text_def by (rule json_round_trip) simp

lemma demo_known: "known_event (\<lambda>_. None) demo_handlers (demo_message demo_text)"
  by (simp add: known_event_def demo_message_def demo_parse handler_for_def demo_handlers_def)

theorem redelivery_witness:
  "begin_message (\<lambda>_. None) 0 (demo_message demo_text)
     (consumer_after (\<lambda>_. None) demo_config demo_options 0 [demo_message demo_text] [0] (rabbit_consumer_new\<lparr>rb_handlers := demo_handlers\<rparr>) ())
   = Done_With [Ack 0 (demo_message demo_text)]"
  using redelivery [of "[demo_message demo_text]" "\<lambda>_. None" demo_handlers "[0]" "demo_message demo_text"] demo_known
  by (simp add: message_id_def demo_message_def demo_parse primitive_def)

text \<open>
  After known events with different identifiers were handled, one that is delivered again is
  acknowledged without its handler when it is among the last 10000, and handled again otherwise.
\<close>

theorem copies_in_flight:
  assumes "begin_message rd c msg s = Waiting env i h" and "rm_content copy = rm_content msg"
  shows "begin_message rd d copy s = Waiting env i h
    \<and> (\<forall>s2. rb_processed s2 = remember max_seen i (rb_processed s) \<longrightarrow> length (rb_processed s) \<le> max_seen \<longrightarrow> primitive i
        \<longrightarrow> begin_message rd d copy s2 = Done_With [Ack d copy])"
proof -
  have "begin_message rd d copy s = Waiting env i h"
    using assms by (auto simp: begin_message_def split: option.splits sum.splits if_splits)
  moreover have "begin_message rd d copy s2 = Done_With [Ack d copy]"
    if s2: "rb_processed s2 = remember max_seen i (rb_processed s)" "length (rb_processed s) \<le> max_seen" "primitive i" for s2
  proof -
    have i: "\<not> seen (rb_processed s) i" "json_parse rd (rm_content msg) = Some env" "member_of env ''eventId'' = Inr i"
      using assms(1) by (auto simp: begin_message_def split: option.splits sum.splits if_splits)
    then have "seen (rb_processed s2) i" using s2 by (simp add: seen_remember max_seen_def)
    with i assms(2) show ?thesis by (simp add: begin_message_def)
  qed
  ultimately show ?thesis by blast
qed

theorem copies_in_flight_witness:
  "\<exists>env i h. begin_message (\<lambda>_. None) 1 (demo_message demo_text) (rabbit_consumer_new\<lparr>rb_handlers := demo_handlers\<rparr>) = Waiting env i h"
proof -
  obtain env i h where "begin_message (\<lambda>_. None) 0 (demo_message demo_text) (rabbit_consumer_new\<lparr>rb_handlers := demo_handlers\<rparr>) = Waiting env i h"
    by (simp add: begin_message_def demo_message_def demo_parse member_of_def seen_def rabbit_consumer_new_def handler_for_def demo_handlers_def)
  from copies_in_flight [OF this refl] show ?thesis by blast
qed

text \<open>
  The identifier is looked up before the handler and entered after it: a copy that is delivered
  while the handler runs is given to the handler as well.
\<close>

theorem missing_identifier_swallows:
  assumes "known_event rd (rb_handlers s) first" and "message_id rd first = None" and "pool \<noteq> []"
    and "length (rb_processed s) \<le> max_seen" and "handle_message rd cfg opts now first pool s w = (Inr calls, p, s1, w1)"
    and "json_parse rd (rm_content other) = Some (JObj fs)" and "jget fs ''eventId'' = None"
  shows "begin_message rd c other s1 = Done_With [Ack c other]"
proof -
  have "seen (rb_processed s1) None"
  proof (cases "seen (rb_processed s) None")
    case True
    then have "s1 = s" using assms(5) begin_known [OF assms(1), of "hd pool"] assms(2,3) by (simp add: handle_message_def)
    with True show ?thesis by simp
  next
    case False
    then obtain w2 where "handle_message rd cfg opts now first pool s w = (Inr [Ack (hd pool) first], rotate1 pool,
        s\<lparr>rb_processed := remember max_seen None (rb_processed s)\<rparr>, w2)"
      using handle_known [OF assms(1,3)] assms(2) by fastforce
    then have "rb_processed s1 = remember max_seen None (rb_processed s)" using assms(5) by auto
    then show ?thesis using False assms(4) by (simp add: seen_remember max_seen_def primitive_def)
  qed
  then show ?thesis using assms(6,7) by (simp add: begin_message_def member_of_def)
qed

definition anonymous_text :: "string \<Rightarrow> string" where
  "anonymous_text v = json_text (\<lambda>_. []) (JObj [(''eventType'', JStr ''X''), (''payload'', JStr v)])"

theorem missing_identifier_swallows_witness:
  "\<exists>s1. begin_message (\<lambda>_. None) 0 (demo_message (anonymous_text ''b'')) s1 = Done_With [Ack 0 (demo_message (anonymous_text ''b''))]
     \<and> (\<exists>calls p w1. handle_message (\<lambda>_. None) demo_config demo_options 0 (demo_message (anonymous_text ''a'')) [0]
          (rabbit_consumer_new\<lparr>rb_handlers := demo_handlers\<rparr>) () = (Inr calls, p, s1, w1))"
proof -
  have parse: "json_parse (\<lambda>_. None) (anonymous_text v) = Some (JObj [(''eventType'', JStr ''X''), (''payload'', JStr v)])" for v
    unfolding anonymous_text_def by (rule json_round_trip) simp
  let ?s = "rabbit_consumer_new\<lparr>rb_handlers := demo_handlers\<rparr> :: unit rabbit_consumer"
  obtain calls s1 w1 where h: "handle_message (\<lambda>_. None) demo_config demo_options 0 (demo_message (anonymous_text ''a'')) [0] ?s ()
      = (Inr calls, rotate1 [0], s1, w1)"
    using handle_some [of "[0]" "\<lambda>_. None" demo_config demo_options 0 "demo_message (anonymous_text ''a'')" ?s "()"] by auto
  have "begin_message (\<lambda>_. None) 0 (demo_message (anonymous_text ''b'')) s1 = Done_With [Ack 0 (demo_message (anonymous_text ''b''))]"
    using missing_identifier_swallows [OF _ _ _ _ h] parse
    by (simp add: known_event_def demo_message_def message_id_def handler_for_def demo_handlers_def rabbit_consumer_new_def)
  with h show ?thesis by blast
qed


section \<open>Publishing\<close>

lemma publish_each_ok:
  assumes "pool \<noteq> []"
  shows "\<exists>p. publish_each num cfg es pool = ([], map (\<lambda>i. Publish (pool ! (i mod length pool)) (rf_exchange cfg) (ev_event_type (es ! i))
      (json_text num (envelope_json (es ! i))) (rabbit_headers (es ! i))) [0..<length es], p)"
  using assms
proof (induction es arbitrary: pool)
  case (Cons e es)
  obtain p where p: "publish_each num cfg es (rotate1 pool) = ([], map (\<lambda>i. Publish (rotate1 pool ! (i mod length (rotate1 pool))) (rf_exchange cfg)
      (ev_event_type (es ! i)) (json_text num (envelope_json (es ! i))) (rabbit_headers (es ! i))) [0..<length es], p)"
    using Cons.IH [of "rotate1 pool"] Cons.prems by auto
  have turn: "rotate1 pool ! (i mod length pool) = pool ! (Suc i mod length pool)" for i
    using Cons.prems nth_rotate1 [of "i mod length pool" pool] by (simp add: mod_Suc_eq)
  have rest: "map (\<lambda>i. Publish (rotate1 pool ! (i mod length (rotate1 pool))) (rf_exchange cfg) (ev_event_type (es ! i))
        (json_text num (envelope_json (es ! i))) (rabbit_headers (es ! i))) [0..<length es]
      = map (\<lambda>i. Publish (pool ! (i mod length pool)) (rf_exchange cfg) (ev_event_type ((e # es) ! i))
        (json_text num (envelope_json ((e # es) ! i))) (rabbit_headers ((e # es) ! i))) (map Suc [0..<length es])"
    unfolding map_map comp_def length_rotate1 nth_Cons_Suc turn ..
  have ups: "[0..<length (e # es)] = 0 # map Suc [0..<length es]"
    by (simp only: length_Cons map_Suc_upt upt_conv_Cons zero_less_Suc)
  show ?case using Cons.prems unfolding ups
    by (simp add: rabbit_publish_def p [unfolded rest] hd_conv_nth Let_def del: map_map upt_Suc map_Suc_upt)
qed simp

text \<open>
  Messages without an identifier share the identifier \<open>undefined\<close>: after one was handled the others
  are acknowledged without being handled.
\<close>

theorem batch_published:
  assumes "\<forall>e \<in> set es. printable num rd (envelope_json e)"
  shows "pool \<noteq> [] \<Longrightarrow> \<exists>calls p. rabbit_publish_batch num cfg es pool = (Inr (), calls, p) \<and> length calls = length es
      \<and> (\<forall>i < length es. \<exists>txt. calls ! i = Publish (pool ! (i mod length pool)) (rf_exchange cfg) (ev_event_type (es ! i)) txt (rabbit_headers (es ! i))
           \<and> json_parse rd txt = Some (envelope_json (es ! i)))"
proof -
  assume "pool \<noteq> []"
  from publish_each_ok [OF this, of num cfg es] obtain p where
    p: "publish_each num cfg es pool = ([], map (\<lambda>i. Publish (pool ! (i mod length pool)) (rf_exchange cfg) (ev_event_type (es ! i))
      (json_text num (envelope_json (es ! i))) (rabbit_headers (es ! i))) [0..<length es], p)" by blast
  have "json_parse rd (json_text num (envelope_json (es ! i))) = Some (envelope_json (es ! i))" if "i < length es" for i
    using assms that by (intro json_round_trip) simp
  then show ?thesis by (simp add: rabbit_publish_batch_def p)
qed

definition demo_envelope :: json_envelope where
  "demo_envelope = \<lparr>ev_event_id = ''1'', ev_event_type = ''X'', ev_event_version = ''1.0'', ev_timestamp = ''t'', ev_correlation_id = None,
     ev_causation_id = None, ev_tenant_id = None, ev_payload = JNull, ev_metadata = None\<rparr>"

theorem batch_published_witness:
  "\<exists>calls p. rabbit_publish_batch (\<lambda>_. []) demo_config [demo_envelope] [7] = (Inr (), calls, p) \<and> length calls = 1"
  using batch_published [of "[demo_envelope]" "\<lambda>_. []" "\<lambda>_. None" "[7]" demo_config]
  by (auto simp: demo_envelope_def envelope_json_def optional_field_def)

theorem batch_without_channel:
  "rabbit_publish_batch num cfg (e # es) [] =
     (Inl (plain_error (''Failed to publish '' @ show_int (int (length (e # es))) @ '' out of '' @ show_int (int (length (e # es))) @ '' events'')), [], [])"
proof -
  have "publish_each num cfg es [] = (replicate (length es) (plain_error ''No channels available. Connection not established.''), [], [])" for es
    by (induction es) (simp_all add: rabbit_publish_def)
  from this [of "e # es"] show ?thesis by (simp add: rabbit_publish_batch_def del: publish_each.simps)
qed

section \<open>The connection's life\<close>

text \<open>
  A batch is published in order, one event after the other on the channels in turn, each as a text
  that reads back as its envelope; without a channel none is published and the error says how many.
\<close>

theorem healthy_is_connected:
  "rh_is_healthy (rabbit_health_check (foldl (connection_step cfg) connection_new es)) \<longrightarrow>
     rh_status (rabbit_health_check (foldl (connection_step cfg) connection_new es)) = Connected"
proof -
  have "rx_connected (foldl (connection_step cfg) connection_new es) \<longrightarrow> rx_open (foldl (connection_step cfg) connection_new es)"
  proof (induction es rule: rev_induct)
    case (snoc e es)
    then show ?case
      by (cases e) (auto simp: rabbit_connect_def handle_disconnect_def rabbit_close_def add_channels_def Let_def
          split: connect_result.split sum.split prod.split)
  qed (simp add: connection_new_def)
  then show ?thesis by (auto simp: rabbit_health_check_def)
qed

text \<open>
  A connection that reports itself healthy is connected; the attempt to reconnect is made once: when
  it is refused nothing is left that could try again.
\<close>

theorem reconnects_once:
  assumes "\<forall>e \<in> set es. \<exists>res. e = Timer_Fires res"
  shows "foldl (connection_step cfg) s ([Close_Event, Timer_Fires (Refused msg)] @ es)
    = s\<lparr>rx_connected := False, rx_channels := [], rx_timer := False, rx_last_error := Some msg\<rparr>"
proof -
  have "foldl (connection_step cfg) s0 es = s0" if "\<not> rx_timer s0" for s0
    using assms that by (induction es) auto
  then show ?thesis by (simp add: handle_disconnect_def rabbit_connect_def)
qed

theorem reconnects_once_witness:
  "\<not> rh_is_healthy (rabbit_health_check (foldl (connection_step demo_config) connection_new
      ([Close_Event, Timer_Fires (Refused ''down'')] @ [Timer_Fires Opened, Timer_Fires Opened])))"
  using reconnects_once [of "[Timer_Fires Opened, Timer_Fires Opened]" demo_config connection_new "''down''"]
  by (simp add: rabbit_health_check_def)

text \<open>
  Closing the connection makes it emit \<open>close\<close>, and the handler of that event sets the timer that
  \<open>close\<close> has just cleared: a closed connection opens again.
\<close>

theorem closed_connection_reopens:
  assumes "0 < rf_pool_size cfg"
  shows "rh_is_healthy (rabbit_health_check (foldl (connection_step cfg) s [Close_Called, Close_Event, Timer_Fires Opened]))"
proof -
  have "nat (rf_pool_size cfg) \<noteq> 0" using assms by simp
  then have "get_channel [n..<n + nat (rf_pool_size cfg)] = (Inr n, rotate1 [n..<n + nat (rf_pool_size cfg)])" for n
    by (simp add: upt_conv_Cons)
  with assms show ?thesis
    by (simp add: rabbit_close_def handle_disconnect_def rabbit_connect_def add_channels_def assert_exchange_def
        rabbit_health_check_def Let_def)
qed

theorem closed_connection_reopens_witness:
  "rh_is_healthy (rabbit_health_check (foldl (connection_step demo_config) connection_new [Close_Called, Close_Event, Timer_Fires Opened]))"
  by (rule closed_connection_reopens) (simp add: demo_config_def rabbit_config_of_def or_default_def)

text \<open>A connection whose making broke off in the middle is reported healthy, with its error.\<close>

theorem half_made_is_healthy:
  "rabbit_health_check (connection_step cfg connection_new (Connect_Called (Broken_After (Suc n) msg))) =
     \<lparr>rh_is_healthy = True, rh_status = Connected, rh_channel_count = int (Suc n), rh_last_error = Some msg\<rparr>"
  by (simp add: rabbit_connect_def add_channels_def connection_new_def rabbit_health_check_def del: upt_Suc)

text \<open>The password of a URL is hidden up to its first \<open>@\<close>; what follows is printed.\<close>

theorem masked_urls:
  "mask_url ''amqp://u:secret@h/v'' = ''amqp://u:****@h/v'' \<and> mask_url ''amqp://u:p@ss@h'' = ''amqp://u:****@ss@h''"
  by code_simp

end
