(* ===== verification/Kafka.thy ===== *)
theory Kafka
  imports Broker_Base
begin

text \<open>
  \<open>packages/messaging-kafka/src\<close>: the connection, the publisher with its transactions, and the
  consumer with its manual commits.

  The client of kafkajs is a set of operations on a state, given as arguments: each call returns or
  fails and changes that state.  An offset is a number below \<open>2^53\<close>, which \<open>Number\<close> reads exactly.  The settings that are only handed to
  the client are left out.
\<close>

section \<open>Configuration and connection\<close>

record kafka_config =
  kf_client_id :: string
  kf_brokers :: "string list"
  kf_idempotent :: bool
  kf_max_in_flight :: int
  kf_transactional :: bool
  kf_transactional_id :: "string option"

record kafka_settings =
  ks_client_id :: "string option"
  ks_brokers :: "string list"
  ks_idempotent :: "bool option"
  ks_max_in_flight :: "int option"
  ks_transactional :: "bool option"
  ks_transactional_id :: "string option"

definition given_or :: "'a \<Rightarrow> 'a option \<Rightarrow> 'a" where
  "given_or d v = (case v of None \<Rightarrow> d | Some x \<Rightarrow> x)"

definition kafka_config_of :: "kafka_settings \<Rightarrow> (js_error, kafka_config) outcome" where
  "kafka_config_of s =
     (let cfg = \<lparr>kf_client_id = given_or ''acme-kafka-client'' (ks_client_id s), kf_brokers = ks_brokers s,
            kf_idempotent = given_or True (ks_idempotent s), kf_max_in_flight = given_or 5 (ks_max_in_flight s),
            kf_transactional = given_or False (ks_transactional s), kf_transactional_id = ks_transactional_id s\<rparr>
      in if kf_transactional cfg \<and> (kf_transactional_id cfg = None \<or> kf_transactional_id cfg = Some [])
         then Inl (plain_error ''transactionalId is required when transactional is true'') else Inr cfg)"

text \<open>\<open>connect\<close> fails at the admin client, at the producer, or not at all.\<close>

datatype kafka_connect_result = Admin_Fails string | Producer_Fails string | Connects

record kafka_connection =
  kc_kafka :: bool
  kc_admin :: bool
  kc_producer :: bool
  kc_connected :: bool
  kc_last_error :: "string option"

definition kafka_connection_new :: kafka_connection where
  "kafka_connection_new = \<lparr>kc_kafka = False, kc_admin = False, kc_producer = False, kc_connected = False, kc_last_error = None\<rparr>"

definition kafka_connect :: "kafka_connect_result \<Rightarrow> kafka_connection \<Rightarrow> (js_error, unit) outcome \<times> kafka_connection" where
  "kafka_connect res s =
     (case res of
        Admin_Fails msg \<Rightarrow> (Inl (plain_error msg), s\<lparr>kc_kafka := True, kc_admin := True, kc_last_error := Some msg\<rparr>)
      | Producer_Fails msg \<Rightarrow>
          (Inl (plain_error msg), s\<lparr>kc_kafka := True, kc_admin := True, kc_producer := True, kc_last_error := Some msg\<rparr>)
      | Connects \<Rightarrow> (Inr (), s\<lparr>kc_kafka := True, kc_admin := True, kc_producer := True, kc_connected := True\<rparr>))"

text \<open>\<open>close\<close> with the failures of the two disconnects.\<close>

definition kafka_close :: "js_error option \<Rightarrow> js_error option \<Rightarrow> kafka_connection \<Rightarrow> (js_error, unit) outcome \<times> kafka_connection" where
  "kafka_close producer_error admin_error s =
     (if kc_producer s \<and> producer_error \<noteq> None then (Inl (the producer_error), s)
      else let s1 = s\<lparr>kc_producer := False\<rparr>
           in if kc_admin s1 \<and> admin_error \<noteq> None then (Inl (the admin_error), s1)
              else (Inr (), s1\<lparr>kc_admin := False, kc_kafka := False, kc_connected := False\<rparr>))"

definition get_producer :: "kafka_connection \<Rightarrow> (js_error, unit) outcome" where
  "get_producer s = (if kc_producer s then Inr () else Inl (plain_error ''Producer not initialized. Call connect() first''))"

definition get_admin :: "kafka_connection \<Rightarrow> (js_error, unit) outcome" where
  "get_admin s = (if kc_admin s then Inr () else Inl (plain_error ''Admin not initialized. Call connect() first''))"

definition get_kafka :: "kafka_connection \<Rightarrow> (js_error, unit) outcome" where
  "get_kafka s = (if kc_kafka s then Inr () else Inl (plain_error ''Kafka not initialized. Call connect() first''))"

datatype kafka_status = K_Connected | K_Disconnected | K_Connecting | K_Error

record kafka_health =
  kh_is_healthy :: bool
  kh_status :: kafka_status
  kh_brokers :: int
  kh_last_error :: "string option"
  kh_producer_ready :: bool
  kh_consumer_ready :: bool

text \<open>The cluster describes its brokers or fails.\<close>

definition kafka_health_check :: "(js_error, nat) outcome \<Rightarrow> kafka_connection \<Rightarrow> kafka_health" where
  "kafka_health_check cluster s =
     (let down = \<lparr>kh_is_healthy = False, kh_status = K_Disconnected, kh_brokers = 0, kh_last_error = None,
                  kh_producer_ready = False, kh_consumer_ready = False\<rparr>
      in case kc_last_error s of
           Some e \<Rightarrow> down\<lparr>kh_last_error := Some e\<rparr>
         | None \<Rightarrow>
             (if \<not> kc_connected s \<or> \<not> kc_admin s then down
              else case cluster of
                Inr n \<Rightarrow> \<lparr>kh_is_healthy = (0 < n \<and> kc_producer s), kh_status = K_Connected, kh_brokers = int n, kh_last_error = None,
                          kh_producer_ready = kc_producer s, kh_consumer_ready = False\<rparr>
              | Inl e \<Rightarrow> down\<lparr>kh_status := K_Error, kh_last_error := Some (error_message e)\<rparr>))"

section \<open>The publisher\<close>

record kafka_message =
  km_key :: string
  km_value :: string
  km_headers :: "(string, string) jsmap"

definition kafka_message_of :: "(rat \<Rightarrow> string) \<Rightarrow> json_envelope \<Rightarrow> kafka_message" where
  "kafka_message_of num e = \<lparr>km_key = ev_event_id e, km_value = json_text num (envelope_json e),
     km_headers = [(''event-id'', ev_event_id e), (''event-type'', ev_event_type e), (''event-version'', ev_event_version e),
       (''correlation-id'', given_or [] (ev_correlation_id e)), (''causation-id'', given_or [] (ev_causation_id e)),
       (''tenant-id'', given_or [] (ev_tenant_id e)), (''timestamp'', ev_timestamp e)]\<rparr>"

text \<open>The producer's calls; within a transaction they are those of the transaction.\<close>

datatype producer_call = Begin_Transaction | Send string "kafka_message list" | Commit | Abort

type_synonym 'w producer = "producer_call \<Rightarrow> 'w \<Rightarrow> (js_error, unit) outcome \<times> 'w"

fun send_all :: "'w producer \<Rightarrow> (string \<times> kafka_message list) list \<Rightarrow> 'w \<Rightarrow> (js_error, unit) outcome \<times> 'w" where
  "send_all p [] w = (Inr (), w)"
| "send_all p ((topic, ms) # rest) w =
     (case p (Send topic ms) w of (Inl e, w1) \<Rightarrow> (Inl e, w1) | (Inr _, w1) \<Rightarrow> send_all p rest w1)"

text \<open>When aborting fails, that is the error.\<close>

definition in_transaction :: "'w producer \<Rightarrow> (string \<times> kafka_message list) list \<Rightarrow> 'w \<Rightarrow> (js_error, unit) outcome \<times> 'w" where
  "in_transaction p groups w =
     (case p Begin_Transaction w of
        (Inl e, w1) \<Rightarrow> (Inl e, w1)
      | (Inr _, w1) \<Rightarrow>
          (case (case send_all p groups w1 of (Inl e, w2) \<Rightarrow> (Inl e, w2) | (Inr _, w2) \<Rightarrow> p Commit w2) of
             (Inr _, w3) \<Rightarrow> (Inr (), w3)
           | (Inl e, w3) \<Rightarrow> (case p Abort w3 of (Inl e2, w4) \<Rightarrow> (Inl e2, w4) | (Inr _, w4) \<Rightarrow> (Inl e, w4))))"

text \<open>Without a transaction all the topics are sent to at once; the first failure is the error.\<close>

fun send_parallel :: "'w producer \<Rightarrow> (string \<times> kafka_message list) list \<Rightarrow> 'w \<Rightarrow> js_error list \<times> 'w" where
  "send_parallel p [] w = ([], w)"
| "send_parallel p ((topic, ms) # rest) w =
     (let (r, w1) = p (Send topic ms) w; (errs, w2) = send_parallel p rest w1
      in (case r of Inl e \<Rightarrow> e # errs | Inr _ \<Rightarrow> errs, w2))"

definition kafka_publish :: "(rat \<Rightarrow> string) \<Rightarrow> kafka_config \<Rightarrow> kafka_connection \<Rightarrow> 'w producer \<Rightarrow> json_envelope \<Rightarrow> 'w
    \<Rightarrow> (js_error, unit) outcome \<times> 'w" where
  "kafka_publish num cfg conn p e w =
     (case get_producer conn of
        Inl err \<Rightarrow> (Inl err, w)
      | Inr _ \<Rightarrow>
          (if kf_transactional cfg then in_transaction p [(ev_event_type e, [kafka_message_of num e])] w
           else p (Send (ev_event_type e) [kafka_message_of num e]) w))"

definition add_to_topic :: "(rat \<Rightarrow> string) \<Rightarrow> (string, kafka_message list) jsmap \<Rightarrow> json_envelope \<Rightarrow> (string, kafka_message list) jsmap" where
  "add_to_topic num m e = jset (ev_event_type e) (elems m (ev_event_type e) @ [kafka_message_of num e]) m"

definition messages_by_topic :: "(rat \<Rightarrow> string) \<Rightarrow> json_envelope list \<Rightarrow> (string, kafka_message list) jsmap" where
  "messages_by_topic num es = foldl (add_to_topic num) [] es"

definition kafka_publish_batch :: "(rat \<Rightarrow> string) \<Rightarrow> kafka_config \<Rightarrow> kafka_connection \<Rightarrow> 'w producer \<Rightarrow> json_envelope list \<Rightarrow> 'w
    \<Rightarrow> (js_error, unit) outcome \<times> 'w" where
  "kafka_publish_batch num cfg conn p es w =
     (if length es = 0 then (Inr (), w)
      else case get_producer conn of
        Inl err \<Rightarrow> (Inl err, w)
      | Inr _ \<Rightarrow>
          (if kf_transactional cfg then in_transaction p (messages_by_topic num es) w
           else (case send_parallel p (messages_by_topic num es) w of
                   ([], w1) \<Rightarrow> (Inr (), w1) | (err # _, w1) \<Rightarrow> (Inl err, w1))))"

section \<open>The consumer\<close>

record 'w kafka_consumer =
  kk_handlers :: "'w event_handlers"
  kk_consumer :: bool
  kk_running :: bool
  kk_processed :: "json option list"

definition kafka_consumer_new :: "'w kafka_consumer" where
  "kafka_consumer_new = \<lparr>kk_handlers = [], kk_consumer = False, kk_running = False, kk_processed = []\<rparr>"

definition kafka_subscribe :: "string \<Rightarrow> (json \<Rightarrow> 'w \<Rightarrow> (js_error, unit) outcome \<times> 'w) \<Rightarrow> 'w kafka_consumer
    \<Rightarrow> (js_error, unit) outcome \<times> 'w kafka_consumer" where
  "kafka_subscribe t h s =
     (if kk_running s then (Inl (plain_error ''Cannot subscribe after consumer is started''), s)
      else (Inr (), s\<lparr>kk_handlers := jset t h (kk_handlers s)\<rparr>))"

text \<open>The outcome of the client's calls in \<open>start\<close> and in \<open>stop\<close> is an argument.\<close>

definition kafka_start :: "kafka_connection \<Rightarrow> (js_error, unit) outcome \<Rightarrow> 'w kafka_consumer \<Rightarrow> (js_error, unit) outcome \<times> 'w kafka_consumer" where
  "kafka_start conn started s =
     (if kk_running s then (Inl (plain_error ''Consumer is already running''), s)
      else case get_kafka conn of
        Inl e \<Rightarrow> (Inl e, s)
      | Inr _ \<Rightarrow> (case started of
          Inl e \<Rightarrow> (Inl e, s\<lparr>kk_consumer := True\<rparr>)
        | Inr _ \<Rightarrow> (Inr (), s\<lparr>kk_consumer := True, kk_running := True\<rparr>)))"

definition kafka_stop :: "(js_error, unit) outcome \<Rightarrow> 'w kafka_consumer \<Rightarrow> (js_error, unit) outcome \<times> 'w kafka_consumer" where
  "kafka_stop stopped s =
     (if \<not> kk_running s \<or> \<not> kk_consumer s then (Inr (), s)
      else case stopped of
        Inl e \<Rightarrow> (Inl e, s)
      | Inr _ \<Rightarrow> (Inr (), s\<lparr>kk_consumer := False, kk_running := False, kk_processed := []\<rparr>))"

record kafka_delivery =
  kd_topic :: string
  kd_partition :: int
  kd_offset :: int
  kd_value :: "string option"

type_synonym 'w committer = "string \<Rightarrow> int \<Rightarrow> int \<Rightarrow> 'w \<Rightarrow> (js_error, unit) outcome \<times> 'w"

definition commit_offset :: "'w committer \<Rightarrow> bool \<Rightarrow> kafka_delivery \<Rightarrow> 'w kafka_consumer \<Rightarrow> 'w \<Rightarrow> (js_error, unit) outcome \<times> 'w" where
  "commit_offset commit auto_commit d s w =
     (if \<not> auto_commit \<and> kk_consumer s then commit (kd_topic d) (kd_partition d) (kd_offset d + 1) w else (Inr (), w))"

definition kafka_handle :: "(string \<Rightarrow> rat option) \<Rightarrow> 'w committer \<Rightarrow> bool \<Rightarrow> kafka_delivery \<Rightarrow> 'w kafka_consumer \<Rightarrow> 'w
    \<Rightarrow> (js_error, unit) outcome \<times> 'w kafka_consumer \<times> 'w" where
  "kafka_handle rd commit auto_commit d s w =
     (case json_parse rd (given_or ''{}'' (kd_value d)) of
        None \<Rightarrow> (Inl (JsError ''SyntaxError'' ''Unexpected token''), s, w)
      | Some env \<Rightarrow>
          (case member_of env ''eventId'' of
             Inl e \<Rightarrow> (Inl e, s, w)
           | Inr i \<Rightarrow>
               if seen (kk_processed s) i
               then (let (r, w1) = commit_offset commit auto_commit d s w in (r, s, w1))
               else (case member_of env ''eventType'' of
                  Inl e \<Rightarrow> (Inl e, s, w)
                | Inr t \<Rightarrow>
                    (case handler_for (kk_handlers s) t of
                       None \<Rightarrow> (let (r, w1) = commit_offset commit auto_commit d s w in (r, s, w1))
                     | Some h \<Rightarrow>
                         (case h env w of
                            (Inl e, w1) \<Rightarrow> (Inl e, s, w1)
                          | (Inr _, w1) \<Rightarrow>
                              (let s1 = s\<lparr>kk_processed := remember max_seen i (kk_processed s)\<rparr>;
                                   (r, w2) = commit_offset commit auto_commit d s1 w1
                               in (r, s1, w2)))))))"

text \<open>A partition hands over its messages in order and stops at the first one that fails.\<close>

fun kafka_partition :: "(string \<Rightarrow> rat option) \<Rightarrow> 'w committer \<Rightarrow> bool \<Rightarrow> kafka_delivery list \<Rightarrow> 'w kafka_consumer \<Rightarrow> 'w
    \<Rightarrow> nat \<times> 'w kafka_consumer \<times> 'w" where
  "kafka_partition rd commit auto_commit [] s w = (0, s, w)"
| "kafka_partition rd commit auto_commit (d # ds) s w =
     (case kafka_handle rd commit auto_commit d s w of
        (Inl e, s1, w1) \<Rightarrow> (0, s1, w1)
      | (Inr _, s1, w1) \<Rightarrow> (let (n, s2, w2) = kafka_partition rd commit auto_commit ds s1 w1 in (Suc n, s2, w2)))"


section \<open>What is committed\<close>

text \<open>A committer that records the offsets in front of the rest of the state, which handlers do not touch.\<close>

definition record_commit :: "(int list \<times> 'v) committer" where
  "record_commit topic part offset w = (Inr (), (fst w @ [offset], snd w))"

definition leaves_commits :: "(int list \<times> 'v) event_handlers \<Rightarrow> bool" where
  "leaves_commits hs \<longleftrightarrow> (\<forall>t h. jget hs t = Some h \<longrightarrow> (\<forall>env w. fst (snd (h env w)) = fst w))"

lemma handler_leaves: "leaves_commits hs \<Longrightarrow> handler_for hs t = Some h \<Longrightarrow> h env w = (r, w1) \<Longrightarrow> fst w1 = fst w"
proof -
  assume l: "leaves_commits hs" and h: "handler_for hs t = Some h" and run: "h env w = (r, w1)"
  from h obtain k where "jget hs k = Some h" by (auto simp: handler_for_def split: option.splits json.splits)
  with l have "fst (snd (h env w)) = fst w" unfolding leaves_commits_def by blast
  with run show "fst w1 = fst w" by simp
qed

lemma handle_commits:
  assumes "leaves_commits (kk_handlers s)" and "kk_consumer s"
    and "kafka_handle rd record_commit False d s w = (r, s1, w1)"
  shows "fst w1 = fst w @ (case r of Inl e \<Rightarrow> [] | Inr _ \<Rightarrow> [kd_offset d + 1])
    \<and> kk_handlers s1 = kk_handlers s \<and> kk_consumer s1 = kk_consumer s"
proof -
  have commit: "commit_offset record_commit False d t u = (Inr (), (fst u @ [kd_offset d + 1], snd u))" if "kk_consumer t" for t u
    using that by (simp add: commit_offset_def record_commit_def)
  show ?thesis
  proof (cases "json_parse rd (given_or ''{}'' (kd_value d))")
    case None
    with assms(3) show ?thesis by (auto simp: kafka_handle_def)
  next
    case env: (Some env)
    show ?thesis
    proof (cases "member_of env ''eventId''")
      case (Inl e)
      with assms(3) env show ?thesis by (auto simp: kafka_handle_def)
    next
      case i: (Inr i)
      show ?thesis
      proof (cases "seen (kk_processed s) i")
        case True
        with assms(2,3) env i show ?thesis by (auto simp: kafka_handle_def commit)
      next
        case unseen: False
        show ?thesis
        proof (cases "member_of env ''eventType''")
          case (Inl e)
          with assms(3) env i unseen show ?thesis by (auto simp: kafka_handle_def)
        next
          case t: (Inr t)
          show ?thesis
          proof (cases "handler_for (kk_handlers s) t")
            case None
            with assms(2,3) env i unseen t show ?thesis by (auto simp: kafka_handle_def commit)
          next
            case h: (Some h)
            obtain res w2 where run: "h env w = (res, w2)" by (rule prod.exhaust)
            have "fst w2 = fst w" by (rule handler_leaves [OF assms(1) h run])
            with assms(2,3) env i unseen t h run show ?thesis
              by (cases res) (auto simp: kafka_handle_def commit Let_def)
          qed
        qed
      qed
    qed
  qed
qed


definition delivery :: "int \<Rightarrow> string \<Rightarrow> kafka_delivery" where
  "delivery n t = \<lparr>kd_topic = ''T'', kd_partition = 0, kd_offset = n, kd_value = Some t\<rparr>"


section \<open>What is published\<close>

text \<open>
  A batch is sent as one list for each topic, in the order the topics first appear, with the
  messages of the topic in their order.
\<close>

theorem batch_by_topic:
  "jkeys (messages_by_topic num es) = rev (remdups (rev (map ev_event_type es)))
   \<and> (\<forall>t. elems (messages_by_topic num es) t = map (kafka_message_of num) (filter (\<lambda>e. ev_event_type e = t) es))"
proof (induction es rule: rev_induct)
  case (snoc e es)
  let ?m = "messages_by_topic num es"
  have m: "messages_by_topic num (es @ [e]) = add_to_topic num ?m e" by (simp add: messages_by_topic_def)
  have keys: "set (jkeys ?m) = ev_event_type ` set es" using snoc by simp
  have "jkeys (add_to_topic num ?m e) = (if ev_event_type e \<in> ev_event_type ` set es then jkeys ?m else jkeys ?m @ [ev_event_type e])"
    using keys by (simp add: add_to_topic_def jkeys_jset jhas_keys)
  with snoc m show ?case by (auto simp: add_to_topic_def)
qed (simp add: messages_by_topic_def elems_def)

text \<open>A producer that records its calls and fails those it is told to.\<close>

definition record_call :: "(producer_call \<Rightarrow> js_error option) \<Rightarrow> producer_call list producer" where
  "record_call fails c cs = (case fails c of None \<Rightarrow> Inr () | Some e \<Rightarrow> Inl e, cs @ [c])"

lemma record_call_apply: "record_call fails c cs = (case fails c of None \<Rightarrow> Inr () | Some e \<Rightarrow> Inl e, cs @ [c])"
  by (rule record_call_def)

definition sends :: "(string \<times> kafka_message list) list \<Rightarrow> producer_call list" where
  "sends groups = map (\<lambda>(t, ms). Send t ms) groups"

lemma send_all_recorded:
  "(\<forall>c \<in> set (sends groups). fails c = None) \<Longrightarrow> send_all (record_call fails) groups cs = (Inr (), cs @ sends groups)"
  "\<not> (\<forall>c \<in> set (sends groups). fails c = None) \<Longrightarrow> \<exists>e done_calls. send_all (record_call fails) groups cs = (Inl e, cs @ done_calls)
     \<and> set done_calls \<subseteq> set (sends groups)"
proof (induction groups arbitrary: cs)
  case (Cons g groups)
  obtain t ms where g: "g = (t, ms)" by (rule prod.exhaust)
  {
    case 1
    with Cons.IH(1) [of "cs @ [Send t ms]"] show ?case by (simp add: g sends_def record_call_apply [of fails])
  next
    case 2
    show ?case
    proof (cases "fails (Send t ms)")
      case (Some e)
      then show ?thesis by (simp add: g record_call_apply [of fails] sends_def)
    next
      case None
      with 2 have "\<not> (\<forall>c \<in> set (sends groups). fails c = None)" by (simp add: g sends_def)
      from Cons.IH(2) [OF this, of "cs @ [Send t ms]"] obtain e calls where
        "send_all (record_call fails) groups (cs @ [Send t ms]) = (Inl e, cs @ Send t ms # calls)" "set calls \<subseteq> set (sends groups)"
        by auto
      with None show ?thesis by (auto simp: g record_call_apply [of fails "Send t ms"] sends_def intro!: exI [of _ "Send t ms # calls"])
    qed
  }
qed (simp_all add: sends_def)

text \<open>
  A transaction resolves exactly when it began, all its lists were sent and it was committed; when
  it began and failed, its last call aborts it, and it is committed only by a commit that failed.
\<close>

theorem transaction_all_or_abort:
  assumes "in_transaction (record_call fails) groups [] = (r, cs)"
  shows "(r = Inr () \<longleftrightarrow> (\<forall>c \<in> set (Begin_Transaction # sends groups @ [Commit]). fails c = None))
    \<and> (r = Inr () \<longrightarrow> cs = Begin_Transaction # sends groups @ [Commit])
    \<and> (r \<noteq> Inr () \<and> fails Begin_Transaction = None \<longrightarrow> last cs = Abort \<and> (Commit \<in> set cs \<longrightarrow> fails Commit \<noteq> None))"
proof (cases "fails Begin_Transaction")
  case (Some e)
  with assms show ?thesis by (auto simp: in_transaction_def record_call_apply [of fails])
next
  case None
  have begun: "record_call fails Begin_Transaction [] = (Inr (), [Begin_Transaction])" using None by (simp add: record_call_apply [of fails])
  show ?thesis
  proof (cases "\<forall>c \<in> set (sends groups). fails c = None")
    case True
    then have "send_all (record_call fails) groups [Begin_Transaction] = (Inr (), Begin_Transaction # sends groups)"
      using send_all_recorded(1) [of groups fails "[Begin_Transaction]"] by simp
    with assms None True show ?thesis
      by (cases "fails Commit"; cases "fails Abort") (auto simp: in_transaction_def begun record_call_apply [of fails])
  next
    case False
    then obtain e calls where calls: "send_all (record_call fails) groups [Begin_Transaction] = (Inl e, Begin_Transaction # calls)"
      "set calls \<subseteq> set (sends groups)"
      using send_all_recorded(2) [of groups fails "[Begin_Transaction]"] by auto
    have "Commit \<notin> set calls" using calls(2) by (auto simp: sends_def)
    with assms None False calls show ?thesis
      by (cases "fails Abort") (auto simp: in_transaction_def begun record_call_apply [of fails])
  qed
qed

theorem transaction_all_or_abort_witness:
  "last (snd (in_transaction (record_call (\<lambda>c. if c = Commit then Some (plain_error ''x'') else None)) [(''T'', [])] [])) = Abort"
proof -
  obtain r cs where run: "in_transaction (record_call (\<lambda>c. if c = Commit then Some (plain_error ''x'') else None)) [(''T'', [])] [] = (r, cs)"
    by (metis prod.exhaust)
  from transaction_all_or_abort [OF run] run show ?thesis by auto
qed

text \<open>Without a transaction every list is sent, whatever fails, and the error is the first one.\<close>

theorem parallel_sends_all:
  "send_parallel (record_call fails) groups cs = (List.map_filter fails (sends groups), cs @ sends groups)"
proof (induction groups arbitrary: cs)
  case (Cons g groups)
  obtain t ms where g: "g = (t, ms)" by (rule prod.exhaust)
  show ?case
    by (cases "fails (Send t ms)") (simp_all add: g record_call_apply [of fails "Send t ms"] sends_def Cons [unfolded sends_def] Let_def map_filter_simps)
qed (simp add: sends_def map_filter_simps)

section \<open>From publisher to handler\<close>

text \<open>
  What was published under a type of event reaches the handler of that type as the same JSON value,
  and the identifier is remembered when the handler returns.
\<close>

theorem published_reaches_handler:
  assumes "printable num rd (envelope_json e)" and "jget (kk_handlers s) (ev_event_type e) = Some h"
    and "\<not> seen (kk_processed s) (Some (JStr (ev_event_id e)))" and "kd_value d = Some (km_value (kafka_message_of num e))"
    and "h (envelope_json e) w = (r, w1)"
  shows "kafka_handle rd commit auto_commit d s w =
    (case r of
       Inl err \<Rightarrow> (Inl err, s, w1)
     | Inr _ \<Rightarrow> (let s1 = s\<lparr>kk_processed := remember max_seen (Some (JStr (ev_event_id e))) (kk_processed s)\<rparr>;
                     (r2, w2) = commit_offset commit auto_commit d s1 w1
                 in (r2, s1, w2)))"
proof -
  have parse: "json_parse rd (json_text num (envelope_json e)) = Some (envelope_json e)"
    by (rule json_round_trip [OF assms(1)])
  have "member_of (envelope_json e) ''eventId'' = Inr (Some (JStr (ev_event_id e)))"
    "member_of (envelope_json e) ''eventType'' = Inr (Some (JStr (ev_event_type e)))"
    by (simp_all add: member_of_def envelope_json_def)
  then show ?thesis
    using assms(2-5) parse by (simp add: kafka_handle_def kafka_message_of_def given_or_def handler_for_def)
qed

definition sample_envelope :: json_envelope where
  "sample_envelope = \<lparr>ev_event_id = ''1'', ev_event_type = ''X'', ev_event_version = ''1.0'', ev_timestamp = ''t'', ev_correlation_id = None,
     ev_causation_id = None, ev_tenant_id = None, ev_payload = JNull, ev_metadata = None\<rparr>"

theorem published_reaches_handler_witness:
  "fst (snd (snd (kafka_handle (\<lambda>_. None) record_commit False
      (delivery 3 (km_value (kafka_message_of (\<lambda>_. []) sample_envelope)))
      (kafka_consumer_new\<lparr>kk_consumer := True, kk_handlers := [(''X'', \<lambda>env w. (Inr (), w))]\<rparr>) ([], ())))) = [4]"
  using published_reaches_handler [of "\<lambda>_. []" "\<lambda>_. None" sample_envelope
      "kafka_consumer_new\<lparr>kk_consumer := True, kk_handlers := [(''X'', \<lambda>env w. (Inr (), w))]\<rparr>" "\<lambda>env w. (Inr (), w)"
      "delivery 3 (km_value (kafka_message_of (\<lambda>_. []) sample_envelope))" "([], ())" "Inr ()" "([], ())" record_commit False]
  by (simp add: sample_envelope_def envelope_json_def optional_field_def kafka_consumer_new_def seen_def delivery_def
      commit_offset_def record_commit_def)

section \<open>Health\<close>

text \<open>An error is never cleared: after a failed attempt to connect, a connection that works reports itself down.\<close>

theorem error_sticks:
  assumes "kc_last_error s \<noteq> None"
  shows "\<not> kh_is_healthy (kafka_health_check cluster (foldl (\<lambda>s res. snd (kafka_connect res s)) s rs))"
proof -
  have "kc_last_error (foldl (\<lambda>s res. snd (kafka_connect res s)) s rs) \<noteq> None"
    using assms
    by (induction rs arbitrary: s) (auto simp: kafka_connect_def split: kafka_connect_result.split)
  then show ?thesis by (auto simp: kafka_health_check_def Let_def)
qed

theorem error_sticks_witness:
  "\<not> kh_is_healthy (kafka_health_check (Inr 3) (foldl (\<lambda>s res. snd (kafka_connect res s))
      (snd (kafka_connect (Admin_Fails ''down'') kafka_connection_new)) [Connects, Connects]))"
  by (rule error_sticks) (simp add: kafka_connect_def)

text \<open>A transactional configuration has a transactional identifier that is not empty.\<close>

theorem transactional_has_id:
  "kafka_config_of cs = Inr cfg \<longrightarrow> kf_transactional cfg \<longrightarrow> (\<exists>i. kf_transactional_id cfg = Some i \<and> i \<noteq> [])"
  by (auto simp: kafka_config_of_def Let_def split: if_splits)

end
