(* ===== verification/Eventbridge.thy ===== *)
theory Eventbridge
  imports Broker_Base Configuration
begin

text \<open>
  \<open>packages/messaging-eventbridge/src\<close>: the connection with its counters, the publisher with its
  batches, and the consumer that polls a queue.

  The AWS clients are arguments: sending entries and deleting a message act on a state and return or
  fail.  The date built of a timestamp is the timestamp.  The settings that are only handed to
  the clients, the region and the bus in the reports of health, and the logger are left out.
\<close>

section \<open>Configuration and connection\<close>

record bridge_config =
  bc_region :: string
  bc_event_bus_name :: string
  bc_source :: string
  bc_max_batch_size :: int

definition bridge_config_of :: "string \<Rightarrow> string option \<Rightarrow> string \<Rightarrow> int option \<Rightarrow> bridge_config" where
  "bridge_config_of region bus source batch = \<lparr>bc_region = region,
     bc_event_bus_name = (case bus of None \<Rightarrow> ''default'' | Some b \<Rightarrow> b), bc_source = source,
     bc_max_batch_size = (case batch of None \<Rightarrow> 10 | Some n \<Rightarrow> n)\<rparr>"

record bridge_connection =
  bn_client :: bool
  bn_connected :: bool
  bn_last_error :: "string option"
  bn_published :: int
  bn_errors :: int

definition bridge_new :: bridge_connection where
  "bridge_new = \<lparr>bn_client = False, bn_connected = False, bn_last_error = None, bn_published = 0, bn_errors = 0\<rparr>"

text \<open>\<open>described\<close> is what the description of the event bus comes to.\<close>

definition bridge_connect :: "(js_error, unit) outcome \<Rightarrow> bridge_connection \<Rightarrow> (js_error, unit) outcome \<times> bridge_connection" where
  "bridge_connect described s =
     (case described of
        Inl e \<Rightarrow> (Inl e, s\<lparr>bn_client := True, bn_last_error := Some (error_message e)\<rparr>)
      | Inr _ \<Rightarrow> (Inr (), s\<lparr>bn_client := True, bn_connected := True\<rparr>))"

definition bridge_close :: "bridge_connection \<Rightarrow> bridge_connection" where
  "bridge_close s = s\<lparr>bn_client := False, bn_connected := False\<rparr>"

definition get_client :: "bridge_connection \<Rightarrow> (js_error, unit) outcome" where
  "get_client s = (if bn_client s then Inr () else Inl (plain_error ''EventBridgeClient not initialized. Call connect() first''))"

definition increment_published :: "bridge_connection \<Rightarrow> bridge_connection" where
  "increment_published s = s\<lparr>bn_published := bn_published s + 1\<rparr>"

definition increment_errors :: "bridge_connection \<Rightarrow> bridge_connection" where
  "increment_errors s = s\<lparr>bn_errors := bn_errors s + 1\<rparr>"

definition set_last_error :: "string \<Rightarrow> bridge_connection \<Rightarrow> bridge_connection" where
  "set_last_error msg s = s\<lparr>bn_last_error := Some msg\<rparr>"

record bridge_health =
  bh_connected :: bool
  bh_last_error :: "string option"
  bh_published :: int
  bh_errors :: int

definition bridge_health_check :: "(js_error, unit) outcome \<Rightarrow> bridge_connection \<Rightarrow> bridge_health \<times> bridge_connection" where
  "bridge_health_check described s =
     (if \<not> bn_client s
      then (\<lparr>bh_connected = False, bh_last_error = Some ''Client not initialized'', bh_published = bn_published s, bh_errors = bn_errors s\<rparr>, s)
      else case described of
        Inr _ \<Rightarrow> (\<lparr>bh_connected = True, bh_last_error = bn_last_error s, bh_published = bn_published s, bh_errors = bn_errors s\<rparr>, s)
      | Inl e \<Rightarrow> (\<lparr>bh_connected = False, bh_last_error = Some (error_message e), bh_published = bn_published s, bh_errors = bn_errors s\<rparr>,
                  s\<lparr>bn_last_error := Some (error_message e)\<rparr>))"

section \<open>The publisher\<close>

record put_entry =
  pe_bus :: string
  pe_source :: string
  pe_detail_type :: string
  pe_detail :: string
  pe_time :: string

record reply_entry =
  re_error_code :: "string option"
  re_error_message :: "string option"

record put_reply =
  pr_failed_count :: "int option"
  pr_entries :: "reply_entry list option"

type_synonym 'w put_client = "put_entry list \<Rightarrow> 'w \<Rightarrow> (js_error, put_reply) outcome \<times> 'w"

definition detail_json :: "json_envelope \<Rightarrow> json" where
  "detail_json e = JObj ([(''eventId'', JStr (ev_event_id e)), (''eventVersion'', JStr (ev_event_version e)),
       (''timestamp'', JStr (ev_timestamp e)), (''payload'', ev_payload e)]
     @ optional_field ''correlationId'' JStr (ev_correlation_id e)
     @ optional_field ''causationId'' JStr (ev_causation_id e)
     @ optional_field ''tenantId'' JStr (ev_tenant_id e)
     @ optional_field ''metadata'' JObj (ev_metadata e))"

definition build_entry :: "(rat \<Rightarrow> string) \<Rightarrow> bridge_config \<Rightarrow> json_envelope \<Rightarrow> put_entry" where
  "build_entry num cfg e = \<lparr>pe_bus = bc_event_bus_name cfg, pe_source = bc_source cfg, pe_detail_type = ev_event_type e,
     pe_detail = json_text num (detail_json e), pe_time = ev_timestamp e\<rparr>"

definition or_text :: "string \<Rightarrow> string option \<Rightarrow> string" where
  "or_text d v = (case v of None \<Rightarrow> d | Some t \<Rightarrow> t)"

definition failed_count :: "put_reply \<Rightarrow> int" where
  "failed_count r = (case pr_failed_count r of None \<Rightarrow> 0 | Some n \<Rightarrow> n)"

definition rejection :: "put_reply \<Rightarrow> string" where
  "rejection r =
     (let first = (case pr_entries r of Some (x # _) \<Rightarrow> Some x | _ \<Rightarrow> None)
      in ''EventBridge rejected event: '' @ or_text ''Unknown'' (Option.bind first re_error_code) @ '' - ''
         @ or_text ''No message'' (Option.bind first re_error_message))"

definition publish_failed :: "js_error \<Rightarrow> bridge_connection \<Rightarrow> bridge_connection" where
  "publish_failed e s =
     (if \<not> prefix ''EventBridge rejected'' (error_message e) then set_last_error (error_message e) (increment_errors s) else s)"

definition bridge_publish :: "(rat \<Rightarrow> string) \<Rightarrow> bridge_config \<Rightarrow> 'w put_client \<Rightarrow> json_envelope \<Rightarrow> bridge_connection \<Rightarrow> 'w
    \<Rightarrow> (js_error, unit) outcome \<times> bridge_connection \<times> 'w" where
  "bridge_publish num cfg put e s w =
     (case get_client s of
        Inl err \<Rightarrow> (Inl err, publish_failed err s, w)
      | Inr _ \<Rightarrow>
          (case put [build_entry num cfg e] w of
             (Inl err, w1) \<Rightarrow> (Inl err, publish_failed err s, w1)
           | (Inr r, w1) \<Rightarrow>
               (if 0 < failed_count r
                then (let err = plain_error (rejection r)
                      in (Inl err, publish_failed err (set_last_error (rejection r) (increment_errors s)), w1))
                else (Inr (), increment_published s, w1))))"

text \<open>One entry of the reply to a batch.\<close>

definition count_entry :: "json_envelope list \<Rightarrow> string list \<times> bridge_connection \<Rightarrow> nat \<times> reply_entry \<Rightarrow> string list \<times> bridge_connection" where
  "count_entry chunk acc x =
     (case (acc, x) of ((errs, s), (idx, entry)) \<Rightarrow>
        (case re_error_code entry of
           None \<Rightarrow> (errs, increment_published s)
         | Some code \<Rightarrow>
             (errs @ [''Failed to publish event '' @ (if idx < length chunk then ev_event_id (chunk ! idx) else show_int (int idx))
                @ '': '' @ code @ '' - '' @ or_text [] (re_error_message entry)], increment_errors s)))"

definition chunk_failed :: "js_error \<Rightarrow> string list \<times> bridge_connection \<Rightarrow> string list \<times> bridge_connection" where
  "chunk_failed e acc = (fst acc @ [''Batch chunk failed: '' @ error_message e], set_last_error (error_message e) (increment_errors (snd acc)))"

definition send_chunk :: "(rat \<Rightarrow> string) \<Rightarrow> bridge_config \<Rightarrow> 'w put_client \<Rightarrow> json_envelope list
    \<Rightarrow> (string list \<times> bridge_connection) \<times> 'w \<Rightarrow> (string list \<times> bridge_connection) \<times> 'w" where
  "send_chunk num cfg put chunk st =
     (case st of (acc, w) \<Rightarrow>
        (case get_client (snd acc) of
           Inl e \<Rightarrow> (chunk_failed e acc, w)
         | Inr _ \<Rightarrow>
             (case put (map (build_entry num cfg) chunk) w of
                (Inl e, w1) \<Rightarrow> (chunk_failed e acc, w1)
              | (Inr r, w1) \<Rightarrow>
                  (if 0 < failed_count r
                   then (foldl (count_entry chunk) acc (case pr_entries r of None \<Rightarrow> [] | Some xs \<Rightarrow> zip [0..<length xs] xs), w1)
                   else ((fst acc, foldl (\<lambda>s _. increment_published s) (snd acc) chunk), w1)))))"

text \<open>The loop over the batch; it need not end.\<close>

partial_function (option) chunk_loop :: "(rat \<Rightarrow> string) \<Rightarrow> bridge_config \<Rightarrow> 'w put_client \<Rightarrow> json_envelope list \<Rightarrow> int
    \<Rightarrow> (string list \<times> bridge_connection) \<times> 'w \<Rightarrow> ((string list \<times> bridge_connection) \<times> 'w) option" where
  "chunk_loop num cfg put es i st =
     (if i < int (length es)
      then chunk_loop num cfg put es (i + bc_max_batch_size cfg)
             (send_chunk num cfg put (js_slice_to i (Some (i + bc_max_batch_size cfg)) es) st)
      else Some st)"

definition bridge_publish_batch :: "(rat \<Rightarrow> string) \<Rightarrow> bridge_config \<Rightarrow> 'w put_client \<Rightarrow> json_envelope list \<Rightarrow> bridge_connection \<Rightarrow> 'w
    \<Rightarrow> ((js_error, unit) outcome \<times> bridge_connection \<times> 'w) option" where
  "bridge_publish_batch num cfg put es s w =
     (if length es = 0 then Some (Inr (), s, w)
      else map_option (\<lambda>((errs, s1), w1).
             (if 0 < length errs
              then Inl (plain_error (''EventBridge batch publish failed:'' @ CHR 0x0A # join_with CHR 0x0A errs))
              else Inr (), s1, w1))
           (chunk_loop num cfg put es 0 (([], s), w)))"

section \<open>The consumer\<close>

record delivered =
  de_event_id :: "json option"
  de_event_type :: string
  de_event_version :: string
  de_timestamp :: json
  de_payload :: json
  de_correlation_id :: "string option"
  de_causation_id :: "string option"
  de_tenant_id :: "string option"
  de_metadata :: "json option"

type_synonym 'w bridge_handlers = "(string, delivered \<Rightarrow> 'w \<Rightarrow> (js_error, unit) outcome \<times> 'w) jsmap"

record 'w bridge_consumer =
  bs_handlers :: "'w bridge_handlers"
  bs_processed :: "json option list"

definition bridge_consumer_new :: "'w bridge_consumer" where
  "bridge_consumer_new = \<lparr>bs_handlers = [], bs_processed = []\<rparr>"

definition bridge_subscribe :: "string \<Rightarrow> (delivered \<Rightarrow> 'w \<Rightarrow> (js_error, unit) outcome \<times> 'w) \<Rightarrow> 'w bridge_consumer \<Rightarrow> 'w bridge_consumer" where
  "bridge_subscribe t h s = s\<lparr>bs_handlers := jset t h (bs_handlers s)\<rparr>"

definition undefined_member :: "string \<Rightarrow> js_error" where
  "undefined_member k = JsError ''TypeError'' (''Cannot read properties of undefined (reading '' @ [CHR 0x27] @ k @ [CHR 0x27] @ '')'')"

definition string_field :: "(string, json) jsmap \<Rightarrow> string \<Rightarrow> string option" where
  "string_field d k = (case jget d k of Some (JStr t) \<Rightarrow> Some t | _ \<Rightarrow> None)"

text \<open>\<open>a ?? b\<close> for a field that may be missing or \<open>null\<close>.\<close>

definition nullish_or :: "json option \<Rightarrow> json \<Rightarrow> json" where
  "nullish_or v d = (case v of None \<Rightarrow> d | Some JNull \<Rightarrow> d | Some x \<Rightarrow> x)"

definition object_fields :: "json \<Rightarrow> (string, json) jsmap" where
  "object_fields v = (case v of JObj fs \<Rightarrow> fs | _ \<Rightarrow> [])"

definition event_id_of :: "json \<Rightarrow> json \<Rightarrow> json option" where
  "event_id_of msg detail =
     (case string_field (object_fields detail) ''eventId'' of Some t \<Rightarrow> Some (JStr t) | None \<Rightarrow> jget (object_fields msg) ''id'')"

definition read_delivered :: "string \<Rightarrow> json \<Rightarrow> string \<Rightarrow> json \<Rightarrow> delivered" where
  "read_delivered now msg event_type detail =
     (let d = object_fields detail in
      \<lparr>de_event_id = event_id_of msg detail, de_event_type = event_type,
       de_event_version = or_text ''1.0'' (string_field d ''eventVersion''),
       de_timestamp = (case string_field d ''timestamp'' of
          Some t \<Rightarrow> JStr t | None \<Rightarrow> nullish_or (jget (object_fields msg) ''time'') (JStr now)),
       de_payload = nullish_or (jget d ''payload'') detail,
       de_correlation_id = string_field d ''correlationId'', de_causation_id = string_field d ''causationId'',
       de_tenant_id = string_field d ''tenantId'',
       de_metadata = (case jget d ''metadata'' of Some (JObj fs) \<Rightarrow> Some (JObj fs) | Some (JArr xs) \<Rightarrow> Some (JArr xs) | _ \<Rightarrow> None)\<rparr>)"

text \<open>A failure to delete is only logged.\<close>

definition delete_message :: "(string \<Rightarrow> 'w \<Rightarrow> (js_error, unit) outcome \<times> 'w) \<Rightarrow> string \<Rightarrow> 'w \<Rightarrow> 'w" where
  "delete_message del receipt w = snd (del receipt w)"

definition track_processed :: "json option \<Rightarrow> 'w bridge_consumer \<Rightarrow> 'w bridge_consumer" where
  "track_processed i s = s\<lparr>bs_processed := remember_after_eviction max_seen i (bs_processed s)\<rparr>"

definition process_message :: "(string \<Rightarrow> rat option) \<Rightarrow> string \<Rightarrow> (string \<Rightarrow> 'w \<Rightarrow> (js_error, unit) outcome \<times> 'w)
    \<Rightarrow> string option \<Rightarrow> string option \<Rightarrow> 'w bridge_consumer \<Rightarrow> 'w \<Rightarrow> (js_error, unit) outcome \<times> 'w bridge_consumer \<times> 'w" where
  "process_message rd now del body receipt s w =
     (case (body, receipt) of
        (Some b, Some r) \<Rightarrow>
          (case json_parse rd b of
             None \<Rightarrow> (Inr (), s, w)
           | Some msg \<Rightarrow>
               (case member_of msg ''detail-type'' of
                  Inl e \<Rightarrow> (Inl e, s, w)
                | Inr event_type \<Rightarrow>
                    (case jget (object_fields msg) ''detail'' of
                       None \<Rightarrow> (Inl (undefined_member ''eventId''), s, w)
                     | Some detail \<Rightarrow>
                         (case member_of detail ''eventId'' of
                            Inl e \<Rightarrow> (Inl e, s, w)
                          | Inr _ \<Rightarrow>
                              (let i = event_id_of msg detail in
                               if seen (bs_processed s) i then (Inr (), s, delete_message del r w)
                               else (case (case event_type of Some (JStr t) \<Rightarrow> map_option (Pair t) (jget (bs_handlers s) t) | _ \<Rightarrow> None) of
                                 None \<Rightarrow> (Inr (), s, delete_message del r w)
                               | Some (t, h) \<Rightarrow>
                                   (case h (read_delivered now msg t detail) w of
                                      (Inl e, w1) \<Rightarrow> (Inr (), s, w1)
                                    | (Inr _, w1) \<Rightarrow> (Inr (), track_processed i s, delete_message del r w1))))))))
      | _ \<Rightarrow> (Inr (), s, w))"

text \<open>The messages of one poll: what is thrown for one leaves the others unread.\<close>

fun process_all :: "(string \<Rightarrow> rat option) \<Rightarrow> string \<Rightarrow> (string \<Rightarrow> 'w \<Rightarrow> (js_error, unit) outcome \<times> 'w)
    \<Rightarrow> (string option \<times> string option) list \<Rightarrow> 'w bridge_consumer \<Rightarrow> 'w \<Rightarrow> 'w bridge_consumer \<times> 'w" where
  "process_all rd now del [] s w = (s, w)"
| "process_all rd now del ((b, r) # ms) s w =
     (case process_message rd now del b r s w of
        (Inl e, s1, w1) \<Rightarrow> (s1, w1) | (Inr _, s1, w1) \<Rightarrow> process_all rd now del ms s1 w1)"

section \<open>Polling\<close>

text \<open>Polls under way, timers by their number, and the timer that \<open>stop\<close> would clear.\<close>

record poll_state =
  po_running :: bool
  po_in_flight :: nat
  po_timers :: "nat list"
  po_next :: nat
  po_timer :: "nat option"

definition poll_new :: poll_state where
  "poll_new = \<lparr>po_running = False, po_in_flight = 0, po_timers = [], po_next = 0, po_timer = None\<rparr>"

datatype poll_event = Start_Called | Stop_Called | Poll_Done | Timer_Fired nat

definition begin_poll :: "poll_state \<Rightarrow> poll_state" where
  "begin_poll s = (if \<not> po_running s then s else s\<lparr>po_in_flight := po_in_flight s + 1\<rparr>)"

fun poll_step :: "poll_state \<Rightarrow> poll_event \<Rightarrow> poll_state" where
  "poll_step s Start_Called = (if po_running s then s else begin_poll (s\<lparr>po_running := True\<rparr>))"
| "poll_step s Stop_Called =
     (case po_timer s of
        None \<Rightarrow> s\<lparr>po_running := False\<rparr>
      | Some t \<Rightarrow> s\<lparr>po_running := False, po_timers := filter (\<lambda>u. u \<noteq> t) (po_timers s), po_timer := None\<rparr>)"
| "poll_step s Poll_Done =
     (if po_in_flight s = 0 then s
      else let s1 = s\<lparr>po_in_flight := po_in_flight s - 1\<rparr>
           in if po_running s1
              then s1\<lparr>po_timers := po_timers s1 @ [po_next s1], po_timer := Some (po_next s1), po_next := po_next s1 + 1\<rparr> else s1)"
| "poll_step s (Timer_Fired t) =
     (if t \<in> set (po_timers s) then begin_poll (s\<lparr>po_timers := filter (\<lambda>u. u \<noteq> t) (po_timers s)\<rparr>) else s)"


section \<open>Batches\<close>

text \<open>A client that records the entries it is sent in front of its own state.\<close>

definition record_put :: "(put_entry list \<Rightarrow> 'v \<Rightarrow> (js_error, put_reply) outcome \<times> 'v) \<Rightarrow> (put_entry list list \<times> 'v) put_client" where
  "record_put f entries w = (case f entries (snd w) of (r, v) \<Rightarrow> (r, (fst w @ [entries], v)))"

lemma count_entry_client: "bn_client (snd (count_entry chunk acc x)) = bn_client (snd acc)"
  by (cases acc; cases x; cases "re_error_code (snd x)") (simp_all add: count_entry_def increment_published_def increment_errors_def)

lemma count_entries_client: "bn_client (snd (foldl (count_entry chunk) acc xs)) = bn_client (snd acc)"
  by (induction xs arbitrary: acc) (simp_all add: count_entry_client)

lemma count_published: "foldl (\<lambda>s _. increment_published s) s xs = s\<lparr>bn_published := bn_published s + int (length xs)\<rparr>"
  by (induction xs arbitrary: s) (simp_all add: increment_published_def)

lemma send_chunk_records:
  assumes "bn_client s"
  shows "\<exists>errs1 s1 v1. send_chunk num cfg (record_put f) chunk ((errs, s), (cs, v))
      = ((errs1, s1), (cs @ [map (build_entry num cfg) chunk], v1)) \<and> bn_client s1"
proof -
  obtain r v1 where f: "f (map (build_entry num cfg) chunk) v = (r, v1)" by (rule prod.exhaust)
  show ?thesis
  proof (cases r)
    case (Inl e)
    with f assms show ?thesis
      by (simp add: send_chunk_def get_client_def record_put_def chunk_failed_def set_last_error_def increment_errors_def)
  next
    case (Inr reply)
    show ?thesis
    proof (cases "0 < failed_count reply")
      case True
      obtain errs1 s1 where acc: "foldl (count_entry chunk) (errs, s) (case pr_entries reply of None \<Rightarrow> [] | Some xs \<Rightarrow> zip [0..<length xs] xs) = (errs1, s1)"
        by (rule prod.exhaust)
      have "bn_client s1"
        using count_entries_client [of chunk "(errs, s)" "case pr_entries reply of None \<Rightarrow> [] | Some xs \<Rightarrow> zip [0..<length xs] xs"] assms
        unfolding acc by simp
      with acc f Inr True assms show ?thesis by (simp add: send_chunk_def get_client_def record_put_def)
    next
      case False
      with f Inr assms show ?thesis by (simp add: send_chunk_def get_client_def record_put_def count_published)
    qed
  qed
qed

lemma chunk_loop_records:
  assumes "0 < bc_max_batch_size cfg" and "bn_client s" and "i \<le> length es"
  shows "\<exists>errs1 s1 calls v1. chunk_loop num cfg (record_put f) es (int i) ((errs, s), (cs, v)) = Some ((errs1, s1), (cs @ calls, v1))
    \<and> concat calls = map (build_entry num cfg) (drop i es)
    \<and> (\<forall>c \<in> set calls. c \<noteq> [] \<and> length c \<le> nat (bc_max_batch_size cfg))"
  using assms
proof (induction "length es - i" arbitrary: i errs s cs v rule: less_induct)
  case less
  let ?k = "nat (bc_max_batch_size cfg)"
  show ?case
  proof (cases "i < length es")
    case False
    with less.prems show ?thesis by (subst chunk_loop.simps) auto
  next
    case True
    have k: "0 < ?k" and ki: "int i + bc_max_batch_size cfg = int (i + ?k)" using less.prems(1) by auto
    have chunk: "js_slice_to (int i) (Some (int (i + ?k))) es = take ?k (drop i es)"
      using js_slice_to_page [of "int i" "bc_max_batch_size cfg" es] less.prems(1) by simp
    obtain errs1 s1 v1 where sent: "send_chunk num cfg (record_put f) (take ?k (drop i es)) ((errs, s), (cs, v))
        = ((errs1, s1), (cs @ [map (build_entry num cfg) (take ?k (drop i es))], v1))" "bn_client s1"
      using send_chunk_records [OF less.prems(2), of num cfg f "take ?k (drop i es)" errs cs v] by blast
    have step: "chunk_loop num cfg (record_put f) es (int i) ((errs, s), (cs, v))
        = chunk_loop num cfg (record_put f) es (int (i + ?k)) ((errs1, s1), (cs @ [map (build_entry num cfg) (take ?k (drop i es))], v1))"
      by (subst chunk_loop.simps) (simp only: ki chunk sent(1) of_nat_less_iff True if_True)
    show ?thesis
    proof (cases "i + ?k \<le> length es")
      case inside: True
      obtain errs2 s2 calls v2 where rest: "chunk_loop num cfg (record_put f) es (int (i + ?k)) ((errs1, s1),
            (cs @ [map (build_entry num cfg) (take ?k (drop i es))], v1))
          = Some ((errs2, s2), ((cs @ [map (build_entry num cfg) (take ?k (drop i es))]) @ calls, v2))"
        "concat calls = map (build_entry num cfg) (drop (i + ?k) es)" "\<forall>c \<in> set calls. c \<noteq> [] \<and> length c \<le> ?k"
        using less.hyps [of "i + ?k" s1] True k sent(2) inside less.prems(1) by (metis diff_less_mono2 less_add_same_cancel1)
      have "map (build_entry num cfg) (take ?k (drop i es)) @ map (build_entry num cfg) (drop (i + ?k) es)
          = map (build_entry num cfg) (drop i es)"
        by (metis append_take_drop_id drop_drop add.commute map_append)
      then show ?thesis unfolding step rest(1)
        using True k rest(2,3)
        by (intro exI [of _ errs2] exI [of _ s2] exI [of _ "map (build_entry num cfg) (take ?k (drop i es)) # calls"] exI [of _ v2]) auto
    next
      case False
      then have "\<not> int (i + ?k) < int (length es)" by linarith
      then have "chunk_loop num cfg (record_put f) es (int (i + ?k)) st = Some st" for st
        by (subst chunk_loop.simps) (simp only: if_False)
      then show ?thesis unfolding step using False True k
        by (intro exI [of _ errs1] exI [of _ s1] exI [of _ "[map (build_entry num cfg) (take ?k (drop i es))]"] exI [of _ v1]) auto
    qed
  qed
qed

text \<open>
  A batch on an open connection returns, and sends every event once and in order, in calls of at
  least one and at most \<open>maxBatchSize\<close> entries, whatever the replies are.
\<close>

theorem batch_sends_each_once:
  assumes "0 < bc_max_batch_size cfg" and "bn_client s"
  shows "\<exists>r s1 calls v1. bridge_publish_batch num cfg (record_put f) es s ([], v) = Some (r, s1, (calls, v1))
    \<and> concat calls = map (build_entry num cfg) es
    \<and> (\<forall>c \<in> set calls. c \<noteq> [] \<and> int (length c) \<le> bc_max_batch_size cfg)"
proof (cases "es = []")
  case False
  obtain errs1 s1 calls v1 where "chunk_loop num cfg (record_put f) es 0 (([], s), ([], v)) = Some ((errs1, s1), (calls, v1))"
    "concat calls = map (build_entry num cfg) es" "\<forall>c \<in> set calls. c \<noteq> [] \<and> length c \<le> nat (bc_max_batch_size cfg)"
    using chunk_loop_records [OF assms, of 0 es num f "[]" "[]" v] by auto
  with False assms(1) show ?thesis by (auto simp: bridge_publish_batch_def nat_le_iff)
qed (simp add: bridge_publish_batch_def)

definition some_envelope :: json_envelope where
  "some_envelope = \<lparr>ev_event_id = ''1'', ev_event_type = ''X'', ev_event_version = ''1.0'', ev_timestamp = ''t'', ev_correlation_id = None,
     ev_causation_id = None, ev_tenant_id = None, ev_payload = JBool True, ev_metadata = None\<rparr>"

theorem batch_sends_each_once_witness:
  "\<exists>r s1 calls v1. bridge_publish_batch (\<lambda>_. []) (bridge_config_of ''r'' None ''app'' (Some 2)) (record_put (\<lambda>_ v. (Inl (plain_error ''x''), v)))
     (replicate 5 some_envelope) (bridge_new\<lparr>bn_client := True\<rparr>) ([], ()) = Some (r, s1, (calls, v1))
   \<and> length (concat calls) = 5"
  using batch_sends_each_once [of "bridge_config_of ''r'' None ''app'' (Some 2)" "bridge_new\<lparr>bn_client := True\<rparr>" "\<lambda>_. []"
      "\<lambda>_ v. (Inl (plain_error ''x''), v)" "replicate 5 some_envelope" "()"]
  by (auto simp: bridge_config_of_def)

text \<open>With a \<open>maxBatchSize\<close> of zero or less a batch never returns.\<close>

theorem batch_without_size_hangs:
  assumes "bc_max_batch_size cfg \<le> 0" and "es \<noteq> []"
  shows "bridge_publish_batch num cfg put es s w = None"
proof -
  have "bc_max_batch_size cfg \<le> 0 \<longrightarrow> int (length es) \<le> i" if "chunk_loop num cfg put es i st = Some y" for i st y
  proof (rule chunk_loop.raw_induct [where P = "\<lambda>num cfg put es i st y. bc_max_batch_size cfg \<le> 0 \<longrightarrow> int (length es) \<le> i", OF _ that])
    fix f :: "(rat \<Rightarrow> string) \<Rightarrow> bridge_config \<Rightarrow> 'a put_client \<Rightarrow> json_envelope list \<Rightarrow> int
        \<Rightarrow> (string list \<times> bridge_connection) \<times> 'a \<Rightarrow> ((string list \<times> bridge_connection) \<times> 'a) option"
      and num cfg put es i st y
    assume IH: "\<And>num cfg put es i st y. f num cfg put es i st = Some y \<Longrightarrow> bc_max_batch_size cfg \<le> 0 \<longrightarrow> int (length es) \<le> i"
      and body: "(if i < int (length es) then f num cfg put es (i + bc_max_batch_size cfg)
          (send_chunk num cfg put (js_slice_to i (Some (i + bc_max_batch_size cfg)) es) st) else Some st) = Some y"
    show "bc_max_batch_size cfg \<le> 0 \<longrightarrow> int (length es) \<le> i"
    proof (cases "i < int (length es)")
      case True
      with body have "f num cfg put es (i + bc_max_batch_size cfg)
          (send_chunk num cfg put (js_slice_to i (Some (i + bc_max_batch_size cfg)) es) st) = Some y" by simp
      from IH [OF this] True show ?thesis by linarith
    qed simp
  qed
  from this [of 0 "(([], s), w)"] have "chunk_loop num cfg put es 0 (([], s), w) = None"
    using assms by (cases "chunk_loop num cfg put es 0 (([], s), w)") auto
  with assms(2) show ?thesis by (simp add: bridge_publish_batch_def)
qed

theorem batch_without_size_hangs_witness:
  "bridge_publish_batch (\<lambda>_. []) (bridge_config_of ''r'' None ''app'' (Some 0)) (\<lambda>_ w. (Inl (plain_error ''x''), w)) [some_envelope] bridge_new () = None"
  by (rule batch_without_size_hangs) (simp_all add: bridge_config_of_def)


lemma count_entry_sum:
  "(let (errs1, s1) = foldl (count_entry chunk) (errs, s) xs in
     bn_published s1 + bn_errors s1 = bn_published s + bn_errors s + int (length xs)
     \<and> bn_errors s1 - bn_errors s = int (length errs1) - int (length errs))"
proof (induction xs arbitrary: errs s)
  case (Cons x xs)
  obtain errs1 s1 where one: "count_entry chunk (errs, s) x = (errs1, s1)" by (rule prod.exhaust)
  obtain errs2 s2 where all: "foldl (count_entry chunk) (errs1, s1) xs = (errs2, s2)" by (rule prod.exhaust)
  obtain idx entry where x: "x = (idx, entry)" by (rule prod.exhaust)
  have "bn_published s1 + bn_errors s1 = bn_published s + bn_errors s + 1
      \<and> bn_errors s1 - bn_errors s = int (length errs1) - int (length errs)"
    using one by (cases "re_error_code entry") (auto simp: x count_entry_def increment_published_def increment_errors_def)
  with Cons.IH [of errs1 s1] show ?case by (simp add: one all)
qed simp

text \<open>
  The counters over one call of the client: with a reply for every entry, published and failed
  entries add up to the entries sent and each failure gives one message; a call that is refused
  counts one error, however many events were in it.
\<close>

theorem counters_of_chunk:
  assumes "bn_client s" and "put (map (build_entry num cfg) chunk) w = (r, w1)"
    and "\<And>reply. r = Inr reply \<Longrightarrow> failed_count reply \<le> 0 \<or> (\<exists>xs. pr_entries reply = Some xs \<and> length xs = length chunk)"
    and "send_chunk num cfg put chunk ((errs, s), w) = ((errs1, s1), w1)"
  shows "bn_errors s1 - bn_errors s = int (length errs1) - int (length errs)
    \<and> (bn_published s1 + bn_errors s1) - (bn_published s + bn_errors s)
       = (case r of Inl e \<Rightarrow> 1 | Inr _ \<Rightarrow> int (length chunk))"
proof (cases r)
  case (Inl e)
  with assms(1,2,4) show ?thesis
    by (auto simp: send_chunk_def get_client_def chunk_failed_def set_last_error_def increment_errors_def)
next
  case (Inr reply)
  show ?thesis
  proof (cases "0 < failed_count reply")
    case True
    then obtain xs where xs: "pr_entries reply = Some xs" "length xs = length chunk" using assms(3) [OF Inr] by auto
    with True Inr assms(1,2,4) have "foldl (count_entry chunk) (errs, s) (zip [0..<length xs] xs) = (errs1, s1)"
      by (simp add: send_chunk_def get_client_def)
    with count_entry_sum [of chunk errs s "zip [0..<length xs] xs"] xs(2) Inr show ?thesis by simp
  next
    case False
    with Inr assms(1,2,4) show ?thesis by (auto simp: send_chunk_def get_client_def count_published)
  qed
qed

theorem counters_of_chunk_witness:
  "\<exists>errs1 s1. send_chunk (\<lambda>_. []) (bridge_config_of ''r'' None ''app'' None) (\<lambda>_ w. (Inl (plain_error ''x''), w))
      (replicate 10 some_envelope) (([], bridge_new\<lparr>bn_client := True\<rparr>), ()) = ((errs1, s1), ())
    \<and> bn_published s1 + bn_errors s1 = 1"
proof -
  obtain p u where pu: "send_chunk (\<lambda>_. []) (bridge_config_of ''r'' None ''app'' None) (\<lambda>_ w. (Inl (plain_error ''x''), w))
      (replicate 10 some_envelope) (([], bridge_new\<lparr>bn_client := True\<rparr>), ()) = (p, u)" by (rule prod.exhaust)
  obtain errs1 s1 where "p = (errs1, s1)" by (rule prod.exhaust)
  with pu have run: "send_chunk (\<lambda>_. []) (bridge_config_of ''r'' None ''app'' None) (\<lambda>_ w. (Inl (plain_error ''x''), w))
      (replicate 10 some_envelope) (([], bridge_new\<lparr>bn_client := True\<rparr>), ()) = ((errs1, s1), ())" by (cases u) simp
  have open_client: "bn_client (bridge_new\<lparr>bn_client := True\<rparr>)" by simp
  have "bn_errors s1 - bn_errors (bridge_new\<lparr>bn_client := True\<rparr>) = int (length errs1) - int (length ([] :: string list))
    \<and> (bn_published s1 + bn_errors s1) - (bn_published (bridge_new\<lparr>bn_client := True\<rparr>) + bn_errors (bridge_new\<lparr>bn_client := True\<rparr>)) = 1"
    using counters_of_chunk [where r = "Inl (plain_error ''x'')", OF open_client _ _ run] by simp
  then have "bn_published s1 + bn_errors s1 = 1" by (simp add: bridge_new_def)
  with run show ?thesis by blast
qed

section \<open>From publisher to handler\<close>

lemma jget_optional: "jget (optional_field n f v) k = (if k = n then map_option f v else None)"
  by (simp add: optional_field_def split: option.split)

lemma detail_fields:
  "jget (object_fields (detail_json e)) ''eventId'' = Some (JStr (ev_event_id e))"
  "jget (object_fields (detail_json e)) ''eventVersion'' = Some (JStr (ev_event_version e))"
  "jget (object_fields (detail_json e)) ''timestamp'' = Some (JStr (ev_timestamp e))"
  "jget (object_fields (detail_json e)) ''payload'' = Some (ev_payload e)"
  "jget (object_fields (detail_json e)) ''correlationId'' = map_option JStr (ev_correlation_id e)"
  "jget (object_fields (detail_json e)) ''causationId'' = map_option JStr (ev_causation_id e)"
  "jget (object_fields (detail_json e)) ''tenantId'' = map_option JStr (ev_tenant_id e)"
  "jget (object_fields (detail_json e)) ''metadata'' = map_option JObj (ev_metadata e)"
  by (simp_all add: detail_json_def object_fields_def jget_optional map_add_def option.case_eq_if)

definition received :: "json_envelope \<Rightarrow> json \<Rightarrow> delivered" where
  "received e payload = \<lparr>de_event_id = Some (JStr (ev_event_id e)), de_event_type = ev_event_type e,
     de_event_version = ev_event_version e, de_timestamp = JStr (ev_timestamp e), de_payload = payload,
     de_correlation_id = ev_correlation_id e, de_causation_id = ev_causation_id e, de_tenant_id = ev_tenant_id e,
     de_metadata = map_option JObj (ev_metadata e)\<rparr>"

text \<open>C21: 
  When the queue's message carries the detail and its type as they were published, the handler of
  the type gets the envelope that was published; only a payload that is \<open>null\<close> comes as the whole
  detail.  The message is deleted exactly when the handler returned, and only then remembered.
\<close>

theorem published_is_received:
  assumes "printable num rd (detail_json e)" and "json_parse rd body = Some (JObj msg)"
    and "jget msg ''detail-type'' = Some (JStr (pe_detail_type (build_entry num cfg e)))"
    and "jget msg ''detail'' = json_parse rd (pe_detail (build_entry num cfg e))"
    and "jget (bs_handlers s) (ev_event_type e) = Some h"
    and "\<not> seen (bs_processed s) (Some (JStr (ev_event_id e)))"
    and "h (received e (if ev_payload e = JNull then detail_json e else ev_payload e)) w = (r, w1)"
  shows "process_message rd now del (Some body) (Some receipt) s w =
    (case r of
       Inl _ \<Rightarrow> (Inr (), s, w1)
     | Inr _ \<Rightarrow> (Inr (), track_processed (Some (JStr (ev_event_id e))) s, delete_message del receipt w1))"
proof -
  have detail: "jget msg ''detail'' = Some (detail_json e)"
    using assms(4) json_round_trip [OF assms(1)] by (simp add: build_entry_def)
  have i: "event_id_of (JObj msg) (detail_json e) = Some (JStr (ev_event_id e))"
    by (simp add: event_id_of_def string_field_def detail_fields)
  have "read_delivered now (JObj msg) (ev_event_type e) (detail_json e)
      = received e (if ev_payload e = JNull then detail_json e else ev_payload e)"
    by (simp add: read_delivered_def received_def Let_def i string_field_def detail_fields or_text_def nullish_or_def
        split: option.split json.split)
  moreover have "member_of (detail_json e) ''eventId'' = Inr (Some (JStr (ev_event_id e)))"
    by (simp add: member_of_def detail_json_def)
  ultimately show ?thesis
    using assms(2,3,5-7) detail i
    by (cases r) (simp_all add: process_message_def member_of_def build_entry_def Let_def object_fields_def)
qed

definition queue_text :: "json_envelope \<Rightarrow> string" where
  "queue_text e = json_text (\<lambda>_. []) (JObj [(''detail-type'', JStr (ev_event_type e)), (''detail'', detail_json e)])"

theorem published_is_received_witness:
  "snd (snd (process_message (\<lambda>_. None) ''now'' (\<lambda>r w. (Inr (), w @ [r])) (Some (queue_text some_envelope)) (Some ''r1'')
     (bridge_subscribe ''X'' (\<lambda>d w. (Inr (), w @ [de_event_version d])) bridge_consumer_new) [])) = [''1.0'', ''r1'']"
proof -
  have ok: "printable (\<lambda>_. []) (\<lambda>_. None) (detail_json some_envelope)"
    by (simp add: detail_json_def some_envelope_def optional_field_def)
  then have parse: "json_parse (\<lambda>_. None) (queue_text some_envelope)
      = Some (JObj [(''detail-type'', JStr (ev_event_type some_envelope)), (''detail'', detail_json some_envelope)])"
    unfolding queue_text_def by (intro json_round_trip) simp
  have detail: "json_parse (\<lambda>_. None) (json_text (\<lambda>_. []) (detail_json some_envelope)) = Some (detail_json some_envelope)"
    by (rule json_round_trip [OF ok])
  show ?thesis
    using published_is_received [OF ok parse, of "bridge_config_of ''r'' None ''app'' None"
        "bridge_subscribe ''X'' (\<lambda>d w. (Inr (), w @ [de_event_version d])) bridge_consumer_new"
        "\<lambda>d w. (Inr (), w @ [de_event_version d])" "[]" "Inr ()" "[''1.0'']" "''now''" "\<lambda>r w. (Inr (), w @ [r])" "''r1''"] detail
    by (simp add: build_entry_def bridge_subscribe_def bridge_consumer_new_def seen_def received_def some_envelope_def delete_message_def)
qed

text \<open>
  A message that is JSON but has no detail throws outside the handler's guard: the messages after
  it in the same poll are not read, and none is deleted.
\<close>

theorem message_without_detail_blocks:
  assumes "json_parse rd body = Some (JObj msg)" and "jget msg ''detail'' = None"
  shows "process_all rd now del ((Some body, Some receipt) # ms) s w = (s, w)"
  using assms by (simp add: process_message_def member_of_def object_fields_def)

theorem message_without_detail_blocks_witness:
  "process_all (\<lambda>_. None) ''now'' (\<lambda>r w. (Inr (), w @ [r])) [(Some ''{}'', Some ''r1''), (Some ''{}'', Some ''r2'')] bridge_consumer_new []
    = (bridge_consumer_new, [])"
proof -
  have "json_parse (\<lambda>_. None) ''{}'' = Some (JObj [])" by code_simp
  from message_without_detail_blocks [OF this] show ?thesis by simp
qed

section \<open>Loops of polls\<close>

definition loops :: "poll_state \<Rightarrow> nat" where
  "loops s = po_in_flight s + length (po_timers s)"

definition stops :: "poll_event list \<Rightarrow> nat" where
  "stops es = length (filter (\<lambda>e. e = Stop_Called) es)"

lemma timers_less: "\<forall>t \<in> set (po_timers s). t < po_next s \<Longrightarrow> distinct (po_timers s) \<Longrightarrow>
    (\<forall>t \<in> set (po_timers (poll_step s e)). t < po_next (poll_step s e)) \<and> distinct (po_timers (poll_step s e))"
  by (cases e) (auto simp: begin_poll_def Let_def less_Suc_eq split: option.split)

lemma remove_one: "distinct xs \<Longrightarrow> t \<in> set xs \<Longrightarrow> length (filter (\<lambda>u. u \<noteq> t) xs) = length xs - 1"
proof -
  assume "distinct xs" and t: "t \<in> set xs"
  then have "filter (\<lambda>u. u \<noteq> t) xs = remove1 t xs" by (induction xs) (auto simp: filter_id_conv)
  with t show ?thesis by (simp add: length_remove1)
qed

text \<open>
  A poll under way and a pending timer are each a loop.  There is never more than one loop for each
  time the consumer was stopped, and one; so one that was not stopped polls once at a time.
\<close>

theorem loops_bounded:
  "loops (foldl poll_step poll_new es) \<le> stops es + (if po_running (foldl poll_step poll_new es) then 1 else 0)"
proof -
  let ?s = "\<lambda>es. foldl poll_step poll_new es"
  have "loops (?s es) \<le> stops es + (if po_running (?s es) then 1 else 0)
      \<and> (\<forall>t \<in> set (po_timers (?s es)). t < po_next (?s es)) \<and> distinct (po_timers (?s es))"
  proof (induction es rule: rev_induct)
    case Nil
    show ?case by (simp add: loops_def poll_new_def)
  next
    case (snoc e es)
    then have dis: "distinct (po_timers (?s es))"
      and inv: "(\<forall>t \<in> set (po_timers (?s (es @ [e]))). t < po_next (?s (es @ [e]))) \<and> distinct (po_timers (?s (es @ [e])))"
      and bound: "loops (?s es) \<le> stops es + (if po_running (?s es) then 1 else 0)"
      using timers_less [of "?s es" e] by simp_all
    have "loops (poll_step (?s es) e) \<le> stops (es @ [e]) + (if po_running (poll_step (?s es) e) then 1 else 0)"
    proof (cases e)
      case Start_Called
      then show ?thesis using bound by (auto simp: loops_def stops_def begin_poll_def)
    next
      case Stop_Called
      have "length (po_timers (poll_step (?s es) e)) \<le> length (po_timers (?s es))"
        "po_in_flight (poll_step (?s es) e) = po_in_flight (?s es)"
        by (simp_all add: Stop_Called split: option.split)
      then show ?thesis using bound by (simp add: Stop_Called loops_def stops_def split: if_splits option.split)
    next
      case Poll_Done
      then show ?thesis using bound by (auto simp: loops_def stops_def Let_def)
    next
      case (Timer_Fired t)
      then show ?thesis using bound remove_one [OF dis, of t]
        by (cases "po_timers (?s es)") (auto simp: loops_def stops_def begin_poll_def split: if_splits)
    qed
    with inv show ?case by simp
  qed
  then show ?thesis by blast
qed

text \<open>
  Stopped and started again while a poll is under way, the consumer polls in two loops from then on:
  the old poll sees the flag of the new start and sets its timer too.
\<close>

theorem restart_doubles_polling:
  "loops (foldl poll_step poll_new [Start_Called, Stop_Called, Start_Called, Poll_Done, Poll_Done]) = 2"
  by (simp add: loops_def poll_new_def begin_poll_def)

text \<open>A consumer that stays stopped comes to rest: every poll under way ends and every timer does nothing.\<close>

theorem stopped_comes_to_rest:
  assumes "\<not> po_running s" and "\<forall>e \<in> set es. e \<noteq> Start_Called"
  shows "\<not> po_running (foldl poll_step s es) \<and> loops (foldl poll_step s es) \<le> loops s
    \<and> (0 < po_in_flight s \<longrightarrow> loops (poll_step s Poll_Done) < loops s)
    \<and> (\<forall>t \<in> set (po_timers s). loops (poll_step s (Timer_Fired t)) < loops s)"
proof -
  have step: "\<not> po_running (poll_step s e) \<and> loops (poll_step s e) \<le> loops s"
    if "\<not> po_running s" "e \<noteq> Start_Called" for s e
    using that by (cases e) (auto simp: loops_def begin_poll_def Let_def split: option.split)
  have "\<not> po_running (foldl poll_step s es) \<and> loops (foldl poll_step s es) \<le> loops s"
    using assms
  proof (induction es arbitrary: s)
    case (Cons e es)
    with step [of s e] Cons.IH [of "poll_step s e"] show ?case by fastforce
  qed simp
  moreover have "0 < po_in_flight s \<longrightarrow> loops (poll_step s Poll_Done) < loops s"
    using assms(1) by (simp add: loops_def Let_def)
  moreover have "loops (poll_step s (Timer_Fired t)) < loops s" if "t \<in> set (po_timers s)" for t
    using assms(1) that length_filter_less [of t "po_timers s" "\<lambda>u. u \<noteq> t"] by (simp add: loops_def begin_poll_def)
  ultimately show ?thesis by blast
qed

theorem stopped_comes_to_rest_witness:
  "loops (foldl poll_step poll_new [Start_Called, Poll_Done, Stop_Called, Timer_Fired 0]) = 0"
proof -
  let ?s = "foldl poll_step poll_new [Start_Called, Poll_Done, Stop_Called]"
  have "\<not> po_running ?s" by (simp add: poll_new_def begin_poll_def)
  from stopped_comes_to_rest [OF this, of "[Timer_Fired 0]"] show ?thesis by (simp add: loops_def poll_new_def begin_poll_def)
qed

end
