(* ===== verification/Sse.thy ===== *)
theory Sse
  imports Json_Text Configuration
begin

text \<open>
  \<open>packages/web/src/sse\<close>: server-sent events, their texts, the buffer of those sent, and the emitter.

  \<open>number\<close> stands for \<open>Number\<close> of a text, nothing for \<open>NaN\<close>.  A writer is a number; what the emitter
  does is the list of what it writes to whom.
\<close>

section \<open>Events and their texts\<close>

record sse_event =
  sv_id :: "string option"
  sv_event :: "string option"
  sv_data :: json
  sv_retry :: "rat option"

definition sse_lines :: "(rat \<Rightarrow> string) \<Rightarrow> sse_event \<Rightarrow> string list" where
  "sse_lines num e =
     (case sv_id e of None \<Rightarrow> [] | Some i \<Rightarrow> [''id: '' @ i])
     @ (case sv_event e of None \<Rightarrow> [] | Some t \<Rightarrow> [''event: '' @ t])
     @ [''data: '' @ json_text num (sv_data e)]
     @ (case sv_retry e of None \<Rightarrow> [] | Some r \<Rightarrow> [''retry: '' @ num r])"

definition sse_format :: "(rat \<Rightarrow> string) \<Rightarrow> sse_event \<Rightarrow> string" where
  "sse_format num e = join_with CHR 0x0A (sse_lines num e) @ [CHR 0x0A, CHR 0x0A]"

definition format_comment :: "string \<Rightarrow> string" where
  "format_comment c = '': '' @ c @ [CHR 0x0A, CHR 0x0A]"

record parsed_event =
  pv_id :: "string option"
  pv_event :: "string option"
  pv_data :: "json option"
  pv_retry :: "rat option"

definition nothing_parsed :: parsed_event where
  "nothing_parsed = \<lparr>pv_id = None, pv_event = None, pv_data = None, pv_retry = None\<rparr>"

definition parse_json :: "(string \<Rightarrow> rat option) \<Rightarrow> string \<Rightarrow> json" where
  "parse_json rd s = (case json_parse rd s of Some v \<Rightarrow> v | None \<Rightarrow> JStr s)"

definition parse_field :: "(string \<Rightarrow> rat option) \<Rightarrow> (string \<Rightarrow> rat option) \<Rightarrow> parsed_event \<Rightarrow> string \<Rightarrow> string \<Rightarrow> parsed_event" where
  "parse_field number rd p field v =
     (if field = ''data'' then p\<lparr>pv_data := Some (parse_json rd v)\<rparr>
      else if field = ''id'' then p\<lparr>pv_id := Some v\<rparr>
      else if field = ''event'' then p\<lparr>pv_event := Some v\<rparr>
      else if field = ''retry'' then (case number v of Some n \<Rightarrow> p\<lparr>pv_retry := Some n\<rparr> | None \<Rightarrow> p)
      else p)"

definition parse_line :: "(string \<Rightarrow> rat option) \<Rightarrow> (string \<Rightarrow> rat option) \<Rightarrow> parsed_event \<Rightarrow> string \<Rightarrow> parsed_event" where
  "parse_line number rd p line =
     (if (case line of c # _ \<Rightarrow> c = CHR '':'' | [] \<Rightarrow> False) then p
      else if CHR '':'' \<notin> set line then p
      else parse_field number rd p (js_trim (takeWhile (\<lambda>c. c \<noteq> CHR '':'') line))
             (js_trim (tl (dropWhile (\<lambda>c. c \<noteq> CHR '':'') line))))"

definition sse_parse :: "(string \<Rightarrow> rat option) \<Rightarrow> (string \<Rightarrow> rat option) \<Rightarrow> string \<Rightarrow> parsed_event option" where
  "sse_parse number rd raw =
     (let p = foldl (parse_line number rd) nothing_parsed (filter (\<lambda>l. js_trim l \<noteq> []) (js_split CHR 0x0A raw))
      in if p = nothing_parsed then None else Some p)"

section \<open>The buffer\<close>

record sse_tracker =
  tk_buffer :: "sse_event list"
  tk_max :: int
  tk_sequence :: int

definition tracker_new :: "int option \<Rightarrow> sse_tracker" where
  "tracker_new m = \<lparr>tk_buffer = [], tk_max = (case m of None \<Rightarrow> 100 | Some n \<Rightarrow> n), tk_sequence = 0\<rparr>"

definition track :: "sse_event \<Rightarrow> sse_tracker \<Rightarrow> sse_event \<times> sse_tracker" where
  "track e t =
     (let n = tk_sequence t + 1;
          e1 = e\<lparr>sv_id := Some (case sv_id e of Some i \<Rightarrow> i | None \<Rightarrow> show_int n)\<rparr>;
          b = tk_buffer t @ [e1]
      in (e1, t\<lparr>tk_sequence := n, tk_buffer := (if int (length b) > tk_max t then drop (nat (int (length b) - tk_max t)) b else b)\<rparr>))"

definition events_after :: "(string \<Rightarrow> rat option) \<Rightarrow> string option \<Rightarrow> sse_tracker \<Rightarrow> sse_event list" where
  "events_after number last_id t =
     (case last_id of
        None \<Rightarrow> tk_buffer t
      | Some i \<Rightarrow>
          (case number i of
             None \<Rightarrow> tk_buffer t
           | Some threshold \<Rightarrow>
               filter (\<lambda>e. case Option.bind (sv_id e) number of None \<Rightarrow> False | Some n \<Rightarrow> n > threshold) (tk_buffer t)))"

definition tracker_last_id :: "sse_tracker \<Rightarrow> string option" where
  "tracker_last_id t = (if tk_buffer t = [] then None else sv_id (last (tk_buffer t)))"

definition tracker_clear :: "sse_tracker \<Rightarrow> sse_tracker" where
  "tracker_clear t = t\<lparr>tk_buffer := []\<rparr>"

section \<open>The emitter\<close>

record sse_emitter =
  et_open :: bool
  et_retry :: "rat option"
  et_writers :: "nat list"
  et_tracker :: sse_tracker

definition emitter_new :: "rat option \<Rightarrow> int option \<Rightarrow> sse_emitter" where
  "emitter_new retry m = \<lparr>et_open = True, et_retry = retry, et_writers = [], et_tracker = tracker_new m\<rparr>"

definition add_writer :: "nat \<Rightarrow> sse_emitter \<Rightarrow> sse_emitter" where
  "add_writer w s = s\<lparr>et_writers := set_add w (et_writers s)\<rparr>"

definition remove_writer :: "nat \<Rightarrow> sse_emitter \<Rightarrow> sse_emitter" where
  "remove_writer w s = s\<lparr>et_writers := set_remove w (et_writers s)\<rparr>"

definition sse_send :: "(rat \<Rightarrow> string) \<Rightarrow> sse_event \<Rightarrow> sse_emitter \<Rightarrow> (nat \<times> string) list \<times> sse_emitter" where
  "sse_send num e s =
     (if \<not> et_open s then ([], s)
      else let (tracked, t) = track (e\<lparr>sv_retry := (case sv_retry e of Some r \<Rightarrow> Some r | None \<Rightarrow> et_retry s)\<rparr>) (et_tracker s)
           in (map (\<lambda>w. (w, sse_format num tracked)) (et_writers s), s\<lparr>et_tracker := t\<rparr>))"

definition sse_ping :: "string option \<Rightarrow> sse_emitter \<Rightarrow> (nat \<times> string) list" where
  "sse_ping comment s =
     (if \<not> et_open s then [] else map (\<lambda>w. (w, format_comment (case comment of None \<Rightarrow> ''ping'' | Some c \<Rightarrow> c))) (et_writers s))"

definition sse_replay :: "(string \<Rightarrow> rat option) \<Rightarrow> (rat \<Rightarrow> string) \<Rightarrow> string option \<Rightarrow> nat \<Rightarrow> sse_emitter \<Rightarrow> (nat \<times> string) list" where
  "sse_replay number num last_id w s = map (\<lambda>e. (w, sse_format num e)) (events_after number last_id (et_tracker s))"

definition sse_close :: "sse_emitter \<Rightarrow> sse_emitter" where
  "sse_close s = s\<lparr>et_open := False\<rparr>"

section \<open>Reading what was formatted\<close>

lemma split_join_blank:
  assumes "ls \<noteq> []" and "\<forall>l \<in> set ls. c \<notin> set l"
  shows "js_split c (join_with c ls @ [c, c]) = ls @ [[], []]"
  using assms
proof (induction ls rule: join_with.induct)
  case (2 c x)
  then show ?case by (simp add: js_split_at)
next
  case (3 c x y zs)
  then show ?case by (simp add: js_split_at)
qed simp

lemma trim_kept: "s \<noteq> [] \<Longrightarrow> \<not> is_js_space (hd s) \<Longrightarrow> \<not> is_js_space (last s) \<Longrightarrow> js_trim s = s"
  by (simp add: js_trim_def dropWhile_hd hd_rev)

lemma trim_after_space: "js_trim (CHR '' '' # s) = js_trim s"
  by (simp add: js_trim_def is_js_space_def)

lemma hex_digit_no_newline: "d < 16 \<Longrightarrow> hex_digit d \<noteq> CHR 0x0A"
proof
  assume "d < 16" and "hex_digit d = CHR 0x0A"
  then have "(of_char (hex_digit d) :: nat) = of_char CHR 0x0A" by simp
  with \<open>d < 16\<close> show False by (simp add: hex_digit_def split: if_splits)
qed

lemma json_char_no_newline: "CHR 0x0A \<notin> set (json_char c)"
proof (cases "c = CHR 0x0A")
  case True
  then show ?thesis by (simp add: json_char_def)
next
  case False
  have h: "CHR 0x0A \<noteq> hex_digit (of_char c div 16) \<and> CHR 0x0A \<noteq> hex_digit (of_char c mod 16)" if "(of_char c :: nat) < 32"
    using that by (intro conjI hex_digit_no_newline [symmetric]) auto
  show ?thesis
    using False h unfolding json_char_def Let_def by (simp split: if_split)
qed

lemma json_elements_set: "set (json_elements xs) \<subseteq> insert CHR '','' (\<Union> (set ` set xs))"
  by (induction xs rule: json_elements.induct) auto

lemma json_chars_no_newline: "CHR 0x0A \<notin> set (json_chars s)"
  unfolding json_chars_def set_concat set_map using json_char_no_newline by blast

lemma json_string_no_newline: "CHR 0x0A \<notin> set (json_string s)"
  by (simp add: json_string_def json_chars_no_newline)

lemma json_elements_absent:
  assumes "c \<noteq> CHR '',''" and "\<And>x. x \<in> set xs \<Longrightarrow> c \<notin> set x"
  shows "c \<notin> set (json_elements xs)"
  using json_elements_set [of xs] assms by blast

lemma number_no_newline: "list_all number_char s \<Longrightarrow> CHR 0x0A \<notin> set s"
proof -
  have "\<not> number_char CHR 0x0A" by (simp add: number_char_def)
  then show "list_all number_char s \<Longrightarrow> CHR 0x0A \<notin> set s" unfolding list_all_iff by blast
qed


lemma json_text_no_newline: "printable num rd v \<Longrightarrow> CHR 0x0A \<notin> set (json_text num v)"
proof (induction num v rule: json_text.induct)
  case (1 num)
  show ?case by simp
next
  case (2 num b)
  show ?case by simp
next
  case (3 num q)
  then have "list_all number_char (num q)" by (simp add: reads_back_def)
  then show ?case by (simp add: number_no_newline)
next
  case (4 num s)
  show ?case by (simp add: json_string_no_newline)
next
  case (5 num vs)
  have "CHR 0x0A \<notin> set x" if "x \<in> set (map (json_text num) vs)" for x
  proof -
    from that obtain v where v: "v \<in> set vs" "x = json_text num v" by auto
    moreover have "printable num rd v" using 5(2) v(1) by (simp add: list_all_iff)
    ultimately show ?thesis using 5(1) by blast
  qed
  then have "CHR 0x0A \<notin> set (json_elements (map (json_text num) vs))"
    by (intro json_elements_absent) simp_all
  then show ?case by simp
next
  case (6 num fs)
  have "CHR 0x0A \<notin> set x" if "x \<in> set (map (\<lambda>e. json_string (fst e) @ '':'' @ json_text num (snd e)) fs)" for x
  proof -
    from that obtain e where e: "e \<in> set fs" "x = json_string (fst e) @ '':'' @ json_text num (snd e)" by auto
    moreover have "printable num rd (snd e)" using 6(2) e(1) by (simp add: list_all_iff)
    ultimately have "CHR 0x0A \<notin> set (json_text num (snd e))" using 6(1) by blast
    then show ?thesis by (simp add: e(2) json_string_no_newline)
  qed
  then have "CHR 0x0A \<notin> set (json_elements (map (\<lambda>e. json_string (fst e) @ '':'' @ json_text num (snd e)) fs))"
    by (intro json_elements_absent) simp_all
  then show ?case by simp
qed

lemma number_char_visible: "number_char c \<Longrightarrow> \<not> is_js_space c"
  by (auto simp: number_char_def is_js_space_def)

lemma json_text_trimmed:
  assumes "printable num rd v"
  shows "js_trim (json_text num v) = json_text num v"
proof (cases v)
  case (JNum q)
  then have "list_all number_char (num q)" "num q \<noteq> []" using assms by (auto simp: reads_back_def)
  then show ?thesis
    using JNum by (auto intro!: trim_kept number_char_visible simp: list_all_iff)
qed (auto intro!: trim_kept simp: is_js_space_def json_string_def)

definition one_line :: "string \<Rightarrow> bool" where
  "one_line s \<longleftrightarrow> CHR 0x0A \<notin> set s \<and> js_trim s = s"

definition plain_event :: "(rat \<Rightarrow> string) \<Rightarrow> (string \<Rightarrow> rat option) \<Rightarrow> (string \<Rightarrow> rat option) \<Rightarrow> sse_event \<Rightarrow> bool" where
  "plain_event num rd number e \<longleftrightarrow>
     pred_option one_line (sv_id e) \<and> pred_option one_line (sv_event e) \<and> printable num rd (sv_data e)
     \<and> pred_option (\<lambda>r. one_line (num r) \<and> number (num r) = Some r) (sv_retry e)"

lemma parse_line_field:
  assumes "field \<in> set [''id'', ''event'', ''data'', ''retry'']"
  shows "parse_line number rd p (field @ '': '' @ v) = parse_field number rd p field (js_trim v)"
proof -
  have "js_trim field = field" using assms by (auto intro!: trim_kept simp: is_js_space_def)
  moreover have "takeWhile (\<lambda>c. c \<noteq> CHR '':'') (field @ '': '' @ v) = field"
    and "tl (dropWhile (\<lambda>c. c \<noteq> CHR '':'') (field @ '': '' @ v)) = CHR '' '' # v"
    and "(case field @ '': '' @ v of c # _ \<Rightarrow> c = CHR '':'' | [] \<Rightarrow> False) \<longleftrightarrow> False"
    and "CHR '':'' \<in> set (field @ '': '' @ v)"
    using assms by auto
  ultimately show ?thesis unfolding parse_line_def by (simp only: trim_after_space if_False not_True_eq_False)
qed

lemmas parse_lines_of =
  parse_line_field [of "''id''", simplified] parse_line_field [of "''event''", simplified]
  parse_line_field [of "''data''", simplified] parse_line_field [of "''retry''", simplified]

lemma field_line_kept: "\<not> is_js_space c \<Longrightarrow> js_trim (c # s) \<noteq> []"
  by (simp add: js_trim_empty)

lemma sse_lines_of_format:
  assumes "plain_event num rd number e"
  shows "filter (\<lambda>l. js_trim l \<noteq> []) (js_split CHR 0x0A (sse_format num e)) = sse_lines num e"
proof -
  have "sse_lines num e \<noteq> []" by (simp add: sse_lines_def)
  moreover have "\<forall>l \<in> set (sse_lines num e). CHR 0x0A \<notin> set l"
    using assms
    using json_text_no_newline [of num rd "sv_data e"]
    by (cases "sv_id e"; cases "sv_event e"; cases "sv_retry e")
      (simp_all add: sse_lines_def plain_event_def one_line_def)
  ultimately have "js_split CHR 0x0A (sse_format num e) = sse_lines num e @ [[], []]"
    unfolding sse_format_def by (rule split_join_blank)
  moreover have "filter (\<lambda>l. js_trim l \<noteq> []) (sse_lines num e) = sse_lines num e"
    by (cases "sv_id e"; cases "sv_event e"; cases "sv_retry e")
      (simp_all add: sse_lines_def is_js_space_def field_line_kept)
  ultimately show ?thesis by (simp add: js_trim_empty)
qed

text \<open>An event of one-line fields is read back from its text as it was.\<close>

theorem event_round_trip:
  assumes "plain_event num rd number e"
  shows "sse_parse number rd (sse_format num e) =
           Some \<lparr>pv_id = sv_id e, pv_event = sv_event e, pv_data = Some (sv_data e), pv_retry = sv_retry e\<rparr>"
proof -
  have "foldl (parse_line number rd) nothing_parsed (sse_lines num e) =
          \<lparr>pv_id = sv_id e, pv_event = sv_event e, pv_data = Some (sv_data e), pv_retry = sv_retry e\<rparr>"
    using assms
    by (cases "sv_id e"; cases "sv_event e"; cases "sv_retry e")
      (auto simp: sse_lines_def plain_event_def one_line_def parse_lines_of parse_field_def nothing_parsed_def
        json_text_trimmed parse_json_def json_reads_back)
  then show ?thesis
    unfolding sse_parse_def sse_lines_of_format [OF assms] by (simp add: nothing_parsed_def)
qed

theorem event_round_trip_witness:
  "sse_parse (\<lambda>_. Some 3000) (\<lambda>_. Some 1) (sse_format (\<lambda>_. ''3000'') \<lparr>sv_id = Some ''7'', sv_event = Some ''update'', sv_data = JStr ''a b'', sv_retry = Some 3000\<rparr>)
     = Some \<lparr>pv_id = Some ''7'', pv_event = Some ''update'', pv_data = Some (JStr ''a b''), pv_retry = Some 3000\<rparr>"
  using event_round_trip [of "\<lambda>_. ''3000''" "\<lambda>_. Some 1" "\<lambda>_. Some 3000" "\<lparr>sv_id = Some ''7'', sv_event = Some ''update'', sv_data = JStr ''a b'', sv_retry = Some 3000\<rparr>"]
  by (simp add: plain_event_def one_line_def js_trim_def is_js_space_def)

text \<open>A line break in the name of an event makes the rest of it a field of its own.\<close>

theorem name_of_event_writes_fields:
  assumes "one_line t" and "one_line i" and "printable num rd v"
  shows "sse_parse number rd (sse_format num \<lparr>sv_id = None, sv_event = Some (t @ CHR 0x0A # ''id: '' @ i), sv_data = v, sv_retry = None\<rparr>) =
           Some \<lparr>pv_id = Some i, pv_event = Some t, pv_data = Some v, pv_retry = None\<rparr>"
proof -
  have lines: "js_split CHR 0x0A (join_with CHR 0x0A [''event: '' @ t, ''id: '' @ i, ''data: '' @ json_text num v] @ [CHR 0x0A, CHR 0x0A])
        = [''event: '' @ t, ''id: '' @ i, ''data: '' @ json_text num v] @ [[], []]"
    using assms by (intro split_join_blank) (auto simp: one_line_def json_text_no_newline)
  have "sse_format num \<lparr>sv_id = None, sv_event = Some (t @ CHR 0x0A # ''id: '' @ i), sv_data = v, sv_retry = None\<rparr>
        = join_with CHR 0x0A [''event: '' @ t, ''id: '' @ i, ''data: '' @ json_text num v] @ [CHR 0x0A, CHR 0x0A]"
    by (simp add: sse_format_def sse_lines_def)
  then show ?thesis
    unfolding sse_parse_def using assms
    by (simp only: lines)
      (simp add: field_line_kept is_js_space_def js_trim_empty [of "[]"] parse_lines_of parse_field_def nothing_parsed_def one_line_def
        json_text_trimmed parse_json_def json_reads_back)
qed

theorem name_of_event_writes_fields_witness:
  "sse_parse (\<lambda>_. None) (\<lambda>_. Some 1) (sse_format (\<lambda>_. ''0'') \<lparr>sv_id = None, sv_event = Some (''m'' @ CHR 0x0A # ''id: '' @ ''9''), sv_data = JNull, sv_retry = None\<rparr>)
     = Some \<lparr>pv_id = Some ''9'', pv_event = Some ''m'', pv_data = Some JNull, pv_retry = None\<rparr>"
  by (rule name_of_event_writes_fields) (simp_all add: one_line_def js_trim_def is_js_space_def)

section \<open>What a client missed\<close>

fun numbered :: "int \<Rightarrow> sse_event list \<Rightarrow> sse_event list" where
  "numbered n [] = []"
| "numbered n (e # es) = e\<lparr>sv_id := Some (show_int (n + 1))\<rparr> # numbered (n + 1) es"

lemma numbered_append: "numbered n (es @ fs) = numbered n es @ numbered (n + int (length es)) fs"
  by (induction es arbitrary: n) (simp_all add: algebra_simps)

lemma length_numbered [simp]: "length (numbered n es) = length es"
  by (induction es arbitrary: n) simp_all

lemma drop_numbered: "drop j (numbered n es) = numbered (n + int j) (drop j es)"
proof (induction es arbitrary: j n)
  case (Cons e es)
  then show ?case by (cases j) (simp_all add: algebra_simps)
qed simp

definition id_above :: "(string \<Rightarrow> rat option) \<Rightarrow> rat \<Rightarrow> sse_event \<Rightarrow> bool" where
  "id_above number k e \<longleftrightarrow> (case Option.bind (sv_id e) number of None \<Rightarrow> False | Some n \<Rightarrow> n > k)"

lemma id_above_numbered:
  assumes "\<And>i. i \<ge> 0 \<Longrightarrow> number (show_int i) = Some (of_int i)" and "n \<ge> 0"
  shows "filter (id_above number (of_int k)) (numbered n es) = drop (nat (k - n)) (numbered n es)"
  using assms(2)
proof (induction es arbitrary: n)
  case (Cons e es)
  have "id_above number (of_int k) (e\<lparr>sv_id := Some (show_int (n + 1))\<rparr>) \<longleftrightarrow> (of_int k :: rat) < of_int (n + 1)"
    using assms(1) [of "n + 1"] Cons.prems by (simp add: id_above_def del: of_int_add)
  then have "id_above number (of_int k) (e\<lparr>sv_id := Some (show_int (n + 1))\<rparr>) \<longleftrightarrow> n + 1 > k"
    by (simp only: of_int_less_iff)
  moreover have "nat (k - n) = Suc (nat (k - (n + 1)))" if "\<not> n + 1 > k" using that by simp
  ultimately show ?case using Cons.IH [of "n + 1"] Cons.prems by (cases "n + 1 > k") simp_all
qed simp

definition with_default_retry :: "rat option \<Rightarrow> sse_event \<Rightarrow> sse_event" where
  "with_default_retry d e = e\<lparr>sv_retry := (case sv_retry e of Some r \<Rightarrow> Some r | None \<Rightarrow> d)\<rparr>"

fun send_events :: "(rat \<Rightarrow> string) \<Rightarrow> sse_event list \<Rightarrow> sse_emitter \<Rightarrow> (nat \<times> string) list \<times> sse_emitter" where
  "send_events num [] s = ([], s)"
| "send_events num (e # es) s =
     (let (o1, s1) = sse_send num e s; (o2, s2) = send_events num es s1 in (o1 @ o2, s2))"

definition holds_last :: "nat \<Rightarrow> sse_event list \<Rightarrow> sse_emitter \<Rightarrow> bool" where
  "holds_last m es s \<longleftrightarrow>
     et_open s \<and> tk_max (et_tracker s) = int m \<and> tk_sequence (et_tracker s) = int (length es)
     \<and> tk_buffer (et_tracker s) = drop (length es - m) (numbered 0 (map (with_default_retry (et_retry s)) es))"

lemma drop_after_drop: "drop (length (drop (length xs - m) xs @ [x]) - m) (drop (length xs - m) xs @ [x]) = drop (length xs + 1 - m) (xs @ [x])"
  by (cases "length xs \<le> m") (auto simp: Suc_diff_le not_le)

lemma send_keeps_last:
  assumes "holds_last m es s" and "sv_id e = None"
  shows "fst (sse_send num e s) =
           map (\<lambda>w. (w, sse_format num (hd (numbered (int (length es)) [with_default_retry (et_retry s) e])))) (et_writers s)"
    and "holds_last m (es @ [e]) (snd (sse_send num e s))"
    and "et_writers (snd (sse_send num e s)) = et_writers s" and "et_retry (snd (sse_send num e s)) = et_retry s"
proof -
  let ?e = "with_default_retry (et_retry s) e" and ?all = "numbered 0 (map (with_default_retry (et_retry s)) es)"
  define x where "x = ?e\<lparr>sv_id := Some (show_int (int (length es) + 1))\<rparr>"
  let ?t = "et_tracker s"
  have t: "et_open s" "tk_max ?t = int m" "tk_sequence ?t = int (length es)" "tk_buffer ?t = drop (length es - m) ?all"
    using assms(1) by (simp_all add: holds_last_def)
  have cut: "(if int (length b) > int m then drop (nat (int (length b) - int m)) b else b) = drop (length b - m) b"
    for b :: "sse_event list" by (auto simp: nat_diff_distrib')
  have tracked: "track ?e ?t = (x, ?t\<lparr>tk_sequence := int (length es) + 1, tk_buffer := drop (length es + 1 - m) (?all @ [x])\<rparr>)"
    using assms(2) drop_after_drop [of ?all m x]
    unfolding track_def Let_def t cut by (simp add: with_default_retry_def x_def)
  have sent: "sse_send num e s = (map (\<lambda>w. (w, sse_format num x)) (et_writers s),
      s\<lparr>et_tracker := ?t\<lparr>tk_sequence := int (length es) + 1, tk_buffer := drop (length es + 1 - m) (?all @ [x])\<rparr>\<rparr>)"
    using tracked t(1) by (simp add: sse_send_def with_default_retry_def)
  show "fst (sse_send num e s) = map (\<lambda>w. (w, sse_format num (hd (numbered (int (length es)) [?e])))) (et_writers s)"
    by (simp add: sent x_def)
  show "holds_last m (es @ [e]) (snd (sse_send num e s))"
    using t by (simp add: sent holds_last_def numbered_append x_def)
  show "et_writers (snd (sse_send num e s)) = et_writers s" and "et_retry (snd (sse_send num e s)) = et_retry s"
    by (simp_all add: sent)
qed

lemma send_events_keep:
  assumes "holds_last m es s" and "et_writers s = [w]" and "\<forall>e \<in> set fs. sv_id e = None"
  shows "fst (send_events num fs s) = map (\<lambda>e. (w, sse_format num e)) (numbered (int (length es)) (map (with_default_retry (et_retry s)) fs))
    \<and> holds_last m (es @ fs) (snd (send_events num fs s)) \<and> et_retry (snd (send_events num fs s)) = et_retry s"
  using assms
proof (induction fs arbitrary: es s)
  case (Cons e fs)
  obtain o1 s1 where sent: "sse_send num e s = (o1, s1)" by (rule prod.exhaust)
  have e: "sv_id e = None" using Cons.prems(3) by simp
  note kept = send_keeps_last [OF Cons.prems(1) e, of num, unfolded sent fst_conv snd_conv]
  have "fst (send_events num fs s1) = map (\<lambda>e. (w, sse_format num e)) (numbered (int (length (es @ [e]))) (map (with_default_retry (et_retry s1)) fs))
    \<and> holds_last m ((es @ [e]) @ fs) (snd (send_events num fs s1)) \<and> et_retry (snd (send_events num fs s1)) = et_retry s1"
    by (rule Cons.IH) (use kept Cons.prems in simp_all)
  then show ?case using kept(1,4) Cons.prems(2)
    by (simp add: sent split_def Let_def algebra_simps)
qed simp

definition decimal_number :: "string \<Rightarrow> rat option" where
  "decimal_number s = Some (of_nat (digits_value s))"

definition new_event :: "json \<Rightarrow> sse_event" where
  "new_event d = \<lparr>sv_id = None, sv_event = None, sv_data = d, sv_retry = None\<rparr>"

lemma decimal_number_shown: "i \<ge> 0 \<Longrightarrow> decimal_number (show_int i) = Some (of_int i)"
  by (simp add: decimal_number_def)

text \<open>Reconnecting after the event \<open>k\<close> gives the texts that were sent after it, as far as they are kept.\<close>

theorem replay_gives_what_was_missed:
  assumes "\<And>i. i \<ge> 0 \<Longrightarrow> number (show_int i) = Some (of_int i)" and "\<forall>e \<in> set es. sv_id e = None"
    and "send_events num es (add_writer w (emitter_new retry (Some (int m)))) = (sent, s)"
  shows "sse_replay number num (Some (show_int (int k))) v s = map (\<lambda>t. (v, snd t)) (drop (max k (length es - m)) sent)"
    and "sse_replay number num None v s = map (\<lambda>t. (v, snd t)) (drop (length es - m) sent)"
proof -
  let ?s = "add_writer w (emitter_new retry (Some (int m)))"
  let ?all = "numbered 0 (map (with_default_retry retry) es)"
  have "holds_last m [] ?s" "et_writers ?s = [w]" "et_retry ?s = retry"
    by (simp_all add: holds_last_def add_writer_def emitter_new_def tracker_new_def set_add_def)
  from send_events_keep [OF this(1,2) assms(2), of num] this(3) assms(3)
  have sent: "sent = map (\<lambda>e. (w, sse_format num e)) ?all" and s: "holds_last m es s" and retry: "et_retry s = retry"
    by simp_all
  then have buffer: "tk_buffer (et_tracker s) = drop (length es - m) ?all" by (simp add: holds_last_def)
  then show "sse_replay number num None v s = map (\<lambda>t. (v, snd t)) (drop (length es - m) sent)"
    by (simp add: sse_replay_def events_after_def sent drop_map)
  have "events_after number (Some (show_int (int k))) (et_tracker s) =
          filter (id_above number (of_int (int k))) (tk_buffer (et_tracker s))"
    using assms(1) [of "int k"] by (simp add: events_after_def id_above_def [abs_def])
  also have "\<dots> = drop (nat (int k - int (length es - m))) (drop (length es - m) ?all)"
    using id_above_numbered [OF assms(1), of "int (length es - m)" "int k"] unfolding buffer drop_numbered by simp
  also have "\<dots> = drop (max k (length es - m)) ?all" by (simp add: max_def) (simp add: nat_diff_distrib')
  finally show "sse_replay number num (Some (show_int (int k))) v s = map (\<lambda>t. (v, snd t)) (drop (max k (length es - m)) sent)"
    by (simp add: sse_replay_def sent drop_map)
qed

theorem replay_gives_what_was_missed_witness:
  "\<exists>sent s. send_events (\<lambda>_. ''0'') [new_event JNull, new_event (JBool True), new_event JNull]
       (add_writer 1 (emitter_new None (Some (int 2)))) = (sent, s)
     \<and> sse_replay decimal_number (\<lambda>_. ''0'') (Some (show_int (int 1))) 2 s = map (\<lambda>t. (2, snd t)) (drop 1 sent)"
proof -
  obtain sent s where run: "send_events (\<lambda>_. ''0'') [new_event JNull, new_event (JBool True), new_event JNull]
       (add_writer 1 (emitter_new None (Some (int 2)))) = (sent, s)" by (rule prod.exhaust)
  have "sse_replay decimal_number (\<lambda>_. ''0'') (Some (show_int (int 1))) 2 s = map (\<lambda>t. (2, snd t)) (drop (max 1 (length [new_event JNull, new_event (JBool True), new_event JNull] - 2)) sent)"
    by (rule replay_gives_what_was_missed(1) [OF decimal_number_shown _ run]) (simp_all add: new_event_def)
  with run show ?thesis by auto
qed

text \<open>An event with an identity that is no number is in no answer to a client with a number.\<close>

theorem named_events_are_not_replayed:
  assumes "number i = None" and "number k = Some n"
  shows "\<forall>e \<in> set (events_after number (Some k) (snd (track (e\<lparr>sv_id := Some i\<rparr>) t))). sv_id e \<noteq> Some i"
  using assms by (auto simp: events_after_def)

theorem named_events_are_not_replayed_witness:
  "\<forall>e \<in> set (events_after (\<lambda>s. if s = ''1'' then Some 1 else None) (Some ''1'') (snd (track ((new_event JNull)\<lparr>sv_id := Some ''b''\<rparr>) (tracker_new None)))). sv_id e \<noteq> Some ''b''"
  using named_events_are_not_replayed [of "\<lambda>s. if s = ''1'' then Some 1 else None" "''b''" "''1''" 1 "new_event JNull" "tracker_new None"]
  by simp

lemma send_after_close: "sse_send num e (sse_close s) = ([], sse_close s) \<and> sse_ping c (sse_close s) = []"
  by (simp add: sse_send_def sse_ping_def sse_close_def)

end
