(* ===== verification/Csp.thy ===== *)
theory Csp
  imports Json_Text Configuration Url_Params Validation
begin

text \<open>
  \<open>packages/web/src/csp\<close>: the builder of content security policies, nonces, and the monitor of violations.

  The random bytes of a nonce are an argument.  A handler of violations is a number; \<open>once\<close> holds of
  the handlers that unsubscribe themselves when they are called.
\<close>

section \<open>The builder\<close>

record csp_options =
  cp_upgrade :: "bool option"
  cp_block_mixed :: "bool option"
  cp_report_uri :: "string option"
  cp_report_to :: "string option"

record csp_builder =
  cb_policy :: "(string, string list) jsmap"
  cb_options :: csp_options

definition csp_new :: csp_builder where
  "csp_new = \<lparr>cb_policy = [],
     cb_options = \<lparr>cp_upgrade = None, cp_block_mixed = None, cp_report_uri = None, cp_report_to = None\<rparr>\<rparr>"

definition csp_add :: "string \<Rightarrow> string list \<Rightarrow> csp_builder \<Rightarrow> csp_builder" where
  "csp_add directive sources b =
     b\<lparr>cb_policy := jset directive (fold set_add sources (elems (cb_policy b) directive)) (cb_policy b)\<rparr>"

definition newer :: "'a option \<Rightarrow> 'a option \<Rightarrow> 'a option" where
  "newer x y = (case x of Some a \<Rightarrow> Some a | None \<Rightarrow> y)"

definition csp_with_options :: "csp_options \<Rightarrow> csp_builder \<Rightarrow> csp_builder" where
  "csp_with_options opts b =
     (let cur = cb_options b in
      b\<lparr>cb_options := \<lparr>cp_upgrade = newer (cp_upgrade opts) (cp_upgrade cur),
          cp_block_mixed = newer (cp_block_mixed opts) (cp_block_mixed cur),
          cp_report_uri = newer (cp_report_uri opts) (cp_report_uri cur),
          cp_report_to = newer (cp_report_to opts) (cp_report_to cur)\<rparr>\<rparr>)"

fun join_text :: "string \<Rightarrow> string list \<Rightarrow> string" where
  "join_text sep [] = []"
| "join_text sep [x] = x"
| "join_text sep (x # y # xs) = x @ sep @ join_text sep (y # xs)"

definition directive_text :: "string \<Rightarrow> string list \<Rightarrow> string" where
  "directive_text directive sources =
     (let src_list = join_with CHR '' '' sources
      in if src_list \<noteq> [] then directive @ '' '' @ src_list else directive)"

definition option_texts :: "csp_options \<Rightarrow> string list" where
  "option_texts opts =
     (if cp_upgrade opts = Some True then [''upgrade-insecure-requests''] else [])
     @ (if cp_block_mixed opts = Some True then [''block-all-mixed-content''] else [])
     @ (case cp_report_uri opts of Some u \<Rightarrow> [''report-uri '' @ u] | None \<Rightarrow> [])
     @ (case cp_report_to opts of Some g \<Rightarrow> [''report-to '' @ g] | None \<Rightarrow> [])"

definition csp_build :: "csp_builder \<Rightarrow> string" where
  "csp_build b = join_text ''; '' (map (\<lambda>(d, ss). directive_text d ss) (cb_policy b) @ option_texts (cb_options b))"

definition csp_clone :: "csp_builder \<Rightarrow> csp_builder" where
  "csp_clone b = csp_with_options (cb_options b) (foldl (\<lambda>n (d, ss). csp_add d ss n) csp_new (cb_policy b))"

definition to_policy :: "csp_builder \<Rightarrow> (string, string list) jsmap" where
  "to_policy b = foldl (\<lambda>out (d, ss). jset d ss out) [] (cb_policy b)"

function split_spaces :: "string \<Rightarrow> string list" where
  "split_spaces s =
     (let w = takeWhile (\<lambda>c. \<not> is_js_space c) s; r = dropWhile (\<lambda>c. \<not> is_js_space c) s
      in if r = [] then [w] else w # split_spaces (dropWhile is_js_space r))"
  by pat_completeness auto
termination
proof (relation "measure length")
  fix s :: string and w r
  assume r: "r = dropWhile (\<lambda>c. \<not> is_js_space c) s" and "r \<noteq> []"
  then have "is_js_space (hd r)" using hd_dropWhile [of "\<lambda>c. \<not> is_js_space c" s] by simp
  then have "length (dropWhile is_js_space r) < length r"
    using \<open>r \<noteq> []\<close> length_dropWhile_le [of is_js_space "List.tl r"] by (cases r) auto
  also have "length r \<le> length s" using length_dropWhile_le unfolding r .
  finally show "(dropWhile is_js_space r, s) \<in> measure length" by simp
qed simp

declare split_spaces.simps [simp del]

definition csp_directive :: "csp_builder \<Rightarrow> string \<Rightarrow> csp_builder" where
  "csp_directive b directive =
     (case split_spaces directive of [] \<Rightarrow> b | name # sources \<Rightarrow> csp_add name sources b)"

definition csp_parse :: "string \<Rightarrow> csp_builder" where
  "csp_parse header = foldl csp_directive csp_new (filter (\<lambda>d. d \<noteq> []) (map js_trim (js_split CHR '';'' header)))"

section \<open>Nonces\<close>

definition nonce_of :: "bytes \<Rightarrow> string" where
  "nonce_of random = base64_url_encode random"

definition nonce_source :: "string \<Rightarrow> string" where
  "nonce_source nonce = CHR 0x27 # ''nonce-'' @ nonce @ [CHR 0x27]"

definition nonce_pair :: "bytes \<Rightarrow> string \<times> string" where
  "nonce_pair random = (nonce_of random, nonce_source (nonce_of random))"

section \<open>The monitor\<close>

record violation =
  vl_blocked :: string
  vl_document :: string
  vl_effective :: string
  vl_policy :: string
  vl_violated :: string
  vl_referrer :: "string option"
  vl_status :: "rat option"

record csp_monitor =
  mo_handlers :: "nat list"
  mo_reports :: "violation list"
  mo_max :: int

definition csp_monitor_new :: "int option \<Rightarrow> csp_monitor" where
  "csp_monitor_new n = \<lparr>mo_handlers = [], mo_reports = [], mo_max = (case n of None \<Rightarrow> 1000 | Some k \<Rightarrow> k)\<rparr>"

definition on_violation :: "nat \<Rightarrow> csp_monitor \<Rightarrow> csp_monitor" where
  "on_violation h m = m\<lparr>mo_handlers := mo_handlers m @ [h]\<rparr>"

definition off_violation :: "nat \<Rightarrow> csp_monitor \<Rightarrow> csp_monitor" where
  "off_violation h m = m\<lparr>mo_handlers := remove1 h (mo_handlers m)\<rparr>"

definition text_member :: "string \<Rightarrow> json \<Rightarrow> string option" where
  "text_member k inner = (case json_get k inner of Some (JStr s) \<Rightarrow> Some s | _ \<Rightarrow> None)"

definition or_empty :: "string option \<Rightarrow> string" where
  "or_empty x = (case x of Some s \<Rightarrow> s | None \<Rightarrow> [])"

definition build_report :: "json \<Rightarrow> violation option" where
  "build_report inner =
     (let effective = or_empty (text_member ''effective-directive'' inner);
          violated = (case text_member ''violated-directive'' inner of Some s \<Rightarrow> s | None \<Rightarrow> effective)
      in if violated = [] then None
         else Some \<lparr>vl_blocked = or_empty (text_member ''blocked-uri'' inner), vl_document = or_empty (text_member ''document-uri'' inner),
             vl_effective = effective, vl_policy = or_empty (text_member ''original-policy'' inner), vl_violated = violated,
             vl_referrer = text_member ''referrer'' inner,
             vl_status = (case json_get ''status-code'' inner of Some (JNum q) \<Rightarrow> Some q | _ \<Rightarrow> None)\<rparr>)"

definition json_object :: "json \<Rightarrow> bool" where
  "json_object v = (case v of JObj _ \<Rightarrow> True | JArr _ \<Rightarrow> True | _ \<Rightarrow> False)"

definition extract_inner :: "json \<Rightarrow> json" where
  "extract_inner d = (case json_get ''csp-report'' d of Some v \<Rightarrow> if json_object v then v else d | None \<Rightarrow> d)"

definition parse_report :: "json \<Rightarrow> violation option" where
  "parse_report raw = (if json_object raw then build_report (extract_inner raw) else None)"

text \<open>The loop over the handlers reads the list while it changes.\<close>

function notify_from :: "(nat \<Rightarrow> bool) \<Rightarrow> nat \<Rightarrow> nat list \<Rightarrow> nat list \<times> nat list" where
  "notify_from once i hs =
     (if i < length hs
      then let h = hs ! i; (called, rest) = notify_from once (i + 1) (if once h then remove1 h hs else hs)
           in (h # called, rest)
      else ([], hs))"
  by pat_completeness auto
termination
proof (relation "measure (\<lambda>(once, i, hs). length hs - i)")
  fix once :: "nat \<Rightarrow> bool" and i h and hs :: "nat list"
  assume "i < length hs"
  moreover have "length (if once h then remove1 h hs else hs) \<le> length hs" by (simp add: length_remove1)
  ultimately show "((once, i + 1, if once h then remove1 h hs else hs), once, i, hs) \<in> measure (\<lambda>(once, i, hs). length hs - i)"
    by simp
qed simp

declare notify_from.simps [simp del]

definition monitor_report :: "(nat \<Rightarrow> bool) \<Rightarrow> json \<Rightarrow> csp_monitor \<Rightarrow> (nat \<times> violation) list \<times> csp_monitor" where
  "monitor_report once raw m =
     (case parse_report raw of
        None \<Rightarrow> ([], m)
      | Some v \<Rightarrow>
          (let rs = (if int (length (mo_reports m)) \<ge> mo_max m then List.tl (mo_reports m) else mo_reports m) @ [v];
               (called, hs) = notify_from once 0 (mo_handlers m)
           in (map (\<lambda>h. (h, v)) called, m\<lparr>mo_reports := rs, mo_handlers := hs\<rparr>)))"

definition group_by_directive :: "csp_monitor \<Rightarrow> (string, violation list) jsmap" where
  "group_by_directive m =
     foldl (\<lambda>g r. jset (vl_violated r) (elems g (vl_violated r) @ [r]) g) [] (mo_reports m)"

definition monitor_clear :: "csp_monitor \<Rightarrow> csp_monitor" where
  "monitor_clear m = m\<lparr>mo_reports := []\<rparr>"

section \<open>A policy and its text\<close>

definition csp_word :: "string \<Rightarrow> bool" where
  "csp_word w \<longleftrightarrow> w \<noteq> [] \<and> list_all (\<lambda>c. \<not> is_js_space c \<and> c \<noteq> CHR '';'') w"

definition plain_policy :: "(string \<times> string list) list \<Rightarrow> bool" where
  "plain_policy p \<longleftrightarrow> jwf p \<and> list_all (\<lambda>(d, ss). csp_word d \<and> distinct ss \<and> list_all csp_word ss) p"

definition option_directives :: "csp_options \<Rightarrow> (string \<times> string list) list" where
  "option_directives opts =
     (if cp_upgrade opts = Some True then [(''upgrade-insecure-requests'', [])] else [])
     @ (if cp_block_mixed opts = Some True then [(''block-all-mixed-content'', [])] else [])
     @ (case cp_report_uri opts of Some u \<Rightarrow> [(''report-uri'', [u])] | None \<Rightarrow> [])
     @ (case cp_report_to opts of Some g \<Rightarrow> [(''report-to'', [g])] | None \<Rightarrow> [])"

definition whole_policy :: "csp_builder \<Rightarrow> (string \<times> string list) list" where
  "whole_policy b = cb_policy b @ option_directives (cb_options b)"

lemma csp_word_nonempty: "csp_word w \<Longrightarrow> w \<noteq> []"
  by (simp add: csp_word_def)

lemma option_texts_are_directives:
  assumes "plain_policy (whole_policy b)"
  shows "option_texts (cb_options b) = map (\<lambda>(d, ss). directive_text d ss) (option_directives (cb_options b))"
proof -
  have "list_all (\<lambda>(d, ss). list_all csp_word ss) (option_directives (cb_options b))"
    using assms by (fastforce simp: plain_policy_def whole_policy_def list_all_iff)
  then show ?thesis
    by (auto simp: option_texts_def option_directives_def directive_text_def dest!: csp_word_nonempty split: option.splits)
qed

lemma split_spaces_word:
  assumes "list_all (\<lambda>c. \<not> is_js_space c) w"
  shows "split_spaces w = [w]" and "split_spaces (w @ CHR '' '' # r) = w # split_spaces (dropWhile is_js_space r)"
proof -
  have ok: "\<forall>x \<in> set w. \<not> is_js_space x" using assms by (simp add: list_all_iff)
  have space: "is_js_space CHR '' ''" by (simp add: is_js_space_def)
  have "dropWhile (\<lambda>c. \<not> is_js_space c) w = []" "takeWhile (\<lambda>c. \<not> is_js_space c) w = w" using ok by simp_all
  then show "split_spaces w = [w]" by (subst split_spaces.simps) simp
  have "dropWhile (\<lambda>c. \<not> is_js_space c) (w @ CHR '' '' # r) = CHR '' '' # r"
    and "takeWhile (\<lambda>c. \<not> is_js_space c) (w @ CHR '' '' # r) = w"
    using ok space by (simp_all add: takeWhile_append dropWhile_append)
  then show "split_spaces (w @ CHR '' '' # r) = w # split_spaces (dropWhile is_js_space r)"
    using space by (subst split_spaces.simps) simp
qed

lemma csp_word_chars: "csp_word w \<Longrightarrow> list_all (\<lambda>c. \<not> is_js_space c) w"
  by (auto simp: csp_word_def list_all_iff)

lemma join_words_hd:
  assumes "ws \<noteq> []" "list_all csp_word ws"
  shows "join_with CHR '' '' ws \<noteq> []" and "\<not> is_js_space (hd (join_with CHR '' '' ws))"
    and "\<not> is_js_space (last (join_with CHR '' '' ws))" and "CHR '';'' \<notin> set (join_with CHR '' '' ws)"
proof -
  have "join_with CHR '' '' ws \<noteq> [] \<and> \<not> is_js_space (hd (join_with CHR '' '' ws))
      \<and> \<not> is_js_space (last (join_with CHR '' '' ws)) \<and> CHR '';'' \<notin> set (join_with CHR '' '' ws)"
    using assms by (induction "CHR '' ''" ws rule: join_with.induct) (auto simp: csp_word_def list_all_iff)
  then show "join_with CHR '' '' ws \<noteq> []" and "\<not> is_js_space (hd (join_with CHR '' '' ws))"
    and "\<not> is_js_space (last (join_with CHR '' '' ws))" and "CHR '';'' \<notin> set (join_with CHR '' '' ws)" by blast+
qed

lemma split_joined_words: "ws \<noteq> [] \<Longrightarrow> list_all csp_word ws \<Longrightarrow> split_spaces (join_with CHR '' '' ws) = ws"
proof (induction "CHR '' ''" ws rule: join_with.induct)
  case (2 w)
  then show ?case by (simp add: split_spaces_word csp_word_chars)
next
  case (3 w v ws)
  let ?r = "join_with CHR '' '' (v # ws)"
  have "?r \<noteq> []" "\<not> is_js_space (hd ?r)" using join_words_hd [of "v # ws"] 3(3) by simp_all
  then have "dropWhile is_js_space ?r = ?r" by (simp add: dropWhile_hd)
  moreover have "split_spaces ?r = v # ws" using 3(1,3) by simp
  ultimately show ?case using 3(3) by (simp add: split_spaces_word csp_word_chars)
qed simp

lemma directive_text_join:
  assumes "list_all csp_word ss"
  shows "directive_text d ss = join_with CHR '' '' (d # ss)"
proof (cases ss)
  case Nil
  then show ?thesis by (simp add: directive_text_def)
next
  case (Cons w ws)
  then show ?thesis using join_words_hd(1) [of ss] assms by (simp add: directive_text_def)
qed

lemma split_join_text:
  assumes "list_all (\<lambda>p. c \<notin> set p) (x # xs)" and "c \<noteq> d"
  shows "js_split c (join_text [c, d] (x # xs)) = x # map (Cons d) xs"
  using assms(1)
proof (induction xs arbitrary: x)
  case Nil
  then show ?case by (simp add: js_split_absent)
next
  case (Cons y ys)
  have "js_split c (join_text [c, d] (y # ys)) = y # map (Cons d) ys" using Cons by simp
  then have "js_split c (d # join_text [c, d] (y # ys)) = (d # y) # map (Cons d) ys" using assms(2) by simp
  then show ?case using Cons.prems by (simp add: js_split_at)
qed

lemma trim_space_cons: "js_trim (CHR '' '' # s) = js_trim s"
  by (simp add: js_trim_def is_js_space_def)

lemma trimmed: "s \<noteq> [] \<Longrightarrow> \<not> is_js_space (hd s) \<Longrightarrow> \<not> is_js_space (last s) \<Longrightarrow> js_trim s = s"
  by (simp add: js_trim_def dropWhile_hd hd_rev)

lemma add_distinct: "distinct (xs @ ts) \<Longrightarrow> fold set_add ts xs = xs @ ts"
  by (induction ts arbitrary: xs) (auto simp: set_add_def)

lemma csp_add_all:
  assumes "jwf (cb_policy b @ p)" and "list_all (\<lambda>(d, ss). distinct ss) p"
  shows "foldl (\<lambda>b (d, ss). csp_add d ss b) b p = b\<lparr>cb_policy := cb_policy b @ p\<rparr>"
  using assms
proof (induction p arbitrary: b)
  case (Cons e p)
  obtain d ss where e: "e = (d, ss)" by (cases e)
  have new: "\<not> jhas (cb_policy b) d"
    using Cons.prems(1) by (auto simp: e jhas_def map_of_eq_None_iff)
  then have "elems (cb_policy b) d = []" by (simp add: elems_def jhas_def)
  moreover have "fold set_add ss [] = ss" using Cons.prems(2) e add_distinct [of "[]" ss] by simp
  ultimately have "csp_add d ss b = b\<lparr>cb_policy := cb_policy b @ [(d, ss)]\<rparr>"
    using new by (simp add: csp_add_def jset_absent)
  then show ?case using Cons.IH [of "b\<lparr>cb_policy := cb_policy b @ [(d, ss)]\<rparr>"] Cons.prems by (simp add: e)
qed simp

lemma plain_directive_text:
  assumes "csp_word d" "list_all csp_word ss"
  shows "directive_text d ss \<noteq> []" and "js_trim (directive_text d ss) = directive_text d ss"
    and "CHR '';'' \<notin> set (directive_text d ss)" and "csp_directive b (directive_text d ss) = csp_add d ss b"
proof -
  note joined = directive_text_join [OF assms(2), of d]
  have words: "list_all csp_word (d # ss)" using assms by simp
  show "directive_text d ss \<noteq> []" and "js_trim (directive_text d ss) = directive_text d ss"
    and "CHR '';'' \<notin> set (directive_text d ss)"
    unfolding joined using join_words_hd [OF _ words] by (simp_all add: trimmed)
  show "csp_directive b (directive_text d ss) = csp_add d ss b"
    unfolding joined csp_directive_def using split_joined_words [OF _ words] by simp
qed

lemma parse_directives:
  assumes "list_all (\<lambda>(d, ss). csp_word d \<and> list_all csp_word ss) p"
  shows "csp_parse (join_text ''; '' (map (\<lambda>(d, ss). directive_text d ss) p)) = foldl (\<lambda>b (d, ss). csp_add d ss b) csp_new p"
proof (cases p)
  case Nil
  then show ?thesis by (simp add: csp_parse_def js_trim_def)
next
  case (Cons e q)
  let ?text = "\<lambda>(d, ss). directive_text d ss"
  have ok: "?text x \<noteq> []" "js_trim (?text x) = ?text x" "CHR '';'' \<notin> set (?text x)" if "x \<in> set p" for x
    using plain_directive_text [of "fst x" "snd x"] assms that by (auto simp: list_all_iff split_def)
  have "js_split CHR '';'' (join_text ''; '' (map ?text p)) = ?text e # map (Cons CHR '' '') (map ?text q)"
  proof -
    have "list_all (\<lambda>x. CHR '';'' \<notin> set x) (?text e # map ?text q)" using ok(3) unfolding Cons list_all_iff by fastforce
    from split_join_text [OF this, of "CHR '' ''"] show ?thesis by (simp add: Cons)
  qed
  then have "map js_trim (js_split CHR '';'' (join_text ''; '' (map ?text p))) = map (js_trim \<circ> ?text) p"
    by (simp add: Cons trim_space_cons)
  also have "\<dots> = map ?text p" using ok(2) by simp
  finally have "csp_parse (join_text ''; '' (map ?text p)) = foldl csp_directive csp_new (filter (\<lambda>d. d \<noteq> []) (map ?text p))"
    by (simp add: csp_parse_def)
  also have "filter (\<lambda>d. d \<noteq> []) (map ?text p) = map ?text p" using ok(1) by (auto intro!: filter_True)
  also have "foldl csp_directive b (map ?text p) = foldl (\<lambda>b (d, ss). csp_add d ss b) b p" for b
    using assms by (induction p arbitrary: b) (auto simp: plain_directive_text)
  finally show ?thesis .
qed

text \<open>C38: The header of a policy of plain words is read back as that policy, its options as directives.\<close>

theorem policy_round_trip:
  assumes "plain_policy (whole_policy b)"
  shows "csp_parse (csp_build b) = csp_new\<lparr>cb_policy := whole_policy b\<rparr>"
proof -
  have words: "list_all (\<lambda>(d, ss). csp_word d \<and> list_all csp_word ss) (whole_policy b)"
    using assms by (auto simp: plain_policy_def list_all_iff)
  have "csp_build b = join_text ''; '' (map (\<lambda>(d, ss). directive_text d ss) (whole_policy b))"
    by (simp add: csp_build_def option_texts_are_directives [OF assms] whole_policy_def)
  then have "csp_parse (csp_build b) = foldl (\<lambda>b (d, ss). csp_add d ss b) csp_new (whole_policy b)"
    using parse_directives [OF words] by simp
  also have "\<dots> = csp_new\<lparr>cb_policy := cb_policy csp_new @ whole_policy b\<rparr>"
    by (rule csp_add_all) (use assms in \<open>auto simp: plain_policy_def list_all_iff csp_new_def\<close>)
  finally show ?thesis by (simp add: csp_new_def)
qed

theorem policy_round_trip_witness:
  "csp_parse (csp_build (csp_with_options \<lparr>cp_upgrade = Some True, cp_block_mixed = None, cp_report_uri = Some ''/r'', cp_report_to = None\<rparr>
      (csp_add ''img-src'' [''self'', ''data:''] csp_new)))
   = csp_new\<lparr>cb_policy := [(''img-src'', [''self'', ''data:'']), (''upgrade-insecure-requests'', []), (''report-uri'', [''/r''])]\<rparr>"
  using policy_round_trip [of "csp_with_options \<lparr>cp_upgrade = Some True, cp_block_mixed = None, cp_report_uri = Some ''/r'', cp_report_to = None\<rparr>
      (csp_add ''img-src'' [''self'', ''data:''] csp_new)"]
  by (simp add: plain_policy_def whole_policy_def option_directives_def csp_with_options_def csp_add_def csp_new_def newer_def
      elems_def set_add_def csp_word_def is_js_space_def)

lemma clone_is_same: "jwf (cb_policy b) \<Longrightarrow> list_all (\<lambda>(d, ss). distinct ss) (cb_policy b) \<Longrightarrow> csp_clone b = b"
  by (subst csp_clone_def, subst csp_add_all)
    (auto simp: csp_new_def csp_with_options_def newer_def Let_def split: option.splits)

text \<open>A source with a semicolon in it is two directives: two policies with one header.\<close>

theorem semicolon_adds_directive:
  assumes "s \<noteq> []" and "t \<noteq> []"
  shows "csp_build (csp_new\<lparr>cb_policy := [(n, [s @ ''; '' @ d @ '' '' @ t])]\<rparr>) = csp_build (csp_new\<lparr>cb_policy := [(n, [s]), (d, [t])]\<rparr>)"
  using assms by (simp add: csp_build_def csp_new_def option_texts_def directive_text_def)

theorem semicolon_adds_directive_witness:
  "csp_build (csp_new\<lparr>cb_policy := [(''img-src'', [''a'' @ ''; '' @ ''script-src'' @ '' '' @ ''*''])]\<rparr>)
     = csp_build (csp_new\<lparr>cb_policy := [(''img-src'', [''a'']), (''script-src'', [''*''])]\<rparr>)"
  by (rule semicolon_adds_directive) simp_all

text \<open>A directive given twice is read as one that allows what either does; browsers heed the first alone.\<close>

theorem repeated_directives_are_joined:
  assumes "csp_word n" and "csp_word s" and "csp_word t" and "s \<noteq> t"
  shows "cb_policy (csp_parse (join_text ''; '' [directive_text n [s], directive_text n [t]])) = [(n, [s, t])]"
  using parse_directives [of "[(n, [s]), (n, [t])]"] assms
  by (simp add: csp_add_def csp_new_def elems_def set_add_def)

theorem repeated_directives_are_joined_witness:
  "cb_policy (csp_parse (join_text ''; '' [directive_text ''script-src'' [''none''], directive_text ''script-src'' [''*'']])) = [(''script-src'', [''none'', ''*''])]"
  by (rule repeated_directives_are_joined) (simp_all add: csp_word_def is_js_space_def)

section \<open>Reports and handlers\<close>

definition monitor_ok :: "csp_monitor \<Rightarrow> bool" where
  "monitor_ok m \<longleftrightarrow> int (length (mo_reports m)) \<le> max 1 (mo_max m) \<and> list_all (\<lambda>r. vl_violated r \<noteq> []) (mo_reports m)"

lemma parsed_reports_name_directive: "parse_report raw = Some v \<Longrightarrow> vl_violated v \<noteq> []"
  by (auto simp: parse_report_def build_report_def Let_def split: if_splits)

text \<open>The monitor never keeps more than its limit, or than one, and every report names a directive.\<close>

theorem reports_bounded:
  shows "monitor_ok (csp_monitor_new n)"
    and "monitor_ok m \<Longrightarrow> monitor_ok (snd (monitor_report once raw m))"
    and "monitor_ok m \<Longrightarrow> monitor_ok (on_violation h m) \<and> monitor_ok (off_violation h m) \<and> monitor_ok (monitor_clear m)"
proof -
  show "monitor_ok (csp_monitor_new n)" by (simp add: monitor_ok_def csp_monitor_new_def)
  show "monitor_ok m \<Longrightarrow> monitor_ok (on_violation h m) \<and> monitor_ok (off_violation h m) \<and> monitor_ok (monitor_clear m)"
    by (auto simp: monitor_ok_def on_violation_def off_violation_def monitor_clear_def)
  assume ok: "monitor_ok m"
  show "monitor_ok (snd (monitor_report once raw m))"
  proof (cases "parse_report raw")
    case None
    then show ?thesis using ok by (simp add: monitor_report_def)
  next
    case (Some v)
    let ?rs = "if int (length (mo_reports m)) \<ge> mo_max m then List.tl (mo_reports m) else mo_reports m"
    obtain called hs where ran: "notify_from once 0 (mo_handlers m) = (called, hs)" by (rule prod.exhaust)
    have "list_all (\<lambda>r. vl_violated r \<noteq> []) (?rs @ [v])"
      using ok parsed_reports_name_directive [OF Some] by (cases "mo_reports m") (auto simp: monitor_ok_def)
    moreover have "int (length (?rs @ [v])) \<le> max 1 (mo_max m)"
      using ok by (cases "mo_reports m") (auto simp: monitor_ok_def)
    ultimately show ?thesis using Some ran by (simp add: monitor_report_def monitor_ok_def Let_def)
  qed
qed

theorem reports_bounded_witness:
  "monitor_ok (snd (monitor_report (\<lambda>_. False) (JObj [(''violated-directive'', JStr ''img-src'')]) (csp_monitor_new (Some 2))))"
  by (rule reports_bounded(2)) (rule reports_bounded(1))

text \<open>The groups hold, for each directive, its reports in their order.\<close>

theorem groups_split_reports:
  "jget (group_by_directive m) d = (let rs = filter (\<lambda>r. vl_violated r = d) (mo_reports m) in if rs = [] then None else Some rs)"
proof -
  define add where "add = (\<lambda>(g :: (string, violation list) jsmap) r. jset (vl_violated r) (elems g (vl_violated r) @ [r]) g)"
  have "jget (foldl add g rs) d = (if filter (\<lambda>r. vl_violated r = d) rs = [] then jget g d
      else Some (elems g d @ filter (\<lambda>r. vl_violated r = d) rs))" for g :: "(string, violation list) jsmap" and rs
    by (induction rs arbitrary: g) (auto simp: add_def elems_def filter_empty_conv)
  from this [of "[]" "mo_reports m"] show ?thesis by (simp add: group_by_directive_def add_def elems_def Let_def)
qed

lemma notify_all:
  assumes "\<forall>h \<in> set hs. \<not> once h"
  shows "notify_from once i hs = (drop i hs, hs)"
  using assms
proof (induction "length hs - i" arbitrary: i)
  case 0
  then show ?case by (subst notify_from.simps) simp
next
  case (Suc n)
  then have i: "i < length hs" by simp
  with Suc(2) have "notify_from once (i + 1) hs = (drop (i + 1) hs, hs)" by (intro Suc(1)) (use Suc in simp_all)
  then show ?case using i Suc.prems by (subst notify_from.simps) (simp add: Cons_nth_drop_Suc)
qed

text \<open>Every handler is called once for each registration, in order, if none unsubscribes itself.\<close>

theorem handlers_called:
  assumes "\<forall>h \<in> set (mo_handlers m). \<not> once h" and "parse_report raw = Some v"
  shows "fst (monitor_report once raw m) = map (\<lambda>h. (h, v)) (mo_handlers m)"
    and "mo_handlers (snd (monitor_report once raw m)) = mo_handlers m"
  using assms by (simp_all add: monitor_report_def notify_all)

theorem handlers_called_witness:
  "fst (monitor_report (\<lambda>_. False) (JObj [(''violated-directive'', JStr ''img-src'')]) (on_violation 4 (on_violation 3 (csp_monitor_new None))))
     = map (\<lambda>h. (h, the (parse_report (JObj [(''violated-directive'', JStr ''img-src'')])))) [3, 4]"
  using handlers_called(1) [of "on_violation 4 (on_violation 3 (csp_monitor_new None))" "\<lambda>_. False" "JObj [(''violated-directive'', JStr ''img-src'')]"
      "the (parse_report (JObj [(''violated-directive'', JStr ''img-src'')]))"]
  by (simp add: on_violation_def csp_monitor_new_def parse_report_def build_report_def json_object_def extract_inner_def json_get_def text_member_def jfield_def)

text \<open>A handler that unsubscribes itself makes the one after it miss the report.\<close>

theorem one_shot_handler_skips_next:
  assumes "once h" and "\<forall>k \<in> set (g # hs). \<not> once k"
  shows "notify_from once 0 (h # g # hs) = (h # hs, g # hs)"
  using assms notify_all [of "g # hs" once 1] by (subst notify_from.simps) simp

theorem one_shot_handler_skips_next_witness: "notify_from (\<lambda>h. h = 1) 0 (1 # 2 # [3]) = (1 # [3], 2 # [3])"
  by (rule one_shot_handler_skips_next) simp_all

text \<open>Calling the function of one registration twice withdraws another registration of the same handler.\<close>

theorem second_call_withdraws_another:
  assumes "h \<notin> set (mo_handlers m)"
  shows "off_violation h (off_violation h (on_violation h (on_violation h m))) = m"
  using assms by (simp add: off_violation_def on_violation_def remove1_append)

theorem second_call_withdraws_another_witness:
  "off_violation 3 (off_violation 3 (on_violation 3 (on_violation 3 (csp_monitor_new None)))) = csp_monitor_new None"
  by (rule second_call_withdraws_another) (simp add: csp_monitor_new_def)

end
