(* ===== verification/Http_Chain.thy ===== *)
theory Http_Chain
  imports Kernel Json
begin

text \<open>
  \<open>packages/web/src/http\<close> and \<open>middlewares\<close>: the chain of middlewares and the one for correlation identifiers.

  A middleware looks at the context when it is called and then changes it, awaits \<open>next\<close>, or throws.
  The functions \<open>next\<close> of one execution share the index of the middleware to be called.
\<close>

section \<open>The chain\<close>

datatype 'c mw_action = Change "'c \<Rightarrow> 'c" | Next | Throw js_error

type_synonym 'c middleware = "'c \<Rightarrow> 'c mw_action list"

definition chain_use :: "'c middleware \<Rightarrow> 'c middleware list \<Rightarrow> 'c middleware list" where
  "chain_use m ms = ms @ [m]"

text \<open>What is left to be called is a list; \<open>run_middleware\<close> returns what is left afterwards.\<close>

function run_middleware :: "'c mw_action list \<Rightarrow> 'c middleware list \<Rightarrow> 'c \<Rightarrow> (js_error, 'c middleware list \<times> 'c) outcome" where
  "run_middleware [] rest c = Inr (rest, c)"
| "run_middleware (Change f # as) rest c = run_middleware as rest (f c)"
| "run_middleware (Throw e # as) rest c = Inl e"
| "run_middleware (Next # as) [] c = run_middleware as [] c"
| "run_middleware (Next # as) (m # rest) c =
     (case run_middleware (m c) rest c of Inl e \<Rightarrow> Inl e | Inr (rest1, c1) \<Rightarrow> run_middleware as rest1 c1)"
  by pat_completeness auto

termination
proof (relation "measures [\<lambda>(as, rest, c). length rest, \<lambda>(as, rest, c). length as]")
  have less: "length rest1 \<le> length rest"
    if "run_middleware_dom (as, rest, c)" and "run_middleware as rest c = Inr (rest1, c1)"
    for as :: "'c mw_action list" and rest rest1 and c c1 :: 'c
    using that
  proof (induction as rest c arbitrary: rest1 c1 rule: run_middleware.pinduct)
    case (5 as m rest c)
    then show ?case by (fastforce simp: run_middleware.psimps split: sum.splits prod.splits)
  qed (simp_all add: run_middleware.psimps)
  fix as :: "'c mw_action list" and m :: "'c middleware" and rest c r rest1 c1
  assume dom: "run_middleware_dom (m c, rest, c)" and ran: "run_middleware (m c) rest c = Inr r" and r: "(rest1, c1) = r"
  have "run_middleware (m c) rest c = Inr (rest1, c1)" using ran r by simp
  then have "length rest1 \<le> length rest" by (rule less [OF dom])
  then show "((as, rest1, c1), Next # as, m # rest, c) \<in> measures [\<lambda>(as, rest, c). length rest, \<lambda>(as, rest, c). length as]"
    by simp
qed simp_all

definition chain_execute :: "'c middleware list \<Rightarrow> 'c \<Rightarrow> (js_error, 'c) outcome" where
  "chain_execute ms c = map_sum id snd (run_middleware [Next] ms c)"

section \<open>Correlation identifiers\<close>

record http_context =
  hc_request_headers :: "(string, string + string list) jsmap"
  hc_response_headers :: "(string, string) jsmap option"
  hc_correlation :: "string option"

definition correlation_header :: string where
  "correlation_header = ''X-Correlation-Id''"

text \<open>A header given more than once is a list, and is passed over.\<close>

definition request_correlation :: "string \<Rightarrow> http_context \<Rightarrow> (js_error, string) outcome" where
  "request_correlation fresh ctx =
     (case jget (hc_request_headers ctx) ''x-correlation-id'' of
        Some (Inl s) \<Rightarrow> correlation_id_from_string s
      | _ \<Rightarrow> Inr fresh)"

definition set_correlation :: "string \<Rightarrow> http_context \<Rightarrow> http_context" where
  "set_correlation cid ctx =
     ctx\<lparr>hc_correlation := Some cid,
         hc_response_headers := Some (jset correlation_header cid (case hc_response_headers ctx of None \<Rightarrow> [] | Some h \<Rightarrow> h))\<rparr>"

definition correlation_middleware :: "string \<Rightarrow> http_context middleware" where
  "correlation_middleware fresh ctx =
     (case request_correlation fresh ctx of
        Inl e \<Rightarrow> [Throw e]
      | Inr cid \<Rightarrow> [Change (set_correlation cid), Next])"

section \<open>What the chain does\<close>

text \<open>The usual reading: each middleware wraps those after it.\<close>

fun onion_steps :: "('c \<Rightarrow> (js_error, 'c) outcome) \<Rightarrow> 'c mw_action list \<Rightarrow> 'c \<Rightarrow> (js_error, 'c) outcome" where
  "onion_steps inner [] c = Inr c"
| "onion_steps inner (Change f # as) c = onion_steps inner as (f c)"
| "onion_steps inner (Throw e # as) c = Inl e"
| "onion_steps inner (Next # as) c = (case inner c of Inl e \<Rightarrow> Inl e | Inr c1 \<Rightarrow> onion_steps inner as c1)"

fun onion :: "'c middleware list \<Rightarrow> 'c \<Rightarrow> (js_error, 'c) outcome" where
  "onion [] c = Inr c"
| "onion (m # ms) c = onion_steps (onion ms) (m c) c"

definition next_count :: "'c mw_action list \<Rightarrow> nat" where
  "next_count as = length (filter (\<lambda>a. a = Next) as)"

lemma no_next: "next_count as = 0 \<Longrightarrow> run_middleware as rest c = map_sum id (Pair rest) (onion_steps inner as c)"
proof (induction as arbitrary: c)
  case (Cons a as)
  then show ?case by (cases a) (simp_all add: next_count_def)
qed simp

lemma run_is_onion:
  assumes "next_count as \<le> 1" and "\<And>m c. m \<in> set ms \<Longrightarrow> next_count (m c) \<le> 1"
  shows "map_sum id snd (run_middleware as ms c) = onion_steps (onion ms) as c"
  using assms
proof (induction as ms c rule: run_middleware.induct)
  case (4 as c)
  then show ?case by (simp add: next_count_def)
next
  case (5 as m rest c)
  have tail: "next_count as = 0" using 5(3) by (simp add: next_count_def)
  have "map_sum id snd (run_middleware (m c) rest c) = onion_steps (onion rest) (m c) c"
    by (rule 5(1)) (use 5(4) in auto)
  then have m: "onion (m # rest) c = map_sum id snd (run_middleware (m c) rest c)" by simp
  show ?case
  proof (cases "run_middleware (m c) rest c")
    case (Inl e)
    moreover have "onion (m # rest) c = Inl e" using m by (simp add: Inl)
    ultimately show ?thesis by (simp del: onion.simps)
  next
    case (Inr r)
    obtain rest1 c1 where r: "r = (rest1, c1)" by (rule prod.exhaust)
    have "map_sum id snd (run_middleware as rest1 c1) = onion_steps (onion (m # rest)) as c1"
      unfolding no_next [OF tail, of rest1 c1 "onion (m # rest)"]
      by (cases "onion_steps (onion (m # rest)) as c1") simp_all
    moreover have "onion (m # rest) c = Inr c1" using m by (simp add: Inr r)
    ultimately show ?thesis by (simp add: Inr r id_def del: onion.simps)
  qed
qed (simp_all add: next_count_def)

text \<open>When every middleware calls \<open>next\<close> at most once, the shared index is not seen.\<close>

theorem chain_wraps:
  assumes "\<And>m c. m \<in> set ms \<Longrightarrow> next_count (m c) \<le> 1"
  shows "chain_execute ms c = onion ms c"
proof -
  have "chain_execute ms c = onion_steps (onion ms) [Next] c"
    unfolding chain_execute_def by (rule run_is_onion) (use assms in \<open>auto simp: next_count_def\<close>)
  then show ?thesis by (simp split: sum.split)
qed

theorem chain_wraps_witness:
  "chain_execute [\<lambda>c. [Change (\<lambda>n. n + 1), Next, Change (\<lambda>n. n * 10)], \<lambda>c. [Change (\<lambda>n. n + c)]] (3 :: nat)
     = onion [\<lambda>c. [Change (\<lambda>n. n + 1), Next, Change (\<lambda>n. n * 10)], \<lambda>c. [Change (\<lambda>n. n + c)]] 3"
  by (rule chain_wraps) (auto simp: next_count_def)

text \<open>A middleware that calls \<open>next\<close> a second time calls the one after a guard that stopped the request.\<close>

theorem second_next_passes_guard:
  assumes "\<And>c. guard c = []" and "h c = [Change f]"
  shows "chain_execute [\<lambda>_. [Next, Next], guard, h] c = Inr (f c)" and "onion [\<lambda>_. [Next, Next], guard, h] c = Inr c"
  using assms by (simp_all add: chain_execute_def)

theorem second_next_passes_guard_witness:
  "chain_execute [\<lambda>_. [Next, Next], \<lambda>_. [], \<lambda>_. [Change (\<lambda>_. True)]] False = Inr True"
  by (rule second_next_passes_guard(1) [of "\<lambda>_. []" "\<lambda>_. [Change (\<lambda>_. True)]" False "\<lambda>_. True"]) simp_all

text \<open>
  What follows the correlation middleware sees the identifier of the request, or the new one, in the
  context and in the headers of the answer; an empty header stops the request.
\<close>

theorem correlation_before_rest:
  assumes "jget (hc_request_headers ctx) ''x-correlation-id'' = Some (Inl s)"
  shows "onion (correlation_middleware fresh # ms) ctx =
           (if js_trim s = [] then Inl (plain_error ''CorrelationId cannot be empty'') else onion ms (set_correlation s ctx))"
    and "hc_correlation (set_correlation s ctx) = Some s"
    and "jget (the (hc_response_headers (set_correlation s ctx))) correlation_header = Some s"
  using assms
  by (auto simp: correlation_middleware_def request_correlation_def correlation_id_from_string_def set_correlation_def js_trim_def split: sum.splits)

theorem correlation_before_rest_witness:
  "onion (correlation_middleware ''f'' # []) \<lparr>hc_request_headers = [(''x-correlation-id'', Inl '' '')], hc_response_headers = None, hc_correlation = None\<rparr>
     = Inl (plain_error ''CorrelationId cannot be empty'')"
  using correlation_before_rest(1) [of "\<lparr>hc_request_headers = [(''x-correlation-id'', Inl '' '')], hc_response_headers = None, hc_correlation = None\<rparr>" "'' ''" "''f''" "[]"]
  by (simp add: js_trim_def is_js_space_def)

end
