(* ===== verification/Hypermedia.thy ===== *)
theory Hypermedia
  imports Validation Configuration
begin

text \<open>
  \<open>packages/web/src/hateoas\<close>: links, HAL documents and JSON:API documents.

  Documents are objects of \<open>Json\<close>; embedded documents and attributes are given as such.
\<close>

section \<open>Links\<close>

record hyper_link =
  ln_href :: string
  ln_rel :: string
  ln_method :: "string option"
  ln_title :: "string option"
  ln_type :: "string option"

definition link_builder :: "string \<Rightarrow> string \<Rightarrow> hyper_link" where
  "link_builder href rel = \<lparr>ln_href = href, ln_rel = rel, ln_method = None, ln_title = None, ln_type = None\<rparr>"

definition with_method :: "string \<Rightarrow> hyper_link \<Rightarrow> hyper_link" where
  "with_method x l = l\<lparr>ln_method := Some x\<rparr>"

definition with_title :: "string \<Rightarrow> hyper_link \<Rightarrow> hyper_link" where
  "with_title x l = l\<lparr>ln_title := Some x\<rparr>"

definition with_type :: "string \<Rightarrow> hyper_link \<Rightarrow> hyper_link" where
  "with_type x l = l\<lparr>ln_type := Some x\<rparr>"

definition link_json :: "hyper_link \<Rightarrow> json" where
  "link_json l =
     JObj ([(''href'', JStr (ln_href l)), (''rel'', JStr (ln_rel l))]
       @ given ''method'' JStr (ln_method l) @ given ''title'' JStr (ln_title l) @ given ''type'' JStr (ln_type l))"

definition self_link :: "string \<Rightarrow> hyper_link" where
  "self_link href = link_builder href ''self''"

definition collection_link :: "string \<Rightarrow> hyper_link" where
  "collection_link href = link_builder href ''collection''"

definition related_link :: "string \<Rightarrow> string \<Rightarrow> hyper_link" where
  "related_link rel href = link_builder href rel"

section \<open>HAL\<close>

datatype links_value = OneLink hyper_link | ManyLinks "hyper_link list"

definition links_json :: "links_value \<Rightarrow> json" where
  "links_json v = (case v of OneLink l \<Rightarrow> link_json l | ManyLinks ls \<Rightarrow> JArr (map link_json ls))"

record hal_resource =
  hl_data :: "(string, json) jsmap"
  hl_links :: "(string, links_value) jsmap"
  hl_embedded :: "(string, json) jsmap"

definition hal_new :: "(string, json) jsmap \<Rightarrow> string \<Rightarrow> hal_resource" where
  "hal_new d self_href = \<lparr>hl_data = d, hl_links = [(''self'', OneLink (self_link self_href))], hl_embedded = []\<rparr>"

definition hal_add_link :: "string \<Rightarrow> links_value \<Rightarrow> hal_resource \<Rightarrow> hal_resource" where
  "hal_add_link rel l r = r\<lparr>hl_links := jset rel l (hl_links r)\<rparr>"

definition hal_embed :: "string \<Rightarrow> json \<Rightarrow> hal_resource \<Rightarrow> hal_resource" where
  "hal_embed rel d r = r\<lparr>hl_embedded := jset rel d (hl_embedded r)\<rparr>"

definition record_of :: "(string, json) jsmap \<Rightarrow> (string, json) jsmap" where
  "record_of m = foldl (\<lambda>o1 (k, v). jset k v o1) [] m"

definition hal_document :: "hal_resource \<Rightarrow> json" where
  "hal_document r =
     (let result = jset ''_links'' (JObj (record_of (map (\<lambda>(k, v). (k, links_json v)) (hl_links r)))) (hl_data r)
      in JObj (if jsize (hl_embedded r) > 0 then jset ''_embedded'' (JObj (record_of (hl_embedded r))) result else result))"

section \<open>JSON:API\<close>

datatype api_identifier = ApiId (ai_id: string) (ai_type: string)

datatype api_relationship = ToOne api_identifier | ToMany "api_identifier list"

definition identifier_json :: "api_identifier \<Rightarrow> json" where
  "identifier_json i = JObj [(''id'', JStr (ai_id i)), (''type'', JStr (ai_type i))]"

definition relationship_json :: "api_relationship \<Rightarrow> json" where
  "relationship_json r =
     JObj [(''data'', case r of ToOne i \<Rightarrow> identifier_json i | ToMany is \<Rightarrow> JArr (map identifier_json is))]"

record api_builder =
  ab_type :: string
  ab_id :: string
  ab_attributes :: json
  ab_relationships :: "(string, api_relationship) jsmap"
  ab_links :: "(string, hyper_link) jsmap"
  ab_meta :: "json option"

definition api_new :: "string \<Rightarrow> string \<Rightarrow> json \<Rightarrow> api_builder" where
  "api_new t i a = \<lparr>ab_type = t, ab_id = i, ab_attributes = a, ab_relationships = [], ab_links = [], ab_meta = None\<rparr>"

definition add_relationship :: "string \<Rightarrow> api_relationship \<Rightarrow> api_builder \<Rightarrow> api_builder" where
  "add_relationship rel r b = b\<lparr>ab_relationships := jset rel r (ab_relationships b)\<rparr>"

definition api_add_link :: "string \<Rightarrow> hyper_link \<Rightarrow> api_builder \<Rightarrow> api_builder" where
  "api_add_link rel l b = b\<lparr>ab_links := jset rel l (ab_links b)\<rparr>"

definition with_meta :: "json \<Rightarrow> api_builder \<Rightarrow> api_builder" where
  "with_meta m b = b\<lparr>ab_meta := Some m\<rparr>"

definition api_build :: "api_builder \<Rightarrow> json" where
  "api_build b =
     (let rels = JObj (record_of (map (\<lambda>(k, r). (k, relationship_json r)) (ab_relationships b)));
          links = JObj (record_of (map (\<lambda>(k, l). (k, link_json l)) (ab_links b)));
          resource = JObj ([(''id'', JStr (ab_id b)), (''type'', JStr (ab_type b)), (''attributes'', ab_attributes b)]
            @ (if jsize (ab_relationships b) > 0 then [(''relationships'', rels)] else [])
            @ (if jsize (ab_links b) > 0 then [(''links'', links)] else []))
      in JObj ([(''data'', resource)] @ (if jsize (ab_links b) > 0 then [(''links'', links)] else [])
           @ given ''meta'' (\<lambda>m. m) (ab_meta b)))"

section \<open>What the documents hold\<close>

lemma record_of_same: "jwf m \<Longrightarrow> record_of m = m"
proof -
  have "jwf (o1 @ m) \<Longrightarrow> foldl (\<lambda>o1 (k, v). jset k v o1) o1 m = o1 @ m" for o1 m :: "(string, json) jsmap"
  proof (induction m arbitrary: o1)
    case (Cons e m)
    obtain k v where e: "e = (k, v)" by (cases e)
    have "\<not> jhas o1 k" using Cons.prems by (auto simp: e jhas_def map_of_eq_None_iff)
    then show ?case using Cons.IH [of "o1 @ [(k, v)]"] Cons.prems by (simp add: e jset_absent)
  qed simp
  from this [of "[]" m] show "jwf m \<Longrightarrow> record_of m = m" by (simp add: record_of_def)
qed

lemma jget_map_entries: "jget (map (\<lambda>(k, v). (k, f v)) m) k = map_option f (jget m k)"
  by (induction m) auto

lemma jwf_map_entries: "jwf (map (\<lambda>(k, v). (k, f v)) m) = jwf m"
  by (simp add: split_def comp_def)

lemma jget_record [simp]: "jwf m \<Longrightarrow> jget (record_of m) k = jget m k"
  by (simp add: record_of_same)

lemma jget_record_map [simp]: "jwf m \<Longrightarrow> jget (record_of (map (\<lambda>(k, v). (k, f v)) m)) k = map_option f (jget m k)"
  using jget_record [of "map (\<lambda>(k, v). (k, f v)) m"] unfolding jwf_map_entries jget_map_entries by simp

definition hal_ok :: "hal_resource \<Rightarrow> bool" where
  "hal_ok r \<longleftrightarrow> jwf (hl_links r) \<and> jwf (hl_embedded r) \<and> jhas (hl_links r) ''self''"

lemma hal_ok_steps:
  "hal_ok (hal_new d h)" "hal_ok r \<Longrightarrow> hal_ok (hal_add_link rel l r)" "hal_ok r \<Longrightarrow> hal_ok (hal_embed rel e r)"
  by (auto simp: hal_ok_def hal_new_def hal_add_link_def hal_embed_def jhas_def intro: jwf_jset)

text \<open>
  A document has the members of the data, but for its own two, and under each relation the link, or
  the document, that was given last.
\<close>

theorem hal_document_members:
  assumes "hal_ok r"
  shows "k \<noteq> ''_links'' \<Longrightarrow> k \<noteq> ''_embedded'' \<Longrightarrow> json_get k (hal_document r) = jget (hl_data r) k"
    and "Option.bind (json_get ''_links'' (hal_document (hal_add_link rel l r))) (json_get rel) = Some (links_json l)"
    and "Option.bind (json_get ''_embedded'' (hal_document (hal_embed rel d r))) (json_get rel) = Some d"
    and "Option.bind (json_get ''_links'' (hal_document r)) (json_get ''self'') \<noteq> None"
  using assms hal_ok_steps(2) [OF assms, of rel l] hal_ok_steps(3) [OF assms, of rel d]
  by (auto simp: hal_document_def hal_ok_def json_get_def jfield_def Let_def hal_add_link_def hal_embed_def
      jhas_def split: option.split)

theorem hal_document_members_witness:
  "Option.bind (json_get ''_links'' (hal_document (hal_add_link ''next'' (OneLink (self_link ''/2'')) (hal_new [] ''/1'')))) (json_get ''next'')
     = Some (links_json (OneLink (self_link ''/2'')))"
  using hal_document_members(2) [OF hal_ok_steps(1)] .

text \<open>The member \<open>_embedded\<close> of the data stays when nothing is embedded, and is lost with the first document embedded.\<close>

theorem data_member_shadowed:
  assumes "hal_ok r" and "jget (hl_data r) ''_embedded'' = Some v" and "hl_embedded r = []"
  shows "json_get ''_embedded'' (hal_document r) = Some v"
    and "json_get ''_embedded'' (hal_document (hal_embed rel d r)) = Some (JObj [(rel, d)])"
  using assms by (simp_all add: hal_document_def hal_embed_def json_get_def jfield_def Let_def record_of_def)

theorem data_member_shadowed_witness:
  "json_get ''_embedded'' (hal_document (hal_new [(''_embedded'', JNull)] ''/1'')) = Some JNull"
  by (rule data_member_shadowed(1) [OF hal_ok_steps(1)]) (simp_all add: hal_new_def)

text \<open>A JSON:API document has its resource's identity, the relationships and links given last, and the links twice.\<close>

theorem api_document_members:
  assumes "jwf (ab_relationships b)" and "jwf (ab_links b)"
  shows "Option.bind (json_get ''data'' (api_build b)) (json_get ''id'') = Some (JStr (ab_id b))"
    and "Option.bind (Option.bind (json_get ''data'' (api_build b)) (json_get ''relationships'')) (json_get rel)
           = map_option relationship_json (jget (ab_relationships b) rel)"
    and "Option.bind (json_get ''data'' (api_build b)) (json_get ''links'') = json_get ''links'' (api_build b)"
    and "Option.bind (json_get ''links'' (api_build b)) (json_get rel) = map_option link_json (jget (ab_links b) rel)"
    and "json_get ''meta'' (api_build b) = ab_meta b"
  using assms
  by (auto simp: api_build_def json_get_def jfield_def Let_def jget_given option.map_ident map_add_def split: option.split)

theorem api_document_members_witness:
  "Option.bind (json_get ''links'' (api_build (api_add_link ''self'' (self_link ''/1'') (api_new ''users'' ''1'' JNull)))) (json_get ''self'')
     = Some (link_json (self_link ''/1''))"
  using api_document_members(4) [of "api_add_link ''self'' (self_link ''/1'') (api_new ''users'' ''1'' JNull)" "''self''"]
  by (simp add: api_add_link_def api_new_def)

lemma link_members:
  "json_get ''href'' (link_json l) = Some (JStr (ln_href l))" "json_get ''rel'' (link_json l) = Some (JStr (ln_rel l))"
  "json_get ''method'' (link_json l) = map_option JStr (ln_method l)" "json_get ''title'' (link_json l) = map_option JStr (ln_title l)"
  "json_get ''type'' (link_json l) = map_option JStr (ln_type l)"
  by (simp_all add: link_json_def json_get_def map_add_def jget_given split: option.split)

text \<open>Two links have one text only when they agree in every member.\<close>

theorem link_json_inject: "link_json l = link_json l' \<longleftrightarrow> l = (l' :: hyper_link)"
proof
  assume same: "link_json l = link_json l'"
  have inj: "map_option JStr x = map_option JStr y \<longleftrightarrow> x = y" for x y by (cases x; cases y) simp_all
  show "l = l'"
    using link_members [of l] link_members [of l'] unfolding same by (simp add: inj)
qed simp

end
