(* ===== verification/Web_Express.thy ===== *)
theory Web_Express
  imports Kernel Validation Json_Text Configuration
begin

text \<open>
  \<open>packages/web-express/src\<close>: the middlewares and adapters for Express.

  What a handler does is the list of its calls on the response, \<open>next\<close> and the logger.  The time, new
  identifiers, and what \<open>next\<close> throws are arguments, as is what the validators and use cases return.
  Members that are undefined are left out of the objects logged.
\<close>

section \<open>Requests, errors and calls\<close>

record http_error =
  he_name :: string
  he_message :: string
  he_status :: "int option"
  he_status_code :: "int option"
  he_stack :: "string option"
  he_details :: "(string \<times> string) list"

record ex_user =
  eu_id :: "string option"
  eu_email :: "string option"
  eu_roles :: "json list option"
  eu_permissions :: "json list option"

record ex_request =
  rq_method :: string
  rq_path :: string
  rq_url :: string
  rq_headers :: "(string, string + string list) jsmap"
  rq_query :: json
  rq_params :: json
  rq_body :: "json option"
  rq_ip :: "string option"
  rq_correlation :: "string option"
  rq_tenant :: "string option"
  rq_user :: "ex_user option"

datatype ex_call =
    SetHeader string string
  | SendJson int "json option"
  | CallNext "http_error option"
  | LogCall string string json

definition thrown_error :: "js_error \<Rightarrow> http_error" where
  "thrown_error e = \<lparr>he_name = error_name e, he_message = error_message e, he_status = None, he_status_code = None,
     he_stack = None, he_details = []\<rparr>"

text \<open>\<open>req.get(name)\<close> for a name in lower case; of a list the reader gets no text here.\<close>

definition get_header :: "string \<Rightarrow> ex_request \<Rightarrow> string option" where
  "get_header h req = (case jget (rq_headers req) h of Some (Inl s) \<Rightarrow> Some s | _ \<Rightarrow> None)"

section \<open>Errors\<close>

definition error_status_map :: "(string \<times> int) list" where
  "error_status_map =
     [(''ValidationError'', 400), (''NotFoundError'', 404), (''UnauthorizedError'', 401), (''ForbiddenError'', 403),
      (''ConflictError'', 409), (''TooManyRequestsError'', 429), (''InternalServerError'', 500)]"

definition determine_status_code :: "http_error \<Rightarrow> int" where
  "determine_status_code e =
     (case he_status e of
        Some s \<Rightarrow> s
      | None \<Rightarrow>
          (case he_status_code e of
             Some s \<Rightarrow> s
           | None \<Rightarrow> (case jget error_status_map (he_name e) of Some s \<Rightarrow> s | None \<Rightarrow> 500)))"

definition log_error :: "http_error \<Rightarrow> int \<Rightarrow> ex_request \<Rightarrow> string option \<Rightarrow> ex_call" where
  "log_error e status req cid =
     (let d = [(''errorName'', JStr (he_name e)), (''message'', JStr (he_message e)), (''status'', JNum (of_int status)),
               (''httpMethod'', JStr (rq_method req)), (''path'', JStr (rq_path req))] @ given ''correlationId'' JStr cid
      in if status \<ge> 500 then LogCall ''error'' ''Request failed with error'' (JObj (d @ given ''stack'' JStr (he_stack e)))
         else LogCall ''warn'' ''Request failed with error'' (JObj d))"

definition error_document :: "http_error \<Rightarrow> ex_request \<Rightarrow> json" where
  "error_document e req =
     (let p = [(''type'', JStr (''https://api.acme.com/errors/'' @ he_name e)), (''title'', JStr (he_name e)),
               (''status'', JNum (of_int (determine_status_code e))), (''detail'', JStr (he_message e)), (''instance'', JStr (rq_url req))]
      in JObj (case rq_correlation req of
                 Some c \<Rightarrow> if length c > 0 then p @ [(''correlationId'', JStr c)] else p
               | None \<Rightarrow> p))"

definition error_handler :: "bool \<Rightarrow> bool \<Rightarrow> http_error \<Rightarrow> ex_request \<Rightarrow> ex_call list" where
  "error_handler logger headers_sent e req =
     (if headers_sent then [CallNext (Some e)]
      else (if logger then [log_error e (determine_status_code e) req (rq_correlation req)] else [])
           @ [SendJson (determine_status_code e) (Some (error_document e req))])"

section \<open>Logging\<close>

definition response_level :: "int \<Rightarrow> string" where
  "response_level status = (if status \<ge> 500 then ''error'' else if status \<ge> 400 then ''warn'' else ''info'')"

definition log_response :: "int \<Rightarrow> int \<Rightarrow> int \<Rightarrow> string option \<Rightarrow> ex_request \<Rightarrow> ex_call" where
  "log_response now start status content_length req =
     LogCall (response_level status) ''Request completed''
       (JObj ([(''httpMethod'', JStr (rq_method req)), (''path'', JStr (rq_path req)), (''status'', JNum (of_int status)),
               (''duration'', JStr (show_int (now - start) @ ''ms''))] @ given ''correlationId'' JStr (rq_correlation req)
             @ given ''contentLength'' JStr content_length))"

definition logging_middleware :: "ex_request \<Rightarrow> ex_call list" where
  "logging_middleware req =
     [LogCall ''info'' ''Incoming request''
        (JObj ([(''httpMethod'', JStr (rq_method req)), (''path'', JStr (rq_path req)), (''query'', rq_query req)]
           @ given ''correlationId'' JStr (rq_correlation req) @ given ''userAgent'' JStr (get_header ''user-agent'' req)
           @ given ''ip'' JStr (rq_ip req))),
      CallNext None]"

record logging_options =
  lo_body :: bool
  lo_headers :: bool
  lo_exclude :: "string list"
  lo_max_body :: int

definition logging_defaults :: logging_options where
  "logging_defaults = \<lparr>lo_body = False, lo_headers = False, lo_exclude = [], lo_max_body = 1000\<rparr>"

definition headers_json :: "(string, string + string list) jsmap \<Rightarrow> json" where
  "headers_json hs = JObj (map (\<lambda>(k, v). (k, case v of Inl s \<Rightarrow> JStr s | Inr ss \<Rightarrow> JArr (map JStr ss))) hs)"

definition body_logged :: "(rat \<Rightarrow> string) \<Rightarrow> int \<Rightarrow> json \<Rightarrow> json" where
  "body_logged num max_size body =
     (let t = json_text num body
      in if int (length t) > max_size then JStr (take (nat max_size) t @ ''... [truncated]'') else body)"

definition advanced_request_data :: "(rat \<Rightarrow> string) \<Rightarrow> ex_request \<Rightarrow> logging_options \<Rightarrow> json" where
  "advanced_request_data num req opts =
     JObj ([(''httpMethod'', JStr (rq_method req)), (''path'', JStr (rq_path req)), (''query'', rq_query req)]
       @ given ''correlationId'' JStr (rq_correlation req) @ given ''ip'' JStr (rq_ip req)
       @ (if lo_headers opts then [(''headers'', headers_json (rq_headers req))] else [])
       @ (if lo_body opts then given ''body'' (body_logged num (lo_max_body opts)) (rq_body req) else []))"

definition advanced_logging_middleware :: "(rat \<Rightarrow> string) \<Rightarrow> logging_options \<Rightarrow> ex_request \<Rightarrow> ex_call list" where
  "advanced_logging_middleware num opts req =
     (if rq_path req \<in> set (lo_exclude opts) then [CallNext None]
      else [LogCall ''info'' ''Incoming request'' (advanced_request_data num req opts), CallNext None])"

section \<open>Correlation identifiers\<close>

definition attach_correlation :: "string \<Rightarrow> ex_request \<Rightarrow> ex_call list \<times> ex_request" where
  "attach_correlation cid req = ([SetHeader ''X-Correlation-ID'' cid], req\<lparr>rq_correlation := Some cid\<rparr>)"

text \<open>\<open>next_throws\<close> is what the first call of \<open>next\<close> throws; the second is outside the block that catches.\<close>

definition express_correlation :: "bool \<Rightarrow> string \<Rightarrow> string \<Rightarrow> string option \<Rightarrow> ex_request \<Rightarrow> ex_call list \<times> ex_request" where
  "express_correlation logger fresh fallback next_throws req =
     (let given_id = (case get_header ''x-correlation-id'' req of
            Some s \<Rightarrow> if length s > 0 then correlation_id_from_string s else Inr fresh
          | None \<Rightarrow> Inr fresh);
          recover = (\<lambda>msg r. let (cs, r1) = attach_correlation fallback r
             in (cs @ (if logger then [LogCall ''warn'' ''Failed to extract correlation ID, generated new one''
                    (JObj [(''error'', JStr msg), (''correlationId'', JStr fallback)])] else []) @ [CallNext None], r1))
      in case given_id of
           Inl e \<Rightarrow> recover (error_message e) req
         | Inr cid \<Rightarrow>
             (let (cs, r1) = attach_correlation cid req;
                  start = cs @ (if logger then [LogCall ''debug'' ''Correlation ID attached to request''
                    (JObj [(''correlationId'', JStr cid), (''method'', JStr (rq_method req)), (''path'', JStr (rq_path req))])] else [])
                    @ [CallNext None]
              in case next_throws of
                   None \<Rightarrow> (start, r1)
                 | Some msg \<Rightarrow> (let (cs2, r2) = recover msg r1 in (start @ cs2, r2))))"

section \<open>Validation\<close>

datatype validation_result = Valid json | Invalid "(string \<times> string) list"

definition validation_error :: "string \<Rightarrow> (string \<times> string) list \<Rightarrow> http_error" where
  "validation_error msg details =
     \<lparr>he_name = ''ValidationError'', he_message = msg, he_status = None, he_status_code = None, he_stack = None, he_details = details\<rparr>"

type_synonym request_validator = "json option \<Rightarrow> (js_error, validation_result) outcome"

definition validate_with ::
  "string \<Rightarrow> (json \<Rightarrow> ex_request \<Rightarrow> ex_request) \<Rightarrow> request_validator \<Rightarrow> json option \<Rightarrow> http_error option \<Rightarrow> ex_request
     \<Rightarrow> ex_call list \<times> ex_request" where
  "validate_with msg put validator v next_throws req =
     (case validator v of
        Inl e \<Rightarrow> ([CallNext (Some (thrown_error e))], req)
      | Inr (Invalid es) \<Rightarrow> ([CallNext (Some (validation_error msg es))], req)
      | Inr (Valid d) \<Rightarrow>
          (CallNext None # (case next_throws of None \<Rightarrow> [] | Some e \<Rightarrow> [CallNext (Some e)]), put d req))"

definition validate_body :: "request_validator \<Rightarrow> http_error option \<Rightarrow> ex_request \<Rightarrow> ex_call list \<times> ex_request" where
  "validate_body validator next_throws req =
     validate_with ''Request validation failed'' (\<lambda>d r. r\<lparr>rq_body := Some d\<rparr>) validator (rq_body req) next_throws req"

definition validate_query :: "request_validator \<Rightarrow> http_error option \<Rightarrow> ex_request \<Rightarrow> ex_call list \<times> ex_request" where
  "validate_query validator next_throws req =
     validate_with ''Query validation failed'' (\<lambda>d r. r\<lparr>rq_query := d\<rparr>) validator (Some (rq_query req)) next_throws req"

definition validate_params :: "request_validator \<Rightarrow> http_error option \<Rightarrow> ex_request \<Rightarrow> ex_call list \<times> ex_request" where
  "validate_params validator next_throws req =
     validate_with ''Path parameters validation failed'' (\<lambda>d r. r\<lparr>rq_params := d\<rparr>) validator (Some (rq_params req)) next_throws req"

record schema_result =
  sr_success :: bool
  sr_data :: "json option"
  sr_issues :: "((string + int) list \<times> string) list option"

definition path_step_text :: "string + int \<Rightarrow> string" where
  "path_step_text p = (case p of Inl s \<Rightarrow> s | Inr i \<Rightarrow> show_int i)"

definition zod_validator :: "(json option \<Rightarrow> schema_result) \<Rightarrow> request_validator" where
  "zod_validator parse v =
     (let r = parse v in
      Inr (if sr_success r \<and> sr_data r \<noteq> None then Valid (the (sr_data r))
           else Invalid (case sr_issues r of
                  None \<Rightarrow> []
                | Some is \<Rightarrow> map (\<lambda>(p, msg). (join_with CHR ''.'' (map path_step_text p), msg)) is)))"

section \<open>Contexts and users\<close>

record use_case_context =
  uc_correlation :: string
  uc_metadata :: json
  uc_tenant :: "string option"
  uc_user :: "string option"

definition user_json :: "ex_user \<Rightarrow> json" where
  "user_json u = JObj (given ''id'' JStr (eu_id u) @ given ''email'' JStr (eu_email u) @ given ''roles'' JArr (eu_roles u))"

definition context_from_request :: "string \<Rightarrow> ex_request \<Rightarrow> use_case_context" where
  "context_from_request fresh req =
     \<lparr>uc_correlation = (case rq_correlation req of Some c \<Rightarrow> c | None \<Rightarrow> fresh),
      uc_metadata = JObj ([(''method'', JStr (rq_method req)), (''path'', JStr (rq_path req))] @ given ''ip'' JStr (rq_ip req)
        @ given ''userAgent'' JStr (get_header ''user-agent'' req) @ given ''user'' user_json (rq_user req)
        @ given ''tenantId'' JStr (rq_tenant req)),
      uc_tenant = None, uc_user = None\<rparr>"

definition extract_tenant_id :: "string \<Rightarrow> ex_request \<Rightarrow> string option" where
  "extract_tenant_id header req =
     (case get_header header req of None \<Rightarrow> None | Some s \<Rightarrow> if s = [] then None else Some s)"

definition context_middleware :: "ex_request \<Rightarrow> ex_call list \<times> ex_request" where
  "context_middleware req =
     ([CallNext None], case extract_tenant_id ''x-tenant-id'' req of Some t \<Rightarrow> req\<lparr>rq_tenant := Some t\<rparr> | None \<Rightarrow> req)"

definition extract_string_field :: "json \<Rightarrow> string \<Rightarrow> string option" where
  "extract_string_field payload k = (case json_get k payload of Some (JStr s) \<Rightarrow> Some s | _ \<Rightarrow> None)"

definition extract_list_field :: "json \<Rightarrow> string \<Rightarrow> json list option" where
  "extract_list_field payload k = (case json_get k payload of Some (JArr vs) \<Rightarrow> Some vs | _ \<Rightarrow> None)"

definition extract_user_from_jwt :: "json \<Rightarrow> ex_user" where
  "extract_user_from_jwt payload =
     \<lparr>eu_id = extract_string_field payload ''sub'', eu_email = extract_string_field payload ''email'',
      eu_roles = extract_list_field payload ''roles'', eu_permissions = extract_list_field payload ''permissions''\<rparr>"

section \<open>Controllers\<close>

type_synonym use_case = "json option \<Rightarrow> (http_error, http_error + json option) outcome"

record controller_options =
  co_success :: "int option"
  co_extract :: "(ex_request \<Rightarrow> (http_error, json option) outcome) option"
  co_transform :: "(json option \<Rightarrow> (http_error, json option) outcome) option"

definition no_controller_options :: controller_options where
  "no_controller_options = \<lparr>co_success = None, co_extract = None, co_transform = None\<rparr>"

definition next_with :: "http_error \<Rightarrow> http_error option \<Rightarrow> ex_call list" where
  "next_with e next_throws = CallNext (Some e) # (case next_throws of None \<Rightarrow> [] | Some f \<Rightarrow> [CallNext (Some f)])"

definition adapt :: "use_case \<Rightarrow> controller_options \<Rightarrow> http_error option \<Rightarrow> ex_request \<Rightarrow> ex_call list" where
  "adapt use opts next_throws req =
     (let status = (case co_success opts of Some s \<Rightarrow> s | None \<Rightarrow> 200);
          extract = (case co_extract opts of Some f \<Rightarrow> f | None \<Rightarrow> (\<lambda>r. Inr (rq_body r)));
          transform = (case co_transform opts of Some f \<Rightarrow> f | None \<Rightarrow> Inr)
      in case extract req of
           Inl e \<Rightarrow> [CallNext (Some e)]
         | Inr input \<Rightarrow>
             (case use input of
                Inl e \<Rightarrow> [CallNext (Some e)]
              | Inr (Inl e) \<Rightarrow> next_with e next_throws
              | Inr (Inr output) \<Rightarrow>
                  (case transform output of Inl e \<Rightarrow> [CallNext (Some e)] | Inr t \<Rightarrow> [SendJson status t])))"

definition adapt_command :: "use_case \<Rightarrow> controller_options \<Rightarrow> http_error option \<Rightarrow> ex_request \<Rightarrow> ex_call list" where
  "adapt_command use opts = adapt use (opts\<lparr>co_success := Some (case co_success opts of Some s \<Rightarrow> s | None \<Rightarrow> 204),
     co_transform := Some (\<lambda>_. Inr None)\<rparr>)"

definition merged_input :: "ex_request \<Rightarrow> json" where
  "merged_input req =
     JObj (assign_all (case rq_params req of JObj fs \<Rightarrow> fs | _ \<Rightarrow> []) (case rq_query req of JObj fs \<Rightarrow> fs | _ \<Rightarrow> []))"

definition adapt_query :: "use_case \<Rightarrow> controller_options \<Rightarrow> http_error option \<Rightarrow> ex_request \<Rightarrow> ex_call list" where
  "adapt_query use opts = adapt use (opts\<lparr>co_extract := Some (case co_extract opts of Some f \<Rightarrow> f | None \<Rightarrow> (\<lambda>r. Inr (Some (merged_input r))))\<rparr>)"

definition adapt_create :: "use_case \<Rightarrow> controller_options \<Rightarrow> http_error option \<Rightarrow> ex_request \<Rightarrow> ex_call list" where
  "adapt_create use opts = adapt use (opts\<lparr>co_success := Some 201\<rparr>)"

definition adapt_delete :: "use_case \<Rightarrow> controller_options \<Rightarrow> http_error option \<Rightarrow> ex_request \<Rightarrow> ex_call list" where
  "adapt_delete use opts = adapt_command use (opts\<lparr>co_success := Some 204\<rparr>)"

section \<open>Answers\<close>

definition answers :: "ex_call list \<Rightarrow> (int \<times> json option) list" where
  "answers cs = concat (map (\<lambda>c. case c of SendJson s b \<Rightarrow> [(s, b)] | _ \<Rightarrow> []) cs)"

definition nexts :: "ex_call list \<Rightarrow> http_error option list" where
  "nexts cs = concat (map (\<lambda>c. case c of CallNext e \<Rightarrow> [e] | _ \<Rightarrow> []) cs)"

text \<open>The handler of a route followed by the handler of errors.\<close>

definition served :: "bool \<Rightarrow> ex_call list \<Rightarrow> ex_request \<Rightarrow> (int \<times> json option) list" where
  "served logger cs req =
     answers cs @ concat (map (\<lambda>n. case n of Some e \<Rightarrow> answers (error_handler logger (answers cs \<noteq> []) e req) | None \<Rightarrow> []) (nexts cs))"

lemma calls_simps [simp]:
  "answers [] = []" "answers (SendJson s b # cs) = (s, b) # answers cs" "answers (CallNext e # cs) = answers cs"
  "answers (LogCall l t d # cs) = answers cs" "answers (SetHeader h v # cs) = answers cs"
  "nexts [] = []" "nexts (SendJson s b # cs) = nexts cs" "nexts (CallNext e # cs) = e # nexts cs"
  "nexts (LogCall l t d # cs) = nexts cs" "nexts (SetHeader h v # cs) = nexts cs"
  by (simp_all add: answers_def nexts_def)

lemma calls_append [simp]: "answers (as @ bs) = answers as @ answers bs" "nexts (as @ bs) = nexts as @ nexts bs"
  by (simp_all add: answers_def nexts_def)

lemma error_handler_answers:
  "answers (error_handler logger False e req) = [(determine_status_code e, Some (error_document e req))]"
  "nexts (error_handler logger False e req) = []"
  "answers (error_handler logger True e req) = []" "nexts (error_handler logger True e req) = [Some e]"
  by (simp_all add: error_handler_def log_error_def Let_def)

lemma error_document_members:
  "json_get ''type'' (error_document e req) = Some (JStr (''https://api.acme.com/errors/'' @ he_name e))"
  "json_get ''title'' (error_document e req) = Some (JStr (he_name e))"
  "json_get ''status'' (error_document e req) = Some (JNum (of_int (determine_status_code e)))"
  "json_get ''detail'' (error_document e req) = Some (JStr (he_message e))"
  "json_get ''instance'' (error_document e req) = Some (JStr (rq_url req))"
  by (simp_all add: error_document_def Let_def json_get_def split: option.split)

definition failure_of :: "use_case \<Rightarrow> controller_options \<Rightarrow> ex_request \<Rightarrow> http_error option" where
  "failure_of use opts req =
     (case (case co_extract opts of Some f \<Rightarrow> f req | None \<Rightarrow> Inr (rq_body req)) of
        Inl e \<Rightarrow> Some e
      | Inr input \<Rightarrow>
          (case use input of
             Inl e \<Rightarrow> Some e
           | Inr (Inl e) \<Rightarrow> Some e
           | Inr (Inr out) \<Rightarrow> (case co_transform opts of Some f \<Rightarrow> (case f out of Inl e \<Rightarrow> Some e | Inr _ \<Rightarrow> None) | None \<Rightarrow> None)))"


text \<open>When \<open>next\<close> throws while it is given the error of the use case, it is called again with what it threw.\<close>

theorem next_called_again:
  assumes "use (rq_body req) = Inr (Inl e)"
  shows "nexts (adapt use no_controller_options (Some f) req) = [Some e, Some f]"
  using assms by (simp add: adapt_def no_controller_options_def next_with_def)

theorem next_called_again_witness:
  "nexts (adapt (\<lambda>_. Inr (Inl (validation_error ''a'' []))) no_controller_options (Some (validation_error ''b'' []))
      \<lparr>rq_method = ''GET'', rq_path = ''/'', rq_url = ''/'', rq_headers = [], rq_query = JObj [], rq_params = JObj [], rq_body = None,
       rq_ip = None, rq_correlation = None, rq_tenant = None, rq_user = None\<rparr>)
     = [Some (validation_error ''a'' []), Some (validation_error ''b'' [])]"
  by (rule next_called_again) simp

text \<open>Creation and deletion answer with their own status, whatever the options say.\<close>

theorem fixed_statuses:
  "adapt_create use (opts\<lparr>co_success := s\<rparr>) nx req = adapt_create use opts nx req"
  "adapt_delete use (opts\<lparr>co_success := s\<rparr>) nx req = adapt_delete use opts nx req"
  by (simp_all add: adapt_create_def adapt_delete_def adapt_command_def)

text \<open>A parameter of the query takes the place of the path's parameter of the same name.\<close>

theorem query_overrides_path:
  assumes "rq_params req = JObj ps" and "rq_query req = JObj qs" and "jwf qs"
  shows "json_get k (merged_input req) = (case jget qs k of Some v \<Rightarrow> Some v | None \<Rightarrow> jget ps k)"
  using assms by (simp add: merged_input_def json_get_def jget_assign_all)

theorem query_overrides_path_witness:
  "json_get ''id'' (merged_input \<lparr>rq_method = ''GET'', rq_path = ''/u/1'', rq_url = ''/u/1?id=2'', rq_headers = [], rq_query = JObj [(''id'', JStr ''2'')],
       rq_params = JObj [(''id'', JStr ''1'')], rq_body = None, rq_ip = None, rq_correlation = None, rq_tenant = None, rq_user = None\<rparr>) = Some (JStr ''2'')"
  by (subst query_overrides_path [where qs = "[(''id'', JStr ''2'')]"]) simp_all

section \<open>Validation and its answers\<close>

text \<open>
  An accepted body is replaced by what the validator made of it; a refused one is answered with 400,
  and the answer does not say which fields were wrong.
\<close>

theorem validated_or_refused:
  assumes "validate_body validator None req = (cs, req1)"
  shows "validator (rq_body req) = Inr (Valid d) \<Longrightarrow> cs = [CallNext None] \<and> rq_body req1 = Some d"
    and "validator (rq_body req) = Inr (Invalid es) \<Longrightarrow>
           req1 = req \<and> served logger cs req = [(400, Some (error_document (validation_error ''Request validation failed'' []) req))]"
proof -
  show "validator (rq_body req) = Inr (Valid d) \<Longrightarrow> cs = [CallNext None] \<and> rq_body req1 = Some d"
    using assms by (auto simp: validate_body_def validate_with_def)
  have same: "error_document (validation_error msg es) req = error_document (validation_error msg []) req"
    and status: "determine_status_code (validation_error msg es) = 400" for msg
    by (simp_all add: error_document_def validation_error_def determine_status_code_def error_status_map_def)
  show "validator (rq_body req) = Inr (Invalid es) \<Longrightarrow>
           req1 = req \<and> served logger cs req = [(400, Some (error_document (validation_error ''Request validation failed'' []) req))]"
    using assms same [of "''Request validation failed''"] status [of "''Request validation failed''"]
    by (auto simp: validate_body_def validate_with_def served_def error_handler_answers)
qed

theorem validated_or_refused_witness:
  "served True (fst (validate_body (\<lambda>_. Inr (Invalid [(''name'', ''missing'')])) None
      \<lparr>rq_method = ''POST'', rq_path = ''/'', rq_url = ''/'', rq_headers = [], rq_query = JObj [], rq_params = JObj [], rq_body = None,
       rq_ip = None, rq_correlation = None, rq_tenant = None, rq_user = None\<rparr>))
      \<lparr>rq_method = ''POST'', rq_path = ''/'', rq_url = ''/'', rq_headers = [], rq_query = JObj [], rq_params = JObj [], rq_body = None,
       rq_ip = None, rq_correlation = None, rq_tenant = None, rq_user = None\<rparr>
     = [(400, Some (error_document (validation_error ''Request validation failed'' [])
      \<lparr>rq_method = ''POST'', rq_path = ''/'', rq_url = ''/'', rq_headers = [], rq_query = JObj [], rq_params = JObj [], rq_body = None,
       rq_ip = None, rq_correlation = None, rq_tenant = None, rq_user = None\<rparr>))]"
  by (rule validated_or_refused(2) [THEN conjunct2, OF prod.collapse [symmetric]]) simp

text \<open>What a schema accepts as undefined is refused, with no reason.\<close>

theorem accepted_undefined_is_refused:
  assumes "sr_success (parse v)" and "sr_data (parse v) = None" and "sr_issues (parse v) = None"
  shows "zod_validator parse v = Inr (Invalid [])"
  using assms by (simp add: zod_validator_def Let_def)

theorem accepted_undefined_is_refused_witness:
  "zod_validator (\<lambda>_. \<lparr>sr_success = True, sr_data = None, sr_issues = None\<rparr>) None = Inr (Invalid [])"
  by (rule accepted_undefined_is_refused) simp_all

section \<open>Correlation and logs\<close>

definition set_headers :: "ex_call list \<Rightarrow> string list" where
  "set_headers cs = concat (map (\<lambda>c. case c of SetHeader h v \<Rightarrow> if h = ''X-Correlation-ID'' then [v] else [] | _ \<Rightarrow> []) cs)"

text \<open>
  The header of the answer is the identifier of the request; it is the one the client sent, unless
  that was blank, and what follows is called once, unless it throws.
\<close>

theorem correlation_kept:
  assumes "express_correlation logger fresh fallback next_throws req = (cs, req1)"
  shows "last (set_headers cs) = the (rq_correlation req1)"
    and "next_throws = None \<Longrightarrow> nexts cs = [None]"
    and "next_throws = None \<Longrightarrow> rq_correlation req1 =
           Some (case get_header ''x-correlation-id'' req of
                   Some s \<Rightarrow> if s = [] then fresh else if js_trim s = [] then fallback else s
                 | None \<Rightarrow> fresh)"
    and "next_throws = Some msg \<Longrightarrow> get_header ''x-correlation-id'' req = Some s \<Longrightarrow> js_trim s \<noteq> [] \<Longrightarrow>
           nexts cs = [None, None] \<and> rq_correlation req1 = Some fallback"
  using assms
  by (auto simp: express_correlation_def attach_correlation_def correlation_id_from_string_def Let_def set_headers_def js_trim_def
      split: option.splits if_splits sum.splits)

theorem correlation_kept_witness:
  "nexts (fst (express_correlation False ''f'' ''g'' None
      \<lparr>rq_method = ''GET'', rq_path = ''/'', rq_url = ''/'', rq_headers = [(''x-correlation-id'', Inl ''c'')], rq_query = JObj [], rq_params = JObj [],
       rq_body = None, rq_ip = None, rq_correlation = None, rq_tenant = None, rq_user = None\<rparr>)) = [None]"
  by (rule correlation_kept(2) [OF prod.collapse [symmetric]]) simp

text \<open>A body that is cut is logged as a text of bounded length, any other as it is.\<close>

theorem logged_body_bounded:
  assumes "max_size \<ge> 0"
  shows "body_logged num max_size body = body \<and> int (length (json_text num body)) \<le> max_size
    \<or> (\<exists>t. body_logged num max_size body = JStr (t @ ''... [truncated]'') \<and> int (length t) = max_size \<and> prefix t (json_text num body))"
  using assms by (auto simp: body_logged_def Let_def take_is_prefix intro!: exI [of _ "take (nat max_size) (json_text num body)"])

theorem logged_body_bounded_witness:
  "body_logged (\<lambda>_. ''0'') 5 (JStr ''a'') = JStr ''a'' \<and> int (length (json_text (\<lambda>_. ''0'') (JStr ''a''))) \<le> 5
    \<or> (\<exists>t. body_logged (\<lambda>_. ''0'') 5 (JStr ''a'') = JStr (t @ ''... [truncated]'') \<and> int (length t) = 5 \<and> prefix t (json_text (\<lambda>_. ''0'') (JStr ''a'')))"
  by (rule logged_body_bounded) simp

text \<open>The context of a use case never says who the user or the tenant is, except among its metadata.\<close>

theorem context_without_identity:
  "uc_tenant (context_from_request fresh req) = None \<and> uc_user (context_from_request fresh req) = None
   \<and> json_get ''tenantId'' (uc_metadata (context_from_request fresh req)) = map_option JStr (rq_tenant req)"
  by (auto simp: context_from_request_def json_get_def map_add_def jget_given split: option.split)

end
