(* ===== verification/Web_Fastify.thy ===== *)
theory Web_Fastify
  imports Json_Text Oauth Configuration
begin

text \<open>
  \<open>packages/web-fastify/src\<close>: the hooks and adapters for Fastify.

  A reply is the status and body sent; identifiers, times and results of use cases are arguments.  The
  bytes of a token are read as UTF-8 of characters with codes below 256.
\<close>

section \<open>Requests and hooks\<close>

record fastify_user =
  fu_id :: "json option"
  fu_tenant :: "string option"
  fu_roles :: "json list option"
  fu_permissions :: "json list option"

record fastify_request =
  fr_method :: string
  fr_url :: string
  fr_headers :: "(string, string + string list) jsmap"
  fr_params :: "json option"
  fr_query :: "json option"
  fr_body :: "json option"
  fr_user :: "fastify_user option"

definition text_header :: "string \<Rightarrow> fastify_request \<Rightarrow> string option" where
  "text_header h req = (case jget (fr_headers req) h of Some (Inl s) \<Rightarrow> Some s | _ \<Rightarrow> None)"

definition correlation_hook :: "string \<Rightarrow> string \<Rightarrow> fastify_request \<Rightarrow> (string \<times> string) \<times> fastify_request" where
  "correlation_hook header_name fresh req =
     (let cid = (case text_header header_name req of Some s \<Rightarrow> if length s > 0 then s else fresh | None \<Rightarrow> fresh)
      in ((header_name, cid), req\<lparr>fr_headers := jset header_name (Inl cid) (fr_headers req)\<rparr>))"

record logging_hook_options =
  lh_level :: string
  lh_request_body :: bool
  lh_exclude :: "string list"

definition logging_hook_defaults :: logging_hook_options where
  "logging_hook_defaults = \<lparr>lh_level = ''info'', lh_request_body = False, lh_exclude = [''/health'', ''/metrics'']\<rparr>"

definition header_json :: "string + string list \<Rightarrow> json" where
  "header_json v = (case v of Inl s \<Rightarrow> JStr s | Inr ss \<Rightarrow> JArr (map JStr ss))"

definition optional_member :: "string \<Rightarrow> json option \<Rightarrow> (string \<times> json) list" where
  "optional_member k v = (case v of None \<Rightarrow> [] | Some x \<Rightarrow> [(k, x)])"

definition request_log :: "logging_hook_options \<Rightarrow> fastify_request \<Rightarrow> (string \<times> string \<times> json) option" where
  "request_log opts req =
     (if fr_url req \<in> set (lh_exclude opts) then None
      else Some (lh_level opts, ''HTTP Request'',
        JObj ([(''httpMethod'', JStr (fr_method req)), (''path'', JStr (fr_url req))]
          @ optional_member ''correlationId'' (map_option header_json (jget (fr_headers req) ''x-correlation-id''))
          @ (if lh_request_body opts then optional_member ''body'' (fr_body req) else []))))"

definition response_log :: "logging_hook_options \<Rightarrow> int \<Rightarrow> int \<Rightarrow> int \<Rightarrow> fastify_request \<Rightarrow> (string \<times> string \<times> json) option" where
  "response_log opts start now status req =
     (if fr_url req \<in> set (lh_exclude opts) then None
      else Some (lh_level opts, ''HTTP Response'',
        JObj ([(''httpMethod'', JStr (fr_method req)), (''path'', JStr (fr_url req)), (''statusCode'', JNum (of_int status)),
               (''duration'', JNum (of_int (now - start)))]
          @ optional_member ''correlationId'' (map_option header_json (jget (fr_headers req) ''x-correlation-id'')))))"

section \<open>Errors\<close>

record fastify_error =
  fe_name :: string
  fe_message :: string
  fe_status :: "int option"
  fe_stack :: "string option"

definition mapped_error :: "fastify_error \<Rightarrow> int \<times> string \<times> string" where
  "mapped_error e =
     (let status = (case fe_status e of Some s \<Rightarrow> if s \<noteq> 0 then s else 500 | None \<Rightarrow> 500)
      in if fe_name e = ''ValidationError'' then (400, ''validation-error'', ''Validation Error'')
         else if fe_name e = ''DomainError'' then (422, ''domain-error'', ''Domain Error'')
         else if fe_status e = Some 404 then (status, ''not-found'', ''Not Found'')
         else (status, ''about:blank'', ''Internal Server Error''))"

definition error_hook :: "fastify_error \<Rightarrow> fastify_request \<Rightarrow> (string \<times> string \<times> json) \<times> (int \<times> json)" where
  "error_hook e req =
     (let (status, ptype, title) = mapped_error e;
          cid = optional_member ''correlationId'' (map_option header_json (jget (fr_headers req) ''x-correlation-id''))
      in ((if status \<ge> 500 then ''error'' else ''warn'', ''HTTP '' @ show_int status @ '' error: '' @ fe_message e,
           JObj (cid @ [(''statusCode'', JNum (of_int status)), (''error'', JStr (fe_message e))]
             @ optional_member ''stack'' (map_option JStr (fe_stack e)))),
          (status, JObj ([(''type'', JStr ptype), (''title'', JStr title), (''status'', JNum (of_int status)),
             (''detail'', JStr (fe_message e)), (''instance'', JStr (fr_url req))] @ cid))))"

section \<open>Controllers\<close>

type_synonym fastify_use_case = "json option \<Rightarrow> (fastify_error, fastify_error + json option) outcome"

definition fastify_run :: "int \<Rightarrow> bool \<Rightarrow> fastify_use_case \<Rightarrow> json option \<Rightarrow> (fastify_error, int \<times> json option) outcome" where
  "fastify_run status with_output use input =
     (case use input of
        Inl e \<Rightarrow> Inl e
      | Inr (Inl e) \<Rightarrow> Inl e
      | Inr (Inr out) \<Rightarrow> Inr (status, if with_output then out else None))"

definition object_fields :: "json option \<Rightarrow> (string, json) jsmap" where
  "object_fields v = (case v of Some (JObj fs) \<Rightarrow> fs | _ \<Rightarrow> [])"

definition fastify_adapt :: "fastify_use_case \<Rightarrow> fastify_request \<Rightarrow> (fastify_error, int \<times> json option) outcome" where
  "fastify_adapt use req = fastify_run 200 True use (fr_body req)"

definition fastify_adapt_command :: "fastify_use_case \<Rightarrow> fastify_request \<Rightarrow> (fastify_error, int \<times> json option) outcome" where
  "fastify_adapt_command use req = fastify_run 200 True use (fr_body req)"

definition fastify_adapt_query :: "fastify_use_case \<Rightarrow> fastify_request \<Rightarrow> (fastify_error, int \<times> json option) outcome" where
  "fastify_adapt_query use req =
     fastify_run 200 True use (Some (JObj (assign_all (assign_all [] (object_fields (fr_params req))) (object_fields (fr_query req)))))"

definition fastify_adapt_create :: "fastify_use_case \<Rightarrow> fastify_request \<Rightarrow> (fastify_error, int \<times> json option) outcome" where
  "fastify_adapt_create use req = fastify_run 201 True use (fr_body req)"

definition fastify_adapt_delete :: "fastify_use_case \<Rightarrow> fastify_request \<Rightarrow> (fastify_error, int \<times> json option) outcome" where
  "fastify_adapt_delete use req =
     fastify_run 204 False use (Some (JObj (assign_all [] (object_fields (fr_params req)))))"

section \<open>Users\<close>

definition string_member :: "string \<Rightarrow> json \<Rightarrow> string option" where
  "string_member k v = (case jfield v k of Some (JStr s) \<Rightarrow> Some s | _ \<Rightarrow> None)"

definition list_member :: "string \<Rightarrow> json \<Rightarrow> json list option" where
  "list_member k v = (case jfield v k of Some (JArr vs) \<Rightarrow> Some vs | _ \<Rightarrow> None)"

text \<open>Members of \<open>null\<close> throw, and the whole is caught.\<close>

definition user_of_payload :: "json \<Rightarrow> fastify_user option" where
  "user_of_payload payload =
     (if payload = JNull then None
      else Some \<lparr>fu_id = (case string_member ''sub'' payload of Some s \<Rightarrow> Some (JStr s) | None \<Rightarrow> jfield payload ''userId''),
             fu_tenant = string_member ''tenantId'' payload, fu_roles = list_member ''roles'' payload,
             fu_permissions = list_member ''permissions'' payload\<rparr>)"

definition user_from_jwt :: "(string \<Rightarrow> rat option) \<Rightarrow> string \<Rightarrow> fastify_user option" where
  "user_from_jwt rd token =
     (let parts = js_split CHR ''.'' token in
      if length parts \<noteq> 3 \<or> parts ! 1 = [] then None
      else Option.bind (json_parse rd (text_decode (from_base64 (parts ! 1)))) user_of_payload)"

definition bearer :: string where
  "bearer = ''Bearer ''"

definition extract_user_context :: "(string \<Rightarrow> rat option) \<Rightarrow> fastify_request \<Rightarrow> fastify_user option" where
  "extract_user_context rd req =
     (case text_header ''authorization'' req of
        Some a \<Rightarrow> if length a > 0 \<and> prefix bearer a then user_from_jwt rd (drop 7 a) else fr_user req
      | None \<Rightarrow> fr_user req)"

record fastify_context =
  fc_correlation :: "(string + string list) option"
  fc_tenant :: "(string + string list) option"
  fc_user :: "fastify_user option"

definition fastify_context_of :: "(string \<Rightarrow> rat option) \<Rightarrow> fastify_request \<Rightarrow> fastify_context" where
  "fastify_context_of rd req =
     \<lparr>fc_correlation = jget (fr_headers req) ''x-correlation-id'', fc_tenant = jget (fr_headers req) ''x-tenant-id'',
      fc_user = extract_user_context rd req\<rparr>"

section \<open>What they do\<close>

lemma update_twice: "AList.update k v (AList.update k v m) = AList.update k v m"
  by (induction m) auto

text \<open>The first of two hooks decides the identifier: a second one, or the answer, has the same.\<close>

theorem correlation_settles:
  assumes "correlation_hook h fresh req = (sent, req1)"
  shows "sent = (h, the (text_header h req1))"
    and "fresh \<noteq> [] \<Longrightarrow> snd sent \<noteq> []"
    and "snd sent \<noteq> [] \<Longrightarrow> correlation_hook h fresh2 req1 = (sent, req1)"
    and "text_header h req = Some s \<Longrightarrow> s \<noteq> [] \<Longrightarrow> snd sent = s"
proof -
  define cid where "cid = (case text_header h req of Some s \<Rightarrow> if length s > 0 then s else fresh | None \<Rightarrow> fresh)"
  have hook: "sent = (h, cid)" "req1 = req\<lparr>fr_headers := jset h (Inl cid) (fr_headers req)\<rparr>"
    using assms by (auto simp: correlation_hook_def cid_def Let_def)
  have header: "text_header h req1 = Some cid" by (simp add: text_header_def hook)
  show "sent = (h, the (text_header h req1))" by (simp add: header) (simp add: hook)
  show "fresh \<noteq> [] \<Longrightarrow> snd sent \<noteq> []" by (auto simp: hook cid_def split: option.split)
  have same: "jset h (Inl cid) (jset h (Inl cid) (fr_headers req)) = jset h (Inl cid) (fr_headers req)"
    by (simp add: update_twice)
  show "snd sent \<noteq> [] \<Longrightarrow> correlation_hook h fresh2 req1 = (sent, req1)"
    using header by (simp add: correlation_hook_def hook Let_def same)
  show "text_header h req = Some s \<Longrightarrow> s \<noteq> [] \<Longrightarrow> snd sent = s" by (simp add: hook cid_def)
qed

theorem correlation_settles_witness:
  "snd (fst (correlation_hook ''x'' ''f'' \<lparr>fr_method = ''GET'', fr_url = ''/'', fr_headers = [(''x'', Inl ''c'')], fr_params = None,
       fr_query = None, fr_body = None, fr_user = None\<rparr>)) = ''c''"
  by (rule correlation_settles(4) [OF prod.collapse [symmetric]]) (simp_all add: text_header_def)

lemma url_part_no_dot: "CHR ''.'' \<notin> set (base64_url_encode bs)"
  using base64_url_safe [of "CHR ''.''" bs] by (auto simp: url_safe_def)

lemma token_of_payload:
  assumes "CHR ''.'' \<notin> set a" and "CHR ''.'' \<notin> set c" and "t \<noteq> []"
  shows "user_from_jwt rd (a @ CHR ''.'' # base64_url_encode (text_encode t) @ CHR ''.'' # c) = Option.bind (json_parse rd t) user_of_payload"
proof -
  let ?part = "base64_url_encode (text_encode t)"
  have "text_encode t \<noteq> []" using assms(3) text_decode_encode [of t] by (auto simp: text_decode_def)
  then have "?part \<noteq> []" using from_base64_url [of "text_encode t"] by (auto simp: from_base64_def)
  moreover have "js_split CHR ''.'' (a @ CHR ''.'' # ?part @ CHR ''.'' # c) = [a, ?part, c]"
    using assms(1,2) url_part_no_dot by (simp add: js_split_at js_split_absent)
  ultimately show ?thesis by (simp add: user_from_jwt_def)
qed

definition forged_header :: "json \<Rightarrow> string" where
  "forged_header payload = bearer @ ''e30.'' @ base64_url_encode (text_encode (json_text (\<lambda>_. ''0'') payload)) @ ''.''"

text \<open>
  Anyone can be any user: for every identity, tenant and roles there is a header that gives them, with
  no key, and it goes before the user that an authentication plugin has set.
\<close>

theorem any_identity_can_be_claimed:
  "extract_user_context rd (req\<lparr>fr_headers := [(''authorization'', Inl (forged_header
      (JObj [(''sub'', JStr s), (''tenantId'', JStr t), (''roles'', JArr (map JStr rs))])))], fr_user := known\<rparr>) =
     Some \<lparr>fu_id = Some (JStr s), fu_tenant = Some t, fu_roles = Some (map JStr rs), fu_permissions = None\<rparr>"
proof -
  let ?payload = "JObj [(''sub'', JStr s), (''tenantId'', JStr t), (''roles'', JArr (map JStr rs))]"
  let ?text = "json_text (\<lambda>_. ''0'') ?payload"
  have "printable (\<lambda>_. ''0'') rd ?payload" by (simp add: list_all_iff)
  then have read: "json_parse rd ?text = Some ?payload" by (rule json_reads_back)
  have token: "drop 7 (forged_header ?payload) = ''e30'' @ CHR ''.'' # base64_url_encode (text_encode ?text) @ CHR ''.'' # []"
    unfolding forged_header_def bearer_def by (simp del: json_text.simps)
  have "?text \<noteq> []" by simp
  then have "user_from_jwt rd (drop 7 (forged_header ?payload)) = user_of_payload ?payload"
    unfolding token by (subst token_of_payload) (simp_all add: read del: json_text.simps)
  moreover have "prefix bearer (forged_header ?payload)" "forged_header ?payload \<noteq> []"
    by (simp_all add: forged_header_def bearer_def del: json_text.simps)
  ultimately have "extract_user_context rd (req\<lparr>fr_headers := [(''authorization'', Inl (forged_header ?payload))], fr_user := known\<rparr>) = user_of_payload ?payload"
    by (simp add: extract_user_context_def text_header_def del: json_text.simps)
  then show ?thesis by (simp add: user_of_payload_def string_member_def list_member_def)
qed

text \<open>Without such a header the user is the one that was set.\<close>

theorem user_without_token:
  assumes "case text_header ''authorization'' req of Some a \<Rightarrow> \<not> prefix bearer a | None \<Rightarrow> True"
  shows "fc_user (fastify_context_of rd req) = fr_user req"
  using assms by (auto simp: fastify_context_of_def extract_user_context_def split: option.splits)

theorem user_without_token_witness:
  "fc_user (fastify_context_of (\<lambda>_. None) (\<lparr>fr_method = ''GET'', fr_url = ''/'', fr_headers = [(''authorization'', Inl ''Basic YTpi'')], fr_params = None,
      fr_query = None, fr_body = None, fr_user = None\<rparr>)) = None"
  by (subst user_without_token) (simp_all add: text_header_def bearer_def)

text \<open>The correlation identifier of the hook is the one of the reply, the context and the documents of errors.\<close>

theorem correlation_through_request:
  assumes "correlation_hook ''x-correlation-id'' fresh req = (sent, req1)"
  shows "fc_correlation (fastify_context_of rd req1) = Some (Inl (snd sent))"
    and "jfield (snd (snd (error_hook e req1))) ''correlationId'' = Some (JStr (snd sent))"
  using assms by (auto simp: correlation_hook_def fastify_context_of_def error_hook_def Let_def optional_member_def header_json_def split: prod.splits)

theorem correlation_through_request_witness:
  "fc_correlation (fastify_context_of (\<lambda>_. None) (snd (correlation_hook ''x-correlation-id'' ''f'' \<lparr>fr_method = ''GET'', fr_url = ''/'', fr_headers = [],
      fr_params = None, fr_query = None, fr_body = None, fr_user = None\<rparr>)))
   = Some (Inl (snd (fst (correlation_hook ''x-correlation-id'' ''f'' \<lparr>fr_method = ''GET'', fr_url = ''/'', fr_headers = [],
      fr_params = None, fr_query = None, fr_body = None, fr_user = None\<rparr>))))"
  by (rule correlation_through_request(1) [OF prod.collapse [symmetric]])

text \<open>
  A failing use case is answered once, with the status that its error maps to: a validation error 400,
  a domain error 422, another the status it names; the message is shown, whatever the status.
\<close>

theorem failure_answered:
  assumes "fastify_adapt use req = Inl e"
  shows "use (fr_body req) = Inl e \<or> use (fr_body req) = Inr (Inl e)"
    and "fst (snd (error_hook e req)) = (if fe_name e = ''ValidationError'' then 400 else if fe_name e = ''DomainError'' then 422
           else case fe_status e of Some s \<Rightarrow> if s = 0 then 500 else s | None \<Rightarrow> 500)"
    and "jfield (snd (snd (error_hook e req))) ''detail'' = Some (JStr (fe_message e))"
    and "jfield (snd (snd (error_hook e req))) ''status'' = Some (JNum (of_int (fst (snd (error_hook e req)))))"
  using assms
  by (auto simp: fastify_adapt_def fastify_run_def error_hook_def mapped_error_def Let_def optional_member_def split: sum.splits option.splits prod.splits)

theorem failure_answered_witness:
  "fst (snd (error_hook \<lparr>fe_name = ''DomainError'', fe_message = ''m'', fe_status = None, fe_stack = None\<rparr>
      \<lparr>fr_method = ''GET'', fr_url = ''/'', fr_headers = [], fr_params = None, fr_query = None, fr_body = None, fr_user = None\<rparr>)) = 422"
  using failure_answered(2) [of "\<lambda>_. Inr (Inl \<lparr>fe_name = ''DomainError'', fe_message = ''m'', fe_status = None, fe_stack = None\<rparr>)"
      "\<lparr>fr_method = ''GET'', fr_url = ''/'', fr_headers = [], fr_params = None, fr_query = None, fr_body = None, fr_user = None\<rparr>"
      "\<lparr>fe_name = ''DomainError'', fe_message = ''m'', fe_status = None, fe_stack = None\<rparr>"]
  by (simp add: fastify_adapt_def fastify_run_def)

text \<open>An error of the client other than 404 has the title of an internal one.\<close>

theorem client_errors_called_internal:
  assumes "fe_name e \<notin> {''ValidationError'', ''DomainError''}" and "fe_status e = Some s" and "s \<noteq> 0" and "s \<noteq> 404"
  shows "mapped_error e = (s, ''about:blank'', ''Internal Server Error'')"
  using assms by (simp add: mapped_error_def)

theorem client_errors_called_internal_witness:
  "mapped_error \<lparr>fe_name = ''Error'', fe_message = ''no'', fe_status = Some 401, fe_stack = None\<rparr> = (401, ''about:blank'', ''Internal Server Error'')"
  by (rule client_errors_called_internal) simp_all

text \<open>A parameter of the query takes the place of the path's parameter of the same name.\<close>

theorem fastify_query_overrides_path:
  assumes "fr_params req = Some (JObj ps)" and "fr_query req = Some (JObj qs)" and "jwf ps" and "jwf qs"
    and "\<And>v. use v = Inr (Inr (Option.bind v (\<lambda>j. jfield j k)))"
  shows "fastify_adapt_query use req = Inr (200, case jget qs k of Some v \<Rightarrow> Some v | None \<Rightarrow> jget ps k)"
  using assms
  by (simp add: fastify_adapt_query_def fastify_run_def object_fields_def jget_assign_all jwf_assign_all split: option.split)

theorem fastify_query_overrides_path_witness:
  "fastify_adapt_query (\<lambda>v. Inr (Inr (Option.bind v (\<lambda>j. jfield j ''id''))))
     \<lparr>fr_method = ''GET'', fr_url = ''/u/1?id=2'', fr_headers = [], fr_params = Some (JObj [(''id'', JStr ''1'')]),
      fr_query = Some (JObj [(''id'', JStr ''2'')]), fr_body = None, fr_user = None\<rparr> = Inr (200, Some (JStr ''2''))"
  by (subst fastify_query_overrides_path [where k = "''id''" and ps = "[(''id'', JStr ''1'')]" and qs = "[(''id'', JStr ''2'')]"]) simp_all

end
