(* ===== verification/Web_Nest.thy ===== *)
theory Web_Nest
  imports Web_Express Web_Fastify Idempotency
begin

text \<open>
  \<open>packages/web-nestjs/src\<close>: the guards, interceptors and the pipe for NestJS.

  What a handler answers is the list of the values it emits and the error it ends with, if any.  The
  constructors of exceptions and the injected store belong to others: the store is a record of operations.
\<close>

section \<open>Guards\<close>

record rate_entry =
  rl_count :: int
  rl_reset :: int

record rate_guard =
  rg_store :: "(string, rate_entry) jsmap"
  rg_max :: int
  rg_window :: int

definition rate_guard_new :: "int option \<Rightarrow> int option \<Rightarrow> rate_guard" where
  "rate_guard_new m w = \<lparr>rg_store = [], rg_max = (case m of None \<Rightarrow> 100 | Some n \<Rightarrow> n), rg_window = (case w of None \<Rightarrow> 60000 | Some n \<Rightarrow> n)\<rparr>"

definition rate_key :: "string option \<Rightarrow> string option \<Rightarrow> string" where
  "rate_key user ip = (case user of Some u \<Rightarrow> u | None \<Rightarrow> (case ip of Some i \<Rightarrow> i | None \<Rightarrow> ''unknown''))"

text \<open>A refusal gives the seconds to wait.\<close>

definition rate_allow :: "int \<Rightarrow> string \<Rightarrow> rate_guard \<Rightarrow> (int, unit) outcome \<times> rate_guard" where
  "rate_allow now key g =
     (case jget (rg_store g) key of
        Some e \<Rightarrow>
          if now > rl_reset e
          then (Inr (), g\<lparr>rg_store := jset key \<lparr>rl_count = 1, rl_reset = now + rg_window g\<rparr> (rg_store g)\<rparr>)
          else if rl_count e \<ge> rg_max g then (Inl \<lceil>of_int (rl_reset e - now) / (1000 :: rat)\<rceil>, g)
          else (Inr (), g\<lparr>rg_store := jset key (e\<lparr>rl_count := rl_count e + 1\<rparr>) (rg_store g)\<rparr>)
      | None \<Rightarrow> (Inr (), g\<lparr>rg_store := jset key \<lparr>rl_count = 1, rl_reset = now + rg_window g\<rparr> (rg_store g)\<rparr>))"

definition idempotency_key_create :: "string \<Rightarrow> (js_error, string) outcome" where
  "idempotency_key_create value =
     (if value = [] \<or> length (js_trim value) = 0 then Inl (plain_error ''IdempotencyKey cannot be empty'') else Inr (js_trim value))"

definition idempotency_guard ::
  "('s, 'r) idempotency_ops \<Rightarrow> int \<Rightarrow> string option \<Rightarrow> 's \<Rightarrow> (js_error, string option) outcome" where
  "idempotency_guard ops now header s =
     (case header of
        None \<Rightarrow> Inr None
      | Some h \<Rightarrow>
          (case idempotency_key_create h of
             Inl e \<Rightarrow> Inl e
           | Inr k \<Rightarrow>
               (case io_get_result ops now k s of
                  Some _ \<Rightarrow> Inl (JsError ''ConflictException'' ''Request already processed with this idempotency key'')
                | None \<Rightarrow> Inr (Some k))))"

section \<open>Interceptors and the pipe\<close>

definition nest_correlation :: "string \<Rightarrow> string option \<Rightarrow> (js_error, string) outcome" where
  "nest_correlation fresh header = (case header of Some h \<Rightarrow> uuid_from_string h | None \<Rightarrow> Inr fresh)"

record nest_request =
  nr_method :: string
  nr_url :: string
  nr_correlation :: "string option"

type_synonym handled = "json option list \<times> http_error option"

definition nest_logging :: "int \<Rightarrow> (nat \<Rightarrow> int) \<Rightarrow> int \<Rightarrow> nest_request \<Rightarrow> handled \<Rightarrow> ex_call list" where
  "nest_logging start now status req h =
     (let cid = given ''correlationId'' JStr (nr_correlation req);
          base = [(''method'', JStr (nr_method req)), (''url'', JStr (nr_url req))]
      in LogCall ''info'' ''Incoming request'' (JObj (base @ cid))
         # map (\<lambda>(i, d). LogCall ''info'' ''Request completed'' (JObj (base @ [(''statusCode'', JNum (of_int status)),
               (''duration'', JNum (of_int (now i - start)))] @ cid @ [(''hasBody'', JBool (d \<noteq> None \<and> d \<noteq> Some JNull))]))) (enumerate 0 (fst h))
         @ (case snd h of None \<Rightarrow> []
            | Some e \<Rightarrow> [LogCall ''error'' ''Request failed''
                (JObj (base @ [(''duration'', JNum (of_int (now (length (fst h)) - start)))] @ cid))]))"

text \<open>An exception of the framework is an error with its status.\<close>

definition nest_problem :: "http_error \<Rightarrow> nest_request \<Rightarrow> int \<times> json" where
  "nest_problem e req =
     (let (kind, title, status) =
        (case he_status e of
           Some s \<Rightarrow> (''http-error'', he_message e, s)
         | None \<Rightarrow> if he_name e = ''ValidationError'' then (''validation-error'', ''Validation Failed'', 400)
                   else (''internal-error'', ''Internal Server Error'', 500))
      in (status, JObj [(''type'', JStr (''https://api.example.com/errors/'' @ kind)), (''title'', JStr title),
            (''status'', JNum (of_int status)), (''detail'', JStr (he_message e)), (''instance'', JStr (nr_url req))]))"

definition error_mapping :: "nest_request \<Rightarrow> handled \<Rightarrow> (int \<times> json) list \<times> handled" where
  "error_mapping req h = (case snd h of None \<Rightarrow> [] | Some e \<Rightarrow> [nest_problem e req], h)"

definition nest_validate :: "(json \<Rightarrow> (http_error, 'a) outcome) \<Rightarrow> json \<Rightarrow> (json, 'a) outcome" where
  "nest_validate validator v =
     (case validator v of
        Inr a \<Rightarrow> Inr a
      | Inl e \<Rightarrow> Inl (JObj ([(''statusCode'', JNum 400), (''message'', JStr (he_message e))]
            @ (if he_name e = ''ValidationError''
               then [(''errors'', JArr (map (\<lambda>(f, m). JObj [(''field'', JStr f), (''message'', JStr m)]) (he_details e)))] else []))))"

section \<open>Rates\<close>

fun rate_run :: "string \<Rightarrow> int list \<Rightarrow> rate_guard \<Rightarrow> bool list \<times> rate_guard" where
  "rate_run key [] g = ([], g)"
| "rate_run key (t # ts) g =
     (let (r, g1) = rate_allow t key g; (bs, g2) = rate_run key ts g1 in (is_returned r # bs, g2))"

lemma first_then_rest: "[0..<length (t # ts)] = 0 # map Suc [0..<length ts]"
  by (metis length_Cons map_Suc_upt upt_conv_Cons zero_less_Suc)

lemma rate_run_in_window:
  assumes "jget (rg_store g) key = Some \<lparr>rl_count = c, rl_reset = reset\<rparr>" and "\<forall>t \<in> set ts. t \<le> reset"
    and "c \<le> max 1 (rg_max g)" and "c \<ge> 1"
  shows "fst (rate_run key ts g) = map (\<lambda>i. int i + c < max 1 (rg_max g)) [0..<length ts]
    \<and> (\<exists>c1. jget (rg_store (snd (rate_run key ts g))) key = Some \<lparr>rl_count = c1, rl_reset = reset\<rparr> \<and> c1 \<le> max 1 (rg_max g))
    \<and> rg_max (snd (rate_run key ts g)) = rg_max g \<and> rg_window (snd (rate_run key ts g)) = rg_window g"
  using assms
proof (induction ts arbitrary: g c)
  case (Cons t ts)
  note shift = first_then_rest [of t ts]
  show ?case
  proof (cases "c \<ge> rg_max g")
    case True
    have refused: "\<not> int i + c < max 1 (rg_max g)" for i using Cons.prems(4) True by simp
    have "rate_allow t key g = (Inl \<lceil>of_int (reset - t) / (1000 :: rat)\<rceil>, g)"
      using Cons.prems(1,2) True by (simp add: rate_allow_def)
    then have run: "rate_run key (t # ts) g = (False # fst (rate_run key ts g), snd (rate_run key ts g))"
      by (simp only: rate_run.simps split_def Let_def fst_conv snd_conv is_returned_simps)
    have IH: "fst (rate_run key ts g) = map (\<lambda>i. int i + c < max 1 (rg_max g)) [0..<length ts]
      \<and> (\<exists>c1. jget (rg_store (snd (rate_run key ts g))) key = Some \<lparr>rl_count = c1, rl_reset = reset\<rparr> \<and> c1 \<le> max 1 (rg_max g))
      \<and> rg_max (snd (rate_run key ts g)) = rg_max g \<and> rg_window (snd (rate_run key ts g)) = rg_window g"
      by (rule Cons.IH) (use Cons.prems in simp_all)
    show ?thesis unfolding run shift fst_conv snd_conv using IH by (simp only: refused list.map map_map comp_def simp_thms)
  next
    case False
    let ?g = "g\<lparr>rg_store := jset key \<lparr>rl_count = c + 1, rl_reset = reset\<rparr> (rg_store g)\<rparr>"
    have "rate_allow t key g = (Inr (), ?g)" using Cons.prems False by (simp add: rate_allow_def)
    then have run: "rate_run key (t # ts) g = (True # fst (rate_run key ts ?g), snd (rate_run key ts ?g))"
      by (simp only: rate_run.simps split_def Let_def fst_conv snd_conv is_returned_simps)
    have IH: "fst (rate_run key ts ?g) = map (\<lambda>i. int i + (c + 1) < max 1 (rg_max ?g)) [0..<length ts]
      \<and> (\<exists>c1. jget (rg_store (snd (rate_run key ts ?g))) key = Some \<lparr>rl_count = c1, rl_reset = reset\<rparr> \<and> c1 \<le> max 1 (rg_max ?g))
      \<and> rg_max (snd (rate_run key ts ?g)) = rg_max ?g \<and> rg_window (snd (rate_run key ts ?g)) = rg_window ?g"
      by (rule Cons.IH) (use Cons.prems False in simp_all)
    have "(True # map (\<lambda>i. int i + (c + 1) < max 1 (rg_max g)) [0..<length ts]) = map (\<lambda>i. int i + c < max 1 (rg_max g)) (0 # map Suc [0..<length ts])"
      using False Cons.prems(4) by (simp add: comp_def algebra_simps)
    then show ?thesis unfolding run shift fst_conv snd_conv using IH by simp
  qed
qed simp

definition window_open :: "int \<Rightarrow> string \<Rightarrow> rate_guard \<Rightarrow> bool" where
  "window_open t key g \<longleftrightarrow> (case jget (rg_store g) key of None \<Rightarrow> True | Some e \<Rightarrow> t > rl_reset e)"

text \<open>
  Of the requests of one key in a window the first are allowed, as many as the limit, or one, and the
  others refused.
\<close>

theorem window_allows_limit:
  assumes "window_open t key g" and "\<forall>u \<in> set ts. u \<le> t + rg_window g"
  shows "fst (rate_run key (t # ts) g) = map (\<lambda>i. int i < max 1 (rg_max g)) [0..<length (t # ts)]"
proof -
  let ?g = "g\<lparr>rg_store := jset key \<lparr>rl_count = 1, rl_reset = t + rg_window g\<rparr> (rg_store g)\<rparr>"
  have first: "rate_allow t key g = (Inr (), ?g)"
    using assms(1) by (auto simp: window_open_def rate_allow_def split: option.splits)
  then have run: "rate_run key (t # ts) g = (True # fst (rate_run key ts ?g), snd (rate_run key ts ?g))"
    by (simp only: rate_run.simps split_def Let_def fst_conv snd_conv is_returned_simps)
  have "fst (rate_run key ts ?g) = map (\<lambda>i. int i + 1 < max 1 (rg_max ?g)) [0..<length ts]"
    by (rule rate_run_in_window [THEN conjunct1, of ?g key 1 "t + rg_window g"]) (use assms(2) in simp_all)
  then have rest: "fst (rate_run key ts ?g) = map (\<lambda>i. int i + 1 < max 1 (rg_max g)) [0..<length ts]" by simp
  show ?thesis unfolding run first_then_rest fst_conv rest by (simp add: comp_def algebra_simps)
qed

theorem window_allows_limit_witness:
  "fst (rate_run ''k'' (0 # [5, 60000]) (rate_guard_new (Some 2) None)) = map (\<lambda>i. int i < max 1 2) [0..<length (0 # [5, 60000 :: int])]"
  using window_allows_limit [of 0 "''k''" "rate_guard_new (Some 2) None" "[5, 60000]"] by (simp add: window_open_def rate_guard_new_def)

text \<open>The requests of one key say nothing about another.\<close>

theorem keys_do_not_interfere:
  assumes "k \<noteq> key"
  shows "fst (rate_allow t k (snd (rate_allow u key g))) = fst (rate_allow t k g)"
  using assms by (auto simp: rate_allow_def split: option.splits)

theorem keys_do_not_interfere_witness:
  "fst (rate_allow 1 ''b'' (snd (rate_allow 0 ''a'' (rate_guard_new (Some 1) None)))) = fst (rate_allow 1 ''b'' (rate_guard_new (Some 1) None))"
  by (rule keys_do_not_interfere) simp

text \<open>Around the end of a window twice the limit is allowed within two milliseconds.\<close>

theorem double_burst:
  assumes "rg_max g = int m" and "m \<ge> 1" and "rg_window g \<ge> 0" and "window_open t key g"
  shows "filter id (fst (rate_run key (t # replicate (m - 1) (t + rg_window g)) g)) = replicate m True"
    and "window_open (t + rg_window g + 1) key (snd (rate_run key (t # replicate (m - 1) (t + rg_window g)) g))"
proof -
  let ?ts = "replicate (m - 1) (t + rg_window g)"
  have "fst (rate_run key (t # ?ts) g) = map (\<lambda>i. int i < max 1 (rg_max g)) [0..<length (t # ?ts)]"
    by (rule window_allows_limit [OF assms(4)]) simp
  also have "\<dots> = replicate m True" using assms(1,2) by (intro nth_equalityI) auto
  finally show "filter id (fst (rate_run key (t # ?ts) g)) = replicate m True" by simp
  let ?g = "g\<lparr>rg_store := jset key \<lparr>rl_count = 1, rl_reset = t + rg_window g\<rparr> (rg_store g)\<rparr>"
  have first: "rate_allow t key g = (Inr (), ?g)"
    using assms(4) by (auto simp: window_open_def rate_allow_def split: option.splits)
  have "\<exists>c1. jget (rg_store (snd (rate_run key ?ts ?g))) key = Some \<lparr>rl_count = c1, rl_reset = t + rg_window g\<rparr> \<and> c1 \<le> max 1 (rg_max ?g)"
    using rate_run_in_window [of ?g key 1 "t + rg_window g" ?ts] by simp
  then show "window_open (t + rg_window g + 1) key (snd (rate_run key (t # ?ts) g))"
    by (auto simp: first split_def Let_def window_open_def)
qed

theorem double_burst_witness:
  "filter id (fst (rate_run ''k'' (0 # replicate (3 - 1) (0 + rg_window (rate_guard_new (Some (int 3)) None))) (rate_guard_new (Some (int 3)) None))) = replicate 3 True"
  by (rule double_burst(1)) (simp_all add: rate_guard_new_def window_open_def)

text \<open>A client that waits as told is refused once more when the rest of the window is a whole number of seconds.\<close>

theorem waited_and_refused:
  assumes "jget (rg_store g) key = Some e" and "rl_count e \<ge> rg_max g" and "rl_reset e = now + 1000 * s" and "s \<ge> 0"
  shows "fst (rate_allow now key g) = Inl s" and "fst (rate_allow (now + 1000 * s) key g) = Inl 0"
  using assms by (simp_all add: rate_allow_def)

theorem waited_and_refused_witness:
  "fst (rate_allow 0 ''k'' \<lparr>rg_store = [(''k'', \<lparr>rl_count = 5, rl_reset = 0 + 1000 * 60\<rparr>)], rg_max = 5, rg_window = 60000\<rparr>) = Inl 60"
  by (rule waited_and_refused(1) [where e = "\<lparr>rl_count = 5, rl_reset = 0 + 1000 * 60\<rparr>"]) simp_all

section \<open>Requests processed before\<close>

text \<open>
  The guard refuses a key whose result is stored; it stores and locks nothing itself, so that two
  requests with one key both pass until the first result is there.
\<close>

theorem guard_only_looks:
  assumes "js_trim h \<noteq> []" and "h \<noteq> []"
  shows "io_get_result ops now (js_trim h) s = None \<Longrightarrow>
           idempotency_guard ops now (Some h) s = Inr (Some (js_trim h)) \<and> idempotency_guard ops now (Some (js_trim h)) s = Inr (Some (js_trim h))"
    and "io_get_result ops now (js_trim h) s = Some r \<Longrightarrow>
           idempotency_guard ops now (Some h) s = Inl (JsError ''ConflictException'' ''Request already processed with this idempotency key'')"
  using assms by (simp_all add: idempotency_guard_def idempotency_key_create_def)

theorem guard_only_looks_witness:
  "idempotency_guard mem_idempotency_ops 0 (Some ''k'') [] = (Inr (Some ''k'') :: (js_error, string option) outcome)"
  using guard_only_looks(1) [of "''k''" "mem_idempotency_ops :: (nat idempotency_store, nat) idempotency_ops" 0 "[]"]
  by (simp add: js_trim_def is_js_space_def mem_idempotency_ops_def mem_get_result_def idempotency_guard_def idempotency_key_create_def)

section \<open>The three frameworks\<close>

definition fastify_view :: "http_error \<Rightarrow> fastify_error" where
  "fastify_view e = \<lparr>fe_name = he_name e, fe_message = he_message e, fe_status = he_status_code e, fe_stack = he_stack e\<rparr>"

text \<open>A validation error is answered with 400 in each framework; an entity not found with 404 in Express alone.\<close>

theorem frameworks_statuses:
  assumes "he_status e = None" and "he_status_code e = None"
  shows "he_name e = ''ValidationError'' \<Longrightarrow>
           determine_status_code e = 400 \<and> fst (mapped_error (fastify_view e)) = 400 \<and> fst (nest_problem e req) = 400"
    and "he_name e = ''NotFoundError'' \<Longrightarrow>
           determine_status_code e = 404 \<and> fst (mapped_error (fastify_view e)) = 500 \<and> fst (nest_problem e req) = 500"
    and "he_name e = ''DomainError'' \<Longrightarrow>
           determine_status_code e = 500 \<and> fst (mapped_error (fastify_view e)) = 422 \<and> fst (nest_problem e req) = 500"
  using assms by (simp_all add: determine_status_code_def error_status_map_def mapped_error_def fastify_view_def nest_problem_def)

theorem frameworks_statuses_witness:
  "determine_status_code (thrown_error (JsError ''NotFoundError'' ''m'')) = 404
   \<and> fst (mapped_error (fastify_view (thrown_error (JsError ''NotFoundError'' ''m'')))) = 500
   \<and> fst (nest_problem (thrown_error (JsError ''NotFoundError'' ''m'')) \<lparr>nr_method = ''GET'', nr_url = ''/'', nr_correlation = None\<rparr>) = 500"
  by (rule frameworks_statuses(2)) (simp_all add: thrown_error_def)

text \<open>An identifier that is no UUID makes the request fail, where Express and Fastify pass it on.\<close>

theorem correlation_must_be_uuid:
  assumes "\<not> uuid_is_valid s" and "js_trim s \<noteq> []" and "s \<noteq> []"
  shows "\<exists>err. nest_correlation fresh (Some s) = Inl err"
    and "get_header ''x-correlation-id'' req = Some s \<Longrightarrow> rq_correlation (snd (express_correlation l fresh fallback None req)) = Some s"
    and "text_header ''x-correlation-id'' freq = Some s \<Longrightarrow> snd (fst (correlation_hook ''x-correlation-id'' fresh freq)) = s"
  using assms
  by (auto simp: nest_correlation_def uuid_from_string_def express_correlation_def attach_correlation_def correlation_id_from_string_def
      correlation_hook_def Let_def js_trim_def split: sum.splits)

theorem correlation_must_be_uuid_witness: "\<exists>err. nest_correlation ''f'' (Some ''abc'') = Inl err"
  by (rule correlation_must_be_uuid(1)) (simp_all add: uuid_is_valid_def matches_pattern_iff uuid_pattern_def js_trim_def is_js_space_def)

text \<open>Every error is answered with a document and passed on; every value is let through.\<close>

theorem mapped_and_passed_on:
  "snd (error_mapping req h) = h"
  "length (fst (error_mapping req h)) = (if snd h = None then 0 else 1)"
  "list_all (\<lambda>(s, d). jfield d ''status'' = Some (JNum (of_int s))) (fst (error_mapping req h))"
  by (auto simp: error_mapping_def nest_problem_def Let_def split: option.splits prod.splits)

end
