(* ===== verification/Graphql.thy ===== *)
theory Graphql
  imports Json Csp "HOL-Library.Multiset"
begin

text \<open>
  \<open>packages/web-graphql/src\<close>: the batching loader, operations and subscriptions, problem details, schema fragments.

  Promises that wait for a value are numbered; what they were settled with is a list.  The batch
  function's replies come as events, in any order; resolvers and handlers are arguments.
\<close>

section \<open>The loader\<close>

record ('k, 'v) data_loader =
  dl_cache :: "('k, 'v) jsmap"
  dl_queue :: "('k \<times> nat) list"
  dl_scheduled :: bool
  dl_flights :: "('k \<times> nat) list list"
  dl_settled :: "(nat \<times> (js_error, 'v) outcome) list"

definition loader_new :: "('k, 'v) data_loader" where
  "loader_new = \<lparr>dl_cache = [], dl_queue = [], dl_scheduled = False, dl_flights = [], dl_settled = []\<rparr>"

text \<open>The batches in flight keep their places; one that was answered is empty.\<close>

definition loader_load :: "'k \<Rightarrow> nat \<Rightarrow> ('k, 'v) data_loader \<Rightarrow> ('k, 'v) data_loader" where
  "loader_load k w s =
     (case jget (dl_cache s) k of
        Some v \<Rightarrow> s\<lparr>dl_settled := dl_settled s @ [(w, Inr v)]\<rparr>
      | None \<Rightarrow> s\<lparr>dl_queue := dl_queue s @ [(k, w)], dl_scheduled := True\<rparr>)"

definition loader_flush :: "('k, 'v) data_loader \<Rightarrow> ('k, 'v) data_loader" where
  "loader_flush s =
     (if dl_scheduled s then s\<lparr>dl_queue := [], dl_scheduled := False, dl_flights := dl_flights s @ [dl_queue s]\<rparr> else s)"

definition resolve_entry :: "'k \<times> nat \<Rightarrow> (js_error, 'v) outcome \<Rightarrow> ('k, 'v) data_loader \<Rightarrow> ('k, 'v) data_loader" where
  "resolve_entry entry r s =
     (case r of
        Inl e \<Rightarrow> s\<lparr>dl_settled := dl_settled s @ [(snd entry, Inl e)]\<rparr>
      | Inr v \<Rightarrow> s\<lparr>dl_cache := jset (fst entry) v (dl_cache s), dl_settled := dl_settled s @ [(snd entry, Inr v)]\<rparr>)"

text \<open>A result that is undefined, or missing at the end, is passed over.\<close>

fun dispatch_results ::
  "('k \<times> nat) list \<Rightarrow> (js_error, 'v) outcome option list \<Rightarrow> ('k, 'v) data_loader \<Rightarrow> ('k, 'v) data_loader" where
  "dispatch_results (entry # batch) (r # rs) s =
     dispatch_results batch rs (case r of None \<Rightarrow> s | Some x \<Rightarrow> resolve_entry entry x s)"
| "dispatch_results batch rs s = s"

definition loader_reply :: "nat \<Rightarrow> (js_error, 'v) outcome option list \<Rightarrow> ('k, 'v) data_loader \<Rightarrow> ('k, 'v) data_loader" where
  "loader_reply i rs s =
     (if i < length (dl_flights s)
      then dispatch_results (dl_flights s ! i) rs (s\<lparr>dl_flights := (dl_flights s)[i := []]\<rparr>) else s)"

text \<open>When the batch function rejects, \<open>flush\<close> rejects, and nobody waits for it.\<close>

definition loader_reject :: "nat \<Rightarrow> ('k, 'v) data_loader \<Rightarrow> ('k, 'v) data_loader" where
  "loader_reject i s = s\<lparr>dl_flights := (dl_flights s)[i := []]\<rparr>"

definition loader_prime :: "'k \<Rightarrow> 'v \<Rightarrow> ('k, 'v) data_loader \<Rightarrow> ('k, 'v) data_loader" where
  "loader_prime k v s = s\<lparr>dl_cache := jset k v (dl_cache s)\<rparr>"

definition loader_clear :: "('k, 'v) data_loader \<Rightarrow> ('k, 'v) data_loader" where
  "loader_clear s = s\<lparr>dl_cache := []\<rparr>"

datatype ('k, 'v) loader_event =
    Load 'k nat | Flush | Reply nat "(js_error, 'v) outcome option list" | Reject nat | Prime 'k 'v | ClearLoader

fun loader_step :: "('k, 'v) data_loader \<Rightarrow> ('k, 'v) loader_event \<Rightarrow> ('k, 'v) data_loader" where
  "loader_step s (Load k w) = loader_load k w s"
| "loader_step s Flush = loader_flush s"
| "loader_step s (Reply i rs) = loader_reply i rs s"
| "loader_step s (Reject i) = loader_reject i s"
| "loader_step s (Prime k v) = loader_prime k v s"
| "loader_step s ClearLoader = loader_clear s"

definition load_all :: "('k \<times> nat) list \<Rightarrow> ('k, 'v) data_loader \<Rightarrow> ('k, 'v) data_loader" where
  "load_all kws s = foldl (\<lambda>s (k, w). loader_load k w s) s kws"

section \<open>Operations and subscriptions\<close>

datatype operation_type = Query | Mutation

record gql_context =
  gc_request_id :: string
  gc_user :: "string option"
  gc_tenant :: "string option"

type_synonym resolver = "json \<Rightarrow> json \<Rightarrow> gql_context \<Rightarrow> (js_error, json) outcome"

record operation =
  op_type :: operation_type
  op_name :: string
  op_handler :: resolver

type_synonym operation_registry = "(string, operation) jsmap"

definition register_operation :: "operation \<Rightarrow> operation_registry \<Rightarrow> operation_registry" where
  "register_operation r m = jset (op_name r) r m"

definition register_all :: "operation list \<Rightarrow> operation_registry \<Rightarrow> operation_registry" where
  "register_all rs m = foldl (\<lambda>m r. register_operation r m) m rs"

definition unregister_operation :: "string \<Rightarrow> operation_registry \<Rightarrow> operation_registry" where
  "unregister_operation n m = jdelete n m"

definition operations_by_type :: "operation_type \<Rightarrow> operation_registry \<Rightarrow> operation list" where
  "operations_by_type t m = filter (\<lambda>r. op_type r = t) (jvalues m)"

record gql_request =
  gr_query :: string
  gr_operation :: "string option"
  gr_variables :: "json option"

definition word_char :: "char \<Rightarrow> bool" where
  "word_char c = (let n = (of_char c :: nat) in (48 \<le> n \<and> n \<le> 57) \<or> (65 \<le> n \<and> n \<le> 90) \<or> (97 \<le> n \<and> n \<le> 122) \<or> n = 95)"

definition name_after :: "string \<Rightarrow> string \<Rightarrow> string option" where
  "name_after keyword s =
     (if \<not> prefix keyword s then None
      else let r = drop (length keyword) s; q = dropWhile is_js_space r; n = takeWhile word_char q
           in if q = r \<or> n = [] then None else Some n)"

definition first_some :: "'a option \<Rightarrow> 'a option \<Rightarrow> 'a option" where
  "first_some a b = (case a of None \<Rightarrow> b | Some x \<Rightarrow> Some x)"

fun operation_name_rx :: "string \<Rightarrow> string option" where
  "operation_name_rx [] = None"
| "operation_name_rx (c # s) =
     first_some (name_after ''query'' (c # s))
       (first_some (name_after ''mutation'' (c # s)) (first_some (name_after ''subscription'' (c # s)) (operation_name_rx s)))"

definition resolve_operation_name :: "gql_request \<Rightarrow> string option" where
  "resolve_operation_name r = first_some (gr_operation r) (operation_name_rx (gr_query r))"

definition error_response :: "string \<Rightarrow> json" where
  "error_response msg = JObj [(''data'', JNull), (''errors'', JArr [JObj [(''message'', JStr msg)]])]"

definition data_response :: "string \<Rightarrow> json \<Rightarrow> json" where
  "data_response name v = JObj [(''data'', JObj [(name, v)])]"

definition quoted_name :: "string \<Rightarrow> string" where
  "quoted_name n = CHR 0x22 # n @ [CHR 0x22]"

definition gql_execute :: "operation_registry \<Rightarrow> gql_request \<Rightarrow> gql_context \<Rightarrow> json" where
  "gql_execute m r ctx =
     (case resolve_operation_name r of
        None \<Rightarrow> error_response ''Could not determine operation name''
      | Some n \<Rightarrow>
          (case jget m n of
             None \<Rightarrow> error_response (''Operation '' @ quoted_name n @ '' not found'')
           | Some reg \<Rightarrow>
               (case op_handler reg (JObj []) (case gr_variables r of None \<Rightarrow> JObj [] | Some v \<Rightarrow> v) ctx of
                  Inr v \<Rightarrow> data_response (op_name reg) v
                | Inl e \<Rightarrow> error_response (error_message e))))"

type_synonym gql_subscriptions = "(string, nat list) jsmap"

definition gql_subscribe :: "string \<Rightarrow> nat \<Rightarrow> gql_subscriptions \<Rightarrow> gql_subscriptions" where
  "gql_subscribe topic h m = jset topic (set_add h (elems m topic)) m"

definition gql_unsubscribe :: "string \<Rightarrow> nat \<Rightarrow> gql_subscriptions \<Rightarrow> gql_subscriptions" where
  "gql_unsubscribe topic h m = (case jget m topic of None \<Rightarrow> m | Some hs \<Rightarrow> jset topic (set_remove h hs) m)"

text \<open>The handlers that were called, and what one threw; \<open>throws\<close> tells of a handler what it throws.\<close>

fun call_each :: "(nat \<Rightarrow> js_error option) \<Rightarrow> nat list \<Rightarrow> nat list \<times> js_error option" where
  "call_each throws [] = ([], None)"
| "call_each throws (h # hs) =
     (case throws h of Some e \<Rightarrow> ([h], Some e) | None \<Rightarrow> (let (called, e) = call_each throws hs in (h # called, e)))"

definition gql_publish :: "(nat \<Rightarrow> js_error option) \<Rightarrow> string \<Rightarrow> gql_subscriptions \<Rightarrow> nat list \<times> js_error option" where
  "gql_publish throws topic m = (case jget m topic of None \<Rightarrow> ([], None) | Some hs \<Rightarrow> call_each throws hs)"

section \<open>Problem details\<close>

record problem_override =
  po_type :: "string option"
  po_title :: "string option"
  po_status :: "int option"
  po_detail :: "string option"
  po_instance :: "string option"

definition no_override :: problem_override where
  "no_override = \<lparr>po_type = None, po_title = None, po_status = None, po_detail = None, po_instance = None\<rparr>"

definition status_title :: "int \<Rightarrow> string" where
  "status_title s =
     (case jget [(400, ''Bad Request''), (401, ''Unauthorized''), (403, ''Forbidden''), (404, ''Not Found''), (409, ''Conflict''),
         (422, ''Unprocessable Entity''), (500, ''Internal Server Error''), (503, ''Service Unavailable'')] s of
        Some t \<Rightarrow> t | None \<Rightarrow> ''Error'')"

definition or_else :: "'a option \<Rightarrow> 'a \<Rightarrow> 'a" where
  "or_else x d = (case x of Some v \<Rightarrow> v | None \<Rightarrow> d)"

definition text_members :: "string \<Rightarrow> string option \<Rightarrow> (string \<times> json) list" where
  "text_members k v = (case v of None \<Rightarrow> [] | Some s \<Rightarrow> [(k, JStr s)])"

definition format_problem :: "string \<Rightarrow> string \<Rightarrow> int \<Rightarrow> problem_override \<Rightarrow> json" where
  "format_problem default_type message status o1 =
     JObj [(''message'', JStr message),
           (''extensions'', JObj ([(''type'', JStr (or_else (po_type o1) default_type)),
              (''title'', JStr (or_else (po_title o1) (status_title status))),
              (''status'', JNum (of_int (or_else (po_status o1) status)))]
              @ text_members ''detail'' (po_detail o1) @ text_members ''instance'' (po_instance o1)))]"

definition format_validation :: "string \<Rightarrow> string \<Rightarrow> string option \<Rightarrow> json" where
  "format_validation d message detail =
     format_problem d message 400 (no_override\<lparr>po_type := Some ''https://problems.example.com/validation-error'',
       po_title := Some ''Validation Error'', po_detail := detail\<rparr>)"

definition format_not_found :: "string \<Rightarrow> string \<Rightarrow> json" where
  "format_not_found d resource =
     format_problem d (resource @ '' not found'') 404 (no_override\<lparr>po_type := Some ''https://problems.example.com/not-found'',
       po_title := Some ''Not Found'', po_detail := Some (''The requested '' @ resource @ '' could not be found.'')\<rparr>)"

definition format_unauthorized :: "string \<Rightarrow> string option \<Rightarrow> json" where
  "format_unauthorized d detail =
     format_problem d ''Unauthorized'' 401 (no_override\<lparr>po_type := Some ''https://problems.example.com/unauthorized'',
       po_title := Some ''Unauthorized'', po_detail := detail\<rparr>)"

section \<open>Schema fragments\<close>

record sdl_fragment =
  sf_name :: string
  sf_sdl :: string

type_synonym schema_registry = "(string, sdl_fragment) jsmap"

definition schema_error :: "string \<Rightarrow> string \<Rightarrow> js_error" where
  "schema_error n reason = JsError ''GraphQLSchemaError'' (''Schema error in fragment '' @ quoted_name n @ '': '' @ reason)"

definition validate_fragment :: "sdl_fragment \<Rightarrow> (js_error, unit) outcome" where
  "validate_fragment f =
     (if length (js_trim (sf_name f)) = 0 then Inl (schema_error (sf_name f) ''fragment name must not be empty'')
      else if length (js_trim (sf_sdl f)) = 0 then Inl (schema_error (sf_name f) ''SDL must not be empty'') else Inr ())"

definition register_fragment :: "sdl_fragment \<Rightarrow> schema_registry \<Rightarrow> (js_error, schema_registry) outcome" where
  "register_fragment f m =
     (case validate_fragment f of
        Inl e \<Rightarrow> Inl e
      | Inr _ \<Rightarrow>
          if jhas m (sf_name f)
          then Inl (JsError ''GraphQLFragmentAlreadyRegisteredError'' (''Schema fragment '' @ quoted_name (sf_name f) @ '' is already registered''))
          else Inr (jset (sf_name f) f m))"

definition upsert_fragment :: "sdl_fragment \<Rightarrow> schema_registry \<Rightarrow> (js_error, schema_registry) outcome" where
  "upsert_fragment f m = (case validate_fragment f of Inl e \<Rightarrow> Inl e | Inr _ \<Rightarrow> Inr (jset (sf_name f) f m))"

definition remove_fragment :: "string \<Rightarrow> schema_registry \<Rightarrow> schema_registry" where
  "remove_fragment n m = jdelete n m"

definition full_schema :: "schema_registry \<Rightarrow> string" where
  "full_schema m = join_text [CHR 0x0A, CHR 0x0A] (map sf_sdl (jvalues m))"

section \<open>Every load is settled, once\<close>

lemma load_all_uncached:
  assumes "\<forall>(k, w) \<in> set kws. jget (dl_cache s) k = None" and "kws \<noteq> []"
  shows "load_all kws s = s\<lparr>dl_queue := dl_queue s @ kws, dl_scheduled := True\<rparr>"
  using assms
proof (induction kws arbitrary: s)
  case (Cons e kws)
  obtain k w where e: "e = (k, w)" by (rule prod.exhaust)
  let ?s = "s\<lparr>dl_queue := dl_queue s @ [(k, w)], dl_scheduled := True\<rparr>"
  have load: "loader_load k w s = ?s" using Cons.prems by (simp add: loader_load_def e)
  show ?case
  proof (cases "kws = []")
    case True
    then show ?thesis by (simp add: load_all_def e load)
  next
    case False
    then have "load_all kws ?s = ?s\<lparr>dl_queue := dl_queue ?s @ kws, dl_scheduled := True\<rparr>"
      by (intro Cons.IH) (use Cons.prems in auto)
    then show ?thesis by (simp add: load_all_def e load)
  qed
qed simp

lemma dispatch_each:
  "dl_settled (dispatch_results batch (map (\<lambda>(k, w). Some (r k)) batch) s) = dl_settled s @ map (\<lambda>(k, w). (w, r k)) batch"
  by (induction batch arbitrary: s) (auto simp: resolve_entry_def split: sum.split)

text \<open>
  The loads of one tick make one call of the batch function, with their keys in order, and each promise
  is settled with the result, or the error, of its own key.
\<close>

theorem tick_makes_one_batch:
  assumes "\<forall>(k, w) \<in> set kws. jget (dl_cache s) k = None" and "kws \<noteq> []" and "dl_queue s = []"
  defines "s1 \<equiv> loader_flush (load_all kws s)"
  shows "dl_flights s1 = dl_flights s @ [kws]" and "dl_queue s1 = [] \<and> \<not> dl_scheduled s1"
    and "dl_settled (loader_reply (length (dl_flights s)) (map (\<lambda>(k, w). Some (r k)) kws) s1) = dl_settled s @ map (\<lambda>(k, w). (w, r k)) kws"
proof -
  have s1: "s1 = s\<lparr>dl_queue := [], dl_scheduled := False, dl_flights := dl_flights s @ [kws]\<rparr>"
    unfolding s1_def load_all_uncached [OF assms(1,2)] using assms(3) by (simp add: loader_flush_def)
  show "dl_flights s1 = dl_flights s @ [kws]" and "dl_queue s1 = [] \<and> \<not> dl_scheduled s1" by (simp_all add: s1)
  show "dl_settled (loader_reply (length (dl_flights s)) (map (\<lambda>(k, w). Some (r k)) kws) s1) = dl_settled s @ map (\<lambda>(k, w). (w, r k)) kws"
    by (simp add: loader_reply_def s1 nth_append dispatch_each)
qed

theorem tick_makes_one_batch_witness:
  "dl_settled (loader_reply (length (dl_flights (loader_new :: (string, nat) data_loader))) (map (\<lambda>(k, w). Some (Inr (length k))) [(''a'', 1), (''bc'', 2)])
       (loader_flush (load_all [(''a'', 1), (''bc'', 2)] loader_new)))
     = dl_settled (loader_new :: (string, nat) data_loader) @ map (\<lambda>(k, w). (w, Inr (length k))) [(''a'', 1), (''bc'', 2)]"
  using tick_makes_one_batch(3) [of "[(''a'', 1), (''bc'', 2)]" "loader_new :: (string, nat) data_loader" "\<lambda>k. Inr (length k)"]
  by (simp add: loader_new_def)

definition promises :: "('k, 'v) data_loader \<Rightarrow> nat multiset" where
  "promises s = mset (map fst (dl_settled s)) + mset (map snd (dl_queue s)) + mset (map snd (concat (dl_flights s)))"

fun event_loads :: "('k, 'v) loader_event \<Rightarrow> nat list" where
  "event_loads (Load k w) = [w]"
| "event_loads e = []"

lemma dispatch_promises:
  "mset (map fst (dl_settled (dispatch_results batch rs s))) \<subseteq># mset (map fst (dl_settled s)) + mset (map snd batch)
   \<and> dl_queue (dispatch_results batch rs s) = dl_queue s \<and> dl_flights (dispatch_results batch rs s) = dl_flights s"
proof (induction batch rs s rule: dispatch_results.induct)
  case (1 entry batch r rs s)
  let ?s = "case r of None \<Rightarrow> s | Some x \<Rightarrow> resolve_entry entry x s"
  have "mset (map fst (dl_settled ?s)) \<subseteq># mset (map fst (dl_settled s)) + {#snd entry#}"
    and same: "dl_queue ?s = dl_queue s" "dl_flights ?s = dl_flights s"
    by (auto simp: resolve_entry_def split: option.split sum.split)
  then have "mset (map fst (dl_settled ?s)) + mset (map snd batch) \<subseteq># mset (map fst (dl_settled s)) + {#snd entry#} + mset (map snd batch)"
    by (intro subset_mset.add_right_mono)
  with 1 show ?case using same by (auto intro: subset_mset.trans simp: ac_simps)
qed simp_all

lemma flights_without:
  assumes "i < length fl"
  shows "mset (map snd (concat fl)) = mset (map snd (concat (fl[i := []]))) + mset (map snd (fl ! i))"
  using assms
proof (induction fl arbitrary: i)
  case (Cons b fl)
  then show ?case by (cases i) (simp_all add: ac_simps)
qed simp

lemma step_promises: "promises (loader_step s e) \<subseteq># promises s + mset (event_loads e)"
proof (cases e)
  case (Load k w)
  then show ?thesis by (auto simp: promises_def loader_load_def split: option.split)
next
  case Flush
  then show ?thesis by (auto simp: promises_def loader_flush_def)
next
  case (Reply i rs)
  show ?thesis
  proof (cases "i < length (dl_flights s)")
    case True
    let ?b = "dl_flights s ! i" and ?s = "s\<lparr>dl_flights := (dl_flights s)[i := []]\<rparr>"
    have "mset (map fst (dl_settled (dispatch_results ?b rs ?s))) \<subseteq># mset (map fst (dl_settled s)) + mset (map snd ?b)"
      using dispatch_promises [of ?b rs ?s] by simp
    then show ?thesis
      using dispatch_promises [of ?b rs ?s] flights_without [OF True]
      by (simp add: Reply loader_reply_def True promises_def add.assoc)
  qed (simp add: Reply loader_reply_def)
next
  case (Reject i)
  have "mset (map snd (concat ((dl_flights s)[i := []]))) \<subseteq># mset (map snd (concat (dl_flights s)))"
    using flights_without [of i "dl_flights s"] by (cases "i < length (dl_flights s)") (simp_all add: list_update_beyond)
  then show ?thesis by (simp add: Reject loader_reject_def promises_def)
qed (simp_all add: promises_def loader_prime_def loader_clear_def)

lemma distinct_submultiset: "mset xs \<subseteq># mset ys \<Longrightarrow> distinct ys \<Longrightarrow> distinct xs"
  by (metis distinct_append mset_append mset_eq_imp_distinct_iff subset_mset.le_iff_add ex_mset)



definition known_promise :: "nat \<Rightarrow> ('k, 'v) data_loader \<Rightarrow> bool" where
  "known_promise w s \<longleftrightarrow> w \<in># promises s"

lemma never_known:
  assumes "\<not> known_promise w s" and "w \<notin> set (concat (map event_loads es))"
  shows "w \<notin> fst ` set (dl_settled (foldl loader_step s es))"
  using assms
proof (induction es arbitrary: s)
  case Nil
  then show ?case by (auto simp: known_promise_def promises_def)
next
  case (Cons e es)
  have "\<not> known_promise w (loader_step s e)"
    using mset_subset_eqD [OF step_promises [of s e]] Cons.prems by (auto simp: known_promise_def)
  with Cons show ?case by simp
qed

text \<open>When the batch function rejects, none of its promises is ever settled.\<close>

theorem rejected_batch_hangs:
  assumes "i < length (dl_flights s)" and "w \<in> snd ` set (dl_flights s ! i)" and "count (promises s) w = 1"
    and "w \<notin> set (concat (map event_loads es))"
  shows "w \<notin> fst ` set (dl_settled (foldl loader_step s (Reject i # es)))"
proof -
  have "w \<in># mset (map snd (dl_flights s ! i))" using assms(2) by auto
  then have "count (mset (map snd (dl_flights s ! i))) w \<ge> 1" by (simp add: Suc_leI)
  moreover
  have "promises s = promises (loader_reject i s) + mset (map snd (dl_flights s ! i))"
    using flights_without [OF assms(1)] by (simp add: promises_def loader_reject_def ac_simps)
  then have "count (promises s) w = count (promises (loader_reject i s)) w + count (mset (map snd (dl_flights s ! i))) w"
    by (simp only: count_union)
  ultimately have "count (promises (loader_reject i s)) w = 0" using assms(3) by linarith
  then have "\<not> known_promise w (loader_reject i s)" by (simp add: known_promise_def count_eq_zero_iff)
  then show ?thesis using never_known [of w "loader_reject i s" es] assms(4) by simp
qed

theorem rejected_batch_hangs_witness:
  "1 \<notin> fst ` set (dl_settled (foldl loader_step (loader_flush (loader_load ''a'' 1 (loader_new :: (string, nat) data_loader))) (Reject 0 # [Load ''b'' 2, Flush])))"
  by (rule rejected_batch_hangs) (simp_all add: loader_flush_def loader_load_def loader_new_def promises_def)

text \<open>A value asked for before the cache was cleared is in the cache again when it arrives.\<close>

theorem cleared_value_comes_back:
  assumes "jget (dl_cache s) k = None" and "dl_queue s = []"
  shows "jget (dl_cache (foldl loader_step s [Load k w, Flush, ClearLoader, Reply (length (dl_flights s)) [Some (Inr v)]])) k = Some v"
  using assms by (simp add: loader_load_def loader_flush_def loader_clear_def loader_reply_def nth_append resolve_entry_def)

theorem cleared_value_comes_back_witness:
  "jget (dl_cache (foldl loader_step (loader_new :: (string, nat) data_loader) [Load ''a'' 1, Flush, ClearLoader, Reply (length (dl_flights (loader_new :: (string, nat) data_loader))) [Some (Inr 7)]])) ''a'' = Some 7"
  by (rule cleared_value_comes_back) (simp_all add: loader_new_def)

text \<open>A key asked for twice in a tick is asked of the batch function twice.\<close>

theorem keys_are_not_merged:
  assumes "jget (dl_cache s) k = None" and "dl_queue s = []"
  shows "dl_flights (loader_flush (load_all [(k, v), (k, w)] s)) = dl_flights s @ [[(k, v), (k, w)]]"
  using assms by (simp add: load_all_uncached loader_flush_def)

theorem keys_are_not_merged_witness:
  "dl_flights (loader_flush (load_all [(''a'', 1), (''a'', 2)] (loader_new :: (string, nat) data_loader))) = dl_flights (loader_new :: (string, nat) data_loader) @ [[(''a'', 1), (''a'', 2)]]"
  by (rule keys_are_not_merged) (simp_all add: loader_new_def)

section \<open>Operations\<close>

lemma name_after_keyword:
  assumes "list_all word_char n" and "n \<noteq> []" and "case rest of [] \<Rightarrow> True | c # _ \<Rightarrow> \<not> word_char c"
  shows "name_after k (k @ CHR '' '' # n @ rest) = Some n"
proof -
  obtain c m where n: "n = c # m" using assms(2) by (cases n) auto
  have c: "\<not> is_js_space c" using assms(1) by (auto simp: n word_char_def is_js_space_def Let_def)
  have "takeWhile word_char (n @ rest) = n"
    using assms(1,3) by (subst takeWhile_append2) (auto simp: list_all_iff split: list.splits)
  moreover have "is_js_space CHR '' ''" by (simp add: is_js_space_def)
  ultimately show ?thesis using c by (simp add: name_after_def n)
qed

text \<open>The name of an operation is the word after the first keyword; a text without one is refused.\<close>

theorem operation_is_found:
  assumes "kw \<in> {''query'', ''mutation'', ''subscription''}" and "list_all word_char n" and "n \<noteq> []"
    and "case rest of [] \<Rightarrow> True | c # _ \<Rightarrow> \<not> word_char c" and "gr_operation r = None" and "gr_query r = kw @ CHR '' '' # n @ rest"
  shows "gql_execute m r ctx =
           (case jget m n of
              None \<Rightarrow> error_response (''Operation '' @ quoted_name n @ '' not found'')
            | Some reg \<Rightarrow> (case op_handler reg (JObj []) (case gr_variables r of None \<Rightarrow> JObj [] | Some v \<Rightarrow> v) ctx of
                Inr v \<Rightarrow> data_response (op_name reg) v | Inl e \<Rightarrow> error_response (error_message e)))"
proof -
  have "operation_name_rx (kw @ CHR '' '' # n @ rest) = Some n"
    using assms(1) name_after_keyword [OF assms(2-4), of "''query''"] name_after_keyword [OF assms(2-4), of "''mutation''"]
      name_after_keyword [OF assms(2-4), of "''subscription''"]
    by (auto simp: first_some_def name_after_def [of "''query''" "CHR ''m'' # s" for s] name_after_def [of "''query''" "CHR ''s'' # s" for s]
        name_after_def [of "''mutation''" "CHR ''s'' # s" for s])
  then have "resolve_operation_name r = Some n" using assms(5,6) by (simp add: resolve_operation_name_def first_some_def)
  then show ?thesis by (simp add: gql_execute_def)
qed

theorem operation_is_found_witness:
  "gql_execute [] \<lparr>gr_query = ''query'' @ CHR '' '' # ''Me'' @ '' { id }'', gr_operation = None, gr_variables = None\<rparr> \<lparr>gc_request_id = ''1'', gc_user = None, gc_tenant = None\<rparr>
     = error_response (''Operation '' @ quoted_name ''Me'' @ '' not found'')"
  by (subst operation_is_found [where kw = "''query''" and n = "''Me''" and rest = "'' { id }''"]) (simp_all add: word_char_def)

text \<open>What kind an operation was registered as makes no difference to what is run.\<close>

theorem kind_of_operation_is_ignored:
  "gql_execute (register_operation (reg\<lparr>op_type := t\<rparr>) m) r ctx = gql_execute (register_operation (reg\<lparr>op_type := t'\<rparr>) m) r ctx"
  by (auto simp: gql_execute_def register_operation_def split: option.split sum.split)

section \<open>Subscriptions\<close>

definition subs_ok :: "gql_subscriptions \<Rightarrow> bool" where
  "subs_ok m \<longleftrightarrow> (\<forall>t. distinct (elems m t))"

lemma subs_ok_steps: "subs_ok []" "subs_ok m \<Longrightarrow> subs_ok (gql_subscribe t h m)" "subs_ok m \<Longrightarrow> subs_ok (gql_unsubscribe t h m)"
proof -
  show "subs_ok m \<Longrightarrow> subs_ok (gql_unsubscribe t h m)"
    by (auto simp: subs_ok_def gql_unsubscribe_def set_remove_def elems_def split: option.split dest!: spec [of _ t])
qed (auto simp: subs_ok_def gql_subscribe_def distinct_set_add elems_def)

lemma call_each_quiet: "\<forall>h \<in> set hs. throws h = None \<Longrightarrow> call_each throws hs = (hs, None)"
  by (induction hs) auto

lemma call_each_prefix: "prefix (fst (call_each throws hs)) hs"
  by (induction hs) (auto split: option.split prod.split)

text \<open>
  A message goes once to each handler subscribed to its topic and not withdrawn, if none throws; one
  that throws keeps it from those after it.
\<close>

theorem message_reaches_subscribers:
  assumes "subs_ok m"
  shows "(\<And>h. throws h = None) \<Longrightarrow> distinct (fst (gql_publish throws t m)) \<and> set (fst (gql_publish throws t m)) = set (elems m t)"
    and "set (elems (gql_subscribe t h m) u) = (if u = t then insert h (set (elems m u)) else set (elems m u))"
    and "set (elems (gql_unsubscribe t h m) u) = (if u = t then set (elems m u) - {h} else set (elems m u))"
    and "jget m t = Some (as @ h # bs) \<Longrightarrow> (\<forall>a \<in> set as. throws a = None) \<Longrightarrow> throws h = Some e \<Longrightarrow> gql_publish throws t m = (as @ [h], Some e)"
proof -
  show "distinct (fst (gql_publish throws t m)) \<and> set (fst (gql_publish throws t m)) = set (elems m t)" if "\<And>h. throws h = None"
    using assms that by (auto simp: gql_publish_def subs_ok_def elems_def call_each_quiet split: option.splits)
  show "set (elems (gql_subscribe t h m) u) = (if u = t then insert h (set (elems m u)) else set (elems m u))"
    by (simp add: gql_subscribe_def)
  show "set (elems (gql_unsubscribe t h m) u) = (if u = t then set (elems m u) - {h} else set (elems m u))"
    by (auto simp: gql_unsubscribe_def elems_def split: option.split)
  have "(\<forall>a \<in> set as. throws a = None) \<Longrightarrow> throws h = Some e \<Longrightarrow> call_each throws (as @ h # bs) = (as @ [h], Some e)"
    by (induction as) auto
  then show "jget m t = Some (as @ h # bs) \<Longrightarrow> (\<forall>a \<in> set as. throws a = None) \<Longrightarrow> throws h = Some e \<Longrightarrow> gql_publish throws t m = (as @ [h], Some e)"
    by (simp add: gql_publish_def)
qed

theorem message_reaches_subscribers_witness:
  "gql_publish (\<lambda>h. if h = 1 then Some (plain_error ''e'') else None) ''t'' [(''t'', [] @ 1 # [2])] = ([] @ [1], Some (plain_error ''e''))"
  by (rule message_reaches_subscribers(4)) (simp_all add: subs_ok_def elems_def)

section \<open>Fragments\<close>

lemma join_text_append: "xs \<noteq> [] \<Longrightarrow> join_text sep (xs @ [y]) = join_text sep xs @ sep @ y"
  by (induction sep xs rule: join_text.induct) auto

text \<open>A fragment that is registered is the last part of the schema, and none is replaced by it.\<close>

theorem registered_fragment_is_appended:
  assumes "register_fragment f m = Inr m1"
  shows "jget m (sf_name f) = None" and "jget m1 n = (if n = sf_name f then Some f else jget m n)"
    and "full_schema m1 = (if m = [] then sf_sdl f else full_schema m @ [CHR 0x0A, CHR 0x0A] @ sf_sdl f)"
proof -
  have new: "\<not> jhas m (sf_name f)" and m1: "m1 = jset (sf_name f) f m"
    using assms by (auto simp: register_fragment_def split: sum.splits if_splits)
  show "jget m (sf_name f) = None" using new by (simp add: jhas_def)
  show "jget m1 n = (if n = sf_name f then Some f else jget m n)" by (simp add: m1)
  show "full_schema m1 = (if m = [] then sf_sdl f else full_schema m @ [CHR 0x0A, CHR 0x0A] @ sf_sdl f)"
    using new by (simp add: m1 jset_absent full_schema_def join_text_append)
qed

theorem registered_fragment_is_appended_witness:
  "full_schema (jset ''b'' \<lparr>sf_name = ''b'', sf_sdl = ''y''\<rparr> [(''a'', \<lparr>sf_name = ''a'', sf_sdl = ''x''\<rparr>)])
     = full_schema [(''a'', \<lparr>sf_name = ''a'', sf_sdl = ''x''\<rparr>)] @ [CHR 0x0A, CHR 0x0A] @ ''y''"
  using registered_fragment_is_appended(3) [of "\<lparr>sf_name = ''b'', sf_sdl = ''y''\<rparr>" "[(''a'', \<lparr>sf_name = ''a'', sf_sdl = ''x''\<rparr>)]"
      "jset ''b'' \<lparr>sf_name = ''b'', sf_sdl = ''y''\<rparr> [(''a'', \<lparr>sf_name = ''a'', sf_sdl = ''x''\<rparr>)]"]
  by (simp add: register_fragment_def validate_fragment_def js_trim_def is_js_space_def jhas_def)

end
