(* ===== verification/Email.thy ===== *)
theory Email
  imports Notifications Url_Params Csp
begin

text \<open>
  \<open>packages/email/src\<close>: the adapters of the mail providers, the template engine, the tracker and the memory.

  A provider's client is a function of what it is asked and the state of its world.  The messages of a
  batch are begun in their order, and each client call is taken to end before the next begins.
\<close>

section \<open>Messages\<close>

record email_address =
  ea_email :: string
  ea_name :: "string option"

datatype attachment_content = TextContent string | ByteContent bytes

record email_attachment =
  at_filename :: string
  at_content :: attachment_content
  at_type :: string
  at_cid :: "string option"
  at_disposition :: "string option"

record email_message =
  em_from :: email_address
  em_to :: "email_address list"
  em_cc :: "email_address list option"
  em_bcc :: "email_address list option"
  em_reply_to :: "email_address option"
  em_subject :: string
  em_text :: "string option"
  em_html :: "string option"
  em_attachments :: "email_attachment list option"
  em_headers :: "(string, string) jsmap option"
  em_tags :: "string list option"

record send_result =
  sn_message_id :: string
  sn_provider :: string
  sn_accepted :: "string list"
  sn_rejected :: "string list"

definition send_error :: "string \<Rightarrow> string \<Rightarrow> js_error" where
  "send_error provider msg = JsError ''EmailSendError'' (''['' @ provider @ ''] Send failed: '' @ msg)"

definition recipients :: "email_message \<Rightarrow> string list" where
  "recipients m = map ea_email (em_to m)"

text \<open>\<open>x !== undefined && x.length > 0 && \<dots>\<close>\<close>

definition nonempty :: "'a list option \<Rightarrow> 'a list option" where
  "nonempty xs = (case xs of Some (x # ys) \<Rightarrow> Some (x # ys) | _ \<Rightarrow> None)"

section \<open>Sending through a client\<close>

definition send_via ::
  "string \<Rightarrow> (email_message \<Rightarrow> 'p) \<Rightarrow> ('p \<Rightarrow> 'w \<Rightarrow> (js_error, 'r) outcome \<times> 'w) \<Rightarrow> (email_message \<Rightarrow> 'r \<Rightarrow> send_result)
     \<Rightarrow> email_message \<Rightarrow> 'w \<Rightarrow> (js_error, send_result) outcome \<times> 'w" where
  "send_via provider build client result m w =
     (case client (build m) w of
        (Inl e, w1) \<Rightarrow> (Inl (send_error provider (error_message e)), w1)
      | (Inr r, w1) \<Rightarrow> (Inr (result m r), w1))"

text \<open>\<open>Promise.all\<close>: every message is sent, and the first failure is the outcome.\<close>

fun send_each :: "('m \<Rightarrow> 'w \<Rightarrow> ('e, 'r) outcome \<times> 'w) \<Rightarrow> 'm list \<Rightarrow> 'w \<Rightarrow> ('e, 'r) outcome list \<times> 'w" where
  "send_each send [] w = ([], w)"
| "send_each send (m # ms) w = (let (r, w1) = send m w; (rs, w2) = send_each send ms w1 in (r # rs, w2))"

fun all_results :: "('e, 'r) outcome list \<Rightarrow> ('e, 'r list) outcome" where
  "all_results [] = Inr []"
| "all_results (Inl e # rs) = Inl e"
| "all_results (Inr r # rs) = (case all_results rs of Inl e \<Rightarrow> Inl e | Inr xs \<Rightarrow> Inr (r # xs))"

definition send_batch :: "('m \<Rightarrow> 'w \<Rightarrow> ('e, 'r) outcome \<times> 'w) \<Rightarrow> 'm list \<Rightarrow> 'w \<Rightarrow> ('e, 'r list) outcome \<times> 'w" where
  "send_batch send ms w = map_prod all_results id (send_each send ms w)"

section \<open>Mailgun and the logging adapter\<close>

definition plain_address :: "email_address \<Rightarrow> string" where
  "plain_address a = (case ea_name a of Some n \<Rightarrow> n @ '' <'' @ ea_email a @ ''>'' | None \<Rightarrow> ea_email a)"

record mailgun_data =
  mg_from :: string
  mg_to :: "string list"
  mg_cc :: "string option"
  mg_bcc :: "string option"
  mg_subject :: string
  mg_text :: "string option"
  mg_html :: "string option"
  mg_reply_to :: "string option"
  mg_tags :: "string list option"

definition mailgun_data_of :: "email_message \<Rightarrow> mailgun_data" where
  "mailgun_data_of m =
     \<lparr>mg_from = plain_address (em_from m), mg_to = map plain_address (em_to m),
      mg_cc = map_option (\<lambda>as. join_text '', '' (map plain_address as)) (nonempty (em_cc m)),
      mg_bcc = map_option (\<lambda>as. join_text '', '' (map plain_address as)) (nonempty (em_bcc m)),
      mg_subject = em_subject m, mg_text = em_text m, mg_html = em_html m,
      mg_reply_to = map_option plain_address (em_reply_to m), mg_tags = nonempty (em_tags m)\<rparr>"

definition mailgun_send ::
  "(string \<Rightarrow> mailgun_data \<Rightarrow> 'w \<Rightarrow> (js_error, string) outcome \<times> 'w) \<Rightarrow> string \<Rightarrow> email_message \<Rightarrow> 'w
     \<Rightarrow> (js_error, send_result) outcome \<times> 'w" where
  "mailgun_send client domain =
     send_via ''mailgun'' mailgun_data_of (client domain)
       (\<lambda>m i. \<lparr>sn_message_id = i, sn_provider = ''mailgun'', sn_accepted = recipients m, sn_rejected = []\<rparr>)"

record logged_email =
  le_from :: string
  le_to :: string
  le_subject :: string
  le_has_html :: bool
  le_has_text :: bool
  le_attachments :: int

definition logged_email_of :: "email_message \<Rightarrow> logged_email" where
  "logged_email_of m =
     \<lparr>le_from = plain_address (em_from m), le_to = join_text '', '' (map plain_address (em_to m)), le_subject = em_subject m,
      le_has_html = (em_html m \<noteq> None), le_has_text = (em_text m \<noteq> None),
      le_attachments = (case em_attachments m of None \<Rightarrow> 0 | Some as \<Rightarrow> int (length as))\<rparr>"

text \<open>The world of the logging adapter and the memory: identifiers to come, and what was kept.\<close>

definition logging_send :: "email_message \<Rightarrow> string list \<times> logged_email list \<Rightarrow> (js_error, send_result) outcome \<times> (string list \<times> logged_email list)" where
  "logging_send m w =
     (Inr \<lparr>sn_message_id = hd (fst w), sn_provider = ''logging'', sn_accepted = recipients m, sn_rejected = []\<rparr>,
      (List.tl (fst w), snd w @ [logged_email_of m]))"

definition memory_send :: "email_message \<Rightarrow> string list \<times> email_message list \<Rightarrow> (js_error, send_result) outcome \<times> (string list \<times> email_message list)" where
  "memory_send m w =
     (Inr \<lparr>sn_message_id = hd (fst w), sn_provider = ''in-memory'', sn_accepted = recipients m, sn_rejected = []\<rparr>,
      (List.tl (fst w), snd w @ [m]))"

definition sent_emails_to :: "string \<Rightarrow> string list \<times> email_message list \<Rightarrow> email_message list" where
  "sent_emails_to e w = filter (\<lambda>m. \<exists>a \<in> set (em_to m). ea_email a = e) (snd w)"

section \<open>SendGrid\<close>

record sendgrid_attachment =
  ga_content :: string
  ga_filename :: string
  ga_type :: string
  ga_cid :: "string option"
  ga_disposition :: "string option"

definition to_sg_attachment :: "email_attachment \<Rightarrow> sendgrid_attachment" where
  "to_sg_attachment a =
     \<lparr>ga_content = (case at_content a of TextContent s \<Rightarrow> s | ByteContent bs \<Rightarrow> to_base64 bs), ga_filename = at_filename a,
      ga_type = at_type a, ga_cid = at_cid a, ga_disposition = at_disposition a\<rparr>"

record sendgrid_message =
  gm_from :: email_address
  gm_to :: "email_address list"
  gm_cc :: "email_address list option"
  gm_bcc :: "email_address list option"
  gm_reply_to :: "email_address option"
  gm_subject :: string
  gm_content :: "(string \<times> string) list option"
  gm_attachments :: "sendgrid_attachment list option"
  gm_categories :: "string list option"
  gm_headers :: "(string, string) jsmap option"

definition build_sg_content :: "email_message \<Rightarrow> (string \<times> string) list" where
  "build_sg_content m =
     (case em_text m of Some t \<Rightarrow> [(''text/plain'', t)] | None \<Rightarrow> []) @ (case em_html m of Some h \<Rightarrow> [(''text/html'', h)] | None \<Rightarrow> [])"

definition sendgrid_message_of :: "email_message \<Rightarrow> sendgrid_message" where
  "sendgrid_message_of m =
     \<lparr>gm_from = em_from m, gm_to = em_to m, gm_cc = nonempty (em_cc m), gm_bcc = nonempty (em_bcc m), gm_reply_to = em_reply_to m,
      gm_subject = em_subject m, gm_content = nonempty (Some (build_sg_content m)),
      gm_attachments = map_option (map to_sg_attachment) (nonempty (em_attachments m)), gm_categories = nonempty (em_tags m),
      gm_headers = em_headers m\<rparr>"

definition sendgrid_send ::
  "(sendgrid_message \<Rightarrow> 'w \<Rightarrow> (js_error, int) outcome \<times> 'w) \<Rightarrow> string \<Rightarrow> email_message \<Rightarrow> 'w
     \<Rightarrow> (js_error, send_result) outcome \<times> 'w" where
  "sendgrid_send client now_hex =
     send_via ''sendgrid'' sendgrid_message_of client
       (\<lambda>m status. \<lparr>sn_message_id = ''sg-'' @ now_hex, sn_provider = ''sendgrid'', sn_accepted = recipients m,
          sn_rejected = (if status \<ge> 400 then recipients m else [])\<rparr>)"

section \<open>SES and SMTP\<close>

definition quoted_address :: "email_address \<Rightarrow> string" where
  "quoted_address a =
     (case ea_name a of Some n \<Rightarrow> CHR 0x22 # n @ CHR 0x22 # '' <'' @ ea_email a @ ''>'' | None \<Rightarrow> ea_email a)"

record ses_params =
  sp_from :: string
  sp_to :: "string list"
  sp_cc :: "string list option"
  sp_bcc :: "string list option"
  sp_reply_to :: "string list option"
  sp_subject :: "string \<times> string"
  sp_text :: "(string \<times> string) option"
  sp_html :: "(string \<times> string) option"

definition ses_params_of :: "email_message \<Rightarrow> ses_params" where
  "ses_params_of m =
     \<lparr>sp_from = quoted_address (em_from m), sp_to = map quoted_address (em_to m),
      sp_cc = map_option (map quoted_address) (nonempty (em_cc m)), sp_bcc = map_option (map quoted_address) (nonempty (em_bcc m)),
      sp_reply_to = map_option (\<lambda>a. [quoted_address a]) (em_reply_to m), sp_subject = (em_subject m, ''UTF-8''),
      sp_text = map_option (\<lambda>t. (t, ''UTF-8'')) (em_text m), sp_html = map_option (\<lambda>t. (t, ''UTF-8'')) (em_html m)\<rparr>"

definition ses_send ::
  "(ses_params \<Rightarrow> 'w \<Rightarrow> (js_error, string option) outcome \<times> 'w) \<Rightarrow> string \<Rightarrow> email_message \<Rightarrow> 'w
     \<Rightarrow> (js_error, send_result) outcome \<times> 'w" where
  "ses_send client now_hex =
     send_via ''ses'' ses_params_of client
       (\<lambda>m i. \<lparr>sn_message_id = (case i of Some x \<Rightarrow> x | None \<Rightarrow> ''ses-'' @ now_hex), sn_provider = ''ses'', sn_accepted = recipients m, sn_rejected = []\<rparr>)"

record smtp_attachment =
  sm_filename :: string
  sm_content :: attachment_content
  sm_type :: string
  sm_cid :: "string option"

definition to_smtp_attachment :: "email_attachment \<Rightarrow> smtp_attachment" where
  "to_smtp_attachment a = \<lparr>sm_filename = at_filename a, sm_content = at_content a, sm_type = at_type a, sm_cid = at_cid a\<rparr>"

record smtp_params =
  mt_from :: string
  mt_to :: string
  mt_cc :: "string option"
  mt_bcc :: "string option"
  mt_reply_to :: "string option"
  mt_subject :: string
  mt_text :: "string option"
  mt_html :: "string option"
  mt_headers :: "(string, string) jsmap option"
  mt_attachments :: "smtp_attachment list option"

definition smtp_params_of :: "email_message \<Rightarrow> smtp_params" where
  "smtp_params_of m =
     \<lparr>mt_from = quoted_address (em_from m), mt_to = join_text '', '' (map quoted_address (em_to m)),
      mt_cc = map_option (\<lambda>as. join_text '', '' (map quoted_address as)) (nonempty (em_cc m)),
      mt_bcc = map_option (\<lambda>as. join_text '', '' (map quoted_address as)) (nonempty (em_bcc m)),
      mt_reply_to = map_option quoted_address (em_reply_to m), mt_subject = em_subject m, mt_text = em_text m, mt_html = em_html m,
      mt_headers = em_headers m, mt_attachments = map_option (map to_smtp_attachment) (nonempty (em_attachments m))\<rparr>"

record smtp_result =
  rs_message_id :: string
  rs_accepted :: "string list"
  rs_rejected :: "string list"

definition smtp_send ::
  "(smtp_params \<Rightarrow> 'w \<Rightarrow> (js_error, smtp_result) outcome \<times> 'w) \<Rightarrow> email_message \<Rightarrow> 'w
     \<Rightarrow> (js_error, send_result) outcome \<times> 'w" where
  "smtp_send client =
     send_via ''smtp'' smtp_params_of client
       (\<lambda>m r. \<lparr>sn_message_id = rs_message_id r, sn_provider = ''smtp'', sn_accepted = rs_accepted r, sn_rejected = rs_rejected r\<rparr>)"

definition smtp_check_health :: "(js_error, bool) outcome \<Rightarrow> bool" where
  "smtp_check_health verified = (case verified of Inr b \<Rightarrow> b | Inl _ \<Rightarrow> False)"

section \<open>Templates\<close>

function interpolate :: "string \<Rightarrow> (string, string) jsmap \<Rightarrow> string" where
  "interpolate [] vars = []"
| "interpolate (c # cs) vars =
     (case placeholder_at (c # cs) of
        Some (k, rest) \<Rightarrow> (case jget vars k of Some v \<Rightarrow> v | None \<Rightarrow> ''{{'' @ k @ ''}}'') @ interpolate rest vars
      | None \<Rightarrow> c # interpolate cs vars)"
  by pat_completeness auto
termination
  by (relation "measure (\<lambda>(s, _). length s)") (auto dest: placeholder_shorter)

record email_template =
  tm_subject :: string
  tm_html :: "string option"
  tm_text :: "string option"

type_synonym email_templates = "(string, email_template) jsmap"

definition register_email_template :: "string \<Rightarrow> email_template \<Rightarrow> email_templates \<Rightarrow> email_templates" where
  "register_email_template i t m = jset i t m"

definition validation_failed :: "string \<Rightarrow> string \<Rightarrow> js_error" where
  "validation_failed field reason =
     JsError ''EmailValidationError'' (''Email validation failed on '' @ CHR 0x27 # field @ CHR 0x27 # '': '' @ reason)"

definition render_template :: "string \<Rightarrow> (string, string) jsmap \<Rightarrow> email_templates \<Rightarrow> (js_error, email_template) outcome" where
  "render_template i vars m =
     (case jget m i of
        None \<Rightarrow> Inl (validation_failed ''templateId'' (''Template '' @ CHR 0x27 # i @ CHR 0x27 # '' is not registered''))
      | Some t \<Rightarrow> Inr \<lparr>tm_subject = interpolate (tm_subject t) vars, tm_html = map_option (\<lambda>s. interpolate s vars) (tm_html t),
          tm_text = map_option (\<lambda>s. interpolate s vars) (tm_text t)\<rparr>)"

section \<open>Tracking\<close>

datatype email_event = Sent | Delivered | Opened | Clicked | Bounced | Complained | Unsubscribed

record tracking_event =
  tv_message :: string
  tv_event :: email_event
  tv_time :: int

record tracking_stats =
  ts_sent :: int
  ts_delivered :: int
  ts_opened :: int
  ts_clicked :: int
  ts_bounced :: int
  ts_complained :: int
  ts_unsubscribed :: int

definition record_tracking :: "tracking_event \<Rightarrow> tracking_event list \<Rightarrow> tracking_event list" where
  "record_tracking e es = es @ [e]"

definition tracked_events :: "string \<Rightarrow> tracking_event list \<Rightarrow> tracking_event list" where
  "tracked_events i es = filter (\<lambda>e. tv_message e = i) es"

definition tracking_stats_of :: "tracking_event list \<Rightarrow> tracking_stats" where
  "tracking_stats_of es =
     (let count = (\<lambda>t. int (length (filter (\<lambda>e. tv_event e = t) es)))
      in \<lparr>ts_sent = count Sent, ts_delivered = count Delivered, ts_opened = count Opened, ts_clicked = count Clicked,
          ts_bounced = count Bounced, ts_complained = count Complained, ts_unsubscribed = count Unsubscribed\<rparr>)"

section \<open>The port\<close>

text \<open>What the adapters share: results name their provider, failures are errors of sending.\<close>

locale email_port =
  fixes send :: "email_message \<Rightarrow> 'w \<Rightarrow> (js_error, send_result) outcome \<times> 'w"
    and provider :: string
  assumes result_provider: "send m w = (Inr r, w1) \<Longrightarrow> sn_provider r = provider"
    and failure_name: "send m w = (Inl e, w1) \<Longrightarrow> error_name e = ''EmailSendError''"
begin

lemma each_provider: "Inr r \<in> set (fst (send_each send ms w)) \<Longrightarrow> sn_provider r = provider"
proof (induction ms arbitrary: w)
  case (Cons m ms)
  obtain x w1 where "send m w = (x, w1)" by (rule prod.exhaust)
  then show ?case using Cons result_provider by (auto simp: Let_def split_def)
qed simp

lemma each_failure: "Inl e \<in> set (fst (send_each send ms w)) \<Longrightarrow> error_name e = ''EmailSendError''"
proof (induction ms arbitrary: w)
  case (Cons m ms)
  obtain x w1 where "send m w = (x, w1)" by (rule prod.exhaust)
  then show ?case using Cons failure_name by (auto simp: Let_def split_def)
qed simp

end

lemma all_results_Inr: "all_results rs = Inr xs \<longleftrightarrow> rs = map Inr xs"
proof (induction rs arbitrary: xs)
  case (Cons r rs)
  show ?case
  proof (cases r)
    case (Inr x)
    show ?thesis
    proof (cases "all_results rs")
      case (Inl e)
      then have "rs \<noteq> map Inr ys" for ys using Cons.IH [of ys] by simp
      then show ?thesis using Inl \<open>r = Inr x\<close> by (auto simp: Cons_eq_map_conv)
    next
      case (Inr ys)
      then have "rs = map Inr ys" using Cons.IH by blast
      then show ?thesis using Inr \<open>r = Inr x\<close> by (auto simp: Cons_eq_map_conv inj_map_eq_map)
    qed
  qed (auto simp: Cons_eq_map_conv)
qed auto

lemma all_results_Inl: "all_results rs = Inl e \<Longrightarrow> Inl e \<in> set rs"
  by (induction rs rule: all_results.induct) (auto split: sum.splits)

lemma length_send_each: "length (fst (send_each send ms w)) = length ms"
  by (induction ms arbitrary: w) (simp_all add: Let_def split_def)

context email_port
begin

lemma batch_results:
  "fst (send_batch send ms w) = Inr rs \<Longrightarrow> length rs = length ms \<and> (\<forall>r \<in> set rs. sn_provider r = provider)"
  using each_provider [of _ ms w] length_send_each [of send ms w]
  by (auto simp: send_batch_def all_results_Inr)

lemma batch_failure: "fst (send_batch send ms w) = Inl e \<Longrightarrow> error_name e = ''EmailSendError''"
  using each_failure [of e ms w] by (auto simp: send_batch_def dest: all_results_Inl)

end

lemma send_via_port:
  assumes "\<And>m r. sn_provider (result m r) = provider"
  shows "send_via provider build client result m w = (Inr r, w1) \<Longrightarrow> sn_provider r = provider"
    and "send_via provider build client result m w = (Inl e, w1) \<Longrightarrow> error_name e = ''EmailSendError''"
  using assms by (auto simp: send_via_def send_error_def split: prod.splits sum.splits)

interpretation mailgun: email_port "mailgun_send client domain" "''mailgun''" for client domain
  unfolding mailgun_send_def by unfold_locales (auto dest!: send_via_port [rotated])

interpretation sendgrid: email_port "sendgrid_send client now_hex" "''sendgrid''" for client now_hex
  unfolding sendgrid_send_def by unfold_locales (auto dest!: send_via_port [rotated])

interpretation ses: email_port "ses_send client now_hex" "''ses''" for client now_hex
  unfolding ses_send_def by unfold_locales (auto dest!: send_via_port [rotated])

interpretation smtp: email_port "smtp_send client" "''smtp''" for client
  unfolding smtp_send_def by unfold_locales (auto dest!: send_via_port [rotated])

interpretation in_memory: email_port memory_send "''in-memory''"
  by unfold_locales (auto simp: memory_send_def)

interpretation logging: email_port logging_send "''logging''"
  by unfold_locales (auto simp: logging_send_def)

section \<open>Batches\<close>

text \<open>A batch that succeeds has one result for each message, of its provider; one that fails has an error of sending.\<close>

theorem batches_report:
  shows "fst (send_batch (mailgun_send mc domain) ms w1) = Inr rs \<Longrightarrow> length rs = length ms \<and> (\<forall>r \<in> set rs. sn_provider r = ''mailgun'')"
    and "fst (send_batch (sendgrid_send gc now) ms w2) = Inr rs \<Longrightarrow> length rs = length ms \<and> (\<forall>r \<in> set rs. sn_provider r = ''sendgrid'')"
    and "fst (send_batch (ses_send sc now) ms w3) = Inr rs \<Longrightarrow> length rs = length ms \<and> (\<forall>r \<in> set rs. sn_provider r = ''ses'')"
    and "fst (send_batch (smtp_send tc) ms w4) = Inr rs \<Longrightarrow> length rs = length ms \<and> (\<forall>r \<in> set rs. sn_provider r = ''smtp'')"
    and "fst (send_batch (smtp_send tc) ms w4) = Inl e \<Longrightarrow> error_name e = ''EmailSendError''"
    and "\<exists>rs. fst (send_batch memory_send ms w5) = Inr rs"
proof -
  show "fst (send_batch (mailgun_send mc domain) ms w1) = Inr rs \<Longrightarrow> length rs = length ms \<and> (\<forall>r \<in> set rs. sn_provider r = ''mailgun'')"
    by (rule mailgun.batch_results)
  show "fst (send_batch (sendgrid_send gc now) ms w2) = Inr rs \<Longrightarrow> length rs = length ms \<and> (\<forall>r \<in> set rs. sn_provider r = ''sendgrid'')"
    by (rule sendgrid.batch_results)
  show "fst (send_batch (ses_send sc now) ms w3) = Inr rs \<Longrightarrow> length rs = length ms \<and> (\<forall>r \<in> set rs. sn_provider r = ''ses'')"
    by (rule ses.batch_results)
  show "fst (send_batch (smtp_send tc) ms w4) = Inr rs \<Longrightarrow> length rs = length ms \<and> (\<forall>r \<in> set rs. sn_provider r = ''smtp'')"
    by (rule smtp.batch_results)
  show "fst (send_batch (smtp_send tc) ms w4) = Inl e \<Longrightarrow> error_name e = ''EmailSendError''"
    by (rule smtp.batch_failure)
  have "Inl e \<notin> set (fst (send_each memory_send ms w5))" for e
    by (induction ms arbitrary: w5) (auto simp: memory_send_def Let_def split_def)
  then show "\<exists>rs. fst (send_batch memory_send ms w5) = Inr rs"
    using all_results_Inl by (cases "fst (send_batch memory_send ms w5)") (fastforce simp: send_batch_def)+
qed

definition demo_mail :: email_message where
  "demo_mail = \<lparr>em_from = \<lparr>ea_email = ''a'', ea_name = None\<rparr>, em_to = [\<lparr>ea_email = ''b'', ea_name = None\<rparr>], em_cc = None, em_bcc = None,
     em_reply_to = None, em_subject = ''s'', em_text = Some ''t'', em_html = None, em_attachments = None, em_headers = None, em_tags = None\<rparr>"

theorem batches_report_witness:
  "length [\<lparr>sn_message_id = ''1'', sn_provider = ''mailgun'', sn_accepted = [''b''], sn_rejected = []\<rparr>] = length [demo_mail]
   \<and> (\<forall>r \<in> set [\<lparr>sn_message_id = ''1'', sn_provider = ''mailgun'', sn_accepted = [''b''], sn_rejected = []\<rparr>]. sn_provider r = ''mailgun'')"
  by (rule batches_report(1) [of "\<lambda>_ _ w. (Inr ''1'', w)" "''d''" "[demo_mail]" "()"])
    (simp add: send_batch_def mailgun_send_def send_via_def demo_mail_def recipients_def)

text \<open>Every message of a batch is handed to the provider once and in order, even when the batch fails.\<close>

theorem batch_hands_over_all:
  assumes "\<And>p ps. client p ps = (answer p, ps @ [p])"
  shows "snd (send_batch (smtp_send client) ms ps) = ps @ map smtp_params_of ms"
    and "m \<in> set ms \<Longrightarrow> answer (smtp_params_of m) = Inl e \<Longrightarrow> \<exists>f. fst (send_batch (smtp_send client) ms ps) = Inl f"
proof -
  have one: "smtp_send client m ps = (case answer (smtp_params_of m) of Inl e \<Rightarrow> Inl (send_error ''smtp'' (error_message e))
      | Inr r \<Rightarrow> Inr \<lparr>sn_message_id = rs_message_id r, sn_provider = ''smtp'', sn_accepted = rs_accepted r, sn_rejected = rs_rejected r\<rparr>,
      ps @ [smtp_params_of m])" for m ps
    by (simp add: smtp_send_def send_via_def assms split: sum.split)
  have "snd (send_each (smtp_send client) ms ps) = ps @ map smtp_params_of ms"
    by (induction ms arbitrary: ps) (simp_all add: one Let_def split_def)
  then show "snd (send_batch (smtp_send client) ms ps) = ps @ map smtp_params_of ms" by (simp add: send_batch_def)
  have "m \<in> set ms \<Longrightarrow> answer (smtp_params_of m) = Inl e \<Longrightarrow> Inl (send_error ''smtp'' (error_message e)) \<in> set (fst (send_each (smtp_send client) ms ps))"
    by (induction ms arbitrary: ps) (auto simp: one Let_def split_def)
  then show "m \<in> set ms \<Longrightarrow> answer (smtp_params_of m) = Inl e \<Longrightarrow> \<exists>f. fst (send_batch (smtp_send client) ms ps) = Inl f"
    by (cases "fst (send_batch (smtp_send client) ms ps)") (auto simp: send_batch_def all_results_Inr)
qed

theorem batch_hands_over_all_witness:
  "snd (send_batch (smtp_send (\<lambda>p ps. (Inl (plain_error ''no''), ps @ [p]))) [demo_mail, demo_mail] []) = [] @ map smtp_params_of [demo_mail, demo_mail]"
  by (rule batch_hands_over_all(1) [where answer = "\<lambda>_. Inl (plain_error ''no'')"]) simp

section \<open>What reaches the provider\<close>

text \<open>Attachments, headers and tags that a provider's adapter does not pass on are dropped without an error.\<close>

theorem dropped_silently:
  "ses_send sc now (m\<lparr>em_attachments := a, em_headers := h, em_tags := t\<rparr>) w = ses_send sc now m w"
  "mailgun_send mc domain (m\<lparr>em_attachments := a, em_headers := h\<rparr>) w = mailgun_send mc domain m w"
  by (simp_all add: ses_send_def mailgun_send_def send_via_def ses_params_of_def mailgun_data_of_def recipients_def split: prod.split sum.split)

text \<open>A quote in a name makes one address two.\<close>

theorem quoted_name_adds_recipient:
  "smtp_params_of (m\<lparr>em_to := [\<lparr>ea_email = e2, ea_name = Some (n @ CHR 0x22 # '' <'' @ e1 @ ''>, '' @ CHR 0x22 # n2)\<rparr>]\<rparr>)
     = smtp_params_of (m\<lparr>em_to := [\<lparr>ea_email = e1, ea_name = Some n\<rparr>, \<lparr>ea_email = e2, ea_name = Some n2\<rparr>]\<rparr>)"
  by (simp add: smtp_params_of_def quoted_address_def)

text \<open>SendGrid is sent bytes in base64 and texts as they are: a text that is base64 arrives as what it encodes.\<close>

theorem text_taken_for_base64:
  "to_sg_attachment (a\<lparr>at_content := TextContent (to_base64 bs)\<rparr>) = to_sg_attachment (a\<lparr>at_content := ByteContent bs\<rparr>)"
  "from_base64 (ga_content (to_sg_attachment (a\<lparr>at_content := ByteContent bs\<rparr>))) = bs"
  by (simp_all add: to_sg_attachment_def)

text \<open>A refusal of SendGrid names every recipient as accepted and as rejected.\<close>

theorem rejected_and_accepted:
  assumes "client (sendgrid_message_of m) w = (Inr status, w1)" and "status \<ge> 400"
  shows "\<exists>r. fst (sendgrid_send client now m w) = Inr r \<and> sn_accepted r = recipients m \<and> sn_rejected r = recipients m"
  using assms by (simp add: sendgrid_send_def send_via_def)

theorem rejected_and_accepted_witness:
  "\<exists>r. fst (sendgrid_send (\<lambda>_ w. (Inr 429, w)) ''0'' demo_mail ()) = Inr r \<and> sn_accepted r = recipients demo_mail \<and> sn_rejected r = recipients demo_mail"
  by (rule rejected_and_accepted [where status = 429]) simp_all

section \<open>Templates and tracking\<close>

definition keep_unknown :: "(string, string) jsmap \<Rightarrow> segment \<Rightarrow> string" where
  "keep_unknown vars s = (case s of segment.Text x \<Rightarrow> x | Placeholder k \<Rightarrow> (case jget vars k of Some v \<Rightarrow> v | None \<Rightarrow> show_segment s))"

lemma interpolate_text: "CHR ''{'' \<notin> set s \<Longrightarrow> interpolate (s @ rest) vars = s @ interpolate rest vars"
  by (induction s) (auto simp: placeholder_at_def)

text \<open>
  Every placeholder is replaced by its value or kept when it has none, and values are not searched; when all
  have values the engine does what the one for notifications does.
\<close>

theorem placeholders_filled:
  assumes "\<forall>s \<in> set segments. segment_ok s"
  shows "interpolate (concat (map show_segment segments)) vars = concat (map (keep_unknown vars) segments)"
    and "\<forall>k. Placeholder k \<in> set segments \<longrightarrow> jget vars k \<noteq> None \<Longrightarrow>
           interpolate (concat (map show_segment segments)) vars = apply_data (concat (map show_segment segments)) vars"
proof -
  show filled: "interpolate (concat (map show_segment segments)) vars = concat (map (keep_unknown vars) segments)"
    using assms
  proof (induction segments)
    case (Cons s segments)
    show ?case
    proof (cases s)
      case (Text x)
      with Cons show ?thesis by (simp add: interpolate_text keep_unknown_def)
    next
      case (Placeholder k)
      let ?rest = "concat (map show_segment segments)"
      have "placeholder_at (''{{'' @ k @ ''}}'' @ ?rest) = Some (k, ?rest)"
        using Cons.prems Placeholder by (intro placeholder_at_shown) auto
      with Cons Placeholder show ?thesis by (simp add: keep_unknown_def split: option.split)
    qed
  qed simp
  assume known: "\<forall>k. Placeholder k \<in> set segments \<longrightarrow> jget vars k \<noteq> None"
  have "keep_unknown vars s = fill_segment vars s" if "s \<in> set segments" for s
  proof (cases s)
    case (Placeholder k)
    then have "jget vars k \<noteq> None" using that known by blast
    then obtain v where "jget vars k = Some v" by blast
    then show ?thesis using Placeholder by (simp add: keep_unknown_def lookup_text_def)
  qed (simp add: keep_unknown_def)
  then show "interpolate (concat (map show_segment segments)) vars = apply_data (concat (map show_segment segments)) vars"
    unfolding filled using apply_data_segments [OF assms, of vars] by (simp cong: map_cong)
qed

theorem placeholders_filled_witness:
  "interpolate (concat (map show_segment [segment.Text ''Hi '', Placeholder ''name'', Placeholder ''x''])) [(''name'', ''{{x}}'')]
     = concat (map (keep_unknown [(''name'', ''{{x}}'')]) [segment.Text ''Hi '', Placeholder ''name'', Placeholder ''x''])"
  by (rule placeholders_filled(1)) (simp add: is_word_char_def)

text \<open>Every event is counted once.\<close>

theorem events_counted:
  "(let s = tracking_stats_of es in ts_sent s + ts_delivered s + ts_opened s + ts_clicked s + ts_bounced s + ts_complained s + ts_unsubscribed s) = int (length es)"
  by (induction es) (auto simp: tracking_stats_of_def Let_def split: email_event.split intro: email_event.exhaust)

text \<open>The memory holds every message sent, in order, and finds those to an address.\<close>

theorem memory_keeps_all:
  "snd (snd (send_batch memory_send ms w)) = snd w @ ms"
  "m \<in> set (sent_emails_to e (snd (send_batch memory_send ms w))) \<longleftrightarrow> (m \<in> set (snd w) \<or> m \<in> set ms) \<and> e \<in> set (recipients m)"
proof -
  have all: "snd (snd (send_each memory_send ms w)) = snd w @ ms"
    by (induction ms arbitrary: w) (simp_all add: memory_send_def Let_def split_def)
  then show "snd (snd (send_batch memory_send ms w)) = snd w @ ms" by (simp add: send_batch_def)
  show "m \<in> set (sent_emails_to e (snd (send_batch memory_send ms w))) \<longleftrightarrow> (m \<in> set (snd w) \<or> m \<in> set ms) \<and> e \<in> set (recipients m)"
    using all by (auto simp: send_batch_def sent_emails_to_def recipients_def)
qed

end
