(* ===== verification/Repositories.thy ===== *)
theory Repositories
  imports Prelude
begin

text \<open>
  The repositories, paginators and units of work of \<open>packages/persistence-prisma/src\<close>,
  \<open>persistence-mongodb/src\<close> and \<open>persistence-typeorm/src\<close>.

  The drivers' objects are records of operations on a state of the database, arguments of the
  repositories; \<open>prisma_laws\<close>, \<open>mongo_laws\<close> and \<open>typeorm_laws\<close> state the documented behaviour that the
  code relies on, of a state whose rows can be listed.  The mapper and the subclass's abstract methods
  are arguments too.  The contract of \<open>RepositoryPort\<close> is the locale \<open>repository_port\<close>.
\<close>

section \<open>The drivers\<close>

record sort_field =
  so_field :: string
  so_descending :: bool

record ('f, 'r, 'w) prisma_delegate =
  pm_find_unique :: "'f \<Rightarrow> 'w \<Rightarrow> 'r option"
  pm_find_many :: "'f option \<Rightarrow> (string \<times> string) list option \<Rightarrow> int option \<Rightarrow> int option \<Rightarrow> 'w \<Rightarrow> 'r list"
  pm_upsert :: "'f \<Rightarrow> 'r \<Rightarrow> 'r \<Rightarrow> 'w \<Rightarrow> 'w"
  pm_delete :: "'f \<Rightarrow> 'w \<Rightarrow> (js_error, 'w) outcome"
  pm_count :: "'f option \<Rightarrow> 'w \<Rightarrow> int"

record ('f, 'r, 'w) mongo_collection =
  mc_find_one :: "'f \<Rightarrow> 'w \<Rightarrow> 'r option"
  mc_find :: "'f option \<Rightarrow> (string \<times> int) list option \<Rightarrow> int \<Rightarrow> int \<Rightarrow> 'w \<Rightarrow> 'r list"
  mc_replace_one :: "'f \<Rightarrow> 'r \<Rightarrow> bool \<Rightarrow> 'w \<Rightarrow> 'w"
  mc_delete_one :: "'f \<Rightarrow> 'w \<Rightarrow> 'w"
  mc_count :: "'f option \<Rightarrow> 'w \<Rightarrow> int"

record ('f, 'r, 'w) typeorm_repository =
  tr_save :: "'r \<Rightarrow> 'w \<Rightarrow> 'w"
  tr_find_one :: "'f \<Rightarrow> 'w \<Rightarrow> 'r option"
  tr_find :: "'f option \<Rightarrow> 'w \<Rightarrow> 'r list"
  tr_count :: "'f option \<Rightarrow> 'w \<Rightarrow> int"
  tr_delete :: "'f \<Rightarrow> 'w \<Rightarrow> 'w"
  tr_find_and_count :: "'f option \<Rightarrow> (string, string) jsmap option \<Rightarrow> int \<Rightarrow> int \<Rightarrow> 'w \<Rightarrow> 'r list \<times> int"

record ('d, 'i, 'f, 'r) entity_mapping =
  en_to_row :: "'d \<Rightarrow> 'r"
  en_to_domain :: "'r \<Rightarrow> 'd"
  en_id :: "'d \<Rightarrow> 'i"
  en_filter :: "'i \<Rightarrow> 'f"

section \<open>The repositories\<close>

definition prisma_save :: "('f, 'r, 'w) prisma_delegate \<Rightarrow> ('d, 'i, 'f, 'r) entity_mapping \<Rightarrow> 'd \<Rightarrow> 'w \<Rightarrow> 'w" where
  "prisma_save m en e w = pm_upsert m (en_filter en (en_id en e)) (en_to_row en e) (en_to_row en e) w"

definition prisma_find_by_id :: "('f, 'r, 'w) prisma_delegate \<Rightarrow> ('d, 'i, 'f, 'r) entity_mapping \<Rightarrow> 'i \<Rightarrow> 'w \<Rightarrow> 'd option" where
  "prisma_find_by_id m en i w = map_option (en_to_domain en) (pm_find_unique m (en_filter en i) w)"

definition prisma_find_all :: "('f, 'r, 'w) prisma_delegate \<Rightarrow> ('d, 'i, 'f, 'r) entity_mapping \<Rightarrow> 'w \<Rightarrow> 'd list" where
  "prisma_find_all m en w = map (en_to_domain en) (pm_find_many m None None None None w)"

definition prisma_exists :: "('f, 'r, 'w) prisma_delegate \<Rightarrow> ('d, 'i, 'f, 'r) entity_mapping \<Rightarrow> 'i \<Rightarrow> 'w \<Rightarrow> bool" where
  "prisma_exists m en i w \<longleftrightarrow> pm_count m (Some (en_filter en i)) w > 0"

definition prisma_delete :: "('f, 'r, 'w) prisma_delegate \<Rightarrow> ('d, 'i, 'f, 'r) entity_mapping \<Rightarrow> 'i \<Rightarrow> 'w \<Rightarrow> (js_error, 'w) outcome" where
  "prisma_delete m en i w = pm_delete m (en_filter en i) w"

definition mongo_save :: "('f, 'r, 'w) mongo_collection \<Rightarrow> ('d, 'i, 'f, 'r) entity_mapping \<Rightarrow> 'd \<Rightarrow> 'w \<Rightarrow> 'w" where
  "mongo_save c en e w = mc_replace_one c (en_filter en (en_id en e)) (en_to_row en e) True w"

definition mongo_find_by_id :: "('f, 'r, 'w) mongo_collection \<Rightarrow> ('d, 'i, 'f, 'r) entity_mapping \<Rightarrow> 'i \<Rightarrow> 'w \<Rightarrow> 'd option" where
  "mongo_find_by_id c en i w = map_option (en_to_domain en) (mc_find_one c (en_filter en i) w)"

definition mongo_find_all :: "('f, 'r, 'w) mongo_collection \<Rightarrow> ('d, 'i, 'f, 'r) entity_mapping \<Rightarrow> 'w \<Rightarrow> 'd list" where
  "mongo_find_all c en w = map (en_to_domain en) (mc_find c None None 0 0 w)"

definition mongo_exists :: "('f, 'r, 'w) mongo_collection \<Rightarrow> ('d, 'i, 'f, 'r) entity_mapping \<Rightarrow> 'i \<Rightarrow> 'w \<Rightarrow> bool" where
  "mongo_exists c en i w \<longleftrightarrow> mc_count c (Some (en_filter en i)) w > 0"

definition mongo_delete :: "('f, 'r, 'w) mongo_collection \<Rightarrow> ('d, 'i, 'f, 'r) entity_mapping \<Rightarrow> 'i \<Rightarrow> 'w \<Rightarrow> (js_error, 'w) outcome" where
  "mongo_delete c en i w = Inr (mc_delete_one c (en_filter en i) w)"

definition typeorm_save :: "('f, 'r, 'w) typeorm_repository \<Rightarrow> ('d, 'i, 'f, 'r) entity_mapping \<Rightarrow> 'd \<Rightarrow> 'w \<Rightarrow> 'w" where
  "typeorm_save r en e w = tr_save r (en_to_row en e) w"

definition typeorm_find_by_id :: "('f, 'r, 'w) typeorm_repository \<Rightarrow> ('d, 'i, 'f, 'r) entity_mapping \<Rightarrow> 'i \<Rightarrow> 'w \<Rightarrow> 'd option" where
  "typeorm_find_by_id r en i w = map_option (en_to_domain en) (tr_find_one r (en_filter en i) w)"

definition typeorm_find_all :: "('f, 'r, 'w) typeorm_repository \<Rightarrow> ('d, 'i, 'f, 'r) entity_mapping \<Rightarrow> 'w \<Rightarrow> 'd list" where
  "typeorm_find_all r en w = map (en_to_domain en) (tr_find r None w)"

definition typeorm_exists :: "('f, 'r, 'w) typeorm_repository \<Rightarrow> ('d, 'i, 'f, 'r) entity_mapping \<Rightarrow> 'i \<Rightarrow> 'w \<Rightarrow> bool" where
  "typeorm_exists r en i w \<longleftrightarrow> tr_count r (Some (en_filter en i)) w > 0"

definition typeorm_delete :: "('f, 'r, 'w) typeorm_repository \<Rightarrow> ('d, 'i, 'f, 'r) entity_mapping \<Rightarrow> 'i \<Rightarrow> 'w \<Rightarrow> (js_error, 'w) outcome" where
  "typeorm_delete r en i w = Inr (tr_delete r (en_filter en i) w)"

definition typeorm_find_many :: "('f, 'r, 'w) typeorm_repository \<Rightarrow> ('d, 'i, 'f, 'r) entity_mapping \<Rightarrow> 'f option \<Rightarrow> 'w \<Rightarrow> 'd list" where
  "typeorm_find_many r en f w = map (en_to_domain en) (tr_find r f w)"

section \<open>Pages\<close>

record page_request =
  pg_page :: int
  pg_size :: int
  pg_sort :: "sort_field list option"

record 'd page =
  pp_items :: "'d list"
  pp_total :: int
  pp_page :: int
  pp_size :: int
  pp_has_next :: bool
  pp_has_previous :: bool

definition page_of :: "page_request \<Rightarrow> 'd list \<Rightarrow> int \<Rightarrow> 'd page" where
  "page_of req items count =
     \<lparr>pp_items = items, pp_total = count, pp_page = pg_page req, pp_size = pg_size req,
      pp_has_next = ((pg_page req - 1) * pg_size req + pg_size req < count), pp_has_previous = (pg_page req > 1)\<rparr>"

definition prisma_order :: "sort_field list option \<Rightarrow> (string \<times> string) list option" where
  "prisma_order ss = (case ss of Some (s # rest) \<Rightarrow>
       Some (map (\<lambda>x. (so_field x, if so_descending x then ''desc'' else ''asc'')) (s # rest)) | _ \<Rightarrow> None)"

definition prisma_find_page ::
  "('f, 'r, 'w) prisma_delegate \<Rightarrow> ('d, 'i, 'f, 'r) entity_mapping \<Rightarrow> page_request \<Rightarrow> 'f option \<Rightarrow> 'w \<Rightarrow> 'd page" where
  "prisma_find_page m en req f w =
     page_of req (map (en_to_domain en)
         (pm_find_many m f (prisma_order (pg_sort req)) (Some ((pg_page req - 1) * pg_size req)) (Some (pg_size req)) w))
       (pm_count m f w)"

definition mongo_sort :: "sort_field list \<Rightarrow> (string, int) jsmap" where
  "mongo_sort ss = foldl (\<lambda>m x. jset (so_field x) (if so_descending x then -1 else 1) m) [] ss"

definition mongo_find_page ::
  "('f, 'r, 'w) mongo_collection \<Rightarrow> ('d, 'i, 'f, 'r) entity_mapping \<Rightarrow> page_request \<Rightarrow> 'f option \<Rightarrow> 'w \<Rightarrow> 'd page" where
  "mongo_find_page c en req f w =
     page_of req (map (en_to_domain en)
         (mc_find c f (case pg_sort req of Some (s # rest) \<Rightarrow> Some (mongo_sort (s # rest)) | _ \<Rightarrow> None)
            ((pg_page req - 1) * pg_size req) (pg_size req) w))
       (mc_count c f w)"

definition typeorm_order :: "sort_field list option \<Rightarrow> (string, string) jsmap option" where
  "typeorm_order ss = (case ss of Some (s # rest) \<Rightarrow>
       Some (foldl (\<lambda>m x. jset (so_field x) (if so_descending x then ''DESC'' else ''ASC'') m) [] (s # rest)) | _ \<Rightarrow> None)"

definition typeorm_find_page ::
  "('f, 'r, 'w) typeorm_repository \<Rightarrow> ('d, 'i, 'f, 'r) entity_mapping \<Rightarrow> page_request \<Rightarrow> 'f option \<Rightarrow> 'w \<Rightarrow> 'd page" where
  "typeorm_find_page r en req f w =
     (let (rows, count) = tr_find_and_count r f (typeorm_order (pg_sort req)) ((pg_page req - 1) * pg_size req) (pg_size req) w
      in page_of req (map (en_to_domain en) rows) count)"

section \<open>Units of work and soft deletion\<close>

type_synonym ('w, 'a) work = "'w \<Rightarrow> (js_error, 'a) outcome \<times> 'w"

definition uow_transaction :: "(('w, 'a) work \<Rightarrow> ('w, 'a) work) \<Rightarrow> ('w, 'a) work \<Rightarrow> ('w, 'a) work" where
  "uow_transaction run work = run work"

definition uow_transaction_result ::
  "(('w, 'e + 'a) work \<Rightarrow> ('w, 'e + 'a) work) \<Rightarrow> ('w, 'e + 'a) work \<Rightarrow> ('w, 'e + 'a) work" where
  "uow_transaction_result run work = run work"

datatype session_call = SessionStarted | SessionEnded

definition mongo_with_transaction ::
  "(('w, 'a) work \<Rightarrow> ('w, 'a) work) \<Rightarrow> ('w, 'a) work \<Rightarrow> session_call list \<times> 'w \<Rightarrow> (js_error, 'a) outcome \<times> (session_call list \<times> 'w)" where
  "mongo_with_transaction run work s =
     (let (r, w1) = run work (snd s) in (r, (fst s @ [SessionStarted, SessionEnded], w1)))"

definition with_actives_only :: "(string, 'v option) jsmap option \<Rightarrow> (string, 'v option) jsmap" where
  "with_actives_only f = jset ''deletedAt'' None (case f of Some m \<Rightarrow> m | None \<Rightarrow> [])"

definition soft_delete_data :: "'v \<Rightarrow> (string, 'v option) jsmap" where
  "soft_delete_data now = [(''deletedAt'', Some now)]"

definition restore_data :: "(string, 'v option) jsmap" where
  "restore_data = [(''deletedAt'', None)]"

section \<open>What the drivers do\<close>

fun replace_first :: "('r \<Rightarrow> bool) \<Rightarrow> 'r \<Rightarrow> 'r list \<Rightarrow> 'r list" where
  "replace_first P r [] = [r]"
| "replace_first P r (x # xs) = (if P x then r # xs else x # replace_first P r xs)"

fun remove_first :: "('r \<Rightarrow> bool) \<Rightarrow> 'r list \<Rightarrow> 'r list" where
  "remove_first P [] = []"
| "remove_first P (x # xs) = (if P x then xs else x # remove_first P xs)"

definition selected :: "('f \<Rightarrow> 'r \<Rightarrow> bool) \<Rightarrow> 'f option \<Rightarrow> 'r list \<Rightarrow> 'r list" where
  "selected sel f rs = (case f of None \<Rightarrow> rs | Some x \<Rightarrow> filter (sel x) rs)"

text \<open>\<open>rows\<close> lists the rows of a state, \<open>sel\<close> tells which a filter selects, \<open>ord\<close> how an order arranges them.\<close>

definition prisma_laws ::
  "('w \<Rightarrow> 'r list) \<Rightarrow> ('f \<Rightarrow> 'r \<Rightarrow> bool) \<Rightarrow> ((string \<times> string) list option \<Rightarrow> 'r list \<Rightarrow> 'r list) \<Rightarrow> ('f, 'r, 'w) prisma_delegate \<Rightarrow> bool" where
  "prisma_laws rows sel ord m \<longleftrightarrow>
     (\<forall>xs. ord None xs = xs)
     \<and> (\<forall>f w. pm_find_unique m f w = find (sel f) (rows w))
     \<and> (\<forall>f o1 k n w. pm_find_many m f o1 k n w =
          (let xs = ord o1 (selected sel f (rows w)); ys = (case k of None \<Rightarrow> xs | Some i \<Rightarrow> drop (nat i) xs)
           in case n of None \<Rightarrow> ys | Some j \<Rightarrow> take (nat j) ys))
     \<and> (\<forall>f c r w. rows (pm_upsert m f c r w) = (if \<exists>x \<in> set (rows w). sel f x then replace_first (sel f) r (rows w) else rows w @ [c]))
     \<and> (\<forall>f w. if \<exists>x \<in> set (rows w). sel f x then \<exists>w1. pm_delete m f w = Inr w1 \<and> rows w1 = remove_first (sel f) (rows w)
            else \<exists>e. pm_delete m f w = Inl e)
     \<and> (\<forall>f w. pm_count m f w = int (length (selected sel f (rows w))))"

definition mongo_laws ::
  "('w \<Rightarrow> 'r list) \<Rightarrow> ('f \<Rightarrow> 'r \<Rightarrow> bool) \<Rightarrow> ((string \<times> int) list option \<Rightarrow> 'r list \<Rightarrow> 'r list) \<Rightarrow> ('f, 'r, 'w) mongo_collection \<Rightarrow> bool" where
  "mongo_laws rows sel ord c \<longleftrightarrow>
     (\<forall>xs. ord None xs = xs)
     \<and> (\<forall>f w. mc_find_one c f w = find (sel f) (rows w))
     \<and> (\<forall>f o1 k n w. mc_find c f o1 k n w =
          (let ys = drop (nat k) (ord o1 (selected sel f (rows w))) in if n = 0 then ys else take (nat n) ys))
     \<and> (\<forall>f r w. rows (mc_replace_one c f r True w) = replace_first (sel f) r (rows w))
     \<and> (\<forall>f w. rows (mc_delete_one c f w) = remove_first (sel f) (rows w))
     \<and> (\<forall>f w. mc_count c f w = int (length (selected sel f (rows w))))"

definition typeorm_laws ::
  "('w \<Rightarrow> 'r list) \<Rightarrow> ('f \<Rightarrow> 'r \<Rightarrow> bool) \<Rightarrow> ('r \<Rightarrow> 'r \<Rightarrow> bool) \<Rightarrow> ((string, string) jsmap option \<Rightarrow> 'r list \<Rightarrow> 'r list)
     \<Rightarrow> ('f, 'r, 'w) typeorm_repository \<Rightarrow> bool" where
  "typeorm_laws rows sel same_key ord t \<longleftrightarrow>
     (\<forall>f w. tr_find_one t f w = find (sel f) (rows w))
     \<and> (\<forall>f w. tr_find t f w = selected sel f (rows w))
     \<and> (\<forall>r w. rows (tr_save t r w) = replace_first (same_key r) r (rows w))
     \<and> (\<forall>f w. rows (tr_delete t f w) = filter (\<lambda>x. \<not> sel f x) (rows w))
     \<and> (\<forall>f w. tr_count t f w = int (length (selected sel f (rows w))))
     \<and> (\<forall>f o1 k n w. tr_find_and_count t f o1 k n w =
          (take (nat n) (drop (nat k) (ord o1 (selected sel f (rows w)))), int (length (selected sel f (rows w)))))"

text \<open>The mapper gives back what it was given, and an identity's filter selects its entity.\<close>

definition mapping_laws :: "('f \<Rightarrow> 'r \<Rightarrow> bool) \<Rightarrow> ('d, 'i, 'f, 'r) entity_mapping \<Rightarrow> bool" where
  "mapping_laws sel en \<longleftrightarrow> (\<forall>e. en_to_domain en (en_to_row en e) = e) \<and> (\<forall>e i. sel (en_filter en i) (en_to_row en e) = (en_id en e = i))"

definition table_of :: "('d, 'i, 'f, 'r) entity_mapping \<Rightarrow> 'r list \<Rightarrow> bool" where
  "table_of en rs \<longleftrightarrow> (\<exists>es. rs = map (en_to_row en) es \<and> distinct (map (en_id en) es))"

section \<open>The contract of a repository\<close>

locale repository_port =
  fixes save :: "'d \<Rightarrow> 'w \<Rightarrow> 'w"
    and find_by_id :: "'i \<Rightarrow> 'w \<Rightarrow> 'd option"
    and find_all :: "'w \<Rightarrow> 'd list"
    and exists :: "'i \<Rightarrow> 'w \<Rightarrow> bool"
    and delete :: "'i \<Rightarrow> 'w \<Rightarrow> (js_error, 'w) outcome"
    and id_of :: "'d \<Rightarrow> 'i"
    and valid :: "'w \<Rightarrow> bool"
  assumes saved_valid: "valid w \<Longrightarrow> valid (save e w)"
    and saved_found: "valid w \<Longrightarrow> find_by_id i (save e w) = (if i = id_of e then Some e else find_by_id i w)"
    and deleted_valid: "valid w \<Longrightarrow> delete i w = Inr w1 \<Longrightarrow> valid w1"
    and deleted_gone: "valid w \<Longrightarrow> delete i w = Inr w1 \<Longrightarrow> find_by_id j w1 = (if j = i then None else find_by_id j w)"
    and deletes_present: "valid w \<Longrightarrow> find_by_id i w \<noteq> None \<Longrightarrow> \<exists>w1. delete i w = Inr w1"
    and exists_found: "valid w \<Longrightarrow> exists i w = (find_by_id i w \<noteq> None)"
    and all_found: "valid w \<Longrightarrow> e \<in> set (find_all w) \<longleftrightarrow> find_by_id (id_of e) w = Some e"
    and all_once: "valid w \<Longrightarrow> distinct (map id_of (find_all w))"
begin

lemma saves_valid: "valid w \<Longrightarrow> valid (fold save es w)"
  by (induction es arbitrary: w) (auto intro: saved_valid)

lemma saves_found: "valid w \<Longrightarrow> find_by_id i (fold save es w) =
    (case map_of (rev (map (\<lambda>e. (id_of e, e)) es)) i of Some e \<Rightarrow> Some e | None \<Rightarrow> find_by_id i w)"
proof (induction es arbitrary: w)
  case (Cons e es)
  have "find_by_id i (fold save es (save e w)) =
      (case map_of (rev (map (\<lambda>e. (id_of e, e)) es)) i of Some e1 \<Rightarrow> Some e1 | None \<Rightarrow> find_by_id i (save e w))"
    by (rule Cons.IH) (use Cons.prems saved_valid in blast)
  then show ?case using saved_found [OF Cons.prems] by (auto simp: map_add_def split: option.split)
qed simp

lemma save_then_delete:
  assumes "valid w"
  obtains w1 where "delete (id_of e) (save e w) = Inr w1" "valid w1" "\<not> exists (id_of e) w1"
    "\<And>j. j \<noteq> id_of e \<Longrightarrow> find_by_id j w1 = find_by_id j w"
proof -
  have v: "valid (save e w)" using assms by (rule saved_valid)
  have "find_by_id (id_of e) (save e w) \<noteq> None" using saved_found [OF assms] by simp
  then obtain w1 where w1: "delete (id_of e) (save e w) = Inr w1" using deletes_present [OF v] by blast
  show thesis
  proof (rule that [OF w1])
    show "valid w1" using v w1 by (rule deleted_valid)
    then show "\<not> exists (id_of e) w1" using deleted_gone [OF v w1] by (simp add: exists_found)
    show "find_by_id j w1 = find_by_id j w" if "j \<noteq> id_of e" for j
      using that deleted_gone [OF v w1] saved_found [OF assms] by simp
  qed
qed

end

section \<open>The three repositories fulfil it\<close>

definition put_entity :: "('d \<Rightarrow> 'i) \<Rightarrow> 'd \<Rightarrow> 'd list \<Rightarrow> 'd list" where
  "put_entity i e es = replace_first (\<lambda>x. i x = i e) e es"

lemma ids_put: "map i (put_entity i e es) = (if i e \<in> set (map i es) then map i es else map i es @ [i e])"
  by (induction es) (auto simp: put_entity_def)

lemma distinct_put: "distinct (map i es) \<Longrightarrow> distinct (map i (put_entity i e es))"
  by (simp add: ids_put)

lemma find_put: "find (\<lambda>x. i x = j) (put_entity i e es) = (if j = i e then Some e else find (\<lambda>x. i x = j) es)"
  by (induction es) (auto simp: put_entity_def)

lemma find_kept: "find (\<lambda>x. i x = j) (filter (\<lambda>x. i x \<noteq> k) es) = (if j = k then None else find (\<lambda>x. i x = j) es)"
  by (induction es) (auto simp: find_None_iff)

lemma find_distinct: "distinct (map i es) \<Longrightarrow> find (\<lambda>x. i x = i e) es = Some e \<longleftrightarrow> e \<in> set es"
  by (induction es) (auto simp: rev_image_eqI)

lemma remove_distinct: "distinct (map i es) \<Longrightarrow> remove_first (\<lambda>x. i x = k) es = filter (\<lambda>x. i x \<noteq> k) es"
proof (induction es)
  case (Cons x es)
  then show ?case by (cases "i x = k") (auto intro!: filter_True [symmetric] simp: image_iff)
qed simp

lemma port_of_table:
  assumes dist: "\<And>w. valid w \<Longrightarrow> distinct (map i (ents w))"
    and f: "\<And>j w. valid w \<Longrightarrow> get j w = find (\<lambda>x. i x = j) (ents w)"
    and a: "\<And>w. valid w \<Longrightarrow> whole w = ents w"
    and x: "\<And>j w. valid w \<Longrightarrow> has j w \<longleftrightarrow> j \<in> i ` set (ents w)"
    and s: "\<And>e w. valid w \<Longrightarrow> valid (save e w) \<and> ents (save e w) = put_entity i e (ents w)"
    and d: "\<And>j w w1. valid w \<Longrightarrow> del j w = Inr w1 \<Longrightarrow> valid w1 \<and> ents w1 = filter (\<lambda>x. i x \<noteq> j) (ents w)"
    and p: "\<And>j w. valid w \<Longrightarrow> j \<in> i ` set (ents w) \<Longrightarrow> \<exists>w1. del j w = Inr w1"
  shows "repository_port save get whole has del i valid"
proof
  show "valid w \<Longrightarrow> valid (save e w)" for e w using s by blast
  show "valid w \<Longrightarrow> get j (save e w) = (if j = i e then Some e else get j w)" for e j w using s [of w e] by (simp add: f find_put)
  show "valid w \<Longrightarrow> del j w = Inr w1 \<Longrightarrow> valid w1" for j w w1 using d by blast
  show "valid w \<Longrightarrow> del k w = Inr w1 \<Longrightarrow> get j w1 = (if j = k then None else get j w)" for j k w w1
    using d [of w k w1] by (simp add: f find_kept)
  show "valid w \<Longrightarrow> get j w \<noteq> None \<Longrightarrow> \<exists>w1. del j w = Inr w1" for j w
    using p [of w j] by (simp add: f find_None_iff image_iff) blast
  show "valid w \<Longrightarrow> has j w = (get j w \<noteq> None)" for j w by (auto simp: f x find_None_iff)
  show "valid w \<Longrightarrow> e \<in> set (whole w) \<longleftrightarrow> get (i e) w = Some e" for e w using dist [of w] by (simp add: f a find_distinct)
  show "valid w \<Longrightarrow> distinct (map i (whole w))" for w using dist [of w] by (simp add: a)
qed

definition entities :: "('d, 'i, 'f, 'r) entity_mapping \<Rightarrow> 'r list \<Rightarrow> 'd list" where
  "entities en rs = map (en_to_domain en) rs"

lemma table_entities:
  assumes "mapping_laws sel en" and "table_of en rs"
  shows "rs = map (en_to_row en) (entities en rs)" and "distinct (map (en_id en) (entities en rs))"
    and "map_option (en_to_domain en) (find (sel (en_filter en j)) rs) = find (\<lambda>x. en_id en x = j) (entities en rs)"
    and "(length (filter (sel (en_filter en j)) rs) > 0) = (j \<in> en_id en ` set (entities en rs))"
    and "(\<exists>x \<in> set rs. sel (en_filter en j) x) = (j \<in> en_id en ` set (entities en rs))"
proof -
  obtain es where es: "rs = map (en_to_row en) es" "distinct (map (en_id en) es)" using assms(2) by (auto simp: table_of_def)
  have mapped: "en_to_domain en (en_to_row en e) = e" and sel: "sel (en_filter en k) (en_to_row en e) = (en_id en e = k)" for e k
    using assms(1) by (auto simp: mapping_laws_def)
  have ents: "entities en rs = es" by (simp add: entities_def es comp_def mapped)
  show "rs = map (en_to_row en) (entities en rs)" "distinct (map (en_id en) (entities en rs))" using es ents by simp_all
  show "map_option (en_to_domain en) (find (sel (en_filter en j)) rs) = find (\<lambda>x. en_id en x = j) (entities en rs)"
    unfolding ents unfolding es(1) by (induction es) (simp_all add: mapped sel)
  show some: "(\<exists>x \<in> set rs. sel (en_filter en j) x) = (j \<in> en_id en ` set (entities en rs))"
    unfolding ents unfolding es(1) by (auto simp: sel)
  have "(length (filter P rs) > 0) = (\<exists>x \<in> set rs. P x)" for P by (simp add: filter_empty_conv)
  then show "(length (filter (sel (en_filter en j)) rs) > 0) = (j \<in> en_id en ` set (entities en rs))" by (simp only: some)
qed

lemma table_replaced:
  assumes "mapping_laws sel en" and "table_of en rs" and "\<And>x. P (en_to_row en x) = (en_id en x = en_id en e)"
  shows "table_of en (replace_first P (en_to_row en e) rs)"
    and "entities en (replace_first P (en_to_row en e) rs) = put_entity (en_id en) e (entities en rs)"
proof -
  obtain es where es: "rs = map (en_to_row en) es" "distinct (map (en_id en) es)" using assms(2) by (auto simp: table_of_def)
  have mapped: "en_to_domain en (en_to_row en e) = e" for e using assms(1) by (auto simp: mapping_laws_def)
  have rep: "replace_first P (en_to_row en e) (map (en_to_row en) es) = map (en_to_row en) (put_entity (en_id en) e es)"
    by (induction es) (auto simp: put_entity_def assms(3))
  show "table_of en (replace_first P (en_to_row en e) rs)"
    unfolding table_of_def es(1) rep using distinct_put [OF es(2)] by blast
  show "entities en (replace_first P (en_to_row en e) rs) = put_entity (en_id en) e (entities en rs)"
    unfolding es(1) rep by (simp add: entities_def comp_def mapped)
qed

lemma table_kept:
  assumes "mapping_laws sel en" and "table_of en rs"
  shows "table_of en (filter (\<lambda>x. \<not> sel (en_filter en j) x) rs)"
    and "entities en (filter (\<lambda>x. \<not> sel (en_filter en j) x) rs) = filter (\<lambda>x. en_id en x \<noteq> j) (entities en rs)"
    and "remove_first (sel (en_filter en j)) rs = filter (\<lambda>x. \<not> sel (en_filter en j) x) rs"
proof -
  obtain es where es: "rs = map (en_to_row en) es" "distinct (map (en_id en) es)" using assms(2) by (auto simp: table_of_def)
  have mapped: "en_to_domain en (en_to_row en e) = e" and sel: "sel (en_filter en k) (en_to_row en e) = (en_id en e = k)" for e k
    using assms(1) by (auto simp: mapping_laws_def)
  have kept: "filter (\<lambda>x. \<not> sel (en_filter en j) x) (map (en_to_row en) es) = map (en_to_row en) (filter (\<lambda>x. en_id en x \<noteq> j) es)"
    by (induction es) (simp_all add: sel)
  show "table_of en (filter (\<lambda>x. \<not> sel (en_filter en j) x) rs)"
    unfolding table_of_def es(1) kept using es(2) by (intro exI [of _ "filter (\<lambda>x. en_id en x \<noteq> j) es"]) (simp add: distinct_map_filter)
  show "entities en (filter (\<lambda>x. \<not> sel (en_filter en j) x) rs) = filter (\<lambda>x. en_id en x \<noteq> j) (entities en rs)"
    unfolding es(1) kept by (simp add: entities_def comp_def mapped)
  have "remove_first (sel (en_filter en j)) (map (en_to_row en) es) = map (en_to_row en) (remove_first (\<lambda>x. en_id en x = j) es)"
    by (induction es) (simp_all add: sel)
  then show "remove_first (sel (en_filter en j)) rs = filter (\<lambda>x. \<not> sel (en_filter en j) x) rs"
    unfolding es(1) kept remove_distinct [OF es(2)] .
qed

lemma mongo_is_port:
  assumes "mongo_laws rows sel ord c" and "mapping_laws sel en"
  shows "repository_port (mongo_save c en) (mongo_find_by_id c en) (mongo_find_all c en) (mongo_exists c en) (mongo_delete c en) (en_id en)
     (\<lambda>w. table_of en (rows w))"
proof (rule port_of_table [where ents = "\<lambda>w. entities en (rows w)"])
  note t = table_entities [OF assms(2)] and k = table_kept [OF assms(2)]
  have sel: "sel (en_filter en j) (en_to_row en e) = (en_id en e = j)" for e j using assms(2) by (auto simp: mapping_laws_def)
  note r = table_replaced [OF assms(2) _ sel]
  note laws = assms(1) [unfolded mongo_laws_def]
  show "table_of en (rows w) \<Longrightarrow> distinct (map (en_id en) (entities en (rows w)))" for w by (rule t(2))
  show "table_of en (rows w) \<Longrightarrow> mongo_find_by_id c en j w = find (\<lambda>x. en_id en x = j) (entities en (rows w))" for j w
    using laws t(3) [of "rows w" j] by (simp add: mongo_find_by_id_def)
  show "table_of en (rows w) \<Longrightarrow> mongo_find_all c en w = entities en (rows w)" for w
    using laws by (simp add: mongo_find_all_def entities_def selected_def)
  show "table_of en (rows w) \<Longrightarrow> mongo_exists c en j w \<longleftrightarrow> j \<in> en_id en ` set (entities en (rows w))" for j w
    using laws t(4) [of "rows w" j] by (simp add: mongo_exists_def selected_def)
  show "table_of en (rows w) \<Longrightarrow> table_of en (rows (mongo_save c en e w)) \<and> entities en (rows (mongo_save c en e w)) = put_entity (en_id en) e (entities en (rows w))" for e w
    using laws r [of "rows w" e] by (simp add: mongo_save_def)
  show "table_of en (rows w) \<Longrightarrow> mongo_delete c en j w = Inr w1 \<Longrightarrow>
      table_of en (rows w1) \<and> entities en (rows w1) = filter (\<lambda>x. en_id en x \<noteq> j) (entities en (rows w))" for j w w1
    using laws k [of "rows w" j] by (auto simp: mongo_delete_def)
  show "\<exists>w1. mongo_delete c en j w = Inr w1" for j w by (simp add: mongo_delete_def)
qed

lemma typeorm_is_port:
  assumes "typeorm_laws rows sel same ord t" and "mapping_laws sel en"
    and key: "\<And>a b. same (en_to_row en a) (en_to_row en b) = (en_id en a = en_id en b)"
  shows "repository_port (typeorm_save t en) (typeorm_find_by_id t en) (typeorm_find_all t en) (typeorm_exists t en) (typeorm_delete t en) (en_id en)
     (\<lambda>w. table_of en (rows w))"
proof (rule port_of_table [where ents = "\<lambda>w. entities en (rows w)"])
  note tab = table_entities [OF assms(2)] and k = table_kept [OF assms(2)]
  have same: "same (en_to_row en e) (en_to_row en x) = (en_id en x = en_id en e)" for e x by (auto simp: key)
  note r = table_replaced [OF assms(2) _ same]
  note laws = assms(1) [unfolded typeorm_laws_def]
  show "table_of en (rows w) \<Longrightarrow> distinct (map (en_id en) (entities en (rows w)))" for w by (rule tab(2))
  show "table_of en (rows w) \<Longrightarrow> typeorm_find_by_id t en j w = find (\<lambda>x. en_id en x = j) (entities en (rows w))" for j w
    using laws tab(3) [of "rows w" j] by (simp add: typeorm_find_by_id_def)
  show "table_of en (rows w) \<Longrightarrow> typeorm_find_all t en w = entities en (rows w)" for w
    using laws by (simp add: typeorm_find_all_def entities_def selected_def)
  show "table_of en (rows w) \<Longrightarrow> typeorm_exists t en j w \<longleftrightarrow> j \<in> en_id en ` set (entities en (rows w))" for j w
    using laws tab(4) [of "rows w" j] by (simp add: typeorm_exists_def selected_def)
  show "table_of en (rows w) \<Longrightarrow> table_of en (rows (typeorm_save t en e w)) \<and> entities en (rows (typeorm_save t en e w)) = put_entity (en_id en) e (entities en (rows w))" for e w
    using laws r [of "rows w" e] by (simp add: typeorm_save_def)
  show "table_of en (rows w) \<Longrightarrow> typeorm_delete t en j w = Inr w1 \<Longrightarrow>
      table_of en (rows w1) \<and> entities en (rows w1) = filter (\<lambda>x. en_id en x \<noteq> j) (entities en (rows w))" for j w w1
    using laws k [of "rows w" j] by (auto simp: typeorm_delete_def)
  show "\<exists>w1. typeorm_delete t en j w = Inr w1" for j w by (simp add: typeorm_delete_def)
qed

lemma prisma_is_port:
  assumes "prisma_laws rows sel ord m" and "mapping_laws sel en"
  shows "repository_port (prisma_save m en) (prisma_find_by_id m en) (prisma_find_all m en) (prisma_exists m en) (prisma_delete m en) (en_id en)
     (\<lambda>w. table_of en (rows w))"
proof (rule port_of_table [where ents = "\<lambda>w. entities en (rows w)"])
  note t = table_entities [OF assms(2)] and k = table_kept [OF assms(2)]
  have sel: "sel (en_filter en j) (en_to_row en e) = (en_id en e = j)" for e j using assms(2) by (auto simp: mapping_laws_def)
  note r = table_replaced [OF assms(2) _ sel]
  note laws = assms(1) [unfolded prisma_laws_def]
  have absent: "\<not> (\<exists>x \<in> set rs. P x) \<Longrightarrow> replace_first P c rs = rs @ [c]" for P c and rs :: "'r list"
    by (induction rs) auto
  show "table_of en (rows w) \<Longrightarrow> distinct (map (en_id en) (entities en (rows w)))" for w by (rule t(2))
  show "table_of en (rows w) \<Longrightarrow> prisma_find_by_id m en j w = find (\<lambda>x. en_id en x = j) (entities en (rows w))" for j w
    using laws t(3) [of "rows w" j] by (simp add: prisma_find_by_id_def)
  show "table_of en (rows w) \<Longrightarrow> prisma_find_all m en w = entities en (rows w)" for w
    using laws by (simp add: prisma_find_all_def entities_def selected_def)
  show "table_of en (rows w) \<Longrightarrow> prisma_exists m en j w \<longleftrightarrow> j \<in> en_id en ` set (entities en (rows w))" for j w
    using laws t(4) [of "rows w" j] by (simp add: prisma_exists_def selected_def)
  have saved: "rows (prisma_save m en e w) = replace_first (sel (en_filter en (en_id en e))) (en_to_row en e) (rows w)" for e w
    using laws absent [of "rows w" "sel (en_filter en (en_id en e))"] by (simp add: prisma_save_def)
  show "table_of en (rows w) \<Longrightarrow> table_of en (rows (prisma_save m en e w)) \<and> entities en (rows (prisma_save m en e w)) = put_entity (en_id en) e (entities en (rows w))" for e w
    using r [of "rows w" e] by (simp add: saved)
  have deleted: "if \<exists>x \<in> set (rows w). sel f x then \<exists>w1. pm_delete m f w = Inr w1 \<and> rows w1 = remove_first (sel f) (rows w)
            else \<exists>e. pm_delete m f w = Inl e" for f w using laws by blast
  show "table_of en (rows w) \<Longrightarrow> prisma_delete m en j w = Inr w1 \<Longrightarrow>
      table_of en (rows w1) \<and> entities en (rows w1) = filter (\<lambda>x. en_id en x \<noteq> j) (entities en (rows w))" for j w w1
    using deleted [of w "en_filter en j"] k [of "rows w" j] by (auto simp: prisma_delete_def split: if_splits)
  show "table_of en (rows w) \<Longrightarrow> j \<in> en_id en ` set (entities en (rows w)) \<Longrightarrow> \<exists>w1. prisma_delete m en j w = Inr w1" for j w
    using deleted [of w "en_filter en j"] t(5) [of "rows w" j] by (auto simp: prisma_delete_def split: if_splits)
qed

text \<open>Drivers over a list of rows, which follow the laws, and the repositories on them.\<close>

definition pair_mapping :: "(nat \<times> string, nat, nat, nat \<times> string) entity_mapping" where
  "pair_mapping = \<lparr>en_to_row = id, en_to_domain = id, en_id = fst, en_filter = id\<rparr>"

definition pair_sel :: "nat \<Rightarrow> nat \<times> string \<Rightarrow> bool" where
  "pair_sel i r \<longleftrightarrow> fst r = i"

definition list_prisma :: "(nat, nat \<times> string, (nat \<times> string) list) prisma_delegate" where
  "list_prisma =
     \<lparr>pm_find_unique = (\<lambda>f w. find (pair_sel f) w),
      pm_find_many = (\<lambda>f o1 k n w. let xs = selected pair_sel f w; ys = (case k of None \<Rightarrow> xs | Some i \<Rightarrow> drop (nat i) xs)
        in case n of None \<Rightarrow> ys | Some j \<Rightarrow> take (nat j) ys),
      pm_upsert = (\<lambda>f c r w. if \<exists>x \<in> set w. pair_sel f x then replace_first (pair_sel f) r w else w @ [c]),
      pm_delete = (\<lambda>f w. if \<exists>x \<in> set w. pair_sel f x then Inr (remove_first (pair_sel f) w) else Inl (plain_error ''P2025'')),
      pm_count = (\<lambda>f w. int (length (selected pair_sel f w)))\<rparr>"

definition list_mongo :: "(nat, nat \<times> string, (nat \<times> string) list) mongo_collection" where
  "list_mongo =
     \<lparr>mc_find_one = (\<lambda>f w. find (pair_sel f) w),
      mc_find = (\<lambda>f o1 k n w. let ys = drop (nat k) (selected pair_sel f w) in if n = 0 then ys else take (nat n) ys),
      mc_replace_one = (\<lambda>f r u w. replace_first (pair_sel f) r w), mc_delete_one = (\<lambda>f w. remove_first (pair_sel f) w),
      mc_count = (\<lambda>f w. int (length (selected pair_sel f w)))\<rparr>"

definition list_typeorm :: "(nat, nat \<times> string, (nat \<times> string) list) typeorm_repository" where
  "list_typeorm =
     \<lparr>tr_save = (\<lambda>r w. replace_first (\<lambda>x. fst r = fst x) r w), tr_find_one = (\<lambda>f w. find (pair_sel f) w), tr_find = (\<lambda>f w. selected pair_sel f w),
      tr_count = (\<lambda>f w. int (length (selected pair_sel f w))), tr_delete = (\<lambda>f w. filter (\<lambda>x. \<not> pair_sel f x) w),
      tr_find_and_count = (\<lambda>f o1 k n w. (take (nat n) (drop (nat k) (selected pair_sel f w)), int (length (selected pair_sel f w))))\<rparr>"

lemma list_drivers:
  "prisma_laws (\<lambda>w. w) pair_sel (\<lambda>_ xs. xs) list_prisma" "mongo_laws (\<lambda>w. w) pair_sel (\<lambda>_ xs. xs) list_mongo"
  "typeorm_laws (\<lambda>w. w) pair_sel (\<lambda>a b. fst a = fst b) (\<lambda>_ xs. xs) list_typeorm" "mapping_laws pair_sel pair_mapping"
  by (simp_all add: prisma_laws_def list_prisma_def mongo_laws_def list_mongo_def typeorm_laws_def list_typeorm_def mapping_laws_def
      pair_mapping_def pair_sel_def)

lemma list_table: "table_of pair_mapping [(1, ''a''), (2, ''b'')]" "table_of pair_mapping []"
  by (auto simp: table_of_def pair_mapping_def intro!: exI [of _ "[(1, ''a''), (2, ''b'')]"])

interpretation prisma: repository_port "prisma_save list_prisma pair_mapping" "prisma_find_by_id list_prisma pair_mapping"
  "prisma_find_all list_prisma pair_mapping" "prisma_exists list_prisma pair_mapping" "prisma_delete list_prisma pair_mapping"
  "en_id pair_mapping" "\<lambda>w. table_of pair_mapping w"
  by (rule prisma_is_port [OF list_drivers(1,4)])

interpretation mongo: repository_port "mongo_save list_mongo pair_mapping" "mongo_find_by_id list_mongo pair_mapping"
  "mongo_find_all list_mongo pair_mapping" "mongo_exists list_mongo pair_mapping" "mongo_delete list_mongo pair_mapping"
  "en_id pair_mapping" "\<lambda>w. table_of pair_mapping w"
  by (rule mongo_is_port [OF list_drivers(2,4)])

interpretation typeorm: repository_port "typeorm_save list_typeorm pair_mapping" "typeorm_find_by_id list_typeorm pair_mapping"
  "typeorm_find_all list_typeorm pair_mapping" "typeorm_exists list_typeorm pair_mapping" "typeorm_delete list_typeorm pair_mapping"
  "en_id pair_mapping" "\<lambda>w. table_of pair_mapping w"
  by (rule typeorm_is_port [OF list_drivers(3,4)]) (simp add: pair_mapping_def)

section \<open>What the repositories promise\<close>



text \<open>An entity that is saved and deleted is gone, and no other is touched.\<close>

theorem saved_and_deleted:
  assumes "mapping_laws sel en" and "table_of en (rows w)"
  shows "prisma_laws rows sel o1 m \<Longrightarrow> \<exists>w1. prisma_delete m en (en_id en e) (prisma_save m en e w) = Inr w1
           \<and> \<not> prisma_exists m en (en_id en e) w1 \<and> (\<forall>j. j \<noteq> en_id en e \<longrightarrow> prisma_find_by_id m en j w1 = prisma_find_by_id m en j w)"
    and "mongo_laws rows sel o2 c \<Longrightarrow> \<exists>w1. mongo_delete c en (en_id en e) (mongo_save c en e w) = Inr w1
           \<and> \<not> mongo_exists c en (en_id en e) w1 \<and> (\<forall>j. j \<noteq> en_id en e \<longrightarrow> mongo_find_by_id c en j w1 = mongo_find_by_id c en j w)"
proof -
  show "\<exists>w1. prisma_delete m en (en_id en e) (prisma_save m en e w) = Inr w1
           \<and> \<not> prisma_exists m en (en_id en e) w1 \<and> (\<forall>j. j \<noteq> en_id en e \<longrightarrow> prisma_find_by_id m en j w1 = prisma_find_by_id m en j w)"
    if "prisma_laws rows sel o1 m"
    by (rule repository_port.save_then_delete [where valid = "\<lambda>w. table_of en (rows w)", OF prisma_is_port [OF that assms(1)] assms(2), of e]) blast
  show "\<exists>w1. mongo_delete c en (en_id en e) (mongo_save c en e w) = Inr w1
           \<and> \<not> mongo_exists c en (en_id en e) w1 \<and> (\<forall>j. j \<noteq> en_id en e \<longrightarrow> mongo_find_by_id c en j w1 = mongo_find_by_id c en j w)"
    if "mongo_laws rows sel o2 c"
    by (rule repository_port.save_then_delete [where valid = "\<lambda>w. table_of en (rows w)", OF mongo_is_port [OF that assms(1)] assms(2), of e]) blast
qed

theorem saved_and_deleted_witness:
  "\<exists>w1. mongo_delete list_mongo pair_mapping (en_id pair_mapping (3, ''c'')) (mongo_save list_mongo pair_mapping (3, ''c'') [(1, ''a''), (2, ''b'')]) = Inr w1
     \<and> \<not> mongo_exists list_mongo pair_mapping (en_id pair_mapping (3, ''c'')) w1
     \<and> (\<forall>j. j \<noteq> en_id pair_mapping (3, ''c'') \<longrightarrow> mongo_find_by_id list_mongo pair_mapping j w1 = mongo_find_by_id list_mongo pair_mapping j [(1, ''a''), (2, ''b'')])"
  by (rule saved_and_deleted(2) [OF list_drivers(4) list_table(1) list_drivers(2)])

text \<open>Deleting what is not there is an error in one repository and nothing in the others.\<close>

theorem deleting_the_absent:
  assumes "mapping_laws sel en" and "table_of en (rows w)" and "i \<notin> en_id en ` set (entities en (rows w))"
  shows "prisma_laws rows sel o1 m \<Longrightarrow> \<exists>e. prisma_delete m en i w = Inl e"
    and "mongo_laws rows sel o2 c \<Longrightarrow> \<exists>w1. mongo_delete c en i w = Inr w1 \<and> rows w1 = rows w"
    and "typeorm_laws rows sel same o3 t \<Longrightarrow> \<exists>w1. typeorm_delete t en i w = Inr w1 \<and> rows w1 = rows w"
proof -
  have none: "\<not> (\<exists>x \<in> set (rows w). sel (en_filter en i) x)" using table_entities(5) [OF assms(1,2), of i] assms(3) by blast
  then have keep: "filter (\<lambda>x. \<not> sel (en_filter en i) x) (rows w) = rows w" by (intro filter_True) blast
  then have rm: "remove_first (sel (en_filter en i)) (rows w) = rows w" using table_kept(3) [OF assms(1,2), of i] by simp
  show "prisma_laws rows sel o1 m \<Longrightarrow> \<exists>e. prisma_delete m en i w = Inl e"
    using none unfolding prisma_laws_def prisma_delete_def by meson
  show "mongo_laws rows sel o2 c \<Longrightarrow> \<exists>w1. mongo_delete c en i w = Inr w1 \<and> rows w1 = rows w"
    using rm by (simp add: mongo_laws_def mongo_delete_def)
  show "typeorm_laws rows sel same o3 t \<Longrightarrow> \<exists>w1. typeorm_delete t en i w = Inr w1 \<and> rows w1 = rows w"
    using keep by (simp add: typeorm_laws_def typeorm_delete_def)
qed

theorem deleting_the_absent_witness: "\<exists>e. prisma_delete list_prisma pair_mapping 7 [(1, ''a''), (2, ''b'')] = Inl e"
  by (rule deleting_the_absent(1) [OF list_drivers(4) list_table(1) _ list_drivers(1)]) (simp add: entities_def pair_mapping_def)

section \<open>Pages and transactions\<close>

lemma windows_join: "concat (map (\<lambda>i. take n (drop (i * n) xs)) [0..<k]) = take (k * n) xs"
proof (induction k)
  case (Suc k)
  then show ?case using take_add [of "k * n" n xs] by (simp add: add.commute)
qed simp

text \<open>
  The pages of a paginator, one after the other, are the rows that are selected, in their order; a page has
  a next one exactly when there are rows after it.
\<close>

theorem pages_cover_rows:
  fixes w :: 'w and f :: "'f option" and s :: "sort_field list option" and en :: "('d, 'i, 'f, 'r) entity_mapping"
  assumes "prisma_laws (rows :: 'w \<Rightarrow> 'r list) sel ord m" and "n > 0"
  defines "page \<equiv> \<lambda>i. prisma_find_page m en \<lparr>pg_page = int i + 1, pg_size = int n, pg_sort = s\<rparr> f w"
  shows "concat (map (\<lambda>i. pp_items (page i)) [0..<k]) = map (en_to_domain en) (take (k * n) (ord (prisma_order s) (selected sel f (rows w))))"
    and "length (ord (prisma_order s) (selected sel f (rows w))) = length (selected sel f (rows w)) \<Longrightarrow> pp_has_next (page i) \<longleftrightarrow> pp_items (page (Suc i)) \<noteq> []"
proof -
  let ?xs = "ord (prisma_order s) (selected sel f (rows w))"
  have skip: "nat (int i * int n) = i * n" for i by (metis nat_int of_nat_mult)
  have "pm_find_many m f o1 (Some k) (Some l) w = take (nat l) (drop (nat k) (ord o1 (selected sel f (rows w))))" for o1 k l
    using assms(1) unfolding prisma_laws_def Let_def by (metis (no_types, lifting) option.simps(5))
  then have many: "pm_find_many m f (prisma_order s) (Some (int i * int n)) (Some (int n)) w = take n (drop (i * n) ?xs)" for i
    by (simp add: skip)
  have count: "pm_count m f w = int (length (selected sel f (rows w)))" using assms(1) unfolding prisma_laws_def by blast
  have page: "page i = page_of \<lparr>pg_page = int i + 1, pg_size = int n, pg_sort = s\<rparr> (map (en_to_domain en) (take n (drop (i * n) ?xs))) (int (length (selected sel f (rows w))))" for i
    by (simp add: page_def prisma_find_page_def count many)
  have "concat (map (\<lambda>i. pp_items (page i)) [0..<k]) = map (en_to_domain en) (concat (map (\<lambda>i. take n (drop (i * n) ?xs)) [0..<k]))"
    unfolding page by (simp add: page_of_def map_concat comp_def)
  then show "concat (map (\<lambda>i. pp_items (page i)) [0..<k]) = map (en_to_domain en) (take (k * n) ?xs)"
    by (simp only: windows_join)
  assume len: "length ?xs = length (selected sel f (rows w))"
  have "int i * int n + int n < int (length ?xs) \<longleftrightarrow> Suc i * n < length ?xs"
    unfolding of_nat_mult [symmetric] of_nat_add [symmetric] of_nat_less_iff by (simp add: add.commute)
  then show "pp_has_next (page i) \<longleftrightarrow> pp_items (page (Suc i)) \<noteq> []"
    unfolding page using len assms(2) by (simp add: page_of_def not_le)
qed

theorem pages_cover_rows_witness:
  "concat (map (\<lambda>i. pp_items (prisma_find_page list_prisma pair_mapping \<lparr>pg_page = int i + 1, pg_size = int 2, pg_sort = None\<rparr> None [(1, ''a''), (2, ''b'')])) [0..<3])
     = map (en_to_domain pair_mapping) (take (3 * 2) [(1, ''a''), (2, ''b'')])"
  using pages_cover_rows(1) [OF list_drivers(1), of 2 pair_mapping None None "[(1, ''a''), (2, ''b'')]" 3] by (simp add: selected_def prisma_order_def)

text \<open>The three paginators give the same page, if their orders agree and the size is positive; of size zero one gives all rows.\<close>

theorem paginators_agree:
  assumes "prisma_laws rows sel o1 m" and "mongo_laws rows sel o2 c" and "typeorm_laws rows sel same o3 t" and "pg_sort req = None"
    and "\<And>xs. o3 None xs = xs"
  shows "pg_size req > 0 \<Longrightarrow> mongo_find_page c en req f w = prisma_find_page m en req f w"
    and "typeorm_find_page t en req f w = prisma_find_page m en req f w"
    and "pg_size req = 0 \<Longrightarrow> pg_page req = 1 \<Longrightarrow> pp_items (mongo_find_page c en req f w) = map (en_to_domain en) (selected sel f (rows w))
           \<and> pp_items (prisma_find_page m en req f w) = []"
  using assms
  by (simp_all add: mongo_find_page_def prisma_find_page_def typeorm_find_page_def page_of_def prisma_laws_def mongo_laws_def typeorm_laws_def
      prisma_order_def typeorm_order_def Let_def)

theorem paginators_agree_witness:
  "mongo_find_page list_mongo pair_mapping \<lparr>pg_page = 1, pg_size = 5, pg_sort = None\<rparr> None [(1, ''a''), (2, ''b'')]
     = prisma_find_page list_prisma pair_mapping \<lparr>pg_page = 1, pg_size = 5, pg_sort = None\<rparr> None [(1, ''a''), (2, ''b'')]"
  by (rule paginators_agree(1) [OF list_drivers(1-3)]) simp_all

text \<open>What drivers promise of transactions: all is undone when the work throws.\<close>

definition commits :: "(('w, 'a) work \<Rightarrow> ('w, 'a) work) \<Rightarrow> bool" where
  "commits run \<longleftrightarrow> (\<forall>work w. run work w = (case work w of (Inl e, w1) \<Rightarrow> (Inl e, w) | (Inr a, w1) \<Rightarrow> (Inr a, w1)))"

text \<open>
  Work that throws leaves no trace; work that returns a failed result instead has its writes committed.
  The session of MongoDB is ended in both cases.
\<close>

theorem failed_results_are_committed:
  assumes "commits run"
  shows "work w = (Inl e, w1) \<Longrightarrow> uow_transaction_result run work w = (Inl e, w)"
    and "work w = (Inr (Inl err), w1) \<Longrightarrow> uow_transaction_result run work w = (Inr (Inl err), w1)"
    and "work w = (Inl e, w1) \<Longrightarrow> mongo_with_transaction run work (cs, w) = (Inl e, (cs @ [SessionStarted, SessionEnded], w))"
    and "work w = (Inr (Inl err), w1) \<Longrightarrow> mongo_with_transaction run work (cs, w) = (Inr (Inl err), (cs @ [SessionStarted, SessionEnded], w1))"
  using assms by (simp_all add: commits_def uow_transaction_result_def mongo_with_transaction_def)

theorem failed_results_are_committed_witness:
  "uow_transaction_result (\<lambda>work w. case work w of (Inl e, w1) \<Rightarrow> (Inl e, w) | (Inr a, w1) \<Rightarrow> (Inr a, w1))
     (\<lambda>w. (Inr (Inl ''full'' :: string + unit), w + 1)) (0 :: nat) = (Inr (Inl ''full''), 1)"
  by (rule failed_results_are_committed(2)) (simp_all add: commits_def)

text \<open>Active rows: whatever the filter says of deletion is replaced.\<close>

lemma actives_only: "jget (with_actives_only f) k = (if k = ''deletedAt'' then Some None else case f of None \<Rightarrow> None | Some m \<Rightarrow> jget m k)"
  by (simp add: with_actives_only_def split: option.split)

end
