(* ===== verification/Pipelines.thy ===== *)
theory Pipelines
  imports Prelude
begin

text \<open>
  The data-pipeline package: sources, transformers, destinations and the run of a pipeline
  (\<open>DataSource.ts\<close>, \<open>Transformer.ts\<close>, \<open>DataDestination.ts\<close>, \<open>DataPipeline.ts\<close>), processing in batches
  and item by item (\<open>BatchProcessor.ts\<close>, \<open>StreamProcessor.ts\<close>), the dead letter queue
  (\<open>DeadLetterQueue.ts\<close>) and the validation of records (\<open>DataValidator.ts\<close>).

  A source is the items its iterator yields and what it throws after them, if anything.  A callback
  is a function of its arguments and a world that returns the world after it.
\<close>

section \<open>Sources, transformers and destinations\<close>

record 'r data_source =
  yields :: "'r list"
  breaks_with :: "js_error option"

definition array_source :: "'r list \<Rightarrow> 'r data_source" where
  "array_source rs = \<lparr>yields = rs, breaks_with = None\<rparr>"

type_synonym 'r transformer = "'r \<Rightarrow> (js_error, 'r) outcome"

fun transform_record :: "'r transformer list \<Rightarrow> 'r \<Rightarrow> (js_error, 'r) outcome" where
  "transform_record [] r = Inr r"
| "transform_record (t # ts) r = (case t r of Inl e \<Rightarrow> Inl e | Inr r' \<Rightarrow> transform_record ts r')"

text \<open>The generator ends with the first error, of the source or of a transformer.\<close>

fun transform_items :: "'r transformer list \<Rightarrow> 'r list \<Rightarrow> js_error option \<Rightarrow> 'r data_source" where
  "transform_items ts [] e = \<lparr>yields = [], breaks_with = e\<rparr>"
| "transform_items ts (r # rs) e = (case transform_record ts r of
     Inl e' \<Rightarrow> \<lparr>yields = [], breaks_with = Some e'\<rparr>
   | Inr r' \<Rightarrow> (let s = transform_items ts rs e in s\<lparr>yields := r' # yields s\<rparr>))"

definition apply_transformers :: "'r data_source \<Rightarrow> 'r transformer list \<Rightarrow> 'r data_source" where
  "apply_transformers s ts = transform_items ts (yields s) (breaks_with s)"

type_synonym ('w, 'r) data_destination = "'r list \<Rightarrow> 'w \<Rightarrow> 'w \<times> (js_error, unit) outcome"

definition memory_write :: "('r list, 'r) data_destination" where
  "memory_write rs written = (written @ rs, Inr ())"

definition memory_count :: "'r list \<Rightarrow> int" where
  "memory_count written = int (length written)"

definition memory_clear :: "'r list \<Rightarrow> 'r list" where
  "memory_clear written = []"

record pipeline_result =
  extracted :: int
  transformed :: int
  loaded :: int
  pl_failed :: int
  duration_ms :: int

text \<open>\<open>t0\<close> and \<open>t1\<close> are the times at the start and at the end of the run.\<close>

definition run_pipeline :: "'r data_source \<Rightarrow> 'r transformer list \<Rightarrow> ('w, 'r) data_destination
    \<Rightarrow> int \<Rightarrow> int \<Rightarrow> 'w \<Rightarrow> 'w \<times> (js_error, pipeline_result) outcome" where
  "run_pipeline s ts write t0 t1 w = (let out = apply_transformers s ts; rs = yields out; n = int (length rs) in
     case breaks_with out of
       Some e \<Rightarrow> (w, Inl e)
     | None \<Rightarrow> (case write rs w of (w', r) \<Rightarrow>
         let failed = (if is_returned r then 0 else n) in
         (w', Inr \<lparr>extracted = n, transformed = n, loaded = n - failed, pl_failed = failed,
                   duration_ms = t1 - t0\<rparr>)))"

section \<open>Batches\<close>

text \<open>A callback can throw an error or any other value, of which the code takes \<open>String(err)\<close>.\<close>

datatype thrown_value = ThrownError js_error | ThrownOther string

definition to_error :: "thrown_value \<Rightarrow> js_error" where
  "to_error v = (case v of ThrownError e \<Rightarrow> e | ThrownOther s \<Rightarrow> plain_error s)"

type_synonym ('w, 'a, 'b) handler = "'a \<Rightarrow> 'w \<Rightarrow> 'w \<times> (thrown_value, 'b) outcome"

type_synonym ('w, 'a) error_callback = "js_error \<Rightarrow> 'a \<Rightarrow> 'w \<Rightarrow> 'w \<times> (thrown_value, unit) outcome"

record batch_result =
  bt_processed :: int
  batches :: int
  bt_failed :: int

text \<open>The pair of \<open>processed\<close> and \<open>failed\<close>; what \<open>onError\<close> throws leaves the \<open>catch\<close> block.\<close>

definition flush_batch :: "('w, 'a list, unit) handler \<Rightarrow> ('w, 'a list) error_callback option
    \<Rightarrow> 'a list \<Rightarrow> 'w \<Rightarrow> 'w \<times> (thrown_value, int \<times> int) outcome" where
  "flush_batch handler on_error batch w = (case handler batch w of
     (w', Inr u) \<Rightarrow> (w', Inr (int (length batch), 0))
   | (w', Inl v) \<Rightarrow> (case on_error of
       None \<Rightarrow> (w', Inr (0, int (length batch)))
     | Some f \<Rightarrow> (case f (to_error v) batch w' of
         (w'', Inr u) \<Rightarrow> (w'', Inr (0, int (length batch)))
       | (w'', Inl v') \<Rightarrow> (w'', Inl v'))))"

definition count_batch :: "int \<times> int \<Rightarrow> batch_result \<Rightarrow> batch_result" where
  "count_batch p s = (case p of (processed, failed) \<Rightarrow> s\<lparr>bt_processed := bt_processed s + processed,
     bt_failed := bt_failed s + failed, batches := batches s + (if processed > 0 then 1 else 0)\<rparr>)"

fun batch_loop :: "('w, 'a list, unit) handler \<Rightarrow> ('w, 'a list) error_callback option \<Rightarrow> int
    \<Rightarrow> 'a list \<Rightarrow> thrown_value option \<Rightarrow> 'a list \<Rightarrow> batch_result \<Rightarrow> 'w
    \<Rightarrow> 'w \<times> (thrown_value, batch_result) outcome" where
  "batch_loop handler on_error n [] broken batch s w = (case broken of
     Some v \<Rightarrow> (w, Inl v)
   | None \<Rightarrow> if batch = [] then (w, Inr s)
       else (case flush_batch handler on_error batch w of
         (w', Inl v) \<Rightarrow> (w', Inl v)
       | (w', Inr p) \<Rightarrow> (w', Inr (count_batch p s))))"
| "batch_loop handler on_error n (x # xs) broken batch s w =
     (if int (length (batch @ [x])) \<ge> n
      then (case flush_batch handler on_error (batch @ [x]) w of
         (w', Inl v) \<Rightarrow> (w', Inl v)
       | (w', Inr p) \<Rightarrow> batch_loop handler on_error n xs broken [] (count_batch p s) w')
      else batch_loop handler on_error n xs broken (batch @ [x]) s w)"

definition no_batches :: batch_result where
  "no_batches = \<lparr>bt_processed = 0, batches = 0, bt_failed = 0\<rparr>"

definition process_batches :: "'a data_source \<Rightarrow> ('w, 'a list, unit) handler
    \<Rightarrow> ('w, 'a list) error_callback option \<Rightarrow> int \<Rightarrow> 'w \<Rightarrow> 'w \<times> (thrown_value, batch_result) outcome" where
  "process_batches src handler on_error n w =
     batch_loop handler on_error n (yields src) (map_option ThrownError (breaks_with src)) [] no_batches w"

section \<open>Item by item\<close>

record stream_result =
  st_processed :: int
  st_skipped :: int
  st_failed :: int

fun stream_loop :: "('w, 'a, 'a option) handler \<Rightarrow> ('w, 'a) error_callback option
    \<Rightarrow> 'a list \<Rightarrow> thrown_value option \<Rightarrow> stream_result \<Rightarrow> 'w \<Rightarrow> 'w \<times> (thrown_value, stream_result) outcome" where
  "stream_loop handler on_error [] broken s w = (case broken of Some v \<Rightarrow> (w, Inl v) | None \<Rightarrow> (w, Inr s))"
| "stream_loop handler on_error (x # xs) broken s w = (case handler x w of
     (w', Inr None) \<Rightarrow> stream_loop handler on_error xs broken (s\<lparr>st_skipped := st_skipped s + 1\<rparr>) w'
   | (w', Inr (Some y)) \<Rightarrow> stream_loop handler on_error xs broken (s\<lparr>st_processed := st_processed s + 1\<rparr>) w'
   | (w', Inl v) \<Rightarrow> (let s' = s\<lparr>st_failed := st_failed s + 1\<rparr> in case on_error of
       None \<Rightarrow> stream_loop handler on_error xs broken s' w'
     | Some f \<Rightarrow> (case f (to_error v) x w' of
         (w'', Inr u) \<Rightarrow> stream_loop handler on_error xs broken s' w''
       | (w'', Inl v') \<Rightarrow> (w'', Inl v'))))"

definition process_stream :: "'a data_source \<Rightarrow> ('w, 'a, 'a option) handler
    \<Rightarrow> ('w, 'a) error_callback option \<Rightarrow> 'w \<Rightarrow> 'w \<times> (thrown_value, stream_result) outcome" where
  "process_stream src handler on_error w = stream_loop handler on_error (yields src)
     (map_option ThrownError (breaks_with src)) \<lparr>st_processed = 0, st_skipped = 0, st_failed = 0\<rparr> w"

section \<open>The dead letter queue\<close>

record 'd dlq_entry =
  dl_data :: 'd
  dl_error :: js_error
  enqueued_at :: int
  retries :: int

definition dlq_enqueue :: "'d \<Rightarrow> js_error \<Rightarrow> int \<Rightarrow> 'd dlq_entry list \<Rightarrow> 'd dlq_entry list" where
  "dlq_enqueue d e now store = store @ [\<lparr>dl_data = d, dl_error = e, enqueued_at = now, retries = 0\<rparr>]"

definition dlq_dequeue :: "'d dlq_entry list \<Rightarrow> 'd dlq_entry list \<times> 'd dlq_entry option" where
  "dlq_dequeue store = (case store of [] \<Rightarrow> ([], None) | x # xs \<Rightarrow> (xs, Some x))"

definition dlq_size :: "'d dlq_entry list \<Rightarrow> int" where
  "dlq_size store = int (length store)"

definition dlq_clear :: "'d dlq_entry list \<Rightarrow> 'd dlq_entry list" where
  "dlq_clear store = []"

definition dlq_retried :: "'d dlq_entry \<Rightarrow> thrown_value \<Rightarrow> 'd dlq_entry" where
  "dlq_retried x v = x\<lparr>dl_error := to_error v, retries := retries x + 1\<rparr>"

text \<open>
  The entries are taken out of the queue first; the handler can use the queue while it runs, so
  its world has the queue as its second part.
\<close>

fun reprocess_loop :: "('w \<times> 'd dlq_entry list, 'd, unit) handler \<Rightarrow> 'd dlq_entry list
    \<Rightarrow> 'w \<times> 'd dlq_entry list \<Rightarrow> int \<times> int \<Rightarrow> ('w \<times> 'd dlq_entry list) \<times> int \<times> int" where
  "reprocess_loop handler [] q c = (q, c)"
| "reprocess_loop handler (x # xs) q c = (case handler (dl_data x) q of
     (q', Inr u) \<Rightarrow> reprocess_loop handler xs q' (fst c + 1, snd c)
   | (q', Inl v) \<Rightarrow> reprocess_loop handler xs (fst q', snd q' @ [dlq_retried x v]) (fst c, snd c + 1))"

definition dlq_reprocess :: "('w \<times> 'd dlq_entry list, 'd, unit) handler \<Rightarrow> 'w \<times> 'd dlq_entry list
    \<Rightarrow> ('w \<times> 'd dlq_entry list) \<times> int \<times> int" where
  "dlq_reprocess handler q = reprocess_loop handler (snd q) (fst q, []) (0, 0)"

section \<open>Validation\<close>

record 'r data_rule =
  dr_name :: string
  dr_validate :: "'r \<Rightarrow> string option"

record 'r data_error =
  de_record :: 'r
  rule_names :: "string list"
  de_messages :: "string list"

record 'r data_report =
  all_valid :: bool
  data_errors :: "'r data_error list"

definition add_data_rule :: "'r data_rule \<Rightarrow> 'r data_rule list \<Rightarrow> 'r data_rule list" where
  "add_data_rule rule rules = rules @ [rule]"

fun validate_record :: "'r data_rule list \<Rightarrow> 'r \<Rightarrow> string list" where
  "validate_record [] r = []"
| "validate_record (rule # rules) r = (case dr_validate rule r of
     Some msg \<Rightarrow> msg # validate_record rules r
   | None \<Rightarrow> validate_record rules r)"

fun failing_names :: "'r data_rule list \<Rightarrow> 'r \<Rightarrow> string list" where
  "failing_names [] r = []"
| "failing_names (rule # rules) r = (case dr_validate rule r of
     Some msg \<Rightarrow> dr_name rule # failing_names rules r
   | None \<Rightarrow> failing_names rules r)"

fun record_errors :: "'r data_rule list \<Rightarrow> 'r list \<Rightarrow> 'r data_error list" where
  "record_errors rules [] = []"
| "record_errors rules (r # rs) = (let messages = validate_record rules r in
     if messages \<noteq> [] then \<lparr>de_record = r, rule_names = failing_names rules r, de_messages = messages\<rparr>
       # record_errors rules rs
     else record_errors rules rs)"

definition validate_all :: "'r data_rule list \<Rightarrow> 'r list \<Rightarrow> 'r data_report" where
  "validate_all rules rs = (let errs = record_errors rules rs in
     \<lparr>all_valid = (errs = []), data_errors = errs\<rparr>)"

section \<open>Properties\<close>

text \<open>The batches there should be: all full but the last.\<close>

function chunks :: "nat \<Rightarrow> 'a list \<Rightarrow> 'a list list" where
  "chunks n xs = (if xs = [] then [] else take (max (Suc 0) n) xs # chunks n (drop (max (Suc 0) n) xs))"
  by pat_completeness auto
termination by (relation "measure (\<lambda>(n, xs). length xs)") auto

declare chunks.simps [simp del]

lemma chunks_concat: "concat (chunks n xs) = xs"
proof (induction n xs rule: chunks.induct)
  case (1 n xs)
  then show ?case by (subst chunks.simps) simp
qed

lemma chunk_sizes: "b \<in> set (chunks n xs) \<Longrightarrow> b \<noteq> [] \<and> length b \<le> max (Suc 0) n"
proof (induction n xs rule: chunks.induct)
  case (1 n xs)
  show ?case
  proof (cases "xs = []")
    case True
    then show ?thesis using 1 by (simp add: chunks.simps)
  next
    case False
    then have "chunks n xs = take (max (Suc 0) n) xs # chunks n (drop (max (Suc 0) n) xs)"
      by (subst chunks.simps) simp
    then show ?thesis using 1 False by auto
  qed
qed

text \<open>Handing over the batches of a list one after the other.\<close>

fun hand_over :: "('w, 'a list, unit) handler \<Rightarrow> ('w, 'a list) error_callback option \<Rightarrow> 'a list list
    \<Rightarrow> batch_result \<Rightarrow> 'w \<Rightarrow> 'w \<times> (thrown_value, batch_result) outcome" where
  "hand_over handler on_error [] s w = (w, Inr s)"
| "hand_over handler on_error (b # bs) s w = (case flush_batch handler on_error b w of
     (w', Inl v) \<Rightarrow> (w', Inl v)
   | (w', Inr p) \<Rightarrow> hand_over handler on_error bs (count_batch p s) w')"

lemma batch_loop_chunks:
  assumes "length batch < max (Suc 0) (nat n)"
  shows "batch_loop handler on_error n xs None batch s w
    = hand_over handler on_error (chunks (nat n) (batch @ xs)) s w"
  using assms
proof (induction xs arbitrary: batch s w)
  case Nil
  show ?case
  proof (cases "batch = []")
    case False
    then have "chunks (nat n) batch = [batch]"
      using Nil by (subst chunks.simps) (simp add: chunks.simps)
    then show ?thesis using False by (auto split: prod.splits sum.splits)
  qed (simp add: chunks.simps)
next
  case (Cons x xs)
  show ?case
  proof (cases "int (length (batch @ [x])) \<ge> n")
    case True
    then have full: "max (Suc 0) (nat n) - length batch = Suc 0" using Cons.prems by auto
    have "chunks (nat n) (batch @ x # xs) = (batch @ [x]) # chunks (nat n) xs"
      using full Cons.prems by (subst chunks.simps) simp
    then show ?thesis using True Cons.IH [of "[]"] Cons.prems
      by (auto split: prod.splits sum.splits)
  next
    case False
    then have "length (batch @ [x]) < max (Suc 0) (nat n)" by auto
    with Cons.IH [of "batch @ [x]"] False show ?thesis by simp
  qed
qed

text \<open>
  The handler receives the items in order, in batches that are full but the last: the run is
  that over the split of the items, which is those of one when the size is not positive.  The
  batches together are the items.
\<close>

lemma batches_are_chunks:
  "process_batches (array_source xs) handler on_error n w
     = hand_over handler on_error (chunks (nat n) xs) no_batches w
   \<and> concat (chunks (nat n) xs) = xs
   \<and> list_all (\<lambda>b. b \<noteq> [] \<and> length b \<le> max (Suc 0) (nat n)) (chunks (nat n) xs)"
  using batch_loop_chunks [of "[]" n handler on_error xs no_batches w]
    chunk_sizes [of _ "nat n" xs]
  by (simp add: process_batches_def array_source_def chunks_concat list_all_iff)

lemma hand_over_counts:
  "hand_over handler on_error bs s w = (w', Inr s') \<Longrightarrow>
     bt_processed s' + bt_failed s' = bt_processed s + bt_failed s + int (length (concat bs))
     \<and> batches s' \<le> batches s + int (length bs) \<and> bt_processed s \<le> bt_processed s' \<and> bt_failed s \<le> bt_failed s'"
proof (induction bs arbitrary: s w)
  case (Cons b bs)
  from Cons.prems obtain p w1 where "flush_batch handler on_error b w = (w1, Inr p)"
    and rest: "hand_over handler on_error bs (count_batch p s) w1 = (w', Inr s')"
    by (auto split: prod.splits sum.splits)
  then have "p = (int (length b), 0) \<or> p = (0, int (length b))"
    by (auto simp: flush_batch_def split: prod.splits sum.splits option.splits)
  then show ?case using Cons.IH [OF rest] by (auto simp: count_batch_def split: if_splits)
qed simp

lemma nonempty_concat: "\<forall>c \<in> set cs. c \<noteq> [] \<Longrightarrow> length cs \<le> length (concat cs)"
proof (induction cs)
  case (Cons c cs)
  then show ?case by (cases c) auto
qed simp

text \<open>
  Every item of a source is counted once, as processed or as failed, whatever the handler does,
  when \<open>onError\<close> does not throw.
\<close>

lemma batch_accounts:
  assumes "process_batches (array_source xs) handler on_error n w = (w', Inr s)"
  shows "bt_processed s + bt_failed s = int (length xs) \<and> 0 \<le> bt_processed s \<and> 0 \<le> bt_failed s
    \<and> batches s \<le> int (length xs)"
proof -
  have *: "hand_over handler on_error (chunks (nat n) xs) no_batches w = (w', Inr s)"
    using assms batch_loop_chunks [of "[]" n handler on_error xs no_batches w]
    by (simp add: process_batches_def array_source_def)
  have "\<forall>b \<in> set (chunks (nat n) xs). b \<noteq> []" using chunk_sizes [of _ "nat n" xs] by simp
  then have "length (chunks (nat n) xs) \<le> length (concat (chunks (nat n) xs))" by (rule nonempty_concat)
  then show ?thesis using hand_over_counts [OF *] unfolding chunks_concat by (simp add: no_batches_def)
qed

lemma batch_accounts_witness:
  "let handler = (\<lambda>b w. (w @ [b], if (3::nat) \<in> set b then Inl (ThrownOther ''no'') else Inr ()));
       r = process_batches (array_source [1, 2, 3, 4, 5]) handler None 2 [] in
   r = ([[1, 2], [3, 4], [5]], Inr \<lparr>bt_processed = 3, batches = 2, bt_failed = 2\<rparr>)
   \<and> (3::int) + 2 = int (length [1, 2, 3, 4, 5::nat])"
proof -
  let ?h = "\<lambda>b w. (w @ [b], if (3::nat) \<in> set b then Inl (ThrownOther ''no'') else Inr ())"
  have "process_batches (array_source [1, 2, 3, 4, 5]) ?h None 2 []
    = ([[1, 2], [3, 4], [5]], Inr \<lparr>bt_processed = 3, batches = 2, bt_failed = 2\<rparr>)"
    by (simp add: process_batches_def array_source_def no_batches_def flush_batch_def count_batch_def)
  from batch_accounts [OF this] this show ?thesis by simp
qed

lemma stream_loop_counts:
  "stream_loop handler on_error xs None s w = (w', Inr s') \<Longrightarrow>
     st_processed s' + st_skipped s' + st_failed s'
       = st_processed s + st_skipped s + st_failed s + int (length xs)"
proof (induction xs arbitrary: s w)
  case (Cons x xs)
  from Cons.prems obtain w1 s1 where "stream_loop handler on_error xs None s1 w1 = (w', Inr s')"
    and "st_processed s1 + st_skipped s1 + st_failed s1 = st_processed s + st_skipped s + st_failed s + 1"
    by (force simp: Let_def split: prod.splits sum.splits option.splits)
  with Cons.IH show ?case by force
qed simp

text \<open>
  Item by item every item is counted once as processed, skipped or failed, and without a handler
  of errors the run always reaches the end of its source.
\<close>

lemma stream_accounts:
  "(process_stream (array_source xs) handler on_error w = (w', Inr s)
     \<longrightarrow> st_processed s + st_skipped s + st_failed s = int (length xs))
   \<and> is_returned (snd (process_stream (array_source xs) handler None w))"
proof
  show "process_stream (array_source xs) handler on_error w = (w', Inr s)
     \<longrightarrow> st_processed s + st_skipped s + st_failed s = int (length xs)"
    using stream_loop_counts [of handler on_error xs _ w w' s]
    by (auto simp: process_stream_def array_source_def)
  have "is_returned (snd (stream_loop handler None xs None s w))" for s
    by (induction xs arbitrary: s w) (auto simp: Let_def split: prod.splits sum.splits option.splits)
  then show "is_returned (snd (process_stream (array_source xs) handler None w))"
    by (simp add: process_stream_def array_source_def)
qed

lemma stream_accounts_witness:
  "let handler = (\<lambda>x w. (w, if x = (2::nat) then Inl (ThrownOther ''no'')
       else if x = 3 then Inr None else Inr (Some x)));
       r = process_stream (array_source [1, 2, 3, 4]) handler None () in
   r = ((), Inr \<lparr>st_processed = 2, st_skipped = 1, st_failed = 1\<rparr>) \<and> (2::int) + 1 + 1 = int (length [1, 2, 3, 4::nat])"
proof -
  let ?h = "\<lambda>x w. (w, if x = (2::nat) then Inl (ThrownOther ''no'')
       else if x = 3 then Inr None else Inr (Some x))"
  have "process_stream (array_source [1, 2, 3, 4]) ?h None () = ((), Inr \<lparr>st_processed = 2, st_skipped = 1, st_failed = 1\<rparr>)"
    by (simp add: process_stream_def array_source_def)
  then show ?thesis
    using stream_accounts [of "[1, 2, 3, 4]" ?h None "()" "()" "\<lparr>st_processed = 2, st_skipped = 1, st_failed = 1\<rparr>"]
    by simp
qed

lemma transform_items_result:
  "(breaks_with (transform_items ts rs e) = None \<longleftrightarrow> e = None \<and> list_all (\<lambda>r. is_returned (transform_record ts r)) rs)
   \<and> (breaks_with (transform_items ts rs e) = None \<longrightarrow> map (transform_record ts) rs = map Inr (yields (transform_items ts rs e)))"
  by (induction rs) (auto simp: Let_def split: sum.splits)

text \<open>
  A pipeline is all or nothing: when the source or a transformer throws, nothing is written and
  the run rejects; else every record is transformed, all are written in one call and in order, and
  counted as loaded or, when writing throws, as failed.
\<close>

lemma pipeline_all_or_nothing:
  "case run_pipeline s ts write t0 t1 w of
     (w', Inl e) \<Rightarrow> w' = w \<and> (breaks_with s \<noteq> None \<or> (\<exists>r \<in> set (yields s). \<not> is_returned (transform_record ts r)))
   | (w', Inr p) \<Rightarrow> (\<exists>rs. map (transform_record ts) (yields s) = map Inr rs \<and> w' = fst (write rs w)
       \<and> extracted p = int (length (yields s)) \<and> loaded p + pl_failed p = extracted p
       \<and> (if is_returned (snd (write rs w)) then loaded p = extracted p else loaded p = 0))"
proof (cases "breaks_with (apply_transformers s ts)")
  case (Some e)
  then show ?thesis using transform_items_result [of ts "yields s" "breaks_with s"]
    by (auto simp: run_pipeline_def apply_transformers_def Let_def list_all_iff)
next
  case None
  let ?rs = "yields (apply_transformers s ts)"
  have eq: "map (transform_record ts) (yields s) = map Inr ?rs"
    using None transform_items_result [of ts "yields s" "breaks_with s"] by (simp add: apply_transformers_def)
  then have "length (yields s) = length ?rs" by (metis length_map)
  with eq None show ?thesis
    by (auto simp: run_pipeline_def Let_def split: prod.splits intro!: exI [of _ ?rs])
qed

text \<open>Entries leave the queue in the order they came.\<close>

lemma dlq_is_fifo:
  "dlq_dequeue (dlq_enqueue d e now store) = (case store of
     [] \<Rightarrow> ([], Some \<lparr>dl_data = d, dl_error = e, enqueued_at = now, retries = 0\<rparr>)
   | x # xs \<Rightarrow> (dlq_enqueue d e now xs, Some x))
   \<and> dlq_size (dlq_enqueue d e now store) = dlq_size store + 1"
  by (cases store) (auto simp: dlq_dequeue_def dlq_enqueue_def dlq_size_def)

text \<open>A handler that leaves the queue alone and whose outcome is that of a function of the data.\<close>

lemma reprocess_loop_result:
  assumes "\<And>d w q. handler d (w, q) = ((work d w, q), outcome_of d)"
  shows "reprocess_loop handler xs (w, q) c =
    ((fold (work \<circ> dl_data) xs w,
      q @ map (\<lambda>x. dlq_retried x (projl (outcome_of (dl_data x)))) (filter (\<lambda>x. \<not> is_returned (outcome_of (dl_data x))) xs)),
     fst c + int (length (filter (\<lambda>x. is_returned (outcome_of (dl_data x))) xs)),
     snd c + int (length (filter (\<lambda>x. \<not> is_returned (outcome_of (dl_data x))) xs)))"
  by (induction xs arbitrary: w q c) (auto simp: assms split: sum.splits)

text \<open>
  Reprocessing tries every entry once and in order, keeps those that fail, in their order, with
  one more retry and their time, and counts every entry.  It assumes that the handler does not use
  the queue.
\<close>

lemma reprocess_keeps_failures:
  assumes "\<And>d w q. handler d (w, q) = ((work d w, q), outcome_of d)"
  shows "let r = dlq_reprocess handler (w, store); bad = filter (\<lambda>x. \<not> is_returned (outcome_of (dl_data x))) store in
    fst (fst r) = fold (work \<circ> dl_data) store w
    \<and> map (\<lambda>x. (dl_data x, enqueued_at x, retries x)) (snd (fst r))
      = map (\<lambda>x. (dl_data x, enqueued_at x, retries x + 1)) bad
    \<and> fst (snd r) + snd (snd r) = dlq_size store \<and> snd (snd r) = dlq_size (snd (fst r))"
  using sum_length_filter_compl [of "\<lambda>x. is_returned (outcome_of (dl_data x))" store]
  by (simp add: dlq_reprocess_def reprocess_loop_result [of handler work outcome_of, OF assms] Let_def
      dlq_retried_def dlq_size_def flip: of_nat_add)

lemma reprocess_keeps_failures_witness:
  "dlq_reprocess (\<lambda>d q. ((fst q @ [d], snd q), if d = (2::nat) then Inl (ThrownOther ''no'') else Inr ()))
     ([], [\<lparr>dl_data = 1, dl_error = plain_error ''x'', enqueued_at = 5, retries = 0\<rparr>,
           \<lparr>dl_data = 2, dl_error = plain_error ''y'', enqueued_at = 6, retries = 3\<rparr>])
   = (([1, 2], [\<lparr>dl_data = 2, dl_error = plain_error ''no'', enqueued_at = 6, retries = 4\<rparr>]), 1, 1)"
proof -
  let ?h = "\<lambda>d q. ((fst q @ [d], snd q), if d = (2::nat) then Inl (ThrownOther ''no'') else Inr ())"
  let ?s = "[\<lparr>dl_data = 1::nat, dl_error = plain_error ''x'', enqueued_at = 5, retries = 0\<rparr>,
           \<lparr>dl_data = 2, dl_error = plain_error ''y'', enqueued_at = 6, retries = 3\<rparr>]"
  note * = reprocess_keeps_failures [where handler = ?h and work = "\<lambda>d w. w @ [d]"
      and outcome_of = "\<lambda>d. if d = (2::nat) then Inl (ThrownOther ''no'') else Inr ()" and w = "[]" and store = ?s]
  from * show ?thesis
    by (simp add: dlq_reprocess_def dlq_retried_def to_error_def)
qed

text \<open>
  While it is reprocessed an entry is nowhere in the queue: clearing the queue then keeps what
  fails, and the queue is empty for anyone who looks.
\<close>

lemma cleared_while_reprocessing:
  "dlq_reprocess (\<lambda>d q. ((dlq_size (snd q), dlq_clear (snd q)), Inl (ThrownError (plain_error ''no''))))
     (7, [\<lparr>dl_data = ''a'', dl_error = plain_error ''x'', enqueued_at = 5, retries = 0\<rparr>])
   = ((0, [\<lparr>dl_data = ''a'', dl_error = plain_error ''no'', enqueued_at = 5, retries = 1\<rparr>]), 0, 1)"
  by (simp add: dlq_reprocess_def dlq_clear_def dlq_retried_def to_error_def dlq_size_def)

lemma validate_record_empty:
  "validate_record rules r = [] \<longleftrightarrow> list_all (\<lambda>rule. dr_validate rule r = None) rules"
  by (induction rules) (auto split: option.splits)

lemma record_errors_filter:
  "record_errors rules rs = map (\<lambda>r. \<lparr>de_record = r, rule_names = failing_names rules r, de_messages = validate_record rules r\<rparr>)
     (filter (\<lambda>r. validate_record rules r \<noteq> []) rs)"
  by (induction rs) (auto simp: Let_def)

lemma names_with_messages: "length (failing_names rules r) = length (validate_record rules r)"
  by (induction rules) (auto split: option.splits)

text \<open>
  A report is valid exactly when every record passes every rule; it names the records that do not
  in their order, each with as many names as messages.
\<close>

lemma data_report_exact:
  "let report = validate_all rules rs in
   (all_valid report \<longleftrightarrow> list_all (\<lambda>r. list_all (\<lambda>rule. dr_validate rule r = None) rules) rs)
   \<and> map de_record (data_errors report) = filter (\<lambda>r. \<not> list_all (\<lambda>rule. dr_validate rule r = None) rules) rs
   \<and> list_all (\<lambda>e. length (rule_names e) = length (de_messages e) \<and> de_messages e = validate_record rules (de_record e))
       (data_errors report)"
  by (auto simp: validate_all_def Let_def record_errors_filter validate_record_empty [symmetric] filter_empty_conv
      list_all_iff names_with_messages comp_def)

end
