(* ===== verification/Data_Quality.thy ===== *)
theory Data_Quality
  imports Json_Text Pipelines
begin

text \<open>
  The data-quality package: the validation of records (\<open>QualityValidator.ts\<close>), their profile
  (\<open>DataProfiler.ts\<close>), the detectors of anomalies (\<open>AnomalyDetector.ts\<close>), the metrics
  (\<open>QualityMetricsCalculator.ts\<close>) and the report of them all (\<open>QualityReportEngine.ts\<close>).

  A record is the entries of an object, with \<^const>\<open>JNull\<close> for \<open>null\<close>; a field that is absent is
  \<open>undefined\<close>.  Numbers are \<^typ>\<open>rat\<close>; \<open>num\<close> is the text of a number, \<open>sqrt_of\<close> is \<open>Math.sqrt\<close> and
  \<open>fixed2\<close> is \<open>toFixed(2)\<close>.
\<close>

type_synonym data_record = "(string, json) jsmap"

section \<open>Validation\<close>

record rule_violation =
  rv_record :: data_record
  rv_rule_names :: "string list"
  rv_messages :: "string list"

record quality_validation =
  qv_valid :: bool
  qv_total :: int
  qv_valid_records :: int
  violations :: "rule_violation list"

definition quality_add_rule :: "data_record data_rule \<Rightarrow> data_record data_rule list \<Rightarrow> data_record data_rule list" where
  "quality_add_rule rule rules = rules @ [rule]"

fun quality_validate :: "data_record data_rule list \<Rightarrow> data_record \<Rightarrow> string list" where
  "quality_validate [] r = []"
| "quality_validate (rule # rules) r = (case dr_validate rule r of
     Some msg \<Rightarrow> msg # quality_validate rules r | None \<Rightarrow> quality_validate rules r)"

definition violated_rule_names :: "data_record data_rule list \<Rightarrow> data_record \<Rightarrow> string list" where
  "violated_rule_names rules r = map dr_name (filter (\<lambda>rule. dr_validate rule r \<noteq> None) rules)"

fun quality_violations :: "data_record data_rule list \<Rightarrow> data_record list \<Rightarrow> rule_violation list" where
  "quality_violations rules [] = []"
| "quality_violations rules (r # rs) = (let messages = quality_validate rules r in
     if messages \<noteq> [] then \<lparr>rv_record = r, rv_rule_names = violated_rule_names rules r, rv_messages = messages\<rparr>
       # quality_violations rules rs
     else quality_violations rules rs)"

definition quality_validate_all :: "data_record data_rule list \<Rightarrow> data_record list \<Rightarrow> quality_validation" where
  "quality_validate_all rules rs = (let vs = quality_violations rules rs in
     \<lparr>qv_valid = (vs = []), qv_total = int (length rs), qv_valid_records = int (length rs) - int (length vs), violations = vs\<rparr>)"

section \<open>Profiling\<close>

record field_profile =
  fp_field :: string
  fp_count :: int
  null_count :: int
  unique_count :: int
  fp_min :: "rat option"
  fp_max :: "rat option"
  fp_mean :: "rat option"

record data_profile =
  dp_total :: int
  dp_fields :: "field_profile list"
  profiled_at :: int

definition is_null :: "json option \<Rightarrow> bool" where
  "is_null v = (v = None \<or> v = Some JNull)"

definition as_number :: "json option \<Rightarrow> rat option" where
  "as_number v = (case v of Some (JNum q) \<Rightarrow> Some q | _ \<Rightarrow> None)"

fun numerics :: "json option list \<Rightarrow> rat list" where
  "numerics [] = []"
| "numerics (v # vs) = (case as_number v of Some q \<Rightarrow> q # numerics vs | None \<Rightarrow> numerics vs)"

definition unique_values :: "'a list \<Rightarrow> 'a list" where
  "unique_values xs = foldl (\<lambda>s x. set_add x s) [] xs"

definition collect_field_names :: "data_record list \<Rightarrow> string list" where
  "collect_field_names rs = foldl (\<lambda>names r. foldl (\<lambda>ns k. set_add k ns) names (jkeys r)) [] rs"

definition compute_mean :: "rat list \<Rightarrow> rat option" where
  "compute_mean qs = (if qs = [] then None else Some (foldl (+) 0 qs / of_nat (length qs)))"

definition profile_field :: "(json \<Rightarrow> string) \<Rightarrow> string \<Rightarrow> data_record list \<Rightarrow> field_profile" where
  "profile_field stringify f rs = (let vals = map (\<lambda>r. jget r f) rs;
       non_null = filter (\<lambda>v. \<not> is_null v) vals; ns = numerics non_null; sorted_ns = sort ns in
     \<lparr>fp_field = f, fp_count = int (length vals), null_count = int (length vals) - int (length non_null),
      unique_count = int (length (unique_values (map (\<lambda>v. stringify (the v)) non_null))),
      fp_min = (if sorted_ns = [] then None else Some (hd sorted_ns)),
      fp_max = (if sorted_ns = [] then None else Some (last sorted_ns)),
      fp_mean = compute_mean ns\<rparr>)"

definition profile_data :: "(json \<Rightarrow> string) \<Rightarrow> data_record list \<Rightarrow> int \<Rightarrow> data_profile" where
  "profile_data stringify rs now = \<lparr>dp_total = int (length rs),
     dp_fields = map (\<lambda>f. profile_field stringify f rs) (collect_field_names rs), profiled_at = now\<rparr>"

section \<open>Anomalies\<close>

datatype anomaly_severity = Low | Medium | High

record anomaly =
  an_field :: string
  an_record :: data_record
  an_message :: string
  an_severity :: anomaly_severity

record anomaly_report =
  anomalies :: "anomaly list"
  total_checked :: int

type_synonym anomaly_detector = "data_record list \<Rightarrow> anomaly_report"

definition field_numbers :: "string \<Rightarrow> data_record list \<Rightarrow> rat list" where
  "field_numbers f rs = numerics (map (\<lambda>r. jget r f) rs)"

definition z_mean :: "rat list \<Rightarrow> rat" where
  "z_mean qs = foldl (+) 0 qs / of_nat (length qs)"

definition z_variance :: "rat list \<Rightarrow> rat \<Rightarrow> rat" where
  "z_variance qs m = foldl (\<lambda>s v. s + (v - m) ^ 2) 0 qs / of_nat (length qs)"

fun z_anomalies :: "(rat \<Rightarrow> string) \<Rightarrow> (rat \<Rightarrow> string) \<Rightarrow> string \<Rightarrow> rat \<Rightarrow> anomaly_severity \<Rightarrow> rat \<Rightarrow> rat
    \<Rightarrow> data_record list \<Rightarrow> anomaly list" where
  "z_anomalies fixed2 num f threshold sev m std [] = []"
| "z_anomalies fixed2 num f threshold sev m std (r # rs) = (case as_number (jget r f) of
     None \<Rightarrow> z_anomalies fixed2 num f threshold sev m std rs
   | Some raw \<Rightarrow> (let z = abs ((raw - m) / std) in
       if z > threshold then \<lparr>an_field = f, an_record = r,
           an_message = ''Z-score '' @ fixed2 z @ '' exceeds threshold '' @ num threshold @ '' (value='' @ num raw @ '')'',
           an_severity = sev\<rparr> # z_anomalies fixed2 num f threshold sev m std rs
       else z_anomalies fixed2 num f threshold sev m std rs))"

definition z_score_detect :: "(rat \<Rightarrow> rat) \<Rightarrow> (rat \<Rightarrow> string) \<Rightarrow> (rat \<Rightarrow> string) \<Rightarrow> string \<Rightarrow> rat \<Rightarrow> anomaly_severity
    \<Rightarrow> anomaly_detector" where
  "z_score_detect sqrt_of fixed2 num f threshold sev rs = (let qs = field_numbers f rs in
     if length qs < 2 then \<lparr>anomalies = [], total_checked = int (length rs)\<rparr>
     else let m = z_mean qs; std = sqrt_of (z_variance qs m) in
       if std = 0 then \<lparr>anomalies = [], total_checked = int (length rs)\<rparr>
       else \<lparr>anomalies = z_anomalies fixed2 num f threshold sev m std rs, total_checked = int (length rs)\<rparr>)"

definition null_detect :: "string \<Rightarrow> anomaly_severity \<Rightarrow> anomaly_detector" where
  "null_detect f sev rs = \<lparr>anomalies = map (\<lambda>r. \<lparr>an_field = f, an_record = r,
       an_message = ''Required field '' @ [CHR 0x22] @ f @ [CHR 0x22] @ '' is null or missing'', an_severity = sev\<rparr>)
     (filter (\<lambda>r. is_null (jget r f)) rs), total_checked = int (length rs)\<rparr>"

definition add_detector :: "anomaly_detector \<Rightarrow> anomaly_detector list \<Rightarrow> anomaly_detector list" where
  "add_detector d ds = ds @ [d]"

definition composite_detect :: "anomaly_detector list \<Rightarrow> anomaly_detector" where
  "composite_detect ds rs = \<lparr>anomalies = concat (map (\<lambda>d. anomalies (d rs)) ds), total_checked = int (length rs)\<rparr>"

section \<open>Metrics and the report\<close>

record quality_metrics =
  completeness :: rat
  validity :: rat
  uniqueness :: rat
  qm_total :: int
  computed_at :: int

definition completeness_of :: "data_record list \<Rightarrow> rat" where
  "completeness_of rs = (if rs = [] then 1 else
     let vals = concat (map jvalues rs) in
     if vals = [] then 1 else of_nat (length (filter (\<lambda>v. v \<noteq> JNull) vals)) / of_nat (length vals))"

definition validity_of :: "int \<Rightarrow> int \<Rightarrow> rat" where
  "validity_of n bad = (if n = 0 then 1 else of_int (n - bad) / of_int n)"

definition uniqueness_of :: "(json \<Rightarrow> string) \<Rightarrow> data_record list \<Rightarrow> rat" where
  "uniqueness_of stringify rs = (if rs = [] then 1 else
     of_nat (length (unique_values (map (\<lambda>r. stringify (JObj r)) rs))) / of_nat (length rs))"

definition compute_metrics :: "(json \<Rightarrow> string) \<Rightarrow> data_record list \<Rightarrow> quality_validation \<Rightarrow> int \<Rightarrow> quality_metrics" where
  "compute_metrics stringify rs report now = \<lparr>completeness = completeness_of rs,
     validity = validity_of (int (length rs)) (int (length (violations report))),
     uniqueness = uniqueness_of stringify rs, qm_total = int (length rs), computed_at = now\<rparr>"

record quality_report =
  qr_metrics :: quality_metrics
  qr_validation :: quality_validation
  qr_profile :: data_profile
  qr_anomalies :: anomaly_report
  generated_at :: int

definition run_quality :: "(json \<Rightarrow> string) \<Rightarrow> data_record data_rule list \<Rightarrow> anomaly_detector list \<Rightarrow> data_record list
    \<Rightarrow> int \<Rightarrow> quality_report" where
  "run_quality stringify rules detectors rs now = (let validation = quality_validate_all rules rs in
     \<lparr>qr_metrics = compute_metrics stringify rs validation now, qr_validation = validation,
      qr_profile = profile_data stringify rs now, qr_anomalies = composite_detect detectors rs, generated_at = now\<rparr>)"

section \<open>Properties\<close>

lemma quality_validate_same: "quality_validate rules r = validate_record rules r"
  by (induction rules) (auto split: option.splits)

lemma violated_names_same: "violated_rule_names rules r = failing_names rules r"
  by (induction rules) (auto simp: violated_rule_names_def split: option.splits)

lemma violations_same:
  "map (\<lambda>v. (rv_record v, rv_rule_names v, rv_messages v)) (quality_violations rules rs)
     = map (\<lambda>e. (de_record e, rule_names e, de_messages e)) (record_errors rules rs)"
  by (induction rs) (auto simp: Let_def quality_validate_same violated_names_same)

text \<open>
  The validator of this package reports what that of the data pipeline does, and counts the records
  that pass.
\<close>

lemma validators_agree:
  "let q = quality_validate_all rules rs; d = validate_all rules rs in
   qv_valid q = all_valid d
   \<and> map (\<lambda>v. (rv_record v, rv_rule_names v, rv_messages v)) (violations q)
     = map (\<lambda>e. (de_record e, rule_names e, de_messages e)) (data_errors d)
   \<and> qv_valid_records q = int (length (filter (\<lambda>r. list_all (\<lambda>rule. dr_validate rule r = None) rules) rs))"
proof -
  have same_length: "length (quality_violations rules rs) = length (record_errors rules rs)"
    using arg_cong [OF violations_same [of rules rs], of length] by (simp only: length_map)
  have errors: "length (record_errors rules rs) = length (filter (\<lambda>r. \<not> list_all (\<lambda>rule. dr_validate rule r = None) rules) rs)"
    by (simp only: record_errors_filter validate_record_empty length_map)
  have "length (filter (\<lambda>r. list_all (\<lambda>rule. dr_validate rule r = None) rules) rs)
      + length (filter (\<lambda>r. \<not> list_all (\<lambda>rule. dr_validate rule r = None) rules) rs) = length rs"
    by (rule sum_length_filter_compl)
  then have count: "int (length rs) - int (length (quality_violations rules rs))
      = int (length (filter (\<lambda>r. list_all (\<lambda>rule. dr_validate rule r = None) rules) rs))"
    unfolding same_length errors by linarith
  have "quality_violations rules rs = [] \<longleftrightarrow> record_errors rules rs = []"
    using same_length by (metis length_0_conv)
  then show ?thesis unfolding Let_def quality_validate_all_def validate_all_def
    by (simp only: quality_validation.select_convs data_report.select_convs violations_same count)
qed

lemma unique_values_set: "set (unique_values xs) = set xs \<and> distinct (unique_values xs)"
proof -
  have "set (foldl (\<lambda>s x. set_add x s) acc xs) = set acc \<union> set xs
      \<and> (distinct acc \<longrightarrow> distinct (foldl (\<lambda>s x. set_add x s) acc xs))" for acc
    by (induction xs arbitrary: acc) (auto simp: set_add_def)
  from this [of "[]"] show ?thesis by (simp add: unique_values_def)
qed

lemma unique_values_length: "length (unique_values xs) = card (set xs)"
  using unique_values_set [of xs] by (metis distinct_card)

lemma violations_at_most: "length (quality_violations rules rs) \<le> length rs"
  by (induction rs) (auto simp: Let_def le_SucI)

text \<open>The metrics of a report are fractions, and validity is one exactly when the report is valid.\<close>

lemma metrics_are_fractions:
  "let m = qr_metrics (run_quality stringify rules detectors rs now) in
   0 \<le> completeness m \<and> completeness m \<le> 1 \<and> 0 \<le> validity m \<and> validity m \<le> 1
   \<and> 0 \<le> uniqueness m \<and> uniqueness m \<le> 1
   \<and> (validity m = 1 \<longleftrightarrow> qv_valid (qr_validation (run_quality stringify rules detectors rs now)))"
proof -
  have c: "0 \<le> completeness_of rs \<and> completeness_of rs \<le> 1"
    by (auto simp: completeness_of_def Let_def divide_le_eq_1 le_divide_eq)
  have v: "0 \<le> validity_of (int (length rs)) (int (length (quality_violations rules rs)))"
    "validity_of (int (length rs)) (int (length (quality_violations rules rs))) \<le> 1"
    "validity_of (int (length rs)) (int (length (quality_violations rules rs))) = 1 \<longleftrightarrow> quality_violations rules rs = []"
    using violations_at_most [of rules rs]
    by (auto simp: validity_of_def divide_le_eq_1 le_divide_eq divide_eq_1_iff)
  have "card (set (map (\<lambda>r. stringify (JObj r)) rs)) \<le> length rs"
    using card_length [of "map (\<lambda>r. stringify (JObj r)) rs"] by simp
  then have u: "0 \<le> uniqueness_of stringify rs \<and> uniqueness_of stringify rs \<le> 1"
    by (auto simp: uniqueness_of_def unique_values_length divide_le_eq_1 le_divide_eq)
  from c v u show ?thesis
    by (simp add: run_quality_def compute_metrics_def quality_validate_all_def Let_def)
qed

text \<open>
  With the text of \<open>JSON.stringify\<close> uniqueness is the share of different records, the order of their
  fields included.
\<close>

lemma uniqueness_counts_records:
  assumes "\<forall>r \<in> set rs. printable num rd (JObj r)" and "rs \<noteq> []"
  shows "uniqueness_of (json_text num) rs = of_nat (card (set rs)) / of_nat (length rs)"
proof -
  have "inj_on (\<lambda>r. json_text num (JObj r)) (set rs)"
  proof (rule inj_onI)
    fix x y assume *: "x \<in> set rs" "y \<in> set rs" "json_text num (JObj x) = json_text num (JObj y)"
    then show "x = y" using json_reads_back assms(1) by (metis json.inject(5) option.inject)
  qed
  then have "card (set (map (\<lambda>r. json_text num (JObj r)) rs)) = card (set rs)"
    by (simp add: card_image)
  then show ?thesis using assms(2) by (simp add: uniqueness_of_def unique_values_length)
qed

lemma uniqueness_counts_records_witness:
  "uniqueness_of (json_text (\<lambda>q. ''1'')) [[(''a'', JBool True)], [(''a'', JBool True)], [(''b'', JNull)]] = 2 / 3"
  by (subst uniqueness_counts_records [where rd = "\<lambda>s. Some 1"]) simp_all

text \<open>
  Completeness looks only at the fields a record has: a field that is missing counts as null in the
  profile and not at all here.  Two records that differ in the order of their fields are two.
\<close>

lemma missing_fields_complete:
  "completeness_of [[(''id'', JNum 1)], [(''id'', JNum 2), (''mail'', JStr ''x'')]] = 1
   \<and> null_count (profile_field stringify ''mail'' [[(''id'', JNum 1)], [(''id'', JNum 2), (''mail'', JStr ''x'')]]) = 1
   \<and> uniqueness_of (json_text num) [[(''a'', JNull), (''b'', JNull)], [(''b'', JNull), (''a'', JNull)]] = 1"
proof -
  have "uniqueness_of (json_text num) [[(''a'', JNull), (''b'', JNull)], [(''b'', JNull), (''a'', JNull)]] = 1"
    by (subst uniqueness_counts_records [where rd = "\<lambda>s. Some 1"]) simp_all
  then show ?thesis by (simp add: completeness_of_def profile_field_def is_null_def Let_def)
qed

lemma collected_names: "set (collect_field_names rs) = (\<Union>r \<in> set rs. set (jkeys r)) \<and> distinct (collect_field_names rs)"
proof -
  have one: "set (foldl (\<lambda>ns k. set_add k ns) names ks) = set names \<union> set ks
      \<and> (distinct names \<longrightarrow> distinct (foldl (\<lambda>ns k. set_add k ns) names ks))" for names ks :: "string list"
    by (induction ks arbitrary: names) (auto simp: set_add_def)
  have "set (foldl (\<lambda>names r. foldl (\<lambda>ns k. set_add k ns) names (jkeys r)) names rs) = set names \<union> (\<Union>r \<in> set rs. set (jkeys r))
      \<and> (distinct names \<longrightarrow> distinct (foldl (\<lambda>names r. foldl (\<lambda>ns k. set_add k ns) names (jkeys r)) names rs))" for names
  proof (induction rs arbitrary: names)
    case (Cons r rs)
    show ?case using Cons.IH [of "foldl (\<lambda>ns k. set_add k ns) names (jkeys r)"] one [of names "jkeys r"]
      unfolding foldl_Cons by auto
  qed simp
  from this [of "[]"] show ?thesis by (simp add: collect_field_names_def)
qed

lemma numerics_length: "length (numerics vs) \<le> length (filter (\<lambda>v. \<not> is_null v) vs)"
  by (induction vs) (auto simp: as_number_def is_null_def split: option.splits json.splits)

lemma foldl_plus_sum_list: "foldl (+) a qs = a + sum_list (qs :: rat list)"
  by (induction qs arbitrary: a) (auto simp: add.assoc)

lemma mean_between:
  assumes "qs \<noteq> []" and "\<forall>q \<in> set qs. lo \<le> q \<and> q \<le> (hi :: rat)"
  shows "lo \<le> sum_list qs / of_nat (length qs) \<and> sum_list qs / of_nat (length qs) \<le> hi"
proof -
  have "of_nat (length qs) * lo \<le> sum_list qs \<and> sum_list qs \<le> of_nat (length qs) * hi"
    using assms(2) by (induction qs) (auto simp: algebra_simps)
  then show ?thesis using assms(1) by (simp add: divide_le_eq le_divide_eq mult.commute)
qed

text \<open>
  The profile has every field of some record once, with a value of each record: the values that are
  not null are at least those that are different, and the mean is between the least and the
  greatest number, of the numbers there are.
\<close>

lemma profile_consistent:
  "let p = profile_field stringify f rs in
   0 \<le> null_count p \<and> null_count p + unique_count p \<le> fp_count p \<and> fp_count p = int (length rs)
   \<and> (case (fp_min p, fp_mean p, fp_max p) of
        (Some lo, Some m, Some hi) \<Rightarrow> lo \<le> m \<and> m \<le> hi
          \<and> (\<forall>r \<in> set rs. case as_number (jget r f) of None \<Rightarrow> True | Some q \<Rightarrow> lo \<le> q \<and> q \<le> hi)
      | (a, b, c) \<Rightarrow> a = None \<and> b = None \<and> c = None \<and> (\<forall>r \<in> set rs. as_number (jget r f) = None))"
proof -
  define vs where "vs = map (\<lambda>r. jget r f) rs"
  define nn where "nn = filter (\<lambda>v. \<not> is_null v) vs"
  define ns where "ns = numerics nn"
  have len: "length nn \<le> length vs" by (simp add: nn_def)
  have uniq: "length (unique_values (map (\<lambda>v. stringify (the v)) nn)) \<le> length nn"
    unfolding unique_values_length using card_length [of "map (\<lambda>v. stringify (the v)) nn"] by simp
  have ns_set: "q \<in> set (numerics ws) \<longleftrightarrow> (\<exists>v \<in> set ws. as_number v = Some q)" for q ws
    by (induction ws) (auto split: option.splits)
  have member: "q \<in> set ns" if "r \<in> set rs" "as_number (jget r f) = Some q" for r q
    using that by (auto simp: ns_def ns_set nn_def vs_def is_null_def as_number_def split: json.splits option.splits)
  have hd_least: "hd (sort ns) \<le> q \<and> q \<le> last (sort ns)" if "q \<in> set ns" for q
  proof -
    have "q \<in> set (sort ns)" using that by simp
    then have "sort ns \<noteq> []" by (metis empty_iff empty_set)
    obtain i where i: "i < length ns" "q = sort ns ! i"
      using \<open>q \<in> set (sort ns)\<close> by (metis in_set_conv_nth length_sort)
    have "sort ns ! 0 \<le> sort ns ! i" "sort ns ! i \<le> sort ns ! (length ns - 1)"
      using i by (auto intro!: sorted_nth_mono)
    then show ?thesis using i \<open>sort ns \<noteq> []\<close> by (simp add: hd_conv_nth last_conv_nth)
  qed
  show ?thesis
  proof (cases "ns = []")
    case True
    then have "\<forall>r \<in> set rs. as_number (jget r f) = None" using member by (metis empty_iff empty_set not_Some_eq)
    then show ?thesis using True len uniq
      unfolding profile_field_def Let_def vs_def [symmetric] nn_def [symmetric] ns_def [symmetric]
      by (simp add: compute_mean_def vs_def)
  next
    case False
    have "sort ns \<noteq> []" using False by (metis length_0_conv length_sort)
    have between: "hd (sort ns) \<le> sum_list ns / of_nat (length ns) \<and> sum_list ns / of_nat (length ns) \<le> last (sort ns)"
      using mean_between [OF False] hd_least by blast
    show ?thesis using False \<open>sort ns \<noteq> []\<close> len uniq between member hd_least
      unfolding profile_field_def Let_def vs_def [symmetric] nn_def [symmetric] ns_def [symmetric]
      by (auto simp: compute_mean_def foldl_plus_sum_list vs_def split: option.splits)
  qed
qed

text \<open>
  The records a detector of outliers reports are those whose value is further from the mean than the
  threshold times the deviation.
\<close>

lemma z_anomalies_records:
  "map an_record (z_anomalies fixed2 num f t sev m std rs)
     = filter (\<lambda>r. case as_number (jget r f) of None \<Rightarrow> False | Some q \<Rightarrow> abs ((q - m) / std) > t) rs"
  by (induction rs) (auto simp: Let_def split: option.splits)

lemma foldl_squares: "foldl (\<lambda>s v. s + (v - m) ^ 2) a qs = a + sum_list (map (\<lambda>v. (v - m) ^ 2) (qs :: rat list))"
  by (induction qs arbitrary: a) (auto simp: add.assoc)

lemma field_numbers_filter:
  "length (filter (\<lambda>r. case as_number (jget r f) of None \<Rightarrow> False | Some q \<Rightarrow> P q) rs) = length (filter P (field_numbers f rs))"
  by (induction rs) (auto simp: field_numbers_def split: option.splits)

lemma squares_of_some:
  "sum_list (map (\<lambda>v. (v - m) ^ 2) (filter P qs)) \<le> sum_list (map (\<lambda>v. (v - m) ^ 2) (qs :: rat list))"
  by (induction qs) (auto simp: add_increasing)

lemma sum_exceeds:
  "out \<noteq> [] \<Longrightarrow> \<forall>q \<in> set out. b < g q \<Longrightarrow> of_nat (length out) * b < sum_list (map g out)" for b :: rat
proof (induction out)
  case (Cons a out)
  then show ?case by (cases "out = []") (auto simp: algebra_simps)
qed simp

lemma far_from_mean:
  assumes "t < abs ((q - m) / std)" and "0 \<le> t" and "0 < (std :: rat)"
  shows "t ^ 2 * std ^ 2 < (q - m) ^ 2"
proof -
  have "t * std < abs (q - m)" using assms by (simp add: abs_divide less_divide_eq)
  then have "(t * std) ^ 2 < (abs (q - m)) ^ 2" using assms by (intro power_strict_mono) auto
  then show ?thesis by (simp add: power_mult_distrib)
qed



text \<open>
  A composite of detectors reports what they report, one after the other; of the detector of nulls
  that is exactly the records without the field.
\<close>

lemma composite_reports:
  "anomalies (composite_detect (add_detector d ds) rs) = anomalies (composite_detect ds rs) @ anomalies (d rs)
   \<and> map an_record (anomalies (null_detect f sev rs)) = filter (\<lambda>r. is_null (jget r f)) rs
   \<and> total_checked (composite_detect ds rs) = int (length rs)"
  by (simp add: composite_detect_def add_detector_def null_detect_def comp_def)

end
