(* ===== verification/Cdc.thy ===== *)
theory Cdc
  imports Json
begin

text \<open>
  The cdc package: raw events of four sources become one format (\<open>EventNormalizer.ts\<close>), are
  filtered (\<open>CdcFilter.ts\<close>), their fields renamed, masked and dropped (\<open>CdcTransformer.ts\<close>) and
  handed to the subscribers (\<open>CdcProcessor.ts\<close>).

  A payload is the entries of an object in their order; what no operation reads of a raw event is left
  out.  The codes of operations are texts, which
  the tables map; that a code is the name of a member every object inherits is left out there, and
  modelled for the names of fields, which come from the data.
\<close>

section \<open>Events\<close>

datatype cdc_operation = Op_insert | Op_update | Op_delete | Op_read

datatype source_type = From_debezium | From_postgres | From_mysql | From_mongodb

type_synonym payload = "(string, json) jsmap"

record cdc_event =
  ce_id :: string
  ce_source :: source_type
  ce_database :: string
  ce_table :: string
  ce_operation :: cdc_operation
  ce_before :: "payload option"
  ce_after :: "payload option"
  ce_timestamp :: int

record debezium_raw =
  db_op :: string
  db_ts_ms :: int
  db_db :: string
  db_table :: string
  db_before :: "payload option"
  db_after :: "payload option"

record pg_raw =
  lsn :: string
  pg_operation :: string
  pg_schema :: string
  pg_table :: string
  pg_old :: "payload option"
  pg_new :: "payload option"
  commit_time :: int

record mysql_raw =
  my_type :: string
  my_database :: string
  my_table :: string
  my_rows :: "(payload option \<times> payload option) list"
  my_timestamp :: int

record mongo_raw =
  operation_type :: string
  ns_db :: string
  ns_coll :: string
  full_document :: "payload option"
  updated_fields :: "payload option"
  cluster_time :: int

datatype cdc_raw = Debezium debezium_raw | Pg pg_raw | MySql mysql_raw | Mongo mongo_raw

section \<open>Normalising\<close>

definition debezium_op_map :: "(string, cdc_operation) jsmap" where
  "debezium_op_map = [(''c'', Op_insert), (''u'', Op_update), (''d'', Op_delete), (''r'', Op_read)]"

definition pg_op_map :: "(string, cdc_operation) jsmap" where
  "pg_op_map = [(''INSERT'', Op_insert), (''UPDATE'', Op_update), (''DELETE'', Op_delete)]"

definition mysql_op_map :: "(string, cdc_operation) jsmap" where
  "mysql_op_map = [(''WRITE_ROWS'', Op_insert), (''UPDATE_ROWS'', Op_update), (''DELETE_ROWS'', Op_delete)]"

definition mongo_op_map :: "(string, cdc_operation) jsmap" where
  "mongo_op_map = [(''insert'', Op_insert), (''update'', Op_update), (''delete'', Op_delete), (''replace'', Op_update)]"

text \<open>The counter of the module, after the call, and the id.\<close>

definition next_cdc_id :: "int \<Rightarrow> int \<times> string" where
  "next_cdc_id n = (n + 1, ''cdc-'' @ show_int (n + 1))"

definition from_debezium :: "debezium_raw \<Rightarrow> int \<Rightarrow> int \<times> cdc_event option" where
  "from_debezium raw n = (case jget debezium_op_map (db_op raw) of
     None \<Rightarrow> (n, None)
   | Some op \<Rightarrow> (case next_cdc_id n of (n', i) \<Rightarrow> (n', Some \<lparr>ce_id = i, ce_source = From_debezium,
       ce_database = db_db raw, ce_table = db_table raw, ce_operation = op, ce_before = db_before raw,
       ce_after = db_after raw, ce_timestamp = db_ts_ms raw\<rparr>)))"

definition from_postgres :: "pg_raw \<Rightarrow> int \<Rightarrow> int \<times> cdc_event option" where
  "from_postgres raw n = (case jget pg_op_map (pg_operation raw) of
     None \<Rightarrow> (n, None)
   | Some op \<Rightarrow> (case next_cdc_id n of (n', i) \<Rightarrow> (n', Some \<lparr>ce_id = i, ce_source = From_postgres,
       ce_database = pg_schema raw, ce_table = pg_table raw, ce_operation = op, ce_before = pg_old raw,
       ce_after = pg_new raw, ce_timestamp = commit_time raw\<rparr>)))"

definition first_row :: "(payload option \<times> payload option) list \<Rightarrow> payload option \<times> payload option" where
  "first_row rows = (case rows of [] \<Rightarrow> (None, None) | row # rest \<Rightarrow> row)"

definition from_mysql :: "mysql_raw \<Rightarrow> int \<Rightarrow> int \<times> cdc_event option" where
  "from_mysql raw n = (case jget mysql_op_map (my_type raw) of
     None \<Rightarrow> (n, None)
   | Some op \<Rightarrow> (case next_cdc_id n of (n', i) \<Rightarrow> (n', Some \<lparr>ce_id = i, ce_source = From_mysql,
       ce_database = my_database raw, ce_table = my_table raw, ce_operation = op,
       ce_before = fst (first_row (my_rows raw)), ce_after = snd (first_row (my_rows raw)),
       ce_timestamp = my_timestamp raw\<rparr>)))"

definition build_mongo_after :: "mongo_raw \<Rightarrow> payload option" where
  "build_mongo_after raw = (case updated_fields raw of Some fs \<Rightarrow> Some fs | None \<Rightarrow> None)"

definition from_mongo :: "mongo_raw \<Rightarrow> int \<Rightarrow> int \<times> cdc_event option" where
  "from_mongo raw n = (case jget mongo_op_map (operation_type raw) of
     None \<Rightarrow> (n, None)
   | Some op \<Rightarrow> (case next_cdc_id n of (n', i) \<Rightarrow> (n', Some \<lparr>ce_id = i, ce_source = From_mongodb,
       ce_database = ns_db raw, ce_table = ns_coll raw, ce_operation = op, ce_before = None,
       ce_after = (case full_document raw of Some doc \<Rightarrow> Some doc | None \<Rightarrow> build_mongo_after raw),
       ce_timestamp = cluster_time raw\<rparr>)))"

fun normalize_event :: "cdc_raw \<Rightarrow> int \<Rightarrow> int \<times> cdc_event option" where
  "normalize_event (Debezium raw) n = from_debezium raw n"
| "normalize_event (Pg raw) n = from_postgres raw n"
| "normalize_event (MySql raw) n = from_mysql raw n"
| "normalize_event (Mongo raw) n = from_mongo raw n"

section \<open>Filtering\<close>

record filter_options =
  include_tables :: "string list option"
  exclude_tables :: "string list option"
  include_operations :: "cdc_operation list option"
  only_database :: "string option"

definition matches_database :: "filter_options \<Rightarrow> cdc_event \<Rightarrow> bool" where
  "matches_database opts e = (case only_database opts of None \<Rightarrow> True | Some d \<Rightarrow> ce_database e = d)"

definition matches_exclude_tables :: "filter_options \<Rightarrow> cdc_event \<Rightarrow> bool" where
  "matches_exclude_tables opts e = (case exclude_tables opts of None \<Rightarrow> True | Some ts \<Rightarrow> ce_table e \<notin> set ts)"

definition matches_include_tables :: "filter_options \<Rightarrow> cdc_event \<Rightarrow> bool" where
  "matches_include_tables opts e = (case include_tables opts of None \<Rightarrow> True | Some ts \<Rightarrow> ce_table e \<in> set ts)"

definition matches_operations :: "filter_options \<Rightarrow> cdc_event \<Rightarrow> bool" where
  "matches_operations opts e = (case include_operations opts of None \<Rightarrow> True | Some ops \<Rightarrow> ce_operation e \<in> set ops)"

definition event_matches :: "filter_options \<Rightarrow> cdc_event \<Rightarrow> bool" where
  "event_matches opts e = (if \<not> matches_database opts e then False
     else if \<not> matches_exclude_tables opts e then False
     else if \<not> matches_include_tables opts e then False
     else matches_operations opts e)"

definition filter_events :: "filter_options \<Rightarrow> cdc_event list \<Rightarrow> cdc_event list" where
  "filter_events opts es = filter (event_matches opts) es"

section \<open>Transforming\<close>

record transform_options =
  field_mappings :: "(string, string) jsmap option"
  mask_fields :: "string list option"
  drop_fields :: "string list option"

text \<open>
  \<open>mappings[key]\<close> also finds the functions every object inherits; as a key such a function is its
  text.  The member \<open>__proto__\<close> is left out.
\<close>

definition object_functions :: "string list" where
  "object_functions = [''hasOwnProperty'', ''isPrototypeOf'', ''propertyIsEnumerable'', ''toString'',
     ''valueOf'', ''toLocaleString'', ''__defineGetter__'', ''__defineSetter__'', ''__lookupGetter__'',
     ''__lookupSetter__'']"

definition inherited_text :: "string \<Rightarrow> string option" where
  "inherited_text k = (if k = ''constructor'' then Some ''function Object() { [native code] }''
     else if k \<in> set object_functions then Some (''function '' @ k @ ''() { [native code] }'') else None)"

definition mapped_key :: "(string, string) jsmap \<Rightarrow> string \<Rightarrow> string" where
  "mapped_key mappings k = (case jget mappings k of Some k' \<Rightarrow> k'
     | None \<Rightarrow> (case inherited_text k of Some s \<Rightarrow> s | None \<Rightarrow> k))"

definition apply_mappings :: "payload \<Rightarrow> (string, string) jsmap option \<Rightarrow> payload" where
  "apply_mappings p mappings = (case mappings of None \<Rightarrow> p
     | Some ms \<Rightarrow> foldl (\<lambda>result (k, v). jset (mapped_key ms k) v result) [] p)"

definition apply_masking :: "payload \<Rightarrow> string list option \<Rightarrow> payload" where
  "apply_masking p fs = (case fs of None \<Rightarrow> p
     | Some names \<Rightarrow> foldl (\<lambda>result f. if jhas result f then jset f (JStr ''***'') result else result) p names)"

definition apply_drops :: "payload \<Rightarrow> string list option \<Rightarrow> payload" where
  "apply_drops p fs = (case fs of None \<Rightarrow> p | Some names \<Rightarrow> foldl (\<lambda>result f. jdelete f result) p names)"

definition transform_payload :: "transform_options \<Rightarrow> payload \<Rightarrow> payload" where
  "transform_payload opts p = apply_drops (apply_masking (apply_mappings p (field_mappings opts)) (mask_fields opts)) (drop_fields opts)"

definition transform_event :: "transform_options \<Rightarrow> cdc_event \<Rightarrow> cdc_event" where
  "transform_event opts e = e\<lparr>ce_before := map_option (transform_payload opts) (ce_before e),
     ce_after := map_option (transform_payload opts) (ce_after e)\<rparr>"

section \<open>The processor\<close>

text \<open>
  The counter of the module is kept with the processor; handlers are known by their identity,
  \<open>call\<close> is what they do.
\<close>

record 'h cdc_processor =
  cdc_seq :: int
  cdc_handlers :: "'h list"
  processed_count :: int
  skipped_count :: int

type_synonym ('w, 'h) cdc_call = "'h \<Rightarrow> cdc_event \<Rightarrow> 'w \<Rightarrow> 'w \<times> (js_error, unit) outcome"

definition cdc_subscribe :: "'h \<Rightarrow> 'h cdc_processor \<Rightarrow> 'h cdc_processor" where
  "cdc_subscribe h s = s\<lparr>cdc_handlers := set_add h (cdc_handlers s)\<rparr>"

definition cdc_unsubscribe :: "'h \<Rightarrow> 'h cdc_processor \<Rightarrow> 'h cdc_processor" where
  "cdc_unsubscribe h s = s\<lparr>cdc_handlers := set_remove h (cdc_handlers s)\<rparr>"

fun call_handlers :: "('w, 'h) cdc_call \<Rightarrow> 'h list \<Rightarrow> cdc_event \<Rightarrow> 'w \<Rightarrow> 'w \<times> (js_error, unit) outcome" where
  "call_handlers call [] e w = (w, Inr ())"
| "call_handlers call (h # hs) e w = (case call h e w of
     (w', Inl err) \<Rightarrow> (w', Inl err) | (w', Inr u) \<Rightarrow> call_handlers call hs e w')"

definition cdc_ingest :: "filter_options \<Rightarrow> transform_options \<Rightarrow> ('w, 'h) cdc_call \<Rightarrow> cdc_raw
    \<Rightarrow> 'h cdc_processor \<times> 'w \<Rightarrow> ('h cdc_processor \<times> 'w) \<times> (js_error, unit) outcome" where
  "cdc_ingest fo to call raw sw = (case sw of (s, w) \<Rightarrow> (case normalize_event raw (cdc_seq s) of
     (n, None) \<Rightarrow> ((s\<lparr>cdc_seq := n, skipped_count := skipped_count s + 1\<rparr>, w), Inr ())
   | (n, Some e) \<Rightarrow>
       if \<not> event_matches fo e then ((s\<lparr>cdc_seq := n, skipped_count := skipped_count s + 1\<rparr>, w), Inr ())
       else (case call_handlers call (cdc_handlers s) (transform_event to e) w of
         (w', r) \<Rightarrow> ((s\<lparr>cdc_seq := n, processed_count := processed_count s + 1\<rparr>, w'), r))))"

fun cdc_ingest_all :: "filter_options \<Rightarrow> transform_options \<Rightarrow> ('w, 'h) cdc_call \<Rightarrow> cdc_raw list
    \<Rightarrow> 'h cdc_processor \<times> 'w \<Rightarrow> ('h cdc_processor \<times> 'w) \<times> (js_error, unit) outcome" where
  "cdc_ingest_all fo to call [] sw = (sw, Inr ())"
| "cdc_ingest_all fo to call (raw # raws) sw = (case cdc_ingest fo to call raw sw of
     (sw', Inl e) \<Rightarrow> (sw', Inl e) | (sw', Inr u) \<Rightarrow> cdc_ingest_all fo to call raws sw')"

section \<open>Properties\<close>

lemma masked_get:
  "jget (foldl (\<lambda>result f. if jhas result f then jset f x result else result) p names) k
     = (if k \<in> set names \<and> jhas p k then Some x else jget p k)"
proof (induction names arbitrary: p)
  case (Cons f fs)
  show ?case unfolding foldl_Cons Cons.IH by (auto simp: jhas_def)
qed simp

lemma dropped_get: "jget (foldl (\<lambda>result f. jdelete f result) p names) k = (if k \<in> set names then None else jget p k)"
  by (induction names arbitrary: p) auto

definition names_of :: "string list option \<Rightarrow> string set" where
  "names_of fs = (case fs of None \<Rightarrow> {} | Some names \<Rightarrow> set names)"

text \<open>
  A field that is dropped is in no payload, one that is masked is there as three stars, and the
  others are as they were: the names are those after the renaming.
\<close>

lemma fields_protected:
  "jget (transform_payload opts p) k = (let q = apply_mappings p (field_mappings opts) in
     if k \<in> names_of (drop_fields opts) then None
     else if k \<in> names_of (mask_fields opts) \<and> jhas q k then Some (JStr ''***'')
     else jget q k)"
  by (auto simp: transform_payload_def apply_drops_def apply_masking_def masked_get dropped_get names_of_def
      Let_def split: option.splits)

lemma mapped_entries:
  assumes "inj_on f (set (jkeys p))" and "jwf p" and "\<forall>k \<in> set (jkeys p). \<not> jhas q (f k)" and "k \<in> set (jkeys p)"
  shows "jget (foldl (\<lambda>result (k, v). jset (f k) v result) q p) (f k) = jget p k"
  using assms
proof (induction p arbitrary: q)
  case (Cons e p)
  obtain k0 v where e: "e = (k0, v)" by (rule prod.exhaust)
  have skip: "jget (foldl (\<lambda>result (k, v). jset (f k) v result) q' p') x = jget q' x"
    if "x \<notin> f ` set (jkeys p')" for q' x and p' :: "('a \<times> 'c) list"
    using that by (induction p' arbitrary: q') auto
  show ?case
  proof (cases "k = k0")
    case True
    with Cons.prems e have "f k0 \<notin> f ` set (jkeys p)" by (auto simp: inj_on_def)
    then show ?thesis using skip True e by simp
  next
    case False
    have "\<forall>k \<in> set (jkeys p). \<not> jhas (jset (f k0) v q) (f k)"
      using Cons.prems e by (auto simp: inj_on_def)
    then show ?thesis using Cons.IH [of "jset (f k0) v q"] Cons.prems e False by auto
  qed
qed simp

text \<open>
  When no two fields of a payload get one name, renaming keeps every value under its new name.
\<close>

lemma renaming_keeps_values:
  assumes "jwf p" and "inj_on (mapped_key ms) (set (jkeys p))" and "jhas p k"
  shows "jget (apply_mappings p (Some ms)) (mapped_key ms k) = jget p k"
  using mapped_entries [of "mapped_key ms" p "[]" k] assms
  by (simp add: apply_mappings_def jhas_keys jhas_def)

lemma renaming_keeps_values_witness:
  "jget (apply_mappings [(''ssn'', JNum 1), (''b'', JNum 2)] (Some [(''ssn'', ''tax'')])) ''tax'' = Some (JNum 1)"
  using renaming_keeps_values [of "[(''ssn'', JNum 1), (''b'', JNum 2)]" "[(''ssn'', ''tax'')]" "''ssn''"]
  by (simp add: mapped_key_def inherited_text_def object_functions_def jhas_def)

text \<open>
  A field that is masked and renamed is delivered in the clear under its new name; two fields that
  get one name are one; a column named \<open>constructor\<close> is renamed by any mapping.
\<close>

lemma renaming_leaks:
  "transform_payload \<lparr>field_mappings = Some [(''ssn'', ''tax_id'')], mask_fields = Some [''ssn''], drop_fields = None\<rparr>
     [(''ssn'', JStr ''123'')] = [(''tax_id'', JStr ''123'')]
   \<and> apply_mappings [(''a'', JNum 1), (''b'', JNum 2)] (Some [(''a'', ''b'')]) = [(''b'', JNum 2)]
   \<and> apply_mappings [(''constructor'', JNum 1)] (Some []) = [(''function Object() { [native code] }'', JNum 1)]"
  by (simp add: transform_payload_def apply_mappings_def apply_masking_def apply_drops_def mapped_key_def
      inherited_text_def jhas_def object_functions_def)

text \<open>
  Of an event of MySQL with several rows only the first arrives, whatever the others are.
\<close>

lemma later_rows_lost:
  "normalize_event (MySql (raw\<lparr>my_rows := row # rows\<rparr>)) n = normalize_event (MySql (raw\<lparr>my_rows := [row]\<rparr>)) n"
  by (simp add: from_mysql_def first_row_def split: option.split)

text \<open>
  An event has a new id whenever its operation is known, and none is made when it is not.
\<close>

lemma normalized_id:
  "normalize_event raw n = (n, None) \<or> (\<exists>e. normalize_event raw n = (n + 1, Some e) \<and> ce_id e = ''cdc-'' @ show_int (n + 1))"
  by (cases raw) (auto simp: from_debezium_def from_postgres_def from_mysql_def from_mongo_def next_cdc_id_def
      split: option.splits)

text \<open>What a run of the pipeline delivers, as a composition of its parts.\<close>

fun normalize_all :: "cdc_raw list \<Rightarrow> int \<Rightarrow> cdc_event list" where
  "normalize_all [] n = []"
| "normalize_all (raw # raws) n = (case normalize_event raw n of (n', r) \<Rightarrow>
     (case r of None \<Rightarrow> normalize_all raws n' | Some e \<Rightarrow> e # normalize_all raws n'))"

definition delivered :: "filter_options \<Rightarrow> transform_options \<Rightarrow> cdc_raw list \<Rightarrow> int \<Rightarrow> cdc_event list" where
  "delivered fo to raws n = map (transform_event to) (filter_events fo (normalize_all raws n))"

lemma delivered_Cons:
  "delivered fo to (raw # raws) n = (case normalize_event raw n of (n', r) \<Rightarrow>
     (case r of None \<Rightarrow> delivered fo to raws n'
      | Some e \<Rightarrow> (if event_matches fo e then transform_event to e # delivered fo to raws n' else delivered fo to raws n')))"
  by (simp add: delivered_def filter_events_def split: prod.splits option.splits)

text \<open>
  With handlers that do not throw a batch is normalised, filtered and transformed: every subscriber
  gets each event of the result once, in order, and every raw event is counted once, as processed
  or as skipped.
\<close>

lemma pipeline_composes:
  assumes "\<And>h e w. call h e w = (w @ [(h, e)], Inr ())"
  shows "let r = cdc_ingest_all fo to call raws (s, w); out = delivered fo to raws (cdc_seq s) in
    snd r = Inr () \<and> snd (fst r) = w @ concat (map (\<lambda>e. map (\<lambda>h. (h, e)) (cdc_handlers s)) out)
    \<and> processed_count (fst (fst r)) = processed_count s + int (length out)
    \<and> skipped_count (fst (fst r)) = skipped_count s + int (length raws) - int (length out)
    \<and> cdc_handlers (fst (fst r)) = cdc_handlers s"
proof (induction raws arbitrary: s w)
  case Nil
  show ?case by (simp add: delivered_def filter_events_def)
next
  case (Cons raw raws)
  have calls: "call_handlers call hs e w = (w @ map (\<lambda>h. (h, e)) hs, Inr ())" for hs e w
    by (induction hs arbitrary: w) (simp_all add: assms)
  show ?case
    using Cons.IH normalized_id [of raw "cdc_seq s"]
    by (auto simp: cdc_ingest_def delivered_Cons calls Let_def)
qed

lemma pipeline_composes_witness:
  "let raw = Debezium \<lparr>db_op = ''c'', db_ts_ms = 5, db_db = ''d'', db_table = ''t'', db_before = None, db_after = Some []\<rparr>;
     fo = \<lparr>include_tables = None, exclude_tables = Some [''x''], include_operations = None, only_database = None\<rparr>;
     to = \<lparr>field_mappings = None, mask_fields = None, drop_fields = None\<rparr>;
     r = cdc_ingest_all fo to (\<lambda>h e w. (w @ [(h, e)], Inr ())) [raw]
       (\<lparr>cdc_seq = 0, cdc_handlers = [''h''], processed_count = 0, skipped_count = 0\<rparr>, []) in
   length (snd (fst r)) = 1 \<and> processed_count (fst (fst r)) = 1"
  using pipeline_composes [where call = "\<lambda>h e w. (w @ [(h, e)], Inr ())"
      and fo = "\<lparr>include_tables = None, exclude_tables = Some [''x''], include_operations = None, only_database = None\<rparr>"
      and to = "\<lparr>field_mappings = None, mask_fields = None, drop_fields = None\<rparr>"
      and raws = "[Debezium \<lparr>db_op = ''c'', db_ts_ms = 5, db_db = ''d'', db_table = ''t'', db_before = None, db_after = Some []\<rparr>]"
      and s = "\<lparr>cdc_seq = 0, cdc_handlers = [''h''], processed_count = 0, skipped_count = 0\<rparr>" and w = "[]"]
  by (simp add: delivered_def filter_events_def from_debezium_def cdc_ingest_def
      debezium_op_map_def next_cdc_id_def event_matches_def matches_database_def matches_exclude_tables_def
      matches_include_tables_def matches_operations_def)

text \<open>
  A handler that throws ends the batch: the event counts as processed, the later handlers do not
  get it and the events after it are not taken.
\<close>

lemma throwing_handler_ends_batch:
  assumes "call_handlers call (cdc_handlers s) (transform_event to e) w = (w', Inl err)"
    and "normalize_event raw (cdc_seq s) = (n, Some e)" and "event_matches fo e"
  shows "cdc_ingest_all fo to call (raw # raws) (s, w)
    = ((s\<lparr>cdc_seq := n, processed_count := processed_count s + 1\<rparr>, w'), Inl err)"
  using assms by (simp add: cdc_ingest_def)

lemma throwing_handler_ends_batch_witness:
  "let raw = Debezium \<lparr>db_op = ''c'', db_ts_ms = 5, db_db = ''d'', db_table = ''t'', db_before = None, db_after = None\<rparr>;
     fo = \<lparr>include_tables = None, exclude_tables = None, include_operations = None, only_database = None\<rparr>;
     to = \<lparr>field_mappings = None, mask_fields = None, drop_fields = None\<rparr> in
   cdc_ingest_all fo to (\<lambda>h e w. (w + 1, Inl (plain_error ''no''))) [raw, raw]
       (\<lparr>cdc_seq = 0, cdc_handlers = [''h'', ''i''], processed_count = 0, skipped_count = 0\<rparr>, 0::int)
   = ((\<lparr>cdc_seq = 1, cdc_handlers = [''h'', ''i''], processed_count = 1, skipped_count = 0\<rparr>, 1), Inl (plain_error ''no''))"
  unfolding Let_def
  by (subst throwing_handler_ends_batch [OF _ _ _])
    (simp_all add: from_debezium_def debezium_op_map_def next_cdc_id_def event_matches_def matches_database_def
      matches_exclude_tables_def matches_include_tables_def matches_operations_def transform_event_def)

text \<open>Filtering is a selection: nothing passes twice filtered that did not pass once.\<close>

lemma filter_matches:
  "event_matches fo e \<longleftrightarrow> (only_database fo = None \<or> only_database fo = Some (ce_database e))
     \<and> ce_table e \<notin> names_of (exclude_tables fo)
     \<and> (include_tables fo = None \<or> ce_table e \<in> names_of (include_tables fo))
     \<and> (case include_operations fo of None \<Rightarrow> True | Some ops \<Rightarrow> ce_operation e \<in> set ops)"
  by (auto simp: event_matches_def matches_database_def matches_exclude_tables_def matches_include_tables_def
      matches_operations_def names_of_def split: option.splits)

end
