(* ===== verification/Acl.thy ===== *)
theory Acl
  imports Prelude
begin

text \<open>
  The acl package: registries of translators, converters and protocol adapters
  (\<open>TranslatorRegistry.ts\<close>, \<open>DataFormatRegistry.ts\<close>, \<open>ProtocolAdapterRegistry.ts\<close>), the facade over
  them (\<open>AntiCorruptionLayer.ts\<close>), the composition of translators (\<open>CompositeTranslator.ts\<close>,
  \<open>FunctionTranslator.ts\<close>, \<open>TranslationResult.ts\<close>) and the facade of a legacy system
  (\<open>LegacyFacade.ts\<close>, \<open>AclException.ts\<close>).

  The values that are translated are of one type, as they are \<open>unknown\<close> in the registries; what a
  translator throws is a \<^typ>\<open>js_error\<close>.
\<close>

section \<open>Translators\<close>

type_synonym ('x, 'y) translator = "'x \<Rightarrow> (js_error, 'y) outcome"

definition function_translate :: "('x \<Rightarrow> (js_error, 'y) outcome) \<Rightarrow> ('x, 'y) translator" where
  "function_translate fn source = fn source"

definition composite_translate :: "('x, 'y) translator \<Rightarrow> ('y, 'z) translator \<Rightarrow> ('x, 'z) translator" where
  "composite_translate f g source = (case f source of Inl e \<Rightarrow> Inl e | Inr y \<Rightarrow> g y)"

record 'x translation_result =
  tr_value :: 'x
  translated_at :: int
  tr_warnings :: "string list"

definition create_translation_result :: "'x \<Rightarrow> string list option \<Rightarrow> int \<Rightarrow> 'x translation_result" where
  "create_translation_result v warnings now = \<lparr>tr_value = v, translated_at = now,
     tr_warnings = (case warnings of None \<Rightarrow> [] | Some ws \<Rightarrow> ws)\<rparr>"

type_synonym 'x translator_registry = "(string, ('x, 'x) translator) jsmap"

definition register_translator :: "string \<Rightarrow> ('x, 'x) translator \<Rightarrow> 'x translator_registry \<Rightarrow> 'x translator_registry" where
  "register_translator k t m = jset k t m"

definition translate_with :: "string \<Rightarrow> 'x \<Rightarrow> 'x translator_registry \<Rightarrow> (js_error, 'x) outcome" where
  "translate_with k source m = (case jget m k of
     None \<Rightarrow> Inl (plain_error (''No translator registered for key: '' @ [CHR 0x22] @ k @ [CHR 0x22]))
   | Some t \<Rightarrow> t source)"

definition has_translator :: "string \<Rightarrow> 'x translator_registry \<Rightarrow> bool" where
  "has_translator k m = jhas m k"

definition translator_count :: "'x translator_registry \<Rightarrow> int" where
  "translator_count m = jsize m"

section \<open>Converters\<close>

record 'x data_converter =
  from_format :: string
  to_format :: string
  convert_data :: "('x, 'x) translator"

type_synonym 'x format_registry = "(string, 'x data_converter) jsmap"

definition format_key :: "string \<Rightarrow> string \<Rightarrow> string" where
  "format_key f t = f @ '':'' @ t"

definition register_converter :: "'x data_converter \<Rightarrow> 'x format_registry \<Rightarrow> 'x format_registry" where
  "register_converter c m = jset (format_key (from_format c) (to_format c)) c m"

text \<open>The message has an arrow between the formats, outside the characters of a \<^typ>\<open>char\<close>; it is \<open>to\<close> here.\<close>

definition convert_format :: "string \<Rightarrow> string \<Rightarrow> 'x \<Rightarrow> 'x format_registry \<Rightarrow> (js_error, 'x) outcome" where
  "convert_format f t d m = (case jget m (format_key f t) of
     None \<Rightarrow> Inl (plain_error (''No converter registered for '' @ [CHR 0x22] @ f @ [CHR 0x22] @ '' to '' @ [CHR 0x22] @ t @ [CHR 0x22]))
   | Some c \<Rightarrow> convert_data c d)"

definition has_converter :: "string \<Rightarrow> string \<Rightarrow> 'x format_registry \<Rightarrow> bool" where
  "has_converter f t m = jhas m (format_key f t)"

definition converter_count :: "'x format_registry \<Rightarrow> int" where
  "converter_count m = jsize m"

section \<open>Protocol adapters\<close>

record 'x protocol_adapter =
  adapt_request :: "('x, 'x) translator"
  adapt_response :: "('x, 'x) translator"

type_synonym 'x protocol_registry = "(string, 'x protocol_adapter) jsmap"

definition register_adapter :: "string \<Rightarrow> 'x protocol_adapter \<Rightarrow> 'x protocol_registry \<Rightarrow> 'x protocol_registry" where
  "register_adapter k a m = jset k a m"

definition no_adapter :: "string \<Rightarrow> js_error" where
  "no_adapter k = plain_error (''No protocol adapter registered for: '' @ [CHR 0x22] @ k @ [CHR 0x22])"

definition registry_adapt_request :: "string \<Rightarrow> 'x \<Rightarrow> 'x protocol_registry \<Rightarrow> (js_error, 'x) outcome" where
  "registry_adapt_request k x m = (case jget m k of None \<Rightarrow> Inl (no_adapter k) | Some a \<Rightarrow> adapt_request a x)"

definition registry_adapt_response :: "string \<Rightarrow> 'x \<Rightarrow> 'x protocol_registry \<Rightarrow> (js_error, 'x) outcome" where
  "registry_adapt_response k x m = (case jget m k of None \<Rightarrow> Inl (no_adapter k) | Some a \<Rightarrow> adapt_response a x)"

definition has_adapter :: "string \<Rightarrow> 'x protocol_registry \<Rightarrow> bool" where
  "has_adapter k m = jhas m k"

definition adapter_count :: "'x protocol_registry \<Rightarrow> int" where
  "adapter_count m = jsize m"

section \<open>The facade\<close>

record 'x anti_corruption_layer =
  acl_translators :: "'x translator_registry"
  acl_converters :: "'x format_registry"
  acl_protocols :: "'x protocol_registry"

definition acl_register_translator :: "string \<Rightarrow> ('x, 'x) translator \<Rightarrow> 'x anti_corruption_layer \<Rightarrow> 'x anti_corruption_layer" where
  "acl_register_translator k t a = a\<lparr>acl_translators := register_translator k t (acl_translators a)\<rparr>"

definition acl_translate :: "string \<Rightarrow> 'x \<Rightarrow> 'x anti_corruption_layer \<Rightarrow> (js_error, 'x) outcome" where
  "acl_translate k x a = translate_with k x (acl_translators a)"

definition acl_has_translator :: "string \<Rightarrow> 'x anti_corruption_layer \<Rightarrow> bool" where
  "acl_has_translator k a = has_translator k (acl_translators a)"

definition acl_register_converter :: "'x data_converter \<Rightarrow> 'x anti_corruption_layer \<Rightarrow> 'x anti_corruption_layer" where
  "acl_register_converter c a = a\<lparr>acl_converters := register_converter c (acl_converters a)\<rparr>"

definition acl_convert :: "string \<Rightarrow> string \<Rightarrow> 'x \<Rightarrow> 'x anti_corruption_layer \<Rightarrow> (js_error, 'x) outcome" where
  "acl_convert f t x a = convert_format f t x (acl_converters a)"

definition acl_has_converter :: "string \<Rightarrow> string \<Rightarrow> 'x anti_corruption_layer \<Rightarrow> bool" where
  "acl_has_converter f t a = has_converter f t (acl_converters a)"

definition acl_register_protocol_adapter :: "string \<Rightarrow> 'x protocol_adapter \<Rightarrow> 'x anti_corruption_layer \<Rightarrow> 'x anti_corruption_layer" where
  "acl_register_protocol_adapter k p a = a\<lparr>acl_protocols := register_adapter k p (acl_protocols a)\<rparr>"

definition acl_adapt_request :: "string \<Rightarrow> 'x \<Rightarrow> 'x anti_corruption_layer \<Rightarrow> (js_error, 'x) outcome" where
  "acl_adapt_request k x a = registry_adapt_request k x (acl_protocols a)"

definition acl_adapt_response :: "string \<Rightarrow> 'x \<Rightarrow> 'x anti_corruption_layer \<Rightarrow> (js_error, 'x) outcome" where
  "acl_adapt_response k x a = registry_adapt_response k x (acl_protocols a)"

definition acl_has_protocol_adapter :: "string \<Rightarrow> 'x anti_corruption_layer \<Rightarrow> bool" where
  "acl_has_protocol_adapter k a = has_adapter k (acl_protocols a)"

section \<open>The facade of a legacy system\<close>

record 'e acl_exception =
  ax_name :: string
  ax_code :: string
  ax_message :: string
  original_error :: 'e

definition new_acl_exception :: "string \<Rightarrow> string \<Rightarrow> 'e \<Rightarrow> 'e acl_exception" where
  "new_acl_exception code msg e = \<lparr>ax_name = ''AclException'', ax_code = code, ax_message = msg, original_error = e\<rparr>"

definition legacy_execute :: "('e \<Rightarrow> 'f) \<Rightarrow> ('w \<Rightarrow> 'w \<times> ('e, 'a) outcome) \<Rightarrow> 'w \<Rightarrow> 'w \<times> ('f, 'a) outcome" where
  "legacy_execute map_error operation w = (case operation w of
     (w', Inl e) \<Rightarrow> (w', Inl (map_error e)) | (w', Inr v) \<Rightarrow> (w', Inr v))"

section \<open>Properties\<close>

text \<open>
  Each registry answers with what was registered last under the key; another key is untouched, and
  each part of the facade leaves the other two alone.
\<close>

lemma layer_is_last_registered:
  "acl_translate k x (acl_register_translator k' t a) = (if k = k' then t x else acl_translate k x a)
   \<and> acl_adapt_request k x (acl_register_protocol_adapter k' p a) = (if k = k' then adapt_request p x else acl_adapt_request k x a)
   \<and> acl_adapt_response k x (acl_register_protocol_adapter k' p a) = (if k = k' then adapt_response p x else acl_adapt_response k x a)
   \<and> acl_convert f g x (acl_register_translator k' t (acl_register_protocol_adapter k' p a)) = acl_convert f g x a
   \<and> (acl_has_translator k a \<longleftrightarrow> (\<exists>t. jget (acl_translators a) k = Some t))"
  by (simp add: acl_translate_def acl_register_translator_def translate_with_def register_translator_def
      acl_adapt_request_def acl_register_protocol_adapter_def registry_adapt_request_def register_adapter_def
      acl_adapt_response_def registry_adapt_response_def acl_convert_def acl_has_translator_def has_translator_def jhas_def)

lemma format_key_inj:
  assumes "CHR '':'' \<notin> set f" and "CHR '':'' \<notin> set f'"
  shows "format_key f t = format_key f' t' \<longleftrightarrow> f = f' \<and> t = t'"
proof -
  have *: "takeWhile (\<lambda>c. c \<noteq> CHR '':'') (format_key g u) = g" if "CHR '':'' \<notin> set g" for g u
    using that unfolding format_key_def by (induction g) auto
  show ?thesis using *[OF assms(1)] *[OF assms(2)] by (metis append_same_eq format_key_def same_append_eq)
qed

text \<open>
  A converter is found for its pair of formats and for no other, when no name of a source format has
  a colon.
\<close>

lemma converter_for_its_formats:
  assumes "CHR '':'' \<notin> set f" and "CHR '':'' \<notin> set (from_format c)"
  shows "acl_convert f t x (acl_register_converter c a)
    = (if f = from_format c \<and> t = to_format c then convert_data c x else acl_convert f t x a)"
  using format_key_inj [OF assms, of t "to_format c"]
  by (simp add: acl_convert_def acl_register_converter_def convert_format_def register_converter_def)

lemma converter_for_its_formats_witness:
  "acl_convert ''json'' ''csv'' (1::int)
     (acl_register_converter \<lparr>from_format = ''json'', to_format = ''csv'', convert_data = \<lambda>x. Inr (x + 1)\<rparr>
       \<lparr>acl_translators = [], acl_converters = [], acl_protocols = []\<rparr>) = Inr 2"
  by (subst converter_for_its_formats) simp_all

text \<open>
  With a colon in a name two pairs have one key: the converter of one is applied to the data of the
  other.
\<close>

lemma formats_confused:
  "format_key ''a:b'' ''c'' = format_key ''a'' ''b:c''
   \<and> acl_convert ''a'' ''b:c'' x (acl_register_converter \<lparr>from_format = ''a:b'', to_format = ''c'', convert_data = h\<rparr> l) = h x"
  by (simp add: format_key_def acl_convert_def acl_register_converter_def convert_format_def register_converter_def)

text \<open>Composing translators is associative, and an error of the first keeps the second from being called.\<close>

lemma composition_associative:
  "composite_translate (composite_translate f g) h = composite_translate f (composite_translate g h)
   \<and> (f x = Inl e \<longrightarrow> composite_translate f g x = Inl e)
   \<and> composite_translate f (function_translate Inr) x = f x"
  by (auto simp: composite_translate_def function_translate_def fun_eq_iff split: sum.split)

lemma composition_associative_witness:
  "composite_translate (\<lambda>x::int. Inl (plain_error ''no'')) (\<lambda>x. Inr (x + 1)) 3 = (Inl (plain_error ''no'') :: (js_error, int) outcome)"
  using composition_associative [of "\<lambda>x::int. Inl (plain_error ''no'')" "\<lambda>x. Inr (x + 1)" "\<lambda>x::int. (Inr x :: (js_error, int) outcome)"
      3 "plain_error ''no''"] by simp

text \<open>Whatever a legacy operation throws leaves the facade as what the facade makes of it.\<close>

lemma legacy_errors_mapped:
  "fst (legacy_execute h operation w) = fst (operation w)
   \<and> (case snd (legacy_execute h operation w) of
        Inl f \<Rightarrow> (\<exists>e. snd (operation w) = Inl e \<and> f = h e) | Inr v \<Rightarrow> snd (operation w) = Inr v)"
  by (auto simp: legacy_execute_def split: prod.splits sum.splits)

end
