(* ===== verification/Gateway.thy ===== *)
theory Gateway
  imports Json Csp
begin

text \<open>
  The gateway package: the validators of a configuration (\<open>GatewayValidator.ts\<close>) and what is built
  from it for three gateways (\<open>KongConfigBuilder.ts\<close>, \<open>AwsGatewayBuilder.ts\<close>, \<open>AzureApimBuilder.ts\<close>).

  The documents are of the type \<^typ>\<open>json\<close>, the policy of Azure is its text.  Limits and times are
  whole numbers.
\<close>

section \<open>The configuration\<close>

record rate_limit_config =
  requests_per_second :: "int option"
  requests_per_minute :: "int option"
  requests_per_hour :: "int option"
  requests_per_day :: "int option"
  by_consumer :: "bool option"
  by_ip :: "bool option"

record api_key_config =
  header_name :: string
  key_prefix :: "string option"
  expire_ttl_seconds :: "int option"
  hide_credentials :: "bool option"

record request_transform =
  add_headers :: "(string, string) jsmap option"
  remove_headers :: "string list option"
  add_query_params :: "(string, string) jsmap option"
  remove_query_params :: "string list option"

record response_cache_config =
  rc_strategy :: string
  ttl_seconds :: int
  vary_by_headers :: "string list option"
  vary_by_query_params :: "string list option"

record gateway_route =
  gr_name :: string
  gr_paths :: "string list"
  gr_methods :: "string list option"
  strip_path :: "bool option"
  preserve_host :: "bool option"
  gr_rate_limit :: "rate_limit_config option"
  gr_api_key :: "api_key_config option"
  gr_transform :: "request_transform option"
  gr_cache :: "response_cache_config option"

record gateway_service =
  gs_name :: string
  gs_url :: string
  gs_routes :: "gateway_route list"
  connect_timeout :: "int option"
  read_timeout :: "int option"
  write_timeout :: "int option"
  gs_retries :: "int option"

record aws_api_config =
  aws_name :: string
  aws_description :: "string option"
  stage_name :: string
  usage_plan_name :: string
  throttling_rate_limit :: "int option"
  throttling_burst_limit :: "int option"
  quota_limit :: "int option"
  quota_period :: "string option"

record azure_apim_config =
  az_service_name :: string
  az_api_name :: string
  az_path :: string
  az_product_name :: string
  az_rate_limit :: "rate_limit_config option"
  az_cache :: "response_cache_config option"

section \<open>Validation\<close>

record gateway_validation =
  gv_valid :: bool
  gv_errors :: "string list"

text \<open>\<open>errors.length === 0 ? ok() : fail(errors)\<close>\<close>

definition validation_of :: "string list \<Rightarrow> gateway_validation" where
  "validation_of errs = (if errs = [] then \<lparr>gv_valid = True, gv_errors = []\<rparr> else \<lparr>gv_valid = False, gv_errors = errs\<rparr>)"

definition has_at_least_one_limit :: "rate_limit_config \<Rightarrow> bool" where
  "has_at_least_one_limit c = (requests_per_second c \<noteq> None \<or> requests_per_minute c \<noteq> None
     \<or> requests_per_hour c \<noteq> None \<or> requests_per_day c \<noteq> None)"

fun limit_errors :: "int option list \<Rightarrow> string list" where
  "limit_errors [] = []"
| "limit_errors (l # ls) = (if (case l of None \<Rightarrow> False | Some n \<Rightarrow> n < 1)
     then [''rate limit values must be >= 1''] else limit_errors ls)"

definition validate_limit_values :: "rate_limit_config \<Rightarrow> string list" where
  "validate_limit_values c = limit_errors [requests_per_second c, requests_per_minute c, requests_per_hour c, requests_per_day c]"

definition validate_rate_limit :: "rate_limit_config \<Rightarrow> gateway_validation" where
  "validate_rate_limit c = validation_of
     ((if \<not> has_at_least_one_limit c then [''at least one rate limit (second/minute/hour/day) must be set''] else [])
      @ validate_limit_values c)"

definition between :: "char \<Rightarrow> char \<Rightarrow> char \<Rightarrow> bool" where
  "between a b c = ((of_char a :: nat) \<le> of_char c \<and> (of_char c :: nat) \<le> of_char b)"

definition is_letter :: "char \<Rightarrow> bool" where
  "is_letter c = ((between CHR ''a'' CHR ''z'' c) \<or> (between CHR ''A'' CHR ''Z'' c))"

definition is_decimal :: "char \<Rightarrow> bool" where
  "is_decimal c = (between CHR ''0'' CHR ''9'' c)"

text \<open>\<open>/^[A-Za-z][A-Za-z0-9-]*$/\<close>\<close>

definition header_name_matches :: "string \<Rightarrow> bool" where
  "header_name_matches s = (case s of [] \<Rightarrow> False
     | c # cs \<Rightarrow> is_letter c \<and> list_all (\<lambda>d. is_letter d \<or> is_decimal d \<or> d = CHR ''-'') cs)"

definition validate_api_key_config :: "api_key_config \<Rightarrow> gateway_validation" where
  "validate_api_key_config c = validation_of
     ((if js_trim (header_name c) = [] then [''headerName must not be empty''] else [])
      @ (if \<not> header_name_matches (header_name c)
         then [''headerName must start with a letter and contain only letters, digits, and hyphens''] else [])
      @ (case expire_ttl_seconds c of Some n \<Rightarrow> if n < 0 then [''expireTtlSeconds must be >= 0''] else [] | None \<Rightarrow> []))"

definition validate_cache_config :: "response_cache_config \<Rightarrow> gateway_validation" where
  "validate_cache_config c = validation_of
     ((if ttl_seconds c \<le> 0 then [''ttlSeconds must be > 0''] else [])
      @ (if ttl_seconds c > 86400 then [''ttlSeconds must be <= 86400 (24 h)''] else []))"

text \<open>\<open>/^[a-z][a-z0-9-]*$/\<close>\<close>

definition route_name_matches :: "string \<Rightarrow> bool" where
  "route_name_matches s = (case s of [] \<Rightarrow> False
     | c # cs \<Rightarrow> (between CHR ''a'' CHR ''z'' c)
        \<and> list_all (\<lambda>d. (between CHR ''a'' CHR ''z'' d) \<or> is_decimal d \<or> d = CHR ''-'') cs)"

definition validate_route_name :: "string \<Rightarrow> string list" where
  "validate_route_name s = (if route_name_matches s then [] else [''route name must match [a-z][a-z0-9-]*''])"

definition validate_sub_configs :: "gateway_route \<Rightarrow> string list" where
  "validate_sub_configs r =
     (case gr_rate_limit r of None \<Rightarrow> [] | Some c \<Rightarrow> gv_errors (validate_rate_limit c))
     @ (case gr_api_key r of None \<Rightarrow> [] | Some c \<Rightarrow> gv_errors (validate_api_key_config c))
     @ (case gr_cache r of None \<Rightarrow> [] | Some c \<Rightarrow> gv_errors (validate_cache_config c))"

definition path_errors :: "string list \<Rightarrow> string list" where
  "path_errors ps = map (\<lambda>p. ''path '' @ [CHR 0x22] @ p @ [CHR 0x22] @ '' must start with /'') (filter (\<lambda>p. \<not> prefix ''/'' p) ps)"

definition validate_route_config :: "gateway_route \<Rightarrow> gateway_validation" where
  "validate_route_config r = validation_of (validate_route_name (gr_name r)
     @ (if gr_paths r = [] then [''paths must not be empty''] else [])
     @ path_errors (gr_paths r) @ validate_sub_configs r)"

section \<open>Kong\<close>

definition number_or_null :: "int option \<Rightarrow> json" where
  "number_or_null n = (case n of None \<Rightarrow> JNull | Some i \<Rightarrow> JNum (of_int i))"

definition strings :: "string list \<Rightarrow> json" where
  "strings ss = JArr (map JStr ss)"

definition if_given :: "'a \<Rightarrow> 'a option \<Rightarrow> 'a" where
  "if_given d x = (case x of None \<Rightarrow> d | Some v \<Rightarrow> v)"

definition build_rate_limit_plugin :: "rate_limit_config \<Rightarrow> json" where
  "build_rate_limit_plugin c = JObj [(''name'', JStr ''rate-limiting''), (''config'', JObj [
     (''second'', number_or_null (requests_per_second c)), (''minute'', number_or_null (requests_per_minute c)),
     (''hour'', number_or_null (requests_per_hour c)), (''day'', number_or_null (requests_per_day c)),
     (''policy'', JStr (if by_ip c = Some True then ''local'' else ''cluster'')),
     (''fault_tolerant'', JBool True), (''hide_client_headers'', JBool False)])]"

definition build_key_auth_plugin :: "api_key_config \<Rightarrow> json" where
  "build_key_auth_plugin c = JObj [(''name'', JStr ''key-auth''), (''config'', JObj [
     (''key_names'', strings [header_name c]), (''key_in_header'', JBool True), (''key_in_query'', JBool False),
     (''key_in_body'', JBool False), (''hide_credentials'', JBool (if_given True (hide_credentials c)))])]"

definition header_pairs :: "(string, string) jsmap option \<Rightarrow> string list" where
  "header_pairs m = map (\<lambda>(k, v). k @ '':'' @ v) (if_given [] m)"

definition build_request_transform_plugin :: "request_transform \<Rightarrow> json" where
  "build_request_transform_plugin t = JObj [(''name'', JStr ''request-transformer''), (''config'', JObj [
     (''add'', JObj [(''headers'', strings (header_pairs (add_headers t))),
                     (''querystring'', strings (header_pairs (add_query_params t)))]),
     (''remove'', JObj [(''headers'', strings (if_given [] (remove_headers t))),
                        (''querystring'', strings (if_given [] (remove_query_params t)))])])]"

definition optional :: "('a \<Rightarrow> json) \<Rightarrow> 'a option \<Rightarrow> json list" where
  "optional build x = (case x of None \<Rightarrow> [] | Some v \<Rightarrow> [build v])"

definition collect_route_plugins :: "gateway_route \<Rightarrow> json list" where
  "collect_route_plugins r = optional build_rate_limit_plugin (gr_rate_limit r)
     @ optional build_key_auth_plugin (gr_api_key r) @ optional build_request_transform_plugin (gr_transform r)"

definition build_route :: "gateway_route \<Rightarrow> json" where
  "build_route r = JObj ([(''name'', JStr (gr_name r)), (''paths'', strings (gr_paths r)),
     (''strip_path'', JBool (if_given True (strip_path r))),
     (''preserve_host'', JBool (if_given False (preserve_host r))), (''plugins'', JArr (collect_route_plugins r))]
     @ (case gr_methods r of None \<Rightarrow> [] | Some ms \<Rightarrow> [(''methods'', strings ms)]))"

definition build_kong_service :: "gateway_service \<Rightarrow> json" where
  "build_kong_service c = JObj [(''name'', JStr (gs_name c)), (''url'', JStr (gs_url c)),
     (''connect_timeout'', JNum (of_int (if_given 60000 (connect_timeout c)))),
     (''read_timeout'', JNum (of_int (if_given 60000 (read_timeout c)))),
     (''write_timeout'', JNum (of_int (if_given 60000 (write_timeout c)))),
     (''retries'', JNum (of_int (if_given 5 (gs_retries c)))),
     (''routes'', JArr (map build_route (gs_routes c)))]"

section \<open>AWS\<close>

definition build_rest_api_spec :: "aws_api_config \<Rightarrow> json" where
  "build_rest_api_spec c = JObj [(''name'', JStr (aws_name c)), (''description'', JStr (if_given [] (aws_description c))),
     (''endpoint_configuration'', JObj [(''types'', strings [''REGIONAL''])]),
     (''tags'', JObj [(''Stage'', JStr (stage_name c))])]"

definition build_throttle :: "aws_api_config \<Rightarrow> json option" where
  "build_throttle c = (if throttling_rate_limit c = None \<and> throttling_burst_limit c = None then None
     else Some (JObj [(''rate_limit'', JNum (of_int (if_given 100 (throttling_rate_limit c)))),
       (''burst_limit'', JNum (of_int (if_given 200 (throttling_burst_limit c))))]))"

definition build_quota :: "aws_api_config \<Rightarrow> json option" where
  "build_quota c = (case quota_limit c of None \<Rightarrow> None
     | Some n \<Rightarrow> Some (JObj [(''limit'', JNum (of_int n)), (''period'', JStr (if_given ''DAY'' (quota_period c)))]))"

definition build_usage_plan :: "aws_api_config \<Rightarrow> json" where
  "build_usage_plan c = JObj ([(''name'', JStr (usage_plan_name c)),
     (''api_stages'', JArr [JObj [(''api_id'', JStr (aws_name c)), (''stage'', JStr (stage_name c))]])]
     @ (case build_throttle c of None \<Rightarrow> [] | Some t \<Rightarrow> [(''throttle'', t)])
     @ (case build_quota c of None \<Rightarrow> [] | Some q \<Rightarrow> [(''quota'', q)]))"

definition build_api_key_resource :: "string \<Rightarrow> string \<Rightarrow> json" where
  "build_api_key_resource n d = JObj [(''name'', JStr n), (''description'', JStr d), (''enabled'', JBool True)]"

definition build_stage_config :: "aws_api_config \<Rightarrow> json" where
  "build_stage_config c = JObj [(''stage_name'', JStr (stage_name c)), (''variables'', JObj [(''api'', JStr (aws_name c))]),
     (''default_route_settings'', JObj [
        (''throttling_rate_limit'', JNum (of_int (if_given 100 (throttling_rate_limit c)))),
        (''throttling_burst_limit'', JNum (of_int (if_given 200 (throttling_burst_limit c))))])]"

section \<open>Azure\<close>

definition in_quotes :: "string \<Rightarrow> string" where
  "in_quotes s = [CHR 0x22] @ s @ [CHR 0x22]"

definition azure_limit :: "rate_limit_config \<Rightarrow> int \<times> int" where
  "azure_limit c = (if_given (if_given 100 (requests_per_second c)) (requests_per_minute c),
     if requests_per_minute c \<noteq> None then 60 else 1)"

definition build_rate_limit_policy_xml :: "rate_limit_config \<Rightarrow> string" where
  "build_rate_limit_policy_xml c = (case azure_limit c of (calls, period) \<Rightarrow>
     ''    <rate-limit calls='' @ in_quotes (show_int calls) @ '' renewal-period='' @ in_quotes (show_int period) @ '' />'')"

definition build_cache_lookup_xml :: "response_cache_config \<Rightarrow> string" where
  "build_cache_lookup_xml c =
     ''    <cache-lookup vary-by-developer='' @ in_quotes ''false'' @ '' vary-by-developer-groups='' @ in_quotes ''false'' @ ''>''
     @ [CHR 0x0A] @ (case vary_by_headers c of None \<Rightarrow> []
        | Some hs \<Rightarrow> join_text [CHR 0x0A] (map (\<lambda>h. ''      <vary-by-header>'' @ h @ ''</vary-by-header>'') hs) @ [CHR 0x0A])
     @ ''    </cache-lookup>''"

definition build_cache_store_xml :: "response_cache_config \<Rightarrow> string" where
  "build_cache_store_xml c = ''    <cache-store duration='' @ in_quotes (show_int (ttl_seconds c)) @ '' />''"

definition build_inbound_policies :: "azure_apim_config \<Rightarrow> string list" where
  "build_inbound_policies c = [''    <base />'']
     @ (case az_rate_limit c of None \<Rightarrow> [] | Some l \<Rightarrow> [build_rate_limit_policy_xml l])
     @ (case az_cache c of None \<Rightarrow> [] | Some l \<Rightarrow> [build_cache_lookup_xml l])"

definition build_outbound_policies :: "azure_apim_config \<Rightarrow> string list" where
  "build_outbound_policies c = [''    <base />''] @ (case az_cache c of None \<Rightarrow> [] | Some l \<Rightarrow> [build_cache_store_xml l])"

definition build_apim_policy :: "azure_apim_config \<Rightarrow> string" where
  "build_apim_policy c = join_text [CHR 0x0A] ([''<policies>'', ''  <inbound>''] @ build_inbound_policies c
     @ [''  </inbound>'', ''  <outbound>''] @ build_outbound_policies c @ [''  </outbound>'', ''</policies>''])"

definition build_product_config :: "azure_apim_config \<Rightarrow> json" where
  "build_product_config c = JObj [(''display_name'', JStr (az_product_name c)),
     (''api_management_name'', JStr (az_service_name c)), (''resource_group_name'', JStr (az_service_name c)),
     (''published'', JBool True), (''subscription_required'', JBool True), (''approval_required'', JBool False),
     (''subscriptions_limit'', JNum 1), (''terms'', JStr [])]"

definition build_api_config :: "azure_apim_config \<Rightarrow> json" where
  "build_api_config c = JObj [(''name'', JStr (az_api_name c)), (''api_management_name'', JStr (az_service_name c)),
     (''resource_group_name'', JStr (az_service_name c)), (''path'', JStr (az_path c)),
     (''protocols'', strings [''https'']), (''revision'', JStr ''1'')]"

section \<open>Properties\<close>

lemma validation_of_simps [simp]: "gv_valid (validation_of es) \<longleftrightarrow> es = []" "gv_errors (validation_of es) = es"
  by (simp_all add: validation_of_def)

lemma limit_errors_empty: "limit_errors ls = [] \<longleftrightarrow> (\<forall>n. Some n \<in> set ls \<longrightarrow> n \<ge> 1)"
  by (induction ls) (auto split: option.splits)

definition limits_ok :: "rate_limit_config \<Rightarrow> bool" where
  "limits_ok c = (let ls = [requests_per_second c, requests_per_minute c, requests_per_hour c, requests_per_day c] in
     list_ex (\<lambda>l. l \<noteq> None) ls \<and> list_all (\<lambda>l. case l of None \<Rightarrow> True | Some n \<Rightarrow> 1 \<le> n) ls)"

definition route_ok :: "gateway_route \<Rightarrow> bool" where
  "route_ok r = (route_name_matches (gr_name r) \<and> gr_paths r \<noteq> [] \<and> list_all (\<lambda>p. prefix ''/'' p) (gr_paths r)
     \<and> (case gr_rate_limit r of None \<Rightarrow> True | Some c \<Rightarrow> limits_ok c)
     \<and> (case gr_api_key r of None \<Rightarrow> True | Some c \<Rightarrow> header_name_matches (header_name c)
         \<and> (case expire_ttl_seconds c of None \<Rightarrow> True | Some n \<Rightarrow> 0 \<le> n))
     \<and> (case gr_cache r of None \<Rightarrow> True | Some c \<Rightarrow> 1 \<le> ttl_seconds c \<and> ttl_seconds c \<le> 86400))"

lemma rate_limit_exact: "gv_valid (validate_rate_limit c) \<longleftrightarrow> limits_ok c"
  by (auto simp: validate_rate_limit_def validate_limit_values_def limits_ok_def has_at_least_one_limit_def
      split: option.splits)

lemma letter_not_space: "is_letter c \<Longrightarrow> \<not> is_js_space c"
  by (auto simp: is_letter_def is_js_space_def between_def Let_def)

lemma header_name_not_blank: "header_name_matches s \<Longrightarrow> js_trim s \<noteq> []"
  using letter_not_space by (cases s) (auto simp: header_name_matches_def js_trim_def dropWhile_eq_Nil)

lemma api_key_exact:
  "gv_valid (validate_api_key_config c) \<longleftrightarrow> header_name_matches (header_name c)
     \<and> (case expire_ttl_seconds c of None \<Rightarrow> True | Some n \<Rightarrow> 0 \<le> n)"
  using header_name_not_blank [of "header_name c"]
  by (auto simp: validate_api_key_config_def split: option.splits)

lemma errors_of_valid: "gv_errors (validate_rate_limit c) = [] \<longleftrightarrow> gv_valid (validate_rate_limit c)"
    "gv_errors (validate_api_key_config k) = [] \<longleftrightarrow> gv_valid (validate_api_key_config k)"
    "gv_errors (validate_cache_config r) = [] \<longleftrightarrow> gv_valid (validate_cache_config r)"
  by (simp_all add: validate_rate_limit_def validate_api_key_config_def validate_cache_config_def)

text \<open>The number of calls and the period in seconds.\<close>

lemma route_accepted_exactly: "gv_valid (validate_route_config r) \<longleftrightarrow> route_ok r"
proof -
  have cache: "gv_valid (validate_cache_config c) \<longleftrightarrow> 1 \<le> ttl_seconds c \<and> ttl_seconds c \<le> 86400" for c
    by (auto simp: validate_cache_config_def)
  have "path_errors (gr_paths r) = [] \<longleftrightarrow> list_all (\<lambda>p. prefix ''/'' p) (gr_paths r)"
    by (auto simp: path_errors_def filter_empty_conv list_all_iff)
  then show ?thesis
    by (auto simp: validate_route_config_def validate_route_name_def validate_sub_configs_def errors_of_valid
        rate_limit_exact api_key_exact cache route_ok_def split: option.splits if_splits)
qed

text \<open>
  What a route must satisfy; a route is accepted exactly when it does.  The options that are not
  given are not looked at.
\<close>

lemma kong_keeps_limits:
  "(case jfield (build_rate_limit_plugin c) ''config'' of None \<Rightarrow> False | Some cfg \<Rightarrow>
     jfield cfg ''second'' = Some (number_or_null (requests_per_second c))
     \<and> jfield cfg ''minute'' = Some (number_or_null (requests_per_minute c))
     \<and> jfield cfg ''hour'' = Some (number_or_null (requests_per_hour c))
     \<and> jfield cfg ''day'' = Some (number_or_null (requests_per_day c)))"
  by (simp add: build_rate_limit_plugin_def jfield_def)

text \<open>
  What a gateway then allows: for Kong every limit that is given is in the plugin; Azure is given the
  limit per minute, else that per second, and a configuration with neither, which the validator
  accepts, is a hundred calls a second, whatever its limits per hour and per day are.
\<close>

lemma azure_ignores_hours:
  "limits_ok \<lparr>requests_per_second = None, requests_per_minute = None, requests_per_hour = Some 10, requests_per_day = d,
      by_consumer = None, by_ip = None\<rparr> = (case d of None \<Rightarrow> True | Some n \<Rightarrow> 1 \<le> n)
   \<and> azure_limit \<lparr>requests_per_second = None, requests_per_minute = None, requests_per_hour = h, requests_per_day = d,
      by_consumer = b, by_ip = i\<rparr> = (100, 1)
   \<and> azure_limit \<lparr>requests_per_second = Some 1, requests_per_minute = Some 600, requests_per_hour = h, requests_per_day = d,
      by_consumer = b, by_ip = i\<rparr> = (600, 60)"
  by (auto simp: limits_ok_def azure_limit_def if_given_def split: option.splits)

text \<open>
  Of a header to add to a request the gateway gets one text: two configurations have the same one,
  and a name of a header is written into the policy of Azure as it is.
\<close>

lemma texts_not_escaped:
  "header_pairs (Some [(''a:b'', ''c'')]) = header_pairs (Some [(''a'', ''b:c'')])
   \<and> build_cache_lookup_xml \<lparr>rc_strategy = s, ttl_seconds = t, vary_by_headers = Some [''A</vary-by-header><x/><vary-by-header>B''], vary_by_query_params = q\<rparr>
     = ''    <cache-lookup vary-by-developer='' @ in_quotes ''false'' @ '' vary-by-developer-groups='' @ in_quotes ''false'' @ ''>''
       @ [CHR 0x0A] @ ''      <vary-by-header>A</vary-by-header><x/><vary-by-header>B</vary-by-header>'' @ [CHR 0x0A] @ ''    </cache-lookup>''"
  by (simp add: header_pairs_def if_given_def build_cache_lookup_xml_def)

text \<open>
  The usage plan and the stage of AWS agree on the throttling whenever one of its limits is given;
  when none is, the stage has the defaults and the plan has no throttling.
\<close>

lemma aws_throttling:
  "(build_throttle c = None \<longleftrightarrow> throttling_rate_limit c = None \<and> throttling_burst_limit c = None)
   \<and> (case build_throttle c of None \<Rightarrow> True | Some t \<Rightarrow> (case jfield (build_stage_config c) ''default_route_settings'' of
        None \<Rightarrow> False | Some s \<Rightarrow> jfield t ''rate_limit'' = jfield s ''throttling_rate_limit''
          \<and> jfield t ''burst_limit'' = jfield s ''throttling_burst_limit''))
   \<and> jfield (build_usage_plan c) ''throttle'' = build_throttle c
   \<and> jfield (build_usage_plan c) ''quota'' = build_quota c"
  by (auto simp: build_throttle_def build_stage_config_def jfield_def build_usage_plan_def map_add_def split: option.splits)

text \<open>A service is built with one route for each of its routes, in order, each with the plugins that are configured.\<close>

lemma kong_service_routes:
  "jfield (build_kong_service c) ''routes'' = Some (JArr (map build_route (gs_routes c)))
   \<and> jfield (build_route r) ''plugins'' = Some (JArr (collect_route_plugins r))
   \<and> length (collect_route_plugins r) = (if gr_rate_limit r = None then 0 else 1) + (if gr_api_key r = None then 0 else 1)
       + (if gr_transform r = None then 0 else 1)"
  by (auto simp: build_kong_service_def build_route_def jfield_def collect_route_plugins_def optional_def map_add_def
      split: option.splits)

end
