(* ===== verification/Incidents.thy ===== *)
theory Incidents
  imports Json Csp "HOL-Library.Multiset"
begin

text \<open>
  The incidents package: the manager of incidents (\<open>IncidentManager.ts\<close>), the builder of a
  post-mortem (\<open>PostMortemBuilder.ts\<close>) and the adapters that send alerts (\<open>AlertAdapters.ts\<close>).

  Ids and times are arguments; the text of a time in a report is the parameter \<open>iso_time\<close>.  The
  handlers of a status change are functions on a world; \<open>fetch\<close> answers a request with a response
  or rejects.
\<close>

section \<open>The manager\<close>

datatype incident_severity = Critical_inc | High_inc | Medium_inc | Low_inc

datatype incident_status = Open_inc | Investigating | Identified | Monitoring | Resolved_inc

record incident =
  in_id :: string
  in_title :: string
  in_description :: string
  in_severity :: incident_severity
  in_status :: incident_status
  created_at :: int
  updated_at :: int
  resolved_at :: "int option"
  in_assignee :: "string option"
  in_tags :: "string list"
  runbook_url :: "string option"

record incident_update =
  iu_incident :: string
  iu_message :: string
  iu_status :: incident_status
  iu_timestamp :: int
  iu_author :: "string option"

record open_params =
  op_title :: string
  op_description :: string
  op_severity :: incident_severity
  op_assignee :: "string option"
  op_tags :: "string list option"
  op_runbook :: "string option"

record 'h incident_manager =
  incidents :: "(string, incident) jsmap"
  inc_updates :: "(string, incident_update list) jsmap"
  status_handlers :: "'h list"

definition open_incident :: "open_params \<Rightarrow> string \<Rightarrow> int \<Rightarrow> 'h incident_manager \<Rightarrow> 'h incident_manager \<times> incident" where
  "open_incident p hex now m = (let i = \<lparr>in_id = ''inc_'' @ hex, in_title = op_title p, in_description = op_description p,
       in_severity = op_severity p, in_status = Open_inc, created_at = now, updated_at = now, resolved_at = None,
       in_assignee = op_assignee p, in_tags = (case op_tags p of None \<Rightarrow> [] | Some ts \<Rightarrow> ts), runbook_url = op_runbook p\<rparr> in
     (m\<lparr>incidents := jset (in_id i) i (incidents m)\<rparr>, i))"

type_synonym ('w, 'h) status_call = "'h \<Rightarrow> incident \<Rightarrow> incident_update \<Rightarrow> 'w \<Rightarrow> 'w \<times> (js_error, unit) outcome"

fun notify_handlers :: "('w, 'h) status_call \<Rightarrow> 'h list \<Rightarrow> incident \<Rightarrow> incident_update \<Rightarrow> 'w \<Rightarrow> 'w \<times> (js_error, unit) outcome" where
  "notify_handlers call [] i u w = (w, Inr ())"
| "notify_handlers call (h # hs) i u w = (case call h i u w of
     (w', Inl e) \<Rightarrow> (w', Inl e) | (w', Inr x) \<Rightarrow> notify_handlers call hs i u w')"

definition updated_incident :: "incident \<Rightarrow> incident_status \<Rightarrow> int \<Rightarrow> incident" where
  "updated_incident i status now = i\<lparr>in_status := status, updated_at := now,
     resolved_at := (if status = Resolved_inc then Some now else resolved_at i)\<rparr>"

definition store_update :: "incident \<Rightarrow> incident_update \<Rightarrow> 'h incident_manager \<Rightarrow> 'h incident_manager" where
  "store_update i u m = m\<lparr>incidents := jset (iu_incident u) i (incidents m),
     inc_updates := jset (iu_incident u) (elems (inc_updates m) (iu_incident u) @ [u]) (inc_updates m)\<rparr>"

definition update_incident :: "('w, 'h) status_call \<Rightarrow> string \<Rightarrow> incident_status \<Rightarrow> string \<Rightarrow> string option \<Rightarrow> int
    \<Rightarrow> 'h incident_manager \<times> 'w \<Rightarrow> ('h incident_manager \<times> 'w) \<times> (js_error, incident_update option) outcome" where
  "update_incident call k status msg author now mw = (case mw of (m, w) \<Rightarrow> (case jget (incidents m) k of
     None \<Rightarrow> ((m, w), Inr None)
   | Some i \<Rightarrow> (let i' = updated_incident i status now;
         u = \<lparr>iu_incident = k, iu_message = msg, iu_status = status, iu_timestamp = now, iu_author = author\<rparr>;
         m' = store_update i' u m in
       (case notify_handlers call (status_handlers m') i' u w of
          (w', Inl e) \<Rightarrow> ((m', w'), Inl e) | (w', Inr x) \<Rightarrow> ((m', w'), Inr (Some u))))))"

definition resolve_incident :: "('w, 'h) status_call \<Rightarrow> string \<Rightarrow> string option \<Rightarrow> string option \<Rightarrow> int
    \<Rightarrow> 'h incident_manager \<times> 'w \<Rightarrow> ('h incident_manager \<times> 'w) \<times> (js_error, incident_update option) outcome" where
  "resolve_incident call k msg author now mw = update_incident call k Resolved_inc
     (case msg of None \<Rightarrow> ''Incident resolved'' | Some s \<Rightarrow> s) author now mw"

definition get_incident :: "string \<Rightarrow> 'h incident_manager \<Rightarrow> incident option" where
  "get_incident k m = jget (incidents m) k"

definition list_incidents :: "incident_status option \<Rightarrow> 'h incident_manager \<Rightarrow> incident list" where
  "list_incidents status m = (case status of None \<Rightarrow> jvalues (incidents m)
     | Some s \<Rightarrow> filter (\<lambda>i. in_status i = s) (jvalues (incidents m)))"

definition get_updates :: "string \<Rightarrow> 'h incident_manager \<Rightarrow> incident_update list" where
  "get_updates k m = elems (inc_updates m) k"

definition on_status_change :: "'h \<Rightarrow> 'h incident_manager \<Rightarrow> 'h incident_manager" where
  "on_status_change h m = m\<lparr>status_handlers := status_handlers m @ [h]\<rparr>"

text \<open>\<open>indexOf\<close> finds the first, so of a handler that is registered twice that one is removed.\<close>

definition unsubscribe_status :: "'h \<Rightarrow> 'h incident_manager \<Rightarrow> 'h incident_manager" where
  "unsubscribe_status h m = m\<lparr>status_handlers := remove1 h (status_handlers m)\<rparr>"

definition open_count :: "'h incident_manager \<Rightarrow> int" where
  "open_count m = int (length (filter (\<lambda>i. in_status i \<noteq> Resolved_inc) (jvalues (incidents m))))"

section \<open>The post-mortem\<close>

record post_mortem_event =
  pe_timestamp :: int
  pe_description :: string

record action_item =
  ai_id :: string
  ai_description :: string
  ai_owner :: "string option"
  ai_due :: "int option"
  ai_done :: bool

record post_mortem_builder =
  pb_incident :: incident
  pb_events :: "post_mortem_event list"
  pb_causes :: "string list"
  pb_items :: "action_item list"
  pb_summary :: string

record post_mortem =
  pm_incident :: string
  pm_title :: string
  pm_summary :: string
  pm_timeline :: "post_mortem_event list"
  pm_causes :: "string list"
  pm_items :: "action_item list"
  pm_created :: int

definition new_post_mortem :: "incident \<Rightarrow> post_mortem_builder" where
  "new_post_mortem i = \<lparr>pb_incident = i, pb_events = [], pb_causes = [], pb_items = [], pb_summary = []\<rparr>"

definition pm_set_summary :: "string \<Rightarrow> post_mortem_builder \<Rightarrow> post_mortem_builder" where
  "pm_set_summary s b = b\<lparr>pb_summary := s\<rparr>"

definition pm_add_event :: "int \<Rightarrow> string \<Rightarrow> post_mortem_builder \<Rightarrow> post_mortem_builder" where
  "pm_add_event t d b = b\<lparr>pb_events := pb_events b @ [\<lparr>pe_timestamp = t, pe_description = d\<rparr>]\<rparr>"

definition pm_add_cause :: "string \<Rightarrow> post_mortem_builder \<Rightarrow> post_mortem_builder" where
  "pm_add_cause c b = b\<lparr>pb_causes := pb_causes b @ [c]\<rparr>"

definition pm_add_item :: "string \<Rightarrow> string option \<Rightarrow> int option \<Rightarrow> string \<Rightarrow> post_mortem_builder \<Rightarrow> post_mortem_builder" where
  "pm_add_item d owner due hex b = b\<lparr>pb_items := pb_items b @
     [\<lparr>ai_id = hex, ai_description = d, ai_owner = owner, ai_due = due, ai_done = False\<rparr>]\<rparr>"

definition build_post_mortem :: "post_mortem_builder \<Rightarrow> int \<Rightarrow> post_mortem" where
  "build_post_mortem b now = \<lparr>pm_incident = in_id (pb_incident b), pm_title = ''Post-Mortem: '' @ in_title (pb_incident b),
     pm_summary = pb_summary b, pm_timeline = sort_key pe_timestamp (pb_events b), pm_causes = pb_causes b,
     pm_items = pb_items b, pm_created = now\<rparr>"

definition post_mortem_lines :: "(int \<Rightarrow> string) \<Rightarrow> post_mortem \<Rightarrow> string list" where
  "post_mortem_lines iso_time pm = [''# '' @ pm_title pm, [], ''**Date**: '' @ iso_time (pm_created pm) @ ''  '',
     ''**Incident ID**: '' @ pm_incident pm @ ''  '', [], ''## Summary'', [], pm_summary pm, [], ''## Timeline'', []]
     @ map (\<lambda>e. ''- **'' @ iso_time (pe_timestamp e) @ ''**: '' @ pe_description e) (pm_timeline pm)
     @ [[], ''## Root Causes'', []] @ map (\<lambda>c. ''- '' @ c) (pm_causes pm)
     @ [[], ''## Action Items'', []]
     @ map (\<lambda>a. ''- [ ] '' @ ai_description a @ (case ai_owner a of None \<Rightarrow> [] | Some w \<Rightarrow> '' (@'' @ w @ '')'')) (pm_items pm)
     @ [[]]"

definition to_markdown :: "(int \<Rightarrow> string) \<Rightarrow> post_mortem_builder \<Rightarrow> int \<Rightarrow> string" where
  "to_markdown iso_time b now = join_text [CHR 0x0A] (post_mortem_lines iso_time (build_post_mortem b now))"

section \<open>Alerts\<close>

record alert_payload =
  dedup_key :: "string option"
  al_title :: string
  al_body :: string
  al_severity :: incident_severity
  al_url :: "string option"

text \<open>A request that is posted: its address, the value of its \<open>Authorization\<close> header and its body.\<close>

record alert_request =
  ar_url :: string
  ar_authorization :: "string option"
  ar_body :: json

record alert_response =
  ar_ok :: bool
  ar_status :: int
  ar_data :: "(js_error, json) outcome"

type_synonym 'w alert_fetch = "alert_request \<Rightarrow> 'w \<Rightarrow> 'w \<times> (js_error, alert_response) outcome"

definition pagerduty_severity :: "incident_severity \<Rightarrow> string" where
  "pagerduty_severity s = (case s of Critical_inc \<Rightarrow> ''critical'' | High_inc \<Rightarrow> ''error'' | Medium_inc \<Rightarrow> ''warning'' | Low_inc \<Rightarrow> ''info'')"

definition opsgenie_priority :: "incident_severity \<Rightarrow> string" where
  "opsgenie_priority s = (case s of Critical_inc \<Rightarrow> ''P1'' | High_inc \<Rightarrow> ''P2'' | Medium_inc \<Rightarrow> ''P3'' | Low_inc \<Rightarrow> ''P4'')"

definition text_at :: "json \<Rightarrow> string \<Rightarrow> string option" where
  "text_at v k = (case jfield v k of Some (JStr s) \<Rightarrow> Some s | _ \<Rightarrow> None)"

definition pagerduty_body :: "string \<Rightarrow> alert_payload \<Rightarrow> json" where
  "pagerduty_body key p = JObj ([(''routing_key'', JStr key), (''event_action'', JStr ''trigger'')]
     @ (case dedup_key p of None \<Rightarrow> [] | Some k \<Rightarrow> [(''dedup_key'', JStr k)])
     @ [(''payload'', JObj [(''summary'', JStr (al_title p)), (''severity'', JStr (pagerduty_severity (al_severity p))),
         (''source'', JStr (case al_url p of None \<Rightarrow> ''unknown'' | Some u \<Rightarrow> u)),
         (''custom_details'', JObj [(''body'', JStr (al_body p))])])])"

definition pagerduty_url :: string where
  "pagerduty_url = ''https://events.pagerduty.com/v2/enqueue''"

text \<open>\<open>response.ok\<close> is checked before the body is read.\<close>

definition alert_key :: "string \<Rightarrow> (json \<Rightarrow> string) \<Rightarrow> alert_response \<Rightarrow> (js_error, string) outcome" where
  "alert_key who key_of r = (if \<not> ar_ok r then Inl (plain_error (who @ '' error: '' @ show_int (ar_status r)))
     else case ar_data r of Inl e \<Rightarrow> Inl e | Inr d \<Rightarrow> Inr (key_of d))"

definition post_alert :: "'w alert_fetch \<Rightarrow> alert_request \<Rightarrow> string \<Rightarrow> (json \<Rightarrow> string) \<Rightarrow> 'w \<Rightarrow> 'w \<times> (js_error, string) outcome" where
  "post_alert fetch q who key_of w = (case fetch q w of
     (w', Inl e) \<Rightarrow> (w', Inl e) | (w', Inr r) \<Rightarrow> (w', alert_key who key_of r))"

definition pagerduty_trigger :: "string \<Rightarrow> 'w alert_fetch \<Rightarrow> alert_payload \<Rightarrow> 'w \<Rightarrow> 'w \<times> (js_error, string) outcome" where
  "pagerduty_trigger key fetch p w = post_alert fetch
     \<lparr>ar_url = pagerduty_url, ar_authorization = None, ar_body = pagerduty_body key p\<rparr> ''PagerDuty''
     (\<lambda>d. case text_at d ''dedup_key'' of Some k \<Rightarrow> k | None \<Rightarrow> (case dedup_key p of None \<Rightarrow> [] | Some k \<Rightarrow> k)) w"

definition ignore_response :: "'w \<times> (js_error, alert_response) outcome \<Rightarrow> 'w \<times> (js_error, unit) outcome" where
  "ignore_response x = (case x of (w, Inl e) \<Rightarrow> (w, Inl e) | (w, Inr r) \<Rightarrow> (w, Inr ()))"

definition pagerduty_event :: "string \<Rightarrow> string \<Rightarrow> string \<Rightarrow> alert_request" where
  "pagerduty_event key action k = \<lparr>ar_url = pagerduty_url, ar_authorization = None,
     ar_body = JObj [(''routing_key'', JStr key), (''event_action'', JStr action), (''dedup_key'', JStr k)]\<rparr>"

definition pagerduty_resolve :: "string \<Rightarrow> 'w alert_fetch \<Rightarrow> string \<Rightarrow> 'w \<Rightarrow> 'w \<times> (js_error, unit) outcome" where
  "pagerduty_resolve key fetch k w = ignore_response (fetch (pagerduty_event key ''resolve'' k) w)"

definition pagerduty_acknowledge :: "string \<Rightarrow> 'w alert_fetch \<Rightarrow> string \<Rightarrow> 'w \<Rightarrow> 'w \<times> (js_error, unit) outcome" where
  "pagerduty_acknowledge key fetch k w = ignore_response (fetch (pagerduty_event key ''acknowledge'' k) w)"

definition opsgenie_body :: "alert_payload \<Rightarrow> json" where
  "opsgenie_body p = JObj ([(''message'', JStr (al_title p)), (''description'', JStr (al_body p)),
     (''priority'', JStr (opsgenie_priority (al_severity p)))]
     @ (case dedup_key p of None \<Rightarrow> [] | Some k \<Rightarrow> [(''alias'', JStr k)])
     @ (case al_url p of None \<Rightarrow> [] | Some u \<Rightarrow> [(''details'', JObj [(''url'', JStr u)])]))"

definition opsgenie_request :: "string \<Rightarrow> string \<Rightarrow> json \<Rightarrow> alert_request" where
  "opsgenie_request key path body = \<lparr>ar_url = ''https://api.opsgenie.com/v2/alerts'' @ path,
     ar_authorization = Some (''GenieKey '' @ key), ar_body = body\<rparr>"

definition opsgenie_trigger :: "string \<Rightarrow> 'w alert_fetch \<Rightarrow> alert_payload \<Rightarrow> 'w \<Rightarrow> 'w \<times> (js_error, string) outcome" where
  "opsgenie_trigger key fetch p w = post_alert fetch (opsgenie_request key [] (opsgenie_body p)) ''Opsgenie''
     (\<lambda>d. case text_at d ''requestId'' of Some k \<Rightarrow> k | None \<Rightarrow> []) w"

text \<open>\<open>enc\<close> is \<open>encodeURIComponent\<close>.\<close>

definition opsgenie_resolve :: "(string \<Rightarrow> string) \<Rightarrow> string \<Rightarrow> 'w alert_fetch \<Rightarrow> string \<Rightarrow> 'w \<Rightarrow> 'w \<times> (js_error, unit) outcome" where
  "opsgenie_resolve enc key fetch k w = ignore_response (fetch (opsgenie_request key (''/'' @ enc k @ ''/close'') (JObj [])) w)"

definition opsgenie_acknowledge :: "(string \<Rightarrow> string) \<Rightarrow> string \<Rightarrow> 'w alert_fetch \<Rightarrow> string \<Rightarrow> 'w \<Rightarrow> 'w \<times> (js_error, unit) outcome" where
  "opsgenie_acknowledge enc key fetch k w = ignore_response (fetch (opsgenie_request key (''/'' @ enc k @ ''/acknowledge'') (JObj [])) w)"

section \<open>Properties\<close>

datatype incident_op =
    Open_op open_params string int
  | Update_op string incident_status string "string option" int

definition incident_step :: "('w, 'h) status_call \<Rightarrow> 'h incident_manager \<times> 'w \<Rightarrow> incident_op \<Rightarrow> 'h incident_manager \<times> 'w" where
  "incident_step call mw x = (case x of
     Open_op p hex now \<Rightarrow> (if jhas (incidents (fst mw)) (''inc_'' @ hex) then mw
       else (fst (open_incident p hex now (fst mw)), snd mw))
   | Update_op k status msg author now \<Rightarrow> fst (update_incident call k status msg author now mw))"

text \<open>
  What holds of the manager: an incident is stored under its id, it has the status and the time of
  its last update, updates are kept only for incidents there are, and one that is resolved has the
  time of that.
\<close>

definition last_update_status :: "incident_update list \<Rightarrow> incident_status" where
  "last_update_status us = (if us = [] then Open_inc else iu_status (last us))"

definition manager_ok :: "'h incident_manager \<Rightarrow> bool" where
  "manager_ok m \<longleftrightarrow> (\<forall>k i. jget (incidents m) k = Some i \<longrightarrow> in_id i = k
       \<and> in_status i = last_update_status (get_updates k m)
       \<and> (get_updates k m \<noteq> [] \<longrightarrow> updated_at i = iu_timestamp (last (get_updates k m)))
       \<and> (in_status i = Resolved_inc \<longrightarrow> resolved_at i = Some (updated_at i)))
     \<and> (\<forall>k. jget (incidents m) k = None \<longrightarrow> get_updates k m = [])"

lemma update_incident_state:
  "fst (fst (update_incident call k status msg author now (m, w))) = (case jget (incidents m) k of
     None \<Rightarrow> m | Some i \<Rightarrow> store_update (updated_incident i status now)
       \<lparr>iu_incident = k, iu_message = msg, iu_status = status, iu_timestamp = now, iu_author = author\<rparr> m)"
  by (auto simp: update_incident_def Let_def split: option.splits prod.splits sum.splits)

interpretation incident_runs: invariant_machine "incident_step (call :: ('w, 'h) status_call)" "\<lambda>mw. manager_ok (fst mw)"
proof
  fix mw :: "'h incident_manager \<times> 'w" and x
  assume ok: "manager_ok (fst mw)"
  obtain m w where mw: "mw = (m, w)" by (rule prod.exhaust)
  show "manager_ok (fst (incident_step call mw x))"
  proof (cases x)
    case (Open_op p hex now)
    then show ?thesis using ok mw
      by (auto simp: incident_step_def open_incident_def manager_ok_def get_updates_def Let_def jhas_def last_update_status_def)
  next
    case (Update_op k status msg author now)
    show ?thesis
    proof (cases "jget (incidents m) k")
      case None
      then show ?thesis using ok mw Update_op by (simp add: incident_step_def update_incident_state)
    next
      case (Some i)
      then show ?thesis using ok mw Update_op
        by (auto simp: incident_step_def update_incident_state store_update_def manager_ok_def get_updates_def
            updated_incident_def last_update_status_def elems_def)
    qed
  qed
qed

text \<open>The manager keeps these over every run of openings, with new ids, and updates, whatever its handlers do.\<close>

lemma incidents_follow_updates:
  "manager_ok (fst (foldl (incident_step call) (\<lparr>incidents = [], inc_updates = [], status_handlers = hs\<rparr>, w) ops))"
  by (rule incident_runs.run_keeps) (simp add: manager_ok_def get_updates_def elems_def)

text \<open>
  An update changes its incident and no other, and adds one entry to its history; one of an unknown
  incident changes nothing.  The state is stored before the handlers are called, so a handler that
  throws does not undo it.
\<close>

lemma update_is_local:
  "let m' = fst (fst (update_incident call k status msg author now (m, w))) in
   (k' \<noteq> k \<longrightarrow> get_incident k' m' = get_incident k' m \<and> get_updates k' m' = get_updates k' m)
   \<and> (case get_incident k m of
        None \<Rightarrow> m' = m \<and> snd (update_incident call k status msg author now (m, w)) = Inr None
      | Some i \<Rightarrow> get_incident k m' = Some (updated_incident i status now)
          \<and> map iu_status (get_updates k m') = map iu_status (get_updates k m) @ [status])"
  unfolding update_incident_state Let_def
  by (auto simp: get_incident_def get_updates_def store_update_def update_incident_def elems_def split: option.splits)

lemma update_is_local_witness:
  "let m = \<lparr>incidents = [], inc_updates = [], status_handlers = [] :: int list\<rparr>;
       m' = fst (fst (update_incident (\<lambda>h i u w. (w, Inr ())) ''a'' Resolved_inc ''m'' None 3 (m, 0 :: int))) in
   get_incident ''b'' m' = get_incident ''b'' m \<and> get_updates ''b'' m' = get_updates ''b'' m"
  using update_is_local [where k = "''a''" and k' = "''b''" and call = "\<lambda>h i u w. (w, Inr ())" and status = Resolved_inc
      and msg = "''m''" and author = None and now = 3 and w = "0 :: int" and m = "\<lparr>incidents = [], inc_updates = [], status_handlers = [] :: int list\<rparr>"]
  unfolding Let_def by simp

text \<open>
  Any status can follow any other: an incident that is reopened keeps the time it was resolved at
  and counts as open.
\<close>

lemma reopened_keeps_resolution:
  "let i' = updated_incident (updated_incident i Resolved_inc t) Investigating t' in
   in_status i' = Investigating \<and> resolved_at i' = Some t"
  by (simp add: updated_incident_def)

text \<open>The lists by status are the parts of the list of all.\<close>

lemma status_parts:
  "open_count m + int (length (list_incidents (Some Resolved_inc) m)) = int (length (list_incidents None m))
   \<and> (i \<in> set (list_incidents (Some s) m) \<longleftrightarrow> i \<in> set (list_incidents None m) \<and> in_status i = s)"
  using sum_length_filter_compl [of "\<lambda>i. in_status i = Resolved_inc" "jvalues (incidents m)"]
  by (auto simp: open_count_def list_incidents_def)

text \<open>
  The timeline of a post-mortem has the events in the order of their times, those of one time in the
  order they were added, and none is lost.
\<close>

lemma timeline_sorted:
  "sorted (map pe_timestamp (pm_timeline (build_post_mortem b now)))
   \<and> mset (pm_timeline (build_post_mortem b now)) = mset (pb_events b)
   \<and> filter (\<lambda>e. pe_timestamp e = t) (pm_timeline (build_post_mortem b now)) = filter (\<lambda>e. pe_timestamp e = t) (pb_events b)"
  by (simp add: build_post_mortem_def sort_key_stable)

text \<open>
  Resolving and acknowledging never look at the answer: they succeed when the service refuses.
\<close>

lemma refused_resolutions_succeed:
  assumes "\<And>q w. fetch q w = (w @ [q], Inr \<lparr>ar_ok = False, ar_status = 500, ar_data = Inr (JObj [])\<rparr>)"
  shows "snd (pagerduty_resolve key fetch k w) = Inr () \<and> snd (opsgenie_resolve enc key fetch k w) = Inr ()
    \<and> snd (pagerduty_trigger key fetch p w) = Inl (plain_error (''PagerDuty error: '' @ show_int 500))"
  by (simp add: assms pagerduty_resolve_def opsgenie_resolve_def ignore_response_def pagerduty_trigger_def post_alert_def alert_key_def)

lemma refused_resolutions_succeed_witness:
  "snd (pagerduty_resolve ''k'' (\<lambda>q w. (w @ [q], Inr \<lparr>ar_ok = False, ar_status = 500, ar_data = Inr (JObj [])\<rparr>)) ''a'' []) = Inr ()"
  using refused_resolutions_succeed [where fetch = "\<lambda>q w. (w @ [q], Inr \<lparr>ar_ok = False, ar_status = 500, ar_data = Inr (JObj [])\<rparr>)"]
  by blast

text \<open>
  What Opsgenie is asked to close is the key that was returned, the id of the request, which is not
  the alias of the alert.
\<close>

lemma opsgenie_closes_request_id:
  assumes "\<And>q w. fetch q w = (w @ [ar_url q], Inr \<lparr>ar_ok = True, ar_status = 202, ar_data = Inr (JObj [(''requestId'', JStr rid)])\<rparr>)"
    and "dedup_key p = Some k"
  shows "(case opsgenie_trigger key fetch p w of (w', Inr k') \<Rightarrow> k' = rid
      \<and> fst (opsgenie_resolve enc key fetch k' w')
          = w @ [''https://api.opsgenie.com/v2/alerts'', ''https://api.opsgenie.com/v2/alerts/'' @ enc rid @ ''/close'']
    | (w', Inl e) \<Rightarrow> False)
    \<and> jfield (opsgenie_body p) ''alias'' = Some (JStr k)"
  using assms(2)
  by (simp add: assms(1) opsgenie_trigger_def post_alert_def alert_key_def text_at_def jfield_def opsgenie_resolve_def
      ignore_response_def opsgenie_request_def opsgenie_body_def)

lemma opsgenie_closes_request_id_witness:
  "jfield (opsgenie_body \<lparr>dedup_key = Some ''k'', al_title = [], al_body = [], al_severity = Low_inc, al_url = None\<rparr>) ''alias'' = Some (JStr ''k'')"
  using opsgenie_closes_request_id [where rid = "''r''" and k = "''k''"
      and fetch = "\<lambda>q w. (w @ [ar_url q], Inr \<lparr>ar_ok = True, ar_status = 202, ar_data = Inr (JObj [(''requestId'', JStr ''r'')])\<rparr>)"
      and p = "\<lparr>dedup_key = Some ''k'', al_title = [], al_body = [], al_severity = Low_inc, al_url = None\<rparr>"]
  by simp

end
