(* ===== verification/Bff.thy ===== *)
theory Bff
  imports Pipelines
begin

text \<open>
  The bff package: aggregating calls of services (\<open>ServiceAggregator.ts\<close>), shaping the answer for a
  client (\<open>ResponseShaper.ts\<close>, \<open>RestBff.ts\<close>, \<open>BffResponse.ts\<close>), resolving fields
  (\<open>GraphQlBff.ts\<close>) and routing by the type of the client (\<open>BffRouter.ts\<close>).

  Calls that run in parallel are given by what each settles with and the order they settle in; calls
  that run one after the other are functions on a world.
\<close>

section \<open>Aggregation\<close>

datatype client_type = Web_client | Mobile_client | Desktop_client | Public_api

record 'd aggregation_result =
  ag_name :: string
  ag_data :: "'d option"
  ag_error :: "js_error option"
  ag_succeeded :: bool

definition result_of_call :: "string \<Rightarrow> (thrown_value, 'd) outcome \<Rightarrow> 'd aggregation_result" where
  "result_of_call name r = (case r of
     Inr d \<Rightarrow> \<lparr>ag_name = name, ag_data = Some d, ag_error = None, ag_succeeded = True\<rparr>
   | Inl v \<Rightarrow> \<lparr>ag_name = name, ag_data = None, ag_error = Some (to_error v), ag_succeeded = False\<rparr>)"

definition aggregate :: "(string \<times> (thrown_value, 'd) outcome) list \<Rightarrow> 'd aggregation_result list" where
  "aggregate calls = map (\<lambda>(name, r). result_of_call name r) calls"

text \<open>
  \<open>Promise.all\<close> rejects with the first rejection in the order the promises settle, given by their
  positions.
\<close>

fun first_rejection :: "('e, 'd) outcome list \<Rightarrow> nat list \<Rightarrow> 'e option" where
  "first_rejection rs [] = None"
| "first_rejection rs (i # is) = (case rs ! i of Inl e \<Rightarrow> Some e | Inr d \<Rightarrow> first_rejection rs is)"

definition aggregate_strict :: "(string \<times> (thrown_value, 'd) outcome) list \<Rightarrow> nat list \<Rightarrow> (thrown_value, 'd list) outcome" where
  "aggregate_strict calls order = (case first_rejection (map snd calls) order of
     Some e \<Rightarrow> Inl e | None \<Rightarrow> Inr (map (projr \<circ> snd) calls))"

fun aggregate_sequential :: "(string \<times> ('w \<Rightarrow> 'w \<times> (thrown_value, 'd) outcome)) list \<Rightarrow> 'w \<Rightarrow> 'w \<times> 'd aggregation_result list" where
  "aggregate_sequential [] w = (w, [])"
| "aggregate_sequential ((name, fetch) # calls) w = (case fetch w of (w', r) \<Rightarrow>
     (case aggregate_sequential calls w' of (w'', rs) \<Rightarrow> (w'', result_of_call name r # rs)))"

section \<open>Shaping\<close>

record ('a, 'b) response_shaper =
  sh_client :: client_type
  sh_shape :: "'a \<Rightarrow> 'b"

definition function_shaper :: "client_type \<Rightarrow> ('a \<Rightarrow> 'b) \<Rightarrow> ('a, 'b) response_shaper" where
  "function_shaper c fn = \<lparr>sh_client = c, sh_shape = fn\<rparr>"

type_synonym ('a, 'b) shaper_registry = "(client_type, ('a, 'b) response_shaper) jsmap"

definition register_shaper :: "('a, 'b) response_shaper \<Rightarrow> ('a, 'b) shaper_registry \<Rightarrow> ('a, 'b) shaper_registry" where
  "register_shaper s m = jset (sh_client s) s m"

definition shape_for :: "client_type \<Rightarrow> 'a \<Rightarrow> ('a, 'b) shaper_registry \<Rightarrow> 'a + 'b" where
  "shape_for c d m = (case jget m c of None \<Rightarrow> Inl d | Some s \<Rightarrow> Inr (sh_shape s d))"

definition has_shaper :: "client_type \<Rightarrow> ('a, 'b) shaper_registry \<Rightarrow> bool" where
  "has_shaper c m = jhas m c"

definition shaper_count :: "('a, 'b) shaper_registry \<Rightarrow> int" where
  "shaper_count m = jsize m"

record 'x bff_response =
  br_data :: 'x
  br_status :: int
  br_client :: client_type
  responded_at :: int

definition create_bff_response :: "'x \<Rightarrow> client_type \<Rightarrow> int option \<Rightarrow> int \<Rightarrow> 'x bff_response" where
  "create_bff_response d c status now = \<lparr>br_data = d, br_status = (case status of None \<Rightarrow> 200 | Some s \<Rightarrow> s),
     br_client = c, responded_at = now\<rparr>"

definition result_map :: "'d aggregation_result list \<Rightarrow> (string, 'd aggregation_result) jsmap" where
  "result_map rs = foldl (\<lambda>m r. jset (ag_name r) r m) [] rs"

definition rest_handle :: "((string, 'd aggregation_result) jsmap, 'b) shaper_registry
    \<Rightarrow> (string \<times> (thrown_value, 'd) outcome) list \<Rightarrow> client_type \<Rightarrow> int
    \<Rightarrow> ((string, 'd aggregation_result) jsmap + 'b) bff_response" where
  "rest_handle shapers calls c now = (let rs = aggregate calls in
     \<lparr>br_data = shape_for c (result_map rs) shapers, br_status = (if list_all ag_succeeded rs then 200 else 207),
      br_client = c, responded_at = now\<rparr>)"

section \<open>Fields\<close>

record field_error =
  fe_field :: string
  fe_message :: string

record 'd graphql_result =
  gq_data :: "(string, 'd) jsmap"
  gq_errors :: "field_error list"

type_synonym 'd graphql_fields = "(string, (thrown_value, 'd) outcome) jsmap"

definition add_field :: "string \<Rightarrow> (thrown_value, 'd) outcome \<Rightarrow> 'd graphql_fields \<Rightarrow> 'd graphql_fields" where
  "add_field name r m = jset name r m"

definition has_field :: "string \<Rightarrow> 'd graphql_fields \<Rightarrow> bool" where
  "has_field name m = jhas m name"

definition field_count :: "'d graphql_fields \<Rightarrow> int" where
  "field_count m = jsize m"

definition field_open :: string where
  "field_open = ''Field '' @ [CHR 0x22]"

definition not_registered :: "string \<Rightarrow> js_error" where
  "not_registered name = plain_error (field_open @ name @ [CHR 0x22] @ '' is not registered'')"

definition resolve_field :: "'d graphql_fields \<Rightarrow> string \<Rightarrow> (thrown_value, string \<times> 'd) outcome" where
  "resolve_field m name = (case jget m name of
     None \<Rightarrow> Inl (ThrownError (not_registered name))
   | Some (Inl v) \<Rightarrow> Inl v
   | Some (Inr d) \<Rightarrow> Inr (name, d))"

text \<open>\<open>message.slice(7, message.indexOf('"', 7))\<close>; with no quote the end is \<open>-1\<close>.\<close>

definition quoted_part :: "string \<Rightarrow> string" where
  "quoted_part msg = (let r = drop 7 msg in if CHR 0x22 \<in> set r then takeWhile (\<lambda>c. c \<noteq> CHR 0x22) r else butlast r)"

definition field_error_of :: "thrown_value \<Rightarrow> field_error" where
  "field_error_of v = (case v of
     ThrownError e \<Rightarrow> \<lparr>fe_field = (if prefix field_open (error_message e) then quoted_part (error_message e) else ''unknown''),
        fe_message = error_message e\<rparr>
   | ThrownOther s \<Rightarrow> \<lparr>fe_field = ''unknown'', fe_message = s\<rparr>)"

fun collect_fields :: "(thrown_value, string \<times> 'd) outcome list \<Rightarrow> 'd graphql_result \<Rightarrow> 'd graphql_result" where
  "collect_fields [] g = g"
| "collect_fields (Inr (name, d) # rs) g = collect_fields rs (g\<lparr>gq_data := jset name d (gq_data g)\<rparr>)"
| "collect_fields (Inl v # rs) g = collect_fields rs (g\<lparr>gq_errors := gq_errors g @ [field_error_of v]\<rparr>)"

definition execute_fields :: "'d graphql_fields \<Rightarrow> string list option \<Rightarrow> 'd graphql_result" where
  "execute_fields m names = collect_fields
     (map (resolve_field m) (case names of None \<Rightarrow> jkeys m | Some ns \<Rightarrow> ns)) \<lparr>gq_data = [], gq_errors = []\<rparr>"

section \<open>Routing\<close>

type_synonym ('w, 'q, 'r) bff_router = "(client_type, 'q \<Rightarrow> 'w \<Rightarrow> 'w \<times> (js_error, 'r) outcome) jsmap"

definition client_text :: "client_type \<Rightarrow> string" where
  "client_text c = (case c of Web_client \<Rightarrow> ''web'' | Mobile_client \<Rightarrow> ''mobile'' | Desktop_client \<Rightarrow> ''desktop'' | Public_api \<Rightarrow> ''public-api'')"

definition register_bff :: "client_type \<Rightarrow> ('q \<Rightarrow> 'w \<Rightarrow> 'w \<times> (js_error, 'r) outcome) \<Rightarrow> ('w, 'q, 'r) bff_router \<Rightarrow> ('w, 'q, 'r) bff_router" where
  "register_bff c h m = jset c h m"

definition route_bff :: "('w, 'q, 'r) bff_router \<Rightarrow> 'q \<Rightarrow> client_type \<Rightarrow> 'w \<Rightarrow> 'w \<times> (js_error, 'r) outcome" where
  "route_bff m q c w = (case jget m c of
     None \<Rightarrow> (w, Inl (plain_error (''No BFF handler registered for client type: '' @ [CHR 0x22] @ client_text c @ [CHR 0x22])))
   | Some h \<Rightarrow> h q w)"

section \<open>Properties\<close>

lemma result_map_get:
  "jget (result_map rs) k = (case filter (\<lambda>r. ag_name r = k) rs of [] \<Rightarrow> None | x # xs \<Rightarrow> Some (last (x # xs)))"
proof -
  have "jget (foldl (\<lambda>m r. jset (ag_name r) r m) m0 rs) k
      = (case filter (\<lambda>r. ag_name r = k) rs of [] \<Rightarrow> jget m0 k | x # xs \<Rightarrow> Some (last (x # xs)))" for m0
    by (induction rs arbitrary: m0) (auto split: list.splits)
  from this [of "[]"] show ?thesis unfolding result_map_def by (auto split: list.splits)
qed

lemma only_result:
  "distinct (map ag_name rs) \<Longrightarrow> r \<in> set rs \<Longrightarrow> filter (\<lambda>x. ag_name x = ag_name r) rs = [r]"
proof (induction rs)
  case (Cons x rs)
  show ?case
  proof (cases "r = x")
    case True
    with Cons.prems have "filter (\<lambda>y. ag_name y = ag_name r) rs = []" by (auto simp: filter_empty_conv image_iff)
    then show ?thesis using True by simp
  next
    case False
    with Cons show ?thesis by (auto simp: image_iff)
  qed
qed simp

text \<open>
  When the calls have different names the answer holds the result of each, and its status is 207
  exactly when one of these failed.
\<close>

lemma rest_answers_all:
  assumes "distinct (map fst calls)"
  shows "let res = rest_handle [] calls c now in
    (\<forall>(name, r) \<in> set calls. jget (projl (br_data res)) name = Some (result_of_call name r))
    \<and> (br_status res = 207 \<longleftrightarrow> (\<exists>(name, r) \<in> set calls. \<not> is_returned r))
    \<and> (br_status res = 200 \<or> br_status res = 207)"
proof -
  have name: "ag_name (result_of_call n r) = n" and ok: "ag_succeeded (result_of_call n r) = is_returned r" for n and r :: "(thrown_value, 'a) outcome"
    by (simp_all add: result_of_call_def is_returned_def split: sum.split)
  have "map ag_name (aggregate calls) = map fst calls" by (simp add: aggregate_def name case_prod_beta comp_def)
  then have dist: "distinct (map ag_name (aggregate calls))" using assms by simp
  have "jget (result_map (aggregate calls)) n = Some (result_of_call n r)" if "(n, r) \<in> set calls" for n r
  proof -
    have "result_of_call n r \<in> set (aggregate calls)" using that by (force simp: aggregate_def)
    from only_result [OF dist this] show ?thesis by (simp add: result_map_get name)
  qed
  moreover have "list_all ag_succeeded (aggregate calls) \<longleftrightarrow> (\<forall>(n, r) \<in> set calls. is_returned r)"
    by (simp add: aggregate_def list_all_iff ok case_prod_beta)
  ultimately show ?thesis by (auto simp: rest_handle_def shape_for_def Let_def)
qed

lemma rest_answers_all_witness:
  "let calls = [(''a'', Inr (1::int)), (''b'', Inl (ThrownOther ''no''))]; res = rest_handle ([] :: ((string, int aggregation_result) jsmap, unit) shaper_registry) calls Web_client 0 in
   br_status res = 207 \<and> jget (projl (br_data res)) ''a'' = Some \<lparr>ag_name = ''a'', ag_data = Some 1, ag_error = None, ag_succeeded = True\<rparr>"
  using rest_answers_all [where 'b = unit and calls = "[(''a'', Inr (1::int)), (''b'', Inl (ThrownOther ''no''))]" and c = Web_client and now = 0]
  by (simp add: Let_def result_of_call_def)

text \<open>Two calls of one name share an entry: the failure that makes the status 207 is not in the answer.\<close>

lemma hidden_failure:
  "let res = rest_handle [] [(''a'', Inl v), (''a'', Inr (1::int))] Web_client 0 in
   br_status res = 207 \<and> list_all (\<lambda>r. ag_succeeded r) (jvalues (projl (br_data res)))"
  by (simp add: rest_handle_def aggregate_def shape_for_def result_map_def result_of_call_def Let_def)

text \<open>
  Called one after the other, the calls run in order, each in the world the one before left, and
  their results are those of the parallel aggregation when they do not depend on the world.
\<close>

lemma sequential_agrees:
  assumes "\<And>name fetch w. (name, fetch) \<in> set calls \<Longrightarrow> snd (fetch w) = settled fetch"
  shows "snd (aggregate_sequential calls w) = aggregate (map (\<lambda>(name, fetch). (name, settled fetch)) calls)"
  using assms
proof (induction calls arbitrary: w)
  case (Cons call calls)
  obtain name fetch where call: "call = (name, fetch)" by (rule prod.exhaust)
  have "snd (fetch w) = settled fetch" using Cons.prems [of name fetch w] call by simp
  moreover have "snd (aggregate_sequential calls (fst (fetch w))) = aggregate (map (\<lambda>(name, fetch). (name, settled fetch)) calls)"
    using Cons.IH Cons.prems by (meson list.set_intros(2))
  ultimately show ?case by (cases "fetch w") (auto simp: call aggregate_def split: prod.splits)
qed (simp add: aggregate_def)

lemma sequential_agrees_witness:
  "snd (aggregate_sequential [(''a'', \<lambda>w. (w + 1, Inr (5::int)))] (0::int))
    = aggregate [(''a'', Inr 5)]"
  by (subst sequential_agrees [where settled = "\<lambda>f. Inr 5"]) auto

lemma first_rejection_None: "first_rejection rs order = None \<longleftrightarrow> (\<forall>i \<in> set order. is_returned (rs ! i))"
  by (induction order) (auto simp: is_returned_def split: sum.splits)

lemma first_rejection_some: "first_rejection rs order = Some e \<Longrightarrow> \<exists>i \<in> set order. rs ! i = Inl e"
  by (induction order) (auto split: sum.splits)

text \<open>
  The strict aggregation gives all results in the order of the calls, or rejects with what one of
  them rejects with, in whatever order they settle.
\<close>

lemma strict_all_or_error:
  assumes "set order = {..<length calls}"
  shows "case aggregate_strict calls order of
      Inr ds \<Rightarrow> map snd calls = map Inr ds
    | Inl e \<Rightarrow> (\<exists>(name, r) \<in> set calls. r = Inl e)"
proof (cases "first_rejection (map snd calls) order")
  case None
  then have "\<forall>r \<in> set (map snd calls). is_returned r"
    using assms unfolding first_rejection_None by (metis in_set_conv_nth length_map lessThan_iff)
  then have "map snd calls = map Inr (map (projr \<circ> snd) calls)"
  proof (induction calls)
    case (Cons c calls)
    then show ?case by (cases "snd c") auto
  qed simp
  then show ?thesis using None by (simp add: aggregate_strict_def)
next
  case (Some e)
  then obtain i where "i < length calls" "snd (calls ! i) = Inl e"
    using first_rejection_some assms by (metis lessThan_iff nth_map)
  then have "\<exists>(name, r) \<in> set calls. r = Inl e" by (auto intro!: bexI [of _ "calls ! i"] split: prod.splits)
  then show ?thesis using Some by (simp add: aggregate_strict_def)
qed

lemma strict_all_or_error_witness:
  "case aggregate_strict [(''a'', Inr (1::int)), (''b'', Inr 2)] [1, 0] of
     Inr ds \<Rightarrow> map snd [(''a'', Inr 1), (''b'', Inr 2)] = map Inr ds | Inl e \<Rightarrow> False"
  using strict_all_or_error [where calls = "[(''a'', Inr (1::int)), (''b'', Inr 2)]" and order = "[1, 0]"]
  by (auto simp: aggregate_strict_def lessThan_Suc numeral_2_eq_2)

lemma collect_data_errors:
  "gq_errors (collect_fields rs g) = gq_errors g @ map (field_error_of \<circ> projl) (filter (\<lambda>r. \<not> is_returned r) rs)
   \<and> jget (gq_data (collect_fields rs g)) k = (case filter (\<lambda>r. is_returned r \<and> fst (projr r) = k) rs of
        [] \<Rightarrow> jget (gq_data g) k | x # xs \<Rightarrow> Some (snd (projr (last (x # xs)))))"
  by (induction rs g rule: collect_fields.induct) (auto split: list.splits)

lemma drop_open: "drop 7 (field_open @ s) = s"
  by (simp add: field_open_def)

text \<open>
  A field that is asked for is in the data when it resolves and has an error when it does not: there
  is one error for each that fails, in order, and an unknown name without a quote is named.
\<close>

lemma fields_answered:
  "length (gq_errors (execute_fields m (Some names))) = length (filter (\<lambda>n. \<not> is_returned (resolve_field m n)) names)
   \<and> (\<forall>n \<in> set names. case resolve_field m n of
        Inr (n', d) \<Rightarrow> n' = n \<and> jget (gq_data (execute_fields m (Some names))) n = Some d
      | Inl v \<Rightarrow> field_error_of v \<in> set (gq_errors (execute_fields m (Some names))))"
proof (intro conjI ballI)
  let ?rs = "map (resolve_field m) names" and ?g = "\<lparr>gq_data = [], gq_errors = []\<rparr>"
  have errs: "gq_errors (collect_fields ?rs ?g) = map (field_error_of \<circ> projl) (filter (\<lambda>r. \<not> is_returned r) ?rs)"
    using collect_data_errors [of ?rs ?g] by simp
  show "length (gq_errors (execute_fields m (Some names))) = length (filter (\<lambda>n. \<not> is_returned (resolve_field m n)) names)"
    unfolding execute_fields_def option.case errs by (simp add: filter_map comp_def)
  have name: "fst (projr (resolve_field m n)) = n \<and> snd (projr (resolve_field m n)) = projr (the (jget m n))"
    if "is_returned (resolve_field m n)" for n
    using that by (auto simp: resolve_field_def split: option.splits sum.splits)
  fix n assume n: "n \<in> set names"
  show "case resolve_field m n of
        Inr (n', d) \<Rightarrow> n' = n \<and> jget (gq_data (execute_fields m (Some names))) n = Some d
      | Inl v \<Rightarrow> field_error_of v \<in> set (gq_errors (execute_fields m (Some names)))"
  proof (cases "resolve_field m n")
    case (Inl v)
    then have "Inl v \<in> set (filter (\<lambda>r. \<not> is_returned r) ?rs)" using n by (auto simp: image_iff intro: sym)
    then have "field_error_of v \<in> set (gq_errors (collect_fields ?rs ?g))"
      unfolding errs set_map by (metis comp_apply image_eqI sum.sel(1))
    then show ?thesis using Inl by (simp add: execute_fields_def)
  next
    case (Inr x)
    obtain n' d where x: "x = (n', d)" by (rule prod.exhaust)
    have "n' = n" and d: "d = projr (the (jget m n))" using name [of n] Inr x by simp_all
    let ?same = "filter (\<lambda>r. is_returned r \<and> fst (projr r) = n) ?rs"
    have "Inr (n, d) \<in> set ?same" using n Inr x \<open>n' = n\<close> by (auto simp: image_iff intro: sym)
    then have ne: "?same \<noteq> []" by (metis empty_iff empty_set)
    have "last ?same \<in> set ?same" using ne by (rule last_in_set)
    then have "snd (projr (last ?same)) = d" using name d by auto
    then have "jget (gq_data (collect_fields ?rs ?g)) n = Some d"
      using collect_data_errors [of ?rs ?g n] ne by (cases ?same) auto
    then show ?thesis using Inr x \<open>n' = n\<close> by (simp add: execute_fields_def)
  qed
qed

lemma fields_answered_witness:
  "length (gq_errors (execute_fields [(''a'', Inr (1::int))] (Some [''a'', ''b'']))) = 1"
  using fields_answered [of "[(''a'', Inr (1::int))]" "[''a'', ''b'']"] by (simp add: resolve_field_def)

text \<open>
  An error names its field only when it is that of an unknown name without a quote: what a resolver
  throws is of \<open>unknown\<close>, or of the field its message starts with.
\<close>

lemma error_field_names:
  "(CHR 0x22 \<notin> set n \<longrightarrow> fe_field (field_error_of (ThrownError (not_registered n))) = n)
   \<and> fe_field (field_error_of (ThrownError (plain_error ''timeout''))) = ''unknown''
   \<and> fe_field (field_error_of (ThrownError (plain_error (field_open @ ''b'' @ [CHR 0x22])))) = ''b''"
proof -
  have "takeWhile (\<lambda>c. c \<noteq> CHR 0x22) (n @ CHR 0x22 # r) = n" if "CHR 0x22 \<notin> set n" for r
    using that by (induction n) auto
  then show ?thesis
    by (auto simp: field_error_of_def not_registered_def plain_error_def quoted_part_def drop_open Let_def)
      (simp_all add: field_open_def)
qed

lemma error_field_names_witness:
  "fe_field (field_error_of (ThrownError (not_registered ''user''))) = ''user''"
  using error_field_names [of "''user''"] by simp

text \<open>A request goes to the handler registered last for its client, and to no other.\<close>

lemma routed_to_client:
  "route_bff (register_bff c h m) q c' w = (if c' = c then h q w else route_bff m q c' w)
   \<and> (\<not> jhas m c' \<longrightarrow> fst (route_bff m q c' w) = w \<and> \<not> is_returned (snd (route_bff m q c' w)))"
  by (auto simp: route_bff_def register_bff_def jhas_def)

lemma routed_to_client_witness:
  "\<not> is_returned (snd (route_bff ([] :: (unit, int, int) bff_router) 1 Web_client ()))"
  using routed_to_client [where m = "[] :: (unit, int, int) bff_router" and c' = Web_client and q = 1 and w = "()"]
  by (simp add: jhas_def)

end
