(* ===== verification/Spec2Isabelle.thy ===== *)
theory Spec2Isabelle
  imports
    Kernel Event_Sourcing Idempotency Mediator Saga Process_Manager Outbox Resilience Cron
    Scheduler Cache Bloom Persistence_Query Schema_Registry Messaging Streams Websocket Discovery
    Notifications Api_Keys Encryption Authentication Secrets Configuration Features Deployment
    Architecture Cqrs_Analyzer Ddd_Analyzer Metrics Slo_Cost Profiling Contracts Url_Params Oauth
    Validation Audit_Trail Radix36 Identity Content_Routing Query_Planner Redis_Adapters
    Object_Storage Search Json_Text Broker_Base Rabbitmq Kafka Eventbridge Sse Csp Http_Chain
    Hypermedia Web_Express Web_Fastify Web_Nest Graphql Email Repositories Pipelines Data_Quality
    Cdc Acl Gateway Incidents Bff
begin

text \<open>
  ts-commons is a monorepo of TypeScript packages for services built from domain objects,
  commands, events and adapters. This development models the packages that hold logic of their
  own, one theory per component, and proves what makes each of them correct. A service composes
  them: a command goes through the mediator and its behaviors, an idempotent use case changes an
  aggregate, the event store keeps its events, the outbox relay hands messages to a broker, sagas
  and process managers react to them, and the resilience, caching, scheduling, security and
  configuration packages surround these calls.

  Conventions (theory \<open>Prelude\<close>). A class is a record of its fields, a method a function that
  returns the updated record; a union type is a datatype; a \<open>Map\<close> is an association list in
  insertion order; an error that is thrown or rejected is the left summand of the result.
  Callbacks and ports are functions on a world of their own, or are listed as effects in order.
  The clock, random numbers and what awaited calls answer are arguments. An asynchronous method
  that other calls can interleave with is one step per stretch between two awaits, and a run is a
  list of such steps in any order. Numbers are integers or rationals; the bit operations of the
  Bloom filter and the ciphers are on machine words. \<open>Regex\<close> is a backtracking matcher for the
  regular expressions of the code, \<open>Json\<close> writes JSON texts.

  Interfaces are locales, interpreted on the models of the code: \<open>invariant_machine\<close>,
  \<open>refines_machine\<close> and \<open>keyed_store\<close> of the prelude, the ports of the cache, the idempotency
  store, the outbox store and the secrets.

  Domain core.
  \<^item> \<open>Kernel\<close>, \<open>packages/kernel/src\<close>: results, options, eithers, specifications, aggregates
    with their event recorder, identifiers, durations. Shown: traversal and combination of
    results, aggregate runs against a log of committed and pending events, what identifiers are
    accepted.
  \<^item> \<open>Event_Sourcing\<close>, \<open>packages/eventsourcing/src\<close>: event-sourced aggregates, the event
    store with optimistic concurrency, projections, snapshots, the replayer. Shown: the store
    refines an append-only log with a length check; no lost updates; saving and rebuilding an
    aggregate is the identity; replay handles exactly the matching events.
  \<^item> \<open>Idempotency\<close>, \<open>packages/application/src/idempotency\<close>: the idempotency store and the
    idempotent use case, split at its awaits. Shown: for every interleaving of requests at most
    one execution of a key within its time to live.
  \<^item> \<open>Mediator\<close>, \<open>packages/application/src/cqrs\<close>, \<open>mediator\<close>: buses, the pipeline of
    behaviors, read models and rebuilds. Shown: order of behaviors, missing handlers, rebuilds
    from an empty store.

  Processes and reliability.
  \<^item> \<open>Saga\<close>, \<open>packages/saga/src\<close>: saga transactions with compensation, choreography, the
    saga store and monitor. Shown: rollback runs the compensations once in reverse; with inverse
    compensations it restores the world.
  \<^item> \<open>Process_Manager\<close>, \<open>packages/process-manager/src\<close>: state machines, correlation,
    timeouts. Shown: states follow the transition rules; lookup by correlation finds exactly the
    carrying process.
  \<^item> \<open>Outbox\<close>, \<open>packages/outbox/src\<close>: outbox, inbox, the relay with back-off and dead
    letters. Shown: what a relay run does to every message; a batch of dead letters blocks the
    relay.
  \<^item> \<open>Resilience\<close>, \<open>packages/resilience/src\<close>: circuit breaker, bulkhead, rate limiter,
    retry, hedge, health. Shown: for every interleaving the breaker follows the failure streak
    and the bulkhead its limits and order; bounds on granted tokens.
  \<^item> \<open>Cron\<close>, \<open>packages/scheduler/src/CronParser.ts\<close>: cron expressions. Shown: parsing
    always returns and gives values in range; printed fields are parsed to what they denote.
  \<^item> \<open>Scheduler\<close>, \<open>packages/scheduler/src\<close>: jobs, limiters, executions with retries,
    history, statistics. Shown: statistics, records and history agree after any interleaving;
    concurrency limits hold.

  Data access and caching.
  \<^item> \<open>Cache\<close>, \<open>packages/cache-redis/src/strategies\<close>: in-memory and two-level cache,
    stampede lock, tags, warmer. Shown: no stale hits in the two-level cache over any ports that
    keep the contract; one computation at a time; the tag indexes are inverse.
  \<^item> \<open>Bloom\<close>, \<open>packages/cache-redis/src/strategies/BloomFilter.ts\<close>: the Bloom filter on
    machine words. Shown: no false negatives.
  \<^item> \<open>Persistence_Query\<close>, \<open>packages/persistence/src/query\<close>: data loader, query cache,
    repeated-query detector, pool monitor. Shown: every load is settled with its own value;
    pruning keeps what is detected.
  \<^item> \<open>Schema_Registry\<close>, \<open>packages/schema-registry/src\<close>: subjects, versions, compatibility
    modes. Shown: versions are numbered without gaps; full mode never loses a field.

  Messaging.
  \<^item> \<open>Messaging\<close>, \<open>packages/messaging/src/pubsub\<close>: topic router, broker, filter, request
    and reply. Shown: an envelope reaches exactly the subscriptions whose pattern denotes its
    topic; a reply answers the request it belongs to.
  \<^item> \<open>Streams\<close>, \<open>packages/streams/src\<close>: push streams, operators, windows, merge and zip,
    back-pressure. Shown: what a subscriber is told; operators are the list functions; zip and
    merge for every interleaving.
  \<^item> \<open>Websocket\<close>, \<open>packages/websocket/src\<close>: rooms, connections, server, reconnection
    delays. Shown: rooms refine a relation; whom a broadcast reaches.
  \<^item> \<open>Discovery\<close>, \<open>packages/discovery/src\<close>: registry with watchers, load balancers, health
    checks. Shown: watchers know what discovery returns; balancers are fair or minimal.
  \<^item> \<open>Notifications\<close>, \<open>packages/notifications/src\<close>: rate limits, preferences, templates,
    retry and managed adapters. Shown: the rate bound in every window; who gets nothing; how
    templates are filled.

  Security and configuration.
  \<^item> \<open>Api_Keys\<close>, \<open>packages/security/src\<close>: API keys, usage limits, the cache of signing
    keys. Shown: a key works exactly until it is withdrawn or expires.
  \<^item> \<open>Encryption\<close>, \<open>packages/security/src\<close>: field and envelope encryption, rotation,
    masking. Shown: what was encrypted is decrypted after any rotations, over any cipher that
    keeps its law.
  \<^item> \<open>Authentication\<close>, \<open>packages/security/src\<close>: certificate chains, tokens, roles. Shown:
    which chains and tokens are accepted; what a role engine allows.
  \<^item> \<open>Secrets\<close>, \<open>packages/secrets/src\<close>: environment, cache and fallback adapters. Shown:
    the cache is transparent when nothing interleaves; what a racing write does.
  \<^item> \<open>Configuration\<close>, \<open>packages/config/src\<close>: sources, loader, hot reload, profiles, the
    configuration server. Shown: precedence of sources; reading a written environment file;
    single reads against the listing.
  \<^item> \<open>Features\<close>, \<open>extras/features/src\<close>: targeting, rollout, variants. Shown: buckets are
    split by weight; when a flag is on.

  Release and architecture.
  \<^item> \<open>Deployment\<close>, \<open>extras/k8s/src\<close>: blue-green switches and canary releases. Shown:
    traffic stays on a ready slot; canary shares stay percentages; what handlers are told.
  \<^item> \<open>Architecture\<close>, \<open>packages/architecture-tests/src/analyzers/DependencyAnalyzer.ts\<close>:
    package graphs, cycles, layers. Shown: the depth-first search ends and finds a cycle exactly
    when there is one.
  \<^item> \<open>Cqrs_Analyzer\<close>, \<open>packages/architecture-tests/src/analyzers/CQRSAnalyzer.ts\<close>: the scan
    for commands and queries and its rules. Shown: what the report holds and hides.
  \<^item> \<open>Ddd_Analyzer\<close>, \<open>packages/architecture-tests/src/analyzers/DDDAnalyzer.ts\<close>: the scan
    for domain objects and its rules. Shown: how class bodies are cut; what the rules see.

  Observability.
  \<^item> \<open>Metrics\<close>, \<open>packages/observability/src/metrics\<close>: counters, gauges, histograms,
    fan-out, Prometheus and DataDog texts. Shown: series share an entry exactly when they are the
    same; the store is the ledger of its calls; percentiles are nearest-rank.
  \<^item> \<open>Slo_Cost\<close>, \<open>packages/observability/src/slo\<close>, \<open>cost\<close>, \<open>green\<close>: indicators, objectives,
    cost and carbon reports. Shown: when the error budget is used up and why no burn alert is
    sent; what the idle report names; sums add up.
  \<^item> \<open>Profiling\<close>, \<open>packages/observability/src/performance\<close>, \<open>memory\<close>, \<open>logging\<close>: timings,
    budgets, heap snapshots, leaks, alerts, log decorators, redaction. Shown: what a monitor
    reports; leaks are growing windows; no error is lost; personal data is hidden at any depth.

  Contracts.
  \<^item> \<open>Contracts\<close>, \<open>packages/contracts/src\<close>: semantic versions, API versions, builders of
    OpenAPI documents. Shown: which texts are versions; printing and parsing; the order of
    versions; what a built document holds.

  Authorization.
  \<^item> \<open>Url_Params\<close>, \<open>URLSearchParams\<close>, \<open>TextEncoder\<close>, \<open>btoa as used by
    packages/security/src\<close>: form encoding, UTF-8, base64 of URLs. Shown: what a receiver reads is
    what was set.
  \<^item> \<open>Oauth\<close>, \<open>packages/security/src/oauth\<close>, \<open>sso\<close>: PKCE, authorization code and client
    credentials flows, introspection, OIDC, SSO providers, SAML. Shown: what a server is sent;
    what a reply is taken for; the challenge reveals the verifier; when an assertion is accepted.

  Validation, errors, audit.
  \<^item> \<open>Validation\<close>, \<open>packages/validation/src\<close>, \<open>packages/errors/src\<close>,
    \<open>packages/kernel/src/errors\<close>: validators and their combination, validation errors, problem
    details. Shown: what a combination collects; which status an error has; what leaves the
    program.
  \<^item> \<open>Audit_Trail\<close>, \<open>packages/audit/src\<close>: entries, storage, service, compliance reports,
    audited functions. Shown: the trail holds one entry per call with distinct ids; pages cover
    the matches; what a report counts; when a call is recorded.

  Identity, routing, Redis.
  \<^item> \<open>Radix36\<close>, \<open>numbers in base 36\<close>: digits, their reading and their order. Shown: used by
    the identifiers of audit entries and Identity.
  \<^item> \<open>Identity\<close>, \<open>packages/kernel/src/identity\<close>, \<open>multitenancy\<close>, \<open>ddd\<close>: creation of
    identifiers, tenant context and metrics, event recorder. Shown: identifiers sort as their
    times until 2059; tenants do not mix.
  \<^item> \<open>Content_Routing\<close>, \<open>packages/messaging/src/pubsub/ContentRouter.ts\<close>: filters over
    fields, delivery. Shown: who receives an envelope; what an error stops.
  \<^item> \<open>Query_Planner\<close>, \<open>packages/persistence/src/query/QueryPlanner.ts\<close>: slow queries, index
    recommendations, plans. Shown: which tables and columns are recommended.
  \<^item> \<open>Redis_Adapters\<close>, \<open>packages/cache-redis/src\<close>: cache, lock, publish-subscribe over a
    Redis client. Shown: mutual exclusion of disciplined clients and how withLock breaks it;
    channels subscribed.

  Storage and search.
  \<^item> \<open>Object_Storage\<close>, \<open>packages/storage/src\<close>: objects in memory, parts, ranges, paths of
    local files. Shown: a download gives the last upload; parts are joined in order; when a file
    stays below the base.
  \<^item> \<open>Search\<close>, \<open>packages/search/src\<close>: indices, queries, filters, facets, sorting, pages,
    suggestions. Shown: pages give each match once and sorted; what facets count; suggestions.

  Message brokers.
  \<^item> \<open>Json_Text\<close>, \<open>JSON.stringify and JSON.parse as the brokers use them\<close>: printing and a
    recursive reader with fuel. Shown: what was printed reads back; twice the length of the text
    is enough fuel.
  \<^item> \<open>Broker_Base\<close>, \<open>packages/messaging/src/envelope and what the three consumers share\<close>:
    envelopes as JSON, identifiers processed. Shown: a window holds the last identifiers, in both
    orders of adding and dropping.
  \<^item> \<open>Rabbitmq\<close>, \<open>packages/messaging-rabbitmq/src\<close>: pool of channels, publisher, consumer
    with retries and dead letters, reconnection. Shown: the life of a failing message; which
    channel acknowledges; redeliveries and copies; when a connection comes back.
  \<^item> \<open>Kafka\<close>, \<open>packages/messaging-kafka/src\<close>: publisher with transactions, consumer with
    manual commits, health. Shown: commits follow successes; all or abort; what a handler gets.
  \<^item> \<open>Eventbridge\<close>, \<open>packages/messaging-eventbridge/src\<close>: batches, counters, consumer that
    polls a queue. Shown: each event sent once; publisher and consumer composed; loops of polls.

  Web.
  \<^item> \<open>Sse\<close>, \<open>packages/web/src/sse\<close>: events and their texts, buffer, emitter. Shown: an
    event reads back; what a reconnecting client gets; a line break in a name.
  \<^item> \<open>Csp\<close>, \<open>packages/web/src/csp\<close>: policies and their headers, nonces, monitor of
    violations. Shown: a policy reads back; semicolons and repeated directives; reports kept and
    handlers called.
  \<^item> \<open>Http_Chain\<close>, \<open>packages/web/src/http\<close>, \<open>middlewares\<close>: chain of middlewares with a
    shared index, correlation identifiers. Shown: the chain is a composition when next is called
    once; a second call passes a guard.
  \<^item> \<open>Hypermedia\<close>, \<open>packages/web/src/hateoas\<close>: links, HAL and JSON:API documents. Shown:
    what a document holds.
  \<^item> \<open>Web_Express\<close>, \<open>packages/web-express/src\<close>: errors, logging, correlation, validation,
    contexts, controllers. Shown: every request is answered once; what a failed validation says;
    how often next is called.
  \<^item> \<open>Web_Fastify\<close>, \<open>packages/web-fastify/src\<close>: hooks, error documents, controllers, users
    from tokens. Shown: any identity can be claimed; one correlation identifier per request;
    statuses of errors.
  \<^item> \<open>Web_Nest\<close>, \<open>packages/web-nestjs/src\<close>: rate limits, idempotency, correlation, error
    mapping, validation. Shown: what a window allows; what the guard sees; where the three
    frameworks differ.
  \<^item> \<open>Graphql\<close>, \<open>packages/web-graphql/src\<close>: batching loader, operations, subscriptions,
    problem details, schema fragments. Shown: one batch per tick, each promise settled at most
    once; rejected batches; what is run.

  Mail and repositories.
  \<^item> \<open>Email\<close>, \<open>packages/email/src\<close>: messages, adapters of the providers, templates,
    tracking. Shown: what a batch reports and hands over; what an adapter drops; names that add
    recipients.
  \<^item> \<open>Repositories\<close>, \<open>packages/persistence-prisma/src\<close>, \<open>persistence-mongodb/src\<close>,
    \<open>persistence-typeorm/src\<close>: repositories, paginators, units of work over drivers. Shown: each
    repository fulfils one contract and is a map; pages cover the rows; what a transaction
    commits.

  Data and integration.
  \<^item> \<open>Pipelines\<close>, \<open>extras/data-pipeline/src\<close>: sources, transformers, batches, streams, dead
    letters, validation. Shown: batches are the split of the items; every item is counted once;
    what reprocessing keeps.
  \<^item> \<open>Data_Quality\<close>, \<open>extras/data-quality/src\<close>: validation, profiles, anomalies, metrics,
    reports. Shown: outliers are few; metrics are fractions; the mean lies between its extremes;
    the two validators agree.
  \<^item> \<open>Cdc\<close>, \<open>extras/cdc/src\<close>: normalisation, filter, transformation and delivery of change
    events. Shown: the processor is the composition of its parts; dropped and masked fields; rows
    and names that are lost.
  \<^item> \<open>Acl\<close>, \<open>extras/acl/src\<close>: registries of translators, converters, adapters, facades.
    Shown: what a registry answers with; keys of formats that collide; composition.
  \<^item> \<open>Gateway\<close>, \<open>extras/gateway/src\<close>: validators and documents for Kong, AWS and Azure.
    Shown: a route is accepted exactly when it satisfies its conditions; which limits reach a
    gateway.
  \<^item> \<open>Incidents\<close>, \<open>extras/incidents/src\<close>: incidents, updates, post-mortems, alert adapters.
    Shown: an incident follows its updates over every run; the timeline; refusals taken for
    success.
  \<^item> \<open>Bff\<close>, \<open>extras/bff/src\<close>: aggregation, shaping, fields, routing by client. Shown:
    results in the answer and its status; sequential and parallel aggregation agree; names of
    failed fields.

  Bounds and fuel. The depth-first search for cycles takes a fuel of two more than the number of
  packages, which is shown to be enough; the expansion of cron ranges is a partial function and
  is shown to return for every parsed field; every other loop is structural or has a termination
  proof. Counters, versions and timestamps are unbounded integers, so rounding beyond the 53 bits
  of a number is not covered; strings are lists of 8-bit characters.

  Not modelled: adapters that only call a client library (databases, brokers, cloud storage,
  mail, HTTP frameworks, OpenTelemetry), generators of text for other tools (Dockerfiles, Helm,
  Terraform, source code), editor and documentation packages, tests and examples. What a modelled
  component needs of such code is an argument of its definitions, with its documented behaviour
  as a named hypothesis where a theorem relies on it.
\<close>

end
